(* ===== verification/Prelude.thy ===== *)
theory Prelude
  imports Main "HOL-Library.Monad_Syntax" "HOL-Library.AList"
begin

text \<open>
  Shared vocabulary of the development.

  \<^item> Machine integers. A \<^verbatim>\<open>u64\<close> of the Rust sources is a \<^typ>\<open>nat\<close> below \<open>u64_bound\<close>;
    the operations that may leave the range are written with the wrap-around of a
    release build (\<open>u64_add\<close>, \<open>u64_mul\<close>, \<open>u64_sub\<close>), so that a statement that excludes
    overflow has to say so.
  \<^item> Panics. A function of the sources that may panic (\<^verbatim>\<open>expect\<close>, \<^verbatim>\<open>assert!\<close>, a slice out of
    range) returns an \<^typ>\<open>'a option\<close> here, and \<^const>\<open>None\<close> is the panic.
  \<^item> Errors. A \<^verbatim>\<open>Result<T, E>\<close> is a sum \<^typ>\<open>'e + 'a\<close> with \<^const>\<open>Inl\<close> for the error; \<open>and_then\<close>
    is the \<^verbatim>\<open>?\<close> operator.
  \<^item> \<^verbatim>\<open>HashMap\<close>. A map is the association list of its entries in iteration order, with
    pairwise distinct keys (\<open>hm_wf\<close>). A statement about every such list is a statement
    about every iteration order.
  \<^item> \<^verbatim>\<open>slice::binary_search_by_key\<close> is the loop of the Rust standard library, proved to
    find the insertion point on strictly sorted keys.
\<close>

named_theorems u64_simps \<open>u64 operations that stay in range\<close>
named_theorems hm_simps \<open>lookups after HashMap operations\<close>

subsection \<open>Identifiers and scalar types\<close>

text \<open>UUIDs are compared and stored, never inspected; they are natural numbers here.\<close>

type_synonym chunk_id = nat
type_synonym block_id = nat
type_synonym vlob_id = nat
type_synonym device_id = nat
type_synonym user_id = nat
type_synonym date_time = int
type_synonym byte = nat
type_synonym u64 = nat
type_synonym hash_digest = nat

text \<open>The secret key of the device (\<^verbatim>\<open>local_symkey\<close>), which encrypts the local databases.\<close>

record device_key =
  dk_encrypt :: "byte list \<Rightarrow> byte list"
  dk_decrypt :: "byte list \<Rightarrow> byte list option"

definition key_ok :: "device_key \<Rightarrow> bool" where
  "key_ok dk \<longleftrightarrow> (\<forall>x. dk_decrypt dk (dk_encrypt dk x) = Some x)"

subsection \<open>u64 arithmetic\<close>

definition u64_bound :: nat where
  "u64_bound = 2 ^ 64"

definition u64_add :: "u64 \<Rightarrow> u64 \<Rightarrow> u64" where
  "u64_add a b = (a + b) mod u64_bound"

definition u64_mul :: "u64 \<Rightarrow> u64 \<Rightarrow> u64" where
  "u64_mul a b = (a * b) mod u64_bound"

definition u64_sub :: "u64 \<Rightarrow> u64 \<Rightarrow> u64" where
  "u64_sub a b = (a + (u64_bound - b mod u64_bound)) mod u64_bound"

definition u32_add :: "nat \<Rightarrow> nat \<Rightarrow> nat" where
  "u32_add a b = (a + b) mod 2 ^ 32"

definition checked_sub :: "u64 \<Rightarrow> u64 \<Rightarrow> u64 option" where
  "checked_sub a b = (if b \<le> a then Some (a - b) else None)"

definition non_zero :: "u64 \<Rightarrow> u64 option" where
  "non_zero a = (if a = 0 then None else Some a)"

definition div_ceil :: "u64 \<Rightarrow> u64 \<Rightarrow> u64" where
  "div_ceil a b = (if a mod b = 0 then a div b else a div b + 1)"

lemma u64_bound_pos [simp]: "0 < u64_bound"
  by (simp add: u64_bound_def)

lemma u64_add_in_range [u64_simps]: "a + b < u64_bound \<Longrightarrow> u64_add a b = a + b"
  by (simp add: u64_add_def)

lemma u64_mul_in_range [u64_simps]: "a * b < u64_bound \<Longrightarrow> u64_mul a b = a * b"
  by (simp add: u64_mul_def)

lemma u64_add_le: "u64_add a b \<le> a + b"
  by (simp add: u64_add_def)

lemma u64_sub_in_range [u64_simps]:
  assumes "b \<le> a" "a < u64_bound" shows "u64_sub a b = a - b"
proof -
  from assms have "b mod u64_bound = b" by simp
  moreover have "a + (u64_bound - b) = (a - b) + u64_bound" using assms by simp
  ultimately have "u64_sub a b = ((a - b) + u64_bound) mod u64_bound"
    by (simp add: u64_sub_def)
  also have "\<dots> = (a - b) mod u64_bound" by (rule mod_add_self2)
  also have "\<dots> = a - b" using assms by (intro mod_less) simp
  finally show ?thesis .
qed

lemma checked_sub_Some [simp]: "b \<le> a \<Longrightarrow> checked_sub a b = Some (a - b)"
  by (simp add: checked_sub_def)

lemma non_zero_Some [simp]: "0 < a \<Longrightarrow> non_zero a = Some a"
  by (simp add: non_zero_def)

lemma div_ceil_le_iff:
  assumes "0 < b" shows "i < div_ceil a b \<longleftrightarrow> i * b < a"
proof -
  have split: "a = a div b * b + a mod b" by simp
  show ?thesis
  proof (cases "a mod b = 0")
    case True
    with split have a: "a = a div b * b" by simp
    have "i * b < a div b * b \<longleftrightarrow> i < a div b" using assms by simp
    with a True show ?thesis by (simp add: div_ceil_def)
  next
    case False
    have "i * b < a \<longleftrightarrow> i \<le> a div b"
    proof
      assume "i * b < a"
      then have "i * b div b \<le> a div b" by (intro div_le_mono) simp
      with assms show "i \<le> a div b" by simp
    next
      assume "i \<le> a div b"
      then have "i * b \<le> a div b * b" by simp
      with split False show "i * b < a" by linarith
    qed
    with False show ?thesis by (auto simp: div_ceil_def)
  qed
qed

lemma div_ceil_mult_less:
  assumes "0 < b" shows "div_ceil a b * b < a + b"
proof (cases "div_ceil a b")
  case 0
  with assms show ?thesis by simp
next
  case (Suc n)
  then have "n * b < a" using div_ceil_le_iff [OF assms, of n a] by simp
  with Suc show ?thesis by simp
qed

subsection \<open>The question mark operator\<close>

fun and_then :: "'e + 'a \<Rightarrow> ('a \<Rightarrow> 'e + 'b) \<Rightarrow> 'e + 'b" where
  "and_then (Inl e) f = Inl e"
| "and_then (Inr x) f = f x"

lemma and_then_Inr: "and_then r f = Inr y \<longleftrightarrow> (\<exists>x. r = Inr x \<and> f x = Inr y)"
  by (cases r) auto

lemma and_then_Inl: "and_then r f = Inl e \<longleftrightarrow> r = Inl e \<or> (\<exists>x. r = Inr x \<and> f x = Inl e)"
  by (cases r) auto

definition ok_or :: "'e \<Rightarrow> 'a option \<Rightarrow> 'e + 'a" where
  "ok_or e x = (case x of None \<Rightarrow> Inl e | Some y \<Rightarrow> Inr y)"

definition ensure :: "bool \<Rightarrow> 'e \<Rightarrow> 'e + unit" where
  "ensure b e = (if b then Inr () else Inl e)"

lemma ensure_Inr [simp]: "ensure b e = Inr u \<longleftrightarrow> b"
  by (auto simp: ensure_def)

lemma ensure_Inl [simp]: "ensure b e = Inl e' \<longleftrightarrow> \<not> b \<and> e' = e"
  by (auto simp: ensure_def)

lemma bind_SomeE:
  assumes "Option.bind x f = Some y" obtains v where "x = Some v" "f v = Some y"
  using assms by (cases x) auto

subsection \<open>Hash maps\<close>

type_synonym ('k, 'v) hashmap = "('k \<times> 'v) list"

abbreviation hm_wf :: "('k, 'v) hashmap \<Rightarrow> bool" where
  "hm_wf m \<equiv> distinct (map fst m)"

abbreviation hm_get :: "('k, 'v) hashmap \<Rightarrow> 'k \<Rightarrow> 'v option" where
  "hm_get m k \<equiv> map_of m k"

abbreviation hm_insert :: "'k \<Rightarrow> 'v \<Rightarrow> ('k, 'v) hashmap \<Rightarrow> ('k, 'v) hashmap" where
  "hm_insert k v m \<equiv> AList.update k v m"

abbreviation hm_remove :: "'k \<Rightarrow> ('k, 'v) hashmap \<Rightarrow> ('k, 'v) hashmap" where
  "hm_remove k m \<equiv> AList.delete k m"

definition hm_contains_key :: "('k, 'v) hashmap \<Rightarrow> 'k \<Rightarrow> bool" where
  "hm_contains_key m k = (map_of m k \<noteq> None)"

text \<open>\<^verbatim>\<open>HashMap: PartialEq\<close> compares the entries, not the iteration order.\<close>

definition hm_eq :: "('k, 'v) hashmap \<Rightarrow> ('k, 'v) hashmap \<Rightarrow> bool" where
  "hm_eq a b = list_all (\<lambda>k. map_of a k = map_of b k) (map fst a @ map fst b)"

text \<open>\<^verbatim>\<open>m.iter().map(|(k, v)| (v, k)).collect()\<close>: of two keys with one value, the later one wins.\<close>

definition hm_reversed :: "('k, 'v) hashmap \<Rightarrow> ('v, 'k) hashmap" where
  "hm_reversed m = fold (\<lambda>(k, v). hm_insert v k) m []"

lemma hm_eq_iff: "hm_eq a b \<longleftrightarrow> map_of a = map_of b"
proof
  assume eq: "hm_eq a b"
  show "map_of a = map_of b"
  proof
    fix k
    show "map_of a k = map_of b k"
    proof (cases "k \<in> set (map fst a @ map fst b)")
      case True
      with eq show ?thesis unfolding hm_eq_def list_all_iff by blast
    next
      case False
      then have "map_of a k = None" and "map_of b k = None"
        by (simp_all add: map_of_eq_None_iff)
      then show ?thesis by simp
    qed
  qed
qed (simp add: hm_eq_def list_all_iff)

lemma hm_get_insert [hm_simps]: "hm_get (hm_insert k v m) = (hm_get m)(k \<mapsto> v)"
  by (rule update_conv')

lemma hm_get_remove [hm_simps]: "hm_get (hm_remove k m) = (hm_get m)(k := None)"
  by (rule delete_conv')

lemma hm_contains_key_iff [hm_simps]: "hm_contains_key m k \<longleftrightarrow> k \<in> dom (map_of m)"
  by (auto simp: hm_contains_key_def)

subsection \<open>Binary search\<close>

function bisect_loop :: "('a \<Rightarrow> nat) \<Rightarrow> nat \<Rightarrow> 'a list \<Rightarrow> nat \<Rightarrow> nat \<Rightarrow> nat" where
  "bisect_loop key k xs base n =
     (if 1 < n
      then bisect_loop key k xs
             (if k < key (xs ! (base + n div 2)) then base else base + n div 2) (n - n div 2)
      else base)"
  by pat_completeness auto
termination
  by (relation "measure (\<lambda>(key, k, xs, base, n). n)") auto

declare bisect_loop.simps [simp del]

definition binary_search_by_key :: "('a \<Rightarrow> nat) \<Rightarrow> nat \<Rightarrow> 'a list \<Rightarrow> nat + nat" where
  "binary_search_by_key key k xs =
     (if xs = [] then Inl 0
      else let b = bisect_loop key k xs 0 (length xs)
           in if key (xs ! b) = k then Inr b
              else Inl (b + (if key (xs ! b) < k then 1 else 0)))"

definition strictly_sorted_by :: "('a \<Rightarrow> nat) \<Rightarrow> 'a list \<Rightarrow> bool" where
  "strictly_sorted_by key xs = sorted_wrt (\<lambda>x y. key x < key y) xs"

definition lower_bound :: "('a \<Rightarrow> nat) \<Rightarrow> nat \<Rightarrow> 'a list \<Rightarrow> nat" where
  "lower_bound key k xs = length (takeWhile (\<lambda>x. key x < k) xs)"

lemma strictly_sorted_by_less:
  "strictly_sorted_by key xs \<Longrightarrow> i < j \<Longrightarrow> j < length xs \<Longrightarrow> key (xs ! i) < key (xs ! j)"
  by (auto simp: strictly_sorted_by_def sorted_wrt_iff_nth_less)

lemma strictly_sorted_by_le:
  "strictly_sorted_by key xs \<Longrightarrow> i \<le> j \<Longrightarrow> j < length xs \<Longrightarrow> key (xs ! i) \<le> key (xs ! j)"
  using strictly_sorted_by_less [of key xs i j] by (cases "i = j") auto

lemma lower_bound_unique:
  assumes "b \<le> length xs" "\<And>i. i < b \<Longrightarrow> key (xs ! i) < k"
    and "b < length xs \<Longrightarrow> \<not> key (xs ! b) < k"
  shows "lower_bound key k xs = b"
proof -
  have "takeWhile (\<lambda>x. key x < k) xs = take b xs"
    by (rule takeWhile_eq_take_P_nth) (use assms in auto)
  with assms(1) show ?thesis by (simp add: lower_bound_def)
qed

lemma lower_bound_le_length: "lower_bound key k xs \<le> length xs"
  by (simp add: lower_bound_def length_takeWhile_le)

lemma lower_bound_below: "i < lower_bound key k xs \<Longrightarrow> key (xs ! i) < k"
  unfolding lower_bound_def by (metis nth_mem set_takeWhileD takeWhile_nth)

lemma lower_bound_above:
  assumes "strictly_sorted_by key xs" "lower_bound key k xs \<le> i" "i < length xs"
  shows "k \<le> key (xs ! i)"
proof -
  let ?n = "lower_bound key k xs"
  have "k \<le> key (xs ! ?n)"
    using assms(2,3) nth_length_takeWhile [of "\<lambda>x. key x < k" xs] by (simp add: lower_bound_def)
  also have "key (xs ! ?n) \<le> key (xs ! i)"
    using assms by (intro strictly_sorted_by_le)
  finally show ?thesis .
qed

lemma lower_bound_drop:
  assumes "strictly_sorted_by key xs" "x \<in> set (drop (lower_bound key k xs) xs)"
  shows "k \<le> key x"
proof -
  let ?n = "lower_bound key k xs"
  from assms(2) obtain i where "i < length xs - ?n" "x = xs ! (?n + i)"
    by (auto simp: in_set_conv_nth)
  then show ?thesis using lower_bound_above [OF assms(1), of k "?n + i"] by simp
qed

lemma bisect_loop_inv:
  assumes "strictly_sorted_by key xs" "0 < n" "base + n \<le> length xs"
    and "base = 0 \<or> key (xs ! base) \<le> k"
    and "\<And>i. base + n \<le> i \<Longrightarrow> i < length xs \<Longrightarrow> k < key (xs ! i)"
  shows "let b = bisect_loop key k xs base n in
           b < length xs \<and> (b = 0 \<or> key (xs ! b) \<le> k) \<and>
           (\<forall>i. b < i \<longrightarrow> i < length xs \<longrightarrow> k < key (xs ! i))"
  using assms
proof (induction key k xs base n rule: bisect_loop.induct)
  case (1 key k xs base n)
  show ?case
  proof (cases "1 < n")
    case True
    let ?mid = "base + n div 2"
    let ?b = "if k < key (xs ! ?mid) then base else ?mid"
    have above: "k < key (xs ! i)" if "?b + (n - n div 2) \<le> i" "i < length xs" for i
    proof (cases "k < key (xs ! ?mid)")
      case mid: True
      have "?mid \<le> i"
        using that(1) mid \<open>1 < n\<close> by (auto split: if_splits)
      then have "key (xs ! ?mid) \<le> key (xs ! i)"
        using "1.prems"(1) that(2) by (intro strictly_sorted_by_le)
      with mid show ?thesis by simp
    next
      case False
      with that "1.prems"(5) [of i] show ?thesis by (auto split: if_splits)
    qed
    have "let b = bisect_loop key k xs ?b (n - n div 2) in
           b < length xs \<and> (b = 0 \<or> key (xs ! b) \<le> k) \<and>
           (\<forall>i. b < i \<longrightarrow> i < length xs \<longrightarrow> k < key (xs ! i))"
    proof (rule "1.IH" [OF True "1.prems"(1)])
      show "0 < n - n div 2" using True by simp
      show "?b + (n - n div 2) \<le> length xs" using "1.prems"(3) by (simp split: if_split) linarith
      show "?b = 0 \<or> key (xs ! ?b) \<le> k" using "1.prems"(4) by simp
    qed (rule above)
    moreover have "bisect_loop key k xs base n = bisect_loop key k xs ?b (n - n div 2)"
      using True by (subst bisect_loop.simps) simp
    ultimately show ?thesis by simp
  next
    case False
    with "1.prems"(2) have "n = 1" by simp
    moreover have "bisect_loop key k xs base n = base"
      using False by (subst bisect_loop.simps) simp
    ultimately show ?thesis using "1.prems" by (auto simp: Let_def)
  qed
qed

lemma binary_search_by_key_sorted:
  assumes "strictly_sorted_by key xs"
  shows "binary_search_by_key key k xs =
    (let n = lower_bound key k xs
     in if n < length xs \<and> key (xs ! n) = k then Inr n else Inl n)"
proof (cases "xs = []")
  case True
  then show ?thesis by (simp add: binary_search_by_key_def lower_bound_def)
next
  case False
  define b where "b = bisect_loop key k xs 0 (length xs)"
  have b: "b < length xs" "b = 0 \<or> key (xs ! b) \<le> k"
    "\<And>i. b < i \<Longrightarrow> i < length xs \<Longrightarrow> k < key (xs ! i)"
    using bisect_loop_inv [OF assms, of "length xs" 0 k] False
    by (auto simp: b_def Let_def)
  have bs: "binary_search_by_key key k xs =
      (if key (xs ! b) = k then Inr b else Inl (b + (if key (xs ! b) < k then 1 else 0)))"
    using False by (simp add: binary_search_by_key_def b_def)
  show ?thesis
  proof (cases "key (xs ! b) < k")
    case True
    have "lower_bound key k xs = b + 1"
    proof (rule lower_bound_unique)
      show "key (xs ! i) < k" if "i < b + 1" for i
        using True strictly_sorted_by_le [OF assms, of i b] b(1) that by simp
    qed (use b in force)+
    then show ?thesis using True bs b(3) [of "b + 1"] by (auto simp: Let_def)
  next
    case ge: False
    have "lower_bound key k xs = b"
    proof (rule lower_bound_unique)
      show "key (xs ! i) < k" if "i < b" for i
        using strictly_sorted_by_less [OF assms, of i b] b(1,2) that by auto
    qed (use b ge in auto)
    then show ?thesis using ge bs b by (auto simp: Let_def)
  qed
qed

subsection \<open>Vectors\<close>

text \<open>\<^verbatim>\<open>Vec::swap_remove\<close>: the last element takes the place of the removed one.\<close>

definition swap_remove :: "nat \<Rightarrow> 'a list \<Rightarrow> 'a list" where
  "swap_remove n xs = (if Suc n = length xs then butlast xs else (butlast xs)[n := last xs])"

end
