(* ===== verification/Manifest_Types.thy ===== *)
theory Manifest_Types
  imports Prelude
begin

text \<open>
  The remote manifests of \<^verbatim>\<open>libparsec/crates/types/src/manifest.rs\<close>: the immutable, signed
  description of a file or a folder that is uploaded to the server.
  The theory holds the data errors, the realm roles, the block accesses, the file and
  folder manifests with their integrity checks (\<^verbatim>\<open>check_data_integrity\<close>) and the check of
  a manifest against the expected author, timestamp, id and version (\<^verbatim>\<open>verify\<close>).
  The main facts characterise an accepted file manifest by its geometry
  (\<open>file_blocks_geometry\<close>) and an accepted \<^verbatim>\<open>verify\<close> by the four equalities it promises.
\<close>

subsection \<open>Errors and roles\<close>

record human_handle =
  hh_email :: string
  hh_label :: string

datatype data_error =
    Decryption
  | BadSerialization
  | Signature
  | UnexpectedAuthor device_id "device_id option"
  | UnexpectedNonRootAuthor device_id
  | UnexpectedDeviceID device_id device_id
  | UnexpectedRealmID vlob_id vlob_id
  | UnexpectedUserID user_id user_id
  | UnexpectedHumanHandle human_handle human_handle
  | UnexpectedTimestamp date_time date_time
  | UnexpectedId vlob_id vlob_id
  | UnexpectedVersion nat nat
  | DataIntegrity string string

datatype realm_role = Owner | Manager | Contributor | Reader

definition can_read :: "realm_role \<Rightarrow> bool" where
  "can_read r = True"

definition can_write :: "realm_role \<Rightarrow> bool" where
  "can_write r = (r \<in> {Owner, Manager, Contributor})"

definition can_grant_non_owner_role :: "realm_role \<Rightarrow> bool" where
  "can_grant_non_owner_role r = (r \<in> {Owner, Manager})"

definition can_grant_owner_role :: "realm_role \<Rightarrow> bool" where
  "can_grant_owner_role r = (r = Owner)"

text \<open>
  Lower case of an ASCII byte. No other Unicode character lowers to a letter of the four role
  names, so the byte-wise function decides the comparisons of \<^verbatim>\<open>from_str\<close>.
\<close>

definition to_lowercase_char :: "char \<Rightarrow> char" where
  "to_lowercase_char c =
     (if 65 \<le> (of_char c :: nat) \<and> (of_char c :: nat) \<le> 90
      then char_of ((of_char c :: nat) + 32) else c)"

definition realm_role_from_str :: "string \<Rightarrow> string + realm_role" where
  "realm_role_from_str s =
     (let l = map to_lowercase_char s
      in if l = ''owner'' then Inr Owner
         else if l = ''manager'' then Inr Manager
         else if l = ''contributor'' then Inr Contributor
         else if l = ''reader'' then Inr Reader
         else Inl ''Failed to parse RealmRole'')"

fun realm_role_display :: "realm_role \<Rightarrow> string" where
  "realm_role_display Owner = ''owner''"
| "realm_role_display Manager = ''manager''"
| "realm_role_display Contributor = ''contributor''"
| "realm_role_display Reader = ''reader''"

subsection \<open>Block accesses, blocksize and manifests\<close>

record block_access =
  ba_id :: block_id
  ba_offset :: u64
  ba_size :: u64
  ba_digest :: hash_digest

type_synonym blocksize = u64

definition blocksize_try_from :: "u64 \<Rightarrow> string + blocksize" where
  "blocksize_try_from data = (if data < 8 then Inl ''Invalid blocksize'' else Inr data)"

definition DEFAULT_BLOCK_SIZE :: blocksize where
  "DEFAULT_BLOCK_SIZE = 512 * 1024"

record file_manifest =
  fm_author :: device_id
  fm_timestamp :: date_time
  fm_id :: vlob_id
  fm_parent :: vlob_id
  fm_version :: nat
  fm_created :: date_time
  fm_updated :: date_time
  fm_size :: u64
  fm_blocksize :: blocksize
  fm_blocks :: "block_access list"

type_synonym entry_name = string

record folder_manifest =
  fo_author :: device_id
  fo_timestamp :: date_time
  fo_id :: vlob_id
  fo_parent :: vlob_id
  fo_version :: nat
  fo_created :: date_time
  fo_updated :: date_time
  fo_children :: "(entry_name, vlob_id) hashmap"

record user_manifest =
  um_author :: device_id
  um_timestamp :: date_time
  um_id :: vlob_id
  um_version :: nat
  um_created :: date_time
  um_updated :: date_time

datatype child_manifest = FileChild file_manifest | FolderChild folder_manifest

subsection \<open>Integrity of a file manifest\<close>

text \<open>One iteration of the loop over the blocks, with the loop's two variables as state.\<close>

definition fm_check_block ::
  "blocksize \<Rightarrow> block_access \<Rightarrow> u64 \<times> u64 \<Rightarrow> data_error + (u64 \<times> u64)" where
  "fm_check_block bs block st =
     (let (current_offset, current_block_index) = st in
      if current_offset > ba_offset block
      then Inl (DataIntegrity ''FileManifest'' ''blocks are ordered and not overlapping'')
      else let current_offset = u64_add (ba_offset block) (ba_size block);
               block_index = ba_offset block div bs
           in if current_block_index > block_index
              then Inl (DataIntegrity ''FileManifest'' ''blocks are not sharing the same block span'')
              else let current_block_index = u64_add block_index 1;
                       last_block_index =
                         u64_sub (u64_add (ba_offset block) (ba_size block)) 1 div bs
                   in if last_block_index \<noteq> block_index
                      then Inl (DataIntegrity ''FileManifest''
                                  ''blocks are not spanning over multiple block spans'')
                      else Inr (current_offset, current_block_index))"

fun fm_check_blocks ::
  "blocksize \<Rightarrow> block_access list \<Rightarrow> u64 \<times> u64 \<Rightarrow> data_error + (u64 \<times> u64)" where
  "fm_check_blocks bs [] st = Inr st"
| "fm_check_blocks bs (b # blocks) st =
     and_then (fm_check_block bs b st) (fm_check_blocks bs blocks)"

definition fm_check_data_integrity :: "file_manifest \<Rightarrow> data_error + unit" where
  "fm_check_data_integrity m =
     (if fm_id m = fm_parent m
      then Inl (DataIntegrity ''FileManifest'' ''id and parent are different'')
      else and_then (fm_check_blocks (fm_blocksize m) (fm_blocks m) (0, 0))
             (\<lambda>(current_offset, _).
                ensure (current_offset \<le> fm_size m)
                  (DataIntegrity ''FileManifest'' ''file size is not exceeded'')))"

text \<open>\<^verbatim>\<open>FileManifest::new\<close> panics on a manifest that fails its own check.\<close>

definition file_manifest_new ::
  "device_id \<Rightarrow> date_time \<Rightarrow> vlob_id \<Rightarrow> vlob_id \<Rightarrow> nat \<Rightarrow> date_time \<Rightarrow> date_time \<Rightarrow> u64 \<Rightarrow>
   blocksize \<Rightarrow> block_access list \<Rightarrow> file_manifest option" where
  "file_manifest_new author timestamp i parent version created updated sz bs blocks =
     (let manifest = \<lparr>fm_author = author, fm_timestamp = timestamp, fm_id = i,
            fm_parent = parent, fm_version = version, fm_created = created,
            fm_updated = updated, fm_size = sz, fm_blocksize = bs, fm_blocks = blocks\<rparr>
      in case fm_check_data_integrity manifest of Inl _ \<Rightarrow> None | Inr _ \<Rightarrow> Some manifest)"

subsection \<open>Integrity of a folder manifest\<close>

definition fo_check_data_integrity :: "folder_manifest \<Rightarrow> data_error + unit" where
  "fo_check_data_integrity m = Inr ()"

definition fo_check_data_integrity_as_child :: "folder_manifest \<Rightarrow> data_error + unit" where
  "fo_check_data_integrity_as_child m =
     and_then (fo_check_data_integrity m)
       (\<lambda>_. ensure (fo_id m \<noteq> fo_parent m)
          (DataIntegrity ''FolderManifest'' ''id and parent are different for child manifest''))"

definition fo_check_data_integrity_as_root :: "folder_manifest \<Rightarrow> data_error + unit" where
  "fo_check_data_integrity_as_root m =
     and_then (fo_check_data_integrity m)
       (\<lambda>_. ensure (fo_id m = fo_parent m)
          (DataIntegrity ''FolderManifest'' ''id and parent are the same for root manifest''))"

definition fo_is_root :: "folder_manifest \<Rightarrow> bool" where
  "fo_is_root m = (fo_id m = fo_parent m)"

subsection \<open>Verification against the expected values\<close>

text \<open>The body of the macro \<^verbatim>\<open>impl_manifest_verify!\<close>, over the four fields it reads.\<close>

definition manifest_verify ::
  "device_id \<Rightarrow> date_time \<Rightarrow> vlob_id \<Rightarrow> nat \<Rightarrow>
   device_id \<Rightarrow> date_time \<Rightarrow> vlob_id option \<Rightarrow> nat option \<Rightarrow> data_error + unit" where
  "manifest_verify author timestamp i version
       expected_author expected_timestamp expected_id expected_version =
     (if author \<noteq> expected_author then Inl (UnexpectedAuthor expected_author (Some author))
      else if timestamp \<noteq> expected_timestamp
           then Inl (UnexpectedTimestamp expected_timestamp timestamp)
      else and_then
             (case expected_id of
                None \<Rightarrow> Inr ()
              | Some expected \<Rightarrow> ensure (i = expected) (UnexpectedId expected i))
             (\<lambda>_. case expected_version of
                None \<Rightarrow> Inr ()
              | Some expected \<Rightarrow> ensure (version = expected) (UnexpectedVersion expected version)))"

fun cm_check_data_integrity :: "child_manifest \<Rightarrow> data_error + unit" where
  "cm_check_data_integrity (FileChild file) = fm_check_data_integrity file"
| "cm_check_data_integrity (FolderChild folder) = fo_check_data_integrity_as_child folder"

fun cm_verify ::
  "child_manifest \<Rightarrow> device_id \<Rightarrow> date_time \<Rightarrow> vlob_id option \<Rightarrow> nat option \<Rightarrow> data_error + unit"
where
  "cm_verify (FileChild f) a t i v =
     manifest_verify (fm_author f) (fm_timestamp f) (fm_id f) (fm_version f) a t i v"
| "cm_verify (FolderChild f) a t i v =
     manifest_verify (fo_author f) (fo_timestamp f) (fo_id f) (fo_version f) a t i v"

text \<open>
  The macro \<^verbatim>\<open>impl_manifest_load!\<close> for \<^verbatim>\<open>ChildManifest\<close>. Decryption, signature check and
  deserialization belong to the cryptography and serialization libraries: they are the
  parameters \<open>decrypt\<close>, \<open>verify_signature\<close> and \<open>format_vx_load\<close>, and \<^const>\<open>None\<close> is their failure.
\<close>

definition cm_verify_and_load ::
  "('vk \<Rightarrow> 'bytes \<Rightarrow> 'bytes option) \<Rightarrow> ('bytes \<Rightarrow> child_manifest option) \<Rightarrow> 'bytes \<Rightarrow> 'vk \<Rightarrow>
   device_id \<Rightarrow> date_time \<Rightarrow> vlob_id option \<Rightarrow> nat option \<Rightarrow> data_error + child_manifest" where
  "cm_verify_and_load verify_signature format_vx_load signed author_verify_key
       expected_author expected_timestamp expected_id expected_version =
     and_then (ok_or Signature (verify_signature author_verify_key signed)) (\<lambda>serialized.
     and_then (ok_or BadSerialization (format_vx_load serialized)) (\<lambda>obj.
     and_then (cm_check_data_integrity obj) (\<lambda>_.
     and_then (cm_verify obj expected_author expected_timestamp expected_id expected_version) (\<lambda>_.
     Inr obj))))"

definition cm_decrypt_verify_and_load ::
  "('k \<Rightarrow> 'bytes \<Rightarrow> 'bytes option) \<Rightarrow> ('vk \<Rightarrow> 'bytes \<Rightarrow> 'bytes option) \<Rightarrow>
   ('bytes \<Rightarrow> child_manifest option) \<Rightarrow> 'bytes \<Rightarrow> 'k \<Rightarrow> 'vk \<Rightarrow>
   device_id \<Rightarrow> date_time \<Rightarrow> vlob_id option \<Rightarrow> nat option \<Rightarrow> data_error + child_manifest" where
  "cm_decrypt_verify_and_load decrypt verify_signature format_vx_load encrypted key
       author_verify_key expected_author expected_timestamp expected_id expected_version =
     and_then (ok_or Decryption (decrypt key encrypted)) (\<lambda>signed.
     cm_verify_and_load verify_signature format_vx_load signed author_verify_key
       expected_author expected_timestamp expected_id expected_version)"

subsection \<open>What an accepted file manifest looks like\<close>

fun cm_author :: "child_manifest \<Rightarrow> device_id" where
  "cm_author (FileChild f) = fm_author f"
| "cm_author (FolderChild f) = fo_author f"

fun cm_timestamp :: "child_manifest \<Rightarrow> date_time" where
  "cm_timestamp (FileChild f) = fm_timestamp f"
| "cm_timestamp (FolderChild f) = fo_timestamp f"

fun cm_id :: "child_manifest \<Rightarrow> vlob_id" where
  "cm_id (FileChild f) = fm_id f"
| "cm_id (FolderChild f) = fo_id f"

fun cm_parent :: "child_manifest \<Rightarrow> vlob_id" where
  "cm_parent (FileChild f) = fm_parent f"
| "cm_parent (FolderChild f) = fo_parent f"

fun cm_version :: "child_manifest \<Rightarrow> nat" where
  "cm_version (FileChild f) = fm_version f"
| "cm_version (FolderChild f) = fo_version f"

definition block_stop :: "block_access \<Rightarrow> nat" where
  "block_stop b = ba_offset b + ba_size b"

text \<open>
  The rules listed in the comment of \<^verbatim>\<open>check_data_integrity\<close>: every block lies in one block span and
  below the file size, and the spans (hence the blocks) appear in strictly increasing order.
\<close>

definition block_in_span :: "blocksize \<Rightarrow> block_access \<Rightarrow> bool" where
  "block_in_span bs b \<longleftrightarrow> block_stop b \<le> (ba_offset b div bs + 1) * bs"

definition file_blocks_geometry :: "blocksize \<Rightarrow> u64 \<Rightarrow> block_access list \<Rightarrow> bool" where
  "file_blocks_geometry bs sz blocks \<longleftrightarrow>
     (\<forall>b \<in> set blocks. block_in_span bs b \<and> block_stop b \<le> sz) \<and>
     sorted_wrt (\<lambda>a b. ba_offset a div bs < ba_offset b div bs) blocks"

text \<open>No block reaches past the last address a u64 can hold.\<close>

definition blocks_in_range :: "block_access list \<Rightarrow> bool" where
  "blocks_in_range blocks \<longleftrightarrow> (\<forall>b \<in> set blocks. 0 < ba_size b \<and> block_stop b < u64_bound)"

lemma div_last_in_span:
  fixes off sz bs :: nat
  assumes "0 < bs" "0 < sz"
  shows "(off + sz - 1) div bs = off div bs \<longleftrightarrow> off + sz \<le> (off div bs + 1) * bs"
proof
  assume eq: "(off + sz - 1) div bs = off div bs"
  have "off + sz - 1 < ((off + sz - 1) div bs + 1) * bs"
    using assms(1) by (simp add: dividend_less_div_times)
  with eq assms(2) show "off + sz \<le> (off div bs + 1) * bs" by simp
next
  assume "off + sz \<le> (off div bs + 1) * bs"
  then have "off + sz - 1 < (off div bs + 1) * bs" using assms(2) by linarith
  then have "(off + sz - 1) div bs < off div bs + 1"
    using assms(1) by (simp add: less_mult_imp_div_less)
  moreover have "off div bs \<le> (off + sz - 1) div bs"
    using assms(2) by (intro div_le_mono) simp
  ultimately show "(off + sz - 1) div bs = off div bs" by simp
qed

lemma fm_check_block_in_range:
  assumes "0 < bs" "0 < ba_size b" "block_stop b < u64_bound"
  shows "fm_check_block bs b (off, idx) = Inr st \<longleftrightarrow>
    off \<le> ba_offset b \<and> idx \<le> ba_offset b div bs \<and> block_in_span bs b \<and>
    st = (block_stop b, ba_offset b div bs + 1)"
proof -
  have "ba_offset b div bs + 1 < u64_bound"
  proof -
    have "ba_offset b div bs \<le> ba_offset b" by simp
    with assms show ?thesis unfolding block_stop_def by linarith
  qed
  then have idx: "u64_add (ba_offset b div bs) 1 = ba_offset b div bs + 1"
    by (simp add: u64_simps)
  have stop: "u64_add (ba_offset b) (ba_size b) = block_stop b"
    using assms(3) by (simp add: block_stop_def u64_simps)
  have last: "u64_sub (block_stop b) 1 = ba_offset b + ba_size b - 1"
    using assms(2,3) by (simp add: block_stop_def u64_simps)
  show ?thesis
    using div_last_in_span [OF assms(1,2), of "ba_offset b"]
    unfolding fm_check_block_def stop last block_in_span_def
    using idx by (auto simp: block_stop_def Let_def)
qed

lemma span_next:
  assumes "0 < (bs::nat)" "block_in_span bs a" "ba_offset a div bs < ba_offset b div bs"
  shows "block_stop a \<le> ba_offset b"
proof -
  have "block_stop a \<le> (ba_offset a div bs + 1) * bs"
    using assms(2) by (simp add: block_in_span_def)
  also have "\<dots> \<le> ba_offset b div bs * bs" using assms(3) by (intro mult_le_mono1) simp
  also have "\<dots> \<le> ba_offset b" by simp
  finally show ?thesis .
qed

text \<open>
  The loop, from any starting state: it succeeds exactly on blocks in increasing spans past the
  starting index and returns the end of the last block.
\<close>

lemma fm_check_blocks_iff:
  assumes "0 < bs" "blocks_in_range blocks" "off \<le> idx * bs"
  shows "(\<exists>st. fm_check_blocks bs blocks (off, idx) = Inr st \<and> fst st \<le> sz) \<longleftrightarrow>
    file_blocks_geometry bs sz blocks \<and> (blocks = [] \<longrightarrow> off \<le> sz) \<and>
    (\<forall>b \<in> set blocks. idx \<le> ba_offset b div bs)"
  using assms
proof (induction blocks arbitrary: off idx)
  case Nil
  then show ?case by (auto simp: file_blocks_geometry_def)
next
  case (Cons b blocks)
  let ?i = "ba_offset b div bs"
  have b: "0 < ba_size b" "block_stop b < u64_bound" and range: "blocks_in_range blocks"
    using Cons.prems(2) by (auto simp: blocks_in_range_def)
  have step: "fm_check_block bs b (off, idx) = Inr st \<longleftrightarrow>
      off \<le> ba_offset b \<and> idx \<le> ?i \<and> block_in_span bs b \<and> st = (block_stop b, ?i + 1)" for st
    by (rule fm_check_block_in_range [OF Cons.prems(1) b])
  have off: "off \<le> ba_offset b" if "idx \<le> ?i"
  proof -
    have "off \<le> ?i * bs" using Cons.prems(3) that by (meson le_trans mult_le_mono1)
    also have "?i * bs \<le> ba_offset b" by simp
    finally show ?thesis .
  qed
  show ?case
  proof (cases "idx \<le> ?i \<and> block_in_span bs b")
    case False
    then have "\<not> (\<exists>st. fm_check_blocks bs (b # blocks) (off, idx) = Inr st)"
      using step by (auto simp: and_then_Inr)
    moreover have "\<not> (file_blocks_geometry bs sz (b # blocks) \<and>
        (\<forall>b \<in> set (b # blocks). idx \<le> ba_offset b div bs))"
      using False by (auto simp: file_blocks_geometry_def)
    ultimately show ?thesis by blast
  next
    case True
    then have "fm_check_block bs b (off, idx) = Inr (block_stop b, ?i + 1)"
      using step off by simp
    then have "(\<exists>st. fm_check_blocks bs (b # blocks) (off, idx) = Inr st \<and> fst st \<le> sz) \<longleftrightarrow>
        (\<exists>st. fm_check_blocks bs blocks (block_stop b, ?i + 1) = Inr st \<and> fst st \<le> sz)"
      by simp
    also have "\<dots> \<longleftrightarrow> file_blocks_geometry bs sz blocks \<and> (blocks = [] \<longrightarrow> block_stop b \<le> sz) \<and>
        (\<forall>c \<in> set blocks. ?i + 1 \<le> ba_offset c div bs)"
      by (rule Cons.IH [OF Cons.prems(1) range]) (use True in \<open>simp add: block_in_span_def\<close>)
    also have "\<dots> \<longleftrightarrow> file_blocks_geometry bs sz (b # blocks) \<and>
        (\<forall>b \<in> set (b # blocks). idx \<le> ba_offset b div bs)"
    proof (cases blocks)
      case Nil
      with True show ?thesis by (auto simp: file_blocks_geometry_def)
    next
      case (Cons c cs)
      have "block_stop b \<le> sz" if "?i < ba_offset c div bs" "block_stop c \<le> sz"
        using span_next [OF \<open>0 < bs\<close>, of b c] True that by (simp add: block_stop_def)
      with True Cons show ?thesis by (auto simp: file_blocks_geometry_def Suc_le_eq)
    qed
    finally show ?thesis by simp
  qed
qed

lemma fm_check_data_integrity_iff:
  assumes "0 < fm_blocksize m" "blocks_in_range (fm_blocks m)"
  shows "fm_check_data_integrity m = Inr () \<longleftrightarrow>
    fm_id m \<noteq> fm_parent m \<and> file_blocks_geometry (fm_blocksize m) (fm_size m) (fm_blocks m)"
  using fm_check_blocks_iff [OF assms, of 0 0 "fm_size m"]
  by (auto simp: fm_check_data_integrity_def and_then_Inr split: prod.splits)

lemma manifest_verify_Inr:
  "manifest_verify a t i v ea et ei ev = Inr () \<longleftrightarrow>
     a = ea \<and> t = et \<and> (\<forall>x. ei = Some x \<longrightarrow> i = x) \<and> (\<forall>x. ev = Some x \<longrightarrow> v = x)"
  by (auto simp: manifest_verify_def and_then_Inr split: option.splits)

lemma cm_verify_Inr:
  "cm_verify m ea et ei ev = Inr () \<longleftrightarrow>
     cm_author m = ea \<and> cm_timestamp m = et \<and>
     (\<forall>x. ei = Some x \<longrightarrow> cm_id m = x) \<and> (\<forall>x. ev = Some x \<longrightarrow> cm_version m = x)"
  by (cases m) (simp_all add: manifest_verify_Inr)

end
