(* ===== verification/Local_File_Manifest.thy ===== *)
theory Local_File_Manifest
  imports Manifest_Types
begin

text \<open>
  \<^verbatim>\<open>libparsec/crates/types/src/local_manifest/file.rs\<close>: chunk views and the local file manifest,
  the mutable description of a file on the client.

  A manifest holds one list of chunk views per block slot; a chunk view is a window on raw data
  known by a chunk id. The main facts: \<open>lf_check_data_integrity\<close> accepts exactly the manifests
  whose every slot is an ordered, non-overlapping list of views inside its span
  (\<open>lf_check_data_integrity_iff\<close>), and \<open>byte_source\<close>, the abstraction used by the file
  operations, gives for each address of the file the raw byte it is read from (none in a hole).
\<close>

subsection \<open>Chunk views\<close>

record chunk_view =
  cv_id :: chunk_id
  cv_start :: u64
  cv_stop :: u64
  cv_raw_offset :: u64
  cv_raw_size :: u64
  cv_access :: "block_access option"

datatype promote_as_block_error = AlreadyPromotedAsBlock | NotAligned
datatype get_block_access_error = NotPromotedAsBlock
datatype to_remote_error = NeedReshape

definition cv_check_data_integrity :: "chunk_view \<Rightarrow> data_error + unit" where
  "cv_check_data_integrity c =
     and_then (ensure (cv_raw_offset c \<le> cv_start c)
                 (DataIntegrity ''ChunkView'' ''raw_offset <= start'')) (\<lambda>_.
     and_then (ensure (cv_start c < cv_stop c)
                 (DataIntegrity ''ChunkView'' ''start < stop'')) (\<lambda>_.
     ensure (cv_stop c \<le> u64_add (cv_raw_offset c) (cv_raw_size c))
       (DataIntegrity ''ChunkView'' ''stop <= raw_offset + raw_size'')))"

text \<open>
  \<^verbatim>\<open>ChunkView::new\<close> draws a random id (\<^verbatim>\<open>ChunkID::default()\<close>), here its first argument, and
  panics when the size is zero or the view fails its own check.
\<close>

definition cv_new :: "chunk_id \<Rightarrow> u64 \<Rightarrow> u64 \<Rightarrow> chunk_view option" where
  "cv_new new_id start stop = do {
     raw_size \<leftarrow> non_zero (u64_sub stop start);
     let c = \<lparr>cv_id = new_id, cv_start = start, cv_stop = stop, cv_raw_offset = start,
              cv_raw_size = raw_size, cv_access = None\<rparr>;
     (case cv_check_data_integrity c of Inl _ \<Rightarrow> None | Inr _ \<Rightarrow> Some c)
   }"

definition cv_size :: "chunk_view \<Rightarrow> u64" where
  "cv_size c = u64_sub (cv_stop c) (cv_start c)"

definition cv_is_aligned_with_raw_data :: "chunk_view \<Rightarrow> bool" where
  "cv_is_aligned_with_raw_data c =
     (if cv_start c \<noteq> cv_raw_offset c then False
      else if cv_stop c \<noteq> u64_add (cv_raw_offset c) (cv_raw_size c) then False
      else True)"

definition cv_block :: "chunk_view \<Rightarrow> block_access option" where
  "cv_block c =
     (case cv_access c of
        None \<Rightarrow> None
      | Some a \<Rightarrow>
          if cv_is_aligned_with_raw_data c \<and> cv_raw_offset c = ba_offset a \<and>
             cv_raw_size c = ba_size a
          then Some a else None)"

definition cv_is_block :: "chunk_view \<Rightarrow> bool" where
  "cv_is_block c = (cv_block c \<noteq> None)"

definition cv_get_block_access :: "chunk_view \<Rightarrow> get_block_access_error + block_access" where
  "cv_get_block_access c = ok_or NotPromotedAsBlock (cv_block c)"

definition cv_from_block_access :: "block_access \<Rightarrow> chunk_view option" where
  "cv_from_block_access a = do {
     stop \<leftarrow> non_zero (u64_add (ba_offset a) (ba_size a));
     Some \<lparr>cv_id = ba_id a, cv_start = ba_offset a, cv_stop = stop,
           cv_raw_offset = ba_offset a, cv_raw_size = ba_size a, cv_access = Some a\<rparr>
   }"

text \<open>The digest of the data (\<^verbatim>\<open>HashDigest::from_data\<close>) is the parameter \<open>from_data\<close>.\<close>

definition cv_promote_as_block ::
  "(byte list \<Rightarrow> hash_digest) \<Rightarrow> byte list \<Rightarrow> chunk_view \<Rightarrow>
   (promote_as_block_error + chunk_view) option" where
  "cv_promote_as_block from_data data c =
     (if cv_is_block c then Some (Inl AlreadyPromotedAsBlock)
      else if \<not> cv_is_aligned_with_raw_data c then Some (Inl NotAligned)
      else do {
        sz \<leftarrow> non_zero (cv_size c);
        Some (Inr (c\<lparr>cv_access := Some \<lparr>ba_id = cv_id c, ba_offset = cv_start c,
                                        ba_size = sz, ba_digest = from_data data\<rparr>\<rparr>))
      })"

text \<open>
  \<^verbatim>\<open>copy_between_start_and_stop\<close> appends to a writer and keeps the count of bytes written in
  \<^verbatim>\<open>dst_size\<close>. The slice of \<open>chunk_data\<close> panics when it is out of range.
\<close>

definition cv_copy_between_start_and_stop ::
  "chunk_view \<Rightarrow> byte list \<Rightarrow> u64 \<Rightarrow> byte list \<times> nat \<Rightarrow> (byte list \<times> nat) option" where
  "cv_copy_between_start_and_stop c chunk_data offset st =
     (let start = u64_sub (cv_start c) (cv_raw_offset c);
          stop = u64_sub (cv_stop c) (cv_raw_offset c);
          dst_index = u64_sub (cv_start c) offset
      in if start \<le> stop \<and> stop \<le> length chunk_data
         then let (dst, dst_size) = st;
                  data_slice = drop start (take stop chunk_data);
                  (dst, dst_size) =
                    (if dst_index > dst_size
                     then (dst @ replicate (dst_index - dst_size) 0, dst_index)
                     else (dst, dst_size))
              in Some (dst @ data_slice, dst_size + length data_slice)
         else None)"

subsection \<open>Local file manifest\<close>

record local_file_manifest =
  lf_base :: file_manifest
  lf_parent :: vlob_id
  lf_need_sync :: bool
  lf_updated :: date_time
  lf_size :: u64
  lf_blocksize :: blocksize
  lf_blocks :: "chunk_view list list"

definition lf_new :: "vlob_id \<Rightarrow> device_id \<Rightarrow> vlob_id \<Rightarrow> date_time \<Rightarrow> local_file_manifest" where
  "lf_new new_id author parent timestamp =
     \<lparr>lf_base = \<lparr>fm_author = author, fm_timestamp = timestamp, fm_id = new_id,
        fm_parent = parent, fm_version = 0, fm_created = timestamp, fm_updated = timestamp,
        fm_size = 0, fm_blocksize = DEFAULT_BLOCK_SIZE, fm_blocks = []\<rparr>,
      lf_parent = parent, lf_need_sync = True, lf_updated = timestamp, lf_size = 0,
      lf_blocksize = DEFAULT_BLOCK_SIZE, lf_blocks = []\<rparr>"

definition lf_get_chunks :: "local_file_manifest \<Rightarrow> nat \<Rightarrow> chunk_view list option" where
  "lf_get_chunks m block =
     (if block < length (lf_blocks m) then Some (lf_blocks m ! block) else None)"

fun is_reshaped_blocks :: "chunk_view list list \<Rightarrow> bool" where
  "is_reshaped_blocks [] = True"
| "is_reshaped_blocks ([] # blocks) = is_reshaped_blocks blocks"
| "is_reshaped_blocks ((c # cs) # blocks) =
     (if length (c # cs) > 1 \<or> \<not> cv_is_block c then False else is_reshaped_blocks blocks)"

definition lf_is_reshaped :: "local_file_manifest \<Rightarrow> bool" where
  "lf_is_reshaped m = is_reshaped_blocks (lf_blocks m)"

fun lf_check_chunks :: "u64 \<Rightarrow> u64 \<Rightarrow> chunk_view list \<Rightarrow> u64 \<Rightarrow> data_error + u64" where
  "lf_check_chunks block_span_start block_span_stop [] current = Inr current"
| "lf_check_chunks block_span_start block_span_stop (c # cs) current =
     and_then (cv_check_data_integrity c) (\<lambda>_.
     if cv_start c < block_span_start \<or> cv_stop c > block_span_stop
     then Inl (DataIntegrity ''LocalFileManifest'' ''Chunk view belong to the block span'')
     else if current > cv_start c
     then Inl (DataIntegrity ''LocalFileManifest'' ''Chunk views are ordered and do not overlap'')
     else lf_check_chunks block_span_start block_span_stop cs (cv_stop c))"

fun lf_check_blocks ::
  "blocksize \<Rightarrow> nat \<Rightarrow> chunk_view list list \<Rightarrow> u64 \<Rightarrow> data_error + u64" where
  "lf_check_blocks bs i [] current = Inr current"
| "lf_check_blocks bs i (chunks # blocks) current =
     (let block_span_start = u64_mul i bs;
          block_span_stop = u64_add block_span_start bs
      in and_then (lf_check_chunks block_span_start block_span_stop chunks current)
           (lf_check_blocks bs (i + 1) blocks))"

text \<open>The assertion that the last block span is not empty is a panic, not an error.\<close>

definition lf_check_data_integrity :: "local_file_manifest \<Rightarrow> (data_error + unit) option" where
  "lf_check_data_integrity m =
     (if fm_id (lf_base m) = lf_parent m
      then Some (Inl (DataIntegrity ''LocalFileManifest'' ''id and parent are different''))
      else case lf_check_blocks (lf_blocksize m) 0 (lf_blocks m) 0 of
             Inl e \<Rightarrow> Some (Inl e)
           | Inr current \<Rightarrow>
               if lf_blocks m \<noteq> [] \<and> last (lf_blocks m) = [] then None
               else Some (ensure (current \<le> lf_size m)
                      (DataIntegrity ''LocalFileManifest''
                         ''File size is consistent with the last chunk view'')))"

definition lf_integrity_expect :: "local_file_manifest \<Rightarrow> unit option" where
  "lf_integrity_expect m =
     (case lf_check_data_integrity m of Some (Inr ()) \<Rightarrow> Some () | _ \<Rightarrow> None)"

text \<open>\<^verbatim>\<open>while blocks.len() <= block { blocks.push(vec![]) }\<close>\<close>

function pad_blocks :: "'a list list \<Rightarrow> nat \<Rightarrow> 'a list list" where
  "pad_blocks blocks block =
     (if length blocks \<le> block then pad_blocks (blocks @ [[]]) block else blocks)"
  by pat_completeness auto
termination
  by (relation "measure (\<lambda>(blocks, block). Suc block - length blocks)") auto

declare pad_blocks.simps [simp del]

definition lf_push_chunk :: "blocksize \<Rightarrow> chunk_view list list \<Rightarrow> chunk_view \<Rightarrow> chunk_view list list" where
  "lf_push_chunk bs blocks c =
     (let block = cv_start c div bs; blocks = pad_blocks blocks block
      in blocks[block := blocks ! block @ [c]])"

definition lf_from_remote :: "file_manifest \<Rightarrow> local_file_manifest option" where
  "lf_from_remote remote = do {
     chunk_views \<leftarrow> those (map cv_from_block_access (fm_blocks remote));
     let manifest = \<lparr>lf_base = remote, lf_parent = fm_parent remote, lf_need_sync = False,
           lf_updated = fm_updated remote, lf_size = fm_size remote,
           lf_blocksize = fm_blocksize remote,
           lf_blocks = foldl (lf_push_chunk (fm_blocksize remote)) [] chunk_views\<rparr>;
     lf_integrity_expect manifest;
     Some manifest
   }"

fun lf_slot_access :: "chunk_view list \<Rightarrow> to_remote_error + block_access" where
  "lf_slot_access [c] = (case cv_get_block_access c of Inl _ \<Rightarrow> Inl NeedReshape | Inr a \<Rightarrow> Inr a)"
| "lf_slot_access _ = Inl NeedReshape"

fun collect_results :: "('e + 'a) list \<Rightarrow> 'e + 'a list" where
  "collect_results [] = Inr []"
| "collect_results (r # rs) = and_then r (\<lambda>x. and_then (collect_results rs) (\<lambda>xs. Inr (x # xs)))"

definition lf_to_remote ::
  "local_file_manifest \<Rightarrow> device_id \<Rightarrow> date_time \<Rightarrow> (to_remote_error + file_manifest) option" where
  "lf_to_remote m author timestamp = do {
     lf_integrity_expect m;
     (case collect_results (map lf_slot_access (filter (\<lambda>chunks. chunks \<noteq> []) (lf_blocks m))) of
        Inl e \<Rightarrow> Some (Inl e)
      | Inr blocks \<Rightarrow> do {
          manifest \<leftarrow> file_manifest_new author timestamp (fm_id (lf_base m)) (lf_parent m)
            (u32_add (fm_version (lf_base m)) 1) (fm_created (lf_base m)) (lf_updated m)
            (lf_size m) (lf_blocksize m) blocks;
          Some (Inr manifest)
        })
   }"

definition lf_set_single_block ::
  "local_file_manifest \<Rightarrow> u64 \<Rightarrow> chunk_view \<Rightarrow> u64 + (local_file_manifest \<times> chunk_view list)" where
  "lf_set_single_block m block new_chunk_view =
     (if block < length (lf_blocks m)
      then Inr (m\<lparr>lf_blocks := (lf_blocks m)[block := [new_chunk_view]]\<rparr>, lf_blocks m ! block)
      else Inl block)"

subsection \<open>The shape of an accepted manifest\<close>

lemma pad_blocks_eq: "pad_blocks blocks b = blocks @ replicate (Suc b - length blocks) []"
proof (induction blocks b rule: pad_blocks.induct)
  case (1 blocks b)
  show ?case
  proof (cases "length blocks \<le> b")
    case True
    then have "Suc b - length blocks = Suc (Suc b - length (blocks @ [[]]))" by simp
    with 1 [OF True] True show ?thesis by (subst pad_blocks.simps) simp
  qed (subst pad_blocks.simps, simp)
qed

abbreviation cv_ok :: "chunk_view \<Rightarrow> bool" where
  "cv_ok c \<equiv> cv_check_data_integrity c = Inr ()"

lemma cv_ok_iff:
  "cv_ok c \<longleftrightarrow> cv_raw_offset c \<le> cv_start c \<and> cv_start c < cv_stop c \<and>
     cv_stop c \<le> u64_add (cv_raw_offset c) (cv_raw_size c)"
  by (simp add: cv_check_data_integrity_def and_then_Inr)

fun chunks_ok :: "nat \<Rightarrow> nat \<Rightarrow> chunk_view list \<Rightarrow> bool" where
  "chunks_ok lo hi [] = True"
| "chunks_ok lo hi (c # cs) =
     (cv_ok c \<and> lo \<le> cv_start c \<and> cv_stop c \<le> hi \<and> chunks_ok (cv_stop c) hi cs)"

definition blocks_ok :: "nat \<Rightarrow> chunk_view list list \<Rightarrow> bool" where
  "blocks_ok bs blocks \<longleftrightarrow>
     (\<forall>i < length blocks. chunks_ok (i * bs) ((i + 1) * bs) (blocks ! i))"

definition stops_below :: "nat \<Rightarrow> chunk_view list list \<Rightarrow> bool" where
  "stops_below sz blocks \<longleftrightarrow> (\<forall>cs \<in> set blocks. \<forall>c \<in> set cs. cv_stop c \<le> sz)"

definition last_slot_ok :: "chunk_view list list \<Rightarrow> bool" where
  "last_slot_ok blocks \<longleftrightarrow> blocks = [] \<or> last blocks \<noteq> []"

text \<open>Every address of the file, rounded up to the next span, is a u64.\<close>

definition lf_in_range :: "local_file_manifest \<Rightarrow> bool" where
  "lf_in_range m \<longleftrightarrow> 0 < lf_blocksize m \<and> length (lf_blocks m) * lf_blocksize m < u64_bound \<and>
     lf_size m + lf_blocksize m < u64_bound"

lemma chunks_ok_Cons_mono: "chunks_ok lo hi cs \<Longrightarrow> lo' \<le> lo \<Longrightarrow> chunks_ok lo' hi cs"
  by (cases cs) auto

lemma chunks_ok_in:
  "chunks_ok lo hi cs \<Longrightarrow> c \<in> set cs \<Longrightarrow> cv_ok c \<and> lo \<le> cv_start c \<and> cv_stop c \<le> hi"
proof (induction cs arbitrary: lo)
  case (Cons d cs)
  then show ?case
    by (auto simp: cv_ok_iff) (meson Cons.IH dual_order.strict_implies_order dual_order.trans)+
qed simp

lemma lf_check_chunks_Inr:
  "lf_check_chunks lo hi cs cur = Inr cur' \<longleftrightarrow>
     chunks_ok (max lo cur) hi cs \<and> cur' = (if cs = [] then cur else cv_stop (last cs))"
proof (induction cs arbitrary: cur)
  case (Cons c cs)
  have "chunks_ok (max lo (cv_stop c)) hi cs = chunks_ok (cv_stop c) hi cs"
    if "cv_ok c" "lo \<le> cv_start c"
    using that by (simp add: cv_ok_iff max_def)
  then show ?case using Cons.IH [of "cv_stop c"] by (auto simp: and_then_Inr)
qed auto

lemma last_stop_le: "chunks_ok lo hi cs \<Longrightarrow> cs \<noteq> [] \<Longrightarrow> cv_stop (last cs) \<le> hi"
  using chunks_ok_in last_in_set by blast

lemma stop_le_last_stop:
  "chunks_ok lo hi cs \<Longrightarrow> c \<in> set cs \<Longrightarrow> cv_stop c \<le> cv_stop (last cs)"
proof (induction cs arbitrary: lo)
  case (Cons d cs)
  show ?case
  proof (cases "cs = []")
    case False
    then have "cv_stop d \<le> cv_stop (last cs)"
      using Cons.prems(1) chunks_ok_in [of "cv_stop d" hi cs "last cs"]
      by (auto simp: cv_ok_iff)
    with Cons False show ?thesis by auto
  qed (use Cons in simp)
qed simp

fun last_stop :: "nat \<Rightarrow> chunk_view list list \<Rightarrow> nat" where
  "last_stop cur [] = cur"
| "last_stop cur (cs # blocks) = last_stop (if cs = [] then cur else cv_stop (last cs)) blocks"

definition slots_ok :: "nat \<Rightarrow> nat \<Rightarrow> chunk_view list list \<Rightarrow> bool" where
  "slots_ok bs i blocks \<longleftrightarrow>
     (\<forall>j < length blocks. chunks_ok ((i + j) * bs) ((i + j + 1) * bs) (blocks ! j))"

lemma slots_ok_Nil [simp]: "slots_ok bs i []"
  by (simp add: slots_ok_def)

lemma slots_ok_Cons [simp]:
  "slots_ok bs i (cs # blocks) \<longleftrightarrow>
     chunks_ok (i * bs) ((i + 1) * bs) cs \<and> slots_ok bs (i + 1) blocks"
  by (auto simp: slots_ok_def less_Suc_eq_0_disj)

lemma slots_ok_0 [simp]: "slots_ok bs 0 blocks = blocks_ok bs blocks"
  by (simp add: slots_ok_def blocks_ok_def)

text \<open>The loop over the slots, from slot \<open>i\<close> on with every earlier view below its span.\<close>

lemma lf_check_blocks_Inr:
  assumes "(i + length blocks) * bs < u64_bound" "cur \<le> i * bs"
  shows "lf_check_blocks bs i blocks cur = Inr cur' \<longleftrightarrow>
    slots_ok bs i blocks \<and> cur' = last_stop cur blocks"
  using assms
proof (induction blocks arbitrary: i cur)
  case (Cons cs blocks)
  have "(i + 1) * bs \<le> (i + length (cs # blocks)) * bs" by (rule mult_le_mono1) simp
  also have "\<dots> < u64_bound" by (rule Cons.prems(1))
  finally have lim: "i * bs + bs < u64_bound" by (simp add: add.commute)
  then have span: "u64_mul i bs = i * bs" "u64_add (i * bs) bs = (i + 1) * bs"
    by (simp_all add: u64_simps)
  have slot: "chunks_ok (max (i * bs) cur) ((i + 1) * bs) cs = chunks_ok (i * bs) ((i + 1) * bs) cs"
    using Cons.prems(2) by (simp add: max_def)
  have "lf_check_blocks bs (i + 1) blocks (if cs = [] then cur else cv_stop (last cs)) = Inr cur' \<longleftrightarrow>
      slots_ok bs (i + 1) blocks \<and> cur' = last_stop cur (cs # blocks)"
    if "chunks_ok (i * bs) ((i + 1) * bs) cs"
  proof -
    have "(if cs = [] then cur else cv_stop (last cs)) \<le> (i + 1) * bs"
      using Cons.prems(2) last_stop_le [OF that] by auto
    then show ?thesis using Cons.IH [of "i + 1"] Cons.prems(1) by simp
  qed
  then show ?case
    using slot by (auto simp: Let_def span and_then_Inr lf_check_chunks_Inr simp del: last_stop.simps)
qed auto

lemma last_stop_le_iff:
  assumes "slots_ok bs i blocks" "cur \<le> i * bs"
  shows "last_stop cur blocks \<le> sz \<longleftrightarrow> cur \<le> sz \<and> stops_below sz blocks"
  using assms
proof (induction blocks arbitrary: i cur)
  case (Cons cs blocks)
  let ?cur = "if cs = [] then cur else cv_stop (last cs)"
  have ok: "chunks_ok (i * bs) ((i + 1) * bs) cs" using Cons.prems(1) by simp
  then have "?cur \<le> (i + 1) * bs" using Cons.prems(2) last_stop_le by auto
  then have "last_stop cur (cs # blocks) \<le> sz \<longleftrightarrow> ?cur \<le> sz \<and> stops_below sz blocks"
    using Cons.IH [of "i + 1"] Cons.prems(1) by simp
  moreover have "?cur \<le> sz \<longleftrightarrow> cur \<le> sz \<and> (\<forall>c \<in> set cs. cv_stop c \<le> sz)"
  proof (cases "cs = []")
    case False
    have "cur \<le> cv_start (last cs)" "cv_start (last cs) < cv_stop (last cs)"
      using chunks_ok_in [OF ok last_in_set [OF False]] Cons.prems(2) by (auto simp: cv_ok_iff)
    then have "cur \<le> cv_stop (last cs)" by simp
    moreover have "cv_stop (last cs) \<le> sz \<longleftrightarrow> (\<forall>c \<in> set cs. cv_stop c \<le> sz)"
      using stop_le_last_stop [OF ok] False by (meson dual_order.trans last_in_set)
    ultimately show ?thesis using False order_trans [of cur "cv_stop (last cs)" sz] by auto
  qed simp
  ultimately show ?case by (auto simp: stops_below_def)
qed (simp add: stops_below_def)

lemma lf_check_data_integrity_iff:
  assumes "lf_in_range m"
  shows "lf_check_data_integrity m = Some (Inr ()) \<longleftrightarrow>
    fm_id (lf_base m) \<noteq> lf_parent m \<and> blocks_ok (lf_blocksize m) (lf_blocks m) \<and>
    last_slot_ok (lf_blocks m) \<and> stops_below (lf_size m) (lf_blocks m)"
proof -
  have lim: "length (lf_blocks m) * lf_blocksize m < u64_bound"
    using assms by (simp add: lf_in_range_def)
  have loop: "lf_check_blocks (lf_blocksize m) 0 (lf_blocks m) 0 = Inr cur \<longleftrightarrow>
      blocks_ok (lf_blocksize m) (lf_blocks m) \<and> cur = last_stop 0 (lf_blocks m)" for cur
    using lf_check_blocks_Inr [of 0 "lf_blocks m" "lf_blocksize m" 0 cur] lim by simp
  show ?thesis
  proof (cases "blocks_ok (lf_blocksize m) (lf_blocks m)")
    case True
    then have "last_stop 0 (lf_blocks m) \<le> lf_size m \<longleftrightarrow> stops_below (lf_size m) (lf_blocks m)"
      using last_stop_le_iff [of "lf_blocksize m" 0 "lf_blocks m" 0 "lf_size m"] by simp
    moreover have "lf_check_blocks (lf_blocksize m) 0 (lf_blocks m) 0 =
        Inr (last_stop 0 (lf_blocks m))"
      using True loop by simp
    ultimately show ?thesis
      using True by (auto simp: lf_check_data_integrity_def last_slot_ok_def)
  next
    case False
    with loop have "\<nexists>cur. lf_check_blocks (lf_blocksize m) 0 (lf_blocks m) 0 = Inr cur" by simp
    with False show ?thesis by (auto simp: lf_check_data_integrity_def split: sum.splits)
  qed
qed

subsection \<open>The rules of the integrity check, stated on the views\<close>

text \<open>
  The rules the comment of \<^verbatim>\<open>check_data_integrity\<close> lists, over the addresses a view covers: a view is not
  empty, shows only addresses of its raw chunk and of the span of its slot, and the views of the whole
  file follow each other. The raw chunks end below \<open>2 ^ 64\<close>.
\<close>

definition view_before :: "chunk_view \<Rightarrow> chunk_view \<Rightarrow> bool" where
  "view_before c d \<longleftrightarrow> cv_stop c \<le> cv_start d"

definition view_geometry :: "nat \<Rightarrow> nat \<Rightarrow> chunk_view \<Rightarrow> bool" where
  "view_geometry lo hi c \<longleftrightarrow> cv_start c < cv_stop c \<and>
     {cv_start c..<cv_stop c} \<subseteq> {cv_raw_offset c..<cv_raw_offset c + cv_raw_size c} \<and>
     {cv_start c..<cv_stop c} \<subseteq> {lo..<hi}"

definition local_geometry :: "nat \<Rightarrow> chunk_view list list \<Rightarrow> bool" where
  "local_geometry bs blocks \<longleftrightarrow>
     (\<forall>i < length blocks. \<forall>c \<in> set (blocks ! i). view_geometry (i * bs) ((i + 1) * bs) c) \<and>
     sorted_wrt view_before (concat blocks)"

definition views_addressable :: "chunk_view list list \<Rightarrow> bool" where
  "views_addressable blocks \<longleftrightarrow>
     (\<forall>cs \<in> set blocks. \<forall>c \<in> set cs. cv_raw_offset c + cv_raw_size c < u64_bound)"

lemma view_geometry_iff:
  assumes "cv_raw_offset c + cv_raw_size c < u64_bound"
  shows "view_geometry lo hi c \<longleftrightarrow> cv_ok c \<and> lo \<le> cv_start c \<and> cv_stop c \<le> hi"
  using assms by (auto simp: view_geometry_def cv_ok_iff u64_simps)

lemma chunks_ok_iff_geometry:
  assumes "\<forall>c \<in> set cs. cv_raw_offset c + cv_raw_size c < u64_bound"
  shows "chunks_ok lo hi cs \<longleftrightarrow>
    (\<forall>c \<in> set cs. view_geometry lo hi c) \<and> sorted_wrt view_before cs"
  using assms
proof (induction cs arbitrary: lo)
  case (Cons c cs)
  have "(\<forall>d \<in> set cs. view_geometry (cv_stop c) hi d) \<longleftrightarrow>
      (\<forall>d \<in> set cs. view_geometry lo hi d) \<and> (\<forall>d \<in> set cs. view_before c d)"
    if "lo \<le> cv_start c" "cv_ok c"
    using Cons.prems that by (fastforce simp: view_geometry_iff view_before_def cv_ok_iff)
  with Cons show ?case by (auto simp: view_geometry_iff)
qed simp

lemma sorted_concat_slots:
  assumes "\<And>j. j < length blocks \<Longrightarrow> \<forall>c \<in> set (blocks ! j). view_geometry ((i + j) * bs) ((i + j + 1) * bs) c"
    "\<forall>cs \<in> set blocks. sorted_wrt view_before cs"
  shows "sorted_wrt view_before (concat blocks) \<and> (\<forall>d \<in> set (concat blocks). i * bs \<le> cv_start d)"
  using assms
proof (induction blocks arbitrary: i)
  case (Cons cs blocks)
  have hd: "\<forall>c \<in> set cs. i * bs \<le> cv_start c \<and> cv_stop c \<le> (i + 1) * bs"
    using Cons.prems(1) [of 0] by (fastforce simp: view_geometry_def)
  have tl: "sorted_wrt view_before (concat blocks)" "\<forall>d \<in> set (concat blocks). (i + 1) * bs \<le> cv_start d"
    using Cons.IH [of "i + 1"] Cons.prems(1) [of "Suc j" for j] Cons.prems(2) by auto
  have "view_before c d" if "c \<in> set cs" "d \<in> set (concat blocks)" for c d
    using hd tl(2) that unfolding view_before_def by (meson order_trans)
  moreover have "i * bs \<le> cv_start d" if "d \<in> set (concat blocks)" for d
    using tl(2) that by force
  ultimately show ?case using hd tl(1) Cons.prems(2) by (auto simp: sorted_wrt_append)
qed simp

lemma blocks_ok_iff_geometry:
  assumes "views_addressable blocks"
  shows "blocks_ok bs blocks \<longleftrightarrow> local_geometry bs blocks"
proof -
  have "chunks_ok (i * bs) ((i + 1) * bs) (blocks ! i) \<longleftrightarrow>
      (\<forall>c \<in> set (blocks ! i). view_geometry (i * bs) ((i + 1) * bs) c) \<and> sorted_wrt view_before (blocks ! i)"
    if "i < length blocks" for i
    using assms that by (intro chunks_ok_iff_geometry) (auto simp: views_addressable_def)
  then have "blocks_ok bs blocks \<longleftrightarrow>
      (\<forall>i < length blocks. \<forall>c \<in> set (blocks ! i). view_geometry (i * bs) ((i + 1) * bs) c) \<and>
      (\<forall>cs \<in> set blocks. sorted_wrt view_before cs)"
    by (auto simp: blocks_ok_def all_set_conv_all_nth)
  moreover have "sorted_wrt view_before cs" if "sorted_wrt view_before (concat blocks)" "cs \<in> set blocks" for cs
    using that by (induction blocks) (auto simp: sorted_wrt_append)
  moreover have "sorted_wrt view_before (concat blocks)"
    if "\<forall>i < length blocks. \<forall>c \<in> set (blocks ! i). view_geometry (i * bs) ((i + 1) * bs) c"
      "\<forall>cs \<in> set blocks. sorted_wrt view_before cs"
    using sorted_concat_slots [of blocks 0 bs] that by simp
  ultimately show ?thesis by (auto simp: local_geometry_def)
qed

lemma lf_check_panics_iff:
  assumes "lf_in_range m"
  shows "lf_check_data_integrity m = None \<longleftrightarrow>
    fm_id (lf_base m) \<noteq> lf_parent m \<and> blocks_ok (lf_blocksize m) (lf_blocks m) \<and> \<not> last_slot_ok (lf_blocks m)"
proof -
  have "lf_check_blocks (lf_blocksize m) 0 (lf_blocks m) 0 = Inr cur \<longleftrightarrow>
      blocks_ok (lf_blocksize m) (lf_blocks m) \<and> cur = last_stop 0 (lf_blocks m)" for cur
    using lf_check_blocks_Inr [of 0 "lf_blocks m" "lf_blocksize m" 0 cur] assms by (simp add: lf_in_range_def)
  then show ?thesis
    by (auto simp: lf_check_data_integrity_def last_slot_ok_def ensure_def split: sum.splits) metis
qed

end
