(* ===== verification/File_Operations.thy ===== *)
theory File_Operations
  imports Local_File_Manifest
begin

text \<open>
  \<^verbatim>\<open>libparsec/crates/client/src/workspace/transactions/file_operations.rs\<close>: how reads, writes,
  resizes and reshapes of a file are turned into operations on the chunk views of its local
  manifest.

  The routines find the views to touch by bisection. They are proved equal to reference
  definitions that look at every view of a slot (\<open>clip_before\<close>, \<open>clip_after\<close>, \<open>clip_range\<close>), and the
  theorems on whole manifests say what the operations do to \<open>byte_source\<close>, the map from file
  addresses to raw bytes, and that they keep \<^const>\<open>lf_check_data_integrity\<close>.
\<close>

subsection \<open>Slices\<close>

text \<open>\<^verbatim>\<open>xs.get(i..j).unwrap_or_default()\<close>\<close>

definition slice_get :: "'a list \<Rightarrow> nat \<Rightarrow> nat \<Rightarrow> 'a list" where
  "slice_get xs i j = (if i \<le> j \<and> j \<le> length xs then take (j - i) (drop i xs) else [])"

definition list_get :: "'a list \<Rightarrow> nat \<Rightarrow> 'a option" where
  "list_get xs i = (if i < length xs then Some (xs ! i) else None)"

definition bisect_start :: "u64 \<Rightarrow> chunk_view list \<Rightarrow> nat" where
  "bisect_start start cs =
     (case binary_search_by_key cv_start start cs of
        Inr found_index \<Rightarrow> found_index
      | Inl insert_index \<Rightarrow> insert_index - 1)"

definition bisect_stop :: "u64 \<Rightarrow> chunk_view list \<Rightarrow> nat" where
  "bisect_stop stop cs =
     (case binary_search_by_key cv_start stop cs of
        Inr found_index \<Rightarrow> found_index
      | Inl insert_index \<Rightarrow> insert_index)"

subsection \<open>Read\<close>

definition block_read :: "chunk_view list \<Rightarrow> u64 \<Rightarrow> u64 \<Rightarrow> chunk_view list option" where
  "block_read cs sz start =
     (let stop = u64_add start sz;
          start_index = bisect_start start cs;
          stop_index = bisect_stop stop cs
      in those (map (\<lambda>c. do {
                  nz \<leftarrow> non_zero stop;
                  Some (c\<lparr>cv_start := max (cv_start c) start, cv_stop := min (cv_stop c) nz\<rparr>)
                })
           (filter (\<lambda>c. cv_start c < stop \<and> cv_stop c > start)
              (slice_get cs start_index stop_index))))"

definition read_block ::
  "local_file_manifest \<Rightarrow> u64 \<Rightarrow> u64 \<Rightarrow> nat \<Rightarrow> chunk_view list option" where
  "read_block m sz offset block =
     (let bs = lf_blocksize m;
          block_start = u64_mul block bs;
          sub_start = max offset block_start;
          sub_stop = min (u64_add offset sz) (u64_add block_start bs)
      in do {
        sub_size \<leftarrow> checked_sub sub_stop sub_start;
        (case lf_get_chunks m block of
           None \<Rightarrow> Some []
         | Some cs \<Rightarrow> if cs = [] then Some [] else block_read cs sub_size sub_start)
      })"

definition prepare_read ::
  "local_file_manifest \<Rightarrow> u64 \<Rightarrow> u64 \<Rightarrow> (u64 \<times> chunk_view list) option" where
  "prepare_read m sz offset =
     (let offset = min offset (lf_size m) in do {
        rest \<leftarrow> checked_sub (lf_size m) offset;
        let sz = min sz rest;
        let start_block = offset div lf_blocksize m;
        let stop_block = div_ceil (u64_add offset sz) (lf_blocksize m);
        chunks \<leftarrow> those (map (read_block m sz offset) [start_block ..< stop_block]);
        Some (sz, concat chunks)
      })"

subsection \<open>Write\<close>

record write_operation =
  wo_chunk_view :: chunk_view
  wo_offset :: int

text \<open>\<^verbatim>\<open>as i64\<close>\<close>

definition as_i64 :: "u64 \<Rightarrow> int" where
  "as_i64 n = (if n < 2 ^ 63 then int n else int n - 2 ^ 64)"

definition block_write ::
  "chunk_view list \<Rightarrow> u64 \<Rightarrow> u64 \<Rightarrow> chunk_view \<Rightarrow> (chunk_view list \<times> chunk_id set) option" where
  "block_write cs sz start new_chunk_view =
     (let stop = u64_add start sz in
      if cs = [] then Some ([new_chunk_view], {})
      else
        let start_index = bisect_start start cs;
            stop_index = bisect_stop stop cs;
            removed_ids = set (map cv_id (slice_get cs start_index stop_index));
            before = slice_get cs 0 start_index;
            removed_ids = removed_ids - set (map cv_id before)
        in do {
          start_chunk_view \<leftarrow> list_get cs start_index;
          (new_chunk_views, removed_ids) \<leftarrow>
            (if cv_start start_chunk_view < start
             then do {
               nz \<leftarrow> non_zero start;
               Some (before @ [start_chunk_view\<lparr>cv_stop := min (cv_stop start_chunk_view) nz\<rparr>],
                     removed_ids - {cv_id start_chunk_view})
             }
             else Some (before, removed_ids));
          let new_chunk_views = new_chunk_views @ [new_chunk_view];
          (new_chunk_views, removed_ids) \<leftarrow>
            (if stop_index > 0
             then do {
               stop_chunk_view \<leftarrow> list_get cs (stop_index - 1);
               Some (if cv_stop stop_chunk_view > stop
                     then (new_chunk_views @ [stop_chunk_view\<lparr>cv_start := stop\<rparr>],
                           removed_ids - {cv_id stop_chunk_view})
                     else (new_chunk_views, removed_ids))
             }
             else Some (new_chunk_views, removed_ids));
          let after = slice_get cs stop_index (length cs);
          Some (new_chunk_views @ after, removed_ids - set (map cv_id after))
        })"

type_synonym write_state = "chunk_view list list \<times> write_operation list \<times> chunk_id set"

text \<open>
  One turn of the loop over the blocks; \<open>new_ids block\<close> is the random id drawn for the new chunk.
\<close>

definition write_block ::
  "(nat \<Rightarrow> chunk_id) \<Rightarrow> blocksize \<Rightarrow> u64 \<Rightarrow> u64 \<Rightarrow> nat \<Rightarrow> write_state \<Rightarrow> write_state option" where
  "write_block new_ids bs sz offset block st =
     (let (blocks, write_operations, removed_ids) = st;
          block_start = u64_mul block bs;
          sub_start = max offset block_start;
          sub_stop = min (u64_add offset sz) (u64_add block_start bs)
      in do {
        sub_size \<leftarrow> checked_sub sub_stop sub_start;
        let content_offset = u64_sub sub_start offset;
        stop \<leftarrow> non_zero (u64_add sub_start sub_size);
        new_chunk_view \<leftarrow> cv_new (new_ids block) sub_start stop;
        let write_operations = write_operations @
              [\<lparr>wo_chunk_view = new_chunk_view, wo_offset = as_i64 content_offset\<rparr>];
        (new_chunks, removed_ids) \<leftarrow>
          (case list_get blocks block of
             Some block_chunks \<Rightarrow> do {
               (new_chunks, more_removed_ids) \<leftarrow>
                 block_write block_chunks sub_size sub_start new_chunk_view;
               Some (new_chunks, removed_ids \<union> more_removed_ids)
             }
           | None \<Rightarrow> Some ([new_chunk_view], removed_ids));
        Some ((pad_blocks blocks block)[block := new_chunks], write_operations, removed_ids)
      })"

fun write_blocks ::
  "(nat \<Rightarrow> chunk_id) \<Rightarrow> blocksize \<Rightarrow> u64 \<Rightarrow> u64 \<Rightarrow> nat list \<Rightarrow> write_state \<Rightarrow> write_state option" where
  "write_blocks new_ids bs sz offset [] st = Some st"
| "write_blocks new_ids bs sz offset (block # rest) st =
     Option.bind (write_block new_ids bs sz offset block st)
       (write_blocks new_ids bs sz offset rest)"

definition prepare_write ::
  "(nat \<Rightarrow> chunk_id) \<Rightarrow> local_file_manifest \<Rightarrow> u64 \<Rightarrow> u64 \<Rightarrow> date_time \<Rightarrow>
   (local_file_manifest \<times> write_operation list \<times> chunk_id set) option" where
  "prepare_write new_ids m sz offset timestamp =
     (if sz = 0 then Some (m, [], {})
      else
        let bs = lf_blocksize m;
            start_block = offset div bs;
            stop_block = div_ceil (u64_add offset sz) bs
        in do {
          (blocks, write_operations, removed_ids) \<leftarrow>
            write_blocks new_ids bs sz offset [start_block ..< stop_block] (lf_blocks m, [], {});
          let new_size = max (lf_size m) (u64_add offset sz);
          Some (m\<lparr>lf_blocks := blocks, lf_need_sync := True, lf_updated := timestamp,
                  lf_size := new_size\<rparr>, write_operations, removed_ids)
        })"

subsection \<open>Resize\<close>

text \<open>\<^verbatim>\<open>while blocks.last().is_some_and(|x| x.is_empty()) { blocks.pop(); }\<close>\<close>

function pop_empty_blocks :: "'a list list \<Rightarrow> 'a list list" where
  "pop_empty_blocks blocks =
     (if blocks \<noteq> [] \<and> last blocks = [] then pop_empty_blocks (butlast blocks) else blocks)"
  by pat_completeness auto
termination
  by (relation "measure length") auto

declare pop_empty_blocks.simps [simp del]

definition prepare_truncate ::
  "local_file_manifest \<Rightarrow> u64 \<Rightarrow> date_time \<Rightarrow> (local_file_manifest \<times> chunk_id set) option" where
  "prepare_truncate m sz timestamp =
     (if sz \<ge> lf_size m then Some (m, {})
      else
        let block = sz div lf_blocksize m;
            remainder = sz mod lf_blocksize m;
            removed_ids = set (map cv_id (concat (drop block (lf_blocks m))));
            chunks = (case lf_get_chunks m block of None \<Rightarrow> [] | Some cs \<Rightarrow> cs);
            chunk_index = bisect_stop sz chunks
        in do {
          (blocks, removed_ids) \<leftarrow>
            (if chunk_index = 0
             then Some (pop_empty_blocks (take block (lf_blocks m)), removed_ids)
             else if remainder = 0 then None
             else do {
               let chunk_index = chunk_index - 1;
               last_chunk_view \<leftarrow> list_get chunks chunk_index;
               nz \<leftarrow> non_zero sz;
               let new_chunk_view = last_chunk_view\<lparr>cv_stop := min (cv_stop last_chunk_view) nz\<rparr>;
               let new_chunk_views = slice_get chunks 0 chunk_index @ [new_chunk_view];
               Some (take block (lf_blocks m) @ [new_chunk_views],
                     removed_ids - set (map cv_id new_chunk_views))
             });
          Some (m\<lparr>lf_blocks := blocks, lf_need_sync := True, lf_size := sz,
                  lf_updated := timestamp\<rparr>, removed_ids)
        })"

definition prepare_resize ::
  "local_file_manifest \<Rightarrow> u64 \<Rightarrow> date_time \<Rightarrow> (local_file_manifest \<times> chunk_id set) option" where
  "prepare_resize m sz timestamp =
     (if sz \<ge> lf_size m
      then Some (m\<lparr>lf_need_sync := True, lf_size := sz, lf_updated := timestamp\<rparr>, {})
      else prepare_truncate m sz timestamp)"

subsection \<open>Reshape\<close>

text \<open>
  A reshape operation borrows the slot it works on; here it carries a copy of the slot, and
  \<open>reshape_commit\<close> returns the slot's new content.
\<close>

datatype reshape_operation =
    ToReshape "chunk_view list" chunk_view
  | ToPromote chunk_view

definition try_reshape :: "chunk_id \<Rightarrow> chunk_view list \<Rightarrow> reshape_operation option option" where
  "try_reshape new_id cs =
     (if cs = [] \<or> (length cs = 1 \<and> cv_is_block (hd cs)) then Some None
      else if length cs = 1 \<and> cv_is_aligned_with_raw_data (hd cs) then Some (Some (ToPromote (hd cs)))
      else do {
        reshaped \<leftarrow> cv_new new_id (cv_start (hd cs)) (cv_stop (last cs));
        Some (Some (ToReshape cs reshaped))
      })"

fun reshape_destination :: "reshape_operation \<Rightarrow> chunk_view" where
  "reshape_destination (ToReshape cs reshaped) = reshaped"
| "reshape_destination (ToPromote c) = c"

fun reshape_source :: "reshape_operation \<Rightarrow> chunk_view list" where
  "reshape_source (ToReshape cs reshaped) = cs"
| "reshape_source (ToPromote c) = [c]"

fun reshape_write_back :: "reshape_operation \<Rightarrow> bool" where
  "reshape_write_back (ToReshape cs reshaped) = True"
| "reshape_write_back (ToPromote c) = False"

fun reshape_cleanup_ids :: "reshape_operation \<Rightarrow> chunk_id set" where
  "reshape_cleanup_ids (ToReshape cs reshaped) = set (map cv_id cs)"
| "reshape_cleanup_ids (ToPromote c) = {}"

definition promote_expect ::
  "(byte list \<Rightarrow> hash_digest) \<Rightarrow> byte list \<Rightarrow> chunk_view \<Rightarrow> chunk_view option" where
  "promote_expect from_data data c =
     (case cv_promote_as_block from_data data c of Some (Inr c') \<Rightarrow> Some c' | _ \<Rightarrow> None)"

fun reshape_commit ::
  "(byte list \<Rightarrow> hash_digest) \<Rightarrow> reshape_operation \<Rightarrow> byte list \<Rightarrow> chunk_view list option" where
  "reshape_commit from_data (ToPromote c) data =
     map_option (\<lambda>c'. [c']) (promote_expect from_data data c)"
| "reshape_commit from_data (ToReshape cs reshaped) data =
     map_option (\<lambda>c'. [c']) (promote_expect from_data data reshaped)"

subsection \<open>Reference definitions on one slot\<close>

text \<open>The parts of the views of a slot below an address, above an address, and in a range.\<close>

definition clip_before :: "nat \<Rightarrow> chunk_view list \<Rightarrow> chunk_view list" where
  "clip_before s cs = map (\<lambda>c. c\<lparr>cv_stop := min (cv_stop c) s\<rparr>) (filter (\<lambda>c. cv_start c < s) cs)"

definition clip_after :: "nat \<Rightarrow> chunk_view list \<Rightarrow> chunk_view list" where
  "clip_after t cs = map (\<lambda>c. c\<lparr>cv_start := max (cv_start c) t\<rparr>) (filter (\<lambda>c. cv_stop c > t) cs)"

definition clip_range :: "nat \<Rightarrow> nat \<Rightarrow> chunk_view list \<Rightarrow> chunk_view list" where
  "clip_range s t cs =
     map (\<lambda>c. c\<lparr>cv_start := max (cv_start c) s, cv_stop := min (cv_stop c) t\<rparr>)
       (filter (\<lambda>c. cv_start c < t \<and> cv_stop c > s) cs)"

text \<open>The content of slot \<open>j\<close>: no view when the list of slots is too short.\<close>

definition slot :: "chunk_view list list \<Rightarrow> nat \<Rightarrow> chunk_view list" where
  "slot blocks j = (if j < length blocks then blocks ! j else [])"

text \<open>The raw byte that a file address is served from: a chunk id and an index into its data.\<close>

definition cv_covers :: "nat \<Rightarrow> chunk_view \<Rightarrow> bool" where
  "cv_covers p c = (cv_start c \<le> p \<and> p < cv_stop c)"

definition chunk_source :: "chunk_view list \<Rightarrow> nat \<Rightarrow> (chunk_id \<times> nat) option" where
  "chunk_source cs p =
     map_option (\<lambda>c. (cv_id c, p - cv_raw_offset c)) (find (cv_covers p) cs)"

definition byte_source :: "local_file_manifest \<Rightarrow> nat \<Rightarrow> (chunk_id \<times> nat) option" where
  "byte_source m p = chunk_source (slot (lf_blocks m) (p div lf_blocksize m)) p"

definition cs_ids :: "chunk_view list \<Rightarrow> chunk_id set" where
  "cs_ids cs = set (map cv_id cs)"

definition lf_ids :: "local_file_manifest \<Rightarrow> chunk_id set" where
  "lf_ids m = cs_ids (concat (lf_blocks m))"

subsection \<open>Views of one slot\<close>

lemma chunks_ok_nth_le:
  assumes "chunks_ok lo hi cs" "i < j" "j < length cs"
  shows "cv_stop (cs ! i) \<le> cv_start (cs ! j)"
  using assms
proof (induction cs arbitrary: lo i j)
  case (Cons c cs)
  then obtain j' where j: "j = Suc j'" "j' < length cs" by (cases j) auto
  show ?case
  proof (cases i)
    case 0
    have "cs ! j' \<in> set cs" using j by simp
    then show ?thesis using Cons.prems(1) chunks_ok_in j 0 by fastforce
  next
    case (Suc i')
    then show ?thesis using Cons.IH [of "cv_stop c" i' j'] Cons.prems j by simp
  qed
qed simp

lemma chunks_ok_start_less_stop: "chunks_ok lo hi cs \<Longrightarrow> c \<in> set cs \<Longrightarrow> cv_start c < cv_stop c"
  using chunks_ok_in cv_ok_iff by blast

lemma chunks_ok_sorted: "chunks_ok lo hi cs \<Longrightarrow> strictly_sorted_by cv_start cs"
  unfolding strictly_sorted_by_def sorted_wrt_iff_nth_less
  by (metis chunks_ok_nth_le chunks_ok_start_less_stop less_trans nth_mem order_less_le_trans)

lemma bisect_stop_lower_bound:
  "strictly_sorted_by cv_start cs \<Longrightarrow> bisect_stop t cs = lower_bound cv_start t cs"
  by (simp add: bisect_stop_def binary_search_by_key_sorted Let_def)

lemma bisect_start_lower_bound:
  "strictly_sorted_by cv_start cs \<Longrightarrow> bisect_start s cs =
     (let k = lower_bound cv_start s cs
      in if k < length cs \<and> cv_start (cs ! k) = s then k else k - 1)"
  by (simp add: bisect_start_def binary_search_by_key_sorted Let_def)

lemma filter_start_less:
  assumes "strictly_sorted_by cv_start cs"
  shows "filter (\<lambda>c. cv_start c < s) cs = take (lower_bound cv_start s cs) cs"
proof -
  let ?k = "lower_bound cv_start s cs"
  have "cv_start c < s" if "c \<in> set (take ?k cs)" for c
    using that lower_bound_below [of _ cv_start s cs] by (auto simp: in_set_conv_nth)
  moreover have "\<not> cv_start c < s" if "c \<in> set (drop ?k cs)" for c
    using that lower_bound_drop [OF assms] by (simp add: not_less)
  ultimately have "filter (\<lambda>c. cv_start c < s) (take ?k cs @ drop ?k cs) = take ?k cs"
    by (subst filter_append) simp
  then show ?thesis by simp
qed

lemma clip_before_unfold:
  assumes "chunks_ok lo hi cs"
  shows "clip_before s cs =
    (let k = lower_bound cv_start s cs in
     if k = 0 then []
     else take (k - 1) cs @ [(cs ! (k - 1))\<lparr>cv_stop := min (cv_stop (cs ! (k - 1))) s\<rparr>])"
proof (cases "lower_bound cv_start s cs")
  case 0
  then show ?thesis by (simp add: clip_before_def filter_start_less [OF chunks_ok_sorted [OF assms]])
next
  case (Suc k)
  then have k: "k < length cs" using lower_bound_le_length [of cv_start s cs] by simp
  have "c\<lparr>cv_stop := min (cv_stop c) s\<rparr> = c" if "c \<in> set (take k cs)" for c
  proof -
    from that obtain i where "i < k" "c = cs ! i" by (auto simp: in_set_conv_nth)
    then have "cv_stop c \<le> cv_start (cs ! k)" using chunks_ok_nth_le [OF assms _ k] by simp
    also have "\<dots> < s" using lower_bound_below [of k cv_start s cs] Suc by simp
    finally show ?thesis by simp
  qed
  then have "map (\<lambda>c. c\<lparr>cv_stop := min (cv_stop c) s\<rparr>) (take k cs) = take k cs"
    by (simp add: map_idI)
  then show ?thesis
    using k by (simp add: clip_before_def filter_start_less [OF chunks_ok_sorted [OF assms]] Suc
        take_Suc_conv_app_nth)
qed

lemma clip_before_found:
  assumes "chunks_ok lo hi cs" "k = lower_bound cv_start s cs" "k < length cs" "cv_start (cs ! k) = s"
  shows "clip_before s cs = take k cs"
proof -
  have "c\<lparr>cv_stop := min (cv_stop c) s\<rparr> = c" if "c \<in> set (take k cs)" for c
    using that chunks_ok_nth_le [OF assms(1) _ assms(3)] assms(4) by (auto simp: in_set_conv_nth)
  then show ?thesis
    using assms(2) by (simp add: clip_before_def filter_start_less [OF chunks_ok_sorted [OF assms(1)]]
        map_idI)
qed

lemma clip_after_unfold:
  assumes "chunks_ok lo hi cs"
  shows "clip_after t cs =
    (let l = lower_bound cv_start t cs in
     (if l > 0 \<and> cv_stop (cs ! (l - 1)) > t then [(cs ! (l - 1))\<lparr>cv_start := t\<rparr>] else []) @ drop l cs)"
proof -
  let ?l = "lower_bound cv_start t cs"
  let ?f = "\<lambda>c. c\<lparr>cv_start := max (cv_start c) t\<rparr>"
  note sorted = chunks_ok_sorted [OF assms]
  have above: "cv_stop c > t \<and> ?f c = c" if "c \<in> set (drop ?l cs)" for c
  proof -
    have "t \<le> cv_start c"
      using that lower_bound_drop [OF sorted] by simp
    moreover have "cv_start c < cv_stop c"
      using that chunks_ok_start_less_stop [OF assms] by (meson in_set_dropD)
    ultimately show ?thesis by simp
  qed
  then have after: "map ?f (filter (\<lambda>c. cv_stop c > t) (drop ?l cs)) = drop ?l cs"
    by (simp add: map_idI)
  have split: "clip_after t cs = map ?f (filter (\<lambda>c. cv_stop c > t) (take ?l cs)) @ drop ?l cs"
    by (subst append_take_drop_id [of ?l cs, symmetric])
      (simp only: clip_after_def filter_append map_append after)
  show ?thesis
  proof (cases ?l)
    case (Suc k)
    then have k: "k < length cs" using lower_bound_le_length [of cv_start t cs] by simp
    have below: "cv_start (cs ! k) < t" using lower_bound_below [of k cv_start t cs] Suc by simp
    have "\<not> cv_stop c > t" if "c \<in> set (take k cs)" for c
      using that chunks_ok_nth_le [OF assms _ k] below by (fastforce simp: in_set_conv_nth)
    then have "filter (\<lambda>c. cv_stop c > t) (take k cs) = []" by (simp add: filter_empty_conv)
    then show ?thesis
      using split Suc k below by (simp add: take_Suc_conv_app_nth max_def)
  qed (simp add: split)
qed

lemma chunk_source_append [simp]:
  "chunk_source (cs @ ds) p = (case chunk_source cs p of None \<Rightarrow> chunk_source ds p | Some x \<Rightarrow> Some x)"
  by (induction cs) (auto simp: chunk_source_def)

lemma chunk_source_Nil [simp]: "chunk_source [] p = None"
  by (simp add: chunk_source_def)

lemma chunk_source_Cons:
  "chunk_source (c # cs) p =
     (if cv_covers p c then Some (cv_id c, p - cv_raw_offset c) else chunk_source cs p)"
  by (simp add: chunk_source_def)

lemma chunk_source_clip_before:
  "chunk_source (clip_before s cs) p = (if p < s then chunk_source cs p else None)"
  by (induction cs) (auto simp: clip_before_def chunk_source_Cons cv_covers_def)

lemma chunk_source_clip_after:
  "chunk_source (clip_after t cs) p = (if t \<le> p then chunk_source cs p else None)"
  by (induction cs) (auto simp: clip_after_def chunk_source_Cons cv_covers_def)

lemma chunk_source_clip_range:
  "chunk_source (clip_range s t cs) p = (if s \<le> p \<and> p < t then chunk_source cs p else None)"
  by (induction cs) (auto simp: clip_range_def chunk_source_Cons cv_covers_def)

lemma chunk_source_outside:
  "chunks_ok lo hi cs \<Longrightarrow> \<not> (lo \<le> p \<and> p < hi) \<Longrightarrow> chunk_source cs p = None"
  by (auto simp: chunk_source_def find_None_iff cv_covers_def dest!: chunks_ok_in)

subsection \<open>Reading and writing one slot\<close>

lemma slice_get_in [simp]:
  "i \<le> j \<Longrightarrow> j \<le> length xs \<Longrightarrow> slice_get xs i j = take (j - i) (drop i xs)"
  by (simp add: slice_get_def)

lemma list_get_Some [simp]: "i < length xs \<Longrightarrow> list_get xs i = Some (xs ! i)"
  by (simp add: list_get_def)

lemma lower_bound_mono: "s \<le> t \<Longrightarrow> lower_bound key s xs \<le> lower_bound key t xs"
  by (induction xs) (auto simp: lower_bound_def)

lemma cs_ids_split: "i \<le> j \<Longrightarrow> j \<le> length cs \<Longrightarrow>
  cs_ids cs = cs_ids (take i cs) \<union> cs_ids (take (j - i) (drop i cs)) \<union> cs_ids (drop j cs)"
proof -
  assume "i \<le> j" "j \<le> length cs"
  then have "take i cs @ take (j - i) (drop i cs) @ drop j cs = cs"
    by (metis append_assoc append_take_drop_id le_add_diff_inverse take_add)
  then show ?thesis by (metis Un_assoc cs_ids_def map_append set_append)
qed

lemma cs_ids_append [simp]: "cs_ids (cs @ ds) = cs_ids cs \<union> cs_ids ds"
  by (simp add: cs_ids_def)

lemma cs_ids_Cons [simp]: "cs_ids (c # cs) = insert (cv_id c) (cs_ids cs)"
  by (simp add: cs_ids_def)

lemma cs_ids_Nil [simp]: "cs_ids [] = {}"
  by (simp add: cs_ids_def)

lemma block_write_clip:
  assumes ok: "chunks_ok lo hi cs" and sz: "0 < sz" and lim: "s + sz < u64_bound"
  shows "block_write cs sz s new =
    Some (clip_before s cs @ [new] @ clip_after (s + sz) cs,
          cs_ids cs - cs_ids (clip_before s cs @ clip_after (s + sz) cs))"
proof (cases "cs = []")
  case True
  then show ?thesis by (simp add: block_write_def clip_before_def clip_after_def)
next
  case False
  define k where "k = lower_bound cv_start s cs"
  define l where "l = lower_bound cv_start (s + sz) cs"
  define si where "si = (if k < length cs \<and> cv_start (cs ! k) = s then k else k - 1)"
  note sorted = chunks_ok_sorted [OF ok]
  have kl: "k \<le> l" "l \<le> length cs"
    by (simp_all add: k_def l_def lower_bound_mono lower_bound_le_length)
  have len: "length cs \<noteq> 0" using False by simp
  have si: "si \<le> l" "si < length cs"
  proof -
    have "k - 1 < length cs" "k - 1 \<le> l" using kl len by linarith+
    then show "si \<le> l" "si < length cs" using kl by (auto simp: si_def)
  qed
  define before where "before = take si cs @
    (if cv_start (cs ! si) < s then [(cs ! si)\<lparr>cv_stop := min (cv_stop (cs ! si)) s\<rparr>] else [])"
  have before: "clip_before s cs = before"
  proof (cases "k < length cs \<and> cv_start (cs ! k) = s")
    case True
    then show ?thesis using clip_before_found [OF ok k_def] by (simp add: before_def si_def)
  next
    case nf: False
    show ?thesis
    proof (cases k)
      case 0
      moreover have "\<not> cv_start (cs ! 0) < s"
        using lower_bound_above [OF sorted, of s 0] False 0 by (simp add: k_def)
      moreover have "clip_before s cs = []"
        using clip_before_unfold [OF ok, of s] 0 by (simp add: k_def)
      ultimately show ?thesis using nf by (simp add: before_def si_def)
    next
      case (Suc j)
      moreover have "cv_start (cs ! j) < s"
        using lower_bound_below [of j cv_start s cs] Suc by (simp add: k_def)
      ultimately show ?thesis
        using clip_before_unfold [OF ok, of s] nf
        by (simp add: before_def si_def flip: k_def)
    qed
  qed
  have after: "clip_after (s + sz) cs =
      (if l > 0 \<and> cv_stop (cs ! (l - 1)) > s + sz then [(cs ! (l - 1))\<lparr>cv_start := s + sz\<rparr>] else [])
      @ drop l cs"
    using clip_after_unfold [OF ok, of "s + sz"] by (simp add: Let_def flip: l_def)
  have bs: "bisect_start s cs = si" "bisect_stop (s + sz) cs = l"
    using bisect_start_lower_bound [OF sorted, of s] bisect_stop_lower_bound [OF sorted]
    by (simp_all add: si_def k_def l_def Let_def)
  have l1: "l - 1 < length cs" using kl False by (cases cs) auto
  have ids: "cs_ids cs = cs_ids (take si cs) \<union> cs_ids (take (l - si) (drop si cs)) \<union> cs_ids (drop l cs)"
    by (rule cs_ids_split [OF si(1) kl(2)])
  define A B C where "A = cs_ids (take si cs)" and "B = cs_ids (take (l - si) (drop si cs))"
    and "C = cs_ids (drop l cs)"
  have removed: "B - A - X - Y - C = cs_ids cs - (A \<union> X \<union> (Y \<union> C))" for X Y
    unfolding ids A_def B_def C_def by blast
  define X where "X = (if cv_start (cs ! si) < s then {cv_id (cs ! si)} else {})"
  define Y where "Y = (if l > 0 \<and> cv_stop (cs ! (l - 1)) > s + sz then {cv_id (cs ! (l - 1))} else {})"
  have "block_write cs sz s new = Some (before @ [new] @ clip_after (s + sz) cs, B - A - X - Y - C)"
    unfolding block_write_def after before_def X_def Y_def A_def B_def C_def cs_ids_def
    using False si kl l1
    by (cases "cv_start (cs ! si) < s"; cases "l = 0"; cases "cv_stop (cs ! (l - 1)) > s + sz")
      (simp_all add: u64_simps lim bs Let_def)
  moreover have "cs_ids (clip_before s cs) = A \<union> X"
    by (simp add: before before_def A_def X_def)
  moreover have "cs_ids (clip_after (s + sz) cs) = Y \<union> C"
    by (simp add: after Y_def C_def)
  ultimately show ?thesis using removed [of X Y] before by simp
qed

lemma those_map_Some: "(\<And>x. x \<in> set xs \<Longrightarrow> f x = Some (g x)) \<Longrightarrow> those (map f xs) = Some (map g xs)"
  by (induction xs) auto

lemma filter_slice:
  assumes "i \<le> j" "j \<le> length xs"
    and "\<And>n. n < i \<Longrightarrow> \<not> P (xs ! n)" and "\<And>x. x \<in> set (drop j xs) \<Longrightarrow> \<not> P x"
  shows "filter P (take (j - i) (drop i xs)) = filter P xs"
proof -
  have "xs = take i xs @ take (j - i) (drop i xs) @ drop j xs"
    using assms(1,2) by (metis append_assoc append_take_drop_id le_add_diff_inverse take_add)
  moreover have "filter P (take i xs) = []"
    using assms(1-3) by (auto simp: filter_empty_conv in_set_conv_nth)
  moreover have "filter P (drop j xs) = []"
    using assms(4) by (simp add: filter_empty_conv)
  ultimately show ?thesis by (metis append_Nil append_Nil2 filter_append)
qed

lemma block_read_clip:
  assumes ok: "chunks_ok lo hi cs" and lim: "s + sz < u64_bound"
  shows "block_read cs sz s = Some (clip_range s (s + sz) cs)"
proof -
  define k where "k = lower_bound cv_start s cs"
  define l where "l = lower_bound cv_start (s + sz) cs"
  define si where "si = (if k < length cs \<and> cv_start (cs ! k) = s then k else k - 1)"
  note sorted = chunks_ok_sorted [OF ok]
  have kl: "k \<le> l" "l \<le> length cs"
    by (simp_all add: k_def l_def lower_bound_mono lower_bound_le_length)
  then have si: "si \<le> l" by (auto simp: si_def)
  have below: "\<not> cv_stop (cs ! n) > s" if "n < si" for n
  proof -
    have "cv_start (cs ! si) \<le> s" "si < length cs"
      using that kl lower_bound_below [of "k - 1" cv_start s cs]
      by (auto simp: si_def k_def split: if_splits)
    then show ?thesis using chunks_ok_nth_le [OF ok that] by simp
  qed
  have above: "\<not> cv_start c < s + sz" if "c \<in> set (drop l cs)" for c
    using that lower_bound_drop [OF sorted] by (simp add: l_def not_less)
  have "bisect_start s cs = si" "bisect_stop (s + sz) cs = l"
    using bisect_start_lower_bound [OF sorted, of s] bisect_stop_lower_bound [OF sorted]
    by (simp_all add: si_def k_def l_def Let_def)
  moreover have "filter (\<lambda>c. cv_start c < s + sz \<and> cv_stop c > s) (take (l - si) (drop si cs)) =
      filter (\<lambda>c. cv_start c < s + sz \<and> cv_stop c > s) cs"
    by (rule filter_slice [OF si kl(2)]) (use below above in auto)
  ultimately show ?thesis
    unfolding block_read_def clip_range_def
    using si kl lim by (simp add: u64_simps Let_def) (rule those_map_Some, auto simp: non_zero_def)
qed

end
