(* ===== verification/File_Write.thy ===== *)
theory File_Write
  imports File_Operations
begin

text \<open>
  What \<^const>\<open>prepare_write\<close> and \<^const>\<open>prepare_read\<close> do to a whole manifest, stated on
  \<^const>\<open>byte_source\<close>, on the integrity check, and on the set of chunk ids that the caller is told
  to drop.
\<close>

subsection \<open>Padding and slots\<close>

lemma length_pad_blocks [simp]: "length (pad_blocks blocks b) = max (length blocks) (Suc b)"
  by (simp add: pad_blocks_eq)

lemma slot_pad_blocks [simp]: "slot (pad_blocks blocks b) j = slot blocks j"
  by (auto simp: slot_def pad_blocks_eq nth_append)

lemma slot_update [simp]:
  "b < length blocks \<Longrightarrow> slot (blocks[b := cs]) j = (if j = b then cs else slot blocks j)"
  by (simp add: slot_def)

lemma blocks_ok_slot:
  "blocks_ok bs blocks \<longleftrightarrow> (\<forall>j. chunks_ok (j * bs) ((j + 1) * bs) (slot blocks j))"
  by (auto simp: blocks_ok_def slot_def)

lemma stops_below_slot:
  "stops_below sz blocks \<longleftrightarrow> (\<forall>j. \<forall>c \<in> set (slot blocks j). cv_stop c \<le> sz)"
  by (fastforce simp: stops_below_def slot_def in_set_conv_nth split: if_splits)

lemma last_slot_ok_slot:
  "last_slot_ok blocks \<longleftrightarrow> blocks = [] \<or> slot blocks (length blocks - 1) \<noteq> []"
  by (cases blocks rule: rev_cases) (auto simp: last_slot_ok_def slot_def)

lemma cs_ids_concat_slot: "cs_ids (concat blocks) = (\<Union>j. cs_ids (slot blocks j))"
  by (fastforce simp: cs_ids_def slot_def in_set_conv_nth split: if_splits)

subsection \<open>The loop over the blocks\<close>

definition sub_start :: "nat \<Rightarrow> nat \<Rightarrow> nat \<Rightarrow> nat" where
  "sub_start bs off b = max off (b * bs)"

definition sub_stop :: "nat \<Rightarrow> nat \<Rightarrow> nat \<Rightarrow> nat \<Rightarrow> nat" where
  "sub_stop bs sz off b = min (off + sz) ((b + 1) * bs)"

definition touched :: "nat \<Rightarrow> nat \<Rightarrow> nat \<Rightarrow> nat \<Rightarrow> bool" where
  "touched bs sz off b \<longleftrightarrow> off < (b + 1) * bs \<and> b * bs < off + sz"

definition new_view :: "(nat \<Rightarrow> chunk_id) \<Rightarrow> nat \<Rightarrow> nat \<Rightarrow> nat \<Rightarrow> nat \<Rightarrow> chunk_view" where
  "new_view new_ids bs sz off b =
     \<lparr>cv_id = new_ids b, cv_start = sub_start bs off b, cv_stop = sub_stop bs sz off b,
      cv_raw_offset = sub_start bs off b,
      cv_raw_size = sub_stop bs sz off b - sub_start bs off b, cv_access = None\<rparr>"

definition kept_views :: "nat \<Rightarrow> nat \<Rightarrow> nat \<Rightarrow> nat \<Rightarrow> chunk_view list \<Rightarrow> chunk_view list" where
  "kept_views bs sz off b cs =
     clip_before (sub_start bs off b) cs @ clip_after (sub_stop bs sz off b) cs"

definition write_slot ::
  "(nat \<Rightarrow> chunk_id) \<Rightarrow> nat \<Rightarrow> nat \<Rightarrow> nat \<Rightarrow> nat \<Rightarrow> chunk_view list \<Rightarrow> chunk_view list" where
  "write_slot new_ids bs sz off b cs =
     clip_before (sub_start bs off b) cs @ [new_view new_ids bs sz off b] @
     clip_after (sub_stop bs sz off b) cs"

definition write_op :: "(nat \<Rightarrow> chunk_id) \<Rightarrow> nat \<Rightarrow> nat \<Rightarrow> nat \<Rightarrow> nat \<Rightarrow> write_operation" where
  "write_op new_ids bs sz off b =
     \<lparr>wo_chunk_view = new_view new_ids bs sz off b, wo_offset = as_i64 (sub_start bs off b - off)\<rparr>"

lemma touched_sub: "touched bs sz off b \<Longrightarrow> 0 < sz \<Longrightarrow> 0 < bs \<Longrightarrow> sub_start bs off b < sub_stop bs sz off b"
  by (auto simp: touched_def sub_start_def sub_stop_def)

lemma touched_iff:
  "0 < bs \<Longrightarrow> touched bs sz off b \<longleftrightarrow> off div bs \<le> b \<and> b < div_ceil (off + sz) bs"
proof -
  assume bs: "0 < bs"
  have "off < (b + 1) * bs \<longleftrightarrow> off div bs < b + 1"
    using bs by (simp add: div_less_iff_less_mult)
  then show ?thesis using div_ceil_le_iff [OF bs] by (auto simp: touched_def)
qed

lemma cv_new_Some:
  "s < t \<Longrightarrow> t < u64_bound \<Longrightarrow> cv_new i s t =
     Some \<lparr>cv_id = i, cv_start = s, cv_stop = t, cv_raw_offset = s, cv_raw_size = t - s,
           cv_access = None\<rparr>"
  by (simp add: cv_new_def u64_simps cv_check_data_integrity_def ensure_def)

lemma write_block_step:
  assumes bs: "0 < bs" and sz: "0 < sz" and lim: "off + sz + bs < u64_bound"
    and t: "touched bs sz off b" and ok: "chunks_ok (b * bs) ((b + 1) * bs) (slot blocks b)"
  shows "write_block new_ids bs sz off b (blocks, ops, removed) =
    Some ((pad_blocks blocks b)[b := write_slot new_ids bs sz off b (slot blocks b)],
          ops @ [write_op new_ids bs sz off b],
          removed \<union> (cs_ids (slot blocks b) - cs_ids (kept_views bs sz off b (slot blocks b))))"
proof -
  let ?s = "sub_start bs off b" and ?t = "sub_stop bs sz off b"
  have st: "?s < ?t" by (rule touched_sub [OF t sz bs])
  have tlim: "?t < u64_bound" using lim by (simp add: sub_stop_def)
  have "b * bs + bs < u64_bound" using t lim by (simp add: touched_def)
  then have u: "u64_mul b bs = b * bs" "u64_add (b * bs) bs = (b + 1) * bs" "u64_add off sz = off + sz"
    using lim by (simp_all add: u64_simps)
  have off: "u64_sub ?s off = ?s - off"
    using st tlim by (intro u64_sub_in_range) (auto simp: sub_start_def)
  have nv: "cv_new (new_ids b) ?s ?t = Some (new_view new_ids bs sz off b)"
    by (simp add: cv_new_Some st tlim new_view_def)
  have bw: "block_write (slot blocks b) (?t - ?s) ?s (new_view new_ids bs sz off b) =
      Some (write_slot new_ids bs sz off b (slot blocks b),
            cs_ids (slot blocks b) - cs_ids (kept_views bs sz off b (slot blocks b)))"
    using block_write_clip [OF ok, of "?t - ?s" ?s] st tlim
    by (simp add: write_slot_def kept_views_def)
  have sum: "u64_add ?s (?t - ?s) = ?t" using st tlim by (simp add: u64_simps)
  have "max off (b * bs) = ?s" "min (off + sz) ((b + 1) * bs) = ?t"
    by (simp_all add: sub_start_def sub_stop_def)
  then have step: "write_block new_ids bs sz off b (blocks, ops, removed) =
     do {
        (new_chunks, removed_ids) \<leftarrow>
          (case list_get blocks b of
             Some block_chunks \<Rightarrow> do {
               (new_chunks, more_removed_ids) \<leftarrow>
                 block_write block_chunks (?t - ?s) ?s (new_view new_ids bs sz off b);
               Some (new_chunks, removed \<union> more_removed_ids)
             }
           | None \<Rightarrow> Some ([new_view new_ids bs sz off b], removed));
        Some ((pad_blocks blocks b)[b := new_chunks], ops @ [write_op new_ids bs sz off b],
          removed_ids)
      }"
    using st by (simp add: write_block_def Let_def u sum nv off write_op_def split: option.split)
  show ?thesis
  proof (cases "b < length blocks")
    case True
    then have "list_get blocks b = Some (slot blocks b)" by (simp add: slot_def)
    then show ?thesis by (simp add: step bw)
  next
    case False
    then show ?thesis
      by (simp add: step list_get_def slot_def write_slot_def clip_before_def clip_after_def)
  qed
qed

lemma write_blocks_loop:
  assumes bs: "0 < bs" and sz: "0 < sz" and lim: "off + sz + bs < u64_bound"
    and t: "\<And>b. i \<le> b \<Longrightarrow> b < n \<Longrightarrow> touched bs sz off b"
    and ok: "\<And>b. i \<le> b \<Longrightarrow> chunks_ok (b * bs) ((b + 1) * bs) (slot blocks b)"
  shows "\<exists>blocks'. write_blocks new_ids bs sz off [i..<n] (blocks, ops, removed) =
      Some (blocks', ops @ map (write_op new_ids bs sz off) [i..<n],
        removed \<union> (\<Union>b \<in> {i..<n}. cs_ids (slot blocks b) - cs_ids (kept_views bs sz off b (slot blocks b)))) \<and>
    length blocks' = (if i < n then max (length blocks) n else length blocks) \<and>
    (\<forall>b. slot blocks' b =
      (if i \<le> b \<and> b < n then write_slot new_ids bs sz off b (slot blocks b) else slot blocks b))"
  using t ok
proof (induction "n - i" arbitrary: i blocks ops removed)
  case 0
  then show ?case by auto
next
  case (Suc d)
  then have i: "i < n" "d = n - Suc i" by auto
  let ?f = "\<lambda>blocks b. cs_ids (slot blocks b) - cs_ids (kept_views bs sz off b (slot blocks b))"
  let ?blocks = "(pad_blocks blocks i)[i := write_slot new_ids bs sz off i (slot blocks i)]"
  have sl: "slot ?blocks b = slot blocks b" if "Suc i \<le> b" for b using that by simp
  have "\<exists>blocks'. write_blocks new_ids bs sz off [Suc i..<n]
        (?blocks, ops @ [write_op new_ids bs sz off i], removed \<union> ?f blocks i) =
      Some (blocks', (ops @ [write_op new_ids bs sz off i]) @ map (write_op new_ids bs sz off) [Suc i..<n],
        (removed \<union> ?f blocks i) \<union> (\<Union>b \<in> {Suc i..<n}. ?f ?blocks b)) \<and>
    length blocks' = (if Suc i < n then max (length ?blocks) n else length ?blocks) \<and>
    (\<forall>b. slot blocks' b =
      (if Suc i \<le> b \<and> b < n then write_slot new_ids bs sz off b (slot ?blocks b) else slot ?blocks b))"
    by (rule Suc.hyps(1)) (use i Suc.prems in auto)
  moreover have "(\<Union>b \<in> {Suc i..<n}. ?f ?blocks b) = (\<Union>b \<in> {Suc i..<n}. ?f blocks b)"
    using sl by simp
  moreover have "{i..<n} = insert i {Suc i..<n}" using i by auto
  moreover have "[i..<n] = i # [Suc i..<n]" using i by (simp add: upt_conv_Cons)
  moreover note write_block_step [OF bs sz lim Suc.prems(1) [of i] Suc.prems(2) [of i]]
  ultimately show ?case using i by (fastforce simp: Un_assoc)
qed

subsection \<open>Clipped views are well formed\<close>

lemma chunks_ok_append:
  "chunks_ok lo mid xs \<Longrightarrow> chunks_ok mid hi ys \<Longrightarrow> lo \<le> mid \<Longrightarrow> mid \<le> hi \<Longrightarrow>
     chunks_ok lo hi (xs @ ys)"
proof (induction xs arbitrary: lo)
  case Nil
  then show ?case using chunks_ok_Cons_mono [of mid hi ys lo] by simp
qed auto

lemma chunks_ok_clip_before: "chunks_ok lo hi cs \<Longrightarrow> s \<le> hi \<Longrightarrow> chunks_ok lo s (clip_before s cs)"
proof (induction cs arbitrary: lo)
  case (Cons c cs)
  have IH: "chunks_ok (cv_stop c) s (clip_before s cs)" using Cons by simp
  show ?case
  proof (cases "cv_start c < s")
    case True
    have "chunks_ok (min (cv_stop c) s) s (clip_before s cs)"
      by (rule chunks_ok_Cons_mono [OF IH]) simp
    with True Cons.prems show ?thesis by (simp add: clip_before_def cv_ok_iff min_le_iff_disj)
  next
    case False
    have "lo \<le> cv_stop c" using Cons.prems by (simp add: cv_ok_iff)
    then have "chunks_ok lo s (clip_before s cs)" by (rule chunks_ok_Cons_mono [OF IH])
    with False show ?thesis by (simp add: clip_before_def)
  qed
qed (simp add: clip_before_def)

lemma chunks_ok_clip_after: "chunks_ok lo hi cs \<Longrightarrow> lo \<le> t \<Longrightarrow> chunks_ok t hi (clip_after t cs)"
proof (induction cs arbitrary: lo)
  case (Cons c cs)
  show ?case
  proof (cases "cv_stop c > t")
    case True
    have all: "\<forall>d \<in> set cs. t < cv_stop d \<and> max (cv_start d) t = cv_start d"
      using Cons.prems(1) True chunks_ok_in [of "cv_stop c" hi cs] by (fastforce simp: cv_ok_iff)
    then have "clip_after t cs = cs"
      by (simp add: clip_after_def map_idI)
    with True Cons.prems show ?thesis by (auto simp: clip_after_def cv_ok_iff)
  next
    case False
    with Cons.IH [of "cv_stop c"] Cons.prems show ?thesis by (simp add: clip_after_def)
  qed
qed (simp add: clip_after_def)

lemma set_clip_before_stop: "c \<in> set (clip_before s cs) \<Longrightarrow> \<exists>d \<in> set cs. cv_stop c \<le> cv_stop d"
  by (auto simp: clip_before_def) (meson min.cobounded1)

lemma set_clip_after_stop: "c \<in> set (clip_after t cs) \<Longrightarrow> \<exists>d \<in> set cs. cv_stop c \<le> cv_stop d"
  by (auto simp: clip_after_def)

lemma cv_ok_new_view:
  "touched bs sz off b \<Longrightarrow> 0 < sz \<Longrightarrow> 0 < bs \<Longrightarrow> off + sz < u64_bound \<Longrightarrow>
     cv_ok (new_view new_ids bs sz off b)"
  using touched_sub [of bs sz off b] by (simp add: new_view_def cv_ok_iff sub_stop_def u64_simps)

lemma chunks_ok_write_slot:
  assumes t: "touched bs sz off b" and bs: "0 < bs" and sz: "0 < sz" and lim: "off + sz < u64_bound"
    and ok: "chunks_ok (b * bs) ((b + 1) * bs) cs"
  shows "chunks_ok (b * bs) ((b + 1) * bs) (write_slot new_ids bs sz off b cs)"
proof -
  let ?s = "sub_start bs off b" and ?t = "sub_stop bs sz off b"
  have st: "b * bs \<le> ?s" "?s < ?t" "?t \<le> (b + 1) * bs"
    using touched_sub [OF t sz bs] by (simp_all add: sub_start_def sub_stop_def)
  have "chunks_ok (b * bs) ?s (clip_before ?s cs)"
    using ok st by (intro chunks_ok_clip_before) auto
  moreover have "chunks_ok ?s ?t [new_view new_ids bs sz off b]"
    using cv_ok_new_view [OF t sz bs lim] by (simp add: new_view_def)
  moreover have "chunks_ok ?t ((b + 1) * bs) (clip_after ?t cs)"
    using ok st by (intro chunks_ok_clip_after) auto
  ultimately have "chunks_ok ?s ((b + 1) * bs)
      ([new_view new_ids bs sz off b] @ clip_after ?t cs)"
    using st by (intro chunks_ok_append [of ?s ?t]) auto
  with \<open>chunks_ok (b * bs) ?s _\<close> show ?thesis
    unfolding write_slot_def by (rule chunks_ok_append) (use st in auto)
qed

lemma chunk_source_write_slot:
  assumes "touched bs sz off b" "0 < bs" "0 < sz"
  shows "chunk_source (write_slot new_ids bs sz off b cs) p =
    (if sub_start bs off b \<le> p \<and> p < sub_stop bs sz off b
     then Some (new_ids b, p - sub_start bs off b) else chunk_source cs p)"
  using touched_sub [OF assms(1,3,2)]
  by (auto simp: write_slot_def chunk_source_clip_before chunk_source_clip_after chunk_source_Cons
      cv_covers_def new_view_def split: option.split)

subsection \<open>Whole manifests\<close>

abbreviation lf_accepted :: "local_file_manifest \<Rightarrow> bool" where
  "lf_accepted m \<equiv> lf_check_data_integrity m = Some (Inr ())"

definition written_slot ::
  "(nat \<Rightarrow> chunk_id) \<Rightarrow> local_file_manifest \<Rightarrow> nat \<Rightarrow> nat \<Rightarrow> nat \<Rightarrow> chunk_view list" where
  "written_slot new_ids m sz off b =
     (if touched (lf_blocksize m) sz off b
      then write_slot new_ids (lf_blocksize m) sz off b (slot (lf_blocks m) b)
      else slot (lf_blocks m) b)"

definition freed_ids :: "local_file_manifest \<Rightarrow> nat \<Rightarrow> nat \<Rightarrow> nat \<Rightarrow> chunk_id set" where
  "freed_ids m sz off b =
     cs_ids (slot (lf_blocks m) b) -
     cs_ids (kept_views (lf_blocksize m) sz off b (slot (lf_blocks m) b))"

lemma lf_acceptedD:
  assumes "lf_in_range m" "lf_accepted m"
  shows "0 < lf_blocksize m" "fm_id (lf_base m) \<noteq> lf_parent m"
    "chunks_ok (j * lf_blocksize m) ((j + 1) * lf_blocksize m) (slot (lf_blocks m) j)"
    "last_slot_ok (lf_blocks m)" "c \<in> set (slot (lf_blocks m) j) \<Longrightarrow> cv_stop c \<le> lf_size m"
  using assms lf_check_data_integrity_iff [OF assms(1)]
  by (auto simp: lf_in_range_def blocks_ok_slot stops_below_slot)

lemma prepare_write_shape:
  assumes m: "lf_in_range m" "lf_accepted m" and sz: "0 < sz"
    and lim: "off + sz + lf_blocksize m < u64_bound"
  obtains blocks where
    "prepare_write new_ids m sz off ts =
       Some (m\<lparr>lf_blocks := blocks, lf_need_sync := True, lf_updated := ts,
               lf_size := max (lf_size m) (off + sz)\<rparr>,
             map (write_op new_ids (lf_blocksize m) sz off)
               [off div lf_blocksize m ..< div_ceil (off + sz) (lf_blocksize m)],
             \<Union> (freed_ids m sz off ` {b. touched (lf_blocksize m) sz off b}))"
    "length blocks = max (length (lf_blocks m)) (div_ceil (off + sz) (lf_blocksize m))"
    "\<And>b. slot blocks b = written_slot new_ids m sz off b"
proof -
  let ?bs = "lf_blocksize m" and ?i = "off div lf_blocksize m"
    and ?n = "div_ceil (off + sz) (lf_blocksize m)"
  note acc = lf_acceptedD [OF m]
  note touched = touched_iff [OF acc(1)]
  have tset: "{?i..<?n} = {b. touched ?bs sz off b}" by (auto simp: touched)
  have "off div ?bs * ?bs \<le> off" by simp
  then have "off div ?bs * ?bs < off + sz" using sz by linarith
  then have in_n: "?i < ?n" using div_ceil_le_iff [OF acc(1)] by simp
  obtain blocks where blocks:
    "write_blocks new_ids ?bs sz off [?i..<?n] (lf_blocks m, [], {}) =
      Some (blocks, [] @ map (write_op new_ids ?bs sz off) [?i..<?n],
        {} \<union> (\<Union>b \<in> {?i..<?n}. freed_ids m sz off b))"
    "length blocks = (if ?i < ?n then max (length (lf_blocks m)) ?n else length (lf_blocks m))"
    "\<forall>b. slot blocks b = (if ?i \<le> b \<and> b < ?n
       then write_slot new_ids ?bs sz off b (slot (lf_blocks m) b) else slot (lf_blocks m) b)"
    using write_blocks_loop [OF acc(1) sz lim, of ?i ?n "lf_blocks m" new_ids "[]" "{}"] acc(3)
    unfolding freed_ids_def touched by auto
  show thesis
  proof
    show "prepare_write new_ids m sz off ts =
       Some (m\<lparr>lf_blocks := blocks, lf_need_sync := True, lf_updated := ts,
               lf_size := max (lf_size m) (off + sz)\<rparr>,
             map (write_op new_ids ?bs sz off) [?i..<?n],
             \<Union> (freed_ids m sz off ` {b. touched ?bs sz off b}))"
      using sz lim blocks(1) by (simp add: prepare_write_def u64_simps Let_def tset)
    show "length blocks = max (length (lf_blocks m)) ?n" using blocks(2) in_n by simp
    show "slot blocks b = written_slot new_ids m sz off b" for b
      using blocks(3) touched by (simp add: written_slot_def)
  qed
qed

lemma write_slot_nonempty [simp]: "write_slot new_ids bs sz off b cs \<noteq> []"
  by (simp add: write_slot_def)

lemma write_slot_stop:
  assumes "c \<in> set (write_slot new_ids bs sz off b cs)" "\<And>d. d \<in> set cs \<Longrightarrow> cv_stop d \<le> n"
  shows "cv_stop c \<le> max n (off + sz)"
proof -
  from assms(1) consider "c \<in> set (clip_before (sub_start bs off b) cs)"
    | "c = new_view new_ids bs sz off b" | "c \<in> set (clip_after (sub_stop bs sz off b) cs)"
    by (auto simp: write_slot_def)
  then show ?thesis
  proof cases
    case 1
    then show ?thesis using set_clip_before_stop assms(2) by (meson le_max_iff_disj order_trans)
  next
    case 2
    then show ?thesis by (simp add: new_view_def sub_stop_def)
  next
    case 3
    then show ?thesis using set_clip_after_stop assms(2) by (meson le_max_iff_disj order_trans)
  qed
qed

lemma written_last_slot:
  assumes m: "lf_in_range m" "lf_accepted m" and sz: "0 < sz"
    and len: "n = max (length (lf_blocks m)) (div_ceil (off + sz) (lf_blocksize m))"
  shows "written_slot new_ids m sz off (n - 1) \<noteq> []"
proof (cases "touched (lf_blocksize m) sz off (n - 1)")
  case True
  then show ?thesis by (simp add: written_slot_def)
next
  case False
  let ?bs = "lf_blocksize m" and ?k = "div_ceil (off + sz) (lf_blocksize m)"
  note bs = lf_acceptedD(1) [OF m]
  have "off div ?bs * ?bs \<le> off" by simp
  then have "off div ?bs * ?bs < off + sz" using sz by linarith
  then have "off div ?bs < ?k" using div_ceil_le_iff [OF bs] by simp
  with False touched_iff [OF bs] have "n \<noteq> ?k" by auto
  then have "n = length (lf_blocks m)" "?k < n" using len by auto
  then have "slot (lf_blocks m) (n - 1) \<noteq> []"
    using lf_acceptedD(4) [OF m] by (auto simp: last_slot_ok_slot)
  with False show ?thesis by (simp add: written_slot_def)
qed

lemma prepare_write_accepted:
  assumes m: "lf_in_range m" "lf_accepted m" and lim: "off + sz + lf_blocksize m < u64_bound"
  shows "\<exists>m' ops removed. prepare_write new_ids m sz off ts = Some (m', ops, removed) \<and>
    lf_in_range m' \<and> lf_accepted m' \<and> lf_blocksize m' = lf_blocksize m \<and>
    lf_size m' = (if sz = 0 then lf_size m else max (lf_size m) (off + sz))"
proof (cases "sz = 0")
  case True
  then show ?thesis using m by (simp add: prepare_write_def)
next
  case False
  then have sz: "0 < sz" by simp
  note acc = lf_acceptedD [OF m]
  let ?n = "div_ceil (off + sz) (lf_blocksize m)"
  from prepare_write_shape [OF m sz lim, of new_ids ts] obtain blocks ops removed where
    pw: "prepare_write new_ids m sz off ts = Some (m\<lparr>lf_blocks := blocks, lf_need_sync := True,
      lf_updated := ts, lf_size := max (lf_size m) (off + sz)\<rparr>, ops, removed)" (is "_ = Some (?m, _)")
    and len: "length blocks = max (length (lf_blocks m)) ?n"
    and slots: "\<And>b. slot blocks b = written_slot new_ids m sz off b"
    by metis
  have "?n * lf_blocksize m < u64_bound"
    using div_ceil_mult_less [OF acc(1), of "off + sz"] lim by linarith
  then have range: "lf_in_range ?m"
    using m(1) lim by (auto simp: lf_in_range_def len max_def)
  have "chunks_ok (b * lf_blocksize m) ((b + 1) * lf_blocksize m) (slot blocks b)" for b
    using acc(3) [of b] chunks_ok_write_slot [OF _ acc(1) sz _ acc(3)] lim
    by (simp add: slots written_slot_def)
  moreover have "last_slot_ok blocks"
    using written_last_slot [OF m sz len, of new_ids] by (simp add: last_slot_ok_slot slots)
  moreover have "cv_stop c \<le> max (lf_size m) (off + sz)" if "c \<in> set (slot blocks b)" for b c
    using that acc(5) [of _ b] write_slot_stop [of c new_ids _ sz off b _ "lf_size m"]
    by (fastforce simp: slots written_slot_def split: if_splits)
  ultimately have "lf_accepted ?m"
    using acc(2) by (simp add: lf_check_data_integrity_iff [OF range] blocks_ok_slot stops_below_slot)
  with pw range sz show ?thesis by simp
qed

lemma div_span: "0 < bs \<Longrightarrow> p div bs * bs \<le> p \<and> p < (p div bs + 1) * bs" for p bs :: nat
  using div_times_less_eq_dividend dividend_less_div_times [of bs p] by simp

lemma touched_of_range:
  assumes "0 < bs"
  shows "off \<le> p \<and> p < off + sz \<longleftrightarrow>
    touched bs sz off (p div bs) \<and> sub_start bs off (p div bs) \<le> p \<and> p < sub_stop bs sz off (p div bs)"
proof -
  have "p div bs * bs \<le> p" "p < (p div bs + 1) * bs" using div_span [OF assms, of p] by auto
  then show ?thesis unfolding touched_def sub_start_def sub_stop_def by linarith
qed

lemma prepare_write_source:
  assumes m: "lf_in_range m" "lf_accepted m" and lim: "off + sz + lf_blocksize m < u64_bound"
    and pw: "prepare_write new_ids m sz off ts = Some (m', ops, removed)"
  shows "byte_source m' p =
    (if off \<le> p \<and> p < off + sz
     then Some (new_ids (p div lf_blocksize m), p - max off (p div lf_blocksize m * lf_blocksize m))
     else byte_source m p)"
proof (cases "sz = 0")
  case True
  with pw show ?thesis by (auto simp: prepare_write_def)
next
  case False
  then have sz: "0 < sz" by simp
  note bs = lf_acceptedD(1) [OF m]
  obtain blocks where
    "prepare_write new_ids m sz off ts =
       Some (m\<lparr>lf_blocks := blocks, lf_need_sync := True, lf_updated := ts,
               lf_size := max (lf_size m) (off + sz)\<rparr>,
             map (write_op new_ids (lf_blocksize m) sz off)
               [off div lf_blocksize m ..< div_ceil (off + sz) (lf_blocksize m)],
             \<Union> (freed_ids m sz off ` {b. touched (lf_blocksize m) sz off b}))"
    and slots: "\<And>b. slot blocks b = written_slot new_ids m sz off b"
    using prepare_write_shape [OF m sz lim, of new_ids ts] by metis
  with pw have m': "lf_blocks m' = blocks" "lf_blocksize m' = lf_blocksize m" by auto
  show ?thesis
    using touched_of_range [OF bs, of off p sz] chunk_source_write_slot [OF _ bs sz]
    by (auto simp: byte_source_def slots m' written_slot_def sub_start_def)
qed

subsection \<open>Removed chunk ids\<close>

text \<open>
  A chunk id may be used by several views of one slot (a view split by a write), never by two
  slots.
\<close>

definition ids_local :: "local_file_manifest \<Rightarrow> bool" where
  "ids_local m \<longleftrightarrow>
     (\<forall>i j. i \<noteq> j \<longrightarrow> cs_ids (slot (lf_blocks m) i) \<inter> cs_ids (slot (lf_blocks m) j) = {})"

lemma cs_ids_clip:
  "cs_ids (clip_before s cs) \<subseteq> cs_ids cs" "cs_ids (clip_after s cs) \<subseteq> cs_ids cs"
  by (auto simp: cs_ids_def clip_before_def clip_after_def)

lemma cs_ids_write_slot:
  "cs_ids (write_slot new_ids bs sz off b cs) = insert (new_ids b) (cs_ids (kept_views bs sz off b cs))"
  by (auto simp: write_slot_def kept_views_def new_view_def)

lemma cs_ids_kept: "cs_ids (kept_views bs sz off b cs) \<subseteq> cs_ids cs"
  using cs_ids_clip by (auto simp: kept_views_def)

lemma prepare_write_ids:
  assumes m: "lf_in_range m" "lf_accepted m" and lim: "off + sz + lf_blocksize m < u64_bound"
    and loc: "ids_local m" and fresh: "range new_ids \<inter> lf_ids m = {}" and inj: "inj new_ids"
    and pw: "prepare_write new_ids m sz off ts = Some (m', ops, removed)"
  shows "removed = lf_ids m - lf_ids m' \<and> lf_ids m' - lf_ids m = cv_id ` wo_chunk_view ` set ops \<and>
    ids_local m'"
proof (cases "sz = 0")
  case True
  with pw loc show ?thesis by (auto simp: prepare_write_def)
next
  case False
  then have sz: "0 < sz" by simp
  note bs = lf_acceptedD(1) [OF m]
  let ?bs = "lf_blocksize m" and ?S = "\<lambda>b. cs_ids (slot (lf_blocks m) b)"
    and ?K = "\<lambda>b. cs_ids (kept_views (lf_blocksize m) sz off b (slot (lf_blocks m) b))"
  obtain blocks where
    "prepare_write new_ids m sz off ts =
       Some (m\<lparr>lf_blocks := blocks, lf_need_sync := True, lf_updated := ts,
               lf_size := max (lf_size m) (off + sz)\<rparr>,
             map (write_op new_ids ?bs sz off) [off div ?bs ..< div_ceil (off + sz) ?bs],
             \<Union> (freed_ids m sz off ` {b. touched ?bs sz off b}))"
    and slots: "\<And>b. slot blocks b = written_slot new_ids m sz off b"
    using prepare_write_shape [OF m sz lim, of new_ids ts] by metis
  with pw have m': "lf_blocks m' = blocks"
    and removed: "removed = (\<Union>b \<in> {b. touched ?bs sz off b}. ?S b - ?K b)"
    and ops: "ops = map (write_op new_ids ?bs sz off) [off div ?bs ..< div_ceil (off + sz) ?bs]"
    by (auto simp: freed_ids_def)
  have opids: "cv_id ` wo_chunk_view ` set ops = new_ids ` {b. touched ?bs sz off b}"
    using touched_iff [OF bs] by (auto simp: ops write_op_def new_view_def image_image)
  have S': "cs_ids (slot blocks b) =
      (if touched ?bs sz off b then insert (new_ids b) (?K b) else ?S b)" for b
    by (simp add: slots written_slot_def cs_ids_write_slot)
  have K: "?K b \<subseteq> ?S b" for b by (rule cs_ids_kept)
  have old: "lf_ids m = (\<Union>b. ?S b)" by (simp add: lf_ids_def cs_ids_concat_slot)
  have new: "lf_ids m' = (\<Union>b. cs_ids (slot blocks b))" by (simp add: lf_ids_def cs_ids_concat_slot m')
  have disj: "x \<in> ?S i \<Longrightarrow> x \<in> ?S j \<Longrightarrow> i = j" for x i j using loc by (auto simp: ids_local_def)
  have nf: "new_ids b \<notin> ?S j" for b j using fresh old by auto
  have "removed = lf_ids m - lf_ids m'"
    unfolding removed old new S' using K disj nf by (auto split: if_splits) blast+
  moreover have "lf_ids m' - lf_ids m = cv_id ` wo_chunk_view ` set ops"
    unfolding old new S' opids using K nf by (auto split: if_splits) blast
  moreover have "ids_local m'"
    unfolding ids_local_def m' S' using K disj nf inj by (auto split: if_splits dest: injD) blast+
  ultimately show ?thesis by blast
qed

end
