(* ===== verification/File_Resize.thy ===== *)
theory File_Resize
  imports File_Write
begin

text \<open>
  What \<^const>\<open>prepare_read\<close>, \<^const>\<open>prepare_truncate\<close> and \<^const>\<open>prepare_resize\<close> do to a whole
  manifest: the views a read returns are the ordered pieces of the requested range, a truncation
  keeps exactly the bytes below the new size, an extension only makes a hole.
\<close>

subsection \<open>Dropping empty slots\<close>

lemma pop_empty_blocks_facts:
  "slot (pop_empty_blocks blocks) j = slot blocks j \<and> last_slot_ok (pop_empty_blocks blocks) \<and>
   length (pop_empty_blocks blocks) \<le> length blocks"
proof (induction blocks rule: pop_empty_blocks.induct)
  case (1 blocks)
  show ?case
  proof (cases "blocks \<noteq> [] \<and> last blocks = []")
    case True
    then have pop: "pop_empty_blocks blocks = pop_empty_blocks (butlast blocks)"
      by (subst pop_empty_blocks.simps) simp
    from True have "blocks = butlast blocks @ [[]]" by (metis append_butlast_last_id)
    then have "slot blocks j = slot (butlast blocks) j"
      by (metis (no_types, lifting) append_is_Nil_conv less_Suc_eq length_append_singleton list.distinct(1)
          nth_append nth_append_length slot_def)
    with 1 [OF True] pop show ?thesis by auto
  next
    case False
    then have "pop_empty_blocks blocks = blocks" by (subst pop_empty_blocks.simps) argo
    with False show ?thesis by (auto simp: last_slot_ok_def)
  qed
qed

subsection \<open>Truncation\<close>

lemma clip_before_all: "(\<And>c. c \<in> set cs \<Longrightarrow> cv_start c < s \<and> cv_stop c \<le> s) \<Longrightarrow> clip_before s cs = cs"
  by (simp add: clip_before_def map_idI)

lemma clip_before_none: "(\<And>c. c \<in> set cs \<Longrightarrow> s \<le> cv_start c) \<Longrightarrow> clip_before s cs = []"
  by (auto simp: clip_before_def filter_empty_conv not_less)

lemma clip_before_slot:
  assumes "chunks_ok (j * bs) ((j + 1) * bs) cs" "0 < bs"
  shows "j < sz div bs \<Longrightarrow> clip_before sz cs = cs" "sz div bs < j \<Longrightarrow> clip_before sz cs = []"
proof -
  note c = chunks_ok_in [OF assms(1)]
  show "clip_before sz cs = cs" if "j < sz div bs"
  proof (rule clip_before_all)
    have "(j + 1) * bs \<le> sz div bs * bs" using that by (intro mult_le_mono1) simp
    also have "\<dots> \<le> sz" by simp
    finally show "cv_start c < sz \<and> cv_stop c \<le> sz" if "c \<in> set cs" for c
      using c [OF that] by (auto simp: cv_ok_iff)
  qed
  show "clip_before sz cs = []" if "sz div bs < j"
  proof (rule clip_before_none)
    have "sz < (sz div bs + 1) * bs" using div_span [OF assms(2), of sz] by simp
    also have "\<dots> \<le> j * bs" using that by (intro mult_le_mono1) simp
    finally show "sz \<le> cv_start c" if "c \<in> set cs" for c using c [OF that] by simp
  qed
qed

lemma prepare_truncate_shape:
  assumes m: "lf_in_range m" "lf_accepted m" and sz: "sz < lf_size m"
  obtains blocks where
    "prepare_truncate m sz ts =
       Some (m\<lparr>lf_blocks := blocks, lf_need_sync := True, lf_size := sz, lf_updated := ts\<rparr>,
             cs_ids (concat (drop (sz div lf_blocksize m) (lf_blocks m))) -
             cs_ids (clip_before sz (slot (lf_blocks m) (sz div lf_blocksize m))))"
    "length blocks \<le> length (lf_blocks m)" "last_slot_ok blocks"
    "\<And>j. slot blocks j = clip_before sz (slot (lf_blocks m) j)"
proof -
  let ?bs = "lf_blocksize m" and ?b = "sz div lf_blocksize m"
  let ?cs = "slot (lf_blocks m) ?b" and ?R = "cs_ids (concat (drop (sz div lf_blocksize m) (lf_blocks m)))"
  note acc = lf_acceptedD [OF m]
  have ok: "chunks_ok (j * ?bs) ((j + 1) * ?bs) (slot (lf_blocks m) j)" for j by (rule acc(3))
  have chunks: "(case lf_get_chunks m ?b of None \<Rightarrow> [] | Some cs \<Rightarrow> cs) = ?cs"
    by (simp add: lf_get_chunks_def slot_def)
  define k where "k = lower_bound cv_start sz ?cs"
  have bis: "bisect_stop sz ?cs = k"
    using bisect_stop_lower_bound [OF chunks_ok_sorted [OF ok [of ?b]]] by (simp add: k_def)
  have clip: "clip_before sz ?cs = (if k = 0 then []
     else take (k - 1) ?cs @ [(?cs ! (k - 1))\<lparr>cv_stop := min (cv_stop (?cs ! (k - 1))) sz\<rparr>])"
    using clip_before_unfold [OF ok, of sz ?b] by (simp add: Let_def k_def)
  have below: "slot (take ?b (lf_blocks m)) j = (if j < ?b then slot (lf_blocks m) j else [])" for j
    by (simp add: slot_def)
  define blocks where "blocks = (if k = 0 then pop_empty_blocks (take ?b (lf_blocks m))
     else take ?b (lf_blocks m) @ [clip_before sz ?cs])"
  have len: "?b < length (lf_blocks m)" if "k \<noteq> 0"
    using that lower_bound_le_length [of cv_start sz ?cs]
    by (cases "?b < length (lf_blocks m)") (simp_all add: k_def slot_def)
  show thesis
  proof
    show "prepare_truncate m sz ts =
       Some (m\<lparr>lf_blocks := blocks, lf_need_sync := True, lf_size := sz, lf_updated := ts\<rparr>,
             ?R - cs_ids (clip_before sz ?cs))"
    proof (cases "k = 0")
      case True
      then show ?thesis
        using sz clip by (simp add: prepare_truncate_def chunks bis blocks_def Let_def cs_ids_def)
    next
      case False
      have kl: "k - 1 < length ?cs"
        using False lower_bound_le_length [of cv_start sz ?cs] by (simp add: k_def)
      have "cv_start (?cs ! (k - 1)) < sz"
        using lower_bound_below [of "k - 1" cv_start sz ?cs] False by (simp add: k_def)
      moreover have "?b * ?bs \<le> cv_start (?cs ! (k - 1))"
        using chunks_ok_in [OF ok [of ?b]] kl by (meson nth_mem)
      ultimately have "sz mod ?bs \<noteq> 0" "0 < sz"
        using div_mult_mod_eq [of sz ?bs] by linarith+
      then show ?thesis
        using sz clip False kl
        by (simp add: prepare_truncate_def chunks bis blocks_def Let_def cs_ids_def)
    qed
    show "length blocks \<le> length (lf_blocks m)"
      using pop_empty_blocks_facts [of "take ?b (lf_blocks m)"] len by (auto simp: blocks_def)
    show "last_slot_ok blocks"
      using pop_empty_blocks_facts [of "take ?b (lf_blocks m)"] clip
      by (auto simp: blocks_def last_slot_ok_def)
    show "slot blocks j = clip_before sz (slot (lf_blocks m) j)" for j
    proof -
      have "slot blocks j = (if j < ?b then slot (lf_blocks m) j
          else if j = ?b then clip_before sz ?cs else [])"
        using pop_empty_blocks_facts [of "take ?b (lf_blocks m)" j] below [of j] clip len
        by (auto simp: blocks_def slot_def nth_append)
      then show ?thesis
        using clip_before_slot [OF ok [of j] acc(1), of sz] by (cases "j < ?b"; cases "j = ?b") auto
    qed
  qed
qed

lemma prepare_resize_shape:
  assumes m: "lf_in_range m" "lf_accepted m"
  obtains m' where
    "prepare_resize m sz ts = Some (m', if sz < lf_size m
       then cs_ids (concat (drop (sz div lf_blocksize m) (lf_blocks m))) -
            cs_ids (clip_before sz (slot (lf_blocks m) (sz div lf_blocksize m)))
       else {})"
    "lf_base m' = lf_base m" "lf_parent m' = lf_parent m" "lf_blocksize m' = lf_blocksize m"
    "lf_size m' = sz" "lf_need_sync m'" "lf_updated m' = ts"
    "length (lf_blocks m') \<le> length (lf_blocks m)" "last_slot_ok (lf_blocks m')"
    "\<And>j. slot (lf_blocks m') j = clip_before sz (slot (lf_blocks m) j)"
proof (cases "sz < lf_size m")
  case True
  then obtain blocks where
    "prepare_truncate m sz ts =
       Some (m\<lparr>lf_blocks := blocks, lf_need_sync := True, lf_size := sz, lf_updated := ts\<rparr>,
             cs_ids (concat (drop (sz div lf_blocksize m) (lf_blocks m))) -
             cs_ids (clip_before sz (slot (lf_blocks m) (sz div lf_blocksize m))))"
    "length blocks \<le> length (lf_blocks m)" "last_slot_ok blocks"
    "\<And>j. slot blocks j = clip_before sz (slot (lf_blocks m) j)"
    using prepare_truncate_shape [OF m True, of ts] by metis
  then show thesis
    using True
    by (intro that [of "m\<lparr>lf_blocks := blocks, lf_need_sync := True, lf_size := sz, lf_updated := ts\<rparr>"])
      (simp_all add: prepare_resize_def)
next
  case False
  have "clip_before sz (slot (lf_blocks m) j) = slot (lf_blocks m) j" for j
  proof (rule clip_before_all)
    fix c assume c: "c \<in> set (slot (lf_blocks m) j)"
    then show "cv_start c < sz \<and> cv_stop c \<le> sz"
      using lf_acceptedD(5) [OF m c] chunks_ok_start_less_stop [OF lf_acceptedD(3) [OF m] c] False
      by simp
  qed
  then show thesis
    using False lf_acceptedD(4) [OF m]
    by (intro that [of "m\<lparr>lf_need_sync := True, lf_size := sz, lf_updated := ts\<rparr>"])
      (simp_all add: prepare_resize_def)
qed

lemma prepare_resize_accepted:
  assumes m: "lf_in_range m" "lf_accepted m" and lim: "sz + lf_blocksize m < u64_bound"
  shows "\<exists>m' removed. prepare_resize m sz ts = Some (m', removed) \<and>
    lf_in_range m' \<and> lf_accepted m' \<and> lf_size m' = sz \<and>
    lf_base m' = lf_base m \<and> lf_parent m' = lf_parent m \<and> lf_blocksize m' = lf_blocksize m \<and>
    (\<forall>p. byte_source m' p = (if p < sz then byte_source m p else None))"
proof -
  note acc = lf_acceptedD [OF m]
  obtain m' removed where m': "prepare_resize m sz ts = Some (m', removed)"
    "lf_base m' = lf_base m" "lf_parent m' = lf_parent m" "lf_blocksize m' = lf_blocksize m"
    "lf_size m' = sz" "length (lf_blocks m') \<le> length (lf_blocks m)" "last_slot_ok (lf_blocks m')"
    "\<And>j. slot (lf_blocks m') j = clip_before sz (slot (lf_blocks m) j)"
    using prepare_resize_shape [OF m, of sz ts] by metis
  have "length (lf_blocks m') * lf_blocksize m \<le> length (lf_blocks m) * lf_blocksize m"
    using m'(6) by simp
  also have "\<dots> < u64_bound" using m(1) by (simp add: lf_in_range_def)
  finally have range: "lf_in_range m'"
    using m'(4,5) lim acc(1) by (simp add: lf_in_range_def)
  have ok: "chunks_ok (j * lf_blocksize m) ((j + 1) * lf_blocksize m) (clip_before sz (slot (lf_blocks m) j))"
    for j
  proof (cases "sz \<le> (j + 1) * lf_blocksize m")
    case True
    have "chunks_ok (j * lf_blocksize m) sz (clip_before sz (slot (lf_blocks m) j))"
      by (rule chunks_ok_clip_before [OF acc(3) True])
    moreover have "chunks_ok lo hi' cs" if "chunks_ok lo hi cs" "hi \<le> hi'" for lo hi hi' cs
      using that by (induction lo hi cs rule: chunks_ok.induct) auto
    ultimately show ?thesis using True by blast
  next
    case False
    have "clip_before sz (slot (lf_blocks m) j) = slot (lf_blocks m) j"
      by (rule clip_before_all) (use False chunks_ok_in [OF acc(3) [of j]] cv_ok_iff in fastforce)
    then show ?thesis using acc(3) by simp
  qed
  moreover have "cv_stop c \<le> sz" if "c \<in> set (clip_before sz cs)" for c cs
    using that by (auto simp: clip_before_def)
  ultimately have "lf_accepted m'"
    using acc(2) m' by (simp add: lf_check_data_integrity_iff [OF range] blocks_ok_slot stops_below_slot)
  moreover have "byte_source m' p = (if p < sz then byte_source m p else None)" for p
    using m' by (simp add: byte_source_def chunk_source_clip_before)
  ultimately show ?thesis using m' range by blast
qed

lemma cs_ids_drop_slot: "cs_ids (concat (drop n blocks)) = (\<Union>j \<in> {n..}. cs_ids (slot blocks j))"
proof -
  have "slot (drop n blocks) i = slot blocks (n + i)" for i by (auto simp: slot_def)
  then have "cs_ids (concat (drop n blocks)) = (\<Union>i. cs_ids (slot blocks (n + i)))"
    by (simp add: cs_ids_concat_slot)
  also have "\<dots> = (\<Union>j \<in> {n..}. cs_ids (slot blocks j))"
    by (auto simp: le_iff_add) (metis atLeast_iff le_add1)
  finally show ?thesis .
qed

lemma prepare_resize_ids:
  assumes m: "lf_in_range m" "lf_accepted m" and loc: "ids_local m"
    and pr: "prepare_resize m sz ts = Some (m', removed)"
  shows "removed = lf_ids m - lf_ids m' \<and> lf_ids m' \<subseteq> lf_ids m \<and> ids_local m'"
proof -
  let ?b = "sz div lf_blocksize m" and ?S = "\<lambda>j. cs_ids (slot (lf_blocks m) j)"
    and ?S' = "\<lambda>j. cs_ids (clip_before sz (slot (lf_blocks m) j))"
  note acc = lf_acceptedD [OF m]
  obtain m'' where m'': "prepare_resize m sz ts = Some (m'', if sz < lf_size m
       then cs_ids (concat (drop ?b (lf_blocks m))) - ?S' ?b else {})"
    "\<And>j. slot (lf_blocks m'') j = clip_before sz (slot (lf_blocks m) j)"
    using prepare_resize_shape [OF m, of sz ts] by metis
  have removed: "removed = (if sz < lf_size m then (\<Union>j \<in> {?b..}. ?S j) - ?S' ?b else {})"
    and slots: "\<And>j. slot (lf_blocks m') j = clip_before sz (slot (lf_blocks m) j)"
    using pr m'' by (auto simp: cs_ids_drop_slot)
  have ids: "lf_ids m = (\<Union>j. ?S j)" "lf_ids m' = (\<Union>j. ?S' j)"
    by (simp_all add: lf_ids_def cs_ids_concat_slot slots)
  have sub: "?S' j \<subseteq> ?S j" for j by (rule cs_ids_clip)
  have disj: "x \<in> ?S i \<Longrightarrow> x \<in> ?S j \<Longrightarrow> i = j" for x i j using loc by (auto simp: ids_local_def)
  have split: "?S' j = (if j < ?b then ?S j else if j = ?b then ?S' ?b else {})" for j
    using clip_before_slot [OF acc(3) [of j] acc(1), of sz] by (cases "j < ?b"; cases "j = ?b") auto
  have "removed = lf_ids m - lf_ids m'"
  proof (cases "sz < lf_size m")
    case True
    show ?thesis
    proof (intro equalityI subsetI)
      fix x assume "x \<in> removed"
      then obtain j where j: "?b \<le> j" "x \<in> ?S j" "x \<notin> ?S' ?b" using removed True by auto
      have "x \<notin> ?S' i" for i
      proof
        assume i: "x \<in> ?S' i"
        then have "i = j" using sub disj j(2) by blast
        with i j split [of i] show False by (auto split: if_splits)
      qed
      with j ids show "x \<in> lf_ids m - lf_ids m'" by blast
    next
      fix x assume "x \<in> lf_ids m - lf_ids m'"
      then obtain j where j: "x \<in> ?S j" "x \<notin> ?S' j" "x \<notin> ?S' ?b" using ids by blast
      then have "?b \<le> j" using split [of j] by (auto split: if_splits)
      with j removed True show "x \<in> removed" by auto
    qed
  next
    case False
    have "clip_before sz (slot (lf_blocks m) j) = slot (lf_blocks m) j" for j
      by (rule clip_before_all)
        (use lf_acceptedD(5) [OF m] chunks_ok_start_less_stop [OF lf_acceptedD(3) [OF m]] False in force)
    with False removed ids show ?thesis by simp
  qed
  then show ?thesis using sub disj ids by (auto simp: ids_local_def slots) blast+
qed

subsection \<open>Reading\<close>

lemma clip_range_clips: "s < t \<Longrightarrow> clip_range s t cs = clip_after s (clip_before t cs)"
  by (induction cs) (auto simp: clip_range_def clip_before_def clip_after_def)

lemma read_block_clip:
  assumes m: "lf_in_range m" "lf_accepted m" and lim: "off + sz \<le> lf_size m"
    and b: "off div lf_blocksize m \<le> b" "b < div_ceil (off + sz) (lf_blocksize m)"
  shows "read_block m sz off b = Some (clip_range (sub_start (lf_blocksize m) off b)
    (sub_stop (lf_blocksize m) sz off b) (slot (lf_blocks m) b))"
proof -
  let ?bs = "lf_blocksize m" and ?s = "sub_start (lf_blocksize m) off b"
    and ?t = "sub_stop (lf_blocksize m) sz off b"
  note acc = lf_acceptedD [OF m]
  have range: "lf_size m + ?bs < u64_bound" using m(1) by (simp add: lf_in_range_def)
  have t: "touched ?bs sz off b" using b touched_iff [OF acc(1)] by simp
  then have st: "?s \<le> ?t" by (auto simp: touched_def sub_start_def sub_stop_def)
  have "b * ?bs + ?bs < u64_bound" using t range lim by (simp add: touched_def)
  then have u: "u64_mul b ?bs = b * ?bs" "u64_add (b * ?bs) ?bs = (b + 1) * ?bs"
      "u64_add off sz = off + sz"
    using range lim by (simp_all add: u64_simps)
  have "?t < u64_bound" using lim range by (simp add: sub_stop_def)
  then have br: "block_read (slot (lf_blocks m) b) (?t - ?s) ?s =
      Some (clip_range ?s ?t (slot (lf_blocks m) b))"
    using block_read_clip [OF acc(3) [of b], of ?s "?t - ?s"] st by simp
  have "max off (b * ?bs) = ?s" "min (off + sz) ((b + 1) * ?bs) = ?t"
    by (simp_all add: sub_start_def sub_stop_def)
  then have "read_block m sz off b = (case lf_get_chunks m b of None \<Rightarrow> Some []
      | Some cs \<Rightarrow> if cs = [] then Some [] else block_read cs (?t - ?s) ?s)"
    using st by (simp add: read_block_def Let_def u split: option.split)
  then show ?thesis
    using br by (auto simp: lf_get_chunks_def slot_def clip_range_def split: if_splits)
qed

lemma span_index: "0 < bs \<Longrightarrow> j * bs \<le> p \<Longrightarrow> p < (j + 1) * bs \<Longrightarrow> j = p div bs" for j bs p :: nat
  by (rule div_nat_eqI [symmetric]) (simp_all add: mult.commute)

lemma chunk_source_concat:
  assumes "\<And>j. j \<noteq> b \<Longrightarrow> chunk_source (f j) p = None"
  shows "chunk_source (concat (map f [i..<n])) p =
    (if i \<le> b \<and> b < n then chunk_source (f b) p else None)"
proof (induction n)
  case (Suc n)
  then show ?case using assms [of n] by (cases "b = n") (auto split: option.split)
qed simp

lemma chunks_ok_concat:
  assumes "\<And>j. i \<le> j \<Longrightarrow> j < n \<Longrightarrow> chunks_ok (lo j) (hi j) (f j)"
    and "\<And>j. i \<le> j \<Longrightarrow> j < n \<Longrightarrow> lo j \<le> hi j" and "\<And>j. i < j \<Longrightarrow> j < n \<Longrightarrow> hi (j - 1) \<le> lo j"
    and "i < n"
  shows "chunks_ok (lo i) (hi (n - 1)) (concat (map f [i..<n])) \<and> lo i \<le> hi (n - 1)"
  using assms
proof (induction n)
  case (Suc n)
  show ?case
  proof (cases "i = n")
    case True
    with Suc.prems show ?thesis by simp
  next
    case False
    with Suc have IH: "chunks_ok (lo i) (hi (n - 1)) (concat (map f [i..<n]))" "lo i \<le> hi (n - 1)"
      by auto
    have le: "hi (n - 1) \<le> lo n" "lo n \<le> hi n" using Suc.prems False by auto
    have "chunks_ok (hi (n - 1)) (hi n) (f n)"
      using chunks_ok_Cons_mono [of "lo n" "hi n" "f n" "hi (n - 1)"] Suc.prems False le by simp
    with IH le show ?thesis
      using chunks_ok_append [of "lo i" "hi (n - 1)"] Suc.prems(4) False by auto
  qed
qed simp

definition read_slots :: "local_file_manifest \<Rightarrow> nat \<Rightarrow> nat \<Rightarrow> chunk_view list" where
  "read_slots m n off =
     concat (map (\<lambda>b. clip_range (sub_start (lf_blocksize m) off b) (sub_stop (lf_blocksize m) n off b)
                        (slot (lf_blocks m) b))
       [off div lf_blocksize m ..< div_ceil (off + n) (lf_blocksize m)])"

lemma prepare_read_shape:
  assumes m: "lf_in_range m" "lf_accepted m"
    and o: "o' = min off (lf_size m)" and n: "n = min sz (lf_size m - o')"
  shows "prepare_read m sz off = Some (n, read_slots m n o')"
proof -
  let ?bs = "lf_blocksize m" and ?i = "o' div lf_blocksize m" and ?n = "div_ceil (o' + n) (lf_blocksize m)"
  let ?f = "\<lambda>b. clip_range (sub_start ?bs o' b) (sub_stop ?bs n o' b) (slot (lf_blocks m) b)"
  have lim: "o' + n \<le> lf_size m" using o n by simp
  have "lf_size m + ?bs < u64_bound" using m(1) by (simp add: lf_in_range_def)
  then have "u64_add o' n = o' + n" using lim by (simp add: u64_simps)
  moreover have "those (map (read_block m n o') [?i..<?n]) = Some (map ?f [?i..<?n])"
    by (rule those_map_Some) (rule read_block_clip [OF m lim], auto)
  moreover have "o' \<le> lf_size m" using o by simp
  ultimately show ?thesis
    by (simp add: prepare_read_def read_slots_def Let_def flip: o n)
qed

lemma prepare_read_source:
  assumes m: "lf_in_range m" "lf_accepted m"
    and o: "o' = min off (lf_size m)" and n: "n = min sz (lf_size m - o')"
  shows "prepare_read m sz off = Some (n, read_slots m n o') \<and>
    (\<forall>p. chunk_source (read_slots m n o') p = (if o' \<le> p \<and> p < o' + n then byte_source m p else None)) \<and>
    (0 < n \<longrightarrow> chunks_ok o' (o' + n) (read_slots m n o'))"
proof -
  let ?bs = "lf_blocksize m" and ?i = "o' div lf_blocksize m" and ?n = "div_ceil (o' + n) (lf_blocksize m)"
  let ?s = "sub_start ?bs o'" and ?t = "sub_stop ?bs n o'"
  let ?f = "\<lambda>b. clip_range (?s b) (?t b) (slot (lf_blocks m) b)"
  let ?cs = "concat (map ?f [?i..<?n])"
  note acc = lf_acceptedD [OF m]
  have "prepare_read m sz off = Some (n, ?cs)"
    using prepare_read_shape [OF m o n] by (simp add: read_slots_def)
  moreover have "chunk_source ?cs p = (if o' \<le> p \<and> p < o' + n then byte_source m p else None)" for p
  proof -
    have "chunk_source ?cs p = (if ?i \<le> p div ?bs \<and> p div ?bs < ?n then chunk_source (?f (p div ?bs)) p else None)"
    proof (rule chunk_source_concat)
      fix j assume "j \<noteq> p div ?bs"
      then have "\<not> (j * ?bs \<le> p \<and> p < (j + 1) * ?bs)"
        using span_index [OF acc(1)] by blast
      then show "chunk_source (?f j) p = None"
        using chunk_source_outside [OF acc(3)] by (simp add: chunk_source_clip_range)
    qed
    also have "\<dots> = (if touched ?bs n o' (p div ?bs) \<and> ?s (p div ?bs) \<le> p \<and> p < ?t (p div ?bs)
        then byte_source m p else None)"
      unfolding touched_iff [OF acc(1)] chunk_source_clip_range byte_source_def by simp
    also have "\<dots> = (if o' \<le> p \<and> p < o' + n then byte_source m p else None)"
      unfolding touched_of_range [OF acc(1), of o' p n] ..
    finally show ?thesis .
  qed
  moreover have "chunks_ok o' (o' + n) ?cs" if "0 < n"
  proof -
    have in_n: "?i < ?n"
      using that div_ceil_le_iff [OF acc(1), of ?i "o' + n"] div_span [OF acc(1), of o'] by linarith
    have t: "touched ?bs n o' j" if "?i \<le> j" "j < ?n" for j
      using that touched_iff [OF acc(1)] by simp
    have ok: "chunks_ok (?s j) (?t j) (?f j)" if "?i \<le> j" "j < ?n" for j
    proof -
      have st: "?s j < ?t j" by (rule touched_sub [OF t [OF that] \<open>0 < n\<close> acc(1)])
      have "chunks_ok (j * ?bs) (?t j) (clip_before (?t j) (slot (lf_blocks m) j))"
        by (rule chunks_ok_clip_before [OF acc(3)]) (simp add: sub_stop_def)
      then show ?thesis
        unfolding clip_range_clips [OF st] by (rule chunks_ok_clip_after) (simp add: sub_start_def)
    qed
    have "chunks_ok (?s ?i) (?t (?n - 1)) ?cs \<and> ?s ?i \<le> ?t (?n - 1)"
    proof (rule chunks_ok_concat [OF ok _ _ in_n])
      show "?s j \<le> ?t j" if "?i \<le> j" "j < ?n" for j
        using touched_sub [OF t [OF that] \<open>0 < n\<close> acc(1)] by simp
      show "?t (j - 1) \<le> ?s j" if "?i < j" "j < ?n" for j
        using that by (cases j) (simp_all add: sub_start_def sub_stop_def)
    qed auto
    moreover have "?s ?i = o'" using div_span [OF acc(1), of o'] by (simp add: sub_start_def)
    moreover have "\<not> ?n < ?n" by simp
    then have "o' + n \<le> ?n * ?bs" using div_ceil_le_iff [OF acc(1), of ?n "o' + n"] by simp
    then have "?t (?n - 1) = o' + n" using in_n by (simp add: sub_stop_def flip: mult_Suc)
    ultimately show ?thesis by simp
  qed
  ultimately show ?thesis unfolding read_slots_def by blast
qed

end
