(* ===== verification/Round_Robin_Cache.thy ===== *)
theory Round_Robin_Cache
  imports Prelude
begin

text \<open>
  \<^verbatim>\<open>libparsec/crates/types/src/round_robin_cache.rs\<close>: a fixed-size cache that overwrites its oldest
  item.

  \<open>rr_view\<close> is the abstraction: the items from the newest to the oldest. A push puts one item in
  front and drops the last (\<open>rr_view_push\<close>). The locale \<open>cache\<close> is what a client relies on: a cache
  answers the value pushed last for a key, or nothing; it never brings back an older value. It is
  interpreted on the round-robin cache, and the workspace store uses it to show that cached chunks
  agree with the storage.
\<close>

record ('k, 'v) rr_cache =
  rr_items :: "('k \<times> 'v) option list"
  rr_round_robin :: nat

definition rr_new :: "nat \<Rightarrow> ('k, 'v) rr_cache" where
  "rr_new l = \<lparr>rr_items = replicate l None, rr_round_robin = 0\<rparr>"

text \<open>Writing at an index out of range panics.\<close>

definition rr_push :: "'k \<Rightarrow> 'v \<Rightarrow> ('k, 'v) rr_cache \<Rightarrow> ('k, 'v) rr_cache option" where
  "rr_push key v c =
     (if rr_round_robin c < length (rr_items c)
      then Some (c\<lparr>rr_items := (rr_items c)[rr_round_robin c := Some (key, v)],
                   rr_round_robin := (rr_round_robin c + 1) mod length (rr_items c)\<rparr>)
      else None)"

fun find_item :: "'k \<Rightarrow> ('k \<times> 'v) option list \<Rightarrow> 'v option" where
  "find_item key [] = None"
| "find_item key (None # items) = find_item key items"
| "find_item key (Some (k, v) # items) = (if k = key then Some v else find_item key items)"

definition rr_get :: "('k, 'v) rr_cache \<Rightarrow> 'k \<Rightarrow> 'v option" where
  "rr_get c key =
     find_item key (rev (take (rr_round_robin c) (rr_items c)) @ rev (drop (rr_round_robin c) (rr_items c)))"

definition rr_wf :: "('k, 'v) rr_cache \<Rightarrow> bool" where
  "rr_wf c \<longleftrightarrow> rr_round_robin c < length (rr_items c)"

definition rr_view :: "('k, 'v) rr_cache \<Rightarrow> ('k \<times> 'v) option list" where
  "rr_view c = rev (take (rr_round_robin c) (rr_items c)) @ rev (drop (rr_round_robin c) (rr_items c))"

locale cache =
  fixes get :: "'c \<Rightarrow> 'k \<Rightarrow> 'v option"
    and push :: "'k \<Rightarrow> 'v \<Rightarrow> 'c \<Rightarrow> 'c option"
    and inv :: "'c \<Rightarrow> bool"
  assumes push_total: "inv c \<Longrightarrow> \<exists>c'. push k v c = Some c' \<and> inv c'"
    and get_pushed: "inv c \<Longrightarrow> push k v c = Some c' \<Longrightarrow> get c' k = Some v"
    and get_others: "inv c \<Longrightarrow> push k v c = Some c' \<Longrightarrow> k' \<noteq> k \<Longrightarrow> get c' k' = Some w \<Longrightarrow>
      get c k' = Some w"
begin

lemma coherent_push:
  assumes "inv c" "\<And>k v. get c k = Some v \<Longrightarrow> truth k = Some v" "truth k = Some v"
    "push k v c = Some c'" "get c' k' = Some w"
  shows "truth k' = Some w"
proof (cases "k' = k")
  case True
  with assms(3,5) get_pushed [OF assms(1,4)] show ?thesis by simp
next
  case False
  with get_others [OF assms(1,4) False assms(5)] assms(2) show ?thesis by simp
qed

end

subsection \<open>The queue behind the array\<close>

lemma find_item_append:
  "find_item k (xs @ ys) = (case find_item k xs of None \<Rightarrow> find_item k ys | Some v \<Rightarrow> Some v)"
  by (induction k xs rule: find_item.induct) auto

lemma find_item_butlast: "find_item k (butlast xs) = Some w \<Longrightarrow> find_item k xs = Some w"
  by (cases xs rule: rev_cases) (auto simp: find_item_append)

lemma rr_push_total: "rr_wf c \<Longrightarrow> \<exists>c'. rr_push k v c = Some c' \<and> rr_wf c'"
  by (auto simp: rr_wf_def rr_push_def) (rule mod_less_divisor, linarith)

lemma rr_view_push:
  assumes "rr_wf c" "rr_push k v c = Some c'"
  shows "rr_view c' = Some (k, v) # butlast (rr_view c)"
proof -
  let ?r = "rr_round_robin c" and ?xs = "rr_items c"
  have r: "?r < length ?xs" using assms(1) by (simp add: rr_wf_def)
  then have c': "c' = c\<lparr>rr_items := ?xs[?r := Some (k, v)], rr_round_robin := (?r + 1) mod length ?xs\<rparr>"
    using assms(2) by (simp add: rr_push_def)
  have old: "butlast (rr_view c) = rev (take ?r ?xs) @ rev (drop (Suc ?r) ?xs)"
    using r by (simp add: rr_view_def butlast_append flip: Cons_nth_drop_Suc)
  show ?thesis
  proof (cases "Suc ?r = length ?xs")
    case True
    then have "take ?r ?xs @ [Some (k, v)] = ?xs[?r := Some (k, v)]"
      using r by (simp add: upd_conv_take_nth_drop)
    with True r show ?thesis unfolding old by (simp add: rr_view_def c' flip: rev.simps(2))
  next
    case False
    with r have "(?r + 1) mod length ?xs = Suc ?r" by simp
    with r show ?thesis
      unfolding old by (simp add: rr_view_def c' take_Suc_conv_app_nth)
  qed
qed

lemma rr_get_view: "rr_get c k = find_item k (rr_view c)"
  by (simp add: rr_get_def rr_view_def)

interpretation rr: cache rr_get rr_push rr_wf
proof unfold_locales
  fix c :: "('k, 'v) rr_cache" and c' k v k' w
  assume c: "rr_wf c"
  show "\<exists>c'. rr_push k v c = Some c' \<and> rr_wf c'" by (rule rr_push_total [OF c])
  assume p: "rr_push k v c = Some c'"
  show "rr_get c' k = Some v" by (simp add: rr_get_view rr_view_push [OF c p])
  assume "k' \<noteq> k" "rr_get c' k' = Some w"
  then show "rr_get c k' = Some w"
    by (auto simp: rr_get_view rr_view_push [OF c p] intro: find_item_butlast)
qed

end
