(* ===== verification/Sql_Table.thy ===== *)
theory Sql_Table
  imports Prelude
begin

text \<open>
  The few SQL statements that the storage crates issue, on tables with a primary key. A table is
  the list of its rows in the order SQLite scans them.

  The locale \<open>keyed_table\<close> is the contract the storages rely on: what a lookup answers after an
  insert-or-update and after a delete, and that keys stay unique. It is interpreted in
  \<open>Workspace_Storage\<close> for the vlobs, chunks and blocks tables.
\<close>

definition sql_find :: "('r \<Rightarrow> 'k) \<Rightarrow> 'k \<Rightarrow> 'r list \<Rightarrow> 'r option" where
  "sql_find key k t = find (\<lambda>r. key r = k) t"

text \<open>
  \<^verbatim>\<open>INSERT ... ON CONFLICT DO UPDATE\<close>: \<open>merge new old\<close> is the row left after a conflict.
\<close>

definition sql_upsert :: "('r \<Rightarrow> 'k) \<Rightarrow> ('r \<Rightarrow> 'r \<Rightarrow> 'r) \<Rightarrow> 'r \<Rightarrow> 'r list \<Rightarrow> 'r list" where
  "sql_upsert key merge row t =
     (if sql_find key (key row) t = None then t @ [row]
      else map (\<lambda>r. if key r = key row then merge row r else r) t)"

definition sql_insert_or_ignore :: "('r \<Rightarrow> 'k) \<Rightarrow> 'r \<Rightarrow> 'r list \<Rightarrow> 'r list" where
  "sql_insert_or_ignore key row t = (if sql_find key (key row) t = None then t @ [row] else t)"

definition sql_delete :: "('r \<Rightarrow> bool) \<Rightarrow> 'r list \<Rightarrow> 'r list" where
  "sql_delete P t = filter (\<lambda>r. \<not> P r) t"

definition sql_update :: "('r \<Rightarrow> bool) \<Rightarrow> ('r \<Rightarrow> 'r) \<Rightarrow> 'r list \<Rightarrow> 'r list" where
  "sql_update P f t = map (\<lambda>r. if P r then f r else r) t"

definition sql_keys_unique :: "('r \<Rightarrow> 'k) \<Rightarrow> 'r list \<Rightarrow> bool" where
  "sql_keys_unique key t = distinct (map key t)"

lemma sql_find_None: "sql_find key k t = None \<longleftrightarrow> k \<notin> key ` set t"
  by (auto simp: sql_find_def find_None_iff)

lemma sql_find_Some: "sql_find key k t = Some r \<Longrightarrow> r \<in> set t \<and> key r = k"
  by (auto simp: sql_find_def find_Some_iff)

lemma sql_find_unique:
  "sql_keys_unique key t \<Longrightarrow> r \<in> set t \<Longrightarrow> sql_find key (key r) t = Some r"
proof (induction t)
  case (Cons s t)
  then show ?case by (auto simp: sql_find_def sql_keys_unique_def)
qed simp

lemma sql_find_append:
  "sql_find key k (t @ u) = (case sql_find key k t of None \<Rightarrow> sql_find key k u | Some r \<Rightarrow> Some r)"
  by (induction t) (auto simp: sql_find_def)

lemma sql_find_map:
  "(\<And>r. key (f r) = key r) \<Longrightarrow> sql_find key k (map f t) = map_option f (sql_find key k t)"
  by (induction t) (auto simp: sql_find_def)

lemma sql_find_update:
  "(\<And>r. key (f r) = key r) \<Longrightarrow>
     sql_find key k (sql_update P f t) = map_option (\<lambda>r. if P r then f r else r) (sql_find key k t)"
  unfolding sql_update_def by (rule sql_find_map) simp

lemma sql_keys_update:
  "(\<And>r. key (f r) = key r) \<Longrightarrow> map key (sql_update P f t) = map key t"
  by (simp add: sql_update_def)

lemma sql_keys_delete: "sql_keys_unique key t \<Longrightarrow> sql_keys_unique key (sql_delete P t)"
  by (simp add: sql_keys_unique_def sql_delete_def distinct_map_filter)

lemma sql_find_delete:
  "sql_find key k (sql_delete (\<lambda>r. key r \<in> D) t) = (if k \<in> D then None else sql_find key k t)"
  by (induction t) (auto simp: sql_find_def sql_delete_def)

locale keyed_table =
  fixes key :: "'r \<Rightarrow> 'k" and merge :: "'r \<Rightarrow> 'r \<Rightarrow> 'r"
  assumes key_merge: "key new = key old \<Longrightarrow> key (merge new old) = key old"
begin

lemma find_upsert:
  "sql_find key k (sql_upsert key merge row t) =
     (if k = key row
      then Some (case sql_find key k t of None \<Rightarrow> row | Some old \<Rightarrow> merge row old)
      else sql_find key k t)"
proof (cases "sql_find key (key row) t")
  case None
  moreover have "sql_find key k [row] = (if k = key row then Some row else None)"
    by (simp add: sql_find_def)
  ultimately show ?thesis
    by (auto simp: sql_upsert_def sql_find_append split: option.split)
next
  case (Some old)
  have "sql_find key k (map (\<lambda>r. if key r = key row then merge row r else r) t) =
      map_option (\<lambda>r. if key r = key row then merge row r else r) (sql_find key k t)"
    by (rule sql_find_map) (simp add: key_merge)
  with Some show ?thesis
    by (cases "sql_find key k t") (auto simp: sql_upsert_def dest: sql_find_Some)
qed

lemma unique_upsert:
  assumes "sql_keys_unique key t" shows "sql_keys_unique key (sql_upsert key merge row t)"
proof -
  have "map key (map (\<lambda>r. if key r = key row then merge row r else r) t) = map key t"
    by (simp add: key_merge)
  with assms show ?thesis
    unfolding sql_upsert_def sql_keys_unique_def by (simp add: sql_find_None image_iff del: map_map)
qed

lemma length_upsert: "length (sql_upsert key merge row t) \<le> Suc (length t)"
  by (simp add: sql_upsert_def)

end

end
