(* ===== verification/Workspace_Storage.thy ===== *)
theory Workspace_Storage
  imports Sql_Table
begin

text \<open>
  \<^verbatim>\<open>libparsec/crates/platform_storage/src/native/workspace.rs\<close>: the SQLite storage of one
  workspace on the client. Two databases: the data one holds the vlobs (encrypted manifests), the
  chunks not uploaded yet, the realm checkpoint and the prevent-sync pattern; the cache one holds
  blocks already uploaded, evicted by age when there are too many.

  An operation is a transaction: it is modelled by the state it commits. \<open>promote_chunk_to_block\<close>
  works on both databases and commits twice, so it is given the commit at which it fails, if any.
  The order that SQL leaves open among rows with equal \<^verbatim>\<open>accessed_on\<close> is the scan order here.
\<close>

record vlob_row =
  vr_id :: vlob_id
  vr_base_version :: nat
  vr_remote_version :: nat
  vr_need_sync :: bool
  vr_blob :: "byte list"

record chunk_row =
  kr_id :: chunk_id
  kr_size :: nat
  kr_offline :: bool
  kr_accessed_on :: "date_time option"
  kr_data :: "byte list"

record workspace_db =
  db_checkpoint :: "nat option"
  db_vlobs :: "vlob_row list"
  db_chunks :: "chunk_row list"
  db_pattern :: "string \<times> bool"
  db_blocks :: "chunk_row list"
  db_cache_max_blocks :: u64

record update_manifest_data =
  ud_entry_id :: vlob_id
  ud_encrypted :: "byte list"
  ud_need_sync :: bool
  ud_base_version :: nat

datatype populate_manifest_outcome = Stored | AlreadyPresent
datatype mark_prevent_sync_pattern_error = PatternMismatch

subsection \<open>Queries\<close>

definition db_get_realm_checkpoint :: "workspace_db \<Rightarrow> nat" where
  "db_get_realm_checkpoint db = (case db_checkpoint db of None \<Rightarrow> 0 | Some c \<Rightarrow> c)"

definition db_update_realm_checkpoint :: "nat \<Rightarrow> workspace_db \<Rightarrow> workspace_db" where
  "db_update_realm_checkpoint new_checkpoint db =
     db\<lparr>db_checkpoint := Some (new_checkpoint mod 2 ^ 32)\<rparr>"

definition db_update_manifest_remote_version :: "vlob_id \<Rightarrow> nat \<Rightarrow> workspace_db \<Rightarrow> workspace_db" where
  "db_update_manifest_remote_version entry_id remote_version db =
     db\<lparr>db_vlobs := sql_update (\<lambda>r. vr_id r = entry_id)
          (\<lambda>r. r\<lparr>vr_remote_version := remote_version\<rparr>) (db_vlobs db)\<rparr>"

definition db_get_manifest :: "workspace_db \<Rightarrow> vlob_id \<Rightarrow> byte list option" where
  "db_get_manifest db entry_id = map_option vr_blob (sql_find vr_id entry_id (db_vlobs db))"

definition db_list_manifests :: "workspace_db \<Rightarrow> nat \<Rightarrow> nat \<Rightarrow> byte list list" where
  "db_list_manifests db offset limit = map vr_blob (take limit (drop offset (db_vlobs db)))"

definition db_get_chunk :: "workspace_db \<Rightarrow> chunk_id \<Rightarrow> byte list option" where
  "db_get_chunk db i = map_option kr_data (sql_find kr_id i (db_chunks db))"

definition db_get_block_and_update_accessed_on ::
  "workspace_db \<Rightarrow> block_id \<Rightarrow> date_time \<Rightarrow> workspace_db \<times> byte list option" where
  "db_get_block_and_update_accessed_on db i timestamp =
     (let blocks = sql_update (\<lambda>r. kr_id r = i) (\<lambda>r. r\<lparr>kr_accessed_on := Some timestamp\<rparr>) (db_blocks db)
      in (db\<lparr>db_blocks := blocks\<rparr>, map_option kr_data (sql_find kr_id i blocks)))"

definition vlob_row_of :: "update_manifest_data \<Rightarrow> vlob_row" where
  "vlob_row_of m =
     \<lparr>vr_id = ud_entry_id m, vr_base_version = ud_base_version m,
      vr_remote_version = ud_base_version m, vr_need_sync = ud_need_sync m, vr_blob = ud_encrypted m\<rparr>"

definition db_populate_manifest ::
  "update_manifest_data \<Rightarrow> workspace_db \<Rightarrow> workspace_db \<times> populate_manifest_outcome" where
  "db_populate_manifest m db =
     (let vlobs = sql_insert_or_ignore vr_id (vlob_row_of m) (db_vlobs db);
          rows_affected = length vlobs - length (db_vlobs db)
      in (db\<lparr>db_vlobs := vlobs\<rparr>, if rows_affected \<noteq> 0 then Stored else AlreadyPresent))"

definition vlob_merge :: "vlob_row \<Rightarrow> vlob_row \<Rightarrow> vlob_row" where
  "vlob_merge new old =
     old\<lparr>vr_need_sync := vr_need_sync new, vr_blob := vr_blob new,
         vr_base_version := vr_base_version new,
         vr_remote_version := max (vr_remote_version new) (vr_remote_version old)\<rparr>"

definition db_update_manifest :: "update_manifest_data \<Rightarrow> workspace_db \<Rightarrow> workspace_db" where
  "db_update_manifest m db =
     db\<lparr>db_vlobs := sql_upsert vr_id vlob_merge (vlob_row_of m) (db_vlobs db)\<rparr>"

definition chunk_merge :: "chunk_row \<Rightarrow> chunk_row \<Rightarrow> chunk_row" where
  "chunk_merge new old =
     old\<lparr>kr_size := kr_size new, kr_offline := kr_offline new, kr_data := kr_data new\<rparr>"

definition db_insert_chunk :: "chunk_id \<Rightarrow> byte list \<Rightarrow> workspace_db \<Rightarrow> workspace_db" where
  "db_insert_chunk i encrypted db =
     db\<lparr>db_chunks := sql_upsert kr_id chunk_merge
          \<lparr>kr_id = i, kr_size = length encrypted, kr_offline = False, kr_accessed_on = None,
           kr_data = encrypted\<rparr> (db_chunks db)\<rparr>"

definition block_merge :: "chunk_row \<Rightarrow> chunk_row \<Rightarrow> chunk_row" where
  "block_merge new old =
     old\<lparr>kr_size := kr_size new, kr_offline := kr_offline new, kr_data := kr_data new,
         kr_accessed_on := kr_accessed_on new\<rparr>"

definition db_insert_block ::
  "block_id \<Rightarrow> byte list \<Rightarrow> date_time \<Rightarrow> workspace_db \<Rightarrow> workspace_db" where
  "db_insert_block i encrypted accessed_on db =
     db\<lparr>db_blocks := sql_upsert kr_id block_merge
          \<lparr>kr_id = i, kr_size = length encrypted, kr_offline = False,
           kr_accessed_on = Some accessed_on, kr_data = encrypted\<rparr> (db_blocks db)\<rparr>"

definition db_remove_chunk :: "chunk_id \<Rightarrow> workspace_db \<Rightarrow> workspace_db" where
  "db_remove_chunk i db = db\<lparr>db_chunks := sql_delete (\<lambda>r. kr_id r \<in> {i}) (db_chunks db)\<rparr>"

text \<open>\<^verbatim>\<open>ORDER BY accessed_on ASC\<close>: SQLite sorts \<^verbatim>\<open>NULL\<close> first.\<close>

definition accessed_le :: "chunk_row \<Rightarrow> chunk_row \<Rightarrow> bool" where
  "accessed_le a b =
     (case (kr_accessed_on a, kr_accessed_on b) of
        (None, _) \<Rightarrow> True
      | (Some _, None) \<Rightarrow> False
      | (Some x, Some y) \<Rightarrow> x \<le> y)"

fun insert_by_access :: "chunk_row \<Rightarrow> chunk_row list \<Rightarrow> chunk_row list" where
  "insert_by_access r [] = [r]"
| "insert_by_access r (s # rows) =
     (if accessed_le r s then r # s # rows else s # insert_by_access r rows)"

definition order_by_access :: "chunk_row list \<Rightarrow> chunk_row list" where
  "order_by_access rows = foldr insert_by_access rows []"

definition db_cleanup_blocks :: "u64 \<Rightarrow> workspace_db \<Rightarrow> workspace_db" where
  "db_cleanup_blocks to_remove db =
     (let ids = set (map kr_id (take to_remove (order_by_access (db_blocks db))))
      in db\<lparr>db_blocks := sql_delete (\<lambda>r. kr_id r \<in> ids) (db_blocks db)\<rparr>)"

definition db_get_blocks_count :: "workspace_db \<Rightarrow> u64" where
  "db_get_blocks_count db = length (db_blocks db)"

definition may_cleanup_blocks :: "u64 \<Rightarrow> workspace_db \<Rightarrow> workspace_db" where
  "may_cleanup_blocks max_blocks db =
     (let nb_blocks = db_get_blocks_count db;
          extra_blocks = nb_blocks - max_blocks
      in if extra_blocks > 0
         then db_cleanup_blocks (u64_add extra_blocks (max_blocks div 10)) db
         else db)"

definition db_get_outbound_need_sync :: "workspace_db \<Rightarrow> nat \<Rightarrow> vlob_id list" where
  "db_get_outbound_need_sync db limit = take limit (map vr_id (filter vr_need_sync (db_vlobs db)))"

definition db_get_inbound_need_sync :: "workspace_db \<Rightarrow> nat \<Rightarrow> vlob_id list" where
  "db_get_inbound_need_sync db limit =
     take limit (map vr_id (filter (\<lambda>r. vr_base_version r \<noteq> vr_remote_version r) (db_vlobs db)))"

definition db_get_fully_applied :: "workspace_db \<Rightarrow> bool" where
  "db_get_fully_applied db = snd (db_pattern db)"

definition db_update_prevent_sync_pattern :: "string \<Rightarrow> workspace_db \<Rightarrow> workspace_db \<times> bool" where
  "db_update_prevent_sync_pattern pattern db =
     (if fst (db_pattern db) \<noteq> pattern then (db\<lparr>db_pattern := (pattern, False)\<rparr>, False)
      else (db, db_get_fully_applied db))"

definition db_set_prevent_sync_pattern_as_fully_applied ::
  "string \<Rightarrow> workspace_db \<Rightarrow> mark_prevent_sync_pattern_error + workspace_db" where
  "db_set_prevent_sync_pattern_as_fully_applied pattern db =
     (if fst (db_pattern db) = pattern then Inr (db\<lparr>db_pattern := (pattern, True)\<rparr>)
      else Inl PatternMismatch)"

subsection \<open>Transactions\<close>

definition update_realm_checkpoint ::
  "nat \<Rightarrow> (vlob_id \<times> nat) list \<Rightarrow> workspace_db \<Rightarrow> workspace_db" where
  "update_realm_checkpoint new_checkpoint changed_vlobs db =
     fold (\<lambda>(vlob_id, remote_version). db_update_manifest_remote_version vlob_id remote_version)
       changed_vlobs (db_update_realm_checkpoint new_checkpoint db)"

definition update_manifests :: "update_manifest_data list \<Rightarrow> workspace_db \<Rightarrow> workspace_db" where
  "update_manifests manifests db = fold db_update_manifest manifests db"

definition update_manifest_and_chunks ::
  "update_manifest_data \<Rightarrow> (chunk_id \<times> byte list) list \<Rightarrow> chunk_id list \<Rightarrow>
   workspace_db \<Rightarrow> workspace_db" where
  "update_manifest_and_chunks manifest new_chunks removed_chunks db =
     fold db_remove_chunk removed_chunks
       (fold (\<lambda>(i, data). db_insert_chunk i data) new_chunks (db_update_manifest manifest db))"

definition set_block :: "block_id \<Rightarrow> byte list \<Rightarrow> date_time \<Rightarrow> workspace_db \<Rightarrow> workspace_db" where
  "set_block i encrypted now db =
     may_cleanup_blocks (db_cache_max_blocks db) (db_insert_block i encrypted now db)"

datatype commit_failure = NoFailure | CacheCommitFails | DataCommitFails

definition promote_chunk_to_block ::
  "commit_failure \<Rightarrow> chunk_id \<Rightarrow> date_time \<Rightarrow> workspace_db \<Rightarrow> workspace_db" where
  "promote_chunk_to_block failure i now db =
     (case db_get_chunk db i of
        None \<Rightarrow> db
      | Some encrypted \<Rightarrow>
          let cache = may_cleanup_blocks (db_cache_max_blocks db) (db_insert_block i encrypted now db)
          in (case failure of
                CacheCommitFails \<Rightarrow> db
              | DataCommitFails \<Rightarrow> cache
              | NoFailure \<Rightarrow> db_remove_chunk i cache))"

subsection \<open>Tables\<close>

interpretation vlobs: keyed_table vr_id vlob_merge
  by unfold_locales (simp add: vlob_merge_def)

interpretation chunks: keyed_table kr_id chunk_merge
  by unfold_locales (simp add: chunk_merge_def)

interpretation blocks: keyed_table kr_id block_merge
  by unfold_locales (simp add: block_merge_def)

definition workspace_db_wf :: "workspace_db \<Rightarrow> bool" where
  "workspace_db_wf db \<longleftrightarrow> sql_keys_unique vr_id (db_vlobs db) \<and>
     sql_keys_unique kr_id (db_chunks db) \<and> sql_keys_unique kr_id (db_blocks db)"

definition db_get_block :: "workspace_db \<Rightarrow> block_id \<Rightarrow> byte list option" where
  "db_get_block db i = map_option kr_data (sql_find kr_id i (db_blocks db))"

lemma get_chunk_insert [simp]:
  "db_get_chunk (db_insert_chunk i data db) j = (if j = i then Some data else db_get_chunk db j)"
  by (auto simp: db_get_chunk_def db_insert_chunk_def chunks.find_upsert chunk_merge_def
      split: option.split)

lemma get_chunk_remove [simp]:
  "db_get_chunk (db_remove_chunk i db) j = (if j = i then None else db_get_chunk db j)"
  by (simp add: db_get_chunk_def db_remove_chunk_def sql_find_delete [of kr_id j "{i}", simplified])

lemma get_block_insert:
  "db_get_block (db_insert_block i data now db) j = (if j = i then Some data else db_get_block db j)"
  by (auto simp: db_get_block_def db_insert_block_def blocks.find_upsert block_merge_def
      split: option.split)

lemma get_chunk_other [simp]:
  "db_get_chunk (db_insert_block i data now db) j = db_get_chunk db j"
  "db_get_chunk (may_cleanup_blocks n db) j = db_get_chunk db j"
  "db_get_chunk (db_update_manifest m db) j = db_get_chunk db j"
  by (simp_all add: db_get_chunk_def db_insert_block_def may_cleanup_blocks_def db_cleanup_blocks_def
      db_update_manifest_def Let_def)

lemma get_block_other [simp]:
  "db_get_block (db_insert_chunk i data db) j = db_get_block db j"
  "db_get_block (db_remove_chunk i db) j = db_get_block db j"
  "db_get_block (db_update_manifest m db) j = db_get_block db j"
  by (simp_all add: db_get_block_def db_insert_chunk_def db_remove_chunk_def db_update_manifest_def)

lemma fold_insert_chunks:
  "distinct (map fst new) \<Longrightarrow>
   db_get_chunk (fold (\<lambda>(i, data). db_insert_chunk i data) new db) j =
     (case map_of new j of Some d \<Rightarrow> Some d | None \<Rightarrow> db_get_chunk db j)"
proof (induction new arbitrary: db)
  case (Cons x new)
  then have "map_of new (fst x) = None" by (simp add: map_of_eq_None_iff)
  with Cons show ?case by (auto simp: split_beta split: option.split)
qed simp

lemma fold_remove_chunks:
  "db_get_chunk (fold db_remove_chunk removed db) j = (if j \<in> set removed then None else db_get_chunk db j)"
  by (induction removed arbitrary: db) auto

lemma fold_insert_blocks_same:
  "db_get_block (fold (\<lambda>(i, data). db_insert_chunk i data) new db) j = db_get_block db j"
  by (induction new arbitrary: db) (auto simp: split_beta)

lemma fold_remove_blocks_same:
  "db_get_block (fold db_remove_chunk removed db) j = db_get_block db j"
  by (induction removed arbitrary: db) auto

lemma update_manifest_and_chunks_get:
  assumes "distinct (map fst new)"
  shows "db_get_chunk (update_manifest_and_chunks m new removed db) j =
      (if j \<in> set removed then None
       else case map_of new j of Some d \<Rightarrow> Some d | None \<Rightarrow> db_get_chunk db j)"
    and "db_get_block (update_manifest_and_chunks m new removed db) j = db_get_block db j"
  using fold_insert_chunks [OF assms]
  by (simp_all add: update_manifest_and_chunks_def fold_remove_chunks fold_insert_blocks_same
      fold_remove_blocks_same split: option.split)

lemma update_manifest_and_chunks_rows [simp]:
  "db_vlobs (update_manifest_and_chunks m new removed db) = db_vlobs (db_update_manifest m db)"
proof -
  have "db_vlobs (fold (\<lambda>(i, data). db_insert_chunk i data) new db) = db_vlobs db" for db
    by (induction new arbitrary: db) (auto simp: db_insert_chunk_def)
  moreover have "db_vlobs (fold db_remove_chunk removed db) = db_vlobs db" for db
    by (induction removed arbitrary: db) (simp_all add: db_remove_chunk_def)
  ultimately show ?thesis by (simp add: update_manifest_and_chunks_def)
qed

subsection \<open>Eviction\<close>

lemma mset_insert_by_access: "set (insert_by_access r rows) = insert r (set rows)"
  "length (insert_by_access r rows) = Suc (length rows)"
  "distinct (map kr_id (insert_by_access r rows)) = distinct (map kr_id (r # rows))"
  by (induction rows) (auto simp: image_iff)

lemma order_by_access_facts:
  "set (order_by_access rows) = set rows" "length (order_by_access rows) = length rows"
  "distinct (map kr_id (order_by_access rows)) = distinct (map kr_id rows)"
proof (induction rows)
  case (Cons r rows)
  then show "set (order_by_access (r # rows)) = set (r # rows)"
    "length (order_by_access (r # rows)) = length (r # rows)"
    "distinct (map kr_id (order_by_access (r # rows))) = distinct (map kr_id (r # rows))"
    by (simp_all add: order_by_access_def mset_insert_by_access)
qed (simp_all add: order_by_access_def)

lemma accessed_le_total: "accessed_le a b \<or> accessed_le b a"
  by (auto simp: accessed_le_def split: option.splits)

lemma accessed_le_trans: "accessed_le a b \<Longrightarrow> accessed_le b c \<Longrightarrow> accessed_le a c"
  by (auto simp: accessed_le_def split: option.splits)

lemma sorted_insert_by_access:
  "sorted_wrt accessed_le rows \<Longrightarrow> sorted_wrt accessed_le (insert_by_access r rows)"
proof (induction rows)
  case (Cons s rows)
  show ?case
  proof (cases "accessed_le r s")
    case True
    with Cons.prems show ?thesis using accessed_le_trans by auto
  next
    case False
    with Cons show ?thesis using accessed_le_total by (auto simp: mset_insert_by_access)
  qed
qed simp

lemma sorted_order_by_access: "sorted_wrt accessed_le (order_by_access rows)"
  by (induction rows) (simp_all add: order_by_access_def sorted_insert_by_access)

lemma cleanup_blocks_kept:
  assumes "sql_keys_unique kr_id (db_blocks db)"
  shows "set (db_blocks (db_cleanup_blocks n db)) = set (drop n (order_by_access (db_blocks db)))"
    and "length (db_blocks (db_cleanup_blocks n db)) = length (db_blocks db) - n"
proof -
  let ?o = "order_by_access (db_blocks db)"
  let ?kept = "filter (\<lambda>r. kr_id r \<notin> set (map kr_id (take n ?o))) (db_blocks db)"
  have d: "distinct (map kr_id ?o)" using assms by (simp add: order_by_access_facts sql_keys_unique_def)
  have "distinct (map kr_id (take n ?o @ drop n ?o))" using d by simp
  then have disj: "set (map kr_id (take n ?o)) \<inter> set (map kr_id (drop n ?o)) = {}"
    unfolding map_append distinct_append by blast
  have "set (take n ?o) \<union> set (drop n ?o) = set (db_blocks db)"
    by (metis append_take_drop_id order_by_access_facts(1) set_append)
  then have s: "set ?kept = set (drop n ?o)" using disj by fastforce
  have "distinct (db_blocks db)" using assms by (simp add: sql_keys_unique_def distinct_map)
  then have "length ?kept = card (set ?kept)" by (intro distinct_card [symmetric]) simp
  also have "\<dots> = card (set (drop n ?o))" by (simp only: s)
  also have "\<dots> = length (db_blocks db) - n"
    using d by (simp add: distinct_card distinct_map order_by_access_facts)
  finally have l: "length ?kept = length (db_blocks db) - n" .
  show "set (db_blocks (db_cleanup_blocks n db)) = set (drop n ?o)"
    using s by (simp add: db_cleanup_blocks_def sql_delete_def)
  show "length (db_blocks (db_cleanup_blocks n db)) = length (db_blocks db) - n"
    using l by (simp add: db_cleanup_blocks_def sql_delete_def)
qed

lemma cleanup_oldest_first:
  assumes "sql_keys_unique kr_id (db_blocks db)" "r \<in> set (db_blocks db)"
    "r \<notin> set (db_blocks (db_cleanup_blocks n db))" "s \<in> set (db_blocks (db_cleanup_blocks n db))"
  shows "accessed_le r s"
proof -
  let ?o = "order_by_access (db_blocks db)"
  have "r \<in> set (take n ?o)"
    using assms(2,3) cleanup_blocks_kept(1) [OF assms(1)] order_by_access_facts(1) [of "db_blocks db"]
    by (metis UnE append_take_drop_id set_append)
  moreover have "s \<in> set (drop n ?o)" using assms(4) cleanup_blocks_kept(1) [OF assms(1)] by simp
  moreover have "sorted_wrt accessed_le (take n ?o @ drop n ?o)" by (simp add: sorted_order_by_access)
  ultimately show ?thesis by (meson sorted_wrt_append)
qed

lemma may_cleanup_bounded:
  assumes "sql_keys_unique kr_id (db_blocks db)" "length (db_blocks db) + max_blocks div 10 < u64_bound"
  shows "length (db_blocks (may_cleanup_blocks max_blocks db)) \<le> max_blocks"
    and "1 \<le> max_blocks \<Longrightarrow> db_blocks db \<noteq> [] \<Longrightarrow> db_blocks (may_cleanup_blocks max_blocks db) \<noteq> []"
proof -
  let ?n = "length (db_blocks db) - max_blocks + max_blocks div 10"
  have u: "u64_add (length (db_blocks db) - max_blocks) (max_blocks div 10) = ?n"
    using assms(2) by (intro u64_add_in_range) linarith
  have len: "length (db_blocks (may_cleanup_blocks max_blocks db)) =
      (if length (db_blocks db) > max_blocks then length (db_blocks db) - ?n else length (db_blocks db))"
    using cleanup_blocks_kept(2) [OF assms(1)]
    by (simp add: may_cleanup_blocks_def db_get_blocks_count_def u Let_def)
  then show "length (db_blocks (may_cleanup_blocks max_blocks db)) \<le> max_blocks" by simp
  assume "1 \<le> max_blocks" "db_blocks db \<noteq> []"
  then have "length (db_blocks (may_cleanup_blocks max_blocks db)) \<noteq> 0"
    using len by (simp split: if_splits)
  then show "db_blocks (may_cleanup_blocks max_blocks db) \<noteq> []" by simp
qed

lemma may_cleanup_subset:
  "set (db_blocks (may_cleanup_blocks n db)) \<subseteq> set (db_blocks db)"
  by (auto simp: may_cleanup_blocks_def db_cleanup_blocks_def sql_delete_def Let_def)

lemma may_cleanup_oldest_first:
  assumes "sql_keys_unique kr_id (db_blocks db)" "r \<in> set (db_blocks db)"
    "r \<notin> set (db_blocks (may_cleanup_blocks n db))" "s \<in> set (db_blocks (may_cleanup_blocks n db))"
  shows "accessed_le r s"
proof (cases "length (db_blocks db) - n > 0")
  case True
  with assms show ?thesis
    by (intro cleanup_oldest_first [of db _ "u64_add (length (db_blocks db) - n) (n div 10)"])
      (simp_all add: may_cleanup_blocks_def db_get_blocks_count_def)
next
  case False
  with assms(2,3) show ?thesis by (simp add: may_cleanup_blocks_def db_get_blocks_count_def)
qed

lemma may_cleanup_unique:
  "sql_keys_unique kr_id (db_blocks db) \<Longrightarrow> sql_keys_unique kr_id (db_blocks (may_cleanup_blocks n db))"
  by (simp add: may_cleanup_blocks_def db_cleanup_blocks_def sql_keys_delete Let_def)

definition older_than :: "date_time \<Rightarrow> workspace_db \<Rightarrow> bool" where
  "older_than now db \<longleftrightarrow> (\<forall>r \<in> set (db_blocks db). \<forall>t. kr_accessed_on r = Some t \<longrightarrow> t < now)"

lemma insert_block_rows:
  assumes "r \<in> set (db_blocks (db_insert_block i d now db))"
  shows "(kr_id r = i \<and> kr_accessed_on r = Some now) \<or> (kr_id r \<noteq> i \<and> r \<in> set (db_blocks db))"
  using assms
  by (auto simp: db_insert_block_def sql_upsert_def sql_find_None block_merge_def split: if_splits)

text \<open>
  The block just stored is read back, unless every block that is kept carries a stamp that is not older. That does not
  happen with room for one block and a clock that is later than the stamps; it always does without room.
\<close>

lemma set_block_get:
  assumes wf: "workspace_db_wf db"
    and lim: "Suc (length (db_blocks db)) + db_cache_max_blocks db div 10 < u64_bound"
  shows "length (db_blocks (set_block i d now db)) \<le> db_cache_max_blocks db"
    and "db_get_block (set_block i d now db) i = Some d \<or> db_get_block (set_block i d now db) i = None \<and>
      (\<forall>s \<in> set (db_blocks (set_block i d now db)). \<exists>t. kr_accessed_on s = Some t \<and> now \<le> t)"
    and "1 \<le> db_cache_max_blocks db \<Longrightarrow> older_than now db \<Longrightarrow> db_get_block (set_block i d now db) i = Some d"
    and "db_cache_max_blocks db = 0 \<Longrightarrow> db_get_block (set_block i d now db) i = None"
proof -
  let ?db = "db_insert_block i d now db" and ?n = "db_cache_max_blocks db" and ?kept = "set (db_blocks (set_block i d now db))"
  have u: "sql_keys_unique kr_id (db_blocks ?db)"
    using wf by (simp add: workspace_db_wf_def db_insert_block_def blocks.unique_upsert)
  have "length (db_blocks ?db) \<le> Suc (length (db_blocks db))"
    by (simp add: db_insert_block_def blocks.length_upsert)
  then have lim': "length (db_blocks ?db) + ?n div 10 < u64_bound" using lim by simp
  show len: "length (db_blocks (set_block i d now db)) \<le> ?n"
    using may_cleanup_bounded(1) [OF u lim'] by (simp add: set_block_def)
  obtain r where r: "sql_find kr_id i (db_blocks ?db) = Some r" "kr_data r = d"
    using get_block_insert [of i d now db i] by (auto simp: db_get_block_def)
  then have rin: "r \<in> set (db_blocks ?db)" "kr_id r = i" using sql_find_Some by fastforce+
  have stamp: "kr_accessed_on r = Some now" using insert_block_rows [OF rin(1)] rin(2) by blast
  have uk: "sql_keys_unique kr_id (db_blocks (set_block i d now db))" using may_cleanup_unique [OF u] by (simp add: set_block_def)
  have sub: "?kept \<subseteq> set (db_blocks ?db)" using may_cleanup_subset by (auto simp: set_block_def)
  have kept: "db_get_block (set_block i d now db) i = (if r \<in> ?kept then Some d else None)"
  proof (cases "r \<in> ?kept")
    case True
    then show ?thesis using sql_find_unique [OF uk True] rin(2) r(2) by (simp add: db_get_block_def)
  next
    case False
    have "s = r" if "s \<in> ?kept" "kr_id s = i" for s
      using sql_find_unique [OF u, of s] sub that r(1) by auto
    then have "sql_find kr_id i (db_blocks (set_block i d now db)) = None"
      using False by (auto simp: sql_find_None)
    with False show ?thesis by (simp add: db_get_block_def)
  qed
  have later: "\<exists>t. kr_accessed_on s = Some t \<and> now \<le> t" if "r \<notin> ?kept" "s \<in> ?kept" for s
    using may_cleanup_oldest_first [OF u rin(1), of ?n s] that stamp
    by (auto simp: set_block_def accessed_le_def split: option.split_asm)
  show "db_get_block (set_block i d now db) i = Some d \<or> db_get_block (set_block i d now db) i = None \<and>
      (\<forall>s \<in> ?kept. \<exists>t. kr_accessed_on s = Some t \<and> now \<le> t)"
    using kept later by auto
  show "db_get_block (set_block i d now db) i = None" if "db_cache_max_blocks db = 0"
    using kept len that by auto
  show "db_get_block (set_block i d now db) i = Some d" if max: "1 \<le> db_cache_max_blocks db" and old: "older_than now db"
  proof (rule ccontr)
    assume "db_get_block (set_block i d now db) i \<noteq> Some d"
    then have no: "r \<notin> ?kept" using kept by auto
    have "db_blocks ?db \<noteq> []" using rin by auto
    then obtain s where s: "s \<in> ?kept"
      using may_cleanup_bounded(2) [OF u lim' max] by (auto simp: set_block_def dest: hd_in_set)
    then have "kr_id s \<noteq> i" using sql_find_unique [OF u, of s] sub r(1) no by auto
    then have "s \<in> set (db_blocks db)" using insert_block_rows [of s i d now db] sub s by blast
    then show False using later [OF no s] old by (fastforce simp: older_than_def)
  qed
qed

lemma update_manifest_row:
  "sql_find vr_id k (db_vlobs (db_update_manifest m db)) =
     (if k = ud_entry_id m
      then Some (case sql_find vr_id k (db_vlobs db) of None \<Rightarrow> vlob_row_of m
                 | Some old \<Rightarrow> vlob_merge (vlob_row_of m) old)
      else sql_find vr_id k (db_vlobs db))"
  by (simp add: db_update_manifest_def vlobs.find_upsert vlob_row_of_def split: option.split)

lemma get_block_may_cleanup:
  assumes "db_get_block (may_cleanup_blocks n db) j = Some e" shows "db_get_block db j = Some e"
proof -
  have "db_get_block (db_cleanup_blocks k db) j = Some e \<Longrightarrow> db_get_block db j = Some e" for k
    using sql_find_delete [of kr_id j "kr_id ` set (take k (order_by_access (db_blocks db)))" "db_blocks db"]
    by (simp add: db_cleanup_blocks_def Let_def db_get_block_def split: if_splits)
  with assms show ?thesis by (simp add: may_cleanup_blocks_def Let_def split: if_splits)
qed

subsection \<open>What the storage promises\<close>

text \<open>
  C13. Storing a block in the cache database, in a database with unique keys and with numbers below the 64-bit bound: the
  number of cached blocks stays at or below the configured maximum, and only blocks accessed no later than those kept are
  evicted. The block just stored is read back as it was written, unless every block that is kept is stamped at or after
  the time of the store. So it is read back when the maximum is at least one and the clock is later than every stamp of
  the table; with a maximum of zero, which a small cache size gives, it is evicted at once.
\<close>

theorem set_block_bounded_and_read_back:
  assumes "workspace_db_wf db" "Suc (length (db_blocks db)) + db_cache_max_blocks db div 10 < u64_bound"
  shows "length (db_blocks (set_block i d now db)) \<le> db_cache_max_blocks db \<and>
    (\<forall>r \<in> set (db_blocks (db_insert_block i d now db)). \<forall>s \<in> set (db_blocks (set_block i d now db)).
       r \<notin> set (db_blocks (set_block i d now db)) \<longrightarrow> accessed_le r s) \<and>
    (db_get_block (set_block i d now db) i = Some d \<or> db_get_block (set_block i d now db) i = None \<and>
       (\<forall>s \<in> set (db_blocks (set_block i d now db)). \<exists>t. kr_accessed_on s = Some t \<and> now \<le> t)) \<and>
    (1 \<le> db_cache_max_blocks db \<and> older_than now db \<longrightarrow> db_get_block (set_block i d now db) i = Some d) \<and>
    (db_cache_max_blocks db = 0 \<longrightarrow> db_get_block (set_block i d now db) i = None)"
proof -
  have u: "sql_keys_unique kr_id (db_blocks (db_insert_block i d now db))"
    using assms(1) by (simp add: workspace_db_wf_def db_insert_block_def blocks.unique_upsert)
  have "\<forall>r \<in> set (db_blocks (db_insert_block i d now db)). \<forall>s \<in> set (db_blocks (set_block i d now db)).
       r \<notin> set (db_blocks (set_block i d now db)) \<longrightarrow> accessed_le r s"
    using may_cleanup_oldest_first [OF u] by (auto simp: set_block_def)
  then show ?thesis using set_block_get [OF assms] by blast
qed

definition sample_db :: workspace_db where
  "sample_db =
     \<lparr>db_checkpoint = None, db_vlobs = [],
      db_chunks = [\<lparr>kr_id = 7, kr_size = 2, kr_offline = False, kr_accessed_on = None, kr_data = [5, 6]\<rparr>],
      db_pattern = ('''', False),
      db_blocks = [\<lparr>kr_id = 1, kr_size = 1, kr_offline = False, kr_accessed_on = Some 30, kr_data = [1]\<rparr>,
                   \<lparr>kr_id = 2, kr_size = 1, kr_offline = False, kr_accessed_on = Some 20, kr_data = [2]\<rparr>],
      db_cache_max_blocks = 2\<rparr>"

lemma sample_db_ok:
  "workspace_db_wf sample_db" "1 \<le> db_cache_max_blocks sample_db" "older_than 40 sample_db"
  "Suc (length (db_blocks sample_db)) + db_cache_max_blocks sample_db div 10 < u64_bound"
  by (simp_all add: workspace_db_wf_def sql_keys_unique_def sample_db_def older_than_def u64_bound_def)

theorem set_block_bounded_and_read_back_witness:
  "length (db_blocks (set_block 3 [9] 40 sample_db)) \<le> 2 \<and>
   db_get_block (set_block 3 [9] 40 sample_db) 3 = Some [9]"
  using set_block_bounded_and_read_back [OF sample_db_ok(1,4), of 3 "[9]" 40] sample_db_ok
  by (simp add: sample_db_def)

text \<open>
  C14. Promoting a local chunk to an uploaded block. When one of the two commits fails the chunk is still there. When
  neither fails the chunk is gone and its data is read from the blocks, unless every block that is kept is stamped at or
  after the time of the promotion: with a maximum of at least one block and a clock later than every stamp the data is
  never lost, whichever commit fails, while with a maximum of zero blocks the device keeps no copy.
\<close>

theorem promote_chunk_keeps_data:
  assumes "workspace_db_wf db" "Suc (length (db_blocks db)) + db_cache_max_blocks db div 10 < u64_bound"
    and "db_get_chunk db i = Some d"
  shows "(failure \<noteq> NoFailure \<longrightarrow> db_get_chunk (promote_chunk_to_block failure i now db) i = Some d) \<and>
    (failure = NoFailure \<longrightarrow> db_get_chunk (promote_chunk_to_block failure i now db) i = None \<and>
      (db_get_block (promote_chunk_to_block failure i now db) i = Some d \<or>
       db_get_block (promote_chunk_to_block failure i now db) i = None \<and>
         (\<forall>s \<in> set (db_blocks (promote_chunk_to_block failure i now db)). \<exists>t. kr_accessed_on s = Some t \<and> now \<le> t)) \<and>
      (1 \<le> db_cache_max_blocks db \<and> older_than now db \<longrightarrow> db_get_block (promote_chunk_to_block failure i now db) i = Some d) \<and>
      (db_cache_max_blocks db = 0 \<longrightarrow> db_get_block (promote_chunk_to_block failure i now db) i = None))"
proof (cases failure)
  case NoFailure
  have blocks: "db_blocks (db_remove_chunk i x) = db_blocks x" for x by (simp add: db_remove_chunk_def)
  have run: "promote_chunk_to_block NoFailure i now db = db_remove_chunk i (set_block i d now db)"
    using assms(3) by (simp add: promote_chunk_to_block_def set_block_def Let_def)
  show ?thesis unfolding NoFailure run blocks get_block_other get_chunk_remove
    using set_block_get(2-4) [OF assms(1,2), where i = i and d = d and now = now] by auto
qed (use assms(3) in \<open>simp_all add: promote_chunk_to_block_def Let_def\<close>)

theorem promote_chunk_keeps_data_witness:
  "db_get_chunk sample_db 7 = Some [5, 6] \<and>
   db_get_block (promote_chunk_to_block NoFailure 7 40 sample_db) 7 = Some [5, 6]"
proof -
  have "db_get_chunk sample_db 7 = Some [5, 6]"
    by (simp add: sample_db_def db_get_chunk_def sql_find_def)
  with promote_chunk_keeps_data [OF sample_db_ok(1,4), of 7 "[5, 6]" NoFailure 40] sample_db_ok(2,3)
  show ?thesis by simp
qed

text \<open>
  Storing a manifest makes it the one that is read back, leaves the other entries alone, and
  never forgets a newer version announced by the server: the entry still needs an inbound sync
  exactly when the highest version known so far is above the version it is now based on.
\<close>

lemma update_manifest_read_back:
  "db_get_manifest (db_update_manifest m db) k =
     (if k = ud_entry_id m then Some (ud_encrypted m) else db_get_manifest db k) \<and>
   (\<exists>r. sql_find vr_id (ud_entry_id m) (db_vlobs (db_update_manifest m db)) = Some r \<and>
      vr_base_version r = ud_base_version m \<and> vr_need_sync r = ud_need_sync m \<and>
      (vr_base_version r \<noteq> vr_remote_version r \<longleftrightarrow>
         (\<exists>old. sql_find vr_id (ud_entry_id m) (db_vlobs db) = Some old \<and>
            ud_base_version m < vr_remote_version old)))"
  by (cases "sql_find vr_id (ud_entry_id m) (db_vlobs db)")
    (auto simp: db_get_manifest_def update_manifest_row vlob_row_of_def vlob_merge_def)

end
