(* ===== verification/Chunk_Store.thy ===== *)
theory Chunk_Store
  imports Local_File_Manifest Round_Robin_Cache Workspace_Storage
begin

text \<open>
  The part of \<^verbatim>\<open>libparsec/crates/client/src/workspace/store/mod.rs\<close> and
  \<^verbatim>\<open>store/file_updater.rs\<close> that the opened files use: reading the data of a chunk view through the
  in-memory cache, the local storage and the server, and committing a file manifest with its new
  and removed chunks.

  A store call threads a \<open>chunk_store\<close>. \<open>ck_faults\<close> lists the outcome of the coming storage calls
  (\<^const>\<open>True\<close>: the database reports an error), so a statement about every \<open>ck_faults\<close> is a statement
  about every pattern of database failures. Encryption with the device key and the fetch of a
  block from the server are arguments.

  \<open>chunk_store_ok\<close> says that the cache and both tables agree with one assignment \<open>D\<close> of data to
  chunk ids; every operation keeps it, and a read returns \<open>D\<close> of the id it was asked for.
\<close>

record chunk_store =
  ck_storage :: "workspace_db option"
  ck_faults :: "bool list"
  ck_chunks :: "(chunk_id, byte list) rr_cache"
  ck_file_manifests :: "vlob_id \<rightharpoonup> local_file_manifest"
  ck_root_manifest_id :: vlob_id

datatype store_error = StoreStopped | StoreInternal

datatype read_chunk_local_error = LocalChunkNotFound | LocalStopped | LocalInternal

datatype server_fetch_block_error =
    FetchStopped | FetchOffline | FetchServerBlockstoreUnavailable | FetchBlockNotFound
  | FetchRealmNotFound | FetchNoRealmAccess | FetchInvalidBlockAccess | FetchInvalidKeysBundle
  | FetchInvalidCertificate | FetchInternal

datatype read_chunk_error =
    ReadStopped | ReadOffline | ReadServerBlockstoreUnavailable | ReadChunkNotFound
  | ReadNoRealmAccess | ReadInvalidBlockAccess | ReadInvalidKeysBundle | ReadInvalidCertificate
  | ReadInternal

type_synonym block_fetch = "file_manifest \<Rightarrow> block_access \<Rightarrow> server_fetch_block_error + byte list"

subsection \<open>Operations\<close>

definition storage_fault :: "chunk_store \<Rightarrow> bool \<times> chunk_store" where
  "storage_fault s =
     (case ck_faults s of [] \<Rightarrow> (False, s) | b # rest \<Rightarrow> (b, s\<lparr>ck_faults := rest\<rparr>))"

definition cache_push :: "chunk_id \<Rightarrow> byte list \<Rightarrow> chunk_store \<Rightarrow> chunk_store option" where
  "cache_push i data s = map_option (\<lambda>c. s\<lparr>ck_chunks := c\<rparr>) (rr_push i data (ck_chunks s))"

text \<open>\<^verbatim>\<open>get_chunk\<close>, then \<^verbatim>\<open>get_block\<close> when there is no such chunk\<close>

definition read_encrypted ::
  "date_time \<Rightarrow> chunk_id \<Rightarrow> chunk_store \<Rightarrow> chunk_store \<times> (read_chunk_local_error + byte list option)" where
  "read_encrypted now i s =
     (case ck_storage s of
        None \<Rightarrow> (s, Inl LocalStopped)
      | Some db \<Rightarrow>
          let (failed, s) = storage_fault s in
          if failed then (s, Inl LocalInternal)
          else (case db_get_chunk db i of
                  Some encrypted \<Rightarrow> (s, Inr (Some encrypted))
                | None \<Rightarrow>
                    let (failed, s) = storage_fault s in
                    if failed then (s, Inl LocalInternal)
                    else let (db', found) = db_get_block_and_update_accessed_on db i now
                         in (s\<lparr>ck_storage := Some db'\<rparr>, Inr found)))"

definition get_chunk_or_block_local_only ::
  "device_key \<Rightarrow> date_time \<Rightarrow> chunk_view \<Rightarrow> chunk_store \<Rightarrow>
   (chunk_store \<times> (read_chunk_local_error + byte list)) option" where
  "get_chunk_or_block_local_only dk now c s =
     (case rr_get (ck_chunks s) (cv_id c) of
        Some data \<Rightarrow> Some (s, Inr data)
      | None \<Rightarrow>
          (case read_encrypted now (cv_id c) s of
             (s, Inl e) \<Rightarrow> Some (s, Inl e)
           | (s, Inr None) \<Rightarrow> Some (s, Inl LocalChunkNotFound)
           | (s, Inr (Some encrypted)) \<Rightarrow>
               (case dk_decrypt dk encrypted of
                  None \<Rightarrow> Some (s, Inl LocalInternal)
                | Some data \<Rightarrow> do { s \<leftarrow> cache_push (cv_id c) data s; Some (s, Inr data) })))"

fun fetch_error :: "server_fetch_block_error \<Rightarrow> read_chunk_error" where
  "fetch_error FetchStopped = ReadStopped"
| "fetch_error FetchOffline = ReadOffline"
| "fetch_error FetchServerBlockstoreUnavailable = ReadServerBlockstoreUnavailable"
| "fetch_error FetchBlockNotFound = ReadChunkNotFound"
| "fetch_error FetchRealmNotFound = ReadChunkNotFound"
| "fetch_error FetchNoRealmAccess = ReadNoRealmAccess"
| "fetch_error FetchInvalidBlockAccess = ReadInvalidBlockAccess"
| "fetch_error FetchInvalidKeysBundle = ReadInvalidKeysBundle"
| "fetch_error FetchInvalidCertificate = ReadInvalidCertificate"
| "fetch_error FetchInternal = ReadInternal"

definition store_fetched_block ::
  "device_key \<Rightarrow> date_time \<Rightarrow> chunk_view \<Rightarrow> block_access \<Rightarrow> byte list \<Rightarrow> chunk_store \<Rightarrow>
   (chunk_store \<times> (read_chunk_error + byte list)) option" where
  "store_fetched_block dk now c access data s =
     (case ck_storage s of
        None \<Rightarrow> Some (s, Inl ReadStopped)
      | Some db \<Rightarrow>
          let (failed, s) = storage_fault s in
          if failed then Some (s, Inl ReadInternal)
          else do {
            let s = s\<lparr>ck_storage := Some (set_block (ba_id access) (dk_encrypt dk data) now db)\<rparr>;
            s \<leftarrow> cache_push (cv_id c) data s;
            Some (s, Inr data)
          })"

definition get_chunk_or_block ::
  "device_key \<Rightarrow> block_fetch \<Rightarrow> date_time \<Rightarrow> chunk_view \<Rightarrow> file_manifest \<Rightarrow> chunk_store \<Rightarrow>
   (chunk_store \<times> (read_chunk_error + byte list)) option" where
  "get_chunk_or_block dk server_fetch_block now c remote_manifest s = do {
     (s, outcome) \<leftarrow> get_chunk_or_block_local_only dk now c s;
     (case outcome of
        Inr data \<Rightarrow> Some (s, Inr data)
      | Inl LocalStopped \<Rightarrow> Some (s, Inl ReadStopped)
      | Inl LocalInternal \<Rightarrow> Some (s, Inl ReadInternal)
      | Inl LocalChunkNotFound \<Rightarrow>
          (case cv_access c of
             None \<Rightarrow> Some (s, Inl ReadChunkNotFound)
           | Some access \<Rightarrow>
               (case server_fetch_block remote_manifest access of
                  Inl e \<Rightarrow> Some (s, Inl (fetch_error e))
                | Inr data \<Rightarrow> store_fetched_block dk now c access data s)))
   }"

text \<open>Not uploaded chunks are read from the storage, never from the cache.\<close>

definition get_not_uploaded_chunk ::
  "device_key \<Rightarrow> chunk_id \<Rightarrow> chunk_store \<Rightarrow> chunk_store \<times> (store_error + byte list option)" where
  "get_not_uploaded_chunk dk i s =
     (case ck_storage s of
        None \<Rightarrow> (s, Inl StoreStopped)
      | Some db \<Rightarrow>
          let (failed, s) = storage_fault s in
          if failed then (s, Inl StoreInternal)
          else (case db_get_chunk db i of
                  None \<Rightarrow> (s, Inr None)
                | Some encrypted \<Rightarrow>
                    (case dk_decrypt dk encrypted of
                       None \<Rightarrow> (s, Inl StoreInternal)
                     | Some cleartext \<Rightarrow> (s, Inr (Some cleartext)))))"

definition promote_local_only_chunk_to_uploaded_block ::
  "commit_failure \<Rightarrow> date_time \<Rightarrow> chunk_id \<Rightarrow> chunk_store \<Rightarrow> chunk_store \<times> (store_error + unit)" where
  "promote_local_only_chunk_to_uploaded_block failure now i s =
     (case ck_storage s of
        None \<Rightarrow> (s, Inl StoreStopped)
      | Some db \<Rightarrow>
          let (failed, s) = storage_fault s in
          if failed then (s, Inl StoreInternal)
          else (s\<lparr>ck_storage := Some (promote_chunk_to_block failure i now db)\<rparr>,
                if failure = NoFailure \<or> db_get_chunk db i = None then Inr () else Inl StoreInternal))"

text \<open>
  \<^verbatim>\<open>FileUpdater::update_file_manifest_and_continue\<close>; \<open>dump_and_encrypt\<close> serializes and encrypts the
  manifest. Inserting a file under the root's id in the manifest cache panics.
\<close>

definition update_file_manifest_and_continue ::
  "device_key \<Rightarrow> (local_file_manifest \<Rightarrow> byte list) \<Rightarrow> local_file_manifest \<Rightarrow>
   (chunk_id \<times> byte list) list \<Rightarrow> chunk_id list \<Rightarrow> chunk_store \<Rightarrow>
   (chunk_store \<times> (store_error + unit)) option" where
  "update_file_manifest_and_continue dk dump_and_encrypt manifest new_chunks removed_chunks s =
     (let update_data =
            \<lparr>ud_entry_id = fm_id (lf_base manifest), ud_encrypted = dump_and_encrypt manifest,
             ud_need_sync = lf_need_sync manifest, ud_base_version = fm_version (lf_base manifest)\<rparr>;
          new_chunks = map (\<lambda>(i, cleartext). (i, dk_encrypt dk cleartext)) new_chunks
      in case ck_storage s of
           None \<Rightarrow> Some (s, Inl StoreStopped)
         | Some db \<Rightarrow>
             let (failed, s) = storage_fault s in
             if failed then Some (s, Inl StoreInternal)
             else if fm_id (lf_base manifest) = ck_root_manifest_id s then None
             else Some (s\<lparr>ck_storage :=
                            Some (update_manifest_and_chunks update_data new_chunks removed_chunks db),
                          ck_file_manifests :=
                            (ck_file_manifests s)(fm_id (lf_base manifest) \<mapsto> manifest)\<rparr>, Inr ()))"

subsection \<open>Agreement of cache and storage\<close>

definition stores_data :: "device_key \<Rightarrow> (chunk_id \<Rightarrow> byte list) \<Rightarrow> workspace_db \<Rightarrow> bool" where
  "stores_data dk D db \<longleftrightarrow>
     (\<forall>i e. db_get_chunk db i = Some e \<longrightarrow> dk_decrypt dk e = Some (D i)) \<and>
     (\<forall>i e. db_get_block db i = Some e \<longrightarrow> dk_decrypt dk e = Some (D i))"

definition chunk_store_ok :: "device_key \<Rightarrow> (chunk_id \<Rightarrow> byte list) \<Rightarrow> chunk_store \<Rightarrow> bool" where
  "chunk_store_ok dk D s \<longleftrightarrow> rr_wf (ck_chunks s) \<and>
     (\<forall>i d. rr_get (ck_chunks s) i = Some d \<longrightarrow> d = D i) \<and>
     (\<forall>db. ck_storage s = Some db \<longrightarrow> stores_data dk D db)"

lemma storage_fault_fields [simp]:
  "ck_storage (snd (storage_fault s)) = ck_storage s" "ck_chunks (snd (storage_fault s)) = ck_chunks s"
  "ck_file_manifests (snd (storage_fault s)) = ck_file_manifests s"
  "ck_root_manifest_id (snd (storage_fault s)) = ck_root_manifest_id s"
  by (simp_all add: storage_fault_def split: list.split)

lemma chunk_store_ok_fault [simp]: "chunk_store_ok dk D (snd (storage_fault s)) = chunk_store_ok dk D s"
  by (simp add: chunk_store_ok_def)

lemma get_block_accessed:
  "db_get_block_and_update_accessed_on db i now = (db', r) \<Longrightarrow>
     r = db_get_block db i \<and> db_get_block db' j = db_get_block db j \<and> db_get_chunk db' j = db_get_chunk db j"
  by (auto simp: db_get_block_and_update_accessed_on_def db_get_block_def db_get_chunk_def Let_def
      sql_find_update option.map_comp o_def if_distrib [of kr_data] cong: if_cong)

lemma chunk_store_okD:
  assumes "chunk_store_ok dk D s"
  shows "rr_wf (ck_chunks s)" "rr_get (ck_chunks s) i = Some d \<Longrightarrow> d = D i"
    "ck_storage s = Some db \<Longrightarrow> stores_data dk D db"
  using assms by (auto simp: chunk_store_ok_def)

lemma cache_push_ok:
  assumes "chunk_store_ok dk D s"
  obtains s' where "cache_push i (D i) s = Some s'" "chunk_store_ok dk D s'" "ck_storage s' = ck_storage s"
    "rr_get (ck_chunks s') i = Some (D i)"
proof -
  obtain c where c: "rr_push i (D i) (ck_chunks s) = Some c" "rr_wf c"
    using rr.push_total [OF chunk_store_okD(1) [OF assms]] by blast
  have "Some (D j) = Some d" if "rr_get c j = Some d" for j d
    using rr.coherent_push [where truth = "\<lambda>j. Some (D j)",
        OF chunk_store_okD(1) [OF assms] _ refl c(1) that] chunk_store_okD(2) [OF assms] by auto
  then have "chunk_store_ok dk D (s\<lparr>ck_chunks := c\<rparr>)"
    using assms c(2) by (auto simp: chunk_store_ok_def)
  with c that [of "s\<lparr>ck_chunks := c\<rparr>"] show thesis
    using rr.get_pushed [OF chunk_store_okD(1) [OF assms] c(1)] by (simp add: cache_push_def)
qed

text \<open>What is readable without the server; the block rows only change their access stamps.\<close>

definition locally_readable :: "chunk_store \<Rightarrow> chunk_id \<Rightarrow> bool" where
  "locally_readable s i \<longleftrightarrow> rr_get (ck_chunks s) i \<noteq> None \<or>
     (\<exists>db. ck_storage s = Some db \<and> (db_get_chunk db i \<noteq> None \<or> db_get_block db i \<noteq> None))"

definition same_data :: "workspace_db option \<Rightarrow> workspace_db option \<Rightarrow> bool" where
  "same_data a b \<longleftrightarrow>
     (case (a, b) of
        (None, None) \<Rightarrow> True
      | (Some x, Some y) \<Rightarrow> \<forall>j. db_get_chunk x j = db_get_chunk y j \<and> db_get_block x j = db_get_block y j
      | _ \<Rightarrow> False)"

lemma same_data_refl [simp]: "same_data a a"
  by (simp add: same_data_def split: option.split)

lemma read_encrypted_ok:
  assumes ok: "chunk_store_ok dk D s" and r: "read_encrypted now i s = (s', r)"
  shows "chunk_store_ok dk D s' \<and> ck_chunks s' = ck_chunks s \<and> same_data (ck_storage s) (ck_storage s') \<and>
    (case r of
       Inl e \<Rightarrow> e \<noteq> LocalChunkNotFound
     | Inr None \<Rightarrow> \<exists>db. ck_storage s = Some db \<and> db_get_chunk db i = None \<and> db_get_block db i = None
     | Inr (Some e) \<Rightarrow> dk_decrypt dk e = Some (D i))"
proof (cases "ck_storage s")
  case None
  with ok r show ?thesis by (auto simp: read_encrypted_def)
next
  case (Some db)
  have sd: "stores_data dk D db" by (rule chunk_store_okD(3) [OF ok Some])
  obtain f1 s1 where s1: "storage_fault s = (f1, s1)" by fastforce
  obtain f2 s2 where s2: "storage_fault s1 = (f2, s2)" by fastforce
  obtain db' found where db': "db_get_block_and_update_accessed_on db i now = (db', found)" by fastforce
  have f: "ck_storage s1 = Some db" "ck_storage s2 = Some db" "ck_chunks s1 = ck_chunks s"
    "ck_chunks s2 = ck_chunks s" "chunk_store_ok dk D s1" "chunk_store_ok dk D s2"
    using s1 s2 Some ok storage_fault_fields chunk_store_ok_fault by (metis snd_conv)+
  note acc = get_block_accessed [OF db']
  have "stores_data dk D db'" using sd acc by (simp add: stores_data_def)
  then have ok': "chunk_store_ok dk D (s2\<lparr>ck_storage := Some db'\<rparr>)"
    using f(6) by (auto simp: chunk_store_ok_def)
  have r': "read_encrypted now i s =
      (if f1 then (s1, Inl LocalInternal)
       else case db_get_chunk db i of
              Some e \<Rightarrow> (s1, Inr (Some e))
            | None \<Rightarrow> if f2 then (s2, Inl LocalInternal) else (s2\<lparr>ck_storage := Some db'\<rparr>, Inr found))"
    by (simp add: read_encrypted_def Some s1 s2 db' split: option.split)
  show ?thesis
    using r unfolding r'
    using f ok' acc sd Some
    by (cases "db_get_chunk db i"; cases f1; cases f2; cases found)
      (auto simp: same_data_def stores_data_def split: option.splits)
qed

lemma local_only_ok:
  assumes ok: "chunk_store_ok dk D s"
  obtains s' r where "get_chunk_or_block_local_only dk now c s = Some (s', r)" "chunk_store_ok dk D s'"
    "same_data (ck_storage s) (ck_storage s')" "r = Inr d \<Longrightarrow> d = D (cv_id c)"
    "r = Inl LocalChunkNotFound \<Longrightarrow> \<not> locally_readable s (cv_id c)"
proof (cases "rr_get (ck_chunks s) (cv_id c)")
  case (Some data)
  then show thesis
    using that [of s "Inr data"] ok chunk_store_okD(2) [OF ok] by (simp add: get_chunk_or_block_local_only_def)
next
  case None
  obtain s1 r1 where r1: "read_encrypted now (cv_id c) s = (s1, r1)" by fastforce
  note ok1 = read_encrypted_ok [OF ok r1]
  consider (err) e where "r1 = Inl e" | (none) "r1 = Inr None" | (data) e where "r1 = Inr (Some e)"
    by (metis not_Some_eq obj_sumE)
  then show thesis
  proof cases
    case err
    then show thesis
      using that [of s1 "Inl e"] ok1 None r1 by (auto simp: get_chunk_or_block_local_only_def)
  next
    case none
    then have "\<not> locally_readable s (cv_id c)" using ok1 None by (auto simp: locally_readable_def)
    then show thesis
      using that [of s1 "Inl LocalChunkNotFound"] ok1 None r1 none
      by (auto simp: get_chunk_or_block_local_only_def)
  next
    case data
    then have dec: "dk_decrypt dk e = Some (D (cv_id c))" and s1: "chunk_store_ok dk D s1" using ok1 by auto
    from s1 obtain s2 where s2: "cache_push (cv_id c) (D (cv_id c)) s1 = Some s2"
      "chunk_store_ok dk D s2" "ck_storage s2 = ck_storage s1"
      using cache_push_ok by metis
    then show thesis
      using that [of s2 "Inr (D (cv_id c))"] ok1 None r1 data dec
      by (simp add: get_chunk_or_block_local_only_def)
  qed
qed

text \<open>Views name the block they were made from.\<close>

definition access_id_ok :: "chunk_view \<Rightarrow> bool" where
  "access_id_ok c \<longleftrightarrow> (\<forall>a. cv_access c = Some a \<longrightarrow> ba_id a = cv_id c)"

definition fetch_ok :: "block_fetch \<Rightarrow> (chunk_id \<Rightarrow> byte list) \<Rightarrow> bool" where
  "fetch_ok fetch D \<longleftrightarrow> (\<forall>m a d. fetch m a = Inr d \<longrightarrow> d = D (ba_id a))"

lemma set_block_stores:
  assumes "key_ok dk" "stores_data dk D db"
  shows "stores_data dk D (set_block i (dk_encrypt dk (D i)) now db)"
  using assms
  by (auto simp: stores_data_def set_block_def key_ok_def get_block_insert dest!: get_block_may_cleanup
      split: if_splits)

lemma get_chunk_or_block_ok:
  assumes ok: "chunk_store_ok dk D s" and dk: "key_ok dk" and fetch: "fetch_ok fetch D"
    and c: "access_id_ok c"
  obtains s' r where "get_chunk_or_block dk fetch now c m s = Some (s', r)" "chunk_store_ok dk D s'"
    "\<And>d. r = Inr d \<Longrightarrow> d = D (cv_id c)"
proof -
  obtain s1 r1 where r1: "get_chunk_or_block_local_only dk now c s = Some (s1, r1)"
    "chunk_store_ok dk D s1" "\<And>d. r1 = Inr d \<Longrightarrow> d = D (cv_id c)"
    using local_only_ok [OF ok, of now c] by (metis (no_types, lifting) Pair_inject option.inject)
  show thesis
  proof (cases "\<exists>a d. r1 = Inl LocalChunkNotFound \<and> cv_access c = Some a \<and> fetch m a = Inr d")
    case False
    then have "\<exists>r. get_chunk_or_block dk fetch now c m s = Some (s1, r) \<and> (\<forall>d. r = Inr d \<longrightarrow> d = D (cv_id c))"
      using r1 by (auto simp: get_chunk_or_block_def split: sum.split read_chunk_local_error.split option.split)
    with that r1(2) show thesis by blast
  next
    case True
    then obtain a d where a: "r1 = Inl LocalChunkNotFound" "cv_access c = Some a" "fetch m a = Inr d" by blast
    have d: "d = D (cv_id c)" "ba_id a = cv_id c"
      using fetch a(2,3) c unfolding fetch_ok_def access_id_ok_def by metis+
    have eq: "get_chunk_or_block dk fetch now c m s = store_fetched_block dk now c a d s1"
      using r1(1) a by (simp add: get_chunk_or_block_def)
    obtain f s2 where s2: "storage_fault s1 = (f, s2)" by fastforce
    have s2_ok: "chunk_store_ok dk D s2" "ck_storage s2 = ck_storage s1"
      using s2 r1(2) chunk_store_ok_fault storage_fault_fields by (metis snd_conv)+
    show thesis
    proof (cases "ck_storage s1")
      case None
      with that r1(2) eq show thesis by (simp add: store_fetched_block_def)
    next
      case (Some db)
      show thesis
      proof (cases f)
        case True
        with that s2_ok eq s2 Some show thesis by (simp add: store_fetched_block_def)
      next
        case False
        let ?s3 = "s2\<lparr>ck_storage := Some (set_block (cv_id c) (dk_encrypt dk (D (cv_id c))) now db)\<rparr>"
        have "chunk_store_ok dk D ?s3"
          using s2_ok Some set_block_stores [OF dk, of D db] by (simp add: chunk_store_ok_def)
        then obtain s4 where "cache_push (cv_id c) (D (cv_id c)) ?s3 = Some s4" "chunk_store_ok dk D s4"
          using cache_push_ok by metis
        with that False eq s2 Some d show thesis by (simp add: store_fetched_block_def)
      qed
    qed
  qed
qed

text \<open>The row of the storage for a file, as a flush writes it.\<close>

definition manifest_stored :: "(local_file_manifest \<Rightarrow> byte list) \<Rightarrow> chunk_store \<Rightarrow> local_file_manifest \<Rightarrow> bool" where
  "manifest_stored dump s m \<longleftrightarrow> (\<exists>db row. ck_storage s = Some db \<and> sql_find vr_id (fm_id (lf_base m)) (db_vlobs db) = Some row \<and>
     vr_blob row = dump m \<and> vr_need_sync row = lf_need_sync m \<and> vr_base_version row = fm_version (lf_base m))"

lemma update_file_manifest_ok:
  assumes ok: "chunk_store_ok dk D s" and dk: "key_ok dk" and new: "distinct (map fst new)"
    and fresh: "\<And>i d. map_of new i = Some d \<Longrightarrow> D' i = d"
    and same: "\<And>i. map_of new i = None \<Longrightarrow> D' i = D i"
    and cached: "\<And>i. i \<in> fst ` set new \<Longrightarrow> rr_get (ck_chunks s) i = None"
    and blocks: "\<And>i db. i \<in> fst ` set new \<Longrightarrow> ck_storage s = Some db \<Longrightarrow> db_get_block db i = None"
    and root: "fm_id (lf_base m) \<noteq> ck_root_manifest_id s"
  obtains s' r where "update_file_manifest_and_continue dk dump m new removed s = Some (s', r)"
    "r = Inr () \<Longrightarrow> chunk_store_ok dk D' s'" "r \<noteq> Inr () \<Longrightarrow> chunk_store_ok dk D s'"
    "r = Inr () \<Longrightarrow> ck_file_manifests s' (fm_id (lf_base m)) = Some m \<and> manifest_stored dump s' m"
proof -
  obtain f s1 where s1: "storage_fault s = (f, s1)" by fastforce
  have s1_ok: "chunk_store_ok dk D s1" "ck_storage s1 = ck_storage s" "ck_chunks s1 = ck_chunks s"
    "ck_root_manifest_id s1 = ck_root_manifest_id s"
    using s1 ok chunk_store_ok_fault storage_fault_fields by (metis snd_conv)+
  show thesis
  proof (cases "ck_storage s")
    case None
    with that ok show thesis by (simp add: update_file_manifest_and_continue_def)
  next
    case (Some db)
    show thesis
    proof (cases f)
      case True
      with that s1_ok s1 Some show thesis by (simp add: update_file_manifest_and_continue_def)
    next
      case False
      let ?enc = "map (\<lambda>(i, cleartext). (i, dk_encrypt dk cleartext)) new"
      have enc: "distinct (map fst ?enc)" "map_of ?enc i = map_option (dk_encrypt dk) (map_of new i)" for i
      proof -
        have "map fst ?enc = map fst new" by (simp add: case_prod_beta)
        with new show "distinct (map fst ?enc)" by (simp only:)
        show "map_of ?enc i = map_option (dk_encrypt dk) (map_of new i)" by (induction new) auto
      qed
      have sd: "stores_data dk D db" by (rule chunk_store_okD(3) [OF ok Some])
      define ud where "ud = \<lparr>ud_entry_id = fm_id (lf_base m), ud_encrypted = dump m,
        ud_need_sync = lf_need_sync m, ud_base_version = fm_version (lf_base m)\<rparr>"
      let ?db = "update_manifest_and_chunks ud ?enc removed db"
      have chunk: "dk_decrypt dk e = Some (D' i)" if "db_get_chunk ?db i = Some e" for i e
        using that sd dk fresh [of i] same [of i] update_manifest_and_chunks_get(1) [OF enc(1)]
        by (auto simp: enc(2) stores_data_def key_ok_def split: if_splits option.splits)
      have out: "D' i = D i" if "i \<notin> fst ` set new" for i
        using same [of i] that by (simp add: map_of_eq_None_iff)
      have block: "dk_decrypt dk e = Some (D' i)" if "db_get_block ?db i = Some e" for i e
        using that sd update_manifest_and_chunks_get(2) [OF enc(1)] blocks [OF _ Some] out [of i]
        by (cases "i \<in> fst ` set new") (auto simp: stores_data_def)
      have cache: "d = D' i" if "rr_get (ck_chunks s) i = Some d" for i d
        using that chunk_store_okD(2) [OF ok that] cached [of i] out [of i] by (cases "i \<in> fst ` set new") auto
      let ?s = "s1\<lparr>ck_storage := Some ?db, ck_file_manifests :=
        (ck_file_manifests s1)(fm_id (lf_base m) \<mapsto> m)\<rparr>"
      have "chunk_store_ok dk D' ?s"
        using s1_ok chunk_store_okD(1) [OF ok] chunk block cache by (simp add: chunk_store_ok_def stores_data_def)
      moreover have "update_file_manifest_and_continue dk dump m new removed s = Some (?s, Inr ())"
        using Some s1 False root s1_ok by (simp add: update_file_manifest_and_continue_def ud_def)
      moreover have "manifest_stored dump ?s m"
        using update_manifest_read_back [of ud db "fm_id (lf_base m)"] by (auto simp: manifest_stored_def ud_def db_get_manifest_def)
      ultimately show thesis using that by simp
    qed
  qed
qed

text \<open>Readable from the storage, with no database failure to come.\<close>

definition available :: "chunk_store \<Rightarrow> chunk_id \<Rightarrow> bool" where
  "available s i \<longleftrightarrow> ck_faults s = [] \<and>
     (\<exists>db. ck_storage s = Some db \<and> (db_get_chunk db i \<noteq> None \<or> db_get_block db i \<noteq> None))"

lemma available_same_data:
  "available s i \<Longrightarrow> ck_faults s' = [] \<Longrightarrow> same_data (ck_storage s) (ck_storage s') \<Longrightarrow> available s' i"
  by (auto simp: available_def same_data_def split: option.splits)

lemma local_only_available:
  assumes ok: "chunk_store_ok dk D s" and av: "available s (cv_id c)"
  obtains s' where "get_chunk_or_block_local_only dk now c s = Some (s', Inr (D (cv_id c)))"
    "chunk_store_ok dk D s'" "\<And>i. available s i \<Longrightarrow> available s' i"
proof -
  obtain s' r where r: "get_chunk_or_block_local_only dk now c s = Some (s', r)" "chunk_store_ok dk D s'"
    "same_data (ck_storage s) (ck_storage s')" "\<And>d. r = Inr d \<Longrightarrow> d = D (cv_id c)"
    using local_only_ok [OF ok, of now c] by (metis (no_types, lifting) Pair_inject option.inject)
  obtain db where db: "ck_storage s = Some db" "db_get_chunk db (cv_id c) \<noteq> None \<or> db_get_block db (cv_id c) \<noteq> None"
    and nf: "ck_faults s = []"
    using av by (auto simp: available_def)
  have sf: "storage_fault s = (False, s)" using nf by (simp add: storage_fault_def)
  have sd: "stores_data dk D db" by (rule chunk_store_okD(3) [OF ok db(1)])
  have "(\<exists>d. r = Inr d) \<and> ck_faults s' = []"
  proof (cases "rr_get (ck_chunks s) (cv_id c)")
    case (Some d)
    with r(1) nf show ?thesis by (auto simp: get_chunk_or_block_local_only_def)
  next
    case None
    obtain db' found where db': "db_get_block_and_update_accessed_on db (cv_id c) now = (db', found)" by fastforce
    obtain s1 e where s1: "read_encrypted now (cv_id c) s = (s1, Inr (Some e))" "ck_faults s1 = []"
    proof (cases "db_get_chunk db (cv_id c)")
      case None
      with db obtain e where "found = Some e" using get_block_accessed [OF db'] by auto
      with None db sf db' nf that [of "s\<lparr>ck_storage := Some db'\<rparr>" e] show thesis
        by (simp add: read_encrypted_def)
    next
      case (Some e)
      with db sf nf that [of s e] show thesis by (simp add: read_encrypted_def)
    qed
    have "dk_decrypt dk e = Some (D (cv_id c))" using read_encrypted_ok [OF ok s1(1)] by simp
    with r(1) None s1 show ?thesis
      by (auto simp: get_chunk_or_block_local_only_def cache_push_def bind_eq_Some_conv)
  qed
  then show thesis using that r available_same_data by blast
qed

lemma get_chunk_or_block_available:
  assumes ok: "chunk_store_ok dk D s" and av: "available s (cv_id c)"
  obtains s' where "get_chunk_or_block dk fetch now c m s = Some (s', Inr (D (cv_id c)))"
    "chunk_store_ok dk D s'" "\<And>i. available s i \<Longrightarrow> available s' i"
proof (rule local_only_available [OF assms, of now])
  fix s' assume "get_chunk_or_block_local_only dk now c s = Some (s', Inr (D (cv_id c)))"
    "chunk_store_ok dk D s'" "\<And>i. available s i \<Longrightarrow> available s' i"
  then show thesis by (intro that [of s']) (simp_all add: get_chunk_or_block_def)
qed

lemma update_file_manifest_available:
  assumes new: "distinct (map fst new)" and s: "ck_faults s = []" "ck_storage s = Some db"
    and root: "fm_id (lf_base m) \<noteq> ck_root_manifest_id s"
  obtains s' where "update_file_manifest_and_continue dk dump m new removed s = Some (s', Inr ())"
    "\<And>i. i \<notin> set removed \<Longrightarrow> i \<in> fst ` set new \<or> available s i \<Longrightarrow> available s' i"
proof -
  have sf: "storage_fault s = (False, s)" using s(1) by (simp add: storage_fault_def)
  let ?enc = "map (\<lambda>(i, cleartext). (i, dk_encrypt dk cleartext)) new"
  have "map fst ?enc = map fst new" by (simp add: case_prod_beta)
  with new have enc: "distinct (map fst ?enc)" by (simp only:)
  have lookup: "map_of ?enc i = map_option (dk_encrypt dk) (map_of new i)" for i by (induction new) auto
  define ud where "ud = \<lparr>ud_entry_id = fm_id (lf_base m), ud_encrypted = dump m,
    ud_need_sync = lf_need_sync m, ud_base_version = fm_version (lf_base m)\<rparr>"
  let ?db = "update_manifest_and_chunks ud ?enc removed db"
  let ?s = "s\<lparr>ck_storage := Some ?db, ck_file_manifests := (ck_file_manifests s)(fm_id (lf_base m) \<mapsto> m)\<rparr>"
  have "update_file_manifest_and_continue dk dump m new removed s = Some (?s, Inr ())"
    using s sf root by (simp add: update_file_manifest_and_continue_def ud_def)
  moreover have "available ?s i" if "i \<notin> set removed" "i \<in> fst ` set new \<or> available s i" for i
  proof (cases "map_of new i")
    case None
    then have "i \<notin> fst ` set new" by (simp add: map_of_eq_None_iff)
    with None show ?thesis
      using that s update_manifest_and_chunks_get [OF enc, of ud removed db i] lookup [of i]
      by (auto simp: available_def)
  next
    case (Some d)
    then show ?thesis
      using that s update_manifest_and_chunks_get(1) [OF enc, of ud removed db i] lookup [of i]
      by (auto simp: available_def)
  qed
  ultimately show thesis using that by blast
qed

text \<open>An id the store has never heard of as a block, nor read.\<close>

definition store_fresh :: "chunk_store \<Rightarrow> chunk_id \<Rightarrow> bool" where
  "store_fresh s i \<longleftrightarrow> rr_get (ck_chunks s) i = None \<and>
     (\<forall>db. ck_storage s = Some db \<longrightarrow> db_get_block db i = None)"

lemma local_only_fresh:
  assumes ok: "chunk_store_ok dk D s" and g: "get_chunk_or_block_local_only dk now c s = Some (s', r)"
    and i: "i \<noteq> cv_id c" "store_fresh s i"
  shows "store_fresh s' i"
proof (cases "rr_get (ck_chunks s) (cv_id c)")
  case (Some d)
  with g i show ?thesis by (simp add: get_chunk_or_block_local_only_def)
next
  case None
  obtain s1 r1 where r1: "read_encrypted now (cv_id c) s = (s1, r1)" by fastforce
  note ok1 = read_encrypted_ok [OF ok r1]
  have f1: "store_fresh s1 i"
    using ok1 i(2) by (auto simp: store_fresh_def same_data_def split: option.splits)
  consider "s' = s1" | d where "cache_push (cv_id c) d s1 = Some s'"
    using g None r1 by (auto simp: get_chunk_or_block_local_only_def bind_eq_Some_conv
        split: sum.splits option.splits)
  then show ?thesis
  proof cases
    case 1
    with f1 show ?thesis by simp
  next
    case 2
    then obtain ca where ca: "rr_push (cv_id c) d (ck_chunks s1) = Some ca" "s' = s1\<lparr>ck_chunks := ca\<rparr>"
      by (auto simp: cache_push_def)
    have "rr_wf (ck_chunks s1)" using ok1 chunk_store_okD(1) by blast
    then have "rr_get ca i = None"
      using rr.get_others [OF _ ca(1) i(1)] f1 by (cases "rr_get ca i") (auto simp: store_fresh_def)
    with f1 ca show ?thesis by (simp add: store_fresh_def)
  qed
qed

text \<open>What no read changes.\<close>

definition store_frame :: "chunk_store \<Rightarrow> chunk_store \<Rightarrow> bool" where
  "store_frame s s' \<longleftrightarrow> ck_root_manifest_id s' = ck_root_manifest_id s \<and>
     ck_file_manifests s' = ck_file_manifests s \<and> (ck_faults s = [] \<longrightarrow> ck_faults s' = []) \<and>
     (ck_storage s' = None \<longleftrightarrow> ck_storage s = None)"

lemma store_frame_refl [simp]: "store_frame s s"
  by (simp add: store_frame_def)

lemma store_frame_trans: "store_frame s t \<Longrightarrow> store_frame t u \<Longrightarrow> store_frame s u"
  by (simp add: store_frame_def)

lemma store_frame_fault: "store_frame s (snd (storage_fault s))"
  by (simp add: store_frame_def storage_fault_def split: list.split)

lemma read_encrypted_frame:
  assumes "read_encrypted now i s = (s', r)" shows "store_frame s s'"
proof -
  obtain f1 s1 where s1: "storage_fault s = (f1, s1)" by fastforce
  obtain f2 s2 where s2: "storage_fault s1 = (f2, s2)" by fastforce
  have f: "store_frame s s1" "store_frame s s2"
    using store_frame_fault [of s] store_frame_fault [of s1] s1 s2 store_frame_trans by auto
  have "s' = s \<or> s' = s1 \<or> s' = s2 \<or> (ck_storage s \<noteq> None \<and> (\<exists>db'. s' = s2\<lparr>ck_storage := Some db'\<rparr>))"
    using assms s1 s2 by (auto simp: read_encrypted_def split: option.splits if_splits prod.splits)
  with f show ?thesis by (auto simp: store_frame_def)
qed

lemma local_only_frame:
  assumes "get_chunk_or_block_local_only dk now c s = Some (s', r)" shows "store_frame s s'"
proof (cases "rr_get (ck_chunks s) (cv_id c)")
  case (Some d)
  with assms show ?thesis by (simp add: get_chunk_or_block_local_only_def)
next
  case None
  obtain s1 r1 where r1: "read_encrypted now (cv_id c) s = (s1, r1)" by fastforce
  have "s' = s1 \<or> (\<exists>ca. s' = s1\<lparr>ck_chunks := ca\<rparr>)"
    using assms None r1 by (auto simp: get_chunk_or_block_local_only_def bind_eq_Some_conv cache_push_def
        split: sum.splits option.splits)
  with read_encrypted_frame [OF r1] show ?thesis by (auto simp: store_frame_def)
qed

end
