(* ===== verification/Opened_File.thy ===== *)
theory Opened_File
  imports File_Resize Chunk_Store
begin

text \<open>
  Opened files: \<^verbatim>\<open>libparsec/crates/client/src/workspace/mod.rs\<close> (the opened file and its cursors) and
  the bodies of \<^verbatim>\<open>transactions/fd_read.rs\<close>, \<^verbatim>\<open>fd_write.rs\<close>, \<^verbatim>\<open>fd_resize.rs\<close> and \<^verbatim>\<open>fd_flush.rs\<close> on one
  opened file; \<^verbatim>\<open>File_Descriptors\<close> adds the tables of files and descriptors around them.

  An operation holds the opened file's mutex from its lookup to its end, so it is one step of the
  model; a cursor that was closed while the operation waited for the mutex is the branch where the
  descriptor is known and its cursor is not. Random ids are arguments (\<open>new_ids\<close> per block for a
  write, \<open>reshape_ids\<close> per block for a reshape), and so is \<open>iter\<close>, the order in which a hash set of
  chunk ids is visited.
\<close>

datatype read_mode = ReadAllowed | ReadDenied
datatype write_mode = WriteAllowed | WriteDenied

record opened_file_cursor =
  oc_file_descriptor :: nat
  oc_read_mode :: read_mode
  oc_write_mode :: write_mode

record opened_file =
  of_updater :: "vlob_id option"
  of_manifest :: local_file_manifest
  of_cursors :: "opened_file_cursor list"
  of_bytes_written_since_last_flush :: u64
  of_removed_chunks :: "chunk_id list"
  of_new_chunks :: "(chunk_id \<times> byte list) list"
  of_flush_needed :: bool
  of_modified_since_opened :: bool

subsection \<open>Bookkeeping of chunks in memory\<close>

fun position :: "chunk_id \<Rightarrow> (chunk_id \<times> 'a) list \<Rightarrow> nat option" where
  "position i [] = None"
| "position i ((j, _) # rest) = (if j = i then Some 0 else map_option Suc (position i rest))"

definition vec_remove :: "nat \<Rightarrow> 'a list \<Rightarrow> 'a list" where
  "vec_remove n xs = take n xs @ drop (Suc n) xs"

definition remove_chunk_swap :: "chunk_id \<Rightarrow> opened_file \<Rightarrow> opened_file" where
  "remove_chunk_swap i f =
     (case position i (of_new_chunks f) of
        Some n \<Rightarrow> f\<lparr>of_new_chunks := swap_remove n (of_new_chunks f)\<rparr>
      | None \<Rightarrow> f\<lparr>of_removed_chunks := of_removed_chunks f @ [i]\<rparr>)"

definition remove_chunk :: "chunk_id \<Rightarrow> opened_file \<Rightarrow> opened_file" where
  "remove_chunk i f =
     (case position i (of_new_chunks f) of
        Some n \<Rightarrow> f\<lparr>of_new_chunks := vec_remove n (of_new_chunks f)\<rparr>
      | None \<Rightarrow> f\<lparr>of_removed_chunks := of_removed_chunks f @ [i]\<rparr>)"

subsection \<open>Read\<close>

datatype fd_read_error =
    FdReadBadFileDescriptor | FdReadNotInReadMode | FdReadStopped | FdReadOffline
  | FdReadServerBlockstoreUnavailable | FdReadNoRealmAccess | FdReadInvalidBlockAccess
  | FdReadInvalidKeysBundle | FdReadInvalidCertificate | FdReadInternal

fun fd_read_error_of :: "read_chunk_error \<Rightarrow> fd_read_error" where
  "fd_read_error_of ReadOffline = FdReadOffline"
| "fd_read_error_of ReadServerBlockstoreUnavailable = FdReadServerBlockstoreUnavailable"
| "fd_read_error_of ReadStopped = FdReadStopped"
| "fd_read_error_of ReadNoRealmAccess = FdReadNoRealmAccess"
| "fd_read_error_of ReadInvalidBlockAccess = FdReadInvalidBlockAccess"
| "fd_read_error_of ReadInvalidCertificate = FdReadInvalidCertificate"
| "fd_read_error_of ReadInvalidKeysBundle = FdReadInvalidKeysBundle"
| "fd_read_error_of ReadChunkNotFound = FdReadInternal"
| "fd_read_error_of ReadInternal = FdReadInternal"

fun read_views ::
  "device_key \<Rightarrow> block_fetch \<Rightarrow> date_time \<Rightarrow> opened_file \<Rightarrow> u64 \<Rightarrow> chunk_view list \<Rightarrow> byte list \<times> nat \<Rightarrow>
   chunk_store \<Rightarrow> (chunk_store \<times> (fd_read_error + byte list \<times> nat)) option" where
  "read_views dk fetch now f offset [] buf s = Some (s, Inr buf)"
| "read_views dk fetch now f offset (c # cs) buf s =
     (case map_of (of_new_chunks f) (cv_id c) of
        Some data \<Rightarrow>
          Option.bind (cv_copy_between_start_and_stop c data offset buf)
            (\<lambda>buf. read_views dk fetch now f offset cs buf s)
      | None \<Rightarrow>
          Option.bind (get_chunk_or_block dk fetch now c (lf_base (of_manifest f)) s) (\<lambda>(s, r).
          (case r of
             Inl e \<Rightarrow> Some (s, Inl (fd_read_error_of e))
           | Inr data \<Rightarrow>
               Option.bind (cv_copy_between_start_and_stop c data offset buf)
                 (\<lambda>buf. read_views dk fetch now f offset cs buf s))))"

text \<open>The reading itself, once the cursor is known to allow it; the bytes are what is written to
  the caller's buffer.\<close>

definition of_read ::
  "device_key \<Rightarrow> block_fetch \<Rightarrow> date_time \<Rightarrow> u64 \<Rightarrow> u64 \<Rightarrow> opened_file \<Rightarrow> chunk_store \<Rightarrow>
   (chunk_store \<times> (fd_read_error + u64 \<times> byte list)) option" where
  "of_read dk fetch now offset sz f s = do {
     (written_size, chunk_views) \<leftarrow> prepare_read (of_manifest f) sz offset;
     (s, r) \<leftarrow> read_views dk fetch now f offset chunk_views ([], 0) s;
     Some (s, and_then r (\<lambda>(buf, buf_size).
       Inr (written_size,
            if buf_size < written_size then buf @ replicate (written_size - buf_size) 0 else buf)))
   }"

subsection \<open>Reshape and flush\<close>

datatype flush_error = FlushStopped | FlushInternal

datatype reshape_read = ReshapeBuffer "byte list \<times> nat" | ReshapeLocalMiss

fun reshape_views ::
  "device_key \<Rightarrow> date_time \<Rightarrow> opened_file \<Rightarrow> u64 \<Rightarrow> chunk_view list \<Rightarrow> byte list \<times> nat \<Rightarrow> chunk_store \<Rightarrow>
   (chunk_store \<times> (flush_error + reshape_read)) option" where
  "reshape_views dk now f start [] buf s = Some (s, Inr (ReshapeBuffer buf))"
| "reshape_views dk now f start (c # cs) buf s =
     (case map_of (of_new_chunks f) (cv_id c) of
        Some data \<Rightarrow>
          Option.bind (cv_copy_between_start_and_stop c data start buf)
            (\<lambda>buf. reshape_views dk now f start cs buf s)
      | None \<Rightarrow>
          Option.bind (get_chunk_or_block_local_only dk now c s) (\<lambda>(s, r).
          (case r of
             Inr data \<Rightarrow>
               Option.bind (cv_copy_between_start_and_stop c data start buf)
                 (\<lambda>buf. reshape_views dk now f start cs buf s)
           | Inl LocalChunkNotFound \<Rightarrow> Some (s, Inr ReshapeLocalMiss)
           | Inl LocalStopped \<Rightarrow> Some (s, Inl FlushStopped)
           | Inl LocalInternal \<Rightarrow> Some (s, Inl FlushInternal))))"

definition reshape_apply ::
  "(byte list \<Rightarrow> hash_digest) \<Rightarrow> (chunk_id set \<Rightarrow> chunk_id list) \<Rightarrow> nat \<Rightarrow> reshape_operation \<Rightarrow>
   byte list \<Rightarrow> opened_file \<Rightarrow> opened_file option" where
  "reshape_apply from_data iter b op buf f =
     (if length buf \<noteq> cv_size (reshape_destination op) then None
      else do {
        let f = fold remove_chunk (iter (reshape_cleanup_ids op)) f;
        let f = (if reshape_write_back op
                 then f\<lparr>of_new_chunks := of_new_chunks f @ [(cv_id (reshape_destination op), buf)]\<rparr>
                 else f);
        slot \<leftarrow> reshape_commit from_data op buf;
        let m = of_manifest f;
        Some (f\<lparr>of_manifest := m\<lparr>lf_blocks := (lf_blocks m)[b := slot]\<rparr>\<rparr>)
      })"

text \<open>One turn of the loop over \<^verbatim>\<open>prepare_reshape\<close>, for the slot \<open>b\<close> of the manifest.\<close>

definition reshape_slot ::
  "device_key \<Rightarrow> (byte list \<Rightarrow> hash_digest) \<Rightarrow> (chunk_id set \<Rightarrow> chunk_id list) \<Rightarrow> date_time \<Rightarrow>
   (nat \<Rightarrow> chunk_id) \<Rightarrow> nat \<Rightarrow> opened_file \<Rightarrow> chunk_store \<Rightarrow>
   (opened_file \<times> chunk_store \<times> (flush_error + unit)) option" where
  "reshape_slot dk from_data iter now reshape_ids b f s = do {
     maybe_op \<leftarrow> try_reshape (reshape_ids b) (lf_blocks (of_manifest f) ! b);
     (case maybe_op of
        None \<Rightarrow> Some (f, s, Inr ())
      | Some op \<Rightarrow> do {
          (s, r) \<leftarrow> reshape_views dk now f (cv_start (reshape_destination op)) (reshape_source op) ([], 0) s;
          (case r of
             Inl e \<Rightarrow> Some (f, s, Inl e)
           | Inr ReshapeLocalMiss \<Rightarrow> Some (f, s, Inr ())
           | Inr (ReshapeBuffer (buf, _)) \<Rightarrow> do {
               f \<leftarrow> reshape_apply from_data iter b op buf f;
               Some (f, s, Inr ())
             })
        })
   }"

fun reshape_slots ::
  "device_key \<Rightarrow> (byte list \<Rightarrow> hash_digest) \<Rightarrow> (chunk_id set \<Rightarrow> chunk_id list) \<Rightarrow> date_time \<Rightarrow>
   (nat \<Rightarrow> chunk_id) \<Rightarrow> nat list \<Rightarrow> opened_file \<Rightarrow> chunk_store \<Rightarrow>
   (opened_file \<times> chunk_store \<times> (flush_error + unit)) option" where
  "reshape_slots dk from_data iter now reshape_ids [] f s = Some (f, s, Inr ())"
| "reshape_slots dk from_data iter now reshape_ids (b # bs) f s =
     Option.bind (reshape_slot dk from_data iter now reshape_ids b f s) (\<lambda>(f, s, r).
       (case r of
          Inl e \<Rightarrow> Some (f, s, Inl e)
        | Inr _ \<Rightarrow> reshape_slots dk from_data iter now reshape_ids bs f s))"

definition reshape ::
  "device_key \<Rightarrow> (byte list \<Rightarrow> hash_digest) \<Rightarrow> (chunk_id set \<Rightarrow> chunk_id list) \<Rightarrow> date_time \<Rightarrow>
   (nat \<Rightarrow> chunk_id) \<Rightarrow> opened_file \<Rightarrow> chunk_store \<Rightarrow>
   (opened_file \<times> chunk_store \<times> (flush_error + unit)) option" where
  "reshape dk from_data iter now reshape_ids f s =
     reshape_slots dk from_data iter now reshape_ids [0 ..< length (lf_blocks (of_manifest f))] f s"

definition force_reshape_and_flush ::
  "device_key \<Rightarrow> (local_file_manifest \<Rightarrow> byte list) \<Rightarrow> (byte list \<Rightarrow> hash_digest) \<Rightarrow>
   (chunk_id set \<Rightarrow> chunk_id list) \<Rightarrow> date_time \<Rightarrow> (nat \<Rightarrow> chunk_id) \<Rightarrow> opened_file \<Rightarrow> chunk_store \<Rightarrow>
   (opened_file \<times> chunk_store \<times> (flush_error + unit)) option" where
  "force_reshape_and_flush dk dump from_data iter now reshape_ids f s =
     (if \<not> of_flush_needed f then Some (f, s, Inr ())
      else do {
        (f, s, r) \<leftarrow> reshape dk from_data iter now reshape_ids f s;
        (case r of
           Inl e \<Rightarrow> Some (f, s, Inl e)
         | Inr _ \<Rightarrow> do {
             _ \<leftarrow> of_updater f;
             (s, r) \<leftarrow> update_file_manifest_and_continue dk dump (of_manifest f) (of_new_chunks f)
               (of_removed_chunks f) s;
             Some (case r of
               Inl StoreStopped \<Rightarrow> (f, s, Inl FlushStopped)
             | Inl StoreInternal \<Rightarrow> (f, s, Inl FlushInternal)
             | Inr _ \<Rightarrow>
                 (f\<lparr>of_new_chunks := [], of_removed_chunks := [],
                    of_bytes_written_since_last_flush := 0, of_flush_needed := False\<rparr>, s, Inr ()))
           })
      })"

definition maybe_early_reshape_and_flush ::
  "device_key \<Rightarrow> (local_file_manifest \<Rightarrow> byte list) \<Rightarrow> (byte list \<Rightarrow> hash_digest) \<Rightarrow>
   (chunk_id set \<Rightarrow> chunk_id list) \<Rightarrow> date_time \<Rightarrow> (nat \<Rightarrow> chunk_id) \<Rightarrow> opened_file \<Rightarrow> chunk_store \<Rightarrow>
   (opened_file \<times> chunk_store \<times> (flush_error + unit)) option" where
  "maybe_early_reshape_and_flush dk dump from_data iter now reshape_ids f s =
     (if of_bytes_written_since_last_flush f \<ge> lf_blocksize (of_manifest f)
      then force_reshape_and_flush dk dump from_data iter now reshape_ids f s
      else Some (f, s, Inr ()))"

subsection \<open>Write and resize\<close>

datatype fd_write_strategy = WriteNormal u64 | WriteConstrainedIO u64 | WriteStartEOF

text \<open>The offset to write at and the part of the data to write; slicing out of range panics.\<close>

fun write_target :: "local_file_manifest \<Rightarrow> fd_write_strategy \<Rightarrow> byte list \<Rightarrow> (u64 \<times> byte list) option" where
  "write_target m (WriteConstrainedIO offset) data =
     (if u64_add offset (length data) > lf_size m
      then let stop = lf_size m - offset
           in if stop \<le> length data then Some (offset, take stop data) else None
      else Some (offset, data))"
| "write_target m (WriteNormal offset) data = Some (offset, data)"
| "write_target m WriteStartEOF data = Some (lf_size m, data)"

text \<open>
  The data of one write operation. Where the whole chunk lies before the buffer, the source
  computes \<^verbatim>\<open>chunk_data_start - chunk_data_stop\<close>, a negative number, and casts it to \<^verbatim>\<open>usize\<close>: the
  allocation panics.
\<close>

definition write_operation_data :: "byte list \<Rightarrow> write_operation \<Rightarrow> byte list option" where
  "write_operation_data data w =
     (let chunk_start = cv_start (wo_chunk_view w);
          chunk_stop = cv_stop (wo_chunk_view w);
          chunk_data_start = wo_offset w;
          chunk_data_stop = wo_offset w + int (chunk_stop - chunk_start)
      in if \<not> chunk_start \<le> chunk_stop \<or> \<not> chunk_data_stop < 2 ^ 63 then None
         else if chunk_data_start \<ge> 0
         then (if chunk_data_stop \<le> int (length data)
               then Some (drop (nat chunk_data_start) (take (nat chunk_data_stop) data)) else None)
         else if chunk_data_stop \<le> 0
         then (if chunk_data_start < chunk_data_stop then None else Some [])
         else (if chunk_data_stop \<le> int (length data)
               then Some (replicate (nat (- chunk_data_start)) 0 @ take (nat chunk_data_stop) data)
               else None))"

fun push_write_operations ::
  "byte list \<Rightarrow> write_operation list \<Rightarrow> opened_file \<Rightarrow> opened_file option" where
  "push_write_operations data [] f = Some f"
| "push_write_operations data (w # ws) f =
     Option.bind (write_operation_data data w) (\<lambda>chunk_data.
       push_write_operations data ws
         (f\<lparr>of_new_chunks := of_new_chunks f @ [(cv_id (wo_chunk_view w), chunk_data)]\<rparr>))"

text \<open>The change a write makes to the opened file, before the early flush.\<close>

definition of_write ::
  "(chunk_id set \<Rightarrow> chunk_id list) \<Rightarrow> (nat \<Rightarrow> chunk_id) \<Rightarrow> date_time \<Rightarrow> u64 \<Rightarrow> byte list \<Rightarrow>
   opened_file \<Rightarrow> opened_file option" where
  "of_write iter new_ids now offset data f = do {
     (m, write_operations, removed_chunks) \<leftarrow>
       prepare_write new_ids (of_manifest f) (length data) offset now;
     let f = f\<lparr>of_manifest := m\<rparr>;
     let f = fold remove_chunk_swap (iter removed_chunks) f;
     f \<leftarrow> push_write_operations data write_operations f;
     Some (f\<lparr>of_bytes_written_since_last_flush :=
               u64_add (of_bytes_written_since_last_flush f) (length data),
             of_flush_needed := True, of_modified_since_opened := True\<rparr>)
   }"

definition of_resize ::
  "(chunk_id set \<Rightarrow> chunk_id list) \<Rightarrow> date_time \<Rightarrow> u64 \<Rightarrow> opened_file \<Rightarrow> opened_file option" where
  "of_resize iter now new_length f = do {
     (m, removed_chunks) \<leftarrow> prepare_resize (of_manifest f) new_length now;
     let f = fold remove_chunk (iter removed_chunks) (f\<lparr>of_manifest := m\<rparr>);
     Some (f\<lparr>of_flush_needed := True, of_modified_since_opened := True\<rparr>)
   }"

end
