(* ===== verification/Update_Lock.thy ===== *)
theory Update_Lock
  imports Prelude
begin

text \<open>
  The lock that protects the update of each manifest:
  \<^verbatim>\<open>libparsec/crates/client/src/workspace/store/per_manifest_update_lock.rs\<close>.

  The operations are functions on the vector of locked entries; the event that a lock with waiters
  owns is a number, and \<open>lock_release\<close> returns the event to notify. \<open>lock_step\<close> is the system of
  the tasks that use the lock: a task calls \<^verbatim>\<open>take\<close> and either gets the guard or listens to the
  event, is woken by the notification and calls \<^verbatim>\<open>take\<close> again, calls \<^verbatim>\<open>try_take\<close>, or releases its
  guard, in any order. The invariant gives mutual exclusion and that no waiter is forgotten.
\<close>

datatype entry_lock_state = LockTaken | TakenWithConcurrency nat

type_synonym per_manifest_update_lock = "(vlob_id \<times> entry_lock_state) list"

datatype lock_take_outcome = GuardTaken vlob_id | NeedWait nat

definition lock_is_taken :: "per_manifest_update_lock \<Rightarrow> vlob_id \<Rightarrow> bool" where
  "lock_is_taken l v = (\<exists>(i, _) \<in> set l. i = v)"

fun lock_find :: "per_manifest_update_lock \<Rightarrow> vlob_id \<Rightarrow> entry_lock_state option" where
  "lock_find [] v = None"
| "lock_find ((i, st) # rest) v = (if i = v then Some st else lock_find rest v)"

fun lock_set :: "per_manifest_update_lock \<Rightarrow> vlob_id \<Rightarrow> entry_lock_state \<Rightarrow> per_manifest_update_lock" where
  "lock_set [] v st = []"
| "lock_set ((i, old) # rest) v st = (if i = v then (i, st) # rest else (i, old) # lock_set rest v st)"

text \<open>\<open>event\<close> is the event that \<^verbatim>\<open>take\<close> creates when it is the first to wait.\<close>

definition lock_take ::
  "nat \<Rightarrow> vlob_id \<Rightarrow> per_manifest_update_lock \<Rightarrow> per_manifest_update_lock \<times> lock_take_outcome" where
  "lock_take event v l =
     (case lock_find l v of
        None \<Rightarrow> (l @ [(v, LockTaken)], GuardTaken v)
      | Some LockTaken \<Rightarrow> (lock_set l v (TakenWithConcurrency event), NeedWait event)
      | Some (TakenWithConcurrency e) \<Rightarrow> (l, NeedWait e))"

definition lock_try_take ::
  "vlob_id \<Rightarrow> per_manifest_update_lock \<Rightarrow> per_manifest_update_lock \<times> vlob_id option" where
  "lock_try_take v l =
     (case lock_find l v of None \<Rightarrow> (l @ [(v, LockTaken)], Some v) | Some _ \<Rightarrow> (l, None))"

fun lock_index :: "per_manifest_update_lock \<Rightarrow> vlob_id \<Rightarrow> nat option" where
  "lock_index [] v = None"
| "lock_index ((i, _) # rest) v = (if i = v then Some 0 else map_option Suc (lock_index rest v))"

text \<open>Releasing a guard whose entry is not locked panics.\<close>

definition lock_release ::
  "vlob_id \<Rightarrow> per_manifest_update_lock \<Rightarrow> (per_manifest_update_lock \<times> nat option) option" where
  "lock_release v l = do {
     index \<leftarrow> lock_index l v;
     Some (swap_remove index l,
           case snd (l ! index) of LockTaken \<Rightarrow> None | TakenWithConcurrency event \<Rightarrow> Some event)
   }"

subsection \<open>The vector as a map\<close>

definition lock_wf :: "per_manifest_update_lock \<Rightarrow> bool" where
  "lock_wf l \<longleftrightarrow> distinct (map fst l)"

lemma lock_find_map_of: "lock_find l v = map_of l v"
  by (induction l v rule: lock_find.induct) auto

lemma lock_is_taken_iff: "lock_is_taken l v \<longleftrightarrow> lock_find l v \<noteq> None"
  by (induction l v rule: lock_find.induct) (auto simp: lock_is_taken_def)

lemma fst_lock_set [simp]: "map fst (lock_set l v st) = map fst l"
  by (induction l v st rule: lock_set.induct) auto

lemma lock_find_set:
  "lock_find (lock_set l v st) w = (if w = v \<and> lock_find l v \<noteq> None then Some st else lock_find l w)"
  by (induction l v st rule: lock_set.induct) auto

lemma lock_find_append:
  "lock_find (l @ [(v, st)]) w = (case lock_find l w of None \<Rightarrow> if w = v then Some st else None | Some x \<Rightarrow> Some x)"
  by (induction l w rule: lock_find.induct) auto

lemma lock_find_push: "lock_find l v = None \<Longrightarrow> lock_find (l @ [(v, st)]) = (lock_find l)(v \<mapsto> st)"
  by (auto simp: fun_eq_iff lock_find_append split: option.split)

lemma lock_index_Some: "lock_index l v = Some n \<Longrightarrow> n < length l \<and> l ! n = (v, the (lock_find l v)) \<and> lock_find l v \<noteq> None"
  by (induction l v arbitrary: n rule: lock_index.induct) (auto split: if_splits)

lemma lock_index_None: "lock_index l v = None \<longleftrightarrow> lock_find l v = None"
  by (induction l v rule: lock_index.induct) auto

lemma swap_remove_set:
  assumes "distinct xs" "n < length xs" shows "set (swap_remove n xs) = set xs - {xs ! n}"
proof (cases xs rule: rev_cases)
  case (snoc ys y)
  show ?thesis
  proof (cases "n = length ys")
    case False
    then have n: "n < length ys" using assms snoc by simp
    have "set (ys[n := y]) = insert y (set ys - {ys ! n})"
      using set_update_distinct [of ys n y] assms(1) n snoc by simp
    then show ?thesis using snoc n assms(1) False by (auto simp: swap_remove_def nth_append)
  qed (use snoc assms in \<open>auto simp: swap_remove_def nth_append\<close>)
qed (use assms in simp)

lemma map_swap_remove: "n < length xs \<Longrightarrow> map f (swap_remove n xs) = swap_remove n (map f xs)"
  by (cases xs rule: rev_cases) (auto simp: swap_remove_def map_butlast map_update)

lemma distinct_swap_remove:
  assumes "distinct xs" "n < length xs" shows "distinct (swap_remove n xs)"
proof (cases xs rule: rev_cases)
  case (snoc ys y)
  then show ?thesis
    using assms distinct_list_update [of ys y n] set_update_subset_insert [of ys n y]
    by (auto simp: swap_remove_def less_Suc_eq)
qed (use assms in simp)

lemma lock_release_wf:
  assumes "lock_wf l" "lock_release v l = Some (l', e)"
  shows "lock_wf l'" "lock_find l' = (lock_find l)(v := None)"
    "e = (case lock_find l v of Some (TakenWithConcurrency x) \<Rightarrow> Some x | _ \<Rightarrow> None)"
    "lock_find l v \<noteq> None"
proof -
  obtain n where n: "lock_index l v = Some n" "l' = swap_remove n l"
    "e = (case snd (l ! n) of LockTaken \<Rightarrow> None | TakenWithConcurrency x \<Rightarrow> Some x)"
    using assms(2) by (auto simp: lock_release_def bind_eq_Some_conv)
  note i = lock_index_Some [OF n(1)]
  have d: "distinct l" "distinct (map fst l)" using assms(1) by (auto simp: lock_wf_def distinct_map)
  show wf: "lock_wf l'" using d(2) i by (simp add: lock_wf_def n(2) map_swap_remove distinct_swap_remove)
  show "lock_find l v \<noteq> None" using i by simp
  show "e = (case lock_find l v of Some (TakenWithConcurrency x) \<Rightarrow> Some x | _ \<Rightarrow> None)"
    using i n(3) by (auto split: entry_lock_state.splits)
  have s: "set l' = set l - {l ! n}" using swap_remove_set [OF d(1)] i n(2) by simp
  have fst_n: "fst (l ! n) = v" using i by simp
  have "map_of l' w = ((map_of l)(v := None)) w" for w
  proof (cases "w = v")
    case True
    have "v \<notin> fst ` set l'"
    proof
      assume "v \<in> fst ` set l'"
      then obtain x where x: "x \<in> set l" "fst x = v" "x \<noteq> l ! n" unfolding s by blast
      have "l ! n \<in> set l" using i nth_mem by blast
      then have "x = l ! n" using d(2) fst_n x(1,2) by (metis eq_key_imp_eq_value prod.collapse)
      then show False using x(3) by simp
    qed
    then show ?thesis using True by (simp add: map_of_eq_None_iff)
  next
    case False
    have "(w, st) \<in> set l' \<longleftrightarrow> (w, st) \<in> set l" for st
    proof -
      have "(w, st) \<noteq> l ! n" using fst_n False by (metis fst_conv)
      then show ?thesis by (simp add: s)
    qed
    then have "map_of l' w = Some st \<longleftrightarrow> map_of l w = Some st" for st
      using wf d(2) by (simp add: lock_wf_def map_of_eq_Some_iff)
    then have "map_of l' w = map_of l w" by (metis option.exhaust)
    then show ?thesis using False by simp
  qed
  then show "lock_find l' = (lock_find l)(v := None)" by (auto simp: lock_find_map_of fun_eq_iff)
qed

lemma lock_release_total: "lock_find l v \<noteq> None \<Longrightarrow> \<exists>l' e. lock_release v l = Some (l', e)"
  using lock_index_None [of l v] by (auto simp: lock_release_def)

lemma lock_take_wf:
  assumes "lock_wf l" "lock_take e v l = (l', out)" shows "lock_wf l'"
  using assms
  by (auto simp: lock_take_def lock_wf_def lock_find_map_of map_of_eq_None_iff
      split: option.splits entry_lock_state.splits)

lemma lock_try_take_wf:
  assumes "lock_wf l" "lock_try_take v l = (l', out)" shows "lock_wf l'"
  using assms
  by (auto simp: lock_try_take_def lock_wf_def lock_find_map_of map_of_eq_None_iff split: option.splits)

subsection \<open>The tasks that use the lock\<close>

record lock_system =
  ls_lock :: per_manifest_update_lock
  ls_guards :: "(nat \<times> vlob_id) list"
  ls_waiting :: "(nat \<times> vlob_id \<times> nat) list"
  ls_notified :: "nat list"
  ls_next_event :: nat

definition lock_system_init :: lock_system where
  "lock_system_init = \<lparr>ls_lock = [], ls_guards = [], ls_waiting = [], ls_notified = [], ls_next_event = 0\<rparr>"

definition system_take :: "nat \<Rightarrow> vlob_id \<Rightarrow> lock_system \<Rightarrow> lock_system" where
  "system_take t v s =
     (case lock_take (ls_next_event s) v (ls_lock s) of
        (l, GuardTaken g) \<Rightarrow> s\<lparr>ls_lock := l, ls_guards := (t, g) # ls_guards s\<rparr>
      | (l, NeedWait e) \<Rightarrow>
          s\<lparr>ls_lock := l, ls_waiting := (t, v, e) # ls_waiting s,
            ls_next_event := max (ls_next_event s) (Suc e)\<rparr>)"

inductive lock_step :: "lock_system \<Rightarrow> lock_system \<Rightarrow> bool" where
  step_take: "lock_step s (system_take t v s)"
| step_try: "lock_try_take v (ls_lock s) = (l, Some g) \<Longrightarrow>
    lock_step s (s\<lparr>ls_lock := l, ls_guards := (t, g) # ls_guards s\<rparr>)"
| step_wake: "(t, v, e) \<in> set (ls_waiting s) \<Longrightarrow> e \<in> set (ls_notified s) \<Longrightarrow>
    lock_step s (system_take t v (s\<lparr>ls_waiting := remove1 (t, v, e) (ls_waiting s)\<rparr>))"
| step_release: "(t, g) \<in> set (ls_guards s) \<Longrightarrow> lock_release g (ls_lock s) = Some (l, event) \<Longrightarrow>
    lock_step s (s\<lparr>ls_lock := l, ls_guards := remove1 (t, g) (ls_guards s),
                   ls_notified := (case event of None \<Rightarrow> ls_notified s | Some e \<Rightarrow> e # ls_notified s)\<rparr>)"

definition lock_reachable :: "lock_system \<Rightarrow> bool" where
  "lock_reachable s \<longleftrightarrow> lock_step\<^sup>*\<^sup>* lock_system_init s"

text \<open>
  An entry is locked exactly when one guard for it exists, a task waits for an event that was
  notified or that the lock of its entry will notify, and events are not reused.
\<close>

definition lock_inv :: "lock_system \<Rightarrow> bool" where
  "lock_inv s \<longleftrightarrow> lock_wf (ls_lock s) \<and> distinct (map snd (ls_guards s)) \<and>
     (\<forall>v. lock_find (ls_lock s) v \<noteq> None \<longleftrightarrow> v \<in> snd ` set (ls_guards s)) \<and>
     (\<forall>t v e. (t, v, e) \<in> set (ls_waiting s) \<longrightarrow>
        e \<in> set (ls_notified s) \<or> lock_find (ls_lock s) v = Some (TakenWithConcurrency e)) \<and>
     (\<forall>v e. lock_find (ls_lock s) v = Some (TakenWithConcurrency e) \<longrightarrow> e < ls_next_event s) \<and>
     (\<forall>v w e. lock_find (ls_lock s) v = Some (TakenWithConcurrency e) \<longrightarrow>
        lock_find (ls_lock s) w = Some (TakenWithConcurrency e) \<longrightarrow> v = w)"

lemma system_take_cases:
  obtains (taken) "lock_find (ls_lock s) v = None"
      "system_take t v s = s\<lparr>ls_lock := ls_lock s @ [(v, LockTaken)], ls_guards := (t, v) # ls_guards s\<rparr>"
    | (first) "lock_find (ls_lock s) v = Some LockTaken"
      "system_take t v s = s\<lparr>ls_lock := lock_set (ls_lock s) v (TakenWithConcurrency (ls_next_event s)),
         ls_waiting := (t, v, ls_next_event s) # ls_waiting s, ls_next_event := Suc (ls_next_event s)\<rparr>"
    | (other) e where "lock_find (ls_lock s) v = Some (TakenWithConcurrency e)"
      "system_take t v s = s\<lparr>ls_waiting := (t, v, e) # ls_waiting s, ls_next_event := max (ls_next_event s) (Suc e)\<rparr>"
proof (cases "lock_find (ls_lock s) v")
  case None
  then show ?thesis by (intro taken) (simp_all add: system_take_def lock_take_def)
next
  case (Some st)
  then show ?thesis
    by (cases st) (auto simp: system_take_def lock_take_def intro: first other)
qed

lemma lock_inv_take: "lock_inv s \<Longrightarrow> lock_inv (system_take t v s)"
proof (cases rule: system_take_cases [of s v t])
  case taken
  assume inv: "lock_inv s"
  have "v \<notin> snd ` set (ls_guards s)" using inv taken(1) unfolding lock_inv_def by (metis (no_types))
  moreover have wait: "(x, v, e) \<in> set (ls_waiting s) \<Longrightarrow> e \<in> set (ls_notified s)" for x e
    using inv taken(1) unfolding lock_inv_def by (metis option.distinct(1))
  moreover have "lock_wf (ls_lock s @ [(v, LockTaken)])"
    using inv taken(1) by (simp add: lock_inv_def lock_wf_def lock_find_map_of map_of_eq_None_iff)
  ultimately show ?thesis using inv taken wait by (auto simp: lock_inv_def lock_find_push)
next
  case first
  assume inv: "lock_inv s"
  have "lock_wf (lock_set (ls_lock s) v (TakenWithConcurrency (ls_next_event s)))"
    using inv by (simp add: lock_inv_def lock_wf_def)
  moreover have wait: "(x, v, e) \<in> set (ls_waiting s) \<Longrightarrow> e \<in> set (ls_notified s)" for x e
    using inv first(1) unfolding lock_inv_def by (metis entry_lock_state.distinct(1) option.inject)
  ultimately show ?thesis using inv first by (auto simp: lock_inv_def lock_find_set less_Suc_eq)
next
  case (other e)
  assume inv: "lock_inv s"
  then have "max (ls_next_event s) (Suc e) = ls_next_event s"
    using other(1) unfolding lock_inv_def by (metis Suc_leI max.absorb1)
  then show ?thesis using inv other by (auto simp: lock_inv_def)
qed

lemma lock_inv_try:
  assumes "lock_inv s" "lock_try_take v (ls_lock s) = (l, Some g)"
  shows "lock_inv (s\<lparr>ls_lock := l, ls_guards := (t, g) # ls_guards s\<rparr>)"
proof -
  have n: "lock_find (ls_lock s) v = None" "l = ls_lock s @ [(v, LockTaken)]" "g = v"
    using assms(2) by (auto simp: lock_try_take_def split: option.splits)
  then have "system_take t v s = s\<lparr>ls_lock := l, ls_guards := (t, g) # ls_guards s\<rparr>"
    by (simp add: system_take_def lock_take_def)
  then show ?thesis using lock_inv_take [OF assms(1), of t v] by simp
qed

lemma lock_inv_wait_less: "lock_inv s \<Longrightarrow> lock_inv (s\<lparr>ls_waiting := remove1 x (ls_waiting s)\<rparr>)"
  using set_remove1_subset [of x "ls_waiting s"] by (fastforce simp: lock_inv_def)

lemma lock_inv_release:
  assumes inv: "lock_inv s" and g: "(t, g) \<in> set (ls_guards s)"
    and r: "lock_release g (ls_lock s) = Some (l, event)"
  shows "lock_inv (s\<lparr>ls_lock := l, ls_guards := remove1 (t, g) (ls_guards s),
                   ls_notified := (case event of None \<Rightarrow> ls_notified s | Some e \<Rightarrow> e # ls_notified s)\<rparr>)"
    (is "lock_inv ?s")
proof -
  have wf: "lock_wf (ls_lock s)" and d: "distinct (map snd (ls_guards s))" using inv by (auto simp: lock_inv_def)
  note rel = lock_release_wf [OF wf r]
  have gs: "snd ` set (remove1 (t, g) (ls_guards s)) = snd ` set (ls_guards s) - {g}"
    using d g by (auto simp: distinct_map inj_on_def dest: distinct_remove1) force
  have dg: "distinct (map snd (remove1 (t, g) (ls_guards s)))"
    using d by (auto simp: distinct_map inj_on_def dest: notin_set_remove1)
  have w: "x \<in> set (case event of None \<Rightarrow> ls_notified s | Some e \<Rightarrow> e # ls_notified s) \<longleftrightarrow>
      x \<in> set (ls_notified s) \<or> lock_find (ls_lock s) g = Some (TakenWithConcurrency x)" for x
    using rel(3) by (auto split: option.splits entry_lock_state.splits)
  have f: "ls_lock ?s = l" "ls_guards ?s = remove1 (t, g) (ls_guards s)" "ls_waiting ?s = ls_waiting s"
    "ls_next_event ?s = ls_next_event s"
    "ls_notified ?s = (case event of None \<Rightarrow> ls_notified s | Some e \<Rightarrow> e # ls_notified s)"
    by simp_all
  show ?thesis using inv rel(1) dg unfolding lock_inv_def f gs w rel(2) by (auto simp: fun_upd_apply, blast)
qed

lemma lock_step_inv: "lock_step s s' \<Longrightarrow> lock_inv s \<Longrightarrow> lock_inv s'"
  by (induction rule: lock_step.induct) (simp_all add: lock_inv_take lock_inv_try lock_inv_wait_less lock_inv_release)

lemma lock_reachable_inv: "lock_reachable s \<Longrightarrow> lock_inv s"
proof -
  have init: "lock_inv lock_system_init" by (simp add: lock_system_init_def lock_inv_def lock_wf_def)
  assume "lock_reachable s"
  then have "lock_step\<^sup>*\<^sup>* lock_system_init s" by (simp add: lock_reachable_def)
  then show ?thesis by (induction rule: rtranclp_induct) (blast intro: init lock_step_inv)+
qed

lemma lock_reachable_step: "lock_reachable s \<Longrightarrow> lock_step s s' \<Longrightarrow> lock_reachable s'"
  by (simp add: lock_reachable_def rtranclp.rtrancl_into_rtrancl)

lemma lock_reachable_init: "lock_reachable lock_system_init"
  by (simp add: lock_reachable_def)

subsection \<open>Properties of the lock\<close>

text \<open>
  C6. Mutual exclusion: whatever the order in which tasks take, wait for, are woken for and release
  manifest locks, at most one guard exists per manifest, and \<^verbatim>\<open>is_taken\<close> answers whether one does.
\<close>

theorem update_lock_mutual_exclusion:
  assumes "lock_reachable s"
  shows "distinct (map snd (ls_guards s)) \<and>
    (\<forall>v. lock_is_taken (ls_lock s) v \<longleftrightarrow> (\<exists>t. (t, v) \<in> set (ls_guards s)))"
proof -
  have inv: "lock_inv s" using lock_reachable_inv [OF assms] .
  have "lock_is_taken (ls_lock s) v \<longleftrightarrow> (\<exists>t. (t, v) \<in> set (ls_guards s))" for v
    using inv unfolding lock_inv_def lock_is_taken_iff by (metis imageE image_eqI prod.collapse snd_conv)
  then show ?thesis using inv by (simp add: lock_inv_def)
qed

lemma two_tasks_reachable: "lock_reachable (system_take 2 7 (system_take 1 7 lock_system_init))"
  by (intro lock_reachable_step [OF _ step_take] lock_reachable_init)

theorem update_lock_mutual_exclusion_witness:
  "let s = system_take 2 7 (system_take 1 7 lock_system_init)
   in distinct (map snd (ls_guards s)) \<and> ls_guards s = [(1, 7)] \<and> ls_waiting s = [(2, 7, 0)] \<and>
      (lock_is_taken (ls_lock s) 7 \<longleftrightarrow> (\<exists>t. (t, 7) \<in> set (ls_guards s)))"
  using update_lock_mutual_exclusion [OF two_tasks_reachable]
  by (simp add: lock_system_init_def system_take_def lock_take_def)

text \<open>
  C7. No lost wake-up: a task that waits for a manifest was either notified already, or the manifest
  is held by a task whose release does not panic and notifies the event the waiter listens to.
\<close>

theorem update_lock_no_lost_wakeup:
  assumes "lock_reachable s" "(t, v, e) \<in> set (ls_waiting s)" "e \<notin> set (ls_notified s)"
  shows "\<exists>t' l. (t', v) \<in> set (ls_guards s) \<and> lock_release v (ls_lock s) = Some (l, Some e) \<and>
    \<not> lock_is_taken l v"
proof -
  have inv: "lock_inv s" using lock_reachable_inv [OF assms(1)] .
  then have f: "lock_find (ls_lock s) v = Some (TakenWithConcurrency e)"
    using assms(2,3) unfolding lock_inv_def by blast
  have wf: "lock_wf (ls_lock s)" using inv by (simp add: lock_inv_def)
  obtain l ev where r: "lock_release v (ls_lock s) = Some (l, ev)" using lock_release_total f by blast
  have "v \<in> snd ` set (ls_guards s)" using inv f unfolding lock_inv_def by (metis option.distinct(1))
  then show ?thesis
    using r lock_release_wf [OF wf r] f by (auto simp: lock_is_taken_iff)
qed

theorem update_lock_no_lost_wakeup_witness:
  "let s = system_take 2 7 (system_take 1 7 lock_system_init)
   in \<exists>t' l. (t', 7) \<in> set (ls_guards s) \<and> lock_release 7 (ls_lock s) = Some (l, Some 0) \<and> \<not> lock_is_taken l 7"
  using update_lock_no_lost_wakeup [OF two_tasks_reachable, of 2 7 0]
  by (simp add: lock_system_init_def system_take_def lock_take_def)

end
