(* ===== verification/File_Descriptors.thy ===== *)
theory File_Descriptors
  imports Opened_File Update_Lock
begin

text \<open>
  File descriptors: \<^verbatim>\<open>libparsec/crates/client/src/workspace/mod.rs\<close> (the table of opened files) and
  \<^verbatim>\<open>transactions/fd_read.rs\<close>, \<^verbatim>\<open>fd_write.rs\<close>, \<^verbatim>\<open>fd_resize.rs\<close>, \<^verbatim>\<open>fd_flush.rs\<close>, \<^verbatim>\<open>fd_stat.rs\<close>,
  \<^verbatim>\<open>fd_close.rs\<close>, \<^verbatim>\<open>open_file.rs\<close>, with \<^verbatim>\<open>store/file_updater.rs\<close> for taking and closing the updater.

  An operation holds the mutex of the opened file from its lookup to its end, so it is one step on
  the \<open>workspace_ops\<close> state. \<open>fd_env\<close> collects what the operations get from outside: the device key,
  serialisation, hashing, the server, the clock, the visiting order of hash sets.
\<close>

record fd_env =
  fe_dk :: device_key
  fe_dump :: "local_file_manifest \<Rightarrow> byte list"
  fe_from_data :: "byte list \<Rightarrow> hash_digest"
  fe_iter :: "chunk_id set \<Rightarrow> chunk_id list"
  fe_fetch :: block_fetch
  fe_now :: date_time

record opened_files =
  ofs_new_open_allowed :: bool
  ofs_next_file_descriptor :: nat
  ofs_file_descriptors :: "(nat, vlob_id) hashmap"
  ofs_opened_files :: "(vlob_id, opened_file) hashmap"

datatype ops_event = OutboundSyncNeeded vlob_id

record workspace_ops =
  ops_store :: chunk_store
  ops_locks :: per_manifest_update_lock
  ops_opened_files :: opened_files
  ops_events :: "ops_event list"
  ops_role_can_write :: bool

subsection \<open>The table\<close>

definition put_file :: "vlob_id \<Rightarrow> opened_file \<Rightarrow> workspace_ops \<Rightarrow> workspace_ops" where
  "put_file v f ops =
     ops\<lparr>ops_opened_files := (ops_opened_files ops)\<lparr>ofs_opened_files :=
       hm_insert v f (ofs_opened_files (ops_opened_files ops))\<rparr>\<rparr>"

text \<open>
  Looking up the opened file of a descriptor: \<^const>\<open>Inl\<close> when the descriptor is unknown, a panic
  when it names a file that is not opened.
\<close>

definition retrieve_opened_file :: "nat \<Rightarrow> workspace_ops \<Rightarrow> (unit + vlob_id \<times> opened_file) option" where
  "retrieve_opened_file fd ops =
     (case hm_get (ofs_file_descriptors (ops_opened_files ops)) fd of
        None \<Rightarrow> Some (Inl ())
      | Some v \<Rightarrow>
          map_option (\<lambda>f. Inr (v, f)) (hm_get (ofs_opened_files (ops_opened_files ops)) v))"

definition find_cursor :: "nat \<Rightarrow> opened_file \<Rightarrow> opened_file_cursor option" where
  "find_cursor fd f = find (\<lambda>c. oc_file_descriptor c = fd) (of_cursors f)"

fun cursor_index :: "nat \<Rightarrow> opened_file_cursor list \<Rightarrow> nat option" where
  "cursor_index fd [] = None"
| "cursor_index fd (c # cs) =
     (if oc_file_descriptor c = fd then Some 0 else map_option Suc (cursor_index fd cs))"

text \<open>Closing an updater releases its manifest lock.\<close>

definition close_updater :: "vlob_id \<Rightarrow> workspace_ops \<Rightarrow> workspace_ops option" where
  "close_updater v ops = map_option (\<lambda>(l, _). ops\<lparr>ops_locks := l\<rparr>) (lock_release v (ops_locks ops))"

definition close_maybe_updater :: "vlob_id option \<Rightarrow> workspace_ops \<Rightarrow> workspace_ops option" where
  "close_maybe_updater u ops = (case u of None \<Rightarrow> Some ops | Some v \<Rightarrow> close_updater v ops)"

subsection \<open>Read, write, resize, flush, stat\<close>

definition fd_read ::
  "fd_env \<Rightarrow> nat \<Rightarrow> u64 \<Rightarrow> u64 \<Rightarrow> workspace_ops \<Rightarrow>
   (workspace_ops \<times> (fd_read_error + u64 \<times> byte list)) option" where
  "fd_read env fd offset sz ops = do {
     found \<leftarrow> retrieve_opened_file fd ops;
     (case found of
        Inl _ \<Rightarrow> Some (ops, Inl FdReadBadFileDescriptor)
      | Inr (v, f) \<Rightarrow>
          (case find_cursor fd f of
             None \<Rightarrow> Some (ops, Inl FdReadBadFileDescriptor)
           | Some cursor \<Rightarrow>
               if oc_read_mode cursor = ReadDenied then Some (ops, Inl FdReadNotInReadMode)
               else do {
                 (s, r) \<leftarrow> of_read (fe_dk env) (fe_fetch env) (fe_now env) offset sz f (ops_store ops);
                 Some (ops\<lparr>ops_store := s\<rparr>, r)
               }))
   }"

datatype fd_write_error = FdWriteBadFileDescriptor | FdWriteNotInWriteMode | FdWriteInternal

text \<open>A flush that cannot be done because the client stops is ignored by writes and resizes.\<close>

definition ignore_stopped :: "'e \<Rightarrow> 'a \<Rightarrow> flush_error + unit \<Rightarrow> 'e + 'a" where
  "ignore_stopped err x r = (case r of Inl FlushInternal \<Rightarrow> Inl err | _ \<Rightarrow> Inr x)"

definition flush_file_early ::
  "fd_env \<Rightarrow> (nat \<Rightarrow> chunk_id) \<Rightarrow> vlob_id \<Rightarrow> opened_file \<Rightarrow> workspace_ops \<Rightarrow>
   (workspace_ops \<times> (flush_error + unit)) option" where
  "flush_file_early env reshape_ids v f ops = do {
     (f, s, r) \<leftarrow> maybe_early_reshape_and_flush (fe_dk env) (fe_dump env) (fe_from_data env) (fe_iter env)
                    (fe_now env) reshape_ids f (ops_store ops);
     Some (put_file v f (ops\<lparr>ops_store := s\<rparr>), r)
   }"

definition flush_file ::
  "fd_env \<Rightarrow> (nat \<Rightarrow> chunk_id) \<Rightarrow> opened_file \<Rightarrow> workspace_ops \<Rightarrow>
   (opened_file \<times> workspace_ops \<times> (flush_error + unit)) option" where
  "flush_file env reshape_ids f ops = do {
     (f, s, r) \<leftarrow> force_reshape_and_flush (fe_dk env) (fe_dump env) (fe_from_data env) (fe_iter env)
                    (fe_now env) reshape_ids f (ops_store ops);
     Some (f, ops\<lparr>ops_store := s\<rparr>, r)
   }"

definition fd_write ::
  "fd_env \<Rightarrow> (nat \<Rightarrow> chunk_id) \<Rightarrow> (nat \<Rightarrow> chunk_id) \<Rightarrow> nat \<Rightarrow> byte list \<Rightarrow> fd_write_strategy \<Rightarrow>
   workspace_ops \<Rightarrow> (workspace_ops \<times> (fd_write_error + u64)) option" where
  "fd_write env new_ids reshape_ids fd data mode ops = do {
     found \<leftarrow> retrieve_opened_file fd ops;
     (case found of
        Inl _ \<Rightarrow> Some (ops, Inl FdWriteBadFileDescriptor)
      | Inr (v, f) \<Rightarrow>
          (case find_cursor fd f of
             None \<Rightarrow> Some (ops, Inl FdWriteBadFileDescriptor)
           | Some cursor \<Rightarrow>
               if oc_write_mode cursor = WriteDenied then Some (ops, Inl FdWriteNotInWriteMode)
               else do {
                 (offset, data) \<leftarrow> write_target (of_manifest f) mode data;
                 if data = [] then Some (ops, Inr 0)
                 else do {
                   f \<leftarrow> of_write (fe_iter env) new_ids (fe_now env) offset data f;
                   (ops, r) \<leftarrow> flush_file_early env reshape_ids v f ops;
                   Some (ops, ignore_stopped FdWriteInternal (length data) r)
                 }
               }))
   }"

datatype fd_resize_error = FdResizeBadFileDescriptor | FdResizeNotInWriteMode | FdResizeInternal

definition fd_resize ::
  "fd_env \<Rightarrow> (nat \<Rightarrow> chunk_id) \<Rightarrow> nat \<Rightarrow> u64 \<Rightarrow> bool \<Rightarrow> workspace_ops \<Rightarrow>
   (workspace_ops \<times> (fd_resize_error + unit)) option" where
  "fd_resize env reshape_ids fd len truncate_only ops = do {
     found \<leftarrow> retrieve_opened_file fd ops;
     (case found of
        Inl _ \<Rightarrow> Some (ops, Inl FdResizeBadFileDescriptor)
      | Inr (v, f) \<Rightarrow>
          (case find_cursor fd f of
             None \<Rightarrow> Some (ops, Inl FdResizeBadFileDescriptor)
           | Some cursor \<Rightarrow>
               if oc_write_mode cursor = WriteDenied then Some (ops, Inl FdResizeNotInWriteMode)
               else if lf_size (of_manifest f) = len \<or> truncate_only \<and> lf_size (of_manifest f) \<le> len
               then Some (ops, Inr ())
               else do {
                 f \<leftarrow> of_resize (fe_iter env) (fe_now env) len f;
                 (ops, r) \<leftarrow> flush_file_early env reshape_ids v f ops;
                 Some (ops, ignore_stopped FdResizeInternal () r)
               }))
   }"

datatype fd_flush_error = FdFlushBadFileDescriptor | FdFlushNotInWriteMode | FdFlushStopped | FdFlushInternal

definition fd_flush ::
  "fd_env \<Rightarrow> (nat \<Rightarrow> chunk_id) \<Rightarrow> nat \<Rightarrow> workspace_ops \<Rightarrow> (workspace_ops \<times> (fd_flush_error + unit)) option" where
  "fd_flush env reshape_ids fd ops = do {
     found \<leftarrow> retrieve_opened_file fd ops;
     (case found of
        Inl _ \<Rightarrow> Some (ops, Inl FdFlushBadFileDescriptor)
      | Inr (v, f) \<Rightarrow>
          (case find_cursor fd f of
             None \<Rightarrow> Some (ops, Inl FdFlushBadFileDescriptor)
           | Some cursor \<Rightarrow>
               if oc_write_mode cursor = WriteDenied then Some (ops, Inl FdFlushNotInWriteMode)
               else do {
                 (f, ops, r) \<leftarrow> flush_file env reshape_ids f ops;
                 Some (put_file v f ops,
                       case r of Inl FlushStopped \<Rightarrow> Inl FdFlushStopped
                       | Inl FlushInternal \<Rightarrow> Inl FdFlushInternal | Inr _ \<Rightarrow> Inr ())
               }))
   }"

record file_stat =
  fst_id :: vlob_id
  fst_created :: date_time
  fst_updated :: date_time
  fst_base_version :: u64
  fst_is_placeholder :: bool
  fst_need_sync :: bool
  fst_size :: u64

definition fd_stat :: "nat \<Rightarrow> workspace_ops \<Rightarrow> (unit + file_stat) option" where
  "fd_stat fd ops = do {
     found \<leftarrow> retrieve_opened_file fd ops;
     Some (case found of
       Inl _ \<Rightarrow> Inl ()
     | Inr (_, f) \<Rightarrow>
         let m = of_manifest f in
         Inr \<lparr>fst_id = fm_id (lf_base m), fst_created = fm_created (lf_base m), fst_updated = lf_updated m,
              fst_base_version = fm_version (lf_base m), fst_is_placeholder = (fm_version (lf_base m) = 0),
              fst_need_sync = lf_need_sync m, fst_size = lf_size m\<rparr>)
   }"

subsection \<open>Close\<close>

datatype fd_close_error = FdCloseBadFileDescriptor | FdCloseStopped | FdCloseInternal

definition close_outcome :: "flush_error + unit \<Rightarrow> fd_close_error + unit" where
  "close_outcome r = (case r of Inl FlushStopped \<Rightarrow> Inl FdCloseStopped
     | Inl FlushInternal \<Rightarrow> Inl FdCloseInternal | Inr _ \<Rightarrow> Inr ())"

text \<open>
  Nothing else refers to the opened file once it has left the table, so the loop that waits for the
  last reference ends at its first turn.
\<close>

definition fd_close ::
  "fd_env \<Rightarrow> (nat \<Rightarrow> chunk_id) \<Rightarrow> nat \<Rightarrow> workspace_ops \<Rightarrow> (workspace_ops \<times> (fd_close_error + unit)) option" where
  "fd_close env reshape_ids fd ops =
     (let t = ops_opened_files ops in
      case hm_get (ofs_file_descriptors t) fd of
        None \<Rightarrow> Some (ops, Inl FdCloseBadFileDescriptor)
      | Some v \<Rightarrow> do {
          let fds = hm_remove fd (ofs_file_descriptors t);
          let still_opened = (\<exists>(_, w) \<in> set fds. w = v);
          f \<leftarrow> hm_get (ofs_opened_files t) v;
          let files = (if still_opened then ofs_opened_files t else hm_remove v (ofs_opened_files t));
          let ops = ops\<lparr>ops_opened_files := t\<lparr>ofs_file_descriptors := fds, ofs_opened_files := files\<rparr>\<rparr>;
          (case cursor_index fd (of_cursors f) of
             None \<Rightarrow> Some (ops, Inl FdCloseBadFileDescriptor)
           | Some index \<Rightarrow> do {
               let f = f\<lparr>of_cursors := swap_remove index (of_cursors f)\<rparr>;
               (f, ops, r) \<leftarrow> flush_file env reshape_ids f ops;
               if still_opened then Some (put_file v f ops, close_outcome r)
               else do {
                 ops \<leftarrow> close_maybe_updater (of_updater f) ops;
                 let ops = (if of_modified_since_opened f
                            then ops\<lparr>ops_events := ops_events ops @ [OutboundSyncNeeded (fm_id (lf_base (of_manifest f)))]\<rparr>
                            else ops);
                 Some (ops, close_outcome r)
               }
             })
        })"

fun flush_all ::
  "fd_env \<Rightarrow> (vlob_id \<Rightarrow> nat \<Rightarrow> chunk_id) \<Rightarrow> (vlob_id \<times> opened_file) list \<Rightarrow> (fd_close_error + unit) option \<Rightarrow>
   workspace_ops \<Rightarrow> ((vlob_id \<times> opened_file) list \<times> (fd_close_error + unit) option \<times> workspace_ops) option" where
  "flush_all env reshape_ids [] first_bad ops = Some ([], first_bad, ops)"
| "flush_all env reshape_ids ((v, f) # rest) first_bad ops = do {
     (f, ops, r) \<leftarrow> flush_file env (reshape_ids v) f ops;
     let first_bad = (if \<not> isl (close_outcome r) \<or> first_bad \<noteq> None then first_bad else Some (close_outcome r));
     (files, first_bad, ops) \<leftarrow> flush_all env reshape_ids rest first_bad ops;
     Some ((v, f) # files, first_bad, ops)
   }"

fun close_updaters :: "(vlob_id \<times> opened_file) list \<Rightarrow> workspace_ops \<Rightarrow> workspace_ops option" where
  "close_updaters [] ops = Some ops"
| "close_updaters ((_, f) # rest) ops =
     Option.bind (close_maybe_updater (of_updater f) ops) (close_updaters rest)"

definition close_all_fds ::
  "fd_env \<Rightarrow> (vlob_id \<Rightarrow> nat \<Rightarrow> chunk_id) \<Rightarrow> workspace_ops \<Rightarrow> (workspace_ops \<times> (fd_close_error + unit)) option" where
  "close_all_fds env reshape_ids ops = do {
     let t = ops_opened_files ops;
     let files = ofs_opened_files t;
     let ops = ops\<lparr>ops_opened_files := t\<lparr>ofs_file_descriptors := [], ofs_opened_files := []\<rparr>\<rparr>;
     (files, first_bad, ops) \<leftarrow> flush_all env reshape_ids files None ops;
     ops \<leftarrow> close_updaters files ops;
     Some (ops, case first_bad of None \<Rightarrow> Inr () | Some e \<Rightarrow> e)
   }"

subsection \<open>Open\<close>

text \<open>
  \<open>populate\<close> stands for \<^verbatim>\<open>populate_cache_from_local_storage_or_server\<close>: it answers for an entry that is
  not among the cached file manifests.
\<close>

datatype for_update_error =
    UpdOffline | UpdStopped | UpdEntryNotFound | UpdEntryNotAFile vlob_id | UpdNoRealmAccess | UpdWouldBlock
  | UpdInvalidKeysBundle | UpdInvalidCertificate | UpdInvalidManifest | UpdInternal

datatype fetched_manifest = FetchedFile local_file_manifest | FetchedFolder vlob_id

type_synonym populate = "vlob_id \<Rightarrow> chunk_store \<Rightarrow> chunk_store \<times> (for_update_error + fetched_manifest)"

text \<open>With \<^verbatim>\<open>wait\<close> false, as opening a file uses it.\<close>

definition for_update_file ::
  "populate \<Rightarrow> nat \<Rightarrow> vlob_id \<Rightarrow> workspace_ops \<Rightarrow> (workspace_ops \<times> (for_update_error + local_file_manifest)) option" where
  "for_update_file populate event v ops =
     (case lock_take event v (ops_locks ops) of
        (l, NeedWait _) \<Rightarrow> Some (ops\<lparr>ops_locks := l\<rparr>, Inl UpdWouldBlock)
      | (l, GuardTaken _) \<Rightarrow>
          let ops = ops\<lparr>ops_locks := l\<rparr> in
          (case ck_file_manifests (ops_store ops) v of
             Some m \<Rightarrow> Some (ops, Inr m)
           | None \<Rightarrow>
               let (s, r) = populate v (ops_store ops); ops = ops\<lparr>ops_store := s\<rparr> in
               (case r of
                  Inr (FetchedFile m) \<Rightarrow> Some (ops, Inr m)
                | Inr (FetchedFolder w) \<Rightarrow> do { ops \<leftarrow> close_updater v ops; Some (ops, Inl (UpdEntryNotAFile w)) }
                | Inl e \<Rightarrow> do { ops \<leftarrow> close_updater v ops; Some (ops, Inl e) })))"

record open_options =
  opt_read :: bool
  opt_write :: bool
  opt_truncate :: bool

datatype open_file_error =
    OpenOffline | OpenStopped | OpenNoRealmAccess | OpenEntryNotFound | OpenEntryNotAFile vlob_id
  | OpenInvalidKeysBundle | OpenInvalidCertificate | OpenInvalidManifest | OpenInternal

text \<open>\<^const>\<open>None\<close> is the error that makes the loop try again.\<close>

fun open_file_error_of :: "for_update_error \<Rightarrow> open_file_error option" where
  "open_file_error_of UpdOffline = Some OpenOffline"
| "open_file_error_of UpdStopped = Some OpenStopped"
| "open_file_error_of UpdEntryNotFound = Some OpenEntryNotFound"
| "open_file_error_of (UpdEntryNotAFile w) = Some (OpenEntryNotAFile w)"
| "open_file_error_of UpdNoRealmAccess = Some OpenNoRealmAccess"
| "open_file_error_of UpdWouldBlock = None"
| "open_file_error_of UpdInvalidKeysBundle = Some OpenInvalidKeysBundle"
| "open_file_error_of UpdInvalidCertificate = Some OpenInvalidCertificate"
| "open_file_error_of UpdInvalidManifest = Some OpenInvalidManifest"
| "open_file_error_of UpdInternal = Some OpenInternal"

definition maybe_truncate_on_open ::
  "fd_env \<Rightarrow> open_options \<Rightarrow> local_file_manifest \<Rightarrow> (local_file_manifest \<times> chunk_id list option) option" where
  "maybe_truncate_on_open env options m =
     (if opt_truncate options \<and> lf_size m > 0
      then map_option (\<lambda>(m, removed). (m, Some (fe_iter env removed))) (prepare_resize m 0 (fe_now env))
      else Some (m, None))"

definition new_cursor :: "open_options \<Rightarrow> nat \<Rightarrow> opened_file_cursor" where
  "new_cursor options fd =
     \<lparr>oc_file_descriptor = fd,
      oc_read_mode = (if opt_read options then ReadAllowed else ReadDenied),
      oc_write_mode = (if opt_write options then WriteAllowed else WriteDenied)\<rparr>"

definition register_fd :: "nat \<Rightarrow> vlob_id \<Rightarrow> workspace_ops \<Rightarrow> workspace_ops" where
  "register_fd fd v ops =
     (let t = ops_opened_files ops
      in ops\<lparr>ops_opened_files := t\<lparr>ofs_file_descriptors := hm_insert fd v (ofs_file_descriptors t),
            ofs_next_file_descriptor := u32_add fd 1\<rparr>\<rparr>)"

definition new_opened_file ::
  "vlob_id option \<Rightarrow> local_file_manifest \<Rightarrow> chunk_id list option \<Rightarrow> opened_file_cursor \<Rightarrow> opened_file" where
  "new_opened_file updater m removed cursor =
     \<lparr>of_updater = updater, of_manifest = m, of_cursors = [cursor],
      of_bytes_written_since_last_flush = 0,
      of_removed_chunks = (case removed of None \<Rightarrow> [] | Some r \<Rightarrow> r), of_new_chunks = [],
      of_flush_needed = (removed \<noteq> None), of_modified_since_opened = (removed \<noteq> None)\<rparr>"

definition add_cursor ::
  "fd_env \<Rightarrow> open_options \<Rightarrow> opened_file_cursor \<Rightarrow> vlob_id option \<Rightarrow> opened_file \<Rightarrow> opened_file option" where
  "add_cursor env options cursor updater f =
     (if of_updater f \<noteq> None \<and> updater \<noteq> None then None
      else do {
        let f = f\<lparr>of_updater := (case of_updater f of None \<Rightarrow> updater | Some u \<Rightarrow> Some u),
                  of_cursors := of_cursors f @ [cursor]\<rparr>;
        (m, removed) \<leftarrow> maybe_truncate_on_open env options (of_manifest f);
        Some (case removed of
          None \<Rightarrow> f
        | Some removed_chunks \<Rightarrow>
            f\<lparr>of_manifest := m, of_flush_needed := True, of_removed_chunks := of_removed_chunks f @ removed_chunks\<rparr>)
      })"

datatype open_attempt = OpenRetry | OpenDone "open_file_error + nat \<times> vlob_id"

text \<open>One turn of the loop of \<^verbatim>\<open>open_file_by_id\<close>; \<open>OpenRetry\<close> is its \<^verbatim>\<open>continue\<close>.\<close>

definition open_file_by_id ::
  "fd_env \<Rightarrow> populate \<Rightarrow> nat \<Rightarrow> vlob_id \<Rightarrow> open_options \<Rightarrow> workspace_ops \<Rightarrow> (workspace_ops \<times> open_attempt) option" where
  "open_file_by_id env populate event v options ops = do {
     (ops, outcome) \<leftarrow> for_update_file populate event v ops;
     let t = ops_opened_files ops;
     let fd = ofs_next_file_descriptor t;
     let cursor = new_cursor options fd;
     if \<not> ofs_new_open_allowed t
     then (case outcome of
             Inr _ \<Rightarrow> do { ops \<leftarrow> close_updater v ops; Some (ops, OpenDone (Inl OpenStopped)) }
           | Inl _ \<Rightarrow> Some (ops, OpenDone (Inl OpenStopped)))
     else
       (case outcome of
          Inr m \<Rightarrow> do {
            (m, removed) \<leftarrow> maybe_truncate_on_open env options m;
            (updater, ops) \<leftarrow> (if opt_write options then Some (Some v, ops)
                              else map_option (\<lambda>ops. (None, ops)) (close_updater v ops));
            (case hm_get (ofs_opened_files t) v of
               None \<Rightarrow>
                 Some (register_fd fd v (put_file v (new_opened_file updater m removed cursor) ops),
                       OpenDone (Inr (fd, v)))
             | Some f \<Rightarrow> do {
                 f \<leftarrow> add_cursor env options cursor updater f;
                 Some (put_file v f (register_fd fd v ops), OpenDone (Inr (fd, v)))
               })
          }
        | Inl e \<Rightarrow>
            (case open_file_error_of e of
               Some err \<Rightarrow> Some (ops, OpenDone (Inl err))
             | None \<Rightarrow>
                 (case hm_get (ofs_opened_files t) v of
                    Some f \<Rightarrow> do {
                      f \<leftarrow> add_cursor env options cursor None f;
                      Some (put_file v f (register_fd fd v ops), OpenDone (Inr (fd, v)))
                    }
                  | None \<Rightarrow> Some (ops, OpenRetry))))
   }"

end
