(* ===== verification/File_Content.thy ===== *)
theory File_Content
  imports Opened_File "HOL-Library.Multiset"
begin

text \<open>
  The content of an opened file. \<open>file_byte\<close> is the byte at an address given \<open>D\<close>, the data of the
  chunks that are not in memory; \<open>file_bytes\<close> is the whole content, a list of bytes of the size of
  the file. The lemmas show what the operations of \<open>Opened_File\<close> do to it: a write splices the data
  in (after zeroes when it starts past the end), a resize cuts or extends with zeroes, reshaping and
  flushing change nothing, a read returns the requested slice.
\<close>

definition data_of :: "(chunk_id \<Rightarrow> byte list) \<Rightarrow> opened_file \<Rightarrow> chunk_id \<Rightarrow> byte list" where
  "data_of D f i = (case map_of (of_new_chunks f) i of Some d \<Rightarrow> d | None \<Rightarrow> D i)"

definition source_byte :: "(chunk_id \<Rightarrow> byte list) \<Rightarrow> (chunk_id \<times> nat) option \<Rightarrow> byte" where
  "source_byte dat src = (case src of None \<Rightarrow> 0 | Some (i, k) \<Rightarrow> dat i ! k)"

definition file_byte :: "(chunk_id \<Rightarrow> byte list) \<Rightarrow> opened_file \<Rightarrow> nat \<Rightarrow> byte" where
  "file_byte D f p = source_byte (data_of D f) (byte_source (of_manifest f) p)"

definition file_bytes :: "(chunk_id \<Rightarrow> byte list) \<Rightarrow> opened_file \<Rightarrow> byte list" where
  "file_bytes D f = map (file_byte D f) [0 ..< lf_size (of_manifest f)]"

text \<open>The data behind a view is long enough, the view names the block it was made from, and its raw
  size is a u64.\<close>

definition view_ok :: "(chunk_id \<Rightarrow> byte list) \<Rightarrow> chunk_view \<Rightarrow> bool" where
  "view_ok dat c \<longleftrightarrow> cv_stop c - cv_raw_offset c \<le> length (dat (cv_id c)) \<and> access_id_ok c \<and>
     cv_raw_size c < u64_bound"

definition views_ok :: "(chunk_id \<Rightarrow> byte list) \<Rightarrow> local_file_manifest \<Rightarrow> bool" where
  "views_ok dat m \<longleftrightarrow> (\<forall>j. \<forall>c \<in> set (slot (lf_blocks m) j). view_ok dat c)"

definition of_ok :: "(chunk_id \<Rightarrow> byte list) \<Rightarrow> opened_file \<Rightarrow> bool" where
  "of_ok D f \<longleftrightarrow> lf_in_range (of_manifest f) \<and> lf_accepted (of_manifest f) \<and> ids_local (of_manifest f) \<and>
     distinct (map fst (of_new_chunks f)) \<and> views_ok (data_of D f) (of_manifest f) \<and>
     set (of_removed_chunks f) \<inter> lf_ids (of_manifest f) = {}"

definition iter_ok :: "(chunk_id set \<Rightarrow> chunk_id list) \<Rightarrow> bool" where
  "iter_ok iter \<longleftrightarrow> (\<forall>S. finite S \<longrightarrow> set (iter S) = S \<and> distinct (iter S))"

text \<open>Reference behaviour on lists of bytes.\<close>

definition splice :: "nat \<Rightarrow> byte list \<Rightarrow> byte list \<Rightarrow> byte list" where
  "splice off data bytes =
     take off bytes @ replicate (off - length bytes) 0 @ data @ drop (off + length data) bytes"

definition resize_bytes :: "nat \<Rightarrow> byte list \<Rightarrow> byte list" where
  "resize_bytes n bytes = take n bytes @ replicate (n - length bytes) 0"

subsection \<open>Views derived from other views\<close>

definition derived :: "chunk_view \<Rightarrow> chunk_view \<Rightarrow> bool" where
  "derived c d \<longleftrightarrow> cv_id c = cv_id d \<and> cv_raw_offset c = cv_raw_offset d \<and> cv_raw_size c = cv_raw_size d \<and>
     cv_access c = cv_access d \<and> cv_start d \<le> cv_start c \<and> cv_stop c \<le> cv_stop d"

lemma clip_derived:
  "c \<in> set (clip_before s cs) \<Longrightarrow> \<exists>d \<in> set cs. derived c d"
  "c \<in> set (clip_after s cs) \<Longrightarrow> \<exists>d \<in> set cs. derived c d"
  "c \<in> set (clip_range s t cs) \<Longrightarrow> \<exists>d \<in> set cs. derived c d"
  by (auto simp: clip_before_def clip_after_def clip_range_def derived_def)

lemma view_ok_derived: "view_ok dat d \<Longrightarrow> derived c d \<Longrightarrow> view_ok dat c"
  by (auto simp: view_ok_def derived_def access_id_ok_def)

lemma view_ok_cong: "view_ok dat c \<Longrightarrow> dat' (cv_id c) = dat (cv_id c) \<Longrightarrow> view_ok dat' c"
  by (simp add: view_ok_def)

lemma chunk_source_Some:
  "chunk_source cs p = Some (i, k) \<Longrightarrow>
     \<exists>c \<in> set cs. cv_id c = i \<and> k = p - cv_raw_offset c \<and> cv_start c \<le> p \<and> p < cv_stop c"
  by (auto simp: chunk_source_def find_Some_iff cv_covers_def)

lemma slot_id_in: "c \<in> set (slot (lf_blocks m) j) \<Longrightarrow> cv_id c \<in> lf_ids m"
  unfolding lf_ids_def cs_ids_concat_slot by (auto simp: cs_ids_def)

lemma byte_source_id: "byte_source m p = Some (i, k) \<Longrightarrow> i \<in> lf_ids m"
  by (auto simp: byte_source_def dest!: chunk_source_Some intro: slot_id_in)

lemma finite_lf_ids: "finite (lf_ids m)"
  by (simp add: lf_ids_def cs_ids_def)

subsection \<open>Removing chunks from memory\<close>

lemma position_Some: "position i xs = Some n \<Longrightarrow> n < length xs \<and> fst (xs ! n) = i"
  by (induction i xs arbitrary: n rule: position.induct) (auto split: if_splits)

lemma position_None: "position i xs = None \<longleftrightarrow> i \<notin> fst ` set xs"
  by (induction i xs rule: position.induct) auto

lemma mset_vec_remove: "n < length xs \<Longrightarrow> mset (vec_remove n xs) = mset xs - {#xs ! n#}"
proof -
  assume n: "n < length xs"
  then have "mset xs = mset (take n xs @ xs ! n # drop (Suc n) xs)" by (metis id_take_nth_drop)
  then show ?thesis by (simp add: vec_remove_def)
qed

lemma mset_swap_remove: "n < length xs \<Longrightarrow> mset (swap_remove n xs) = mset xs - {#xs ! n#}"
  by (cases xs rule: rev_cases) (auto simp: swap_remove_def nth_append mset_update)

lemma map_of_mset_remove:
  assumes "distinct (map fst xs)" "n < length xs" "mset ys = mset xs - {#xs ! n#}"
  shows "map_of ys = (map_of xs)(fst (xs ! n) := None) \<and> distinct (map fst ys)"
proof -
  have "mset xs = add_mset (xs ! n) (mset ys)" using assms(2,3) by simp
  then have eq: "mset xs = mset (xs ! n # ys)" by simp
  then have "mset (map fst xs) = mset (map fst (xs ! n # ys))" by (metis mset_map)
  then have d: "distinct (map fst (xs ! n # ys))" using assms(1) mset_eq_imp_distinct_iff by blast
  have "map_of xs k = map_of (xs ! n # ys) k" for k
  proof (cases "map_of xs k")
    case None
    then show ?thesis using eq by (metis map_of_eq_None_iff mset_eq_setD)
  next
    case (Some v)
    then have "(k, v) \<in> set (xs ! n # ys)" using eq by (metis map_of_SomeD mset_eq_setD)
    then show ?thesis using Some d by (metis map_of_eq_Some_iff)
  qed
  then have "map_of xs = (map_of ys)(fst (xs ! n) \<mapsto> snd (xs ! n))" by auto
  moreover have "map_of ys (fst (xs ! n)) = None" using d by (simp add: map_of_eq_None_iff)
  ultimately show ?thesis using d by auto
qed

text \<open>
  Forgetting a chunk, whichever way the vector is compacted: the contract the operations rely on.
\<close>

locale chunk_remover =
  fixes rm :: "chunk_id \<Rightarrow> opened_file \<Rightarrow> opened_file"
  assumes rm_fields: "of_manifest (rm i f) = of_manifest f" "of_updater (rm i f) = of_updater f"
      "of_cursors (rm i f) = of_cursors f"
      "of_bytes_written_since_last_flush (rm i f) = of_bytes_written_since_last_flush f"
    and rm_new: "distinct (map fst (of_new_chunks f)) \<Longrightarrow>
      map_of (of_new_chunks (rm i f)) = (map_of (of_new_chunks f))(i := None) \<and>
      distinct (map fst (of_new_chunks (rm i f)))"
    and rm_removed: "set (of_removed_chunks (rm i f)) \<subseteq> insert i (set (of_removed_chunks f))"
begin

lemma fold_fields:
  "of_manifest (fold rm is f) = of_manifest f" "of_updater (fold rm is f) = of_updater f"
  "of_cursors (fold rm is f) = of_cursors f"
  "of_bytes_written_since_last_flush (fold rm is f) = of_bytes_written_since_last_flush f"
  by (induction "is" arbitrary: f) (simp_all add: rm_fields)

lemma fold_new:
  "distinct (map fst (of_new_chunks f)) \<Longrightarrow>
     map_of (of_new_chunks (fold rm is f)) = (\<lambda>i. if i \<in> set is then None else map_of (of_new_chunks f) i) \<and>
     distinct (map fst (of_new_chunks (fold rm is f)))"
proof (induction "is" arbitrary: f)
  case (Cons i "is")
  have "distinct (map fst (of_new_chunks (rm i f)))" using rm_new [OF Cons.prems] by blast
  from Cons.IH [OF this] show ?case using rm_new [OF Cons.prems, of i] by auto
qed auto

lemma fold_removed:
  "set (of_removed_chunks (fold rm is f)) \<subseteq> set is \<union> set (of_removed_chunks f)"
proof (induction "is" arbitrary: f)
  case (Cons i "is")
  show ?case using Cons [of "rm i f"] rm_removed [of i f] by auto
qed auto

end

interpretation keep: chunk_remover remove_chunk
proof unfold_locales
  fix i f
  show "map_of (of_new_chunks (remove_chunk i f)) = (map_of (of_new_chunks f))(i := None) \<and>
      distinct (map fst (of_new_chunks (remove_chunk i f)))" if "distinct (map fst (of_new_chunks f))"
  proof (cases "position i (of_new_chunks f)")
    case None
    then have "map_of (of_new_chunks f) i = None" by (simp add: position_None map_of_eq_None_iff)
    with that None show ?thesis by (auto simp: remove_chunk_def)
  next
    case (Some n)
    then have n: "n < length (of_new_chunks f)" "fst (of_new_chunks f ! n) = i"
      using position_Some by blast+
    show ?thesis
      using map_of_mset_remove [OF that n(1) mset_vec_remove [OF n(1)]] n(2) Some
      by (simp add: remove_chunk_def)
  qed
qed (auto simp: remove_chunk_def split: option.split)

interpretation swap: chunk_remover remove_chunk_swap
proof unfold_locales
  fix i f
  show "map_of (of_new_chunks (remove_chunk_swap i f)) = (map_of (of_new_chunks f))(i := None) \<and>
      distinct (map fst (of_new_chunks (remove_chunk_swap i f)))" if "distinct (map fst (of_new_chunks f))"
  proof (cases "position i (of_new_chunks f)")
    case None
    then have "map_of (of_new_chunks f) i = None" by (simp add: position_None map_of_eq_None_iff)
    with that None show ?thesis by (auto simp: remove_chunk_swap_def)
  next
    case (Some n)
    then have n: "n < length (of_new_chunks f)" "fst (of_new_chunks f ! n) = i"
      using position_Some by blast+
    show ?thesis
      using map_of_mset_remove [OF that n(1) mset_swap_remove [OF n(1)]] n(2) Some
      by (simp add: remove_chunk_swap_def)
  qed
qed (auto simp: remove_chunk_swap_def split: option.split)

subsection \<open>Write\<close>

definition written_data :: "nat \<Rightarrow> nat \<Rightarrow> byte list \<Rightarrow> nat \<Rightarrow> byte list" where
  "written_data bs off data b =
     drop (sub_start bs off b - off) (take (sub_stop bs (length data) off b - off) data)"

lemma sub_range:
  "touched bs sz off b \<Longrightarrow> 0 < sz \<Longrightarrow> 0 < bs \<Longrightarrow>
     off \<le> sub_start bs off b \<and> sub_start bs off b < sub_stop bs sz off b \<and> sub_stop bs sz off b \<le> off + sz"
  using touched_sub [of bs sz off b] by (simp add: sub_start_def sub_stop_def)

lemma written_data_nth:
  assumes "touched bs (length data) off b" "0 < length data" "0 < bs"
  shows "length (written_data bs off data b) = sub_stop bs (length data) off b - sub_start bs off b"
    and "sub_start bs off b \<le> p \<Longrightarrow> p < sub_stop bs (length data) off b \<Longrightarrow>
      written_data bs off data b ! (p - sub_start bs off b) = data ! (p - off)"
  using sub_range [OF assms] by (auto simp: written_data_def)

lemma write_operation_data_eq:
  assumes "touched bs (length data) off b" "0 < length data" "0 < bs" "length data < 2 ^ 63"
  shows "write_operation_data data (write_op new_ids bs (length data) off b) =
    Some (written_data bs off data b)"
proof -
  let ?s = "sub_start bs off b" and ?t = "sub_stop bs (length data) off b"
  have r: "off \<le> ?s" "?s < ?t" "?t \<le> off + length data" using sub_range [OF assms(1-3)] by auto
  then have lt: "?s - off < 2 ^ 63" using assms(4) by linarith
  then have "as_i64 (?s - off) = int (?s - off)" by (simp add: as_i64_def)
  moreover have "int (?s - off) + int (?t - ?s) = int (?t - off)" using r by simp
  moreover have "int (?t - off) \<le> int (length data)" using r by simp
  moreover have "int (length data) < 2 ^ 63" using assms(4) by (metis of_nat_less_iff of_nat_numeral of_nat_power)
  ultimately show ?thesis
    using r by (simp add: write_operation_data_def write_op_def new_view_def written_data_def Let_def
        nat_minus_as_int)
qed

lemma push_write_operations_eq:
  assumes "\<And>b. b \<in> set bl \<Longrightarrow> touched bs (length data) off b" "0 < length data" "0 < bs"
    "length data < 2 ^ 63"
  shows "push_write_operations data (map (write_op new_ids bs (length data) off) bl) f =
    Some (f\<lparr>of_new_chunks := of_new_chunks f @ map (\<lambda>b. (new_ids b, written_data bs off data b)) bl\<rparr>)"
  using assms(1)
proof (induction bl arbitrary: f)
  case (Cons b bl)
  have "write_operation_data data (write_op new_ids bs (length data) off b) = Some (written_data bs off data b)"
    using write_operation_data_eq [OF _ assms(2-4)] Cons.prems by simp
  moreover have "cv_id (wo_chunk_view (write_op new_ids bs (length data) off b)) = new_ids b"
    by (simp add: write_op_def new_view_def)
  ultimately show ?case using Cons by simp
qed simp

lemma map_of_new_ids:
  "inj new_ids \<Longrightarrow> map_of (map (\<lambda>b. (new_ids b, g b)) bl) i =
     (if i \<in> new_ids ` set bl then Some (g (inv new_ids i)) else None)"
  by (induction bl) (auto simp: inj_eq)

lemma map_of_pushed:
  assumes "inj new_ids" "new_ids ` set bl \<inter> fst ` set xs = {}"
  shows "map_of (xs @ map (\<lambda>b. (new_ids b, g b)) bl) i =
    (if i \<in> new_ids ` set bl then Some (g (inv new_ids i)) else map_of xs i)"
proof (cases "i \<in> new_ids ` set bl")
  case True
  then have "map_of xs i = None" using assms(2) by (auto simp: map_of_eq_None_iff)
  with True show ?thesis by (simp add: map_of_append map_add_def map_of_new_ids [OF assms(1)])
next
  case False
  then show ?thesis
    by (simp add: map_of_append map_add_def map_of_new_ids [OF assms(1)] split: option.split)
qed

lemma distinct_pushed:
  assumes "inj new_ids" "new_ids ` set bl \<inter> fst ` set xs = {}" "distinct (map fst xs)" "distinct bl"
  shows "distinct (map fst (xs @ map (\<lambda>b. (new_ids b, g b)) bl))"
proof -
  have eq: "map fst (xs @ map (\<lambda>b. (new_ids b, g b)) bl) = map fst xs @ map new_ids bl" by simp
  have "distinct (map new_ids bl)"
    using assms(1,4) by (simp add: distinct_map inj_on_subset [OF assms(1)])
  then show ?thesis unfolding eq using assms(2,3) by (simp add: inf_commute)
qed

text \<open>A drawn id is new: in no view, no chunk in memory, no chunk to be removed.\<close>

definition fresh_ids :: "(nat \<Rightarrow> chunk_id) \<Rightarrow> opened_file \<Rightarrow> bool" where
  "fresh_ids new_ids f \<longleftrightarrow> inj new_ids \<and> range new_ids \<inter>
     (lf_ids (of_manifest f) \<union> fst ` set (of_new_chunks f) \<union> set (of_removed_chunks f)) = {}"

lemma written_views_ok:
  assumes m: "lf_in_range m" "lf_accepted m" "views_ok dat m" and sz: "0 < length data"
    and lim: "off + length data < u64_bound"
    and c: "c \<in> set (written_slot new_ids m (length data) off j)"
    and old: "\<And>d. d \<in> set (slot (lf_blocks m) j) \<Longrightarrow> cv_id d \<in> cs_ids (written_slot new_ids m (length data) off j) \<Longrightarrow>
      dat' (cv_id d) = dat (cv_id d)"
    and new: "\<And>b. touched (lf_blocksize m) (length data) off b \<Longrightarrow>
      dat' (new_ids b) = written_data (lf_blocksize m) off data b"
  shows "view_ok dat' c"
proof -
  let ?bs = "lf_blocksize m" and ?sz = "length data"
  have id_in: "cv_id c \<in> cs_ids (written_slot new_ids m ?sz off j)" using c by (simp add: cs_ids_def)
  have keep: "view_ok dat' c" if "\<exists>d \<in> set (slot (lf_blocks m) j). derived c d"
  proof -
    from that obtain d where d: "d \<in> set (slot (lf_blocks m) j)" "derived c d" by blast
    then have "view_ok dat c" using m(3) view_ok_derived unfolding views_ok_def by metis
    moreover have "dat' (cv_id c) = dat (cv_id c)"
      using old [OF d(1)] d(2) id_in by (simp add: derived_def)
    ultimately show ?thesis by (rule view_ok_cong)
  qed
  show ?thesis
  proof (cases "touched ?bs ?sz off j")
    case False
    then show ?thesis using c by (intro keep) (auto simp: written_slot_def derived_def)
  next
    case True
    then consider "c \<in> set (clip_before (sub_start ?bs off j) (slot (lf_blocks m) j))"
      | "c = new_view new_ids ?bs ?sz off j" | "c \<in> set (clip_after (sub_stop ?bs ?sz off j) (slot (lf_blocks m) j))"
      using c by (auto simp: written_slot_def write_slot_def)
    then show ?thesis
    proof cases
      case 2
      then show ?thesis
        using new [OF True] written_data_nth(1) [OF True sz lf_acceptedD(1) [OF m(1,2)]] lim
        by (simp add: view_ok_def new_view_def access_id_ok_def sub_stop_def)
    qed (use keep clip_derived in blast)+
  qed
qed

lemma of_write_spec:
  assumes ok: "of_ok D f" and iter: "iter_ok iter" and ids: "fresh_ids new_ids f"
    and data: "data \<noteq> []" "length data < 2 ^ 63"
    and lim: "off + length data + lf_blocksize (of_manifest f) < u64_bound"
  obtains f' where "of_write iter new_ids now off data f = Some f'" "of_ok D f'"
    "lf_size (of_manifest f') = max (lf_size (of_manifest f)) (off + length data)"
    "\<And>p. file_byte D f' p = (if off \<le> p \<and> p < off + length data then data ! (p - off) else file_byte D f p)"
    "of_updater f' = of_updater f" "of_cursors f' = of_cursors f" "of_flush_needed f'"
    "of_modified_since_opened f'"
proof -
  let ?m = "of_manifest f" and ?sz = "length data"
  let ?bs = "lf_blocksize ?m"
  have m: "lf_in_range ?m" "lf_accepted ?m" and loc: "ids_local ?m" and dist: "distinct (map fst (of_new_chunks f))"
    and views: "views_ok (data_of D f) ?m" and rem: "set (of_removed_chunks f) \<inter> lf_ids ?m = {}"
    using ok by (auto simp: of_ok_def)
  have inj: "inj new_ids" and fresh: "range new_ids \<inter> lf_ids ?m = {}"
    "range new_ids \<inter> fst ` set (of_new_chunks f) = {}" "range new_ids \<inter> set (of_removed_chunks f) = {}"
    using ids by (auto simp: fresh_ids_def)
  have sz: "0 < ?sz" using data by simp
  note bs = lf_acceptedD(1) [OF m]
  obtain m' ops removed where pw: "prepare_write new_ids ?m ?sz off now = Some (m', ops, removed)"
    and m': "lf_in_range m'" "lf_accepted m'" "lf_blocksize m' = ?bs" "lf_size m' = max (lf_size ?m) (off + ?sz)"
    using prepare_write_accepted [OF m lim, of new_ids now] sz by auto
  have ids': "removed = lf_ids ?m - lf_ids m'" "lf_ids m' - lf_ids ?m = cv_id ` wo_chunk_view ` set ops"
    "ids_local m'"
    using prepare_write_ids [OF m lim loc fresh(1) inj pw] by auto
  define bl where "bl = [off div ?bs ..< div_ceil (off + ?sz) ?bs]"
  have bl: "b \<in> set bl \<longleftrightarrow> touched ?bs ?sz off b" for b by (auto simp: bl_def touched_iff [OF bs])
  obtain blocks where "prepare_write new_ids ?m ?sz off now =
       Some (?m\<lparr>lf_blocks := blocks, lf_need_sync := True, lf_updated := now,
               lf_size := max (lf_size ?m) (off + ?sz)\<rparr>, map (write_op new_ids ?bs ?sz off) bl,
             \<Union> (freed_ids ?m ?sz off ` {b. touched ?bs ?sz off b}))"
    and blocks: "\<And>b. slot blocks b = written_slot new_ids ?m ?sz off b"
    using prepare_write_shape [OF m sz lim, of new_ids now] unfolding bl_def by metis
  with pw have slots: "\<And>b. slot (lf_blocks m') b = written_slot new_ids ?m ?sz off b"
    and ops: "ops = map (write_op new_ids ?bs ?sz off) bl" by auto
  define f1 where "f1 = fold remove_chunk_swap (iter removed) (f\<lparr>of_manifest := m'\<rparr>)"
  have "finite removed" using ids'(1) finite_lf_ids by simp
  then have it: "set (iter removed) = removed" using iter by (simp add: iter_ok_def)
  have f1: "map_of (of_new_chunks f1) = (\<lambda>i. if i \<in> removed then None else map_of (of_new_chunks f) i)"
    "distinct (map fst (of_new_chunks f1))" "of_manifest f1 = m'" "of_updater f1 = of_updater f"
    "of_cursors f1 = of_cursors f" "set (of_removed_chunks f1) \<subseteq> removed \<union> set (of_removed_chunks f)"
    using swap.fold_new [of "f\<lparr>of_manifest := m'\<rparr>" "iter removed"] dist swap.fold_fields(1-3)
      swap.fold_removed [of "iter removed" "f\<lparr>of_manifest := m'\<rparr>"] it
    by (simp_all add: f1_def cong: if_cong)
  have keys1: "fst ` set (of_new_chunks f1) \<subseteq> fst ` set (of_new_chunks f)"
    using f1(1) by (metis (no_types, lifting) map_of_eq_None_iff subsetI)
  let ?push = "map (\<lambda>b. (new_ids b, written_data ?bs off data b)) bl"
  let ?f' = "f1\<lparr>of_new_chunks := of_new_chunks f1 @ ?push,
    of_bytes_written_since_last_flush := u64_add (of_bytes_written_since_last_flush f1) ?sz,
    of_flush_needed := True, of_modified_since_opened := True\<rparr>"
  have "push_write_operations data ops f1 = Some (f1\<lparr>of_new_chunks := of_new_chunks f1 @ ?push\<rparr>)"
    unfolding ops by (rule push_write_operations_eq [OF _ sz bs data(2)]) (simp add: bl)
  then have run: "of_write iter new_ids now off data f = Some ?f'"
    by (simp add: of_write_def pw f1_def Let_def)
  have disj: "new_ids ` set bl \<inter> fst ` set (of_new_chunks f1) = {}" using fresh(2) keys1 by blast
  have lookup: "data_of D ?f' i = (if i \<in> new_ids ` set bl then written_data ?bs off data (inv new_ids i)
      else data_of D f1 i)" for i
    using map_of_pushed [OF inj disj, of "written_data ?bs off data" i]
    by (simp add: data_of_def del: map_of_append)
  have newd: "data_of D ?f' (new_ids b) = written_data ?bs off data b" if "touched ?bs ?sz off b" for b
    using lookup that bl by (simp add: inj)
  have oldd: "data_of D ?f' i = data_of D f i" if "i \<in> lf_ids ?m" "i \<in> lf_ids m'" for i
  proof -
    have "i \<notin> new_ids ` set bl" "i \<notin> removed" using that fresh(1) ids'(1) by auto
    then show ?thesis using lookup f1(1) by (simp add: data_of_def)
  qed
  have vok: "views_ok (data_of D ?f') m'"
    unfolding views_ok_def
  proof (intro allI ballI)
    fix j c assume c: "c \<in> set (slot (lf_blocks m') j)"
    show "view_ok (data_of D ?f') c"
    proof (rule written_views_ok [OF m views sz])
      show "off + ?sz < u64_bound" using lim by simp
      show "c \<in> set (written_slot new_ids ?m ?sz off j)" using c slots by simp
      fix d assume "d \<in> set (slot (lf_blocks ?m) j)" "cv_id d \<in> cs_ids (written_slot new_ids ?m ?sz off j)"
      then have "cv_id d \<in> lf_ids ?m" "cv_id d \<in> lf_ids m'"
        using slot_id_in slots unfolding lf_ids_def cs_ids_concat_slot by fastforce+
      then show "data_of D ?f' (cv_id d) = data_of D f (cv_id d)" by (rule oldd)
    qed (rule newd)
  qed
  have "set (of_removed_chunks f1) \<inter> lf_ids m' = {}"
  proof -
    have "cv_id ` wo_chunk_view ` set ops \<subseteq> range new_ids"
      by (auto simp: ops write_op_def new_view_def)
    then have "lf_ids m' \<subseteq> lf_ids ?m \<union> range new_ids" using ids'(2) by blast
    then show ?thesis using f1(6) ids'(1) rem fresh(3) by blast
  qed
  then have ok': "of_ok D ?f'"
    using m' ids'(3) f1 vok distinct_pushed [OF inj disj f1(2), of "written_data ?bs off data"]
    by (simp add: of_ok_def bl_def)
  have "file_byte D ?f' p = (if off \<le> p \<and> p < off + ?sz then data ! (p - off) else file_byte D f p)" for p
  proof (cases "off \<le> p \<and> p < off + ?sz")
    case True
    then have t: "touched ?bs ?sz off (p div ?bs)" "sub_start ?bs off (p div ?bs) \<le> p"
      "p < sub_stop ?bs ?sz off (p div ?bs)"
      using touched_of_range [OF bs, of off p ?sz] by auto
    have "byte_source m' p = Some (new_ids (p div ?bs), p - sub_start ?bs off (p div ?bs))"
      using prepare_write_source [OF m lim pw, of p] True by (simp add: sub_start_def)
    then show ?thesis
      using True newd [OF t(1)] written_data_nth(2) [OF t(1) sz bs t(2,3)] f1(3)
      by (simp add: file_byte_def source_byte_def)
  next
    case False
    then have src: "byte_source m' p = byte_source ?m p"
      using prepare_write_source [OF m lim pw, of p] by auto
    have "source_byte (data_of D ?f') (byte_source m' p) = source_byte (data_of D f) (byte_source ?m p)"
    proof (cases "byte_source m' p")
      case (Some ik)
      then obtain i k where ik: "byte_source m' p = Some (i, k)" by (cases ik) auto
      then have "i \<in> lf_ids m'" "i \<in> lf_ids ?m" using byte_source_id src by metis+
      then show ?thesis using oldd ik src by (simp add: source_byte_def)
    qed (simp add: source_byte_def flip: src)
    then show ?thesis using f1(3) False by (auto simp: file_byte_def)
  qed
  then show thesis using that [OF run ok'] f1 m' by simp
qed

subsection \<open>Resize\<close>

lemma of_resize_spec:
  assumes ok: "of_ok D f" and iter: "iter_ok iter"
    and lim: "n + lf_blocksize (of_manifest f) < u64_bound"
  obtains f' where "of_resize iter now n f = Some f'" "of_ok D f'" "lf_size (of_manifest f') = n"
    "\<And>p. file_byte D f' p = (if p < n then file_byte D f p else 0)"
    "of_updater f' = of_updater f" "of_cursors f' = of_cursors f" "of_flush_needed f'"
    "of_modified_since_opened f'"
proof -
  let ?m = "of_manifest f"
  have m: "lf_in_range ?m" "lf_accepted ?m" and loc: "ids_local ?m" and dist: "distinct (map fst (of_new_chunks f))"
    and views: "views_ok (data_of D f) ?m" and rem: "set (of_removed_chunks f) \<inter> lf_ids ?m = {}"
    using ok by (auto simp: of_ok_def)
  obtain m' removed where pr: "prepare_resize ?m n now = Some (m', removed)"
    and m': "lf_in_range m'" "lf_accepted m'" "lf_size m' = n"
    and src: "\<And>p. byte_source m' p = (if p < n then byte_source ?m p else None)"
    using prepare_resize_accepted [OF m lim, of now] by auto
  have ids: "removed = lf_ids ?m - lf_ids m'" "lf_ids m' \<subseteq> lf_ids ?m" "ids_local m'"
    using prepare_resize_ids [OF m loc pr] by auto
  obtain m'' r where "prepare_resize ?m n now = Some (m'', r)"
    "\<And>j. slot (lf_blocks m'') j = clip_before n (slot (lf_blocks ?m) j)"
    using prepare_resize_shape [OF m, of n now] by metis
  with pr have slots: "\<And>j. slot (lf_blocks m') j = clip_before n (slot (lf_blocks ?m) j)" by simp
  define f1 where "f1 = fold remove_chunk (iter removed) (f\<lparr>of_manifest := m'\<rparr>)"
  let ?f' = "f1\<lparr>of_flush_needed := True, of_modified_since_opened := True\<rparr>"
  have "finite removed" using ids(1) finite_lf_ids by simp
  then have it: "set (iter removed) = removed" using iter by (simp add: iter_ok_def)
  have f1: "map_of (of_new_chunks f1) = (\<lambda>i. if i \<in> removed then None else map_of (of_new_chunks f) i)"
    "distinct (map fst (of_new_chunks f1))" "of_manifest f1 = m'" "of_updater f1 = of_updater f"
    "of_cursors f1 = of_cursors f" "set (of_removed_chunks f1) \<subseteq> removed \<union> set (of_removed_chunks f)"
    using keep.fold_new [of "f\<lparr>of_manifest := m'\<rparr>" "iter removed"] dist keep.fold_fields(1-3)
      keep.fold_removed [of "iter removed" "f\<lparr>of_manifest := m'\<rparr>"] it
    by (simp_all add: f1_def cong: if_cong)
  have run: "of_resize iter now n f = Some ?f'" by (simp add: of_resize_def pr f1_def Let_def)
  have same: "data_of D ?f' i = data_of D f i" if "i \<in> lf_ids m'" for i
    using that ids(1) f1(1) by (simp add: data_of_def)
  have "view_ok (data_of D ?f') c" if c: "c \<in> set (slot (lf_blocks m') j)" for j c
  proof -
    obtain d where "d \<in> set (slot (lf_blocks ?m) j)" "derived c d" using c slots clip_derived(1) by metis
    then have "view_ok (data_of D f) c" using views view_ok_derived unfolding views_ok_def by metis
    then show ?thesis using same [OF slot_id_in [OF c]] by (rule view_ok_cong)
  qed
  then have ok': "of_ok D ?f'" using m' ids f1 rem by (auto simp: of_ok_def views_ok_def)
  have "file_byte D ?f' p = (if p < n then file_byte D f p else 0)" for p
  proof (cases "byte_source m' p")
    case None
    then show ?thesis using src [of p] f1(3) by (auto simp: file_byte_def source_byte_def split: if_splits)
  next
    case (Some ik)
    then show ?thesis using src [of p] f1(3) same [OF byte_source_id [of m' p "fst ik" "snd ik"]]
      by (auto simp: file_byte_def source_byte_def case_prod_beta split: if_splits)
  qed
  then show thesis using that [OF run ok'] f1 m' by simp
qed

subsection \<open>Copying views\<close>

definition views_byte :: "(chunk_id \<Rightarrow> byte list) \<Rightarrow> chunk_view list \<Rightarrow> nat \<Rightarrow> byte" where
  "views_byte dat cs p = source_byte dat (chunk_source cs p)"

fun copy_views ::
  "(chunk_id \<Rightarrow> byte list) \<Rightarrow> u64 \<Rightarrow> chunk_view list \<Rightarrow> byte list \<times> nat \<Rightarrow> (byte list \<times> nat) option" where
  "copy_views dat off [] st = Some st"
| "copy_views dat off (c # cs) st =
     Option.bind (cv_copy_between_start_and_stop c (dat (cv_id c)) off st) (copy_views dat off cs)"

lemma slice_as_map:
  "a \<le> b \<Longrightarrow> b \<le> length xs \<Longrightarrow> drop a (take b xs) = map (\<lambda>p. xs ! (p - r)) [a + r ..< b + r]"
  by (rule nth_equalityI) (auto simp: add.commute)

lemma upt_split: "a \<le> b \<Longrightarrow> b \<le> c \<Longrightarrow> [a..<b] @ [b..<c] = [a..<c]" for a b c :: nat
  by (metis le_Suc_ex upt_add_eq_append)

lemma replicate_as_map: "(\<And>p. a \<le> p \<Longrightarrow> p < b \<Longrightarrow> g p = x) \<Longrightarrow> replicate (b - a) x = map g [a ..< b]"
  by (rule nth_equalityI) auto

lemma copy_one:
  assumes "cv_raw_offset c \<le> cv_start c" "cv_start c \<le> cv_stop c" "cv_stop c < u64_bound"
    "cv_stop c - cv_raw_offset c \<le> length d" "off + n \<le> cv_start c"
  shows "cv_copy_between_start_and_stop c d off (buf, n) =
    Some (buf @ replicate (cv_start c - (off + n)) 0 @ map (\<lambda>p. d ! (p - cv_raw_offset c)) [cv_start c ..< cv_stop c],
          cv_stop c - off)"
proof -
  have u: "u64_sub (cv_start c) (cv_raw_offset c) = cv_start c - cv_raw_offset c"
    "u64_sub (cv_stop c) (cv_raw_offset c) = cv_stop c - cv_raw_offset c"
    "u64_sub (cv_start c) off = cv_start c - off"
    using assms by (auto intro!: u64_sub_in_range)
  have "drop (cv_start c - cv_raw_offset c) (take (cv_stop c - cv_raw_offset c) d) =
      map (\<lambda>p. d ! (p - cv_raw_offset c)) [cv_start c ..< cv_stop c]"
    using slice_as_map [of "cv_start c - cv_raw_offset c" "cv_stop c - cv_raw_offset c" d "cv_raw_offset c"] assms
    by simp
  moreover have "cv_start c - off - n = cv_start c - (off + n)" by simp
  ultimately show ?thesis
    using assms by (cases "cv_start c - off > n") (auto simp: cv_copy_between_start_and_stop_def u Let_def)
qed

lemma views_byte_below: "chunks_ok lo hi cs \<Longrightarrow> p < lo \<Longrightarrow> views_byte dat cs p = 0"
  by (simp add: views_byte_def source_byte_def chunk_source_outside)

lemma copy_views_spec:
  assumes "chunks_ok (off + n) hi cs" "hi < u64_bound" "\<And>c. c \<in> set cs \<Longrightarrow> view_ok dat c"
  shows "copy_views dat off cs (buf, n) =
    (let stop = (if cs = [] then off + n else cv_stop (last cs))
     in Some (buf @ map (views_byte dat cs) [off + n ..< stop], stop - off))"
  using assms
proof (induction cs arbitrary: buf n)
  case (Cons c cs)
  let ?g = "views_byte dat (c # cs)" and ?stop = "if cs = [] then cv_stop c else cv_stop (last cs)"
  have c: "cv_raw_offset c \<le> cv_start c" "cv_start c < cv_stop c" "off + n \<le> cv_start c" "cv_stop c \<le> hi"
    and rest: "chunks_ok (cv_stop c) hi cs"
    using Cons.prems(1) by (auto simp: cv_ok_iff)
  have le: "cv_stop c \<le> ?stop"
    using chunks_ok_in [OF rest last_in_set] by (auto simp: cv_ok_iff)
  have "cv_stop c - cv_raw_offset c \<le> length (dat (cv_id c))" using Cons.prems(3) [of c] by (simp add: view_ok_def)
  then have one: "cv_copy_between_start_and_stop c (dat (cv_id c)) off (buf, n) =
      Some (buf @ replicate (cv_start c - (off + n)) 0 @
        map (\<lambda>p. dat (cv_id c) ! (p - cv_raw_offset c)) [cv_start c ..< cv_stop c], cv_stop c - off)"
    using c Cons.prems(2) by (intro copy_one) auto
  have "chunks_ok (cv_start c) hi (c # cs)" using Cons.prems(1) by simp
  then have pad: "replicate (cv_start c - (off + n)) 0 = map ?g [off + n ..< cv_start c]"
    by (intro replicate_as_map) (rule views_byte_below)
  have mid: "map (\<lambda>p. dat (cv_id c) ! (p - cv_raw_offset c)) [cv_start c ..< cv_stop c] =
      map ?g [cv_start c ..< cv_stop c]"
    by (auto simp: views_byte_def source_byte_def chunk_source_Cons cv_covers_def)
  have tail: "map (views_byte dat cs) [cv_stop c ..< ?stop] = map ?g [cv_stop c ..< ?stop]"
    by (auto simp: views_byte_def chunk_source_Cons cv_covers_def)
  have IH: "copy_views dat off cs (b, cv_stop c - off) =
      Some (b @ map (views_byte dat cs) [cv_stop c ..< ?stop], ?stop - off)" for b
    using Cons.IH [of "cv_stop c - off" b] rest Cons.prems(2,3) c by (auto simp: Let_def)
  have "map ?g [off + n ..< cv_start c] @ map ?g [cv_start c ..< cv_stop c] @ map ?g [cv_stop c ..< ?stop] =
      map ?g [off + n ..< ?stop]"
    using c le upt_split [of "cv_start c" "cv_stop c" ?stop] upt_split [of "off + n" "cv_start c" ?stop]
    by (simp flip: map_append)
  then show ?case by (simp add: one IH pad mid tail Let_def)
qed simp

subsection \<open>Read\<close>

lemma read_views_spec:
  assumes "chunk_store_ok dk D s" "key_ok dk" "fetch_ok fetch D" "\<And>c. c \<in> set cs \<Longrightarrow> access_id_ok c"
    "copy_views (data_of D f) off cs st = Some st'"
  shows "\<exists>s' r. read_views dk fetch now f off cs st s = Some (s', r) \<and> chunk_store_ok dk D s' \<and>
    (\<forall>x. r = Inr x \<longrightarrow> x = st') \<and>
    ((\<forall>c \<in> set cs. cv_id c \<in> fst ` set (of_new_chunks f) \<or> available s (cv_id c)) \<longrightarrow> r = Inr st')"
  using assms
proof (induction cs arbitrary: st s)
  case (Cons c cs)
  obtain st1 where st1: "cv_copy_between_start_and_stop c (data_of D f (cv_id c)) off st = Some st1"
    "copy_views (data_of D f) off cs st1 = Some st'"
    using Cons.prems(5) by (auto simp: bind_eq_Some_conv)
  note IH = Cons.IH [OF _ Cons.prems(2,3) _ st1(2)]
  show ?case
  proof (cases "map_of (of_new_chunks f) (cv_id c)")
    case (Some d)
    then have "data_of D f (cv_id c) = d" by (simp add: data_of_def)
    then show ?thesis using Some st1(1) IH [OF Cons.prems(1)] Cons.prems(4) by auto
  next
    case None
    have dat: "data_of D f (cv_id c) = D (cv_id c)" using None by (simp add: data_of_def)
    have nk: "cv_id c \<notin> fst ` set (of_new_chunks f)" using None by (simp add: map_of_eq_None_iff)
    show ?thesis
    proof (cases "available s (cv_id c)")
      case True
      then obtain s1 where s1: "get_chunk_or_block dk fetch now c (lf_base (of_manifest f)) s = Some (s1, Inr (D (cv_id c)))"
        "chunk_store_ok dk D s1" "\<And>i. available s i \<Longrightarrow> available s1 i"
        using get_chunk_or_block_available [OF Cons.prems(1)] by metis
      show ?thesis using None s1 st1(1) dat IH [OF s1(2)] Cons.prems(4) by fastforce
    next
      case False
      obtain s1 r1 where s1: "get_chunk_or_block dk fetch now c (lf_base (of_manifest f)) s = Some (s1, r1)"
        "chunk_store_ok dk D s1" "\<And>d. r1 = Inr d \<Longrightarrow> d = D (cv_id c)"
        using get_chunk_or_block_ok [OF Cons.prems(1-3), of c] Cons.prems(4) by (metis list.set_intros(1))
      show ?thesis
      proof (cases r1)
        case (Inl e)
        then show ?thesis using None s1 False nk by simp
      next
        case (Inr d)
        then show ?thesis using None s1 st1(1) dat IH [OF s1(2)] Cons.prems(4) False nk by fastforce
      qed
    qed
  qed
qed simp

lemma read_slots_derived:
  "c \<in> set (read_slots m n off) \<Longrightarrow> \<exists>j. \<exists>d \<in> set (slot (lf_blocks m) j). derived c d"
  by (auto simp: read_slots_def dest!: clip_derived(3))

lemma read_slots_empty:
  assumes m: "lf_in_range m" "lf_accepted m" and c: "c \<in> set (read_slots m 0 (min off (lf_size m)))"
  shows "cv_start c = off \<and> cv_stop c = off \<and> cv_raw_offset c \<le> off \<and> off < lf_size m"
proof -
  let ?o = "min off (lf_size m)" and ?bs = "lf_blocksize m"
  note acc = lf_acceptedD [OF m]
  from c obtain b where b: "touched ?bs 0 ?o b"
    and cb: "c \<in> set (clip_range (sub_start ?bs ?o b) (sub_stop ?bs 0 ?o b) (slot (lf_blocks m) b))"
    using touched_iff [OF acc(1), of 0 ?o] by (auto simp: read_slots_def)
  have st: "sub_start ?bs ?o b = ?o" "sub_stop ?bs 0 ?o b = ?o"
    using b by (auto simp: touched_def sub_start_def sub_stop_def)
  obtain d where d: "d \<in> set (slot (lf_blocks m) b)" "cv_start d < ?o" "?o < cv_stop d"
    and cd: "c = d\<lparr>cv_start := max (cv_start d) ?o, cv_stop := min (cv_stop d) ?o\<rparr>"
    using cb unfolding st by (auto simp: clip_range_def)
  have "cv_stop d \<le> lf_size m" by (rule acc(5) [OF d(1)])
  then have "?o = off" using d(3) by simp
  moreover have "cv_raw_offset d \<le> cv_start d"
    using chunks_ok_in [OF acc(3) d(1)] by (auto simp: cv_ok_iff)
  ultimately show ?thesis using d cd \<open>cv_stop d \<le> lf_size m\<close> by simp
qed

lemma copy_views_empty:
  assumes "\<And>c. c \<in> set cs \<Longrightarrow> cv_start c = off \<and> cv_stop c = off \<and> cv_raw_offset c \<le> off \<and> view_ok dat c"
    "off < u64_bound"
  shows "copy_views dat off cs ([], 0) = Some ([], 0)"
  using assms(1)
proof (induction cs)
  case (Cons c cs)
  have c: "cv_start c = off" "cv_stop c = off" "cv_raw_offset c \<le> off"
    "off - cv_raw_offset c \<le> length (dat (cv_id c))"
    using Cons.prems [of c] by (auto simp: view_ok_def)
  have "cv_copy_between_start_and_stop c (dat (cv_id c)) off ([], 0) = Some ([], 0)"
    using copy_one [of c "dat (cv_id c)" off 0 "[]"] c assms(2) by simp
  with Cons show ?case by simp
qed simp

lemma map_split_at: "a \<le> b \<Longrightarrow> b \<le> c \<Longrightarrow> map g [a ..< b] @ map g [b ..< c] = map g [a ..< c]" for a b c :: nat
  using upt_split [of a b c] by (metis map_append)

lemma of_read_spec:
  assumes ok: "of_ok D f" and s: "chunk_store_ok dk D s" "key_ok dk" "fetch_ok fetch D"
    and n: "n = min sz (lf_size (of_manifest f) - off)"
  shows "\<exists>s' r. of_read dk fetch now off sz f s = Some (s', r) \<and> chunk_store_ok dk D s' \<and>
    (\<forall>x. r = Inr x \<longrightarrow> x = (n, map (file_byte D f) [off ..< off + n])) \<and>
    ((\<forall>i \<in> lf_ids (of_manifest f). i \<in> fst ` set (of_new_chunks f) \<or> available s i) \<longrightarrow>
       r = Inr (n, map (file_byte D f) [off ..< off + n]))"
proof -
  let ?m = "of_manifest f" and ?dat = "data_of D f"
  have m: "lf_in_range ?m" "lf_accepted ?m" and views: "views_ok ?dat ?m" using ok by (auto simp: of_ok_def)
  define o' where "o' = min off (lf_size ?m)"
  have n': "n = min sz (lf_size ?m - o')" using n by (auto simp: o'_def)
  let ?cs = "read_slots ?m n o'"
  note pr = prepare_read_source [OF m o'_def n']
  have vok: "view_ok ?dat c" if c: "c \<in> set ?cs" for c
    using read_slots_derived [OF c] views view_ok_derived unfolding views_ok_def by metis
  have ids: "cv_id c \<in> lf_ids ?m" if c: "c \<in> set ?cs" for c
    using read_slots_derived [OF c] slot_id_in by (metis derived_def)
  define g where "g = file_byte D f"
  have vb: "views_byte ?dat ?cs p = g p" if "o' \<le> p" "p < o' + n" for p
    using pr that by (simp add: views_byte_def g_def file_byte_def)
  obtain buf k where cp: "copy_views ?dat off ?cs ([], 0) = Some (buf, k)"
    and fin: "(if k < n then buf @ replicate (n - k) 0 else buf) = map g [off ..< off + n]"
  proof (cases "n = 0")
    case True
    have lim: "lf_size ?m < u64_bound" using m(1) by (simp add: lf_in_range_def)
    have "copy_views ?dat off ?cs ([], 0) = Some ([], 0)"
    proof (cases "?cs = []")
      case False
      then have "off < u64_bound"
        using read_slots_empty [OF m, of "hd ?cs" off, folded o'_def] True lim by simp
      then show ?thesis
        using read_slots_empty [OF m, of _ off, folded o'_def] True vok by (intro copy_views_empty) auto
    qed simp
    then show thesis using that [of "[]" 0] True by simp
  next
    case False
    then have off: "o' = off" using n by (auto simp: o'_def)
    have ck: "chunks_ok (off + 0) (off + n) ?cs" using pr False off by simp
    have lim: "off + n < u64_bound" using m(1) n' off False by (auto simp: lf_in_range_def)
    define stop where "stop = (if ?cs = [] then off else cv_stop (last ?cs))"
    have "copy_views ?dat off ?cs ([], 0) = Some (map (views_byte ?dat ?cs) [off ..< stop], stop - off)"
      using copy_views_spec [OF ck lim vok, of "[]"] by (simp add: stop_def Let_def)
    moreover have st: "off \<le> stop" "stop \<le> off + n"
      using chunks_ok_in [OF ck last_in_set] by (auto simp: stop_def cv_ok_iff)
    moreover have "map (views_byte ?dat ?cs) [off ..< stop] = map g [off ..< stop]"
      using st vb off by auto
    moreover have "replicate (n - (stop - off)) 0 = map g [stop ..< off + n]"
    proof -
      have "g p = 0" if "stop \<le> p" "p < off + n" for p
      proof -
        have "chunk_source ?cs p = None"
          using that stop_le_last_stop [OF ck] chunk_source_Some [of ?cs p] st
          by (cases "chunk_source ?cs p") (fastforce simp: stop_def split: if_splits)+
        then show ?thesis using vb [of p] that st off by (simp add: views_byte_def source_byte_def)
      qed
      then have "replicate (off + n - stop) 0 = map g [stop ..< off + n]" by (intro replicate_as_map) auto
      moreover have "off + n - stop = n - (stop - off)" using st by simp
      ultimately show ?thesis by simp
    qed
    ultimately show thesis
      using that [of "map g [off ..< stop]" "stop - off"] map_split_at [of off stop "off + n" g]
      by (cases "stop - off < n") auto
  qed
  have acc: "access_id_ok c" if "c \<in> set ?cs" for c using vok [OF that] by (simp add: view_ok_def)
  obtain s' r where rv: "read_views dk fetch now f off ?cs ([], 0) s = Some (s', r)" "chunk_store_ok dk D s'"
    "\<forall>x. r = Inr x \<longrightarrow> x = (buf, k)"
    "(\<forall>c \<in> set ?cs. cv_id c \<in> fst ` set (of_new_chunks f) \<or> available s (cv_id c)) \<longrightarrow> r = Inr (buf, k)"
    using read_views_spec [OF s acc cp] by metis
  have run: "of_read dk fetch now off sz f s = Some (s', and_then r (\<lambda>(buf, buf_size).
       Inr (n, if buf_size < n then buf @ replicate (n - buf_size) 0 else buf)))"
    using pr rv(1) by (simp add: of_read_def)
  show ?thesis
    using run rv fin ids by (cases r) (auto simp: g_def)
qed

end
