(* ===== verification/File_Flush.thy ===== *)
theory File_Flush
  imports File_Content
begin

text \<open>
  Reshaping and flushing an opened file. A reshape replaces the views of a slot by one block made
  of their bytes; it changes neither the content nor the size of the file, and when every chunk can
  be read locally the manifest it leaves is ready to be synchronized. A flush commits the manifest
  and the chunks in memory to the storage, after which the content is the same with no chunk in
  memory.
\<close>

definition used_ids :: "opened_file \<Rightarrow> chunk_id set" where
  "used_ids f = lf_ids (of_manifest f) \<union> fst ` set (of_new_chunks f) \<union> set (of_removed_chunks f)"

definition same_file :: "(chunk_id \<Rightarrow> byte list) \<Rightarrow> opened_file \<Rightarrow> opened_file \<Rightarrow> bool" where
  "same_file D f f' \<longleftrightarrow> file_byte D f' = file_byte D f \<and>
     lf_size (of_manifest f') = lf_size (of_manifest f) \<and>
     lf_base (of_manifest f') = lf_base (of_manifest f) \<and>
     lf_parent (of_manifest f') = lf_parent (of_manifest f) \<and>
     lf_blocksize (of_manifest f') = lf_blocksize (of_manifest f) \<and>
     length (lf_blocks (of_manifest f')) = length (lf_blocks (of_manifest f)) \<and>
     of_updater f' = of_updater f \<and> of_cursors f' = of_cursors f \<and>
     of_flush_needed f' = of_flush_needed f \<and> of_modified_since_opened f' = of_modified_since_opened f"

lemma same_file_refl [simp]: "same_file D f f"
  by (simp add: same_file_def)

lemma same_file_trans: "same_file D f g \<Longrightarrow> same_file D g h \<Longrightarrow> same_file D f h"
  by (simp add: same_file_def)

lemma remove_chunk_flags:
  "of_flush_needed (fold remove_chunk is f) = of_flush_needed f"
  "of_modified_since_opened (fold remove_chunk is f) = of_modified_since_opened f"
  by (induction "is" arbitrary: f) (simp_all add: remove_chunk_def split: option.split)

subsection \<open>Reading the views of a slot\<close>

definition in_memory :: "opened_file \<Rightarrow> chunk_id \<Rightarrow> bool" where
  "in_memory f i \<longleftrightarrow> map_of (of_new_chunks f) i \<noteq> None"

definition all_readable :: "opened_file \<Rightarrow> chunk_id set \<Rightarrow> chunk_store \<Rightarrow> bool" where
  "all_readable f I s \<longleftrightarrow> (\<forall>i \<in> I. in_memory f i \<or> available s i)"

definition keeps_store :: "opened_file \<Rightarrow> chunk_id set \<Rightarrow> chunk_store \<Rightarrow> chunk_store \<Rightarrow> bool" where
  "keeps_store f I s s' \<longleftrightarrow> store_frame s s' \<and>
     (\<forall>i. store_fresh s i \<longrightarrow> in_memory f i \<or> i \<notin> I \<longrightarrow> store_fresh s' i) \<and>
     (all_readable f I s \<longrightarrow> (\<forall>i. available s i \<longrightarrow> available s' i))"

lemma in_memory_iff: "in_memory f i \<longleftrightarrow> i \<in> fst ` set (of_new_chunks f)"
  by (simp add: in_memory_def map_of_eq_None_iff)

lemma keeps_store_mem:
  "in_memory f i \<Longrightarrow> keeps_store f I s s' \<Longrightarrow> keeps_store f (insert i I) s s'"
  by (auto simp: keeps_store_def all_readable_def)

lemma keeps_store_refl: "keeps_store f I s s"
  by (simp add: keeps_store_def)

lemma keeps_store_read:
  assumes "\<not> in_memory f i" "available s i \<Longrightarrow> (\<forall>j. available s j \<longrightarrow> available s1 j)"
    "\<And>j. store_fresh s j \<Longrightarrow> j \<noteq> i \<Longrightarrow> store_fresh s1 j" "keeps_store f I s1 s'" "store_frame s s1"
  shows "keeps_store f (insert i I) s s'"
  unfolding keeps_store_def
proof (intro conjI allI impI)
  show "store_frame s s'" using assms(4,5) store_frame_trans unfolding keeps_store_def by blast
next
  fix j assume j: "store_fresh s j" "in_memory f j \<or> j \<notin> insert i I"
  then have "j \<noteq> i" using assms(1) by blast
  with assms(3,4) j show "store_fresh s' j" unfolding keeps_store_def by blast
next
  fix j assume r: "all_readable f (insert i I) s" and j: "available s j"
  then have av: "\<forall>j. available s j \<longrightarrow> available s1 j" using assms(1,2) by (simp add: all_readable_def)
  then have "all_readable f I s1" using r unfolding all_readable_def by blast
  with assms(4) av j show "available s' j" unfolding keeps_store_def by blast
qed

lemma keeps_store_fail:
  assumes "\<not> in_memory f i" "\<not> available s i" "\<And>j. store_fresh s j \<Longrightarrow> j \<noteq> i \<Longrightarrow> store_fresh s1 j"
    "store_frame s s1"
  shows "keeps_store f (insert i I) s s1"
proof -
  have "\<not> all_readable f (insert i I) s" using assms(1,2) by (simp add: all_readable_def)
  moreover have "j \<noteq> i" if "in_memory f j \<or> j \<notin> insert i I" for j using that assms(1) by blast
  ultimately show ?thesis using assms(3,4) unfolding keeps_store_def by blast
qed

lemma reshape_views_spec:
  assumes "chunk_store_ok dk D s" "copy_views (data_of D f) off cs st = Some st'"
  shows "\<exists>s' r. reshape_views dk now f off cs st s = Some (s', r) \<and> chunk_store_ok dk D s' \<and>
    (\<forall>x. r = Inr (ReshapeBuffer x) \<longrightarrow> x = st') \<and> keeps_store f (cv_id ` set cs) s s' \<and>
    (all_readable f (cv_id ` set cs) s \<longrightarrow> r = Inr (ReshapeBuffer st'))"
  using assms
proof (induction cs arbitrary: st s)
  case Nil
  then show ?case by (simp add: keeps_store_refl)
next
  case (Cons c cs)
  let ?I = "cv_id ` set cs"
  obtain st1 where st1: "cv_copy_between_start_and_stop c (data_of D f (cv_id c)) off st = Some st1"
    "copy_views (data_of D f) off cs st1 = Some st'"
    using Cons.prems(2) by (auto simp: bind_eq_Some_conv)
  show ?case
  proof (cases "map_of (of_new_chunks f) (cv_id c)")
    case (Some d)
    then have mem: "in_memory f (cv_id c)" "data_of D f (cv_id c) = d" by (simp_all add: data_of_def in_memory_def)
    obtain s' r where r: "reshape_views dk now f off cs st1 s = Some (s', r)" "chunk_store_ok dk D s'"
      "\<forall>x. r = Inr (ReshapeBuffer x) \<longrightarrow> x = st'" "keeps_store f ?I s s'"
      "all_readable f ?I s \<longrightarrow> r = Inr (ReshapeBuffer st')"
      using Cons.IH [OF Cons.prems(1) st1(2)] by blast
    have "all_readable f (insert (cv_id c) ?I) s \<longrightarrow> all_readable f ?I s" by (simp add: all_readable_def)
    then show ?thesis using Some mem st1(1) r keeps_store_mem [OF mem(1) r(4)] by simp
  next
    case None
    then have mem: "\<not> in_memory f (cv_id c)" "data_of D f (cv_id c) = D (cv_id c)"
      by (simp_all add: data_of_def in_memory_def)
    obtain s1 r1 where s1: "get_chunk_or_block_local_only dk now c s = Some (s1, r1)"
      "chunk_store_ok dk D s1" "\<And>d. r1 = Inr d \<Longrightarrow> d = D (cv_id c)"
      using local_only_ok [OF Cons.prems(1), of now c] by (metis (no_types, lifting) Pair_inject option.inject)
    have fr: "store_fresh s1 j" if "store_fresh s j" "j \<noteq> cv_id c" for j
      using local_only_fresh [OF Cons.prems(1) s1(1)] that by blast
    have av: "r1 = Inr (D (cv_id c)) \<and> (\<forall>j. available s j \<longrightarrow> available s1 j)" if "available s (cv_id c)"
      using local_only_available [OF Cons.prems(1) that, of now] s1(1) by (metis Pair_inject option.inject)
    show ?thesis
    proof (cases r1)
      case (Inl e)
      then have nav: "\<not> available s (cv_id c)" using av by auto
      then have "\<not> all_readable f (insert (cv_id c) ?I) s" using mem by (simp add: all_readable_def)
      then show ?thesis
        using None s1 Inl keeps_store_fail [OF mem(1) nav fr local_only_frame [OF s1(1)]] by (cases e) simp_all
    next
      case (Inr d)
      obtain s' r where r: "reshape_views dk now f off cs st1 s1 = Some (s', r)" "chunk_store_ok dk D s'"
        "\<forall>x. r = Inr (ReshapeBuffer x) \<longrightarrow> x = st'" "keeps_store f ?I s1 s'"
        "all_readable f ?I s1 \<longrightarrow> r = Inr (ReshapeBuffer st')"
        using Cons.IH [OF s1(2) st1(2)] by blast
      have "all_readable f (insert (cv_id c) ?I) s \<longrightarrow> all_readable f ?I s1"
        using av mem(1) by (auto simp: all_readable_def)
      then show ?thesis
        using None s1 Inr st1(1) mem(2) r keeps_store_read [OF mem(1) _ fr r(4) local_only_frame [OF s1(1)]] av by simp
    qed
  qed
qed

subsection \<open>One slot\<close>

definition slot_start :: "chunk_view list \<Rightarrow> nat" where
  "slot_start cs = cv_start (hd cs)"

definition slot_stop :: "chunk_view list \<Rightarrow> nat" where
  "slot_stop cs = cv_stop (last cs)"

lemma slot_bounds:
  assumes "chunks_ok lo hi cs" "cs \<noteq> []"
  shows "lo \<le> slot_start cs" "slot_start cs < slot_stop cs" "slot_stop cs \<le> hi"
    "chunks_ok (slot_start cs) (slot_stop cs) cs"
proof -
  show lo: "lo \<le> slot_start cs" and hi: "slot_stop cs \<le> hi"
    using chunks_ok_in [OF assms(1) hd_in_set [OF assms(2)]] chunks_ok_in [OF assms(1) last_in_set [OF assms(2)]]
    by (simp_all add: slot_start_def slot_stop_def)
  have "cv_start (hd cs) < cv_stop (hd cs)"
    by (rule chunks_ok_start_less_stop [OF assms(1) hd_in_set [OF assms(2)]])
  also have "\<dots> \<le> slot_stop cs"
    unfolding slot_stop_def by (rule stop_le_last_stop [OF assms(1) hd_in_set [OF assms(2)]])
  finally show "slot_start cs < slot_stop cs" by (simp add: slot_start_def)
  have hi': "chunks_ok l h ds \<Longrightarrow> (\<And>c. c \<in> set ds \<Longrightarrow> cv_stop c \<le> h') \<Longrightarrow> chunks_ok l h' ds" for l h h' ds
    by (induction l h ds rule: chunks_ok.induct) auto
  have "chunks_ok lo (slot_stop cs) cs"
    using hi' [OF assms(1)] stop_le_last_stop [OF assms(1)] by (simp add: slot_stop_def)
  then show "chunks_ok (slot_start cs) (slot_stop cs) cs"
    using assms(2) by (cases cs) (auto simp: slot_start_def)
qed

lemma copy_slot:
  assumes "chunks_ok lo hi cs" "cs \<noteq> []" "hi < u64_bound" "\<And>c. c \<in> set cs \<Longrightarrow> view_ok dat c"
  shows "copy_views dat (slot_start cs) cs ([], 0) =
    Some (map (views_byte dat cs) [slot_start cs ..< slot_stop cs], slot_stop cs - slot_start cs)"
proof -
  note b = slot_bounds [OF assms(1,2)]
  have "chunks_ok (slot_start cs + 0) (slot_stop cs) cs" using b(4) by simp
  from copy_views_spec [OF this _ assms(4), of "[]"] show ?thesis
    using b(3) assms(2,3) by (simp add: slot_stop_def Let_def)
qed

text \<open>The single view a reshape leaves in a slot.\<close>

definition block_view :: "(byte list \<Rightarrow> hash_digest) \<Rightarrow> chunk_id \<Rightarrow> nat \<Rightarrow> nat \<Rightarrow> byte list \<Rightarrow> chunk_view" where
  "block_view from_data i start stop buf =
     \<lparr>cv_id = i, cv_start = start, cv_stop = stop, cv_raw_offset = start, cv_raw_size = stop - start,
      cv_access = Some \<lparr>ba_id = i, ba_offset = start, ba_size = stop - start, ba_digest = from_data buf\<rparr>\<rparr>"

lemma block_view_facts:
  assumes "start < stop" "stop < u64_bound"
  shows "cv_is_block (block_view from_data i start stop buf)" "cv_ok (block_view from_data i start stop buf)"
    "access_id_ok (block_view from_data i start stop buf)"
  using assms by (simp_all add: block_view_def cv_is_block_def cv_block_def cv_is_aligned_with_raw_data_def
      cv_ok_iff access_id_ok_def u64_simps)

lemma promote_expect_aligned:
  assumes "cv_ok c" "cv_stop c < u64_bound" "\<not> cv_is_block c" "cv_is_aligned_with_raw_data c"
    "cv_raw_size c < u64_bound"
  shows "promote_expect from_data buf c = Some (block_view from_data (cv_id c) (cv_start c) (cv_stop c) buf)"
proof -
  have c: "cv_raw_offset c = cv_start c" "cv_start c < cv_stop c" "cv_stop c = u64_add (cv_start c) (cv_raw_size c)"
    using assms(1,4) by (auto simp: cv_ok_iff cv_is_aligned_with_raw_data_def split: if_splits)
  have "cv_raw_size c = cv_stop c - cv_start c"
  proof (cases "cv_start c + cv_raw_size c < u64_bound")
    case True
    then show ?thesis using c(3) by (simp add: u64_simps)
  next
    case False
    then have "u64_add (cv_start c) (cv_raw_size c) = cv_start c + cv_raw_size c - u64_bound"
      using assms(2,5) c(2) by (simp add: u64_add_def mod_if)
    then show ?thesis using c(2,3) assms(5) by simp
  qed
  moreover have "cv_size c = cv_stop c - cv_start c" using c(2) assms(2) by (simp add: cv_size_def u64_simps)
  ultimately show ?thesis
    using assms(3,4) c(1,2) by (simp add: promote_expect_def cv_promote_as_block_def block_view_def)
qed

lemma replace_slot:
  assumes ok: "of_ok D f" and b: "b < length (lf_blocks (of_manifest f))"
    and cs: "cs = lf_blocks (of_manifest f) ! b" "cs \<noteq> []"
    and v: "v = block_view from_data i (slot_start cs) (slot_stop cs) buf"
    and m': "of_manifest f' = (of_manifest f)\<lparr>lf_blocks := (lf_blocks (of_manifest f))[b := [v]]\<rparr>"
    and dist: "distinct (map fst (of_new_chunks f'))"
    and new: "slot_stop cs - slot_start cs \<le> length (data_of D f' i)"
      "\<And>p. slot_start cs \<le> p \<Longrightarrow> p < slot_stop cs \<Longrightarrow>
        data_of D f' i ! (p - slot_start cs) = views_byte (data_of D f) cs p"
    and others: "\<And>j k. j \<noteq> b \<Longrightarrow> k \<in> cs_ids (slot (lf_blocks (of_manifest f)) j) \<Longrightarrow>
      data_of D f' k = data_of D f k \<and> k \<noteq> i \<and> k \<notin> set (of_removed_chunks f')"
    and i: "i \<notin> set (of_removed_chunks f')"
  shows "of_ok D f' \<and> file_byte D f' = file_byte D f \<and>
    lf_ids (of_manifest f') \<subseteq> insert i (lf_ids (of_manifest f))"
proof -
  let ?m = "of_manifest f" and ?m' = "of_manifest f'"
  let ?bs = "lf_blocksize ?m"
  have m: "lf_in_range ?m" "lf_accepted ?m" and loc: "ids_local ?m"
    and views: "views_ok (data_of D f) ?m" using ok by (auto simp: of_ok_def)
  note acc = lf_acceptedD [OF m]
  have cs': "slot (lf_blocks ?m) b = cs" using b cs(1) by (simp add: slot_def)
  have ck: "chunks_ok (b * ?bs) ((b + 1) * ?bs) cs" using acc(3) [of b] cs' by simp
  note sb = slot_bounds [OF ck cs(2)]
  have "last cs \<in> set (slot (lf_blocks ?m) b)" using cs' cs(2) by simp
  then have size: "slot_stop cs \<le> lf_size ?m" using acc(5) by (simp add: slot_stop_def)
  then have stop: "slot_stop cs < u64_bound" using m(1) by (auto simp: lf_in_range_def)
  note vf = block_view_facts [OF sb(2) stop]
  have vs: "cv_start v = slot_start cs" "cv_stop v = slot_stop cs" "cv_id v = i" "cv_raw_offset v = slot_start cs"
    "cv_raw_size v = slot_stop cs - slot_start cs"
    by (simp_all add: v block_view_def)
  have slots: "slot (lf_blocks ?m') j = (if j = b then [v] else slot (lf_blocks ?m) j)" for j
    using b by (simp add: m')
  have same: "lf_size ?m' = lf_size ?m" "lf_blocksize ?m' = ?bs" "lf_base ?m' = lf_base ?m"
    "lf_parent ?m' = lf_parent ?m"
    by (simp_all add: m')
  have range: "lf_in_range ?m'" using m(1) by (simp add: lf_in_range_def m')
  have "chunks_ok (j * ?bs) ((j + 1) * ?bs) (slot (lf_blocks ?m') j)" for j
    using acc(3) [of j] sb vf(2) vs by (simp add: slots v)
  moreover have "last_slot_ok (lf_blocks ?m')"
    using acc(4) b by (auto simp: last_slot_ok_def m' last_list_update split: if_splits)
  moreover have "cv_stop c \<le> lf_size ?m'" if "c \<in> set (slot (lf_blocks ?m') j)" for j c
    using that acc(5) [of c j] size vs by (simp add: slots same split: if_splits)
  ultimately have accepted: "lf_accepted ?m'"
    using acc(2) by (simp add: lf_check_data_integrity_iff [OF range] blocks_ok_slot stops_below_slot same)
  have ids': "cs_ids (slot (lf_blocks ?m') j) = (if j = b then {i} else cs_ids (slot (lf_blocks ?m) j))" for j
    by (simp add: slots vs)
  have nin: "i \<notin> cs_ids (slot (lf_blocks ?m) j)" if "j \<noteq> b" for j using others [OF that] by blast
  have "ids_local ?m'"
    unfolding ids_local_def ids' using loc nin by (simp add: ids_local_def)
  moreover have "view_ok (data_of D f') c" if c: "c \<in> set (slot (lf_blocks ?m') j)" for j c
  proof (cases "j = b")
    case True
    then show ?thesis using c vf(3) new(1) stop vs by (simp add: slots view_ok_def v)
  next
    case False
    then have c: "c \<in> set (slot (lf_blocks ?m) j)" using c by (simp add: slots)
    then show ?thesis
      using others [OF False, of "cv_id c"] views by (auto simp: views_ok_def cs_ids_def intro: view_ok_cong)
  qed
  moreover have lfids: "lf_ids ?m' = (\<Union>j. if j = b then {i} else cs_ids (slot (lf_blocks ?m) j))"
    unfolding lf_ids_def cs_ids_concat_slot ids' ..
  moreover have "set (of_removed_chunks f') \<inter> lf_ids ?m' = {}"
    using others i unfolding lfids by (auto split: if_splits)
  ultimately have "of_ok D f'" using range accepted dist by (simp add: of_ok_def views_ok_def)
  moreover have "lf_ids ?m' \<subseteq> insert i (lf_ids ?m)"
    unfolding lfids lf_ids_def [of ?m] cs_ids_concat_slot by (auto split: if_splits)
  moreover have "source_byte (data_of D f') (byte_source ?m' p) = source_byte (data_of D f) (byte_source ?m p)" for p
  proof (cases "p div ?bs = b")
    case True
    have "chunk_source cs p = None" if "\<not> (slot_start cs \<le> p \<and> p < slot_stop cs)"
      using chunk_source_outside [OF sb(4) that] .
    then show ?thesis
      using True new(2) [of p] cs' vs
      by (auto simp: byte_source_def same slots chunk_source_Cons cv_covers_def source_byte_def
          views_byte_def)
  next
    case False
    have src: "byte_source ?m' p = byte_source ?m p"
      using False slots [of "p div ?bs"] by (simp add: byte_source_def same)
    show ?thesis
    proof (cases "byte_source ?m p")
      case (Some ik)
      then obtain c where "c \<in> set (slot (lf_blocks ?m) (p div ?bs))" "cv_id c = fst ik"
        using chunk_source_Some [of _ p "fst ik" "snd ik"] by (auto simp: byte_source_def)
      then have "fst ik \<in> cs_ids (slot (lf_blocks ?m) (p div ?bs))" by (force simp: cs_ids_def)
      then have "data_of D f' (fst ik) = data_of D f (fst ik)" using others [OF False] by blast
      then show ?thesis using src Some by (simp add: source_byte_def case_prod_beta)
    qed (simp add: src source_byte_def)
  qed
  ultimately show ?thesis by (auto simp: file_byte_def fun_eq_iff)
qed

lemma try_reshape_cases:
  assumes ck: "chunks_ok lo hi cs" and lim: "hi < u64_bound"
  obtains (keep) "try_reshape rid cs = Some None" "cs = [] \<or> (\<exists>c. cs = [c] \<and> cv_is_block c)"
  | (promote) c where "try_reshape rid cs = Some (Some (ToPromote c))" "cs = [c]" "\<not> cv_is_block c"
      "cv_is_aligned_with_raw_data c"
  | (merge) c where "try_reshape rid cs = Some (Some (ToReshape cs c))" "cs \<noteq> []"
      "cv_new rid (slot_start cs) (slot_stop cs) = Some c"
proof (cases "cs = [] \<or> (length cs = 1 \<and> cv_is_block (hd cs))")
  case True
  then show thesis using keep by (auto simp: try_reshape_def length_Suc_conv)
next
  case False
  show thesis
  proof (cases "length cs = 1 \<and> cv_is_aligned_with_raw_data (hd cs)")
    case True
    then obtain c where "cs = [c]" by (auto simp: length_Suc_conv)
    with True False show thesis using promote [of c] by (simp add: try_reshape_def)
  next
    case nal: False
    have ne: "cs \<noteq> []" using False by simp
    note sb = slot_bounds [OF ck ne]
    obtain c where c: "cv_new rid (slot_start cs) (slot_stop cs) = Some c"
      using cv_new_Some sb(2,3) lim by (meson le_less_trans)
    then have "try_reshape rid cs = Some (Some (ToReshape cs c))"
      using False nal by (auto simp: try_reshape_def slot_start_def slot_stop_def)
    with ne c show thesis using merge by blast
  qed
qed

lemma block_in_range:
  assumes m: "lf_in_range m" and b: "b < length (lf_blocks m)"
  shows "(b + 1) * lf_blocksize m < u64_bound"
proof -
  have "(b + 1) * lf_blocksize m \<le> length (lf_blocks m) * lf_blocksize m" using b by (intro mult_le_mono1) simp
  also have "\<dots> < u64_bound" using m by (simp add: lf_in_range_def)
  finally show ?thesis .
qed

lemma promote_slot:
  assumes ok: "of_ok D f" and iter: "iter_ok iter" and b: "b < length (lf_blocks (of_manifest f))"
    and cs: "lf_blocks (of_manifest f) ! b = [c]" and c: "\<not> cv_is_block c" "cv_is_aligned_with_raw_data c"
  obtains f' where
    "reshape_apply from_data iter b (ToPromote c)
       (map (views_byte (data_of D f) [c]) [cv_start c ..< cv_stop c]) f = Some f'"
    "of_new_chunks f' = of_new_chunks f" "lf_ids (of_manifest f') \<subseteq> lf_ids (of_manifest f)" "of_ok D f'" "same_file D f f'" "used_ids f' \<subseteq> used_ids f"
    "is_reshaped_blocks [lf_blocks (of_manifest f') ! b]"
    "\<And>j. j \<noteq> b \<Longrightarrow> lf_blocks (of_manifest f') ! j = lf_blocks (of_manifest f) ! j"
proof -
  let ?m = "of_manifest f" and ?dat = "data_of D f"
  let ?buf = "map (views_byte ?dat [c]) [cv_start c ..< cv_stop c]"
  let ?v = "block_view from_data (cv_id c) (cv_start c) (cv_stop c) ?buf"
  let ?f' = "f\<lparr>of_manifest := ?m\<lparr>lf_blocks := (lf_blocks ?m)[b := [?v]]\<rparr>\<rparr>"
  have m: "lf_in_range ?m" "lf_accepted ?m" and loc: "ids_local ?m" and views: "views_ok ?dat ?m"
    using ok by (auto simp: of_ok_def)
  note acc = lf_acceptedD [OF m]
  have sl: "slot (lf_blocks ?m) b = [c]" using b cs by (simp add: slot_def)
  have ck: "chunks_ok (b * lf_blocksize ?m) ((b + 1) * lf_blocksize ?m) [c]" using acc(3) [of b] sl by simp
  have lim: "cv_stop c < u64_bound" using ck block_in_range [OF m(1) b] by simp
  have cok: "cv_ok c" "cv_start c < cv_stop c" using ck by (auto simp: cv_ok_iff)
  have "c \<in> set (slot (lf_blocks ?m) b)" using sl by simp
  then have vc: "view_ok ?dat c" using views unfolding views_ok_def by blast
  then have raw: "cv_raw_size c < u64_bound" by (simp add: view_ok_def)
  have al: "cv_raw_offset c = cv_start c"
    using c(2) by (simp add: cv_is_aligned_with_raw_data_def split: if_splits)
  have size: "cv_size c = cv_stop c - cv_start c" using cok lim by (simp add: cv_size_def u64_simps)
  have "set (iter {}) = {}" using iter by (simp add: iter_ok_def)
  then have run: "reshape_apply from_data iter b (ToPromote c) ?buf f = Some ?f'"
    using promote_expect_aligned [OF cok(1) lim c raw, of from_data ?buf] size
    by (simp add: reshape_apply_def Let_def)
  have dat: "data_of D ?f' = ?dat" by (simp add: data_of_def fun_eq_iff)
  have idb: "cv_id c \<in> cs_ids (slot (lf_blocks ?m) b)" using sl by simp
  have rem: "set (of_removed_chunks f) \<inter> lf_ids ?m = {}" using ok by (simp add: of_ok_def)
  have cid: "cv_id c \<in> lf_ids ?m" using idb by (auto simp: lf_ids_def cs_ids_concat_slot)
  have ss: "slot_start [c] = cv_start c" "slot_stop [c] = cv_stop c" by (simp_all add: slot_start_def slot_stop_def)
  have others: "k \<noteq> cv_id c \<and> k \<notin> set (of_removed_chunks f)" if "j \<noteq> b" "k \<in> cs_ids (slot (lf_blocks ?m) j)" for j k
  proof -
    have "k \<in> lf_ids ?m" using that(2) unfolding lf_ids_def cs_ids_concat_slot by blast
    then show ?thesis using that loc idb rem unfolding ids_local_def by blast
  qed
  have "of_ok D ?f' \<and> file_byte D ?f' = file_byte D f \<and> lf_ids (of_manifest ?f') \<subseteq> insert (cv_id c) (lf_ids ?m)"
  proof (rule replace_slot [OF ok b cs [symmetric], where i = "cv_id c" and f' = ?f' and v = ?v
      and from_data = from_data and buf = ?buf])
    show "slot_stop [c] - slot_start [c] \<le> length (data_of D ?f' (cv_id c))"
      using vc al by (simp add: dat ss view_ok_def)
    show "data_of D ?f' (cv_id c) ! (p - slot_start [c]) = views_byte ?dat [c] p"
      if "slot_start [c] \<le> p" "p < slot_stop [c]" for p
      using that al by (simp add: dat ss views_byte_def source_byte_def chunk_source_Cons cv_covers_def)
    show "distinct (map fst (of_new_chunks ?f'))" using ok by (simp add: of_ok_def)
  qed (use others rem cid in \<open>auto simp: ss dat\<close>)
  moreover have "lf_ids (of_manifest ?f') \<subseteq> lf_ids ?m" using calculation cid by auto
  moreover have "used_ids ?f' \<subseteq> used_ids f" using calculation cid by (auto simp: used_ids_def)
  moreover have "is_reshaped_blocks [lf_blocks (of_manifest ?f') ! b]"
    using b block_view_facts(1) [OF cok(2) lim] by simp
  ultimately show thesis using that [OF run] by (simp add: same_file_def)
qed

lemma merge_slot:
  assumes ok: "of_ok D f" and iter: "iter_ok iter" and b: "b < length (lf_blocks (of_manifest f))"
    and cs: "cs = lf_blocks (of_manifest f) ! b" "cs \<noteq> []"
    and c: "cv_new rid (slot_start cs) (slot_stop cs) = Some c" and fresh: "rid \<notin> used_ids f"
  obtains f' where
    "reshape_apply from_data iter b (ToReshape cs c)
       (map (views_byte (data_of D f) cs) [slot_start cs ..< slot_stop cs]) f = Some f'"
    "of_ok D f'" "same_file D f f'" "used_ids f' \<subseteq> insert rid (used_ids f)"
    "is_reshaped_blocks [lf_blocks (of_manifest f') ! b]"
    "\<And>j. j \<noteq> b \<Longrightarrow> lf_blocks (of_manifest f') ! j = lf_blocks (of_manifest f) ! j"
    "\<And>i. i \<in> lf_ids (of_manifest f') \<Longrightarrow> i = rid \<or> i \<in> lf_ids (of_manifest f) \<and>
       (in_memory f i \<longrightarrow> in_memory f' i)"
    "in_memory f' rid" "\<And>i. in_memory f' i \<Longrightarrow> i = rid \<or> in_memory f i"
proof -
  let ?m = "of_manifest f" and ?dat = "data_of D f"
  let ?buf = "map (views_byte ?dat cs) [slot_start cs ..< slot_stop cs]"
  let ?v = "block_view from_data rid (slot_start cs) (slot_stop cs) ?buf"
  let ?ids = "cs_ids cs"
  have m: "lf_in_range ?m" "lf_accepted ?m" and loc: "ids_local ?m" and dist: "distinct (map fst (of_new_chunks f))"
    and rem: "set (of_removed_chunks f) \<inter> lf_ids ?m = {}"
    using ok by (auto simp: of_ok_def)
  note acc = lf_acceptedD [OF m]
  have sl: "slot (lf_blocks ?m) b = cs" using b cs(1) by (simp add: slot_def)
  have ck: "chunks_ok (b * lf_blocksize ?m) ((b + 1) * lf_blocksize ?m) cs" using acc(3) [of b] sl by simp
  note sb = slot_bounds [OF ck cs(2)]
  have lim: "slot_stop cs < u64_bound" using sb(3) block_in_range [OF m(1) b] by simp
  have cv: "c = \<lparr>cv_id = rid, cv_start = slot_start cs, cv_stop = slot_stop cs, cv_raw_offset = slot_start cs,
      cv_raw_size = slot_stop cs - slot_start cs, cv_access = None\<rparr>"
    using c cv_new_Some [OF sb(2) lim] by simp
  define f1 where "f1 = fold remove_chunk (iter ?ids) f"
  have it: "set (iter ?ids) = ?ids" using iter by (simp add: iter_ok_def cs_ids_def)
  have f1: "map_of (of_new_chunks f1) = (\<lambda>i. if i \<in> ?ids then None else map_of (of_new_chunks f) i)"
    "distinct (map fst (of_new_chunks f1))" "of_manifest f1 = ?m"
    "set (of_removed_chunks f1) \<subseteq> ?ids \<union> set (of_removed_chunks f)"
    using keep.fold_new [OF dist, of "iter ?ids"] keep.fold_fields(1)
      keep.fold_removed [of "iter ?ids" f] it
    by (simp_all add: f1_def cong: if_cong)
  have f1x: "of_updater f1 = of_updater f" "of_cursors f1 = of_cursors f"
    "of_flush_needed f1 = of_flush_needed f" "of_modified_since_opened f1 = of_modified_since_opened f"
    using keep.fold_fields remove_chunk_flags by (simp_all add: f1_def)
  let ?f' = "f1\<lparr>of_new_chunks := of_new_chunks f1 @ [(rid, ?buf)],
    of_manifest := ?m\<lparr>lf_blocks := (lf_blocks ?m)[b := [?v]]\<rparr>\<rparr>"
  have "promote_expect from_data ?buf c = Some (block_view from_data (cv_id c) (cv_start c) (cv_stop c) ?buf)"
    using sb(2) lim by (intro promote_expect_aligned)
      (simp_all add: cv cv_ok_iff cv_is_block_def cv_block_def cv_is_aligned_with_raw_data_def u64_simps)
  moreover have "cv_size c = slot_stop cs - slot_start cs"
    using sb(2) lim by (simp add: cv cv_size_def u64_simps)
  ultimately have run: "reshape_apply from_data iter b (ToReshape cs c) ?buf f = Some ?f'"
    using f1(3) by (simp add: reshape_apply_def Let_def cv f1_def cs_ids_def)
  have "dom (map_of (of_new_chunks f1)) = dom (map_of (of_new_chunks f)) - ?ids"
    using f1(1) by (auto split: if_splits)
  then have keys: "fst ` set (of_new_chunks f1) = fst ` set (of_new_chunks f) - ?ids"
    by (simp add: dom_map_of_conv_image_fst)
  have rid: "rid \<notin> lf_ids ?m" "rid \<notin> fst ` set (of_new_chunks f)" "rid \<notin> set (of_removed_chunks f)"
    using fresh by (auto simp: used_ids_def)
  have csids: "?ids \<subseteq> lf_ids ?m" unfolding lf_ids_def cs_ids_concat_slot using sl by blast
  have nk: "map_of (of_new_chunks f1) rid = None" using rid(2) keys by (simp add: map_of_eq_None_iff)
  have dat: "data_of D ?f' k = (if k = rid then ?buf else if k \<in> ?ids then D k else ?dat k)" for k
    using f1(1) nk by (auto simp: data_of_def map_add_def split: option.split if_splits)
  have slotids: "k \<in> lf_ids ?m" if "k \<in> cs_ids (slot (lf_blocks ?m) j)" for j k
    using that unfolding lf_ids_def cs_ids_concat_slot by blast
  have others: "data_of D ?f' k = ?dat k \<and> k \<noteq> rid \<and> k \<notin> set (of_removed_chunks ?f')"
    if "j \<noteq> b" "k \<in> cs_ids (slot (lf_blocks ?m) j)" for j k
  proof -
    have "k \<notin> ?ids" using loc that sl unfolding ids_local_def by blast
    then show ?thesis using dat rid slotids [OF that(2)] f1(4) rem by auto
  qed
  have core: "of_ok D ?f' \<and> file_byte D ?f' = file_byte D f \<and> lf_ids (of_manifest ?f') \<subseteq> insert rid (lf_ids ?m)"
  proof (rule replace_slot [OF ok b cs, where i = rid and f' = ?f' and v = ?v and from_data = from_data and buf = ?buf])
    show "distinct (map fst (of_new_chunks ?f'))" using f1(2) keys rid(2) by simp
    show "data_of D ?f' rid ! (p - slot_start cs) = views_byte ?dat cs p"
      if "slot_start cs \<le> p" "p < slot_stop cs" for p
      using that by (simp add: dat)
    show "rid \<notin> set (of_removed_chunks ?f')" using f1(4) rid csids by auto
    show "data_of D ?f' k = ?dat k \<and> k \<noteq> rid \<and> k \<notin> set (of_removed_chunks ?f')"
      if "j \<noteq> b" "k \<in> cs_ids (slot (lf_blocks ?m) j)" for j k
      by (rule others [OF that])
  qed (simp_all add: dat)
  moreover have "used_ids ?f' \<subseteq> insert rid (used_ids f)"
    using core keys f1(4) csids by (auto simp: used_ids_def)
  moreover have "is_reshaped_blocks [lf_blocks (of_manifest ?f') ! b]"
    using b block_view_facts(1) [OF sb(2) lim] by simp
  moreover have "i = rid \<or> i \<in> lf_ids ?m \<and> (in_memory f i \<longrightarrow> in_memory ?f' i)"
    if iin: "i \<in> lf_ids (of_manifest ?f')" for i
  proof (cases "i \<in> ?ids")
    case False
    then show ?thesis using iin core keys by (auto simp: in_memory_iff)
  next
    case True
    obtain j where j: "i \<in> cs_ids (slot (lf_blocks (of_manifest ?f')) j)"
      using iin unfolding lf_ids_def cs_ids_concat_slot by blast
    then show ?thesis using True b sl loc unfolding ids_local_def
      by (cases "j = b") (auto simp: block_view_def)
  qed
  moreover have "in_memory ?f' rid" by (simp add: in_memory_iff)
  moreover have "i = rid \<or> in_memory f i" if "in_memory ?f' i" for i
    using that keys by (auto simp: in_memory_iff)
  ultimately show thesis using that [OF run] f1x by (simp add: same_file_def)
qed

subsection \<open>All slots\<close>

text \<open>What a reshape of the slots \<open>B\<close> leaves, whatever the outcome.\<close>

definition reshape_rel ::
  "(chunk_id \<Rightarrow> byte list) \<Rightarrow> device_key \<Rightarrow> nat set \<Rightarrow> chunk_id set \<Rightarrow> opened_file \<Rightarrow> chunk_store \<Rightarrow>
   opened_file \<Rightarrow> chunk_store \<Rightarrow> flush_error + unit \<Rightarrow> bool" where
  "reshape_rel D dk B R f s f' s' r \<longleftrightarrow>
     of_ok D f' \<and> chunk_store_ok dk D s' \<and> same_file D f f' \<and> used_ids f' \<subseteq> R \<union> used_ids f \<and>
     store_frame s s' \<and>
     (\<forall>j. j \<notin> B \<longrightarrow> lf_blocks (of_manifest f') ! j = lf_blocks (of_manifest f) ! j) \<and>
     (\<forall>i. in_memory f' i \<longrightarrow> i \<in> R \<or> in_memory f i) \<and>
     (\<forall>i \<in> lf_ids (of_manifest f'). i \<in> R \<and> in_memory f' i \<or>
        i \<in> lf_ids (of_manifest f) \<and> (in_memory f i \<longrightarrow> in_memory f' i)) \<and>
     (\<forall>i. store_fresh s i \<longrightarrow> in_memory f i \<or> i \<notin> lf_ids (of_manifest f) \<longrightarrow> store_fresh s' i) \<and>
     (all_readable f (lf_ids (of_manifest f)) s \<longrightarrow>
        r = Inr () \<and> all_readable f' (lf_ids (of_manifest f')) s' \<and>
        (\<forall>i. available s i \<longrightarrow> available s' i) \<and>
        (\<forall>b \<in> B. is_reshaped_blocks [lf_blocks (of_manifest f') ! b]))"

text \<open>The end of a turn, once the views of the slot have been read.\<close>

definition reshape_finish ::
  "(byte list \<Rightarrow> hash_digest) \<Rightarrow> (chunk_id set \<Rightarrow> chunk_id list) \<Rightarrow> nat \<Rightarrow> reshape_operation \<Rightarrow>
   opened_file \<Rightarrow> chunk_store \<Rightarrow> flush_error + reshape_read \<Rightarrow>
   (opened_file \<times> chunk_store \<times> (flush_error + unit)) option" where
  "reshape_finish from_data iter b op f s r =
     (case r of
        Inl e \<Rightarrow> Some (f, s, Inl e)
      | Inr ReshapeLocalMiss \<Rightarrow> Some (f, s, Inr ())
      | Inr (ReshapeBuffer (buf, _)) \<Rightarrow>
          Option.bind (reshape_apply from_data iter b op buf f) (\<lambda>f. Some (f, s, Inr ())))"

lemma reshape_slot_run:
  assumes "try_reshape (reshape_ids b) (lf_blocks (of_manifest f) ! b) = Some (Some op)"
    "reshape_views dk now f (cv_start (reshape_destination op)) (reshape_source op) ([], 0) s = Some (s', r)"
  shows "reshape_slot dk from_data iter now reshape_ids b f s = reshape_finish from_data iter b op f s' r"
  using assms by (simp add: reshape_slot_def reshape_finish_def)

lemma reshape_slot_spec:
  assumes ok: "of_ok D f" and iter: "iter_ok iter" and b: "b < length (lf_blocks (of_manifest f))"
    and s: "chunk_store_ok dk D s" and fresh: "reshape_ids b \<notin> used_ids f"
  shows "\<exists>f' s' r. reshape_slot dk from_data iter now reshape_ids b f s = Some (f', s', r) \<and>
    reshape_rel D dk {b} {reshape_ids b} f s f' s' r"
proof -
  let ?m = "of_manifest f" and ?rid = "reshape_ids b"
  define cs where "cs = lf_blocks ?m ! b"
  have m: "lf_in_range ?m" "lf_accepted ?m" and views: "views_ok (data_of D f) ?m"
    using ok by (auto simp: of_ok_def)
  have sl: "slot (lf_blocks ?m) b = cs" using b by (simp add: slot_def cs_def)
  have ck: "chunks_ok (b * lf_blocksize ?m) ((b + 1) * lf_blocksize ?m) cs"
    using lf_acceptedD(3) [OF m, of b] sl by simp
  have lim: "(b + 1) * lf_blocksize ?m < u64_bound" by (rule block_in_range [OF m(1) b])
  have vok: "view_ok (data_of D f) c" if "c \<in> set cs" for c using views that sl unfolding views_ok_def by blast
  have csids: "cv_id ` set cs \<subseteq> lf_ids ?m" using slot_id_in [of _ ?m b] sl by auto
  have rid: "?rid \<notin> lf_ids ?m" using fresh by (simp add: used_ids_def)
  obtain s' r where copy: "cs \<noteq> [] \<Longrightarrow> reshape_views dk now f (slot_start cs) cs ([], 0) s = Some (s', r) \<and>
    chunk_store_ok dk D s' \<and> (\<forall>x. r = Inr (ReshapeBuffer x) \<longrightarrow>
      x = (map (views_byte (data_of D f) cs) [slot_start cs ..< slot_stop cs], slot_stop cs - slot_start cs)) \<and>
    keeps_store f (cv_id ` set cs) s s' \<and>
    (all_readable f (cv_id ` set cs) s \<longrightarrow> (\<exists>x. r = Inr (ReshapeBuffer x)))"
    using reshape_views_spec [OF s copy_slot [OF ck _ lim vok], of now] by blast
  have readable: "all_readable f (lf_ids ?m) s \<Longrightarrow> all_readable f (cv_id ` set cs) s"
    using csids by (auto simp: all_readable_def)
  have fresh': "store_fresh s' i" if "cs \<noteq> []" "store_fresh s i"
    "in_memory f i \<or> i \<notin> lf_ids ?m" for i
    using copy [OF that(1)] that csids unfolding keeps_store_def by blast
  have avail': "available s' i" if "cs \<noteq> []" "all_readable f (lf_ids ?m) s" "available s i" for i
    using copy [OF that(1)] readable [OF that(2)] that(3) unfolding keeps_store_def by blast
  have frame: "store_frame s s'" if "cs \<noteq> []"
    using copy [OF that] unfolding keeps_store_def by blast
  have buffer: "\<exists>x. r = Inr (ReshapeBuffer x)" if "cs \<noteq> []" "all_readable f (lf_ids ?m) s"
    using copy [OF that(1)] readable [OF that(2)] by blast
  have finish: "\<exists>f' s'' r'. reshape_finish from_data iter b op f s' r = Some (f', s'', r') \<and> reshape_rel D dk {b} {?rid} f s f' s'' r'"
    if ne: "cs \<noteq> []" and f': "reshape_apply from_data iter b op
         (map (views_byte (data_of D f) cs) [slot_start cs ..< slot_stop cs]) f = Some f'"
      "of_ok D f'" "same_file D f f'" "used_ids f' \<subseteq> insert ?rid (used_ids f)"
      "is_reshaped_blocks [lf_blocks (of_manifest f') ! b]"
      "\<And>j. j \<noteq> b \<Longrightarrow> lf_blocks (of_manifest f') ! j = lf_blocks ?m ! j"
      "\<And>i. i \<in> lf_ids (of_manifest f') \<Longrightarrow> i = ?rid \<and> in_memory f' ?rid \<or> i \<in> lf_ids ?m \<and> (in_memory f i \<longrightarrow> in_memory f' i)"
      "\<And>i. in_memory f' i \<Longrightarrow> i = ?rid \<or> in_memory f i" for op f'
  proof (cases "\<exists>x. r = Inr (ReshapeBuffer x)")
    case True
    then have "r = Inr (ReshapeBuffer (map (views_byte (data_of D f) cs) [slot_start cs ..< slot_stop cs], slot_stop cs - slot_start cs))"
      using copy [OF ne] by blast
    moreover have "all_readable f' (lf_ids (of_manifest f')) s'" if "all_readable f (lf_ids ?m) s"
      using that f'(7) avail' [OF ne that] unfolding all_readable_def by blast
    ultimately show ?thesis
      using f' copy [OF ne] fresh' [OF ne] avail' [OF ne] frame [OF ne] unfolding reshape_rel_def
      by (auto simp: reshape_finish_def)
  next
    case False
    then have "\<not> all_readable f (lf_ids ?m) s" using buffer ne by blast
    then have "reshape_rel D dk {b} {?rid} f s f s' r'" for r'
      using ok copy [OF ne] fresh' [OF ne] frame [OF ne] unfolding reshape_rel_def by auto
    then show ?thesis using False by (auto simp: reshape_finish_def split: sum.split reshape_read.split)
  qed
  show ?thesis using ck lim
  proof (cases rule: try_reshape_cases [where rid = ?rid])
    case keep
    then have "reshape_slot dk from_data iter now reshape_ids b f s = Some (f, s, Inr ())"
      by (simp add: reshape_slot_def flip: cs_def)
    moreover have "is_reshaped_blocks [cs]" using keep(2) by auto
    ultimately show ?thesis using ok s by (auto simp: reshape_rel_def cs_def)
  next
    case (promote c)
    have ss: "slot_start cs = cv_start c" "slot_stop cs = cv_stop c" "cs \<noteq> []"
      using promote(2) by (simp_all add: slot_start_def slot_stop_def)
    have cs1: "lf_blocks ?m ! b = [c]" using promote(2) by (simp add: cs_def)
    obtain f' where f': "reshape_apply from_data iter b (ToPromote c)
         (map (views_byte (data_of D f) [c]) [cv_start c ..< cv_stop c]) f = Some f'"
      "of_new_chunks f' = of_new_chunks f" "lf_ids (of_manifest f') \<subseteq> lf_ids ?m"
      "of_ok D f'" "same_file D f f'" "used_ids f' \<subseteq> used_ids f"
      "is_reshaped_blocks [lf_blocks (of_manifest f') ! b]"
      "\<And>j. j \<noteq> b \<Longrightarrow> lf_blocks (of_manifest f') ! j = lf_blocks ?m ! j"
      using promote_slot [OF ok iter b cs1 promote(3,4), of from_data] by metis
    have "reshape_slot dk from_data iter now reshape_ids b f s = reshape_finish from_data iter b (ToPromote c) f s' r"
      using promote(1,2) copy [OF ss(3)] ss
      by (intro reshape_slot_run) (simp_all add: cs1 del: reshape_views.simps)
    moreover have mem: "in_memory f' i = in_memory f i" for i using f'(2) by (simp add: in_memory_def)
    moreover have "\<exists>f'' s'' r'. reshape_finish from_data iter b (ToPromote c) f s' r = Some (f'', s'', r') \<and>
        reshape_rel D dk {b} {?rid} f s f'' s'' r'"
    proof (rule finish [OF ss(3), of "ToPromote c" f'])
      show "reshape_apply from_data iter b (ToPromote c)
          (map (views_byte (data_of D f) cs) [slot_start cs ..< slot_stop cs]) f = Some f'"
        using f'(1) promote(2) ss by simp
    qed (use f'(2-) mem in auto)
    ultimately show ?thesis by simp
  next
    case (merge c)
    obtain f' where f': "reshape_apply from_data iter b (ToReshape cs c)
         (map (views_byte (data_of D f) cs) [slot_start cs ..< slot_stop cs]) f = Some f'"
      "of_ok D f'" "same_file D f f'" "used_ids f' \<subseteq> insert ?rid (used_ids f)"
      "is_reshaped_blocks [lf_blocks (of_manifest f') ! b]"
      "\<And>j. j \<noteq> b \<Longrightarrow> lf_blocks (of_manifest f') ! j = lf_blocks ?m ! j"
      "\<And>i. i \<in> lf_ids (of_manifest f') \<Longrightarrow> i = ?rid \<or> i \<in> lf_ids ?m \<and> (in_memory f i \<longrightarrow> in_memory f' i)"
      "in_memory f' ?rid" "\<And>i. in_memory f' i \<Longrightarrow> i = ?rid \<or> in_memory f i"
      using merge_slot [OF ok iter b cs_def merge(2,3) fresh, of from_data] by metis
    have "slot_start cs < slot_stop cs" "slot_stop cs < u64_bound"
      using slot_bounds [OF ck merge(2)] lim by auto
    then have cn: "cv_start c = slot_start cs" using merge(3) cv_new_Some by auto
    have "reshape_slot dk from_data iter now reshape_ids b f s = reshape_finish from_data iter b (ToReshape cs c) f s' r"
      using merge(1) copy [OF merge(2)] cn
      by (intro reshape_slot_run) (simp_all flip: cs_def)
    then show ?thesis using finish [OF merge(2) f'(1-6) _ f'(9)] f'(7,8) by auto
  qed
qed

lemma reshape_relD:
  assumes "reshape_rel D dk B R f s f' s' r"
  shows "of_ok D f'" "chunk_store_ok dk D s'" "same_file D f f'" "used_ids f' \<subseteq> R \<union> used_ids f"
    "j \<notin> B \<Longrightarrow> lf_blocks (of_manifest f') ! j = lf_blocks (of_manifest f) ! j"
    "in_memory f' i \<Longrightarrow> i \<in> R \<or> in_memory f i"
    "i \<in> lf_ids (of_manifest f') \<Longrightarrow> i \<in> R \<and> in_memory f' i \<or>
        i \<in> lf_ids (of_manifest f) \<and> (in_memory f i \<longrightarrow> in_memory f' i)"
    "store_fresh s i \<Longrightarrow> in_memory f i \<or> i \<notin> lf_ids (of_manifest f) \<Longrightarrow> store_fresh s' i"
    "all_readable f (lf_ids (of_manifest f)) s \<Longrightarrow>
        r = Inr () \<and> all_readable f' (lf_ids (of_manifest f')) s' \<and>
        (\<forall>i. available s i \<longrightarrow> available s' i) \<and>
        (\<forall>b \<in> B. is_reshaped_blocks [lf_blocks (of_manifest f') ! b])"
    "store_frame s s'"
  using assms unfolding reshape_rel_def by blast+

lemma reshape_rel_trans:
  assumes 1: "reshape_rel D dk {b} {i} f s f1 s1 (Inr ())" and 2: "reshape_rel D dk B R f1 s1 f2 s2 r"
    and b: "b \<notin> B"
  shows "reshape_rel D dk (insert b B) (insert i R) f s f2 s2 r"
  unfolding reshape_rel_def
proof (intro conjI allI ballI impI)
  note D1 = reshape_relD [OF 1] and D2 = reshape_relD [OF 2]
  show "of_ok D f2" "chunk_store_ok dk D s2" by (rule D2)+
  show "same_file D f f2" by (rule same_file_trans [OF D1(3) D2(3)])
  show "store_frame s s2" by (rule store_frame_trans [OF D1(10) D2(10)])
  show "used_ids f2 \<subseteq> insert i R \<union> used_ids f" using D1(4) D2(4) by blast
  show "lf_blocks (of_manifest f2) ! j = lf_blocks (of_manifest f) ! j" if "j \<notin> insert b B" for j
    using D1(5) [of j] D2(5) [of j] that by simp
  show "j \<in> insert i R \<or> in_memory f j" if "in_memory f2 j" for j using D1(6) D2(6) that by blast
  show "j \<in> insert i R \<and> in_memory f2 j \<or> j \<in> lf_ids (of_manifest f) \<and> (in_memory f j \<longrightarrow> in_memory f2 j)"
    if "j \<in> lf_ids (of_manifest f2)" for j using D1(7) [of j] D2(7) [OF that] by blast
  show "store_fresh s2 j" if "store_fresh s j" "in_memory f j \<or> j \<notin> lf_ids (of_manifest f)" for j
    using D2(8) [OF D1(8) [OF that]] D1(7) [of j] that(2) by blast
  fix j
  assume r: "all_readable f (lf_ids (of_manifest f)) s"
  note r1 = D1(9) [OF r]
  note r2 = D2(9) [OF conjunct1 [OF conjunct2 [OF r1]]]
  show "r = Inr ()" "all_readable f2 (lf_ids (of_manifest f2)) s2" using r2 by blast+
  show "available s2 j" if "available s j" using r1 r2 that by blast
  show "is_reshaped_blocks [lf_blocks (of_manifest f2) ! j]" if "j \<in> insert b B"
    using that r1 r2 D2(5) [OF b] by auto
qed

lemma reshape_slots_spec:
  assumes "of_ok D f" "iter_ok iter" "\<And>b. b \<in> set bl \<Longrightarrow> b < length (lf_blocks (of_manifest f))"
    "chunk_store_ok dk D s" "distinct bl" "inj reshape_ids" "reshape_ids ` set bl \<inter> used_ids f = {}"
  shows "\<exists>f' s' r. reshape_slots dk from_data iter now reshape_ids bl f s = Some (f', s', r) \<and>
    reshape_rel D dk (set bl) (reshape_ids ` set bl) f s f' s' r"
  using assms
proof (induction bl arbitrary: f s)
  case Nil
  then show ?case by (simp add: reshape_rel_def)
next
  case (Cons b bl)
  obtain f1 s1 r1 where 1: "reshape_slot dk from_data iter now reshape_ids b f s = Some (f1, s1, r1)"
    "reshape_rel D dk {b} {reshape_ids b} f s f1 s1 r1"
    using reshape_slot_spec [OF Cons.prems(1,2) _ Cons.prems(4), of b reshape_ids from_data now] Cons.prems(3,7)
    by auto
  note D1 = reshape_relD [OF 1(2)]
  show ?case
  proof (cases r1)
    case (Inl e)
    then have "\<not> all_readable f (lf_ids (of_manifest f)) s" using D1(9) by auto
    then have "reshape_rel D dk (insert b (set bl)) (insert (reshape_ids b) (reshape_ids ` set bl)) f s f1 s1 r1"
      using 1(2) unfolding reshape_rel_def by blast
    then show ?thesis using 1(1) Inl by simp
  next
    case (Inr u)
    have len: "length (lf_blocks (of_manifest f1)) = length (lf_blocks (of_manifest f))"
      using D1(3) by (simp add: same_file_def)
    have "reshape_ids b \<notin> reshape_ids ` set bl" using Cons.prems(5,6) by (auto dest: injD)
    moreover have "reshape_ids ` set bl \<inter> used_ids f = {}" using Cons.prems(7) by auto
    moreover have "A \<inter> U = {} \<Longrightarrow> x \<notin> A \<Longrightarrow> U' \<subseteq> {x} \<union> U \<Longrightarrow> A \<inter> U' = {}" for A U U' and x :: chunk_id
      by blast
    ultimately have "reshape_ids ` set bl \<inter> used_ids f1 = {}" using D1(4) by metis
    then obtain f2 s2 r2 where 2: "reshape_slots dk from_data iter now reshape_ids bl f1 s1 = Some (f2, s2, r2)"
      "reshape_rel D dk (set bl) (reshape_ids ` set bl) f1 s1 f2 s2 r2"
      using Cons.IH [OF D1(1) Cons.prems(2) _ D1(2) _ Cons.prems(6)] Cons.prems(3,5) len by auto
    have "reshape_rel D dk (insert b (set bl)) (insert (reshape_ids b) (reshape_ids ` set bl)) f s f2 s2 r2"
      using reshape_rel_trans [OF _ 2(2), of b "reshape_ids b" f s] 1(2) Inr Cons.prems(5) by simp
    then show ?thesis using 1(1) 2(1) Inr by simp
  qed
qed

lemma is_reshaped_blocks_iff: "is_reshaped_blocks blocks \<longleftrightarrow> (\<forall>cs \<in> set blocks. is_reshaped_blocks [cs])"
  by (induction blocks rule: is_reshaped_blocks.induct) auto

lemma reshape_spec:
  assumes "of_ok D f" "iter_ok iter" "chunk_store_ok dk D s" "fresh_ids reshape_ids f"
  obtains f' s' r where "reshape dk from_data iter now reshape_ids f s = Some (f', s', r)"
    "reshape_rel D dk {..< length (lf_blocks (of_manifest f))} (range reshape_ids) f s f' s' r"
    "all_readable f (lf_ids (of_manifest f)) s \<Longrightarrow> r = Inr () \<and> lf_is_reshaped (of_manifest f')"
proof -
  let ?n = "length (lf_blocks (of_manifest f))"
  have "inj reshape_ids" "range reshape_ids \<inter> used_ids f = {}" using assms(4) by (auto simp: fresh_ids_def used_ids_def)
  moreover from this have "reshape_ids ` set [0..<?n] \<inter> used_ids f = {}" by auto
  ultimately obtain f' s' r where 1: "reshape dk from_data iter now reshape_ids f s = Some (f', s', r)"
    "reshape_rel D dk (set [0..<?n]) (reshape_ids ` set [0..<?n]) f s f' s' r"
    using reshape_slots_spec [OF assms(1,2) _ assms(3), of "[0..<?n]" reshape_ids from_data now]
    by (auto simp: reshape_def)
  note D1 = reshape_relD [OF 1(2)]
  have rel: "reshape_rel D dk {..<?n} (range reshape_ids) f s f' s' r"
    using 1(2) unfolding reshape_rel_def by (auto simp: atLeast0LessThan subset_iff)
  have "r = Inr () \<and> lf_is_reshaped (of_manifest f')" if "all_readable f (lf_ids (of_manifest f)) s"
  proof -
    have "length (lf_blocks (of_manifest f')) = ?n" using D1(3) by (simp add: same_file_def)
    then show ?thesis
      using D1(9) [OF that] unfolding lf_is_reshaped_def is_reshaped_blocks_iff [of "lf_blocks _"]
      by (auto simp: in_set_conv_nth)
  qed
  with 1(1) rel that show thesis by blast
qed

subsection \<open>Flush\<close>

lemma data_of_flushed: "of_new_chunks f' = [] \<Longrightarrow> data_of D f' = D"
  by (simp add: data_of_def fun_eq_iff)

text \<open>
  The ids of the chunks in memory, and those about to be drawn, are unknown to the store as blocks
  and have not been read from it.
\<close>

definition memory_fresh :: "(nat \<Rightarrow> chunk_id) \<Rightarrow> opened_file \<Rightarrow> chunk_store \<Rightarrow> bool" where
  "memory_fresh reshape_ids f s \<longleftrightarrow>
     (\<forall>i. in_memory f i \<or> i \<in> range reshape_ids \<longrightarrow> store_fresh s i)"

lemma force_flush_spec:
  assumes ok: "of_ok D f" and iter: "iter_ok iter" and s: "chunk_store_ok dk D s" "key_ok dk"
    and ids: "fresh_ids reshape_ids f" and mem: "memory_fresh reshape_ids f s"
    and up: "of_updater f = Some u" and root: "fm_id (lf_base (of_manifest f)) \<noteq> ck_root_manifest_id s"
  obtains f' s' r D' where
    "force_reshape_and_flush dk dump from_data iter now reshape_ids f s = Some (f', s', r)"
    "of_ok D' f'" "chunk_store_ok dk D' s'" "file_bytes D' f' = file_bytes D f"
    "of_updater f' = of_updater f" "of_cursors f' = of_cursors f"
    "r = Inr () \<Longrightarrow> of_flush_needed f \<Longrightarrow> of_new_chunks f' = [] \<and> of_removed_chunks f' = [] \<and>
       \<not> of_flush_needed f' \<and> ck_file_manifests s' (fm_id (lf_base (of_manifest f'))) = Some (of_manifest f') \<and>
       manifest_stored dump s' (of_manifest f')"
    "ck_storage s \<noteq> None \<Longrightarrow> ck_faults s = [] \<Longrightarrow> of_flush_needed f \<Longrightarrow> all_readable f (lf_ids (of_manifest f)) s \<Longrightarrow>
       r = Inr () \<and> lf_is_reshaped (of_manifest f') \<and> (\<forall>i \<in> lf_ids (of_manifest f'). available s' i)"
proof (cases "of_flush_needed f")
  case False
  then show thesis using that [of f s "Inr ()" D] ok s by (simp add: force_reshape_and_flush_def)
next
  case True
  obtain f1 s1 r1 where 1: "reshape dk from_data iter now reshape_ids f s = Some (f1, s1, r1)"
    "reshape_rel D dk {..< length (lf_blocks (of_manifest f))} (range reshape_ids) f s f1 s1 r1"
    "all_readable f (lf_ids (of_manifest f)) s \<Longrightarrow> r1 = Inr () \<and> lf_is_reshaped (of_manifest f1)"
    using reshape_spec [OF ok iter s(1) ids] by metis
  note D1 = reshape_relD [OF 1(2)]
  have same: "file_bytes D f1 = file_bytes D f" "of_updater f1 = of_updater f" "of_cursors f1 = of_cursors f"
    "lf_base (of_manifest f1) = lf_base (of_manifest f)"
    using D1(3) by (simp_all add: same_file_def file_bytes_def)
  show thesis
  proof (cases r1)
    case (Inl e)
    moreover from this 1(3) have "\<not> all_readable f (lf_ids (of_manifest f)) s" by auto
    ultimately show thesis
      using that [of f1 s1 r1 D] 1(1) D1(1,2) same True by (simp add: force_reshape_and_flush_def)
  next
    case (Inr v)
    define D' where "D' = data_of D f1"
    have dist: "distinct (map fst (of_new_chunks f1))" using D1(1) by (simp add: of_ok_def)
    have fresh1: "store_fresh s1 i" if "in_memory f1 i" for i
    proof -
      have "i \<in> range reshape_ids \<or> in_memory f i" using D1(6) that .
      then show ?thesis using D1(8) [of i] mem ids by (auto simp: memory_fresh_def fresh_ids_def)
    qed
    have rid1: "fm_id (lf_base (of_manifest f1)) \<noteq> ck_root_manifest_id s1"
      using root D1(10) same(4) by (simp add: store_frame_def)
    have l: "D' i = d" if "map_of (of_new_chunks f1) i = Some d" for i d using that by (simp add: D'_def data_of_def)
    have l': "D' i = D i" if "map_of (of_new_chunks f1) i = None" for i using that by (simp add: D'_def data_of_def)
    obtain s2 r2 where 2: "update_file_manifest_and_continue dk dump (of_manifest f1) (of_new_chunks f1)
        (of_removed_chunks f1) s1 = Some (s2, r2)"
      "r2 = Inr () \<Longrightarrow> chunk_store_ok dk D' s2" "r2 \<noteq> Inr () \<Longrightarrow> chunk_store_ok dk D s2"
      "r2 = Inr () \<Longrightarrow> ck_file_manifests s2 (fm_id (lf_base (of_manifest f1))) = Some (of_manifest f1) \<and>
        manifest_stored dump s2 (of_manifest f1)"
      using update_file_manifest_ok [OF D1(2) s(2) dist l l' _ _ rid1, of dump "of_removed_chunks f1"] fresh1
      by (auto simp: store_fresh_def in_memory_iff)
    have av2: "r2 = Inr () \<and> (\<forall>i \<in> lf_ids (of_manifest f1). available s2 i)"
      if st: "ck_storage s1 = Some db" "ck_faults s1 = []" and rd: "all_readable f1 (lf_ids (of_manifest f1)) s1" for db
    proof -
      obtain s3 where s3: "update_file_manifest_and_continue dk dump (of_manifest f1) (of_new_chunks f1)
          (of_removed_chunks f1) s1 = Some (s3, Inr ())"
        "\<And>i. i \<notin> set (of_removed_chunks f1) \<Longrightarrow> i \<in> fst ` set (of_new_chunks f1) \<or> available s1 i \<Longrightarrow> available s3 i"
        using update_file_manifest_available [OF dist st(2,1) rid1, of dk dump "of_removed_chunks f1"] by metis
      have "set (of_removed_chunks f1) \<inter> lf_ids (of_manifest f1) = {}" using D1(1) by (simp add: of_ok_def)
      then have "available s3 i" if "i \<in> lf_ids (of_manifest f1)" for i
        using s3(2) [of i] rd that by (auto simp: all_readable_def in_memory_iff)
      then show ?thesis using s3(1) 2(1) by auto
    qed
    let ?f2 = "f1\<lparr>of_new_chunks := [], of_removed_chunks := [], of_bytes_written_since_last_flush := 0,
      of_flush_needed := False\<rparr>"
    have f2: "of_ok D' ?f2" "file_bytes D' ?f2 = file_bytes D f1"
      using D1(1) data_of_flushed [of ?f2 D']
      by (auto simp: of_ok_def D'_def file_bytes_def file_byte_def)
    have av: "r2 = Inr () \<and> lf_is_reshaped (of_manifest f1) \<and> (\<forall>i \<in> lf_ids (of_manifest f1). available s2 i)"
      if "ck_storage s \<noteq> None" "ck_faults s = []" "all_readable f (lf_ids (of_manifest f)) s"
    proof -
      have "ck_storage s1 \<noteq> None" "ck_faults s1 = []" using D1(10) that by (auto simp: store_frame_def)
      then show ?thesis using av2 D1(9) [OF that(3)] 1(3) [OF that(3)] by auto
    qed
    have run: "force_reshape_and_flush dk dump from_data iter now reshape_ids f s =
        Some (case r2 of Inl StoreStopped \<Rightarrow> (f1, s2, Inl FlushStopped)
          | Inl StoreInternal \<Rightarrow> (f1, s2, Inl FlushInternal) | Inr _ \<Rightarrow> (?f2, s2, Inr ()))"
      using True 1(1) Inr same(2) up 2(1) by (simp add: force_reshape_and_flush_def)
    show thesis
    proof (cases r2)
      case (Inl e)
      define r where "r = (case e of StoreStopped \<Rightarrow> Inl FlushStopped | StoreInternal \<Rightarrow> (Inl FlushInternal :: flush_error + unit))"
      have "force_reshape_and_flush dk dump from_data iter now reshape_ids f s = Some (f1, s2, r)" "r \<noteq> Inr ()"
        using run Inl by (cases e; simp add: r_def)+
      then show thesis
        using that [of f1 s2 r D] D1(1) 2(3) Inl same av by auto
    next
      case r2: (Inr w)
      then show thesis
        using that [of ?f2 s2 "Inr ()" D'] run f2 2(2,4) same av by (auto simp: data_of_flushed)
    qed
  qed
qed

end
