(* ===== verification/File_Spec.thy ===== *)
theory File_Spec
  imports File_Flush
begin

text \<open>
  The contract of an opened file, as seen by a client that only knows its bytes, and its
  implementation by the chunk views.

  The locale \<open>byte_file\<close> states it: writes splice, resizes cut or fill with zeroes, and a read
  returns a slice. What a client does with it (reading back what was written, and not disturbing
  the rest) is proved once in the locale. It is interpreted on the opened files of the model, whose
  state pairs the file with the data of the chunks not in memory.
\<close>

subsection \<open>Lists of bytes\<close>

lemma length_splice [simp]: "length (splice off data bytes) = (if data = [] then max (length bytes) off else max (length bytes) (off + length data))"
  by (auto simp: splice_def)

lemma nth_splice:
  assumes "p < length (splice off data bytes)"
  shows "splice off data bytes ! p =
    (if off \<le> p \<and> p < off + length data then data ! (p - off) else if p < length bytes then bytes ! p else 0)"
  using assms by (auto simp: splice_def nth_append min_def)

locale byte_file =
  fixes ok :: "'f \<Rightarrow> bool" and content :: "'f \<Rightarrow> byte list"
    and writes :: "nat \<Rightarrow> byte list \<Rightarrow> 'f \<Rightarrow> 'f \<Rightarrow> bool"
    and resizes :: "nat \<Rightarrow> 'f \<Rightarrow> 'f \<Rightarrow> bool"
    and reads :: "nat \<Rightarrow> nat \<Rightarrow> 'f \<Rightarrow> byte list \<Rightarrow> bool"
  assumes write_law: "ok f \<Longrightarrow> writes off data f f' \<Longrightarrow>
      ok f' \<and> data \<noteq> [] \<and> content f' = splice off data (content f)"
    and resize_law: "ok f \<Longrightarrow> resizes n f f' \<Longrightarrow> ok f' \<and> content f' = resize_bytes n (content f)"
    and read_law: "ok f \<Longrightarrow> reads off n f bytes \<Longrightarrow> bytes = take n (drop off (content f))"
begin

lemma read_after_write:
  assumes "ok f" "writes off data f f'" "reads off (length data) f' bytes" shows "bytes = data"
proof -
  have w: "ok f'" "data \<noteq> []" "content f' = splice off data (content f)" using write_law assms(1,2) by blast+
  have "bytes = take (length data) (drop off (splice off data (content f)))"
    using read_law [OF w(1) assms(3)] w(3) by simp
  also have "\<dots> = data" by (auto simp: splice_def min_def)
  finally show ?thesis .
qed

lemma read_elsewhere:
  assumes "ok f" "writes off data f f'" "reads a n f x" "reads a n f' y" "a + n \<le> length (content f)"
    "a + n \<le> off \<or> off + length data \<le> a"
  shows "y = x"
proof -
  have w: "ok f'" "data \<noteq> []" "content f' = splice off data (content f)" using write_law assms(1,2) by blast+
  have "take n (drop a (splice off data (content f))) = take n (drop a (content f))"
  proof (rule nth_equalityI)
    show l: "length (take n (drop a (splice off data (content f)))) = length (take n (drop a (content f)))"
      using assms(5) w(2) by (auto simp: min_def)
    fix i assume "i < length (take n (drop a (splice off data (content f))))"
    then have i: "i < n" "a + i < length (content f)" using l assms(5) by auto
    then have "a + i < length (splice off data (content f))" using w(2) by auto
    then show "take n (drop a (splice off data (content f))) ! i = take n (drop a (content f)) ! i"
      using i assms(6) nth_splice [of "a + i" off data "content f"] by auto
  qed
  then show ?thesis using read_law [OF assms(1,3)] read_law [OF w(1) assms(4)] w(3) by simp
qed

lemma read_resized:
  assumes "ok f" "resizes n f f'" "reads 0 n f' bytes" shows "bytes = resize_bytes n (content f)"
  using resize_law [OF assms(1,2)] read_law [of f' 0 n bytes] assms(3) by (simp add: resize_bytes_def)

end

subsection \<open>Opened files\<close>

lemma file_bytes_length [simp]: "length (file_bytes D f) = lf_size (of_manifest f)"
  by (simp add: file_bytes_def)

lemma file_bytes_nth: "p < lf_size (of_manifest f) \<Longrightarrow> file_bytes D f ! p = file_byte D f p"
  by (simp add: file_bytes_def)

lemma file_byte_beyond:
  assumes "of_ok D f" "lf_size (of_manifest f) \<le> p" shows "file_byte D f p = 0"
proof -
  have m: "lf_in_range (of_manifest f)" "lf_accepted (of_manifest f)" using assms(1) by (auto simp: of_ok_def)
  have "byte_source (of_manifest f) p = None"
    using chunk_source_Some [of _ p] lf_acceptedD(5) [OF m] assms(2)
    by (cases "byte_source (of_manifest f) p") (fastforce simp: byte_source_def)+
  then show ?thesis by (simp add: file_byte_def source_byte_def)
qed

lemma of_write_content:
  assumes "of_ok D f" "iter_ok iter" "fresh_ids new_ids f" "data \<noteq> []" "length data < 2 ^ 63"
    "off + length data + lf_blocksize (of_manifest f) < u64_bound"
  obtains f' where "of_write iter new_ids now off data f = Some f'" "of_ok D f'"
    "file_bytes D f' = splice off data (file_bytes D f)" "of_flush_needed f'" "of_modified_since_opened f'"
    "of_updater f' = of_updater f" "of_cursors f' = of_cursors f"
proof (rule of_write_spec [OF assms, of now])
  fix f' assume f': "of_write iter new_ids now off data f = Some f'" "of_ok D f'"
    "lf_size (of_manifest f') = max (lf_size (of_manifest f)) (off + length data)"
    "\<And>p. file_byte D f' p = (if off \<le> p \<and> p < off + length data then data ! (p - off) else file_byte D f p)"
    "of_updater f' = of_updater f" "of_cursors f' = of_cursors f" "of_flush_needed f'" "of_modified_since_opened f'"
  have "file_bytes D f' = splice off data (file_bytes D f)"
  proof (rule nth_equalityI)
    show "length (file_bytes D f') = length (splice off data (file_bytes D f))" using f'(3) assms(4) by simp
    fix p assume "p < length (file_bytes D f')"
    then show "file_bytes D f' ! p = splice off data (file_bytes D f) ! p"
      using f'(3,4) assms(4) nth_splice [of p off data "file_bytes D f"] file_byte_beyond [OF assms(1), of p]
      by (auto simp: file_bytes_nth)
  qed
  with f' that show thesis by blast
qed

lemma of_resize_content:
  assumes "of_ok D f" "iter_ok iter" "n + lf_blocksize (of_manifest f) < u64_bound"
  obtains f' where "of_resize iter now n f = Some f'" "of_ok D f'"
    "file_bytes D f' = resize_bytes n (file_bytes D f)" "of_flush_needed f'" "of_modified_since_opened f'"
    "of_updater f' = of_updater f" "of_cursors f' = of_cursors f"
proof (rule of_resize_spec [OF assms, of now])
  fix f' assume f': "of_resize iter now n f = Some f'" "of_ok D f'" "lf_size (of_manifest f') = n"
    "\<And>p. file_byte D f' p = (if p < n then file_byte D f p else 0)"
    "of_updater f' = of_updater f" "of_cursors f' = of_cursors f" "of_flush_needed f'" "of_modified_since_opened f'"
  have "file_bytes D f' = resize_bytes n (file_bytes D f)"
  proof (rule nth_equalityI)
    fix p assume "p < length (file_bytes D f')"
    then show "file_bytes D f' ! p = resize_bytes n (file_bytes D f) ! p"
      using f'(3,4) file_byte_beyond [OF assms(1), of p]
      by (auto simp: file_bytes_nth resize_bytes_def nth_append min_def)
  qed (use f'(3) in \<open>auto simp: resize_bytes_def\<close>)
  with f' that show thesis by blast
qed

lemma slice_file_bytes:
  "map (file_byte D f) [off ..< off + min sz (lf_size (of_manifest f) - off)] = take sz (drop off (file_bytes D f))"
  by (rule nth_equalityI) (auto simp: file_bytes_nth)

subsection \<open>The model implements the contract\<close>

type_synonym file_state = "(chunk_id \<Rightarrow> byte list) \<times> opened_file"

definition model_ok :: "file_state \<Rightarrow> bool" where
  "model_ok df = of_ok (fst df) (snd df)"

definition model_content :: "file_state \<Rightarrow> byte list" where
  "model_content df = file_bytes (fst df) (snd df)"

definition model_writes :: "nat \<Rightarrow> byte list \<Rightarrow> file_state \<Rightarrow> file_state \<Rightarrow> bool" where
  "model_writes off data df df' \<longleftrightarrow> data \<noteq> [] \<and> length data < 2 ^ 63 \<and>
     off + length data + lf_blocksize (of_manifest (snd df)) < u64_bound \<and> fst df' = fst df \<and>
     (\<exists>iter new_ids now. iter_ok iter \<and> fresh_ids new_ids (snd df) \<and>
        of_write iter new_ids now off data (snd df) = Some (snd df'))"

definition model_resizes :: "nat \<Rightarrow> file_state \<Rightarrow> file_state \<Rightarrow> bool" where
  "model_resizes n df df' \<longleftrightarrow> n + lf_blocksize (of_manifest (snd df)) < u64_bound \<and> fst df' = fst df \<and>
     (\<exists>iter now. iter_ok iter \<and> of_resize iter now n (snd df) = Some (snd df'))"

definition model_reads :: "nat \<Rightarrow> nat \<Rightarrow> file_state \<Rightarrow> byte list \<Rightarrow> bool" where
  "model_reads off n df bytes \<longleftrightarrow>
     (\<exists>dk fetch now s s' k. chunk_store_ok dk (fst df) s \<and> key_ok dk \<and> fetch_ok fetch (fst df) \<and>
        of_read dk fetch now off n (snd df) s = Some (s', Inr (k, bytes)))"

interpretation model: byte_file model_ok model_content model_writes model_resizes model_reads
proof unfold_locales
  fix f f' :: file_state and off data n bytes
  assume ok: "model_ok f"
  show "model_ok f' \<and> data \<noteq> [] \<and> model_content f' = splice off data (model_content f)"
    if w: "model_writes off data f f'"
  proof -
    obtain iter new_ids now where i: "iter_ok iter" "fresh_ids new_ids (snd f)"
      "of_write iter new_ids now off data (snd f) = Some (snd f')"
      using w by (auto simp: model_writes_def)
    have l: "data \<noteq> []" "length data < 2 ^ 63" "off + length data + lf_blocksize (of_manifest (snd f)) < u64_bound"
      and D: "fst f' = fst f"
      using w by (auto simp: model_writes_def)
    have "of_ok (fst f) (snd f)" using ok by (simp add: model_ok_def)
    from of_write_content [OF this i(1,2) l, of now] i(3) D l(1) show ?thesis
      by (auto simp: model_ok_def model_content_def)
  qed
  show "model_ok f' \<and> model_content f' = resize_bytes n (model_content f)" if w: "model_resizes n f f'"
  proof -
    obtain iter now where i: "iter_ok iter" "of_resize iter now n (snd f) = Some (snd f')"
      and l: "n + lf_blocksize (of_manifest (snd f)) < u64_bound" and D: "fst f' = fst f"
      using w by (auto simp: model_resizes_def)
    have "of_ok (fst f) (snd f)" using ok by (simp add: model_ok_def)
    from of_resize_content [OF this i(1) l, of now] i(2) D show ?thesis
      by (auto simp: model_ok_def model_content_def)
  qed
  show "bytes = take n (drop off (model_content f))" if r: "model_reads off n f bytes"
  proof -
    obtain dk fetch now s s' k where s: "chunk_store_ok dk (fst f) s" "key_ok dk" "fetch_ok fetch (fst f)"
      "of_read dk fetch now off n (snd f) s = Some (s', Inr (k, bytes))"
      using r by (auto simp: model_reads_def)
    have "of_ok (fst f) (snd f)" using ok by (simp add: model_ok_def)
    from of_read_spec [OF this s(1-3) refl, of now off n] s(4) show ?thesis
      by (auto simp: model_content_def slice_file_bytes)
  qed
qed

end
