(* ===== verification/File_Table.thy ===== *)
theory File_Table
  imports File_Descriptors File_Spec
begin

text \<open>
  The table of opened files as a transition system: \<open>ops_step\<close> is one call of an operation of
  \<open>File_Descriptors\<close>, with any environment, random ids and outcome of the store. The invariant
  \<open>ops_ok\<close> holds in every reachable state: descriptors and cursors match, a file is in the table as
  long as a descriptor names it, and an updater is the lock of its own file.
\<close>

subsection \<open>What the operations leave alone in an opened file\<close>

definition same_handles :: "opened_file \<Rightarrow> opened_file \<Rightarrow> bool" where
  "same_handles f g \<longleftrightarrow> of_cursors g = of_cursors f \<and> of_updater g = of_updater f"

lemma same_handles_refl [simp]: "same_handles f f"
  by (simp add: same_handles_def)

lemma same_handles_trans: "same_handles f g \<Longrightarrow> same_handles g h \<Longrightarrow> same_handles f h"
  by (simp add: same_handles_def)

lemma push_write_operations_handles: "push_write_operations data ws f = Some g \<Longrightarrow> same_handles f g"
  by (induction data ws f rule: push_write_operations.induct)
    (auto simp: same_handles_def bind_eq_Some_conv)

lemma of_write_handles: "of_write iter new_ids now off data f = Some g \<Longrightarrow> same_handles f g"
  by (auto simp: of_write_def bind_eq_Some_conv same_handles_def swap.fold_fields Let_def
      dest!: push_write_operations_handles)

lemma of_resize_handles: "of_resize iter now n f = Some g \<Longrightarrow> same_handles f g"
  by (auto simp: of_resize_def bind_eq_Some_conv same_handles_def keep.fold_fields Let_def)

lemma reshape_apply_handles: "reshape_apply from_data iter b op buf f = Some g \<Longrightarrow> same_handles f g"
  by (auto simp: reshape_apply_def bind_eq_Some_conv same_handles_def keep.fold_fields Let_def split: if_splits)

lemma reshape_slot_handles: "reshape_slot dk from_data iter now ids b f s = Some (g, s', r) \<Longrightarrow> same_handles f g"
  by (auto simp: reshape_slot_def 
      split: option.split_asm sum.split_asm reshape_read.split_asm prod.split_asm dest!: reshape_apply_handles elim!: bind_SomeE)

lemma reshape_slots_handles:
  "reshape_slots dk from_data iter now ids bs f s = Some (g, s', r) \<Longrightarrow> same_handles f g"
  by (induction dk from_data iter now ids bs f s arbitrary: g s' r rule: reshape_slots.induct)
    (force split: sum.split_asm dest: reshape_slot_handles elim!: bind_SomeE intro: same_handles_trans)+

lemma force_flush_handles:
  "force_reshape_and_flush dk dump from_data iter now ids f s = Some (g, s', r) \<Longrightarrow> same_handles f g"
  by (auto simp: force_reshape_and_flush_def reshape_def  same_handles_def
      split: if_split_asm sum.split_asm store_error.split_asm dest!: reshape_slots_handles elim!: bind_SomeE)

lemma maybe_flush_handles:
  "maybe_early_reshape_and_flush dk dump from_data iter now ids f s = Some (g, s', r) \<Longrightarrow> same_handles f g"
  by (auto simp: maybe_early_reshape_and_flush_def split: if_splits dest: force_flush_handles elim!: bind_SomeE)

subsection \<open>The invariant\<close>

abbreviation fds_of :: "workspace_ops \<Rightarrow> (nat, vlob_id) hashmap" where
  "fds_of ops \<equiv> ofs_file_descriptors (ops_opened_files ops)"

abbreviation files_of :: "workspace_ops \<Rightarrow> (vlob_id, opened_file) hashmap" where
  "files_of ops \<equiv> ofs_opened_files (ops_opened_files ops)"

definition cursors_match :: "(nat \<rightharpoonup> vlob_id) \<Rightarrow> vlob_id \<Rightarrow> opened_file \<Rightarrow> bool" where
  "cursors_match fds v f \<longleftrightarrow> of_cursors f \<noteq> [] \<and> distinct (map oc_file_descriptor (of_cursors f)) \<and>
     (\<forall>fd. fd \<in> oc_file_descriptor ` set (of_cursors f) \<longleftrightarrow> fds fd = Some v)"

definition updater_match :: "per_manifest_update_lock \<Rightarrow> vlob_id \<Rightarrow> opened_file \<Rightarrow> bool" where
  "updater_match l v f \<longleftrightarrow> (\<forall>u. of_updater f = Some u \<longrightarrow> u = v \<and> lock_find l v \<noteq> None)"

definition ops_ok :: "workspace_ops \<Rightarrow> bool" where
  "ops_ok ops \<longleftrightarrow> hm_wf (fds_of ops) \<and> hm_wf (files_of ops) \<and> lock_wf (ops_locks ops) \<and>
     (\<forall>fd v. hm_get (fds_of ops) fd = Some v \<longrightarrow> fd < ofs_next_file_descriptor (ops_opened_files ops)) \<and>
     (\<forall>fd v. hm_get (fds_of ops) fd = Some v \<longrightarrow> hm_get (files_of ops) v \<noteq> None) \<and>
     (\<forall>v f. hm_get (files_of ops) v = Some f \<longrightarrow>
        cursors_match (hm_get (fds_of ops)) v f \<and> updater_match (ops_locks ops) v f)"

lemma ops_okD:
  assumes "ops_ok ops"
  shows "hm_wf (fds_of ops)" "hm_wf (files_of ops)" "lock_wf (ops_locks ops)"
    "\<And>fd v. hm_get (fds_of ops) fd = Some v \<Longrightarrow> fd < ofs_next_file_descriptor (ops_opened_files ops)"
    "\<And>fd v. hm_get (fds_of ops) fd = Some v \<Longrightarrow> \<exists>f. hm_get (files_of ops) v = Some f"
    "\<And>v f. hm_get (files_of ops) v = Some f \<Longrightarrow> cursors_match (hm_get (fds_of ops)) v f"
    "\<And>v f. hm_get (files_of ops) v = Some f \<Longrightarrow> updater_match (ops_locks ops) v f"
  using assms unfolding ops_ok_def by blast+

lemma ops_ok_store [simp]: "ops_ok (ops\<lparr>ops_store := s\<rparr>) = ops_ok ops"
  by (simp add: ops_ok_def)

lemma ops_ok_events [simp]: "ops_ok (ops\<lparr>ops_events := es\<rparr>) = ops_ok ops"
  by (simp add: ops_ok_def)

lemma ops_ok_put:
  assumes ok: "ops_ok ops" and f: "hm_get (files_of ops) v = Some f" and h: "same_handles f g"
  shows "ops_ok (put_file v g ops)"
proof -
  have "cursors_match (hm_get (fds_of ops)) v g" "updater_match (ops_locks ops) v g"
    using ops_okD(6,7) [OF ok f] h by (auto simp: cursors_match_def updater_match_def same_handles_def)
  then show ?thesis using ok
    by (auto simp: ops_ok_def put_file_def hm_simps distinct_update)
qed

lemma retrieve_ok [consumes 1, case_names unknown known]:
  assumes "ops_ok ops"
  obtains "hm_get (fds_of ops) fd = None" "retrieve_opened_file fd ops = Some (Inl ())"
  | v f c where "hm_get (fds_of ops) fd = Some v" "hm_get (files_of ops) v = Some f"
      "retrieve_opened_file fd ops = Some (Inr (v, f))" "find_cursor fd f = Some c" "c \<in> set (of_cursors f)"
      "oc_file_descriptor c = fd"
proof (cases "hm_get (fds_of ops) fd")
  case None
  then show thesis using that(1) by (simp add: retrieve_opened_file_def)
next
  case (Some v)
  obtain f where f: "hm_get (files_of ops) v = Some f" using ops_okD(5) [OF assms Some] by blast
  have "fd \<in> oc_file_descriptor ` set (of_cursors f)"
    using ops_okD(6) [OF assms f] Some by (simp add: cursors_match_def)
  then obtain c where "find_cursor fd f = Some c"
    using find_None_iff [of "\<lambda>c. oc_file_descriptor c = fd" "of_cursors f"]
    by (cases "find_cursor fd f") (auto simp: find_cursor_def)
  moreover from this have "c \<in> set (of_cursors f)" "oc_file_descriptor c = fd"
    by (auto simp: find_cursor_def find_Some_iff)
  ultimately show thesis using that(2) [OF Some f] Some f by (simp add: retrieve_opened_file_def)
qed

subsection \<open>Preservation\<close>

lemma fd_read_ok: "ops_ok ops \<Longrightarrow> fd_read env fd off n ops = Some (ops', r) \<Longrightarrow> ops_ok ops'"
  by (auto simp: fd_read_def split: sum.split_asm option.split_asm if_split_asm elim!: bind_SomeE)

lemma flush_file_early_ok:
  assumes "flush_file_early env ids v g ops = Some (ops', r)" "same_handles f g"
    "hm_get (files_of ops) v = Some f" "ops_ok ops"
  shows "ops_ok ops'"
proof -
  obtain h s where h: "ops' = put_file v h (ops\<lparr>ops_store := s\<rparr>)" "same_handles g h"
    using assms(1) by (auto simp: flush_file_early_def dest: maybe_flush_handles elim!: bind_SomeE)
  have "same_handles f h" using assms(2) h(2) by (rule same_handles_trans)
  then show ?thesis unfolding h(1) by (intro ops_ok_put [where f = f]) (use assms(3,4) in simp_all)
qed

lemma retrieve_known:
  "retrieve_opened_file fd ops = Some (Inr (v, f)) \<Longrightarrow> hm_get (files_of ops) v = Some f"
  by (auto simp: retrieve_opened_file_def split: option.splits)

lemma fd_write_ok:
  assumes "ops_ok ops" "fd_write env ids ids' fd data mode ops = Some (ops', r)" shows "ops_ok ops'"
  using assms
  by (auto simp: fd_write_def  split: sum.split_asm option.split_asm if_split_asm
      dest!: retrieve_known of_write_handles elim!: bind_SomeE)
    (blast intro: flush_file_early_ok)+

lemma fd_resize_ok:
  assumes "ops_ok ops" "fd_resize env ids fd n trunc ops = Some (ops', r)" shows "ops_ok ops'"
  using assms
  by (auto simp: fd_resize_def  split: sum.split_asm option.split_asm if_split_asm
      dest!: retrieve_known of_resize_handles elim!: bind_SomeE)
    (blast intro: flush_file_early_ok)+

lemma flush_file_handles:
  "flush_file env ids f ops = Some (g, ops', r) \<Longrightarrow> same_handles f g \<and> (\<exists>s. ops' = ops\<lparr>ops_store := s\<rparr>)"
  by (auto simp: flush_file_def  dest: force_flush_handles elim!: bind_SomeE)

lemma fd_flush_ok:
  assumes "ops_ok ops" "fd_flush env ids fd ops = Some (ops', r)" shows "ops_ok ops'"
  using assms(1)
proof (cases rule: retrieve_ok [where fd = fd])
  case (known v f c)
  show ?thesis
  proof (cases "oc_write_mode c = WriteDenied")
    case True
    then show ?thesis using assms known by (simp add: fd_flush_def)
  next
    case False
    then obtain g s where "ops' = put_file v g (ops\<lparr>ops_store := s\<rparr>)" "same_handles f g"
      using assms known by (auto simp: fd_flush_def elim!: bind_SomeE dest!: flush_file_handles)
    then show ?thesis using ops_ok_put [of "ops\<lparr>ops_store := s\<rparr>" v f g] assms(1) known(2) by simp
  qed
qed (use assms in \<open>simp add: fd_flush_def\<close>)

subsection \<open>Closing\<close>

lemma cursor_index_Some:
  "cursor_index fd cs = Some n \<Longrightarrow> n < length cs \<and> oc_file_descriptor (cs ! n) = fd"
  by (induction fd cs arbitrary: n rule: cursor_index.induct) (auto split: if_splits)

lemma cursor_index_None: "cursor_index fd cs = None \<longleftrightarrow> fd \<notin> oc_file_descriptor ` set cs"
  by (induction fd cs rule: cursor_index.induct) auto

lemma cursors_match_remove:
  assumes m: "cursors_match fds v f" and i: "cursor_index fd (of_cursors f) = Some n"
    and rest: "\<exists>fd'. fd' \<noteq> fd \<and> fds fd' = Some v"
  shows "cursors_match (fds(fd := None)) v (f\<lparr>of_cursors := swap_remove n (of_cursors f)\<rparr>)"
proof -
  let ?d = "map oc_file_descriptor (of_cursors f)"
  have n: "n < length ?d" "?d ! n = fd" using cursor_index_Some [OF i] by auto
  have d: "distinct ?d" and s: "\<And>x. x \<in> set ?d \<longleftrightarrow> fds x = Some v" using m by (auto simp: cursors_match_def)
  have r: "map oc_file_descriptor (swap_remove n (of_cursors f)) = swap_remove n ?d"
    using n by (simp add: map_swap_remove)
  have set: "set (swap_remove n ?d) = set ?d - {fd}" using swap_remove_set [OF d n(1)] n(2) by simp
  have dist: "distinct (swap_remove n ?d)" using distinct_swap_remove [OF d n(1)] .
  obtain fd' where "fd' \<in> set (swap_remove n ?d)" using rest s set by auto
  then have "swap_remove n (of_cursors f) \<noteq> []" using r by auto
  moreover have "x \<in> oc_file_descriptor ` set (swap_remove n (of_cursors f)) \<longleftrightarrow> (fds(fd := None)) x = Some v" for x
    using arg_cong [OF r, of set] set s [of x] by auto
  ultimately show ?thesis using dist r by (simp add: cursors_match_def)
qed

lemma updater_match_release:
  assumes "updater_match l v f" "lock_release w l = Some (l', e)" "lock_wf l" "v \<noteq> w"
  shows "updater_match l' v f"
  using assms(1,4) lock_release_wf(2) [OF assms(3,2)] by (auto simp: updater_match_def)

lemma cursors_match_other:
  "cursors_match fds w f \<Longrightarrow> fds fd \<noteq> Some w \<Longrightarrow> cursors_match (fds(fd := None)) w f"
  by (auto simp: cursors_match_def)

lemma still_opened_iff:
  "hm_wf fds \<Longrightarrow> (\<exists>(_, w) \<in> set fds. w = v) \<longleftrightarrow> (\<exists>fd. hm_get fds fd = Some v)"
  by (force simp: map_of_eq_Some_iff)

text \<open>The table without a descriptor, its file kept with fewer cursors or dropped.\<close>

lemma ops_ok_close_some:
  assumes ok: "ops_ok ops" and fd: "hm_get (fds_of ops) fd = Some v" and f: "hm_get (files_of ops) v = Some f"
    and i: "cursor_index fd (of_cursors f) = Some n" and rest: "fd' \<noteq> fd" "hm_get (fds_of ops) fd' = Some v"
    and g: "same_handles (f\<lparr>of_cursors := swap_remove n (of_cursors f)\<rparr>) g"
  shows "ops_ok (put_file v g (ops\<lparr>ops_opened_files := (ops_opened_files ops)
           \<lparr>ofs_file_descriptors := hm_remove fd (fds_of ops)\<rparr>\<rparr>))"
proof -
  note o = ops_okD [OF ok]
  have "\<exists>x. x \<noteq> fd \<and> hm_get (fds_of ops) x = Some v" using rest by blast
  then have "cursors_match (hm_get (hm_remove fd (fds_of ops))) v g"
    using cursors_match_remove [OF o(6) [OF f] i] g
    unfolding hm_get_remove by (simp add: cursors_match_def same_handles_def)
  moreover have "updater_match (ops_locks ops) v g"
    using o(7) [OF f] g by (auto simp: updater_match_def same_handles_def)
  moreover have "cursors_match (hm_get (hm_remove fd (fds_of ops))) w h" if "hm_get (files_of ops) w = Some h" "w \<noteq> v" for w h
    unfolding hm_get_remove by (rule cursors_match_other [OF o(6) [OF that(1)]]) (use fd that(2) in simp)
  ultimately show ?thesis
    using o(1-5,7) by (auto simp: ops_ok_def put_file_def hm_simps distinct_update distinct_delete
        simp del: map_of_eq_Some_iff split: if_splits)
qed

lemma ops_ok_close_last:
  assumes ok: "ops_ok ops" and fd: "hm_get (fds_of ops) fd = Some v" and last: "\<And>fd'. hm_get (fds_of ops) fd' = Some v \<Longrightarrow> fd' = fd"
  shows "ops_ok (ops\<lparr>ops_opened_files := (ops_opened_files ops)
           \<lparr>ofs_file_descriptors := hm_remove fd (fds_of ops), ofs_opened_files := hm_remove v (files_of ops)\<rparr>\<rparr>)"
proof -
  note o = ops_okD [OF ok]
  have "cursors_match (hm_get (hm_remove fd (fds_of ops))) w h" if "hm_get (files_of ops) w = Some h" "w \<noteq> v" for w h
    unfolding hm_get_remove by (rule cursors_match_other [OF o(6) [OF that(1)]]) (use fd that(2) in simp)
  then show ?thesis
    using o(1-5,7) last by (auto simp: ops_ok_def hm_simps distinct_delete
        simp del: map_of_eq_Some_iff split: if_splits)
qed

lemma ops_ok_release:
  assumes ok: "ops_ok ops" and r: "close_updater v ops = Some ops'"
    and free: "\<And>f. hm_get (files_of ops) v = Some f \<Longrightarrow> of_updater f = None"
  shows "ops_ok ops'"
proof -
  obtain l e where l: "lock_release v (ops_locks ops) = Some (l, e)" "ops' = ops\<lparr>ops_locks := l\<rparr>"
    using r by (auto simp: close_updater_def)
  note o = ops_okD [OF ok] and rel = lock_release_wf [OF ops_okD(3) [OF ok] l(1)]
  have "updater_match l w f" if f: "hm_get (files_of ops) w = Some f" for w f
  proof (cases "w = v")
    case True
    then show ?thesis using free f by (simp add: updater_match_def)
  next
    case False
    then show ?thesis using updater_match_release [OF o(7) [OF f] l(1) o(3)] by simp
  qed
  then show ?thesis using o rel(1) l(2) by (simp add: ops_ok_def)
qed

lemma fd_close_ok:
  assumes ok: "ops_ok ops" and run: "fd_close env ids fd ops = Some (ops', r)" shows "ops_ok ops'"
  using ok
proof (cases rule: retrieve_ok [where fd = fd])
  case (known v f c)
  note o = ops_okD [OF ok]
  let ?fds = "hm_remove fd (fds_of ops)"
  have "fd \<in> oc_file_descriptor ` set (of_cursors f)" using known(5,6) by auto
  then obtain n where n: "cursor_index fd (of_cursors f) = Some n"
    using cursor_index_None [of fd "of_cursors f"] by auto
  let ?f = "f\<lparr>of_cursors := swap_remove n (of_cursors f)\<rparr>"
  have so: "(\<exists>(_, w) \<in> set ?fds. w = v) \<longleftrightarrow> (\<exists>fd'. fd' \<noteq> fd \<and> hm_get (fds_of ops) fd' = Some v)"
    using still_opened_iff [of ?fds v] o(1) by (auto simp: distinct_delete hm_simps)
  show ?thesis
  proof (cases "\<exists>fd'. fd' \<noteq> fd \<and> hm_get (fds_of ops) fd' = Some v")
    case True
    then obtain fd' where fd': "fd' \<noteq> fd" "hm_get (fds_of ops) fd' = Some v" by blast
    let ?ops = "ops\<lparr>ops_opened_files := (ops_opened_files ops)\<lparr>ofs_file_descriptors := ?fds\<rparr>\<rparr>"
    obtain g s where "same_handles ?f g" "ops' = put_file v g (?ops\<lparr>ops_store := s\<rparr>)"
      using run True known(1,2) n so by (auto simp: fd_close_def Let_def elim!: bind_SomeE dest!: flush_file_handles)
    moreover from this have "ops_ok (put_file v g ?ops)" using ops_ok_close_some [OF ok known(1,2) n fd'] by blast
    moreover have "put_file v g (?ops\<lparr>ops_store := s\<rparr>) = (put_file v g ?ops)\<lparr>ops_store := s\<rparr>" by (simp add: put_file_def)
    ultimately show ?thesis by simp
  next
    case False
    let ?ops = "ops\<lparr>ops_opened_files := (ops_opened_files ops)\<lparr>ofs_file_descriptors := ?fds,
      ofs_opened_files := hm_remove v (files_of ops)\<rparr>\<rparr>"
    have ok1: "ops_ok ?ops" using ops_ok_close_last [OF ok known(1)] False by blast
    obtain g s ops1 where g: "same_handles ?f g" "close_maybe_updater (of_updater g) (?ops\<lparr>ops_store := s\<rparr>) = Some ops1"
      "ops_ok ops' = ops_ok ops1"
      using run False known(1,2) n so
      by (auto simp: fd_close_def Let_def elim!: bind_SomeE dest!: flush_file_handles split: if_split_asm)
    have u: "of_updater g = None \<or> of_updater g = Some v"
      using o(7) [OF known(2)] g(1) by (cases "of_updater f") (auto simp: updater_match_def same_handles_def)
    have "ops_ok ops1"
    proof (cases "of_updater g")
      case None
      then show ?thesis using g(2) ok1 by (auto simp: close_maybe_updater_def)
    next
      case (Some w)
      then have "close_updater v (?ops\<lparr>ops_store := s\<rparr>) = Some ops1" using g(2) u by (simp add: close_maybe_updater_def)
      then show ?thesis using ops_ok_release [of "?ops\<lparr>ops_store := s\<rparr>" v ops1] ok1 by (simp add: hm_simps)
    qed
    then show ?thesis using g(3) by simp
  qed
qed (use assms in \<open>simp add: fd_close_def\<close>)

lemma ops_store_id: "\<exists>s. ops = ops\<lparr>ops_store := s\<rparr>"
  by (rule exI [of _ "ops_store ops"]) simp

lemma ops_locks_id: "\<exists>l. ops = ops\<lparr>ops_locks := l\<rparr>"
  by (rule exI [of _ "ops_locks ops"]) simp

lemma flush_all_handles:
  "flush_all env ids files bad ops = Some (files', bad', ops') \<Longrightarrow> \<exists>s. ops' = ops\<lparr>ops_store := s\<rparr>"
proof (induction env ids files bad ops arbitrary: files' bad' ops' rule: flush_all.induct)
  case (2 env ids v f rest bad ops)
  from "2.prems" obtain g ops1 r bad1 files1 where
    1: "flush_file env (ids v) f ops = Some (g, ops1, r)" and
    2: "flush_all env ids rest bad1 ops1 = Some (files1, bad', ops')" and
    b: "bad1 = (if \<not> isl (close_outcome r) \<or> bad \<noteq> None then bad else Some (close_outcome r))"
    by (auto simp: Let_def elim!: bind_SomeE)
  show ?case using "2.IH" [OF 1 refl refl b 2] flush_file_handles [OF 1] by auto
qed (auto simp: ops_store_id)

lemma close_updaters_wf:
  "close_updaters files ops = Some ops' \<Longrightarrow> lock_wf (ops_locks ops) \<Longrightarrow>
   lock_wf (ops_locks ops') \<and> (\<exists>l. ops' = ops\<lparr>ops_locks := l\<rparr>)"
proof (induction files ops rule: close_updaters.induct)
  case (2 v f rest ops)
  from "2.prems"(1) obtain ops1 where 1: "close_maybe_updater (of_updater f) ops = Some ops1"
    "close_updaters rest ops1 = Some ops'" by (auto elim!: bind_SomeE)
  have "lock_wf (ops_locks ops1) \<and> (\<exists>l. ops1 = ops\<lparr>ops_locks := l\<rparr>)"
    using 1(1) "2.prems"(2) lock_release_wf(1)
    by (auto simp: close_maybe_updater_def close_updater_def split: option.split_asm)
       (metis workspace_ops.surjective workspace_ops.update_convs(2))
  then show ?case using "2.IH" [OF 1] by auto
qed (auto simp: ops_locks_id)

lemma close_all_ok:
  assumes "ops_ok ops" "close_all_fds env ids ops = Some (ops', r)"
  shows "ops_ok ops'" "fds_of ops' = []" "files_of ops' = []"
proof -
  let ?ops = "ops\<lparr>ops_opened_files := (ops_opened_files ops)\<lparr>ofs_file_descriptors := [], ofs_opened_files := []\<rparr>\<rparr>"
  obtain files bad ops1 where 1: "flush_all env ids (files_of ops) None ?ops = Some (files, bad, ops1)"
    "close_updaters files ops1 = Some ops'"
    using assms(2) by (auto simp: close_all_fds_def Let_def elim!: bind_SomeE)
  obtain s where s: "ops1 = ?ops\<lparr>ops_store := s\<rparr>" using flush_all_handles [OF 1(1)] by blast
  then have "lock_wf (ops_locks ops1)" using ops_okD(3) [OF assms(1)] by simp
  then obtain l where "ops' = ops1\<lparr>ops_locks := l\<rparr>" "lock_wf l"
    using close_updaters_wf [OF 1(2)] by auto
  then show "ops_ok ops'" "fds_of ops' = []" "files_of ops' = []" using s by (auto simp: ops_ok_def)
qed

subsection \<open>Opening\<close>

lemma lock_take_grows:
  assumes "lock_take e v l = (l', out)"
  shows "lock_find l w \<noteq> None \<Longrightarrow> lock_find l' w \<noteq> None" "lock_find l' v \<noteq> None"
    "out = GuardTaken g \<Longrightarrow> lock_find l v = None"
  using assms
  by (auto simp: lock_take_def lock_find_append lock_find_set split: option.splits entry_lock_state.splits)

lemma ops_ok_take:
  assumes ok: "ops_ok ops" and t: "lock_take e v (ops_locks ops) = (l, out)"
  shows "ops_ok (ops\<lparr>ops_locks := l\<rparr>)"
proof -
  note o = ops_okD [OF ok]
  have "updater_match l w f" if "hm_get (files_of ops) w = Some f" for w f
    using o(7) [OF that] lock_take_grows(1) [OF t] by (auto simp: updater_match_def)
  then show ?thesis using o lock_take_wf [OF o(3) t] by (simp add: ops_ok_def)
qed

lemma close_updater_frame: "close_updater v ops = Some ops' \<Longrightarrow> ops_opened_files ops' = ops_opened_files ops"
  by (auto simp: close_updater_def)

lemma for_update_spec:
  assumes ok: "ops_ok ops" and run: "for_update_file populate e v ops = Some (ops', r)"
  shows "ops_ok ops'" "ops_opened_files ops' = ops_opened_files ops"
    "r = Inr m \<Longrightarrow> lock_find (ops_locks ops') v \<noteq> None"
    "r = Inr m \<Longrightarrow> hm_get (files_of ops) v = Some f \<Longrightarrow> of_updater f = None"
proof -
  obtain l out where t: "lock_take e v (ops_locks ops) = (l, out)" by fastforce
  note ok1 = ops_ok_take [OF ok t]
  have free: "of_updater f = None" if "hm_get (files_of ops) v = Some f" "out = GuardTaken g" for f g
    using ops_okD(7) [OF ok that(1)] lock_take_grows(3) [OF t that(2)] by (cases "of_updater f") (auto simp: updater_match_def)
  have rel: "ops_ok ops''" if "close_updater v (ops\<lparr>ops_locks := l, ops_store := s\<rparr>) = Some ops''" "out = GuardTaken g" for s ops'' g
    using ops_ok_release [OF _ that(1)] ok1 free [OF _ that(2)] by simp
  show "ops_ok ops'"
    using run t ok1
    by (auto simp: for_update_file_def Let_def split: lock_take_outcome.split_asm option.split_asm prod.split_asm
        sum.split_asm fetched_manifest.split_asm elim!: bind_SomeE dest: rel)
  show "ops_opened_files ops' = ops_opened_files ops"
    using run t
    by (auto simp: for_update_file_def Let_def split: lock_take_outcome.split_asm option.split_asm prod.split_asm
        sum.split_asm fetched_manifest.split_asm elim!: bind_SomeE dest: close_updater_frame)
  show "lock_find (ops_locks ops') v \<noteq> None" if "r = Inr m"
    using run t that lock_take_grows(2) [OF t]
    by (auto simp: for_update_file_def Let_def split: lock_take_outcome.split_asm option.split_asm prod.split_asm
        sum.split_asm fetched_manifest.split_asm elim!: bind_SomeE)
  show "of_updater f = None" if "r = Inr m" "hm_get (files_of ops) v = Some f"
    using run t that free
    by (auto simp: for_update_file_def Let_def split: lock_take_outcome.split_asm)
qed

lemma cursors_match_fresh:
  "cursors_match fds w f \<Longrightarrow> fds fd = None \<Longrightarrow> w \<noteq> v \<Longrightarrow> cursors_match (fds(fd \<mapsto> v)) w f"
  by (auto simp: cursors_match_def)

lemma ops_ok_register:
  assumes ok: "ops_ok ops" and fd: "fd = ofs_next_file_descriptor (ops_opened_files ops)" "fd < 2 ^ 32 - 1"
    and c: "cursors_match ((hm_get (fds_of ops))(fd \<mapsto> v)) v g" and u: "updater_match (ops_locks ops) v g"
  shows "ops_ok (put_file v g (register_fd fd v ops))"
proof -
  note o = ops_okD [OF ok]
  have none: "hm_get (fds_of ops) fd = None" using o(4) [of fd] fd(1) by (cases "hm_get (fds_of ops) fd") auto
  have nxt: "u32_add fd 1 = Suc fd" using fd(2) by (simp add: u32_add_def)
  have c': "cursors_match (hm_get (hm_insert fd v (fds_of ops))) v g" unfolding hm_get_insert by (rule c)
  have others: "cursors_match (hm_get (hm_insert fd v (fds_of ops))) w h" if "hm_get (files_of ops) w = Some h" "w \<noteq> v" for w h
    unfolding hm_get_insert by (rule cursors_match_fresh [OF o(6) [OF that(1)] none that(2)])
  show ?thesis using o(1-3,5,7) c' others u nxt less_SucI [OF o(4) [folded fd(1)]]
    by (auto simp: ops_ok_def put_file_def register_fd_def Let_def hm_simps distinct_update
        simp del: map_of_eq_Some_iff split: if_splits)
qed

lemma add_cursor_spec:
  "add_cursor env options c up f = Some g \<Longrightarrow> of_cursors g = of_cursors f @ [c] \<and>
     of_updater g = (case of_updater f of None \<Rightarrow> up | Some u \<Rightarrow> Some u)"
  by (auto simp: add_cursor_def Let_def elim!: bind_SomeE split: option.splits if_splits)

lemma cursors_match_add:
  assumes "cursors_match fds v f" "fds fd = None" "of_cursors g = of_cursors f @ [new_cursor options fd]"
  shows "cursors_match (fds(fd \<mapsto> v)) v g"
  using assms by (auto simp: cursors_match_def new_cursor_def)

lemma open_ok:
  assumes ok: "ops_ok ops" and run: "open_file_by_id env populate e v options ops = Some (ops', r)"
    and fd: "ofs_next_file_descriptor (ops_opened_files ops) < 2 ^ 32 - 1"
  shows "ops_ok ops'"
proof -
  obtain ops1 out where 1: "for_update_file populate e v ops = Some (ops1, out)"
    using run by (auto simp: open_file_by_id_def elim!: bind_SomeE)
  note f1 = for_update_spec [OF ok 1]
  let ?fd = "ofs_next_file_descriptor (ops_opened_files ops1)"
  have fd1: "?fd < 2 ^ 32 - 1" using fd f1(2) by simp
  have none: "hm_get (fds_of ops1) ?fd = None"
    using ops_okD(4) [OF f1(1), of ?fd] by (cases "hm_get (fds_of ops1) ?fd") auto
  have more: "ops_ok (put_file v g (register_fd ?fd v ops2))"
    if g: "add_cursor env options (new_cursor options ?fd) up f = Some g" "hm_get (files_of ops1) v = Some f"
      and up: "\<And>u. of_updater f = None \<Longrightarrow> up = Some u \<Longrightarrow> u = v \<and> lock_find (ops_locks ops2) v \<noteq> None"
      and ops2: "ops_ok ops2" "ops_opened_files ops2 = ops_opened_files ops1" for g f up ops2
  proof (rule ops_ok_register [OF ops2(1)])
    note a = add_cursor_spec [OF g(1)]
    show "cursors_match ((hm_get (fds_of ops2))(?fd \<mapsto> v)) v g"
      using cursors_match_add [OF ops_okD(6) [OF f1(1) g(2)] none] a ops2(2) by simp
    show "updater_match (ops_locks ops2) v g"
      using ops_okD(7) [OF ops2(1), of v f] g(2) ops2(2) a up by (auto simp: updater_match_def split: option.splits)
  qed (use ops2 fd1 in simp_all)
  show ?thesis
  proof (cases out)
    case (Inl err)
    then show ?thesis
      using run 1 f1(1) more [where up = None and ?ops2.0 = ops1]
      by (auto simp: open_file_by_id_def Let_def split: if_split_asm option.split_asm elim!: bind_SomeE)
  next
    case (Inr m)
    have rel: "ops_ok ops2 \<and> ops_opened_files ops2 = ops_opened_files ops1" if "close_updater v ops1 = Some ops2" for ops2
      using ops_ok_release [OF f1(1) that] close_updater_frame [OF that] f1(2,4) Inr by auto
    have lk: "lock_find (ops_locks ops1) v \<noteq> None" using f1(3) Inr by blast
    show ?thesis
    proof (cases "ofs_new_open_allowed (ops_opened_files ops1)")
      case False
      then show ?thesis using run 1 Inr rel by (auto simp: open_file_by_id_def Let_def elim!: bind_SomeE)
    next
      case True
      then obtain m' removed up ops2 where
        u: "(if opt_write options then Some (Some v, ops1) else map_option (\<lambda>ops. (None, ops)) (close_updater v ops1)) = Some (up, ops2)" and
        k: "(case hm_get (files_of ops1) v of
               None \<Rightarrow> ops' = register_fd ?fd v (put_file v (new_opened_file up m' removed (new_cursor options ?fd)) ops2)
             | Some f \<Rightarrow> \<exists>g. add_cursor env options (new_cursor options ?fd) up f = Some g \<and>
                 ops' = put_file v g (register_fd ?fd v ops2))"
        using run 1 Inr
        by (auto simp: open_file_by_id_def Let_def split: option.split_asm option.split elim!: bind_SomeE)
      have ops2: "ops_ok ops2" "ops_opened_files ops2 = ops_opened_files ops1"
        using u f1(1) rel by (auto split: if_split_asm)
      have up: "up = Some x \<Longrightarrow> x = v \<and> lock_find (ops_locks ops2) v \<noteq> None" for x
        using u lk by (auto split: if_split_asm)
      show ?thesis
      proof (cases "hm_get (files_of ops1) v")
        case None
        define f where "f = new_opened_file up m' removed (new_cursor options ?fd)"
        have f: "of_updater f = up" "of_cursors f = [new_cursor options ?fd]"
          "ops' = register_fd ?fd v (put_file v f ops2)" using k None by (auto simp: f_def new_opened_file_def)
        have "hm_get (fds_of ops1) x \<noteq> Some v" for x using ops_okD(5) [OF f1(1)] None by fastforce
        then have "cursors_match ((hm_get (fds_of ops2))(?fd \<mapsto> v)) v f"
          using f(2) ops2(2) by (auto simp: cursors_match_def new_cursor_def)
        moreover have "updater_match (ops_locks ops2) v f" using f(1) up by (auto simp: updater_match_def)
        moreover have "register_fd ?fd v (put_file v f ops2) = put_file v f (register_fd ?fd v ops2)"
          by (simp add: register_fd_def put_file_def Let_def)
        ultimately show ?thesis using ops_ok_register [OF ops2(1)] ops2(2) fd1 f(3) by simp
      next
        case (Some f)
        then show ?thesis using k more [OF _ Some _ ops2] up by auto
      qed
    qed
  qed
qed

subsection \<open>The transition system\<close>

inductive ops_step :: "workspace_ops \<Rightarrow> workspace_ops \<Rightarrow> bool" where
  op_read: "fd_read env fd off n ops = Some (ops', r) \<Longrightarrow> ops_step ops ops'"
| op_write: "fd_write env ids ids' fd data mode ops = Some (ops', r) \<Longrightarrow> ops_step ops ops'"
| op_resize: "fd_resize env ids fd n truncate_only ops = Some (ops', r) \<Longrightarrow> ops_step ops ops'"
| op_flush: "fd_flush env ids fd ops = Some (ops', r) \<Longrightarrow> ops_step ops ops'"
| op_close: "fd_close env ids fd ops = Some (ops', r) \<Longrightarrow> ops_step ops ops'"
| op_close_all: "close_all_fds env idss ops = Some (ops', r) \<Longrightarrow> ops_step ops ops'"
| op_open: "open_file_by_id env populate event v options ops = Some (ops', a) \<Longrightarrow>
    ofs_next_file_descriptor (ops_opened_files ops) < 2 ^ 32 - 1 \<Longrightarrow> ops_step ops ops'"
| op_take: "lock_take event v (ops_locks ops) = (l, out) \<Longrightarrow> ops_step ops (ops\<lparr>ops_locks := l\<rparr>)"
| op_release: "close_updater v ops = Some ops' \<Longrightarrow>
    (\<And>f. hm_get (files_of ops) v = Some f \<Longrightarrow> of_updater f = None) \<Longrightarrow> ops_step ops ops'"

definition ops_start :: "chunk_store \<Rightarrow> workspace_ops" where
  "ops_start s = \<lparr>ops_store = s, ops_locks = [],
     ops_opened_files = \<lparr>ofs_new_open_allowed = True, ofs_next_file_descriptor = 1,
       ofs_file_descriptors = [], ofs_opened_files = []\<rparr>,
     ops_events = [], ops_role_can_write = True\<rparr>"

definition ops_reachable :: "workspace_ops \<Rightarrow> bool" where
  "ops_reachable ops \<longleftrightarrow> (\<exists>s. ops_step\<^sup>*\<^sup>* (ops_start s) ops)"

lemma ops_step_ok: "ops_step ops ops' \<Longrightarrow> ops_ok ops \<Longrightarrow> ops_ok ops'"
  by (induction rule: ops_step.induct)
    (blast intro: fd_read_ok fd_write_ok fd_resize_ok fd_flush_ok fd_close_ok close_all_ok open_ok ops_ok_take ops_ok_release)+

lemma ops_reachable_ok: "ops_reachable ops \<Longrightarrow> ops_ok ops"
proof -
  assume "ops_reachable ops"
  then obtain s where "ops_step\<^sup>*\<^sup>* (ops_start s) ops" by (auto simp: ops_reachable_def)
  moreover have "ops_ok (ops_start s)" by (simp add: ops_ok_def ops_start_def lock_wf_def)
  ultimately show ?thesis by (induction rule: rtranclp_induct) (blast intro: ops_step_ok)+
qed

lemma fd_close_last_spec:
  assumes ok: "ops_ok ops" and run: "fd_close env ids fd ops = Some (ops', r)"
    and fd: "hm_get (fds_of ops) fd = Some v" and f: "hm_get (files_of ops) v = Some f"
    and last: "\<And>fd'. hm_get (fds_of ops) fd' = Some v \<Longrightarrow> fd' = fd"
  shows "hm_get (fds_of ops') fd = None" "hm_get (files_of ops') v = None"
    "of_updater f \<noteq> None \<Longrightarrow> \<not> lock_is_taken (ops_locks ops') v"
proof -
  note o = ops_okD [OF ok]
  let ?fds = "hm_remove fd (fds_of ops)"
  have "fd \<in> oc_file_descriptor ` set (of_cursors f)" using o(6) [OF f] fd by (simp add: cursors_match_def)
  then obtain n where n: "cursor_index fd (of_cursors f) = Some n"
    using cursor_index_None [of fd "of_cursors f"] by auto
  have so: "\<not> (\<exists>(_, w) \<in> set ?fds. w = v)"
    using still_opened_iff [of ?fds v] o(1) last by (auto simp: distinct_delete hm_simps)
  let ?ops = "ops\<lparr>ops_opened_files := (ops_opened_files ops)\<lparr>ofs_file_descriptors := ?fds,
      ofs_opened_files := hm_remove v (files_of ops)\<rparr>\<rparr>"
  obtain g s ops1 where g: "same_handles (f\<lparr>of_cursors := swap_remove n (of_cursors f)\<rparr>) g"
      "close_maybe_updater (of_updater g) (?ops\<lparr>ops_store := s\<rparr>) = Some ops1"
      "ops_opened_files ops' = ops_opened_files ops1" "ops_locks ops' = ops_locks ops1"
    using run fd f n so
    by (auto simp: fd_close_def Let_def elim!: bind_SomeE dest!: flush_file_handles split: if_split_asm)
  have t: "ops_opened_files ops1 = ops_opened_files ?ops"
    using g(2) by (auto simp: close_maybe_updater_def dest: close_updater_frame split: option.split_asm)
  show "hm_get (fds_of ops') fd = None" "hm_get (files_of ops') v = None"
    using g(3) t by (simp_all add: hm_simps)
  show "\<not> lock_is_taken (ops_locks ops') v" if "of_updater f \<noteq> None"
  proof -
    have "of_updater g = Some v" using that o(7) [OF f] g(1) by (auto simp: updater_match_def same_handles_def)
    then obtain l e where "lock_release v (ops_locks ops) = Some (l, e)" "ops_locks ops1 = l"
      using g(2) by (auto simp: close_maybe_updater_def close_updater_def)
    then show ?thesis using lock_release_wf(2) [OF o(3)] g(4) by (auto simp: lock_is_taken_iff)
  qed
qed

end
