(* ===== verification/File_Properties.thy ===== *)
theory File_Properties
  imports File_Table
begin

text \<open>
  What the file operations do, as seen through a descriptor: the properties of the opened files and
  of their manifests, each with a witness on one small file.
\<close>

subsection \<open>A small file\<close>

definition sample_view :: chunk_view where
  "sample_view = \<lparr>cv_id = 20, cv_start = 0, cv_stop = 4, cv_raw_offset = 0, cv_raw_size = 4, cv_access = None\<rparr>"

definition sample_manifest :: local_file_manifest where
  "sample_manifest = \<lparr>lf_base = \<lparr>fm_author = 1, fm_timestamp = 0, fm_id = 5, fm_parent = 1, fm_version = 0,
     fm_created = 0, fm_updated = 0, fm_size = 0, fm_blocksize = 8, fm_blocks = []\<rparr>,
     lf_parent = 1, lf_need_sync = True, lf_updated = 0, lf_size = 4, lf_blocksize = 8,
     lf_blocks = [[sample_view]]\<rparr>"

definition sample_file :: opened_file where
  "sample_file = \<lparr>of_updater = Some 5, of_manifest = sample_manifest,
     of_cursors = [\<lparr>oc_file_descriptor = 1, oc_read_mode = ReadAllowed, oc_write_mode = WriteAllowed\<rparr>],
     of_bytes_written_since_last_flush = 0, of_removed_chunks = [], of_new_chunks = [],
     of_flush_needed = False, of_modified_since_opened = False\<rparr>"

definition sample_data :: "chunk_id \<Rightarrow> byte list" where
  "sample_data i = (if i = 20 then [1, 2, 3, 4] else [])"

definition sample_store :: chunk_store where
  "sample_store = \<lparr>ck_storage = Some (sample_db\<lparr>db_blocks := [], db_chunks :=
       [\<lparr>kr_id = 20, kr_size = 4, kr_offline = False, kr_accessed_on = None, kr_data = [1, 2, 3, 4]\<rparr>]\<rparr>),
     ck_faults = [], ck_chunks = rr_new 16, ck_file_manifests = Map.empty, ck_root_manifest_id = 1\<rparr>"

definition sample_env :: fd_env where
  "sample_env = \<lparr>fe_dk = \<lparr>dk_encrypt = (\<lambda>x. x), dk_decrypt = Some\<rparr>, fe_dump = (\<lambda>_. []), fe_from_data = length,
     fe_iter = sorted_list_of_set, fe_fetch = (\<lambda>_ _. Inl FetchOffline), fe_now = 7\<rparr>"


lemma sample_iter: "iter_ok (fe_iter sample_env)"
  by (simp add: iter_ok_def sample_env_def)

lemma sample_key: "key_ok (fe_dk sample_env)"
  by (simp add: key_ok_def sample_env_def)

lemma sample_fetch: "fetch_ok (fe_fetch sample_env) D"
  by (simp add: fetch_ok_def sample_env_def)

lemma sample_manifest_ok: "lf_in_range sample_manifest" "lf_accepted sample_manifest"
  by (simp_all add: sample_manifest_def sample_view_def lf_in_range_def u64_bound_def lf_check_data_integrity_def
      cv_check_data_integrity_def ensure_def u64_add_def u64_mul_def)

lemma sample_ids: "lf_ids sample_manifest = {20}"
  by (simp add: lf_ids_def cs_ids_def sample_manifest_def sample_view_def)

lemma sample_slot: "slot (lf_blocks sample_manifest) j = (if j = 0 then [sample_view] else [])"
  by (simp add: slot_def sample_manifest_def)

lemma sample_local: "ids_local sample_manifest"
  by (auto simp: ids_local_def sample_slot cs_ids_def)

lemma sample_file_ok: "of_ok sample_data sample_file"
  using sample_manifest_ok sample_local
  by (simp add: of_ok_def sample_file_def views_ok_def sample_slot)
    (simp add: view_ok_def access_id_ok_def data_of_def sample_data_def sample_view_def u64_bound_def)

lemma find_item_replicate [simp]: "find_item i (replicate n None) = None"
  by (induction n) auto

lemma sample_store_ok: "chunk_store_ok (fe_dk sample_env) sample_data sample_store"
  by (simp add: chunk_store_ok_def sample_store_def rr_new_def rr_wf_def rr_get_def sample_env_def stores_data_def
      db_get_chunk_def db_get_block_def sql_find_def sample_data_def sample_db_def)

lemma sample_fresh: "20 \<notin> range ids \<Longrightarrow> inj ids \<Longrightarrow> fresh_ids ids sample_file"
  by (auto simp: fresh_ids_def sample_file_def sample_ids)

lemma sample_store_fresh: "store_fresh sample_store i"
  by (simp add: store_fresh_def sample_store_def rr_new_def rr_get_def db_get_block_def sql_find_def)

lemma sample_bytes: "file_bytes sample_data sample_file = [1, 2, 3, 4]"
  by (simp add: file_bytes_def file_byte_def byte_source_def source_byte_def sample_file_def sample_manifest_def
      data_of_def chunk_source_def cv_covers_def sample_view_def sample_data_def slot_def upt_rec)


subsection \<open>Chunk ids through a write\<close>

lemma push_write_operations_ids:
  "push_write_operations data ws f = Some g \<Longrightarrow>
     fst ` set (of_new_chunks g) = fst ` set (of_new_chunks f) \<union> cv_id ` wo_chunk_view ` set ws \<and>
     of_removed_chunks g = of_removed_chunks f \<and> of_manifest g = of_manifest f"
proof (induction data ws f rule: push_write_operations.induct)
  case (2 data w ws f)
  then obtain d where d: "push_write_operations data ws
      (f\<lparr>of_new_chunks := of_new_chunks f @ [(cv_id (wo_chunk_view w), d)]\<rparr>) = Some g" "write_operation_data data w = Some d"
    by (auto elim!: bind_SomeE)
  show ?case using "2.IH" [OF d(2,1)] by simp
qed simp

lemma fresh_ids_used: "fresh_ids ids f \<longleftrightarrow> inj ids \<and> range ids \<inter> used_ids f = {}"
  by (simp add: fresh_ids_def used_ids_def)

lemma of_write_ids:
  assumes ok: "of_ok D f" and iter: "iter_ok iter" and fresh: "fresh_ids new_ids f"
    and lim: "off + length data + lf_blocksize (of_manifest f) < u64_bound" and data: "data \<noteq> []"
    and run: "of_write iter new_ids now off data f = Some g"
  shows "used_ids g \<subseteq> used_ids f \<union> range new_ids" "in_memory g i \<Longrightarrow> in_memory f i \<or> i \<in> range new_ids"
    "lf_base (of_manifest g) = lf_base (of_manifest f)" "lf_blocksize (of_manifest g) = lf_blocksize (of_manifest f)"
proof -
  let ?m = "of_manifest f"
  have m: "lf_in_range ?m" "lf_accepted ?m" "ids_local ?m" using ok by (auto simp: of_ok_def)
  obtain m' ops removed where pw: "prepare_write new_ids ?m (length data) off now = Some (m', ops, removed)"
    using run by (auto simp: of_write_def elim!: bind_SomeE)
  have loc: "removed = lf_ids ?m - lf_ids m'" "lf_ids m' - lf_ids ?m = cv_id ` wo_chunk_view ` set ops"
    using prepare_write_ids [OF m(1,2) lim m(3) _ _ pw] fresh by (auto simp: fresh_ids_def)
  have sh: "lf_base m' = lf_base ?m" "lf_blocksize m' = lf_blocksize ?m" "cv_id ` wo_chunk_view ` set ops \<subseteq> range new_ids"
  proof -
    obtain bl where "ops = map (write_op new_ids (lf_blocksize ?m) (length data) off) bl"
      and "lf_base m' = lf_base ?m" "lf_blocksize m' = lf_blocksize ?m"
      using pw data by (rule_tac prepare_write_shape [OF m(1,2) _ lim, of new_ids now]) auto
    then show "lf_base m' = lf_base ?m" "lf_blocksize m' = lf_blocksize ?m" "cv_id ` wo_chunk_view ` set ops \<subseteq> range new_ids"
      by (auto simp: write_op_def new_view_def)
  qed
  let ?f0 = "fold remove_chunk_swap (iter removed) (f\<lparr>of_manifest := m'\<rparr>)"
  obtain h where h: "push_write_operations data ops ?f0 = Some h"
    "of_manifest g = of_manifest h" "of_new_chunks g = of_new_chunks h" "of_removed_chunks g = of_removed_chunks h"
    using run pw by (auto simp: of_write_def Let_def elim!: bind_SomeE)
  note p = push_write_operations_ids [OF h(1)]
  have dist: "distinct (map fst (of_new_chunks f))" using ok by (simp add: of_ok_def)
  have iter': "set (iter removed) = removed" using iter finite_lf_ids [of ?m] loc(1) by (simp add: iter_ok_def)
  have mem: "fst ` set (of_new_chunks ?f0) \<subseteq> fst ` set (of_new_chunks f)"
    using swap.fold_new [of "f\<lparr>of_manifest := m'\<rparr>" "iter removed"] dist
    by (auto simp: subset_iff simp flip: in_memory_iff) (auto simp: in_memory_def split: if_splits)
  have rem: "set (of_removed_chunks ?f0) \<subseteq> removed \<union> set (of_removed_chunks f)"
    using swap.fold_removed [of "iter removed" "f\<lparr>of_manifest := m'\<rparr>"] iter' by simp
  have man: "of_manifest g = m'" using h(2) p by (simp add: swap.fold_fields)
  show "lf_base (of_manifest g) = lf_base ?m" "lf_blocksize (of_manifest g) = lf_blocksize ?m" using man sh by simp_all
  have new: "fst ` set (of_new_chunks g) \<subseteq> fst ` set (of_new_chunks f) \<union> range new_ids"
  proof -
    have "fst ` set (of_new_chunks g) = fst ` set (of_new_chunks ?f0) \<union> cv_id ` wo_chunk_view ` set ops" using h(3) p by simp
    then show ?thesis using mem sh(3) by blast
  qed
  moreover have "lf_ids m' \<subseteq> lf_ids ?m \<union> range new_ids" using loc(2) sh(3) by blast
  moreover have "set (of_removed_chunks g) \<subseteq> lf_ids ?m \<union> set (of_removed_chunks f)" using h(4) p rem loc(1) by auto
  ultimately show "used_ids g \<subseteq> used_ids f \<union> range new_ids" unfolding used_ids_def man by blast
  show "in_memory f i \<or> i \<in> range new_ids" if "in_memory g i" using that new unfolding in_memory_iff by blast
qed


subsection \<open>Writing through a descriptor\<close>

text \<open>
  What a write relies on: a consistent file and store, unused ids for its chunks and for the blocks of
  a reshape, and an updater when the descriptor may write.
\<close>

definition write_ready ::
  "fd_env \<Rightarrow> (chunk_id \<Rightarrow> byte list) \<Rightarrow> (nat \<Rightarrow> chunk_id) \<Rightarrow> (nat \<Rightarrow> chunk_id) \<Rightarrow> opened_file \<Rightarrow> chunk_store \<Rightarrow> bool" where
  "write_ready env D new_ids reshape_ids f s \<longleftrightarrow> of_ok D f \<and> chunk_store_ok (fe_dk env) D s \<and>
     key_ok (fe_dk env) \<and> iter_ok (fe_iter env) \<and> fresh_ids new_ids f \<and> fresh_ids reshape_ids f \<and>
     range new_ids \<inter> range reshape_ids = {} \<and>
     (\<forall>i. in_memory f i \<or> i \<in> range new_ids \<or> i \<in> range reshape_ids \<longrightarrow> store_fresh s i) \<and>
     of_updater f \<noteq> None \<and> fm_id (lf_base (of_manifest f)) \<noteq> ck_root_manifest_id s"

lemma early_flush_spec:
  assumes "of_ok D f" "chunk_store_ok (fe_dk env) D (ops_store ops)" "key_ok (fe_dk env)" "iter_ok (fe_iter env)"
    "fresh_ids reshape_ids f" "memory_fresh reshape_ids f (ops_store ops)" "of_updater f \<noteq> None"
    "fm_id (lf_base (of_manifest f)) \<noteq> ck_root_manifest_id (ops_store ops)"
  shows "\<exists>ops' r f' D'. flush_file_early env reshape_ids v f ops = Some (ops', r) \<and>
    hm_get (files_of ops') v = Some f' \<and> of_ok D' f' \<and> chunk_store_ok (fe_dk env) D' (ops_store ops') \<and>
    file_bytes D' f' = file_bytes D f"
proof (cases "of_bytes_written_since_last_flush f \<ge> lf_blocksize (of_manifest f)")
  case False
  then have "flush_file_early env reshape_ids v f ops = Some (put_file v f ops, Inr ())"
    by (simp add: flush_file_early_def maybe_early_reshape_and_flush_def)
  then show ?thesis using assms(1,2) by (auto simp: put_file_def hm_simps)
next
  case True
  obtain u where u: "of_updater f = Some u" using assms(7) by blast
  obtain f' s' r D' where
    1: "force_reshape_and_flush (fe_dk env) (fe_dump env) (fe_from_data env) (fe_iter env) (fe_now env) reshape_ids f
        (ops_store ops) = Some (f', s', r)"
    "of_ok D' f'" "chunk_store_ok (fe_dk env) D' s'" "file_bytes D' f' = file_bytes D f"
    by (rule force_flush_spec [OF assms(1,4,2,3,5,6) u assms(8), of "fe_dump env" "fe_from_data env" "fe_now env"])
  then have "flush_file_early env reshape_ids v f ops = Some (put_file v f' (ops\<lparr>ops_store := s'\<rparr>), r)"
    using True by (simp add: flush_file_early_def maybe_early_reshape_and_flush_def)
  then show ?thesis using 1 by (fastforce simp: put_file_def hm_simps)
qed

text \<open>
  C1. Writing through a descriptor: given a consistent opened file and store, \<^verbatim>\<open>fd_write\<close> does not
  panic, answers the length of the data (or an internal error of the early flush), and the content of
  the file is the old content with the data spliced in at the offset, the gap past the old end being
  filled with zeroes; the file and the store are consistent again, whether or not the write was
  followed by a reshape and a flush, and whatever that flush did.
\<close>

theorem fd_write_splices:
  assumes "retrieve_opened_file fd ops = Some (Inr (v, f))" "find_cursor fd f = Some c" "oc_write_mode c = WriteAllowed"
    "data \<noteq> []" "length data < 2 ^ 63" "off + length data + lf_blocksize (of_manifest f) < u64_bound"
    "write_ready env D new_ids reshape_ids f (ops_store ops)"
  shows "\<exists>ops' r f' D'. fd_write env new_ids reshape_ids fd data (WriteNormal off) ops = Some (ops', r) \<and>
    r \<in> {Inr (length data), Inl FdWriteInternal} \<and> hm_get (files_of ops') v = Some f' \<and>
    of_ok D' f' \<and> chunk_store_ok (fe_dk env) D' (ops_store ops') \<and>
    file_bytes D' f' = splice off data (file_bytes D f)"
proof -
  have r: "of_ok D f" "chunk_store_ok (fe_dk env) D (ops_store ops)" "key_ok (fe_dk env)" "iter_ok (fe_iter env)"
    "fresh_ids new_ids f" "fresh_ids reshape_ids f" "range new_ids \<inter> range reshape_ids = {}"
    "of_updater f \<noteq> None" "fm_id (lf_base (of_manifest f)) \<noteq> ck_root_manifest_id (ops_store ops)"
    and sf: "\<And>i. in_memory f i \<or> i \<in> range new_ids \<or> i \<in> range reshape_ids \<Longrightarrow> store_fresh (ops_store ops) i"
    using assms(7) by (auto simp: write_ready_def)
  obtain f1 where f1: "of_write (fe_iter env) new_ids (fe_now env) off data f = Some f1" "of_ok D f1"
    "file_bytes D f1 = splice off data (file_bytes D f)" "of_updater f1 = of_updater f"
    by (rule of_write_content [OF r(1,4,5) assms(4-6), of "fe_now env"])
  note ids = of_write_ids [OF r(1,4,5) assms(6,4) f1(1)]
  have "fresh_ids reshape_ids f1"
    using ids(1) r(6,7) unfolding fresh_ids_used by blast
  moreover have "memory_fresh reshape_ids f1 (ops_store ops)"
    using ids(2) sf by (auto simp: memory_fresh_def)
  ultimately obtain ops' r' f' D' where e: "flush_file_early env reshape_ids v f1 ops = Some (ops', r')"
    "hm_get (files_of ops') v = Some f'" "of_ok D' f'" "chunk_store_ok (fe_dk env) D' (ops_store ops')"
    "file_bytes D' f' = file_bytes D f1"
    using early_flush_spec [OF f1(2) r(2-4), of reshape_ids v] f1(4) r(8,9) ids(3) by metis
  have "fd_write env new_ids reshape_ids fd data (WriteNormal off) ops =
      Some (ops', ignore_stopped FdWriteInternal (length data) r')"
    using assms(1-4) f1(1) e(1) by (simp add: fd_write_def)
  moreover have "ignore_stopped FdWriteInternal (length data) r' \<in> {Inr (length data), Inl FdWriteInternal}"
    by (auto simp: ignore_stopped_def split: sum.split flush_error.split)
  ultimately show ?thesis using e(2-5) f1(3) by metis
qed

definition sample_ops :: workspace_ops where
  "sample_ops = \<lparr>ops_store = sample_store, ops_locks = [(5, LockTaken)],
     ops_opened_files = \<lparr>ofs_new_open_allowed = True, ofs_next_file_descriptor = 2,
       ofs_file_descriptors = [(1, 5)], ofs_opened_files = [(5, sample_file)]\<rparr>,
     ops_events = [], ops_role_can_write = True\<rparr>"

abbreviation even_ids :: "nat \<Rightarrow> chunk_id" where "even_ids b \<equiv> 100 + 2 * b"
abbreviation odd_ids :: "nat \<Rightarrow> chunk_id" where "odd_ids b \<equiv> 101 + 2 * b"

lemma sample_ids_apart: "range even_ids \<inter> range odd_ids = {}" "20 \<notin> range even_ids" "20 \<notin> range odd_ids"
  "inj even_ids" "inj odd_ids"
proof -
  have "(100 + 2 * a :: nat) \<noteq> 101 + 2 * b" for a b by presburger
  then show "range even_ids \<inter> range odd_ids = {}" by auto
qed (auto simp: inj_def)

lemma sample_retrieve:
  "retrieve_opened_file 1 sample_ops = Some (Inr (5, sample_file))"
  "find_cursor 1 sample_file =
     Some \<lparr>oc_file_descriptor = 1, oc_read_mode = ReadAllowed, oc_write_mode = WriteAllowed\<rparr>"
  by (simp_all add: retrieve_opened_file_def sample_ops_def find_cursor_def sample_file_def)

lemma sample_ready: "write_ready sample_env sample_data even_ids odd_ids sample_file (ops_store sample_ops)"
  unfolding write_ready_def
  using sample_file_ok sample_store_ok sample_key sample_iter sample_ids_apart sample_store_fresh
    sample_fresh [of even_ids] sample_fresh [of odd_ids]
  by (simp add: sample_ops_def) (simp add: sample_file_def sample_manifest_def sample_store_def)

theorem fd_write_splices_witness:
  "\<exists>ops' r f' D'. fd_write sample_env even_ids odd_ids 1 [7, 8] (WriteNormal 6) sample_ops = Some (ops', r) \<and>
     hm_get (files_of ops') 5 = Some f' \<and> file_bytes D' f' = [1, 2, 3, 4, 0, 0, 7, 8]"
proof -
  have lim: "6 + length [7, 8 :: byte] + lf_blocksize (of_manifest sample_file) < u64_bound"
    by (simp add: sample_file_def sample_manifest_def u64_bound_def)
  have "splice 6 [7, 8] (file_bytes sample_data sample_file) = [1, 2, 3, 4, 0, 0, 7, 8]"
    by (simp add: sample_bytes splice_def eval_nat_numeral)
  then show ?thesis
    using fd_write_splices [OF sample_retrieve _ _ _ lim sample_ready] by fastforce
qed

subsection \<open>Reading through a descriptor\<close>

text \<open>
  C2. Reading through a descriptor: given a consistent opened file and store, \<^verbatim>\<open>fd_read\<close> does not
  panic; when it succeeds it returns exactly the requested slice of the content, cut at the end of the
  file, and its length; and it succeeds whenever every chunk of the file is in memory or in the local
  storage, without the server.
\<close>

theorem fd_read_slice:
  assumes "retrieve_opened_file fd ops = Some (Inr (v, f))" "find_cursor fd f = Some c" "oc_read_mode c = ReadAllowed"
    "of_ok D f" "chunk_store_ok (fe_dk env) D (ops_store ops)" "key_ok (fe_dk env)" "fetch_ok (fe_fetch env) D"
  shows "\<exists>ops' r. fd_read env fd off sz ops = Some (ops', r) \<and> chunk_store_ok (fe_dk env) D (ops_store ops') \<and>
    (\<forall>n bytes. r = Inr (n, bytes) \<longrightarrow> bytes = take sz (drop off (file_bytes D f)) \<and> n = length bytes) \<and>
    (all_readable f (lf_ids (of_manifest f)) (ops_store ops) \<longrightarrow> (\<exists>n bytes. r = Inr (n, bytes)))"
proof -
  let ?n = "min sz (lf_size (of_manifest f) - off)"
  obtain s' r where r: "of_read (fe_dk env) (fe_fetch env) (fe_now env) off sz f (ops_store ops) = Some (s', r)"
    "chunk_store_ok (fe_dk env) D s'"
    "\<forall>x. r = Inr x \<longrightarrow> x = (?n, map (file_byte D f) [off ..< off + ?n])"
    "(\<forall>i \<in> lf_ids (of_manifest f). i \<in> fst ` set (of_new_chunks f) \<or> available (ops_store ops) i) \<longrightarrow>
       r = Inr (?n, map (file_byte D f) [off ..< off + ?n])"
    using of_read_spec [OF assms(4-7) refl, of "fe_now env" off sz] by blast
  define B where "B = take sz (drop off (file_bytes D f))"
  have B: "(?n, map (file_byte D f) [off ..< off + ?n]) = (length B, B)"
    using slice_file_bytes [of D f off sz] by (simp add: B_def)
  have run: "fd_read env fd off sz ops = Some (ops\<lparr>ops_store := s'\<rparr>, r)"
    using assms(1-3) r(1) by (simp add: fd_read_def)
  have ok: "\<And>x. r = Inr x \<Longrightarrow> x = (length B, B)" using r(3) B by simp
  have av: "r = Inr (length B, B)" if "all_readable f (lf_ids (of_manifest f)) (ops_store ops)"
    using r(4) B that unfolding all_readable_def in_memory_iff by metis
  show ?thesis unfolding B_def [symmetric]
  proof (cases r)
    case (Inl e)
    then have "\<not> all_readable f (lf_ids (of_manifest f)) (ops_store ops)" using av by auto
    then show "\<exists>ops' r. fd_read env fd off sz ops = Some (ops', r) \<and> chunk_store_ok (fe_dk env) D (ops_store ops') \<and>
      (\<forall>n bytes. r = Inr (n, bytes) \<longrightarrow> bytes = B \<and> n = length bytes) \<and>
      (all_readable f (lf_ids (of_manifest f)) (ops_store ops) \<longrightarrow> (\<exists>n bytes. r = Inr (n, bytes)))"
      using run r(2) Inl by simp
  next
    case (Inr x)
    then have "r = Inr (length B, B)" using ok by simp
    then show "\<exists>ops' r. fd_read env fd off sz ops = Some (ops', r) \<and> chunk_store_ok (fe_dk env) D (ops_store ops') \<and>
      (\<forall>n bytes. r = Inr (n, bytes) \<longrightarrow> bytes = B \<and> n = length bytes) \<and>
      (all_readable f (lf_ids (of_manifest f)) (ops_store ops) \<longrightarrow> (\<exists>n bytes. r = Inr (n, bytes)))"
      using run r(2) by simp
  qed
qed

lemma sample_readable: "all_readable sample_file (lf_ids sample_manifest) sample_store"
  by (simp add: all_readable_def sample_ids available_def sample_store_def db_get_chunk_def sql_find_def)

theorem fd_read_slice_witness:
  "\<exists>ops'. fd_read sample_env 1 1 2 sample_ops = Some (ops', Inr (2, [2, 3]))"
proof -
  have r: "all_readable sample_file (lf_ids (of_manifest sample_file)) (ops_store sample_ops)"
    using sample_readable by (simp add: sample_file_def sample_ops_def)
  have s: "chunk_store_ok (fe_dk sample_env) sample_data (ops_store sample_ops)"
    using sample_store_ok by (simp add: sample_ops_def)
  obtain ops' n bytes where "fd_read sample_env 1 1 2 sample_ops = Some (ops', Inr (n, bytes))"
    "bytes = take 2 (drop 1 (file_bytes sample_data sample_file))" "n = length bytes"
    using fd_read_slice [OF sample_retrieve _ sample_file_ok s sample_key sample_fetch, of 1 2] r by auto
  then show ?thesis by (simp add: sample_bytes)
qed

subsection \<open>Resizing and flushing through a descriptor\<close>

lemma of_resize_ids:
  assumes ok: "of_ok D f" and iter: "iter_ok iter" and run: "of_resize iter now n f = Some g"
  shows "used_ids g \<subseteq> used_ids f" "in_memory g i \<Longrightarrow> in_memory f i"
    "lf_base (of_manifest g) = lf_base (of_manifest f)"
proof -
  let ?m = "of_manifest f"
  have m: "lf_in_range ?m" "lf_accepted ?m" "ids_local ?m" using ok by (auto simp: of_ok_def)
  obtain m' removed where pr: "prepare_resize ?m n now = Some (m', removed)"
    using run by (auto simp: of_resize_def elim!: bind_SomeE)
  have loc: "removed = lf_ids ?m - lf_ids m'" "lf_ids m' \<subseteq> lf_ids ?m"
    using prepare_resize_ids [OF m pr] by auto
  let ?g = "fold remove_chunk (iter removed) (f\<lparr>of_manifest := m'\<rparr>)"
  have g: "of_manifest g = m'" "of_new_chunks g = of_new_chunks ?g" "of_removed_chunks g = of_removed_chunks ?g"
    using run pr by (auto simp: of_resize_def Let_def keep.fold_fields)
  have dist: "distinct (map fst (of_new_chunks f))" using ok by (simp add: of_ok_def)
  have iter': "set (iter removed) = removed" using iter finite_lf_ids [of ?m] loc(1) by (simp add: iter_ok_def)
  show mem: "in_memory g i \<Longrightarrow> in_memory f i" for i
    using keep.fold_new [of "f\<lparr>of_manifest := m'\<rparr>" "iter removed"] dist g(2)
    by (auto simp: in_memory_def split: if_splits)
  have "set (of_removed_chunks g) \<subseteq> removed \<union> set (of_removed_chunks f)"
    using keep.fold_removed [of "iter removed" "f\<lparr>of_manifest := m'\<rparr>"] iter' g(3) by simp
  moreover have "fst ` set (of_new_chunks g) \<subseteq> fst ` set (of_new_chunks f)" using mem unfolding in_memory_iff by blast
  ultimately show "used_ids g \<subseteq> used_ids f" using loc unfolding used_ids_def g(1) by blast
  show "lf_base (of_manifest g) = lf_base ?m"
    using pr unfolding g(1)
    by (auto simp: prepare_resize_def prepare_truncate_def prepare_write_def Let_def elim!: bind_SomeE split: if_split_asm)
qed

text \<open>
  C11. Resizing through a descriptor: \<^verbatim>\<open>fd_resize\<close> does not panic; after it the content is the old
  content cut at the new length or extended with zeroes up to it (unchanged when it only truncates and
  the file is already short enough), and the file and the store are consistent.
\<close>

theorem fd_resize_content:
  assumes "retrieve_opened_file fd ops = Some (Inr (v, f))" "find_cursor fd f = Some c" "oc_write_mode c = WriteAllowed"
    "n + lf_blocksize (of_manifest f) < u64_bound" "write_ready env D new_ids reshape_ids f (ops_store ops)"
  shows "\<exists>ops' r f' D'. fd_resize env reshape_ids fd n truncate_only ops = Some (ops', r) \<and>
    r \<in> {Inr (), Inl FdResizeInternal} \<and> hm_get (files_of ops') v = Some f' \<and>
    of_ok D' f' \<and> chunk_store_ok (fe_dk env) D' (ops_store ops') \<and>
    file_bytes D' f' = (if truncate_only \<and> lf_size (of_manifest f) \<le> n then file_bytes D f
                        else resize_bytes n (file_bytes D f))"
proof (cases "lf_size (of_manifest f) = n \<or> truncate_only \<and> lf_size (of_manifest f) \<le> n")
  case True
  then have "fd_resize env reshape_ids fd n truncate_only ops = Some (ops, Inr ())"
    using assms(1-3) by (simp add: fd_resize_def)
  moreover have "resize_bytes n (file_bytes D f) = file_bytes D f" if "lf_size (of_manifest f) = n"
    using that by (simp add: resize_bytes_def)
  ultimately show ?thesis
    using True retrieve_known [OF assms(1)] assms(5) by (auto simp: write_ready_def)
next
  case False
  have r: "of_ok D f" "chunk_store_ok (fe_dk env) D (ops_store ops)" "key_ok (fe_dk env)" "iter_ok (fe_iter env)"
    "fresh_ids reshape_ids f" "memory_fresh reshape_ids f (ops_store ops)" "of_updater f \<noteq> None"
    "fm_id (lf_base (of_manifest f)) \<noteq> ck_root_manifest_id (ops_store ops)"
    using assms(5) by (auto simp: write_ready_def memory_fresh_def)
  obtain f1 where f1: "of_resize (fe_iter env) (fe_now env) n f = Some f1" "of_ok D f1"
    "file_bytes D f1 = resize_bytes n (file_bytes D f)" "of_updater f1 = of_updater f"
    by (rule of_resize_content [OF r(1,4) assms(4), of "fe_now env"])
  note ids = of_resize_ids [OF r(1,4) f1(1)]
  have "fresh_ids reshape_ids f1" using ids(1) r(5) unfolding fresh_ids_used by blast
  moreover have "memory_fresh reshape_ids f1 (ops_store ops)" using ids(2) r(6) by (auto simp: memory_fresh_def)
  ultimately obtain ops' r' f' D' where e: "flush_file_early env reshape_ids v f1 ops = Some (ops', r')"
    "hm_get (files_of ops') v = Some f'" "of_ok D' f'" "chunk_store_ok (fe_dk env) D' (ops_store ops')"
    "file_bytes D' f' = file_bytes D f1"
    using early_flush_spec [OF f1(2) r(2-4), of reshape_ids v] f1(4) r(7,8) ids(3) by metis
  have "fd_resize env reshape_ids fd n truncate_only ops = Some (ops', ignore_stopped FdResizeInternal () r')"
    using assms(1-3) f1(1) e(1) False by (auto simp: fd_resize_def)
  moreover have "ignore_stopped FdResizeInternal () r' \<in> {Inr (), Inl FdResizeInternal}"
    by (auto simp: ignore_stopped_def split: sum.split flush_error.split)
  moreover have "\<not> (truncate_only \<and> lf_size (of_manifest f) \<le> n)" using False by simp
  ultimately show ?thesis using e(2-5) f1(3) by auto
qed

theorem fd_resize_content_witness:
  "\<exists>ops' r f' D'. fd_resize sample_env odd_ids 1 2 True sample_ops = Some (ops', r) \<and>
     hm_get (files_of ops') 5 = Some f' \<and> file_bytes D' f' = [1, 2]"
proof -
  have "2 + lf_blocksize (of_manifest sample_file) < u64_bound" "\<not> lf_size (of_manifest sample_file) \<le> 2"
    by (simp_all add: sample_file_def sample_manifest_def u64_bound_def)
  then show ?thesis
    using fd_resize_content [OF sample_retrieve _ _ sample_ready, of 2 True]
    by (fastforce simp: sample_bytes resize_bytes_def)
qed

text \<open>
  C3. Flushing through a descriptor, when the local storage works and holds every chunk that is not in
  memory: \<^verbatim>\<open>fd_flush\<close> succeeds; the content is unchanged and no longer depends on memory, every chunk
  of the manifest is in the local storage, the row of the file in the database holds the manifest of the opened file,
  serialized and encrypted, with its version and whether it is to be uploaded, the cache of manifests has the same
  manifest, and it is reshaped (each slot is one block), ready to be uploaded.
\<close>

theorem fd_flush_durable:
  assumes "retrieve_opened_file fd ops = Some (Inr (v, f))" "find_cursor fd f = Some c" "oc_write_mode c = WriteAllowed"
    "write_ready env D new_ids reshape_ids f (ops_store ops)" "of_flush_needed f" "ck_storage (ops_store ops) \<noteq> None"
    "ck_faults (ops_store ops) = []" "all_readable f (lf_ids (of_manifest f)) (ops_store ops)"
  shows "\<exists>ops' f' D'. fd_flush env reshape_ids fd ops = Some (ops', Inr ()) \<and> hm_get (files_of ops') v = Some f' \<and>
    of_ok D' f' \<and> chunk_store_ok (fe_dk env) D' (ops_store ops') \<and> file_bytes D' f' = file_bytes D f \<and>
    of_new_chunks f' = [] \<and> \<not> of_flush_needed f' \<and> lf_is_reshaped (of_manifest f') \<and>
    (\<forall>i \<in> lf_ids (of_manifest f'). available (ops_store ops') i) \<and>
    ck_file_manifests (ops_store ops') (fm_id (lf_base (of_manifest f'))) = Some (of_manifest f') \<and>
    manifest_stored (fe_dump env) (ops_store ops') (of_manifest f')"
proof -
  have r: "of_ok D f" "iter_ok (fe_iter env)" "chunk_store_ok (fe_dk env) D (ops_store ops)" "key_ok (fe_dk env)"
    "fresh_ids reshape_ids f" "memory_fresh reshape_ids f (ops_store ops)"
    "fm_id (lf_base (of_manifest f)) \<noteq> ck_root_manifest_id (ops_store ops)"
    using assms(4) by (auto simp: write_ready_def memory_fresh_def)
  obtain u where u: "of_updater f = Some u" using assms(4) by (auto simp: write_ready_def)
  show ?thesis
  proof (rule force_flush_spec [OF r(1-6) u r(7), of "fe_dump env" "fe_from_data env" "fe_now env"])
    fix f' s' r' D'
    assume 1: "force_reshape_and_flush (fe_dk env) (fe_dump env) (fe_from_data env) (fe_iter env) (fe_now env) reshape_ids f
        (ops_store ops) = Some (f', s', r')"
    "of_ok D' f'" "chunk_store_ok (fe_dk env) D' s'" "file_bytes D' f' = file_bytes D f"
    and fl: "r' = Inr () \<Longrightarrow> of_flush_needed f \<Longrightarrow> of_new_chunks f' = [] \<and> of_removed_chunks f' = [] \<and>
       \<not> of_flush_needed f' \<and> ck_file_manifests s' (fm_id (lf_base (of_manifest f'))) = Some (of_manifest f') \<and>
       manifest_stored (fe_dump env) s' (of_manifest f')"
    and av: "ck_storage (ops_store ops) \<noteq> None \<Longrightarrow> ck_faults (ops_store ops) = [] \<Longrightarrow> of_flush_needed f \<Longrightarrow>
       all_readable f (lf_ids (of_manifest f)) (ops_store ops) \<Longrightarrow>
       r' = Inr () \<and> lf_is_reshaped (of_manifest f') \<and> (\<forall>i \<in> lf_ids (of_manifest f'). available s' i)"
    have ok: "r' = Inr ()" "lf_is_reshaped (of_manifest f')" "\<forall>i \<in> lf_ids (of_manifest f'). available s' i"
      using av assms(5-8) by auto
    have "fd_flush env reshape_ids fd ops = Some (put_file v f' (ops\<lparr>ops_store := s'\<rparr>), Inr ())"
      using assms(1-3) 1(1) ok(1) by (simp add: fd_flush_def flush_file_def)
    then show ?thesis
      using 1(2-4) ok fl assms(5)
      by (intro exI [of _ "put_file v f' (ops\<lparr>ops_store := s'\<rparr>)"] exI [of _ f'] exI [of _ D'])
         (simp add: put_file_def hm_simps)
  qed
qed

definition modified_file :: opened_file where
  "modified_file = sample_file\<lparr>of_flush_needed := True\<rparr>"

definition modified_ops :: workspace_ops where
  "modified_ops = put_file 5 modified_file sample_ops"

lemma modified_data: "data_of D modified_file = data_of D sample_file"
  by (simp add: data_of_def modified_file_def fun_eq_iff)

lemma modified_ready: "write_ready sample_env sample_data even_ids odd_ids modified_file (ops_store modified_ops)"
  using sample_ready unfolding write_ready_def of_ok_def modified_data
  by (simp add: modified_file_def modified_ops_def put_file_def fresh_ids_def in_memory_def)

theorem fd_flush_durable_witness:
  "\<exists>ops' f' D'. fd_flush sample_env odd_ids 1 modified_ops = Some (ops', Inr ()) \<and>
     hm_get (files_of ops') 5 = Some f' \<and> file_bytes D' f' = [1, 2, 3, 4] \<and> lf_is_reshaped (of_manifest f') \<and>
     manifest_stored (fe_dump sample_env) (ops_store ops') (of_manifest f')"
proof -
  have r: "retrieve_opened_file 1 modified_ops = Some (Inr (5, modified_file))"
    by (simp add: retrieve_opened_file_def modified_ops_def put_file_def hm_simps sample_ops_def)
  have c: "find_cursor 1 modified_file =
     Some \<lparr>oc_file_descriptor = 1, oc_read_mode = ReadAllowed, oc_write_mode = WriteAllowed\<rparr>"
    by (simp add: find_cursor_def modified_file_def sample_file_def)
  have b: "file_bytes sample_data modified_file = [1, 2, 3, 4]"
    using sample_bytes unfolding file_bytes_def file_byte_def modified_data by (simp add: modified_file_def)
  have a: "all_readable modified_file (lf_ids (of_manifest modified_file)) (ops_store modified_ops)"
    using sample_readable
    by (simp add: all_readable_def in_memory_def modified_file_def modified_ops_def put_file_def sample_ops_def sample_file_def)
  show ?thesis
    using fd_flush_durable [OF r c _ modified_ready _ _ _ a] b
    by (fastforce simp: modified_file_def modified_ops_def put_file_def sample_ops_def sample_store_def)
qed

subsection \<open>Reading back\<close>

text \<open>
  C8. Reading back a write: whatever the chunks a file is made of, reading the range that was just
  written returns the written bytes, and reading a range inside the file that does not meet it returns
  what a read returned before the write.
\<close>

theorem read_after_write_through_chunks:
  assumes "of_ok D f" "iter_ok iter" "fresh_ids new_ids f" "data \<noteq> []" "length data < 2 ^ 63"
    "off + length data + lf_blocksize (of_manifest f) < u64_bound" "key_ok dk" "fetch_ok fetch D"
    "of_write iter new_ids now off data f = Some f'" "chunk_store_ok dk D s" "chunk_store_ok dk D t"
  shows "(of_read dk fetch now' off (length data) f' s = Some (s', Inr (k, bytes)) \<longrightarrow> bytes = data) \<and>
    (a + n \<le> lf_size (of_manifest f) \<and> (a + n \<le> off \<or> off + length data \<le> a) \<and>
     of_read dk fetch now' a n f s = Some (s1, Inr (k1, x)) \<and> of_read dk fetch now' a n f' t = Some (t1, Inr (k2, y)) \<longrightarrow> y = x)"
proof (intro conjI impI)
  have ok: "model_ok (D, f)" using assms(1) by (simp add: model_ok_def)
  have w: "model_writes off data (D, f) (D, f')"
    unfolding model_writes_def fst_conv snd_conv using assms(2-6,9) by blast
  have rd: "model_reads o' l (D, g) b" if "of_read dk fetch now' o' l g u = Some (u', Inr (j, b))" "chunk_store_ok dk D u"
    for o' l g u u' j b
    unfolding model_reads_def fst_conv snd_conv using that assms(7,8) by blast
  show "bytes = data" if "of_read dk fetch now' off (length data) f' s = Some (s', Inr (k, bytes))"
    using model.read_after_write [OF ok w] rd [OF that assms(10)] .
  show "y = x" if "a + n \<le> lf_size (of_manifest f) \<and> (a + n \<le> off \<or> off + length data \<le> a) \<and>
     of_read dk fetch now' a n f s = Some (s1, Inr (k1, x)) \<and> of_read dk fetch now' a n f' t = Some (t1, Inr (k2, y))"
    using model.read_elsewhere [OF ok w, of a n x y] rd [OF _ assms(10)] rd [OF _ assms(11)] that
    by (auto simp: model_content_def)
qed

theorem read_after_write_through_chunks_witness:
  "\<exists>f'. of_write sorted_list_of_set even_ids 7 2 [9, 9] sample_file = Some f' \<and>
     (\<forall>s' k bytes. of_read (fe_dk sample_env) (fe_fetch sample_env) 8 2 2 f' sample_store = Some (s', Inr (k, bytes)) \<longrightarrow>
        bytes = [9, 9])"
proof -
  have lim: "2 + length [9, 9 :: byte] + lf_blocksize (of_manifest sample_file) < u64_bound"
    by (simp add: sample_file_def sample_manifest_def u64_bound_def)
  have it: "iter_ok sorted_list_of_set" using sample_iter by (simp add: sample_env_def)
  have fr: "fresh_ids even_ids sample_file" using sample_fresh sample_ids_apart by blast
  obtain f' where f': "of_write sorted_list_of_set even_ids 7 2 [9, 9] sample_file = Some f'"
    by (rule of_write_content [OF sample_file_ok it fr _ _ lim, of 7]) auto
  have "bytes = [9, 9]"
    if "of_read (fe_dk sample_env) (fe_fetch sample_env) 8 2 2 f' sample_store = Some (s', Inr (k, bytes))" for s' k bytes
  proof -
    have d: "[9, 9 :: byte] \<noteq> []" "length [9, 9 :: byte] < 2 ^ 63" "length [9, 9 :: byte] = 2" by simp_all
    show ?thesis
      using read_after_write_through_chunks [OF sample_file_ok it fr d(1,2) lim sample_key sample_fetch f' sample_store_ok
          sample_store_ok, of 8 s' k bytes 0 0 s' k bytes s' k bytes, unfolded d(3)] that by blast
  qed
  then show ?thesis using f' by blast
qed

subsection \<open>Manifests\<close>

text \<open>
  C5. A write keeps the integrity of the manifest: for a manifest that passes its integrity check and
  whose addresses fit in 64 bits, \<^verbatim>\<open>prepare_write\<close> does not panic, its result passes the check and has
  the right size; the chunks to remove are exactly those no longer referenced, the new ones exactly
  those to write, and every address is served by the new chunk of its block inside the written range,
  by what served it before elsewhere.
\<close>

theorem prepare_write_correct:
  assumes "lf_in_range m" "lf_accepted m" "ids_local m" "off + sz + lf_blocksize m < u64_bound"
    "range new_ids \<inter> lf_ids m = {}" "inj new_ids"
  shows "\<exists>m' ops removed. prepare_write new_ids m sz off now = Some (m', ops, removed) \<and>
    lf_in_range m' \<and> lf_accepted m' \<and> ids_local m' \<and>
    lf_size m' = (if sz = 0 then lf_size m else max (lf_size m) (off + sz)) \<and>
    removed = lf_ids m - lf_ids m' \<and> cv_id ` wo_chunk_view ` set ops = lf_ids m' - lf_ids m \<and>
    (\<forall>p. byte_source m' p =
       (if off \<le> p \<and> p < off + sz
        then Some (new_ids (p div lf_blocksize m), p - max off (p div lf_blocksize m * lf_blocksize m))
        else byte_source m p))"
proof -
  obtain m' ops removed where pw: "prepare_write new_ids m sz off now = Some (m', ops, removed)"
    "lf_in_range m'" "lf_accepted m'" "lf_size m' = (if sz = 0 then lf_size m else max (lf_size m) (off + sz))"
    using prepare_write_accepted [OF assms(1,2,4), of new_ids now] by blast
  note src = prepare_write_source [OF assms(1,2,4) pw(1)]
  have ids: "removed = lf_ids m - lf_ids m'" "lf_ids m' - lf_ids m = cv_id ` wo_chunk_view ` set ops" "ids_local m'"
    using prepare_write_ids [OF assms(1,2,4,3,5,6) pw(1)] by auto
  show ?thesis using pw ids src by (intro exI [of _ m'] exI [of _ ops] exI [of _ removed]) simp
qed

theorem prepare_write_correct_witness:
  "\<exists>m' ops removed. prepare_write even_ids sample_manifest 8 2 7 = Some (m', ops, removed) \<and> lf_accepted m' \<and>
     lf_size m' = 10 \<and> removed = {20} - lf_ids m'"
proof -
  have "2 + 8 + lf_blocksize sample_manifest < u64_bound" by (simp add: sample_manifest_def u64_bound_def)
  moreover have "range even_ids \<inter> lf_ids sample_manifest = {}" using sample_ids_apart(2) by (simp add: sample_ids)
  ultimately obtain m' ops removed where pw: "prepare_write even_ids sample_manifest 8 2 7 = Some (m', ops, removed)"
    "lf_accepted m'" "lf_size m' = (if (8::nat) = 0 then lf_size sample_manifest else max (lf_size sample_manifest) (2 + 8))"
    "removed = lf_ids sample_manifest - lf_ids m'"
    using prepare_write_correct [OF sample_manifest_ok sample_local, of 2 8 even_ids 7] sample_ids_apart(4) by metis
  then have "lf_size m' = 10" by (simp add: sample_manifest_def)
  then show ?thesis using pw(1,2,4) sample_ids by metis
qed

text \<open>
  C10. The block-level routines that edit a slot with two binary searches agree with their
  specification by whole-list filters: \<^verbatim>\<open>block_write\<close> keeps what lies before and after the written range,
  cut at its bounds, around the new view, and frees the ids no kept view uses; \<^verbatim>\<open>block_read\<close> keeps what
  meets the range, cut at its bounds.
\<close>

theorem block_routines_equal_reference:
  assumes "chunks_ok lo hi cs" "s + sz < u64_bound"
  shows "(0 < sz \<longrightarrow> block_write cs sz s new =
      Some (clip_before s cs @ [new] @ clip_after (s + sz) cs,
            cs_ids cs - cs_ids (clip_before s cs @ clip_after (s + sz) cs))) \<and>
    block_read cs sz s = Some (clip_range s (s + sz) cs)"
  using block_write_clip [OF assms(1) _ assms(2)] block_read_clip [OF assms] by simp

theorem block_routines_equal_reference_witness:
  "block_read [sample_view] 2 1 = Some [sample_view\<lparr>cv_start := 1, cv_stop := 3\<rparr>] \<and>
   (\<exists>removed. block_write [sample_view] 2 1 (sample_view\<lparr>cv_id := 30, cv_start := 1, cv_stop := 3\<rparr>) =
      Some ([sample_view\<lparr>cv_stop := 1\<rparr>, sample_view\<lparr>cv_id := 30, cv_start := 1, cv_stop := 3\<rparr>,
             sample_view\<lparr>cv_start := 3\<rparr>], removed))"
proof -
  have "chunks_ok 0 8 [sample_view]"
    by (simp add: sample_view_def cv_check_data_integrity_def ensure_def u64_add_def u64_bound_def)
  from block_routines_equal_reference [OF this, of 1 2 "sample_view\<lparr>cv_id := 30, cv_start := 1, cv_stop := 3\<rparr>"]
  show ?thesis by (simp add: u64_bound_def clip_before_def clip_after_def clip_range_def sample_view_def)
qed

text \<open>
  C15. The integrity check of a local file manifest decides the rules below, for every manifest whose addresses and
  raw chunks fit in 64 bits. It accepts if and only if the file is not its own parent, every view is not empty and
  shows only addresses of its raw chunk and of the span of its slot, the views of the file follow each other without
  overlap, the last slot is not empty and no view ends after the end of the file. It panics if and only if those rules
  on the views hold and the last slot is empty. The comment of the check also says that chunks do not share a block
  span; the check does not ask for it, and \<^verbatim>\<open>two_views\<close> is accepted with two views in one
  span.
\<close>

theorem local_file_integrity_decides:
  assumes "lf_in_range m" "views_addressable (lf_blocks m)"
  shows "(lf_check_data_integrity m = Some (Inr ()) \<longleftrightarrow>
      fm_id (lf_base m) \<noteq> lf_parent m \<and> local_geometry (lf_blocksize m) (lf_blocks m) \<and>
      last_slot_ok (lf_blocks m) \<and> stops_below (lf_size m) (lf_blocks m)) \<and>
    (lf_check_data_integrity m = None \<longleftrightarrow>
      fm_id (lf_base m) \<noteq> lf_parent m \<and> local_geometry (lf_blocksize m) (lf_blocks m) \<and>
      \<not> last_slot_ok (lf_blocks m))"
  using lf_check_data_integrity_iff [OF assms(1)] lf_check_panics_iff [OF assms(1)]
  by (simp add: blocks_ok_iff_geometry [OF assms(2)])

definition two_views :: local_file_manifest where
  "two_views = sample_manifest\<lparr>lf_size := 7, lf_blocks := [[sample_view,
     sample_view\<lparr>cv_id := 21, cv_start := 5, cv_stop := 7, cv_raw_offset := 4\<rparr>]]\<rparr>"

theorem local_file_integrity_decides_witness:
  "lf_check_data_integrity two_views = Some (Inr ()) \<and> length (lf_blocks two_views ! 0) = 2 \<and>
   lf_check_data_integrity (two_views\<lparr>lf_size := 6\<rparr>) \<noteq> Some (Inr ()) \<and>
   lf_check_data_integrity (two_views\<lparr>lf_blocks := lf_blocks two_views @ [[]]\<rparr>) = None \<and>
   lf_check_data_integrity (sample_manifest\<lparr>lf_blocks := [[sample_view\<lparr>cv_raw_size := 3\<rparr>]]\<rparr>) \<noteq> Some (Inr ())"
proof -
  let ?ms = "[two_views, two_views\<lparr>lf_size := 6\<rparr>, two_views\<lparr>lf_blocks := lf_blocks two_views @ [[]]\<rparr>,
    sample_manifest\<lparr>lf_blocks := [[sample_view\<lparr>cv_raw_size := 3\<rparr>]]\<rparr>]"
  have hyps: "\<forall>m \<in> set ?ms. lf_in_range m \<and> views_addressable (lf_blocks m)"
    by (simp add: lf_in_range_def views_addressable_def two_views_def sample_manifest_def sample_view_def u64_bound_def)
  note rules = local_geometry_def view_geometry_def view_before_def last_slot_ok_def stops_below_def two_views_def
    sample_manifest_def sample_view_def less_Suc_eq
  have 1: "lf_check_data_integrity two_views = Some (Inr ())"
    using local_file_integrity_decides [of two_views] hyps by (simp add: rules)
  have 2: "lf_check_data_integrity (two_views\<lparr>lf_size := 6\<rparr>) \<noteq> Some (Inr ())"
    using local_file_integrity_decides [of "two_views\<lparr>lf_size := 6\<rparr>"] hyps by (simp add: rules)
  have 3: "lf_check_data_integrity (two_views\<lparr>lf_blocks := lf_blocks two_views @ [[]]\<rparr>) = None"
    using local_file_integrity_decides [of "two_views\<lparr>lf_blocks := lf_blocks two_views @ [[]]\<rparr>"] hyps
    by (simp add: rules)
  have 4: "lf_check_data_integrity (sample_manifest\<lparr>lf_blocks := [[sample_view\<lparr>cv_raw_size := 3\<rparr>]]\<rparr>) \<noteq> Some (Inr ())"
    using local_file_integrity_decides [of "sample_manifest\<lparr>lf_blocks := [[sample_view\<lparr>cv_raw_size := 3\<rparr>]]\<rparr>"] hyps
    by (simp add: rules)
  from 1 2 3 4 show ?thesis by (simp add: two_views_def)
qed

subsection \<open>The table of descriptors\<close>

text \<open>
  C4. The table of opened files is consistent in every state reachable by opening, reading, writing,
  resizing, flushing and closing, in any order and whatever the storage and the server answer: a known
  descriptor always refers to an opened file (the lookups never panic), that file has a cursor for it,
  and a file without any descriptor is not kept open.
\<close>

theorem fd_table_consistent:
  assumes "ops_reachable ops"
  shows "retrieve_opened_file fd ops \<noteq> None \<and>
    (\<forall>v f. retrieve_opened_file fd ops = Some (Inr (v, f)) \<longrightarrow> find_cursor fd f \<noteq> None) \<and>
    (\<forall>v f. hm_get (files_of ops) v = Some f \<longrightarrow> (\<exists>fd'. hm_get (fds_of ops) fd' = Some v))"
proof -
  have ok: "ops_ok ops" using ops_reachable_ok [OF assms] .
  have "\<exists>fd'. hm_get (fds_of ops) fd' = Some v" if v: "hm_get (files_of ops) v = Some f" for v f
  proof -
    obtain c where "c \<in> set (of_cursors f)"
      using ops_okD(6) [OF ok v] by (cases "of_cursors f") (auto simp: cursors_match_def)
    then show ?thesis using ops_okD(6) [OF ok v] unfolding cursors_match_def by blast
  qed
  moreover from ok have "retrieve_opened_file fd ops \<noteq> None \<and>
    (\<forall>v f. retrieve_opened_file fd ops = Some (Inr (v, f)) \<longrightarrow> find_cursor fd f \<noteq> None)"
    by (cases rule: retrieve_ok [where fd = fd]) auto
  ultimately show ?thesis by blast
qed

text \<open>The state after opening the small file for reading and writing, fetched from elsewhere.\<close>

definition sample_populate :: populate where
  "sample_populate v s = (s, Inr (FetchedFile sample_manifest))"

definition read_write :: open_options where
  "read_write = \<lparr>opt_read = True, opt_write = True, opt_truncate = False\<rparr>"

definition opened_ops :: workspace_ops where
  "opened_ops = fst (the (open_file_by_id sample_env sample_populate 0 5 read_write (ops_start sample_store)))"

lemmas open_simps = open_file_by_id_def for_update_file_def lock_take_def ops_start_def sample_store_def
  sample_populate_def maybe_truncate_on_open_def read_write_def new_cursor_def register_fd_def put_file_def
  new_opened_file_def

lemma sample_open:
  "open_file_by_id sample_env sample_populate 0 5 read_write (ops_start sample_store) =
     Some (opened_ops, OpenDone (Inr (1, 5)))"
  by (simp add: opened_ops_def) (simp add: open_simps)

lemma opened_reachable: "ops_reachable opened_ops"
proof -
  have "ops_step (ops_start sample_store) opened_ops"
    by (rule op_open [OF sample_open]) (simp add: ops_start_def)
  then show ?thesis unfolding ops_reachable_def by blast
qed

theorem fd_table_consistent_witness:
  "\<exists>v f. retrieve_opened_file 1 opened_ops = Some (Inr (v, f)) \<and> find_cursor 1 f \<noteq> None"
proof -
  have "retrieve_opened_file 1 opened_ops = Some (Inr (5, the (hm_get (files_of opened_ops) 5)))"
    by (simp add: opened_ops_def retrieve_opened_file_def open_simps u32_add_def)
  then show ?thesis using fd_table_consistent [OF opened_reachable, of 1] by blast
qed

text \<open>
  C12. Closing the last descriptor of a file, in any reachable state: the descriptor is forgotten, the
  file leaves the table, and the manifest lock it held for writing is released, even when the final
  flush fails.
\<close>

theorem fd_close_last_releases:
  assumes "ops_reachable ops" "fd_close env reshape_ids fd ops = Some (ops', r)"
    "hm_get (fds_of ops) fd = Some v" "hm_get (files_of ops) v = Some f"
    "\<forall>fd'. hm_get (fds_of ops) fd' = Some v \<longrightarrow> fd' = fd"
  shows "hm_get (fds_of ops') fd = None \<and> hm_get (files_of ops') v = None \<and>
    (of_updater f \<noteq> None \<longrightarrow> \<not> lock_is_taken (ops_locks ops') v) \<and> retrieve_opened_file fd ops' = Some (Inl ())"
proof -
  note c = fd_close_last_spec [OF ops_reachable_ok [OF assms(1)] assms(2-4)]
  have "hm_get (fds_of ops') fd = None" "hm_get (files_of ops') v = None"
    "of_updater f \<noteq> None \<Longrightarrow> \<not> lock_is_taken (ops_locks ops') v"
    using c assms(5) by blast+
  then show ?thesis by (simp add: retrieve_opened_file_def)
qed

theorem fd_close_last_releases_witness:
  "\<exists>ops' r. fd_close sample_env odd_ids 1 opened_ops = Some (ops', r) \<and> \<not> lock_is_taken (ops_locks ops') 5 \<and>
     retrieve_opened_file 1 ops' = Some (Inl ())"
proof -
  obtain ops' r where run: "fd_close sample_env odd_ids 1 opened_ops = Some (ops', r)"
    by (simp add: opened_ops_def open_simps u32_add_def fd_close_def flush_file_def force_reshape_and_flush_def
        close_maybe_updater_def close_updater_def lock_release_def)
  have t: "hm_get (fds_of opened_ops) 1 = Some 5" "\<forall>fd'. hm_get (fds_of opened_ops) fd' = Some 5 \<longrightarrow> fd' = 1"
    "hm_get (files_of opened_ops) 5 = Some (new_opened_file (Some 5) sample_manifest None (new_cursor read_write 1))"
    by (simp_all add: opened_ops_def open_simps u32_add_def)
  show ?thesis
    using run fd_close_last_releases [OF opened_reachable run t(1,3,2)] by (auto simp: new_opened_file_def)
qed

subsection \<open>Two ways to open a file without its updater\<close>




end
