(* ===== verification/Manifest_Roundtrip.thy ===== *)
theory Manifest_Roundtrip
  imports Local_File_Manifest
begin

text \<open>
  From a remote file manifest to a local one and back: \<^verbatim>\<open>LocalFileManifest::from_remote\<close> puts every
  block of a manifest that passes its integrity check in its own slot, and \<^verbatim>\<open>to_remote\<close> collects them
  again.
\<close>

subsection \<open>Pushing views into slots\<close>

lemma push_chunk_new_slot:
  assumes "length blocks \<le> cv_start c div bs"
  shows "lf_push_chunk bs blocks c = blocks @ replicate (cv_start c div bs - length blocks) [] @ [[c]]"
proof -
  let ?i = "cv_start c div bs"
  have "pad_blocks blocks ?i = blocks @ replicate (?i - length blocks) [] @ [[]]"
    using assms by (simp add: pad_blocks_eq Suc_diff_le replicate_append_same)
  then show ?thesis
    using assms by (simp add: lf_push_chunk_def Let_def nth_append list_update_append)
qed

abbreviation view_of :: "block_access \<Rightarrow> chunk_view" where
  "view_of a \<equiv> \<lparr>cv_id = ba_id a, cv_start = ba_offset a, cv_stop = ba_offset a + ba_size a,
     cv_raw_offset = ba_offset a, cv_raw_size = ba_size a, cv_access = Some a\<rparr>"

definition increasing_slots :: "nat \<Rightarrow> nat \<Rightarrow> block_access list \<Rightarrow> bool" where
  "increasing_slots bs n accs \<longleftrightarrow> (\<forall>a \<in> set accs. n \<le> ba_offset a div bs) \<and>
     sorted_wrt (\<lambda>a b. ba_offset a div bs < ba_offset b div bs) accs"

definition slots_of :: "nat \<Rightarrow> block_access list \<Rightarrow> chunk_view list list \<Rightarrow> chunk_view list list" where
  "slots_of bs accs blocks = foldl (lf_push_chunk bs) blocks (map view_of accs)"

lemma slots_of_Cons:
  assumes "increasing_slots bs (length blocks) (a # accs)"
  shows "slots_of bs (a # accs) blocks =
    slots_of bs accs (blocks @ replicate (ba_offset a div bs - length blocks) [] @ [[view_of a]]) \<and>
    increasing_slots bs (Suc (ba_offset a div bs)) accs \<and> length blocks \<le> ba_offset a div bs"
  using assms push_chunk_new_slot [of blocks "view_of a" bs]
  by (auto simp: slots_of_def increasing_slots_def)

lemma slots_of_spec:
  assumes "increasing_slots bs (length blocks) accs"
  shows "filter (\<lambda>cs. cs \<noteq> []) (slots_of bs accs blocks) = filter (\<lambda>cs. cs \<noteq> []) blocks @ map (\<lambda>a. [view_of a]) accs \<and>
    length (slots_of bs accs blocks) = (if accs = [] then length blocks else Suc (ba_offset (last accs) div bs)) \<and>
    (accs \<noteq> [] \<longrightarrow> last (slots_of bs accs blocks) \<noteq> []) \<and>
    (\<forall>i < length (slots_of bs accs blocks). i < length blocks \<and> slots_of bs accs blocks ! i = blocks ! i \<or>
       slots_of bs accs blocks ! i = [] \<or>
       (\<exists>a \<in> set accs. slots_of bs accs blocks ! i = [view_of a] \<and> i = ba_offset a div bs))"
  using assms
proof (induction accs arbitrary: blocks)
  case Nil
  then show ?case by (simp add: slots_of_def)
next
  case (Cons a accs)
  let ?i = "ba_offset a div bs"
  let ?b = "blocks @ replicate (?i - length blocks) [] @ [[view_of a]]"
  note c = slots_of_Cons [OF Cons.prems]
  have len: "length ?b = Suc ?i" using c by simp
  have IH: "filter (\<lambda>cs. cs \<noteq> []) (slots_of bs accs ?b) = filter (\<lambda>cs. cs \<noteq> []) ?b @ map (\<lambda>a. [view_of a]) accs"
    "length (slots_of bs accs ?b) = (if accs = [] then length ?b else Suc (ba_offset (last accs) div bs))"
    "accs \<noteq> [] \<longrightarrow> last (slots_of bs accs ?b) \<noteq> []"
    "\<forall>i < length (slots_of bs accs ?b). i < length ?b \<and> slots_of bs accs ?b ! i = ?b ! i \<or>
       slots_of bs accs ?b ! i = [] \<or> (\<exists>a \<in> set accs. slots_of bs accs ?b ! i = [view_of a] \<and> i = ba_offset a div bs)"
    using Cons.IH [of ?b] c len by simp_all
  have old: "i < length blocks \<and> ?b ! i = blocks ! i \<or> ?b ! i = [] \<or> ?b ! i = [view_of a] \<and> i = ?i" if "i < length ?b" for i
    using that len by (auto simp: nth_append)
  have "last (slots_of bs (a # accs) blocks) \<noteq> []"
    using IH(3) c by (cases "accs = []") (simp_all add: slots_of_def)
  moreover have "length (slots_of bs (a # accs) blocks) = Suc (ba_offset (last (a # accs)) div bs)"
    using IH(2) c len by simp
  moreover have "i < length blocks \<and> slots_of bs (a # accs) blocks ! i = blocks ! i \<or> slots_of bs (a # accs) blocks ! i = [] \<or>
      (\<exists>x \<in> set (a # accs). slots_of bs (a # accs) blocks ! i = [view_of x] \<and> i = ba_offset x div bs)"
    if "i < length (slots_of bs (a # accs) blocks)" for i
  proof -
    have "i < length (slots_of bs accs ?b)" using that c by simp
    then consider "i < length ?b" "slots_of bs accs ?b ! i = ?b ! i" | "slots_of bs accs ?b ! i = []"
      | x where "x \<in> set accs" "slots_of bs accs ?b ! i = [view_of x]" "i = ba_offset x div bs"
      using IH(4) by blast
    then show ?thesis
    proof cases
      case 1
      then show ?thesis using old [of i] c by auto
    qed (use c in auto)
  qed
  ultimately show ?case using IH(1) c by simp
qed

subsection \<open>The round trip\<close>

lemma those_views:
  "blocks_in_range accs \<Longrightarrow> those (map cv_from_block_access accs) = Some (map view_of accs)"
  by (induction accs) (auto simp: blocks_in_range_def block_stop_def cv_from_block_access_def u64_simps)

lemma view_of_ok: "0 < ba_size a \<Longrightarrow> ba_offset a + ba_size a < u64_bound \<Longrightarrow> cv_ok (view_of a)"
  by (simp add: cv_ok_iff u64_simps)

lemma view_of_block: "0 < ba_size a \<Longrightarrow> ba_offset a + ba_size a < u64_bound \<Longrightarrow> cv_block (view_of a) = Some a"
  by (simp add: cv_block_def cv_is_aligned_with_raw_data_def u64_simps)

lemma reshaped_slots:
  "(\<And>cs. cs \<in> set blocks \<Longrightarrow> cs = [] \<or> (\<exists>c. cs = [c] \<and> cv_is_block c)) \<Longrightarrow> is_reshaped_blocks blocks"
  by (induction blocks rule: is_reshaped_blocks.induct) force+

lemma collect_views:
  "(\<And>a. a \<in> set accs \<Longrightarrow> cv_block (view_of a) = Some a) \<Longrightarrow>
   collect_results (map (lf_slot_access \<circ> (\<lambda>a. [view_of a])) accs) = Inr accs"
  by (induction accs) (simp_all add: cv_get_block_access_def ok_or_def)

definition local_of :: "file_manifest \<Rightarrow> local_file_manifest" where
  "local_of m = \<lparr>lf_base = m, lf_parent = fm_parent m, lf_need_sync = False, lf_updated = fm_updated m,
     lf_size = fm_size m, lf_blocksize = fm_blocksize m, lf_blocks = slots_of (fm_blocksize m) (fm_blocks m) []\<rparr>"

lemma local_of_accepted:
  assumes bs: "0 < fm_blocksize m" and range: "blocks_in_range (fm_blocks m)"
    and ok: "fm_check_data_integrity m = Inr ()" and lim: "fm_size m + fm_blocksize m < u64_bound"
  shows "lf_in_range (local_of m)" "lf_check_data_integrity (local_of m) = Some (Inr ())" "lf_is_reshaped (local_of m)"
    "filter (\<lambda>cs. cs \<noteq> []) (lf_blocks (local_of m)) = map (\<lambda>a. [view_of a]) (fm_blocks m)"
proof -
  let ?bs = "fm_blocksize m" and ?accs = "fm_blocks m"
  let ?S = "slots_of ?bs ?accs []"
  have g: "fm_id m \<noteq> fm_parent m" "\<And>a. a \<in> set ?accs \<Longrightarrow> block_stop a \<le> (ba_offset a div ?bs + 1) * ?bs"
    "\<And>a. a \<in> set ?accs \<Longrightarrow> block_stop a \<le> fm_size m"
    and inc: "increasing_slots ?bs (length ([] :: chunk_view list list)) ?accs"
    using ok fm_check_data_integrity_iff [OF bs range]
    by (auto simp: file_blocks_geometry_def block_in_span_def increasing_slots_def)
  have r: "0 < ba_size a" "ba_offset a + ba_size a < u64_bound" if "a \<in> set ?accs" for a
    using range that by (auto simp: blocks_in_range_def block_stop_def)
  note spec = slots_of_spec [OF inc]
  have slot: "?S ! i = [] \<or> (\<exists>a \<in> set ?accs. ?S ! i = [view_of a] \<and> i = ba_offset a div ?bs)" if "i < length ?S" for i
    using spec that by auto
  show rng: "lf_in_range (local_of m)"
  proof (cases "?accs = []")
    case True
    then show ?thesis using spec bs lim by (simp add: lf_in_range_def local_of_def)
  next
    case False
    let ?a = "last ?accs"
    have "?a \<in> set ?accs" using False by simp
    then have "ba_offset ?a \<le> fm_size m" using g(3) [of ?a] by (simp add: block_stop_def)
    moreover have "ba_offset ?a div ?bs * ?bs \<le> ba_offset ?a" by simp
    ultimately have "ba_offset ?a div ?bs * ?bs \<le> fm_size m" by (rule order_trans [rotated])
    then have "length ?S * ?bs \<le> fm_size m + ?bs" using spec False by simp
    then show ?thesis using bs lim by (simp add: lf_in_range_def local_of_def)
  qed
  have "chunks_ok (i * ?bs) ((i + 1) * ?bs) (?S ! i)" if i: "i < length ?S" for i
  proof -
    consider "?S ! i = []" | a where "a \<in> set ?accs" "?S ! i = [view_of a]" "i = ba_offset a div ?bs"
      using slot [OF i] by blast
    then show ?thesis
    proof cases
      case 2
      have "ba_offset a div ?bs * ?bs \<le> ba_offset a" by simp
      then show ?thesis
        using 2 view_of_ok [OF r [OF 2(1)]] g(2) [OF 2(1)] by (simp add: block_stop_def)
    qed simp
  qed
  then have "blocks_ok ?bs ?S" by (simp add: blocks_ok_def)
  moreover have "last_slot_ok ?S" using spec by (cases "?accs = []") (auto simp: last_slot_ok_def)
  moreover have "stops_below (fm_size m) ?S"
    using slot g(3) by (fastforce simp: stops_below_def in_set_conv_nth block_stop_def)
  ultimately show "lf_check_data_integrity (local_of m) = Some (Inr ())"
    using lf_check_data_integrity_iff [OF rng] g(1) by (simp add: local_of_def)
  have "cs = [] \<or> (\<exists>c. cs = [c] \<and> cv_is_block c)" if "cs \<in> set ?S" for cs
    using that slot view_of_block r by (fastforce simp: in_set_conv_nth cv_is_block_def)
  then have "is_reshaped_blocks ?S" by (rule reshaped_slots)
  then show "lf_is_reshaped (local_of m)" by (simp add: lf_is_reshaped_def local_of_def)
  show "filter (\<lambda>cs. cs \<noteq> []) (lf_blocks (local_of m)) = map (\<lambda>a. [view_of a]) ?accs"
    using spec by (simp add: local_of_def)
qed

lemma local_of_expected:
  assumes "0 < fm_blocksize m" "blocks_in_range (fm_blocks m)" "fm_check_data_integrity m = Inr ()"
    "fm_size m + fm_blocksize m < u64_bound"
  shows "lf_integrity_expect (local_of m) = Some ()"
  unfolding lf_integrity_expect_def local_of_accepted(2) [OF assms] by (simp only: option.case sum.case old.unit.case)

lemma lf_from_remote_accepted:
  assumes "0 < fm_blocksize m" "blocks_in_range (fm_blocks m)" "fm_check_data_integrity m = Inr ()"
    "fm_size m + fm_blocksize m < u64_bound"
  shows "lf_from_remote m = Some (local_of m)"
  using those_views [OF assms(2)] local_of_expected [OF assms]
  by (simp add: lf_from_remote_def local_of_def slots_of_def)

text \<open>
  C9. Round trip of a file manifest: a remote manifest that passes its integrity check becomes a local
  manifest without panic; the local manifest passes its own check and is reshaped, and turning it back
  into a remote manifest yields the same manifest, signed by the new author at the new time, with the
  next version.
\<close>

theorem file_manifest_roundtrip:
  assumes "0 < fm_blocksize m" "blocks_in_range (fm_blocks m)" "fm_check_data_integrity m = Inr ()"
    "fm_size m + fm_blocksize m < u64_bound" "fm_version m + 1 < 2 ^ 32"
  shows "\<exists>l. lf_from_remote m = Some l \<and> lf_check_data_integrity l = Some (Inr ()) \<and> lf_is_reshaped l \<and>
    lf_to_remote l author timestamp =
      Some (Inr (m\<lparr>fm_author := author, fm_timestamp := timestamp, fm_version := fm_version m + 1\<rparr>))"
proof -
  note l = local_of_accepted [OF assms(1-4)]
  note exp = local_of_expected [OF assms(1-4)]
  note lf_from_remote_accepted [OF assms(1-4)]
  moreover have "collect_results (map lf_slot_access (filter (\<lambda>cs. cs \<noteq> []) (lf_blocks (local_of m)))) = Inr (fm_blocks m)"
    using collect_views [of "fm_blocks m"] view_of_block assms(2) unfolding l(4)
    by (simp add: blocks_in_range_def block_stop_def)
  moreover have "u32_add (fm_version m) 1 = fm_version m + 1" using assms(5) by (simp add: u32_add_def)
  moreover have "fm_check_data_integrity (m\<lparr>fm_author := author, fm_timestamp := timestamp, fm_version := fm_version m + 1\<rparr>) = Inr ()"
    using assms(3) by (simp add: fm_check_data_integrity_def split: if_split_asm)
  ultimately show ?thesis
    using l exp by (cases m) (simp add: lf_to_remote_def file_manifest_new_def local_of_def)
qed

definition sample_remote :: file_manifest where
  "sample_remote = \<lparr>fm_author = 1, fm_timestamp = 10, fm_id = 2, fm_parent = 3, fm_version = 4, fm_created = 5,
     fm_updated = 6, fm_size = 20, fm_blocksize = 8,
     fm_blocks = [\<lparr>ba_id = 50, ba_offset = 0, ba_size = 8, ba_digest = 0\<rparr>, \<lparr>ba_id = 51, ba_offset = 17, ba_size = 3, ba_digest = 0\<rparr>]\<rparr>"

lemma sample_remote_ok: "0 < fm_blocksize sample_remote" "blocks_in_range (fm_blocks sample_remote)"
  "fm_check_data_integrity sample_remote = Inr ()" "fm_size sample_remote + fm_blocksize sample_remote < u64_bound"
  "fm_version sample_remote + 1 < 2 ^ 32"
  by (simp_all add: sample_remote_def blocks_in_range_def block_stop_def u64_bound_def fm_check_data_integrity_def
      fm_check_block_def u64_add_def u64_sub_def ensure_def)

theorem file_manifest_roundtrip_witness:
  "\<exists>l. lf_from_remote sample_remote = Some l \<and>
     lf_to_remote l 9 99 = Some (Inr (sample_remote\<lparr>fm_author := 9, fm_timestamp := 99, fm_version := 5\<rparr>))"
  using file_manifest_roundtrip [OF sample_remote_ok, of 9 99] by (auto simp: sample_remote_def)

definition wrapping_remote :: file_manifest where
  "wrapping_remote = sample_remote\<lparr>fm_size := 0,
     fm_blocks := [\<lparr>ba_id = 50, ba_offset = u64_bound - 8, ba_size = 8, ba_digest = 0\<rparr>]\<rparr>"

lemma wrapping_remote_accepted: "fm_check_data_integrity wrapping_remote = Inr ()"
  by (simp add: wrapping_remote_def sample_remote_def fm_check_data_integrity_def fm_check_block_def u64_add_def
      u64_sub_def u64_bound_def ensure_def)

lemma wrapping_remote_geometry: "\<not> file_blocks_geometry 8 0 (fm_blocks wrapping_remote)"
  by (simp add: wrapping_remote_def sample_remote_def u64_bound_def file_blocks_geometry_def block_stop_def)

text \<open>
  The layout the comment of \<^verbatim>\<open>FileManifest.blocksize\<close> asks for: every block starts at a multiple of the
  block size and has that size, except the last one, which may be smaller.
\<close>

definition blocksize_layout :: "blocksize \<Rightarrow> block_access list \<Rightarrow> bool" where
  "blocksize_layout bs blocks \<longleftrightarrow>
     (\<forall>b \<in> set blocks. bs dvd ba_offset b \<and> ba_size b \<le> bs) \<and>
     (\<forall>b \<in> set (butlast blocks). ba_size b = bs)"

lemma blocksize_layout_geometry:
  assumes bs: "0 < bs" and lay: "blocksize_layout bs blocks"
    and ord: "sorted_wrt (\<lambda>a b. ba_offset a < ba_offset b) blocks"
    and lim: "\<forall>b \<in> set blocks. block_stop b \<le> sz"
  shows "file_blocks_geometry bs sz blocks"
proof -
  have "block_in_span bs b" if "b \<in> set blocks" for b
    using lay that by (auto simp: blocksize_layout_def block_in_span_def block_stop_def elim!: dvdE)
  moreover have "ba_offset a div bs < ba_offset b div bs"
    if "a \<in> set blocks" "b \<in> set blocks" "ba_offset a < ba_offset b" for a b
    using lay that bs unfolding blocksize_layout_def by (metis dvd_div_mult_self mult_less_cancel2)
  ultimately show ?thesis
    using lim sorted_wrt_mono_rel [OF _ ord] by (simp add: file_blocks_geometry_def)
qed

lemma sample_remote_layout: "\<not> blocksize_layout 8 (fm_blocks sample_remote)"
  by (simp add: blocksize_layout_def sample_remote_def)

text \<open>
  C16. The integrity check of a remote file manifest decides the rules listed in its own comment, for a positive block
  size and non-empty blocks that end at a 64-bit address: it accepts exactly the manifests that are not their own
  parent and whose blocks lie each in one span, in increasing spans, below the size of the file. The comment of the
  block size asks for more: aligned blocks, all of full size but the last. Every such layout, ordered and below the
  size of the file, is accepted, but the check does not enforce it: \<^verbatim>\<open>sample_remote\<close>, with a
  block of 3 bytes at address 17 for blocks of 8 bytes, is accepted. Without the bound on the end of the blocks the
  check does not decide its own rules either: the end of a block at the last address wraps to zero, and a manifest of
  size zero with such a block is accepted.
\<close>

theorem remote_file_integrity_decides:
  assumes "0 < fm_blocksize m" "blocks_in_range (fm_blocks m)"
  shows "(fm_check_data_integrity m = Inr () \<longleftrightarrow>
      fm_id m \<noteq> fm_parent m \<and> file_blocks_geometry (fm_blocksize m) (fm_size m) (fm_blocks m)) \<and>
    (fm_id m \<noteq> fm_parent m \<and> blocksize_layout (fm_blocksize m) (fm_blocks m) \<and>
      sorted_wrt (\<lambda>a b. ba_offset a < ba_offset b) (fm_blocks m) \<and>
      (\<forall>b \<in> set (fm_blocks m). block_stop b \<le> fm_size m) \<longrightarrow> fm_check_data_integrity m = Inr ()) \<and>
    fm_check_data_integrity sample_remote = Inr () \<and>
    \<not> blocksize_layout (fm_blocksize sample_remote) (fm_blocks sample_remote) \<and>
    fm_check_data_integrity wrapping_remote = Inr () \<and> \<not> file_blocks_geometry 8 0 (fm_blocks wrapping_remote)"
  using fm_check_data_integrity_iff [OF assms] blocksize_layout_geometry [OF assms(1)] sample_remote_ok(3)
    sample_remote_layout wrapping_remote_accepted wrapping_remote_geometry
  by (simp add: sample_remote_def)

theorem remote_file_integrity_decides_witness:
  "fm_check_data_integrity (sample_remote\<lparr>fm_blocks := take 1 (fm_blocks sample_remote)\<rparr>) = Inr () \<and>
   fm_check_data_integrity (sample_remote\<lparr>fm_size := 19\<rparr>) \<noteq> Inr ()"
proof -
  have "fm_check_data_integrity (sample_remote\<lparr>fm_size := 19\<rparr>) = Inr () \<longleftrightarrow> file_blocks_geometry 8 19 (fm_blocks sample_remote)"
    using remote_file_integrity_decides [of "sample_remote\<lparr>fm_size := 19\<rparr>"] sample_remote_ok(1,2)
    by (simp add: sample_remote_def)
  moreover have "\<not> file_blocks_geometry 8 19 (fm_blocks sample_remote)"
    by (simp add: file_blocks_geometry_def sample_remote_def block_stop_def)
  moreover have "fm_check_data_integrity (sample_remote\<lparr>fm_blocks := take 1 (fm_blocks sample_remote)\<rparr>) = Inr ()"
    using remote_file_integrity_decides [of "sample_remote\<lparr>fm_blocks := take 1 (fm_blocks sample_remote)\<rparr>"]
    by (simp add: sample_remote_def blocks_in_range_def block_stop_def u64_bound_def blocksize_layout_def)
  ultimately show ?thesis by simp
qed

end
