(* ===== verification/Local_Folder_Manifest.thy ===== *)
theory Local_Folder_Manifest
  imports Local_File_Manifest "HOL-Library.Multiset"
begin

text \<open>
  The local folder manifest and its confinement (\<^verbatim>\<open>types/src/local_manifest/folder.rs\<close>), the prevent sync
  pattern (\<^verbatim>\<open>types/src/prevent_sync_pattern.rs\<close>), and the other local manifests
  (\<^verbatim>\<open>types/src/local_manifest/mod.rs\<close>, \<^verbatim>\<open>user.rs\<close>).

  Entries whose name matches the prevent sync pattern are \<^emph>\<open>confined\<close>: local ones are not uploaded
  (\<open>ld_local_confinement_points\<close>), remote ones are not shown (\<open>ld_remote_confinement_points\<close>) but restored in
  what is uploaded. A hash set is a list read through membership. The order in which a hash map is visited is
  a parameter (\<open>hash_iter\<close>); regular expressions are what the library's \<^verbatim>\<open>Regex::is_match\<close> and
  \<^verbatim>\<open>Regex::as_str\<close> say of them. The value \<^const>\<open>None\<close> is a failed assertion.
\<close>

subsection \<open>Iteration orders and patterns\<close>

record hash_iter =
  hi_ids :: "vlob_id list \<Rightarrow> vlob_id list"
  hi_children :: "(entry_name, vlob_id) hashmap \<Rightarrow> (entry_name, vlob_id) hashmap"
  hi_changes :: "(entry_name, vlob_id option) hashmap \<Rightarrow> (entry_name, vlob_id option) hashmap"

definition hash_iter_ok :: "hash_iter \<Rightarrow> bool" where
  "hash_iter_ok h \<longleftrightarrow> (\<forall>ids. mset (hi_ids h ids) = mset ids) \<and> (\<forall>m. mset (hi_children h m) = mset m) \<and>
     (\<forall>m. mset (hi_changes h m) = mset m)"

record regex =
  rx_as_str :: string
  rx_is_match :: "string \<Rightarrow> bool"

type_synonym prevent_sync_pattern = "regex list"

definition pattern_is_match :: "prevent_sync_pattern \<Rightarrow> string \<Rightarrow> bool" where
  "pattern_is_match pattern s = list_ex (\<lambda>r. rx_is_match r s) pattern"

definition pattern_empty :: prevent_sync_pattern where
  "pattern_empty = []"

datatype ('r, 'g) prevent_sync_pattern_error = BadRegex 'r | BadGlob 'g

definition pattern_from_regex ::
  "(string \<Rightarrow> 'r + regex) \<Rightarrow> string \<Rightarrow> ('r, 'g) prevent_sync_pattern_error + prevent_sync_pattern" where
  "pattern_from_regex parse_regex s =
     (case parse_regex s of Inl e \<Rightarrow> Inl (BadRegex e) | Inr r \<Rightarrow> Inr [r])"

definition regex_from_glob_pattern ::
  "(string \<Rightarrow> 'g + regex) \<Rightarrow> string \<Rightarrow> ('r, 'g) prevent_sync_pattern_error + regex" where
  "regex_from_glob_pattern glob_to_regex s =
     (case glob_to_regex s of Inl e \<Rightarrow> Inl (BadGlob e) | Inr r \<Rightarrow> Inr r)"

definition pattern_from_glob ::
  "(string \<Rightarrow> 'g + regex) \<Rightarrow> string \<Rightarrow> ('r, 'g) prevent_sync_pattern_error + prevent_sync_pattern" where
  "pattern_from_glob glob_to_regex s = and_then (regex_from_glob_pattern glob_to_regex s) (\<lambda>r. Inr [r])"

fun pattern_from_multiple_globs ::
  "(string \<Rightarrow> 'g + regex) \<Rightarrow> string list \<Rightarrow> ('r, 'g) prevent_sync_pattern_error + prevent_sync_pattern" where
  "pattern_from_multiple_globs glob_to_regex [] = Inr []"
| "pattern_from_multiple_globs glob_to_regex (s # globs) =
     and_then (regex_from_glob_pattern glob_to_regex s) (\<lambda>r.
     and_then (pattern_from_multiple_globs glob_to_regex globs) (\<lambda>rs. Inr (r # rs)))"

definition pattern_eq :: "prevent_sync_pattern \<Rightarrow> prevent_sync_pattern \<Rightarrow> bool" where
  "pattern_eq self other =
     (if length self = length other then list_all (\<lambda>r. rx_as_str r \<in> set (map rx_as_str self)) other else False)"

subsection \<open>The manifests\<close>

record local_folder_manifest =
  ld_base :: folder_manifest
  ld_parent :: vlob_id
  ld_need_sync :: bool
  ld_updated :: date_time
  ld_children :: "(entry_name, vlob_id) hashmap"
  ld_local_confinement_points :: "vlob_id list"
  ld_remote_confinement_points :: "vlob_id list"
  ld_speculative :: bool

record unconfined_local_folder_manifest =
  uf_base :: folder_manifest
  uf_parent :: vlob_id
  uf_need_sync :: bool
  uf_updated :: date_time
  uf_children :: "(entry_name, vlob_id) hashmap"
  uf_speculative :: bool

definition ld_new :: "vlob_id \<Rightarrow> device_id \<Rightarrow> vlob_id \<Rightarrow> date_time \<Rightarrow> local_folder_manifest" where
  "ld_new new_id author parent timestamp =
     \<lparr>ld_base = \<lparr>fo_author = author, fo_timestamp = timestamp, fo_id = new_id, fo_parent = parent, fo_version = 0,
        fo_created = timestamp, fo_updated = timestamp, fo_children = []\<rparr>,
      ld_parent = parent, ld_need_sync = True, ld_updated = timestamp, ld_children = [],
      ld_local_confinement_points = [], ld_remote_confinement_points = [], ld_speculative = False\<rparr>"

definition ld_new_root :: "device_id \<Rightarrow> vlob_id \<Rightarrow> date_time \<Rightarrow> bool \<Rightarrow> local_folder_manifest" where
  "ld_new_root author realm timestamp speculative =
     \<lparr>ld_base = \<lparr>fo_author = author, fo_timestamp = timestamp, fo_id = realm, fo_parent = realm, fo_version = 0,
        fo_created = timestamp, fo_updated = timestamp, fo_children = []\<rparr>,
      ld_parent = realm, ld_need_sync = True, ld_updated = timestamp, ld_children = [],
      ld_local_confinement_points = [], ld_remote_confinement_points = [], ld_speculative = speculative\<rparr>"

definition ld_check_data_integrity :: "local_folder_manifest \<Rightarrow> data_error + unit" where
  "ld_check_data_integrity m = Inr ()"

definition ld_check_data_integrity_as_child :: "local_folder_manifest \<Rightarrow> data_error + unit" where
  "ld_check_data_integrity_as_child m =
     and_then (ld_check_data_integrity m) (\<lambda>_.
     ensure (fo_id (ld_base m) \<noteq> ld_parent m)
       (DataIntegrity ''LocalFolderManifest'' ''id and parent are different for child manifest''))"

definition ld_check_data_integrity_as_root :: "local_folder_manifest \<Rightarrow> data_error + unit" where
  "ld_check_data_integrity_as_root m =
     and_then (ld_check_data_integrity m) (\<lambda>_.
     ensure (fo_id (ld_base m) = ld_parent m)
       (DataIntegrity ''LocalFolderManifest'' ''id and parent are the same for root manifest''))"

subsection \<open>Changing the children\<close>

text \<open>The loop on removals: its state is the children, the local confinement points and \<open>actually_updated\<close>.\<close>

fun evolve_removals ::
  "(entry_name, vlob_id option) hashmap \<Rightarrow> (entry_name, vlob_id) hashmap \<times> vlob_id list \<times> bool \<Rightarrow>
   ((entry_name, vlob_id) hashmap \<times> vlob_id list \<times> bool) option" where
  "evolve_removals [] st = Some st"
| "evolve_removals ((name, entry_id) # data) (children, points, actually_updated) =
     (case hm_get children name of
        None \<Rightarrow> if entry_id = None then None else evolve_removals data (children, points, actually_updated)
      | Some old_entry_id \<Rightarrow>
          evolve_removals data (hm_remove name children, removeAll old_entry_id points,
            actually_updated \<or> old_entry_id \<notin> set points))"

fun evolve_additions ::
  "prevent_sync_pattern \<Rightarrow> (entry_name, vlob_id option) hashmap \<Rightarrow>
   (entry_name, vlob_id) hashmap \<times> vlob_id list \<times> bool \<Rightarrow> (entry_name, vlob_id) hashmap \<times> vlob_id list \<times> bool" where
  "evolve_additions pattern [] st = st"
| "evolve_additions pattern ((name, None) # data) st = evolve_additions pattern data st"
| "evolve_additions pattern ((name, Some entry_id) # data) (children, points, actually_updated) =
     evolve_additions pattern data
       (hm_insert name entry_id children,
        if pattern_is_match pattern name then List.insert entry_id points else points,
        actually_updated \<or> \<not> pattern_is_match pattern name)"

definition changed_ids :: "(entry_name, vlob_id option) hashmap \<Rightarrow> vlob_id list" where
  "changed_ids data = List.map_filter snd data"

definition evolve_children_and_mark_updated ::
  "hash_iter \<Rightarrow> local_folder_manifest \<Rightarrow> (entry_name, vlob_id option) hashmap \<Rightarrow> prevent_sync_pattern \<Rightarrow> date_time \<Rightarrow>
   local_folder_manifest option" where
  "evolve_children_and_mark_updated h m data pattern timestamp =
     Option.bind (evolve_removals (hi_changes h data) (ld_children m, ld_local_confinement_points m, False))
       (\<lambda>(children, points, removed).
         if list_ex (\<lambda>i. i \<in> snd ` set children) (changed_ids data) then None
         else
           let (children, points, actually_updated) =
                 evolve_additions pattern (hi_changes h data) (children, points, removed);
               m = m\<lparr>ld_children := children, ld_local_confinement_points := points\<rparr>
           in Some (if actually_updated then m\<lparr>ld_need_sync := True, ld_updated := timestamp\<rparr> else m))"

subsection \<open>Confinement\<close>

definition uf_from_remote :: "folder_manifest \<Rightarrow> unconfined_local_folder_manifest" where
  "uf_from_remote remote =
     \<lparr>uf_base = remote, uf_parent = fo_parent remote, uf_need_sync = False, uf_updated = fo_updated remote,
      uf_children = fo_children remote, uf_speculative = False\<rparr>"

definition uf_into_remote :: "unconfined_local_folder_manifest \<Rightarrow> device_id \<Rightarrow> date_time \<Rightarrow> folder_manifest" where
  "uf_into_remote m author timestamp =
     \<lparr>fo_author = author, fo_timestamp = timestamp, fo_id = fo_id (uf_base m), fo_parent = uf_parent m,
      fo_version = u32_add (fo_version (uf_base m)) 1, fo_created = fo_created (uf_base m), fo_updated = uf_updated m,
      fo_children = uf_children m\<rparr>"

text \<open>The two filters over the remote children, which also remove the filtered entries from the new ones.\<close>

fun filter_remote ::
  "prevent_sync_pattern \<Rightarrow> (entry_name, vlob_id) hashmap \<Rightarrow> (entry_name, vlob_id) hashmap \<times> vlob_id list \<Rightarrow>
   (entry_name, vlob_id) hashmap \<times> vlob_id list" where
  "filter_remote pattern [] st = st"
| "filter_remote pattern ((name, entry_id) # remote) (new_children, points) =
     filter_remote pattern remote
       (if pattern_is_match pattern name then (hm_remove name new_children, List.insert entry_id points)
        else (new_children, points))"

definition apply_confinement_from_remote ::
  "hash_iter \<Rightarrow> folder_manifest \<Rightarrow> prevent_sync_pattern \<Rightarrow> local_folder_manifest" where
  "apply_confinement_from_remote h remote pattern =
     (let (new_children, remote_confinement_points) =
            filter_remote pattern (hi_children h (fo_children remote)) (fo_children remote, [])
      in \<lparr>ld_base = remote, ld_parent = fo_parent remote, ld_need_sync = False, ld_updated = fo_updated remote,
          ld_children = new_children, ld_local_confinement_points = [],
          ld_remote_confinement_points = remote_confinement_points, ld_speculative = False\<rparr>)"

fun filter_base ::
  "prevent_sync_pattern \<Rightarrow> (entry_name, vlob_id) hashmap \<Rightarrow> (entry_name, vlob_id) hashmap \<times> vlob_id list \<Rightarrow>
   (entry_name, vlob_id) hashmap \<times> vlob_id list" where
  "filter_base pattern [] st = st"
| "filter_base pattern ((name, entry_id) # base) (new_children, points) =
     filter_base pattern base
       (if pattern_is_match pattern name
        then (if hm_get new_children name = Some entry_id then hm_remove name new_children else new_children,
              List.insert entry_id points)
        else (new_children, points))"

text \<open>
  The loop on the existing children: the changes to make and the names of the new entries by id. Case 1 restores
  an entry that was confined, case 2 one that is now filtered out.
\<close>

definition restore_confined ::
  "vlob_id list \<Rightarrow> entry_name \<Rightarrow> vlob_id \<Rightarrow> (entry_name, vlob_id option) hashmap \<times> (vlob_id, entry_name) hashmap \<Rightarrow>
   (entry_name, vlob_id option) hashmap \<times> (vlob_id, entry_name) hashmap" where
  "restore_confined local_points name entry_id st =
     (let (changes, new_entry_ids) = st in
      if entry_id \<in> set local_points \<and> hm_get new_entry_ids entry_id \<noteq> Some name
      then (hm_insert name (Some entry_id)
              (case hm_get new_entry_ids entry_id of
                 Some previous_name \<Rightarrow> hm_insert previous_name None changes
               | None \<Rightarrow> changes),
            hm_insert entry_id name new_entry_ids)
      else (changes, new_entry_ids))"

definition restore_filtered ::
  "prevent_sync_pattern \<Rightarrow> vlob_id list \<Rightarrow> entry_name \<Rightarrow> vlob_id \<Rightarrow>
   (entry_name, vlob_id option) hashmap \<times> (vlob_id, entry_name) hashmap \<Rightarrow>
   (entry_name, vlob_id option) hashmap \<times> (vlob_id, entry_name) hashmap" where
  "restore_filtered pattern remote_points name entry_id st =
     (let (changes, new_entry_ids) = st in
      if hm_get new_entry_ids entry_id = None \<and> entry_id \<in> set remote_points \<and> pattern_is_match pattern name
      then (hm_insert name (Some entry_id) changes, hm_insert entry_id name new_entry_ids)
      else (changes, new_entry_ids))"

definition restore_entries ::
  "prevent_sync_pattern \<Rightarrow> vlob_id list \<Rightarrow> vlob_id list \<Rightarrow> (entry_name, vlob_id) hashmap \<Rightarrow>
   (entry_name, vlob_id option) hashmap \<times> (vlob_id, entry_name) hashmap \<Rightarrow>
   (entry_name, vlob_id option) hashmap \<times> (vlob_id, entry_name) hashmap" where
  "restore_entries pattern local_points remote_points existing =
     fold (\<lambda>(name, entry_id). restore_filtered pattern remote_points name entry_id \<circ> restore_confined local_points name entry_id)
       existing"

definition apply_confinement ::
  "hash_iter \<Rightarrow> unconfined_local_folder_manifest \<Rightarrow> local_folder_manifest \<Rightarrow> prevent_sync_pattern \<Rightarrow> date_time \<Rightarrow>
   local_folder_manifest option" where
  "apply_confinement h m existing_local_manifest pattern timestamp =
     (let (new_children, remote_confinement_points) =
            filter_base pattern (hi_children h (fo_children (uf_base m))) (uf_children m, []);
          local_confinement_points =
            List.map_filter (\<lambda>(name, entry_id). if pattern_is_match pattern name then Some entry_id else None)
              (hi_children h new_children);
          new_manifest =
            \<lparr>ld_base = uf_base m, ld_parent = uf_parent m, ld_need_sync = uf_need_sync m, ld_updated = uf_updated m,
             ld_children = new_children, ld_local_confinement_points = local_confinement_points,
             ld_remote_confinement_points = remote_confinement_points, ld_speculative = uf_speculative m\<rparr>
      in if ld_local_confinement_points existing_local_manifest \<noteq> [] \<or> remote_confinement_points \<noteq> []
         then
           let (changes, _) = restore_entries pattern (ld_local_confinement_points existing_local_manifest)
                 remote_confinement_points (hi_children h (ld_children existing_local_manifest))
                 ([], hm_reversed (hi_children h new_children))
           in evolve_children_and_mark_updated h new_manifest changes pattern timestamp
         else Some new_manifest)"

fun restore_remote ::
  "vlob_id list \<Rightarrow> vlob_id list \<Rightarrow> (entry_name, vlob_id) hashmap \<Rightarrow> (entry_name, vlob_id) hashmap \<Rightarrow>
   (entry_name, vlob_id) hashmap" where
  "restore_remote remote_points existing_entries [] new_children = new_children"
| "restore_remote remote_points existing_entries ((name, entry_id) # base) new_children =
     restore_remote remote_points existing_entries base
       (if entry_id \<in> set remote_points \<and> entry_id \<notin> set existing_entries
        then hm_insert name entry_id new_children else new_children)"

definition remove_confinement :: "hash_iter \<Rightarrow> local_folder_manifest \<Rightarrow> unconfined_local_folder_manifest" where
  "remove_confinement h m =
     (let new_children = ld_children m;
          new_children = (if ld_local_confinement_points m \<noteq> []
             then filter (\<lambda>(_, entry_id). entry_id \<notin> set (ld_local_confinement_points m)) new_children
             else new_children);
          new_children = (if ld_remote_confinement_points m \<noteq> []
             then restore_remote (ld_remote_confinement_points m) (map snd new_children)
                    (hi_children h (fo_children (ld_base m))) new_children
             else new_children)
      in \<lparr>uf_base = ld_base m, uf_parent = ld_parent m, uf_need_sync = ld_need_sync m, uf_updated = ld_updated m,
          uf_children = new_children, uf_speculative = ld_speculative m\<rparr>)"

definition apply_prevent_sync_pattern ::
  "hash_iter \<Rightarrow> local_folder_manifest \<Rightarrow> prevent_sync_pattern \<Rightarrow> date_time \<Rightarrow> local_folder_manifest option" where
  "apply_prevent_sync_pattern h m pattern timestamp = apply_confinement h (remove_confinement h m) m pattern timestamp"

definition ld_from_remote :: "hash_iter \<Rightarrow> folder_manifest \<Rightarrow> prevent_sync_pattern \<Rightarrow> local_folder_manifest" where
  "ld_from_remote h remote pattern = apply_confinement_from_remote h remote pattern"

definition from_remote_with_restored_local_confinement_points ::
  "hash_iter \<Rightarrow> folder_manifest \<Rightarrow> prevent_sync_pattern \<Rightarrow> local_folder_manifest \<Rightarrow> date_time \<Rightarrow>
   local_folder_manifest option" where
  "from_remote_with_restored_local_confinement_points h remote pattern local_manifest timestamp =
     apply_confinement h (uf_from_remote remote) local_manifest pattern timestamp"

definition ld_to_remote :: "hash_iter \<Rightarrow> local_folder_manifest \<Rightarrow> device_id \<Rightarrow> date_time \<Rightarrow> folder_manifest" where
  "ld_to_remote h m author timestamp = uf_into_remote (remove_confinement h m) author timestamp"

subsection \<open>The other local manifests\<close>

datatype local_child_manifest = LocalFile local_file_manifest | LocalFolder local_folder_manifest

fun lc_id :: "local_child_manifest \<Rightarrow> vlob_id" where
  "lc_id (LocalFile m) = fm_id (lf_base m)"
| "lc_id (LocalFolder m) = fo_id (ld_base m)"

fun lc_parent :: "local_child_manifest \<Rightarrow> vlob_id" where
  "lc_parent (LocalFile m) = lf_parent m"
| "lc_parent (LocalFolder m) = ld_parent m"

fun lc_need_sync :: "local_child_manifest \<Rightarrow> bool" where
  "lc_need_sync (LocalFile m) = lf_need_sync m"
| "lc_need_sync (LocalFolder m) = ld_need_sync m"

fun lc_base_version :: "local_child_manifest \<Rightarrow> nat" where
  "lc_base_version (LocalFile m) = fm_version (lf_base m)"
| "lc_base_version (LocalFolder m) = fo_version (ld_base m)"

fun lc_check_data_integrity :: "local_child_manifest \<Rightarrow> (data_error + unit) option" where
  "lc_check_data_integrity (LocalFile m) = lf_check_data_integrity m"
| "lc_check_data_integrity (LocalFolder m) = Some (ld_check_data_integrity_as_child m)"

datatype certificate_based_info_origin = OriginCertificate date_time | OriginPlaceholder

record local_user_manifest_workspace_entry =
  we_id :: vlob_id
  we_name :: entry_name
  we_name_origin :: certificate_based_info_origin
  we_role :: realm_role
  we_role_origin :: certificate_based_info_origin

record local_user_manifest =
  lu_base :: user_manifest
  lu_need_sync :: bool
  lu_updated :: date_time
  lu_local_workspaces :: "local_user_manifest_workspace_entry list"
  lu_speculative :: bool

definition lu_new :: "vlob_id \<Rightarrow> device_id \<Rightarrow> date_time \<Rightarrow> vlob_id option \<Rightarrow> bool \<Rightarrow> local_user_manifest" where
  "lu_new new_id author timestamp maybe_id speculative =
     \<lparr>lu_base = \<lparr>um_author = author, um_timestamp = timestamp,
        um_id = (case maybe_id of Some i \<Rightarrow> i | None \<Rightarrow> new_id), um_version = 0, um_created = timestamp, um_updated = timestamp\<rparr>,
      lu_need_sync = True, lu_updated = timestamp, lu_local_workspaces = [], lu_speculative = speculative\<rparr>"

definition get_local_workspace_entry ::
  "local_user_manifest \<Rightarrow> vlob_id \<Rightarrow> local_user_manifest_workspace_entry option" where
  "get_local_workspace_entry m realm_id = find (\<lambda>w. we_id w = realm_id) (lu_local_workspaces m)"

definition lu_from_remote :: "user_manifest \<Rightarrow> local_user_manifest" where
  "lu_from_remote remote =
     \<lparr>lu_base = remote, lu_need_sync = False, lu_updated = um_updated remote, lu_local_workspaces = [], lu_speculative = False\<rparr>"

definition lu_to_remote :: "local_user_manifest \<Rightarrow> device_id \<Rightarrow> date_time \<Rightarrow> user_manifest" where
  "lu_to_remote m author timestamp =
     \<lparr>um_author = author, um_timestamp = timestamp, um_id = um_id (lu_base m),
      um_version = u32_add (um_version (lu_base m)) 1, um_created = um_created (lu_base m), um_updated = lu_updated m\<rparr>"

end
