(* ===== verification/Folder_Confinement.thy ===== *)
theory Folder_Confinement
  imports Local_Folder_Manifest
begin

text \<open>
  What the operations of \<^verbatim>\<open>folder.rs\<close> do to the children of a folder, seen as a map from names to ids, for every
  order in which the hash maps are visited.
\<close>

subsection \<open>Children as maps\<close>

declare map_of_eq_Some_iff [simp del]

lemma hm_wf_ConsD: "hm_wf ((k, v) # m) \<Longrightarrow> hm_get m k = None \<and> hm_wf m"
  by (simp add: map_of_eq_None_iff)

definition unique_ids :: "(entry_name, vlob_id) hashmap \<Rightarrow> bool" where
  "unique_ids m \<longleftrightarrow> (\<forall>n n' i. hm_get m n = Some i \<and> hm_get m n' = Some i \<longrightarrow> n = n')"

definition children_ok :: "(entry_name, vlob_id) hashmap \<Rightarrow> bool" where
  "children_ok m \<longleftrightarrow> hm_wf m \<and> unique_ids m"

lemma hm_in_set: "hm_wf m \<Longrightarrow> (n, i) \<in> set m \<longleftrightarrow> hm_get m n = Some i"
  by (simp add: map_of_eq_Some_iff)

lemma hm_ids: "hm_wf m \<Longrightarrow> i \<in> snd ` set m \<longleftrightarrow> (\<exists>n. hm_get m n = Some i)"
  by (force simp: image_iff hm_in_set [symmetric])

lemma map_of_permuted:
  assumes "mset a = mset b" "hm_wf b" shows "hm_get a = hm_get b" "hm_wf a"
proof -
  have "mset (map fst a) = mset (map fst b)" using assms(1) by (metis mset_map)
  then show wf: "hm_wf a" using assms(2) mset_eq_imp_distinct_iff by blast
  show "hm_get a = hm_get b"
    using map_of_inject_set [OF wf assms(2)] mset_eq_setD [OF assms(1)] by simp
qed

lemma hash_iter_children:
  assumes "hash_iter_ok h" "hm_wf m"
  shows "hm_get (hi_children h m) = hm_get m" "hm_wf (hi_children h m)"
  using map_of_permuted [of "hi_children h m" m] assms by (auto simp: hash_iter_ok_def)

lemma hash_iter_changes:
  assumes "hash_iter_ok h" "hm_wf m"
  shows "hm_get (hi_changes h m) = hm_get m" "hm_wf (hi_changes h m)" "set (hi_changes h m) = set m"
  using map_of_permuted [of "hi_changes h m" m] mset_eq_setD [of "hi_changes h m" m] assms by (auto simp: hash_iter_ok_def)

lemma hm_wf_insert [simp]: "hm_wf m \<Longrightarrow> hm_wf (hm_insert k v m)"
  by (rule distinct_update)

lemma hm_wf_remove [simp]: "hm_wf m \<Longrightarrow> hm_wf (hm_remove k m)"
  by (rule distinct_delete)

lemma unique_ids_ConsD:
  assumes wf: "hm_wf ((n, i) # m)" and unique: "unique_ids ((n, i) # m)"
  shows "unique_ids m" "i \<notin> snd ` set m"
proof -
  note n = hm_wf_ConsD [OF wf]
  have get: "hm_get ((n, i) # m) k = Some j" if "hm_get m k = Some j" for k j using that n by (cases "k = n") auto
  show "unique_ids m" unfolding unique_ids_def using unique get unfolding unique_ids_def by blast
  show "i \<notin> snd ` set m"
  proof
    assume "i \<in> snd ` set m"
    then obtain k where k: "hm_get m k = Some i" using hm_ids n by metis
    moreover have "hm_get ((n, i) # m) n = Some i" by simp
    ultimately have "k = n" using unique get unfolding unique_ids_def by blast
    with k n show False by simp
  qed
qed

lemma distinct_ids: "hm_wf m \<Longrightarrow> unique_ids m \<Longrightarrow> distinct (map snd m)"
proof (induction m)
  case (Cons x m)
  obtain n i where x: "x = (n, i)" by (cases x)
  from unique_ids_ConsD [OF Cons.prems [unfolded x]] Cons x show ?case by simp
qed simp

lemma reversed_fold:
  "distinct (map snd m) \<Longrightarrow> hm_get (fold (\<lambda>(k, v). hm_insert v k) m acc) i =
     (case map_of (map (\<lambda>(k, v). (v, k)) m) i of Some k \<Rightarrow> Some k | None \<Rightarrow> hm_get acc i)"
proof (induction m arbitrary: acc)
  case (Cons x m)
  obtain n j where x: "x = (n, j)" by (cases x)
  have "map_of (map (\<lambda>(k, v). (v, k)) m) j = None"
    using Cons.prems x by (force simp: map_of_eq_None_iff)
  with Cons x show ?case by (simp add: hm_simps split: option.split)
qed simp

lemma hm_reversed_get:
  assumes "children_ok m" shows "hm_get (hm_reversed m) i = Some n \<longleftrightarrow> hm_get m n = Some i"
proof -
  have wf: "hm_wf m" and ids: "distinct (map snd m)" using assms distinct_ids by (auto simp: children_ok_def)
  let ?r = "map (\<lambda>(k, v). (v, k)) m"
  have "map fst ?r = map snd m" by (induction m) auto
  then have "map_of ?r i = Some n \<longleftrightarrow> (i, n) \<in> set ?r" using ids by (metis map_of_eq_Some_iff)
  also have "\<dots> \<longleftrightarrow> (n, i) \<in> set m" by auto
  also have "\<dots> \<longleftrightarrow> hm_get m n = Some i" using wf by (rule hm_in_set)
  finally show ?thesis using reversed_fold [OF ids, of "[]" i] by (auto simp: hm_reversed_def split: option.split)
qed

subsection \<open>Changing the children\<close>

lemma hm_get_Cons_other: "hm_wf ((k, v) # m) \<Longrightarrow> dom (hm_get ((k, v) # m)) = insert k (dom (hm_get m)) \<and> hm_get m k = None"
  by (auto simp: map_of_eq_None_iff)

lemma evolve_removals_Some:
  "hm_wf data \<Longrightarrow> evolve_removals data (c, p, u) = Some (c', p', u') \<Longrightarrow>
     hm_get c' = (\<lambda>n. if n \<in> dom (hm_get data) then None else hm_get c n) \<and> (hm_wf c \<longrightarrow> hm_wf c') \<and>
     set p' = set p - {i. \<exists>n \<in> dom (hm_get data). hm_get c n = Some i}"
proof (induction data "(c, p, u)" arbitrary: c p u rule: evolve_removals.induct)
  case (2 name entry_id data c p u)
  have wf: "hm_wf data" "name \<notin> dom (hm_get data)" using hm_wf_ConsD [OF "2.prems"(1)] by auto
  show ?case
  proof (cases "hm_get c name")
    case None
    with "2.prems" have "evolve_removals data (c, p, u) = Some (c', p', u')" "entry_id \<noteq> None" by (auto split: if_split_asm)
    from "2.hyps"(1) [OF None _ wf(1) this(1)] this(2) None wf show ?thesis by (auto simp: fun_eq_iff)
  next
    case (Some old)
    with "2.prems" have run: "evolve_removals data (hm_remove name c, removeAll old p, u \<or> old \<notin> set p) = Some (c', p', u')"
      by auto
    from "2.hyps"(2) [OF Some wf(1) run] Some wf show ?thesis by (auto simp: fun_eq_iff hm_simps)
  qed
qed auto

lemma evolve_removals_defined:
  "hm_wf data \<Longrightarrow> (\<And>n. hm_get data n = Some None \<Longrightarrow> hm_get c n \<noteq> None) \<Longrightarrow> \<exists>r. evolve_removals data (c, p, u) = Some r"
proof (induction data "(c, p, u)" arbitrary: c p u rule: evolve_removals.induct)
  case (2 name entry_id data c p u)
  have wf: "hm_wf data" "name \<notin> dom (hm_get data)" using hm_wf_ConsD [OF "2.prems"(1)] by auto
  have other: "hm_get c n \<noteq> None \<and> n \<noteq> name" if "hm_get data n = Some None" for n
    using "2.prems"(2) [of n] that wf(2) by (cases "n = name") auto
  show ?case
  proof (cases "hm_get c name")
    case None
    then have "entry_id \<noteq> None" using "2.prems"(2) [of name] by auto
    with "2.hyps"(1) [OF None this wf(1)] other None show ?thesis by auto
  next
    case (Some old)
    from "2.hyps"(2) [OF Some wf(1)] other Some show ?thesis by (auto simp: hm_simps)
  qed
qed auto

lemma evolve_additions_spec:
  "hm_wf data \<Longrightarrow> evolve_additions pattern data (c, p, u) = (c', p', u') \<Longrightarrow>
     hm_get c' = (\<lambda>n. case hm_get data n of Some (Some i) \<Rightarrow> Some i | _ \<Rightarrow> hm_get c n) \<and> (hm_wf c \<longrightarrow> hm_wf c') \<and>
     set p' = set p \<union> {i. \<exists>n. hm_get data n = Some (Some i) \<and> pattern_is_match pattern n} \<and>
     (u' \<longleftrightarrow> u \<or> (\<exists>n i. hm_get data n = Some (Some i) \<and> \<not> pattern_is_match pattern n))"
proof (induction pattern data "(c, p, u)" arbitrary: c p u rule: evolve_additions.induct)
  case (2 pattern name data c p u)
  have wf: "hm_wf data" "hm_get data name = None" using hm_wf_ConsD [OF "2.prems"(1)] by auto
  have run: "evolve_additions pattern data (c, p, u) = (c', p', u')" using "2.prems"(2) by simp
  have get: "hm_get ((name, None) # data) n = Some (Some j) \<longleftrightarrow> hm_get data n = Some (Some j)" for n j using wf by auto
  have "(case hm_get ((name, None) # data) n of Some (Some i) \<Rightarrow> Some i | _ \<Rightarrow> hm_get c n) =
      (case hm_get data n of Some (Some i) \<Rightarrow> Some i | _ \<Rightarrow> hm_get c n)" for n using wf by simp
  with "2.hyps" [OF wf(1) run] show ?case unfolding get by simp
next
  case (3 pattern name i data c p u)
  have wf: "hm_wf data" "hm_get data name = None" using hm_wf_ConsD [OF "3.prems"(1)] by auto
  let ?m = "pattern_is_match pattern name"
  have run: "evolve_additions pattern data (hm_insert name i c, if ?m then List.insert i p else p, u \<or> \<not> ?m) = (c', p', u')"
    using "3.prems"(2) by simp
  have get: "hm_get ((name, Some i) # data) n = Some (Some j) \<longleftrightarrow> n = name \<and> j = i \<or> hm_get data n = Some (Some j)" for n j
    using wf by auto
  have "(case hm_get ((name, Some i) # data) n of Some (Some i) \<Rightarrow> Some i | _ \<Rightarrow> hm_get c n) =
      (case hm_get data n of Some (Some i) \<Rightarrow> Some i | _ \<Rightarrow> hm_get (hm_insert name i c) n)" for n
    using wf by (simp add: hm_simps split: option.split)
  moreover have "set (if ?m then List.insert i p else p) = set p \<union> {j. ?m \<and> j = i}" by auto
  ultimately show ?case using "3.hyps" [OF wf(1) run] unfolding get by auto
qed auto

text \<open>
  The changes replace the children: a name that is not mentioned keeps its entry, a removal must name an entry,
  and a new id must not be under a name that stays.
\<close>

lemma changed_ids_set: "i \<in> set (changed_ids data) \<longleftrightarrow> (\<exists>n. (n, Some i) \<in> set data)"
  unfolding changed_ids_def by (induction data) (auto simp: List.map_filter_simps split: option.split)

lemma changed_ids_iff: "hm_wf data \<Longrightarrow> i \<in> set (changed_ids data) \<longleftrightarrow> (\<exists>n. hm_get data n = Some (Some i))"
  by (simp add: changed_ids_set map_of_eq_Some_iff)

definition evolvable :: "(entry_name, vlob_id) hashmap \<Rightarrow> (entry_name, vlob_id option) hashmap \<Rightarrow> bool" where
  "evolvable children data \<longleftrightarrow>
     (\<forall>n. hm_get data n = Some None \<longrightarrow> hm_get children n \<noteq> None) \<and>
     (\<forall>n n' i. hm_get data n = Some (Some i) \<and> hm_get children n' = Some i \<longrightarrow> n' \<in> dom (hm_get data))"

lemma evolve_spec:
  assumes h: "hash_iter_ok h" and wf: "hm_wf data" "hm_wf (ld_children m)" and ok: "evolvable (ld_children m) data"
  shows "\<exists>m'. evolve_children_and_mark_updated h m data pattern timestamp = Some m' \<and>
    hm_wf (ld_children m') \<and>
    hm_get (ld_children m') = (\<lambda>n. case hm_get data n of None \<Rightarrow> hm_get (ld_children m) n | Some v \<Rightarrow> v) \<and>
    set (ld_local_confinement_points m') =
      set (ld_local_confinement_points m) - {i. \<exists>n \<in> dom (hm_get data). hm_get (ld_children m) n = Some i}
      \<union> {i. \<exists>n. hm_get data n = Some (Some i) \<and> pattern_is_match pattern n} \<and>
    ld_base m' = ld_base m \<and> ld_parent m' = ld_parent m \<and> ld_speculative m' = ld_speculative m \<and>
    ld_remote_confinement_points m' = ld_remote_confinement_points m \<and> (ld_need_sync m \<longrightarrow> ld_need_sync m')"
proof -
  note data = hash_iter_changes [OF h wf(1)]
  let ?c = "ld_children m" and ?p = "ld_local_confinement_points m" and ?data = "hi_changes h data"
  have "\<exists>r. evolve_removals ?data (?c, ?p, False) = Some r"
    by (rule evolve_removals_defined [OF data(2)]) (use ok in \<open>auto simp: data(1) evolvable_def\<close>)
  then obtain c1 p1 u1 where 1: "evolve_removals ?data (?c, ?p, False) = Some (c1, p1, u1)" by auto
  note removed = evolve_removals_Some [OF data(2) 1, unfolded data(1)]
  obtain c2 p2 u2 where 2: "evolve_additions pattern ?data (c1, p1, u1) = (c2, p2, u2)" by (metis prod_cases3)
  note added = evolve_additions_spec [OF data(2) 2, unfolded data(1)]
  have "\<not> list_ex (\<lambda>i. i \<in> snd ` set c1) (changed_ids data)"
  proof -
    have "i \<notin> snd ` set c1" if "i \<in> set (changed_ids data)" for i
      using that ok removed wf(2) unfolding changed_ids_iff [OF wf(1)] evolvable_def
      by (auto simp: hm_ids split: if_split_asm)
    then show ?thesis by (auto simp: list_ex_iff)
  qed
  then have run: "evolve_children_and_mark_updated h m data pattern timestamp =
      Some (let m = m\<lparr>ld_children := c2, ld_local_confinement_points := p2\<rparr>
            in if u2 then m\<lparr>ld_need_sync := True, ld_updated := timestamp\<rparr> else m)"
    by (simp add: evolve_children_and_mark_updated_def 1 2 Let_def)
  have "hm_get c2 = (\<lambda>n. case hm_get data n of None \<Rightarrow> hm_get ?c n | Some v \<Rightarrow> v)"
    using added removed by (auto simp: fun_eq_iff dom_def split: option.split)
  with run added removed wf(2) show ?thesis by (simp add: Let_def)
qed

subsection \<open>Filtering the remote entries\<close>

lemma filter_remote_spec:
  "hm_wf remote \<Longrightarrow> filter_remote pattern remote (c, p) = (c', p') \<Longrightarrow>
     hm_get c' = (\<lambda>n. if pattern_is_match pattern n \<and> n \<in> dom (hm_get remote) then None else hm_get c n) \<and>
     (hm_wf c \<longrightarrow> hm_wf c') \<and>
     set p' = set p \<union> {i. \<exists>n. hm_get remote n = Some i \<and> pattern_is_match pattern n}"
proof (induction pattern remote "(c, p)" arbitrary: c p rule: filter_remote.induct)
  case (2 pattern name i remote c p)
  have wf: "hm_wf remote" "hm_get remote name = None" using hm_wf_ConsD [OF "2.prems"(1)] by auto
  let ?m = "pattern_is_match pattern name"
  have get: "hm_get ((name, i) # remote) n = Some j \<longleftrightarrow> n = name \<and> j = i \<or> hm_get remote n = Some j" for n j using wf by auto
  have dom: "dom (hm_get ((name, i) # remote)) = insert name (dom (hm_get remote))" by auto
  obtain c1 p1 where st: "(if ?m then (hm_remove name c, List.insert i p) else (c, p)) = (c1, p1)" by (cases ?m) auto
  have run: "filter_remote pattern remote (c1, p1) = (c', p')" using "2.prems"(2) st by simp
  note IH = "2.hyps" [OF st wf(1) run]
  show ?case
  proof (cases ?m)
    case True
    with st have "c1 = hm_remove name c" "p1 = List.insert i p" by auto
    with IH True show ?thesis unfolding get dom by (auto simp: fun_eq_iff hm_simps)
  next
    case False
    with st have "c1 = c" "p1 = p" by auto
    with IH False show ?thesis unfolding get dom by (auto simp: fun_eq_iff)
  qed
qed auto

lemma filter_base_spec:
  "hm_wf base \<Longrightarrow> filter_base pattern base (c, p) = (c', p') \<Longrightarrow>
     hm_get c' = (\<lambda>n. if pattern_is_match pattern n \<and> hm_get base n \<noteq> None \<and> hm_get base n = hm_get c n then None else hm_get c n) \<and>
     (hm_wf c \<longrightarrow> hm_wf c') \<and>
     set p' = set p \<union> {i. \<exists>n. hm_get base n = Some i \<and> pattern_is_match pattern n}"
proof (induction pattern base "(c, p)" arbitrary: c p rule: filter_base.induct)
  case (2 pattern name i base c p)
  have wf: "hm_wf base" "hm_get base name = None" using hm_wf_ConsD [OF "2.prems"(1)] by auto
  let ?m = "pattern_is_match pattern name"
  let ?c1 = "if ?m \<and> hm_get c name = Some i then hm_remove name c else c" and ?p1 = "if ?m then List.insert i p else p"
  have get: "hm_get ((name, i) # base) n = Some j \<longleftrightarrow> n = name \<and> j = i \<or> hm_get base n = Some j" for n j using wf by auto
  have st: "(if ?m then (if hm_get c name = Some i then hm_remove name c else c, List.insert i p) else (c, p)) = (?c1, ?p1)"
    by simp
  have run: "filter_base pattern base (?c1, ?p1) = (c', p')" using "2.prems"(2) unfolding filter_base.simps st .
  note IH = "2.hyps" [OF st wf(1) run]
  have "hm_get ?c1 n = (if n = name \<and> ?m \<and> hm_get c name = Some i then None else hm_get c n)" for n by (simp add: hm_simps)
  moreover have "set ?p1 = set p \<union> {j. ?m \<and> j = i}" by auto
  moreover have "hm_wf c \<Longrightarrow> hm_wf ?c1" by simp
  ultimately show ?case using IH wf(2) unfolding get by (auto simp: fun_eq_iff)
qed auto

subsection \<open>Removing the confinement\<close>

lemma restore_remote_spec:
  "hm_wf base \<Longrightarrow>
     hm_get (restore_remote points ids base c) = (\<lambda>n. case hm_get base n of
        Some i \<Rightarrow> if i \<in> set points \<and> i \<notin> set ids then Some i else hm_get c n
      | None \<Rightarrow> hm_get c n) \<and> (hm_wf c \<longrightarrow> hm_wf (restore_remote points ids base c))"
proof (induction points ids base c rule: restore_remote.induct)
  case (2 points ids name i base c)
  have wf: "hm_wf base" "hm_get base name = None" using hm_wf_ConsD [OF "2.prems"(1)] by auto
  let ?c = "if i \<in> set points \<and> i \<notin> set ids then hm_insert name i c else c"
  have "hm_get (restore_remote points ids base ?c) n = (case hm_get ((name, i) # base) n of
        Some i \<Rightarrow> if i \<in> set points \<and> i \<notin> set ids then Some i else hm_get c n
      | None \<Rightarrow> hm_get c n)" for n
    using 2 wf by (auto simp: hm_simps split: option.split)
  then show ?case using 2 wf by (auto simp: fun_eq_iff)
qed simp

lemma hm_get_filter_value:
  "hm_wf m \<Longrightarrow> hm_get (filter (\<lambda>(_, i). P i) m) n = (case hm_get m n of Some i \<Rightarrow> if P i then Some i else None | None \<Rightarrow> None)"
proof (induction m)
  case (Cons x m)
  obtain k i where x: "x = (k, i)" by (cases x)
  from hm_wf_ConsD [OF Cons.prems [unfolded x]] Cons.IH x show ?case by (auto split: option.split)
qed simp

text \<open>The entries that are not confined locally, and what is uploaded in their place.\<close>

definition kept_entry :: "local_folder_manifest \<Rightarrow> entry_name \<Rightarrow> vlob_id option" where
  "kept_entry m n = (case hm_get (ld_children m) n of
     Some i \<Rightarrow> if i \<notin> set (ld_local_confinement_points m) then Some i else None | None \<Rightarrow> None)"

lemma kept_entry_Some:
  "kept_entry m n = Some i \<longleftrightarrow> hm_get (ld_children m) n = Some i \<and> i \<notin> set (ld_local_confinement_points m)"
  by (auto simp: kept_entry_def split: option.split)

definition uploaded_entry :: "local_folder_manifest \<Rightarrow> entry_name \<Rightarrow> vlob_id option" where
  "uploaded_entry m n = (case hm_get (fo_children (ld_base m)) n of
     Some i \<Rightarrow> if i \<in> set (ld_remote_confinement_points m) \<and> \<not> (\<exists>k. kept_entry m k = Some i) then Some i else kept_entry m n
   | None \<Rightarrow> kept_entry m n)"

lemma remove_confinement_children:
  assumes h: "hash_iter_ok h" and wf: "hm_wf (ld_children m)" "hm_wf (fo_children (ld_base m))"
  shows "hm_wf (uf_children (remove_confinement h m))"
    and "hm_get (uf_children (remove_confinement h m)) = uploaded_entry m"
proof -
  let ?L = "set (ld_local_confinement_points m)" and ?R = "ld_remote_confinement_points m"
  let ?kept = "if ld_local_confinement_points m \<noteq> [] then filter (\<lambda>(_, i). i \<notin> ?L) (ld_children m) else ld_children m"
  obtain kept where kept: "kept = ?kept" by blast
  have filter: "kept = filter (\<lambda>(_, i). i \<notin> ?L) (ld_children m)" unfolding kept by (auto intro!: filter_True [symmetric])
  have kept_wf: "hm_wf kept" using wf(1) unfolding filter by (rule distinct_map_filter)
  have kept_get: "hm_get kept = kept_entry m"
    unfolding filter kept_entry_def using hm_get_filter_value [OF wf(1), of "\<lambda>i. i \<notin> ?L"] by (simp add: fun_eq_iff)
  have ids: "i \<in> set (map snd kept) \<longleftrightarrow> (\<exists>k. kept_entry m k = Some i)" for i
    using hm_ids [OF kept_wf, of i] unfolding kept_get by simp
  note base = hash_iter_children [OF h wf(2)]
  obtain restored where restored: "restored = restore_remote ?R (map snd kept) (hi_children h (fo_children (ld_base m))) kept"
    by blast
  note spec = restore_remote_spec [OF base(2), of ?R "map snd kept" kept, folded restored, unfolded base(1) ids kept_get]
  have uf: "uf_children (remove_confinement h m) = (if ?R \<noteq> [] then restored else kept)"
    by (simp add: remove_confinement_def Let_def restored kept)
  show "hm_wf (uf_children (remove_confinement h m))" using uf spec kept_wf by simp
  show "hm_get (uf_children (remove_confinement h m)) = uploaded_entry m"
  proof (cases "?R = []")
    case True
    then show ?thesis using uf kept_get by (simp add: uploaded_entry_def fun_eq_iff split: option.split)
  next
    case False
    then show ?thesis using uf spec by (simp add: uploaded_entry_def fun_eq_iff)
  qed
qed

lemma remove_confinement_rest [simp]:
  "uf_base (remove_confinement h m) = ld_base m" "uf_parent (remove_confinement h m) = ld_parent m"
  "uf_need_sync (remove_confinement h m) = ld_need_sync m" "uf_updated (remove_confinement h m) = ld_updated m"
  "uf_speculative (remove_confinement h m) = ld_speculative m"
  by (simp_all add: remove_confinement_def Let_def)

lemma ld_to_remote_fields [simp]:
  "fo_id (ld_to_remote h m author t) = fo_id (ld_base m)" "fo_parent (ld_to_remote h m author t) = ld_parent m"
  "fo_version (ld_to_remote h m author t) = u32_add (fo_version (ld_base m)) 1"
  "fo_created (ld_to_remote h m author t) = fo_created (ld_base m)" "fo_updated (ld_to_remote h m author t) = ld_updated m"
  "fo_author (ld_to_remote h m author t) = author" "fo_timestamp (ld_to_remote h m author t) = t"
  "fo_children (ld_to_remote h m author t) = uf_children (remove_confinement h m)"
  by (simp_all add: ld_to_remote_def uf_into_remote_def)

subsection \<open>From a remote manifest and back\<close>

lemma from_remote_fields:
  assumes h: "hash_iter_ok h" and wf: "hm_wf (fo_children remote)"
  shows "hm_wf (ld_children (ld_from_remote h remote pattern))" (is ?wf)
    and "hm_get (ld_children (ld_from_remote h remote pattern)) n =
      (if pattern_is_match pattern n then None else hm_get (fo_children remote) n)" (is ?get)
    and "set (ld_remote_confinement_points (ld_from_remote h remote pattern)) =
      {i. \<exists>n. hm_get (fo_children remote) n = Some i \<and> pattern_is_match pattern n}" (is ?points)
    and "ld_local_confinement_points (ld_from_remote h remote pattern) = []"
    and "ld_base (ld_from_remote h remote pattern) = remote" "ld_parent (ld_from_remote h remote pattern) = fo_parent remote"
    and "ld_updated (ld_from_remote h remote pattern) = fo_updated remote" "\<not> ld_need_sync (ld_from_remote h remote pattern)"
proof -
  note it = hash_iter_children [OF h wf]
  obtain c p where cp: "filter_remote pattern (hi_children h (fo_children remote)) (fo_children remote, []) = (c, p)"
    by (cases "filter_remote pattern (hi_children h (fo_children remote)) (fo_children remote, [])")
  note spec = filter_remote_spec [OF it(2) cp, unfolded it(1)]
  note def = ld_from_remote_def apply_confinement_from_remote_def cp Let_def
  show ?wf ?get ?points using spec wf by (auto simp: def)
qed (simp_all add: ld_from_remote_def apply_confinement_from_remote_def Let_def split: prod.split)

lemma folder_roundtrip:
  assumes h: "hash_iter_ok h" and ok: "children_ok (fo_children remote)"
  shows "hm_get (fo_children (ld_to_remote h (ld_from_remote h remote pattern) author t)) = hm_get (fo_children remote)"
proof
  fix n
  let ?m = "ld_from_remote h remote pattern"
  have wf: "hm_wf (fo_children remote)" and unique: "unique_ids (fo_children remote)" using ok by (auto simp: children_ok_def)
  note f = from_remote_fields [OF h wf, of pattern]
  have up: "hm_get (fo_children (ld_to_remote h ?m author t)) = uploaded_entry ?m"
    using remove_confinement_children [OF h, of ?m] f(1,5) wf by simp
  have kept: "kept_entry ?m k = (if pattern_is_match pattern k then None else hm_get (fo_children remote) k)" for k
    using f(2,4) by (simp add: kept_entry_def split: option.split)
  show "hm_get (fo_children (ld_to_remote h ?m author t)) n = hm_get (fo_children remote) n"
  proof (cases "hm_get (fo_children remote) n")
    case None
    then show ?thesis unfolding up uploaded_entry_def f(5) kept by simp
  next
    case (Some i)
    have "pattern_is_match pattern n \<Longrightarrow> i \<in> set (ld_remote_confinement_points ?m) \<and> \<not> (\<exists>k. kept_entry ?m k = Some i)"
      using Some unique f(3) unfolding kept unique_ids_def by (auto split: if_split_asm)
    then show ?thesis using Some unfolding up uploaded_entry_def f(5) kept by auto
  qed
qed

subsection \<open>Applying the confinement\<close>

text \<open>
  The state of the loop on the existing entries, after the entries \<open>S\<close>: a removal names a new child, a restored
  entry is an existing one whose id stays under no other name, and the ids of the entries not yet visited are
  as in the new children \<open>c\<close>.
\<close>

definition restoring ::
  "(entry_name, vlob_id) hashmap \<Rightarrow> (entry_name \<times> vlob_id) set \<Rightarrow>
   (entry_name, vlob_id option) hashmap \<times> (vlob_id, entry_name) hashmap \<Rightarrow> bool" where
  "restoring c S st \<longleftrightarrow> (case st of (changes, ids) \<Rightarrow>
     hm_wf changes \<and>
     (\<forall>n. hm_get changes n = Some None \<longrightarrow> hm_get c n \<noteq> None) \<and>
     (\<forall>n i. hm_get changes n = Some (Some i) \<longrightarrow>
        (n, i) \<in> S \<and> (\<forall>k. hm_get c k = Some i \<longrightarrow> k \<in> dom (hm_get changes))) \<and>
     (\<forall>i. i \<notin> snd ` S \<longrightarrow> (\<forall>n. hm_get ids i = Some n \<longleftrightarrow> hm_get c n = Some i)))"

lemma restoring_confined:
  assumes r: "restoring c S st" and c: "unique_ids c" and i: "i \<notin> snd ` S"
  shows "restoring c (insert (n, i) S) (restore_confined points n i st)"
    and "hm_get (snd (restore_confined points n i st)) i = None \<Longrightarrow> hm_get c k \<noteq> Some i"
proof -
  obtain changes ids where st: "st = (changes, ids)" by (cases st)
  have ids: "hm_get ids i = Some k \<longleftrightarrow> hm_get c k = Some i" for k using r i by (auto simp: restoring_def st)
  show "restoring c (insert (n, i) S) (restore_confined points n i st)"
  proof (cases "i \<in> set points \<and> hm_get ids i \<noteq> Some n")
    case False
    then show ?thesis using r by (auto simp: restore_confined_def st restoring_def)
  next
    case True
    obtain ch where ch: "ch = hm_insert n (Some i) (case hm_get ids i of Some k \<Rightarrow> hm_insert k None changes | None \<Rightarrow> changes)"
      by blast
    have run: "restore_confined points n i st = (ch, hm_insert i n ids)" using True by (simp add: restore_confined_def st ch)
    note r = r [unfolded restoring_def st prod.case]
    have get: "hm_get ch m = (if m = n then Some (Some i) else if hm_get c m = Some i then Some None else hm_get changes m)" for m
    proof (cases "hm_get ids i")
      case None
      then have "hm_get c m \<noteq> Some i" using ids [of m] by simp
      with None show ?thesis by (simp add: hm_simps ch)
    next
      case (Some k)
      then have "hm_get c m = Some i \<longleftrightarrow> m = k" using ids [of k] c by (auto simp: unique_ids_def)
      with Some show ?thesis by (simp add: hm_simps ch)
    qed
    have wf: "hm_wf ch" using r by (auto simp: ch split: option.split)
    have dom: "k \<in> dom (hm_get ch)" if "hm_get c k = Some i \<or> k \<in> dom (hm_get changes)" for k using that get [of k] by auto
    have removed: "hm_get c m \<noteq> None" if "hm_get ch m = Some None" for m using that r get [of m] by (auto split: if_split_asm)
    have kept: "(m, j) \<in> insert (n, i) S \<and> (\<forall>k. hm_get c k = Some j \<longrightarrow> k \<in> dom (hm_get ch))"
      if "hm_get ch m = Some (Some j)" for m j
    proof (cases "m = n")
      case True
      with that get [of m] have "j = i" by simp
      with True dom show ?thesis by blast
    next
      case False
      with that get [of m] have "hm_get changes m = Some (Some j)" by (auto split: if_split_asm)
      with r dom show ?thesis by blast
    qed
    have "hm_get (hm_insert i n ids) j = Some m \<longleftrightarrow> hm_get c m = Some j" if "j \<notin> snd ` insert (n, i) S" for j m
      using that r by (simp add: hm_simps)
    with wf removed kept show ?thesis unfolding run restoring_def prod.case by blast
  qed
  show "hm_get c k \<noteq> Some i" if "hm_get (snd (restore_confined points n i st)) i = None"
    using that ids [of k] by (auto simp: restore_confined_def st hm_simps split: if_split_asm)
qed

lemma restoring_filtered:
  assumes r: "restoring c S st" and i: "(n, i) \<in> S" "\<And>k. hm_get (snd st) i = None \<Longrightarrow> hm_get c k \<noteq> Some i"
  shows "restoring c S (restore_filtered pattern points n i st)"
proof -
  obtain changes ids where st: "st = (changes, ids)" by (cases st)
  let ?b = "hm_get ids i = None \<and> i \<in> set points \<and> pattern_is_match pattern n"
  show ?thesis
  proof (cases ?b)
    case True
    have run: "restore_filtered pattern points n i st = (hm_insert n (Some i) changes, hm_insert i n ids)"
      using True by (simp add: restore_filtered_def st)
    have "i \<in> snd ` S" using i(1) by force
    moreover have "hm_get c k \<noteq> Some i" for k using i(2) True st by simp
    ultimately show ?thesis using r [unfolded restoring_def st prod.case] i(1) unfolding run restoring_def prod.case
      by (auto simp: hm_simps split: if_split_asm)
  qed (use r in \<open>auto simp: restore_filtered_def st\<close>)
qed

lemma restoring_entries:
  assumes c: "unique_ids c"
  shows "restoring c S st \<Longrightarrow> distinct (map snd existing) \<Longrightarrow> set (map snd existing) \<inter> snd ` S = {} \<Longrightarrow>
    restoring c (S \<union> set existing) (restore_entries pattern local_points remote_points existing st)"
proof (induction existing arbitrary: S st)
  case (Cons x existing)
  obtain n i where x: "x = (n, i)" by (cases x)
  let ?st1 = "restore_confined local_points n i st"
  let ?st2 = "restore_filtered pattern remote_points n i ?st1"
  have i: "i \<notin> snd ` S" using Cons.prems(3) x by auto
  have "restoring c (insert (n, i) S) ?st2"
    by (rule restoring_filtered) (use restoring_confined [OF Cons.prems(1) c i] in auto)
  from Cons.IH [OF this] Cons.prems(2,3) x show ?case by (simp add: restore_entries_def)
qed (simp add: restore_entries_def)

text \<open>A folder is well formed for a pattern when every child that matches it is confined.\<close>

definition folder_ok :: "prevent_sync_pattern \<Rightarrow> local_folder_manifest \<Rightarrow> bool" where
  "folder_ok pattern m \<longleftrightarrow> children_ok (ld_children m) \<and> children_ok (fo_children (ld_base m)) \<and>
     (\<forall>n i. hm_get (ld_children m) n = Some i \<and> pattern_is_match pattern n \<longrightarrow> i \<in> set (ld_local_confinement_points m)) \<and>
     set (ld_remote_confinement_points m) =
       {i. \<exists>n. hm_get (fo_children (ld_base m)) n = Some i \<and> pattern_is_match pattern n}"

lemma evolve_folder_ok:
  assumes h: "hash_iter_ok h" and ok: "folder_ok pattern m" and data: "hm_wf data" "evolvable (ld_children m) data"
    and ids: "\<And>n n' i. hm_get data n = Some (Some i) \<Longrightarrow> hm_get data n' = Some (Some i) \<Longrightarrow> n = n'"
  shows "\<exists>m'. evolve_children_and_mark_updated h m data pattern timestamp = Some m' \<and> folder_ok pattern m' \<and>
    hm_get (ld_children m') = (\<lambda>n. case hm_get data n of None \<Rightarrow> hm_get (ld_children m) n | Some v \<Rightarrow> v) \<and>
    ld_base m' = ld_base m \<and> ld_parent m' = ld_parent m \<and> ld_speculative m' = ld_speculative m \<and>
    (ld_need_sync m \<longrightarrow> ld_need_sync m')"
proof -
  have wf: "hm_wf (ld_children m)" and unique: "unique_ids (ld_children m)" using ok by (auto simp: folder_ok_def children_ok_def)
  obtain m' where run: "evolve_children_and_mark_updated h m data pattern timestamp = Some m'" "hm_wf (ld_children m')"
    and get: "hm_get (ld_children m') = (\<lambda>n. case hm_get data n of None \<Rightarrow> hm_get (ld_children m) n | Some v \<Rightarrow> v)"
    and points: "set (ld_local_confinement_points m') =
      set (ld_local_confinement_points m) - {i. \<exists>n \<in> dom (hm_get data). hm_get (ld_children m) n = Some i}
      \<union> {i. \<exists>n. hm_get data n = Some (Some i) \<and> pattern_is_match pattern n}"
    and rest: "ld_base m' = ld_base m" "ld_parent m' = ld_parent m" "ld_speculative m' = ld_speculative m"
      "ld_remote_confinement_points m' = ld_remote_confinement_points m" "ld_need_sync m \<longrightarrow> ld_need_sync m'"
    using evolve_spec [OF h data(1) wf data(2), of pattern timestamp] by blast
  have child: "hm_get (ld_children m') n = Some i \<longleftrightarrow>
      hm_get data n = Some (Some i) \<or> hm_get data n = None \<and> hm_get (ld_children m) n = Some i" for n i
    unfolding get by (auto split: option.split)
  have new: "n' \<in> dom (hm_get data)" if "hm_get data n = Some (Some i)" "hm_get (ld_children m) n' = Some i" for n n' i
    using data(2) that unfolding evolvable_def by blast
  have "unique_ids (ld_children m')" unfolding unique_ids_def
  proof (intro allI impI, elim conjE)
    fix n n' i assume n: "hm_get (ld_children m') n = Some i" "hm_get (ld_children m') n' = Some i"
    show "n = n'"
      using n [unfolded child] ids [of n i n'] new [of n i n'] new [of n' i n] unique [unfolded unique_ids_def, rule_format, of n i n']
      by auto
  qed
  moreover have "i \<in> set (ld_local_confinement_points m')"
    if n: "hm_get (ld_children m') n = Some i" and match: "pattern_is_match pattern n" for n i
  proof (cases "hm_get data n = Some (Some i)")
    case True
    with match show ?thesis unfolding points by blast
  next
    case False
    then have old: "hm_get data n = None" "hm_get (ld_children m) n = Some i" using n child by auto
    have "i \<in> set (ld_local_confinement_points m)" using ok old(2) match unfolding folder_ok_def by blast
    moreover have "k \<notin> dom (hm_get data)" if "hm_get (ld_children m) k = Some i" for k
      using unique [unfolded unique_ids_def, rule_format, of n i k] that old by auto
    ultimately show ?thesis unfolding points by blast
  qed
  ultimately have "folder_ok pattern m'" using run(2) rest(1,4) ok by (auto simp: folder_ok_def children_ok_def)
  with run(1) get rest show ?thesis by blast
qed

lemma restoring_start:
  assumes "children_ok c" shows "restoring c {} ([], hm_reversed c)"
  using hm_reversed_get [OF assms] by (simp add: restoring_def)

lemma children_ok_permuted: "hash_iter_ok h \<Longrightarrow> children_ok m \<Longrightarrow> children_ok (hi_children h m)"
  using hash_iter_children [of h m] by (auto simp: children_ok_def unique_ids_def)

lemma matching_ids:
  "hm_wf m \<Longrightarrow> set (List.map_filter (\<lambda>(n, i). if P n then Some i else None) m) = {i. \<exists>n. hm_get m n = Some i \<and> P n}"
  by (auto simp: List.map_filter_def hm_in_set [symmetric] image_iff split: if_split_asm)

lemma apply_confinement_spec:
  assumes h: "hash_iter_ok h" and m: "children_ok (uf_children m)" "children_ok (fo_children (uf_base m))"
    and existing: "children_ok (ld_children existing)"
  shows "\<exists>m'. apply_confinement h m existing pattern timestamp = Some m' \<and> folder_ok pattern m' \<and>
    ld_base m' = uf_base m \<and> ld_parent m' = uf_parent m \<and> ld_speculative m' = uf_speculative m \<and>
    (uf_need_sync m \<longrightarrow> ld_need_sync m') \<and>
    (\<forall>n i. hm_get (ld_children m') n = Some i \<longrightarrow>
       hm_get (uf_children m) n = Some i \<or> hm_get (ld_children existing) n = Some i)"
proof -
  have wf: "hm_wf (fo_children (uf_base m))" "hm_wf (uf_children m)" "unique_ids (uf_children m)"
    using m by (auto simp: children_ok_def)
  note base = hash_iter_children [OF h wf(1)]
  obtain c p where cp: "filter_base pattern (hi_children h (fo_children (uf_base m))) (uf_children m, []) = (c, p)"
    by (cases "filter_base pattern (hi_children h (fo_children (uf_base m))) (uf_children m, [])")
  note spec = filter_base_spec [OF base(2) cp, unfolded base(1)]
  have sub: "hm_get (uf_children m) n = Some i" if "hm_get c n = Some i" for n i using that spec by (auto split: if_split_asm)
  have c: "children_ok c" using spec wf(2,3) sub unfolding children_ok_def unique_ids_def by blast
  then have cwf: "hm_wf c" by (simp add: children_ok_def)
  define l where "l = List.map_filter (\<lambda>(n, i). if pattern_is_match pattern n then Some i else None) (hi_children h c)"
  have l: "set l = {i. \<exists>n. hm_get c n = Some i \<and> pattern_is_match pattern n}"
    unfolding l_def using matching_ids [OF hash_iter_children(2) [OF h cwf]] hash_iter_children(1) [OF h cwf] by simp
  define new where "new = \<lparr>ld_base = uf_base m, ld_parent = uf_parent m, ld_need_sync = uf_need_sync m, ld_updated = uf_updated m,
      ld_children = c, ld_local_confinement_points = l, ld_remote_confinement_points = p, ld_speculative = uf_speculative m\<rparr>"
  have new_ok: "folder_ok pattern new" using c m(2) l spec by (auto simp: folder_ok_def new_def)
  show ?thesis
  proof (cases "ld_local_confinement_points existing \<noteq> [] \<or> p \<noteq> []")
    case False
    then have "apply_confinement h m existing pattern timestamp = Some new"
      by (simp add: apply_confinement_def cp new_def l_def)
    then show ?thesis using new_ok sub by (auto simp: new_def)
  next
    case True
    let ?existing = "hi_children h (ld_children existing)"
    have ex: "children_ok ?existing" "hm_get ?existing = hm_get (ld_children existing)"
      using children_ok_permuted [OF h existing] hash_iter_children [OF h] existing by (auto simp: children_ok_def)
    obtain changes ids where ch: "restore_entries pattern (ld_local_confinement_points existing) p ?existing
        ([], hm_reversed (hi_children h c)) = (changes, ids)" by fastforce
    have hc: "children_ok (hi_children h c)" "hm_get (hi_children h c) = hm_get c"
      using children_ok_permuted [OF h c] hash_iter_children(1) [OF h cwf] by auto
    have "restoring (hi_children h c) ({} \<union> set ?existing) (changes, ids)"
      unfolding ch [symmetric]
      by (rule restoring_entries [OF _ restoring_start [OF hc(1)]])
        (use hc(1) ex(1) distinct_ids in \<open>auto simp: children_ok_def\<close>)
    note r0 = this [unfolded restoring_def prod.case hc(2) Un_empty_left]
    then have r: "hm_wf changes" "\<And>n. hm_get changes n = Some None \<Longrightarrow> hm_get c n \<noteq> None"
      "\<And>n i k. hm_get changes n = Some (Some i) \<Longrightarrow> hm_get c k = Some i \<Longrightarrow> k \<in> dom (hm_get changes)" by blast+
    have from_existing: "hm_get (ld_children existing) n = Some i" if "hm_get changes n = Some (Some i)" for n i
    proof -
      have "(n, i) \<in> set ?existing" using r0 that by blast
      then show ?thesis using hm_in_set [of ?existing n i] ex by (simp add: children_ok_def)
    qed
    have "evolvable (ld_children new) changes" using r(2,3) unfolding evolvable_def new_def local_folder_manifest.simps by blast
    moreover have "n = n'" if "hm_get changes n = Some (Some i)" "hm_get changes n' = Some (Some i)" for n n' i
      using from_existing [OF that(1)] from_existing [OF that(2)] existing unfolding children_ok_def unique_ids_def by blast
    ultimately obtain m' where m': "evolve_children_and_mark_updated h new changes pattern timestamp = Some m'" "folder_ok pattern m'"
      "hm_get (ld_children m') = (\<lambda>n. case hm_get changes n of None \<Rightarrow> hm_get (ld_children new) n | Some v \<Rightarrow> v)"
      "ld_base m' = ld_base new" "ld_parent m' = ld_parent new" "ld_speculative m' = ld_speculative new"
      "ld_need_sync new \<longrightarrow> ld_need_sync m'"
      using evolve_folder_ok [OF h new_ok r(1), of timestamp] by blast
    have "apply_confinement h m existing pattern timestamp = Some m'"
      using True ch m'(1) unfolding new_def l_def by (simp add: apply_confinement_def cp)
    moreover have "hm_get (uf_children m) n = Some i \<or> hm_get (ld_children existing) n = Some i"
      if "hm_get (ld_children m') n = Some i" for n i
      using that m'(3) sub from_existing by (auto simp: new_def split: option.split_asm)
    ultimately show ?thesis using m' by (auto simp: new_def)
  qed
qed

text \<open>What is uploaded has unique names and ids, and shows no confined entry that the server did not have.\<close>

lemma uploaded_ok:
  assumes h: "hash_iter_ok h" and ok: "children_ok (ld_children m)" "children_ok (fo_children (ld_base m))"
  shows "children_ok (uf_children (remove_confinement h m))"
proof -
  note wf = ok [unfolded children_ok_def]
  note up = remove_confinement_children [OF h, of m]
  have some: "kept_entry m n = Some i \<or>
      hm_get (fo_children (ld_base m)) n = Some i \<and> \<not> (\<exists>k. kept_entry m k = Some i)" if "uploaded_entry m n = Some i" for n i
    using that by (auto simp: uploaded_entry_def split: option.split_asm if_split_asm)
  have "n = n'" if "uploaded_entry m n = Some i" "uploaded_entry m n' = Some i" for n n' i
    using some [OF that(1)] some [OF that(2)] wf unfolding unique_ids_def kept_entry_Some by blast
  then show ?thesis using up wf by (auto simp: children_ok_def unique_ids_def)
qed

lemma confined_not_uploaded:
  assumes "folder_ok pattern m" "uploaded_entry m n = Some i" "pattern_is_match pattern n"
  shows "hm_get (fo_children (ld_base m)) n = Some i"
proof -
  have "kept_entry m n \<noteq> Some i" using assms(1,3) by (auto simp: kept_entry_Some folder_ok_def)
  with assms(2) show ?thesis by (auto simp: uploaded_entry_def split: option.split_asm if_split_asm)
qed

lemma apply_pattern_spec:
  assumes h: "hash_iter_ok h" and ok: "children_ok (ld_children m)" "children_ok (fo_children (ld_base m))"
  shows "\<exists>m'. apply_prevent_sync_pattern h m pattern timestamp = Some m' \<and> folder_ok pattern m' \<and>
    ld_base m' = ld_base m \<and> ld_parent m' = ld_parent m"
  using apply_confinement_spec [OF h uploaded_ok [OF h ok] _ ok(1), of pattern timestamp] ok(2)
  by (auto simp: apply_prevent_sync_pattern_def)

lemma from_remote_folder_ok:
  assumes h: "hash_iter_ok h" and ok: "children_ok (fo_children remote)"
  shows "folder_ok pattern (ld_from_remote h remote pattern)"
proof -
  have wf: "hm_wf (fo_children remote)" "unique_ids (fo_children remote)" using ok by (auto simp: children_ok_def)
  note f = from_remote_fields [OF h wf(1), of pattern]
  have "unique_ids (ld_children (ld_from_remote h remote pattern))"
    using wf(2) unfolding unique_ids_def f(2) by (auto split: if_split_asm)
  then show ?thesis using f ok by (auto simp: folder_ok_def children_ok_def)
qed

end
