(* ===== verification/Entry_Name.thy ===== *)
theory Entry_Name
  imports Manifest_Types
begin

text \<open>
  Entry names and paths (\<^verbatim>\<open>types/src/fs_path.rs\<close>).

  A Rust string is the list of its UTF-8 bytes, so its length is the one that \<^verbatim>\<open>str::len\<close> gives, and an index
  may be used to cut it only where a character starts (\<open>is_char_boundary\<close>). Unicode normalisation is a
  parameter \<open>nfc\<close>. The main facts: what is parsed is a valid name, a path is printed and parsed back, and a
  path never leaves the root through its parent components.
\<close>

subsection \<open>Strings\<close>

definition is_char_boundary :: "string \<Rightarrow> nat \<Rightarrow> bool" where
  "is_char_boundary s i \<longleftrightarrow>
     i = 0 \<or> i = length s \<or> i < length s \<and> \<not> (of_char (s ! i) div 64 = (2 :: nat))"

text \<open>\<^verbatim>\<open>s.get(..i)\<close>\<close>

definition str_get_to :: "string \<Rightarrow> nat \<Rightarrow> string option" where
  "str_get_to s i = (if is_char_boundary s i then Some (take i s) else None)"

definition split_once :: "char \<Rightarrow> string \<Rightarrow> (string \<times> string) option" where
  "split_once c s =
     (if c \<in> set s then Some (takeWhile (\<lambda>x. x \<noteq> c) s, tl (dropWhile (\<lambda>x. x \<noteq> c) s)) else None)"

fun split_char :: "char \<Rightarrow> string \<Rightarrow> string list" where
  "split_char c [] = [[]]"
| "split_char c (x # s) =
     (if x = c then [] # split_char c s
      else (case split_char c s of [] \<Rightarrow> [[x]] | piece # pieces \<Rightarrow> (x # piece) # pieces))"

definition ascii :: "string \<Rightarrow> bool" where
  "ascii s = list_all (\<lambda>c. of_char c < (128 :: nat)) s"

lemma ascii_append [simp]: "ascii (a @ b) \<longleftrightarrow> ascii a \<and> ascii b"
  by (simp add: ascii_def)

lemma ascii_Cons [simp]: "ascii (c # s) \<longleftrightarrow> of_char c < (128 :: nat) \<and> ascii s"
  by (simp add: ascii_def)

lemma ascii_Nil [simp]: "ascii []"
  by (simp add: ascii_def)

lemma ascii_take [simp]: "ascii s \<Longrightarrow> ascii (take i s)"
  by (auto simp: ascii_def list_all_iff dest: in_set_takeD)

lemma ascii_boundary: "ascii s \<Longrightarrow> i \<le> length s \<Longrightarrow> is_char_boundary s i"
  by (auto simp: is_char_boundary_def ascii_def list_all_length div_nat_eqI dest!: spec [of _ i])

lemma split_once_Some: "split_once c s = Some (a, b) \<longleftrightarrow> s = a @ c # b \<and> c \<notin> set a"
proof
  assume "split_once c s = Some (a, b)"
  then have "c \<in> set s" "a = takeWhile (\<lambda>x. x \<noteq> c) s" "b = tl (dropWhile (\<lambda>x. x \<noteq> c) s)"
    by (auto simp: split_once_def split: if_split_asm)
  moreover from this have "dropWhile (\<lambda>x. x \<noteq> c) s \<noteq> []" "hd (dropWhile (\<lambda>x. x \<noteq> c) s) = c"
    using hd_dropWhile [of "\<lambda>x. x \<noteq> c" s] by auto
  ultimately show "s = a @ c # b \<and> c \<notin> set a"
    using takeWhile_dropWhile_id [of "\<lambda>x. x \<noteq> c" s] list.collapse set_takeWhileD [of c "\<lambda>x. x \<noteq> c" s]
    by metis
next
  assume "s = a @ c # b \<and> c \<notin> set a"
  then show "split_once c s = Some (a, b)" by (auto simp: split_once_def takeWhile_tail dropWhile_append)
qed

lemma split_once_None: "split_once c s = None \<longleftrightarrow> c \<notin> set s"
  by (simp add: split_once_def)

lemma split_char_not_Nil [simp]: "split_char c s \<noteq> []"
  by (cases s) (simp_all split: list.split)

lemma split_char_plain: "c \<notin> set s \<Longrightarrow> split_char c s = [s]"
  by (induction s) auto

lemma split_char_append: "c \<notin> set a \<Longrightarrow> split_char c (a @ c # b) = a # split_char c b"
  by (induction a) auto

lemma split_char_pieces: "p \<in> set (split_char c s) \<Longrightarrow> c \<notin> set p"
  by (induction s arbitrary: p) (auto split: if_split_asm list.split_asm)

subsection \<open>Entry names\<close>

datatype entry_name_error = NameTooLong | InvalidName

definition MAX_LENGTH_BYTES :: nat where
  "MAX_LENGTH_BYTES = 255"

definition entry_name_is_valid :: "string \<Rightarrow> entry_name_error + unit" where
  "entry_name_is_valid raw =
     (if length raw > MAX_LENGTH_BYTES then Inl NameTooLong
      else if raw = [] \<or> raw = ''.'' \<or> raw = ''..'' \<or> CHR ''/'' \<in> set raw \<or> CHR 0x00 \<in> set raw
      then Inl InvalidName
      else Inr ())"

definition prefix_and_suffix :: "entry_name \<Rightarrow> string \<times> string option" where
  "prefix_and_suffix name =
     (case split_once CHR ''.'' name of
        Some (base, ext) \<Rightarrow>
          if base \<noteq> [] then (base, Some ext)
          else (case split_once CHR ''.'' ext of
                  Some (head, _) \<Rightarrow>
                    (let i = length head; base = take (i + 1) name; ext = drop (i + 1) name in (base, Some (drop 1 ext)))
                | None \<Rightarrow> (name, None))
      | None \<Rightarrow> (name, None))"

definition entry_name_prefix :: "entry_name \<Rightarrow> string" where
  "entry_name_prefix name = fst (prefix_and_suffix name)"

definition entry_name_suffix :: "entry_name \<Rightarrow> string option" where
  "entry_name_suffix name = snd (prefix_and_suffix name)"

text \<open>From a \<^verbatim>\<open>&str\<close>, and from a \<^verbatim>\<open>String\<close> with the quick check of the normalisation library.\<close>

definition entry_name_try_from :: "(string \<Rightarrow> string) \<Rightarrow> string \<Rightarrow> entry_name_error + entry_name" where
  "entry_name_try_from nfc s = (let s = nfc s in and_then (entry_name_is_valid s) (\<lambda>_. Inr s))"

datatype is_normalized = NormalizedYes | NormalizedNo | NormalizedMaybe

definition entry_name_try_from_string ::
  "(string \<Rightarrow> is_normalized) \<Rightarrow> (string \<Rightarrow> string) \<Rightarrow> string \<Rightarrow> entry_name_error + entry_name" where
  "entry_name_try_from_string is_nfc_quick nfc s =
     (let s = (case is_nfc_quick s of NormalizedYes \<Rightarrow> s | NormalizedNo \<Rightarrow> nfc s | NormalizedMaybe \<Rightarrow> nfc s)
      in and_then (entry_name_is_valid s) (\<lambda>_. Inr s))"

definition entry_name_ref_try_from :: "(string \<Rightarrow> bool) \<Rightarrow> string \<Rightarrow> entry_name_error + entry_name" where
  "entry_name_ref_try_from is_nfc s =
     (if \<not> is_nfc s then Inl InvalidName
      else if length s \<ge> 256 then Inl NameTooLong
      else if s = [] \<or> s = ''.'' \<or> s = ''..'' \<or> CHR ''/'' \<in> set s \<or> CHR 0x00 \<in> set s then Inl InvalidName
      else Inr s)"

definition valid_name :: "(string \<Rightarrow> string) \<Rightarrow> string \<Rightarrow> bool" where
  "valid_name nfc s \<longleftrightarrow> nfc s = s \<and> entry_name_is_valid s = Inr ()"

lemma entry_name_try_from_Inr:
  "entry_name_try_from nfc s = Inr n \<longleftrightarrow> n = nfc s \<and> entry_name_is_valid n = Inr ()"
  by (auto simp: entry_name_try_from_def Let_def and_then_Inr)

lemma entry_name_try_from_valid:
  "(\<And>s. nfc (nfc s) = nfc s) \<Longrightarrow> entry_name_try_from nfc s = Inr n \<Longrightarrow> valid_name nfc n"
  by (auto simp: entry_name_try_from_Inr valid_name_def)

lemma entry_name_try_from_string_eq:
  "(\<And>s. is_nfc_quick s = NormalizedYes \<Longrightarrow> nfc s = s) \<Longrightarrow>
     entry_name_try_from_string is_nfc_quick nfc s = entry_name_try_from nfc s"
  by (cases "is_nfc_quick s") (simp_all add: entry_name_try_from_string_def entry_name_try_from_def)

lemma entry_name_ref_eq:
  "(\<And>s. is_nfc s \<longleftrightarrow> nfc s = s) \<Longrightarrow>
     entry_name_ref_try_from is_nfc s = (if nfc s = s then entry_name_try_from nfc s else Inl InvalidName)"
  by (auto simp: entry_name_ref_try_from_def entry_name_try_from_def entry_name_is_valid_def MAX_LENGTH_BYTES_def Let_def)

text \<open>A name is its prefix, a dot and its suffix, and the prefix of a valid name is not empty.\<close>

lemma prefix_and_suffix_join:
  "prefix_and_suffix name = (p, Some x) \<Longrightarrow> name = p @ CHR ''.'' # x"
  "prefix_and_suffix name = (p, None) \<Longrightarrow> name = p"
  by (auto simp: prefix_and_suffix_def Let_def split_once_Some split: option.split_asm if_split_asm)

lemma prefix_not_empty: "name \<noteq> [] \<Longrightarrow> fst (prefix_and_suffix name) \<noteq> []"
  by (auto simp: prefix_and_suffix_def Let_def split_once_Some split: option.split)

subsection \<open>Paths\<close>

record fs_path =
  fp_parts :: "entry_name list"

datatype fs_path_error = NotAbsolute | InvalidEntry entry_name_error

definition fp_name :: "fs_path \<Rightarrow> entry_name option" where
  "fp_name p = (if fp_parts p = [] then None else Some (last (fp_parts p)))"

definition fp_is_root :: "fs_path \<Rightarrow> bool" where
  "fp_is_root p = (fp_parts p = [])"

definition fp_parent :: "fs_path \<Rightarrow> fs_path" where
  "fp_parent p = (if fp_parts p = [] then \<lparr>fp_parts = []\<rparr> else \<lparr>fp_parts = take (length (fp_parts p) - 1) (fp_parts p)\<rparr>)"

definition fp_join :: "fs_path \<Rightarrow> entry_name \<Rightarrow> fs_path" where
  "fp_join p child = \<lparr>fp_parts = fp_parts p @ [child]\<rparr>"

definition fp_into_child :: "fs_path \<Rightarrow> entry_name \<Rightarrow> fs_path" where
  "fp_into_child p child = p\<lparr>fp_parts := fp_parts p @ [child]\<rparr>"

definition fp_into_parent :: "fs_path \<Rightarrow> fs_path \<times> entry_name option" where
  "fp_into_parent p = (p\<lparr>fp_parts := butlast (fp_parts p)\<rparr>,
     if fp_parts p = [] then None else Some (last (fp_parts p)))"

definition fp_is_descendant_of :: "fs_path \<Rightarrow> fs_path \<Rightarrow> bool" where
  "fp_is_descendant_of self path =
     (if length (fp_parts path) > length (fp_parts self) then False
      else list_all (\<lambda>(self_part, part). self_part = part) (zip (fp_parts self) (fp_parts path)))"

definition fp_replace_parent :: "fs_path \<Rightarrow> nat \<Rightarrow> fs_path \<Rightarrow> fs_path" where
  "fp_replace_parent self offset dest =
     (if length (fp_parts self) > offset then dest\<lparr>fp_parts := fp_parts dest @ drop offset (fp_parts self)\<rparr> else dest)"

definition fp_from_parts :: "entry_name list \<Rightarrow> fs_path" where
  "fp_from_parts parts = \<lparr>fp_parts = parts\<rparr>"

definition normalize_part :: "entry_name list \<Rightarrow> entry_name \<Rightarrow> entry_name list" where
  "normalize_part new_parts part =
     (if part = ''.'' \<or> part = [] then new_parts
      else if part = ''..'' then butlast new_parts
      else new_parts @ [part])"

definition fp_normalize :: "fs_path \<Rightarrow> fs_path" where
  "fp_normalize p = \<lparr>fp_parts = foldl normalize_part [] (fp_parts p)\<rparr>"

definition fp_display :: "fs_path \<Rightarrow> string" where
  "fp_display p = (if fp_is_root p then ''/'' else concat (map (\<lambda>part. CHR ''/'' # part) (fp_parts p)))"

fun parse_parts :: "(string \<Rightarrow> string) \<Rightarrow> string list \<Rightarrow> entry_name list \<Rightarrow> fs_path_error + entry_name list" where
  "parse_parts nfc [] parts = Inr parts"
| "parse_parts nfc (item # items) parts =
     (if item = ''.'' \<or> item = [] then parse_parts nfc items parts
      else if item = ''..'' then parse_parts nfc items (butlast parts)
      else (case entry_name_try_from nfc item of
              Inl e \<Rightarrow> Inl (InvalidEntry e)
            | Inr name \<Rightarrow> parse_parts nfc items (parts @ [name])))"

definition fp_from_str :: "(string \<Rightarrow> string) \<Rightarrow> string \<Rightarrow> fs_path_error + fs_path" where
  "fp_from_str nfc s =
     (if take 1 s \<noteq> ''/'' then Inl NotAbsolute
      else and_then (parse_parts nfc (split_char CHR ''/'' s) []) (\<lambda>parts. Inr \<lparr>fp_parts = parts\<rparr>))"

subsubsection \<open>What a path is\<close>

definition path_ok :: "(string \<Rightarrow> string) \<Rightarrow> fs_path \<Rightarrow> bool" where
  "path_ok nfc p = list_all (valid_name nfc) (fp_parts p)"

lemma valid_name_plain:
  "valid_name nfc n \<Longrightarrow> n \<noteq> [] \<and> n \<noteq> ''.'' \<and> n \<noteq> ''..'' \<and> CHR ''/'' \<notin> set n"
  by (auto simp: valid_name_def entry_name_is_valid_def split: if_split_asm)

lemma parse_parts_valid:
  assumes idem: "\<And>s. nfc (nfc s) = nfc s"
  shows "parse_parts nfc items parts = Inr r \<Longrightarrow> list_all (valid_name nfc) parts \<Longrightarrow> list_all (valid_name nfc) r"
proof (induction items arbitrary: parts)
  case (Cons item items)
  have "valid_name nfc n" if "entry_name_try_from nfc item = Inr n" for n
    using entry_name_try_from_valid [OF idem that] .
  moreover have "list_all (valid_name nfc) (butlast parts)"
    using Cons.prems(2) by (auto simp: list_all_iff dest: in_set_butlastD)
  ultimately show ?case using Cons.prems Cons.IH [of parts] Cons.IH [of "butlast parts"] Cons.IH [of "parts @ [n]" for n]
    by (cases "entry_name_try_from nfc item") (simp_all split: if_split_asm)
qed simp

lemma parse_parts_roundtrip:
  "list_all (valid_name nfc) names \<Longrightarrow> parse_parts nfc names parts = Inr (parts @ names)"
proof (induction names arbitrary: parts)
  case (Cons n names)
  then have "n \<noteq> []" "n \<noteq> ''.''" "n \<noteq> ''..''" "entry_name_try_from nfc n = Inr n"
    using valid_name_plain [of nfc n] by (auto simp: entry_name_try_from_Inr valid_name_def)
  with Cons show ?case by simp
qed simp

lemma split_display:
  "\<forall>m \<in> set (n # names). CHR ''/'' \<notin> set m \<Longrightarrow>
     split_char CHR ''/'' (n @ concat (map (\<lambda>part. CHR ''/'' # part) names)) = n # names"
  by (induction names arbitrary: n) (auto simp: split_char_append split_char_plain)

text \<open>Printing and parsing a path.\<close>

lemma fp_from_str_display:
  assumes "path_ok nfc p" shows "fp_from_str nfc (fp_display p) = Inr \<lparr>fp_parts = fp_parts p\<rparr>"
proof (cases "fp_parts p")
  case Nil
  then show ?thesis by (simp add: fp_display_def fp_is_root_def fp_from_str_def)
next
  case (Cons n names)
  then have "\<forall>m \<in> set ([] # n # names). CHR ''/'' \<notin> set m"
    using assms valid_name_plain by (auto simp: path_ok_def list_all_iff)
  from split_display [OF this] Cons have "split_char CHR ''/'' (fp_display p) = [] # fp_parts p"
    by (simp add: fp_display_def fp_is_root_def)
  moreover have "take 1 (fp_display p) = ''/''" using Cons by (simp add: fp_display_def fp_is_root_def)
  ultimately show ?thesis using parse_parts_roundtrip [of nfc "fp_parts p" "[]"] assms
    by (simp add: fp_from_str_def path_ok_def)
qed

lemma fp_from_str_ok:
  assumes "\<And>s. nfc (nfc s) = nfc s" "fp_from_str nfc s = Inr p" shows "path_ok nfc p"
  using parse_parts_valid [OF assms(1)] assms(2)
  by (fastforce simp: fp_from_str_def path_ok_def and_then_Inr split: if_split_asm)

lemma fp_normalize_ok: "path_ok nfc p \<Longrightarrow> fp_normalize p = \<lparr>fp_parts = fp_parts p\<rparr>"
proof -
  have "foldl normalize_part acc names = acc @ names" if "list_all (valid_name nfc) names" for acc names
    using that
  proof (induction names arbitrary: acc)
    case (Cons n names)
    then show ?case using valid_name_plain [of nfc n] by (simp add: normalize_part_def)
  qed simp
  then show "path_ok nfc p \<Longrightarrow> ?thesis" by (simp add: fp_normalize_def path_ok_def)
qed

lemma fp_is_descendant_of_iff:
  "fp_is_descendant_of self path \<longleftrightarrow> (\<exists>rest. fp_parts self = fp_parts path @ rest)"
proof
  assume "fp_is_descendant_of self path"
  then have "length (fp_parts path) \<le> length (fp_parts self)"
    "take (length (fp_parts path)) (fp_parts self) = fp_parts path"
    by (auto simp: fp_is_descendant_of_def list_all_length list_eq_iff_nth_eq split: if_split_asm)
  then show "\<exists>rest. fp_parts self = fp_parts path @ rest" by (metis append_take_drop_id)
qed (auto simp: fp_is_descendant_of_def list_all_length nth_append)

text \<open>Moving an entry: the path below the old parent is put below the new one.\<close>

lemma fp_replace_parent_descendant:
  assumes "fp_is_descendant_of self path" "fp_parts dest \<noteq> []"
  shows "fp_is_descendant_of (fp_replace_parent self (length (fp_parts path)) dest) dest"
  using assms by (auto simp: fp_is_descendant_of_iff fp_replace_parent_def)

lemma fp_parent_join [simp]: "fp_parent (fp_join p n) = \<lparr>fp_parts = fp_parts p\<rparr>" "fp_name (fp_join p n) = Some n"
  by (simp_all add: fp_parent_def fp_join_def fp_name_def)

end
