(* ===== verification/Conflict_Name.thy ===== *)
theory Conflict_Name
  imports Entry_Name
begin

text \<open>
  The names given to entries that conflict (\<^verbatim>\<open>client/src/workspace/merge.rs\<close>, \<open>rename_with_suffix\<close> and
  \<open>get_conflict_filename\<close>).

  The value \<^const>\<open>None\<close> stands for a call that does not return: it panics or, for the search of a free name,
  loops. The search returns for every name made of ASCII characters and every set of reserved names below
  one hundred million, after fewer than one billion attempts, so its counter (an \<^verbatim>\<open>i32\<close>) does not overflow.
\<close>

subsection \<open>Decimal numbers\<close>

definition digit_char :: "nat \<Rightarrow> char" where
  "digit_char d = char_of (48 + d)"

fun string_of_nat :: "nat \<Rightarrow> string" where
  "string_of_nat n = (if n < 10 then [digit_char n] else string_of_nat (n div 10) @ [digit_char (n mod 10)])"

declare string_of_nat.simps [simp del]

definition digit_value :: "char \<Rightarrow> nat" where
  "digit_value c = of_char c - 48"

definition nat_of_string :: "string \<Rightarrow> nat" where
  "nat_of_string s = foldl (\<lambda>n c. 10 * n + digit_value c) 0 s"

lemma digit_value_char [simp]: "d < 10 \<Longrightarrow> digit_value (digit_char d) = d"
  by (simp add: digit_value_def digit_char_def)

lemma nat_of_string_of_nat [simp]: "nat_of_string (string_of_nat n) = n"
proof (induction n rule: string_of_nat.induct)
  case (1 n)
  show ?case
  proof (cases "n < 10")
    case True
    then show ?thesis by (simp add: string_of_nat.simps [of n] nat_of_string_def)
  next
    case False
    with 1 show ?thesis by (simp add: string_of_nat.simps [of n] nat_of_string_def)
  qed
qed

lemma string_of_nat_inj: "string_of_nat a = string_of_nat b \<Longrightarrow> a = b"
  by (metis nat_of_string_of_nat)

lemma length_string_of_nat: "10 ^ d \<le> n \<Longrightarrow> n < 10 ^ Suc d \<Longrightarrow> length (string_of_nat n) = Suc d"
proof (induction d arbitrary: n)
  case 0
  then show ?case by (simp add: string_of_nat.simps [of n])
next
  case (Suc d)
  then have big: "\<not> n < 10" using self_le_power [of "10 :: nat" "Suc d"] by linarith
  have "10 ^ d \<le> n div 10" "n div 10 < 10 ^ Suc d" using Suc.prems by auto
  with Suc.IH big show ?case by (simp add: string_of_nat.simps [of n])
qed

lemma length_string_of_nat_le: "n < 10 ^ Suc d \<Longrightarrow> length (string_of_nat n) \<le> Suc d"
proof (induction d arbitrary: n)
  case 0
  then show ?case by (simp add: string_of_nat.simps [of n])
next
  case (Suc d)
  show ?case
  proof (cases "n < 10")
    case False
    have "n div 10 < 10 ^ Suc d" using Suc.prems by auto
    with Suc.IH False show ?thesis by (simp add: string_of_nat.simps [of n])
  qed (simp add: string_of_nat.simps [of n])
qed

subsection \<open>Renaming with a suffix\<close>

text \<open>The format strings of the loop.\<close>

definition conflict_candidate :: "bool \<Rightarrow> string \<Rightarrow> string \<Rightarrow> string option \<Rightarrow> string" where
  "conflict_candidate has_leading_dot base_name suffix extension =
     (if has_leading_dot then ''.'' else []) @ base_name @ '' ('' @ suffix @ '')'' @
     (case extension of Some extension \<Rightarrow> CHR ''.'' # extension | None \<Rightarrow> [])"

text \<open>One more attempt with a shorter base name, or with one extension less.\<close>

function rename_loop ::
  "(string \<Rightarrow> string) \<Rightarrow> string \<Rightarrow> bool \<Rightarrow> string \<Rightarrow> string \<Rightarrow> string option \<Rightarrow> entry_name option" where
  "rename_loop nfc original_base_name has_leading_dot suffix base_name extension =
     (case entry_name_try_from nfc (conflict_candidate has_leading_dot base_name suffix extension) of
        Inr name \<Rightarrow> Some name
      | Inl NameTooLong \<Rightarrow>
          if length base_name > 10
          then (case str_get_to base_name (length base_name - 10) of
                  None \<Rightarrow> None
                | Some shorter \<Rightarrow> rename_loop nfc original_base_name has_leading_dot suffix shorter extension)
          else (case extension of
                  None \<Rightarrow> None
                | Some ext \<Rightarrow> rename_loop nfc original_base_name has_leading_dot suffix original_base_name
                    (case split_once CHR ''.'' ext of Some (_, kept) \<Rightarrow> Some kept | None \<Rightarrow> None))
      | Inl InvalidName \<Rightarrow> None)"
  by pat_completeness auto
termination
  by (relation "measures [\<lambda>(nfc, original, dot, suffix, base, extension).
         (case extension of None \<Rightarrow> 0 | Some e \<Rightarrow> Suc (length e)), \<lambda>(nfc, original, dot, suffix, base, extension). length base]")
     (auto simp: str_get_to_def split_once_Some split: if_split_asm option.split)

declare rename_loop.simps [simp del]

definition rename_with_suffix :: "(string \<Rightarrow> string) \<Rightarrow> entry_name \<Rightarrow> string \<Rightarrow> entry_name option" where
  "rename_with_suffix nfc name suffix =
     (let (raw, has_leading_dot) = (if take 1 name = ''.'' then (drop 1 name, True) else (name, False));
          (original_base_name, original_extension) =
            (case split_once CHR ''.'' raw of None \<Rightarrow> (raw, None) | Some (base, ext) \<Rightarrow> (base, Some ext))
      in rename_loop nfc original_base_name has_leading_dot suffix original_base_name original_extension)"

text \<open>The search for a free name: \<open>is_reserved\<close> is the closure of the caller.\<close>

partial_function (option) conflict_loop ::
  "(string \<Rightarrow> string) \<Rightarrow> entry_name \<Rightarrow> string \<Rightarrow> (entry_name \<Rightarrow> bool) \<Rightarrow> nat \<Rightarrow> entry_name \<Rightarrow> entry_name option" where
  "conflict_loop nfc filename suffix is_reserved count new_filename =
     (if is_reserved new_filename
      then Option.bind (rename_with_suffix nfc filename (suffix @ '' '' @ string_of_nat (count + 1)))
             (\<lambda>new_filename. conflict_loop nfc filename suffix is_reserved (count + 1) new_filename)
      else Some new_filename)"

definition get_conflict_filename ::
  "(string \<Rightarrow> string) \<Rightarrow> entry_name \<Rightarrow> string \<Rightarrow> (entry_name \<Rightarrow> bool) \<Rightarrow> entry_name option" where
  "get_conflict_filename nfc filename suffix is_reserved =
     Option.bind (rename_with_suffix nfc filename suffix) (conflict_loop nfc filename suffix is_reserved 1)"

definition FILENAME_CONFLICT_SUFFIX :: string where
  "FILENAME_CONFLICT_SUFFIX = ''Parsec - name conflict''"

subsection \<open>The search returns\<close>

definition ascii_fixed :: "(string \<Rightarrow> string) \<Rightarrow> bool" where
  "ascii_fixed nfc \<longleftrightarrow> (\<forall>s. ascii s \<longrightarrow> nfc s = s)"

definition plain_text :: "string \<Rightarrow> bool" where
  "plain_text s \<longleftrightarrow> ascii s \<and> CHR ''/'' \<notin> set s \<and> CHR 0x00 \<notin> set s"

lemma plain_text_append [simp]: "plain_text (a @ b) \<longleftrightarrow> plain_text a \<and> plain_text b"
  by (auto simp: plain_text_def)

lemma plain_text_Cons [simp]:
  "plain_text (c # s) \<longleftrightarrow> of_char c < (128 :: nat) \<and> c \<noteq> CHR ''/'' \<and> c \<noteq> CHR 0x00 \<and> plain_text s"
  by (auto simp: plain_text_def)

lemma plain_text_Nil [simp]: "plain_text []"
  by (simp add: plain_text_def)

lemma plain_text_take [simp]: "plain_text s \<Longrightarrow> plain_text (take i s)"
  by (auto simp: plain_text_def dest: in_set_takeD)

lemma plain_text_string_of_nat [simp]: "plain_text (string_of_nat n)"
proof (induction n rule: string_of_nat.induct)
  case (1 n)
  have digit: "plain_text [digit_char d]" if "d < 10" for d
  proof -
    have "of_char (digit_char d) = 48 + d" using that by (simp add: digit_char_def)
    moreover from this have "digit_char d \<noteq> CHR ''/''" "digit_char d \<noteq> CHR 0x00" by auto
    ultimately show ?thesis using that by simp
  qed
  with 1 show ?case by (cases "n < 10") (simp_all add: string_of_nat.simps [of n])
qed

lemma candidate_plain [simp]:
  "plain_text base \<Longrightarrow> plain_text suffix \<Longrightarrow> (\<forall>e. ext = Some e \<longrightarrow> plain_text e) \<Longrightarrow>
     plain_text (conflict_candidate dot base suffix ext)"
  by (auto simp: conflict_candidate_def split: option.split)

lemma candidate_try_from:
  assumes nfc: "ascii_fixed nfc" and plain: "plain_text (conflict_candidate dot base suffix ext)"
  shows "entry_name_try_from nfc (conflict_candidate dot base suffix ext) =
    (if length (conflict_candidate dot base suffix ext) > 255 then Inl NameTooLong
     else Inr (conflict_candidate dot base suffix ext))"
proof -
  let ?c = "conflict_candidate dot base suffix ext"
  have "nfc ?c = ?c" using nfc plain by (simp add: ascii_fixed_def plain_text_def)
  moreover have "CHR ''('' \<in> set ?c" by (simp add: conflict_candidate_def)
  then have "?c \<noteq> []" "?c \<noteq> ''.''" "?c \<noteq> ''..''" by auto
  ultimately show ?thesis using plain
    by (auto simp: entry_name_try_from_def entry_name_is_valid_def MAX_LENGTH_BYTES_def plain_text_def)
qed

lemma candidate_length:
  "length (conflict_candidate dot base suffix ext) =
     (if dot then 1 else 0) + length base + 3 + length suffix + (case ext of None \<Rightarrow> 0 | Some e \<Rightarrow> Suc (length e))"
  by (simp add: conflict_candidate_def split: option.split)

text \<open>
  What is kept of the base name and of the extension depends on the length of the suffix only.
\<close>

lemma rename_loop_shape:
  assumes nfc: "ascii_fixed nfc"
  shows "plain_text original \<Longrightarrow> plain_text base \<Longrightarrow> (\<forall>e. ext = Some e \<longrightarrow> plain_text e) \<Longrightarrow>
    plain_text suffix \<Longrightarrow> length suffix \<le> 200 \<Longrightarrow>
    \<exists>b e. plain_text b \<and> (\<forall>x. e = Some x \<longrightarrow> plain_text x) \<and>
      length (conflict_candidate dot b suffix e) \<le> 255 \<and>
      (\<forall>suffix'. length suffix' = length suffix \<and> plain_text suffix' \<longrightarrow>
         rename_loop nfc original dot suffix' base ext = Some (conflict_candidate dot b suffix' e))"
proof (induction nfc\<equiv>nfc original dot suffix base ext rule: rename_loop.induct)
  case (1 original dot suffix base ext)
  let ?len = "length (conflict_candidate dot base suffix ext)"
  note unfold = rename_loop.simps [of nfc original dot _ base ext]
  have attempt: "entry_name_try_from nfc (conflict_candidate dot base suffix' ext) =
      (if ?len > 255 then Inl NameTooLong else Inr (conflict_candidate dot base suffix' ext))"
    if "length suffix' = length suffix" "plain_text suffix'" for suffix'
    using candidate_try_from [OF nfc, of dot base suffix' ext] that "1.prems"(2,3) by (simp add: candidate_length)
  show ?case
  proof (cases "?len > 255")
    case False
    then show ?thesis using "1.prems" attempt
      by (intro exI [of _ base] exI [of _ ext]) (simp add: unfold)
  next
    case long: True
    show ?thesis
    proof (cases "length base > 10")
      case True
      let ?shorter = "take (length base - 10) base"
      have get: "str_get_to base (length base - 10) = Some ?shorter"
        using ascii_boundary [of base "length base - 10"] "1.prems"(2) by (simp add: str_get_to_def plain_text_def)
      have step: "rename_loop nfc original dot suffix' base ext = rename_loop nfc original dot suffix' ?shorter ext"
        if "length suffix' = length suffix" "plain_text suffix'" for suffix'
        using attempt [OF that] long True get by (simp add: unfold)
      have "\<exists>b e. plain_text b \<and> (\<forall>x. e = Some x \<longrightarrow> plain_text x) \<and>
          length (conflict_candidate dot b suffix e) \<le> 255 \<and>
          (\<forall>suffix'. length suffix' = length suffix \<and> plain_text suffix' \<longrightarrow>
             rename_loop nfc original dot suffix' ?shorter ext = Some (conflict_candidate dot b suffix' e))"
        by (rule "1.hyps"(1) [OF _ _ True get]) (use "1.prems" attempt long in simp_all)
      then show ?thesis using step by simp
    next
      case False
      then obtain x where x: "ext = Some x"
        using long "1.prems"(5) by (cases ext) (auto simp: candidate_length split: if_split_asm)
      let ?kept = "case split_once CHR ''.'' x of Some (_, kept) \<Rightarrow> Some kept | None \<Rightarrow> None"
      have step: "rename_loop nfc original dot suffix' base ext = rename_loop nfc original dot suffix' original ?kept"
        if "length suffix' = length suffix" "plain_text suffix'" for suffix'
        using attempt [OF that] long False unfolding x by (simp add: rename_loop.simps [of nfc original dot suffix' base])
      have "\<forall>e. ?kept = Some e \<longrightarrow> plain_text e" using "1.prems"(3) x by (auto simp: split_once_Some split: option.split)
      then have "\<exists>b e. plain_text b \<and> (\<forall>x. e = Some x \<longrightarrow> plain_text x) \<and>
          length (conflict_candidate dot b suffix e) \<le> 255 \<and>
          (\<forall>suffix'. length suffix' = length suffix \<and> plain_text suffix' \<longrightarrow>
             rename_loop nfc original dot suffix' original ?kept = Some (conflict_candidate dot b suffix' e))"
        by (intro "1.hyps"(2) [OF _ _ False x]) (use "1.prems" attempt long in simp_all)
      then show ?thesis using step by simp
    qed
  qed
qed

lemma candidate_inj: "conflict_candidate dot b s e = conflict_candidate dot b t e \<Longrightarrow> s = t"
  by (auto simp: conflict_candidate_def split: option.split_asm)

lemma rename_with_suffix_shape:
  assumes nfc: "ascii_fixed nfc" and name: "plain_text name" and n: "n \<le> 200"
  shows "\<exists>dot b e. \<forall>suffix. length suffix = n \<and> plain_text suffix \<longrightarrow>
    rename_with_suffix nfc name suffix = Some (conflict_candidate dot b suffix e) \<and>
    valid_name nfc (conflict_candidate dot b suffix e)"
proof -
  obtain raw dot where raw: "(if take 1 name = ''.'' then (drop 1 name, True) else (name, False)) = (raw, dot)"
    by (cases "take 1 name = ''.''") auto
  obtain base ext where base:
    "(case split_once CHR ''.'' raw of None \<Rightarrow> (raw, None) | Some (base, ext) \<Rightarrow> (base, Some ext)) = (base, ext)"
    by (cases "split_once CHR ''.'' raw") auto
  have "plain_text raw" using raw name by (cases name) (auto split: if_split_asm)
  then have plain: "plain_text base" "\<forall>e. ext = Some e \<longrightarrow> plain_text e"
    using base by (auto simp: split_once_Some split: option.split_asm prod.split_asm)
  let ?suffix = "replicate n CHR ''x''"
  have "plain_text ?suffix" by (induction n) auto
  with rename_loop_shape [OF nfc plain(1) plain(1,2) this, of dot] n obtain b e where
    b: "plain_text b" "\<forall>x. e = Some x \<longrightarrow> plain_text x" "length (conflict_candidate dot b ?suffix e) \<le> 255"
    "\<And>suffix. length suffix = n \<Longrightarrow> plain_text suffix \<Longrightarrow>
       rename_loop nfc base dot suffix base ext = Some (conflict_candidate dot b suffix e)" by auto
  have "valid_name nfc (conflict_candidate dot b suffix e)" if "length suffix = n" "plain_text suffix" for suffix
  proof -
    have short: "\<not> length (conflict_candidate dot b suffix e) > 255" using b(3) that(1) by (simp add: candidate_length)
    have plain: "plain_text (conflict_candidate dot b suffix e)" using b that by simp
    from candidate_try_from [OF nfc plain] short plain nfc show ?thesis
      by (auto simp: entry_name_try_from_Inr valid_name_def ascii_fixed_def plain_text_def)
  qed
  with b(4) show ?thesis unfolding rename_with_suffix_def raw base Let_def prod.case by blast
qed

text \<open>Two suffixes of the same length give two names.\<close>

lemma rename_with_suffix_inj:
  assumes "ascii_fixed nfc" "plain_text name" "length s = length t" "length t \<le> 200" "plain_text s" "plain_text t"
    and "rename_with_suffix nfc name s = rename_with_suffix nfc name t"
  shows "s = t"
  using rename_with_suffix_shape [OF assms(1,2,4)] assms(3,5-7) candidate_inj by (metis option.inject)

lemma rename_with_suffix_valid:
  assumes "ascii_fixed nfc" "plain_text name" "length s \<le> 200" "plain_text s"
  obtains n where "rename_with_suffix nfc name s = Some n" "valid_name nfc n"
  using rename_with_suffix_shape [OF assms(1-3)] assms(4) by blast

definition attempt_suffix :: "nat \<Rightarrow> string" where
  "attempt_suffix count = FILENAME_CONFLICT_SUFFIX @ (if count = 1 then [] else '' '' @ string_of_nat count)"

lemma attempt_suffix_plain [simp]: "plain_text (attempt_suffix count)"
  by (simp add: attempt_suffix_def FILENAME_CONFLICT_SUFFIX_def)

lemma attempt_suffix_short: "count < 10 ^ 9 \<Longrightarrow> length (attempt_suffix count) \<le> 200"
  using length_string_of_nat_le [of count 8] by (simp add: attempt_suffix_def FILENAME_CONFLICT_SUFFIX_def)

text \<open>Some attempt before the billionth is free.\<close>

lemma free_attempt:
  assumes "ascii_fixed nfc" "plain_text name" "finite R" "card R < 10 ^ 8"
  shows "\<exists>count < 10 ^ 9. 1 \<le> count \<and> (\<forall>n. rename_with_suffix nfc name (attempt_suffix count) = Some n \<longrightarrow> n \<notin> R)"
proof (rule ccontr)
  let ?f = "\<lambda>count. rename_with_suffix nfc name (attempt_suffix count)"
  let ?C = "{10 ^ 8 ..< 10 ^ 9 :: nat}"
  assume "\<not> ?thesis"
  then have all: "\<exists>n. ?f count = Some n \<and> n \<in> R" if "1 \<le> count" "count < 10 ^ 9" for count using that by blast
  have "inj_on ?f ?C"
  proof (rule inj_onI)
    fix a b :: nat assume ab: "a \<in> ?C" "b \<in> ?C" "?f a = ?f b"
    have len: "length (string_of_nat c) = 9" if "c \<in> ?C" for c
      using length_string_of_nat [of 8 c] that by simp
    have "a \<noteq> 1" "b \<noteq> 1" using ab by auto
    then have suffix: "attempt_suffix a = FILENAME_CONFLICT_SUFFIX @ '' '' @ string_of_nat a"
      "attempt_suffix b = FILENAME_CONFLICT_SUFFIX @ '' '' @ string_of_nat b" by (simp_all add: attempt_suffix_def)
    have "attempt_suffix a = attempt_suffix b"
      by (rule rename_with_suffix_inj [OF assms(1,2) _ attempt_suffix_short _ _ ab(3)])
        (use len ab in \<open>simp_all add: suffix FILENAME_CONFLICT_SUFFIX_def\<close>)
    then show "a = b" using suffix string_of_nat_inj by simp
  qed
  moreover have "?f ` ?C \<subseteq> Some ` R"
  proof (rule image_subsetI)
    fix count :: nat assume "count \<in> ?C"
    with all [of count] show "?f count \<in> Some ` R" by auto
  qed
  ultimately have "card ?C \<le> card (Some ` R)" using assms(3) by (intro card_inj_on_le) auto
  also have "\<dots> \<le> card R" using assms(3) by (rule card_image_le)
  finally show False using assms(4) by simp
qed

lemma conflict_loop_returns:
  assumes "ascii_fixed nfc" "plain_text name"
    and free: "last_count < 10 ^ 9" "\<And>n. rename_with_suffix nfc name (attempt_suffix last_count) = Some n \<Longrightarrow> \<not> is_reserved n"
  shows "1 \<le> count \<Longrightarrow> count \<le> last_count \<Longrightarrow> rename_with_suffix nfc name (attempt_suffix count) = Some new \<Longrightarrow>
    \<exists>n c. conflict_loop nfc name FILENAME_CONFLICT_SUFFIX is_reserved count new = Some n \<and> \<not> is_reserved n \<and>
      c \<le> last_count \<and> rename_with_suffix nfc name (attempt_suffix c) = Some n"
proof (induction "last_count - count" arbitrary: count new)
  case 0
  then have "\<not> is_reserved new" using free(2) by simp
  then show ?case using 0 by (auto simp: conflict_loop.simps [of nfc name _ is_reserved count new])
next
  case (Suc d)
  show ?case
  proof (cases "is_reserved new")
    case False
    then show ?thesis using Suc by (auto simp: conflict_loop.simps [of nfc name _ is_reserved count new])
  next
    case True
    have suffix: "attempt_suffix (count + 1) = FILENAME_CONFLICT_SUFFIX @ '' '' @ string_of_nat (count + 1)"
      using Suc.prems(1) by (simp add: attempt_suffix_def)
    have "count + 1 < 10 ^ 9" using Suc free(1) by linarith
    from rename_with_suffix_valid [OF assms(1,2) attempt_suffix_short [OF this]] obtain m where
      m: "rename_with_suffix nfc name (attempt_suffix (count + 1)) = Some m" by auto
    have "conflict_loop nfc name FILENAME_CONFLICT_SUFFIX is_reserved count new =
        conflict_loop nfc name FILENAME_CONFLICT_SUFFIX is_reserved (count + 1) m"
      using True m suffix by (simp add: conflict_loop.simps [of nfc name _ is_reserved count new])
    with Suc.hyps(1) [of "count + 1" m] Suc.hyps(2) m show ?thesis by simp
  qed
qed

lemma get_conflict_filename_returns:
  assumes "ascii_fixed nfc" "plain_text name" "finite R" "card R < 10 ^ 8"
  shows "\<exists>n. get_conflict_filename nfc name FILENAME_CONFLICT_SUFFIX (\<lambda>x. x \<in> R) = Some n \<and> n \<notin> R \<and> valid_name nfc n"
proof -
  obtain c where c: "c < 10 ^ 9" "1 \<le> c"
    "\<And>n. rename_with_suffix nfc name (attempt_suffix c) = Some n \<Longrightarrow> n \<notin> R"
    using free_attempt [OF assms] by blast
  have first: "attempt_suffix 1 = FILENAME_CONFLICT_SUFFIX" by (simp add: attempt_suffix_def)
  have valid: "\<exists>n. rename_with_suffix nfc name (attempt_suffix k) = Some n \<and> valid_name nfc n" if "k < 10 ^ 9" for k
    using rename_with_suffix_valid [OF assms(1,2) attempt_suffix_short [OF that]] by auto
  obtain new where new: "rename_with_suffix nfc name (attempt_suffix 1) = Some new" using valid [of 1] by auto
  from conflict_loop_returns [OF assms(1,2) c(1), of "\<lambda>x. x \<in> R", OF c(3) _ c(2) new] obtain n k where
    n: "conflict_loop nfc name FILENAME_CONFLICT_SUFFIX (\<lambda>x. x \<in> R) 1 new = Some n" "n \<notin> R" "k \<le> c"
      "rename_with_suffix nfc name (attempt_suffix k) = Some n" by auto
  moreover have "valid_name nfc n" using valid [of k] n(3,4) c(1) by auto
  ultimately show ?thesis using new [unfolded first] by (auto simp: get_conflict_filename_def)
qed

end
