(* ===== verification/Manifest_Merge.thy ===== *)
theory Manifest_Merge
  imports Folder_Confinement Conflict_Name
begin

text \<open>
  Merging a local manifest with a newer remote one (\<^verbatim>\<open>client/src/workspace/merge.rs\<close>,
  \<^verbatim>\<open>client/src/user/merge.rs\<close>).

  The value \<^const>\<open>None\<close> is a call that does not return. The sanity checks by \<^verbatim>\<open>debug_assert\<close> are compiled out
  of a release build and are not modelled; the one by \<^verbatim>\<open>assert\<close> is.
\<close>

subsection \<open>Files\<close>

datatype merge_local_file_manifest_outcome =
    FileNoChange
  | FileMerged local_file_manifest
  | FileConflict file_manifest

text \<open>The loop on the areas, with the iterator on the remote blocks as its state.\<close>

fun areas_changed :: "block_access list \<Rightarrow> chunk_view list list \<Rightarrow> bool" where
  "areas_changed remote_blocks [] = False"
| "areas_changed remote_blocks ([] # areas) = areas_changed remote_blocks areas"
| "areas_changed remote_blocks ([view] # areas) =
     (case cv_get_block_access view of
        Inl _ \<Rightarrow> True
      | Inr local_block_access \<Rightarrow>
          (case remote_blocks of
             [] \<Rightarrow> True
           | remote_block_access # remote_blocks \<Rightarrow>
               if local_block_access \<noteq> remote_block_access then True else areas_changed remote_blocks areas))"
| "areas_changed remote_blocks ((_ # _ # _) # areas) = True"

definition has_file_content_changed_in_local ::
  "u64 \<Rightarrow> blocksize \<Rightarrow> block_access list \<Rightarrow> u64 \<Rightarrow> blocksize \<Rightarrow> chunk_view list list \<Rightarrow> bool" where
  "has_file_content_changed_in_local base_size base_blocksize base_blocks local_size local_blocksize local_blocks =
     (if base_size \<noteq> local_size \<or> base_blocksize \<noteq> local_blocksize then True
      else areas_changed base_blocks local_blocks)"

definition merge_parent :: "vlob_id \<Rightarrow> vlob_id \<Rightarrow> vlob_id \<Rightarrow> vlob_id" where
  "merge_parent base local remote =
     (case (local \<noteq> base, remote \<noteq> base) of
        (False, False) \<Rightarrow> base
      | (True, False) \<Rightarrow> local
      | (False, True) \<Rightarrow> remote
      | (True, True) \<Rightarrow> remote)"

definition merge_local_file_manifest ::
  "device_id \<Rightarrow> date_time \<Rightarrow> local_file_manifest \<Rightarrow> file_manifest \<Rightarrow> merge_local_file_manifest_outcome option" where
  "merge_local_file_manifest local_author timestamp local remote =
     (if fm_version remote \<le> fm_version (lf_base local) then Some FileNoChange
      else if \<not> lf_need_sync local then map_option FileMerged (lf_from_remote remote)
      else if fm_author remote = local_author then Some (FileMerged (local\<lparr>lf_base := remote\<rparr>))
      else
        let local_content_changed = has_file_content_changed_in_local (fm_size (lf_base local)) (fm_blocksize (lf_base local))
              (fm_blocks (lf_base local)) (lf_size local) (lf_blocksize local) (lf_blocks local);
            remote_content_changed = (fm_size remote \<noteq> fm_size (lf_base local)
              \<or> fm_blocksize remote \<noteq> fm_blocksize (lf_base local) \<or> fm_blocks remote \<noteq> fm_blocks (lf_base local))
        in if local_content_changed \<and> remote_content_changed then Some (FileConflict remote)
           else Option.bind (lf_from_remote remote) (\<lambda>merge_in_progress.
             let merge_in_progress =
                   (if local_content_changed
                    then merge_in_progress\<lparr>lf_size := lf_size local, lf_blocksize := lf_blocksize local, lf_blocks := lf_blocks local\<rparr>
                    else merge_in_progress);
                 merge_in_progress = merge_in_progress\<lparr>lf_parent :=
                   merge_parent (fm_parent (lf_base local)) (lf_parent local) (fm_parent remote)\<rparr>;
                 local_need_sync = (local_content_changed \<or> lf_parent merge_in_progress \<noteq> fm_parent remote)
             in Some (FileMerged
                  (if local_need_sync then merge_in_progress\<lparr>lf_updated := timestamp, lf_need_sync := True\<rparr>
                   else merge_in_progress))))"

subsection \<open>Folders\<close>

datatype merge_local_folder_manifest_outcome = FolderNoChange | FolderMerged local_folder_manifest

text \<open>
  One id of \<^verbatim>\<open>merge_children\<close>: where its name comes from. The state is the pair of the local and of the remote
  solved children.
\<close>

definition solve_child ::
  "entry_name option \<Rightarrow> entry_name option \<Rightarrow> entry_name option \<Rightarrow> vlob_id \<Rightarrow>
   (entry_name, vlob_id) hashmap \<times> (entry_name, vlob_id) hashmap \<Rightarrow>
   (entry_name, vlob_id) hashmap \<times> (entry_name, vlob_id) hashmap" where
  "solve_child base_name local_name remote_name i st =
     (let (solved_local, solved_remote) = st in
      case (local_name, remote_name) of
        (None, None) \<Rightarrow> (solved_local, solved_remote)
      | (Some local_name, Some remote_name) \<Rightarrow>
          if local_name = remote_name then (solved_local, hm_insert remote_name i solved_remote)
          else if base_name = Some remote_name then (hm_insert local_name i solved_local, solved_remote)
          else (solved_local, hm_insert remote_name i solved_remote)
      | (Some local_name, None) \<Rightarrow>
          (case base_name of
             None \<Rightarrow> (hm_insert local_name i solved_local, solved_remote)
           | Some base_name \<Rightarrow>
               if base_name \<noteq> local_name then (solved_local, hm_insert local_name i solved_remote)
               else (solved_local, solved_remote))
      | (None, Some remote_name) \<Rightarrow>
          (case base_name of
             None \<Rightarrow> (solved_local, hm_insert remote_name i solved_remote)
           | Some base_name \<Rightarrow>
               if base_name \<noteq> remote_name then (solved_local, hm_insert remote_name i solved_remote)
               else (solved_local, solved_remote)))"

fun merge_names ::
  "(string \<Rightarrow> string) \<Rightarrow> (entry_name, vlob_id) hashmap \<Rightarrow> (entry_name, vlob_id) hashmap \<Rightarrow>
   (entry_name, vlob_id) hashmap option" where
  "merge_names nfc [] children = Some children"
| "merge_names nfc ((entry_name, entry_id) # solved_local) children =
     Option.bind (if hm_contains_key children entry_name
                  then get_conflict_filename nfc entry_name FILENAME_CONFLICT_SUFFIX (hm_contains_key children)
                  else Some entry_name)
       (\<lambda>entry_name. merge_names nfc solved_local (hm_insert entry_name entry_id children))"

definition merge_children ::
  "hash_iter \<Rightarrow> (string \<Rightarrow> string) \<Rightarrow> (entry_name, vlob_id) hashmap \<Rightarrow> (entry_name, vlob_id) hashmap \<Rightarrow>
   (entry_name, vlob_id) hashmap \<Rightarrow> (entry_name, vlob_id) hashmap option" where
  "merge_children h nfc base local remote =
     (let base_reversed = hm_reversed (hi_children h base);
          local_reversed = hm_reversed (hi_children h local);
          remote_reversed = hm_reversed (hi_children h remote);
          ids = hi_ids h (remdups (map fst local_reversed @ map fst remote_reversed));
          (solved_local, solved_remote) =
            fold (\<lambda>i. solve_child (hm_get base_reversed i) (hm_get local_reversed i) (hm_get remote_reversed i) i) ids ([], [])
      in merge_names nfc (hi_children h solved_local) solved_remote)"

definition merge_local_folder_manifest ::
  "hash_iter \<Rightarrow> (string \<Rightarrow> string) \<Rightarrow> device_id \<Rightarrow> date_time \<Rightarrow> prevent_sync_pattern \<Rightarrow> local_folder_manifest \<Rightarrow>
   folder_manifest \<Rightarrow> merge_local_folder_manifest_outcome option" where
  "merge_local_folder_manifest h nfc local_author timestamp pattern local remote =
     (if fo_version remote \<le> fo_version (ld_base local) then Some FolderNoChange
      else
        let unconfined_local = remove_confinement h local;
            unconfined_remote = uf_from_remote remote
        in if \<not> uf_need_sync unconfined_local
           then map_option FolderMerged (apply_confinement h unconfined_remote local pattern timestamp)
           else if fo_author (uf_base unconfined_remote) = local_author \<and> \<not> ld_speculative local
           then map_option FolderMerged
                  (apply_confinement h (unconfined_local\<lparr>uf_base := uf_base unconfined_remote\<rparr>) local pattern timestamp)
           else Option.bind (merge_children h nfc (fo_children (uf_base unconfined_local)) (uf_children unconfined_local)
                  (uf_children unconfined_remote)) (\<lambda>merged_children.
             let merged_parent = merge_parent (fo_parent (uf_base unconfined_local)) (uf_parent unconfined_local)
                   (uf_parent unconfined_remote);
                 merged_need_sync = (\<not> hm_eq merged_children (uf_children unconfined_remote)
                   \<or> merged_parent \<noteq> uf_parent unconfined_remote);
                 merged_updated = (if merged_need_sync then timestamp else uf_updated unconfined_remote);
                 unconfined_remote = unconfined_remote\<lparr>uf_children := merged_children, uf_parent := merged_parent,
                   uf_need_sync := merged_need_sync, uf_updated := merged_updated\<rparr>
             in map_option FolderMerged (apply_confinement h unconfined_remote local pattern timestamp)))"

subsection \<open>The user manifest\<close>

definition merge_local_user_manifests :: "local_user_manifest \<Rightarrow> user_manifest \<Rightarrow> local_user_manifest option option" where
  "merge_local_user_manifests local remote =
     (if um_id (lu_base local) \<noteq> um_id remote then None
      else if um_version remote \<le> um_version (lu_base local) then Some None
      else
        let need_sync = False;
            updated = (if \<not> need_sync then um_updated remote else max (um_updated remote) (lu_updated local))
        in Some (Some \<lparr>lu_base = remote, lu_need_sync = need_sync, lu_updated = updated,
             lu_local_workspaces = lu_local_workspaces local, lu_speculative = False\<rparr>))"

end
