(* ===== verification/Folder_Merge.thy ===== *)
theory Folder_Merge
  imports Manifest_Merge
begin

text \<open>
  What the three-way merge of the children of a folder does, for every order in which the hash maps are
  visited: which ids it keeps, under which names, and that it returns.
\<close>

subsection \<open>Solving one id\<close>

definition remote_side :: "entry_name option \<Rightarrow> entry_name option \<Rightarrow> entry_name option \<Rightarrow> entry_name option" where
  "remote_side b l r = (case (l, r) of
     (None, None) \<Rightarrow> None
   | (Some l, Some r) \<Rightarrow> if l \<noteq> r \<and> b = Some r then None else Some r
   | (Some l, None) \<Rightarrow> if b = None \<or> b = Some l then None else Some l
   | (None, Some r) \<Rightarrow> if b = Some r then None else Some r)"

definition local_side :: "entry_name option \<Rightarrow> entry_name option \<Rightarrow> entry_name option \<Rightarrow> entry_name option" where
  "local_side b l r = (case (l, r) of
     (Some l, Some r) \<Rightarrow> if l \<noteq> r \<and> b = Some r then Some l else None
   | (Some l, None) \<Rightarrow> if b = None then Some l else None
   | _ \<Rightarrow> None)"

definition add_name :: "entry_name option \<Rightarrow> vlob_id \<Rightarrow> (entry_name, vlob_id) hashmap \<Rightarrow> (entry_name, vlob_id) hashmap" where
  "add_name name i m = (case name of Some n \<Rightarrow> hm_insert n i m | None \<Rightarrow> m)"

lemma solve_child_sides:
  "solve_child b l r i (sl, sr) = (add_name (local_side b l r) i sl, add_name (remote_side b l r) i sr)"
  by (auto simp: solve_child_def local_side_def remote_side_def add_name_def split: option.split)

lemma solve_children_sides:
  "fold (\<lambda>i. solve_child (b i) (l i) (r i) i) ids (sl, sr) =
     (fold (\<lambda>i. add_name (local_side (b i) (l i) (r i)) i) ids sl, fold (\<lambda>i. add_name (remote_side (b i) (l i) (r i)) i) ids sr)"
  by (induction ids arbitrary: sl sr) (simp_all add: solve_child_sides)

lemma add_names_wf: "hm_wf m \<Longrightarrow> hm_wf (fold (\<lambda>i. add_name (f i) i) ids m)"
  by (induction ids arbitrary: m) (auto simp: add_name_def split: option.split)

lemma add_name_get: "hm_get (add_name name j m) n = (if name = Some n then Some j else hm_get m n)"
  by (auto simp: add_name_def hm_simps split: option.split)

lemma add_names_Some:
  "hm_get (fold (\<lambda>i. add_name (f i) i) ids m) n = Some i \<Longrightarrow> i \<in> set ids \<and> f i = Some n \<or> hm_get m n = Some i"
proof (induction ids arbitrary: m)
  case (Cons j ids)
  have "i \<in> set ids \<and> f i = Some n \<or> hm_get (add_name (f j) j m) n = Some i" using Cons by simp
  then show ?case by (auto simp: add_name_get split: if_split_asm)
qed simp

lemma add_names_get:
  "(\<And>j. j \<in> set ids \<Longrightarrow> f j = Some n \<Longrightarrow> j = i) \<Longrightarrow> i \<in> set ids \<and> f i = Some n \<or> hm_get m n = Some i \<Longrightarrow>
     hm_get (fold (\<lambda>i. add_name (f i) i) ids m) n = Some i"
proof (induction ids arbitrary: m)
  case (Cons j ids)
  have "i \<in> set ids \<and> f i = Some n \<or> hm_get (add_name (f j) j m) n = Some i"
    using Cons.prems(1) [of j] Cons.prems(2) by (auto simp: add_name_get)
  with Cons.IH [of "add_name (f j) j m"] Cons.prems(1) show ?case by simp
qed simp

lemma add_names_length: "length (fold (\<lambda>i. add_name (f i) i) ids m) \<le> length m + length ids"
proof (induction ids arbitrary: m)
  case (Cons j ids)
  have "length (hm_insert n j m) \<le> Suc (length m)" for n by (induction m) auto
  then have "length (add_name (f j) j m) \<le> Suc (length m)" by (auto simp: add_name_def split: option.split)
  with Cons [of "add_name (f j) j m"] show ?case by simp
qed simp

subsection \<open>Naming the local children\<close>

lemma conflict_name_free:
  assumes "ascii_fixed nfc" "plain_text n" "hm_wf c" "length c < 10 ^ 8"
  obtains n' where "get_conflict_filename nfc n FILENAME_CONFLICT_SUFFIX (hm_contains_key c) = Some n'" "hm_get c n' = None"
proof -
  have "hm_contains_key c = (\<lambda>x. x \<in> fst ` set c)"
    by (auto simp: hm_contains_key_def fun_eq_iff map_of_eq_None_iff)
  moreover have "card (fst ` set c) < 10 ^ 8" using assms(4) card_image_le [of "set c" fst] card_length [of c] by (simp add: le_less_trans [OF order_trans])
  ultimately show thesis
    using get_conflict_filename_returns [OF assms(1,2), of "fst ` set c"] that by (auto simp: map_of_eq_None_iff)
qed

lemma length_insert_new: "hm_get m k = None \<Longrightarrow> length (hm_insert k v m) = Suc (length m)"
  by (induction m) (auto split: if_split_asm)

lemma merge_names_spec:
  assumes nfc: "ascii_fixed nfc"
  shows "hm_wf c \<Longrightarrow> unique_ids c \<Longrightarrow> (\<And>n i. (n, i) \<in> set xs \<Longrightarrow> plain_text n) \<Longrightarrow> distinct (map snd xs) \<Longrightarrow>
    (\<And>n i. (n, i) \<in> set xs \<Longrightarrow> i \<notin> snd ` set c) \<Longrightarrow> length c + length xs < 10 ^ 8 \<Longrightarrow>
    \<exists>c'. merge_names nfc xs c = Some c' \<and> children_ok c' \<and> hm_get c \<subseteq>\<^sub>m hm_get c' \<and>
      (\<forall>i. (\<exists>n. hm_get c' n = Some i) \<longleftrightarrow> (\<exists>n. hm_get c n = Some i) \<or> i \<in> snd ` set xs)"
proof (induction xs arbitrary: c)
  case Nil
  then show ?case by (simp add: children_ok_def)
next
  case (Cons x xs)
  obtain n i where x: "x = (n, i)" by (cases x)
  have "plain_text n" using Cons.prems(3) [of n i] x by simp
  obtain n' where n': "(if hm_contains_key c n
      then get_conflict_filename nfc n FILENAME_CONFLICT_SUFFIX (hm_contains_key c) else Some n) = Some n'" "hm_get c n' = None"
  proof (cases "hm_contains_key c n")
    case True
    have "length c < 10 ^ 8" using Cons.prems(6) by simp
    from conflict_name_free [OF nfc \<open>plain_text n\<close> Cons.prems(1) this] that True show thesis by metis
  next
    case False
    then show thesis using that [of n] by (simp add: hm_contains_key_def)
  qed
  let ?c = "hm_insert n' i c"
  have step: "merge_names nfc (x # xs) c = merge_names nfc xs ?c" by (simp add: x n'(1))
  have new: "hm_get c k \<noteq> Some i" for k using Cons.prems(5) [of n i] x hm_ids [OF Cons.prems(1), of i] by auto
  have get: "hm_get ?c k = Some j \<longleftrightarrow> k = n' \<and> j = i \<or> hm_get c k = Some j" for k j using n'(2) by (auto simp: hm_simps)
  have wf: "hm_wf ?c" using Cons.prems(1) by simp
  have "\<exists>c'. merge_names nfc xs ?c = Some c' \<and> children_ok c' \<and> hm_get ?c \<subseteq>\<^sub>m hm_get c' \<and>
      (\<forall>j. (\<exists>k. hm_get c' k = Some j) \<longleftrightarrow> (\<exists>k. hm_get ?c k = Some j) \<or> j \<in> snd ` set xs)"
  proof (rule Cons.IH [OF wf])
    show "unique_ids ?c" using Cons.prems(2) new unfolding unique_ids_def get by blast
    show "plain_text k" if "(k, j) \<in> set xs" for k j using Cons.prems(3) [of k j] that by simp
    show "distinct (map snd xs)" using Cons.prems(4) by simp
    show "j \<notin> snd ` set ?c" if "(k, j) \<in> set xs" for k j
    proof -
      have "j \<noteq> i" using Cons.prems(4) that x by (force simp: image_iff)
      moreover have "j \<notin> snd ` set c" using Cons.prems(5) [of k j] that by simp
      ultimately show ?thesis using hm_ids [OF wf, of j] hm_ids [OF Cons.prems(1), of j] unfolding get by blast
    qed
    show "length ?c + length xs < 10 ^ 8" using Cons.prems(6) length_insert_new [OF n'(2)] by simp
  qed
  then obtain c' where c': "merge_names nfc xs ?c = Some c'" "children_ok c'" "hm_get ?c \<subseteq>\<^sub>m hm_get c'"
    "\<And>j. (\<exists>k. hm_get c' k = Some j) \<longleftrightarrow> (\<exists>k. hm_get ?c k = Some j) \<or> j \<in> snd ` set xs" by blast
  have "hm_get c \<subseteq>\<^sub>m hm_get ?c" using get by (auto simp: map_le_def dom_def) metis
  then have "hm_get c \<subseteq>\<^sub>m hm_get c'" using c'(3) map_le_trans by blast
  moreover have "(\<exists>k. hm_get c' k = Some j) \<longleftrightarrow> (\<exists>k. hm_get c k = Some j) \<or> j \<in> snd ` set (x # xs)" for j
    unfolding c'(4) get using x by auto
  ultimately show ?case using c'(1,2) step by auto
qed

text \<open>Without a conflict the local children are added as they are.\<close>

lemma merge_names_free:
  "distinct (map fst xs) \<Longrightarrow> (\<And>n i. (n, i) \<in> set xs \<Longrightarrow> hm_get c n = None) \<Longrightarrow>
     \<exists>c'. merge_names nfc xs c = Some c' \<and> hm_get c' = hm_get c ++ hm_get xs"
proof (induction xs arbitrary: c)
  case (Cons x xs)
  obtain n i where x: "x = (n, i)" by (cases x)
  have free: "hm_get c n = None" using Cons.prems(2) [of n i] x by simp
  have "\<exists>c'. merge_names nfc xs (hm_insert n i c) = Some c' \<and> hm_get c' = hm_get (hm_insert n i c) ++ hm_get xs"
  proof (rule Cons.IH)
    show "hm_get (hm_insert n i c) k = None" if "(k, j) \<in> set xs" for k j
      using Cons.prems(1) Cons.prems(2) [of k j] that x by (force simp: hm_simps image_iff)
  qed (use Cons.prems(1) in simp)
  moreover have "hm_get xs n = None" using Cons.prems(1) x by (simp add: map_of_eq_None_iff)
  ultimately show ?case using x free by (auto simp: hm_simps hm_contains_key_def map_add_def fun_eq_iff split: option.split)
qed simp

subsection \<open>The three-way merge of children\<close>

text \<open>The names of an id in the three versions, and the ids that the merge visits.\<close>

definition name_in :: "hash_iter \<Rightarrow> (entry_name, vlob_id) hashmap \<Rightarrow> vlob_id \<Rightarrow> entry_name option" where
  "name_in h m i = hm_get (hm_reversed (hi_children h m)) i"

definition merge_ids :: "hash_iter \<Rightarrow> (entry_name, vlob_id) hashmap \<Rightarrow> (entry_name, vlob_id) hashmap \<Rightarrow> vlob_id list" where
  "merge_ids h local remote =
     hi_ids h (remdups (map fst (hm_reversed (hi_children h local)) @ map fst (hm_reversed (hi_children h remote))))"

lemma name_in_Some: "hash_iter_ok h \<Longrightarrow> children_ok m \<Longrightarrow> name_in h m i = Some n \<longleftrightarrow> hm_get m n = Some i"
  using hm_reversed_get [OF children_ok_permuted] hash_iter_children(1) [of h m] by (simp add: name_in_def children_ok_def)

lemma name_in_None: "hash_iter_ok h \<Longrightarrow> children_ok m \<Longrightarrow> name_in h m i = None \<longleftrightarrow> (\<forall>n. hm_get m n \<noteq> Some i)"
  using name_in_Some by (metis not_None_eq)

lemma length_reversed:
  fixes m :: "('a \<times> 'b) list"
  shows "length (hm_reversed m) \<le> length m"
proof -
  have insert: "length (hm_insert k v acc) \<le> Suc (length acc)" for k v and acc :: "('b \<times> 'a) list" by (induction acc) auto
  have "length (fold (\<lambda>(k, v). hm_insert v k) m acc) \<le> length acc + length m" for acc :: "('b \<times> 'a) list"
  proof (induction m arbitrary: acc)
    case (Cons x m)
    obtain k v where x: "x = (k, v)" by (cases x)
    from Cons [of "hm_insert v k acc"] insert [of v k acc] x show ?case by simp
  qed simp
  from this [of "[]"] show ?thesis by (simp add: hm_reversed_def)
qed

lemma merge_ids_facts:
  assumes h: "hash_iter_ok h"
  shows "distinct (merge_ids h local remote)"
    and "set (merge_ids h local remote) = {i. name_in h local i \<noteq> None \<or> name_in h remote i \<noteq> None}"
    and "length (merge_ids h local remote) \<le> length local + length remote"
proof -
  let ?ids = "remdups (map fst (hm_reversed (hi_children h local)) @ map fst (hm_reversed (hi_children h remote)))"
  have m: "mset (merge_ids h local remote) = mset ?ids" using h by (simp add: merge_ids_def hash_iter_ok_def)
  have "distinct ?ids" by (rule distinct_remdups)
  then show "distinct (merge_ids h local remote)" using m mset_eq_imp_distinct_iff by blast
  show "set (merge_ids h local remote) = {i. name_in h local i \<noteq> None \<or> name_in h remote i \<noteq> None}"
    unfolding mset_eq_setD [OF m] by (auto simp: name_in_def map_of_eq_None_iff)
  have "length ?ids \<le> length (hi_children h local) + length (hi_children h remote)"
    using length_remdups_leq [of "map fst (hm_reversed (hi_children h local)) @ map fst (hm_reversed (hi_children h remote))"]
      length_reversed [of "hi_children h local"] length_reversed [of "hi_children h remote"] by simp
  moreover have "length (hi_children h x) = length x" for x using h by (metis hash_iter_ok_def size_mset)
  ultimately show "length (merge_ids h local remote) \<le> length local + length remote"
    using m by (metis size_mset)
qed

definition solved_local :: "hash_iter \<Rightarrow> (entry_name, vlob_id) hashmap \<Rightarrow> (entry_name, vlob_id) hashmap \<Rightarrow> (entry_name, vlob_id) hashmap \<Rightarrow> (entry_name, vlob_id) hashmap" where
  "solved_local h base local remote =
     fold (\<lambda>i. add_name (local_side (name_in h base i) (name_in h local i) (name_in h remote i)) i) (merge_ids h local remote) []"

definition solved_remote :: "hash_iter \<Rightarrow> (entry_name, vlob_id) hashmap \<Rightarrow> (entry_name, vlob_id) hashmap \<Rightarrow> (entry_name, vlob_id) hashmap \<Rightarrow> (entry_name, vlob_id) hashmap" where
  "solved_remote h base local remote =
     fold (\<lambda>i. add_name (remote_side (name_in h base i) (name_in h local i) (name_in h remote i)) i) (merge_ids h local remote) []"

lemma merge_children_solved:
  "merge_children h nfc base local remote =
     merge_names nfc (hi_children h (solved_local h base local remote)) (solved_remote h base local remote)"
  by (simp add: merge_children_def Let_def solve_children_sides name_in_def [symmetric] merge_ids_def [symmetric]
    solved_local_def solved_remote_def)

text \<open>
  The one case where two ids are solved to the same name: an entry removed remotely and renamed locally to a
  name that another remote entry has.
\<close>

definition rename_collision ::
  "(entry_name, vlob_id) hashmap \<Rightarrow> (entry_name, vlob_id) hashmap \<Rightarrow> (entry_name, vlob_id) hashmap \<Rightarrow> bool" where
  "rename_collision base local remote \<longleftrightarrow>
     (\<exists>n i b. hm_get local n = Some i \<and> (\<forall>k. hm_get remote k \<noteq> Some i) \<and> hm_get base b = Some i \<and> b \<noteq> n \<and>
        hm_get remote n \<noteq> None)"

lemma sides_exclusive: "local_side b l r = Some n \<Longrightarrow> remote_side b l r = None"
  by (auto simp: local_side_def remote_side_def split: option.split_asm if_split_asm)

lemma local_side_name: "local_side b l r = Some n \<Longrightarrow> l = Some n"
  by (auto simp: local_side_def split: option.split_asm if_split_asm)

lemma remote_side_name: "remote_side b l r = Some n \<Longrightarrow> r = Some n \<or> l = Some n \<and> r = None \<and> b \<noteq> None \<and> b \<noteq> Some n"
  by (auto simp: remote_side_def split: option.split_asm if_split_asm)

lemma side_visited:
  "local_side b l r = Some n \<or> remote_side b l r = Some n \<Longrightarrow> l \<noteq> None \<or> r \<noteq> None"
  by (auto simp: local_side_def remote_side_def split: option.split_asm if_split_asm)

lemma solved_iff:
  assumes h: "hash_iter_ok h" and unique: "\<And>j i. f j = Some n \<Longrightarrow> f i = Some n \<Longrightarrow> j = i"
    and visited: "\<And>i. f i = Some n \<Longrightarrow> name_in h local i \<noteq> None \<or> name_in h remote i \<noteq> None"
  shows "hm_get (fold (\<lambda>i. add_name (f i) i) (merge_ids h local remote) []) n = Some i \<longleftrightarrow> f i = Some n"
proof
  assume "hm_get (fold (\<lambda>i. add_name (f i) i) (merge_ids h local remote) []) n = Some i"
  from add_names_Some [OF this] show "f i = Some n" by simp
next
  assume i: "f i = Some n"
  then have "i \<in> set (merge_ids h local remote)" unfolding merge_ids_facts(2) [OF h] using visited by blast
  with i show "hm_get (fold (\<lambda>i. add_name (f i) i) (merge_ids h local remote) []) n = Some i"
    by (intro add_names_get unique) simp_all
qed

lemma solved_local_get:
  assumes h: "hash_iter_ok h" and ok: "children_ok local"
  shows "hm_wf (solved_local h base local remote)"
    and "hm_get (solved_local h base local remote) n = Some i \<longleftrightarrow>
      local_side (name_in h base i) (name_in h local i) (name_in h remote i) = Some n"
proof -
  show "hm_wf (solved_local h base local remote)" unfolding solved_local_def by (rule add_names_wf) simp
  let ?f = "\<lambda>i. local_side (name_in h base i) (name_in h local i) (name_in h remote i)"
  have "j = i" if "?f j = Some n" "?f i = Some n" for j i
    using local_side_name [OF that(1)] local_side_name [OF that(2)] name_in_Some [OF h ok] by (metis option.inject)
  note unique = this
  have visited: "name_in h local i \<noteq> None \<or> name_in h remote i \<noteq> None" if "?f i = Some n" for i
    by (rule side_visited [of "name_in h base i" _ _ n]) (use that in simp)
  show "hm_get (solved_local h base local remote) n = Some i \<longleftrightarrow> ?f i = Some n"
    unfolding solved_local_def by (rule solved_iff [OF h, where f = ?f]) (fact unique, fact visited)
qed

lemma solved_remote_get:
  assumes h: "hash_iter_ok h" and ok: "children_ok base" "children_ok local" "children_ok remote"
    and collision: "\<not> rename_collision base local remote"
  shows "hm_wf (solved_remote h base local remote)"
    and "hm_get (solved_remote h base local remote) n = Some i \<longleftrightarrow>
      remote_side (name_in h base i) (name_in h local i) (name_in h remote i) = Some n"
proof -
  show "hm_wf (solved_remote h base local remote)" unfolding solved_remote_def by (rule add_names_wf) simp
  let ?f = "\<lambda>i. remote_side (name_in h base i) (name_in h local i) (name_in h remote i)"
  note name = name_in_Some [OF h ok(1)] name_in_Some [OF h ok(2)] name_in_Some [OF h ok(3)] name_in_None [OF h ok(3)]
  have name_of: "hm_get remote n = Some i \<or> hm_get local n = Some i \<and> (\<forall>k. hm_get remote k \<noteq> Some i) \<and> (\<exists>b. hm_get base b = Some i \<and> b \<noteq> n)"
    if "?f i = Some n" for i
    using remote_side_name [OF that] unfolding name by (metis name(1) not_None_eq option.inject)
  have "j = i" if "?f j = Some n" "?f i = Some n" for j i
    using name_of [OF that(1)] name_of [OF that(2)] collision unfolding rename_collision_def by (metis option.distinct(1) option.inject)
  note unique = this
  have visited: "name_in h local i \<noteq> None \<or> name_in h remote i \<noteq> None" if "?f i = Some n" for i
    by (rule side_visited [of "name_in h base i" _ _ n]) (use that in simp)
  show "hm_get (solved_remote h base local remote) n = Some i \<longleftrightarrow> ?f i = Some n"
    unfolding solved_remote_def by (rule solved_iff [OF h, where f = ?f]) (fact unique, fact visited)
qed

definition kept_by_merge ::
  "(entry_name, vlob_id) hashmap \<Rightarrow> (entry_name, vlob_id) hashmap \<Rightarrow> (entry_name, vlob_id) hashmap \<Rightarrow> vlob_id \<Rightarrow> bool" where
  "kept_by_merge base local remote i \<longleftrightarrow>
     (let in_local = (\<exists>n. hm_get local n = Some i); in_remote = (\<exists>n. hm_get remote n = Some i) in
      in_local \<and> in_remote \<or>
      in_local \<and> \<not> in_remote \<and> \<not> (\<exists>n. hm_get base n = Some i \<and> hm_get local n = Some i) \<or>
      in_remote \<and> \<not> in_local \<and> \<not> (\<exists>n. hm_get base n = Some i \<and> hm_get remote n = Some i))"

lemma kept_sides:
  assumes h: "hash_iter_ok h" and ok: "children_ok base" "children_ok local" "children_ok remote"
  shows "kept_by_merge base local remote i \<longleftrightarrow>
    (\<exists>n. remote_side (name_in h base i) (name_in h local i) (name_in h remote i) = Some n) \<or>
    (\<exists>n. local_side (name_in h base i) (name_in h local i) (name_in h remote i) = Some n)"
proof -
  note name = name_in_Some [OF h ok(1), symmetric] name_in_Some [OF h ok(2), symmetric] name_in_Some [OF h ok(3), symmetric]
  show ?thesis unfolding kept_by_merge_def name Let_def
    by (cases "name_in h base i"; cases "name_in h local i"; cases "name_in h remote i")
      (auto simp: remote_side_def local_side_def)
qed

lemma merge_children_three_way:
  assumes h: "hash_iter_ok h" and nfc: "ascii_fixed nfc"
    and ok: "children_ok base" "children_ok local" "children_ok remote"
    and collision: "\<not> rename_collision base local remote"
    and plain: "\<And>n i. hm_get local n = Some i \<Longrightarrow> plain_text n" and size: "length local + length remote < 5 * 10 ^ 7"
  shows "\<exists>m. merge_children h nfc base local remote = Some m \<and> children_ok m \<and>
    (\<forall>i. (\<exists>n. hm_get m n = Some i) \<longleftrightarrow> kept_by_merge base local remote i) \<and>
    (\<forall>n i. hm_get remote n = Some i \<and> kept_by_merge base local remote i \<and>
       \<not> (hm_get base n = Some i \<and> (\<exists>k. hm_get local k = Some i \<and> k \<noteq> n)) \<longrightarrow> hm_get m n = Some i)"
proof -
  let ?l = "solved_local h base local remote" and ?r = "solved_remote h base local remote"
  let ?ls = "\<lambda>i. local_side (name_in h base i) (name_in h local i) (name_in h remote i)"
  let ?rs = "\<lambda>i. remote_side (name_in h base i) (name_in h local i) (name_in h remote i)"
  note l = solved_local_get [OF h ok(2), of base remote] and r = solved_remote_get [OF h ok collision]
  note xs = hash_iter_children [OF h l(1)]
  have in_xs: "(n, i) \<in> set (hi_children h ?l) \<longleftrightarrow> ?ls i = Some n" for n i
    using hm_in_set [OF xs(2)] unfolding xs(1) l(2) .
  have short: "length ?l \<le> length local + length remote" "length ?r \<le> length local + length remote"
    using add_names_length [of _ "merge_ids h local remote" "[]"] merge_ids_facts(3) [OF h, of local remote] order_trans
    unfolding solved_local_def solved_remote_def by fastforce+
  have "\<exists>m. merge_names nfc (hi_children h ?l) ?r = Some m \<and> children_ok m \<and> hm_get ?r \<subseteq>\<^sub>m hm_get m \<and>
      (\<forall>i. (\<exists>n. hm_get m n = Some i) \<longleftrightarrow> (\<exists>n. hm_get ?r n = Some i) \<or> i \<in> snd ` set (hi_children h ?l))"
  proof (rule merge_names_spec [OF nfc r(1)])
    show "unique_ids ?r" unfolding unique_ids_def r(2) by auto
    show "plain_text n" if "(n, i) \<in> set (hi_children h ?l)" for n i
      using that local_side_name plain name_in_Some [OF h ok(2)] unfolding in_xs by blast
    have "unique_ids (hi_children h ?l)" unfolding unique_ids_def xs(1) l(2) by auto
    then show "distinct (map snd (hi_children h ?l))" using distinct_ids xs(2) by blast
    show "i \<notin> snd ` set ?r" if "(n, i) \<in> set (hi_children h ?l)" for n i
      using that sides_exclusive [of "name_in h base i"] hm_ids [OF r(1), of i] unfolding in_xs r(2) by simp
    have "length (hi_children h ?l) = length ?l" using h by (metis hash_iter_ok_def size_mset)
    then show "length ?r + length (hi_children h ?l) < 10 ^ 8" using short size by simp
  qed
  then obtain m where m: "merge_names nfc (hi_children h ?l) ?r = Some m" "children_ok m" "hm_get ?r \<subseteq>\<^sub>m hm_get m"
    "\<And>i. (\<exists>n. hm_get m n = Some i) \<longleftrightarrow> (\<exists>n. hm_get ?r n = Some i) \<or> i \<in> snd ` set (hi_children h ?l)" by blast
  have "i \<in> snd ` set (hi_children h ?l) \<longleftrightarrow> (\<exists>n. ?ls i = Some n)" for i
    using hm_ids [OF xs(2), of i] unfolding xs(1) l(2) .
  then have ids: "(\<exists>n. hm_get m n = Some i) \<longleftrightarrow> kept_by_merge base local remote i" for i
    unfolding m(4) r(2) kept_sides [OF h ok] by simp
  have "hm_get m n = Some i"
    if "hm_get remote n = Some i" "kept_by_merge base local remote i"
      "\<not> (hm_get base n = Some i \<and> (\<exists>k. hm_get local k = Some i \<and> k \<noteq> n))" for n i
  proof -
    note name = name_in_Some [OF h ok(1)] name_in_Some [OF h ok(2)] name_in_Some [OF h ok(3)]
    have "name_in h remote i = Some n" using that(1) name(3) by simp
    moreover have "\<not> (name_in h base i = Some n \<and> (\<exists>k. name_in h local i = Some k \<and> k \<noteq> n))" using that(3) name by simp
    ultimately have "?rs i = Some n" using that(2) unfolding kept_sides [OF h ok]
      by (cases "name_in h local i") (auto simp: remote_side_def local_side_def split: if_split_asm)
    then have "hm_get ?r n = Some i" using r(2) by simp
    then show ?thesis using m(3) by (metis domI map_le_def)
  qed
  with m(1,2) ids show ?thesis unfolding merge_children_solved by blast
qed

lemma merge_children_local_unchanged:
  assumes h: "hash_iter_ok h" and ok: "children_ok base" "children_ok local" "children_ok remote"
    and same: "hm_get local = hm_get base"
  shows "\<exists>m. merge_children h nfc base local remote = Some m \<and> hm_get m = hm_get remote"
proof -
  have b: "name_in h local i = name_in h base i" for i
    using name_in_Some [OF h ok(1), of i] name_in_Some [OF h ok(2), of i] same by (metis not_None_eq)
  have "\<not> rename_collision base local remote" using same ok(1) unfolding rename_collision_def children_ok_def unique_ids_def by metis
  note l = solved_local_get [OF h ok(2), of base remote] and r = solved_remote_get [OF h ok this]
  have "hm_get (solved_local h base local remote) n = None" for n
  proof (rule ccontr)
    assume "hm_get (solved_local h base local remote) n \<noteq> None"
    then obtain i where "local_side (name_in h base i) (name_in h base i) (name_in h remote i) = Some n" using l(2) b by auto
    then show False by (auto simp: local_side_def split: option.split_asm if_split_asm)
  qed
  then have "solved_local h base local remote = []" by (cases "solved_local h base local remote") (auto, metis option.distinct(1))
  then have "hi_children h (solved_local h base local remote) = []" using h by (metis hash_iter_ok_def mset_zero_iff_right)
  moreover have "remote_side (name_in h base i) (name_in h base i) (name_in h remote i) = Some n \<longleftrightarrow> hm_get remote n = Some i" for n i
    unfolding name_in_Some [OF h ok(3), symmetric] by (auto simp: remote_side_def split: option.split)
  then have "hm_get (solved_remote h base local remote) = hm_get remote"
    using r(2) b by (intro ext) (metis not_None_eq)
  ultimately show ?thesis by (simp add: merge_children_solved)
qed

lemma merge_children_remote_unchanged:
  assumes h: "hash_iter_ok h" and ok: "children_ok base" "children_ok local" "children_ok remote"
    and same: "hm_get remote = hm_get base"
  shows "\<exists>m. merge_children h nfc base local remote = Some m \<and> hm_get m = hm_get local"
proof -
  have b: "name_in h remote i = name_in h base i" for i
    using name_in_Some [OF h ok(1), of i] name_in_Some [OF h ok(3), of i] same by (metis not_None_eq)
  have "\<not> rename_collision base local remote" using same unfolding rename_collision_def by metis
  note l = solved_local_get [OF h ok(2), of base remote] and r = solved_remote_get [OF h ok this]
  let ?l = "solved_local h base local remote" and ?r = "solved_remote h base local remote"
  note xs = hash_iter_children [OF h l(1)]
  have rs: "hm_get ?r n = Some i \<longleftrightarrow> hm_get local n = Some i \<and> hm_get remote n = Some i" for n i
    unfolding r(2) b name_in_Some [OF h ok(2), symmetric] name_in_Some [OF h ok(3), symmetric]
    by (auto simp: remote_side_def split: option.split)
  have ls: "hm_get ?l n = Some i \<longleftrightarrow> hm_get local n = Some i \<and> hm_get remote n \<noteq> Some i" for n i
    unfolding l(2) b name_in_Some [OF h ok(2), symmetric] name_in_Some [OF h ok(3), symmetric]
    by (auto simp: local_side_def split: option.split)
  have "\<exists>m. merge_names nfc (hi_children h ?l) ?r = Some m \<and> hm_get m = hm_get ?r ++ hm_get (hi_children h ?l)"
  proof (rule merge_names_free [OF xs(2)])
    fix n i assume "(n, i) \<in> set (hi_children h ?l)"
    then have "hm_get ?l n = Some i" using hm_in_set [OF xs(2)] xs(1) by metis
    then show "hm_get ?r n = None" using ls rs by (metis not_None_eq option.inject)
  qed
  moreover have "(hm_get ?r ++ hm_get ?l) n = hm_get local n" for n
  proof (cases "hm_get local n")
    case None
    then have "hm_get ?l n = None" "hm_get ?r n = None" using ls rs by (metis not_None_eq option.distinct(1))+
    with None show ?thesis by (simp add: map_add_def)
  next
    case (Some i)
    have "hm_get ?l n = None" if "hm_get remote n = Some i" using ls Some that by (metis not_None_eq option.inject)
    with Some ls [of n i] rs [of n i] show ?thesis by (cases "hm_get remote n = Some i") (auto simp: map_add_def)
  qed
  ultimately show ?thesis using xs(1) by (auto simp: merge_children_solved fun_eq_iff)
qed

subsection \<open>What every merge that returns leaves\<close>

lemma conflict_loop_free:
  assumes "conflict_loop nfc name suffix is_reserved k new = Some n"
  shows "\<not> is_reserved n"
proof (rule conflict_loop.raw_induct [of "\<lambda>nfc name suffix is_reserved k new n. \<not> is_reserved n", OF _ assms])
  fix loop :: "(string \<Rightarrow> string) \<Rightarrow> entry_name \<Rightarrow> string \<Rightarrow> (entry_name \<Rightarrow> bool) \<Rightarrow> nat \<Rightarrow> entry_name \<Rightarrow> entry_name option"
    and nfc name suffix and is_reserved :: "entry_name \<Rightarrow> bool" and k new n
  assume IH: "\<And>nfc name suffix is_reserved k new n. loop nfc name suffix is_reserved k new = Some n \<Longrightarrow> \<not> is_reserved n"
    and step: "(if is_reserved new
      then Option.bind (rename_with_suffix nfc name (suffix @ '' '' @ string_of_nat (k + 1)))
             (loop nfc name suffix is_reserved (k + 1))
      else Some new) = Some n"
  show "\<not> is_reserved n"
  proof (cases "is_reserved new")
    case True
    with step obtain v where "loop nfc name suffix is_reserved (k + 1) v = Some n" by (auto elim!: bind_SomeE)
    then show ?thesis by (rule IH)
  qed (use step in simp)
qed

lemma get_conflict_filename_free: "get_conflict_filename nfc name suffix is_reserved = Some n \<Longrightarrow> \<not> is_reserved n"
  by (auto simp: get_conflict_filename_def dest: conflict_loop_free elim!: bind_SomeE)

lemma merge_names_ok:
  "merge_names nfc xs c = Some c' \<Longrightarrow> hm_wf c \<Longrightarrow> unique_ids c \<Longrightarrow> distinct (map snd xs) \<Longrightarrow>
     (\<And>n i. (n, i) \<in> set xs \<Longrightarrow> i \<notin> snd ` set c) \<Longrightarrow> children_ok c'"
proof (induction xs arbitrary: c)
  case (Cons x xs)
  obtain n i where x: "x = (n, i)" by (cases x)
  obtain n' where n': "(if hm_contains_key c n
      then get_conflict_filename nfc n FILENAME_CONFLICT_SUFFIX (hm_contains_key c) else Some n) = Some n'"
    "merge_names nfc xs (hm_insert n' i c) = Some c'"
    using Cons.prems(1) x by (auto elim!: bind_SomeE)
  have free: "hm_get c n' = None"
    using n'(1) get_conflict_filename_free [of nfc n FILENAME_CONFLICT_SUFFIX "hm_contains_key c" n']
    by (auto simp: hm_contains_key_def split: if_split_asm)
  have new: "hm_get c k \<noteq> Some i" for k using Cons.prems(5) [of n i] x hm_ids [OF Cons.prems(2), of i] by auto
  have get: "hm_get (hm_insert n' i c) k = Some j \<longleftrightarrow> k = n' \<and> j = i \<or> hm_get c k = Some j" for k j
    using free by (auto simp: hm_simps)
  have wf: "hm_wf (hm_insert n' i c)" using Cons.prems(2) by simp
  show ?case
  proof (rule Cons.IH [OF n'(2) wf])
    show "unique_ids (hm_insert n' i c)" using Cons.prems(3) new unfolding unique_ids_def get by blast
    show "distinct (map snd xs)" using Cons.prems(4) by simp
    show "j \<notin> snd ` set (hm_insert n' i c)" if "(k, j) \<in> set xs" for k j
    proof -
      have "j \<noteq> i" using Cons.prems(4) that x by (force simp: image_iff)
      moreover have "j \<notin> snd ` set c" using Cons.prems(5) [of k j] that by simp
      ultimately show ?thesis using hm_ids [OF wf, of j] hm_ids [OF Cons.prems(2), of j] unfolding get by blast
    qed
  qed
qed (simp add: children_ok_def)

lemma merge_children_ok:
  assumes h: "hash_iter_ok h" and ok: "children_ok local" and run: "merge_children h nfc base local remote = Some m"
  shows "children_ok m"
proof -
  let ?l = "solved_local h base local remote" and ?r = "solved_remote h base local remote"
  let ?rs = "\<lambda>i. remote_side (name_in h base i) (name_in h local i) (name_in h remote i)"
  note l = solved_local_get [OF h ok, of base remote]
  note xs = hash_iter_children [OF h l(1)]
  have wf: "hm_wf ?r" unfolding solved_remote_def by (rule add_names_wf) simp
  have r: "?rs i = Some n" if "hm_get ?r n = Some i" for n i
    using add_names_Some [of ?rs _ "[]" n i] that unfolding solved_remote_def by auto
  show ?thesis
  proof (rule merge_names_ok [OF run [unfolded merge_children_solved] wf])
    show "unique_ids ?r" unfolding unique_ids_def using r by (metis option.inject)
    have "unique_ids (hi_children h ?l)" unfolding unique_ids_def xs(1) l(2) by auto
    then show "distinct (map snd (hi_children h ?l))" using distinct_ids xs(2) by blast
    show "i \<notin> snd ` set ?r" if "(n, i) \<in> set (hi_children h ?l)" for n i
    proof
      assume "i \<in> snd ` set ?r"
      then obtain k where "hm_get ?r k = Some i" using hm_ids [OF wf] by blast
      then have "?rs i = Some k" by (rule r)
      moreover have "local_side (name_in h base i) (name_in h local i) (name_in h remote i) = Some n"
        using that hm_in_set [OF xs(2)] unfolding xs(1) l(2) by blast
      ultimately show False using sides_exclusive by fastforce
    qed
  qed
qed

lemma folder_merge_ok:
  assumes h: "hash_iter_ok h" and ok: "children_ok (ld_children local)" "children_ok (fo_children (ld_base local))"
    and remote: "children_ok (fo_children remote)"
    and run: "merge_local_folder_manifest h nfc author timestamp pattern local remote = Some (FolderMerged m)"
  shows "folder_ok pattern m \<and> ld_base m = remote"
proof -
  have conf: "folder_ok pattern m \<and> ld_base m = remote"
    if "apply_confinement h u local pattern timestamp = Some m" "children_ok (uf_children u)" "uf_base u = remote" for u
    using apply_confinement_spec [OF h that(2) _ ok(1), of pattern timestamp] that(1,3) remote by auto
  note up = uploaded_ok [OF h ok]
  let ?u = "remove_confinement h local" and ?r = "uf_from_remote remote"
  have newer: "\<not> fo_version remote \<le> fo_version (ld_base local)"
    using run by (auto simp: merge_local_folder_manifest_def)
  have r: "uf_base ?r = remote" "uf_children ?r = fo_children remote" by (simp_all add: uf_from_remote_def)
  consider (unchanged) "apply_confinement h ?r local pattern timestamp = Some m"
    | (own) "apply_confinement h (?u\<lparr>uf_base := uf_base ?r\<rparr>) local pattern timestamp = Some m"
    | (merged) c p s t where "merge_children h nfc (fo_children (uf_base ?u)) (uf_children ?u) (uf_children ?r) = Some c"
        "apply_confinement h (?r\<lparr>uf_children := c, uf_parent := p, uf_need_sync := s, uf_updated := t\<rparr>) local pattern timestamp = Some m"
    using run newer unfolding merge_local_folder_manifest_def Let_def
    by (fastforce split: if_split_asm elim!: bind_SomeE)
  then show ?thesis
  proof cases
    case unchanged
    then show ?thesis by (rule conf) (simp_all add: r remote)
  next
    case own
    then show ?thesis by (rule conf) (simp_all add: r up)
  next
    case merged
    then show ?thesis by (intro conf [OF merged(2)]) (simp_all add: r merge_children_ok [OF h up])
  qed
qed

end
