(* ===== verification/Folder_System.thy ===== *)
theory Folder_System
  imports Folder_Merge
begin

text \<open>
  The life of a local folder manifest: it is created or read from a remote one, its children change, the prevent
  sync pattern changes, and newer remote manifests are merged in. Every manifest of this life keeps its confined
  entries apart.
\<close>

lemma evolve_removals_names:
  "hm_wf data \<Longrightarrow> evolve_removals data (c, p, u) = Some r \<Longrightarrow> hm_get data n = Some None \<Longrightarrow> hm_get c n \<noteq> None"
proof (induction data "(c, p, u)" arbitrary: c p u rule: evolve_removals.induct)
  case (2 name entry_id data c p u)
  have wf: "hm_wf data" "name \<notin> dom (hm_get data)" using hm_wf_ConsD [OF "2.prems"(1)] by auto
  show ?case
  proof (cases "n = name")
    case True
    then show ?thesis using "2.prems"(2,3) by (cases "hm_get c name") auto
  next
    case False
    then have n: "hm_get data n = Some None" using "2.prems"(3) by simp
    show ?thesis
    proof (cases "hm_get c name")
      case None
      then have "entry_id \<noteq> None" "evolve_removals data (c, p, u) = Some r" using "2.prems"(2) by (auto split: if_split_asm)
      with "2.hyps"(1) [OF None _ wf(1) _ n] show ?thesis by blast
    next
      case (Some old)
      then have "evolve_removals data (hm_remove name c, removeAll old p, u \<or> old \<notin> set p) = Some r" using "2.prems"(2) by simp
      from "2.hyps"(2) [OF Some wf(1) this n] False show ?thesis by (simp add: hm_simps)
    qed
  qed
qed simp

text \<open>The assertions of the update hold exactly when the changes can be made.\<close>

lemma evolve_returns_iff:
  assumes h: "hash_iter_ok h" and wf: "hm_wf data" "hm_wf (ld_children m)"
  shows "(\<exists>m'. evolve_children_and_mark_updated h m data pattern timestamp = Some m') \<longleftrightarrow> evolvable (ld_children m) data"
proof
  note data = hash_iter_changes [OF h wf(1)]
  assume "\<exists>m'. evolve_children_and_mark_updated h m data pattern timestamp = Some m'"
  then obtain c p u where run: "evolve_removals (hi_changes h data) (ld_children m, ld_local_confinement_points m, False) = Some (c, p, u)"
    and free: "\<not> list_ex (\<lambda>i. i \<in> snd ` set c) (changed_ids data)"
    by (auto simp: evolve_children_and_mark_updated_def split: if_split_asm elim!: bind_SomeE)
  note removed = evolve_removals_Some [OF data(2) run, unfolded data(1)]
  have "hm_get (ld_children m) n \<noteq> None" if "hm_get data n = Some None" for n
    using evolve_removals_names [OF data(2) run, unfolded data(1), OF that] .
  moreover have "n' \<in> dom (hm_get data)" if "hm_get data n = Some (Some i)" "hm_get (ld_children m) n' = Some i" for n n' i
  proof (rule ccontr)
    assume "n' \<notin> dom (hm_get data)"
    then have "hm_get c n' = Some i" using removed that(2) by simp
    then have "i \<in> snd ` set c" using hm_ids [of c i] removed wf(2) by blast
    then show False using free that(1) changed_ids_iff [OF wf(1), of i] by (auto simp: list_ex_iff)
  qed
  ultimately show "evolvable (ld_children m) data" unfolding evolvable_def by blast
next
  assume "evolvable (ld_children m) data"
  from evolve_spec [OF h wf this] show "\<exists>m'. evolve_children_and_mark_updated h m data pattern timestamp = Some m'" by blast
qed

subsection \<open>Reachable manifests\<close>

text \<open>An id is given to one name only: the callers of the update never give it twice.\<close>

definition changes_ok :: "(entry_name, vlob_id option) hashmap \<Rightarrow> bool" where
  "changes_ok data \<longleftrightarrow> hm_wf data \<and> distinct (changed_ids data)"

lemma changes_ok_ids:
  assumes "changes_ok data" "hm_get data n = Some (Some i)" "hm_get data n' = Some (Some i)"
  shows "n = n'"
proof (rule ccontr)
  assume "n \<noteq> n'"
  obtain a b c where "data = a @ (n, Some i) # b @ (n', Some i) # c \<or> data = a @ (n', Some i) # b @ (n, Some i) # c"
  proof -
    have mem: "(n, Some i) \<in> set data" "(n', Some i) \<in> set data" using assms(2,3) by (auto dest: map_of_SomeD)
    obtain a r where ar: "data = a @ (n, Some i) # r" using mem(1) by (meson split_list)
    then have "(n', Some i) \<in> set a \<or> (n', Some i) \<in> set r" using mem(2) \<open>n \<noteq> n'\<close> by auto
    then show thesis using that ar by (metis append_Cons append_assoc split_list)
  qed
  then show False using assms(1) by (auto simp: changes_ok_def changed_ids_def List.map_filter_def)
qed

inductive folder_reachable ::
  "hash_iter \<Rightarrow> (string \<Rightarrow> string) \<Rightarrow> prevent_sync_pattern \<Rightarrow> local_folder_manifest \<Rightarrow> bool" for h nfc where
  created: "folder_reachable h nfc pattern (ld_new new_id author parent timestamp)"
| created_root: "folder_reachable h nfc pattern (ld_new_root author realm timestamp speculative)"
| fetched: "children_ok (fo_children remote) \<Longrightarrow> folder_reachable h nfc pattern (ld_from_remote h remote pattern)"
| evolved: "folder_reachable h nfc pattern m \<Longrightarrow> changes_ok data \<Longrightarrow>
    evolve_children_and_mark_updated h m data pattern timestamp = Some m' \<Longrightarrow> folder_reachable h nfc pattern m'"
| pattern_changed: "folder_reachable h nfc old_pattern m \<Longrightarrow>
    apply_prevent_sync_pattern h m pattern timestamp = Some m' \<Longrightarrow> folder_reachable h nfc pattern m'"
| refreshed: "folder_reachable h nfc old_pattern m \<Longrightarrow> children_ok (fo_children remote) \<Longrightarrow>
    from_remote_with_restored_local_confinement_points h remote pattern m timestamp = Some m' \<Longrightarrow> folder_reachable h nfc pattern m'"
| merged: "folder_reachable h nfc old_pattern m \<Longrightarrow> children_ok (fo_children remote) \<Longrightarrow>
    merge_local_folder_manifest h nfc author timestamp pattern m remote = Some (FolderMerged m') \<Longrightarrow>
    folder_reachable h nfc pattern m'"

lemma children_ok_Nil [simp]: "children_ok []"
  by (simp add: children_ok_def unique_ids_def)

lemma folder_reachable_ok:
  assumes h: "hash_iter_ok h" and "folder_reachable h nfc pattern m"
  shows "folder_ok pattern m"
  using assms(2)
proof induction
  case (evolved pattern m data timestamp m')
  have wf: "hm_wf data" "hm_wf (ld_children m)" using evolved.hyps(2) evolved.IH by (auto simp: changes_ok_def folder_ok_def children_ok_def)
  have ok: "evolvable (ld_children m) data" using evolve_returns_iff [OF h wf] evolved.hyps(3) by blast
  from evolve_folder_ok [OF h evolved.IH wf(1) ok, of timestamp] changes_ok_ids [OF evolved.hyps(2)] evolved.hyps(3)
  show ?case by auto
next
  case (pattern_changed old_pattern m pattern timestamp m')
  then have ok: "children_ok (ld_children m)" "children_ok (fo_children (ld_base m))" by (simp_all add: folder_ok_def)
  from apply_pattern_spec [OF h ok, of pattern timestamp] pattern_changed.hyps(2) show ?case by auto
next
  case (refreshed old_pattern m remote pattern timestamp m')
  then have ok: "children_ok (ld_children m)" by (simp add: folder_ok_def)
  have "children_ok (uf_children (uf_from_remote remote))" "children_ok (fo_children (uf_base (uf_from_remote remote)))"
    using refreshed.hyps(2) by (simp_all add: uf_from_remote_def)
  from apply_confinement_spec [OF h this ok, of pattern timestamp] refreshed.hyps(3) show ?case
    by (auto simp: from_remote_with_restored_local_confinement_points_def)
next
  case (merged old_pattern m remote author timestamp pattern m')
  then have "children_ok (ld_children m)" "children_ok (fo_children (ld_base m))" by (simp_all add: folder_ok_def)
  from folder_merge_ok [OF h this merged.hyps(2,3)] show ?case by simp
next
  case (fetched remote pattern)
  then show ?case by (rule from_remote_folder_ok [OF h])
qed (simp_all add: folder_ok_def ld_new_def ld_new_root_def)

end
