(* ===== verification/File_Merge.thy ===== *)
theory File_Merge
  imports Manifest_Merge Manifest_Roundtrip File_Operations
begin

text \<open>
  What the merge of a file manifest decides: which local content counts as changed, and the outcome for a
  newer remote manifest of another device.
\<close>

subsection \<open>When the code counts the local content as changed\<close>

text \<open>
  The areas that hold data are, in order, each one view of a whole block, and these blocks are the first ones of
  the base manifest.
\<close>

definition local_blocks_of_base :: "block_access list \<Rightarrow> chunk_view list list \<Rightarrow> bool" where
  "local_blocks_of_base base_blocks areas \<longleftrightarrow>
     (\<exists>used rest. base_blocks = used @ rest \<and>
        map (map cv_block) (filter (\<lambda>area. area \<noteq> []) areas) = map (\<lambda>access. [Some access]) used)"

lemma local_blocks_Nil: "local_blocks_of_base blocks []"
  by (simp add: local_blocks_of_base_def)

lemma local_blocks_Cons_single:
  "local_blocks_of_base blocks ([c] # areas) \<longleftrightarrow>
     (\<exists>a blocks'. blocks = a # blocks' \<and> cv_block c = Some a \<and> local_blocks_of_base blocks' areas)"
proof
  assume "local_blocks_of_base blocks ([c] # areas)"
  then obtain used rest where u: "blocks = used @ rest"
    "[cv_block c] # map (map cv_block) (filter (\<lambda>area. area \<noteq> []) areas) = map (\<lambda>access. [Some access]) used"
    unfolding local_blocks_of_base_def by (elim exE conjE) simp
  then obtain a used' where "used = a # used'" by (cases used) auto
  with u show "\<exists>a blocks'. blocks = a # blocks' \<and> cv_block c = Some a \<and> local_blocks_of_base blocks' areas"
    by (auto simp: local_blocks_of_base_def)
next
  assume "\<exists>a blocks'. blocks = a # blocks' \<and> cv_block c = Some a \<and> local_blocks_of_base blocks' areas"
  then obtain a blocks' used rest where "blocks = a # blocks'" "cv_block c = Some a" "blocks' = used @ rest"
    "map (map cv_block) (filter (\<lambda>area. area \<noteq> []) areas) = map (\<lambda>access. [Some access]) used"
    by (auto simp: local_blocks_of_base_def)
  then show "local_blocks_of_base blocks ([c] # areas)"
    unfolding local_blocks_of_base_def by (intro exI [of _ "a # used"] exI [of _ rest]) simp
qed

lemma areas_changed_iff: "areas_changed blocks areas \<longleftrightarrow> \<not> local_blocks_of_base blocks areas"
proof (induction blocks areas rule: areas_changed.induct)
  case (2 blocks areas)
  then show ?case by (simp add: local_blocks_of_base_def)
next
  case (3 blocks c areas)
  show ?case
  proof (cases "cv_block c")
    case None
    then show ?thesis by (simp add: cv_get_block_access_def ok_or_def local_blocks_Cons_single)
  next
    case (Some a)
    with 3 show ?thesis
      by (cases blocks) (auto simp: cv_get_block_access_def ok_or_def local_blocks_Cons_single)
  qed
next
  case (4 blocks c c' cs areas)
  have "\<not> local_blocks_of_base blocks ((c # c' # cs) # areas)"
  proof
    assume "local_blocks_of_base blocks ((c # c' # cs) # areas)"
    then obtain used where "(cv_block c # cv_block c' # map cv_block cs) # map (map cv_block) (filter (\<lambda>area. area \<noteq> []) areas) =
        map (\<lambda>access. [Some access]) used" by (auto simp: local_blocks_of_base_def)
    then show False by (cases used) auto
  qed
  then show ?case by simp
qed (simp add: local_blocks_Nil)

definition local_content_changed :: "local_file_manifest \<Rightarrow> bool" where
  "local_content_changed m \<longleftrightarrow> lf_size m \<noteq> fm_size (lf_base m) \<or> lf_blocksize m \<noteq> fm_blocksize (lf_base m) \<or>
     \<not> local_blocks_of_base (fm_blocks (lf_base m)) (lf_blocks m)"

lemma has_content_changed_iff:
  "has_file_content_changed_in_local (fm_size (lf_base m)) (fm_blocksize (lf_base m)) (fm_blocks (lf_base m))
     (lf_size m) (lf_blocksize m) (lf_blocks m) \<longleftrightarrow> local_content_changed m"
  by (auto simp: has_file_content_changed_in_local_def areas_changed_iff local_content_changed_def)

definition same_content :: "file_manifest \<Rightarrow> file_manifest \<Rightarrow> bool" where
  "same_content a b \<longleftrightarrow> fm_size a = fm_size b \<and> fm_blocksize a = fm_blocksize b \<and> fm_blocks a = fm_blocks b"

subsection \<open>What that means for the content\<close>

text \<open>
  The local content against that of the base, address by address: \<open>base_up_to n\<close> says that the file is served
  from the same chunks as its base below \<open>n\<close> and holds only zeros from there on, and \<open>views_of_base\<close> that it still has the
  views that its base gives. The views that have a block access are known under the id of the block.
\<close>

definition access_ids_match :: "local_file_manifest \<Rightarrow> bool" where
  "access_ids_match m \<longleftrightarrow> (\<forall>area \<in> set (lf_blocks m). \<forall>c \<in> set area. \<forall>a. cv_access c = Some a \<longrightarrow> ba_id a = cv_id c)"

definition base_up_to :: "nat \<Rightarrow> local_file_manifest \<Rightarrow> bool" where
  "base_up_to n m \<longleftrightarrow> lf_size m = fm_size (lf_base m) \<and> lf_blocksize m = fm_blocksize (lf_base m) \<and>
     (\<forall>p. byte_source m p = (if p < n then byte_source (local_of (lf_base m)) p else None))"

definition views_of_base :: "local_file_manifest \<Rightarrow> bool" where
  "views_of_base m \<longleftrightarrow> lf_size m = fm_size (lf_base m) \<and> lf_blocksize m = fm_blocksize (lf_base m) \<and>
     lf_blocks m = lf_blocks (local_of (lf_base m))"

definition valid_remote :: "file_manifest \<Rightarrow> bool" where
  "valid_remote m \<longleftrightarrow> 0 < fm_blocksize m \<and> blocks_in_range (fm_blocks m) \<and> fm_check_data_integrity m = Inr () \<and>
     fm_size m + fm_blocksize m < u64_bound"

text \<open>An area of one whole block serves the addresses of that block.\<close>

lemma block_area_source:
  assumes "cv_block c = Some a" "ba_offset a + ba_size a < u64_bound" "\<And>b. cv_access c = Some b \<Longrightarrow> ba_id b = cv_id c"
  shows "chunk_source [c] p =
    (if ba_offset a \<le> p \<and> p < block_stop a then Some (ba_id a, p - ba_offset a) else None)"
proof -
  have "cv_access c = Some a" "cv_start c = ba_offset a" "cv_stop c = ba_offset a + ba_size a" "cv_raw_offset c = ba_offset a"
    using assms(1,2) by (auto simp: cv_block_def cv_is_aligned_with_raw_data_def u64_simps split: option.split_asm if_split_asm)
  with assms(3) show ?thesis by (simp add: chunk_source_Cons cv_covers_def block_stop_def)
qed

lemma block_areas_source:
  assumes m: "lf_in_range m" "lf_check_data_integrity m = Some (Inr ())" "access_ids_match m"
    and areas: "map (map cv_block) (filter (\<lambda>area. area \<noteq> []) (lf_blocks m)) = map (\<lambda>a. [Some a]) accs"
    and range: "blocks_in_range accs"
  shows "byte_source m p = Some (i, k) \<longleftrightarrow>
    (\<exists>a \<in> set accs. ba_offset a \<le> p \<and> p < block_stop a \<and> i = ba_id a \<and> k = p - ba_offset a)"
proof -
  let ?bs = "lf_blocksize m" and ?areas = "lf_blocks m"
  have bs: "0 < ?bs" using m(1) by (simp add: lf_in_range_def)
  have ok: "chunks_ok (j * ?bs) ((j + 1) * ?bs) (?areas ! j)" if "j < length ?areas" for j
    using m(2) that lf_check_data_integrity_iff [OF m(1)] by (simp add: blocks_ok_def)
  have lim: "ba_offset a + ba_size a < u64_bound" if "a \<in> set accs" for a
    using range that by (simp add: blocks_in_range_def block_stop_def)
  have area: "\<exists>c a. area = [c] \<and> cv_block c = Some a \<and> a \<in> set accs" if "area \<in> set ?areas" "area \<noteq> []" for area
  proof -
    have "map cv_block area \<in> set (map (map cv_block) (filter (\<lambda>area. area \<noteq> []) ?areas))" using that by auto
    then obtain a where "a \<in> set accs" "map cv_block area = [Some a]" unfolding areas by auto
    then show ?thesis by auto
  qed
  have source: "chunk_source [c] p =
      (if ba_offset a \<le> p \<and> p < block_stop a then Some (ba_id a, p - ba_offset a) else None)"
    if "[c] \<in> set ?areas" "cv_block c = Some a" "a \<in> set accs" for c a p
    using block_area_source [OF that(2) lim [OF that(3)]] m(3) that(1) by (fastforce simp: access_ids_match_def)
  show ?thesis
  proof
    assume src: "byte_source m p = Some (i, k)"
    let ?j = "p div ?bs"
    have j: "?j < length ?areas" "?areas ! ?j \<noteq> []" using src by (auto simp: byte_source_def slot_def split: if_split_asm)
    then obtain c a where c: "?areas ! ?j = [c]" "cv_block c = Some a" "a \<in> set accs" using area nth_mem by metis
    have "[c] \<in> set ?areas" using c(1) j(1) nth_mem by metis
    from source [OF this c(2,3), of p] src c j show "\<exists>a \<in> set accs. ba_offset a \<le> p \<and> p < block_stop a \<and> i = ba_id a \<and> k = p - ba_offset a"
      by (auto simp: byte_source_def slot_def split: if_split_asm)
  next
    assume "\<exists>a \<in> set accs. ba_offset a \<le> p \<and> p < block_stop a \<and> i = ba_id a \<and> k = p - ba_offset a"
    then obtain a where a: "a \<in> set accs" "ba_offset a \<le> p" "p < block_stop a" "i = ba_id a" "k = p - ba_offset a" by blast
    have "[Some a] \<in> set (map (map cv_block) (filter (\<lambda>area. area \<noteq> []) ?areas))" unfolding areas using a(1) by auto
    then obtain c where c: "[c] \<in> set ?areas" "cv_block c = Some a" by auto
    then obtain j where j: "j < length ?areas" "?areas ! j = [c]" by (auto simp: in_set_conv_nth)
    from source [OF c a(1), of p] a have src: "chunk_source [c] p = Some (i, k)" by simp
    then have "j * ?bs \<le> p" "p < (j + 1) * ?bs"
      using chunk_source_outside [OF ok [OF j(1)], of p] j(2) by fastforce+
    then have "p div ?bs = j" using bs by (simp add: div_nat_eqI mult.commute)
    with src j show "byte_source m p = Some (i, k)" by (simp add: byte_source_def slot_def)
  qed
qed

lemma option_restricted:
  assumes "\<And>i k. x = Some (i, k) \<longleftrightarrow> P \<and> y = Some (i, k)" shows "x = (if P then y else None)"
proof (cases P)
  case True
  then have "x = Some v \<longleftrightarrow> y = Some v" for v using assms by (cases v) simp
  with True show ?thesis by (metis option.exhaust)
next
  case False
  then have "x \<noteq> Some v" for v using assms by (cases v) simp
  with False show ?thesis by (metis option.exhaust)
qed

lemma valid_blocks_ordered:
  assumes "valid_remote m" shows "sorted_wrt (\<lambda>a b. block_stop a \<le> ba_offset b) (fm_blocks m)"
proof -
  let ?bs = "fm_blocksize m"
  have geo: "file_blocks_geometry ?bs (fm_size m) (fm_blocks m)"
    using assms fm_check_data_integrity_iff [of m] by (simp add: valid_remote_def)
  have "block_stop a \<le> ba_offset b"
    if "a \<in> set (fm_blocks m)" "ba_offset a div ?bs < ba_offset b div ?bs" for a b
  proof -
    have "block_stop a \<le> (ba_offset a div ?bs + 1) * ?bs"
      using geo that(1) by (simp add: file_blocks_geometry_def block_in_span_def)
    also have "\<dots> \<le> ba_offset b div ?bs * ?bs" using that(2) by (intro mult_le_mono1) simp
    also have "\<dots> \<le> ba_offset b" by simp
    finally show ?thesis .
  qed
  then show ?thesis
    using geo by (auto simp: file_blocks_geometry_def intro: sorted_wrt_mono_rel [rotated])
qed

lemma local_of_areas:
  assumes "valid_remote m"
  shows "map (map cv_block) (filter (\<lambda>area. area \<noteq> []) (lf_blocks (local_of m))) = map (\<lambda>a. [Some a]) (fm_blocks m)"
    "access_ids_match (local_of m)"
proof -
  have v: "0 < fm_blocksize m" "blocks_in_range (fm_blocks m)" "fm_check_data_integrity m = Inr ()"
    "fm_size m + fm_blocksize m < u64_bound" using assms by (simp_all add: valid_remote_def)
  note areas = local_of_accepted(4) [OF v]
  have "cv_block (view_of a) = Some a" if "a \<in> set (fm_blocks m)" for a
    using v(2) that by (intro view_of_block) (auto simp: blocks_in_range_def block_stop_def)
  then show "map (map cv_block) (filter (\<lambda>area. area \<noteq> []) (lf_blocks (local_of m))) = map (\<lambda>a. [Some a]) (fm_blocks m)"
    unfolding areas by simp
  have "\<exists>a. area = [view_of a]" if "area \<in> set (lf_blocks (local_of m))" "area \<noteq> []" for area
  proof -
    have "area \<in> set (filter (\<lambda>area. area \<noteq> []) (lf_blocks (local_of m)))" using that by simp
    then show ?thesis unfolding areas by auto
  qed
  then show "access_ids_match (local_of m)" by (fastforce simp: access_ids_match_def)
qed

text \<open>What counts as unchanged is the content of the base up to some address, and zeros from there on.\<close>

lemma unchanged_is_base_up_to:
  assumes base: "valid_remote (lf_base m)"
    and m: "lf_in_range m" "lf_check_data_integrity m = Some (Inr ())" "access_ids_match m"
    and same: "\<not> local_content_changed m"
  shows "\<exists>n. base_up_to n m"
proof -
  let ?b = "lf_base m"
  have v: "0 < fm_blocksize ?b" "blocks_in_range (fm_blocks ?b)" "fm_check_data_integrity ?b = Inr ()"
    "fm_size ?b + fm_blocksize ?b < u64_bound" using base by (simp_all add: valid_remote_def)
  obtain used rest where u: "fm_blocks ?b = used @ rest"
    "map (map cv_block) (filter (\<lambda>area. area \<noteq> []) (lf_blocks m)) = map (\<lambda>a. [Some a]) used"
    using same by (auto simp: local_content_changed_def local_blocks_of_base_def)
  have ord: "sorted_wrt (\<lambda>a b. block_stop a \<le> ba_offset b) (used @ rest)" using valid_blocks_ordered [OF base] u(1) by simp
  note here = block_areas_source [OF m u(2)]
  note there = block_areas_source [OF local_of_accepted(1,2) [OF v] local_of_areas(2,1) [OF base] v(2)]
  let ?n = "if used = [] then 0 else block_stop (last used)"
  have stop: "block_stop a \<le> ?n" if "a \<in> set used" for a
    using that ord by (cases used rule: rev_cases) (fastforce simp: sorted_wrt_append block_stop_def)+
  have start: "?n \<le> ba_offset a" if "a \<in> set rest" for a
    using that ord by (cases used rule: rev_cases) (auto simp: sorted_wrt_append)
  have "byte_source m p = Some (i, k) \<longleftrightarrow> p < ?n \<and> byte_source (local_of ?b) p = Some (i, k)" for p i k
  proof -
    have "p < ?n" if "a \<in> set used" "p < block_stop a" for a using less_le_trans [OF that(2) stop [OF that(1)]] .
    moreover have "\<not> p < ?n" if "a \<in> set rest" "ba_offset a \<le> p" for a using le_trans [OF start [OF that(1)] that(2)] by simp
    moreover have "blocks_in_range used" using v(2) u(1) by (simp add: blocks_in_range_def)
    ultimately show ?thesis unfolding there here [OF \<open>blocks_in_range used\<close>] u(1) set_append by blast
  qed
  then have "byte_source m p = (if p < ?n then byte_source (local_of ?b) p else None)" for p
    by (intro option_restricted)
  with same show ?thesis by (intro exI [of _ ?n]) (simp add: base_up_to_def local_content_changed_def)
qed

lemma views_of_base_unchanged:
  assumes "valid_remote (lf_base m)" "views_of_base m" shows "\<not> local_content_changed m"
  using assms local_of_areas(1) [OF assms(1)]
  by (auto simp: views_of_base_def local_content_changed_def local_blocks_of_base_def intro: exI [of _ "[]"])

subsection \<open>The outcome\<close>

text \<open>
  The merge of a local manifest and a newer remote one, keeping the local content or taking the remote one.
\<close>

definition merged_file :: "date_time \<Rightarrow> local_file_manifest \<Rightarrow> file_manifest \<Rightarrow> bool \<Rightarrow> local_file_manifest" where
  "merged_file timestamp local remote keep =
     (let parent = (if fm_parent remote = fm_parent (lf_base local) then lf_parent local else fm_parent remote);
          content = (if keep then local else local_of remote);
          need_sync = (keep \<or> parent \<noteq> fm_parent remote)
      in \<lparr>lf_base = remote, lf_parent = parent, lf_need_sync = need_sync,
          lf_updated = (if need_sync then timestamp else fm_updated remote),
          lf_size = lf_size content, lf_blocksize = lf_blocksize content, lf_blocks = lf_blocks content\<rparr>)"

lemma merge_parent_eq: "merge_parent base local remote = (if remote = base then local else remote)"
  by (auto simp: merge_parent_def split: bool.split)

lemma merge_file_other_device:
  assumes remote: "0 < fm_blocksize remote" "blocks_in_range (fm_blocks remote)" "fm_check_data_integrity remote = Inr ()"
      "fm_size remote + fm_blocksize remote < u64_bound"
    and newer: "fm_version (lf_base local) < fm_version remote"
    and changes: "lf_need_sync local" "fm_author remote \<noteq> author"
  shows "merge_local_file_manifest author timestamp local remote =
    Some (if local_content_changed local \<and> \<not> same_content remote (lf_base local) then FileConflict remote
          else FileMerged (merged_file timestamp local remote (local_content_changed local)))"
  using newer changes lf_from_remote_accepted [OF remote]
  by (simp add: merge_local_file_manifest_def has_content_changed_iff same_content_def merged_file_def Let_def merge_parent_eq local_of_def)

end
