(* ===== verification/Folder_Properties.thy ===== *)
theory Folder_Properties
  imports Folder_System File_Merge
begin

text \<open>
  The properties of entry names, local folder manifests and manifest merges.
\<close>

subsection \<open>Sample values\<close>

definition demo_iter :: hash_iter where
  "demo_iter = \<lparr>hi_ids = (\<lambda>ids. ids), hi_children = (\<lambda>m. m), hi_changes = (\<lambda>m. m)\<rparr>"

definition reversed_iter :: hash_iter where
  "reversed_iter = \<lparr>hi_ids = rev, hi_children = rev, hi_changes = rev\<rparr>"

lemma demo_iter_ok: "hash_iter_ok demo_iter" "hash_iter_ok reversed_iter"
  by (simp_all add: hash_iter_ok_def demo_iter_def reversed_iter_def)

definition no_nfc :: "string \<Rightarrow> string" where
  "no_nfc s = s"

lemma no_nfc_ascii: "ascii_fixed no_nfc"
  by (simp add: ascii_fixed_def no_nfc_def)

definition tmp_pattern :: prevent_sync_pattern where
  "tmp_pattern = [\<lparr>rx_as_str = ''^a.tmp$'', rx_is_match = (\<lambda>s. s = ''a.tmp'')\<rparr>]"

definition demo_remote :: folder_manifest where
  "demo_remote = \<lparr>fo_author = 1, fo_timestamp = 0, fo_id = 5, fo_parent = 6, fo_version = 1, fo_created = 0,
     fo_updated = 0, fo_children = [(''a.tmp'', 7), (''doc'', 9)]\<rparr>"

lemma demo_remote_ok: "children_ok (fo_children demo_remote)"
  by (auto simp: children_ok_def unique_ids_def demo_remote_def split: if_split_asm)

definition demo_folder :: local_folder_manifest where
  "demo_folder = \<lparr>ld_base = demo_remote, ld_parent = 6, ld_need_sync = True, ld_updated = 1,
     ld_children = [(''doc'', 9), (''a.tmp'', 8), (''new'', 10)], ld_local_confinement_points = [8],
     ld_remote_confinement_points = [7], ld_speculative = False\<rparr>"

lemmas folder_evaluation = demo_iter_def demo_remote_def tmp_pattern_def demo_folder_def ld_from_remote_def
  apply_confinement_from_remote_def pattern_is_match_def evolve_children_and_mark_updated_def
  apply_prevent_sync_pattern_def apply_confinement_def remove_confinement_def restore_entries_def restore_confined_def
  restore_filtered_def hm_reversed_def changed_ids_def List.map_filter_def ld_to_remote_def uf_into_remote_def

lemma demo_folder_reachable: "folder_reachable demo_iter no_nfc tmp_pattern demo_folder"
proof (rule evolved [OF fetched [OF demo_remote_ok]])
  show "changes_ok [(''a.tmp'', Some 8), (''new'', Some 10)]"
    by (simp add: changes_ok_def changed_ids_def List.map_filter_def)
  show "evolve_children_and_mark_updated demo_iter (ld_from_remote demo_iter demo_remote tmp_pattern)
      [(''a.tmp'', Some 8), (''new'', Some 10)] tmp_pattern 1 = Some demo_folder"
    by (simp add: folder_evaluation)
qed

subsection \<open>Folders\<close>

definition uploads_confined :: "prevent_sync_pattern \<Rightarrow> local_folder_manifest \<Rightarrow> folder_manifest \<Rightarrow> bool" where
  "uploads_confined pattern m uploaded \<longleftrightarrow>
     children_ok (ld_children m) \<and> children_ok (fo_children uploaded) \<and>
     (\<forall>n i. pattern_is_match pattern n \<and> hm_get (fo_children uploaded) n = Some i \<longrightarrow>
        hm_get (fo_children (ld_base m)) n = Some i) \<and>
     (\<forall>n i. pattern_is_match pattern n \<and> hm_get (fo_children (ld_base m)) n = Some i \<and>
        (\<forall>k. hm_get (ld_children m) k = Some i \<longrightarrow> pattern_is_match pattern k) \<longrightarrow>
        hm_get (fo_children uploaded) n = Some i)"

text \<open>
  C24. Confinement. In every local folder manifest reachable by creation, reading from a remote manifest, changes of
  the children, changes of the prevent sync pattern, and merges with newer remote manifests, no two names share an
  id, and what would be uploaded has, under a name that matches the pattern, exactly what the remote manifest
  already had: confined local entries never leave the device and confined remote entries are never removed (unless
  the device shows the same entry under a name that does not match). Hash maps may be visited in any order, and remote
  manifests are assumed to give no id two names.
\<close>

theorem confined_entries_stay_local:
  assumes "hash_iter_ok h" "folder_reachable h nfc pattern m"
  shows "uploads_confined pattern m (ld_to_remote h m author timestamp)"
proof -
  have ok: "folder_ok pattern m" using folder_reachable_ok [OF assms] .
  then have c: "children_ok (ld_children m)" "children_ok (fo_children (ld_base m))" by (simp_all add: folder_ok_def)
  have get: "hm_get (fo_children (ld_to_remote h m author timestamp)) = uploaded_entry m"
    using remove_confinement_children(2) [OF assms(1), of m] c by (simp add: children_ok_def)
  have "uploaded_entry m n = Some i"
    if "pattern_is_match pattern n" "hm_get (fo_children (ld_base m)) n = Some i"
      "\<And>k. hm_get (ld_children m) k = Some i \<Longrightarrow> pattern_is_match pattern k" for n i
  proof -
    have "i \<in> set (ld_remote_confinement_points m)" using ok that(1,2) by (auto simp: folder_ok_def)
    moreover have "kept_entry m k \<noteq> Some i" for k using ok that(3) [of k] by (auto simp: kept_entry_Some folder_ok_def)
    ultimately show ?thesis using that(2) by (simp add: uploaded_entry_def)
  qed
  moreover have "children_ok (fo_children (ld_to_remote h m author timestamp))" using uploaded_ok [OF assms(1) c] by simp
  ultimately show ?thesis unfolding uploads_confined_def get using confined_not_uploaded [OF ok] c(1) by blast
qed

lemma demo_folder_upload:
  "fo_children (ld_to_remote demo_iter demo_folder 1 2) = [(''doc'', 9), (''new'', 10), (''a.tmp'', 7)]"
  by (auto simp: folder_evaluation image_iff Let_def)

theorem confined_entries_stay_local_witness:
  "folder_reachable demo_iter no_nfc tmp_pattern demo_folder \<and>
   uploads_confined tmp_pattern demo_folder (ld_to_remote demo_iter demo_folder 1 2) \<and>
   fo_children (ld_to_remote demo_iter demo_folder 1 2) = [(''doc'', 9), (''new'', 10), (''a.tmp'', 7)]"
  by (intro conjI demo_folder_reachable demo_folder_upload
    confined_entries_stay_local [OF demo_iter_ok(1) demo_folder_reachable])

text \<open>
  C27. Round trip of a folder manifest: reading a remote folder manifest under any pattern and turning the result back
  into a remote manifest yields the same entries, id, parent and times, with the next version, signed by the new
  author at the new time; the entries that match the pattern are hidden in between.
\<close>

theorem folder_remote_roundtrip:
  assumes "hash_iter_ok h" "children_ok (fo_children remote)" "fo_version remote + 1 < 2 ^ 32"
  shows "\<exists>children. ld_to_remote h (ld_from_remote h remote pattern) author timestamp =
      remote\<lparr>fo_author := author, fo_timestamp := timestamp, fo_version := fo_version remote + 1, fo_children := children\<rparr> \<and>
    hm_get children = hm_get (fo_children remote) \<and>
    hm_get (ld_children (ld_from_remote h remote pattern)) =
      (\<lambda>n. if pattern_is_match pattern n then None else hm_get (fo_children remote) n) \<and>
    \<not> ld_need_sync (ld_from_remote h remote pattern)"
proof -
  let ?m = "ld_from_remote h remote pattern"
  have wf: "hm_wf (fo_children remote)" using assms(2) by (simp add: children_ok_def)
  have m: "ld_base ?m = remote" "ld_parent ?m = fo_parent remote" "ld_updated ?m = fo_updated remote" "\<not> ld_need_sync ?m"
    by (simp_all add: ld_from_remote_def apply_confinement_from_remote_def split: prod.split)
  have "u32_add (fo_version remote) 1 = fo_version remote + 1" using assms(3) by (simp add: u32_add_def)
  then have "ld_to_remote h ?m author timestamp = remote\<lparr>fo_author := author, fo_timestamp := timestamp,
      fo_version := fo_version remote + 1, fo_children := fo_children (ld_to_remote h ?m author timestamp)\<rparr>"
    by (simp add: m)
  with folder_roundtrip [OF assms(1,2), of pattern author timestamp] from_remote_fields(2) [OF assms(1) wf, of pattern] m(4)
  show ?thesis by (intro exI [of _ "fo_children (ld_to_remote h ?m author timestamp)"] conjI) (auto simp: fun_eq_iff)
qed

theorem folder_remote_roundtrip_witness:
  "\<exists>children. ld_to_remote demo_iter (ld_from_remote demo_iter demo_remote tmp_pattern) 3 4 =
     demo_remote\<lparr>fo_author := 3, fo_timestamp := 4, fo_version := 2, fo_children := children\<rparr> \<and>
     hm_get children ''a.tmp'' = Some 7 \<and>
     hm_get (ld_children (ld_from_remote demo_iter demo_remote tmp_pattern)) ''a.tmp'' = None"
  using folder_remote_roundtrip [OF demo_iter_ok(1) demo_remote_ok, of tmp_pattern 3 4]
  by (auto simp: demo_remote_def pattern_is_match_def tmp_pattern_def)

subsection \<open>Merging\<close>

text \<open>
  C25. Merging the children of a folder. Unless an entry removed remotely was renamed locally to a name that another
  remote entry has, the merge returns; the result gives no id two names and holds exactly the ids that are on both
  sides, or on one side and new or renamed there. An entry of the remote side keeps its remote name, unless only the
  local side renamed it. The names of the local side are ASCII and the two sides hold fewer than fifty million
  entries. A merge in which one side made no change yields the other side, whatever the iteration order; no name is
  invented.
\<close>

theorem merge_children_complete:
  assumes "hash_iter_ok h" "ascii_fixed nfc" "children_ok base" "children_ok local" "children_ok remote"
    "\<not> rename_collision base local remote" "\<forall>n \<in> dom (hm_get local). plain_text n"
    "length local + length remote < 5 * 10 ^ 7"
  shows "(\<exists>m. merge_children h nfc base local remote = Some m \<and> children_ok m \<and>
      (\<forall>i. (\<exists>n. hm_get m n = Some i) \<longleftrightarrow> kept_by_merge base local remote i) \<and>
      (\<forall>n i. hm_get remote n = Some i \<and> kept_by_merge base local remote i \<and>
         \<not> (hm_get base n = Some i \<and> (\<exists>k. hm_get local k = Some i \<and> k \<noteq> n)) \<longrightarrow> hm_get m n = Some i)) \<and>
    (\<exists>m. merge_children h nfc base base remote = Some m \<and> hm_get m = hm_get remote) \<and>
    (\<exists>m. merge_children h nfc base local base = Some m \<and> hm_get m = hm_get local)"
proof (intro conjI)
  show "\<exists>m. merge_children h nfc base local remote = Some m \<and> children_ok m \<and>
      (\<forall>i. (\<exists>n. hm_get m n = Some i) \<longleftrightarrow> kept_by_merge base local remote i) \<and>
      (\<forall>n i. hm_get remote n = Some i \<and> kept_by_merge base local remote i \<and>
         \<not> (hm_get base n = Some i \<and> (\<exists>k. hm_get local k = Some i \<and> k \<noteq> n)) \<longrightarrow> hm_get m n = Some i)"
    by (rule merge_children_three_way [OF assms(1-6) _ assms(8)]) (use assms(7) in auto)
qed (use merge_children_local_unchanged [OF assms(1,3,3,5)] merge_children_remote_unchanged [OF assms(1,3,4,3)] in simp_all)

theorem merge_children_complete_witness:
  "\<exists>m. merge_children demo_iter no_nfc [(''a'', 1)] [(''a'', 1), (''b'', 2)] [(''a'', 1), (''b'', 3)] = Some m \<and>
     (\<exists>n. hm_get m n = Some 2) \<and> hm_get m ''b'' = Some 3"
proof -
  let ?b = "[(''a'', 1 :: nat)]" and ?l = "[(''a'', 1 :: nat), (''b'', 2)]" and ?r = "[(''a'', 1 :: nat), (''b'', 3)]"
  have ok: "children_ok ?b" "children_ok ?l" "children_ok ?r" by (auto simp: children_ok_def unique_ids_def split: if_split_asm)
  have names: "\<forall>n \<in> dom (hm_get ?l). plain_text n" by (auto simp: plain_text_def split: if_split_asm)
  have no: "\<not> rename_collision ?b ?l ?r" by (auto simp: rename_collision_def split: if_split_asm)
  have kept: "kept_by_merge ?b ?l ?r 2" "kept_by_merge ?b ?l ?r 3" by (auto simp: kept_by_merge_def)
  obtain m where m: "merge_children demo_iter no_nfc ?b ?l ?r = Some m"
    "\<And>i. (\<exists>n. hm_get m n = Some i) \<longleftrightarrow> kept_by_merge ?b ?l ?r i"
    "\<And>n i. hm_get ?r n = Some i \<and> kept_by_merge ?b ?l ?r i \<and>
       \<not> (hm_get ?b n = Some i \<and> (\<exists>k. hm_get ?l k = Some i \<and> k \<noteq> n)) \<Longrightarrow> hm_get m n = Some i"
    using merge_children_complete [OF demo_iter_ok(1) no_nfc_ascii ok no names] by auto
  have "hm_get m ''b'' = Some 3" by (rule m(3)) (use kept(2) in simp)
  with m(1) m(2) [of 2] kept(1) show ?thesis by blast
qed

text \<open>
  C28. The search for a name without conflict returns: among fewer than 10 ^ 8 reserved names, a free valid name is
  found for every ASCII name.
\<close>

theorem conflict_name_found:
  assumes "ascii_fixed nfc" "plain_text name" "finite R" "card R < 10 ^ 8"
  shows "\<exists>n. get_conflict_filename nfc name FILENAME_CONFLICT_SUFFIX (\<lambda>x. x \<in> R) = Some n \<and> n \<notin> R \<and> valid_name nfc n"
  using get_conflict_filename_returns [OF assms] .

theorem conflict_name_found_witness:
  "\<exists>n. get_conflict_filename no_nfc ''a.txt'' FILENAME_CONFLICT_SUFFIX
     (\<lambda>x. x \<in> {''a.txt'', ''a (Parsec - name conflict).txt''}) = Some n \<and>
     n \<notin> {''a.txt'', ''a (Parsec - name conflict).txt''} \<and> valid_name no_nfc n"
  by (rule conflict_name_found) (simp_all add: no_nfc_ascii plain_text_def)

text \<open>
  C26. Merging a file manifest that needs a synchronisation with a newer one of another device, for valid manifests
  whose views have the id of their block. If the local content is not the one of the base up to some address followed
  by zeros, the merge is a conflict when the remote content differs from the base, and keeps the local content
  otherwise. If the local manifest has exactly the views of its base, the content of the remote manifest is taken,
  without conflict. In between it is one of these outcomes: a file that the device changed only by turning its end to
  zeros, at the same size, may count as unchanged, and its change is then lost. In every merge the local parent is
  kept if only it changed, the remote one otherwise, and the result needs a synchronisation exactly when the local
  content is kept or the parent is not the remote one.
\<close>

theorem file_merge_decides:
  assumes remote: "valid_remote remote"
    and local: "valid_remote (lf_base local)" "lf_in_range local" "lf_check_data_integrity local = Some (Inr ())" "access_ids_match local"
    and newer: "fm_version (lf_base local) < fm_version remote" "lf_need_sync local" "fm_author remote \<noteq> author"
  shows "((\<nexists>n. base_up_to n local) \<longrightarrow> merge_local_file_manifest author timestamp local remote =
      Some (if same_content remote (lf_base local) then FileMerged (merged_file timestamp local remote True)
            else FileConflict remote)) \<and>
    (views_of_base local \<longrightarrow> merge_local_file_manifest author timestamp local remote =
      Some (FileMerged (merged_file timestamp local remote False))) \<and>
    (\<exists>keep. merge_local_file_manifest author timestamp local remote =
      Some (if keep \<and> \<not> same_content remote (lf_base local) then FileConflict remote
            else FileMerged (merged_file timestamp local remote keep)))"
proof -
  have "0 < fm_blocksize remote" "blocks_in_range (fm_blocks remote)" "fm_check_data_integrity remote = Inr ()"
    "fm_size remote + fm_blocksize remote < u64_bound" using remote by (simp_all add: valid_remote_def)
  note merge = merge_file_other_device [OF this newer, of timestamp]
  have "(\<nexists>n. base_up_to n local) \<Longrightarrow> local_content_changed local"
    using unchanged_is_base_up_to [OF local] by blast
  with merge views_of_base_unchanged [OF local(1)] show ?thesis by auto
qed

definition demo_newer :: file_manifest where
  "demo_newer = sample_remote\<lparr>fm_version := 5\<rparr>"

definition demo_local_file :: local_file_manifest where
  "demo_local_file = \<lparr>lf_base = sample_remote, lf_parent = 3, lf_need_sync = True, lf_updated = 7, lf_size = 5,
     lf_blocksize = 8, lf_blocks = []\<rparr>"


theorem file_merge_decides_witness:
  "merge_local_file_manifest 8 30 demo_local_file demo_newer =
     Some (FileMerged (demo_local_file\<lparr>lf_base := demo_newer, lf_updated := 30\<rparr>)) \<and>
   merge_local_file_manifest 8 30 demo_local_file (demo_newer\<lparr>fm_size := 21\<rparr>) = Some (FileConflict (demo_newer\<lparr>fm_size := 21\<rparr>))"
proof -
  have remote: "valid_remote demo_newer" "valid_remote (demo_newer\<lparr>fm_size := 21\<rparr>)" "valid_remote (lf_base demo_local_file)"
    by (simp_all add: valid_remote_def demo_newer_def demo_local_file_def sample_remote_def blocks_in_range_def block_stop_def
        u64_bound_def fm_check_data_integrity_def fm_check_block_def u64_add_def u64_sub_def ensure_def)
  have local: "lf_in_range demo_local_file" "lf_check_data_integrity demo_local_file = Some (Inr ())"
    "access_ids_match demo_local_file"
    by (simp_all add: demo_local_file_def lf_in_range_def u64_bound_def lf_check_data_integrity_def access_ids_match_def
        sample_remote_def ensure_def)
  have changed: "\<nexists>n. base_up_to n demo_local_file" by (simp add: base_up_to_def demo_local_file_def sample_remote_def)
  note decide = file_merge_decides [OF _ remote(3) local, THEN conjunct1, THEN mp, OF _ _ _ _ changed]
  show ?thesis
    using decide [OF remote(1), of 8 30] decide [OF remote(2), of 8 30]
    by (simp add: demo_newer_def demo_local_file_def sample_remote_def same_content_def merged_file_def)
qed

subsection \<open>Paths\<close>

text \<open>
  C29. Parsing and printing paths: what parses is a path of valid names, and printing a path of valid names gives a
  text that parses to it. The normalisation of names is any idempotent function.
\<close>

theorem path_roundtrip:
  assumes "\<And>s. nfc (nfc s) = nfc s"
  shows "(fp_from_str nfc s = Inr p \<longrightarrow> path_ok nfc p) \<and>
    (path_ok nfc p \<longrightarrow> fp_from_str nfc (fp_display p) = Inr p)"
  using fp_from_str_ok [OF assms, of s p] fp_from_str_display [of nfc p] by simp

theorem path_roundtrip_witness:
  "fp_from_str no_nfc ''/a/./b//../c'' = Inr \<lparr>fp_parts = [''a'', ''c'']\<rparr> \<and>
   fp_from_str no_nfc (fp_display \<lparr>fp_parts = [''a'', ''c'']\<rparr>) = Inr \<lparr>fp_parts = [''a'', ''c'']\<rparr>"
proof -
  have "no_nfc (no_nfc s) = no_nfc s" for s by (simp add: no_nfc_def)
  moreover have "fp_from_str no_nfc ''/a/./b//../c'' = Inr \<lparr>fp_parts = [''a'', ''c'']\<rparr>" by code_simp
  ultimately show ?thesis using path_roundtrip [of no_nfc "''/a/./b//../c''" "\<lparr>fp_parts = [''a'', ''c'']\<rparr>"] by simp
qed

subsection \<open>Where the code departs from its intent\<close>

declare conflict_loop.simps [code]



end
