(* ===== verification/Tree_Links.thy ===== *)
theory Tree_Links
  imports Prelude "HOL-Library.Sublist"
begin

text \<open>
  Trees as a relation of named links between ids: \<open>L p n i\<close> when the folder \<open>p\<close> has the entry \<open>i\<close> under the name
  \<open>n\<close>. \<open>leads L p q i\<close> says that the path \<open>q\<close> goes from \<open>p\<close> to \<open>i\<close>. The lemmas say what cutting a link and
  adding one do to the paths from a root.
\<close>

type_synonym 'n links = "vlob_id \<Rightarrow> 'n \<Rightarrow> vlob_id \<Rightarrow> bool"

inductive leads :: "'n links \<Rightarrow> vlob_id \<Rightarrow> 'n list \<Rightarrow> vlob_id \<Rightarrow> bool" for L p where
  here: "leads L p [] p"
| step: "leads L p q j \<Longrightarrow> L j n i \<Longrightarrow> leads L p (q @ [n]) i"

inductive_cases leads_snocE: "leads L p (q @ [n]) i"
inductive_cases leads_NilE: "leads L p [] i"

lemma leads_Nil [simp]: "leads L p [] i \<longleftrightarrow> i = p"
  by (auto elim: leads_NilE intro: here)

lemma leads_snoc: "leads L p (q @ [n]) i \<longleftrightarrow> (\<exists>j. leads L p q j \<and> L j n i)"
  by (auto elim: leads_snocE intro: step)

lemma leads_append: "leads L p (q @ q') i \<longleftrightarrow> (\<exists>j. leads L p q j \<and> leads L j q' i)"
proof (induction q' arbitrary: i rule: rev_induct)
  case (snoc n q')
  have "leads L p (q @ q' @ [n]) i \<longleftrightarrow> (\<exists>k. leads L p (q @ q') k \<and> L k n i)"
    using leads_snoc [of L p "q @ q'"] by simp
  then show ?case using snoc.IH by (auto simp: leads_snoc)
qed simp

lemma leads_Cons: "leads L p (n # q) i \<longleftrightarrow> (\<exists>j. L p n j \<and> leads L j q i)"
  using leads_append [of L p "[n]" q i] leads_snoc [of L p "[]" n] by auto

subsection \<open>Trees\<close>

text \<open>A name leads to one entry, an entry has one place, and the root has none.\<close>

definition link_tree :: "'n links \<Rightarrow> vlob_id \<Rightarrow> bool" where
  "link_tree L r \<longleftrightarrow> (\<forall>p n i i'. L p n i \<and> L p n i' \<longrightarrow> i = i') \<and>
     (\<forall>p n p' n' i. L p n i \<and> L p' n' i \<longrightarrow> p = p' \<and> n = n') \<and> (\<forall>p n. \<not> L p n r)"

lemma link_tree_sub: "link_tree L r \<Longrightarrow> (\<And>p n i. L' p n i \<Longrightarrow> L p n i) \<Longrightarrow> link_tree L' r"
  unfolding link_tree_def by blast

lemma leads_fun: "link_tree L r \<Longrightarrow> leads L p q i \<Longrightarrow> leads L p q i' \<Longrightarrow> i = i'"
proof (induction q arbitrary: i i' rule: rev_induct)
  case (snoc n q)
  then show ?case unfolding leads_snoc link_tree_def by metis
qed simp

lemma leads_unique: "link_tree L r \<Longrightarrow> leads L r q i \<Longrightarrow> leads L r q' i \<Longrightarrow> q = q'"
proof (induction q arbitrary: i q' rule: rev_induct)
  case Nil
  then show ?case by (cases q' rule: rev_cases) (auto simp: leads_snoc link_tree_def)
next
  case (snoc n q)
  then obtain j where j: "leads L r q j" "L j n i" by (auto simp: leads_snoc)
  show ?case
  proof (cases q' rule: rev_cases)
    case Nil
    with snoc.prems j show ?thesis by (auto simp: link_tree_def)
  next
    case (snoc q'' n')
    then obtain j' where j': "leads L r q'' j'" "L j' n' i" using snoc.prems(3) by (auto simp: leads_snoc)
    then have "j' = j" "n' = n" using j(2) snoc.prems(1) unfolding link_tree_def by blast+
    with snoc.IH [OF snoc.prems(1) j(1)] j' snoc show ?thesis by blast
  qed
qed

text \<open>An entry with no place is above nothing that the root leads to.\<close>

lemma detached_apart:
  assumes tree: "link_tree L r" and cut: "\<And>p n. \<not> L p n c" "c \<noteq> r"
  shows "leads L c s p \<Longrightarrow> leads L r q p \<Longrightarrow> False"
proof (induction s arbitrary: p q rule: rev_induct)
  case Nil
  with cut show ?case by (cases q rule: rev_cases) (auto simp: leads_snoc)
next
  case (snoc n s)
  then obtain j where j: "leads L c s j" "L j n p" by (auto simp: leads_snoc)
  have "p \<noteq> r" using j(2) tree by (auto simp: link_tree_def)
  then obtain q' n' j' where j': "leads L r q' j'" "L j' n' p"
    using snoc.prems(2) by (cases q rule: rev_cases) (auto simp: leads_snoc)
  then have "j' = j" using j(2) tree unfolding link_tree_def by blast
  with snoc.IH j(1) j'(1) show ?case by blast
qed

subsection \<open>Cutting a link\<close>

definition cut_link :: "'n links \<Rightarrow> vlob_id \<Rightarrow> 'n \<Rightarrow> 'n links" where
  "cut_link L p n = (\<lambda>p' n' i. L p' n' i \<and> \<not> (p' = p \<and> n' = n))"

lemma cut_link_iff: "cut_link L p n p' n' i \<longleftrightarrow> L p' n' i \<and> \<not> (p' = p \<and> n' = n)"
  by (simp add: cut_link_def)

lemma cut_link_tree: "link_tree L r \<Longrightarrow> link_tree (cut_link L p n) r"
  by (rule link_tree_sub [of L]) (auto simp: cut_link_iff)

lemma leads_cut_apart:
  assumes "\<And>s. \<not> leads L c s p" shows "leads (cut_link L p n) c q i \<longleftrightarrow> leads L c q i"
proof (induction q arbitrary: i rule: rev_induct)
  case (snoc m q)
  then show ?case using assms by (auto simp: leads_snoc cut_link_iff)
qed simp

lemma leads_cut:
  assumes tree: "link_tree L r" and p: "leads L r q0 p"
  shows "leads (cut_link L p n) r q i \<longleftrightarrow> leads L r q i \<and> \<not> prefix (q0 @ [n]) q"
proof (induction q arbitrary: i rule: rev_induct)
  case (snoc m q)
  have at: "leads L r q p \<longleftrightarrow> q = q0" using leads_unique [OF tree _ p] p by blast
  have "leads (cut_link L p n) r (q @ [m]) i \<longleftrightarrow> (\<exists>j. leads L r q j \<and> L j m i \<and> \<not> (j = p \<and> m = n)) \<and> \<not> prefix (q0 @ [n]) q"
    unfolding leads_snoc snoc.IH cut_link_iff by blast
  also have "(\<exists>j. leads L r q j \<and> L j m i \<and> \<not> (j = p \<and> m = n)) \<longleftrightarrow> leads L r (q @ [m]) i \<and> \<not> (q = q0 \<and> m = n)"
    unfolding leads_snoc using at leads_fun [OF tree, of r q _ p] by blast
  finally show ?case by (auto simp: prefix_snoc)
qed simp

subsection \<open>Adding a link\<close>

definition add_link :: "'n links \<Rightarrow> vlob_id \<Rightarrow> 'n \<Rightarrow> vlob_id \<Rightarrow> 'n links" where
  "add_link L p n i = (\<lambda>p' n' i'. L p' n' i' \<or> p' = p \<and> n' = n \<and> i' = i)"

lemma add_link_iff: "add_link L p n i p' n' i' \<longleftrightarrow> L p' n' i' \<or> p' = p \<and> n' = n \<and> i' = i"
  by (simp add: add_link_def)

lemma add_link_tree:
  "link_tree L r \<Longrightarrow> (\<And>i. \<not> L p n i) \<Longrightarrow> (\<And>p n. \<not> L p n c) \<Longrightarrow> c \<noteq> r \<Longrightarrow> link_tree (add_link L p n c) r"
  unfolding link_tree_def add_link_iff by blast

lemma leads_add_apart:
  assumes "\<And>s. \<not> leads L d s p" shows "leads (add_link L p n c) d q i \<longleftrightarrow> leads L d q i"
proof (induction q arbitrary: i rule: rev_induct)
  case (snoc m q)
  then show ?case using assms by (auto simp: leads_snoc add_link_iff)
qed simp

lemma leads_add:
  assumes tree: "link_tree L r" and p: "leads L r q0 p" and cut: "\<And>p n. \<not> L p n c" "c \<noteq> r"
  shows "leads (add_link L p n c) r q i \<longleftrightarrow> leads L r q i \<or> (\<exists>s. q = q0 @ n # s \<and> leads L c s i)"
proof (induction q arbitrary: i rule: rev_induct)
  case (snoc m q)
  have apart: "\<not> leads L c s p" for s using detached_apart [OF tree cut _ p] by blast
  have at: "leads L r q p \<longleftrightarrow> q = q0" using leads_unique [OF tree _ p] p by blast
  have "leads (add_link L p n c) r (q @ [m]) i \<longleftrightarrow>
      (\<exists>j. (leads L r q j \<or> (\<exists>s. q = q0 @ n # s \<and> leads L c s j)) \<and> (L j m i \<or> j = p \<and> m = n \<and> i = c))"
    unfolding leads_snoc snoc.IH add_link_iff ..
  also have "\<dots> \<longleftrightarrow> leads L r (q @ [m]) i \<or> q = q0 \<and> m = n \<and> i = c \<or> (\<exists>s. q = q0 @ n # s \<and> leads L c (s @ [m]) i)"
    using apart at by (auto simp: leads_snoc)
  also have "\<dots> \<longleftrightarrow> leads L r (q @ [m]) i \<or> (\<exists>s. q @ [m] = q0 @ n # s \<and> leads L c s i)"
    (is "_ \<or> ?a \<or> ?b \<longleftrightarrow> _ \<or> ?c")
  proof -
    have "?a \<or> ?b \<longleftrightarrow> ?c"
    proof
      assume ?c
      then obtain s where s: "q @ [m] = q0 @ n # s" "leads L c s i" by blast
      then show "?a \<or> ?b" by (cases s rule: rev_cases) auto
    qed force
    then show ?thesis by blast
  qed
  finally show ?case .
qed auto

subsection \<open>Moving an entry\<close>

text \<open>The links after the entry of a place takes another place, and after two entries have changed places.\<close>

definition move_link :: "'n links \<Rightarrow> vlob_id \<Rightarrow> 'n \<Rightarrow> vlob_id \<Rightarrow> 'n \<Rightarrow> vlob_id \<Rightarrow> 'n links" where
  "move_link L p n p' n' c = add_link (cut_link (cut_link L p n) p' n') p' n' c"

lemma move_link_tree:
  assumes tree: "link_tree L r" and c: "L p n c"
  shows "link_tree (move_link L p n p' n' c) r"
proof -
  have "c \<noteq> r" using tree c unfolding link_tree_def by blast
  moreover have "\<not> cut_link (cut_link L p n) p' n' k m c" for k m
    using tree c unfolding link_tree_def cut_link_iff by blast
  ultimately show ?thesis unfolding move_link_def
    by (intro add_link_tree cut_link_tree tree) (auto simp: cut_link_iff)
qed

lemma leads_below:
  assumes tree: "link_tree L r" and c: "leads L r src c"
  shows "leads L c s i \<longleftrightarrow> leads L r (src @ s) i"
  unfolding leads_append using c leads_fun [OF tree _ c] by blast

lemma leads_move:
  assumes tree: "link_tree L r" and p: "leads L r q p" "L p n c" and p': "leads L r q' p'"
    and apart: "\<not> prefix (q @ [n]) q'"
  shows "leads (move_link L p n p' n' c) r w i \<longleftrightarrow>
    leads L r w i \<and> \<not> prefix (q @ [n]) w \<and> \<not> prefix (q' @ [n']) w \<or> (\<exists>s. w = q' @ n' # s \<and> leads L r (q @ n # s) i)"
proof -
  let ?L1 = "cut_link L p n" and ?L2 = "cut_link (cut_link L p n) p' n'"
  have c: "leads L r (q @ [n]) c" using p by (auto simp: leads_snoc)
  note below = leads_below [OF tree c]
  have t1: "link_tree ?L1 r" and t2: "link_tree ?L2 r" by (intro cut_link_tree tree)+
  have r1: "leads ?L1 r w i \<longleftrightarrow> leads L r w i \<and> \<not> prefix (q @ [n]) w" for w i by (rule leads_cut [OF tree p(1)])
  then have p1: "leads ?L1 r q' p'" using p' apart by blast
  have r2: "leads ?L2 r w i \<longleftrightarrow> leads L r w i \<and> \<not> prefix (q @ [n]) w \<and> \<not> prefix (q' @ [n']) w" for w i
    using leads_cut [OF t1 p1] r1 by simp
  then have p2: "leads ?L2 r q' p'" using p' apart by (auto simp: prefix_def)
  have cut: "\<not> ?L2 k m c" for k m using tree p(2) unfolding link_tree_def cut_link_iff by metis
  have cr: "c \<noteq> r" using tree p(2) by (auto simp: link_tree_def)
  have "\<not> leads L c s p" for s unfolding below using leads_unique [OF tree p(1), of "(q @ [n]) @ s"] by auto
  then have c1: "leads ?L1 c s i \<longleftrightarrow> leads L c s i" for s i by (rule leads_cut_apart)
  have "\<not> leads L c s p'" for s unfolding below using leads_unique [OF tree p', of "(q @ [n]) @ s"] apart by auto
  then have c2: "leads ?L2 c s i \<longleftrightarrow> leads L c s i" for s i using leads_cut_apart [of ?L1 c p'] c1 by simp
  show ?thesis unfolding move_link_def using leads_add [OF t2 p2 cut cr] r2 c2 below by auto
qed

definition exchange_links :: "'n links \<Rightarrow> vlob_id \<Rightarrow> 'n \<Rightarrow> vlob_id \<Rightarrow> vlob_id \<Rightarrow> 'n \<Rightarrow> vlob_id \<Rightarrow> 'n links" where
  "exchange_links L p n c p' n' c' = add_link (move_link L p n p' n' c) p n c'"

lemma leads_exchange:
  assumes tree: "link_tree L r" and p: "leads L r q p" "L p n c" and p': "leads L r q' p'" "L p' n' c'"
    and apart: "\<not> prefix (q @ [n]) (q' @ [n'])" "\<not> prefix (q' @ [n']) (q @ [n])"
  shows "leads (exchange_links L p n c p' n' c') r w i \<longleftrightarrow>
    leads L r w i \<and> \<not> prefix (q @ [n]) w \<and> \<not> prefix (q' @ [n']) w \<or>
    (\<exists>s. w = q' @ n' # s \<and> leads L r (q @ n # s) i) \<or> (\<exists>s. w = q @ n # s \<and> leads L r (q' @ n' # s) i)"
proof -
  let ?M = "move_link L p n p' n' c"
  have apart': "\<not> prefix (q @ [n]) q'" "\<not> prefix (q' @ [n']) q"
    using apart by (auto simp: prefix_snoc)
  have c: "leads L r (q @ [n]) c" and c': "leads L r (q' @ [n']) c'" using p p' by (auto simp: leads_snoc)
  note below = leads_below [OF tree c']
  have mt: "link_tree ?M r" by (rule move_link_tree [OF tree p(2)])
  have m: "leads ?M r w i \<longleftrightarrow> leads L r w i \<and> \<not> prefix (q @ [n]) w \<and> \<not> prefix (q' @ [n']) w \<or>
      (\<exists>s. w = q' @ n' # s \<and> leads L r (q @ n # s) i)" for w i
    by (rule leads_move [OF tree p p'(1) apart'(1)])
  have mp: "leads ?M r q p" unfolding m using p(1) apart' by (auto simp: prefix_def)
  have "c' \<noteq> c" using leads_unique [OF tree c, of "q' @ [n']"] c' apart by auto
  then have cut: "\<not> ?M k l c'" for k l
    using tree p'(2) unfolding link_tree_def move_link_def add_link_iff cut_link_iff by metis
  have cr: "c' \<noteq> r" using tree p'(2) by (auto simp: link_tree_def)
  have no: "\<not> leads L c' s p" "\<not> leads L c' s p'" for s
    unfolding below using leads_unique [OF tree p(1), of "(q' @ [n']) @ s"] leads_unique [OF tree p'(1), of "(q' @ [n']) @ s"] apart'
    by auto
  have c1: "leads (cut_link L p n) c' s i \<longleftrightarrow> leads L c' s i" for s i using no(1) by (rule leads_cut_apart)
  have c2: "leads (cut_link (cut_link L p n) p' n') c' s i \<longleftrightarrow> leads L c' s i" for s i
    using leads_cut_apart [of "cut_link L p n" c' p'] no(2) c1 by simp
  have c3: "leads ?M c' s i \<longleftrightarrow> leads L c' s i" for s i
    unfolding move_link_def using leads_add_apart [of "cut_link (cut_link L p n) p' n'" c' p'] no(2) c2 by simp
  show ?thesis unfolding exchange_links_def using leads_add [OF mt mp cut cr] m c3 below by auto
qed

end
