(* ===== verification/Fallible_State.thy ===== *)
theory Fallible_State
  imports Prelude
begin

text \<open>
  Operations of an async method on \<^verbatim>\<open>&mut self\<close>: they take the state, may panic (\<^const>\<open>None\<close>), and
  otherwise leave a state and a \<^verbatim>\<open>Result\<close>. The state is kept on both branches, as in the sources, where
  an early return with \<^verbatim>\<open>?\<close> does not undo what was done before.

  \<open>op_bind\<close> is the \<^verbatim>\<open>?\<close> operator followed by the rest of the method, \<open>op_match\<close> is a \<^verbatim>\<open>match\<close> on the
  whole result.
\<close>

type_synonym ('s, 'e, 'a) op = "'s \<Rightarrow> ('s \<times> ('e + 'a)) option"

definition op_return :: "'a \<Rightarrow> ('s, 'e, 'a) op" where
  "op_return x s = Some (s, Inr x)"

definition op_throw :: "'e \<Rightarrow> ('s, 'e, 'a) op" where
  "op_throw e s = Some (s, Inl e)"

definition op_lift :: "'e + 'a \<Rightarrow> ('s, 'e, 'a) op" where
  "op_lift r s = Some (s, r)"

definition op_match :: "('s, 'e, 'a) op \<Rightarrow> ('e + 'a \<Rightarrow> ('s, 'f, 'b) op) \<Rightarrow> ('s, 'f, 'b) op" where
  "op_match m f s = (case m s of None \<Rightarrow> None | Some (s', r) \<Rightarrow> f r s')"

definition op_bind :: "('s, 'e, 'a) op \<Rightarrow> ('a \<Rightarrow> ('s, 'e, 'b) op) \<Rightarrow> ('s, 'e, 'b) op" where
  "op_bind m f = op_match m (\<lambda>r. case r of Inl e \<Rightarrow> op_throw e | Inr x \<Rightarrow> f x)"

definition op_map_err :: "('e \<Rightarrow> 'f) \<Rightarrow> ('s, 'e, 'a) op \<Rightarrow> ('s, 'f, 'a) op" where
  "op_map_err g m = op_match m (\<lambda>r. case r of Inl e \<Rightarrow> op_throw (g e) | Inr x \<Rightarrow> op_return x)"

definition op_ensure :: "bool \<Rightarrow> 'e \<Rightarrow> ('s, 'e, unit) op" where
  "op_ensure b e = (if b then op_return () else op_throw e)"

text \<open>\<^verbatim>\<open>assert!\<close> and \<^verbatim>\<open>unreachable!\<close>.\<close>

definition op_assert :: "bool \<Rightarrow> ('s, 'e, unit) op" where
  "op_assert b s = (if b then Some (s, Inr ()) else None)"

definition op_modify :: "('s \<Rightarrow> 's) \<Rightarrow> ('s, 'e, unit) op" where
  "op_modify f s = Some (f s, Inr ())"

fun op_iter :: "('a \<Rightarrow> ('s, 'e, unit) op) \<Rightarrow> 'a list \<Rightarrow> ('s, 'e, unit) op" where
  "op_iter f [] = op_return ()"
| "op_iter f (x # xs) = op_bind (f x) (\<lambda>_. op_iter f xs)"

lemma op_bind_Some:
  "op_bind m f s = Some (s', Inr y) \<longleftrightarrow> (\<exists>s1 x. m s = Some (s1, Inr x) \<and> f x s1 = Some (s', Inr y))"
  by (auto simp: op_bind_def op_match_def op_throw_def split: option.split sum.split)

lemma op_bind_throw:
  "op_bind m f s = Some (s', Inl e) \<longleftrightarrow>
     m s = Some (s', Inl e) \<or> (\<exists>s1 x. m s = Some (s1, Inr x) \<and> f x s1 = Some (s', Inl e))"
  by (auto simp: op_bind_def op_match_def op_throw_def split: option.split sum.split)

lemma op_bind_None:
  "op_bind m f s = None \<longleftrightarrow> m s = None \<or> (\<exists>s1 x. m s = Some (s1, Inr x) \<and> f x s1 = None)"
  by (auto simp: op_bind_def op_match_def op_throw_def split: option.split sum.split)

lemmas op_run = op_return_def op_throw_def op_lift_def op_ensure_def op_assert_def op_modify_def
  op_map_err_def op_match_def op_bind_def

lemma op_bindE:
  assumes "op_bind m f s = Some (s', Inr y)"
  obtains s1 x where "m s = Some (s1, Inr x)" "f x s1 = Some (s', Inr y)"
  using assms by (auto simp: op_bind_Some)

lemma op_ensureE:
  assumes "op_ensure b e s = Some (s', Inr u)" obtains b "s' = s"
  using assms by (auto simp: op_ensure_def op_return_def op_throw_def split: if_split_asm)

lemma op_assert_True [simp]: "op_assert True = op_return ()"
  by (rule ext) (simp add: op_assert_def op_return_def)

lemma op_bind_assoc [simp]: "op_bind (op_bind m f) g = op_bind m (\<lambda>x. op_bind (f x) g)"
  by (rule ext) (simp add: op_run split: option.split sum.split)

lemma op_bind_return [simp]: "op_bind (op_return x) f = f x"
  by (rule ext) (simp add: op_run)

end
