(* ===== verification/Workspace_Tree.thy ===== *)
theory Workspace_Tree
  imports Local_Folder_Manifest Update_Lock File_Descriptors Fallible_State
begin

text \<open>
  The manifests of a workspace as the path operations see them: the cache of manifests
  (\<^verbatim>\<open>client/src/workspace/store/cache.rs\<close>) over the local storage and the server, and the access to one manifest
  (\<^verbatim>\<open>store/manifest_access.rs\<close>, \<^verbatim>\<open>store/mod.rs\<close>).

  The cache guarded by its mutex, the storage and the update locks are the record \<open>workspace_tree\<close>. A failing
  database is a list of outcomes, one for each call. What the operations get from outside is the record \<open>tree_env\<close>:
  the device key and the serialisation of local manifests, the server, the clock, the prevent sync pattern, the
  iteration order of hash maps, and \<open>te_wait\<close>, the state in which a task that waits for an event goes on (\<^const>\<open>None\<close>:
  it waits forever). \<^const>\<open>None\<close> as a result is a panic or a call that does not return.
\<close>

record manifests_hash_map =
  mh_manifests :: "(vlob_id, local_child_manifest) hashmap"
  mh_root_manifest_id :: vlob_id

record workspace_tree =
  wt_realm_id :: vlob_id
  wt_manifests :: manifests_hash_map
  wt_locks :: per_manifest_update_lock
  wt_storage :: "workspace_db option"
  wt_faults :: "bool list"
  wt_events :: "ops_event list"

text \<open>The errors that every operation passes on to its caller unchanged.\<close>

datatype access_error =
    AccOffline | AccStopped | AccNoRealmAccess | AccInvalidKeysBundle | AccInvalidCertificate | AccInvalidManifest | AccInternal

datatype server_fetch_manifest_error = SfVlobNotFound | SfRealmNotFound | SfAccess access_error

record tree_env =
  te_dk :: device_key
  te_dump :: "local_child_manifest \<Rightarrow> byte list"
  te_load :: "byte list \<Rightarrow> local_child_manifest option"
  te_fetch :: "vlob_id \<Rightarrow> server_fetch_manifest_error + child_manifest"
  te_iter :: hash_iter
  te_pattern :: prevent_sync_pattern
  te_device_id :: device_id
  te_now :: date_time
  te_can_write :: bool
  te_event :: nat
  te_wait :: "nat \<Rightarrow> workspace_tree \<Rightarrow> workspace_tree option"

type_synonym ('e, 'a) tree_op = "(workspace_tree, 'e, 'a) op"

subsection \<open>The cache of manifests\<close>

definition mh_new :: "local_folder_manifest \<Rightarrow> manifests_hash_map" where
  "mh_new root_manifest =
     \<lparr>mh_manifests = [(fo_id (ld_base root_manifest), LocalFolder root_manifest)],
      mh_root_manifest_id = fo_id (ld_base root_manifest)\<rparr>"

definition mh_clear_all_but_root :: "manifests_hash_map \<Rightarrow> manifests_hash_map option" where
  "mh_clear_all_but_root c =
     map_option (\<lambda>root_manifest. c\<lparr>mh_manifests := hm_insert (mh_root_manifest_id c) root_manifest []\<rparr>)
       (hm_get (mh_manifests c) (mh_root_manifest_id c))"

text \<open>A file as the root manifest is a panic.\<close>

definition mh_id_of :: "manifests_hash_map \<Rightarrow> local_child_manifest \<Rightarrow> vlob_id option" where
  "mh_id_of c manifest =
     (case manifest of
        LocalFile m \<Rightarrow> if fm_id (lf_base m) \<noteq> mh_root_manifest_id c then Some (fm_id (lf_base m)) else None
      | LocalFolder m \<Rightarrow> Some (fo_id (ld_base m)))"

definition mh_insert :: "local_child_manifest \<Rightarrow> manifests_hash_map \<Rightarrow> manifests_hash_map option" where
  "mh_insert manifest c =
     map_option (\<lambda>i. c\<lparr>mh_manifests := hm_insert i manifest (mh_manifests c)\<rparr>) (mh_id_of c manifest)"

definition mh_insert_if_missing ::
  "local_child_manifest \<Rightarrow> manifests_hash_map \<Rightarrow> (manifests_hash_map \<times> local_child_manifest) option" where
  "mh_insert_if_missing manifest c =
     map_option (\<lambda>i. case hm_get (mh_manifests c) i of
         None \<Rightarrow> (c\<lparr>mh_manifests := hm_insert i manifest (mh_manifests c)\<rparr>, manifest)
       | Some present \<Rightarrow> (c, present)) (mh_id_of c manifest)"

definition mh_root_manifest :: "manifests_hash_map \<Rightarrow> local_folder_manifest option" where
  "mh_root_manifest c =
     (case hm_get (mh_manifests c) (mh_root_manifest_id c) of Some (LocalFolder m) \<Rightarrow> Some m | _ \<Rightarrow> None)"

definition wt_get :: "workspace_tree \<Rightarrow> vlob_id \<Rightarrow> local_child_manifest option" where
  "wt_get s = hm_get (mh_manifests (wt_manifests s))"

definition wt_insert :: "local_child_manifest \<Rightarrow> ('e, unit) tree_op" where
  "wt_insert manifest s = map_option (\<lambda>c. (s\<lparr>wt_manifests := c\<rparr>, Inr ())) (mh_insert manifest (wt_manifests s))"

definition wt_insert_if_missing :: "local_child_manifest \<Rightarrow> ('e, local_child_manifest) tree_op" where
  "wt_insert_if_missing manifest s =
     map_option (\<lambda>(c, m). (s\<lparr>wt_manifests := c\<rparr>, Inr m)) (mh_insert_if_missing manifest (wt_manifests s))"

subsection \<open>The storage\<close>

definition with_storage :: "'e \<Rightarrow> 'e \<Rightarrow> (workspace_db \<Rightarrow> workspace_db \<times> 'a) \<Rightarrow> ('e, 'a) tree_op" where
  "with_storage stopped failed query s =
     (case wt_storage s of
        None \<Rightarrow> Some (s, Inl stopped)
      | Some db \<Rightarrow>
          let fails = (wt_faults s \<noteq> [] \<and> hd (wt_faults s)); s = s\<lparr>wt_faults := tl (wt_faults s)\<rparr> in
          if fails then Some (s, Inl failed)
          else let (db, x) = query db in Some (s\<lparr>wt_storage := Some db\<rparr>, Inr x))"

text \<open>\<^verbatim>\<open>dump_and_encrypt\<close> checks the integrity of a file, that of a folder always holds.\<close>

definition child_dump_and_encrypt :: "tree_env \<Rightarrow> local_child_manifest \<Rightarrow> byte list option" where
  "child_dump_and_encrypt env manifest =
     (case manifest of
        LocalFile m \<Rightarrow> do { lf_integrity_expect m; Some (dk_encrypt (te_dk env) (te_dump env manifest)) }
      | LocalFolder m \<Rightarrow>
          (case ld_check_data_integrity m of
             Inl _ \<Rightarrow> None
           | Inr _ \<Rightarrow> Some (dk_encrypt (te_dk env) (te_dump env manifest))))"

definition child_decrypt_and_load :: "tree_env \<Rightarrow> byte list \<Rightarrow> (data_error + local_child_manifest) option" where
  "child_decrypt_and_load env encrypted =
     (case dk_decrypt (te_dk env) encrypted of
        None \<Rightarrow> Some (Inl Decryption)
      | Some serialized \<Rightarrow>
          (case te_load env serialized of
             None \<Rightarrow> Some (Inl BadSerialization)
           | Some manifest \<Rightarrow>
               map_option (\<lambda>r. and_then r (\<lambda>_. Inr manifest)) (lc_check_data_integrity manifest)))"

definition child_update_data :: "tree_env \<Rightarrow> local_child_manifest \<Rightarrow> update_manifest_data option" where
  "child_update_data env manifest =
     map_option (\<lambda>encrypted. \<lparr>ud_entry_id = lc_id manifest, ud_encrypted = encrypted,
         ud_need_sync = lc_need_sync manifest, ud_base_version = lc_base_version manifest\<rparr>)
       (child_dump_and_encrypt env manifest)"

definition op_option :: "'a option \<Rightarrow> ('e, 'a) tree_op" where
  "op_option x s = map_option (\<lambda>x. (s, Inr x)) x"

subsection \<open>Populating the cache\<close>

datatype populate_local_error = PopLocalStopped | PopLocalEntryNotFound | PopLocalInternal

definition populate_cache_from_local_storage :: "tree_env \<Rightarrow> vlob_id \<Rightarrow> (populate_local_error, local_child_manifest) tree_op" where
  "populate_cache_from_local_storage env entry_id =
     op_bind (with_storage PopLocalStopped PopLocalInternal (\<lambda>db. (db, db_get_manifest db entry_id))) (\<lambda>maybe_found.
     case maybe_found of
       None \<Rightarrow> op_throw PopLocalEntryNotFound
     | Some encrypted \<Rightarrow>
         op_bind (op_option (child_decrypt_and_load env encrypted)) (\<lambda>outcome.
         case outcome of
           Inl _ \<Rightarrow> op_throw PopLocalInternal
         | Inr manifest \<Rightarrow> wt_insert_if_missing manifest))"

datatype populate_error = PopEntryNotFound | PopAccess access_error

fun populate_error_of_fetch :: "server_fetch_manifest_error \<Rightarrow> populate_error" where
  "populate_error_of_fetch SfVlobNotFound = PopEntryNotFound"
| "populate_error_of_fetch SfRealmNotFound = PopEntryNotFound"
| "populate_error_of_fetch (SfAccess e) = PopAccess e"

definition local_of_remote :: "tree_env \<Rightarrow> child_manifest \<Rightarrow> local_child_manifest option" where
  "local_of_remote env manifest =
     (case manifest of
        FileChild m \<Rightarrow> map_option LocalFile (lf_from_remote m)
      | FolderChild m \<Rightarrow> Some (LocalFolder (ld_from_remote (te_iter env) m (te_pattern env))))"

text \<open>The loop that stores what was fetched, unless a concurrent operation did; its result tells which.\<close>

partial_function (option) populate_storage ::
  "tree_env \<Rightarrow> vlob_id \<Rightarrow> local_child_manifest \<Rightarrow> workspace_tree \<Rightarrow>
   (workspace_tree \<times> (populate_error + (local_child_manifest, local_child_manifest) sum)) option" where
  "populate_storage env entry_id manifest s =
     (case op_bind (op_option (child_update_data env manifest))
             (\<lambda>update_data. with_storage (PopAccess AccStopped) (PopAccess AccInternal) (db_populate_manifest update_data)) s of
        None \<Rightarrow> None
      | Some (s, Inl e) \<Rightarrow> Some (s, Inl e)
      | Some (s, Inr Stored) \<Rightarrow> Some (s, Inr (Inl manifest))
      | Some (s, Inr AlreadyPresent) \<Rightarrow>
          (case populate_cache_from_local_storage env entry_id s of
             None \<Rightarrow> None
           | Some (s, Inr manifest) \<Rightarrow> Some (s, Inr (Inr manifest))
           | Some (s, Inl PopLocalEntryNotFound) \<Rightarrow> populate_storage env entry_id manifest s
           | Some (s, Inl PopLocalStopped) \<Rightarrow> Some (s, Inl (PopAccess AccStopped))
           | Some (s, Inl PopLocalInternal) \<Rightarrow> Some (s, Inl (PopAccess AccInternal))))"

definition populate_cache_from_local_storage_or_server ::
  "tree_env \<Rightarrow> vlob_id \<Rightarrow> (populate_error, local_child_manifest) tree_op" where
  "populate_cache_from_local_storage_or_server env entry_id =
     op_match (populate_cache_from_local_storage env entry_id) (\<lambda>r.
     case r of
       Inr manifest \<Rightarrow> op_return manifest
     | Inl PopLocalStopped \<Rightarrow> op_throw (PopAccess AccStopped)
     | Inl PopLocalInternal \<Rightarrow> op_throw (PopAccess AccInternal)
     | Inl PopLocalEntryNotFound \<Rightarrow>
         (case te_fetch env entry_id of
            Inl e \<Rightarrow> op_throw (populate_error_of_fetch e)
          | Inr remote \<Rightarrow>
              op_bind (op_option (local_of_remote env remote)) (\<lambda>manifest.
              op_bind (populate_storage env entry_id manifest) (\<lambda>r.
              case r of
                Inr manifest \<Rightarrow> op_return manifest
              | Inl manifest \<Rightarrow> wt_insert_if_missing manifest))))"

subsection \<open>Access to a manifest\<close>

definition get_manifest :: "tree_env \<Rightarrow> vlob_id \<Rightarrow> (populate_error, local_child_manifest) tree_op" where
  "get_manifest env entry_id s =
     (case wt_get s entry_id of
        Some manifest \<Rightarrow> Some (s, Inr manifest)
      | None \<Rightarrow> populate_cache_from_local_storage_or_server env entry_id s)"

definition get_root_manifest :: "workspace_tree \<Rightarrow> local_folder_manifest option" where
  "get_root_manifest s = mh_root_manifest (wt_manifests s)"

definition ensure_manifest_exists_with_parent ::
  "tree_env \<Rightarrow> vlob_id \<Rightarrow> vlob_id \<Rightarrow> (access_error, local_child_manifest option) tree_op" where
  "ensure_manifest_exists_with_parent env child_id expected_parent_id =
     op_match (get_manifest env child_id) (\<lambda>r.
     case r of
       Inl PopEntryNotFound \<Rightarrow> op_return None
     | Inl (PopAccess e) \<Rightarrow> op_throw e
     | Inr child_manifest \<Rightarrow>
         op_return (if lc_parent child_manifest = expected_parent_id then Some child_manifest else None))"

definition is_entry_locked :: "workspace_tree \<Rightarrow> vlob_id \<Rightarrow> bool" where
  "is_entry_locked s entry_id = lock_is_taken (wt_locks s) entry_id"

end
