(* ===== verification/Path_Resolution.thy ===== *)
theory Path_Resolution
  imports Workspace_Tree Entry_Name
begin

text \<open>
  Paths of the workspace (\<^verbatim>\<open>client/src/workspace/store/resolve_path.rs\<close>): from a path to its manifest, with or
  without its update lock; the source and destination of a move with their locks; and from an id back to its path.

  Each function is a loop around a look at the cache alone: the look ends, or asks for a manifest that is not in the
  cache, or for a lock that another task holds.
\<close>

datatype path_confinement_point = NotConfined | Confined vlob_id

datatype resolve_path_error = ResEntryNotFound | ResAccess access_error

fun resolve_error_of :: "populate_error \<Rightarrow> resolve_path_error" where
  "resolve_error_of PopEntryNotFound = ResEntryNotFound"
| "resolve_error_of (PopAccess e) = ResAccess e"

subsection \<open>A look at the cache\<close>

datatype step_kind = StepRoot | StepChild local_child_manifest path_confinement_point

datatype path_resolution_outcome =
    ResolutionDone local_child_manifest path_confinement_point "vlob_id option"
  | ResolutionEntryNotFound
  | ResolutionNeedPopulateCache vlob_id
  | ResolutionNeedWait nat

text \<open>The folder in which the next name is looked up; \<open>Some None\<close> is a file.\<close>

definition step_folder :: "workspace_tree \<Rightarrow> step_kind \<Rightarrow> (local_folder_manifest \<times> path_confinement_point) option option" where
  "step_folder s last_step =
     (case last_step of
        StepRoot \<Rightarrow> map_option (\<lambda>m. Some (m, NotConfined)) (mh_root_manifest (wt_manifests s))
      | StepChild (LocalFolder m) confinement \<Rightarrow> Some (Some (m, confinement))
      | StepChild (LocalFile _) _ \<Rightarrow> Some None)"

definition child_confinement :: "local_folder_manifest \<Rightarrow> path_confinement_point \<Rightarrow> vlob_id \<Rightarrow> path_confinement_point" where
  "child_confinement parent parent_confinement child_id =
     (case parent_confinement of
        Confined i \<Rightarrow> Confined i
      | NotConfined \<Rightarrow>
          if child_id \<in> set (ld_local_confinement_points parent) then Confined (fo_id (ld_base parent)) else NotConfined)"

definition resolution_end :: "nat \<Rightarrow> step_kind \<Rightarrow> bool \<Rightarrow> workspace_tree \<Rightarrow> (workspace_tree \<times> path_resolution_outcome) option" where
  "resolution_end event last_step lock_for_update s =
     (let i = (case last_step of StepRoot \<Rightarrow> wt_realm_id s | StepChild manifest _ \<Rightarrow> lc_id manifest);
          (s, guard) =
            (if lock_for_update
             then (case lock_take event i (wt_locks s) of
                     (l, GuardTaken i) \<Rightarrow> (s\<lparr>wt_locks := l\<rparr>, Inr (Some i))
                   | (l, NeedWait event) \<Rightarrow> (s\<lparr>wt_locks := l\<rparr>, Inl event))
             else (s, Inr None))
      in case guard of
           Inl event \<Rightarrow> Some (s, ResolutionNeedWait event)
         | Inr guard \<Rightarrow>
             (case last_step of
                StepChild manifest confinement \<Rightarrow> Some (s, ResolutionDone manifest confinement guard)
              | StepRoot \<Rightarrow>
                  map_option (\<lambda>m. (s, ResolutionDone (LocalFolder m) NotConfined guard)) (mh_root_manifest (wt_manifests s))))"

fun resolution_loop ::
  "nat \<Rightarrow> bool \<Rightarrow> workspace_tree \<Rightarrow> step_kind \<Rightarrow> entry_name list \<Rightarrow> (workspace_tree \<times> path_resolution_outcome) option" where
  "resolution_loop event lock_for_update s last_step [] = resolution_end event last_step lock_for_update s"
| "resolution_loop event lock_for_update s last_step (child_name # path_parts) =
     (case step_folder s last_step of
        None \<Rightarrow> None
      | Some None \<Rightarrow> Some (s, ResolutionEntryNotFound)
      | Some (Some (parent, parent_confinement)) \<Rightarrow>
          (case hm_get (ld_children parent) child_name of
             None \<Rightarrow> Some (s, ResolutionEntryNotFound)
           | Some child_id \<Rightarrow>
               (case wt_get s child_id of
                  None \<Rightarrow> Some (s, ResolutionNeedPopulateCache child_id)
                | Some child \<Rightarrow>
                    if lc_parent child \<noteq> fo_id (ld_base parent) then Some (s, ResolutionEntryNotFound)
                    else resolution_loop event lock_for_update s
                           (StepChild child (child_confinement parent parent_confinement child_id)) path_parts)))"

definition cache_only_path_resolution ::
  "nat \<Rightarrow> entry_name list \<Rightarrow> bool \<Rightarrow> workspace_tree \<Rightarrow> (workspace_tree \<times> path_resolution_outcome) option" where
  "cache_only_path_resolution event path_parts lock_for_update s =
     resolution_loop event lock_for_update s StepRoot path_parts"

subsection \<open>Resolving a path\<close>

partial_function (option) resolve_path_maybe_lock_for_update ::
  "tree_env \<Rightarrow> fs_path \<Rightarrow> bool \<Rightarrow> workspace_tree \<Rightarrow>
   (workspace_tree \<times> (resolve_path_error + local_child_manifest \<times> path_confinement_point \<times> vlob_id option)) option" where
  "resolve_path_maybe_lock_for_update env path lock_for_update s =
     (case cache_only_path_resolution (te_event env) (fp_parts path) lock_for_update s of
        None \<Rightarrow> None
      | Some (s, ResolutionDone manifest confinement guard) \<Rightarrow> Some (s, Inr (manifest, confinement, guard))
      | Some (s, ResolutionEntryNotFound) \<Rightarrow> Some (s, Inl ResEntryNotFound)
      | Some (s, ResolutionNeedPopulateCache i) \<Rightarrow>
          (case populate_cache_from_local_storage_or_server env i s of
             None \<Rightarrow> None
           | Some (s, Inl e) \<Rightarrow> Some (s, Inl (resolve_error_of e))
           | Some (s, Inr _) \<Rightarrow> resolve_path_maybe_lock_for_update env path lock_for_update s)
      | Some (s, ResolutionNeedWait event) \<Rightarrow>
          (case te_wait env event s of
             None \<Rightarrow> None
           | Some s \<Rightarrow> resolve_path_maybe_lock_for_update env path lock_for_update s))"

definition resolve_path_and_lock_for_update ::
  "tree_env \<Rightarrow> fs_path \<Rightarrow> (resolve_path_error, local_child_manifest \<times> path_confinement_point \<times> vlob_id) tree_op" where
  "resolve_path_and_lock_for_update env path =
     op_bind (resolve_path_maybe_lock_for_update env path True) (\<lambda>(manifest, confinement_point, guard).
     op_bind (op_option guard) (\<lambda>guard. op_return (manifest, confinement_point, guard)))"

definition resolve_path ::
  "tree_env \<Rightarrow> fs_path \<Rightarrow> (resolve_path_error, local_child_manifest \<times> path_confinement_point) tree_op" where
  "resolve_path env path =
     op_bind (resolve_path_maybe_lock_for_update env path False) (\<lambda>(manifest, confinement_point, _).
     op_return (manifest, confinement_point))"

subsection \<open>Resolving a move\<close>

record resolve_path_for_reparenting_result =
  rr_src_parent :: local_folder_manifest
  rr_src_parent_guard :: vlob_id
  rr_src_child :: local_child_manifest
  rr_src_child_guard :: vlob_id
  rr_dst_parent :: local_folder_manifest
  rr_dst_parent_guard :: vlob_id
  rr_dst_child :: "local_child_manifest option"
  rr_dst_child_guard :: "vlob_id option"

datatype for_update_reparenting_error = ReparentSourceNotFound | ReparentDestinationNotFound | ReparentAccess access_error

text \<open>The guards that are released when the attempt ends, in the order of the fields of \<^verbatim>\<open>AutoReleaseGuards\<close>.\<close>

record auto_release_guards =
  ag_src_parent :: "vlob_id option"
  ag_src_child :: "vlob_id option"
  ag_dst_parent :: "vlob_id option"
  ag_dst_child :: "vlob_id option"

definition no_guards :: auto_release_guards where
  "no_guards = \<lparr>ag_src_parent = None, ag_src_child = None, ag_dst_parent = None, ag_dst_child = None\<rparr>"

definition release_guard :: "vlob_id \<Rightarrow> workspace_tree \<Rightarrow> workspace_tree option" where
  "release_guard i s = map_option (\<lambda>(l, _). s\<lparr>wt_locks := l\<rparr>) (lock_release i (wt_locks s))"

definition release_maybe :: "vlob_id option \<Rightarrow> workspace_tree \<Rightarrow> workspace_tree option" where
  "release_maybe guard s = (case guard of None \<Rightarrow> Some s | Some i \<Rightarrow> release_guard i s)"

definition drop_guards :: "auto_release_guards \<Rightarrow> workspace_tree \<Rightarrow> workspace_tree option" where
  "drop_guards g s = do {
     s \<leftarrow> release_maybe (ag_src_parent g) s;
     s \<leftarrow> release_maybe (ag_src_child g) s;
     s \<leftarrow> release_maybe (ag_dst_parent g) s;
     release_maybe (ag_dst_child g) s
   }"

datatype who_is_in_need = SrcParent | SrcChild | DstParent | DstChild

datatype reparenting_need = NeedsPopulate vlob_id | NeedsWait nat

datatype reparenting_outcome =
    ReparentFails for_update_reparenting_error
  | ReparentNeeds reparenting_need who_is_in_need
  | ReparentResolved resolve_path_for_reparenting_result

fun not_found_of :: "who_is_in_need \<Rightarrow> for_update_reparenting_error" where
  "not_found_of SrcParent = ReparentSourceNotFound"
| "not_found_of SrcChild = ReparentSourceNotFound"
| "not_found_of DstParent = ReparentDestinationNotFound"
| "not_found_of DstChild = ReparentDestinationNotFound"

text \<open>
  A step of the attempt threads the state and the guards, and ends the attempt or yields a value. The folders that
  contain the source and the destination:
\<close>

type_synonym 'a reparenting_step =
  "workspace_tree \<times> auto_release_guards \<Rightarrow> ((workspace_tree \<times> auto_release_guards) \<times> (reparenting_outcome + 'a)) option"

definition resolve_parent ::
  "nat \<Rightarrow> entry_name list \<Rightarrow> who_is_in_need \<Rightarrow> (vlob_id option \<Rightarrow> auto_release_guards \<Rightarrow> auto_release_guards) \<Rightarrow>
   local_folder_manifest reparenting_step" where
  "resolve_parent event path_parts who set_guard st =
     (let (s, g) = st in
      case cache_only_path_resolution event path_parts True s of
        None \<Rightarrow> None
      | Some (s, ResolutionDone manifest _ None) \<Rightarrow> None
      | Some (s, ResolutionDone manifest _ (Some guard)) \<Rightarrow>
          (case manifest of
             LocalFile _ \<Rightarrow> Some ((s, set_guard (Some guard) g), Inl (ReparentFails (not_found_of who)))
           | LocalFolder m \<Rightarrow> Some ((s, set_guard (Some guard) g), Inr m))
      | Some (s, ResolutionEntryNotFound) \<Rightarrow> Some ((s, g), Inl (ReparentFails (not_found_of who)))
      | Some (s, ResolutionNeedPopulateCache i) \<Rightarrow> Some ((s, g), Inl (ReparentNeeds (NeedsPopulate i) who))
      | Some (s, ResolutionNeedWait event) \<Rightarrow> Some ((s, g), Inl (ReparentNeeds (NeedsWait event) who)))"

definition resolve_child ::
  "nat \<Rightarrow> local_folder_manifest \<Rightarrow> entry_name \<Rightarrow> who_is_in_need \<Rightarrow> (vlob_id option \<Rightarrow> auto_release_guards \<Rightarrow> auto_release_guards) \<Rightarrow>
   local_child_manifest reparenting_step" where
  "resolve_child event parent child_name who set_guard st =
     (let (s, g) = st in
      case hm_get (ld_children parent) child_name of
        None \<Rightarrow> Some ((s, g), Inl (ReparentFails (not_found_of who)))
      | Some child_id \<Rightarrow>
          (case wt_get s child_id of
             None \<Rightarrow> Some ((s, g), Inl (ReparentNeeds (NeedsPopulate child_id) who))
           | Some child \<Rightarrow>
               if lc_parent child \<noteq> fo_id (ld_base parent) then Some ((s, g), Inl (ReparentFails (not_found_of who)))
               else (case lock_take event child_id (wt_locks s) of
                       (l, GuardTaken guard) \<Rightarrow> Some ((s\<lparr>wt_locks := l\<rparr>, set_guard (Some guard) g), Inr child)
                     | (l, NeedWait event) \<Rightarrow> Some ((s\<lparr>wt_locks := l\<rparr>, g), Inl (ReparentNeeds (NeedsWait event) who)))))"

definition reparenting_steps ::
  "nat \<Rightarrow> entry_name list \<Rightarrow> entry_name \<Rightarrow> entry_name list \<Rightarrow> entry_name option \<Rightarrow>
   (workspace_tree \<times> auto_release_guards, reparenting_outcome, local_folder_manifest \<times> local_child_manifest \<times>
     local_folder_manifest \<times> local_child_manifest option) op" where
  "reparenting_steps event src_parent_parts src_child_name dst_parent_parts dst_child_name =
     op_bind (resolve_parent event dst_parent_parts DstParent (\<lambda>i. ag_dst_parent_update (\<lambda>_. i))) (\<lambda>dst_parent.
     op_bind (resolve_parent event src_parent_parts SrcParent (\<lambda>i. ag_src_parent_update (\<lambda>_. i))) (\<lambda>src_parent.
     op_bind (resolve_child event src_parent src_child_name SrcChild (\<lambda>i. ag_src_child_update (\<lambda>_. i))) (\<lambda>src_child.
     op_bind (case dst_child_name of
                None \<Rightarrow> op_return None
              | Some name \<Rightarrow>
                  op_bind (resolve_child event dst_parent name DstChild (\<lambda>i. ag_dst_child_update (\<lambda>_. i)))
                    (\<lambda>child. op_return (Some child))) (\<lambda>dst_child.
     op_return (src_parent, src_child, dst_parent, dst_child)))))"

text \<open>
  When all is locked, the guards are taken out of the structure that would release them. The guard of the destination
  child is read from the field of the destination parent, which has just been emptied.
\<close>

definition defuse_guards ::
  "local_folder_manifest \<times> local_child_manifest \<times> local_folder_manifest \<times> local_child_manifest option \<Rightarrow>
   auto_release_guards \<Rightarrow> (auto_release_guards \<times> resolve_path_for_reparenting_result) option" where
  "defuse_guards manifests g =
     (let (src_parent, src_child, dst_parent, dst_child) = manifests in do {
        src_parent_guard \<leftarrow> ag_src_parent g;
        let g = g\<lparr>ag_src_parent := None\<rparr>;
        src_child_guard \<leftarrow> ag_src_child g;
        let g = g\<lparr>ag_src_child := None\<rparr>;
        dst_parent_guard \<leftarrow> ag_dst_parent g;
        let g = g\<lparr>ag_dst_parent := None\<rparr>;
        let dst_child_guard = ag_dst_parent g;
        Some (g, \<lparr>rr_src_parent = src_parent, rr_src_parent_guard = src_parent_guard, rr_src_child = src_child,
                  rr_src_child_guard = src_child_guard, rr_dst_parent = dst_parent, rr_dst_parent_guard = dst_parent_guard,
                  rr_dst_child = dst_child, rr_dst_child_guard = dst_child_guard\<rparr>)
      })"

definition cache_only_reparenting ::
  "nat \<Rightarrow> entry_name list \<Rightarrow> entry_name \<Rightarrow> entry_name list \<Rightarrow> entry_name option \<Rightarrow> workspace_tree \<Rightarrow>
   (workspace_tree \<times> reparenting_outcome) option" where
  "cache_only_reparenting event src_parent_parts src_child_name dst_parent_parts dst_child_name s =
     (case reparenting_steps event src_parent_parts src_child_name dst_parent_parts dst_child_name (s, no_guards) of
        None \<Rightarrow> None
      | Some ((s, g), Inl outcome) \<Rightarrow> map_option (\<lambda>s. (s, outcome)) (drop_guards g s)
      | Some ((s, g), Inr manifests) \<Rightarrow> do {
          (g, result) \<leftarrow> defuse_guards manifests g;
          s \<leftarrow> drop_guards g s;
          Some (s, ReparentResolved result)
        })"

fun reparent_error_of :: "who_is_in_need \<Rightarrow> populate_error \<Rightarrow> for_update_reparenting_error" where
  "reparent_error_of who PopEntryNotFound = not_found_of who"
| "reparent_error_of who (PopAccess e) = ReparentAccess e"

partial_function (option) resolve_path_for_reparenting ::
  "tree_env \<Rightarrow> fs_path \<Rightarrow> entry_name \<Rightarrow> fs_path \<Rightarrow> entry_name option \<Rightarrow> workspace_tree \<Rightarrow>
   (workspace_tree \<times> (for_update_reparenting_error + resolve_path_for_reparenting_result)) option" where
  "resolve_path_for_reparenting env src_parent_path src_child_name dst_parent_path dst_child_name s =
     (case cache_only_reparenting (te_event env) (fp_parts src_parent_path) src_child_name (fp_parts dst_parent_path) dst_child_name s of
        None \<Rightarrow> None
      | Some (s, ReparentFails e) \<Rightarrow> Some (s, Inl e)
      | Some (s, ReparentResolved result) \<Rightarrow> Some (s, Inr result)
      | Some (s, ReparentNeeds (NeedsPopulate i) who) \<Rightarrow>
          (case populate_cache_from_local_storage_or_server env i s of
             None \<Rightarrow> None
           | Some (s, Inl e) \<Rightarrow> Some (s, Inl (reparent_error_of who e))
           | Some (s, Inr _) \<Rightarrow>
               resolve_path_for_reparenting env src_parent_path src_child_name dst_parent_path dst_child_name s)
      | Some (s, ReparentNeeds (NeedsWait event) _) \<Rightarrow>
          (case te_wait env event s of
             None \<Rightarrow> None
           | Some s \<Rightarrow>
               resolve_path_for_reparenting env src_parent_path src_child_name dst_parent_path dst_child_name s))"

subsection \<open>From an id to its path\<close>

datatype retrieve_path_from_id_entry =
    EntryMissing
  | EntryUnreachable local_child_manifest
  | EntryReachable local_child_manifest fs_path path_confinement_point "vlob_id list"

datatype path_retrieval_outcome =
    RetrievalDone retrieve_path_from_id_entry "vlob_id option"
  | RetrievalNeedPopulateCache vlob_id
  | RetrievalNeedWait nat

text \<open>The walk to the root, and how it ends: at the root, at a broken link, or at a manifest that is not in the cache.\<close>

datatype retrieval_walk = WalkRoot "entry_name list" path_confinement_point "vlob_id list" | WalkBroken | WalkNeeds vlob_id

text \<open>\<^verbatim>\<open>children.iter().find_map(..)\<close>\<close>

definition child_name_of :: "hash_iter \<Rightarrow> local_folder_manifest \<Rightarrow> vlob_id \<Rightarrow> entry_name option" where
  "child_name_of h parent i = map_option fst (find (\<lambda>(_, j). j = i) (hi_children h (ld_children parent)))"

function retrieval_loop ::
  "hash_iter \<Rightarrow> manifests_hash_map \<Rightarrow> vlob_id \<Rightarrow> vlob_id option \<Rightarrow> vlob_id \<Rightarrow> vlob_id \<Rightarrow> vlob_id list \<Rightarrow> entry_name list \<Rightarrow>
   vlob_id list \<Rightarrow> path_confinement_point \<Rightarrow> retrieval_walk" where
  "retrieval_loop h c entry_id last_not_found_during_populate current_entry_id current_parent_id seen parts entry_chain confinement =
     (if current_entry_id = mh_root_manifest_id c then WalkRoot parts confinement entry_chain
      else
        (case hm_get (mh_manifests c) current_parent_id of
           Some (LocalFile _) \<Rightarrow> WalkBroken
         | None \<Rightarrow> if last_not_found_during_populate = Some entry_id then WalkBroken else WalkNeeds current_parent_id
         | Some (LocalFolder parent) \<Rightarrow>
             (case child_name_of h parent current_entry_id of
                None \<Rightarrow> WalkBroken
              | Some child_name \<Rightarrow>
                  if current_parent_id \<in> set seen then WalkBroken
                  else retrieval_loop h c entry_id last_not_found_during_populate current_parent_id (ld_parent parent)
                         (current_parent_id # seen) (parts @ [child_name]) (entry_chain @ [current_parent_id])
                         (if current_entry_id \<in> set (ld_local_confinement_points parent) then Confined current_parent_id
                          else confinement))))"
  by pat_completeness auto

termination
proof (relation "measure (\<lambda>(h, c, entry_id, not_found, current, parent, seen, parts, chain, confinement).
    card (fst ` set (mh_manifests c) - set seen))", goal_cases)
  case (2 h c entry_id not_found current parent seen parts chain confinement m m' name)
  then have "parent \<in> fst ` set (mh_manifests c)" by (force dest: map_of_SomeD)
  then have "fst ` set (mh_manifests c) - set (parent # seen) \<subset> fst ` set (mh_manifests c) - set seen" using 2 by auto
  then show ?case by (simp add: psubset_card_mono)
qed simp

declare retrieval_loop.simps [simp del]

definition retrieval_end ::
  "nat \<Rightarrow> vlob_id \<Rightarrow> bool \<Rightarrow> retrieve_path_from_id_entry \<Rightarrow> workspace_tree \<Rightarrow> workspace_tree \<times> path_retrieval_outcome" where
  "retrieval_end event entry_id lock_for_update entry s =
     (if lock_for_update
      then (case lock_take event entry_id (wt_locks s) of
              (l, GuardTaken i) \<Rightarrow> (s\<lparr>wt_locks := l\<rparr>, RetrievalDone entry (Some i))
            | (l, NeedWait event) \<Rightarrow> (s\<lparr>wt_locks := l\<rparr>, RetrievalNeedWait event))
      else (s, RetrievalDone entry None))"

definition cache_only_retrieve_path_from_id ::
  "hash_iter \<Rightarrow> nat \<Rightarrow> vlob_id \<Rightarrow> bool \<Rightarrow> vlob_id option \<Rightarrow> workspace_tree \<Rightarrow> (workspace_tree \<times> path_retrieval_outcome) option" where
  "cache_only_retrieve_path_from_id h event entry_id lock_for_update last_not_found_during_populate s =
     (case mh_root_manifest (wt_manifests s) of
        None \<Rightarrow> None
      | Some _ \<Rightarrow> Some
          (case wt_get s entry_id of
             None \<Rightarrow>
               if last_not_found_during_populate = Some entry_id then retrieval_end event entry_id lock_for_update EntryMissing s
               else (s, RetrievalNeedPopulateCache entry_id)
           | Some entry_manifest \<Rightarrow>
               (case retrieval_loop h (wt_manifests s) entry_id last_not_found_during_populate entry_id
                       (lc_parent entry_manifest) [entry_id] [] [entry_id] NotConfined of
                  WalkNeeds i \<Rightarrow> (s, RetrievalNeedPopulateCache i)
                | WalkBroken \<Rightarrow> retrieval_end event entry_id lock_for_update (EntryUnreachable entry_manifest) s
                | WalkRoot parts confinement entry_chain \<Rightarrow>
                    retrieval_end event entry_id lock_for_update
                      (EntryReachable entry_manifest (fp_from_parts (rev parts)) confinement (rev entry_chain)) s)))"

partial_function (option) retrieve_path_loop ::
  "tree_env \<Rightarrow> vlob_id \<Rightarrow> vlob_id option \<Rightarrow> workspace_tree \<Rightarrow>
   (workspace_tree \<times> (access_error + retrieve_path_from_id_entry)) option" where
  "retrieve_path_loop env entry_id last_not_found_during_populate s =
     (case cache_only_retrieve_path_from_id (te_iter env) (te_event env) entry_id False last_not_found_during_populate s of
        None \<Rightarrow> None
      | Some (s, RetrievalDone entry _) \<Rightarrow> Some (s, Inr entry)
      | Some (s, RetrievalNeedPopulateCache i) \<Rightarrow>
          (case populate_cache_from_local_storage_or_server env i s of
             None \<Rightarrow> None
           | Some (s, Inr _) \<Rightarrow> retrieve_path_loop env entry_id last_not_found_during_populate s
           | Some (s, Inl PopEntryNotFound) \<Rightarrow> retrieve_path_loop env entry_id (Some i) s
           | Some (s, Inl (PopAccess e)) \<Rightarrow> Some (s, Inl e))
      | Some (s, RetrievalNeedWait _) \<Rightarrow> None)"

definition retrieve_path_from_id :: "tree_env \<Rightarrow> vlob_id \<Rightarrow> (access_error, retrieve_path_from_id_entry) tree_op" where
  "retrieve_path_from_id env entry_id = retrieve_path_loop env entry_id None"

datatype retrieve_and_lock_error = RetrieveWouldBlock | RetrieveAccess access_error

partial_function (option) retrieve_path_lock_loop ::
  "tree_env \<Rightarrow> vlob_id \<Rightarrow> bool \<Rightarrow> vlob_id option \<Rightarrow> workspace_tree \<Rightarrow>
   (workspace_tree \<times> (retrieve_and_lock_error + retrieve_path_from_id_entry \<times> vlob_id)) option" where
  "retrieve_path_lock_loop env entry_id wait last_not_found_during_populate s =
     (case cache_only_retrieve_path_from_id (te_iter env) (te_event env) entry_id True last_not_found_during_populate s of
        None \<Rightarrow> None
      | Some (s, RetrievalDone entry guard) \<Rightarrow> map_option (\<lambda>guard. (s, Inr (entry, guard))) guard
      | Some (s, RetrievalNeedPopulateCache i) \<Rightarrow>
          if i = entry_id
          then (case populate_cache_from_local_storage env i s of
                  None \<Rightarrow> None
                | Some (s, Inr _) \<Rightarrow> retrieve_path_lock_loop env entry_id wait last_not_found_during_populate s
                | Some (s, Inl PopLocalEntryNotFound) \<Rightarrow> retrieve_path_lock_loop env entry_id wait (Some i) s
                | Some (s, Inl PopLocalStopped) \<Rightarrow> Some (s, Inl (RetrieveAccess AccStopped))
                | Some (s, Inl PopLocalInternal) \<Rightarrow> Some (s, Inl (RetrieveAccess AccInternal)))
          else (case populate_cache_from_local_storage_or_server env i s of
                  None \<Rightarrow> None
                | Some (s, Inr _) \<Rightarrow> retrieve_path_lock_loop env entry_id wait last_not_found_during_populate s
                | Some (s, Inl PopEntryNotFound) \<Rightarrow> retrieve_path_lock_loop env entry_id wait (Some i) s
                | Some (s, Inl (PopAccess e)) \<Rightarrow> Some (s, Inl (RetrieveAccess e)))
      | Some (s, RetrievalNeedWait event) \<Rightarrow>
          if \<not> wait then Some (s, Inl RetrieveWouldBlock)
          else (case te_wait env event s of
                  None \<Rightarrow> None
                | Some s \<Rightarrow> retrieve_path_lock_loop env entry_id wait last_not_found_during_populate s))"

definition retrieve_path_from_id_and_lock_for_update ::
  "tree_env \<Rightarrow> vlob_id \<Rightarrow> bool \<Rightarrow> (retrieve_and_lock_error, retrieve_path_from_id_entry \<times> vlob_id) tree_op" where
  "retrieve_path_from_id_and_lock_for_update env entry_id wait = retrieve_path_lock_loop env entry_id wait None"

end
