(* ===== verification/Entry_Operations.thy ===== *)
theory Entry_Operations
  imports Path_Resolution
begin

text \<open>
  The operations on the entries of a workspace: the updaters of a folder and of a move
  (\<^verbatim>\<open>client/src/workspace/store/folder_updater.rs\<close>, \<^verbatim>\<open>store/reparent_updater.rs\<close>), creation, removal and moves
  (\<^verbatim>\<open>transactions/create_file.rs\<close>, \<^verbatim>\<open>create_folder.rs\<close>, \<^verbatim>\<open>remove_entry.rs\<close>, \<^verbatim>\<open>move_entry.rs\<close>).

  An updater is the id of the manifest that it has locked; \<open>releasing\<close> is its drop, at the end of the part of the
  operation that owns it, whatever the outcome. The new id of a created manifest is an argument.
\<close>

subsection \<open>The folder updater\<close>

definition releasing :: "vlob_id \<Rightarrow> ('e, 'a) tree_op \<Rightarrow> ('e, 'a) tree_op" where
  "releasing guard m s =
     (case m s of None \<Rightarrow> None | Some (s, r) \<Rightarrow> map_option (\<lambda>s. (s, r)) (release_guard guard s))"

datatype for_update_folder_error = FolderEntryNotFound | FolderEntryNotAFolder | FolderAccess access_error

fun folder_error_of_populate :: "populate_error \<Rightarrow> for_update_folder_error" where
  "folder_error_of_populate PopEntryNotFound = FolderEntryNotFound"
| "folder_error_of_populate (PopAccess e) = FolderAccess e"

fun folder_error_of_resolve :: "resolve_path_error \<Rightarrow> for_update_folder_error" where
  "folder_error_of_resolve ResEntryNotFound = FolderEntryNotFound"
| "folder_error_of_resolve (ResAccess e) = FolderAccess e"

text \<open>The loop that locks the entry and gets its manifest.\<close>

partial_function (option) lock_and_get_manifest ::
  "tree_env \<Rightarrow> vlob_id \<Rightarrow> workspace_tree \<Rightarrow> (workspace_tree \<times> (for_update_folder_error + local_child_manifest)) option" where
  "lock_and_get_manifest env entry_id s =
     (case lock_take (te_event env) entry_id (wt_locks s) of
        (l, NeedWait event) \<Rightarrow>
          (case te_wait env event (s\<lparr>wt_locks := l\<rparr>) of None \<Rightarrow> None | Some s \<Rightarrow> lock_and_get_manifest env entry_id s)
      | (l, GuardTaken guard) \<Rightarrow>
          let s = s\<lparr>wt_locks := l\<rparr> in
          (case wt_get s entry_id of
             Some manifest \<Rightarrow> Some (s, Inr manifest)
           | None \<Rightarrow>
               (case populate_cache_from_local_storage_or_server env entry_id s of
                  None \<Rightarrow> None
                | Some (s, Inr manifest) \<Rightarrow> Some (s, Inr manifest)
                | Some (s, Inl e) \<Rightarrow>
                    map_option (\<lambda>s. (s, Inl (folder_error_of_populate e))) (release_guard guard s))))"

definition for_update_folder :: "tree_env \<Rightarrow> vlob_id \<Rightarrow> (for_update_folder_error, vlob_id \<times> local_folder_manifest) tree_op" where
  "for_update_folder env entry_id =
     op_bind (lock_and_get_manifest env entry_id) (\<lambda>manifest.
     case manifest of
       LocalFolder m \<Rightarrow> op_return (entry_id, m)
     | LocalFile _ \<Rightarrow> releasing entry_id (op_throw FolderEntryNotAFolder))"

definition resolve_path_for_update_folder ::
  "tree_env \<Rightarrow> fs_path \<Rightarrow> (for_update_folder_error, local_folder_manifest \<times> path_confinement_point \<times> vlob_id) tree_op" where
  "resolve_path_for_update_folder env path =
     op_bind (op_map_err folder_error_of_resolve (resolve_path_and_lock_for_update env path)) (\<lambda>(manifest, confinement, guard).
     case manifest of
       LocalFolder m \<Rightarrow> op_return (m, confinement, guard)
     | LocalFile _ \<Rightarrow> releasing guard (op_throw FolderEntryNotAFolder))"

definition update_folder_manifest ::
  "tree_env \<Rightarrow> local_folder_manifest \<Rightarrow> local_child_manifest option \<Rightarrow> (access_error, unit) tree_op" where
  "update_folder_manifest env manifest new_child =
     op_bind (op_option (child_update_data env (LocalFolder manifest))) (\<lambda>update_data.
     case new_child of
       None \<Rightarrow>
         op_bind (with_storage AccStopped AccInternal (\<lambda>db. (db_update_manifest update_data db, ()))) (\<lambda>_.
         wt_insert (LocalFolder manifest))
     | Some new_child \<Rightarrow>
         op_bind (op_option (child_update_data env new_child)) (\<lambda>new_child_update_data.
         op_bind (with_storage AccStopped AccInternal (\<lambda>db. (update_manifests [update_data, new_child_update_data] db, ()))) (\<lambda>_.
         op_bind (wt_insert (LocalFolder manifest)) (\<lambda>_.
         wt_insert new_child))))"

definition send_outbound_sync_needed :: "vlob_id \<Rightarrow> ('e, unit) tree_op" where
  "send_outbound_sync_needed entry_id = op_modify (\<lambda>s. s\<lparr>wt_events := wt_events s @ [OutboundSyncNeeded entry_id]\<rparr>)"

subsection \<open>Creation\<close>

datatype create_error =
    CreateReadOnlyRealm | CreateParentNotFound | CreateParentNotAFolder | CreateEntryExists vlob_id | CreateAccess access_error

fun create_error_of :: "for_update_folder_error \<Rightarrow> create_error" where
  "create_error_of FolderEntryNotFound = CreateParentNotFound"
| "create_error_of FolderEntryNotAFolder = CreateParentNotAFolder"
| "create_error_of (FolderAccess e) = CreateAccess e"

text \<open>
  \<^verbatim>\<open>create_file\<close> and \<^verbatim>\<open>create_folder\<close> have the same text but for the manifest of the new child; \<open>new_child\<close>
  makes it from the id of the parent.
\<close>

definition create_checked ::
  "tree_env \<Rightarrow> entry_name \<Rightarrow> (vlob_id \<Rightarrow> local_child_manifest) \<Rightarrow> local_folder_manifest \<Rightarrow>
   (create_error, vlob_id \<times> vlob_id \<times> bool) tree_op" where
  "create_checked env child_name new_child parent_manifest =
     op_bind (case hm_get (ld_children parent_manifest) child_name of
                None \<Rightarrow> op_return ()
              | Some entry_id \<Rightarrow>
                  op_bind (op_map_err CreateAccess
                    (ensure_manifest_exists_with_parent env entry_id (fo_id (ld_base parent_manifest)))) (\<lambda>maybe_child.
                  op_ensure (maybe_child = None) (CreateEntryExists entry_id))) (\<lambda>_.
     let parent_id = fo_id (ld_base parent_manifest);
         new_child = new_child parent_id;
         child_id = lc_id new_child
     in op_bind (op_option (evolve_children_and_mark_updated (te_iter env) parent_manifest [(child_name, Some child_id)]
                   (te_pattern env) (te_now env))) (\<lambda>parent_manifest.
        op_bind (op_map_err CreateAccess (update_folder_manifest env parent_manifest (Some new_child))) (\<lambda>_.
        op_return (child_id, parent_id, ld_need_sync parent_manifest))))"

definition create_entry ::
  "tree_env \<Rightarrow> (vlob_id \<Rightarrow> local_child_manifest) \<Rightarrow> fs_path \<Rightarrow> (create_error, vlob_id) tree_op" where
  "create_entry env new_child path s =
     (if \<not> te_can_write env then Some (s, Inl CreateReadOnlyRealm)
      else
        let (parent_path, child_name) = fp_into_parent path in
        case child_name of
          None \<Rightarrow> Some (s, Inl (CreateEntryExists (wt_realm_id s)))
        | Some child_name \<Rightarrow>
            op_bind (op_map_err create_error_of (resolve_path_for_update_folder env parent_path)) (\<lambda>(parent_manifest, _, guard).
            op_bind (releasing guard (create_checked env child_name new_child parent_manifest)) (\<lambda>(child_id, parent_id, parent_need_sync).
            op_bind (send_outbound_sync_needed child_id) (\<lambda>_.
            op_bind (if parent_need_sync then send_outbound_sync_needed parent_id else op_return ()) (\<lambda>_.
            op_return child_id)))) s)"

definition create_file :: "tree_env \<Rightarrow> vlob_id \<Rightarrow> fs_path \<Rightarrow> (create_error, vlob_id) tree_op" where
  "create_file env new_id =
     create_entry env (\<lambda>parent_id. LocalFile (lf_new new_id (te_device_id env) parent_id (te_now env)))"

definition create_folder :: "tree_env \<Rightarrow> vlob_id \<Rightarrow> fs_path \<Rightarrow> (create_error, vlob_id) tree_op" where
  "create_folder env new_id =
     create_entry env (\<lambda>parent_id. LocalFolder (ld_new new_id (te_device_id env) parent_id (te_now env)))"

text \<open>The loop over the parts of the path; \<open>new_ids\<close> are the ids of the attempts.\<close>

fun create_folder_loop ::
  "tree_env \<Rightarrow> (nat \<Rightarrow> vlob_id) \<Rightarrow> nat \<Rightarrow> fs_path \<Rightarrow> entry_name list \<Rightarrow> (create_error, vlob_id) tree_op" where
  "create_folder_loop env new_ids k ancestor_path path_parts =
     op_match (create_folder env (new_ids k) ancestor_path) (\<lambda>outcome.
     let next_part = (\<lambda>entry_id.
           case path_parts of
             [] \<Rightarrow> op_return entry_id
           | part # path_parts \<Rightarrow> create_folder_loop env new_ids (k + 1) (fp_join ancestor_path part) path_parts)
     in case outcome of
          Inr entry_id \<Rightarrow> next_part entry_id
        | Inl (CreateEntryExists entry_id) \<Rightarrow> next_part entry_id
        | Inl e \<Rightarrow> op_throw e)"

declare create_folder_loop.simps [simp del]

definition create_folder_all :: "tree_env \<Rightarrow> (nat \<Rightarrow> vlob_id) \<Rightarrow> fs_path \<Rightarrow> (create_error, vlob_id) tree_op" where
  "create_folder_all env new_ids path =
     op_match (create_folder env (new_ids 0) path) (\<lambda>outcome.
     if outcome \<noteq> Inl CreateParentNotFound then op_lift outcome
     else (case fp_parts path of
             [] \<Rightarrow> (\<lambda>s. None)
           | in_root_entry_name # path_parts \<Rightarrow>
               create_folder_loop env new_ids 1 (fp_from_parts [in_root_entry_name]) path_parts))"

subsection \<open>Removal\<close>

datatype remove_entry_expect = ExpectAnything | ExpectFile | ExpectFolder | ExpectEmptyFolder

datatype remove_error =
    RemoveReadOnlyRealm | RemoveCannotRemoveRoot | RemoveEntryNotFound | RemoveEntryIsFile | RemoveEntryIsFolder
  | RemoveEntryIsNonEmptyFolder | RemoveAccess access_error

fun remove_error_of :: "for_update_folder_error \<Rightarrow> remove_error" where
  "remove_error_of FolderEntryNotFound = RemoveEntryNotFound"
| "remove_error_of FolderEntryNotAFolder = RemoveEntryNotFound"
| "remove_error_of (FolderAccess e) = RemoveAccess e"

fun remove_error_of_get :: "populate_error \<Rightarrow> remove_error" where
  "remove_error_of_get PopEntryNotFound = RemoveEntryNotFound"
| "remove_error_of_get (PopAccess e) = RemoveAccess e"

definition check_empty_folder :: "tree_env \<Rightarrow> vlob_id \<Rightarrow> local_folder_manifest \<Rightarrow> (remove_error, unit) tree_op" where
  "check_empty_folder env child_id child =
     op_iter (\<lambda>(_, maybe_grandchild_id).
       op_bind (op_map_err RemoveAccess (ensure_manifest_exists_with_parent env maybe_grandchild_id child_id)) (\<lambda>maybe_grandchild.
       op_ensure (maybe_grandchild = None) RemoveEntryIsNonEmptyFolder)) (hi_children (te_iter env) (ld_children child))"

definition check_expected :: "tree_env \<Rightarrow> remove_entry_expect \<Rightarrow> vlob_id \<Rightarrow> local_child_manifest \<Rightarrow> (remove_error, unit) tree_op" where
  "check_expected env expect child_id child =
     (case (expect, child) of
        (ExpectAnything, _) \<Rightarrow> op_return ()
      | (ExpectFile, LocalFile _) \<Rightarrow> op_return ()
      | (ExpectFile, LocalFolder _) \<Rightarrow> op_throw RemoveEntryIsFolder
      | (ExpectFolder, LocalFolder _) \<Rightarrow> op_return ()
      | (ExpectEmptyFolder, LocalFolder m) \<Rightarrow> check_empty_folder env child_id m
      | (ExpectFolder, LocalFile _) \<Rightarrow> op_throw RemoveEntryIsFile
      | (ExpectEmptyFolder, LocalFile _) \<Rightarrow> op_throw RemoveEntryIsFile)"

definition remove_checked ::
  "tree_env \<Rightarrow> entry_name \<Rightarrow> remove_entry_expect \<Rightarrow> local_folder_manifest \<Rightarrow> (remove_error, unit) tree_op" where
  "remove_checked env child_name expect parent_manifest =
     (case hm_get (ld_children parent_manifest) child_name of
        None \<Rightarrow> op_throw RemoveEntryNotFound
      | Some child_id \<Rightarrow>
          op_bind (op_map_err remove_error_of_get (get_manifest env child_id)) (\<lambda>child.
          op_bind (check_expected env expect child_id child) (\<lambda>_.
          op_bind (op_option (evolve_children_and_mark_updated (te_iter env) parent_manifest [(child_name, None)]
                     (te_pattern env) (te_now env))) (\<lambda>parent_manifest.
          op_map_err RemoveAccess (update_folder_manifest env parent_manifest None)))))"

definition remove_entry :: "tree_env \<Rightarrow> fs_path \<Rightarrow> remove_entry_expect \<Rightarrow> (remove_error, unit) tree_op" where
  "remove_entry env path expect =
     (if \<not> te_can_write env then op_throw RemoveReadOnlyRealm
      else
        let (parent_path, child_name) = fp_into_parent path in
        case child_name of
          None \<Rightarrow> op_throw RemoveCannotRemoveRoot
        | Some child_name \<Rightarrow>
            op_bind (op_map_err remove_error_of (resolve_path_for_update_folder env parent_path)) (\<lambda>(parent_manifest, _, guard).
            op_bind (releasing guard (remove_checked env child_name expect parent_manifest)) (\<lambda>_.
            send_outbound_sync_needed (fo_id (ld_base parent_manifest)))))"

subsection \<open>Moves\<close>

datatype move_entry_mode = CanReplace | CanReplaceFileOnly | NoReplace | Exchange

datatype move_error =
    MoveSourceNotFound | MoveCannotMoveRoot | MoveReadOnlyRealm | MoveDestinationExists vlob_id | MoveDestinationNotFound
  | MoveAccess access_error

fun move_error_of :: "for_update_folder_error \<Rightarrow> move_error" where
  "move_error_of FolderEntryNotFound = MoveSourceNotFound"
| "move_error_of FolderEntryNotAFolder = MoveSourceNotFound"
| "move_error_of (FolderAccess e) = MoveAccess e"

fun move_error_of_reparent :: "for_update_reparenting_error \<Rightarrow> move_error" where
  "move_error_of_reparent ReparentSourceNotFound = MoveSourceNotFound"
| "move_error_of_reparent ReparentDestinationNotFound = MoveDestinationNotFound"
| "move_error_of_reparent (ReparentAccess e) = MoveAccess e"

text \<open>
  What the destination is, in a folder and under a mode: the same text in both moves. The result is the id of the
  entry that takes the place of the source, in an exchange.
\<close>

definition check_destination ::
  "tree_env \<Rightarrow> move_entry_mode \<Rightarrow> local_folder_manifest \<Rightarrow> entry_name \<Rightarrow> (move_error, vlob_id option) tree_op" where
  "check_destination env mode parent dst_child_name =
     (case hm_get (ld_children parent) dst_child_name of
        None \<Rightarrow> if mode = Exchange then op_throw MoveDestinationNotFound else op_return None
      | Some dst_child_id \<Rightarrow>
          op_bind (op_map_err MoveAccess (ensure_manifest_exists_with_parent env dst_child_id (fo_id (ld_base parent)))) (\<lambda>existing.
          case existing of
            None \<Rightarrow> if mode = Exchange then op_throw MoveDestinationNotFound else op_return None
          | Some existing \<Rightarrow>
              (case mode of
                 CanReplace \<Rightarrow> op_return None
               | CanReplaceFileOnly \<Rightarrow>
                   (case existing of
                      LocalFile _ \<Rightarrow> op_return None
                    | LocalFolder _ \<Rightarrow> op_throw (MoveDestinationExists dst_child_id))
               | NoReplace \<Rightarrow> op_throw (MoveDestinationExists dst_child_id)
               | Exchange \<Rightarrow> op_return (Some dst_child_id))))"

definition move_entry_same_parent ::
  "tree_env \<Rightarrow> local_folder_manifest \<Rightarrow> entry_name \<Rightarrow> entry_name \<Rightarrow> move_entry_mode \<Rightarrow> (move_error, unit) tree_op" where
  "move_entry_same_parent env parent_manifest src_child_name dst_child_name mode =
     (case hm_get (ld_children parent_manifest) src_child_name of
        None \<Rightarrow> op_throw MoveSourceNotFound
      | Some child_id \<Rightarrow>
          op_bind (op_map_err MoveAccess (ensure_manifest_exists_with_parent env child_id (fo_id (ld_base parent_manifest)))) (\<lambda>src_child.
          op_bind (op_ensure (src_child \<noteq> None) MoveSourceNotFound) (\<lambda>_.
          op_bind (check_destination env mode parent_manifest dst_child_name) (\<lambda>exchange_src_child_id.
          op_bind (op_option (evolve_children_and_mark_updated (te_iter env) parent_manifest
                     (hm_insert dst_child_name (Some child_id) [(src_child_name, exchange_src_child_id)])
                     (te_pattern env) (te_now env))) (\<lambda>parent_manifest.
          op_map_err MoveAccess (update_folder_manifest env parent_manifest None))))))"

definition move_in_folder ::
  "tree_env \<Rightarrow> vlob_id \<Rightarrow> local_folder_manifest \<Rightarrow> entry_name \<Rightarrow> entry_name \<Rightarrow> move_entry_mode \<Rightarrow> (move_error, unit) tree_op" where
  "move_in_folder env guard parent_manifest src_child_name dst_child_name mode =
     op_bind (releasing guard (move_entry_same_parent env parent_manifest src_child_name dst_child_name mode)) (\<lambda>_.
     send_outbound_sync_needed (fo_id (ld_base parent_manifest)))"

definition rename_entry_by_id ::
  "tree_env \<Rightarrow> vlob_id \<Rightarrow> entry_name \<Rightarrow> entry_name \<Rightarrow> move_entry_mode \<Rightarrow> (move_error, unit) tree_op" where
  "rename_entry_by_id env src_parent_id src_name dst_name mode =
     (if \<not> te_can_write env then op_throw MoveReadOnlyRealm
      else op_bind (op_map_err move_error_of (for_update_folder env src_parent_id)) (\<lambda>(guard, parent_manifest).
           move_in_folder env guard parent_manifest src_name dst_name mode))"

fun reparented :: "vlob_id \<Rightarrow> date_time \<Rightarrow> local_child_manifest \<Rightarrow> local_child_manifest" where
  "reparented parent now (LocalFile m) = LocalFile (m\<lparr>lf_parent := parent, lf_updated := now, lf_need_sync := True\<rparr>)"
| "reparented parent now (LocalFolder m) = LocalFolder (m\<lparr>ld_parent := parent, ld_updated := now, ld_need_sync := True\<rparr>)"

definition update_manifests_for_reparenting ::
  "tree_env \<Rightarrow> local_folder_manifest \<Rightarrow> local_child_manifest \<Rightarrow> local_folder_manifest \<Rightarrow> local_child_manifest option \<Rightarrow>
   (access_error, unit) tree_op" where
  "update_manifests_for_reparenting env src_parent src_child dst_parent dst_child =
     op_bind (op_option (child_update_data env (LocalFolder src_parent))) (\<lambda>src_parent_data.
     op_bind (op_option (child_update_data env src_child)) (\<lambda>src_child_data.
     op_bind (op_option (child_update_data env (LocalFolder dst_parent))) (\<lambda>dst_parent_data.
     op_bind (case dst_child of
                None \<Rightarrow>
                  with_storage AccStopped AccInternal (\<lambda>db. (update_manifests [src_parent_data, src_child_data, dst_parent_data] db, ()))
              | Some dst_child \<Rightarrow>
                  op_bind (op_option (child_update_data env dst_child)) (\<lambda>dst_child_data.
                  with_storage AccStopped AccInternal
                    (\<lambda>db. (update_manifests [src_parent_data, src_child_data, dst_parent_data, dst_child_data] db, ())))) (\<lambda>_.
     op_bind (wt_insert (LocalFolder src_parent)) (\<lambda>_.
     op_bind (wt_insert (LocalFolder dst_parent)) (\<lambda>_.
     op_bind (wt_insert src_child) (\<lambda>_.
     case dst_child of None \<Rightarrow> op_return () | Some dst_child \<Rightarrow> wt_insert dst_child)))))))"

definition move_entry_different_parents ::
  "tree_env \<Rightarrow> resolve_path_for_reparenting_result \<Rightarrow> entry_name \<Rightarrow> entry_name \<Rightarrow> move_entry_mode \<Rightarrow> (move_error, unit) tree_op" where
  "move_entry_different_parents env updater src_child_name dst_child_name mode =
     (let now = te_now env;
          src_parent = rr_src_parent updater;
          src_parent_id = fo_id (ld_base src_parent);
          child_id = lc_id (rr_src_child updater);
          dst_parent = rr_dst_parent updater;
          dst_parent_id = fo_id (ld_base dst_parent);
          src_child = reparented dst_parent_id now (rr_src_child updater)
      in op_bind (check_destination env mode dst_parent dst_child_name) (\<lambda>exchange_src_child_id.
         op_bind (case exchange_src_child_id of
                    None \<Rightarrow> op_return (rr_dst_child updater)
                  | Some _ \<Rightarrow>
                      op_bind (op_option (rr_dst_child updater)) (\<lambda>dst_child.
                      op_return (Some (reparented src_parent_id now dst_child)))) (\<lambda>dst_child.
         op_bind (op_option (evolve_children_and_mark_updated (te_iter env) src_parent
                    [(src_child_name, exchange_src_child_id)] (te_pattern env) now)) (\<lambda>src_parent.
         op_bind (op_option (evolve_children_and_mark_updated (te_iter env) dst_parent
                    [(dst_child_name, Some child_id)] (te_pattern env) now)) (\<lambda>dst_parent.
         op_map_err MoveAccess (update_manifests_for_reparenting env src_parent src_child dst_parent dst_child))))))"

definition releasing_reparenting :: "resolve_path_for_reparenting_result \<Rightarrow> ('e, 'a) tree_op \<Rightarrow> ('e, 'a) tree_op" where
  "releasing_reparenting updater m s =
     (case m s of
        None \<Rightarrow> None
      | Some (s, r) \<Rightarrow> do {
          s \<leftarrow> release_guard (rr_src_parent_guard updater) s;
          s \<leftarrow> release_guard (rr_src_child_guard updater) s;
          s \<leftarrow> release_guard (rr_dst_parent_guard updater) s;
          s \<leftarrow> release_maybe (rr_dst_child_guard updater) s;
          Some (s, r)
        })"

definition move_across_folders ::
  "tree_env \<Rightarrow> resolve_path_for_reparenting_result \<Rightarrow> entry_name \<Rightarrow> entry_name \<Rightarrow> move_entry_mode \<Rightarrow> (move_error, unit) tree_op" where
  "move_across_folders env updater src_child_name dst_child_name mode =
     op_bind (releasing_reparenting updater (move_entry_different_parents env updater src_child_name dst_child_name mode)) (\<lambda>_.
     op_bind (send_outbound_sync_needed (fo_id (ld_base (rr_dst_parent updater)))) (\<lambda>_.
     op_bind (send_outbound_sync_needed (lc_id (rr_src_child updater))) (\<lambda>_.
     send_outbound_sync_needed (fo_id (ld_base (rr_src_parent updater))))))"

definition move_entry :: "tree_env \<Rightarrow> fs_path \<Rightarrow> fs_path \<Rightarrow> move_entry_mode \<Rightarrow> (move_error, unit) tree_op" where
  "move_entry env src dst mode =
     (if \<not> te_can_write env then op_throw MoveReadOnlyRealm
      else
        let (src_parent_path, src_child_name) = fp_into_parent src;
            (dst_parent_path, dst_child_name) = fp_into_parent dst
        in case (src_child_name, dst_child_name) of
             (Some src_child_name, Some dst_child_name) \<Rightarrow>
               if src_parent_path = dst_parent_path
               then op_bind (op_map_err move_error_of (resolve_path_for_update_folder env src_parent_path)) (\<lambda>(parent_manifest, _, guard).
                    move_in_folder env guard parent_manifest src_child_name dst_child_name mode)
               else op_bind (op_map_err move_error_of_reparent
                      (resolve_path_for_reparenting env src_parent_path src_child_name dst_parent_path
                        (if mode = Exchange then Some dst_child_name else None))) (\<lambda>updater.
                    move_across_folders env updater src_child_name dst_child_name mode)
           | _ \<Rightarrow> op_throw MoveCannotMoveRoot)"

end
