(* ===== verification/Tree_View.thy ===== *)
theory Tree_View
  imports Entry_Operations Folder_Confinement
begin

text \<open>
  What a workspace holds, whatever the layer that has it: \<open>tree_known\<close> gives the manifest of an id from the cache,
  the storage or the server. Populating the cache does not change it, and a cached manifest is the one that the
  storage has (\<open>tree_ok\<close>).
\<close>

subsection \<open>The layers\<close>

definition stored_manifest :: "tree_env \<Rightarrow> workspace_tree \<Rightarrow> vlob_id \<Rightarrow> local_child_manifest option" where
  "stored_manifest env s i =
     (case wt_storage s of
        None \<Rightarrow> None
      | Some db \<Rightarrow> Option.bind (db_get_manifest db i) (\<lambda>encrypted.
                  Option.bind (dk_decrypt (te_dk env) encrypted) (te_load env)))"

definition is_stored :: "workspace_tree \<Rightarrow> vlob_id \<Rightarrow> bool" where
  "is_stored s i = (case wt_storage s of None \<Rightarrow> False | Some db \<Rightarrow> db_get_manifest db i \<noteq> None)"

definition remote_manifest :: "tree_env \<Rightarrow> vlob_id \<Rightarrow> local_child_manifest option" where
  "remote_manifest env i = (case te_fetch env i of Inl _ \<Rightarrow> None | Inr r \<Rightarrow> local_of_remote env r)"

definition tree_known :: "tree_env \<Rightarrow> workspace_tree \<Rightarrow> vlob_id \<Rightarrow> local_child_manifest option" where
  "tree_known env s i =
     (case wt_get s i of
        Some m \<Rightarrow> Some m
      | None \<Rightarrow> if is_stored s i then stored_manifest env s i else remote_manifest env i)"

text \<open>
  The hypotheses on the outside: keys and serialisation are reversible, the server answers with the manifest it was
  asked for, which was checked.
\<close>

definition child_ok :: "local_child_manifest \<Rightarrow> bool" where
  "child_ok m \<longleftrightarrow> lc_check_data_integrity m = Some (Inr ()) \<and> (\<forall>f. m = LocalFolder f \<longrightarrow> children_ok (ld_children f))"

definition tree_env_ok :: "tree_env \<Rightarrow> vlob_id \<Rightarrow> bool" where
  "tree_env_ok env realm \<longleftrightarrow> key_ok (te_dk env) \<and> hash_iter_ok (te_iter env) \<and>
     (\<forall>m. te_load env (te_dump env m) = Some m) \<and>
     (\<forall>i r. te_fetch env i = Inr r \<longrightarrow>
        i \<noteq> realm \<and> (\<exists>m. local_of_remote env r = Some m \<and> lc_id m = i \<and> child_ok m))"

definition root_ok :: "vlob_id \<Rightarrow> local_folder_manifest \<Rightarrow> bool" where
  "root_ok realm m \<longleftrightarrow> fo_id (ld_base m) = realm \<and> ld_parent m = realm \<and> children_ok (ld_children m) \<and>
     (\<forall>n. hm_get (ld_children m) n \<noteq> Some realm)"

definition tree_ok :: "tree_env \<Rightarrow> workspace_tree \<Rightarrow> bool" where
  "tree_ok env s \<longleftrightarrow>
     mh_root_manifest_id (wt_manifests s) = wt_realm_id s \<and> wt_storage s \<noteq> None \<and>
     (\<exists>root. wt_get s (wt_realm_id s) = Some (LocalFolder root) \<and> root_ok (wt_realm_id s) root) \<and>
     (\<forall>i m. wt_get s i = Some m \<longrightarrow> stored_manifest env s i = Some m) \<and>
     (\<forall>i. i \<noteq> wt_realm_id s \<and> is_stored s i \<longrightarrow> (\<exists>m. stored_manifest env s i = Some m \<and> lc_id m = i \<and> child_ok m))"

lemma stored_is_stored: "stored_manifest env s i = Some m \<Longrightarrow> is_stored s i"
  by (auto simp: stored_manifest_def is_stored_def split: option.split_asm elim!: bind_SomeE)

lemma tree_known_ok:
  assumes "tree_env_ok env (wt_realm_id s)" "tree_ok env s" "tree_known env s i = Some m"
  shows "lc_id m = i" "i \<noteq> wt_realm_id s \<Longrightarrow> child_ok m"
    "i = wt_realm_id s \<Longrightarrow> \<exists>f. m = LocalFolder f \<and> root_ok i f"
proof -
  consider (root) "i = wt_realm_id s" | (stored) "i \<noteq> wt_realm_id s" "is_stored s i" "stored_manifest env s i = Some m"
    | (remote) "i \<noteq> wt_realm_id s" "remote_manifest env i = Some m"
  proof (cases "wt_get s i")
    case None
    with assms(3) that show thesis by (cases "i = wt_realm_id s") (auto simp: tree_known_def split: if_split_asm)
  next
    case (Some m')
    then have "stored_manifest env s i = Some m" "m' = m" using assms(2,3) by (auto simp: tree_ok_def tree_known_def)
    with that stored_is_stored [of env s i m] show thesis by (cases "i = wt_realm_id s") auto
  qed
  then have "lc_id m = i \<and> (i \<noteq> wt_realm_id s \<longrightarrow> child_ok m) \<and> (i = wt_realm_id s \<longrightarrow> (\<exists>f. m = LocalFolder f \<and> root_ok i f))"
  proof cases
    case root
    then obtain f where "m = LocalFolder f" "root_ok i f" using assms(2,3) by (auto simp: tree_ok_def tree_known_def)
    then show ?thesis using root by (simp add: root_ok_def)
  next
    case stored
    then show ?thesis using assms(2) by (auto simp: tree_ok_def)
  next
    case remote
    then obtain r where "te_fetch env i = Inr r" "local_of_remote env r = Some m"
      by (auto simp: remote_manifest_def split: sum.split_asm)
    moreover obtain m' where "local_of_remote env r = Some m'" "lc_id m' = i" "child_ok m'"
      using assms(1) calculation(1) unfolding tree_env_ok_def by blast
    ultimately show ?thesis using remote(1) by simp
  qed
  then show "lc_id m = i" "i \<noteq> wt_realm_id s \<Longrightarrow> child_ok m" "i = wt_realm_id s \<Longrightarrow> \<exists>f. m = LocalFolder f \<and> root_ok i f"
    by auto
qed

lemma tree_known_children:
  assumes "tree_env_ok env (wt_realm_id s)" "tree_ok env s" "tree_known env s i = Some (LocalFolder f)"
  shows "children_ok (ld_children f)" "fo_id (ld_base f) = i"
  using tree_known_ok [OF assms] by (cases "i = wt_realm_id s"; auto simp: child_ok_def root_ok_def)+

subsection \<open>Populating keeps the view\<close>

text \<open>What an access to a manifest may change: the cache, and what the storage had from the server.\<close>

definition same_view :: "tree_env \<Rightarrow> workspace_tree \<Rightarrow> workspace_tree \<Rightarrow> bool" where
  "same_view env s s' \<longleftrightarrow> tree_ok env s' \<and> tree_known env s' = tree_known env s \<and> wt_locks s' = wt_locks s \<and>
     wt_events s' = wt_events s \<and> wt_realm_id s' = wt_realm_id s \<and> (\<forall>i m. wt_get s i = Some m \<longrightarrow> wt_get s' i = Some m) \<and>
     set (wt_faults s') \<subseteq> set (wt_faults s)"

lemma same_view_refl: "tree_ok env s \<Longrightarrow> same_view env s s"
  by (simp add: same_view_def)

lemma same_view_trans: "same_view env s s1 \<Longrightarrow> same_view env s1 s2 \<Longrightarrow> same_view env s s2"
  by (auto simp: same_view_def)

lemma wt_get_more [simp]:
  "wt_get (s\<lparr>wt_faults := fs\<rparr>) = wt_get s" "wt_get (s\<lparr>wt_storage := db\<rparr>) = wt_get s" "wt_get (s\<lparr>wt_locks := l\<rparr>) = wt_get s"
  "wt_get (s\<lparr>wt_events := e\<rparr>) = wt_get s"
  by (simp_all add: wt_get_def)

lemma stored_more [simp]:
  "stored_manifest env (s\<lparr>wt_faults := fs\<rparr>) = stored_manifest env s" "is_stored (s\<lparr>wt_faults := fs\<rparr>) = is_stored s"
  "stored_manifest env (s\<lparr>wt_locks := l\<rparr>) = stored_manifest env s" "is_stored (s\<lparr>wt_locks := l\<rparr>) = is_stored s"
  "stored_manifest env (s\<lparr>wt_events := e\<rparr>) = stored_manifest env s" "is_stored (s\<lparr>wt_events := e\<rparr>) = is_stored s"
  "stored_manifest env (s\<lparr>wt_manifests := c\<rparr>) = stored_manifest env s" "is_stored (s\<lparr>wt_manifests := c\<rparr>) = is_stored s"
  by (simp_all add: fun_eq_iff stored_manifest_def is_stored_def)

lemma known_more [simp]:
  "tree_known env (s\<lparr>wt_faults := fs\<rparr>) = tree_known env s" "tree_known env (s\<lparr>wt_locks := l\<rparr>) = tree_known env s"
  "tree_known env (s\<lparr>wt_events := e\<rparr>) = tree_known env s"
  "tree_ok env (s\<lparr>wt_faults := fs\<rparr>) = tree_ok env s" "tree_ok env (s\<lparr>wt_locks := l\<rparr>) = tree_ok env s"
  "tree_ok env (s\<lparr>wt_events := e\<rparr>) = tree_ok env s"
  by (auto simp: fun_eq_iff tree_known_def tree_ok_def split: option.split)

text \<open>A call to the storage, when there is one.\<close>

lemma with_storage_cases:
  assumes "wt_storage s = Some db"
  obtains (fails) "with_storage stopped failed query s = Some (s\<lparr>wt_faults := tl (wt_faults s)\<rparr>, Inl failed)" "True \<in> set (wt_faults s)"
    | (works) db' x where "query db = (db', x)"
      "with_storage stopped failed query s = Some (s\<lparr>wt_faults := tl (wt_faults s), wt_storage := Some db'\<rparr>, Inr x)"
proof (cases "wt_faults s \<noteq> [] \<and> hd (wt_faults s)")
  case True
  then have "True \<in> set (wt_faults s)" by (metis list.set_sel(1))
  with True fails assms show thesis by (simp add: with_storage_def Let_def)
next
  case False
  obtain db' x where "query db = (db', x)" by fastforce
  with False works assms show thesis by (simp add: with_storage_def Let_def)
qed

lemma tl_faults: "set (tl xs) \<subseteq> set xs"
  by (cases xs) auto

lemma same_view_faults: "same_view env s s' \<Longrightarrow> same_view env s (s'\<lparr>wt_faults := tl (wt_faults s')\<rparr>)"
  using tl_faults [of "wt_faults s'"] by (auto simp: same_view_def)

text \<open>Adding to the cache what the storage has.\<close>

lemma cached_view:
  assumes ok: "tree_ok env s" and miss: "wt_get s i = None" and stored: "stored_manifest env s i = Some m"
    and id: "lc_id m = i"
  shows "\<exists>s'. wt_insert_if_missing m s = Some (s', Inr m) \<and> same_view env s s' \<and> wt_get s' i = Some m"
proof -
  have root: "mh_root_manifest_id (wt_manifests s) \<noteq> i" using ok miss by (auto simp: tree_ok_def)
  let ?s = "s\<lparr>wt_manifests := (wt_manifests s)\<lparr>mh_manifests := hm_insert i m (mh_manifests (wt_manifests s))\<rparr>\<rparr>"
  have "mh_id_of (wt_manifests s) m = Some i" using root id by (cases m) (auto simp: mh_id_of_def)
  then have run: "wt_insert_if_missing m s = Some (?s, Inr m)"
    using miss by (simp add: wt_insert_if_missing_def mh_insert_if_missing_def wt_get_def)
  have get: "wt_get ?s = (wt_get s)(i \<mapsto> m)" by (auto simp: wt_get_def hm_simps fun_eq_iff)
  have "tree_known env ?s = tree_known env s"
    using miss stored stored_is_stored [OF stored] by (auto simp: fun_eq_iff tree_known_def get split: option.split)
  moreover have "tree_ok env ?s" using ok stored root unfolding tree_ok_def get by (auto simp: get)
  ultimately have "same_view env s ?s" using miss by (auto simp: same_view_def get)
  with run show ?thesis by (auto simp: get)
qed

lemma populate_local_view:
  assumes env: "tree_env_ok env (wt_realm_id s)" and ok: "tree_ok env s" and miss: "wt_get s i = None"
  obtains (found) s' m where "populate_cache_from_local_storage env i s = Some (s', Inr m)" "same_view env s s'"
      "wt_get s' i = Some m" "tree_known env s i = Some m"
    | (absent) "populate_cache_from_local_storage env i s = Some (s\<lparr>wt_faults := tl (wt_faults s)\<rparr>, Inl PopLocalEntryNotFound)"
      "\<not> is_stored s i"
    | (fails) "populate_cache_from_local_storage env i s = Some (s\<lparr>wt_faults := tl (wt_faults s)\<rparr>, Inl PopLocalInternal)"
      "True \<in> set (wt_faults s)"
proof -
  obtain db where db: "wt_storage s = Some db" using ok by (auto simp: tree_ok_def)
  let ?s = "s\<lparr>wt_faults := tl (wt_faults s)\<rparr>"
  show thesis
  proof (cases rule: with_storage_cases [OF db, of PopLocalStopped PopLocalInternal "\<lambda>db. (db, db_get_manifest db i)"])
    case 1
    then show thesis by (intro fails) (simp_all add: populate_cache_from_local_storage_def op_run)
  next
    case (2 db' x)
    then have x: "x = db_get_manifest db i" and run: "with_storage PopLocalStopped PopLocalInternal (\<lambda>db. (db, db_get_manifest db i)) s = Some (?s, Inr x)"
      using db by auto
    show thesis
    proof (cases "is_stored s i")
      case False
      then have "x = None" using x db by (simp add: is_stored_def)
      with run False show thesis by (intro absent) (simp_all add: populate_cache_from_local_storage_def op_run)
    next
      case True
      have "i \<noteq> wt_realm_id s" using ok miss by (auto simp: tree_ok_def)
      then obtain m where m: "stored_manifest env s i = Some m" "lc_id m = i" "child_ok m"
        using ok True unfolding tree_ok_def by blast
      then obtain e ser where e: "x = Some e" "dk_decrypt (te_dk env) e = Some ser" "te_load env ser = Some m"
        using x db by (auto simp: stored_manifest_def elim!: bind_SomeE)
      then have load: "child_decrypt_and_load env e = Some (Inr m)"
        using m(3) by (simp add: child_decrypt_and_load_def child_ok_def)
      have view: "same_view env s ?s" using same_view_faults [OF same_view_refl [OF ok]] .
      then have "tree_ok env ?s" "wt_get ?s i = None" "stored_manifest env ?s i = Some m" using ok miss m(1) by simp_all
      from cached_view [OF this m(2)] obtain s' where
        s': "(wt_insert_if_missing m ?s :: (workspace_tree \<times> (populate_local_error + _)) option) = Some (s', Inr m)" "same_view env ?s s'" "wt_get s' i = Some m"
        by metis
      have "tree_known env s i = Some m" using miss True m(1) by (simp add: tree_known_def)
      with s' same_view_trans [OF view s'(2)] run e load show thesis
        by (intro found [of s' m]) (simp_all add: populate_cache_from_local_storage_def op_run op_option_def)
    qed
  qed
qed

subsection \<open>Storing manifests\<close>

lemma get_updated_manifest: "db_get_manifest (db_update_manifest u db) = (db_get_manifest db)(ud_entry_id u \<mapsto> ud_encrypted u)"
  by (rule ext) (simp add: db_get_manifest_def update_manifest_row vlob_row_of_def vlob_merge_def split: option.split)

lemma populated_manifest:
  assumes "db_get_manifest db (ud_entry_id u) = None"
  obtains db' where "db_populate_manifest u db = (db', Stored)"
    "db_get_manifest db' = (db_get_manifest db)(ud_entry_id u \<mapsto> ud_encrypted u)"
proof -
  have "sql_find vr_id (vr_id (vlob_row_of u)) (db_vlobs db) = None" using assms by (simp add: db_get_manifest_def vlob_row_of_def)
  then have "db_populate_manifest u db = (db\<lparr>db_vlobs := db_vlobs db @ [vlob_row_of u]\<rparr>, Stored)"
    by (simp add: db_populate_manifest_def sql_insert_or_ignore_def)
  moreover have "db_get_manifest (db\<lparr>db_vlobs := db_vlobs db @ [vlob_row_of u]\<rparr>) = (db_get_manifest db)(ud_entry_id u \<mapsto> ud_encrypted u)"
  proof
    fix k
    have "sql_find vr_id k [vlob_row_of u] = (if k = ud_entry_id u then Some (vlob_row_of u) else None)"
      by (simp add: sql_find_def vlob_row_of_def)
    then show "db_get_manifest (db\<lparr>db_vlobs := db_vlobs db @ [vlob_row_of u]\<rparr>) k =
        ((db_get_manifest db)(ud_entry_id u \<mapsto> ud_encrypted u)) k"
      using assms by (auto simp: db_get_manifest_def sql_find_append vlob_row_of_def split: option.split)
  qed
  ultimately show thesis by (rule that)
qed

lemma child_update_data_ok:
  assumes "child_ok m \<or> (\<exists>f. m = LocalFolder f)"
  obtains u where "child_update_data env m = Some u" "ud_entry_id u = lc_id m"
    "ud_encrypted u = dk_encrypt (te_dk env) (te_dump env m)"
proof (cases m)
  case (LocalFile f)
  then have "lf_check_data_integrity f = Some (Inr ())" using assms by (auto simp: child_ok_def)
  then have "lf_integrity_expect f = Some ()"
    unfolding lf_integrity_expect_def by (simp only: option.case sum.case old.unit.case)
  with that LocalFile show thesis by (simp add: child_update_data_def child_dump_and_encrypt_def)
next
  case (LocalFolder f)
  with that show thesis by (simp add: child_update_data_def child_dump_and_encrypt_def ld_check_data_integrity_def)
qed

lemma stored_written:
  assumes env: "tree_env_ok env realm" and db: "wt_storage s = Some db" "db_get_manifest db' = (db_get_manifest db)(i \<mapsto> dk_encrypt (te_dk env) (te_dump env m))"
  shows "stored_manifest env (s\<lparr>wt_storage := Some db'\<rparr>) = (stored_manifest env s)(i \<mapsto> m)"
    "is_stored (s\<lparr>wt_storage := Some db'\<rparr>) = (\<lambda>j. j = i \<or> is_stored s j)"
  using env db by (auto simp: fun_eq_iff stored_manifest_def is_stored_def tree_env_ok_def key_ok_def)

lemma populate_view:
  assumes env: "tree_env_ok env (wt_realm_id s)" and ok: "tree_ok env s" and miss: "wt_get s i = None"
  obtains (found) s' m where "populate_cache_from_local_storage_or_server env i s = Some (s', Inr m)" "same_view env s s'"
      "wt_get s' i = Some m" "tree_known env s i = Some m"
    | (absent) s' where "populate_cache_from_local_storage_or_server env i s = Some (s', Inl PopEntryNotFound)"
      "same_view env s s'" "wt_get s' = wt_get s" "tree_known env s i = None"
    | (fails) s' e where "populate_cache_from_local_storage_or_server env i s = Some (s', Inl (PopAccess e))"
      "same_view env s s'" "True \<in> set (wt_faults s) \<or> te_fetch env i = Inl (SfAccess e)"
proof -
  note defs = populate_cache_from_local_storage_or_server_def op_run op_option_def
  have i: "i \<noteq> wt_realm_id s" using ok miss by (auto simp: tree_ok_def)
  let ?s = "s\<lparr>wt_faults := tl (wt_faults s)\<rparr>"
  have view: "same_view env s ?s" using same_view_faults [OF same_view_refl [OF ok]] .
  show thesis
  proof (cases rule: populate_local_view [OF env ok miss])
    case (1 s' m)
    then show thesis by (intro that(1) [of s' m]) (simp_all add: defs)
  next
    case 3
    then show thesis using view by (intro that(3) [of ?s AccInternal]) (simp_all add: defs)
  next
    case 2
    note absent = 2
    have known: "tree_known env s i = remote_manifest env i" using absent(2) miss by (simp add: tree_known_def)
    show thesis
    proof (cases "te_fetch env i")
      case (Inl e)
      then have none: "tree_known env s i = None" using known by (simp add: remote_manifest_def)
      show thesis
      proof (cases "populate_error_of_fetch e")
        case PopEntryNotFound
        with Inl absent(1) view none show thesis by (intro that(2) [of ?s]) (simp_all add: defs)
      next
        case (PopAccess a)
        then have "e = SfAccess a" by (cases e) auto
        with Inl absent(1) view show thesis by (intro that(3) [of ?s a]) (simp_all add: defs)
      qed
    next
      case (Inr r)
      obtain m where m: "local_of_remote env r = Some m" "lc_id m = i" "child_ok m"
        using env Inr unfolding tree_env_ok_def by blast
      then have km: "tree_known env s i = Some m" using known Inr by (simp add: remote_manifest_def)
      obtain u where u: "child_update_data env m = Some u" "ud_entry_id u = i" "ud_encrypted u = dk_encrypt (te_dk env) (te_dump env m)"
        using child_update_data_ok [of m env] m(2,3) by blast
      obtain db where db: "wt_storage ?s = Some db" using ok by (auto simp: tree_ok_def)
      let ?ps = "populate_storage env i m ?s"
      show thesis
      proof (cases rule: with_storage_cases [OF db, of "PopAccess AccStopped" "PopAccess AccInternal" "db_populate_manifest u"])
        case 1
        then have "?ps = Some (?s\<lparr>wt_faults := tl (wt_faults ?s)\<rparr>, Inl (PopAccess AccInternal))"
          using u(1) by (subst populate_storage.simps) (simp add: op_run op_option_def)
        moreover have "True \<in> set (wt_faults s)" using 1(2) tl_faults [of "wt_faults s"] by auto
        ultimately show thesis using Inr m(1) absent(1) same_view_faults [OF view]
          by (intro that(3) [of "?s\<lparr>wt_faults := tl (wt_faults ?s)\<rparr>" AccInternal]) (simp_all add: defs)
      next
        case (2 db' x)
        have "db_get_manifest db (ud_entry_id u) = None" using absent(2) db u(2) by (simp add: is_stored_def)
        from populated_manifest [OF this] 2(1) have x: "x = Stored"
          "db_get_manifest db' = (db_get_manifest db)(i \<mapsto> dk_encrypt (te_dk env) (te_dump env m))" using u by auto
        let ?t = "?s\<lparr>wt_faults := tl (wt_faults ?s)\<rparr>"
        obtain t where t: "t = ?t\<lparr>wt_storage := Some db'\<rparr>" by blast
        have ps: "?ps = Some (t, Inr (Inl m))"
          using u(1) 2(2) x(1) t by (subst populate_storage.simps) (simp add: op_run op_option_def)
        have vt: "same_view env s ?t" using same_view_faults [OF view] .
        have wr: "stored_manifest env t = (stored_manifest env s)(i \<mapsto> m)" "is_stored t = (\<lambda>j. j = i \<or> is_stored s j)"
          using stored_written [OF env, of ?t db db' i m] db x(2) t by simp_all
        have get: "wt_get t = wt_get s" using t by simp
        have kt: "tree_known env t = tree_known env s"
          using wr km miss by (auto simp: fun_eq_iff tree_known_def get split: option.split)
        have more: "wt_realm_id t = wt_realm_id s" "wt_manifests t = wt_manifests s" "wt_storage t \<noteq> None" using t by simp_all
        have "tree_ok env t"
          using ok m(2,3) i miss unfolding tree_ok_def get wr more(1,2) by (simp add: more(3))
        then have vt': "same_view env s t" using vt kt get t by (simp add: same_view_def)
        have "wt_get t i = None" "stored_manifest env t i = Some m" using get miss wr by simp_all
        from cached_view [OF \<open>tree_ok env t\<close> this m(2)] obtain s' where
          s': "(wt_insert_if_missing m t :: (workspace_tree \<times> (populate_error + _)) option) = Some (s', Inr m)" "same_view env t s'" "wt_get s' i = Some m"
          by metis
        show thesis using Inr m(1) absent(1) ps s' km same_view_trans [OF vt' s'(2)]
          by (intro that(1) [of s' m]) (simp_all add: defs)
      qed
    qed
  qed
qed

end
