(* ===== verification/Tree_Paths.thy ===== *)
theory Tree_Paths
  imports Tree_View
begin

text \<open>
  Paths over the view of a workspace. \<open>tree_resolve\<close> follows a path over the view, by links that the folder and
  the entry agree on (\<open>link\<close>). The functions of \<open>Path_Resolution\<close> compute them, whatever
  the cache holds when they start.
\<close>

subsection \<open>The reference\<close>

fun tree_walk ::
  "(vlob_id \<Rightarrow> local_child_manifest option) \<Rightarrow> local_child_manifest \<times> path_confinement_point \<Rightarrow> entry_name list \<Rightarrow>
   (local_child_manifest \<times> path_confinement_point) option" where
  "tree_walk T (m, c) [] = Some (m, c)"
| "tree_walk T (LocalFile f, c) (n # ns) = None"
| "tree_walk T (LocalFolder f, c) (n # ns) =
     Option.bind (hm_get (ld_children f) n) (\<lambda>i.
     Option.bind (T i) (\<lambda>child.
     if lc_parent child = fo_id (ld_base f) then tree_walk T (child, child_confinement f c i) ns else None))"

definition tree_resolve ::
  "(vlob_id \<Rightarrow> local_child_manifest option) \<Rightarrow> vlob_id \<Rightarrow> entry_name list \<Rightarrow> (local_child_manifest \<times> path_confinement_point) option" where
  "tree_resolve T realm parts = Option.bind (T realm) (\<lambda>root. tree_walk T (root, NotConfined) parts)"

text \<open>The ids that the walk asks for.\<close>

fun walk_ids :: "(vlob_id \<Rightarrow> local_child_manifest option) \<Rightarrow> local_child_manifest \<Rightarrow> entry_name list \<Rightarrow> vlob_id list" where
  "walk_ids T m [] = []"
| "walk_ids T (LocalFile f) (n # ns) = []"
| "walk_ids T (LocalFolder f) (n # ns) =
     (case hm_get (ld_children f) n of
        None \<Rightarrow> []
      | Some i \<Rightarrow> i # (case T i of None \<Rightarrow> [] | Some child \<Rightarrow> walk_ids T child ns))"

definition link :: "(vlob_id \<Rightarrow> local_child_manifest option) \<Rightarrow> vlob_id \<Rightarrow> entry_name \<Rightarrow> vlob_id \<Rightarrow> bool" where
  "link T p n i \<longleftrightarrow> (\<exists>f c. T p = Some (LocalFolder f) \<and> hm_get (ld_children f) n = Some i \<and> T i = Some c \<and> lc_parent c = p)"

subsection \<open>A look at the cache agrees with the reference\<close>

definition step_view :: "workspace_tree \<Rightarrow> step_kind \<Rightarrow> (local_child_manifest \<times> path_confinement_point) option" where
  "step_view s step =
     (case step of
        StepRoot \<Rightarrow> map_option (\<lambda>m. (LocalFolder m, NotConfined)) (mh_root_manifest (wt_manifests s))
      | StepChild m c \<Rightarrow> Some (m, c))"

lemma resolution_loop_view:
  assumes cached: "\<And>i m. wt_get s i = Some m \<Longrightarrow> T i = Some m" and step: "step_view s step = Some (m, c)"
  obtains (resolved) m' c' where "resolution_loop event False s step parts = Some (s, ResolutionDone m' c' None)"
      "tree_walk T (m, c) parts = Some (m', c')"
    | (absent) "resolution_loop event False s step parts = Some (s, ResolutionEntryNotFound)" "tree_walk T (m, c) parts = None"
    | (miss) i where "resolution_loop event False s step parts = Some (s, ResolutionNeedPopulateCache i)"
      "i \<in> set (walk_ids T m parts)" "wt_get s i = None" "T i = None \<Longrightarrow> tree_walk T (m, c) parts = None"
  using step
proof (induction parts arbitrary: step m c thesis)
  case Nil
  then show ?case
    by (cases step) (auto simp: resolution_end_def step_view_def Let_def)
next
  case (Cons n ns)
  show ?case
  proof (cases m)
    case (LocalFile f)
    then have "step_folder s step = Some None" using Cons.prems(4) by (cases step) (auto simp: step_view_def step_folder_def)
    with LocalFile Cons.prems(2) show ?thesis by simp
  next
    case (LocalFolder f)
    then have sf: "step_folder s step = Some (Some (f, c))" using Cons.prems(4) by (cases step) (auto simp: step_view_def step_folder_def)
    show ?thesis
    proof (cases "hm_get (ld_children f) n")
      case None
      with sf LocalFolder Cons.prems(2) show ?thesis by simp
    next
      case (Some i)
      show ?thesis
      proof (cases "wt_get s i")
        case None
        show ?thesis by (rule Cons.prems(3) [of i]) (use None sf LocalFolder Some in auto)
      next
        case child: (Some child)
        then have T: "T i = Some child" by (rule cached)
        show ?thesis
        proof (cases "lc_parent child = fo_id (ld_base f)")
          case False
          with sf LocalFolder Some child T Cons.prems(2) show ?thesis by simp
        next
          case True
          let ?c = "child_confinement f c i"
          have v: "step_view s (StepChild child ?c) = Some (child, ?c)" by (simp add: step_view_def)
          have run: "resolution_loop event False s step (n # ns) = resolution_loop event False s (StepChild child ?c) ns"
            using sf Some child True by simp
          have walk: "tree_walk T (m, c) (n # ns) = tree_walk T (child, ?c) ns" "walk_ids T m (n # ns) = i # walk_ids T child ns"
            using LocalFolder Some T True by simp_all
          show ?thesis
            by (rule Cons.IH [OF _ _ _ v]) (use Cons.prems(1-3) run walk in auto)
        qed
      qed
    qed
  qed
qed

text \<open>With the lock: the same look, then the lock of the entry.\<close>

lemma resolution_loop_lock:
  assumes root: "\<forall>m. mh_root_manifest (wt_manifests s) = Some m \<longrightarrow> fo_id (ld_base m) = wt_realm_id s"
    and look: "resolution_loop event False s step parts = Some (s, out)"
  shows "resolution_loop event True s step parts =
    (case out of
       ResolutionDone m c g \<Rightarrow>
         (case lock_take event (lc_id m) (wt_locks s) of
            (l, GuardTaken i) \<Rightarrow> Some (s\<lparr>wt_locks := l\<rparr>, ResolutionDone m c (Some i))
          | (l, NeedWait e) \<Rightarrow> Some (s\<lparr>wt_locks := l\<rparr>, ResolutionNeedWait e))
     | _ \<Rightarrow> Some (s, out))"
  using look
proof (induction parts arbitrary: step)
  case Nil
  then show ?case using root
    by (cases step) (auto simp: resolution_end_def Let_def split: lock_take_outcome.split prod.split)
next
  case (Cons n ns)
  then show ?case by (auto split: option.split_asm option.split if_split_asm)
qed

subsection \<open>Resolving a path computes the reference\<close>

definition trouble :: "tree_env \<Rightarrow> workspace_tree \<Rightarrow> bool" where
  "trouble env s \<longleftrightarrow> True \<in> set (wt_faults s) \<or> (\<exists>i e. te_fetch env i = Inl (SfAccess e))"

lemma same_view_trouble: "same_view env s s' \<Longrightarrow> trouble env s' \<Longrightarrow> trouble env s"
  by (auto simp: same_view_def trouble_def)

lemma same_view_ok: "same_view env s s' \<Longrightarrow> tree_ok env s'"
  by (simp add: same_view_def)

lemma same_view_env: "same_view env s s' \<Longrightarrow> tree_env_ok env (wt_realm_id s) \<Longrightarrow> tree_env_ok env (wt_realm_id s')"
  by (simp add: same_view_def)

lemma cached_known: "wt_get s i = Some m \<Longrightarrow> tree_known env s i = Some m"
  by (simp add: tree_known_def)

lemma tree_root:
  assumes "tree_ok env s"
  obtains root where "mh_root_manifest (wt_manifests s) = Some root" "tree_known env s (wt_realm_id s) = Some (LocalFolder root)"
    "wt_get s (wt_realm_id s) = Some (LocalFolder root)" "root_ok (wt_realm_id s) root"
  using assms by (auto simp: tree_ok_def mh_root_manifest_def wt_get_def tree_known_def)

lemma lock_take_free: "lock_find l i = None \<Longrightarrow> lock_take e i l = (l @ [(i, LockTaken)], GuardTaken i)"
  by (simp add: lock_take_def)

text \<open>What a resolution answers.\<close>

definition resolved_with ::
  "bool \<Rightarrow> workspace_tree \<Rightarrow> (local_child_manifest \<times> path_confinement_point) option \<Rightarrow>
   workspace_tree \<times> (resolve_path_error + local_child_manifest \<times> path_confinement_point \<times> vlob_id option)" where
  "resolved_with lock s answer =
     (case answer of
        None \<Rightarrow> (s, Inl ResEntryNotFound)
      | Some (m, c) \<Rightarrow>
          if lock then (s\<lparr>wt_locks := wt_locks s @ [(lc_id m, LockTaken)]\<rparr>, Inr (m, c, Some (lc_id m)))
          else (s, Inr (m, c, None)))"

definition unlocked :: "workspace_tree \<Rightarrow> (local_child_manifest \<times> path_confinement_point) option \<Rightarrow> bool" where
  "unlocked s answer \<longleftrightarrow> (\<forall>m c. answer = Some (m, c) \<longrightarrow> lock_find (wt_locks s) (lc_id m) = None)"

lemma look_view:
  assumes ok: "tree_ok env s" and free: "lock \<longrightarrow> unlocked s (tree_resolve (tree_known env s) (wt_realm_id s) parts)"
  obtains (resolved) m c where "tree_resolve (tree_known env s) (wt_realm_id s) parts = Some (m, c)"
      "cache_only_path_resolution event parts lock s =
         Some (fst (resolved_with lock s (Some (m, c))), ResolutionDone m c (if lock then Some (lc_id m) else None))"
    | (absent) "tree_resolve (tree_known env s) (wt_realm_id s) parts = None"
      "cache_only_path_resolution event parts lock s = Some (s, ResolutionEntryNotFound)"
    | (miss) i root where "cache_only_path_resolution event parts lock s = Some (s, ResolutionNeedPopulateCache i)"
      "tree_known env s (wt_realm_id s) = Some root" "i \<in> set (walk_ids (tree_known env s) root parts)" "wt_get s i = None"
      "tree_known env s i = None \<Longrightarrow> tree_resolve (tree_known env s) (wt_realm_id s) parts = None"
proof -
  obtain root where r: "mh_root_manifest (wt_manifests s) = Some root" "tree_known env s (wt_realm_id s) = Some (LocalFolder root)"
    "root_ok (wt_realm_id s) root" by (rule tree_root [OF ok])
  let ?T = "tree_known env s"
  have walk: "tree_resolve ?T (wt_realm_id s) parts = tree_walk ?T (LocalFolder root, NotConfined) parts"
    using r(2) by (simp add: tree_resolve_def)
  have step: "step_view s StepRoot = Some (LocalFolder root, NotConfined)" using r(1) by (simp add: step_view_def)
  have id: "\<forall>m. mh_root_manifest (wt_manifests s) = Some m \<longrightarrow> fo_id (ld_base m) = wt_realm_id s"
    using r(1,3) by (simp add: root_ok_def)
  note lock = resolution_loop_lock [OF id, of event StepRoot parts]
  show thesis
  proof (rule resolution_loop_view [of s ?T StepRoot, OF _ step, of event parts])
    fix m c assume 1: "resolution_loop event False s StepRoot parts = Some (s, ResolutionDone m c None)"
      "tree_walk ?T (LocalFolder root, NotConfined) parts = Some (m, c)"
    show thesis
    proof (cases lock)
      case True
      then have "lock_find (wt_locks s) (lc_id m) = None" using free 1(2) walk by (simp add: unlocked_def)
      then have "cache_only_path_resolution event parts lock s =
          Some (fst (resolved_with lock s (Some (m, c))), ResolutionDone m c (if lock then Some (lc_id m) else None))"
        using True lock [OF 1(1)] by (simp add: cache_only_path_resolution_def lock_take_free resolved_with_def)
      with 1(2) walk show thesis by (intro resolved [of m c]) simp_all
    next
      case False
      with 1 walk show thesis
        by (intro resolved [of m c]) (simp_all add: cache_only_path_resolution_def resolved_with_def)
    qed
  next
    assume 2: "resolution_loop event False s StepRoot parts = Some (s, ResolutionEntryNotFound)"
      "tree_walk ?T (LocalFolder root, NotConfined) parts = None"
    then have "cache_only_path_resolution event parts lock s = Some (s, ResolutionEntryNotFound)"
      using lock [OF 2(1)] by (cases lock) (simp_all add: cache_only_path_resolution_def)
    with 2 walk show thesis by (intro absent) simp_all
  next
    fix i assume 3: "resolution_loop event False s StepRoot parts = Some (s, ResolutionNeedPopulateCache i)"
      "i \<in> set (walk_ids ?T (LocalFolder root) parts)" "wt_get s i = None"
      "?T i = None \<Longrightarrow> tree_walk ?T (LocalFolder root, NotConfined) parts = None"
    then have "cache_only_path_resolution event parts lock s = Some (s, ResolutionNeedPopulateCache i)"
      using lock [OF 3(1)] by (cases lock) (simp_all add: cache_only_path_resolution_def)
    with 3 walk r(2) show thesis by (intro miss [of i "LocalFolder root"]) simp_all
  qed (rule cached_known)
qed

lemma resolve_view:
  assumes env: "tree_env_ok env (wt_realm_id s)" and ok: "tree_ok env s"
    and free: "lock \<longrightarrow> unlocked s (tree_resolve (tree_known env s) (wt_realm_id s) (fp_parts path))"
  shows "\<exists>s'. same_view env s s' \<and>
    (resolve_path_maybe_lock_for_update env path lock s =
       Some (resolved_with lock s' (tree_resolve (tree_known env s) (wt_realm_id s) (fp_parts path))) \<or>
     trouble env s \<and> (\<exists>e. resolve_path_maybe_lock_for_update env path lock s = Some (s', Inl (ResAccess e))))"
  using assms
proof (induction "card (set (walk_ids (tree_known env s) (the (tree_known env s (wt_realm_id s))) (fp_parts path)) - dom (wt_get s))"
    arbitrary: s rule: less_induct)
  case (less s)
  note env = less.prems(1) and ok = less.prems(2) and free = less.prems(3)
  let ?T = "tree_known env s" and ?parts = "fp_parts path"
  let ?answer = "tree_resolve ?T (wt_realm_id s) ?parts"
  note unfold = resolve_path_maybe_lock_for_update.simps [of env path lock s]
  show ?case
  proof (cases rule: look_view [OF ok free, where event = "te_event env"])
    case (1 m c)
    then have "resolve_path_maybe_lock_for_update env path lock s = Some (resolved_with lock s ?answer)"
      by (simp add: unfold resolved_with_def)
    with same_view_refl [OF ok] show ?thesis by blast
  next
    case 2
    then have "resolve_path_maybe_lock_for_update env path lock s = Some (resolved_with lock s ?answer)"
      by (simp add: unfold resolved_with_def)
    with same_view_refl [OF ok] show ?thesis by blast
  next
    case (3 i root)
    show ?thesis
    proof (cases rule: populate_view [OF env ok 3(4)])
      case (1 s1 m)
      then have run: "resolve_path_maybe_lock_for_update env path lock s = resolve_path_maybe_lock_for_update env path lock s1"
        using 3(1) by (simp add: unfold)
      have v: "tree_known env s1 = ?T" "wt_realm_id s1 = wt_realm_id s" "wt_locks s1 = wt_locks s"
        using 1(2) by (simp_all add: same_view_def)
      let ?ids = "set (walk_ids ?T root ?parts)"
      have "dom (wt_get s) \<subseteq> dom (wt_get s1)" "i \<in> dom (wt_get s1)" "i \<notin> dom (wt_get s)"
        using 1(2,3) 3(4) by (auto simp: same_view_def)
      then have "?ids - dom (wt_get s1) \<subset> ?ids - dom (wt_get s)" using 3(3) by blast
      then have "card (?ids - dom (wt_get s1)) < card (?ids - dom (wt_get s))" by (intro psubset_card_mono) simp_all
      then have "card (set (walk_ids (tree_known env s1) (the (tree_known env s1 (wt_realm_id s1))) ?parts) - dom (wt_get s1)) <
          card (set (walk_ids ?T (the (?T (wt_realm_id s))) ?parts) - dom (wt_get s))"
        using 3(2) v by simp
      from less.hyps [OF this same_view_env [OF 1(2) env] same_view_ok [OF 1(2)]] free
      obtain s' where s': "same_view env s1 s'" "resolve_path_maybe_lock_for_update env path lock s1 = Some (resolved_with lock s' ?answer) \<or>
          trouble env s1 \<and> (\<exists>e. resolve_path_maybe_lock_for_update env path lock s1 = Some (s', Inl (ResAccess e)))"
        by (auto simp: v unlocked_def)
      show ?thesis using same_view_trans [OF 1(2) s'(1)] s'(2) run same_view_trouble [OF 1(2)] by auto
    next
      case (2 s1)
      then have "resolve_path_maybe_lock_for_update env path lock s = Some (resolved_with lock s1 ?answer)"
        using 3(1,5) by (simp add: unfold resolved_with_def)
      with 2(2) show ?thesis by blast
    next
      case (3 s1 e)
      then have "resolve_path_maybe_lock_for_update env path lock s = Some (s1, Inl (ResAccess e))"
        using \<open>cache_only_path_resolution (te_event env) ?parts lock s = Some (s, ResolutionNeedPopulateCache i)\<close> by (simp add: unfold)
      moreover have "trouble env s" using 3(3) by (auto simp: trouble_def)
      ultimately show ?thesis using 3(2) by blast
    qed
  qed
qed

end
