(* ===== verification/Tree_Shape.thy ===== *)
theory Tree_Shape
  imports Tree_Links Tree_Paths
begin

text \<open>
  The paths of a view: \<open>tree_paths\<close> relates every path to the entry it leads to. Resolving a path over the view is
  following the links, and the links form a tree.
\<close>

definition tree_paths :: "(vlob_id \<Rightarrow> local_child_manifest option) \<Rightarrow> vlob_id \<Rightarrow> (entry_name list \<times> vlob_id) set" where
  "tree_paths T realm = {(q, i). leads (link T) realm q i}"

lemma tree_paths_iff: "(q, i) \<in> tree_paths T realm \<longleftrightarrow> leads (link T) realm q i"
  by (simp add: tree_paths_def)

definition tree_shape :: "(vlob_id \<Rightarrow> local_child_manifest option) \<Rightarrow> vlob_id \<Rightarrow> bool" where
  "tree_shape T realm \<longleftrightarrow> (\<forall>i m. T i = Some m \<longrightarrow> lc_id m = i) \<and>
     (\<forall>i f. T i = Some (LocalFolder f) \<longrightarrow> children_ok (ld_children f)) \<and>
     (\<exists>root. T realm = Some (LocalFolder root) \<and> root_ok realm root)"

lemma tree_known_shape:
  assumes "tree_env_ok env (wt_realm_id s)" "tree_ok env s"
  shows "tree_shape (tree_known env s) (wt_realm_id s)"
proof -
  obtain root where "tree_known env s (wt_realm_id s) = Some (LocalFolder root)" "root_ok (wt_realm_id s) root"
    by (rule tree_root [OF assms(2)])
  then show ?thesis unfolding tree_shape_def using tree_known_ok(1) [OF assms] tree_known_children(1) [OF assms] by blast
qed

lemma shape_id: "tree_shape T realm \<Longrightarrow> T i = Some m \<Longrightarrow> lc_id m = i"
  by (simp add: tree_shape_def)

lemma link_iff: "link T p n i \<longleftrightarrow> (\<exists>f c. T p = Some (LocalFolder f) \<and> hm_get (ld_children f) n = Some i \<and> T i = Some c \<and> lc_parent c = p)"
  by (simp add: link_def)

lemma link_tree_shape:
  assumes "tree_shape T realm" shows "link_tree (link T) realm"
  unfolding link_tree_def
proof (intro conjI allI impI)
  fix p n i i' assume "link T p n i \<and> link T p n i'"
  then show "i = i'" by (auto simp: link_iff)
next
  fix p n p' n' i assume l: "link T p n i \<and> link T p' n' i"
  then have "p' = p" by (auto simp: link_iff)
  moreover obtain f where "T p = Some (LocalFolder f)" "hm_get (ld_children f) n = Some i" "hm_get (ld_children f) n' = Some i"
    using l \<open>p' = p\<close> by (auto simp: link_iff)
  ultimately show "p = p'" "n = n'" using assms unfolding tree_shape_def children_ok_def unique_ids_def by blast+
next
  fix p n
  show "\<not> link T p n realm"
  proof
    assume "link T p n realm"
    moreover obtain root where root: "T realm = Some (LocalFolder root)" "root_ok realm root" using assms by (auto simp: tree_shape_def)
    ultimately have "p = realm" by (auto simp: link_iff root_ok_def)
    with root \<open>link T p n realm\<close> show False by (auto simp: link_iff root_ok_def)
  qed
qed

lemma walk_leads:
  assumes shape: "tree_shape T realm"
  shows "T (lc_id m) = Some m \<Longrightarrow> tree_walk T (m, c) q = Some (m', c') \<Longrightarrow>
    T (lc_id m') = Some m' \<and> leads (link T) (lc_id m) q (lc_id m')"
proof (induction q arbitrary: m c)
  case (Cons n q)
  then obtain f where f: "m = LocalFolder f" by (cases m) auto
  then obtain i child where i: "hm_get (ld_children f) n = Some i" "T i = Some child" "lc_parent child = fo_id (ld_base f)"
    "tree_walk T (child, child_confinement f c i) q = Some (m', c')"
    using Cons.prems(2) by (auto elim!: bind_SomeE split: if_split_asm)
  have id: "lc_id child = i" using shape_id [OF shape i(2)] .
  have "link T (lc_id m) n i" using Cons.prems(1) f i(1-3) by (simp add: link_iff)
  with Cons.IH [OF _ i(4)] i(2) id show ?case by (auto simp: leads_Cons)
qed simp

lemma leads_walk:
  assumes shape: "tree_shape T realm"
  shows "T (lc_id m) = Some m \<Longrightarrow> leads (link T) (lc_id m) q i \<Longrightarrow> \<exists>m' c'. tree_walk T (m, c) q = Some (m', c') \<and> T i = Some m'"
proof (induction q arbitrary: m c)
  case (Cons n q)
  then obtain j where j: "link T (lc_id m) n j" "leads (link T) j q i" by (auto simp: leads_Cons)
  then obtain f child where f: "m = LocalFolder f" "hm_get (ld_children f) n = Some j" "T j = Some child" "lc_parent child = lc_id m"
    using Cons.prems(1) by (auto simp: link_iff)
  have id: "lc_id child = j" using shape_id [OF shape f(3)] .
  with Cons.IH [of child "child_confinement f c j"] f j(2) show ?case by auto
qed simp

lemma tree_resolve_paths:
  assumes shape: "tree_shape T realm"
  shows "tree_resolve T realm q = Some (m, c) \<Longrightarrow> (q, lc_id m) \<in> tree_paths T realm \<and> T (lc_id m) = Some m"
    "tree_resolve T realm q = None \<Longrightarrow> (q, i) \<notin> tree_paths T realm"
    "(q, i) \<in> tree_paths T realm \<Longrightarrow> \<exists>m c. tree_resolve T realm q = Some (m, c) \<and> T i = Some m"
proof -
  obtain root where root: "T realm = Some (LocalFolder root)" using shape by (auto simp: tree_shape_def)
  have id: "lc_id (LocalFolder root) = realm" using shape_id [OF shape root] .
  then have at: "T (lc_id (LocalFolder root)) = Some (LocalFolder root)" using root by simp
  have run: "tree_resolve T realm q = tree_walk T (LocalFolder root, NotConfined) q" using root by (simp add: tree_resolve_def)
  show "tree_resolve T realm q = Some (m, c) \<Longrightarrow> (q, lc_id m) \<in> tree_paths T realm \<and> T (lc_id m) = Some m"
    using walk_leads [OF shape at, of NotConfined q m c] id unfolding run tree_paths_iff by simp
  show path: "(q, i) \<in> tree_paths T realm \<Longrightarrow> \<exists>m c. tree_resolve T realm q = Some (m, c) \<and> T i = Some m"
    using leads_walk [OF shape at, of q i NotConfined] id unfolding run tree_paths_iff by simp
  show "tree_resolve T realm q = None \<Longrightarrow> (q, i) \<notin> tree_paths T realm" using path by auto
qed

lemma path_iff:
  assumes shape: "tree_shape T realm"
  shows "(q, i) \<in> tree_paths T realm \<longleftrightarrow> map_option (\<lambda>(m, c). lc_id m) (tree_resolve T realm q) = Some i"
    and "q \<in> fst ` tree_paths T realm \<longleftrightarrow> tree_resolve T realm q \<noteq> None"
proof -
  show at: "(q, i) \<in> tree_paths T realm \<longleftrightarrow> map_option (\<lambda>(m, c). lc_id m) (tree_resolve T realm q) = Some i" for i
  proof
    assume "(q, i) \<in> tree_paths T realm"
    then obtain m c where "tree_resolve T realm q = Some (m, c)" "T i = Some m" using tree_resolve_paths(3) [OF shape] by blast
    then show "map_option (\<lambda>(m, c). lc_id m) (tree_resolve T realm q) = Some i" using shape_id [OF shape] by simp
  qed (use tree_resolve_paths(1) [OF shape] in auto)
  show "q \<in> fst ` tree_paths T realm \<longleftrightarrow> tree_resolve T realm q \<noteq> None"
    using at by (cases "tree_resolve T realm q") (force simp: image_iff)+
qed

subsection \<open>Changes of the view\<close>

lemma paths_root: "([], i) \<in> tree_paths T realm \<longleftrightarrow> i = realm"
  by (simp add: tree_paths_iff)

lemma paths_child: "(q @ [n], i) \<in> tree_paths T realm \<longleftrightarrow> (\<exists>p. (q, p) \<in> tree_paths T realm \<and> link T p n i)"
  by (simp add: tree_paths_iff leads_snoc)

lemma paths_fun: "tree_shape T realm \<Longrightarrow> (q, i) \<in> tree_paths T realm \<Longrightarrow> (q, i') \<in> tree_paths T realm \<Longrightarrow> i = i'"
  unfolding tree_paths_iff by (rule leads_fun [OF link_tree_shape])

lemma paths_unique: "tree_shape T realm \<Longrightarrow> (q, i) \<in> tree_paths T realm \<Longrightarrow> (q', i) \<in> tree_paths T realm \<Longrightarrow> q = q'"
  unfolding tree_paths_iff by (rule leads_unique [OF link_tree_shape])

lemma paths_at:
  assumes "tree_shape T realm" "(q, p) \<in> tree_paths T realm"
  shows "(q @ [n], i) \<in> tree_paths T realm \<longleftrightarrow> link T p n i" "q @ [n] \<in> fst ` tree_paths T realm \<longleftrightarrow> (\<exists>i. link T p n i)"
proof -
  show at: "(q @ [n], i) \<in> tree_paths T realm \<longleftrightarrow> link T p n i" for i
    unfolding paths_child using assms(2) paths_fun [OF assms] by blast
  then show "q @ [n] \<in> fst ` tree_paths T realm \<longleftrightarrow> (\<exists>i. link T p n i)" by force
qed

text \<open>A new entry.\<close>

lemma created_paths:
  assumes shape: "tree_shape T realm" and p: "(q, p) \<in> tree_paths T realm" and fresh: "T new = None"
    and link: "link T' = add_link (cut_link (link T) p n) p n new" and free: "\<And>i. \<not> link T p n i"
  shows "tree_paths T' realm = insert (q @ [n], new) (tree_paths T realm)"
proof -
  have tree: "link_tree (link T) realm" by (rule link_tree_shape [OF shape])
  have "link T' = add_link (link T) p n new" using free by (auto simp: link fun_eq_iff add_link_iff cut_link_iff)
  moreover have "\<not> link T k m new" "\<not> link T new m k" for k m using fresh by (auto simp: link_iff)
  moreover have "new \<noteq> realm" using fresh shape by (auto simp: tree_shape_def)
  ultimately have "leads (link T') realm w i \<longleftrightarrow> leads (link T) realm w i \<or> (\<exists>s. w = q @ n # s \<and> leads (link T) new s i)" for w i
    using leads_add [OF tree p [unfolded tree_paths_iff]] by simp
  moreover have "leads (link T) new s i \<longleftrightarrow> s = [] \<and> i = new" for s i
    using \<open>\<And>k m. \<not> link T new m k\<close> by (cases s) (auto simp: leads_Cons)
  ultimately show ?thesis by (auto simp: tree_paths_def)
qed

text \<open>An entry that is removed with all that is below it.\<close>

lemma removed_paths:
  assumes shape: "tree_shape T realm" and p: "(q, p) \<in> tree_paths T realm" and link: "link T' = cut_link (link T) p n"
  shows "tree_paths T' realm = {(w, i) \<in> tree_paths T realm. \<not> prefix (q @ [n]) w}"
  using leads_cut [OF link_tree_shape [OF shape] p [unfolded tree_paths_iff]] by (auto simp: tree_paths_def link)

text \<open>An entry that takes another place, and two that change places.\<close>

definition moved_paths :: "entry_name list \<Rightarrow> entry_name list \<Rightarrow> (entry_name list \<times> vlob_id) set \<Rightarrow> (entry_name list \<times> vlob_id) set" where
  "moved_paths src dst P =
     {(w, i) \<in> P. \<not> prefix src w \<and> \<not> prefix dst w} \<union> {(dst @ w, i) |w i. (src @ w, i) \<in> P}"

definition exchanged_paths :: "entry_name list \<Rightarrow> entry_name list \<Rightarrow> (entry_name list \<times> vlob_id) set \<Rightarrow> (entry_name list \<times> vlob_id) set" where
  "exchanged_paths src dst P =
     {(w, i) \<in> P. \<not> prefix src w \<and> \<not> prefix dst w} \<union> {(dst @ w, i) |w i. (src @ w, i) \<in> P} \<union>
     {(src @ w, i) |w i. (dst @ w, i) \<in> P}"

lemma move_paths:
  assumes shape: "tree_shape T realm" and p: "(q, p) \<in> tree_paths T realm" "link T p n c" and p': "(q', p') \<in> tree_paths T realm"
    and apart: "\<not> prefix (q @ [n]) q'" and link: "link T' = move_link (link T) p n p' n' c"
  shows "tree_paths T' realm = moved_paths (q @ [n]) (q' @ [n']) (tree_paths T realm)"
  using leads_move [OF link_tree_shape [OF shape] p(1) [unfolded tree_paths_iff] p(2) p' [unfolded tree_paths_iff] apart]
  by (auto simp: tree_paths_def moved_paths_def link)

lemma exchange_paths:
  assumes shape: "tree_shape T realm" and p: "(q, p) \<in> tree_paths T realm" "link T p n c"
    and p': "(q', p') \<in> tree_paths T realm" "link T p' n' c'"
    and apart: "\<not> prefix (q @ [n]) (q' @ [n'])" "\<not> prefix (q' @ [n']) (q @ [n])"
    and link: "link T' = exchange_links (link T) p n c p' n' c'"
  shows "tree_paths T' realm = exchanged_paths (q @ [n]) (q' @ [n']) (tree_paths T realm)"
  using leads_exchange [OF link_tree_shape [OF shape] p(1) [unfolded tree_paths_iff] p(2) p'(1) [unfolded tree_paths_iff] p'(2) apart]
  by (auto simp: tree_paths_def exchanged_paths_def link)

end
