(* ===== verification/Tree_Writes.thy ===== *)
theory Tree_Writes
  imports Tree_Shape
begin

text \<open>
  What the steps of an operation on entries do to the view: asking for a manifest, resolving and locking a folder,
  releasing it, writing manifests to the storage and to the cache.
\<close>

lemma evolved_unique_ids:
  assumes get: "hm_get c' = (\<lambda>n. case hm_get data n of None \<Rightarrow> hm_get c n | Some v \<Rightarrow> v)"
    and unique: "unique_ids c" and ok: "evolvable c data"
    and ids: "\<And>n n' i. hm_get data n = Some (Some i) \<Longrightarrow> hm_get data n' = Some (Some i) \<Longrightarrow> n = n'"
  shows "unique_ids c'"
  unfolding unique_ids_def
proof (intro allI impI, elim conjE)
  have child: "hm_get c' n = Some i \<longleftrightarrow> hm_get data n = Some (Some i) \<or> hm_get data n = None \<and> hm_get c n = Some i" for n i
    unfolding get by (auto split: option.split)
  have new: "n' \<in> dom (hm_get data)" if "hm_get data n = Some (Some i)" "hm_get c n' = Some i" for n n' i
    using ok that unfolding evolvable_def by blast
  fix n n' i assume n: "hm_get c' n = Some i" "hm_get c' n' = Some i"
  show "n = n'"
    using n [unfolded child] ids [of n i n'] new [of n i n'] new [of n' i n] unique [unfolded unique_ids_def, rule_format, of n i n']
    by auto
qed

lemma evolve_children_ok:
  assumes h: "hash_iter_ok h" and ok: "children_ok (ld_children m)" and data: "hm_wf data" "evolvable (ld_children m) data"
    and ids: "\<And>n n' i. hm_get data n = Some (Some i) \<Longrightarrow> hm_get data n' = Some (Some i) \<Longrightarrow> n = n'"
  obtains m' where "evolve_children_and_mark_updated h m data pattern timestamp = Some m'" "children_ok (ld_children m')"
    "hm_get (ld_children m') = (\<lambda>n. case hm_get data n of None \<Rightarrow> hm_get (ld_children m) n | Some v \<Rightarrow> v)"
    "ld_base m' = ld_base m" "ld_parent m' = ld_parent m"
proof -
  have wf: "hm_wf (ld_children m)" and unique: "unique_ids (ld_children m)" using ok by (auto simp: children_ok_def)
  obtain m' where m': "evolve_children_and_mark_updated h m data pattern timestamp = Some m'" "hm_wf (ld_children m')"
    "hm_get (ld_children m') = (\<lambda>n. case hm_get data n of None \<Rightarrow> hm_get (ld_children m) n | Some v \<Rightarrow> v)"
    "ld_base m' = ld_base m" "ld_parent m' = ld_parent m"
    using evolve_spec [OF h data(1) wf data(2), of pattern timestamp] by blast
  then show thesis using that evolved_unique_ids [OF m'(3) unique data(2) ids] by (simp add: children_ok_def)
qed

subsection \<open>Asking for a manifest\<close>

lemma get_manifest_view:
  assumes env: "tree_env_ok env (wt_realm_id s)" and ok: "tree_ok env s"
  obtains (found) s' m where "get_manifest env i s = Some (s', Inr m)" "same_view env s s'" "tree_known env s i = Some m"
    | (absent) s' where "get_manifest env i s = Some (s', Inl PopEntryNotFound)" "same_view env s s'" "tree_known env s i = None"
    | (fails) s' e where "get_manifest env i s = Some (s', Inl (PopAccess e))" "same_view env s s'" "trouble env s"
proof (cases "wt_get s i")
  case (Some m)
  with that(1) [of s m] same_view_refl [OF ok] cached_known show thesis by (simp add: get_manifest_def)
next
  case None
  show thesis
  proof (cases rule: populate_view [OF env ok None])
    case (1 s' m)
    with None that(1) show thesis by (simp add: get_manifest_def)
  next
    case (2 s')
    with None that(2) show thesis by (simp add: get_manifest_def)
  next
    case (3 s' e)
    then have "trouble env s" by (auto simp: trouble_def)
    with 3 None that(3) show thesis by (simp add: get_manifest_def)
  qed
qed

definition child_of :: "(vlob_id \<Rightarrow> local_child_manifest option) \<Rightarrow> vlob_id \<Rightarrow> vlob_id \<Rightarrow> local_child_manifest option" where
  "child_of T p i = (case T i of None \<Rightarrow> None | Some m \<Rightarrow> if lc_parent m = p then Some m else None)"

lemma child_of_link: "T p = Some (LocalFolder f) \<Longrightarrow> hm_get (ld_children f) n = Some i \<Longrightarrow> child_of T p i \<noteq> None \<longleftrightarrow> link T p n i"
  by (auto simp: child_of_def link_iff split: option.split)

lemma ensure_view:
  assumes env: "tree_env_ok env (wt_realm_id s)" and ok: "tree_ok env s"
  obtains (answers) s' where "ensure_manifest_exists_with_parent env i p s = Some (s', Inr (child_of (tree_known env s) p i))" "same_view env s s'"
    | (fails) s' e where "ensure_manifest_exists_with_parent env i p s = Some (s', Inl e)" "same_view env s s'" "trouble env s"
proof (cases rule: get_manifest_view [OF env ok, of i])
  case (1 s' m)
  then show thesis by (intro that(1) [of s']) (simp_all add: ensure_manifest_exists_with_parent_def op_run child_of_def)
next
  case (2 s')
  then show thesis by (intro that(1) [of s']) (simp_all add: ensure_manifest_exists_with_parent_def op_run child_of_def)
next
  case (3 s' e)
  then show thesis by (intro that(2) [of s' e]) (simp_all add: ensure_manifest_exists_with_parent_def op_run)
qed

subsection \<open>Locks\<close>

lemma release_last:
  assumes "lock_find l i = None" "wt_locks s = l @ [(i, LockTaken)]"
  shows "release_guard i s = Some (s\<lparr>wt_locks := l\<rparr>)"
proof -
  have "lock_find l i = None \<Longrightarrow> lock_index (l @ [(i, LockTaken)]) i = Some (length l)"
    by (induction l) (auto split: if_split_asm)
  then show ?thesis using assms by (simp add: release_guard_def lock_release_def swap_remove_def)
qed

lemma resolve_locked_view:
  assumes env: "tree_env_ok env (wt_realm_id s)" and ok: "tree_ok env s"
    and free: "unlocked s (tree_resolve (tree_known env s) (wt_realm_id s) (fp_parts path))"
  obtains (folder) s' p f c where "resolve_path_for_update_folder env path s =
        Some (s'\<lparr>wt_locks := wt_locks s @ [(p, LockTaken)]\<rparr>, Inr (f, c, p))" "same_view env s s'"
      "tree_known env s p = Some (LocalFolder f)" "(fp_parts path, p) \<in> tree_paths (tree_known env s) (wt_realm_id s)"
      "lock_find (wt_locks s) p = None"
    | (no_folder) s' f i where "resolve_path_for_update_folder env path s = Some (s', Inl FolderEntryNotAFolder)" "same_view env s s'"
      "tree_known env s i = Some (LocalFile f)" "(fp_parts path, i) \<in> tree_paths (tree_known env s) (wt_realm_id s)"
    | (absent) s' where "resolve_path_for_update_folder env path s = Some (s', Inl FolderEntryNotFound)" "same_view env s s'"
      "\<forall>i. (fp_parts path, i) \<notin> tree_paths (tree_known env s) (wt_realm_id s)"
    | (fails) s' e where "resolve_path_for_update_folder env path s = Some (s', Inl (FolderAccess e))" "same_view env s s'" "trouble env s"
proof -
  note defs = resolve_path_for_update_folder_def resolve_path_and_lock_for_update_def op_run op_option_def
  let ?T = "tree_known env s" and ?r = "wt_realm_id s"
  let ?answer = "tree_resolve ?T ?r (fp_parts path)"
  note shape = tree_known_shape [OF env ok]
  from resolve_view [of env s True path] assms obtain s' where s': "same_view env s s'"
    and run: "resolve_path_maybe_lock_for_update env path True s = Some (resolved_with True s' ?answer) \<or>
      trouble env s \<and> (\<exists>e. resolve_path_maybe_lock_for_update env path True s = Some (s', Inl (ResAccess e)))" by auto
  have l: "wt_locks s' = wt_locks s" using s' by (simp add: same_view_def)
  consider (yes) m c where "?answer = Some (m, c)" "resolve_path_maybe_lock_for_update env path True s =
        Some (s'\<lparr>wt_locks := wt_locks s @ [(lc_id m, LockTaken)]\<rparr>, Inr (m, c, Some (lc_id m)))"
    | (no) "?answer = None" "resolve_path_maybe_lock_for_update env path True s = Some (s', Inl ResEntryNotFound)"
    | (bad) e where "trouble env s" "resolve_path_maybe_lock_for_update env path True s = Some (s', Inl (ResAccess e))"
    using run l by (cases ?answer) (auto simp: resolved_with_def)
  then show thesis
  proof cases
    case (yes m c)
    have free': "lock_find (wt_locks s) (lc_id m) = None" using free yes(1) by (simp add: unlocked_def)
    note at = tree_resolve_paths(1) [OF shape yes(1)]
    show thesis
    proof (cases m)
      case (LocalFile f)
      let ?s = "s'\<lparr>wt_locks := wt_locks s @ [(lc_id m, LockTaken)]\<rparr>"
      have "release_guard (lc_id m) ?s = Some s'" using release_last [OF free', of ?s] l by simp
      then have "resolve_path_for_update_folder env path s = Some (s', Inl FolderEntryNotAFolder)"
        using yes(2) LocalFile by (simp add: defs releasing_def)
      then show thesis by (rule no_folder) (use s' at LocalFile in auto)
    next
      case (LocalFolder f)
      show thesis by (rule folder [where s' = s' and p = "lc_id m" and f = f and c = c]) (use s' at LocalFolder yes free' in \<open>auto simp: defs\<close>)
    qed
  next
    case no
    show thesis by (rule absent [of s']) (use s' no tree_resolve_paths(2) [OF shape no(1)] in \<open>auto simp: defs\<close>)
  next
    case (bad e)
    show thesis by (rule fails [of s' e]) (use s' bad in \<open>auto simp: defs\<close>)
  qed
qed

subsection \<open>Writing manifests\<close>

definition wrote :: "tree_env \<Rightarrow> workspace_tree \<Rightarrow> workspace_tree \<Rightarrow> (vlob_id \<Rightarrow> local_child_manifest option) \<Rightarrow> bool" where
  "wrote env s s' M \<longleftrightarrow> tree_ok env s' \<and> tree_known env s' = tree_known env s ++ M \<and> wt_locks s' = wt_locks s \<and>
     wt_realm_id s' = wt_realm_id s \<and> set (wt_faults s') \<subseteq> set (wt_faults s)"

lemma same_view_wrote: "same_view env s s' \<Longrightarrow> wrote env s s' Map.empty"
  by (simp add: same_view_def wrote_def)

lemma wrote_trans: "wrote env s s1 M \<Longrightarrow> wrote env s1 s2 M' \<Longrightarrow> wrote env s s2 (M ++ M')"
  by (auto simp: wrote_def)

lemma wrote_env: "wrote env s s' M \<Longrightarrow> tree_env_ok env (wt_realm_id s) \<Longrightarrow> tree_env_ok env (wt_realm_id s')"
  by (simp add: wrote_def)

lemma wrote_trouble: "wrote env s s' M \<Longrightarrow> trouble env s' \<Longrightarrow> trouble env s"
  by (auto simp: wrote_def trouble_def)

definition writable :: "vlob_id \<Rightarrow> (vlob_id \<Rightarrow> local_child_manifest option) \<Rightarrow> bool" where
  "writable realm M \<longleftrightarrow> (\<forall>i m. M i = Some m \<longrightarrow> lc_id m = i \<and> (i \<noteq> realm \<longrightarrow> child_ok m) \<and>
     (i = realm \<longrightarrow> (\<exists>f. m = LocalFolder f \<and> root_ok realm f)))"

lemma written_view:
  assumes env: "tree_env_ok env (wt_realm_id s)" and ok: "tree_ok env s" and db: "wt_storage s = Some db"
    and M: "writable (wt_realm_id s) M"
    and get: "db_get_manifest db' = db_get_manifest db ++ (\<lambda>i. map_option (\<lambda>m. dk_encrypt (te_dk env) (te_dump env m)) (M i))"
    and cache: "mh_root_manifest_id c = mh_root_manifest_id (wt_manifests s)" "hm_get (mh_manifests c) = wt_get s ++ M"
    and fs: "set fs \<subseteq> set (wt_faults s)"
  shows "wrote env s (s\<lparr>wt_faults := fs, wt_storage := Some db', wt_manifests := c\<rparr>) M"
proof -
  obtain s' where s': "s' = s\<lparr>wt_faults := fs, wt_storage := Some db', wt_manifests := c\<rparr>" by blast
  have load: "te_load env (te_dump env m) = Some m" "dk_decrypt (te_dk env) (dk_encrypt (te_dk env) x) = Some x" for m x
    using env by (auto simp: tree_env_ok_def key_ok_def)
  have cached: "wt_get s' = wt_get s ++ M" using cache(2) by (simp add: s' wt_get_def)
  have st: "stored_manifest env s' = stored_manifest env s ++ M"
    using db by (auto simp: fun_eq_iff stored_manifest_def s' get load map_add_def split: option.split)
  have iss: "is_stored s' = (\<lambda>i. M i \<noteq> None \<or> is_stored s i)"
    using db by (auto simp: fun_eq_iff is_stored_def s' get map_add_def split: option.split)
  have known: "tree_known env s' = tree_known env s ++ M"
    by (auto simp: fun_eq_iff tree_known_def cached st iss map_add_def split: option.split)
  have more: "wt_realm_id s' = wt_realm_id s" "wt_manifests s' = c" "wt_storage s' \<noteq> None" "wt_locks s' = wt_locks s"
    "set (wt_faults s') \<subseteq> set (wt_faults s)"
    using fs by (simp_all add: s')
  have w: "M i = Some m \<Longrightarrow> lc_id m = i \<and> (i \<noteq> wt_realm_id s \<longrightarrow> child_ok m) \<and>
     (i = wt_realm_id s \<longrightarrow> (\<exists>f. m = LocalFolder f \<and> root_ok (wt_realm_id s) f))" for i m
    using M unfolding writable_def by blast
  have root: "\<exists>root. (wt_get s ++ M) (wt_realm_id s) = Some (LocalFolder root) \<and> root_ok (wt_realm_id s) root"
  proof (cases "M (wt_realm_id s)")
    case None
    with ok show ?thesis by (auto simp: tree_ok_def map_add_def)
  next
    case (Some m)
    with w [OF Some] show ?thesis by (auto simp: map_add_def)
  qed
  have both: "(stored_manifest env s ++ M) i = Some m" if "(wt_get s ++ M) i = Some m" for i m
    using that ok by (auto simp: tree_ok_def map_add_def split: option.split_asm)
  have sound: "\<exists>m. (stored_manifest env s ++ M) i = Some m \<and> lc_id m = i \<and> child_ok m"
    if "i \<noteq> wt_realm_id s" "M i \<noteq> None \<or> is_stored s i" for i
  proof (cases "M i")
    case None
    then have "is_stored s i" using that by simp
    then show ?thesis using ok None that(1) unfolding tree_ok_def map_add_def by simp
  next
    case (Some m)
    with w [OF Some] that(1) show ?thesis by (simp add: map_add_def)
  qed
  have "tree_ok env s'" unfolding tree_ok_def cached st iss more(1,2) using cache(1) ok root both sound more(3)
    by (simp add: tree_ok_def)
  then show ?thesis unfolding s' [symmetric] wrote_def using known more by simp
qed

lemma wt_insert_run:
  assumes "mh_root_manifest_id (wt_manifests s) = lc_id m \<longrightarrow> (\<exists>f. m = LocalFolder f)"
  shows "wt_insert m s = Some (s\<lparr>wt_manifests := (wt_manifests s)\<lparr>mh_manifests := hm_insert (lc_id m) m (mh_manifests (wt_manifests s))\<rparr>\<rparr>, Inr ())"
  using assms by (cases m) (auto simp: wt_insert_def mh_insert_def mh_id_of_def)

lemma update_folder_view:
  assumes env: "tree_env_ok env (wt_realm_id s)" and ok: "tree_ok env s"
    and M: "M = [fo_id (ld_base m) \<mapsto> LocalFolder m] ++ (case new of None \<Rightarrow> Map.empty | Some c \<Rightarrow> [lc_id c \<mapsto> c])"
    and w: "writable (wt_realm_id s) M" and new: "\<And>c. new = Some c \<Longrightarrow> lc_id c \<noteq> fo_id (ld_base m) \<and> lc_id c \<noteq> wt_realm_id s"
  obtains (fails) "update_folder_manifest env m new s = Some (s\<lparr>wt_faults := tl (wt_faults s)\<rparr>, Inl AccInternal)" "trouble env s"
    | (works) s' where "update_folder_manifest env m new s = Some (s', Inr ())" "wrote env s s' M"
proof -
  note defs = update_folder_manifest_def op_run op_option_def
  obtain db where db: "wt_storage s = Some db" using ok by (auto simp: tree_ok_def)
  have root: "mh_root_manifest_id (wt_manifests s) = wt_realm_id s" using ok by (simp add: tree_ok_def)
  obtain u where u: "child_update_data env (LocalFolder m) = Some u" "ud_entry_id u = fo_id (ld_base m)"
    "ud_encrypted u = dk_encrypt (te_dk env) (te_dump env (LocalFolder m))"
    using child_update_data_ok [of "LocalFolder m" env] by auto
  show thesis
  proof (cases new)
    case None
    show thesis
    proof (cases rule: with_storage_cases [OF db, of AccStopped AccInternal "\<lambda>db. (db_update_manifest u db, ())"])
      case 1
      then show thesis using u(1) None by (intro that(1)) (simp_all add: defs trouble_def)
    next
      case (2 db' x)
      let ?c = "(wt_manifests s)\<lparr>mh_manifests := hm_insert (fo_id (ld_base m)) (LocalFolder m) (mh_manifests (wt_manifests s))\<rparr>"
      let ?s = "s\<lparr>wt_faults := tl (wt_faults s), wt_storage := Some db', wt_manifests := ?c\<rparr>"
      have "wrote env s ?s M"
        by (rule written_view [OF env ok db w])
          (use 2(1) u M None tl_faults [of "wt_faults s"] in \<open>auto simp: get_updated_manifest fun_eq_iff map_add_def hm_simps wt_get_def\<close>)
      then show thesis using 2 u(1) None by (intro that(2) [of ?s]) (simp_all add: defs wt_insert_run)
    qed
  next
    case (Some child)
    have ids: "lc_id child \<noteq> fo_id (ld_base m)" "lc_id child \<noteq> wt_realm_id s" using new Some by auto
    have "M (lc_id child) = Some child" using M Some ids by simp
    then have "child_ok child" using w ids(2) unfolding writable_def by blast
    then obtain v where v: "child_update_data env child = Some v" "ud_entry_id v = lc_id child"
      "ud_encrypted v = dk_encrypt (te_dk env) (te_dump env child)"
      using child_update_data_ok [of child env] by auto
    show thesis
    proof (cases rule: with_storage_cases [OF db, of AccStopped AccInternal "\<lambda>db. (update_manifests [u, v] db, ())"])
      case 1
      then show thesis using u(1) v(1) Some by (intro that(1)) (simp_all add: defs trouble_def)
    next
      case (2 db' x)
      let ?c = "(wt_manifests s)\<lparr>mh_manifests := hm_insert (lc_id child) child
        (hm_insert (fo_id (ld_base m)) (LocalFolder m) (mh_manifests (wt_manifests s)))\<rparr>"
      let ?s = "s\<lparr>wt_faults := tl (wt_faults s), wt_storage := Some db', wt_manifests := ?c\<rparr>"
      have "wrote env s ?s M"
        by (rule written_view [OF env ok db w])
          (use 2(1) u v M Some tl_faults [of "wt_faults s"] in \<open>auto simp: update_manifests_def get_updated_manifest fun_eq_iff map_add_def hm_simps wt_get_def\<close>)
      then show thesis using 2 u(1) v(1) Some ids root by (intro that(2) [of ?s]) (simp_all add: defs wt_insert_run)
    qed
  qed
qed

end
