(* ===== verification/Tree_Create.thy ===== *)
theory Tree_Create
  imports Tree_Writes
begin

text \<open>Creation of an entry, over the view.\<close>

subsection \<open>Links by fields\<close>

definition children_in :: "(vlob_id \<Rightarrow> local_child_manifest option) \<Rightarrow> vlob_id \<Rightarrow> entry_name \<Rightarrow> vlob_id option" where
  "children_in T p = (case T p of Some (LocalFolder f) \<Rightarrow> hm_get (ld_children f) | _ \<Rightarrow> Map.empty)"

definition parent_in :: "(vlob_id \<Rightarrow> local_child_manifest option) \<Rightarrow> vlob_id \<Rightarrow> vlob_id option" where
  "parent_in T i = map_option lc_parent (T i)"

lemma link_fields: "link T p n i \<longleftrightarrow> children_in T p n = Some i \<and> parent_in T i = Some p"
  by (auto simp: link_iff children_in_def parent_in_def split: option.split local_child_manifest.split)

lemma children_in_folder: "T p = Some (LocalFolder f) \<Longrightarrow> children_in T p = hm_get (ld_children f)"
  by (simp add: children_in_def)

lemma child_of_fields: "child_of T p i \<noteq> None \<longleftrightarrow> parent_in T i = Some p"
  by (auto simp: child_of_def parent_in_def split: option.split)

lemma update_children_in: "children_in (T(i \<mapsto> m)) = (children_in T)(i := (case m of LocalFolder f \<Rightarrow> hm_get (ld_children f) | _ \<Rightarrow> Map.empty))"
  by (auto simp: children_in_def fun_eq_iff split: local_child_manifest.split)

lemma update_parent_in: "parent_in (T(i \<mapsto> m)) = (parent_in T)(i \<mapsto> lc_parent m)"
  by (auto simp: parent_in_def fun_eq_iff)

subsection \<open>Changing the children of a folder\<close>

lemma folder_writable:
  assumes env: "tree_env_ok env (wt_realm_id s)" and ok: "tree_ok env s" and f: "tree_known env s p = Some (LocalFolder f)"
    and same: "ld_base f' = ld_base f" "ld_parent f' = ld_parent f" and c: "children_ok (ld_children f')"
    and root: "\<And>n. p = wt_realm_id s \<Longrightarrow> hm_get (ld_children f') n \<noteq> Some p"
  shows "writable (wt_realm_id s) [p \<mapsto> LocalFolder f']" "fo_id (ld_base f') = p"
proof -
  note k = tree_known_ok [OF env ok f]
  show "fo_id (ld_base f') = p" using k(1) same by simp
  with k c root same show "writable (wt_realm_id s) [p \<mapsto> LocalFolder f']"
    by (cases "p = wt_realm_id s") (auto simp: writable_def child_ok_def root_ok_def ld_check_data_integrity_as_child_def ld_check_data_integrity_def)
qed

lemma root_not_listed:
  assumes env: "tree_env_ok env (wt_realm_id s)" and ok: "tree_ok env s" and "p = wt_realm_id s"
    "tree_known env s p = Some (LocalFolder f)"
  shows "hm_get (ld_children f) n \<noteq> Some (wt_realm_id s)"
  using tree_known_ok(3) [OF env ok assms(4)] assms(3) by (auto simp: root_ok_def)

text \<open>A write that changes entries of a folder and nothing else of it.\<close>

lemma change_folder_view:
  assumes env: "tree_env_ok env (wt_realm_id s)" and ok: "tree_ok env s" and f: "tree_known env s p = Some (LocalFolder f)"
    and data: "hm_wf data" "evolvable (ld_children f) data" "\<And>n. hm_get data n \<noteq> Some (Some (wt_realm_id s))"
    and ids: "\<And>n n' i. hm_get data n = Some (Some i) \<Longrightarrow> hm_get data n' = Some (Some i) \<Longrightarrow> n = n'"
  obtains f' where "evolve_children_and_mark_updated (te_iter env) f data (te_pattern env) (te_now env) = Some f'"
    "hm_get (ld_children f') = (\<lambda>n. case hm_get data n of None \<Rightarrow> hm_get (ld_children f) n | Some v \<Rightarrow> v)"
    "ld_parent f' = ld_parent f" "fo_id (ld_base f') = p" "writable (wt_realm_id s) [p \<mapsto> LocalFolder f']"
proof -
  have h: "hash_iter_ok (te_iter env)" using env by (simp add: tree_env_ok_def)
  note c = tree_known_children(1) [OF env ok f]
  obtain f' where f': "evolve_children_and_mark_updated (te_iter env) f data (te_pattern env) (te_now env) = Some f'"
    "children_ok (ld_children f')" "hm_get (ld_children f') = (\<lambda>n. case hm_get data n of None \<Rightarrow> hm_get (ld_children f) n | Some v \<Rightarrow> v)"
    "ld_base f' = ld_base f" "ld_parent f' = ld_parent f"
    by (rule evolve_children_ok [OF h c data(1,2) ids])
  have "hm_get (ld_children f') n \<noteq> Some p" if "p = wt_realm_id s" for n
    using f'(3) data(3) root_not_listed [OF env ok that f] that by (auto split: option.split)
  note w = folder_writable [OF env ok f f'(4,5,2) this]
  show thesis by (rule that [OF f'(1,3,5) w(2,1)])
qed

subsection \<open>Creation\<close>

definition fresh_entry :: "tree_env \<Rightarrow> workspace_tree \<Rightarrow> (vlob_id \<Rightarrow> local_child_manifest) \<Rightarrow> vlob_id \<Rightarrow> bool" where
  "fresh_entry env s new_child new \<longleftrightarrow> tree_known env s new = None \<and> (\<forall>p n. children_in (tree_known env s) p n \<noteq> Some new) \<and>
     (\<forall>p. p \<noteq> new \<longrightarrow> lc_id (new_child p) = new \<and> lc_parent (new_child p) = p \<and> child_ok (new_child p) \<and>
        (\<forall>f. new_child p = LocalFolder f \<longrightarrow> ld_children f = []))"

lemma created_link:
  assumes f: "T p = Some (LocalFolder f)" "hm_get (ld_children f') = (hm_get (ld_children f))(n \<mapsto> new)" "ld_parent f' = ld_parent f"
    and new: "T new = None" "lc_id child = new" "lc_parent child = p" "new \<noteq> p" "\<And>g. child = LocalFolder g \<Longrightarrow> ld_children g = []"
    and listed: "\<forall>q m. children_in T q m \<noteq> Some new"
  shows "link (T ++ ([p \<mapsto> LocalFolder f'] ++ [new \<mapsto> child])) = add_link (cut_link (link T) p n) p n new" (is "link (T ++ ?M) = _")
proof -
  have "(case child of LocalFile x \<Rightarrow> Map.empty | LocalFolder g \<Rightarrow> hm_get (ld_children g)) = children_in T new"
    using new by (auto simp: children_in_def split: local_child_manifest.split)
  then have "children_in (T ++ ?M) = (children_in T)(p := (children_in T p)(n \<mapsto> new))"
    using f new by (auto simp: update_children_in fun_eq_iff children_in_folder)
  moreover have "parent_in (T ++ ?M) = (parent_in T)(new \<mapsto> p)"
    using f new by (auto simp: update_parent_in fun_eq_iff parent_in_def)
  moreover have "parent_in T new = None" using new(1) by (simp add: parent_in_def)
  ultimately show ?thesis using new(4) listed by (auto simp: fun_eq_iff link_fields add_link_iff cut_link_iff)
qed

lemma create_checked_view:
  assumes env: "tree_env_ok env (wt_realm_id s)" and ok: "tree_ok env s" and f: "tree_known env s p = Some (LocalFolder f)"
    and fresh: "fresh_entry env s new_child new"
  obtains (made) s' M sync where "create_checked env n new_child f s = Some (s', Inr (new, p, sync))" "wrote env s s' M" "dom M = {p, new}"
      "M new = Some (new_child p)" "link (tree_known env s ++ M) = add_link (cut_link (link (tree_known env s)) p n) p n new" "\<forall>i. \<not> link (tree_known env s) p n i"
    | (taken) s' i where "create_checked env n new_child f s = Some (s', Inl (CreateEntryExists i))" "wrote env s s' Map.empty"
      "link (tree_known env s) p n i"
    | (fails) s' e where "create_checked env n new_child f s = Some (s', Inl (CreateAccess e))" "wrote env s s' Map.empty" "trouble env s"
proof -
  note defs = create_checked_def op_run op_option_def Let_def
  let ?T = "tree_known env s"
  have p: "fo_id (ld_base f) = p" using tree_known_children(2) [OF env ok f] .
  have new: "?T new = None" "lc_id (new_child p) = new" "lc_parent (new_child p) = p" "child_ok (new_child p)" "new \<noteq> p"
    "\<And>g. new_child p = LocalFolder g \<Longrightarrow> ld_children g = []" "hm_get (ld_children f) m \<noteq> Some new" for m
    using fresh f unfolding fresh_entry_def by (metis (no_types) children_in_folder option.distinct(1))+
  have new_root: "new \<noteq> wt_realm_id s" using new(1) tree_root [OF ok] by (metis option.distinct(1))
  obtain f' where f': "evolve_children_and_mark_updated (te_iter env) f [(n, Some new)] (te_pattern env) (te_now env) = Some f'"
    "hm_get (ld_children f') = (\<lambda>m. case hm_get [(n, Some new)] m of None \<Rightarrow> hm_get (ld_children f) m | Some v \<Rightarrow> v)"
    "ld_parent f' = ld_parent f" "fo_id (ld_base f') = p" "writable (wt_realm_id s) [p \<mapsto> LocalFolder f']"
    by (rule change_folder_view [OF env ok f, of "[(n, Some new)]"])
      (use new_root new in \<open>auto simp: evolvable_def split: if_split_asm\<close>)
  have f'2: "hm_get (ld_children f') = (hm_get (ld_children f))(n \<mapsto> new)" using f'(2) by (auto simp: fun_eq_iff)
  let ?M = "[p \<mapsto> LocalFolder f'] ++ [lc_id (new_child p) \<mapsto> new_child p]"
  have link: "link (?T ++ ?M) = add_link (cut_link (link ?T) p n) p n new"
    using created_link [where T = ?T, OF f f'2 f'(3) new(1-3,5,6)] fresh new(2) by (simp add: fresh_entry_def)
  have writes: thesis
    if same: "wrote env s s1 Map.empty" and free: "\<forall>i. \<not> link ?T p n i"
      and start: "create_checked env n new_child f s = op_bind (op_map_err CreateAccess (update_folder_manifest env f' (Some (new_child p)))) (\<lambda>_.
        op_return (new, p, ld_need_sync f')) s1" for s1
  proof -
    have s1: "tree_env_ok env (wt_realm_id s1)" "tree_ok env s1" "wt_realm_id s1 = wt_realm_id s"
      using same wrote_env [OF same env] by (auto simp: wrote_def)
    show thesis
    proof (cases rule: update_folder_view [OF s1(1,2), of ?M f' "Some (new_child p)"])
      case 1 show ?case using f'(4) new(2) by simp
    next
      case 2 show ?case using f'(5) new(2-5) new_root s1(3) by (auto simp: writable_def)
    next
      case (3 c) then show ?case using f'(4) new(2,5) new_root s1(3) by simp
    next
      case 4
      let ?s = "s1\<lparr>wt_faults := tl (wt_faults s1)\<rparr>"
      have "wrote env s ?s Map.empty" using same tl_faults [of "wt_faults s1"] by (auto simp: wrote_def)
      with 4 start wrote_trouble [OF same] show ?thesis by (intro fails [of ?s AccInternal]) (simp_all add: op_run)
    next
      case (5 s2)
      show ?thesis by (rule made [of s2 "ld_need_sync f'" ?M])
        (use 5 start wrote_trans [OF same 5(2)] link free new(2) in \<open>auto simp: op_run\<close>)
    qed
  qed
  show thesis
  proof (cases "hm_get (ld_children f) n")
    case None
    have "wrote env s s Map.empty" using ok by (simp add: wrote_def)
    moreover have "\<forall>i. \<not> link ?T p n i" using None f by (simp add: link_iff)
    ultimately show thesis by (rule writes) (use None f'(1) p new(2) in \<open>simp add: defs fun_eq_iff\<close>)
  next
    case (Some i)
    show thesis
    proof (cases rule: ensure_view [OF env ok, of i p])
      case (1 s1)
      note same = same_view_wrote [OF 1(2)]
      show thesis
      proof (cases "child_of ?T p i")
        case None
        then have "\<forall>j. \<not> link ?T p n j" using Some f child_of_link [where T = ?T, OF f Some] by (auto simp: link_iff)
        from same this show thesis by (rule writes) (use None 1(1) Some f'(1) p new(2) in \<open>simp add: defs\<close>)
      next
        case child: (Some m)
        then have "link ?T p n i" using child_of_link [where T = ?T, OF f Some] by simp
        with child 1(1) Some same p show thesis by (intro taken [of s1 i]) (simp_all add: defs)
      qed
    next
      case (2 s1 e)
      with same_view_wrote [OF 2(2)] Some p show thesis by (intro fails [of s1 e]) (simp_all add: defs)
    qed
  qed
qed

definition create_outcome ::
  "tree_env \<Rightarrow> workspace_tree \<Rightarrow> fs_path \<Rightarrow> (vlob_id \<Rightarrow> local_child_manifest) \<Rightarrow> vlob_id \<Rightarrow> workspace_tree \<Rightarrow>
   create_error + vlob_id \<Rightarrow> bool" where
  "create_outcome env s path new_child new s' r \<longleftrightarrow>
     (let T = tree_known env s; T' = tree_known env s'; P = tree_paths T (wt_realm_id s); q = fp_parts path in
      case r of
        Inr i \<Rightarrow> i = new \<and> te_can_write env \<and> q \<notin> fst ` P \<and> tree_paths T' (wt_realm_id s) = insert (q, new) P \<and>
          (\<exists>p. (butlast q, p) \<in> P \<and> T' new = Some (new_child p)) \<and> (\<forall>j. j \<noteq> new \<and> (butlast q, j) \<notin> P \<longrightarrow> T' j = T j)
      | Inl e \<Rightarrow> T' = T \<and>
          (case e of
             CreateReadOnlyRealm \<Rightarrow> \<not> te_can_write env
           | CreateParentNotFound \<Rightarrow> butlast q \<notin> fst ` P
           | CreateParentNotAFolder \<Rightarrow> (\<exists>i f. (butlast q, i) \<in> P \<and> T i = Some (LocalFile f))
           | CreateEntryExists i \<Rightarrow> (q, i) \<in> P
           | CreateAccess _ \<Rightarrow> trouble env s))"

text \<open>The whole operation, on a folder that no other task has locked.\<close>

definition parent_unlocked :: "tree_env \<Rightarrow> workspace_tree \<Rightarrow> entry_name list \<Rightarrow> bool" where
  "parent_unlocked env s q \<longleftrightarrow> unlocked s (tree_resolve (tree_known env s) (wt_realm_id s) (butlast q))"

definition settled :: "tree_env \<Rightarrow> workspace_tree \<Rightarrow> workspace_tree \<Rightarrow> bool" where
  "settled env s s' \<longleftrightarrow> tree_ok env s' \<and> wt_locks s' = wt_locks s \<and> wt_realm_id s' = wt_realm_id s"

lemma wrote_settled: "wrote env s s' M \<Longrightarrow> settled env s s'"
  by (simp add: wrote_def settled_def)

lemma wrote_locked:
  "wrote env (s\<lparr>wt_locks := l\<rparr>) s' M \<Longrightarrow> wrote env s (s'\<lparr>wt_locks := wt_locks s\<rparr>) M"
  by (simp add: wrote_def)

lemma wrote_events: "wrote env s (s'\<lparr>wt_events := e\<rparr>) M \<longleftrightarrow> wrote env s s' M"
  by (simp add: wrote_def)

lemma wrote_locks: "wrote env s s' M \<Longrightarrow> wt_locks s' = wt_locks s"
  by (simp add: wrote_def)

lemma releasing_run:
  assumes "m s = Some (s1, r)" "wt_locks s1 = l @ [(p, LockTaken)]" "lock_find l p = None"
  shows "releasing p m s = Some (s1\<lparr>wt_locks := l\<rparr>, r)"
  using assms release_last [OF assms(3,2)] by (simp add: releasing_def)

text \<open>The part of an operation that holds the lock of a folder.\<close>

lemma locked_section:
  assumes view: "same_view env s s1" and free: "lock_find (wt_locks s) p = None"
    and t: "t = s1\<lparr>wt_locks := wt_locks s @ [(p, LockTaken)]\<rparr>" and run: "m t = Some (s2, r)" "wrote env t s2 M"
  shows "releasing p m t = Some (s2\<lparr>wt_locks := wt_locks s\<rparr>, r)" "wrote env s (s2\<lparr>wt_locks := wt_locks s\<rparr>) M"
proof -
  note same = same_view_wrote [OF view]
  have "wt_locks s2 = wt_locks s @ [(p, LockTaken)]" using wrote_locks [OF run(2)] by (simp add: t)
  with run(1) free show "releasing p m t = Some (s2\<lparr>wt_locks := wt_locks s\<rparr>, r)" by (intro releasing_run)
  from wrote_trans [OF same wrote_locked [OF run(2) [unfolded t]]] wrote_locks [OF same]
  show "wrote env s (s2\<lparr>wt_locks := wt_locks s\<rparr>) M" by simp
qed

lemma create_entry_view:
  assumes env: "tree_env_ok env (wt_realm_id s)" and ok: "tree_ok env s" and fresh: "fresh_entry env s new_child new"
    and free: "parent_unlocked env s (fp_parts path)"
  shows "\<exists>s' r. create_entry env new_child path s = Some (s', r) \<and> settled env s s' \<and> create_outcome env s path new_child new s' r"
proof -
  let ?T = "tree_known env s" and ?r = "wt_realm_id s"
  let ?P = "tree_paths ?T ?r"
  note defs = create_entry_def Let_def fp_into_parent_def op_run send_outbound_sync_needed_def
  note shape = tree_known_shape [OF env ok]
  have self: "settled env s s" using ok by (simp add: settled_def)
  consider (readonly) "\<not> te_can_write env" | (root) "te_can_write env" "fp_parts path = []"
    | (entry) q n where "te_can_write env" "fp_parts path = q @ [n]" by (metis rev_exhaust)
  then show ?thesis
  proof cases
    case readonly
    then show ?thesis using self by (simp add: defs create_outcome_def)
  next
    case root
    then show ?thesis using self by (simp add: defs create_outcome_def paths_root)
  next
    case (entry q n)
    let ?parent = "path\<lparr>fp_parts := q\<rparr>"
    have free': "unlocked s (tree_resolve ?T ?r (fp_parts ?parent))" using free entry(2) by (simp add: parent_unlocked_def)
    note run = defs entry
    show ?thesis
    proof (cases rule: resolve_locked_view [OF env ok free'])
      case (1 s1 p f c)
      obtain t where t: "t = s1\<lparr>wt_locks := wt_locks s @ [(p, LockTaken)]\<rparr>" by blast
      have same: "wrote env s s1 Map.empty" by (rule same_view_wrote [OF 1(2)])
      have "tree_env_ok env (wt_realm_id t)" "tree_ok env t" "tree_known env t p = Some (LocalFolder f)"
        "fresh_entry env t new_child new" and known: "tree_known env t = ?T"
        using env 1(2,3) fresh by (simp_all add: t same_view_def fresh_entry_def)
      note checked = create_checked_view [OF this(1-4), of n, unfolded known]
      note released = locked_section [OF 1(2,5) t, of "create_checked env n new_child f"]
      note start = 1(1) [folded t]
      show ?thesis
      proof (rule checked)
        fix s2 M sync assume m: "create_checked env n new_child f t = Some (s2, Inr (new, p, sync))" "wrote env t s2 M"
          "dom M = {p, new}" "M new = Some (new_child p)" "link (?T ++ M) = add_link (cut_link (link ?T) p n) p n new" "\<forall>i. \<not> link ?T p n i"
        note r = released [OF m(1,2)]
        have "tree_paths (?T ++ M) ?r = insert (q @ [n], new) ?P"
          using created_paths [OF shape _ _ m(5)] 1(4) fresh m(6) by (simp add: fresh_entry_def)
        moreover have "q @ [n] \<notin> fst ` ?P" using m(6) paths_fun [OF shape 1(4)] by (auto simp: paths_child)
        moreover have "\<exists>p. (q, p) \<in> ?P \<and> (?T ++ M) new = Some (new_child p)" using 1(4) m(4) by (auto simp: map_add_def)
        moreover have "(?T ++ M) j = ?T j" if "j \<noteq> new" "(q, j) \<notin> ?P" for j
          using that 1(4) m(3) by (auto simp: map_add_def split: option.split)
        ultimately show ?thesis using start r wrote_settled [OF r(2)] entry
          by (auto simp: run create_outcome_def settled_def wrote_def)
      next
        fix s2 i assume m: "create_checked env n new_child f t = Some (s2, Inl (CreateEntryExists i))" "wrote env t s2 Map.empty" "link ?T p n i"
        note r = released [OF m(1,2)]
        have "(q @ [n], i) \<in> ?P" using 1(4) m(3) by (auto simp: paths_child)
        then show ?thesis using start r wrote_settled [OF r(2)] entry by (auto simp: run create_outcome_def wrote_def)
      next
        fix s2 e assume m: "create_checked env n new_child f t = Some (s2, Inl (CreateAccess e))" "wrote env t s2 Map.empty" "trouble env t"
        note r = released [OF m(1,2)]
        have "trouble env s" using m(3) wrote_trouble [OF same] by (simp add: t trouble_def)
        then show ?thesis using start r wrote_settled [OF r(2)] entry by (auto simp: run create_outcome_def wrote_def)
      qed
    next
      case (2 s1 f i)
      then show ?thesis using wrote_settled [OF same_view_wrote [OF 2(2)]] entry
        by (auto simp: run create_outcome_def same_view_def)
    next
      case (3 s1)
      then show ?thesis using wrote_settled [OF same_view_wrote [OF 3(2)]] entry
        by (auto simp: run create_outcome_def same_view_def)
    next
      case (4 s1 e)
      then show ?thesis using wrote_settled [OF same_view_wrote [OF 4(2)]] entry
        by (auto simp: run create_outcome_def same_view_def)
    qed
  qed
qed

end
