(* ===== verification/Tree_Remove.thy ===== *)
theory Tree_Remove
  imports Tree_Create
begin

text \<open>Removal of an entry, over the view.\<close>

lemma check_children_view:
  assumes env: "tree_env_ok env (wt_realm_id s)" and ok: "tree_ok env s"
  obtains (empty) s' where "op_iter (\<lambda>(_, i). op_bind (op_map_err RemoveAccess (ensure_manifest_exists_with_parent env i c)) (\<lambda>child.
        op_ensure (child = None) RemoveEntryIsNonEmptyFolder)) xs s = Some (s', Inr ())" "same_view env s s'"
      "\<forall>(n, i) \<in> set xs. child_of (tree_known env s) c i = None"
    | (busy) s' n i where "op_iter (\<lambda>(_, i). op_bind (op_map_err RemoveAccess (ensure_manifest_exists_with_parent env i c)) (\<lambda>child.
        op_ensure (child = None) RemoveEntryIsNonEmptyFolder)) xs s = Some (s', Inl RemoveEntryIsNonEmptyFolder)" "same_view env s s'"
      "(n, i) \<in> set xs" "child_of (tree_known env s) c i \<noteq> None"
    | (fails) s' e where "op_iter (\<lambda>(_, i). op_bind (op_map_err RemoveAccess (ensure_manifest_exists_with_parent env i c)) (\<lambda>child.
        op_ensure (child = None) RemoveEntryIsNonEmptyFolder)) xs s = Some (s', Inl (RemoveAccess e))" "same_view env s s'" "trouble env s"
  using assms
proof (induction xs arbitrary: s thesis)
  case Nil
  then show ?case using same_view_refl by (simp add: op_run)
next
  case (Cons x xs)
  obtain n i where x: "x = (n, i)" by (cases x)
  show ?case
  proof (cases rule: ensure_view [OF Cons.prems(4,5), of i c])
    case (1 s1)
    have v: "tree_known env s1 = tree_known env s" "tree_ok env s1" "tree_env_ok env (wt_realm_id s1)"
      using 1(2) Cons.prems(4) by (simp_all add: same_view_def)
    show ?thesis
    proof (cases "child_of (tree_known env s) c i")
      case None
      show ?thesis
      proof (rule Cons.IH [OF _ _ _ v(3,2)], goal_cases)
        case (1 s')
        with \<open>same_view env s s1\<close> show ?case
          by (intro Cons.prems(1) [of s']) (use None x v 1 \<open>ensure_manifest_exists_with_parent env i c s = _\<close> same_view_trans in \<open>auto simp: op_run\<close>)
      next
        case (2 s' m j)
        show ?case
          by (intro Cons.prems(2) [of s' m j]) (use None x v 2 \<open>ensure_manifest_exists_with_parent env i c s = _\<close> same_view_trans [OF \<open>same_view env s s1\<close>] in \<open>auto simp: op_run\<close>)
      next
        case (3 s' e)
        show ?case
          by (intro Cons.prems(3) [of s' e]) (use None x v 3 \<open>ensure_manifest_exists_with_parent env i c s = _\<close> same_view_trans [OF \<open>same_view env s s1\<close>]
            same_view_trouble [OF \<open>same_view env s s1\<close>] in \<open>auto simp: op_run\<close>)
      qed
    next
      case (Some m)
      show ?thesis by (intro Cons.prems(2) [of s1 n i]) (use Some x 1 in \<open>auto simp: op_run\<close>)
    qed
  next
    case (2 s1 e)
    then show ?thesis by (intro Cons.prems(3) [of s1 e]) (use x in \<open>auto simp: op_run\<close>)
  qed
qed

text \<open>What the caller expects of the entry.\<close>

definition meets :: "(vlob_id \<Rightarrow> local_child_manifest option) \<Rightarrow> remove_entry_expect \<Rightarrow> vlob_id \<Rightarrow> bool" where
  "meets T expect i =
     (case expect of
        ExpectAnything \<Rightarrow> True
      | ExpectFile \<Rightarrow> \<exists>f. T i = Some (LocalFile f)
      | ExpectFolder \<Rightarrow> \<exists>f. T i = Some (LocalFolder f)
      | ExpectEmptyFolder \<Rightarrow> (\<exists>f. T i = Some (LocalFolder f)) \<and> (\<forall>n j. \<not> link T i n j))"

lemma check_expected_view:
  assumes env: "tree_env_ok env (wt_realm_id s)" and ok: "tree_ok env s" and m: "tree_known env s i = Some m"
  obtains (passes) s' where "check_expected env expect i m s = Some (s', Inr ())" "same_view env s s'" "meets (tree_known env s) expect i"
    | (is_file) s' f where "check_expected env expect i m s = Some (s', Inl RemoveEntryIsFile)" "same_view env s s'" "m = LocalFile f"
      "expect \<in> {ExpectFolder, ExpectEmptyFolder}"
    | (is_folder) s' f where "check_expected env expect i m s = Some (s', Inl RemoveEntryIsFolder)" "same_view env s s'" "m = LocalFolder f"
      "expect = ExpectFile"
    | (busy) s' n j where "check_expected env expect i m s = Some (s', Inl RemoveEntryIsNonEmptyFolder)" "same_view env s s'"
      "link (tree_known env s) i n j" "expect = ExpectEmptyFolder"
    | (fails) s' e where "check_expected env expect i m s = Some (s', Inl (RemoveAccess e))" "same_view env s s'" "trouble env s"
proof -
  note same = same_view_refl [OF ok]
  note defs = check_expected_def op_run meets_def
  show thesis
  proof (cases m)
    case (LocalFile f)
    with same m that(1) [of s] that(2) [of s f] show thesis by (cases expect) (auto simp: defs)
  next
    case (LocalFolder f)
    have h: "hash_iter_ok (te_iter env)" using env by (simp add: tree_env_ok_def)
    have at: "tree_known env s i = Some (LocalFolder f)" using m LocalFolder by simp
    have wf: "hm_wf (ld_children f)" using tree_known_children(1) [OF env ok at] by (simp add: children_ok_def)
    let ?xs = "hi_children (te_iter env) (ld_children f)"
    have listed: "(n, j) \<in> set ?xs \<longleftrightarrow> hm_get (ld_children f) n = Some j" for n j
      using hash_iter_children [OF h wf] hm_in_set by metis
    show thesis
    proof (cases "expect = ExpectEmptyFolder")
      case False
      with same LocalFolder m that(1) [of s] that(3) [of s f] show thesis by (cases expect) (auto simp: defs)
    next
      case True
      show thesis
      proof (rule check_children_view [OF env ok, of i ?xs, folded check_empty_folder_def], goal_cases)
        case (1 s')
        have "\<not> link (tree_known env s) i n j" for n j
        proof
          assume l: "link (tree_known env s) i n j"
          then have get: "hm_get (ld_children f) n = Some j" using at by (simp add: link_iff)
          then have "(n, j) \<in> set ?xs" using listed by blast
          then have "child_of (tree_known env s) i j = None" using 1(3) by blast
          with l child_of_link [where T = "tree_known env s", OF at get] show False by blast
        qed
        then show ?case using 1 True LocalFolder at by (intro that(1) [of s']) (auto simp: defs)
      next
        case (2 s' n j)
        then have "link (tree_known env s) i n j"
          using child_of_link [where T = "tree_known env s", OF at] listed by blast
        with 2 True LocalFolder show ?case by (intro that(4) [of s' n j]) (auto simp: defs)
      next
        case (3 s' e)
        with True LocalFolder show ?case by (intro that(5) [of s' e]) (auto simp: defs)
      qed
    qed
  qed
qed

lemma removed_link:
  assumes f: "T p = Some (LocalFolder f)" "hm_get (ld_children f') = (hm_get (ld_children f))(n := None)" "ld_parent f' = ld_parent f"
  shows "link (T ++ [p \<mapsto> LocalFolder f']) = cut_link (link T) p n"
proof -
  have "children_in (T ++ [p \<mapsto> LocalFolder f']) = (children_in T)(p := (children_in T p)(n := None))"
    using f by (auto simp: update_children_in children_in_folder)
  moreover have "parent_in (T ++ [p \<mapsto> LocalFolder f']) = parent_in T"
    using f by (auto simp: update_parent_in parent_in_def fun_eq_iff)
  ultimately show ?thesis by (auto simp: fun_eq_iff link_fields cut_link_iff)
qed

text \<open>
  The answer about the name \<open>n\<close> of the folder \<open>p\<close>. The entry that the folder lists is looked up by its id alone: an entry
  that has another parent, to which no path leads through this folder, is removed from it too.
\<close>

definition lists_entry :: "(vlob_id \<Rightarrow> local_child_manifest option) \<Rightarrow> vlob_id \<Rightarrow> entry_name \<Rightarrow> vlob_id \<Rightarrow> bool" where
  "lists_entry T p n i \<longleftrightarrow> children_in T p n = Some i \<and> T i \<noteq> None"

lemma lists_folder: "T p = Some (LocalFolder f) \<Longrightarrow> hm_get (ld_children f) n = Some i \<Longrightarrow> T i = Some m \<Longrightarrow> lists_entry T p n i"
  by (simp add: lists_entry_def children_in_folder)

definition remove_answer ::
  "tree_env \<Rightarrow> workspace_tree \<Rightarrow> remove_entry_expect \<Rightarrow> vlob_id \<Rightarrow> entry_name \<Rightarrow> remove_error \<Rightarrow> bool" where
  "remove_answer env s expect p n e =
     (let T = tree_known env s in
      case e of
        RemoveEntryNotFound \<Rightarrow> \<forall>i. \<not> link T p n i
      | RemoveEntryIsFile \<Rightarrow> expect \<in> {ExpectFolder, ExpectEmptyFolder} \<and> (\<forall>i. link T p n i \<longrightarrow> (\<exists>f. T i = Some (LocalFile f))) \<and>
          (\<exists>i f. lists_entry T p n i \<and> T i = Some (LocalFile f))
      | RemoveEntryIsFolder \<Rightarrow> expect = ExpectFile \<and> (\<forall>i. link T p n i \<longrightarrow> (\<exists>f. T i = Some (LocalFolder f))) \<and>
          (\<exists>i f. lists_entry T p n i \<and> T i = Some (LocalFolder f))
      | RemoveEntryIsNonEmptyFolder \<Rightarrow> expect = ExpectEmptyFolder \<and> (\<forall>i. link T p n i \<longrightarrow> (\<exists>m j. link T i m j)) \<and>
          (\<exists>i m j. lists_entry T p n i \<and> link T i m j)
      | RemoveAccess _ \<Rightarrow> trouble env s
      | _ \<Rightarrow> False)"

lemma remove_checked_view:
  assumes env: "tree_env_ok env (wt_realm_id s)" and ok: "tree_ok env s" and f: "tree_known env s p = Some (LocalFolder f)"
  obtains (removed) s' f' where "remove_checked env n expect f s = Some (s', Inr ())" "wrote env s s' [p \<mapsto> LocalFolder f']"
      "link (tree_known env s ++ [p \<mapsto> LocalFolder f']) = cut_link (link (tree_known env s)) p n"
      "\<exists>i. lists_entry (tree_known env s) p n i \<and> meets (tree_known env s) expect i"
    | (refused) s' e where "remove_checked env n expect f s = Some (s', Inl e)" "wrote env s s' Map.empty" "remove_answer env s expect p n e"
proof -
  note defs = remove_checked_def op_run op_option_def
  let ?T = "tree_known env s"
  have same: "wrote env s s Map.empty" using ok by (simp add: wrote_def)
  show thesis
  proof (cases "hm_get (ld_children f) n")
    case None
    with f same show thesis by (intro refused [of s RemoveEntryNotFound]) (auto simp: defs remove_answer_def Let_def link_iff)
  next
    case (Some i)
    have only: "link ?T p n j \<Longrightarrow> j = i" for j using Some f by (simp add: link_iff)
    note listed = lists_folder [where T = ?T, OF f Some]
    show thesis
    proof (cases rule: get_manifest_view [OF env ok, of i])
      case (1 s1 m)
      note v1 = same_view_wrote [OF 1(2)]
      have k1: "tree_known env s1 = ?T" "wt_realm_id s1 = wt_realm_id s" using 1(2) by (simp_all add: same_view_def)
      note ok1 = same_view_env [OF 1(2) env] same_view_ok [OF 1(2)]
      note m = 1(3)
      have m1: "tree_known env s1 i = Some m" using m k1 by simp
      have check: "remove_checked env n expect f s = op_bind (check_expected env expect i m) (\<lambda>_.
          op_bind (op_option (evolve_children_and_mark_updated (te_iter env) f [(n, None)] (te_pattern env) (te_now env))) (\<lambda>f'.
          op_map_err RemoveAccess (update_folder_manifest env f' None))) s1" using Some 1(1) by (simp add: remove_checked_def op_run)
      show thesis
      proof (rule check_expected_view [OF ok1 m1, of expect], goal_cases)
        case (1 s2)
        note v2 = wrote_trans [OF v1 same_view_wrote [OF 1(2)], simplified]
        note ok2 = same_view_env [OF 1(2) ok1(1)] same_view_ok [OF 1(2)]
        have k2: "tree_known env s2 = ?T" "wt_realm_id s2 = wt_realm_id s" using 1(2) k1 by (simp_all add: same_view_def)
        then have f2: "tree_known env s2 p = Some (LocalFolder f)" using f by simp
        obtain f' where f': "evolve_children_and_mark_updated (te_iter env) f [(n, None)] (te_pattern env) (te_now env) = Some f'"
          "hm_get (ld_children f') = (\<lambda>m. case hm_get [(n, None)] m of None \<Rightarrow> hm_get (ld_children f) m | Some v \<Rightarrow> v)"
          "ld_parent f' = ld_parent f" "fo_id (ld_base f') = p" "writable (wt_realm_id s2) [p \<mapsto> LocalFolder f']"
          by (rule change_folder_view [OF ok2 f2, of "[(n, None)]"]) (use Some in \<open>auto simp: evolvable_def split: if_split_asm\<close>)
        have f'2: "hm_get (ld_children f') = (hm_get (ld_children f))(n := None)" using f'(2) by (auto simp: fun_eq_iff)
        have "[p \<mapsto> LocalFolder f'] = [fo_id (ld_base f') \<mapsto> LocalFolder f'] ++ (case None of None \<Rightarrow> Map.empty | Some c \<Rightarrow> [lc_id c \<mapsto> c])"
          using f'(4) by simp
        note upd = update_folder_view [OF ok2 this f'(5)]
        show thesis
        proof (rule upd, goal_cases)
          case 2
          let ?s = "s2\<lparr>wt_faults := tl (wt_faults s2)\<rparr>"
          have "wrote env s ?s Map.empty" using v2 tl_faults [of "wt_faults s2"] by (auto simp: wrote_def)
          with 2 show thesis using \<open>check_expected env expect i m s1 = _\<close> check f'(1) wrote_trouble [OF v2]
            by (intro refused [of ?s "RemoveAccess AccInternal"]) (simp_all add: op_run op_option_def remove_answer_def Let_def)
        next
          case (3 s3)
          have "wrote env s s3 [p \<mapsto> LocalFolder f']" using wrote_trans [OF v2 3(2)] by simp
          then show thesis
            using \<open>check_expected env expect i m s1 = _\<close> check f'(1) 3(1) removed_link [where T = ?T, OF f f'2 f'(3)] 1(3) k1
              listed [OF m]
            by (intro removed [of s3 f']) (auto simp: op_run op_option_def)
        qed simp
      next
        case (2 s2 g)
        with v1 1 k1 only check m listed [OF m] show ?case
          by (intro refused [of s2 RemoveEntryIsFile, OF _ wrote_trans [OF v1 same_view_wrote [OF 2(2)], simplified]])
            (auto simp: op_run remove_answer_def Let_def dest: only)
      next
        case (3 s2 g)
        with v1 1 k1 only check m listed [OF m] show ?case
          by (intro refused [of s2 RemoveEntryIsFolder, OF _ wrote_trans [OF v1 same_view_wrote [OF 3(2)], simplified]])
            (auto simp: op_run remove_answer_def Let_def dest: only)
      next
        case (4 s2 m' j)
        with v1 k1 only check listed [OF m] show ?case
          by (intro refused [of s2 RemoveEntryIsNonEmptyFolder, OF _ wrote_trans [OF v1 same_view_wrote [OF 4(2)], simplified]])
            (auto simp: op_run remove_answer_def Let_def dest: only)
      next
        case (5 s2 e)
        with v1 k1 check wrote_trouble [OF v1] show ?case
          by (intro refused [of s2 "RemoveAccess e", OF _ wrote_trans [OF v1 same_view_wrote [OF 5(2)], simplified]])
            (auto simp: op_run remove_answer_def Let_def dest: only)
      qed
    next
      case (2 s1)
      then have "\<not> link ?T p n j" for j using only by (auto simp: link_iff)
      with 2 Some show thesis by (intro refused [of s1 RemoveEntryNotFound]) (simp_all add: defs remove_answer_def Let_def same_view_wrote)
    next
      case (3 s1 e)
      with Some show thesis by (intro refused [of s1 "RemoveAccess e"]) (simp_all add: defs remove_answer_def Let_def same_view_wrote)
    qed
  qed
qed

text \<open>
  The folder that the path names lists an entry that exists under the last name of the path: the entry the
  path leads to, if the entry has that folder as its parent.
\<close>

definition listed_at ::
  "(vlob_id \<Rightarrow> local_child_manifest option) \<Rightarrow> (entry_name list \<times> vlob_id) set \<Rightarrow> entry_name list \<Rightarrow> vlob_id \<Rightarrow> bool" where
  "listed_at T P q i \<longleftrightarrow> (\<exists>p. (butlast q, p) \<in> P \<and> lists_entry T p (last q) i)"

lemma listed_atI: "(q, p) \<in> P \<Longrightarrow> lists_entry T p n i \<Longrightarrow> listed_at T P (q @ [n]) i"
  by (auto simp: listed_at_def)

lemma lists_link: "lists_entry T p n i \<Longrightarrow> link T p n j \<Longrightarrow> i = j"
  by (simp add: lists_entry_def link_fields)

definition remove_outcome ::
  "tree_env \<Rightarrow> workspace_tree \<Rightarrow> fs_path \<Rightarrow> remove_entry_expect \<Rightarrow> workspace_tree \<Rightarrow> remove_error + unit \<Rightarrow> bool" where
  "remove_outcome env s path expect s' r \<longleftrightarrow>
     (let T = tree_known env s; T' = tree_known env s'; P = tree_paths T (wt_realm_id s); q = fp_parts path in
      case r of
        Inr _ \<Rightarrow> te_can_write env \<and> q \<noteq> [] \<and> tree_paths T' (wt_realm_id s) = {(w, i) \<in> P. \<not> prefix q w} \<and>
          (\<forall>j. (butlast q, j) \<notin> P \<longrightarrow> T' j = T j) \<and> (\<forall>i. (q, i) \<in> P \<longrightarrow> meets T expect i) \<and>
          (\<exists>i. listed_at T P q i \<and> meets T expect i)
      | Inl e \<Rightarrow> T' = T \<and>
          (case e of
             RemoveReadOnlyRealm \<Rightarrow> \<not> te_can_write env
           | RemoveCannotRemoveRoot \<Rightarrow> q = []
           | RemoveEntryNotFound \<Rightarrow> q \<notin> fst ` P
           | RemoveEntryIsFile \<Rightarrow> expect \<in> {ExpectFolder, ExpectEmptyFolder} \<and> (\<forall>i. (q, i) \<in> P \<longrightarrow> (\<exists>f. T i = Some (LocalFile f))) \<and>
               (\<exists>i f. listed_at T P q i \<and> T i = Some (LocalFile f))
           | RemoveEntryIsFolder \<Rightarrow> expect = ExpectFile \<and> (\<forall>i. (q, i) \<in> P \<longrightarrow> (\<exists>f. T i = Some (LocalFolder f))) \<and>
               (\<exists>i f. listed_at T P q i \<and> T i = Some (LocalFolder f))
           | RemoveEntryIsNonEmptyFolder \<Rightarrow> expect = ExpectEmptyFolder \<and> (\<forall>i. (q, i) \<in> P \<longrightarrow> (\<exists>n. q @ [n] \<in> fst ` P)) \<and>
               (\<exists>i n j. listed_at T P q i \<and> link T i n j)
           | RemoveAccess _ \<Rightarrow> trouble env s))"

text \<open>The answer about the link is the answer about the path.\<close>

lemma refused_outcome:
  assumes shape: "tree_shape (tree_known env s) (wt_realm_id s)" and q: "fp_parts path = q @ [n]"
    and p: "(q, p) \<in> tree_paths (tree_known env s) (wt_realm_id s)"
    and e: "remove_answer env s expect p n e" and view: "tree_known env s' = tree_known env s"
  shows "remove_outcome env s path expect s' (Inl e)"
proof -
  let ?T = "tree_known env s"
  note at = paths_at [OF shape p]
  have below: "q @ [n, m] \<in> fst ` tree_paths ?T (wt_realm_id s)" if "link ?T p n i" "link ?T i m j" for i m j
  proof -
    have "(q @ [n], i) \<in> tree_paths ?T (wt_realm_id s)" using at(1) that(1) by blast
    with that(2) have "((q @ [n]) @ [m], j) \<in> tree_paths ?T (wt_realm_id s)" unfolding paths_child [of "q @ [n]"] by blast
    then show ?thesis by force
  qed
  have outcome: "remove_outcome env s path expect s' (Inl e)" if "e \<noteq> RemoveEntryIsNonEmptyFolder"
    using that e view unfolding remove_outcome_def remove_answer_def Let_def q by (cases e) (simp_all add: at, (blast intro: listed_atI [OF p])+)
  show ?thesis
  proof (cases "e = RemoveEntryIsNonEmptyFolder")
    case True
    then have "expect = ExpectEmptyFolder" "link ?T p n i \<Longrightarrow> \<exists>m j. link ?T i m j" for i
      using e by (auto simp: remove_answer_def Let_def)
    moreover have "\<exists>i m j. listed_at ?T (tree_paths ?T (wt_realm_id s)) (q @ [n]) i \<and> link ?T i m j"
      using e True listed_atI [OF p] by (auto simp: remove_answer_def Let_def)
    ultimately show ?thesis using True view below unfolding remove_outcome_def Let_def q by (simp add: at) blast
  qed (rule outcome)
qed

lemma remove_entry_view:
  assumes env: "tree_env_ok env (wt_realm_id s)" and ok: "tree_ok env s" and free: "parent_unlocked env s (fp_parts path)"
  shows "\<exists>s' r. remove_entry env path expect s = Some (s', r) \<and> settled env s s' \<and> remove_outcome env s path expect s' r"
proof -
  let ?T = "tree_known env s" and ?r = "wt_realm_id s"
  let ?P = "tree_paths ?T ?r"
  note defs = remove_entry_def Let_def fp_into_parent_def op_run send_outbound_sync_needed_def
  note shape = tree_known_shape [OF env ok]
  have self: "settled env s s" using ok by (simp add: settled_def)
  consider (readonly) "\<not> te_can_write env" | (root) "te_can_write env" "fp_parts path = []"
    | (entry) q n where "te_can_write env" "fp_parts path = q @ [n]" by (metis rev_exhaust)
  then show ?thesis
  proof cases
    case readonly
    then show ?thesis using self by (simp add: defs remove_outcome_def)
  next
    case root
    then show ?thesis using self by (simp add: defs remove_outcome_def)
  next
    case (entry q n)
    let ?parent = "path\<lparr>fp_parts := q\<rparr>"
    have free': "unlocked s (tree_resolve ?T ?r (fp_parts ?parent))" using free entry(2) by (simp add: parent_unlocked_def)
    note run = defs entry
    show ?thesis
    proof (cases rule: resolve_locked_view [OF env ok free'])
      case (1 s1 p f c)
      obtain t where t: "t = s1\<lparr>wt_locks := wt_locks s @ [(p, LockTaken)]\<rparr>" by blast
      have "tree_env_ok env (wt_realm_id t)" "tree_ok env t" "tree_known env t p = Some (LocalFolder f)" and known: "tree_known env t = ?T"
        using env 1(2,3) by (simp_all add: t same_view_def)
      note checked = remove_checked_view [OF this(1-3), of n expect, unfolded known]
      note released = locked_section [OF 1(2,5) t, of "remove_checked env n expect f"]
      have p: "(q, p) \<in> ?P" using 1(4) by simp
      note start = 1(1) [folded t]
      show ?thesis
      proof (rule checked)
        fix s2 f' assume m: "remove_checked env n expect f t = Some (s2, Inr ())" "wrote env t s2 [p \<mapsto> LocalFolder f']"
          "link (?T ++ [p \<mapsto> LocalFolder f']) = cut_link (link ?T) p n" "\<exists>i. lists_entry ?T p n i \<and> meets ?T expect i"
        note r = released [OF m(1,2)]
        have "tree_paths (?T ++ [p \<mapsto> LocalFolder f']) ?r = {(w, i) \<in> ?P. \<not> prefix (q @ [n]) w}"
          by (rule removed_paths [OF shape p m(3)])
        moreover have "meets ?T expect i" if "(q @ [n], i) \<in> ?P" for i
          using that m(4) paths_at(1) [OF shape p] lists_link by blast
        moreover have "\<exists>i. listed_at ?T ?P (q @ [n]) i \<and> meets ?T expect i"
          using m(4) listed_atI [OF p] by blast
        ultimately show ?thesis using start r wrote_settled [OF r(2)] entry p
          by (auto simp: run remove_outcome_def settled_def wrote_def)
      next
        fix s2 e assume m: "remove_checked env n expect f t = Some (s2, Inl e)" "wrote env t s2 Map.empty" "remove_answer env t expect p n e"
        note r = released [OF m(1,2)]
        have "trouble env t \<Longrightarrow> trouble env s" using wrote_trouble [OF same_view_wrote [OF 1(2)]] by (simp add: t trouble_def)
        then have "remove_answer env s expect p n e" using m(3) known by (auto simp: remove_answer_def Let_def split: remove_error.split)
        from refused_outcome [OF shape entry(2) p this] r start show ?thesis using wrote_settled [OF r(2)] entry
          by (auto simp: run wrote_def)
      qed
    next
      case (2 s1 f i)
      then have "q @ [n] \<notin> fst ` ?P" using paths_at(2) [OF shape, of q i n] by (simp add: link_iff)
      then show ?thesis using 2 wrote_settled [OF same_view_wrote [OF 2(2)]] entry
        by (auto simp: run remove_outcome_def same_view_def)
    next
      case (3 s1)
      then have "q @ [n] \<notin> fst ` ?P" by (force simp: paths_child)
      then show ?thesis using 3 wrote_settled [OF same_view_wrote [OF 3(2)]] entry
        by (auto simp: run remove_outcome_def same_view_def)
    next
      case (4 s1 e)
      then show ?thesis using wrote_settled [OF same_view_wrote [OF 4(2)]] entry
        by (auto simp: run remove_outcome_def same_view_def)
    qed
  qed
qed

end
