(* ===== verification/Tree_Reparent.thy ===== *)
theory Tree_Reparent
  imports Tree_Writes
begin

text \<open>
  Resolving a move between two folders, over the view: what the look at the cache finds, which locks it holds then,
  and that a failed attempt releases all that it has locked.
\<close>

subsection \<open>Releasing\<close>

lemma lock_index_append:
  "lock_find l i = None \<Longrightarrow> lock_index (l @ xs) i = map_option (\<lambda>k. length l + k) (lock_index xs i)"
  by (cases "lock_index xs i"; induction l) (auto split: if_split_asm)

lemma swap_remove_append: "k < length xs \<Longrightarrow> swap_remove (length l + k) (l @ xs) = l @ swap_remove k xs"
  by (cases xs rule: rev_cases) (auto simp: swap_remove_def butlast_append list_update_append)

lemma release_tail:
  assumes "lock_find l i = None" "lock_index xs i = Some k" "wt_locks s = l @ xs"
  shows "release_guard i s = Some (s\<lparr>wt_locks := l @ swap_remove k xs\<rparr>)"
proof -
  have "k < length xs" using lock_index_Some [OF assms(2)] by simp
  with assms show ?thesis by (simp add: release_guard_def lock_release_def lock_index_append swap_remove_append)
qed

lemma drop_no_guard: "drop_guards no_guards s = Some s"
  by (simp add: drop_guards_def no_guards_def release_maybe_def)

lemma drop_dst_parent:
  assumes "lock_find l d = None" "wt_locks s = l @ [(d, LockTaken)]"
  shows "drop_guards (no_guards\<lparr>ag_dst_parent := Some d\<rparr>) s = Some (s\<lparr>wt_locks := l\<rparr>)"
  using release_tail [OF assms(1), of "[(d, LockTaken)]" 0 s] assms by (simp add: drop_guards_def no_guards_def release_maybe_def swap_remove_def)

lemma drop_parents:
  assumes "lock_find l d = None" "lock_find l p = None" "d \<noteq> p" "wt_locks s = l @ [(d, LockTaken), (p, LockTaken)]"
  shows "drop_guards (no_guards\<lparr>ag_dst_parent := Some d, ag_src_parent := Some p\<rparr>) s = Some (s\<lparr>wt_locks := l\<rparr>)"
  using release_tail [OF assms(2), of "[(d, LockTaken), (p, LockTaken)]" 1 s]
    release_tail [OF assms(1), of "[(d, LockTaken)]" 0 "s\<lparr>wt_locks := l @ [(d, LockTaken)]\<rparr>"] assms
  by (simp add: drop_guards_def no_guards_def release_maybe_def swap_remove_def)

lemma drop_three:
  assumes "lock_find l d = None" "lock_find l p = None" "lock_find l c = None" "d \<noteq> p" "d \<noteq> c" "p \<noteq> c"
    and "wt_locks s = l @ [(d, LockTaken), (p, LockTaken), (c, LockTaken)]"
  shows "release_guard p s = Some (s\<lparr>wt_locks := l @ [(d, LockTaken), (c, LockTaken)]\<rparr>)"
    "release_guard c (s\<lparr>wt_locks := l @ [(d, LockTaken), (c, LockTaken)]\<rparr>) = Some (s\<lparr>wt_locks := l @ [(d, LockTaken)]\<rparr>)"
    "release_guard d (s\<lparr>wt_locks := l @ [(d, LockTaken)]\<rparr>) = Some (s\<lparr>wt_locks := l\<rparr>)"
    "drop_guards (no_guards\<lparr>ag_dst_parent := Some d, ag_src_parent := Some p, ag_src_child := Some c\<rparr>) s = Some (s\<lparr>wt_locks := l\<rparr>)"
proof -
  show 1: "release_guard p s = Some (s\<lparr>wt_locks := l @ [(d, LockTaken), (c, LockTaken)]\<rparr>)"
    using release_tail [OF assms(2), of "[(d, LockTaken), (p, LockTaken), (c, LockTaken)]" 1 s] assms by (simp add: swap_remove_def)
  show 2: "release_guard c (s\<lparr>wt_locks := l @ [(d, LockTaken), (c, LockTaken)]\<rparr>) = Some (s\<lparr>wt_locks := l @ [(d, LockTaken)]\<rparr>)"
    using release_tail [OF assms(3), of "[(d, LockTaken), (c, LockTaken)]" 1 "s\<lparr>wt_locks := l @ [(d, LockTaken), (c, LockTaken)]\<rparr>"] assms
    by (simp add: swap_remove_def)
  show 3: "release_guard d (s\<lparr>wt_locks := l @ [(d, LockTaken)]\<rparr>) = Some (s\<lparr>wt_locks := l\<rparr>)"
    using release_tail [OF assms(1), of "[(d, LockTaken)]" 0 "s\<lparr>wt_locks := l @ [(d, LockTaken)]\<rparr>"] by (simp add: swap_remove_def)
  show "drop_guards (no_guards\<lparr>ag_dst_parent := Some d, ag_src_parent := Some p, ag_src_child := Some c\<rparr>) s = Some (s\<lparr>wt_locks := l\<rparr>)"
    by (simp add: drop_guards_def no_guards_def release_maybe_def 1 2 3)
qed

subsection \<open>The steps of an attempt\<close>

definition no_folder_at :: "(vlob_id \<Rightarrow> local_child_manifest option) \<Rightarrow> vlob_id \<Rightarrow> entry_name list \<Rightarrow> bool" where
  "no_folder_at T realm q \<longleftrightarrow> (\<forall>i f. (q, i) \<in> tree_paths T realm \<longrightarrow> T i \<noteq> Some (LocalFolder f))"

lemma resolve_parent_view:
  assumes env: "tree_env_ok env (wt_realm_id s)" and ok: "tree_ok env s"
    and free: "unlocked s (tree_resolve (tree_known env s) (wt_realm_id s) q)"
  obtains (folder) p f where "resolve_parent event q who set_guard (s, g) =
        Some ((s\<lparr>wt_locks := wt_locks s @ [(p, LockTaken)]\<rparr>, set_guard (Some p) g), Inr f)"
      "(q, p) \<in> tree_paths (tree_known env s) (wt_realm_id s)" "tree_known env s p = Some (LocalFolder f)" "lock_find (wt_locks s) p = None"
    | (no_folder) p where "resolve_parent event q who set_guard (s, g) =
        Some ((s\<lparr>wt_locks := wt_locks s @ [(p, LockTaken)]\<rparr>, set_guard (Some p) g), Inl (ReparentFails (not_found_of who)))"
      "lock_find (wt_locks s) p = None" "(q, p) \<in> tree_paths (tree_known env s) (wt_realm_id s)"
      "no_folder_at (tree_known env s) (wt_realm_id s) q"
    | (absent) "resolve_parent event q who set_guard (s, g) = Some ((s, g), Inl (ReparentFails (not_found_of who)))"
      "no_folder_at (tree_known env s) (wt_realm_id s) q"
    | (miss) i where "resolve_parent event q who set_guard (s, g) = Some ((s, g), Inl (ReparentNeeds (NeedsPopulate i) who))"
      "wt_get s i = None" "i \<in> set (walk_ids (tree_known env s) (the (tree_known env s (wt_realm_id s))) q)"
      "tree_known env s i = None \<longrightarrow> no_folder_at (tree_known env s) (wt_realm_id s) q"
proof -
  let ?T = "tree_known env s" and ?r = "wt_realm_id s"
  note shape = tree_known_shape [OF env ok]
  have none: "no_folder_at ?T ?r q" if "tree_resolve ?T ?r q = None"
    using tree_resolve_paths(2) [OF shape that] by (simp add: no_folder_at_def)
  have lock: "True \<longrightarrow> unlocked s (tree_resolve ?T ?r q)" using free by simp
  show thesis
  proof (rule look_view [OF ok lock, of event], goal_cases)
    case (1 m c)
    note at = tree_resolve_paths(1) [OF shape 1(1)]
    have free': "lock_find (wt_locks s) (lc_id m) = None" using free 1(1) by (simp add: unlocked_def)
    show ?case
    proof (cases m)
      case (LocalFile f)
      then have "no_folder_at ?T ?r q" using at paths_fun [OF shape] unfolding no_folder_at_def by fastforce
      then show ?thesis using 1 LocalFile at free'
        by (intro no_folder [of "lc_id m"]) (auto simp: resolve_parent_def resolved_with_def)
    next
      case (LocalFolder f)
      then show ?thesis using 1 at free' by (intro folder [of "lc_id m" f]) (auto simp: resolve_parent_def resolved_with_def)
    qed
  next
    case 2
    with none show ?case by (intro absent) (simp_all add: resolve_parent_def)
  next
    case (3 i root)
    with none show ?case by (intro miss [of i]) (simp_all add: resolve_parent_def)
  qed
qed

lemma resolve_child_view:
  assumes env: "tree_env_ok env (wt_realm_id s)" and ok: "tree_ok env s" and f: "tree_known env s p = Some (LocalFolder f)"
    and free: "\<forall>i. link (tree_known env s) p n i \<longrightarrow> lock_find (wt_locks s) i = None"
  obtains (child) c m where "resolve_child event f n who set_guard (s, g) =
        Some ((s\<lparr>wt_locks := wt_locks s @ [(c, LockTaken)]\<rparr>, set_guard (Some c) g), Inr m)"
      "link (tree_known env s) p n c" "tree_known env s c = Some m" "lc_id m = c"
    | (absent) "resolve_child event f n who set_guard (s, g) = Some ((s, g), Inl (ReparentFails (not_found_of who)))"
      "\<forall>i. \<not> link (tree_known env s) p n i"
    | (miss) i where "resolve_child event f n who set_guard (s, g) = Some ((s, g), Inl (ReparentNeeds (NeedsPopulate i) who))"
      "wt_get s i = None" "hm_get (ld_children f) n = Some i" "tree_known env s i = None \<longrightarrow> (\<forall>i. \<not> link (tree_known env s) p n i)"
proof -
  have p: "fo_id (ld_base f) = p" using tree_known_children(2) [OF env ok f] .
  show thesis
  proof (cases "hm_get (ld_children f) n")
    case None
    with f show thesis by (intro absent) (auto simp: resolve_child_def link_iff)
  next
    case (Some i)
    show thesis
    proof (cases "wt_get s i")
      case None
      with Some f show thesis by (intro miss [of i]) (auto simp: resolve_child_def link_iff)
    next
      case child: (Some m)
      note k = cached_known [OF child, of env]
      show thesis
      proof (cases "lc_parent m = p")
        case True
        then have l: "link (tree_known env s) p n i" using f Some k by (simp add: link_iff)
        with True child Some p k show thesis
          by (intro that(1) [of i m]) (auto simp: resolve_child_def lock_take_free free tree_known_ok(1) [OF env ok k])
      next
        case False
        with child Some p k f show thesis by (intro absent) (auto simp: resolve_child_def link_iff)
      qed
    qed
  qed
qed

subsection \<open>An attempt\<close>

definition apart :: "entry_name list \<Rightarrow> entry_name \<Rightarrow> entry_name list \<Rightarrow> entry_name option \<Rightarrow> bool" where
  "apart q n q' x \<longleftrightarrow> q \<noteq> q' \<and> \<not> prefix (q @ [n]) q' \<and> (\<forall>n'. x = Some n' \<longrightarrow> \<not> prefix (q' @ [n']) q)"

definition move_unlocked :: "tree_env \<Rightarrow> workspace_tree \<Rightarrow> entry_name list \<Rightarrow> entry_name \<Rightarrow> entry_name list \<Rightarrow> entry_name option \<Rightarrow> bool" where
  "move_unlocked env s q n q' x \<longleftrightarrow>
     (\<forall>w \<in> {q, q @ [n], q'} \<union> {q' @ [n'] |n'. x = Some n'}. unlocked s (tree_resolve (tree_known env s) (wt_realm_id s) w))"

definition reparent_answer ::
  "(vlob_id \<Rightarrow> local_child_manifest option) \<Rightarrow> vlob_id \<Rightarrow> entry_name list \<Rightarrow> entry_name \<Rightarrow> entry_name list \<Rightarrow> entry_name option \<Rightarrow>
   for_update_reparenting_error \<Rightarrow> bool" where
  "reparent_answer T realm q n q' x e =
     (case e of
        ReparentSourceNotFound \<Rightarrow> q @ [n] \<notin> fst ` tree_paths T realm
      | ReparentDestinationNotFound \<Rightarrow> no_folder_at T realm q' \<or> (\<exists>n'. x = Some n' \<and> q' @ [n'] \<notin> fst ` tree_paths T realm)
      | ReparentAccess _ \<Rightarrow> False)"

definition reparent_result ::
  "(vlob_id \<Rightarrow> local_child_manifest option) \<Rightarrow> vlob_id \<Rightarrow> entry_name list \<Rightarrow> entry_name \<Rightarrow> entry_name list \<Rightarrow> entry_name option \<Rightarrow>
   resolve_path_for_reparenting_result \<Rightarrow> bool" where
  "reparent_result T realm q n q' x u \<longleftrightarrow>
     (q, rr_src_parent_guard u) \<in> tree_paths T realm \<and> T (rr_src_parent_guard u) = Some (LocalFolder (rr_src_parent u)) \<and>
     link T (rr_src_parent_guard u) n (rr_src_child_guard u) \<and> T (rr_src_child_guard u) = Some (rr_src_child u) \<and>
     (q', rr_dst_parent_guard u) \<in> tree_paths T realm \<and> T (rr_dst_parent_guard u) = Some (LocalFolder (rr_dst_parent u)) \<and>
     (case x of
        None \<Rightarrow> rr_dst_child u = None
      | Some n' \<Rightarrow> \<exists>d m. link T (rr_dst_parent_guard u) n' d \<and> T d = Some m \<and> rr_dst_child u = Some m) \<and>
     rr_dst_child_guard u = None"

definition guarded :: "resolve_path_for_reparenting_result \<Rightarrow> per_manifest_update_lock" where
  "guarded u = [(rr_dst_parent_guard u, LockTaken), (rr_src_parent_guard u, LockTaken), (rr_src_child_guard u, LockTaken)]"

text \<open>The ids that an attempt may ask for.\<close>

definition attempt_ids ::
  "(vlob_id \<Rightarrow> local_child_manifest option) \<Rightarrow> vlob_id \<Rightarrow> entry_name list \<Rightarrow> entry_name \<Rightarrow> entry_name list \<Rightarrow> entry_name option \<Rightarrow> vlob_id set" where
  "attempt_ids T realm q n q' x =
     set (walk_ids T (the (T realm)) q) \<union> set (walk_ids T (the (T realm)) q') \<union>
     {i. \<exists>p f. (q, p) \<in> tree_paths T realm \<and> T p = Some (LocalFolder f) \<and> hm_get (ld_children f) n = Some i} \<union>
     {i. \<exists>p f n'. (q', p) \<in> tree_paths T realm \<and> T p = Some (LocalFolder f) \<and> x = Some n' \<and> hm_get (ld_children f) n' = Some i}"

lemma attempt_ids_finite:
  assumes shape: "tree_shape T realm" shows "finite (attempt_ids T realm q n q' x)"
proof -
  have one: "finite {i. \<exists>p f. (w, p) \<in> tree_paths T realm \<and> T p = Some (LocalFolder f) \<and> hm_get (ld_children f) m = Some i}" (is "finite ?A") for w m
  proof -
    have "i = j" if "i \<in> ?A" "j \<in> ?A" for i j using that paths_fun [OF shape] by fastforce
    then have "?A = {} \<or> (\<exists>i. ?A = {i})" by blast
    then show ?thesis by (elim disjE exE) (simp_all only: finite.emptyI finite.insertI)
  qed
  have "finite {i. \<exists>p f n'. (q', p) \<in> tree_paths T realm \<and> T p = Some (LocalFolder f) \<and> x = Some n' \<and> hm_get (ld_children f) n' = Some i}"
    using one [of q'] by (cases x) simp_all
  with one [of q n] show ?thesis by (simp add: attempt_ids_def)
qed

lemma unlocked_path:
  assumes "tree_shape (tree_known env s) (wt_realm_id s)" "unlocked s (tree_resolve (tree_known env s) (wt_realm_id s) q)"
    "(q, i) \<in> tree_paths (tree_known env s) (wt_realm_id s)"
  shows "lock_find (wt_locks s) i = None"
  using tree_resolve_paths(3) [OF assms(1,3)] assms(2) shape_id [OF assms(1)] by (auto simp: unlocked_def)

text \<open>The end of an attempt: its guards are released or given to the caller.\<close>

definition finish_attempt ::
  "((workspace_tree \<times> auto_release_guards) \<times> (reparenting_outcome + local_folder_manifest \<times> local_child_manifest \<times>
     local_folder_manifest \<times> local_child_manifest option)) option \<Rightarrow> (workspace_tree \<times> reparenting_outcome) option" where
  "finish_attempt r =
     (case r of
        None \<Rightarrow> None
      | Some ((s, g), Inl outcome) \<Rightarrow> map_option (\<lambda>s. (s, outcome)) (drop_guards g s)
      | Some ((s, g), Inr manifests) \<Rightarrow> do {
          (g, result) \<leftarrow> defuse_guards manifests g;
          s \<leftarrow> drop_guards g s;
          Some (s, ReparentResolved result)
        })"

definition children_steps ::
  "nat \<Rightarrow> local_folder_manifest \<Rightarrow> entry_name \<Rightarrow> local_folder_manifest \<Rightarrow> entry_name option \<Rightarrow>
   (workspace_tree \<times> auto_release_guards, reparenting_outcome, local_folder_manifest \<times> local_child_manifest \<times>
     local_folder_manifest \<times> local_child_manifest option) op" where
  "children_steps event src_parent n dst_parent x =
     op_bind (resolve_child event src_parent n SrcChild (\<lambda>i. ag_src_child_update (\<lambda>_. i))) (\<lambda>src_child.
     op_bind (case x of
                None \<Rightarrow> op_return None
              | Some name \<Rightarrow>
                  op_bind (resolve_child event dst_parent name DstChild (\<lambda>i. ag_dst_child_update (\<lambda>_. i)))
                    (\<lambda>child. op_return (Some child))) (\<lambda>dst_child.
     op_return (src_parent, src_child, dst_parent, dst_child)))"

lemma attempt_steps:
  "cache_only_reparenting event q n q' x s =
     finish_attempt (op_bind (resolve_parent event q' DstParent (\<lambda>i. ag_dst_parent_update (\<lambda>_. i))) (\<lambda>g.
       op_bind (resolve_parent event q SrcParent (\<lambda>i. ag_src_parent_update (\<lambda>_. i))) (\<lambda>f. children_steps event f n g x)) (s, no_guards))"
  by (simp add: cache_only_reparenting_def finish_attempt_def reparenting_steps_def children_steps_def)

lemma attempt_children:
  assumes env: "tree_env_ok env (wt_realm_id s)" and ok: "tree_ok env s" and T: "T = tree_known env s" and r: "r = wt_realm_id s"
    and f: "(q, p) \<in> tree_paths T r" "T p = Some (LocalFolder f)" and g: "(q', d) \<in> tree_paths T r" "T d = Some (LocalFolder g)"
    and l: "lock_find l d = None" "lock_find l p = None" "d \<noteq> p" and t: "wt_locks s = l @ [(d, LockTaken), (p, LockTaken)]"
    and G: "G = no_guards\<lparr>ag_dst_parent := Some d, ag_src_parent := Some p\<rparr>"
    and src: "\<forall>i. link T p n i \<longrightarrow> lock_find l i = None \<and> i \<noteq> d \<and> i \<noteq> p"
    and dst: "\<forall>n' i. x = Some n' \<and> link T d n' i \<longrightarrow> lock_find l i = None \<and> i \<noteq> d \<and> i \<noteq> p \<and> \<not> link T p n i"
  obtains (resolved) u where "finish_attempt (children_steps event f n g x (s, G)) = Some (s\<lparr>wt_locks := l @ guarded u\<rparr>, ReparentResolved u)"
      "reparent_result T r q n q' x u"
    | (answered) e where "finish_attempt (children_steps event f n g x (s, G)) = Some (s\<lparr>wt_locks := l\<rparr>, ReparentFails e)"
      "reparent_answer T r q n q' x e"
    | (miss) i who where "finish_attempt (children_steps event f n g x (s, G)) = Some (s\<lparr>wt_locks := l\<rparr>, ReparentNeeds (NeedsPopulate i) who)"
      "wt_get s i = None" "i \<in> attempt_ids T r q n q' x" "T i = None \<longrightarrow> reparent_answer T r q n q' x (not_found_of who)"
proof -
  have shape: "tree_shape T r" using tree_known_shape [OF env ok] T r by simp
  note defs = finish_attempt_def children_steps_def op_run
  have f': "tree_known env s p = Some (LocalFolder f)" using f T by simp
  have free: "\<forall>i. link (tree_known env s) p n i \<longrightarrow> lock_find (wt_locks s) i = None"
    using src T t l by (auto simp: lock_find_map_of)
  note none = paths_at(2) [OF shape f(1), of n]
  have dp: "drop_guards G s = Some (s\<lparr>wt_locks := l\<rparr>)" using drop_parents [OF l t] G by simp
  show thesis
  proof (rule resolve_child_view [OF env ok f' free, of event SrcChild "\<lambda>i. ag_src_child_update (\<lambda>_. i)" G, folded T], goal_cases)
    case (1 c m)
    note c = src [rule_format, OF 1(2)] and src_run = 1(1) and child = 1(2,3)
    let ?s = "s\<lparr>wt_locks := wt_locks s @ [(c, LockTaken)]\<rparr>" and ?G = "G\<lparr>ag_src_child := Some c\<rparr>"
    have locks: "wt_locks ?s = l @ [(d, LockTaken), (p, LockTaken), (c, LockTaken)]" using t by simp
    have dt: "drop_guards ?G ?s = Some (s\<lparr>wt_locks := l\<rparr>)"
      using drop_three(4) [OF l(1,2) _ l(3) _ _ locks] c G by simp
    show thesis
    proof (cases x)
      case None
      let ?u = "\<lparr>rr_src_parent = f, rr_src_parent_guard = p, rr_src_child = m, rr_src_child_guard = c, rr_dst_parent = g,
        rr_dst_parent_guard = d, rr_dst_child = None, rr_dst_child_guard = None\<rparr>"
      show thesis by (rule resolved [of ?u])
        (use 1 None f g t G drop_no_guard in \<open>simp_all add: defs reparent_result_def guarded_def defuse_guards_def no_guards_def\<close>)
    next
      case (Some n')
      have env': "tree_env_ok env (wt_realm_id ?s)" and ok': "tree_ok env ?s" and g': "tree_known env ?s d = Some (LocalFolder g)"
        using env ok g T by simp_all
      have free': "\<forall>i. link (tree_known env ?s) d n' i \<longrightarrow> lock_find (wt_locks ?s) i = None"
        using dst Some 1(2) T locks l by (auto simp: lock_find_map_of)
      note none' = paths_at(2) [OF shape g(1), of n']
      show thesis
      proof (rule resolve_child_view [OF env' ok' g' free', of event DstChild "\<lambda>i. ag_dst_child_update (\<lambda>_. i)" ?G], goal_cases)
        case (1 e m')
        let ?u = "\<lparr>rr_src_parent = f, rr_src_parent_guard = p, rr_src_child = m, rr_src_child_guard = c, rr_dst_parent = g,
          rr_dst_parent_guard = d, rr_dst_child = Some m', rr_dst_child_guard = None\<rparr>"
        let ?t = "s\<lparr>wt_locks := wt_locks ?s @ [(e, LockTaken)]\<rparr>"
        have "lock_find (wt_locks ?s) e = None" using free' 1(2) by blast
        then have "drop_guards (no_guards\<lparr>ag_dst_child := Some e\<rparr>) ?t = Some (s\<lparr>wt_locks := l @ guarded ?u\<rparr>)"
          using release_last [of "wt_locks ?s" e ?t] locks
          by (simp add: drop_guards_def no_guards_def release_maybe_def guarded_def)
        then show thesis using 1 src_run Some f g G T child
          by (intro resolved [of ?u]) (auto simp: defs reparent_result_def defuse_guards_def no_guards_def)
      next
        case 2
        then show thesis using src_run Some dt none' T
          by (intro answered [of ReparentDestinationNotFound]) (simp_all add: defs reparent_answer_def)
      next
        case (3 i)
        then show thesis using src_run Some dt none' g T
          by (intro miss [of i DstChild]) (auto simp: defs reparent_answer_def attempt_ids_def)
      qed
    qed
  next
    case 2
    show thesis by (rule answered [of ReparentSourceNotFound]) (use 2 dp none in \<open>simp_all add: defs reparent_answer_def\<close>)
  next
    case (3 i)
    show thesis by (rule miss [of i SrcChild]) (use 3 dp none f in \<open>auto simp: defs reparent_answer_def attempt_ids_def\<close>)
  qed
qed

text \<open>The entries of a move are distinct.\<close>

lemma moved_apart:
  assumes shape: "tree_shape T r" and far: "apart q n q' x" and p: "(q, p) \<in> tree_paths T r" and d: "(q', d) \<in> tree_paths T r"
  shows "link T p n i \<Longrightarrow> i \<noteq> d \<and> i \<noteq> p" "x = Some n' \<Longrightarrow> link T d n' i \<Longrightarrow> i \<noteq> d \<and> i \<noteq> p \<and> \<not> link T p n i"
proof -
  have src: "link T p n i \<Longrightarrow> (q @ [n], i) \<in> tree_paths T r" using paths_at(1) [OF shape p] by blast
  have dst: "link T d n' i \<Longrightarrow> (q' @ [n'], i) \<in> tree_paths T r" using paths_at(1) [OF shape d] by blast
  have no: "q @ [n] \<noteq> q'" "q @ [n] \<noteq> q" "q' @ [n'] \<noteq> q'" "x = Some n' \<longrightarrow> q' @ [n'] \<noteq> q" "q' @ [n'] \<noteq> q @ [n]"
    using far by (auto simp: apart_def)
  note unique = paths_unique [OF shape]
  show "link T p n i \<Longrightarrow> i \<noteq> d \<and> i \<noteq> p" using src unique [OF _ p] unique [OF _ d] no(1,2) by blast
  show "x = Some n' \<Longrightarrow> link T d n' i \<Longrightarrow> i \<noteq> d \<and> i \<noteq> p \<and> \<not> link T p n i"
    using src dst unique [OF _ d] unique [OF _ p] unique no(3-5) by blast
qed

lemma attempt_view:
  assumes env: "tree_env_ok env (wt_realm_id s)" and ok: "tree_ok env s" and T: "T = tree_known env s" and r: "r = wt_realm_id s"
    and far: "apart q n q' x" and free: "move_unlocked env s q n q' x"
  obtains (resolved) u where "cache_only_reparenting event q n q' x s = Some (s\<lparr>wt_locks := wt_locks s @ guarded u\<rparr>, ReparentResolved u)"
      "reparent_result T r q n q' x u"
    | (answered) e where "cache_only_reparenting event q n q' x s = Some (s, ReparentFails e)" "reparent_answer T r q n q' x e"
    | (miss) i who where "cache_only_reparenting event q n q' x s = Some (s, ReparentNeeds (NeedsPopulate i) who)"
      "wt_get s i = None" "i \<in> attempt_ids T r q n q' x" "T i = None \<longrightarrow> reparent_answer T r q n q' x (not_found_of who)"
proof -
  note defs = attempt_steps finish_attempt_def op_run
  have shape: "tree_shape T r" using tree_known_shape [OF env ok] T r by simp
  let ?l = "wt_locks s"
  have lock: "lock_find ?l i = None" if "w \<in> {q, q @ [n], q'} \<union> {q' @ [n'] |n'. x = Some n'}" "(w, i) \<in> tree_paths T r" for w i
    using free that unlocked_path [of env s w i] shape T r unfolding move_unlocked_def by blast
  have free_at: "unlocked s (tree_resolve (tree_known env s) (wt_realm_id s) q')" using free by (simp add: move_unlocked_def)
  have no_src: "q @ [n] \<notin> fst ` tree_paths T r" if "no_folder_at T r q"
    using that by (force simp: no_folder_at_def paths_child link_iff)
  show thesis
  proof (rule resolve_parent_view [OF env ok free_at, of event DstParent "\<lambda>i. ag_dst_parent_update (\<lambda>_. i)" no_guards, folded T r], goal_cases)
    case (1 d g)
    let ?s = "s\<lparr>wt_locks := ?l @ [(d, LockTaken)]\<rparr>" and ?G = "no_guards\<lparr>ag_dst_parent := Some d\<rparr>"
    have env': "tree_env_ok env (wt_realm_id ?s)" and ok': "tree_ok env ?s" using env ok by simp_all
    have other: "i \<noteq> d" if "(q, i) \<in> tree_paths T r" for i
      using that 1(2) paths_unique [OF shape that, of q'] far by (auto simp: apart_def)
    have free': "unlocked ?s (tree_resolve (tree_known env ?s) (wt_realm_id ?s) q)"
      using lock [of q] other tree_resolve_paths(1) [OF shape, of q] T r by (auto simp: unlocked_def lock_find_append)
    have dd: "drop_guards ?G ?s = Some s" using drop_dst_parent [OF 1(4), of ?s] by simp
    have start: "cache_only_reparenting event q n q' x s =
        finish_attempt (op_bind (resolve_parent event q SrcParent (\<lambda>i. ag_src_parent_update (\<lambda>_. i))) (\<lambda>f. children_steps event f n g x) (?s, ?G))"
      using 1(1) by (simp add: attempt_steps op_run)
    show thesis
    proof (rule resolve_parent_view [OF env' ok' free', of event SrcParent "\<lambda>i. ag_src_parent_update (\<lambda>_. i)" ?G], goal_cases)
      case (1 p f)
      let ?t = "?s\<lparr>wt_locks := wt_locks ?s @ [(p, LockTaken)]\<rparr>"
      have at: "(q, p) \<in> tree_paths T r" "T p = Some (LocalFolder f)" using 1 T r by simp_all
      have known: "T = tree_known env ?t" "r = wt_realm_id ?t" "tree_env_ok env (wt_realm_id ?t)" "tree_ok env ?t" "wt_locks ?t = ?l @ [(d, LockTaken), (p, LockTaken)]"
        using T r env ok by simp_all
      have pd: "lock_find ?l p = None" "d \<noteq> p" using lock [OF _ at(1)] other [OF at(1)] by auto
      note src = moved_apart [OF shape far at(1) \<open>(q', d) \<in> tree_paths T r\<close>]
      have src': "\<forall>i. link T p n i \<longrightarrow> lock_find ?l i = None \<and> i \<noteq> d \<and> i \<noteq> p"
        using src(1) lock [of "q @ [n]"] paths_at(1) [OF shape at(1)] by simp
      have dst': "\<forall>n' i. x = Some n' \<and> link T d n' i \<longrightarrow> lock_find ?l i = None \<and> i \<noteq> d \<and> i \<noteq> p \<and> \<not> link T p n i"
        using src(2) lock [of "q' @ [n']" for n'] paths_at(1) [OF shape \<open>(q', d) \<in> tree_paths T r\<close>] by (simp; blast)
      show thesis
        by (rule attempt_children [OF known(3,4,1,2) at \<open>(q', d) \<in> tree_paths T r\<close> \<open>T d = Some (LocalFolder g)\<close> \<open>lock_find ?l d = None\<close> pd known(5) refl src' dst', of event])
          (use 1(1) start in \<open>auto simp: op_run intro: resolved answered miss\<close>)
    next
      case (2 p)
      have "(q, p) \<in> tree_paths T r" using 2 T r by simp
      then have "drop_guards (?G\<lparr>ag_src_parent := Some p\<rparr>) (?s\<lparr>wt_locks := wt_locks ?s @ [(p, LockTaken)]\<rparr>) = Some s"
        using drop_parents [OF \<open>lock_find ?l d = None\<close>, of p "?s\<lparr>wt_locks := wt_locks ?s @ [(p, LockTaken)]\<rparr>"] lock [of q p] other by auto
      then show thesis using 2 start no_src T r by (intro answered [of ReparentSourceNotFound]) (simp_all add: defs reparent_answer_def)
    next
      case 3
      then show thesis using start dd no_src T r by (intro answered [of ReparentSourceNotFound]) (simp_all add: defs reparent_answer_def)
    next
      case (4 i)
      then show thesis using start dd no_src T r
        by (intro miss [of i SrcParent]) (auto simp: defs reparent_answer_def attempt_ids_def)
    qed
  next
    case (2 d)
    show thesis by (rule answered [of ReparentDestinationNotFound])
      (use 2 drop_dst_parent [OF 2(2), of "s\<lparr>wt_locks := ?l @ [(d, LockTaken)]\<rparr>"] in \<open>simp_all add: defs reparent_answer_def\<close>)
  next
    case 3
    show thesis by (rule answered [of ReparentDestinationNotFound]) (use 3 in \<open>simp_all add: defs drop_no_guard reparent_answer_def\<close>)
  next
    case (4 i)
    show thesis by (rule miss [of i DstParent])
      (use 4 in \<open>simp_all add: defs drop_no_guard reparent_answer_def attempt_ids_def\<close>)
  qed
qed

subsection \<open>The loop\<close>

definition reparent_outcome ::
  "tree_env \<Rightarrow> workspace_tree \<Rightarrow> entry_name list \<Rightarrow> entry_name \<Rightarrow> entry_name list \<Rightarrow> entry_name option \<Rightarrow> workspace_tree \<Rightarrow>
   workspace_tree \<times> (for_update_reparenting_error + resolve_path_for_reparenting_result) \<Rightarrow> bool" where
  "reparent_outcome env s q n q' x s' o' \<longleftrightarrow>
     (\<exists>u. o' = (s'\<lparr>wt_locks := wt_locks s @ guarded u\<rparr>, Inr u) \<and> reparent_result (tree_known env s) (wt_realm_id s) q n q' x u) \<or>
     (\<exists>e. o' = (s', Inl e) \<and> (reparent_answer (tree_known env s) (wt_realm_id s) q n q' x e \<or> trouble env s \<and> (\<exists>a. e = ReparentAccess a)))"

lemma reparent_view:
  assumes env: "tree_env_ok env (wt_realm_id s)" and ok: "tree_ok env s"
    and far: "apart (fp_parts sp) n (fp_parts dp) x" and free: "move_unlocked env s (fp_parts sp) n (fp_parts dp) x"
  shows "\<exists>s' o'. resolve_path_for_reparenting env sp n dp x s = Some o' \<and> same_view env s s' \<and>
    reparent_outcome env s (fp_parts sp) n (fp_parts dp) x s' o'"
  using assms
proof (induction "card (attempt_ids (tree_known env s) (wt_realm_id s) (fp_parts sp) n (fp_parts dp) x - dom (wt_get s))"
    arbitrary: s rule: less_induct)
  case (less s)
  note env = less.prems(1) and ok = less.prems(2)
  note unfold = resolve_path_for_reparenting.simps [of env sp n dp x s]
  let ?T = "tree_known env s" and ?ids = "attempt_ids (tree_known env s) (wt_realm_id s) (fp_parts sp) n (fp_parts dp) x"
  show ?case
  proof (rule attempt_view [OF env ok refl refl less.prems(3,4), of "te_event env"], goal_cases)
    case (1 u)
    then have "resolve_path_for_reparenting env sp n dp x s = Some (s\<lparr>wt_locks := wt_locks s @ guarded u\<rparr>, Inr u)"
      by (simp add: unfold)
    with 1(2) same_view_refl [OF ok] show ?case unfolding reparent_outcome_def by blast
  next
    case (2 e)
    then have "resolve_path_for_reparenting env sp n dp x s = Some (s, Inl e)" by (simp add: unfold)
    with 2(2) same_view_refl [OF ok] show ?case unfolding reparent_outcome_def by blast
  next
    case (3 i who)
    note need = 3
    show ?case
    proof (cases rule: populate_view [OF env ok 3(2)])
      case (1 s1 m)
      then have run: "resolve_path_for_reparenting env sp n dp x s = resolve_path_for_reparenting env sp n dp x s1"
        using need(1) by (simp add: unfold)
      have v: "tree_known env s1 = ?T" "wt_realm_id s1 = wt_realm_id s" "wt_locks s1 = wt_locks s"
        using 1(2) by (simp_all add: same_view_def)
      have "dom (wt_get s) \<subseteq> dom (wt_get s1)" "i \<in> dom (wt_get s1)" "i \<notin> dom (wt_get s)"
        using 1(2,3) need(2) by (auto simp: same_view_def)
      then have "?ids - dom (wt_get s1) \<subset> ?ids - dom (wt_get s)" using need(3) by blast
      then have "card (?ids - dom (wt_get s1)) < card (?ids - dom (wt_get s))"
        using attempt_ids_finite [OF tree_known_shape [OF env ok]] by (intro psubset_card_mono) simp_all
      then have smaller: "card (attempt_ids (tree_known env s1) (wt_realm_id s1) (fp_parts sp) n (fp_parts dp) x - dom (wt_get s1)) <
          card (?ids - dom (wt_get s))" using v by simp
      have "move_unlocked env s1 (fp_parts sp) n (fp_parts dp) x"
        using less.prems(4) v by (simp add: move_unlocked_def unlocked_def)
      from less.hyps [OF smaller same_view_env [OF 1(2) env] same_view_ok [OF 1(2)] less.prems(3) this]
      obtain s' o' where s': "resolve_path_for_reparenting env sp n dp x s1 = Some o'" "same_view env s1 s'"
        "reparent_outcome env s1 (fp_parts sp) n (fp_parts dp) x s' o'" by blast
      have "reparent_outcome env s (fp_parts sp) n (fp_parts dp) x s' o'"
        using s'(3) v same_view_trouble [OF 1(2)] unfolding reparent_outcome_def by auto
      with s'(1) run same_view_trans [OF 1(2) s'(2)] show ?thesis by auto
    next
      case (2 s1)
      then have "resolve_path_for_reparenting env sp n dp x s = Some (s1, Inl (not_found_of who))"
        using need(1) by (simp add: unfold)
      with 2 need(4) show ?thesis unfolding reparent_outcome_def by blast
    next
      case (3 s1 e)
      then have "resolve_path_for_reparenting env sp n dp x s = Some (s1, Inl (ReparentAccess e))"
        using need(1) by (simp add: unfold)
      moreover have "trouble env s" using 3(3) by (auto simp: trouble_def)
      ultimately show ?thesis using 3(2) unfolding reparent_outcome_def by blast
    qed
  qed
qed

end
