(* ===== verification/Tree_Move.thy ===== *)
theory Tree_Move
  imports Tree_Create Tree_Reparent
begin

text \<open>Moves, over the view.\<close>

subsection \<open>The destination\<close>

definition may_take :: "(vlob_id \<Rightarrow> local_child_manifest option) \<Rightarrow> move_entry_mode \<Rightarrow> vlob_id \<Rightarrow> entry_name \<Rightarrow> bool" where
  "may_take T mode p n =
     (case mode of
        CanReplace \<Rightarrow> True
      | CanReplaceFileOnly \<Rightarrow> \<forall>i. link T p n i \<longrightarrow> (\<exists>f. T i = Some (LocalFile f))
      | NoReplace \<Rightarrow> \<forall>i. \<not> link T p n i
      | Exchange \<Rightarrow> \<exists>i. link T p n i)"

definition destination_answer :: "tree_env \<Rightarrow> workspace_tree \<Rightarrow> move_entry_mode \<Rightarrow> vlob_id \<Rightarrow> entry_name \<Rightarrow> move_error \<Rightarrow> bool" where
  "destination_answer env s mode p n e =
     (case e of
        MoveDestinationExists i \<Rightarrow> link (tree_known env s) p n i \<and>
          (mode = NoReplace \<or> mode = CanReplaceFileOnly \<and> (\<exists>f. tree_known env s i = Some (LocalFolder f)))
      | MoveDestinationNotFound \<Rightarrow> mode = Exchange \<and> (\<forall>i. \<not> link (tree_known env s) p n i)
      | MoveAccess _ \<Rightarrow> trouble env s
      | _ \<Rightarrow> False)"

lemma check_destination_view:
  assumes env: "tree_env_ok env (wt_realm_id s)" and ok: "tree_ok env s" and f: "tree_known env s p = Some (LocalFolder f)"
  obtains (go) s' x where "check_destination env mode f n s = Some (s', Inr x)" "same_view env s s'" "may_take (tree_known env s) mode p n"
      "if mode = Exchange then \<exists>d. x = Some d \<and> link (tree_known env s) p n d else x = None"
    | (refused) s' e where "check_destination env mode f n s = Some (s', Inl e)" "same_view env s s'" "destination_answer env s mode p n e"
proof -
  note defs = check_destination_def op_run destination_answer_def
  let ?T = "tree_known env s"
  have p: "fo_id (ld_base f) = p" using tree_known_children(2) [OF env ok f] .
  have free: thesis if same: "same_view env s s1" and none: "\<forall>i. \<not> link ?T p n i"
    and run: "check_destination env mode f n s = (if mode = Exchange then op_throw MoveDestinationNotFound else op_return None) s1" for s1
  proof (cases "mode = Exchange")
    case True
    with same none run show thesis by (intro refused [of s1 MoveDestinationNotFound]) (simp_all add: defs)
  next
    case False
    with same none run show thesis by (intro go [of s1 None]) (cases mode; simp add: op_run may_take_def)+
  qed
  show thesis
  proof (cases "hm_get (ld_children f) n")
    case None
    have "\<forall>i. \<not> link ?T p n i" using None f by (simp add: link_iff)
    with same_view_refl [OF ok] show thesis by (rule free) (simp add: check_destination_def None)
  next
    case (Some i)
    have only: "link ?T p n j \<Longrightarrow> j = i" for j using Some f by (simp add: link_iff)
    show thesis
    proof (cases rule: ensure_view [OF env ok, of i p])
      case (1 s1)
      show thesis
      proof (cases "child_of ?T p i")
        case None
        then have "\<forall>j. \<not> link ?T p n j" using only child_of_link [where T = ?T, OF f Some] by auto
        with 1(2) show thesis by (rule free) (use 1(1) None Some p in \<open>simp add: check_destination_def op_run\<close>)
      next
        case child: (Some m)
        then have l: "link ?T p n i" "?T i = Some m"
          using child_of_link [where T = ?T, OF f Some] by (auto simp: child_of_def split: option.split_asm if_split_asm)
        have run: "check_destination env mode f n s =
            (case mode of CanReplace \<Rightarrow> op_return None
             | CanReplaceFileOnly \<Rightarrow> (case m of LocalFile _ \<Rightarrow> op_return None | LocalFolder _ \<Rightarrow> op_throw (MoveDestinationExists i))
             | NoReplace \<Rightarrow> op_throw (MoveDestinationExists i)
             | Exchange \<Rightarrow> op_return (Some i)) s1" using 1(1) Some child p by (simp add: check_destination_def op_run)
        have kind: "\<forall>j. link ?T p n j \<longrightarrow> (\<exists>f. ?T j = Some (LocalFile f))" if "m = LocalFile g" for g
          using l(2) that by (auto dest!: only)
        show thesis
          using run l 1(2) kind go [of s1 None] go [of s1 "Some i"] refused [of s1 "MoveDestinationExists i"]
          by (cases mode; cases m) (auto simp: op_run may_take_def destination_answer_def)
      qed
    next
      case (2 s1 e)
      with Some p show thesis by (intro refused [of s1 "MoveAccess e"]) (simp_all add: defs)
    qed
  qed
qed

subsection \<open>In one folder\<close>

lemma renamed_link:
  assumes f: "T p = Some (LocalFolder f)" "ld_parent f' = ld_parent f" and T': "T' = T ++ [p \<mapsto> LocalFolder f']"
    and get: "hm_get (ld_children f') = (hm_get (ld_children f))(n := x, n' \<mapsto> c)" and c: "link T p n c"
  shows "x = None \<Longrightarrow> n \<noteq> n' \<Longrightarrow> link T' = move_link (link T) p n p n' c"
    "x = Some d \<Longrightarrow> n \<noteq> n' \<Longrightarrow> link T p n' d \<Longrightarrow> link T' = exchange_links (link T) p n c p n' d"
    "n = n' \<Longrightarrow> link T' = link T"
proof -
  have ch: "children_in T' = (children_in T)(p := (children_in T p)(n := x, n' \<mapsto> c))"
    using f get by (auto simp: T' update_children_in children_in_folder)
  have pa: "parent_in T' = parent_in T"
    using f by (auto simp: T' update_parent_in parent_in_def fun_eq_iff)
  note defs = fun_eq_iff link_fields ch pa move_link_def exchange_links_def add_link_iff cut_link_iff
  show "x = None \<Longrightarrow> n \<noteq> n' \<Longrightarrow> link T' = move_link (link T) p n p n' c"
    using c by (auto simp: defs split: if_split_asm)
  show "x = Some d \<Longrightarrow> n \<noteq> n' \<Longrightarrow> link T p n' d \<Longrightarrow> link T' = exchange_links (link T) p n c p n' d"
    using c by (auto simp: defs split: if_split_asm)
  show "n = n' \<Longrightarrow> link T' = link T"
    using c by (auto simp: defs split: if_split_asm)
qed

lemma rename_folder_view:
  assumes env: "tree_env_ok env (wt_realm_id s)" and ok: "tree_ok env s" and f: "tree_known env s p = Some (LocalFolder f)"
    and c: "link (tree_known env s) p n c" and x: "x = None \<or> (\<exists>d. x = Some d \<and> link (tree_known env s) p n' d)"
  obtains f' where "evolve_children_and_mark_updated (te_iter env) f (hm_insert n' (Some c) [(n, x)]) (te_pattern env) (te_now env) = Some f'"
    "hm_get (ld_children f') = (hm_get (ld_children f))(n := x, n' \<mapsto> c)" "ld_parent f' = ld_parent f" "fo_id (ld_base f') = p"
    "writable (wt_realm_id s) [p \<mapsto> LocalFolder f']"
proof -
  let ?data = "hm_insert n' (Some c) [(n, x)]"
  have get: "hm_get ?data = [n \<mapsto> x, n' \<mapsto> Some c]" by (auto simp: fun_eq_iff)
  have kids: "hm_get (ld_children f) n = Some c" "\<And>d. x = Some d \<Longrightarrow> hm_get (ld_children f) n' = Some d"
    using c x f by (auto simp: link_iff)
  have unique: "hm_get (ld_children f) k = Some i \<Longrightarrow> hm_get (ld_children f) k' = Some i \<Longrightarrow> k = k'" for k k' i
    using tree_known_children(1) [OF env ok f] unfolding children_ok_def unique_ids_def by blast
  have no_root: "c \<noteq> wt_realm_id s" "x \<noteq> Some (wt_realm_id s)"
    using c x link_tree_shape [OF tree_known_shape [OF env ok]] by (auto simp: link_tree_def)
  show thesis
  proof (rule change_folder_view [OF env ok f, of ?data], goal_cases)
    case 1
    show ?case by simp
  next
    case 2
    show ?case unfolding evolvable_def get using kids unique by (auto split: if_split_asm)
  next
    case (3 k)
    show ?case unfolding get using no_root by auto
  next
    case (4 k k' i)
    then show ?case unfolding get using kids unique by (auto split: if_split_asm)
  next
    case (5 f')
    moreover have "hm_get (ld_children f') = (hm_get (ld_children f))(n := x, n' \<mapsto> c)"
      using 5(2) unfolding get by (auto simp: fun_eq_iff)
    ultimately show ?case using that by blast
  qed
qed

definition source_answer :: "tree_env \<Rightarrow> workspace_tree \<Rightarrow> move_entry_mode \<Rightarrow> vlob_id \<Rightarrow> entry_name \<Rightarrow> entry_name \<Rightarrow> move_error \<Rightarrow> bool" where
  "source_answer env s mode p n n' e =
     (case e of
        MoveSourceNotFound \<Rightarrow> \<forall>i. \<not> link (tree_known env s) p n i
      | _ \<Rightarrow> destination_answer env s mode p n' e)"

lemma move_same_view:
  assumes env: "tree_env_ok env (wt_realm_id s)" and ok: "tree_ok env s" and f: "tree_known env s p = Some (LocalFolder f)"
    and T: "T = tree_known env s"
  obtains (moved) s' f' c where "move_entry_same_parent env f n n' mode s = Some (s', Inr ())" "wrote env s s' [p \<mapsto> LocalFolder f']"
      "link T p n c" "may_take T mode p n'"
      "n = n' \<Longrightarrow> link (T ++ [p \<mapsto> LocalFolder f']) = link T"
      "n \<noteq> n' \<Longrightarrow> mode \<noteq> Exchange \<Longrightarrow> link (T ++ [p \<mapsto> LocalFolder f']) = move_link (link T) p n p n' c"
      "n \<noteq> n' \<Longrightarrow> mode = Exchange \<Longrightarrow> \<exists>d. link T p n' d \<and> link (T ++ [p \<mapsto> LocalFolder f']) = exchange_links (link T) p n c p n' d"
    | (refused) s' e where "move_entry_same_parent env f n n' mode s = Some (s', Inl e)" "wrote env s s' Map.empty" "source_answer env s mode p n n' e"
proof -
  note defs = move_entry_same_parent_def op_run op_option_def source_answer_def
  have p: "fo_id (ld_base f) = p" using tree_known_children(2) [OF env ok f] .
  have self: "wrote env s s Map.empty" using ok by (simp add: wrote_def)
  note shape = tree_known_shape [OF env ok, folded T]
  show thesis
  proof (cases "hm_get (ld_children f) n")
    case None
    then have "\<forall>i. \<not> link T p n i" using f T by (simp add: link_iff)
    with None self T show thesis by (intro refused [of s MoveSourceNotFound]) (simp_all add: defs)
  next
    case (Some c)
    have only: "link T p n j \<Longrightarrow> j = c" for j using Some f T by (simp add: link_iff)
    show thesis
    proof (cases rule: ensure_view [OF env ok, of c p])
      case (2 s1 e)
      with Some p same_view_wrote [OF 2(2)] show thesis
        by (intro refused [of s1 "MoveAccess e"]) (simp_all add: defs destination_answer_def)
    next
      case (1 s1)
      note ens = 1(1) and v1 = same_view_wrote [OF 1(2)]
      show thesis
      proof (cases "child_of T p c")
        case None
        then have "\<forall>j. \<not> link T p n j" using only child_of_link [where T = T, OF f [folded T] Some] by auto
        with None ens Some p v1 T show thesis by (intro refused [of s1 MoveSourceNotFound]) (simp_all add: defs)
      next
        case child: (Some m)
        then have c: "link T p n c" using child_of_link [where T = T, OF f [folded T] Some] by simp
        have k1: "tree_known env s1 = T" "wt_realm_id s1 = wt_realm_id s" using 1(2) T by (simp_all add: same_view_def)
        note ok1 = same_view_env [OF 1(2) env] same_view_ok [OF 1(2)]
        have f1: "tree_known env s1 p = Some (LocalFolder f)" using f T k1 by simp
        have start: "move_entry_same_parent env f n n' mode s = op_bind (check_destination env mode f n') (\<lambda>x.
            op_bind (op_option (evolve_children_and_mark_updated (te_iter env) f (hm_insert n' (Some c) [(n, x)]) (te_pattern env) (te_now env)))
            (\<lambda>f'. op_map_err MoveAccess (update_folder_manifest env f' None))) s1"
          using Some ens child p T by (simp add: move_entry_same_parent_def op_run)
        show thesis
        proof (rule check_destination_view [OF ok1 f1, of mode n'], goal_cases)
          case (2 s2 e)
          have "destination_answer env s mode p n' e"
            using 2(3) k1 T wrote_trouble [OF v1] by (auto simp: destination_answer_def split: move_error.split_asm)
          moreover have "e \<noteq> MoveSourceNotFound" using 2(3) by (auto simp: destination_answer_def)
          ultimately show thesis using 2 start wrote_trans [OF v1 same_view_wrote [OF 2(2)]]
            by (intro refused [of s2 e]) (auto simp: op_run source_answer_def split: move_error.split)
        next
          case (1 s2 x)
          note v2 = wrote_trans [OF v1 same_view_wrote [OF 1(2)], simplified]
          note ok2 = same_view_env [OF 1(2) ok1(1)] same_view_ok [OF 1(2)]
          have k2: "tree_known env s2 = T" "wt_realm_id s2 = wt_realm_id s" using 1(2) k1 by (simp_all add: same_view_def)
          have f2: "tree_known env s2 p = Some (LocalFolder f)" using f T k2 by simp
          have x: "x = None \<or> (\<exists>d. x = Some d \<and> link T p n' d)" "mode \<noteq> Exchange \<longrightarrow> x = None" "mode = Exchange \<longrightarrow> x \<noteq> None"
            using 1(4) k1 by (auto split: if_split_asm)
          obtain data where data: "data = hm_insert n' (Some c) [(n, x)]" by blast
          obtain f' where f': "evolve_children_and_mark_updated (te_iter env) f data (te_pattern env) (te_now env) = Some f'"
            "hm_get (ld_children f') = (hm_get (ld_children f))(n := x, n' \<mapsto> c)" "ld_parent f' = ld_parent f" "fo_id (ld_base f') = p"
            "writable (wt_realm_id s2) [p \<mapsto> LocalFolder f']"
            unfolding data by (rule rename_folder_view [OF ok2 f2]) (use c x(1) k2 in auto)
          note links = renamed_link [where T = T, OF f [folded T] f'(3) refl f'(2) c]
          have M: "[p \<mapsto> LocalFolder f'] = [fo_id (ld_base f') \<mapsto> LocalFolder f'] ++ (case None of None \<Rightarrow> Map.empty | Some c \<Rightarrow> [lc_id c \<mapsto> c])"
            using f'(4) by simp
          have run: "move_entry_same_parent env f n n' mode s = op_map_err MoveAccess (update_folder_manifest env f' None) s2"
            unfolding start using f'(1) \<open>check_destination env mode f n' s1 = _\<close>
            by (simp add: op_run op_option_def data [symmetric] del: update.simps)
          note run = run op_run
          show thesis
          proof (rule update_folder_view [OF ok2 M f'(5)], goal_cases)
            case 2
            let ?s = "s2\<lparr>wt_faults := tl (wt_faults s2)\<rparr>"
            have "wrote env s ?s Map.empty" using v2 tl_faults [of "wt_faults s2"] by (auto simp: wrote_def)
            with 2 wrote_trouble [OF v2] show thesis
              by (intro refused [of ?s "MoveAccess AccInternal"]) (simp_all add: run source_answer_def destination_answer_def)
          next
            case (3 s3)
            have "wrote env s s3 [p \<mapsto> LocalFolder f']" using wrote_trans [OF v2 3(2)] by simp
            then show thesis using 3(1) c links x \<open>may_take (tree_known env s1) mode p n'\<close> k1
              by (intro moved [of s3 f' c]) (auto simp: run)
          qed simp
        qed
      qed
    qed
  qed
qed

end
