(* ===== verification/Tree_Move_Across.thy ===== *)
theory Tree_Move_Across
  imports Tree_Move
begin

text \<open>Moves between two folders, over the view.\<close>

subsection \<open>The entry that changes its parent\<close>

lemma reparented_fields [simp]:
  "lc_id (reparented p now m) = lc_id m" "lc_parent (reparented p now m) = p"
  by (cases m; simp)+

lemma reparented_children:
  "(case reparented p now m of LocalFolder f \<Rightarrow> hm_get (ld_children f) | _ \<Rightarrow> Map.empty) =
   (case m of LocalFolder f \<Rightarrow> hm_get (ld_children f) | _ \<Rightarrow> Map.empty)"
  by (cases m) simp_all

lemma reparented_ok:
  assumes "child_ok m" "p \<noteq> lc_id m" shows "child_ok (reparented p now m)"
proof (cases m)
  case (LocalFile f)
  with assms show ?thesis by (auto simp: child_ok_def lf_check_data_integrity_def split: if_split_asm sum.split_asm sum.split)
next
  case (LocalFolder f)
  with assms show ?thesis by (auto simp: child_ok_def ld_check_data_integrity_as_child_def ld_check_data_integrity_def)
qed

subsection \<open>The links\<close>

lemma children_in_unique:
  "tree_shape T realm \<Longrightarrow> children_in T p k = Some i \<Longrightarrow> children_in T p k' = Some i \<Longrightarrow> k = k'"
  unfolding tree_shape_def children_ok_def unique_ids_def
  by (cases "T p") (auto simp: children_in_def split: local_child_manifest.split_asm)

lemma reparented_link:
  assumes shape: "tree_shape T realm" and f: "T p = Some (LocalFolder f)" "ld_parent f' = ld_parent f" "hm_get (ld_children f') = (hm_get (ld_children f))(n := x)"
    and g: "T d = Some (LocalFolder g)" "ld_parent g' = ld_parent g" "hm_get (ld_children g') = (hm_get (ld_children g))(n' \<mapsto> c)"
    and c: "link T p n c" "T c = Some m" and ids: "p \<noteq> d" "c \<noteq> p" "c \<noteq> d"
    and T': "T' = T(p \<mapsto> LocalFolder f', c \<mapsto> reparented d now m, d \<mapsto> LocalFolder g')"
    and listed: "\<And>k. children_in T d k = Some c \<Longrightarrow> k = n'" and x: "x = None"
  shows "link T' = move_link (link T) p n d n' c"
proof -
  have "children_in T c = (case m of LocalFolder f \<Rightarrow> hm_get (ld_children f) | _ \<Rightarrow> Map.empty)" using c(2) by (simp add: children_in_def)
  then have ch: "children_in T' = (children_in T)(p := (children_in T p)(n := None), d := (children_in T d)(n' \<mapsto> c))"
    using f g ids x unfolding T' by (auto simp: fun_eq_iff update_children_in children_in_folder reparented_children)
  have pa: "parent_in T' = (parent_in T)(c \<mapsto> d)"
    using f g ids unfolding T' by (auto simp: fun_eq_iff update_parent_in parent_in_def)
  have one: "children_in T p k = Some c \<longrightarrow> k = n" "children_in T d k = Some c \<longrightarrow> k = n'" for k
    using children_in_unique [OF shape] listed c(1) unfolding link_fields by blast+
  have "link T' k k' i \<longleftrightarrow> move_link (link T) p n d n' c k k' i" for k k' i
    using c(1) ids one(2) [of k'] unfolding link_fields ch pa move_link_def add_link_iff cut_link_iff
    by (cases "i = c"; cases "k = d"; cases "k = p") (auto dest: one(1) [THEN mp])
  then show ?thesis by (simp add: fun_eq_iff)
qed

lemma exchanged_link:
  assumes shape: "tree_shape T realm" and f: "T p = Some (LocalFolder f)" "ld_parent f' = ld_parent f" "hm_get (ld_children f') = (hm_get (ld_children f))(n \<mapsto> e)"
    and g: "T d = Some (LocalFolder g)" "ld_parent g' = ld_parent g" "hm_get (ld_children g') = (hm_get (ld_children g))(n' \<mapsto> c)"
    and c: "link T p n c" "T c = Some m" and e: "link T d n' e" "T e = Some m'"
    and ids: "p \<noteq> d" "c \<noteq> p" "c \<noteq> d" "e \<noteq> p" "e \<noteq> d" "e \<noteq> c"
    and T': "T' = T(p \<mapsto> LocalFolder f', c \<mapsto> reparented d now m, d \<mapsto> LocalFolder g', e \<mapsto> reparented p now m')"
    and listed: "\<And>k. children_in T d k = Some c \<Longrightarrow> k = n'" "\<And>k. children_in T p k = Some e \<Longrightarrow> k = n"
  shows "link T' = exchange_links (link T) p n c d n' e"
proof -
  have "children_in T c = (case m of LocalFolder f \<Rightarrow> hm_get (ld_children f) | _ \<Rightarrow> Map.empty)"
    "children_in T e = (case m' of LocalFolder f \<Rightarrow> hm_get (ld_children f) | _ \<Rightarrow> Map.empty)" using c(2) e(2) by (simp_all add: children_in_def)
  then have ch: "children_in T' = (children_in T)(p := (children_in T p)(n \<mapsto> e), d := (children_in T d)(n' \<mapsto> c))"
    using f g ids unfolding T' by (auto simp: fun_eq_iff update_children_in children_in_folder reparented_children)
  have pa: "parent_in T' = (parent_in T)(c \<mapsto> d, e \<mapsto> p)"
    using f g ids unfolding T' by (auto simp: fun_eq_iff update_parent_in parent_in_def)
  have one: "children_in T p k = Some c \<longrightarrow> k = n" "children_in T d k = Some c \<longrightarrow> k = n'"
    "children_in T d k = Some e \<longrightarrow> k = n'" "children_in T p k = Some e \<longrightarrow> k = n" for k
    using children_in_unique [OF shape] listed c(1) e(1) unfolding link_fields by blast+
  note def = exchange_links_def move_link_def add_link_iff cut_link_iff
  have "link T' k k' i \<longleftrightarrow> exchange_links (link T) p n c d n' e k k' i" for k k' i
  proof -
    consider "i = c" | "i = e" | "i \<noteq> c" "i \<noteq> e" by blast
    then show ?thesis
    proof cases
      case 1
      have "link T k k' c \<longleftrightarrow> k = p \<and> k' = n" using c(1) one(1) unfolding link_fields by auto
      moreover have "link T' k k' c \<longleftrightarrow> k = d \<and> k' = n'" unfolding link_fields ch pa using ids one(2) by auto
      ultimately show ?thesis using ids 1 by (auto simp: def)
    next
      case 2
      have "link T k k' e \<longleftrightarrow> k = d \<and> k' = n'" using e(1) one(3) unfolding link_fields by auto
      moreover have "link T' k k' e \<longleftrightarrow> k = p \<and> k' = n" unfolding link_fields ch pa using ids one(4) by auto
      ultimately show ?thesis using ids 2 by (auto simp: def)
    next
      case 3
      then have "link T' k k' i \<longleftrightarrow> link T k k' i \<and> \<not> (k = p \<and> k' = n) \<and> \<not> (k = d \<and> k' = n')"
        unfolding link_fields ch pa using ids by auto
      with 3 show ?thesis by (auto simp: def)
    qed
  qed
  then show ?thesis by (simp add: fun_eq_iff)
qed

subsection \<open>The write\<close>

lemma reparent_write_view:
  assumes env: "tree_env_ok env (wt_realm_id s)" and ok: "tree_ok env s"
    and M: "M = [fo_id (ld_base f) \<mapsto> LocalFolder f, lc_id c \<mapsto> c, fo_id (ld_base g) \<mapsto> LocalFolder g] ++
      (case e of None \<Rightarrow> Map.empty | Some e \<Rightarrow> [lc_id e \<mapsto> e])"
    and w: "writable (wt_realm_id s) M" and c: "lc_id c \<noteq> fo_id (ld_base g)" "lc_id c \<noteq> wt_realm_id s" "child_ok c"
    and e: "\<forall>m. e = Some m \<longrightarrow> lc_id m \<noteq> wt_realm_id s \<and> child_ok m"
  obtains (fails) "update_manifests_for_reparenting env f c g e s = Some (s\<lparr>wt_faults := tl (wt_faults s)\<rparr>, Inl AccInternal)" "trouble env s"
    | (works) s' where "update_manifests_for_reparenting env f c g e s = Some (s', Inr ())" "wrote env s s' M"
proof -
  note defs = update_manifests_for_reparenting_def op_run op_option_def
  obtain db where db: "wt_storage s = Some db" using ok by (auto simp: tree_ok_def)
  have root: "mh_root_manifest_id (wt_manifests s) = wt_realm_id s" using ok by (simp add: tree_ok_def)
  obtain u where u: "child_update_data env (LocalFolder f) = Some u" "ud_entry_id u = fo_id (ld_base f)"
    "ud_encrypted u = dk_encrypt (te_dk env) (te_dump env (LocalFolder f))" using child_update_data_ok [of "LocalFolder f" env] by auto
  obtain v where v: "child_update_data env c = Some v" "ud_entry_id v = lc_id c"
    "ud_encrypted v = dk_encrypt (te_dk env) (te_dump env c)" using child_update_data_ok [of c env] c(3) by auto
  obtain y where y: "child_update_data env (LocalFolder g) = Some y" "ud_entry_id y = fo_id (ld_base g)"
    "ud_encrypted y = dk_encrypt (te_dk env) (te_dump env (LocalFolder g))" using child_update_data_ok [of "LocalFolder g" env] by auto
  note faults = tl_faults [of "wt_faults s"]
  show thesis
  proof (cases e)
    case None
    show thesis
    proof (cases rule: with_storage_cases [OF db, of AccStopped AccInternal "\<lambda>db. (update_manifests [u, v, y] db, ())"])
      case 1
      then show thesis using u(1) v(1) y(1) None by (intro that(1)) (simp_all add: defs trouble_def)
    next
      case (2 db' z)
      let ?c = "(wt_manifests s)\<lparr>mh_manifests := hm_insert (lc_id c) c (hm_insert (fo_id (ld_base g)) (LocalFolder g)
        (hm_insert (fo_id (ld_base f)) (LocalFolder f) (mh_manifests (wt_manifests s))))\<rparr>"
      let ?s = "s\<lparr>wt_faults := tl (wt_faults s), wt_storage := Some db', wt_manifests := ?c\<rparr>"
      have "wrote env s ?s M"
        by (rule written_view [OF env ok db w])
          (use 2(1) u v y M None c faults in \<open>auto simp: update_manifests_def get_updated_manifest fun_eq_iff map_add_def hm_simps wt_get_def\<close>)
      then show thesis using 2 u(1) v(1) y(1) None c root by (intro that(2) [of ?s]) (simp_all add: defs wt_insert_run)
    qed
  next
    case (Some m)
    obtain z where z: "child_update_data env m = Some z" "ud_entry_id z = lc_id m"
      "ud_encrypted z = dk_encrypt (te_dk env) (te_dump env m)" using child_update_data_ok [of m env] e Some by auto
    show thesis
    proof (cases rule: with_storage_cases [OF db, of AccStopped AccInternal "\<lambda>db. (update_manifests [u, v, y, z] db, ())"])
      case 1
      then show thesis using u(1) v(1) y(1) z(1) Some by (intro that(1)) (simp_all add: defs trouble_def)
    next
      case (2 db' o')
      let ?c = "(wt_manifests s)\<lparr>mh_manifests := hm_insert (lc_id m) m (hm_insert (lc_id c) c (hm_insert (fo_id (ld_base g)) (LocalFolder g)
        (hm_insert (fo_id (ld_base f)) (LocalFolder f) (mh_manifests (wt_manifests s)))))\<rparr>"
      let ?s = "s\<lparr>wt_faults := tl (wt_faults s), wt_storage := Some db', wt_manifests := ?c\<rparr>"
      have "wrote env s ?s M"
        by (rule written_view [OF env ok db w])
          (use 2(1) u v y z M Some c faults in \<open>auto simp: update_manifests_def get_updated_manifest fun_eq_iff map_add_def hm_simps wt_get_def\<close>)
      then show thesis using 2 u(1) v(1) y(1) z(1) Some c e root by (intro that(2) [of ?s]) (simp_all add: defs wt_insert_run)
    qed
  qed
qed

end
