(* ===== verification/Tree_Move_Entry.thy ===== *)
theory Tree_Move_Entry
  imports Tree_Move_Across
begin

text \<open>The move of an entry as a whole, over the view.\<close>

subsection \<open>Between two folders\<close>

text \<open>
  The entry that moves is not also listed by the folder it goes to, except where it goes; in an exchange, both entries.
\<close>

definition not_listed ::
  "(vlob_id \<Rightarrow> local_child_manifest option) \<Rightarrow> vlob_id \<Rightarrow> entry_name list \<Rightarrow> entry_name list \<Rightarrow> entry_name \<Rightarrow> bool" where
  "not_listed T realm src q n \<longleftrightarrow>
     (\<forall>c p k. (src, c) \<in> tree_paths T realm \<and> (q, p) \<in> tree_paths T realm \<and> children_in T p k = Some c \<longrightarrow> k = n)"

text \<open>An entry may get another parent, and nothing else of it changes but its marks.\<close>

definition kept :: "date_time \<Rightarrow> local_child_manifest option \<Rightarrow> local_child_manifest option \<Rightarrow> bool" where
  "kept now x y \<longleftrightarrow> y = x \<or> (\<exists>p m. x = Some m \<and> y = Some (reparented p now m))"

lemma set_entry_view:
  assumes env: "tree_env_ok env (wt_realm_id s)" and ok: "tree_ok env s" and f: "tree_known env s p = Some (LocalFolder f)"
    and x: "x = None \<Longrightarrow> hm_get (ld_children f) n \<noteq> None" "\<And>i k. x = Some i \<Longrightarrow> hm_get (ld_children f) k = Some i \<Longrightarrow> k = n"
      "x \<noteq> Some (wt_realm_id s)"
  obtains f' where "evolve_children_and_mark_updated (te_iter env) f [(n, x)] (te_pattern env) (te_now env) = Some f'"
    "hm_get (ld_children f') = (hm_get (ld_children f))(n := x)" "ld_parent f' = ld_parent f" "fo_id (ld_base f') = p"
    "writable (wt_realm_id s) [p \<mapsto> LocalFolder f']"
proof (rule change_folder_view [OF env ok f, of "[(n, x)]"], goal_cases)
  case 2
  show ?case unfolding evolvable_def using x(1,2) by (auto split: if_split_asm)
next
  case (3 k)
  show ?case using x(3) by auto
next
  case (5 f')
  moreover have "hm_get (ld_children f') = (hm_get (ld_children f))(n := x)" using 5(3) by (auto simp: fun_eq_iff)
  ultimately show ?case using that by blast
qed (auto split: if_split_asm)

lemma move_across_view:
  assumes env: "tree_env_ok env (wt_realm_id s)" and ok: "tree_ok env s" and T: "T = tree_known env s" and r: "r = wt_realm_id s"
    and x: "x = (if mode = Exchange then Some n' else None)" and far: "apart q n q' x"
    and u: "reparent_result T r q n q' x u"
    and listed: "not_listed T r (q @ [n]) q' n'" "mode = Exchange \<longrightarrow> not_listed T r (q' @ [n']) q n"
  obtains (moved) s' M where "move_entry_different_parents env u n n' mode s = Some (s', Inr ())" "wrote env s s' M"
      "may_take T mode (rr_dst_parent_guard u) n'"
      "dom M \<subseteq> {rr_src_parent_guard u, rr_dst_parent_guard u, rr_src_child_guard u} \<union> {e. mode = Exchange \<and> link T (rr_dst_parent_guard u) n' e}"
      "\<forall>j. j \<noteq> rr_src_parent_guard u \<and> j \<noteq> rr_dst_parent_guard u \<longrightarrow> kept (te_now env) (T j) ((T ++ M) j)"
      "mode \<noteq> Exchange \<Longrightarrow> link (T ++ M) = move_link (link T) (rr_src_parent_guard u) n (rr_dst_parent_guard u) n' (rr_src_child_guard u)"
      "mode = Exchange \<Longrightarrow> \<exists>e. link T (rr_dst_parent_guard u) n' e \<and>
         link (T ++ M) = exchange_links (link T) (rr_src_parent_guard u) n (rr_src_child_guard u) (rr_dst_parent_guard u) n' e"
    | (refused) s' e where "move_entry_different_parents env u n n' mode s = Some (s', Inl e)" "wrote env s s' Map.empty"
      "destination_answer env s mode (rr_dst_parent_guard u) n' e"
proof -
  note defs = move_entry_different_parents_def op_run op_option_def Let_def
  obtain f g m y p c d where u_def: "u = \<lparr>rr_src_parent = f, rr_src_parent_guard = p, rr_src_child = m, rr_src_child_guard = c,
      rr_dst_parent = g, rr_dst_parent_guard = d, rr_dst_child = y, rr_dst_child_guard = None\<rparr>"
    using u by (cases u) (auto simp: reparent_result_def)
  have at: "(q, p) \<in> tree_paths T r" "T p = Some (LocalFolder f)" "link T p n c" "T c = Some m" "(q', d) \<in> tree_paths T r" "T d = Some (LocalFolder g)"
    and y: "case x of None \<Rightarrow> y = None | Some n' \<Rightarrow> \<exists>e m'. link T d n' e \<and> T e = Some m' \<and> y = Some m'"
    using u by (cases x; simp add: reparent_result_def u_def)+
  note shape = tree_known_shape [OF env ok, folded T r]
  note tree = link_tree_shape [OF shape]
  have id: "fo_id (ld_base f) = p" "fo_id (ld_base g) = d" "lc_id m = c"
    using shape_id [OF shape at(2)] shape_id [OF shape at(6)] shape_id [OF shape at(4)] by simp_all
  have no_root: "c \<noteq> r" using tree at(3) by (auto simp: link_tree_def)
  have ids: "p \<noteq> d" "c \<noteq> p" "c \<noteq> d"
    using moved_apart(1) [OF shape far at(1,5,3)] paths_unique [OF shape at(1), of q'] at(5) far by (auto simp: apart_def)
  have g': "tree_known env s d = Some (LocalFolder g)" using at(6) T by simp
  show thesis
  proof (rule check_destination_view [OF env ok g', of mode n', folded T], goal_cases)
    case (2 s1 e)
    then show thesis using same_view_wrote [OF 2(2)] by (intro refused [of s1 e]) (auto simp: defs u_def)
  next
    case (1 s1 z)
    note dest = 1(1) and v1 = same_view_wrote [OF 1(2)]
    note ok1 = same_view_env [OF 1(2) env] same_view_ok [OF 1(2)]
    have k1: "tree_known env s1 = T" "wt_realm_id s1 = r" using 1(2) T r by (simp_all add: same_view_def)
    have z: "z = None \<and> mode \<noteq> Exchange \<or> (\<exists>e. z = Some e \<and> link T d n' e \<and> mode = Exchange)" using 1(4) by (auto split: if_split_asm)
    have src_at: "(q @ [n], c) \<in> tree_paths T r" and dst_at: "link T d n' e \<Longrightarrow> (q' @ [n'], e) \<in> tree_paths T r" for e
      using paths_at(1) [OF shape at(1)] paths_at(1) [OF shape at(5)] at(3) by blast+
    have f1: "tree_known env s1 p = Some (LocalFolder f)" and g1: "tree_known env s1 d = Some (LocalFolder g)" using at k1 by simp_all
    obtain f' where f': "evolve_children_and_mark_updated (te_iter env) f [(n, z)] (te_pattern env) (te_now env) = Some f'"
      "hm_get (ld_children f') = (hm_get (ld_children f))(n := z)" "ld_parent f' = ld_parent f" "fo_id (ld_base f') = p" "writable r [p \<mapsto> LocalFolder f']"
    proof (rule set_entry_view [OF ok1 f1, of z n], goal_cases)
      case 1
      show ?case using at(2,3) by (simp add: link_iff)
    next
      case (2 i k)
      then have "children_in T p k = Some i" "(q' @ [n'], i) \<in> tree_paths T r" "mode = Exchange"
        using z at(2) dst_at by (auto simp: children_in_folder)
      then show ?case using listed(2) at(1) unfolding not_listed_def by blast
    next
      case 3
      show ?case using z tree k1 by (auto simp: link_tree_def)
    qed (use k1 in simp)
    obtain g' where g': "evolve_children_and_mark_updated (te_iter env) g [(n', Some c)] (te_pattern env) (te_now env) = Some g'"
      "hm_get (ld_children g') = (hm_get (ld_children g))(n' \<mapsto> c)" "ld_parent g' = ld_parent g" "fo_id (ld_base g') = d" "writable r [d \<mapsto> LocalFolder g']"
    proof (rule set_entry_view [OF ok1 g1, of "Some c" n'], goal_cases)
      case (2 i k)
      then have "children_in T d k = Some c" using at(6) by (simp add: children_in_folder)
      then show ?case using listed(1) at(5) src_at unfolding not_listed_def by blast
    qed (use k1 no_root in simp_all)
    let ?fault = "s1\<lparr>wt_faults := tl (wt_faults s1)\<rparr>"
    have fault: "wrote env s ?fault Map.empty" using v1 tl_faults [of "wt_faults s1"] by (auto simp: wrote_def)
    have c': "child_ok (reparented d (te_now env) m)"
      using reparented_ok tree_known_ok(2) [OF env ok] at(4) T r id(3) ids(3) no_root by metis
    show thesis
    proof (cases "mode = Exchange")
      case False
      then have n: "z = None" "y = None" using z y x by auto
      let ?M = "[p \<mapsto> LocalFolder f', c \<mapsto> reparented d (te_now env) m, d \<mapsto> LocalFolder g']"
      have M: "?M = [fo_id (ld_base f') \<mapsto> LocalFolder f', lc_id (reparented d (te_now env) m) \<mapsto> reparented d (te_now env) m, fo_id (ld_base g') \<mapsto> LocalFolder g'] ++
          (case None of None \<Rightarrow> Map.empty | Some e \<Rightarrow> [lc_id e \<mapsto> e])"
        using f'(4) g'(4) id(3) by simp
      have w: "writable (wt_realm_id s1) ?M" using f'(5) g'(5) c' id(3) k1 no_root unfolding writable_def by auto
      have link: "link (T ++ ?M) = move_link (link T) p n d n' c"
        using reparented_link [OF shape at(2) f'(3,2) at(6) g'(3,2) at(3,4) ids refl _ n(1)] listed(1) at(5) src_at
        unfolding not_listed_def by simp
      have run: "move_entry_different_parents env u n n' mode s =
          op_map_err MoveAccess (update_manifests_for_reparenting env f' (reparented d (te_now env) m) g' None) s1"
        using dest f'(1) g'(1) n id by (simp add: defs u_def)
      show thesis
      proof (rule reparent_write_view [OF ok1 M w], goal_cases)
        case 5
        with fault run wrote_trouble [OF v1] show thesis
          by (intro refused [of ?fault "MoveAccess AccInternal"]) (simp_all add: op_run destination_answer_def u_def)
      next
        case (6 s2)
        have kept: "\<forall>j. j \<noteq> p \<and> j \<noteq> d \<longrightarrow> kept (te_now env) (T j) ((T ++ ?M) j)" using at(4) by (auto simp: kept_def)
        show thesis by (rule moved [of s2 ?M])
          (use 6 run link kept False wrote_trans [OF v1 6(2)] \<open>may_take T mode d n'\<close> in \<open>auto simp: op_run u_def\<close>)
      qed (use id(3) ids g'(4) no_root k1 c' in simp_all)
    next
      case True
      obtain e m' where e: "z = Some e" "link T d n' e" "T e = Some m'" "y = Some m'"
        using z y x True tree unfolding link_tree_def by auto
      have e_id: "lc_id m' = e" using shape_id [OF shape e(3)] .
      have e_root: "e \<noteq> r" using tree e(2) by (auto simp: link_tree_def)
      have e_ids: "e \<noteq> p" "e \<noteq> d" "e \<noteq> c" using moved_apart(2) [OF shape far at(1,5) _ e(2)] x True at(3) by auto
      have e': "child_ok (reparented p (te_now env) m')"
        using reparented_ok tree_known_ok(2) [OF env ok] e(3) T r e_id e_ids e_root by metis
      let ?M = "[p \<mapsto> LocalFolder f', c \<mapsto> reparented d (te_now env) m, d \<mapsto> LocalFolder g', e \<mapsto> reparented p (te_now env) m']"
      have M: "?M = [fo_id (ld_base f') \<mapsto> LocalFolder f', lc_id (reparented d (te_now env) m) \<mapsto> reparented d (te_now env) m, fo_id (ld_base g') \<mapsto> LocalFolder g'] ++
          (case Some (reparented p (te_now env) m') of None \<Rightarrow> Map.empty | Some e \<Rightarrow> [lc_id e \<mapsto> e])"
        using f'(4) g'(4) id(3) e_id by simp
      have w: "writable (wt_realm_id s1) ?M" using f'(5) g'(5) c' e' id(3) e_id k1 no_root e_root unfolding writable_def by auto
      have only: "children_in T d k = Some c \<Longrightarrow> k = n'" "children_in T p k = Some e \<Longrightarrow> k = n" for k
        using listed True at(1,5) src_at dst_at [OF e(2)] unfolding not_listed_def by blast+
      have get: "hm_get (ld_children f') = (hm_get (ld_children f))(n \<mapsto> e)" unfolding f'(2) e(1) ..
      have link: "link (T ++ ?M) = exchange_links (link T) p n c d n' e"
        using exchanged_link [OF shape at(2) f'(3) get at(6) g'(3,2) at(3,4) e(2,3) ids e_ids refl only] by simp
      have run: "move_entry_different_parents env u n n' mode s =
          op_map_err MoveAccess (update_manifests_for_reparenting env f' (reparented d (te_now env) m) g' (Some (reparented p (te_now env) m'))) s1"
        using dest f'(1) g'(1) e id by (simp add: defs u_def)
      show thesis
      proof (rule reparent_write_view [OF ok1 M w], goal_cases)
        case 5
        with fault run wrote_trouble [OF v1] show thesis
          by (intro refused [of ?fault "MoveAccess AccInternal"]) (simp_all add: op_run destination_answer_def u_def)
      next
        case (6 s2)
        have kept: "\<forall>j. j \<noteq> p \<and> j \<noteq> d \<longrightarrow> kept (te_now env) (T j) ((T ++ ?M) j)" using at(4) e(3) by (auto simp: kept_def)
        show thesis by (rule moved [of s2 ?M])
          (use 6 run link kept True e wrote_trans [OF v1 6(2)] \<open>may_take T mode d n'\<close> in \<open>auto simp: op_run u_def\<close>)
      qed (use id(3) ids g'(4) no_root k1 c' e' e_id e_root in simp_all)
    qed
  qed
qed

subsection \<open>The operation\<close>

definition movable :: "tree_env \<Rightarrow> workspace_tree \<Rightarrow> entry_name list \<Rightarrow> entry_name list \<Rightarrow> move_entry_mode \<Rightarrow> bool" where
  "movable env s src dst mode \<longleftrightarrow> \<not> strict_prefix src dst \<and> (mode = Exchange \<longrightarrow> \<not> strict_prefix dst src) \<and>
     (if butlast src = butlast dst then parent_unlocked env s src
      else move_unlocked env s (butlast src) (last src) (butlast dst) (if mode = Exchange then Some (last dst) else None) \<and>
        not_listed (tree_known env s) (wt_realm_id s) src (butlast dst) (last dst) \<and>
        (mode = Exchange \<longrightarrow> not_listed (tree_known env s) (wt_realm_id s) dst (butlast src) (last src)))"

definition move_outcome ::
  "tree_env \<Rightarrow> workspace_tree \<Rightarrow> entry_name list \<Rightarrow> entry_name list \<Rightarrow> move_entry_mode \<Rightarrow> workspace_tree \<Rightarrow> move_error + unit \<Rightarrow> bool" where
  "move_outcome env s src dst mode s' r \<longleftrightarrow>
     (let T = tree_known env s; T' = tree_known env s'; P = tree_paths T (wt_realm_id s) in
      case r of
        Inr _ \<Rightarrow> te_can_write env \<and> src \<noteq> [] \<and> dst \<noteq> [] \<and> src \<in> fst ` P \<and>
          tree_paths T' (wt_realm_id s) = (if mode = Exchange then exchanged_paths src dst P else moved_paths src dst P) \<and>
          (case mode of
             CanReplace \<Rightarrow> True
           | CanReplaceFileOnly \<Rightarrow> \<forall>i. (dst, i) \<in> P \<longrightarrow> (\<exists>f. T i = Some (LocalFile f))
           | NoReplace \<Rightarrow> dst \<notin> fst ` P
           | Exchange \<Rightarrow> dst \<in> fst ` P) \<and>
          (\<forall>j. (\<forall>w \<in> {src, butlast src, dst, butlast dst}. (w, j) \<notin> P) \<longrightarrow> T' j = T j) \<and>
          (\<forall>j. (butlast src, j) \<notin> P \<and> (butlast dst, j) \<notin> P \<longrightarrow> kept (te_now env) (T j) (T' j))
      | Inl e \<Rightarrow> T' = T \<and>
          (case e of
             MoveReadOnlyRealm \<Rightarrow> \<not> te_can_write env
           | MoveCannotMoveRoot \<Rightarrow> src = [] \<or> dst = []
           | MoveSourceNotFound \<Rightarrow> src \<notin> fst ` P
           | MoveDestinationNotFound \<Rightarrow> dst \<notin> fst ` P \<and> (mode = Exchange \<or> no_folder_at T (wt_realm_id s) (butlast dst))
           | MoveDestinationExists i \<Rightarrow> (dst, i) \<in> P \<and> (mode = NoReplace \<or> mode = CanReplaceFileOnly \<and> (\<exists>f. T i = Some (LocalFolder f)))
           | MoveAccess _ \<Rightarrow> trouble env s))"

lemma same_paths: "moved_paths src src P = P" "exchanged_paths src src P = P"
  by (auto simp: moved_paths_def exchanged_paths_def prefix_def)

lemma taken_path:
  assumes shape: "tree_shape T r" and d: "(q', d) \<in> tree_paths T r" and take: "may_take T mode d n'"
  shows "case mode of CanReplace \<Rightarrow> True | CanReplaceFileOnly \<Rightarrow> \<forall>i. (q' @ [n'], i) \<in> tree_paths T r \<longrightarrow> (\<exists>f. T i = Some (LocalFile f))
    | NoReplace \<Rightarrow> q' @ [n'] \<notin> fst ` tree_paths T r | Exchange \<Rightarrow> q' @ [n'] \<in> fst ` tree_paths T r"
  using take by (cases mode) (auto simp: may_take_def paths_at [OF shape d])

lemma destination_outcome:
  assumes shape: "tree_shape (tree_known env s) (wt_realm_id s)" and d: "(q', d) \<in> tree_paths (tree_known env s) (wt_realm_id s)"
    and e: "destination_answer env s mode d n' e" and view: "tree_known env s' = tree_known env s"
  shows "move_outcome env s src (q' @ [n']) mode s' (Inl e)"
  using e view by (cases e) (auto simp: move_outcome_def Let_def destination_answer_def paths_at [OF shape d])

lemma move_in_folder_view:
  assumes env: "tree_env_ok env (wt_realm_id s)" and ok: "tree_ok env s" and may: "te_can_write env"
    and q: "fp_parts src = q @ [n]" "fp_parts dst = q @ [n']" and free: "parent_unlocked env s (q @ [n])"
  shows "\<exists>s' r. move_entry env src dst mode s = Some (s', r) \<and> settled env s s' \<and> move_outcome env s (q @ [n]) (q @ [n']) mode s' r"
proof -
  let ?T = "tree_known env s" and ?r = "wt_realm_id s"
  let ?P = "tree_paths ?T ?r"
  note shape = tree_known_shape [OF env ok]
  have free': "unlocked s (tree_resolve ?T ?r (fp_parts (src\<lparr>fp_parts := q\<rparr>)))" using free by (simp add: parent_unlocked_def)
  have same_path: "src\<lparr>fp_parts := q\<rparr> = dst\<lparr>fp_parts := q\<rparr>" by (cases src; cases dst) simp
  note run = move_entry_def Let_def fp_into_parent_def op_run send_outbound_sync_needed_def q may same_path move_in_folder_def
  show ?thesis
  proof (cases rule: resolve_locked_view [OF env ok free'])
    case (1 s1 p f c)
    obtain t where t: "t = s1\<lparr>wt_locks := wt_locks s @ [(p, LockTaken)]\<rparr>" by blast
    have "tree_env_ok env (wt_realm_id t)" "tree_ok env t" "tree_known env t p = Some (LocalFolder f)" and known: "tree_known env t = ?T"
      using env 1(2,3) by (simp_all add: t same_view_def)
    note moves = move_same_view [OF this(1-3) known [symmetric], of n n' mode]
    note released = locked_section [OF 1(2,5) t, of "move_entry_same_parent env f n n' mode"]
    have p: "(q, p) \<in> ?P" using 1(4) by simp
    note start = 1(1) [folded t, unfolded same_path]
    show ?thesis
    proof (rule moves, goal_cases)
      case (1 s2 f' c)
      let ?T' = "?T ++ [p \<mapsto> LocalFolder f']"
      note rel = released [OF 1(1,2)]
      have "tree_paths ?T' ?r = (if mode = Exchange then exchanged_paths (q @ [n]) (q @ [n']) ?P else moved_paths (q @ [n]) (q @ [n']) ?P)"
      proof (cases "n = n'")
        case True
        with 1(5) show ?thesis by (simp add: same_paths tree_paths_def)
      next
        case False
        with 1(3,6,7) show ?thesis
          using move_paths [OF shape p 1(3) p, of ?T' n'] exchange_paths [OF shape p 1(3) p, of n' _ ?T'] by (auto simp: prefix_snoc)
      qed
      moreover have "q @ [n] \<in> fst ` ?P" using paths_at(2) [OF shape p] 1(3) by blast
      moreover have "?T' j = ?T j" if "(q, j) \<notin> ?P" for j using that p by auto
      ultimately have "move_outcome env s (q @ [n]) (q @ [n']) mode (s2\<lparr>wt_locks := wt_locks s, wt_events := e\<rparr>) (Inr ())" for e
        using rel(2) taken_path [OF shape p 1(4)] may by (simp add: move_outcome_def wrote_def kept_def)
      then show ?case using start rel(1) wrote_settled [OF rel(2)] by (auto simp: run settled_def)
    next
      case (2 s2 e)
      note rel = released [OF 2(1,2)]
      have "trouble env t \<Longrightarrow> trouble env s" using wrote_trouble [OF same_view_wrote [OF 1(2)]] by (simp add: t trouble_def)
      then have "source_answer env s mode p n n' e"
        using 2(3) known by (auto simp: source_answer_def destination_answer_def split: move_error.split)
      then have "move_outcome env s (q @ [n]) (q @ [n']) mode (s2\<lparr>wt_locks := wt_locks s\<rparr>) (Inl e)"
        using rel(2) destination_outcome [OF shape p, of mode n' e "s2\<lparr>wt_locks := wt_locks s\<rparr>" "q @ [n]"]
        by (cases e) (auto simp: source_answer_def wrote_def move_outcome_def paths_at [OF shape p])
      then show ?case using start rel(1) wrote_settled [OF rel(2)] by (auto simp: run)
    qed
  next
    case (2 s1 f i)
    then have "q @ [n] \<notin> fst ` ?P" using paths_at(2) [OF shape, of q i n] by (simp add: link_iff)
    then have "move_outcome env s (q @ [n]) (q @ [n']) mode s1 (Inl MoveSourceNotFound)"
      using 2(2) by (simp add: move_outcome_def same_view_def)
    then show ?thesis using 2(1) [unfolded same_path] wrote_settled [OF same_view_wrote [OF 2(2)]] by (auto simp: run)
  next
    case (3 s1)
    then have "q @ [n] \<notin> fst ` ?P" by (force simp: paths_child)
    then have "move_outcome env s (q @ [n]) (q @ [n']) mode s1 (Inl MoveSourceNotFound)"
      using 3(2) by (simp add: move_outcome_def same_view_def)
    then show ?thesis using 3(1) [unfolded same_path] wrote_settled [OF same_view_wrote [OF 3(2)]] by (auto simp: run)
  next
    case (4 s1 e)
    then have "move_outcome env s (q @ [n]) (q @ [n']) mode s1 (Inl (MoveAccess e))" by (simp add: move_outcome_def same_view_def)
    then show ?thesis using 4(1) [unfolded same_path] wrote_settled [OF same_view_wrote [OF 4(2)]] by (auto simp: run)
  qed
qed

end
