(* ===== verification/Tree_Move_Far.thy ===== *)
theory Tree_Move_Far
  imports Tree_Move_Entry
begin

text \<open>
  The move of an entry to another folder, over the view: the section that holds the locks of a move, and the operation
  as a whole, within a folder or between two.
\<close>

lemma reparented_section:
  assumes view: "same_view env s s1" and t: "t = s1\<lparr>wt_locks := wt_locks s @ guarded u\<rparr>" and run: "m t = Some (s2, r)" "wrote env t s2 M"
    and free: "lock_find (wt_locks s) (rr_dst_parent_guard u) = None" "lock_find (wt_locks s) (rr_src_parent_guard u) = None"
      "lock_find (wt_locks s) (rr_src_child_guard u) = None" "rr_dst_child_guard u = None"
    and ids: "rr_dst_parent_guard u \<noteq> rr_src_parent_guard u" "rr_dst_parent_guard u \<noteq> rr_src_child_guard u" "rr_src_parent_guard u \<noteq> rr_src_child_guard u"
  shows "releasing_reparenting u m t = Some (s2\<lparr>wt_locks := wt_locks s\<rparr>, r)" "wrote env s (s2\<lparr>wt_locks := wt_locks s\<rparr>) M"
proof -
  note same = same_view_wrote [OF view]
  have "wt_locks s2 = wt_locks s @ [(rr_dst_parent_guard u, LockTaken), (rr_src_parent_guard u, LockTaken), (rr_src_child_guard u, LockTaken)]"
    using wrote_locks [OF run(2)] by (simp add: t guarded_def)
  note rel = drop_three(1-3) [OF free(1-3) ids this]
  show "releasing_reparenting u m t = Some (s2\<lparr>wt_locks := wt_locks s\<rparr>, r)"
    using run(1) free(4) by (simp add: releasing_reparenting_def rel release_maybe_def)
  from wrote_trans [OF same wrote_locked [OF run(2) [unfolded t]]] wrote_locks [OF same]
  show "wrote env s (s2\<lparr>wt_locks := wt_locks s\<rparr>) M" by simp
qed

lemma reparent_refused_outcome:
  assumes e: "reparent_answer (tree_known env s) (wt_realm_id s) q n q' x e \<or> trouble env s \<and> (\<exists>a. e = ReparentAccess a)"
    and x: "x = (if mode = Exchange then Some n' else None)" and view: "tree_known env s' = tree_known env s"
  shows "move_outcome env s (q @ [n]) (q' @ [n']) mode s' (Inl (move_error_of_reparent e))"
proof -
  have "q' @ [n'] \<notin> fst ` tree_paths (tree_known env s) (wt_realm_id s)" if "no_folder_at (tree_known env s) (wt_realm_id s) q'"
    using that by (force simp: no_folder_at_def paths_child link_iff)
  then show ?thesis using e x view
    by (cases e) (auto simp: move_outcome_def Let_def reparent_answer_def split: if_split_asm)
qed

lemma move_between_folders_view:
  assumes env: "tree_env_ok env (wt_realm_id s)" and ok: "tree_ok env s" and may: "te_can_write env"
    and q: "fp_parts src = q @ [n]" "fp_parts dst = q' @ [n']" "q \<noteq> q'" and m: "movable env s (q @ [n]) (q' @ [n']) mode"
  shows "\<exists>s' r. move_entry env src dst mode s = Some (s', r) \<and> settled env s s' \<and> move_outcome env s (q @ [n]) (q' @ [n']) mode s' r"
proof -
  let ?T = "tree_known env s" and ?r = "wt_realm_id s"
  let ?P = "tree_paths ?T ?r"
  obtain x where x: "x = (if mode = Exchange then Some n' else None)" by blast
  note shape = tree_known_shape [OF env ok]
  have mv: "move_unlocked env s q n q' x" "not_listed ?T ?r (q @ [n]) q' n'" "mode = Exchange \<longrightarrow> not_listed ?T ?r (q' @ [n']) q n"
    "\<not> strict_prefix (q @ [n]) (q' @ [n'])" "mode = Exchange \<longrightarrow> \<not> strict_prefix (q' @ [n']) (q @ [n])"
    using m q(3) x by (auto simp: movable_def)
  have far: "apart q n q' x" using mv(4,5) q(3) x by (auto simp: apart_def strict_prefix_def)
  have paths: "src\<lparr>fp_parts := q\<rparr> \<noteq> dst\<lparr>fp_parts := q'\<rparr>" using q(3) by (cases src; cases dst) simp
  note run = move_entry_def Let_def fp_into_parent_def op_run send_outbound_sync_needed_def q may paths move_across_folders_def x [symmetric]
  obtain s1 o' where start: "resolve_path_for_reparenting env (src\<lparr>fp_parts := q\<rparr>) n (dst\<lparr>fp_parts := q'\<rparr>) x s = Some o'"
    "same_view env s s1" "reparent_outcome env s q n q' x s1 o'"
    using reparent_view [OF env ok, of "src\<lparr>fp_parts := q\<rparr>" n "dst\<lparr>fp_parts := q'\<rparr>" x] far mv(1) by auto
  consider (go) u where "o' = (s1\<lparr>wt_locks := wt_locks s @ guarded u\<rparr>, Inr u)" "reparent_result ?T ?r q n q' x u"
    | (no) e where "o' = (s1, Inl e)" "reparent_answer ?T ?r q n q' x e \<or> trouble env s \<and> (\<exists>a. e = ReparentAccess a)"
    using start(3) unfolding reparent_outcome_def by blast
  then show ?thesis
  proof cases
    case (no e)
    then have "move_outcome env s (q @ [n]) (q' @ [n']) mode s1 (Inl (move_error_of_reparent e))"
      using reparent_refused_outcome [OF _ x] start(2) by (auto simp: same_view_def)
    then show ?thesis using start(1) no(1) wrote_settled [OF same_view_wrote [OF start(2)]] by (auto simp: run)
  next
    case (go u)
    let ?p = "rr_src_parent_guard u" and ?d = "rr_dst_parent_guard u" and ?c = "rr_src_child_guard u"
    have at: "(q, ?p) \<in> ?P" "link ?T ?p n ?c" "(q', ?d) \<in> ?P" "rr_dst_child_guard u = None" using go(2) by (simp_all add: reparent_result_def)
    have c: "(q @ [n], ?c) \<in> ?P" using paths_at(1) [OF shape at(1)] at(2) by blast
    have free: "lock_find (wt_locks s) i = None" if "w \<in> {q, q @ [n], q'}" "(w, i) \<in> ?P" for w i
      using mv(1) that unlocked_path [OF shape _ that(2)] unfolding move_unlocked_def by blast
    have ids: "?d \<noteq> ?p" "?d \<noteq> ?c" "?p \<noteq> ?c"
      using moved_apart(1) [OF shape far at(1,3,2)] paths_unique [OF shape at(1), of q'] at(3) q(3) by auto
    obtain t where t: "t = s1\<lparr>wt_locks := wt_locks s @ guarded u\<rparr>" by blast
    have "tree_env_ok env (wt_realm_id t)" "tree_ok env t" and known: "?T = tree_known env t" "?r = wt_realm_id t"
      using env start(2) by (simp_all add: t same_view_def)
    note moves = move_across_view [OF this x far go(2) mv(2,3)]
    have "lock_find (wt_locks s) ?d = None" "lock_find (wt_locks s) ?p = None" "lock_find (wt_locks s) ?c = None"
      using free at(1,3) c by blast+
    note released = reparented_section [OF start(2) t _ _ this at(4) ids, of "move_entry_different_parents env u n n' mode"]
    show ?thesis
    proof (rule moves, goal_cases)
      case (1 s2 M)
      note rel = released [OF 1(1,2)]
      have "\<not> prefix (q @ [n]) q'" using far by (simp add: apart_def)
      have "mode = Exchange \<Longrightarrow> \<not> prefix (q @ [n]) (q' @ [n']) \<and> \<not> prefix (q' @ [n']) (q @ [n])"
        using mv(4,5) q(3) by (auto simp: strict_prefix_def)
      then have "tree_paths (?T ++ M) ?r = (if mode = Exchange then exchanged_paths (q @ [n]) (q' @ [n']) ?P else moved_paths (q @ [n]) (q' @ [n']) ?P)"
        using move_paths [OF shape at(1,2,3) \<open>\<not> prefix (q @ [n]) q'\<close>, of "?T ++ M" n'] exchange_paths [OF shape at(1,2,3), of n' _ "?T ++ M"] 1(6,7) by auto
      moreover have "q @ [n] \<in> fst ` ?P" using c by force
      moreover have "(?T ++ M) j = ?T j" if "\<forall>w \<in> {q @ [n], q, q' @ [n'], q'}. (w, j) \<notin> ?P" for j
      proof -
        have "j \<notin> dom M" using that 1(4) at(1,3) c paths_at(1) [OF shape at(3), of n' j] by auto
        then show ?thesis by (auto simp: map_add_def split: option.split)
      qed
      moreover have "kept (te_now env) (?T j) ((?T ++ M) j)" if "(q, j) \<notin> ?P" "(q', j) \<notin> ?P" for j using 1(5) that at(1,3) by metis
      ultimately have "move_outcome env s (q @ [n]) (q' @ [n']) mode (s2\<lparr>wt_locks := wt_locks s, wt_events := e\<rparr>) (Inr ())" for e
        using rel(2) taken_path [OF shape at(3) 1(3)] may by (simp add: move_outcome_def wrote_def)
      then show ?case using start(1) go(1) [folded t] rel(1) wrote_settled [OF rel(2)] by (auto simp: run settled_def)
    next
      case (2 s2 e)
      note rel = released [OF 2(1,2)]
      have "trouble env t \<Longrightarrow> trouble env s" using wrote_trouble [OF same_view_wrote [OF start(2)]] by (simp add: t trouble_def)
      then have "destination_answer env s mode ?d n' e"
        using 2(3) known by (auto simp: destination_answer_def split: move_error.split)
      from destination_outcome [OF shape at(3) this, of "s2\<lparr>wt_locks := wt_locks s\<rparr>" "q @ [n]"] rel(2)
      have "move_outcome env s (q @ [n]) (q' @ [n']) mode (s2\<lparr>wt_locks := wt_locks s\<rparr>) (Inl e)" by (simp add: wrote_def)
      then show ?case using start(1) go(1) [folded t] rel(1) wrote_settled [OF rel(2)] by (auto simp: run)
    qed
  qed
qed

lemma move_entry_view:
  assumes env: "tree_env_ok env (wt_realm_id s)" and ok: "tree_ok env s" and m: "movable env s (fp_parts src) (fp_parts dst) mode"
  shows "\<exists>s' r. move_entry env src dst mode s = Some (s', r) \<and> settled env s s' \<and> move_outcome env s (fp_parts src) (fp_parts dst) mode s' r"
proof -
  have self: "settled env s s" using ok by (simp add: settled_def)
  consider (readonly) "\<not> te_can_write env" | (root) "te_can_write env" "fp_parts src = [] \<or> fp_parts dst = []"
    | (entry) q n q' n' where "te_can_write env" "fp_parts src = q @ [n]" "fp_parts dst = q' @ [n']" by (metis rev_exhaust)
  then show ?thesis
  proof cases
    case readonly
    with self show ?thesis by (simp add: move_entry_def op_run move_outcome_def)
  next
    case root
    with self show ?thesis by (auto simp: move_entry_def op_run move_outcome_def fp_into_parent_def Let_def)
  next
    case (entry q n q' n')
    show ?thesis
    proof (cases "q = q'")
      case True
      then show ?thesis using move_in_folder_view [OF env ok entry(1,2)] entry(3) m entry(2) by (simp add: movable_def)
    next
      case False
      then show ?thesis using move_between_folders_view [OF env ok entry False] m entry(2,3) by simp
    qed
  qed
qed

end
