(* ===== verification/Tree_Retrieval.thy ===== *)
theory Tree_Retrieval
  imports Tree_Writes
begin

text \<open>From an id to its path, over the view: the walk to the root finds the path that leads to the entry.\<close>

subsection \<open>One step of a path\<close>

lemma tree_walk_append:
  "tree_walk T (m, c) (q @ q') = Option.bind (tree_walk T (m, c) q) (\<lambda>x. tree_walk T x q')"
proof (induction q arbitrary: m c)
  case (Cons n q)
  then show ?case by (cases m) (auto simp: Option.bind_assoc split: bind_split)
qed simp

lemma resolve_step:
  assumes shape: "tree_shape T r" and p: "(q, p) \<in> tree_paths T r" "link T p n i"
  obtains f c m where "tree_resolve T r q = Some (LocalFolder f, c)" "T p = Some (LocalFolder f)" "T i = Some m" "lc_parent m = p"
    "hm_get (ld_children f) n = Some i" "tree_resolve T r (q @ [n]) = Some (m, child_confinement f c i)"
proof -
  obtain f m where f: "T p = Some (LocalFolder f)" "hm_get (ld_children f) n = Some i" "T i = Some m" "lc_parent m = p"
    using p(2) by (auto simp: link_iff)
  obtain c where c: "tree_resolve T r q = Some (LocalFolder f, c)" using tree_resolve_paths(3) [OF shape p(1)] f(1) by auto
  have "tree_resolve T r (q @ [n]) = tree_walk T (LocalFolder f, c) [n]"
    using c by (auto simp: tree_resolve_def tree_walk_append split: bind_split)
  then show thesis using that [OF c f(1,3,4,2)] f shape_id [OF shape f(1)] by simp
qed

definition outer :: "path_confinement_point \<Rightarrow> path_confinement_point \<Rightarrow> path_confinement_point" where
  "outer over c = (case over of NotConfined \<Rightarrow> c | Confined i \<Rightarrow> Confined i)"

lemma outer_step:
  "outer (child_confinement f over i) c = outer over (if i \<in> set (ld_local_confinement_points f) then Confined (fo_id (ld_base f)) else c)"
  by (auto simp: outer_def child_confinement_def split: path_confinement_point.split)

lemma child_name_found:
  assumes h: "hash_iter_ok h" and ok: "children_ok (ld_children f)" and n: "hm_get (ld_children f) n = Some i"
  shows "child_name_of h f i = Some n"
proof -
  have wf: "hm_wf (ld_children f)" using ok by (simp add: children_ok_def)
  have set: "(k, j) \<in> set (hi_children h (ld_children f)) \<longleftrightarrow> hm_get (ld_children f) k = Some j" for k j
    using hash_iter_children [OF h wf] hm_in_set by metis
  have "find (\<lambda>(_, j). j = i) (hi_children h (ld_children f)) \<noteq> None"
    using set [of n i] n by (auto simp: find_None_iff)
  then obtain k j where kj: "find (\<lambda>(_, j). j = i) (hi_children h (ld_children f)) = Some (k, j)" by auto
  then have "(k, j) \<in> set (hi_children h (ld_children f))" "j = i"
    by (auto simp: find_Some_iff in_set_conv_nth)
  then have "k = n" using set n ok unfolding children_ok_def unique_ids_def by blast
  with kj show ?thesis by (simp add: child_name_of_def)
qed

subsection \<open>The walk to the root\<close>

text \<open>The ids on a path, from the entry up to the root.\<close>

definition upward :: "(vlob_id \<Rightarrow> local_child_manifest option) \<Rightarrow> vlob_id \<Rightarrow> entry_name list \<Rightarrow> vlob_id list \<Rightarrow> bool" where
  "upward T r q ids \<longleftrightarrow> length ids = Suc (length q) \<and> (\<forall>k \<le> length q. (take k q, ids ! (length q - k)) \<in> tree_paths T r)"

lemma upward_step: "upward T r q ids \<Longrightarrow> (q @ [n], i) \<in> tree_paths T r \<Longrightarrow> upward T r (q @ [n]) (i # ids)"
  by (auto simp: upward_def le_Suc_eq Suc_diff_le)

lemma retrieval_loop_view:
  assumes shape: "tree_shape T r" and h: "hash_iter_ok h"
    and cache: "\<And>k m. hm_get (mh_manifests c) k = Some m \<Longrightarrow> T k = Some m" and root: "mh_root_manifest_id c = r"
    and i: "(q, i) \<in> tree_paths T r" "T i = Some m" "lc_parent m = p" "tree_resolve T r q = Some (m, over)"
    and last: "not_found \<noteq> Some e" and seen: "\<forall>k \<in> set seen. \<exists>w. (w, k) \<in> tree_paths T r \<and> length q \<le> length w"
  obtains (arrived) ids where "retrieval_loop h c e not_found i p seen parts chain conf = WalkRoot (parts @ rev q) (outer over conf) (chain @ ids)"
      "upward T r q (i # ids)"
    | (needs) k w where "retrieval_loop h c e not_found i p seen parts chain conf = WalkNeeds k" "(w, k) \<in> tree_paths T r"
      "hm_get (mh_manifests c) k = None" "prefix w q"
  using i seen
proof (induction q arbitrary: i m p over seen parts chain conf thesis rule: rev_induct)
  case Nil
  then have "i = r" by (simp add: paths_root)
  moreover have "over = NotConfined"
    using Nil.prems(3-6) by (auto simp: tree_resolve_def elim!: bind_SomeE)
  ultimately show ?case using root Nil.prems(3)
    by (intro Nil.prems(1) [of "[]"]) (simp_all add: retrieval_loop.simps [of h c e not_found r] outer_def upward_def paths_root)
next
  case (snoc n q)
  obtain p' where p': "(q, p') \<in> tree_paths T r" "link T p' n i" using snoc.prems(3) by (auto simp: paths_child)
  obtain f up m' where f: "tree_resolve T r q = Some (LocalFolder f, up)" "T p' = Some (LocalFolder f)" "T i = Some m'" "lc_parent m' = p'"
    "hm_get (ld_children f) n = Some i" "tree_resolve T r (q @ [n]) = Some (m', child_confinement f up i)"
    by (rule resolve_step [OF shape p'])
  have eq: "p' = p" "m' = m" "over = child_confinement f up i" using f snoc.prems(4-6) by auto
  have ir: "i \<noteq> r" using link_tree_shape [OF shape] p'(2) by (auto simp: link_tree_def)
  show ?case
  proof (cases "hm_get (mh_manifests c) p")
    case None
    then show ?thesis using p'(1) eq ir root last
      by (intro snoc.prems(2) [of p q]) (simp_all add: retrieval_loop.simps [of h c e not_found i])
  next
    case (Some x)
    then have x: "x = LocalFolder f" using cache f(2) eq by fastforce
    have name: "child_name_of h f i = Some n"
      using child_name_found [OF h _ f(5)] shape f(2) unfolding tree_shape_def by blast
    have fresh: "p \<notin> set seen"
    proof
      assume "p \<in> set seen"
      then obtain w where "(w, p) \<in> tree_paths T r" "length (q @ [n]) \<le> length w" using snoc.prems(7) by blast
      with paths_unique [OF shape p'(1)] eq show False by fastforce
    qed
    have id: "fo_id (ld_base f) = p" using shape_id [OF shape f(2)] eq by simp
    let ?conf = "if i \<in> set (ld_local_confinement_points f) then Confined p else conf"
    have step: "retrieval_loop h c e not_found i p seen parts chain conf =
        retrieval_loop h c e not_found p (ld_parent f) (p # seen) (parts @ [n]) (chain @ [p]) ?conf"
      using Some x name fresh ir root by (subst retrieval_loop.simps) simp
    have seen': "\<forall>k \<in> set (p # seen). \<exists>w. (w, k) \<in> tree_paths T r \<and> length q \<le> length w"
      using snoc.prems(7) p'(1) eq by fastforce
    show ?thesis
    proof (rule snoc.IH [OF _ _ _ _ _ f(1) seen', of p "ld_parent f" "parts @ [n]" "chain @ [p]" ?conf], goal_cases)
      case (1 ids)
      show ?case by (rule snoc.prems(1) [of "p # ids"])
        (use 1 step outer_step [of f up i conf] eq id upward_step [OF 1(2) snoc.prems(3)] in \<open>simp_all\<close>)
    next
      case (2 k w)
      then show ?case using step by (intro snoc.prems(2) [of k w]) simp_all
    qed (use p'(1) f(2) eq in simp_all)
  qed
qed

subsection \<open>The loop\<close>

definition uncached :: "tree_env \<Rightarrow> workspace_tree \<Rightarrow> entry_name list \<Rightarrow> entry_name list set" where
  "uncached env s q = {w. prefix w q \<and> (\<exists>k. (w, k) \<in> tree_paths (tree_known env s) (wt_realm_id s) \<and> wt_get s k = None)}"

lemma finite_uncached: "finite (uncached env s q)"
proof -
  have "uncached env s q \<subseteq> set (prefixes q)" by (auto simp: uncached_def in_set_prefixes)
  then show ?thesis by (rule finite_subset) simp
qed

lemma uncached_less:
  assumes view: "same_view env s s1" and k: "(w, k) \<in> tree_paths (tree_known env s) (wt_realm_id s)" "prefix w q" "wt_get s k = None"
    "wt_get s1 k \<noteq> None" and shape: "tree_shape (tree_known env s) (wt_realm_id s)"
  shows "card (uncached env s1 q) < card (uncached env s q)"
proof (rule psubset_card_mono [OF finite_uncached])
  have v: "tree_known env s1 = tree_known env s" "wt_realm_id s1 = wt_realm_id s" using view by (simp_all add: same_view_def)
  have "wt_get s j = None" if "wt_get s1 j = None" for j
  proof (cases "wt_get s j")
    case (Some m)
    then have "wt_get s1 j = Some m" using view unfolding same_view_def by blast
    with that show ?thesis by simp
  qed
  then have "uncached env s1 q \<subseteq> uncached env s q" unfolding uncached_def v by blast
  moreover have "w \<in> uncached env s q" unfolding uncached_def using k(1-3) by blast
  moreover have "w \<notin> uncached env s1 q"
  proof
    assume "w \<in> uncached env s1 q"
    then obtain j where "(w, j) \<in> tree_paths (tree_known env s) (wt_realm_id s)" "wt_get s1 j = None" unfolding uncached_def v by blast
    with paths_fun [OF shape k(1)] k(4) show False by metis
  qed
  ultimately show "uncached env s1 q \<subset> uncached env s q" by blast
qed

lemma prefix_path:
  assumes "(q, i) \<in> tree_paths T r" "prefix w q" obtains k where "(w, k) \<in> tree_paths T r"
  using assms by (auto simp: prefix_def tree_paths_iff leads_append)

lemma look_retrieval:
  assumes env: "tree_env_ok env (wt_realm_id s)" and ok: "tree_ok env s"
    and q: "(q, i) \<in> tree_paths (tree_known env s) (wt_realm_id s)"
  obtains (found) m c chain where "cache_only_retrieve_path_from_id (te_iter env) event i False None s =
        Some (s, RetrievalDone (EntryReachable m (fp_from_parts q) c chain) None)"
      "tree_resolve (tree_known env s) (wt_realm_id s) q = Some (m, c)" "upward (tree_known env s) (wt_realm_id s) q (rev chain)"
    | (needs) k w where "cache_only_retrieve_path_from_id (te_iter env) event i False None s = Some (s, RetrievalNeedPopulateCache k)"
      "(w, k) \<in> tree_paths (tree_known env s) (wt_realm_id s)" "prefix w q" "wt_get s k = None"
proof -
  let ?T = "tree_known env s" and ?r = "wt_realm_id s"
  note shape = tree_known_shape [OF env ok]
  have h: "hash_iter_ok (te_iter env)" using env by (simp add: tree_env_ok_def)
  obtain root where root: "mh_root_manifest (wt_manifests s) = Some root" by (rule tree_root [OF ok])
  have id: "mh_root_manifest_id (wt_manifests s) = ?r" using ok by (simp add: tree_ok_def)
  note defs = cache_only_retrieve_path_from_id_def root retrieval_end_def
  show thesis
  proof (cases "wt_get s i")
    case None
    with q show thesis by (intro needs [of i q]) (simp_all add: defs)
  next
    case (Some m)
    note T = cached_known [OF Some, of env]
    obtain c where c: "tree_resolve ?T ?r q = Some (m, c)" using tree_resolve_paths(3) [OF shape q] T by auto
    have cache: "hm_get (mh_manifests (wt_manifests s)) k = Some x \<Longrightarrow> ?T k = Some x" for k x
      using cached_known [of s k x env] by (simp add: wt_get_def)
    have seen: "\<forall>k \<in> set [i]. \<exists>w. (w, k) \<in> tree_paths ?T ?r \<and> length q \<le> length w" using q by auto
    have no: "None \<noteq> Some i" by simp
    show thesis
    proof (rule retrieval_loop_view [OF shape h cache id q T refl c no seen, of "[]" "[i]" NotConfined], goal_cases)
      case (2 ids)
      have "outer c NotConfined = c" by (simp add: outer_def split: path_confinement_point.split)
      with 2 Some show thesis by (intro found [of m c "rev (i # ids)"]) (simp_all add: defs c)
    next
      case (3 k w)
      with Some show thesis by (intro needs [of k w]) (simp_all add: defs wt_get_def)
    qed
  qed
qed

lemma retrieve_view:
  assumes env: "tree_env_ok env (wt_realm_id s)" and ok: "tree_ok env s"
    and q: "(q, i) \<in> tree_paths (tree_known env s) (wt_realm_id s)"
  shows "\<exists>s'. same_view env s s' \<and>
    ((\<exists>m c chain. retrieve_path_loop env i None s = Some (s', Inr (EntryReachable m (fp_from_parts q) c chain)) \<and>
        tree_resolve (tree_known env s) (wt_realm_id s) q = Some (m, c) \<and> upward (tree_known env s) (wt_realm_id s) q (rev chain)) \<or>
     trouble env s \<and> (\<exists>e. retrieve_path_loop env i None s = Some (s', Inl e)))"
  using assms
proof (induction "card (uncached env s q)" arbitrary: s rule: less_induct)
  case (less s)
  note env = less.prems(1) and ok = less.prems(2)
  note shape = tree_known_shape [OF env ok]
  note unfold = retrieve_path_loop.simps [of env i None s]
  show ?case
  proof (rule look_retrieval [OF less.prems, of "te_event env"], goal_cases)
    case (1 m c chain)
    then have "retrieve_path_loop env i None s = Some (s, Inr (EntryReachable m (fp_from_parts q) c chain))" by (simp add: unfold)
    with 1(2,3) same_view_refl [OF ok] show ?case by blast
  next
    case (2 k w)
    note need = 2
    have known: "tree_known env s k \<noteq> None" using tree_resolve_paths(3) [OF shape 2(2)] by auto
    show ?case
    proof (cases rule: populate_view [OF env ok 2(4)])
      case (1 s1 m)
      then have run: "retrieve_path_loop env i None s = retrieve_path_loop env i None s1" using need(1) by (simp add: unfold)
      have v: "tree_known env s1 = tree_known env s" "wt_realm_id s1 = wt_realm_id s" using 1(2) by (simp_all add: same_view_def)
      have "card (uncached env s1 q) < card (uncached env s q)"
        by (rule uncached_less [OF 1(2) need(2,3,4) _ shape]) (use 1(3) in simp)
      from less.hyps [OF this same_view_env [OF 1(2) env] same_view_ok [OF 1(2)]] less.prems(3)
      obtain s' where s': "same_view env s1 s'" "(\<exists>m c chain. retrieve_path_loop env i None s1 = Some (s', Inr (EntryReachable m (fp_from_parts q) c chain)) \<and>
          tree_resolve (tree_known env s) (wt_realm_id s) q = Some (m, c) \<and> upward (tree_known env s) (wt_realm_id s) q (rev chain)) \<or>
          trouble env s1 \<and> (\<exists>e. retrieve_path_loop env i None s1 = Some (s', Inl e))" unfolding v by blast
      show ?thesis using same_view_trans [OF 1(2) s'(1)] s'(2) same_view_trouble [OF 1(2)] unfolding run by blast
    next
      case (2 s1)
      with known show ?thesis by simp
    next
      case (3 s1 e)
      then have "retrieve_path_loop env i None s = Some (s1, Inl e)" using need(1) by (simp add: unfold)
      moreover have "trouble env s" using 3(3) by (auto simp: trouble_def)
      ultimately show ?thesis using 3(2) by blast
    qed
  qed
qed

lemma retrieve_missing:
  assumes env: "tree_env_ok env (wt_realm_id s)" and ok: "tree_ok env s" and none: "tree_known env s i = None"
  shows "\<exists>s'. same_view env s s' \<and> (retrieve_path_from_id env i s = Some (s', Inr EntryMissing) \<or>
    trouble env s \<and> (\<exists>e. retrieve_path_from_id env i s = Some (s', Inl e)))"
proof -
  have miss: "wt_get s i = None" using none by (auto simp: tree_known_def split: option.split_asm)
  have look: "cache_only_retrieve_path_from_id (te_iter env) (te_event env) i False x s1 =
      Some (if x = Some i then (s1, RetrievalDone EntryMissing None) else (s1, RetrievalNeedPopulateCache i))"
    if s1: "tree_ok env s1" "wt_get s1 i = None" for x s1
  proof -
    obtain root where "mh_root_manifest (wt_manifests s1) = Some root" by (rule tree_root [OF s1(1)])
    with s1(2) show ?thesis by (simp add: cache_only_retrieve_path_from_id_def retrieval_end_def)
  qed
  note unfold = retrieve_path_loop.simps [of env i]
  show ?thesis
  proof (cases rule: populate_view [OF env ok miss])
    case (1 s1 m)
    with none show ?thesis by simp
  next
    case (2 s1)
    have "retrieve_path_loop env i None s = retrieve_path_loop env i (Some i) s1"
      using look [OF ok miss, of None] 2(1) by (subst unfold) simp
    also have "\<dots> = Some (s1, Inr EntryMissing)"
      using look [OF same_view_ok [OF 2(2)], of "Some i"] 2(3) miss by (subst unfold) simp
    finally show ?thesis using 2(2) unfolding retrieve_path_from_id_def by blast
  next
    case (3 s1 e)
    then have "retrieve_path_loop env i None s = Some (s1, Inl e)" using look [OF ok miss, of None] by (subst unfold) simp
    moreover have "trouble env s" using 3(3) by (auto simp: trouble_def)
    ultimately show ?thesis using 3(2) unfolding retrieve_path_from_id_def by blast
  qed
qed

end
