(* ===== verification/Tree_System.thy ===== *)
theory Tree_System
  imports Tree_Remove Tree_Move_Far Tree_Retrieval
begin

text \<open>
  The operations on the tree of a workspace under one contract, \<open>tree_operation\<close>: an operation that is ready returns,
  keeps the invariant of the tree and releases the locks it has taken. The system of operations in any order, and what
  resolving a path says about its confinement.
\<close>

subsection \<open>The contract\<close>

locale tree_operation =
  fixes run :: "tree_env \<Rightarrow> workspace_tree \<Rightarrow> (workspace_tree \<times> ('e + 'a)) option"
    and ready :: "tree_env \<Rightarrow> workspace_tree \<Rightarrow> bool"
  assumes settles: "tree_env_ok env (wt_realm_id s) \<Longrightarrow> tree_ok env s \<Longrightarrow> ready env s \<Longrightarrow>
    \<exists>s' r. run env s = Some (s', r) \<and> settled env s s'"
begin

lemma keeps:
  assumes "tree_env_ok env (wt_realm_id s)" "tree_ok env s" "ready env s" "run env s = Some (s', r)"
  shows "settled env s s'" "tree_env_ok env (wt_realm_id s')" "tree_shape (tree_known env s') (wt_realm_id s')"
proof -
  show st: "settled env s s'" using settles [OF assms(1-3)] assms(4) by auto
  then show env': "tree_env_ok env (wt_realm_id s')" using assms(1) by (simp add: settled_def)
  show "tree_shape (tree_known env s') (wt_realm_id s')" using tree_known_shape [OF env'] st by (simp add: settled_def)
qed

end

text \<open>An id that no manifest has and no folder lists.\<close>

definition fresh_id :: "tree_env \<Rightarrow> workspace_tree \<Rightarrow> vlob_id \<Rightarrow> bool" where
  "fresh_id env s new \<longleftrightarrow> tree_known env s new = None \<and> (\<forall>p n. children_in (tree_known env s) p n \<noteq> Some new)"

lemma new_file_ok: "i \<noteq> p \<Longrightarrow> lf_check_data_integrity (lf_new i a p t) = Some (Inr ())"
  by (simp add: lf_check_data_integrity_def lf_new_def ensure_def)

lemma fresh_file:
  "fresh_id env s new \<Longrightarrow> fresh_entry env s (\<lambda>p. LocalFile (lf_new new a p t)) new"
  by (auto simp: fresh_id_def fresh_entry_def child_ok_def new_file_ok) (simp_all add: lf_new_def)

lemma fresh_folder:
  "fresh_id env s new \<Longrightarrow> fresh_entry env s (\<lambda>p. LocalFolder (ld_new new a p t)) new"
  by (auto simp: fresh_id_def fresh_entry_def child_ok_def ld_check_data_integrity_as_child_def ld_check_data_integrity_def
      ensure_def children_ok_def unique_ids_def ld_new_def)

lemma same_view_settled: "same_view env s s' \<Longrightarrow> settled env s s'"
  by (simp add: same_view_def settled_def)

lemma resolve_path_view:
  assumes env: "tree_env_ok env (wt_realm_id s)" and ok: "tree_ok env s"
  shows "\<exists>s' r. resolve_path env path s = Some (s', r) \<and> same_view env s s' \<and>
    (r = (case tree_resolve (tree_known env s) (wt_realm_id s) (fp_parts path) of None \<Rightarrow> Inl ResEntryNotFound | Some x \<Rightarrow> Inr x) \<or>
     trouble env s \<and> (\<exists>e. r = Inl (ResAccess e)))"
proof -
  obtain s' where s': "same_view env s s'"
    "resolve_path_maybe_lock_for_update env path False s =
       Some (resolved_with False s' (tree_resolve (tree_known env s) (wt_realm_id s) (fp_parts path))) \<or>
     trouble env s \<and> (\<exists>e. resolve_path_maybe_lock_for_update env path False s = Some (s', Inl (ResAccess e)))"
    using resolve_view [OF env ok, of False path] by auto
  from s'(2) show ?thesis
  proof
    assume run: "resolve_path_maybe_lock_for_update env path False s =
       Some (resolved_with False s' (tree_resolve (tree_known env s) (wt_realm_id s) (fp_parts path)))"
    show ?thesis
      by (rule exI [of _ s'], rule exI [of _ "case tree_resolve (tree_known env s) (wt_realm_id s) (fp_parts path) of
            None \<Rightarrow> Inl ResEntryNotFound | Some x \<Rightarrow> Inr x"])
        (use run s'(1) in \<open>auto simp: resolve_path_def op_run resolved_with_def split: option.split\<close>)
  next
    assume "trouble env s \<and> (\<exists>e. resolve_path_maybe_lock_for_update env path False s = Some (s', Inl (ResAccess e)))"
    with s'(1) show ?thesis by (auto simp: resolve_path_def op_run)
  qed
qed

interpretation resolving: tree_operation "\<lambda>env. resolve_path env path" "\<lambda>env s. True" for path
  by unfold_locales (use resolve_path_view same_view_settled in blast)

interpretation creating_file: tree_operation "\<lambda>env. create_file env new path"
  "\<lambda>env s. fresh_id env s new \<and> parent_unlocked env s (fp_parts path)" for new path
  by unfold_locales (unfold create_file_def, use create_entry_view [OF _ _ fresh_file] in blast)

interpretation creating_folder: tree_operation "\<lambda>env. create_folder env new path"
  "\<lambda>env s. fresh_id env s new \<and> parent_unlocked env s (fp_parts path)" for new path
  by unfold_locales (unfold create_folder_def, use create_entry_view [OF _ _ fresh_folder] in blast)

interpretation removing: tree_operation "\<lambda>env. remove_entry env path expect"
  "\<lambda>env s. parent_unlocked env s (fp_parts path)" for path expect
  by unfold_locales (use remove_entry_view in blast)

interpretation moving: tree_operation "\<lambda>env. move_entry env src dst mode"
  "\<lambda>env s. movable env s (fp_parts src) (fp_parts dst) mode" for src dst mode
  by unfold_locales (use move_entry_view in blast)

subsection \<open>The system\<close>

text \<open>
  One operation after another, each whenever it is ready; which of the next calls to the storage fail may change at any
  time.
\<close>

inductive tree_step :: "tree_env \<Rightarrow> workspace_tree \<Rightarrow> workspace_tree \<Rightarrow> bool" for env where
  new_file: "fresh_id env s new \<Longrightarrow> parent_unlocked env s (fp_parts path) \<Longrightarrow> create_file env new path s = Some (s', r) \<Longrightarrow> tree_step env s s'"
| new_folder: "fresh_id env s new \<Longrightarrow> parent_unlocked env s (fp_parts path) \<Longrightarrow> create_folder env new path s = Some (s', r) \<Longrightarrow> tree_step env s s'"
| remove: "parent_unlocked env s (fp_parts path) \<Longrightarrow> remove_entry env path expect s = Some (s', r) \<Longrightarrow> tree_step env s s'"
| move: "movable env s (fp_parts src) (fp_parts dst) mode \<Longrightarrow> move_entry env src dst mode s = Some (s', r) \<Longrightarrow> tree_step env s s'"
| resolve: "resolve_path env path s = Some (s', r) \<Longrightarrow> tree_step env s s'"
| fault: "tree_step env s (s\<lparr>wt_faults := faults\<rparr>)"

lemma tree_step_settled:
  assumes "tree_step env s s'" "tree_env_ok env (wt_realm_id s)" "tree_ok env s"
  shows "settled env s s'"
  using assms
proof cases
  case (new_file new path r)
  then show ?thesis using creating_file.keeps(1) [OF assms(2,3)] by blast
next
  case (new_folder new path r)
  then show ?thesis using creating_folder.keeps(1) [OF assms(2,3)] by blast
next
  case (remove path expect r)
  then show ?thesis using removing.keeps(1) [OF assms(2,3)] by blast
next
  case (move src dst mode r)
  then show ?thesis using moving.keeps(1) [OF assms(2,3)] by blast
next
  case (resolve path r)
  then show ?thesis using resolving.keeps(1) [OF assms(2,3)] by blast
next
  case (fault faults)
  then show ?thesis using assms(3) by (simp add: settled_def)
qed

lemma tree_steps_settled:
  assumes "(tree_step env)\<^sup>*\<^sup>* s s'" "tree_env_ok env (wt_realm_id s)" "tree_ok env s"
  shows "settled env s s'"
  using assms
proof (induction rule: rtranclp_induct)
  case base
  then show ?case by (simp add: settled_def)
next
  case (step s1 s2)
  then have "settled env s s1" by blast
  moreover from this step.prems have "tree_env_ok env (wt_realm_id s1)" "tree_ok env s1" by (simp_all add: settled_def)
  ultimately show ?case using tree_step_settled [OF step.hyps(2)] by (simp add: settled_def)
qed

subsection \<open>Confinement of a path\<close>

definition confined_link :: "(vlob_id \<Rightarrow> local_child_manifest option) \<Rightarrow> vlob_id \<Rightarrow> entry_name list \<Rightarrow> entry_name \<Rightarrow> vlob_id \<Rightarrow> bool" where
  "confined_link T r w n p \<longleftrightarrow> (\<exists>f i. (w, p) \<in> tree_paths T r \<and> T p = Some (LocalFolder f) \<and> hm_get (ld_children f) n = Some i \<and>
     i \<in> set (ld_local_confinement_points f))"

text \<open>The folder nearest to the root that confines an entry of the path.\<close>

definition confinement_of :: "(vlob_id \<Rightarrow> local_child_manifest option) \<Rightarrow> vlob_id \<Rightarrow> entry_name list \<Rightarrow> path_confinement_point \<Rightarrow> bool" where
  "confinement_of T r q c =
     (case c of
        NotConfined \<Rightarrow> \<forall>w n p. prefix (w @ [n]) q \<longrightarrow> \<not> confined_link T r w n p
      | Confined p \<Rightarrow> \<exists>w n. prefix (w @ [n]) q \<and> confined_link T r w n p \<and>
          (\<forall>w' n' p'. strict_prefix (w' @ [n']) (w @ [n]) \<longrightarrow> \<not> confined_link T r w' n' p'))"

lemma resolve_confinement:
  assumes shape: "tree_shape T r"
  shows "tree_resolve T r q = Some (m, c) \<Longrightarrow> confinement_of T r q c"
proof (induction q arbitrary: m c rule: rev_induct)
  case Nil
  then have "c = NotConfined" by (auto simp: tree_resolve_def split: bind_split_asm)
  then show ?case by (simp add: confinement_of_def)
next
  case (snoc n q)
  have "(q @ [n], lc_id m) \<in> tree_paths T r" using tree_resolve_paths(1) [OF shape snoc.prems] by simp
  then obtain p where p: "(q, p) \<in> tree_paths T r" "link T p n (lc_id m)" by (auto simp: paths_child)
  obtain f d m' where f: "tree_resolve T r q = Some (LocalFolder f, d)" "T p = Some (LocalFolder f)"
    "hm_get (ld_children f) n = Some (lc_id m)" "tree_resolve T r (q @ [n]) = Some (m', child_confinement f d (lc_id m))"
    using resolve_step [OF shape p] by metis
  note IH = snoc.IH [OF f(1)]
  have id: "fo_id (ld_base f) = p" using shape_id [OF shape f(2)] by simp
  have at: "confined_link T r q n k \<longleftrightarrow> k = p \<and> lc_id m \<in> set (ld_local_confinement_points f)" for k
  proof
    assume "confined_link T r q n k"
    moreover from this have "k = p" using paths_fun [OF shape p(1)] by (auto simp: confined_link_def)
    ultimately show "k = p \<and> lc_id m \<in> set (ld_local_confinement_points f)" using f(2,3) by (simp add: confined_link_def)
  qed (use p(1) f(2,3) in \<open>auto simp: confined_link_def\<close>)
  have c: "c = child_confinement f d (lc_id m)" using snoc.prems f(4) by simp
  have pre: "prefix (w @ [k]) (q @ [n]) \<longleftrightarrow> w = q \<and> k = n \<or> prefix (w @ [k]) q" for w k by (auto simp: prefix_snoc)
  show ?case
  proof (cases d)
    case (Confined k)
    then have "c = Confined k" using c by (simp add: child_confinement_def)
    then show ?thesis using IH Confined pre unfolding confinement_of_def by auto
  next
    case NotConfined
    then have none: "prefix (w @ [k]) q \<Longrightarrow> \<not> confined_link T r w k j" for w k j using IH by (simp add: confinement_of_def)
    show ?thesis
    proof (cases "lc_id m \<in> set (ld_local_confinement_points f)")
      case True
      then have "c = Confined p" using c NotConfined id by (simp add: child_confinement_def)
      moreover have "strict_prefix (w @ [k]) (q @ [n]) \<Longrightarrow> prefix (w @ [k]) q" for w k by (auto simp: strict_prefix_def prefix_snoc)
      ultimately show ?thesis using True at none pre unfolding confinement_of_def
        by (simp, intro exI [of _ q] exI [of _ n], blast)
    next
      case False
      then have "c = NotConfined" using c NotConfined by (simp add: child_confinement_def)
      then show ?thesis using none at pre False unfolding confinement_of_def by auto
    qed
  qed
qed

end
