(* ===== verification/Tree_Sample.thy ===== *)
theory Tree_Sample
  imports Tree_System "HOL-Library.Countable"
begin

text \<open>
  A workspace on which the properties of the tree are applied. The root (0) has the folder \<open>a\<close> (1) and the file
  \<open>f\<close> (3), and \<open>a\<close> has the empty folder \<open>b\<close> (2). Only the root is in the cache; \<open>a\<close> and \<open>f\<close> are in the storage,
  \<open>b\<close> is on the server.
\<close>

subsection \<open>A serialisation of local manifests\<close>

instance block_access_ext :: (countable) countable
proof (rule countable_classI [of "\<lambda>m. to_nat (ba_id m, ba_offset m, ba_size m, ba_digest m, block_access.more m)"])
qed (simp add: block_access.equality)

instance file_manifest_ext :: (countable) countable
proof (rule countable_classI [of "\<lambda>m. to_nat ((fm_author m, fm_timestamp m, fm_id m, fm_parent m, fm_version m),
    (fm_created m, fm_updated m, fm_size m, fm_blocksize m, fm_blocks m), file_manifest.more m)"])
qed (simp add: file_manifest.equality)

instance folder_manifest_ext :: (countable) countable
proof (rule countable_classI [of "\<lambda>m. to_nat ((fo_author m, fo_timestamp m, fo_id m, fo_parent m, fo_version m),
    (fo_created m, fo_updated m, fo_children m), folder_manifest.more m)"])
qed (simp add: folder_manifest.equality)

instance chunk_view_ext :: (countable) countable
proof (rule countable_classI [of "\<lambda>m. to_nat ((cv_id m, cv_start m, cv_stop m), (cv_raw_offset m, cv_raw_size m, cv_access m), chunk_view.more m)"])
qed (simp add: chunk_view.equality)

instance local_file_manifest_ext :: (countable) countable
proof (rule countable_classI [of "\<lambda>m. to_nat ((lf_base m, lf_parent m, lf_need_sync m, lf_updated m),
    (lf_size m, lf_blocksize m, lf_blocks m), local_file_manifest.more m)"])
qed (simp add: local_file_manifest.equality)

instance local_folder_manifest_ext :: (countable) countable
proof (rule countable_classI [of "\<lambda>m. to_nat ((ld_base m, ld_parent m, ld_need_sync m, ld_updated m),
    (ld_children m, ld_local_confinement_points m, ld_remote_confinement_points m, ld_speculative m), local_folder_manifest.more m)"])
qed (simp add: local_folder_manifest.equality)

instance local_child_manifest :: countable
  by countable_datatype

subsection \<open>The workspace\<close>

definition folder_of :: "vlob_id \<Rightarrow> vlob_id \<Rightarrow> (entry_name, vlob_id) hashmap \<Rightarrow> local_folder_manifest" where
  "folder_of i parent children = (ld_new i 9 parent 5)\<lparr>ld_children := children\<rparr>"

definition sample_remote_folder :: folder_manifest where
  "sample_remote_folder = \<lparr>fo_author = 9, fo_timestamp = 5, fo_id = 2, fo_parent = 1, fo_version = 1, fo_created = 5,
     fo_updated = 5, fo_children = []\<rparr>"

definition sample_env :: tree_env where
  "sample_env =
     \<lparr>te_dk = \<lparr>dk_encrypt = (\<lambda>x. x), dk_decrypt = Some\<rparr>, te_dump = (\<lambda>m. [to_nat m]),
      te_load = (\<lambda>bytes. case bytes of [n] \<Rightarrow> Some (from_nat n) | _ \<Rightarrow> None),
      te_fetch = (\<lambda>i. if i = 2 then Inr (FolderChild sample_remote_folder) else Inl SfVlobNotFound),
      te_iter = \<lparr>hi_ids = (\<lambda>x. x), hi_children = (\<lambda>x. x), hi_changes = (\<lambda>x. x)\<rparr>, te_pattern = [],
      te_device_id = 9, te_now = 6, te_can_write = True, te_event = 0, te_wait = (\<lambda>_. Some)\<rparr>"

definition stored_row :: "local_child_manifest \<Rightarrow> vlob_row" where
  "stored_row m = \<lparr>vr_id = lc_id m, vr_base_version = 0, vr_remote_version = 0, vr_need_sync = True, vr_blob = [to_nat m]\<rparr>"

text \<open>The workspace with a root and other stored manifests.\<close>

definition workspace_of :: "local_folder_manifest \<Rightarrow> local_child_manifest list \<Rightarrow> workspace_tree" where
  "workspace_of root others =
     \<lparr>wt_realm_id = fo_id (ld_base root), wt_manifests = mh_new root, wt_locks = [],
      wt_storage = Some \<lparr>db_checkpoint = None, db_vlobs = map stored_row (LocalFolder root # others), db_chunks = [],
        db_pattern = ('''', True), db_blocks = [], db_cache_max_blocks = 1\<rparr>,
      wt_faults = [], wt_events = []\<rparr>"

definition sample_root :: local_folder_manifest where
  "sample_root = folder_of 0 0 [(''a'', 1), (''f'', 3)]"

definition sample_others :: "local_child_manifest list" where
  "sample_others = [LocalFolder (folder_of 1 0 [(''b'', 2)]), LocalFile (lf_new 3 9 0 5)]"

definition sample_tree :: workspace_tree where
  "sample_tree = workspace_of sample_root sample_others"

lemma sample_folder [simp]:
  "fo_id (ld_base (folder_of i p c)) = i" "ld_parent (folder_of i p c) = p" "ld_children (folder_of i p c) = c"
  "ld_local_confinement_points (folder_of i p c) = []" "ld_remote_confinement_points (folder_of i p c) = []"
  by (simp_all add: folder_of_def ld_new_def)

lemma sample_load [simp]: "te_load sample_env (te_dump sample_env m) = Some m" "te_load sample_env [to_nat m] = Some m"
  by (simp_all add: sample_env_def)

lemma sample_env_fields [simp]:
  "te_can_write sample_env" "te_fetch sample_env i = (if i = 2 then Inr (FolderChild sample_remote_folder) else Inl SfVlobNotFound)"
  "dk_decrypt (te_dk sample_env) = Some" "dk_encrypt (te_dk sample_env) x = x" "te_event sample_env = 0" "te_wait sample_env e = Some"
  "te_iter sample_env = \<lparr>hi_ids = (\<lambda>x. x), hi_children = (\<lambda>x. x), hi_changes = (\<lambda>x. x)\<rparr>" "te_pattern sample_env = []"
  "te_device_id sample_env = 9" "te_now sample_env = 6" "te_dump sample_env m = [to_nat m]"
  by (simp_all add: sample_env_def)

lemma sample_folder_ok: "child_ok (LocalFolder (folder_of i p c)) \<longleftrightarrow> i \<noteq> p \<and> children_ok c"
  by (auto simp: child_ok_def ld_check_data_integrity_as_child_def ld_check_data_integrity_def ensure_def)

definition sample_fetched :: local_folder_manifest where
  "sample_fetched = ld_from_remote (te_iter sample_env) sample_remote_folder []"

lemma sample_fetched [simp]:
  "fo_id (ld_base sample_fetched) = 2" "ld_parent sample_fetched = 1" "ld_children sample_fetched = []"
  "ld_local_confinement_points sample_fetched = []"
  by (simp_all add: sample_fetched_def ld_from_remote_def sample_remote_folder_def apply_confinement_from_remote_def Let_def)

lemma sample_remote_local: "local_of_remote sample_env (FolderChild sample_remote_folder) = Some (LocalFolder sample_fetched)"
  by (simp add: local_of_remote_def sample_fetched_def)

lemma sample_env_ok: "realm \<noteq> 2 \<Longrightarrow> tree_env_ok sample_env realm"
  by (auto simp: tree_env_ok_def key_ok_def hash_iter_ok_def sample_remote_local child_ok_def ld_check_data_integrity_as_child_def
      ld_check_data_integrity_def ensure_def children_ok_def unique_ids_def split: if_split_asm)

lemma workspace_stored:
  "stored_manifest sample_env (workspace_of root others) i = map_of (map (\<lambda>m. (lc_id m, m)) (LocalFolder root # others)) i"
  "is_stored (workspace_of root others) i \<longleftrightarrow> i \<in> lc_id ` set (LocalFolder root # others)"
proof -
  have get: "sql_find vr_id i (map stored_row ms) = map_option stored_row (map_of (map (\<lambda>m. (lc_id m, m)) ms) i)" for ms
    by (induction ms) (simp_all add: sql_find_def stored_row_def)
  have in_ids: "map_of (map (\<lambda>m. (lc_id m, m)) ms) i \<noteq> None \<longleftrightarrow> i \<in> lc_id ` set ms" for ms
    by (induction ms) auto
  show "stored_manifest sample_env (workspace_of root others) i = map_of (map (\<lambda>m. (lc_id m, m)) (LocalFolder root # others)) i"
    by (simp only: stored_manifest_def workspace_of_def db_get_manifest_def get workspace_tree.simps option.case workspace_db.simps)
      (auto simp: stored_row_def option.map_comp comp_def split: bind_split option.split)
  show "is_stored (workspace_of root others) i \<longleftrightarrow> i \<in> lc_id ` set (LocalFolder root # others)"
    by (simp only: is_stored_def workspace_of_def db_get_manifest_def get workspace_tree.simps option.case workspace_db.simps)
      (use in_ids [of "LocalFolder root # others"] in simp)
qed

lemma workspace_cached: "wt_get (workspace_of root others) = [fo_id (ld_base root) \<mapsto> LocalFolder root]"
  by (simp add: wt_get_def workspace_of_def mh_new_def fun_eq_iff)

lemma workspace_known:
  "tree_known sample_env (workspace_of root others) i =
     (if i \<in> lc_id ` set (LocalFolder root # others) then map_of (map (\<lambda>m. (lc_id m, m)) (LocalFolder root # others)) i
      else remote_manifest sample_env i)"
  unfolding tree_known_def workspace_cached workspace_stored by simp

lemma workspace_ok:
  assumes "root_ok (fo_id (ld_base root)) root" "\<forall>m \<in> set others. child_ok m"
  shows "tree_ok sample_env (workspace_of root others)"
proof -
  have "\<exists>m. map_of (map (\<lambda>m. (lc_id m, m)) (LocalFolder root # others)) i = Some m \<and> lc_id m = i \<and> child_ok m"
    if i: "i \<noteq> fo_id (ld_base root)" "i \<in> lc_id ` set (LocalFolder root # others)" for i
  proof -
    obtain m where "map_of (map (\<lambda>m. (lc_id m, m)) others) i = Some m"
      using i by (cases "map_of (map (\<lambda>m. (lc_id m, m)) others) i") (auto simp: map_of_eq_None_iff image_iff)
    then have "map_of (map (\<lambda>m. (lc_id m, m)) (LocalFolder root # others)) i = Some m" "m \<in> set others" "lc_id m = i"
      using i map_of_SomeD [OF \<open>map_of (map (\<lambda>m. (lc_id m, m)) others) i = Some m\<close>] by auto
    with assms(2) show ?thesis by blast
  qed
  moreover have "wt_realm_id (workspace_of root others) = fo_id (ld_base root)" "wt_storage (workspace_of root others) \<noteq> None"
    "mh_root_manifest_id (wt_manifests (workspace_of root others)) = fo_id (ld_base root)"
    by (simp_all add: workspace_of_def mh_new_def)
  ultimately show ?thesis using assms(1) unfolding tree_ok_def workspace_stored workspace_cached by (simp, blast)
qed

lemma sample_realm [simp]: "wt_realm_id sample_tree = 0" "wt_locks sample_tree = []"
  by (simp_all add: sample_tree_def workspace_of_def sample_root_def)

lemma sample_ok: "tree_env_ok sample_env (wt_realm_id sample_tree)" "tree_ok sample_env sample_tree"
proof -
  show "tree_env_ok sample_env (wt_realm_id sample_tree)" by (simp add: sample_env_ok)
  have "children_ok [(''a'', 1), (''f'', 3)]" "children_ok [(''b'', 2)]" by (auto simp: children_ok_def unique_ids_def split: if_split_asm)
  moreover have "child_ok (LocalFile (lf_new 3 9 0 5))" by (simp add: child_ok_def new_file_ok)
  ultimately show "tree_ok sample_env sample_tree" unfolding sample_tree_def
    by (intro workspace_ok) (auto simp: sample_others_def sample_folder_ok root_ok_def sample_root_def)
qed

lemma sample_known:
  "tree_known sample_env sample_tree =
     [0 \<mapsto> LocalFolder sample_root, 1 \<mapsto> LocalFolder (folder_of 1 0 [(''b'', 2)]), 3 \<mapsto> LocalFile (lf_new 3 9 0 5), 2 \<mapsto> LocalFolder sample_fetched]"
  by (auto simp: fun_eq_iff sample_tree_def workspace_known sample_others_def sample_root_def remote_manifest_def sample_remote_local lf_new_def)

text \<open>No fault, and no error of the server but the absence of a manifest.\<close>

lemma sample_no_trouble: "\<not> trouble sample_env sample_tree"
  by (auto simp: trouble_def sample_tree_def workspace_of_def split: if_split_asm)

lemmas sample_path = path_iff [OF tree_known_shape [OF sample_ok], unfolded sample_realm]

lemma sample_resolve:
  "tree_resolve (tree_known sample_env sample_tree) 0 [] = Some (LocalFolder sample_root, NotConfined)"
  "tree_resolve (tree_known sample_env sample_tree) 0 [''a''] = Some (LocalFolder (folder_of 1 0 [(''b'', 2)]), NotConfined)"
  "tree_resolve (tree_known sample_env sample_tree) 0 [''a'', ''b''] = Some (LocalFolder sample_fetched, NotConfined)"
  "tree_resolve (tree_known sample_env sample_tree) 0 [''f''] = Some (LocalFile (lf_new 3 9 0 5), NotConfined)"
  "tree_resolve (tree_known sample_env sample_tree) 0 [''a'', ''b'', n] = None"
  by (simp_all add: tree_resolve_def sample_known sample_root_def child_confinement_def lf_new_def)

end
