(* ===== verification/Entry_Reading.thy ===== *)
theory Entry_Reading
  imports Entry_Operations
begin

text \<open>
  Reading entries: \<^verbatim>\<open>client/src/workspace/transactions/stat_entry.rs\<close> and \<^verbatim>\<open>read_folder.rs\<close>. The table of opened
  files is an argument: a file that is opened is described by the manifest of its opened file, not by the stored one.
\<close>

subsection \<open>The stat of an entry\<close>

datatype entry_stat =
    FileStat (st_confinement_point: "vlob_id option") (st_id: vlob_id) (st_parent: vlob_id) (st_created: date_time)
      (st_updated: date_time) (st_base_version: nat) (st_is_placeholder: bool) (st_need_sync: bool) (st_size: u64)
      (st_last_updater: device_id)
  | FolderStat (st_confinement_point: "vlob_id option") (st_id: vlob_id) (st_parent: vlob_id) (st_created: date_time)
      (st_updated: date_time) (st_base_version: nat) (st_is_placeholder: bool) (st_need_sync: bool)
      (st_last_updater: device_id)

datatype stat_entry_error = StatEntryNotFound | StatAccess access_error

fun confinement_id :: "path_confinement_point \<Rightarrow> vlob_id option" where
  "confinement_id NotConfined = None"
| "confinement_id (Confined i) = Some i"

fun stat_error_of_get :: "populate_error \<Rightarrow> stat_entry_error" where
  "stat_error_of_get PopEntryNotFound = StatEntryNotFound"
| "stat_error_of_get (PopAccess e) = StatAccess e"

fun stat_error_of_resolve :: "resolve_path_error \<Rightarrow> stat_entry_error" where
  "stat_error_of_resolve ResEntryNotFound = StatEntryNotFound"
| "stat_error_of_resolve (ResAccess e) = StatAccess e"

text \<open>The end of both functions: the manifest of an opened file replaces the one of the store.\<close>

definition stat_of :: "opened_files \<Rightarrow> path_confinement_point \<Rightarrow> local_child_manifest \<Rightarrow> entry_stat" where
  "stat_of opened confinement_point manifest =
     (case manifest of
        LocalFolder m \<Rightarrow>
          FolderStat (confinement_id confinement_point) (fo_id (ld_base m)) (ld_parent m) (fo_created (ld_base m)) (ld_updated m)
            (fo_version (ld_base m)) (fo_version (ld_base m) = 0) (ld_need_sync m) (fo_author (ld_base m))
      | LocalFile m \<Rightarrow>
          let m = (case hm_get (ofs_opened_files opened) (fm_id (lf_base m)) of
                     Some opened_file \<Rightarrow> of_manifest opened_file
                   | None \<Rightarrow> m)
          in FileStat (confinement_id confinement_point) (fm_id (lf_base m)) (lf_parent m) (fm_created (lf_base m)) (lf_updated m)
               (fm_version (lf_base m)) (fm_version (lf_base m) = 0) (lf_need_sync m) (lf_size m) (fm_author (lf_base m)))"

definition stat_entry_by_id ::
  "tree_env \<Rightarrow> opened_files \<Rightarrow> vlob_id \<Rightarrow> path_confinement_point option \<Rightarrow> (stat_entry_error, entry_stat) tree_op" where
  "stat_entry_by_id env opened entry_id maybe_known_confinement_point =
     op_bind
       (case maybe_known_confinement_point of
          Some known_confinement_point \<Rightarrow>
            op_bind (op_map_err stat_error_of_get (get_manifest env entry_id)) (\<lambda>manifest.
            op_return (manifest, known_confinement_point))
        | None \<Rightarrow>
            op_bind (op_map_err StatAccess (retrieve_path_from_id env entry_id)) (\<lambda>retrieval.
            case retrieval of
              EntryMissing \<Rightarrow> op_throw StatEntryNotFound
            | EntryUnreachable manifest \<Rightarrow> op_return (manifest, NotConfined)
            | EntryReachable manifest _ confinement _ \<Rightarrow> op_return (manifest, confinement)))
       (\<lambda>(manifest, confinement_point). op_return (stat_of opened confinement_point manifest))"

definition stat_entry :: "tree_env \<Rightarrow> opened_files \<Rightarrow> fs_path \<Rightarrow> (stat_entry_error, entry_stat) tree_op" where
  "stat_entry env opened path =
     op_bind (op_map_err stat_error_of_resolve (resolve_path env path)) (\<lambda>(manifest, confinement_point).
     op_return (stat_of opened confinement_point manifest))"

subsection \<open>The folder reader\<close>

record folder_reader =
  fr_manifest :: local_folder_manifest
  fr_confinement_point :: path_confinement_point

datatype folder_reader_stat_next_outcome = ReaderEntry entry_name entry_stat | ReaderInvalidChild | ReaderNoMoreEntries

text \<open>The stat of the folder itself takes the parent from the base.\<close>

definition stat_folder :: "folder_reader \<Rightarrow> entry_stat" where
  "stat_folder reader =
     (let m = fr_manifest reader in
      FolderStat (confinement_id (fr_confinement_point reader)) (fo_id (ld_base m)) (fo_parent (ld_base m))
        (fo_created (ld_base m)) (ld_updated m) (fo_version (ld_base m)) (fo_version (ld_base m) = 0) (ld_need_sync m)
        (fo_author (ld_base m)))"

definition reader_children :: "tree_env \<Rightarrow> folder_reader \<Rightarrow> (entry_name \<times> vlob_id) list" where
  "reader_children env reader = hi_children (te_iter env) (ld_children (fr_manifest reader))"

definition stat_child ::
  "tree_env \<Rightarrow> opened_files \<Rightarrow> folder_reader \<Rightarrow> nat \<Rightarrow> (access_error, folder_reader_stat_next_outcome) tree_op" where
  "stat_child env opened reader index =
     (let expected_parent_id = fo_id (ld_base (fr_manifest reader)) in
      if length (reader_children env reader) \<le> index then op_return ReaderNoMoreEntries
      else
        let (child_name, child_id) = reader_children env reader ! index;
            confinement_point =
              (case fr_confinement_point reader of
                 Confined i \<Rightarrow> Confined i
               | NotConfined \<Rightarrow>
                   if child_id \<in> set (ld_local_confinement_points (fr_manifest reader)) then Confined expected_parent_id
                   else NotConfined)
        in op_match (stat_entry_by_id env opened child_id (Some confinement_point)) (\<lambda>r.
           case r of
             Inl StatEntryNotFound \<Rightarrow> op_return ReaderInvalidChild
           | Inl (StatAccess e) \<Rightarrow> op_throw e
           | Inr child_stat \<Rightarrow>
               op_return (if st_parent child_stat \<noteq> expected_parent_id then ReaderInvalidChild
                          else ReaderEntry child_name child_stat)))"

fun index_for_name ::
  "tree_env \<Rightarrow> vlob_id \<Rightarrow> entry_name \<Rightarrow> nat \<Rightarrow> (entry_name \<times> vlob_id) list \<Rightarrow> (access_error, nat option) tree_op" where
  "index_for_name env parent_id name offset [] = op_return None"
| "index_for_name env parent_id name offset ((child_name, child_id) # children) =
     (if child_name = name
      then op_bind (ensure_manifest_exists_with_parent env child_id parent_id) (\<lambda>maybe_child.
           if maybe_child \<noteq> None then op_return (Some offset)
           else index_for_name env parent_id name (offset + 1) children)
      else index_for_name env parent_id name (offset + 1) children)"

definition get_index_for_name :: "tree_env \<Rightarrow> folder_reader \<Rightarrow> entry_name \<Rightarrow> (access_error, nat option) tree_op" where
  "get_index_for_name env reader name =
     index_for_name env (fo_id (ld_base (fr_manifest reader))) name 0 (reader_children env reader)"

datatype open_folder_reader_error = ReaderEntryNotFound | ReaderEntryIsFile | ReaderAccess access_error

fun reader_error_of_resolve :: "resolve_path_error \<Rightarrow> open_folder_reader_error" where
  "reader_error_of_resolve ResEntryNotFound = ReaderEntryNotFound"
| "reader_error_of_resolve (ResAccess e) = ReaderAccess e"

definition reader_of :: "local_child_manifest \<times> path_confinement_point \<Rightarrow> (open_folder_reader_error, folder_reader) tree_op" where
  "reader_of found =
     (case found of
        (LocalFolder m, confinement_point) \<Rightarrow> op_return \<lparr>fr_manifest = m, fr_confinement_point = confinement_point\<rparr>
      | (LocalFile _, _) \<Rightarrow> op_throw ReaderEntryIsFile)"

definition open_folder_reader_by_id :: "tree_env \<Rightarrow> vlob_id \<Rightarrow> (open_folder_reader_error, folder_reader) tree_op" where
  "open_folder_reader_by_id env entry_id =
     op_bind (op_map_err ReaderAccess (retrieve_path_from_id env entry_id)) (\<lambda>retrieval.
     op_bind (case retrieval of
                EntryMissing \<Rightarrow> op_throw ReaderEntryNotFound
              | EntryUnreachable manifest \<Rightarrow> op_return (manifest, NotConfined)
              | EntryReachable manifest _ confinement _ \<Rightarrow> op_return (manifest, confinement)) reader_of)"

definition open_folder_reader :: "tree_env \<Rightarrow> fs_path \<Rightarrow> (open_folder_reader_error, folder_reader) tree_op" where
  "open_folder_reader env path = op_bind (op_map_err reader_error_of_resolve (resolve_path env path)) reader_of"

text \<open>The loop over the indexes of the children.\<close>

function consume_from ::
  "tree_env \<Rightarrow> opened_files \<Rightarrow> folder_reader \<Rightarrow> nat \<Rightarrow> nat \<Rightarrow> (entry_name \<times> entry_stat) list \<Rightarrow>
   (access_error, (entry_name \<times> entry_stat) list) tree_op" where
  "consume_from env opened reader max_children index children_stats =
     (if max_children \<le> index then op_return children_stats
      else op_bind (stat_child env opened reader index) (\<lambda>stat_outcome.
           case stat_outcome of
             ReaderEntry child_name child_stat \<Rightarrow>
               consume_from env opened reader max_children (index + 1) (children_stats @ [(child_name, child_stat)])
           | ReaderInvalidChild \<Rightarrow> consume_from env opened reader max_children (index + 1) children_stats
           | ReaderNoMoreEntries \<Rightarrow> (\<lambda>_. None)))"
  by pat_completeness auto

termination
  by (relation "measure (\<lambda>(env, opened, reader, max_children, index, stats). max_children - index)") auto

declare consume_from.simps [simp del]

definition consume_reader ::
  "tree_env \<Rightarrow> opened_files \<Rightarrow> folder_reader \<Rightarrow> (access_error, (entry_name \<times> entry_stat) list) tree_op" where
  "consume_reader env opened reader = consume_from env opened reader (length (ld_children (fr_manifest reader))) 0 []"

definition stat_folder_children ::
  "tree_env \<Rightarrow> opened_files \<Rightarrow> fs_path \<Rightarrow> (open_folder_reader_error, (entry_name \<times> entry_stat) list) tree_op" where
  "stat_folder_children env opened path =
     op_bind (open_folder_reader env path) (\<lambda>reader. op_map_err ReaderAccess (consume_reader env opened reader))"

definition stat_folder_children_by_id ::
  "tree_env \<Rightarrow> opened_files \<Rightarrow> vlob_id \<Rightarrow> (open_folder_reader_error, (entry_name \<times> entry_stat) list) tree_op" where
  "stat_folder_children_by_id env opened entry_id =
     op_bind (open_folder_reader_by_id env entry_id) (\<lambda>reader. op_map_err ReaderAccess (consume_reader env opened reader))"

end
