(* ===== verification/Tree_Reading.thy ===== *)
theory Tree_Reading
  imports Entry_Reading Tree_System
begin

text \<open>
  Reading entries, over the view: the listing of a folder has exactly the entries one name below it, each described as
  its path would be.
\<close>

text \<open>The opened files are known under their ids, and their manifests name the same parent as the stored ones.\<close>

definition opened_agree :: "opened_files \<Rightarrow> (vlob_id \<Rightarrow> local_child_manifest option) \<Rightarrow> bool" where
  "opened_agree opened T \<longleftrightarrow> (\<forall>i f m. hm_get (ofs_opened_files opened) i = Some f \<and> T i = Some m \<longrightarrow>
     fm_id (lf_base (of_manifest f)) = i \<and> lf_parent (of_manifest f) = lc_parent m)"

lemma stat_of_fields:
  assumes "opened_agree opened T" "T (lc_id m) = Some m"
  shows "st_id (stat_of opened c m) = lc_id m" "st_parent (stat_of opened c m) = lc_parent m"
    "st_confinement_point (stat_of opened c m) = confinement_id c"
proof -
  have "fm_id (lf_base (of_manifest g)) = lc_id m \<and> lf_parent (of_manifest g) = lc_parent m"
    if "hm_get (ofs_opened_files opened) (lc_id m) = Some g" for g
    using assms that unfolding opened_agree_def by blast
  then show "st_id (stat_of opened c m) = lc_id m" "st_parent (stat_of opened c m) = lc_parent m"
    "st_confinement_point (stat_of opened c m) = confinement_id c"
    by (cases m; force simp: stat_of_def Let_def split: option.split)+
qed

subsection \<open>The stat of a path\<close>

lemma stat_entry_view:
  assumes env: "tree_env_ok env (wt_realm_id s)" and ok: "tree_ok env s"
  shows "\<exists>s' r. stat_entry env opened path s = Some (s', r) \<and> same_view env s s' \<and>
    (r = (case tree_resolve (tree_known env s) (wt_realm_id s) (fp_parts path) of
            None \<Rightarrow> Inl StatEntryNotFound | Some (m, c) \<Rightarrow> Inr (stat_of opened c m)) \<or>
     trouble env s \<and> (\<exists>e. r = Inl (StatAccess e)))"
proof -
  obtain s' r where r: "resolve_path env path s = Some (s', r)" "same_view env s s'"
    "r = (case tree_resolve (tree_known env s) (wt_realm_id s) (fp_parts path) of None \<Rightarrow> Inl ResEntryNotFound | Some x \<Rightarrow> Inr x) \<or>
     trouble env s \<and> (\<exists>e. r = Inl (ResAccess e))"
    using resolve_path_view [OF env ok] by blast
  from r(3) show ?thesis
  proof
    assume "r = (case tree_resolve (tree_known env s) (wt_realm_id s) (fp_parts path) of None \<Rightarrow> Inl ResEntryNotFound | Some x \<Rightarrow> Inr x)"
    with r(1,2) show ?thesis by (auto simp: stat_entry_def op_run split: option.split)
  next
    assume "trouble env s \<and> (\<exists>e. r = Inl (ResAccess e))"
    with r(1,2) show ?thesis by (auto simp: stat_entry_def op_run)
  qed
qed

subsection \<open>The listing of a folder\<close>

definition listed ::
  "opened_files \<Rightarrow> (vlob_id \<Rightarrow> local_child_manifest option) \<Rightarrow> local_folder_manifest \<Rightarrow> path_confinement_point \<Rightarrow>
   (entry_name \<times> vlob_id) list \<Rightarrow> (entry_name \<times> entry_stat) list" where
  "listed opened T f c xs = List.map_filter (\<lambda>(n, i).
     map_option (\<lambda>m. (n, stat_of opened (child_confinement f c i) m)) (child_of T (fo_id (ld_base f)) i)) xs"

lemma listed_simps:
  "listed opened T f c [] = []"
  "listed opened T f c ((n, i) # xs) =
     (case child_of T (fo_id (ld_base f)) i of
        None \<Rightarrow> listed opened T f c xs
      | Some m \<Rightarrow> (n, stat_of opened (child_confinement f c i) m) # listed opened T f c xs)"
  by (simp_all add: listed_def List.map_filter_simps split: option.split)

lemma stat_child_view:
  assumes env: "tree_env_ok env (wt_realm_id s)" and ok: "tree_ok env s" and agree: "opened_agree opened (tree_known env s)"
    and k: "k < length (reader_children env reader)" "reader_children env reader ! k = (n, i)"
  obtains (answers) s' where "same_view env s s'"
      "stat_child env opened reader k s =
         Some (s', Inr (case child_of (tree_known env s) (fo_id (ld_base (fr_manifest reader))) i of
            None \<Rightarrow> ReaderInvalidChild
          | Some m \<Rightarrow> ReaderEntry n (stat_of opened (child_confinement (fr_manifest reader) (fr_confinement_point reader) i) m)))"
    | (fails) s' e where "same_view env s s'" "stat_child env opened reader k s = Some (s', Inl e)" "trouble env s"
proof -
  have in_range: "\<not> length (reader_children env reader) \<le> k" using k(1) by simp
  note defs = stat_child_def stat_entry_by_id_def op_run k(2) in_range child_confinement_def child_of_def Let_def
  show thesis
  proof (cases rule: get_manifest_view [OF env ok, of i])
    case (1 s' m)
    have "lc_id m = i" using tree_known_ok(1) [OF env ok 1(3)] .
    then have "st_parent (stat_of opened c m) = lc_parent m" for c using stat_of_fields(2) [OF agree] 1(3) by simp
    with 1 show thesis by (intro answers [of s']) (auto simp: defs split: path_confinement_point.split)
  next
    case (2 s')
    then show thesis by (intro answers [of s']) (auto simp: defs)
  next
    case (3 s' e)
    then show thesis by (intro fails [of s' e]) (auto simp: defs)
  qed
qed

lemma consume_view:
  assumes env: "tree_env_ok env (wt_realm_id s)" and ok: "tree_ok env s" and agree: "opened_agree opened (tree_known env s)"
    and k: "N = length (reader_children env reader)" "k \<le> N"
  shows "\<exists>s' r. consume_from env opened reader N k stats s = Some (s', r) \<and> same_view env s s' \<and>
    (r = Inr (stats @ listed opened (tree_known env s) (fr_manifest reader) (fr_confinement_point reader) (drop k (reader_children env reader))) \<or>
     trouble env s \<and> (\<exists>e. r = Inl e))"
  using assms
proof (induction "N - k" arbitrary: k stats s)
  case 0
  then show ?case using same_view_refl by (auto simp: consume_from.simps op_run listed_simps)
next
  case (Suc j)
  obtain n i where ni: "reader_children env reader ! k = (n, i)" by fastforce
  have less: "k < length (reader_children env reader)" using Suc by simp
  have more: "\<not> N \<le> k" using Suc.hyps(2) by simp
  have drop: "drop k (reader_children env reader) = (n, i) # drop (Suc k) (reader_children env reader)"
    using Cons_nth_drop_Suc [OF less] ni by simp
  note step = consume_from.simps [of env opened reader N k stats]
  show ?case
  proof (cases rule: stat_child_view [OF Suc.prems(1-3) less ni])
    case (1 s1)
    have v: "tree_known env s1 = tree_known env s" "tree_env_ok env (wt_realm_id s1)" "tree_ok env s1"
      using 1(1) same_view_env [OF 1(1) Suc.prems(1)] by (simp_all add: same_view_def)
    let ?child = "child_of (tree_known env s) (fo_id (ld_base (fr_manifest reader))) i"
    let ?stats = "case ?child of None \<Rightarrow> stats
      | Some m \<Rightarrow> stats @ [(n, stat_of opened (child_confinement (fr_manifest reader) (fr_confinement_point reader) i) m)]"
    have run: "consume_from env opened reader N k stats s = consume_from env opened reader N (Suc k) ?stats s1"
      using 1(2) more by (simp add: step op_run split: option.split)
    have "j = N - Suc k" "Suc k \<le> N" using Suc.hyps(2) less Suc.prems(4) by simp_all
    from Suc.hyps(1) [OF this(1) v(2,3) _ Suc.prems(4) this(2), of ?stats] v(1) Suc.prems(3)
    obtain s' r where s': "consume_from env opened reader N (Suc k) ?stats s1 = Some (s', r)" "same_view env s1 s'"
      "r = Inr (?stats @ listed opened (tree_known env s) (fr_manifest reader) (fr_confinement_point reader) (drop (Suc k) (reader_children env reader))) \<or>
       trouble env s1 \<and> (\<exists>e. r = Inl e)" by auto
    have "?stats @ listed opened (tree_known env s) (fr_manifest reader) (fr_confinement_point reader) (drop (Suc k) (reader_children env reader)) =
        stats @ listed opened (tree_known env s) (fr_manifest reader) (fr_confinement_point reader) (drop k (reader_children env reader))"
      by (simp add: drop listed_simps split: option.split)
    with s' show ?thesis using run same_view_trans [OF 1(1) s'(2)] same_view_trouble [OF 1(1)] by auto
  next
    case (2 s1 e)
    then show ?thesis using more by (auto simp: step op_run)
  qed
qed

lemma listed_paths:
  assumes shape: "tree_shape T r" and q: "(q, p) \<in> tree_paths T r" and f: "T p = Some (LocalFolder f)"
    and c: "tree_resolve T r q = Some (LocalFolder f, c)" and h: "hash_iter_ok h"
  shows "distinct (map fst (listed opened T f c (hi_children h (ld_children f))))"
    "n \<in> fst ` set (listed opened T f c (hi_children h (ld_children f))) \<longleftrightarrow> q @ [n] \<in> fst ` tree_paths T r"
    "(n, st) \<in> set (listed opened T f c (hi_children h (ld_children f))) \<Longrightarrow>
       \<exists>m c'. tree_resolve T r (q @ [n]) = Some (m, c') \<and> st = stat_of opened c' m"
proof -
  let ?xs = "hi_children h (ld_children f)"
  have ms: "mset ?xs = mset (ld_children f)" using h by (simp add: hash_iter_ok_def)
  have wf: "hm_wf (ld_children f)" using shape f by (auto simp: tree_shape_def children_ok_def)
  have dist: "distinct (map fst ?xs)" using wf ms by (metis mset_map mset_eq_imp_distinct_iff)
  have get: "(k, i) \<in> set ?xs \<longleftrightarrow> hm_get (ld_children f) k = Some i" for k i
    using hm_in_set [OF wf] mset_eq_setD [OF ms] by blast
  have id: "fo_id (ld_base f) = p" using shape_id [OF shape f] by simp
  have mem: "(k, st) \<in> set (listed opened T f c ys) \<longleftrightarrow>
      (\<exists>i m. (k, i) \<in> set ys \<and> child_of T p i = Some m \<and> st = stat_of opened (child_confinement f c i) m)" for k st ys
    by (induction ys) (auto simp: listed_simps id split: option.split option.split_asm)
  have keys: "set (map fst (listed opened T f c ys)) \<subseteq> set (map fst ys)" for ys
    using mem by force
  have "distinct (map fst ys) \<Longrightarrow> distinct (map fst (listed opened T f c ys))" for ys
  proof (induction ys)
    case (Cons y ys)
    then show ?case using keys [of ys] by (cases y) (auto simp: listed_simps split: option.split)
  qed (simp add: listed_simps)
  with dist show "distinct (map fst (listed opened T f c ?xs))" by blast
  have link: "child_of T p i = Some m \<and> hm_get (ld_children f) k = Some i \<longleftrightarrow> link T p k i \<and> T i = Some m" for k i m
    using f by (auto simp: child_of_def link_iff split: option.split if_split_asm)
  show "n \<in> fst ` set (listed opened T f c ?xs) \<longleftrightarrow> q @ [n] \<in> fst ` tree_paths T r"
  proof
    assume "n \<in> fst ` set (listed opened T f c ?xs)"
    then obtain i where "link T p n i" using mem get link by fastforce
    then show "q @ [n] \<in> fst ` tree_paths T r" using paths_at(2) [OF shape q] by blast
  next
    assume "q @ [n] \<in> fst ` tree_paths T r"
    then obtain i where i: "link T p n i" using paths_at(2) [OF shape q] by blast
    then obtain m where "T i = Some m" by (auto simp: link_iff)
    then have "(n, stat_of opened (child_confinement f c i) m) \<in> set (listed opened T f c ?xs)" using i mem get link by blast
    then show "n \<in> fst ` set (listed opened T f c ?xs)" by force
  qed
  assume "(n, st) \<in> set (listed opened T f c ?xs)"
  then obtain i m where i: "link T p n i" "T i = Some m" "st = stat_of opened (child_confinement f c i) m" using mem get link by blast
  obtain g d m' where "tree_resolve T r q = Some (LocalFolder g, d)" "T i = Some m'" "tree_resolve T r (q @ [n]) = Some (m', child_confinement g d i)"
    using resolve_step [OF shape q i(1)] by metis
  with c i(2,3) show "\<exists>m c'. tree_resolve T r (q @ [n]) = Some (m, c') \<and> st = stat_of opened c' m" by auto
qed

definition listing_outcome ::
  "tree_env \<Rightarrow> workspace_tree \<Rightarrow> opened_files \<Rightarrow> entry_name list \<Rightarrow> open_folder_reader_error + (entry_name \<times> entry_stat) list \<Rightarrow> bool" where
  "listing_outcome env s opened q r =
     (let T = tree_known env s; P = tree_paths T (wt_realm_id s) in
      case r of
        Inr stats \<Rightarrow> (\<exists>i f. (q, i) \<in> P \<and> T i = Some (LocalFolder f)) \<and> distinct (map fst stats) \<and>
          (\<forall>n. n \<in> fst ` set stats \<longleftrightarrow> q @ [n] \<in> fst ` P) \<and>
          (\<forall>n st. (n, st) \<in> set stats \<longrightarrow> (\<exists>m c. tree_resolve T (wt_realm_id s) (q @ [n]) = Some (m, c) \<and> st = stat_of opened c m))
      | Inl ReaderEntryNotFound \<Rightarrow> q \<notin> fst ` P
      | Inl ReaderEntryIsFile \<Rightarrow> \<exists>i f. (q, i) \<in> P \<and> T i = Some (LocalFile f)
      | Inl (ReaderAccess _) \<Rightarrow> trouble env s)"

lemma folder_listed:
  assumes env: "tree_env_ok env (wt_realm_id s)" and ok: "tree_ok env s" and agree: "opened_agree opened (tree_known env s)"
    and c: "tree_resolve (tree_known env s) (wt_realm_id s) q = Some (LocalFolder f, c)" and s1: "same_view env s s1"
  shows "\<exists>s' r. op_map_err ReaderAccess (consume_reader env opened \<lparr>fr_manifest = f, fr_confinement_point = c\<rparr>) s1 = Some (s', r) \<and>
    same_view env s s' \<and> listing_outcome env s opened q r"
proof -
  let ?T = "tree_known env s" and ?r = "wt_realm_id s" and ?reader = "\<lparr>fr_manifest = f, fr_confinement_point = c\<rparr>"
  note shape = tree_known_shape [OF env ok]
  have v: "tree_known env s1 = ?T" "tree_env_ok env (wt_realm_id s1)" "tree_ok env s1"
    using s1 same_view_env [OF s1 env] by (simp_all add: same_view_def)
  have p: "(q, fo_id (ld_base f)) \<in> tree_paths ?T ?r" "?T (fo_id (ld_base f)) = Some (LocalFolder f)"
    using tree_resolve_paths(1) [OF shape c] by simp_all
  have h: "hash_iter_ok (te_iter env)" using env by (simp add: tree_env_ok_def)
  have len: "length (ld_children f) = length (reader_children env ?reader)"
    using h by (simp add: reader_children_def hash_iter_ok_def) (metis size_mset)
  obtain s2 r2 where c2: "consume_reader env opened ?reader s1 = Some (s2, r2)" "same_view env s1 s2"
    "r2 = Inr (listed opened ?T f c (hi_children (te_iter env) (ld_children f))) \<or> trouble env s1 \<and> (\<exists>e. r2 = Inl e)"
    using consume_view [OF v(2,3) _ len, of opened 0 "[]"] agree v(1) by (auto simp: consume_reader_def reader_children_def)
  have "listing_outcome env s opened q (Inr (listed opened ?T f c (hi_children (te_iter env) (ld_children f))))"
    using listed_paths [OF shape p c h] p unfolding listing_outcome_def Let_def sum.case by blast
  moreover have "trouble env s1 \<Longrightarrow> listing_outcome env s opened q (Inl (ReaderAccess e))" for e
    using same_view_trouble [OF s1] by (simp add: listing_outcome_def)
  ultimately show ?thesis using c2 same_view_trans [OF s1 c2(2)] by (auto simp: op_run)
qed

text \<open>Both ways to open a reader: the manifest of the entry and its confinement are what the tree has at the path.\<close>

lemma reader_listed:
  assumes env: "tree_env_ok env (wt_realm_id s)" and ok: "tree_ok env s" and agree: "opened_agree opened (tree_known env s)"
    and s1: "same_view env s s1" and found: "tree_resolve (tree_known env s) (wt_realm_id s) q = Some (m, c)"
  shows "\<exists>s' r. op_bind (reader_of (m, c)) (\<lambda>reader. op_map_err ReaderAccess (consume_reader env opened reader)) s1 = Some (s', r) \<and>
    same_view env s s' \<and> listing_outcome env s opened q r"
proof (cases m)
  case (LocalFile f)
  then show ?thesis using s1 tree_resolve_paths(1) [OF tree_known_shape [OF env ok] found]
    by (auto simp: reader_of_def op_run listing_outcome_def Let_def)
next
  case (LocalFolder f)
  then show ?thesis using folder_listed [OF env ok agree _ s1, of q f c] found by (simp add: reader_of_def op_run)
qed

lemma listing_view:
  assumes env: "tree_env_ok env (wt_realm_id s)" and ok: "tree_ok env s" and agree: "opened_agree opened (tree_known env s)"
  shows "\<exists>s' r. stat_folder_children env opened path s = Some (s', r) \<and> same_view env s s' \<and> listing_outcome env s opened (fp_parts path) r"
proof -
  let ?T = "tree_known env s" and ?r = "wt_realm_id s" and ?q = "fp_parts path"
  note defs = stat_folder_children_def open_folder_reader_def op_run
  obtain s1 r where r: "resolve_path env path s = Some (s1, r)" "same_view env s s1"
    "r = (case tree_resolve ?T ?r ?q of None \<Rightarrow> Inl ResEntryNotFound | Some x \<Rightarrow> Inr x) \<or> trouble env s \<and> (\<exists>e. r = Inl (ResAccess e))"
    using resolve_path_view [OF env ok] by blast
  consider (fails) e where "r = Inl (ResAccess e)" "trouble env s"
    | (absent) "r = Inl ResEntryNotFound" "tree_resolve ?T ?r ?q = None"
    | (present) m c where "r = Inr (m, c)" "tree_resolve ?T ?r ?q = Some (m, c)"
    using r(3) by (auto split: option.split_asm)
  then show ?thesis
  proof cases
    case (fails e)
    with r show ?thesis by (auto simp: defs listing_outcome_def)
  next
    case absent
    with r path_iff(2) [OF tree_known_shape [OF env ok], of ?q] show ?thesis by (auto simp: defs listing_outcome_def)
  next
    case (present m c)
    then show ?thesis using reader_listed [OF env ok agree r(2) present(2)] r(1) by (simp add: defs)
  qed
qed

lemma listing_by_id_view:
  assumes env: "tree_env_ok env (wt_realm_id s)" and ok: "tree_ok env s" and agree: "opened_agree opened (tree_known env s)"
    and q: "(q, i) \<in> tree_paths (tree_known env s) (wt_realm_id s)"
  shows "\<exists>s' r. stat_folder_children_by_id env opened i s = Some (s', r) \<and> same_view env s s' \<and> listing_outcome env s opened q r"
proof -
  note defs = stat_folder_children_by_id_def open_folder_reader_by_id_def retrieve_path_from_id_def op_run
  obtain s1 where s1: "same_view env s s1" and
    "(\<exists>m c chain. retrieve_path_loop env i None s = Some (s1, Inr (EntryReachable m (fp_from_parts q) c chain)) \<and>
        tree_resolve (tree_known env s) (wt_realm_id s) q = Some (m, c)) \<or>
     trouble env s \<and> (\<exists>e. retrieve_path_loop env i None s = Some (s1, Inl e))"
    using retrieve_view [OF env ok q] by blast
  then consider (found) m c chain where "retrieve_path_loop env i None s = Some (s1, Inr (EntryReachable m (fp_from_parts q) c chain))"
      "tree_resolve (tree_known env s) (wt_realm_id s) q = Some (m, c)"
    | (fails) e where "trouble env s" "retrieve_path_loop env i None s = Some (s1, Inl e)" by blast
  then show ?thesis
  proof cases
    case (found m c chain)
    then show ?thesis using reader_listed [OF env ok agree s1 found(2)] by (simp add: defs)
  next
    case (fails e)
    with s1 show ?thesis by (auto simp: defs listing_outcome_def)
  qed
qed

subsection \<open>The index of a name\<close>

fun index_of_name ::
  "(vlob_id \<Rightarrow> local_child_manifest option) \<Rightarrow> vlob_id \<Rightarrow> entry_name \<Rightarrow> (entry_name \<times> vlob_id) list \<Rightarrow> nat option \<Rightarrow> bool" where
  "index_of_name T p n xs None = (\<forall>i. (n, i) \<in> set xs \<longrightarrow> child_of T p i = None)"
| "index_of_name T p n xs (Some j) = (j < length xs \<and> fst (xs ! j) = n \<and> child_of T p (snd (xs ! j)) \<noteq> None)"

lemma index_of_name_Cons:
  "m \<noteq> n \<or> child_of T p i = None \<Longrightarrow> index_of_name T p n xs j \<Longrightarrow> index_of_name T p n ((m, i) # xs) (map_option Suc j)"
  by (cases j) auto

lemma index_view:
  assumes env: "tree_env_ok env (wt_realm_id s)" and ok: "tree_ok env s"
  shows "\<exists>s' r. index_for_name env p n k xs s = Some (s', map_sum (\<lambda>e. e) (map_option ((+) k)) r) \<and> same_view env s s' \<and>
    (case r of Inl _ \<Rightarrow> trouble env s | Inr j \<Rightarrow> index_of_name (tree_known env s) p n xs j)"
  using assms
proof (induction xs arbitrary: k s)
  case Nil
  then show ?case using same_view_refl by (auto simp: op_run intro!: exI [of _ "Inr None"])
next
  case (Cons x xs)
  obtain m i where x: "x = (m, i)" by fastforce
  have later: "\<exists>s' r. index_for_name env p n (k + 1) xs s1 = Some (s', map_sum (\<lambda>e. e) (map_option ((+) k)) r) \<and> same_view env s s' \<and>
    (case r of Inl _ \<Rightarrow> trouble env s | Inr j \<Rightarrow> index_of_name (tree_known env s) p n (x # xs) j)"
    if s1: "same_view env s s1" and skip: "m \<noteq> n \<or> child_of (tree_known env s) p i = None" for s1
  proof -
    have v: "tree_known env s1 = tree_known env s" using s1 by (simp add: same_view_def)
    obtain s' r where s': "index_for_name env p n (k + 1) xs s1 = Some (s', map_sum (\<lambda>e. e) (map_option ((+) (k + 1))) r)" "same_view env s1 s'"
      "case r of Inl _ \<Rightarrow> trouble env s1 | Inr j \<Rightarrow> index_of_name (tree_known env s) p n xs j"
      using Cons.IH [OF same_view_env [OF s1 Cons.prems(1)] same_view_ok [OF s1], of "k + 1"] unfolding v by blast
    have "map_sum (\<lambda>e. e) (map_option ((+) (k + 1))) r = map_sum (\<lambda>e. e) (map_option ((+) k)) (map_sum (\<lambda>e. e) (map_option Suc) r)"
      by (cases r; cases "projr r") simp_all
    moreover have "case map_sum (\<lambda>e. e) (map_option Suc) r of Inl _ \<Rightarrow> trouble env s | Inr j \<Rightarrow> index_of_name (tree_known env s) p n (x # xs) j"
      using s'(3) index_of_name_Cons [OF skip] same_view_trouble [OF s1] by (cases r) (simp_all add: x)
    ultimately show ?thesis using s'(1) same_view_trans [OF s1 s'(2)] by metis
  qed
  show ?case
  proof (cases "m = n")
    case False
    then show ?thesis using later [OF same_view_refl [OF Cons.prems(2)]] by (simp add: x)
  next
    case True
    show ?thesis
    proof (cases rule: ensure_view [OF Cons.prems, of i p])
      case (1 s1)
      show ?thesis
      proof (cases "child_of (tree_known env s) p i")
        case None
        with 1 later [OF 1(2)] True show ?thesis by (simp add: x op_run)
      next
        case (Some c)
        with 1 True show ?thesis by (auto simp: x op_run intro!: exI [of _ "Inr (Some 0)"])
      qed
    next
      case (2 s1 e)
      with True show ?thesis by (auto simp: x op_run intro!: exI [of _ "Inl e"])
    qed
  qed
qed

definition index_outcome ::
  "tree_env \<Rightarrow> workspace_tree \<Rightarrow> entry_name list \<Rightarrow> folder_reader \<Rightarrow> entry_name \<Rightarrow> access_error + nat option \<Rightarrow> bool" where
  "index_outcome env s q reader n r =
     (let P = tree_paths (tree_known env s) (wt_realm_id s) in
      case r of
        Inl _ \<Rightarrow> trouble env s
      | Inr None \<Rightarrow> q @ [n] \<notin> fst ` P
      | Inr (Some j) \<Rightarrow> j < length (reader_children env reader) \<and>
          (\<exists>i. reader_children env reader ! j = (n, i) \<and> (q @ [n], i) \<in> P))"

lemma get_index_view:
  assumes env: "tree_env_ok env (wt_realm_id s)" and ok: "tree_ok env s"
    and c: "tree_resolve (tree_known env s) (wt_realm_id s) q = Some (LocalFolder f, c)"
  shows "\<exists>s' r. get_index_for_name env \<lparr>fr_manifest = f, fr_confinement_point = c\<rparr> n s = Some (s', r) \<and> same_view env s s' \<and>
    index_outcome env s q \<lparr>fr_manifest = f, fr_confinement_point = c\<rparr> n r"
proof -
  let ?T = "tree_known env s" and ?r = "wt_realm_id s" and ?reader = "\<lparr>fr_manifest = f, fr_confinement_point = c\<rparr>"
  let ?p = "fo_id (ld_base f)" and ?xs = "reader_children env \<lparr>fr_manifest = f, fr_confinement_point = c\<rparr>"
  note shape = tree_known_shape [OF env ok]
  have p: "(q, ?p) \<in> tree_paths ?T ?r" "?T ?p = Some (LocalFolder f)" using tree_resolve_paths(1) [OF shape c] by simp_all
  have ms: "mset ?xs = mset (ld_children f)" using env by (simp add: tree_env_ok_def hash_iter_ok_def reader_children_def)
  have wf: "hm_wf (ld_children f)" using shape p(2) by (auto simp: tree_shape_def children_ok_def)
  have get: "(n, i) \<in> set ?xs \<longleftrightarrow> hm_get (ld_children f) n = Some i" for n i
    using hm_in_set [OF wf] mset_eq_setD [OF ms] by blast
  have link: "link ?T ?p n i \<longleftrightarrow> (n, i) \<in> set ?xs \<and> child_of ?T ?p i \<noteq> None" for n i
    using p(2) get by (auto simp: child_of_def link_iff split: option.split_asm if_split_asm)
  obtain s' r where r: "get_index_for_name env ?reader n s = Some (s', map_sum (\<lambda>e. e) (map_option ((+) 0)) r)" "same_view env s s'"
    "case r of Inl _ \<Rightarrow> trouble env s | Inr j \<Rightarrow> index_of_name ?T ?p n ?xs j"
    using index_view [OF env ok, of ?p n 0 ?xs] by (auto simp: get_index_for_name_def)
  have same: "map_sum (\<lambda>e. e) (map_option ((+) 0)) r = r" by (cases r; cases "projr r") simp_all
  have "index_outcome env s q ?reader n r"
  proof (cases r)
    case (Inl e)
    with r(3) show ?thesis by (simp add: index_outcome_def)
  next
    case (Inr j)
    show ?thesis
    proof (cases j)
      case None
      with Inr r(3) have "\<forall>i. \<not> link ?T ?p n i" using link by simp
      with Inr None show ?thesis using paths_at(2) [OF shape p(1)] by (simp add: index_outcome_def)
    next
      case (Some k)
      obtain i where i: "?xs ! k = (n, i)" "k < length ?xs" "child_of ?T ?p i \<noteq> None" using Inr Some r(3) by (cases "?xs ! k") auto
      then have "link ?T ?p n i" using link by (metis nth_mem)
      then have "(q @ [n], i) \<in> tree_paths ?T ?r" using paths_at(1) [OF shape p(1)] by blast
      with i Inr Some show ?thesis by (simp add: index_outcome_def)
    qed
  qed
  with r same show ?thesis by auto
qed

lemma reader_index_view:
  assumes env: "tree_env_ok env (wt_realm_id s)" and ok: "tree_ok env s"
  shows "\<exists>s' r. open_folder_reader env path s = Some (s', r) \<and> same_view env s s' \<and>
    (\<forall>reader n. r = Inr reader \<longrightarrow> (\<exists>s'' k. get_index_for_name env reader n s' = Some (s'', k) \<and> same_view env s s'' \<and>
       index_outcome env s (fp_parts path) reader n k))"
proof -
  let ?T = "tree_known env s" and ?r = "wt_realm_id s" and ?q = "fp_parts path"
  note defs = open_folder_reader_def reader_of_def op_run
  obtain s1 r where r: "resolve_path env path s = Some (s1, r)" "same_view env s s1"
    "r = (case tree_resolve ?T ?r ?q of None \<Rightarrow> Inl ResEntryNotFound | Some x \<Rightarrow> Inr x) \<or> trouble env s \<and> (\<exists>e. r = Inl (ResAccess e))"
    using resolve_path_view [OF env ok] by blast
  have v: "tree_known env s1 = ?T" "wt_realm_id s1 = ?r" using r(2) by (simp_all add: same_view_def)
  consider (fails) e where "r = Inl e"
    | (is_file) m c where "r = Inr (LocalFile m, c)"
    | (is_folder) f c where "r = Inr (LocalFolder f, c)" "tree_resolve ?T ?r ?q = Some (LocalFolder f, c)"
    using r(3) by (auto split: option.split_asm) (metis local_child_manifest.exhaust)
  then show ?thesis
  proof cases
    case (is_folder f c)
    have "\<exists>s'' k. get_index_for_name env \<lparr>fr_manifest = f, fr_confinement_point = c\<rparr> n s1 = Some (s'', k) \<and> same_view env s s'' \<and>
       index_outcome env s ?q \<lparr>fr_manifest = f, fr_confinement_point = c\<rparr> n k" for n
      using get_index_view [OF same_view_env [OF r(2) env] same_view_ok [OF r(2)], of ?q f c n] is_folder(2) v same_view_trans [OF r(2)]
        same_view_trouble [OF r(2)]
      by (fastforce simp: index_outcome_def Let_def split: sum.split sum.split_asm)
    with is_folder(1) r(1,2) show ?thesis by (auto simp: defs)
  qed (use r(1,2) in \<open>auto simp: defs\<close>)
qed

end
