(* ===== verification/Tree_Properties.thy ===== *)
theory Tree_Properties
  imports Tree_Sample Tree_Reading
begin

text \<open>
  The properties of the tree of a workspace. A view is a partial function from ids to manifests; \<open>tree_paths\<close> of it is
  the abstract state: which path leads to which entry. The operations are functions on that state, whatever layer has
  the manifests.
\<close>

subsection \<open>Paths\<close>

definition resolve_outcome ::
  "tree_env \<Rightarrow> workspace_tree \<Rightarrow> entry_name list \<Rightarrow> resolve_path_error + local_child_manifest \<times> path_confinement_point \<Rightarrow> bool" where
  "resolve_outcome env s q r =
     (let T = tree_known env s; P = tree_paths T (wt_realm_id s) in
      case r of
        Inr (m, c) \<Rightarrow> (q, lc_id m) \<in> P \<and> T (lc_id m) = Some m \<and> confinement_of T (wt_realm_id s) q c
      | Inl ResEntryNotFound \<Rightarrow> q \<notin> fst ` P
      | Inl (ResAccess _) \<Rightarrow> trouble env s)"

text \<open>
  C30. Resolving a path returns, whatever part of the tree is in the cache, in the storage or on the server. It answers
  with the manifest that the path leads to and with the confinement of the path, the folder nearest to the root that
  confines an entry on it, or that no entry has this path; other errors come from a failing storage or server. What is
  known of the tree, the locks and the invariant stay.
\<close>

theorem resolve_path_correct:
  assumes "tree_env_ok env (wt_realm_id s)" "tree_ok env s"
  shows "\<exists>s' r. resolve_path env path s = Some (s', r) \<and> same_view env s s' \<and> resolve_outcome env s (fp_parts path) r"
proof -
  note shape = tree_known_shape [OF assms]
  have "resolve_outcome env s (fp_parts path)
      (case tree_resolve (tree_known env s) (wt_realm_id s) (fp_parts path) of None \<Rightarrow> Inl ResEntryNotFound | Some x \<Rightarrow> Inr x)"
    using tree_resolve_paths(1) [OF shape] resolve_confinement [OF shape] path_iff(2) [OF shape]
    by (auto simp: resolve_outcome_def split: option.split)
  moreover have "trouble env s \<Longrightarrow> resolve_outcome env s (fp_parts path) (Inl (ResAccess e))" for e by (simp add: resolve_outcome_def)
  ultimately show ?thesis using resolve_path_view [OF assms, of path] by metis
qed

theorem resolve_path_correct_witness:
  "\<exists>s' m. resolve_path sample_env (fp_from_parts [''a'', ''b'']) sample_tree = Some (s', Inr (m, NotConfined)) \<and> lc_id m = 2 \<and>
     same_view sample_env sample_tree s'"
proof -
  obtain s' r where r: "resolve_path sample_env (fp_from_parts [''a'', ''b'']) sample_tree = Some (s', r)" "same_view sample_env sample_tree s'"
    "resolve_outcome sample_env sample_tree [''a'', ''b''] r"
    using resolve_path_correct [OF sample_ok, of "fp_from_parts [''a'', ''b'']"] by (auto simp: fp_from_parts_def)
  obtain m c where m: "r = Inr (m, c)" "lc_id m = 2" "confinement_of (tree_known sample_env sample_tree) 0 [''a'', ''b''] c"
    using r(3) sample_no_trouble
    by (cases r) (auto simp: resolve_outcome_def Let_def sample_path sample_resolve split: resolve_path_error.split_asm)
  have "c = NotConfined"
  proof (cases c)
    case (Confined p)
    with m(3) show ?thesis
      by (auto simp: confinement_of_def confined_link_def sample_known sample_root_def split: if_split_asm)
  qed simp
  with r(1,2) m show ?thesis by blast
qed

text \<open>The answer of a retrieval, which is to be resolved back.\<close>

definition retrieve_outcome ::
  "tree_env \<Rightarrow> workspace_tree \<Rightarrow> vlob_id \<Rightarrow> workspace_tree \<Rightarrow> access_error + retrieve_path_from_id_entry \<Rightarrow> bool" where
  "retrieve_outcome env s i s' r =
     (let T = tree_known env s; P = tree_paths T (wt_realm_id s) in
      case r of
        Inl _ \<Rightarrow> trouble env s
      | Inr EntryMissing \<Rightarrow> T i = None
      | Inr (EntryUnreachable _) \<Rightarrow> False
      | Inr (EntryReachable m path c chain) \<Rightarrow>
          (fp_parts path, i) \<in> P \<and> T i = Some m \<and> length chain = Suc (length (fp_parts path)) \<and>
          (\<forall>k \<le> length (fp_parts path). (take k (fp_parts path), chain ! k) \<in> P) \<and>
          (\<exists>s''. same_view env s s'' \<and> (resolve_path env path s' = Some (s'', Inr (m, c)) \<or>
             trouble env s \<and> (\<exists>e. resolve_path env path s' = Some (s'', Inl e)))))"

text \<open>
  C35. From an id to its path and back. For an entry that a path leads to, retrieving the path from the id returns that
  path, with the manifest and the chain of the ids from the root to the entry, and resolving the path gives the same
  manifest and the same confinement. An id that neither the device nor the server knows is reported as missing.
\<close>

theorem retrieve_path_roundtrip:
  assumes env: "tree_env_ok env (wt_realm_id s)" and ok: "tree_ok env s"
    and i: "tree_known env s i = None \<or> i \<in> snd ` tree_paths (tree_known env s) (wt_realm_id s)"
  shows "\<exists>s' r. retrieve_path_from_id env i s = Some (s', r) \<and> same_view env s s' \<and> retrieve_outcome env s i s' r"
proof (cases "tree_known env s i")
  case None
  from retrieve_missing [OF env ok this] None show ?thesis
    by (fastforce simp: retrieve_outcome_def)
next
  case (Some m)
  then obtain q where q: "(q, i) \<in> tree_paths (tree_known env s) (wt_realm_id s)" using i by auto
  note shape = tree_known_shape [OF env ok]
  obtain s' where s': "same_view env s s'" and
    "(\<exists>m c chain. retrieve_path_loop env i None s = Some (s', Inr (EntryReachable m (fp_from_parts q) c chain)) \<and>
        tree_resolve (tree_known env s) (wt_realm_id s) q = Some (m, c) \<and> upward (tree_known env s) (wt_realm_id s) q (rev chain)) \<or>
     trouble env s \<and> (\<exists>e. retrieve_path_loop env i None s = Some (s', Inl e))"
    using retrieve_view [OF env ok q] by blast
  then consider (found) m c chain where "retrieve_path_loop env i None s = Some (s', Inr (EntryReachable m (fp_from_parts q) c chain))"
      "tree_resolve (tree_known env s) (wt_realm_id s) q = Some (m, c)" "upward (tree_known env s) (wt_realm_id s) q (rev chain)"
    | (fails) e where "trouble env s" "retrieve_path_loop env i None s = Some (s', Inl e)" by blast
  then show ?thesis
  proof cases
    case (found m c chain)
    have v: "tree_known env s' = tree_known env s" "wt_realm_id s' = wt_realm_id s" using s' by (simp_all add: same_view_def)
    obtain s'' r where r: "resolve_path env (fp_from_parts q) s' = Some (s'', r)" "same_view env s' s''"
      "r = Inr (m, c) \<or> trouble env s' \<and> (\<exists>e. r = Inl (ResAccess e))"
      using resolve_path_view [OF same_view_env [OF s' env] same_view_ok [OF s'], of "fp_from_parts q"] found(2) v
      by (auto simp: fp_from_parts_def)
    have "m = the (tree_known env s i)" using tree_resolve_paths(3) [OF shape q] found(2) Some by auto
    then have "tree_known env s i = Some m" using Some by simp
    moreover have "length chain = Suc (length q)" "\<forall>k \<le> length q. (take k q, chain ! k) \<in> tree_paths (tree_known env s) (wt_realm_id s)"
      using found(3) by (auto simp: upward_def rev_nth)
    ultimately have "retrieve_outcome env s i s' (Inr (EntryReachable m (fp_from_parts q) c chain))"
      using q r same_view_trans [OF s' r(2)] same_view_trouble [OF s'] by (auto simp: retrieve_outcome_def Let_def fp_from_parts_def)
    with found(1) s' show ?thesis unfolding retrieve_path_from_id_def by blast
  next
    case fails
    with s' show ?thesis by (auto simp: retrieve_path_from_id_def retrieve_outcome_def)
  qed
qed

theorem retrieve_path_roundtrip_witness:
  "\<exists>s' m c chain. retrieve_path_from_id sample_env 2 sample_tree =
     Some (s', Inr (EntryReachable m (fp_from_parts [''a'', ''b'']) c chain)) \<and> chain ! 1 = 1"
proof -
  have P: "([''a'', ''b''], 2) \<in> tree_paths (tree_known sample_env sample_tree) 0" "([''a''], 1) \<in> tree_paths (tree_known sample_env sample_tree) 0"
    by (simp_all add: sample_path sample_resolve)
  note shape = tree_known_shape [OF sample_ok, simplified]
  obtain s' r where r: "retrieve_path_from_id sample_env 2 sample_tree = Some (s', r)" "retrieve_outcome sample_env sample_tree 2 s' r"
    using retrieve_path_roundtrip [OF sample_ok, of 2] P(1) by (force simp: image_iff)
  obtain m path c chain where e: "r = Inr (EntryReachable m path c chain)"
    "(fp_parts path, 2) \<in> tree_paths (tree_known sample_env sample_tree) 0"
    "\<forall>k \<le> length (fp_parts path). (take k (fp_parts path), chain ! k) \<in> tree_paths (tree_known sample_env sample_tree) 0"
    using r(2) sample_no_trouble
    by (cases r) (auto simp: retrieve_outcome_def Let_def sample_known split: retrieve_path_from_id_entry.split_asm)
  have "fp_parts path = [''a'', ''b'']" using paths_unique [OF shape e(2) P(1)] .
  moreover from this have "path = fp_from_parts [''a'', ''b'']" by (simp add: fp_from_parts_def)
  moreover from calculation(1) have "([''a''], chain ! 1) \<in> tree_paths (tree_known sample_env sample_tree) 0" using e(3) [rule_format, of 1] by simp
  ultimately show ?thesis using r(1) e(1) paths_fun [OF shape P(2)] by metis
qed

subsection \<open>Operations on entries\<close>

text \<open>
  C31. Creating a file or a folder under a new id inserts one path into the tree: it returns, and either the path did not
  exist, leads to the new empty entry afterwards, and every other path and every manifest but that of the parent is as
  it was; or nothing changes and the error says why: no right to write, the path leads to an entry already, the parent
  path leads to nothing or to a file, or the storage or the server failed. The locks that were taken are released and
  the invariant is kept.
\<close>

theorem create_entry_correct:
  assumes "tree_env_ok env (wt_realm_id s)" "tree_ok env s" "fresh_id env s new" "parent_unlocked env s (fp_parts path)"
  shows "(\<exists>s' r. create_file env new path s = Some (s', r) \<and> settled env s s' \<and>
      create_outcome env s path (\<lambda>p. LocalFile (lf_new new (te_device_id env) p (te_now env))) new s' r) \<and>
    (\<exists>s' r. create_folder env new path s = Some (s', r) \<and> settled env s s' \<and>
      create_outcome env s path (\<lambda>p. LocalFolder (ld_new new (te_device_id env) p (te_now env))) new s' r)"
  unfolding create_file_def create_folder_def
  using create_entry_view [OF assms(1,2) fresh_file [OF assms(3)] assms(4)]
    create_entry_view [OF assms(1,2) fresh_folder [OF assms(3)] assms(4)] by blast

lemma sample_unlocked [simp]: "unlocked sample_tree x" "parent_unlocked sample_env sample_tree q"
  by (simp_all add: unlocked_def parent_unlocked_def)

lemma sample_new_id: "7 \<le> i \<Longrightarrow> fresh_id sample_env sample_tree i"
  by (auto simp: fresh_id_def sample_known children_in_def sample_root_def split: if_split_asm)

theorem create_entry_correct_witness:
  "\<exists>s'. create_folder sample_env 7 (fp_from_parts [''a'', ''b'', ''c'']) sample_tree = Some (s', Inr 7) \<and>
     tree_paths (tree_known sample_env s') 0 =
       insert ([''a'', ''b'', ''c''], 7) (tree_paths (tree_known sample_env sample_tree) 0) \<and>
     tree_known sample_env s' 7 = Some (LocalFolder (ld_new 7 9 2 6))"
proof -
  let ?path = "fp_from_parts [''a'', ''b'', ''c'']"
  obtain s' r where r: "create_folder sample_env 7 ?path sample_tree = Some (s', r)"
    "create_outcome sample_env sample_tree ?path (\<lambda>p. LocalFolder (ld_new 7 9 p 6)) 7 s' r"
    using create_entry_correct [OF sample_ok, of 7 ?path] sample_new_id by auto
  have "[''a'', ''b'', ''c''] \<notin> fst ` tree_paths (tree_known sample_env sample_tree) 0"
    "[''a'', ''b''] \<in> fst ` tree_paths (tree_known sample_env sample_tree) 0"
    "([''a'', ''b''], p) \<in> tree_paths (tree_known sample_env sample_tree) 0 \<longleftrightarrow> p = 2" for p
    by (auto simp: sample_path sample_resolve)
  with r sample_no_trouble show ?thesis
    by (cases r) (auto simp: create_outcome_def Let_def fp_from_parts_def sample_known image_iff split: create_error.split_asm)
qed

text \<open>
  C32. Removing an entry cuts its subtree: when nobody has the parent folder locked, the operation returns. Either the
  parent folder listed an entry that exists under the name, of the expected kind (a file, a folder, an empty folder),
  the paths that are left are exactly those that do not go through the removed one, and no manifest but that of the
  parent changed; or nothing changes and the error says why: no right to write, the root, no such entry, an entry of
  another kind, a folder with entries, or a failing storage or server. The listed entry is the one the path leads to,
  except when it has another parent (a stale link): the code removes such a link too, where a resolution would not
  find an entry.
\<close>

theorem remove_entry_correct:
  assumes "tree_env_ok env (wt_realm_id s)" "tree_ok env s" "parent_unlocked env s (fp_parts path)"
  shows "\<exists>s' r. remove_entry env path expect s = Some (s', r) \<and> settled env s s' \<and> remove_outcome env s path expect s' r"
  by (rule remove_entry_view [OF assms])

theorem remove_entry_correct_witness:
  "(\<exists>s'. remove_entry sample_env (fp_from_parts [''a'']) ExpectEmptyFolder sample_tree = Some (s', Inl RemoveEntryIsNonEmptyFolder)) \<and>
   (\<exists>s'. remove_entry sample_env (fp_from_parts [''a'']) ExpectFolder sample_tree = Some (s', Inr ()) \<and>
      tree_resolve (tree_known sample_env s') 0 [''a''] = None)"
proof
  let ?P = "tree_paths (tree_known sample_env sample_tree) 0"
  have paths: "([''a''], i) \<in> ?P \<longleftrightarrow> i = 1" "[''a''] \<in> fst ` ?P" "([''a'', ''b''], i) \<in> ?P \<longleftrightarrow> i = 2" for i
    by (auto simp: sample_path sample_resolve)
  obtain s' r where r: "remove_entry sample_env (fp_from_parts [''a'']) ExpectEmptyFolder sample_tree = Some (s', r)"
    "remove_outcome sample_env sample_tree (fp_from_parts [''a'']) ExpectEmptyFolder s' r"
    using remove_entry_correct [OF sample_ok, of "fp_from_parts [''a'']" ExpectEmptyFolder] by auto
  have "link (tree_known sample_env sample_tree) 1 ''b'' 2" by (simp add: link_iff sample_known)
  then show "\<exists>s'. remove_entry sample_env (fp_from_parts [''a'']) ExpectEmptyFolder sample_tree = Some (s', Inl RemoveEntryIsNonEmptyFolder)"
    using r sample_no_trouble paths
    by (cases r) (auto simp: remove_outcome_def Let_def fp_from_parts_def sample_known meets_def split: remove_error.split_asm)
  obtain s' r where r: "remove_entry sample_env (fp_from_parts [''a'']) ExpectFolder sample_tree = Some (s', r)" "settled sample_env sample_tree s'"
    "remove_outcome sample_env sample_tree (fp_from_parts [''a'']) ExpectFolder s' r"
    using remove_entry_correct [OF sample_ok, of "fp_from_parts [''a'']" ExpectFolder] by auto
  have "r = Inr ()" using r(3) sample_no_trouble paths
    by (cases r) (auto simp: remove_outcome_def Let_def fp_from_parts_def sample_known split: remove_error.split_asm)
  moreover from this have "[''a''] \<notin> fst ` tree_paths (tree_known sample_env s') 0"
    using r(3) by (auto simp: remove_outcome_def Let_def fp_from_parts_def)
  moreover have "tree_shape (tree_known sample_env s') 0"
    using tree_known_shape [of sample_env s'] r(2) sample_ok(1) by (simp add: settled_def)
  ultimately show "\<exists>s'. remove_entry sample_env (fp_from_parts [''a'']) ExpectFolder sample_tree = Some (s', Inr ()) \<and>
      tree_resolve (tree_known sample_env s') 0 [''a''] = None"
    using r(1) path_iff(2) by blast
qed

text \<open>
  C33. Moving an entry carries its subtree to the new path, under the conditions of \<open>movable\<close>: the
  destination is not below the source (nor, in an exchange, the source below the destination), nobody has the folders
  and entries involved locked, and, for a move to another folder, that folder does not already list the moved entry
  under another name (nor, in an exchange, the source folder the entry at the destination). Without them the operation
  may not return, may disconnect the subtree or may panic. Under them it returns, and either the paths afterwards are
  those of the tree with the subtree at the source put in place of the destination (in an exchange, with the two
  subtrees swapped), the destination was as the mode requires, and every manifest but those of the two parents keeps
  its content, at most getting another parent; or nothing changes and the error says why.
\<close>

theorem move_entry_correct:
  assumes "tree_env_ok env (wt_realm_id s)" "tree_ok env s" "movable env s (fp_parts src) (fp_parts dst) mode"
  shows "\<exists>s' r. move_entry env src dst mode s = Some (s', r) \<and> settled env s s' \<and>
    move_outcome env s (fp_parts src) (fp_parts dst) mode s' r"
  by (rule move_entry_view [OF assms])

theorem move_entry_correct_witness:
  "\<exists>s'. move_entry sample_env (fp_from_parts [''f'']) (fp_from_parts [''a'', ''b'', ''g'']) NoReplace sample_tree = Some (s', Inr ()) \<and>
     ([''a'', ''b'', ''g''], 3) \<in> tree_paths (tree_known sample_env s') 0 \<and>
     [''f''] \<notin> fst ` tree_paths (tree_known sample_env s') 0"
proof -
  let ?src = "fp_from_parts [''f'']" and ?dst = "fp_from_parts [''a'', ''b'', ''g'']"
  let ?P = "tree_paths (tree_known sample_env sample_tree) 0"
  have paths: "([''f''], i) \<in> ?P \<longleftrightarrow> i = 3" "[''f''] \<in> fst ` ?P" "([''a'', ''b''], i) \<in> ?P \<longleftrightarrow> i = 2" "([''a'', ''b'', ''g''], i) \<notin> ?P" for i
    by (auto simp: sample_path sample_resolve lf_new_def)
  have "movable sample_env sample_tree (fp_parts ?src) (fp_parts ?dst) NoReplace"
    using paths by (auto simp: movable_def move_unlocked_def not_listed_def fp_from_parts_def sample_known children_in_def)
  then obtain s' r where r: "move_entry sample_env ?src ?dst NoReplace sample_tree = Some (s', r)"
    "move_outcome sample_env sample_tree [''f''] [''a'', ''b'', ''g''] NoReplace s' r"
    using move_entry_correct [OF sample_ok, of ?src ?dst NoReplace] by (auto simp: fp_from_parts_def)
  have "\<not> no_folder_at (tree_known sample_env sample_tree) 0 [''a'', ''b'']"
    using paths(3) by (auto simp: no_folder_at_def sample_known)
  then have "r = Inr ()" using r(2) sample_no_trouble paths
    by (cases r) (auto simp: move_outcome_def Let_def sample_known split: move_error.split_asm)
  moreover from this have "tree_paths (tree_known sample_env s') 0 = moved_paths [''f''] [''a'', ''b'', ''g''] ?P"
    using r(2) by (simp add: move_outcome_def Let_def)
  ultimately show ?thesis using r(1) paths by (auto simp: moved_paths_def image_iff)
qed

subsection \<open>The system\<close>

text \<open>
  C34. However creations, removals, moves and resolutions follow each other, within the steps of
  \<open>tree_step\<close>, and whichever calls to the storage fail: the cache, the storage and the server stay
  consistent, no lock stays taken, and the tree stays a tree: a path leads to at most one entry, an entry has at most
  one path, and only the empty path leads to the root. The steps are whole operations: a creation with a fresh id and
  a removal when the parent folder is not locked, a resolution, and a move when it is \<open>movable\<close>: what it
  locks is free, the destination is not below the source (nor, in an exchange, the source below the destination) and
  the folder it goes to does not list the entry under another name. Other moves are not steps.
\<close>

theorem workspace_tree_invariant:
  assumes steps: "(tree_step env)\<^sup>*\<^sup>* s s'" and start: "tree_env_ok env (wt_realm_id s)" "tree_ok env s"
  shows "tree_ok env s' \<and> wt_locks s' = wt_locks s \<and>
    (\<forall>q i j. (q, i) \<in> tree_paths (tree_known env s') (wt_realm_id s') \<and> (q, j) \<in> tree_paths (tree_known env s') (wt_realm_id s') \<longrightarrow> i = j) \<and>
    (\<forall>q w i. (q, i) \<in> tree_paths (tree_known env s') (wt_realm_id s') \<and> (w, i) \<in> tree_paths (tree_known env s') (wt_realm_id s') \<longrightarrow> q = w) \<and>
    (\<forall>q. (q, wt_realm_id s') \<in> tree_paths (tree_known env s') (wt_realm_id s') \<longleftrightarrow> q = [])"
proof -
  have st: "settled env s s'" by (rule tree_steps_settled [OF steps start])
  then have ok: "tree_env_ok env (wt_realm_id s')" "tree_ok env s'" using start(1) by (simp_all add: settled_def)
  note shape = tree_known_shape [OF ok]
  have "([], wt_realm_id s') \<in> tree_paths (tree_known env s') (wt_realm_id s')" by (simp add: paths_root)
  with st ok(2) paths_fun [OF shape] paths_unique [OF shape] show ?thesis unfolding settled_def by blast
qed

theorem workspace_tree_invariant_witness:
  "\<exists>s'. tree_step sample_env sample_tree s' \<and> tree_ok sample_env s' \<and> wt_locks s' = []"
proof -
  obtain s' r where "create_file sample_env 7 (fp_from_parts [''c'']) sample_tree = Some (s', r)"
    using create_entry_view [OF sample_ok fresh_file [OF sample_new_id], of 7 "fp_from_parts [''c'']"]
    by (fastforce simp: create_file_def)
  then have "tree_step sample_env sample_tree s'" using tree_step.new_file sample_new_id [of 7] by fastforce
  with workspace_tree_invariant [OF r_into_rtranclp [where r = "tree_step sample_env"] sample_ok, of s'] show ?thesis by auto
qed

subsection \<open>Listing folders\<close>

text \<open>
  C36. Listing a folder, when every opened file is known under its id and its opened manifest names the same parent as
  the stored one (a file opened for reading and then moved is not of this kind, and is missing from the listing). By
  its path or by its id, the listing returns, with or without the children on the device, and keeps what is known of
  the tree. The names listed are exactly those of the entries one step below the folder, each once, and each comes
  with the description that its path resolves to; stale links and missing children are left out. A path without an
  entry and a file are reported as such, and other errors come from a failing storage or server. The index of a name
  is that of its entry, and there is none when the folder has no such entry.
\<close>

theorem folder_listing_correct:
  assumes env: "tree_env_ok env (wt_realm_id s)" and ok: "tree_ok env s" and agree: "opened_agree opened (tree_known env s)"
  shows "(\<exists>s' r. stat_folder_children env opened path s = Some (s', r) \<and> same_view env s s' \<and>
      listing_outcome env s opened (fp_parts path) r) \<and>
    (\<forall>i. (fp_parts path, i) \<in> tree_paths (tree_known env s) (wt_realm_id s) \<longrightarrow>
      (\<exists>s' r. stat_folder_children_by_id env opened i s = Some (s', r) \<and> same_view env s s' \<and>
         listing_outcome env s opened (fp_parts path) r)) \<and>
    (\<exists>s' r. open_folder_reader env path s = Some (s', r) \<and> same_view env s s' \<and>
       (\<forall>reader n. r = Inr reader \<longrightarrow> (\<exists>s'' k. get_index_for_name env reader n s' = Some (s'', k) \<and> same_view env s s'' \<and>
          index_outcome env s (fp_parts path) reader n k)))"
proof (intro conjI allI impI)
  show "\<exists>s' r. stat_folder_children env opened path s = Some (s', r) \<and> same_view env s s' \<and> listing_outcome env s opened (fp_parts path) r"
    by (rule listing_view [OF assms])
  show "\<exists>s' r. stat_folder_children_by_id env opened i s = Some (s', r) \<and> same_view env s s' \<and> listing_outcome env s opened (fp_parts path) r"
    if "(fp_parts path, i) \<in> tree_paths (tree_known env s) (wt_realm_id s)" for i
    by (rule listing_by_id_view [OF assms that])
  show "\<exists>s' r. open_folder_reader env path s = Some (s', r) \<and> same_view env s s' \<and>
       (\<forall>reader n. r = Inr reader \<longrightarrow> (\<exists>s'' k. get_index_for_name env reader n s' = Some (s'', k) \<and> same_view env s s'' \<and>
          index_outcome env s (fp_parts path) reader n k))"
    by (rule reader_index_view [OF env ok])
qed

theorem folder_listing_correct_witness:
  "\<exists>s' stats. stat_folder_children sample_env \<lparr>ofs_new_open_allowed = True, ofs_next_file_descriptor = 1, ofs_file_descriptors = [], ofs_opened_files = []\<rparr>
       (fp_from_parts []) sample_tree = Some (s', Inr stats) \<and> set (map fst stats) = {''a'', ''f''}"
proof -
  let ?opened = "\<lparr>ofs_new_open_allowed = True, ofs_next_file_descriptor = 1, ofs_file_descriptors = [], ofs_opened_files = []\<rparr>"
  have agree: "opened_agree ?opened (tree_known sample_env sample_tree)" by (simp add: opened_agree_def)
  obtain s' r where r: "stat_folder_children sample_env ?opened (fp_from_parts []) sample_tree = Some (s', r)"
    "listing_outcome sample_env sample_tree ?opened [] r"
    using folder_listing_correct [OF sample_ok agree, of "fp_from_parts []"] by (auto simp: fp_from_parts_def)
  have root: "([], 0) \<in> tree_paths (tree_known sample_env sample_tree) 0" by (simp add: sample_path sample_resolve sample_root_def)
  then have "[] \<in> fst ` tree_paths (tree_known sample_env sample_tree) 0" by force
  moreover have "\<not> (\<exists>i f. ([], i) \<in> tree_paths (tree_known sample_env sample_tree) 0 \<and> tree_known sample_env sample_tree i = Some (LocalFile f))"
  proof -
    have "i = 0" if "([], i) \<in> tree_paths (tree_known sample_env sample_tree) 0" for i
      using that by (simp add: sample_path sample_resolve sample_root_def)
    moreover have "tree_known sample_env sample_tree 0 = Some (LocalFolder sample_root)" by (simp add: sample_known)
    ultimately show ?thesis by (metis local_child_manifest.distinct(1) option.inject)
  qed
  ultimately have "\<nexists>e. r = Inl e"
    using r(2) sample_no_trouble by (force simp: listing_outcome_def Let_def split: open_folder_reader_error.split_asm)
  then obtain stats where stats: "r = Inr stats" by (cases r) auto
  with r(2) have names: "\<forall>n. n \<in> fst ` set stats \<longleftrightarrow> [n] \<in> fst ` tree_paths (tree_known sample_env sample_tree) 0"
    by (simp add: listing_outcome_def Let_def)
  have "[n] \<in> fst ` tree_paths (tree_known sample_env sample_tree) 0 \<longleftrightarrow> n = ''a'' \<or> n = ''f''" for n
    using paths_at(2) [OF tree_known_shape [OF sample_ok] root [folded sample_realm(1)], of n]
    by (auto simp: link_iff sample_known sample_root_def lf_new_def)
  with r(1) stats names show ?thesis by auto
qed

end
