(* ===== verification/Tree_Flaws.thy ===== *)
theory Tree_Flaws
  imports Tree_Sample Entry_Reading
begin

text \<open>
  Where the operations on the tree do not do what they mean to, on concrete workspaces.
\<close>

text \<open>A workspace with all its manifests in the cache.\<close>

definition cached_workspace :: "local_folder_manifest \<Rightarrow> local_child_manifest list \<Rightarrow> workspace_tree" where
  "cached_workspace root others =
     (workspace_of root others)\<lparr>wt_manifests := \<lparr>mh_manifests = map (\<lambda>m. (lc_id m, m)) (LocalFolder root # others),
        mh_root_manifest_id = fo_id (ld_base root)\<rparr>\<rparr>"

definition orphan_tree :: workspace_tree where
  "orphan_tree = cached_workspace (folder_of 0 0 []) [LocalFolder (folder_of 3 7 [])]"

lemma orphan_look:
  "x \<noteq> Some 3 \<Longrightarrow> cache_only_retrieve_path_from_id (te_iter sample_env) (te_event sample_env) 3 False x orphan_tree =
     Some (orphan_tree, RetrievalNeedPopulateCache 7)"
  by (simp add: cache_only_retrieve_path_from_id_def orphan_tree_def cached_workspace_def wt_get_def retrieval_loop.simps
      mh_root_manifest_def)

lemma orphan_populate:
  "populate_cache_from_local_storage_or_server sample_env 7 orphan_tree = Some (orphan_tree, Inl PopEntryNotFound)"
  by (simp add: populate_cache_from_local_storage_or_server_def populate_cache_from_local_storage_def op_run orphan_tree_def
      cached_workspace_def with_storage_def Let_def workspace_of_def db_get_manifest_def sql_find_def stored_row_def)

lemma retrieve_orphan_loops: "retrieve_path_from_id sample_env 3 orphan_tree = None"
proof -
  have "env = sample_env \<and> i = 3 \<and> x \<noteq> Some 3 \<longrightarrow> s \<noteq> orphan_tree" if "retrieve_path_loop env i x s = Some y" for env i x s y
  proof (rule retrieve_path_loop.raw_induct [OF _ that, where P = "\<lambda>env i x s y. env = sample_env \<and> i = 3 \<and> x \<noteq> Some 3 \<longrightarrow> s \<noteq> orphan_tree"],
      intro impI notI, goal_cases)
    case (1 loop env i x s y)
    then have "loop sample_env 3 (Some 7) orphan_tree = Some y"
      using orphan_look orphan_populate by (simp del: sample_env_fields)
    with 1(1) show ?case by fastforce
  qed
  then show ?thesis unfolding retrieve_path_from_id_def by (metis not_Some_eq option.distinct(1))
qed

definition far_tree :: workspace_tree where
  "far_tree = cached_workspace (folder_of 0 0 [(''a'', 1)]) [LocalFolder (folder_of 1 0 [(''b'', 4)]), LocalFolder (folder_of 4 1 [])]"

lemma far_look: "cache_only_reparenting 0 [] ''a'' [''a''] None far_tree = Some (far_tree, ReparentNeeds (NeedsWait 0) SrcChild)"
  by (simp add: cache_only_reparenting_def reparenting_steps_def op_run resolve_parent_def cache_only_path_resolution_def
     resolution_end_def far_tree_def cached_workspace_def workspace_of_def wt_get_def step_folder_def mh_root_manifest_def resolve_child_def
     lock_take_def no_guards_def drop_guards_def release_maybe_def release_guard_def Let_def lock_release_def swap_remove_def)


lemma move_below_itself_loops: "move_entry sample_env (fp_from_parts [''a'']) (fp_from_parts [''a'', ''b'']) CanReplace far_tree = None"
proof -
  let ?root = "\<lparr>fp_parts = []\<rparr>" and ?a = "\<lparr>fp_parts = [''a'']\<rparr>"
  have "env = sample_env \<and> sp = ?root \<and> sn = ''a'' \<and> dp = ?a \<and> dn = None \<longrightarrow> s \<noteq> far_tree"
    if "resolve_path_for_reparenting env sp sn dp dn s = Some y" for env sp sn dp dn s y
  proof (rule resolve_path_for_reparenting.raw_induct [OF _ that, where P = "\<lambda>env sp sn dp dn s y.
      env = sample_env \<and> sp = ?root \<and> sn = ''a'' \<and> dp = ?a \<and> dn = None \<longrightarrow> s \<noteq> far_tree"], intro impI notI, goal_cases)
    case (1 loop env sp sn dp dn s y)
    then have "loop sample_env ?root ''a'' ?a None far_tree = Some y" by (simp add: far_look)
    with 1(1) show ?case by fastforce
  qed
  then have "resolve_path_for_reparenting sample_env ?root ''a'' ?a None far_tree = None" by (metis not_Some_eq)
  then show ?thesis by (simp add: move_entry_def fp_into_parent_def fp_from_parts_def op_run Let_def)
qed

lemmas run_defs = resolution_end_def cached_workspace_def workspace_of_def wt_get_def step_folder_def mh_root_manifest_def
  resolve_child_def lock_take_def no_guards_def drop_guards_def release_maybe_def release_guard_def Let_def lock_release_def swap_remove_def
  op_run op_option_def

lemmas move_defs = run_defs resolve_path_for_reparenting.simps cache_only_reparenting_def reparenting_steps_def resolve_parent_def
  cache_only_path_resolution_def defuse_guards_def child_confinement_def move_entry_def fp_from_parts_def fp_into_parent_def
  move_across_folders_def releasing_reparenting_def move_entry_different_parents_def check_destination_def
  evolve_children_and_mark_updated_def changed_ids_def map_filter_simps pattern_is_match_def
  update_manifests_for_reparenting_def child_update_data_def child_dump_and_encrypt_def ld_check_data_integrity_def with_storage_def
  wt_insert_def mh_insert_def mh_id_of_def send_outbound_sync_needed_def

lemma resolve_absent:
  "cache_only_path_resolution (te_event env) (fp_parts path) False s = Some (s, ResolutionEntryNotFound) \<Longrightarrow>
   resolve_path env path s = Some (s, Inl ResEntryNotFound)"
  by (simp add: resolve_path_def op_run resolve_path_maybe_lock_for_update.simps)

lemma far_moved:
  "\<exists>s. move_entry sample_env (fp_from_parts [''a'']) (fp_from_parts [''a'', ''b'', ''c'']) CanReplace far_tree = Some (s, Inr ()) \<and>
     resolve_path sample_env (fp_from_parts [''a'']) s = Some (s, Inl ResEntryNotFound) \<and>
     resolve_path sample_env (fp_from_parts [''a'', ''b'', ''c'']) s = Some (s, Inl ResEntryNotFound)"
  by (simp add: far_tree_def move_defs resolve_absent)

text \<open>The folder \<open>d\<close> lists the entry \<open>a\<close> of the root under the name \<open>x\<close>, a stale link.\<close>

definition stale_tree :: workspace_tree where
  "stale_tree = cached_workspace (folder_of 0 0 [(''a'', 1), (''d'', 4)])
     [LocalFolder (folder_of 1 0 []), LocalFolder (folder_of 4 0 [(''x'', 1)])]"

lemma stale_move:
  "resolve_path sample_env (fp_from_parts [''d'', ''x'']) stale_tree = Some (stale_tree, Inl ResEntryNotFound)"
  "move_entry sample_env (fp_from_parts [''a'']) (fp_from_parts [''d'', ''y'']) CanReplace stale_tree = None"
  by (simp_all add: stale_tree_def move_defs resolve_absent)

definition exchange_tree :: workspace_tree where
  "exchange_tree = cached_workspace (folder_of 0 0 [(''a'', 1), (''d'', 4)])
     [LocalFolder (folder_of 1 0 []), LocalFolder (folder_of 4 0 [(''b'', 5)]), LocalFolder (folder_of 5 4 [])]"

lemma exchange_unlocked:
  "\<exists>s u m. resolve_path_for_reparenting sample_env (fp_from_parts []) ''a'' (fp_from_parts [''d'']) (Some ''b'') exchange_tree = Some (s, Inr u) \<and>
     rr_dst_child u = Some m \<and> lc_id m = 5 \<and> map (is_entry_locked s) [0, 1, 4, 5] = [True, True, True, False]"
  by (simp add: exchange_tree_def move_defs is_entry_locked_def lock_is_taken_def)

text \<open>The file \<open>f\<close> is opened for reading; \<open>d\<close> is an empty folder and \<open>a\<close> another one.\<close>

definition reading_tree :: workspace_tree where
  "reading_tree = cached_workspace (folder_of 0 0 [(''a'', 1), (''d'', 4), (''f'', 3)])
     [LocalFolder (folder_of 1 0 []), LocalFolder (folder_of 4 0 []), LocalFile (lf_new 3 9 0 5)]"

definition reading_files :: opened_files where
  "reading_files = \<lparr>ofs_new_open_allowed = True, ofs_next_file_descriptor = 2, ofs_file_descriptors = [(1, 3)],
     ofs_opened_files = [(3, \<lparr>of_updater = None, of_manifest = lf_new 3 9 0 5, of_cursors = [],
       of_bytes_written_since_last_flush = 0, of_removed_chunks = [], of_new_chunks = [], of_flush_needed = False,
       of_modified_since_opened = False\<rparr>)]\<rparr>"

lemma lf_new_fields [simp]: "fm_id (lf_base (lf_new i d p t)) = i" "lf_parent (lf_new i d p t) = p" "lf_blocks (lf_new i d p t) = []"
  by (simp_all add: lf_new_def)

lemma empty_file_passes: "lf_blocks m = [] \<Longrightarrow> fm_id (lf_base m) \<noteq> lf_parent m \<Longrightarrow> lf_integrity_expect m = Some ()"
  by (simp add: lf_integrity_expect_def lf_check_data_integrity_def ensure_def split: unit.split)

lemma resolve_cached:
  "cache_only_path_resolution (te_event env) (fp_parts path) False s = Some (s, ResolutionDone m c g) \<Longrightarrow>
   resolve_path env path s = Some (s, Inr (m, c))"
  by (simp add: resolve_path_def op_run resolve_path_maybe_lock_for_update.simps)

lemmas look_defs = cache_only_path_resolution_def child_confinement_def resolution_end_def step_folder_def fp_from_parts_def

lemma moved_file:
  "\<exists>s root d g. move_entry sample_env (fp_from_parts [''f'']) (fp_from_parts [''d'', ''g'']) CanReplace reading_tree = Some (s, Inr ()) \<and>
     mh_root_manifest (wt_manifests s) = Some root \<and> wt_get s 0 = Some (LocalFolder root) \<and> wt_get s 4 = Some (LocalFolder d) \<and> wt_get s 3 = Some (LocalFile g) \<and>
     fo_id (ld_base root) = 0 \<and> ld_children root = [(''a'', 1), (''d'', 4)] \<and> ld_local_confinement_points root = [] \<and>
     fo_id (ld_base d) = 4 \<and> ld_parent d = 0 \<and> ld_children d = [(''g'', 3)] \<and> ld_local_confinement_points d = [] \<and>
     fm_id (lf_base g) = 3 \<and> lf_parent g = 4"
  by (simp add: reading_tree_def move_defs empty_file_passes)

lemmas read_defs = stat_folder_children_def open_folder_reader_def reader_of_def consume_reader_def consume_from.simps reader_children_def
  stat_child_def stat_entry_by_id_def stat_entry_def stat_of_def get_manifest_def Let_def op_run

lemma moved_file_unlisted:
  "\<exists>s m. move_entry sample_env (fp_from_parts [''f'']) (fp_from_parts [''d'', ''g'']) CanReplace reading_tree = Some (s, Inr ()) \<and>
     resolve_path sample_env (fp_from_parts [''d'', ''g'']) s = Some (s, Inr (m, NotConfined)) \<and> lc_id m = 3 \<and>
     stat_folder_children sample_env reading_files (fp_from_parts [''d'']) s = Some (s, Inr [])"
proof -
  obtain s root d g where s: "move_entry sample_env (fp_from_parts [''f'']) (fp_from_parts [''d'', ''g'']) CanReplace reading_tree = Some (s, Inr ())"
    "mh_root_manifest (wt_manifests s) = Some root" "wt_get s 0 = Some (LocalFolder root)" "wt_get s 4 = Some (LocalFolder d)" "wt_get s 3 = Some (LocalFile g)"
    "fo_id (ld_base root) = 0" "ld_children root = [(''a'', 1), (''d'', 4)]" "ld_local_confinement_points root = []"
    "fo_id (ld_base d) = 4" "ld_parent d = 0" "ld_children d = [(''g'', 3)]" "ld_local_confinement_points d = []" "fm_id (lf_base g) = 3" "lf_parent g = 4"
    using moved_file by metis
  have "resolve_path sample_env (fp_from_parts [''d'', ''g'']) s = Some (s, Inr (LocalFile g, NotConfined))"
    by (rule resolve_cached [where g = None]) (simp add: s look_defs)
  moreover have "resolve_path sample_env (fp_from_parts [''d'']) s = Some (s, Inr (LocalFolder d, NotConfined))"
    by (rule resolve_cached [where g = None]) (simp add: s look_defs)
  then have "stat_folder_children sample_env reading_files (fp_from_parts [''d'']) s = Some (s, Inr [])"
    by (simp add: s read_defs reading_files_def)
  ultimately show ?thesis using s(1,13) by auto
qed

lemma moved_folder:
  "\<exists>s root d b. move_entry sample_env (fp_from_parts [''a'']) (fp_from_parts [''d'', ''b'']) CanReplace reading_tree = Some (s, Inr ()) \<and>
     mh_root_manifest (wt_manifests s) = Some root \<and> wt_get s 0 = Some (LocalFolder root) \<and> wt_get s 4 = Some (LocalFolder d) \<and> wt_get s 1 = Some (LocalFolder b) \<and>
     fo_id (ld_base root) = 0 \<and> hm_get (ld_children root) ''d'' = Some 4 \<and> ld_local_confinement_points root = [] \<and>
     fo_id (ld_base d) = 4 \<and> ld_parent d = 0 \<and> ld_children d = [(''b'', 1)] \<and> ld_local_confinement_points d = [] \<and>
     fo_id (ld_base b) = 1 \<and> ld_parent b = 4 \<and> fo_parent (ld_base b) = 0"
  by (simp add: reading_tree_def move_defs) (simp add: folder_of_def ld_new_def)

lemma moved_folder_parent:
  "\<exists>s reader st. move_entry sample_env (fp_from_parts [''a'']) (fp_from_parts [''d'', ''b'']) CanReplace reading_tree = Some (s, Inr ()) \<and>
     open_folder_reader sample_env (fp_from_parts [''d'', ''b'']) s = Some (s, Inr reader) \<and>
     stat_entry sample_env reading_files (fp_from_parts [''d'', ''b'']) s = Some (s, Inr st) \<and>
     st_parent st = 4 \<and> st_parent (stat_folder reader) = 0"
proof -
  obtain s root d b where s: "move_entry sample_env (fp_from_parts [''a'']) (fp_from_parts [''d'', ''b'']) CanReplace reading_tree = Some (s, Inr ())"
    "mh_root_manifest (wt_manifests s) = Some root" "wt_get s 0 = Some (LocalFolder root)" "wt_get s 4 = Some (LocalFolder d)" "wt_get s 1 = Some (LocalFolder b)"
    "fo_id (ld_base root) = 0" "hm_get (ld_children root) ''d'' = Some 4" "ld_local_confinement_points root = []"
    "fo_id (ld_base d) = 4" "ld_parent d = 0" "ld_children d = [(''b'', 1)]" "ld_local_confinement_points d = []"
    "fo_id (ld_base b) = 1" "ld_parent b = 4" "fo_parent (ld_base b) = 0"
    using moved_folder by metis
  have "resolve_path sample_env (fp_from_parts [''d'', ''b'']) s = Some (s, Inr (LocalFolder b, NotConfined))"
    by (rule resolve_cached [where g = None]) (use s in \<open>simp add: look_defs\<close>)
  then show ?thesis by (simp add: s read_defs stat_folder_def)
qed

text \<open>
  C38. Seven flaws of the operations on the tree, on concrete workspaces. Retrieving the path of an entry whose parent
  does not exist never returns: each turn asks for the parent again, since the id that was not found is compared with
  that of the entry. Moving an entry to a path directly below itself never returns: the attempt waits for the lock that
  it holds itself and releases, and starts again in the same state. Moving it deeper below itself succeeds and
  disconnects its subtree: neither the old nor the new path resolves. The resolution of an exchange gives the
  destination child without its lock, since its guard is read from the field of the destination parent. Moving an entry
  into a folder that lists it under another name panics, although such a stale link is ignored by the resolution. A
  file that is opened for reading and then moved resolves under its new path, but the listing of its new folder leaves
  it out, since the opened file still names the old parent. The reader of a moved folder reports the parent of the last
  synchronised version, unlike the stat of the same path.
\<close>

theorem tree_flaws:
  "(cache_only_retrieve_path_from_id (te_iter sample_env) 0 3 False (Some 7) orphan_tree = Some (orphan_tree, RetrievalNeedPopulateCache 7) \<and>
    populate_cache_from_local_storage_or_server sample_env 7 orphan_tree = Some (orphan_tree, Inl PopEntryNotFound) \<and>
    retrieve_path_from_id sample_env 3 orphan_tree = None) \<and>
   (cache_only_reparenting 0 [] ''a'' [''a''] None far_tree = Some (far_tree, ReparentNeeds (NeedsWait 0) SrcChild) \<and>
    move_entry sample_env (fp_from_parts [''a'']) (fp_from_parts [''a'', ''b'']) CanReplace far_tree = None) \<and>
   (\<exists>s. move_entry sample_env (fp_from_parts [''a'']) (fp_from_parts [''a'', ''b'', ''c'']) CanReplace far_tree = Some (s, Inr ()) \<and>
     resolve_path sample_env (fp_from_parts [''a'']) s = Some (s, Inl ResEntryNotFound) \<and>
     resolve_path sample_env (fp_from_parts [''a'', ''b'', ''c'']) s = Some (s, Inl ResEntryNotFound)) \<and>
   (\<exists>s u m. resolve_path_for_reparenting sample_env (fp_from_parts []) ''a'' (fp_from_parts [''d'']) (Some ''b'') exchange_tree = Some (s, Inr u) \<and>
     rr_dst_child u = Some m \<and> lc_id m = 5 \<and> map (is_entry_locked s) [0, 1, 4, 5] = [True, True, True, False]) \<and>
   (resolve_path sample_env (fp_from_parts [''d'', ''x'']) stale_tree = Some (stale_tree, Inl ResEntryNotFound) \<and>
    move_entry sample_env (fp_from_parts [''a'']) (fp_from_parts [''d'', ''y'']) CanReplace stale_tree = None) \<and>
   (\<exists>s m. move_entry sample_env (fp_from_parts [''f'']) (fp_from_parts [''d'', ''g'']) CanReplace reading_tree = Some (s, Inr ()) \<and>
     resolve_path sample_env (fp_from_parts [''d'', ''g'']) s = Some (s, Inr (m, NotConfined)) \<and> lc_id m = 3 \<and>
     stat_folder_children sample_env reading_files (fp_from_parts [''d'']) s = Some (s, Inr [])) \<and>
   (\<exists>s reader st. move_entry sample_env (fp_from_parts [''a'']) (fp_from_parts [''d'', ''b'']) CanReplace reading_tree = Some (s, Inr ()) \<and>
     open_folder_reader sample_env (fp_from_parts [''d'', ''b'']) s = Some (s, Inr reader) \<and>
     stat_entry sample_env reading_files (fp_from_parts [''d'', ''b'']) s = Some (s, Inr st) \<and>
     st_parent st = 4 \<and> st_parent (stat_folder reader) = 0)"
  using orphan_look [of "Some 7"] orphan_populate retrieve_orphan_loops far_look move_below_itself_loops far_moved exchange_unlocked stale_move
    moved_file_unlisted moved_folder_parent
  by simp

end
