(* ===== verification/Certificate_Types.thy ===== *)
theory Certificate_Types
  imports Manifest_Types
begin

text \<open>
  The certificates of \<^verbatim>\<open>types/src/certif.rs\<close>: the fourteen structures, grouped in the four topics,
  and how they are loaded from signed bytes.

  Cryptography and deserialisation are parameters (\<open>certif_codec\<close>): what \<^verbatim>\<open>VerifyKey::verify\<close>,
  \<^verbatim>\<open>VerifyKey::unsecure_unwrap\<close> and \<^verbatim>\<open>SequesterVerifyKeyDer::verify\<close> return, and the reader of the
  generated data formats. Every format carries a \<^verbatim>\<open>type\<close> tag, so that at most one of the fourteen
  structures can be read from a given payload: one parser into \<open>any_certificate\<close> stands for the
  fourteen, and loading as one structure fails when the parser gives another.
\<close>

type_synonym verify_key = nat
type_synonym sequester_verify_key = nat
type_synonym sequester_service_id = nat
type_synonym device_label = string

datatype user_profile = Admin | Standard | Outsider

datatype certificate_signer = SignedByUser device_id | SignedByRoot

datatype 'a maybe_redacted = Real 'a | Redacted 'a

datatype device_purpose = PurposeStandard | PurposeShamirRecovery | PurposePassphraseRecovery
  | PurposeRegistration

datatype realm_archiving_configuration = Available | Archived | DeletionPlanned date_time

fun maybe_redacted_as_ref :: "'a maybe_redacted \<Rightarrow> 'a" where
  "maybe_redacted_as_ref (Real x) = x"
| "maybe_redacted_as_ref (Redacted x) = x"

definition certificate_signer_of_option :: "device_id option \<Rightarrow> certificate_signer" where
  "certificate_signer_of_option item =
     (case item of Some device_id \<Rightarrow> SignedByUser device_id | None \<Rightarrow> SignedByRoot)"

definition option_of_certificate_signer :: "certificate_signer \<Rightarrow> device_id option" where
  "option_of_certificate_signer item =
     (case item of SignedByUser device_id \<Rightarrow> Some device_id | SignedByRoot \<Rightarrow> None)"

subsection \<open>The common topic\<close>

record user_certificate =
  uc_author :: certificate_signer
  uc_timestamp :: date_time
  uc_user_id :: user_id
  uc_human_handle :: "human_handle maybe_redacted"
  uc_public_key :: nat
  uc_profile :: user_profile

record device_certificate =
  dc_author :: certificate_signer
  dc_timestamp :: date_time
  dc_purpose :: device_purpose
  dc_user_id :: user_id
  dc_device_id :: device_id
  dc_device_label :: "device_label maybe_redacted"
  dc_verify_key :: verify_key

record user_update_certificate =
  up_author :: device_id
  up_timestamp :: date_time
  up_user_id :: user_id
  up_new_profile :: user_profile

record revoked_user_certificate =
  rv_author :: device_id
  rv_timestamp :: date_time
  rv_user_id :: user_id

subsection \<open>The realm topics\<close>

record realm_role_certificate =
  rl_author :: device_id
  rl_timestamp :: date_time
  rl_realm_id :: vlob_id
  rl_user_id :: user_id
  rl_role :: "realm_role option"

record realm_key_rotation_certificate =
  kt_author :: device_id
  kt_timestamp :: date_time
  kt_realm_id :: vlob_id
  kt_key_index :: u64
  kt_key_canary :: "byte list"

record realm_name_certificate =
  rn_author :: device_id
  rn_timestamp :: date_time
  rn_realm_id :: vlob_id
  rn_key_index :: u64
  rn_encrypted_name :: "byte list"

record realm_archiving_certificate =
  ra_author :: device_id
  ra_timestamp :: date_time
  ra_realm_id :: vlob_id
  ra_configuration :: realm_archiving_configuration

subsection \<open>The sequester topic\<close>

record sequester_authority_certificate =
  sa_timestamp :: date_time
  sa_verify_key_der :: sequester_verify_key

record sequester_service_certificate =
  sv_timestamp :: date_time
  sv_service_id :: sequester_service_id
  sv_service_label :: string
  sv_encryption_key_der :: nat

record sequester_revoked_service_certificate =
  sr_timestamp :: date_time
  sr_service_id :: sequester_service_id

subsection \<open>The shamir recovery topic\<close>

record shamir_recovery_brief_certificate =
  sb_author :: device_id
  sb_timestamp :: date_time
  sb_user_id :: user_id
  sb_threshold :: nat
  sb_per_recipient_shares :: "(user_id, nat) hashmap"

record shamir_recovery_share_certificate =
  ss_author :: device_id
  ss_timestamp :: date_time
  ss_user_id :: user_id
  ss_recipient :: user_id
  ss_ciphered_share :: "byte list"

text \<open>\<^verbatim>\<open>share_recipients\<close> is a \<^verbatim>\<open>HashSet\<close>: the list of its elements, compared as a set.\<close>

record shamir_recovery_deletion_certificate =
  sd_author :: device_id
  sd_timestamp :: date_time
  sd_setup_to_delete_timestamp :: date_time
  sd_setup_to_delete_user_id :: user_id
  sd_share_recipients :: "user_id list"

datatype any_certificate =
    CUser user_certificate
  | CDevice device_certificate
  | CUserUpdate user_update_certificate
  | CRevokedUser revoked_user_certificate
  | CRealmRole realm_role_certificate
  | CRealmName realm_name_certificate
  | CRealmArchiving realm_archiving_certificate
  | CRealmKeyRotation realm_key_rotation_certificate
  | CShamirBrief shamir_recovery_brief_certificate
  | CShamirShare shamir_recovery_share_certificate
  | CShamirDeletion shamir_recovery_deletion_certificate
  | CSequesterAuthority sequester_authority_certificate
  | CSequesterService sequester_service_certificate
  | CSequesterRevokedService sequester_revoked_service_certificate

subsection \<open>Views of a certificate\<close>

fun as_user :: "any_certificate \<Rightarrow> user_certificate option" where
  "as_user (CUser c) = Some c" | "as_user _ = None"

fun as_device :: "any_certificate \<Rightarrow> device_certificate option" where
  "as_device (CDevice c) = Some c" | "as_device _ = None"

fun as_user_update :: "any_certificate \<Rightarrow> user_update_certificate option" where
  "as_user_update (CUserUpdate c) = Some c" | "as_user_update _ = None"

fun as_revoked_user :: "any_certificate \<Rightarrow> revoked_user_certificate option" where
  "as_revoked_user (CRevokedUser c) = Some c" | "as_revoked_user _ = None"

fun as_realm_role :: "any_certificate \<Rightarrow> realm_role_certificate option" where
  "as_realm_role (CRealmRole c) = Some c" | "as_realm_role _ = None"

fun as_realm_name :: "any_certificate \<Rightarrow> realm_name_certificate option" where
  "as_realm_name (CRealmName c) = Some c" | "as_realm_name _ = None"

fun as_realm_archiving :: "any_certificate \<Rightarrow> realm_archiving_certificate option" where
  "as_realm_archiving (CRealmArchiving c) = Some c" | "as_realm_archiving _ = None"

fun as_realm_key_rotation :: "any_certificate \<Rightarrow> realm_key_rotation_certificate option" where
  "as_realm_key_rotation (CRealmKeyRotation c) = Some c" | "as_realm_key_rotation _ = None"

fun as_shamir_brief :: "any_certificate \<Rightarrow> shamir_recovery_brief_certificate option" where
  "as_shamir_brief (CShamirBrief c) = Some c" | "as_shamir_brief _ = None"

fun as_shamir_share :: "any_certificate \<Rightarrow> shamir_recovery_share_certificate option" where
  "as_shamir_share (CShamirShare c) = Some c" | "as_shamir_share _ = None"

fun as_shamir_deletion :: "any_certificate \<Rightarrow> shamir_recovery_deletion_certificate option" where
  "as_shamir_deletion (CShamirDeletion c) = Some c" | "as_shamir_deletion _ = None"

fun as_sequester_authority :: "any_certificate \<Rightarrow> sequester_authority_certificate option" where
  "as_sequester_authority (CSequesterAuthority c) = Some c" | "as_sequester_authority _ = None"

fun as_sequester_service :: "any_certificate \<Rightarrow> sequester_service_certificate option" where
  "as_sequester_service (CSequesterService c) = Some c" | "as_sequester_service _ = None"

fun as_sequester_revoked_service ::
  "any_certificate \<Rightarrow> sequester_revoked_service_certificate option" where
  "as_sequester_revoked_service (CSequesterRevokedService c) = Some c"
| "as_sequester_revoked_service _ = None"

text \<open>
  A topic is the unit in which the server numbers certificates by growing timestamps; every realm has
  its own. The enums \<^verbatim>\<open>CommonTopicArcCertificate\<close>, \<^verbatim>\<open>SequesterTopicArcCertificate\<close>,
  \<^verbatim>\<open>RealmTopicArcCertificate\<close> and \<^verbatim>\<open>ShamirRecoveryTopicArcCertificate\<close> are the certificates of one topic.
\<close>

datatype topic = CommonTopic | SequesterTopic | is_RealmTopic: RealmTopic vlob_id | ShamirTopic

fun certif_topic :: "any_certificate \<Rightarrow> topic" where
  "certif_topic (CUser _) = CommonTopic"
| "certif_topic (CDevice _) = CommonTopic"
| "certif_topic (CUserUpdate _) = CommonTopic"
| "certif_topic (CRevokedUser _) = CommonTopic"
| "certif_topic (CRealmRole c) = RealmTopic (rl_realm_id c)"
| "certif_topic (CRealmName c) = RealmTopic (rn_realm_id c)"
| "certif_topic (CRealmArchiving c) = RealmTopic (ra_realm_id c)"
| "certif_topic (CRealmKeyRotation c) = RealmTopic (kt_realm_id c)"
| "certif_topic (CShamirBrief _) = ShamirTopic"
| "certif_topic (CShamirShare _) = ShamirTopic"
| "certif_topic (CShamirDeletion _) = ShamirTopic"
| "certif_topic (CSequesterAuthority _) = SequesterTopic"
| "certif_topic (CSequesterService _) = SequesterTopic"
| "certif_topic (CSequesterRevokedService _) = SequesterTopic"

fun certif_timestamp :: "any_certificate \<Rightarrow> date_time" where
  "certif_timestamp (CUser c) = uc_timestamp c"
| "certif_timestamp (CDevice c) = dc_timestamp c"
| "certif_timestamp (CUserUpdate c) = up_timestamp c"
| "certif_timestamp (CRevokedUser c) = rv_timestamp c"
| "certif_timestamp (CRealmRole c) = rl_timestamp c"
| "certif_timestamp (CRealmName c) = rn_timestamp c"
| "certif_timestamp (CRealmArchiving c) = ra_timestamp c"
| "certif_timestamp (CRealmKeyRotation c) = kt_timestamp c"
| "certif_timestamp (CShamirBrief c) = sb_timestamp c"
| "certif_timestamp (CShamirShare c) = ss_timestamp c"
| "certif_timestamp (CShamirDeletion c) = sd_timestamp c"
| "certif_timestamp (CSequesterAuthority c) = sa_timestamp c"
| "certif_timestamp (CSequesterService c) = sv_timestamp c"
| "certif_timestamp (CSequesterRevokedService c) = sr_timestamp c"

subsection \<open>Integrity\<close>

definition brief_check_data_integrity :: "shamir_recovery_brief_certificate \<Rightarrow> data_error + unit" where
  "brief_check_data_integrity c =
     (let total_shares = sum_list (map snd (sb_per_recipient_shares c)) in
      if total_shares > 255
      then Inl (DataIntegrity ''ShamirRecoveryBriefCertificate'' ''total_shares <= 255'')
      else if sb_threshold c > total_shares
      then Inl (DataIntegrity ''ShamirRecoveryBriefCertificate'' ''threshold <= total_shares'')
      else Inr ())"

fun any_check_data_integrity :: "any_certificate \<Rightarrow> data_error + unit" where
  "any_check_data_integrity (CShamirBrief c) = brief_check_data_integrity c"
| "any_check_data_integrity _ = Inr ()"

subsection \<open>Loading\<close>

record certif_codec =
  cc_verify :: "verify_key \<Rightarrow> byte list \<Rightarrow> byte list option"
  cc_unwrap :: "byte list \<Rightarrow> byte list option"
  cc_sequester_verify :: "sequester_verify_key \<Rightarrow> byte list \<Rightarrow> byte list option"
  cc_parse :: "byte list \<Rightarrow> any_certificate option"

definition base_unsecure_load ::
  "certif_codec \<Rightarrow> (any_certificate \<Rightarrow> 'a option) \<Rightarrow> byte list \<Rightarrow> data_error + 'a" where
  "base_unsecure_load codec as_name signed =
     and_then (ok_or Signature (cc_unwrap codec signed)) (\<lambda>serialized.
     and_then (ok_or BadSerialization (cc_parse codec serialized)) (\<lambda>any.
     and_then (ok_or BadSerialization (as_name any)) (\<lambda>unsecure.
     and_then (any_check_data_integrity any) (\<lambda>_. Inr unsecure))))"

definition base_verify_and_load ::
  "certif_codec \<Rightarrow> (any_certificate \<Rightarrow> 'a option) \<Rightarrow> byte list \<Rightarrow> verify_key \<Rightarrow> data_error + 'a" where
  "base_verify_and_load codec as_name signed author_verify_key =
     and_then (ok_or Signature (cc_verify codec author_verify_key signed)) (\<lambda>serialized.
     and_then (ok_or BadSerialization (cc_parse codec serialized)) (\<lambda>any.
     and_then (ok_or BadSerialization (as_name any)) (\<lambda>unsecure.
     and_then (any_check_data_integrity any) (\<lambda>_. Inr unsecure))))"

text \<open>\<^verbatim>\<open>verify_signature\<close> of the unsecure wrapper keeps the signed bytes with the certificate read from them.\<close>

definition verify_signature :: "certif_codec \<Rightarrow> verify_key \<Rightarrow> byte list \<Rightarrow> 'a \<Rightarrow> data_error + 'a" where
  "verify_signature codec author_verify_key signed unsecure =
     (if cc_verify codec author_verify_key signed \<noteq> None then Inr unsecure else Inl Signature)"

definition as_topic :: "(topic \<Rightarrow> bool) \<Rightarrow> any_certificate \<Rightarrow> any_certificate option" where
  "as_topic P c = (if P (certif_topic c) then Some c else None)"

definition common_unsecure_load :: "certif_codec \<Rightarrow> byte list \<Rightarrow> data_error + any_certificate" where
  "common_unsecure_load codec = base_unsecure_load codec (as_topic (\<lambda>t. t = CommonTopic))"

definition realm_unsecure_load :: "certif_codec \<Rightarrow> byte list \<Rightarrow> data_error + any_certificate" where
  "realm_unsecure_load codec = base_unsecure_load codec (as_topic is_RealmTopic)"

definition shamir_unsecure_load :: "certif_codec \<Rightarrow> byte list \<Rightarrow> data_error + any_certificate" where
  "shamir_unsecure_load codec = base_unsecure_load codec (as_topic (\<lambda>t. t = ShamirTopic))"

definition sequester_authority_unsecure_load ::
  "certif_codec \<Rightarrow> byte list \<Rightarrow> data_error + sequester_authority_certificate" where
  "sequester_authority_unsecure_load codec = base_unsecure_load codec as_sequester_authority"

definition sequester_verify_and_load ::
  "certif_codec \<Rightarrow> (any_certificate \<Rightarrow> 'a option) \<Rightarrow> byte list \<Rightarrow> sequester_verify_key \<Rightarrow> data_error + 'a" where
  "sequester_verify_and_load codec as_name signed authority_verify_key =
     and_then (ok_or Signature (cc_sequester_verify codec authority_verify_key signed)) (\<lambda>raw.
     ok_or BadSerialization (Option.bind (cc_parse codec raw) as_name))"

subsection \<open>Why a certificate is refused\<close>

text \<open>
  \<^verbatim>\<open>InvalidCertificateError\<close> without its \<^verbatim>\<open>hint\<close> fields, which hold the debug print of the certificate.
\<close>

datatype invalid_certificate_error =
    Corrupted data_error
  | NonExistingAuthor
  | OlderThanAuthor date_time
  | SelfSigned
  | RevokedAuthor date_time
  | AuthorNotAdmin user_profile
  | ContentAlreadyExists
  | InvalidTimestamp date_time
  | RootSignatureOutOfBootstrap
  | RootSignatureTimestampMismatch date_time
  | NotASequesteredOrganization
  | SequesterAuthorityMustBeFirst
  | NonExistingRelatedUser
  | OlderThanRelatedUser date_time
  | RelatedUserAlreadyRevoked date_time
  | RelatedSequesterServiceAlreadyRevoked date_time
  | UserFirstDeviceAuthorMismatch certificate_signer
  | UserFirstDeviceTimestampMismatch date_time
  | RealmFirstRoleMustBeSelfSigned
  | RealmFirstCertificateMustBeRole
  | RealmCannotChangeOwnRole
  | RealmFirstRoleMustBeOwner
  | RealmAuthorHasNoRole
  | RealmAuthorNotOwner realm_role
  | RealmAuthorNotOwnerOrManager realm_role
  | RealmOutsiderCannotBeOwnerOrManager
  | ShamirRecoveryAlreadySetup
  | ShamirRecoverySelfAmongRecipients
  | ShamirRecoveryMissingShare user_id
  | ShamirRecoveryUnrelatedToUs
  | ShamirRecoveryDeletionMustReferenceLastSetup
  | ShamirRecoveryDeletionRecipientsMismatch "user_id list"
  | ShamirRecoveryAlreadyDeleted date_time
  | ShamirRecoveryMissingBriefCertificate
  | ShamirRecoveryNotAboutSelf user_id user_id

end
