(* ===== verification/Certificate_Storage.thy ===== *)
theory Certificate_Storage
  imports Certificate_Types Fallible_State
begin

text \<open>
  The certificates database of \<^verbatim>\<open>platform_storage\<close> (\<^verbatim>\<open>certificates.rs\<close> and \<^verbatim>\<open>native/certificates.rs\<close>): the
  rows of the \<^verbatim>\<open>certificates\<close> table in the order SQLite scans them, the queries on them, and the last
  timestamp of every topic.

  Each statement may fail: \<open>cb_faults\<close> lists the outcomes of the next statements (\<^const>\<open>True\<close> fails),
  and a database whose list is empty does not fail. \<^verbatim>\<open>ORDER BY\<close> keeps the scan order between equal
  timestamps. The query for the realms takes the first row of each group of its ordered subquery, which
  is what its result relies on.
\<close>

subsection \<open>Last timestamps per topic\<close>

datatype up_to = UpToCurrent | UpToTimestamp date_time

record per_topic_last_timestamps =
  pt_common :: "date_time option"
  pt_sequester :: "date_time option"
  pt_realm :: "(vlob_id, date_time) hashmap"
  pt_shamir_recovery :: "date_time option"

definition pt_is_empty :: "per_topic_last_timestamps \<Rightarrow> bool" where
  "pt_is_empty t = (pt_common t = None \<and> pt_sequester t = None \<and> pt_realm t = [] \<and> pt_shamir_recovery t = None)"

definition pt_new_for_common :: "date_time \<Rightarrow> per_topic_last_timestamps" where
  "pt_new_for_common ts = \<lparr>pt_common = Some ts, pt_sequester = None, pt_realm = [], pt_shamir_recovery = None\<rparr>"

definition pt_new_for_realm :: "vlob_id \<Rightarrow> date_time \<Rightarrow> per_topic_last_timestamps" where
  "pt_new_for_realm realm_id ts =
     \<lparr>pt_common = None, pt_sequester = None, pt_realm = [(realm_id, ts)], pt_shamir_recovery = None\<rparr>"

definition pt_new_for_sequester :: "date_time \<Rightarrow> per_topic_last_timestamps" where
  "pt_new_for_sequester ts = \<lparr>pt_common = None, pt_sequester = Some ts, pt_realm = [], pt_shamir_recovery = None\<rparr>"

definition pt_new_for_common_and_realm :: "date_time \<Rightarrow> vlob_id \<Rightarrow> date_time \<Rightarrow> per_topic_last_timestamps" where
  "pt_new_for_common_and_realm common_ts realm_id ts =
     \<lparr>pt_common = Some common_ts, pt_sequester = None, pt_realm = [(realm_id, ts)], pt_shamir_recovery = None\<rparr>"

definition pt_new_for_shamir :: "date_time \<Rightarrow> per_topic_last_timestamps" where
  "pt_new_for_shamir ts = \<lparr>pt_common = None, pt_sequester = None, pt_realm = [], pt_shamir_recovery = Some ts\<rparr>"

definition pt_new_for_common_and_shamir :: "date_time \<Rightarrow> date_time \<Rightarrow> per_topic_last_timestamps" where
  "pt_new_for_common_and_shamir common_ts ts =
     \<lparr>pt_common = Some common_ts, pt_sequester = None, pt_realm = [], pt_shamir_recovery = Some ts\<rparr>"

text \<open>\<^verbatim>\<open>Option<DateTime>\<close> is ordered with \<^verbatim>\<open>None\<close> first.\<close>

fun option_lt :: "date_time option \<Rightarrow> date_time option \<Rightarrow> bool" where
  "option_lt None (Some _) = True"
| "option_lt (Some a) (Some b) = (a < b)"
| "option_lt _ None = False"

definition pt_is_up_to_date :: "per_topic_last_timestamps \<Rightarrow> per_topic_last_timestamps \<Rightarrow> bool" where
  "pt_is_up_to_date self other =
     (if option_lt (pt_common self) (pt_common other)
         \<or> option_lt (pt_sequester self) (pt_sequester other)
         \<or> option_lt (pt_shamir_recovery self) (pt_shamir_recovery other)
      then False
      else list_all (\<lambda>(realm_id, other_realm_timestamp).
             (case hm_get (pt_realm self) realm_id of
                None \<Rightarrow> False
              | Some self_realm_timestamp \<Rightarrow> \<not> self_realm_timestamp < other_realm_timestamp))
             (pt_realm other))"

subsection \<open>Rows and queries\<close>

text \<open>One constructor per \<^verbatim>\<open>TYPE\<close> constant of \<^verbatim>\<open>StorableCertificate\<close>.\<close>

datatype certificate_type =
    TUser | TDevice | TRevokedUser | TUserUpdate
  | TRealmRole | TRealmName | TRealmKeyRotation | TRealmArchiving
  | TSequesterAuthority | TSequesterService | TSequesterRevokedService
  | TShamirBrief | TShamirShare | TShamirDeletion

text \<open>
  The values of the filter columns: an UUID is bound as its 16 bytes and an index as 8 bytes, so that
  the two never compare equal, and \<^verbatim>\<open>NULL\<close> equals nothing.
\<close>

datatype filter_kind = FNull | FBytes nat | FU64 u64

definition sql_eq :: "filter_kind \<Rightarrow> filter_kind \<Rightarrow> bool" where
  "sql_eq a b = (a \<noteq> FNull \<and> b \<noteq> FNull \<and> a = b)"

fun certif_type :: "any_certificate \<Rightarrow> certificate_type" where
  "certif_type (CUser _) = TUser"
| "certif_type (CDevice _) = TDevice"
| "certif_type (CUserUpdate _) = TUserUpdate"
| "certif_type (CRevokedUser _) = TRevokedUser"
| "certif_type (CRealmRole _) = TRealmRole"
| "certif_type (CRealmName _) = TRealmName"
| "certif_type (CRealmArchiving _) = TRealmArchiving"
| "certif_type (CRealmKeyRotation _) = TRealmKeyRotation"
| "certif_type (CShamirBrief _) = TShamirBrief"
| "certif_type (CShamirShare _) = TShamirShare"
| "certif_type (CShamirDeletion _) = TShamirDeletion"
| "certif_type (CSequesterAuthority _) = TSequesterAuthority"
| "certif_type (CSequesterService _) = TSequesterService"
| "certif_type (CSequesterRevokedService _) = TSequesterRevokedService"

fun certif_filters :: "any_certificate \<Rightarrow> filter_kind \<times> filter_kind" where
  "certif_filters (CUser c) = (FBytes (uc_user_id c), FNull)"
| "certif_filters (CDevice c) = (FBytes (dc_device_id c), FBytes (dc_user_id c))"
| "certif_filters (CRevokedUser c) = (FBytes (rv_user_id c), FNull)"
| "certif_filters (CUserUpdate c) = (FBytes (up_user_id c), FNull)"
| "certif_filters (CRealmRole c) = (FBytes (rl_realm_id c), FBytes (rl_user_id c))"
| "certif_filters (CRealmName c) = (FBytes (rn_realm_id c), FNull)"
| "certif_filters (CRealmKeyRotation c) = (FBytes (kt_realm_id c), FU64 (kt_key_index c))"
| "certif_filters (CRealmArchiving c) = (FBytes (ra_realm_id c), FNull)"
| "certif_filters (CSequesterAuthority c) = (FNull, FNull)"
| "certif_filters (CSequesterService c) = (FBytes (sv_service_id c), FNull)"
| "certif_filters (CSequesterRevokedService c) = (FBytes (sr_service_id c), FNull)"
| "certif_filters (CShamirBrief c) = (FBytes (sb_user_id c), FNull)"
| "certif_filters (CShamirShare c) = (FBytes (ss_user_id c), FBytes (ss_recipient c))"
| "certif_filters (CShamirDeletion c) = (FBytes (sd_setup_to_delete_user_id c), FNull)"

definition topic_types_common :: "certificate_type list" where
  "topic_types_common = [TUser, TDevice, TRevokedUser, TUserUpdate]"

definition topic_types_sequester :: "certificate_type list" where
  "topic_types_sequester = [TSequesterAuthority, TSequesterService, TSequesterRevokedService]"

definition topic_types_realm :: "certificate_type list" where
  "topic_types_realm = [TRealmRole, TRealmName, TRealmKeyRotation, TRealmArchiving]"

definition topic_types_shamir :: "certificate_type list" where
  "topic_types_shamir = [TShamirBrief, TShamirShare, TShamirDeletion]"

record certif_row =
  cr_timestamp :: date_time
  cr_data :: "byte list"
  cr_type :: certificate_type
  cr_filter1 :: filter_kind
  cr_filter2 :: filter_kind

datatype get_certificate_query =
    NoFilter certificate_type
  | Filter1 certificate_type filter_kind
  | Filter2 certificate_type filter_kind
  | BothFilters certificate_type filter_kind filter_kind
  | Filter1EqFilter2WhereFilter1 certificate_type certificate_type filter_kind
  | Filter1EqFilter1WhereFilter2 certificate_type certificate_type filter_kind
  | Filter2EqFilter1WhereFilter2 certificate_type certificate_type filter_kind
  | Filter2EqFilter2WhereFilter1 certificate_type certificate_type filter_kind

datatype get_certificate_error = NonExisting | ExistButTooRecent date_time | GetInternal

text \<open>A scalar subquery is the column of its first row, and \<^verbatim>\<open>NULL\<close> when it has no row.\<close>

definition sql_scalar :: "(certif_row \<Rightarrow> filter_kind) \<Rightarrow> (certif_row \<Rightarrow> bool) \<Rightarrow> certif_row list \<Rightarrow> filter_kind" where
  "sql_scalar column P rows = (case filter P rows of [] \<Rightarrow> FNull | r # _ \<Rightarrow> column r)"

fun query_matches :: "certif_row list \<Rightarrow> get_certificate_query \<Rightarrow> certif_row \<Rightarrow> bool" where
  "query_matches rows (NoFilter ty) r = (cr_type r = ty)"
| "query_matches rows (Filter1 ty f1) r = (cr_type r = ty \<and> sql_eq (cr_filter1 r) f1)"
| "query_matches rows (Filter2 ty f2) r = (cr_type r = ty \<and> sql_eq (cr_filter2 r) f2)"
| "query_matches rows (BothFilters ty f1 f2) r =
     (cr_type r = ty \<and> sql_eq (cr_filter1 r) f1 \<and> sql_eq (cr_filter2 r) f2)"
| "query_matches rows (Filter1EqFilter2WhereFilter1 ty sub f1) r =
     (cr_type r = ty \<and>
      sql_eq (cr_filter1 r) (sql_scalar cr_filter2 (\<lambda>q. cr_type q = sub \<and> sql_eq (cr_filter1 q) f1) rows))"
| "query_matches rows (Filter1EqFilter1WhereFilter2 ty sub f2) r =
     (cr_type r = ty \<and>
      sql_eq (cr_filter1 r) (sql_scalar cr_filter1 (\<lambda>q. cr_type q = sub \<and> sql_eq (cr_filter2 q) f2) rows))"
| "query_matches rows (Filter2EqFilter1WhereFilter2 ty sub f2) r =
     (cr_type r = ty \<and>
      sql_eq (cr_filter2 r) (sql_scalar cr_filter1 (\<lambda>q. cr_type q = sub \<and> sql_eq (cr_filter2 q) f2) rows))"
| "query_matches rows (Filter2EqFilter2WhereFilter1 ty sub f1) r =
     (cr_type r = ty \<and>
      sql_eq (cr_filter2 r) (sql_scalar cr_filter2 (\<lambda>q. cr_type q = sub \<and> sql_eq (cr_filter1 q) f1) rows))"

fun up_to_allows :: "up_to \<Rightarrow> date_time \<Rightarrow> bool" where
  "up_to_allows UpToCurrent ts = True"
| "up_to_allows (UpToTimestamp up_to) ts = (ts \<le> up_to)"

definition build_get_certificate_query ::
  "get_certificate_query \<Rightarrow> up_to \<Rightarrow> certif_row list \<Rightarrow> certif_row list" where
  "build_get_certificate_query query up_to rows =
     filter (\<lambda>r. query_matches rows query r \<and> up_to_allows up_to (cr_timestamp r)) rows"

subsection \<open>The storage\<close>

record certif_db =
  cb_rows :: "certif_row list"
  cb_faults :: "bool list"

text \<open>One statement: its outcome is taken from the list of faults.\<close>

definition sql_statement :: "'e \<Rightarrow> (certif_row list \<Rightarrow> 'a) \<Rightarrow> (certif_db, 'e, 'a) op" where
  "sql_statement err f db =
     (case cb_faults db of
        True # rest \<Rightarrow> Some (db\<lparr>cb_faults := rest\<rparr>, Inl err)
      | False # rest \<Rightarrow> Some (db\<lparr>cb_faults := rest\<rparr>, Inr (f (cb_rows db)))
      | [] \<Rightarrow> Some (db, Inr (f (cb_rows db))))"

definition sql_execute :: "'e \<Rightarrow> (certif_row list \<Rightarrow> certif_row list) \<Rightarrow> (certif_db, 'e, unit) op" where
  "sql_execute err f = op_bind (sql_statement err f) (\<lambda>rows. op_modify (\<lambda>db. db\<lparr>cb_rows := rows\<rparr>))"

definition order_by_timestamp_desc :: "certif_row list \<Rightarrow> certif_row list" where
  "order_by_timestamp_desc rows = sort_key (\<lambda>r. - cr_timestamp r) rows"

definition order_by_timestamp_asc :: "certif_row list \<Rightarrow> certif_row list" where
  "order_by_timestamp_asc rows = sort_key cr_timestamp rows"

definition fetch_optional :: "certif_row list \<Rightarrow> certif_row option" where
  "fetch_optional rows = (case rows of [] \<Rightarrow> None | r # _ \<Rightarrow> Some r)"

definition db_get_certificate_encrypted ::
  "get_certificate_query \<Rightarrow> up_to \<Rightarrow> (certif_db, get_certificate_error, date_time \<times> byte list) op" where
  "db_get_certificate_encrypted query up_to =
     op_bind (sql_statement GetInternal (\<lambda>rows.
       fetch_optional (order_by_timestamp_desc (build_get_certificate_query query up_to rows)))) (\<lambda>maybe_row.
     case maybe_row of
       Some row \<Rightarrow> op_return (cr_timestamp row, cr_data row)
     | None \<Rightarrow>
         (case up_to of
            UpToCurrent \<Rightarrow> op_throw NonExisting
          | UpToTimestamp up_to \<Rightarrow>
              op_bind (sql_statement GetInternal (\<lambda>rows.
                fetch_optional (build_get_certificate_query query UpToCurrent rows))) (\<lambda>maybe_row.
              case maybe_row of
                Some row \<Rightarrow>
                  if cr_timestamp row > up_to then op_throw (ExistButTooRecent (cr_timestamp row))
                  else op_return (cr_timestamp row, cr_data row)
              | None \<Rightarrow> op_throw NonExisting)))"

text \<open>\<^verbatim>\<open>anyhow::Error\<close> carries no information the callers inspect.\<close>

datatype anyhow = Anyhow

definition db_get_multiple_certificates_encrypted ::
  "get_certificate_query \<Rightarrow> up_to \<Rightarrow> nat option \<Rightarrow> nat option \<Rightarrow>
   (certif_db, anyhow, (date_time \<times> byte list) list) op" where
  "db_get_multiple_certificates_encrypted query up_to offset limit =
     sql_statement Anyhow (\<lambda>rows.
       let rows = order_by_timestamp_asc (build_get_certificate_query query up_to rows);
           rows = (case (limit, offset) of
                     (Some limit, Some offset) \<Rightarrow> take limit (drop offset rows)
                   | (Some limit, None) \<Rightarrow> take limit rows
                   | (None, Some offset) \<Rightarrow> drop offset rows
                   | (None, None) \<Rightarrow> rows)
       in map (\<lambda>r. (cr_timestamp r, cr_data r)) rows)"

definition db_forget_all_certificates :: "(certif_db, anyhow, unit) op" where
  "db_forget_all_certificates = sql_execute Anyhow (\<lambda>_. [])"

definition db_add_certificate :: "any_certificate \<Rightarrow> byte list \<Rightarrow> (certif_db, anyhow, unit) op" where
  "db_add_certificate certif encrypted =
     sql_execute Anyhow (\<lambda>rows. rows @
       [\<lparr>cr_timestamp = certif_timestamp certif, cr_data = encrypted, cr_type = certif_type certif,
         cr_filter1 = fst (certif_filters certif), cr_filter2 = snd (certif_filters certif)\<rparr>])"

definition last_timestamp_of_types :: "certificate_type list \<Rightarrow> certif_row list \<Rightarrow> date_time option" where
  "last_timestamp_of_types types rows =
     map_option cr_timestamp
       (fetch_optional (order_by_timestamp_desc (filter (\<lambda>r. cr_type r \<in> set types) rows)))"

text \<open>\<^verbatim>\<open>GROUP BY filter1\<close>: one row per value, the first of the group.\<close>

fun group_by_filter1 :: "certif_row list \<Rightarrow> certif_row list" where
  "group_by_filter1 [] = []"
| "group_by_filter1 (r # rows) = r # filter (\<lambda>q. cr_filter1 q \<noteq> cr_filter1 r) (group_by_filter1 rows)"

fun vlob_id_try_from :: "filter_kind \<Rightarrow> vlob_id option" where
  "vlob_id_try_from (FBytes v) = Some v"
| "vlob_id_try_from _ = None"

definition per_realm_last_timestamps :: "certif_row list \<Rightarrow> (anyhow + (vlob_id, date_time) hashmap)" where
  "per_realm_last_timestamps rows =
     fold (\<lambda>r acc. and_then acc (\<lambda>m. and_then (ok_or Anyhow (vlob_id_try_from (cr_filter1 r)))
             (\<lambda>realm_id. Inr (hm_insert realm_id (cr_timestamp r) m))))
       (group_by_filter1 (filter (\<lambda>r. cr_type r \<in> set topic_types_realm) (order_by_timestamp_desc rows)))
       (Inr [])"

definition db_get_last_timestamps :: "(certif_db, anyhow, per_topic_last_timestamps) op" where
  "db_get_last_timestamps =
     op_bind (sql_statement Anyhow (last_timestamp_of_types topic_types_common)) (\<lambda>common.
     op_bind (sql_statement Anyhow (last_timestamp_of_types topic_types_sequester)) (\<lambda>sequester.
     op_bind (sql_statement Anyhow per_realm_last_timestamps) (\<lambda>rows.
     op_bind (op_lift rows) (\<lambda>realm.
     op_bind (sql_statement Anyhow (last_timestamp_of_types topic_types_shamir)) (\<lambda>shamir.
     op_return \<lparr>pt_common = common, pt_sequester = sequester, pt_realm = realm, pt_shamir_recovery = shamir\<rparr>)))))"

end
