(* ===== verification/Certificate_Store.thy ===== *)
theory Certificate_Store
  imports Certificate_Storage
begin

text \<open>
  The certificate store of \<^verbatim>\<open>client/src/certif/store.rs\<close>: the cache of the current view, the read methods
  that both guards share, and the write methods.

  \<open>store_guard\<close> is what a guard gives access to: the database, the cache and the event bus. The read
  methods of the two guards are one macro in the sources and one set of operations here.
\<close>

subsection \<open>Environment and state\<close>

text \<open>What the store uses of the local device and of the cryptographic libraries.\<close>

record certif_env =
  ce_codec :: certif_codec
  ce_local_symkey :: device_key
  ce_user_id :: user_id
  ce_initial_profile :: user_profile
  ce_root_verify_key :: verify_key

datatype realm_bootstrap_state =
  LocalOnly | CreatedInServer | InitialKeyRotationDone | WorkspaceBootstrapped

datatype 'a scalar_cache = Miss | Present 'a

type_synonym key_derivation = nat

datatype validated_key = ValidKey key_derivation date_time | CorruptedKey key_derivation

record realm_keys =
  rk_realm_id :: vlob_id
  rk_keys :: "validated_key list"
  rk_keys_bundle_access_key :: nat

definition rk_key_index :: "realm_keys \<Rightarrow> u64" where
  "rk_key_index k = length (rk_keys k)"

record current_view_cache =
  vc_per_topic_last_timestamps :: "per_topic_last_timestamps scalar_cache"
  vc_self_profile :: "user_profile scalar_cache"
  vc_per_user_profile :: "(user_id, user_profile) hashmap"
  vc_per_device_verify_key_and_user_id :: "(device_id, verify_key \<times> date_time \<times> user_id) hashmap"
  vc_per_realm_keys :: "(vlob_id, realm_keys) hashmap"
  vc_per_realm_bootstrap_state :: "(vlob_id, realm_bootstrap_state) hashmap"
  vc_per_realm_self_role :: "(vlob_id, realm_role option) hashmap"

definition cache_clear :: current_view_cache where
  "cache_clear = \<lparr>vc_per_topic_last_timestamps = Miss, vc_self_profile = Miss, vc_per_user_profile = [],
     vc_per_device_verify_key_and_user_id = [], vc_per_realm_keys = [], vc_per_realm_bootstrap_state = [],
     vc_per_realm_self_role = []\<rparr>"

text \<open>The events the certificate operations send.\<close>

datatype certif_event =
    EventInvalidCertificate invalid_certificate_error
  | EventNewCertificates bool "date_time option" "date_time option" "date_time option" "(vlob_id \<times> date_time) list"

record store_guard =
  sg_db :: certif_db
  sg_cache :: current_view_cache
  sg_events :: "certif_event list"

type_synonym ('e, 'a) store_op = "(store_guard, 'e, 'a) op"

definition on_db :: "(certif_db, 'e, 'a) op \<Rightarrow> ('e, 'a) store_op" where
  "on_db m s = (case m (sg_db s) of None \<Rightarrow> None | Some (db, r) \<Rightarrow> Some (s\<lparr>sg_db := db\<rparr>, r))"

definition update_cache :: "(current_view_cache \<Rightarrow> current_view_cache) \<Rightarrow> ('e, unit) store_op" where
  "update_cache f = op_modify (\<lambda>s. s\<lparr>sg_cache := f (sg_cache s)\<rparr>)"

definition read_cache :: "(current_view_cache \<Rightarrow> 'a) \<Rightarrow> ('e, 'a) store_op" where
  "read_cache f s = Some (s, Inr (f (sg_cache s)))"

definition send_event :: "certif_event \<Rightarrow> ('e, unit) store_op" where
  "send_event e = op_modify (\<lambda>s. s\<lparr>sg_events := sg_events s @ [e]\<rparr>)"

subsection \<open>Decryption\<close>

definition get_certificate_from_encrypted ::
  "certif_env \<Rightarrow> (any_certificate \<Rightarrow> 'a option) \<Rightarrow> byte list \<Rightarrow> anyhow + 'a" where
  "get_certificate_from_encrypted env as_name encrypted =
     and_then (ok_or Anyhow (dk_decrypt (ce_local_symkey env) encrypted)) (\<lambda>signed.
     case base_unsecure_load (ce_codec env) as_name signed of Inl _ \<Rightarrow> Inl Anyhow | Inr certif \<Rightarrow> Inr certif)"

fun get_multiple_certificates_from_encrypted ::
  "certif_env \<Rightarrow> (any_certificate \<Rightarrow> 'a option) \<Rightarrow> (date_time \<times> byte list) list \<Rightarrow> anyhow + 'a list" where
  "get_multiple_certificates_from_encrypted env as_name [] = Inr []"
| "get_multiple_certificates_from_encrypted env as_name ((_, encrypted) # items) =
     and_then (get_certificate_from_encrypted env as_name encrypted) (\<lambda>certif.
     and_then (get_multiple_certificates_from_encrypted env as_name items) (\<lambda>certifs. Inr (certif # certifs)))"

definition get_sequester_authority_signed_certificate_from_encrypted ::
  "certif_env \<Rightarrow> sequester_verify_key \<Rightarrow> (any_certificate \<Rightarrow> 'a option) \<Rightarrow> byte list \<Rightarrow> anyhow + 'a" where
  "get_sequester_authority_signed_certificate_from_encrypted env authority_verify_key as_name encrypted =
     and_then (ok_or Anyhow (dk_decrypt (ce_local_symkey env) encrypted)) (\<lambda>signed.
     case sequester_verify_and_load (ce_codec env) as_name signed authority_verify_key of
       Inl _ \<Rightarrow> Inl Anyhow | Inr certif \<Rightarrow> Inr certif)"

fun get_multiple_sequester_authority_signed_certificates_from_encrypted ::
  "certif_env \<Rightarrow> sequester_verify_key \<Rightarrow> (any_certificate \<Rightarrow> 'a option) \<Rightarrow> (date_time \<times> byte list) list \<Rightarrow>
   anyhow + 'a list" where
  "get_multiple_sequester_authority_signed_certificates_from_encrypted env key as_name [] = Inr []"
| "get_multiple_sequester_authority_signed_certificates_from_encrypted env key as_name ((_, encrypted) # items) =
     and_then (get_sequester_authority_signed_certificate_from_encrypted env key as_name encrypted) (\<lambda>certif.
     and_then (get_multiple_sequester_authority_signed_certificates_from_encrypted env key as_name items)
       (\<lambda>certifs. Inr (certif # certifs)))"

text \<open>
  The three shapes of the read methods: a certificate or the error that says why there is none, a
  certificate if there is one, and all the certificates of a query in the order of their timestamps.
\<close>

definition load_certificate ::
  "certif_env \<Rightarrow> (any_certificate \<Rightarrow> 'a option) \<Rightarrow> get_certificate_query \<Rightarrow> up_to \<Rightarrow>
   (get_certificate_error, 'a) store_op" where
  "load_certificate env as_name query up_to =
     op_bind (on_db (db_get_certificate_encrypted query up_to)) (\<lambda>(_, encrypted).
     op_map_err (\<lambda>_. GetInternal) (op_lift (get_certificate_from_encrypted env as_name encrypted)))"

definition load_last_certificate ::
  "certif_env \<Rightarrow> (any_certificate \<Rightarrow> 'a option) \<Rightarrow> get_certificate_query \<Rightarrow> up_to \<Rightarrow> (anyhow, 'a option) store_op" where
  "load_last_certificate env as_name query up_to =
     op_match (on_db (db_get_certificate_encrypted query up_to)) (\<lambda>outcome.
     case outcome of
       Inr (_, encrypted) \<Rightarrow>
         op_bind (op_lift (get_certificate_from_encrypted env as_name encrypted)) (\<lambda>certif. op_return (Some certif))
     | Inl NonExisting \<Rightarrow> op_return None
     | Inl (ExistButTooRecent _) \<Rightarrow> op_return None
     | Inl GetInternal \<Rightarrow> op_throw Anyhow)"

definition load_certificates ::
  "certif_env \<Rightarrow> (any_certificate \<Rightarrow> 'a option) \<Rightarrow> get_certificate_query \<Rightarrow> up_to \<Rightarrow> nat option \<Rightarrow> nat option \<Rightarrow>
   (anyhow, 'a list) store_op" where
  "load_certificates env as_name query up_to offset limit =
     op_bind (on_db (db_get_multiple_certificates_encrypted query up_to offset limit)) (\<lambda>items.
     op_lift (get_multiple_certificates_from_encrypted env as_name items))"

subsection \<open>Read methods\<close>

definition get_last_user_update_certificate ::
  "certif_env \<Rightarrow> up_to \<Rightarrow> user_id \<Rightarrow> (anyhow, user_update_certificate option) store_op" where
  "get_last_user_update_certificate env up_to user_id =
     load_last_certificate env as_user_update (Filter1 TUserUpdate (FBytes user_id)) up_to"

definition get_current_self_profile :: "certif_env \<Rightarrow> (anyhow, user_profile) store_op" where
  "get_current_self_profile env =
     op_bind (read_cache vc_self_profile) (\<lambda>cached.
     case cached of
       Present self_profile \<Rightarrow> op_return self_profile
     | Miss \<Rightarrow>
         op_bind (get_last_user_update_certificate env UpToCurrent (ce_user_id env)) (\<lambda>maybe_update.
         let self_profile = (case maybe_update of Some update \<Rightarrow> up_new_profile update
                             | None \<Rightarrow> ce_initial_profile env)
         in op_bind (update_cache (\<lambda>c. c\<lparr>vc_self_profile := Present self_profile\<rparr>)) (\<lambda>_.
            op_return self_profile)))"

definition get_last_timestamps :: "(anyhow, per_topic_last_timestamps) store_op" where
  "get_last_timestamps =
     op_bind (read_cache vc_per_topic_last_timestamps) (\<lambda>cached.
     case cached of
       Present last_timestamps \<Rightarrow> op_return last_timestamps
     | Miss \<Rightarrow>
         op_bind (on_db db_get_last_timestamps) (\<lambda>last_timestamps.
         op_bind (update_cache (\<lambda>c. c\<lparr>vc_per_topic_last_timestamps := Present last_timestamps\<rparr>)) (\<lambda>_.
         op_return last_timestamps)))"

definition get_device_verify_key_and_user_id ::
  "certif_env \<Rightarrow> up_to \<Rightarrow> device_id \<Rightarrow> (get_certificate_error, verify_key \<times> user_id) store_op" where
  "get_device_verify_key_and_user_id env up_to device_id =
     op_bind (read_cache (\<lambda>c. hm_get (vc_per_device_verify_key_and_user_id c) device_id)) (\<lambda>cached.
     case cached of
       Some (verify_key, timestamp, user_id) \<Rightarrow>
         (case up_to of
            UpToTimestamp t \<Rightarrow>
              if timestamp > t then op_throw (ExistButTooRecent timestamp) else op_return (verify_key, user_id)
          | UpToCurrent \<Rightarrow> op_return (verify_key, user_id))
     | None \<Rightarrow>
         op_bind (load_certificate env as_device (Filter1 TDevice (FBytes device_id)) up_to) (\<lambda>certif.
         op_bind (update_cache (\<lambda>c. c\<lparr>vc_per_device_verify_key_and_user_id :=
             hm_insert device_id (dc_verify_key certif, dc_timestamp certif, dc_user_id certif)
               (vc_per_device_verify_key_and_user_id c)\<rparr>)) (\<lambda>_.
         op_return (dc_verify_key certif, dc_user_id certif))))"

definition get_device_verify_key ::
  "certif_env \<Rightarrow> up_to \<Rightarrow> device_id \<Rightarrow> (get_certificate_error, verify_key) store_op" where
  "get_device_verify_key env up_to device_id =
     op_bind (get_device_verify_key_and_user_id env up_to device_id) (\<lambda>(verify_key, _). op_return verify_key)"

definition get_user_certificate ::
  "certif_env \<Rightarrow> up_to \<Rightarrow> user_id \<Rightarrow> (get_certificate_error, user_certificate) store_op" where
  "get_user_certificate env up_to user_id =
     load_certificate env as_user (Filter1 TUser (FBytes user_id)) up_to"

definition get_user_certificate_from_device_id ::
  "certif_env \<Rightarrow> up_to \<Rightarrow> device_id \<Rightarrow> (get_certificate_error, user_certificate) store_op" where
  "get_user_certificate_from_device_id env up_to device_id =
     load_certificate env as_user (Filter1EqFilter2WhereFilter1 TUser TDevice (FBytes device_id)) up_to"

definition get_user_certificates ::
  "certif_env \<Rightarrow> up_to \<Rightarrow> nat option \<Rightarrow> nat option \<Rightarrow> (anyhow, user_certificate list) store_op" where
  "get_user_certificates env up_to offset limit = load_certificates env as_user (NoFilter TUser) up_to offset limit"

definition get_device_certificate ::
  "certif_env \<Rightarrow> up_to \<Rightarrow> device_id \<Rightarrow> (get_certificate_error, device_certificate) store_op" where
  "get_device_certificate env up_to device_id =
     load_certificate env as_device (Filter1 TDevice (FBytes device_id)) up_to"

definition get_user_devices_certificates ::
  "certif_env \<Rightarrow> up_to \<Rightarrow> user_id \<Rightarrow> (anyhow, device_certificate list) store_op" where
  "get_user_devices_certificates env up_to user_id =
     load_certificates env as_device (Filter2 TDevice (FBytes user_id)) up_to None None"

definition get_revoked_user_certificate ::
  "certif_env \<Rightarrow> up_to \<Rightarrow> user_id \<Rightarrow> (anyhow, revoked_user_certificate option) store_op" where
  "get_revoked_user_certificate env up_to user_id =
     load_last_certificate env as_revoked_user (Filter1 TRevokedUser (FBytes user_id)) up_to"

definition get_revoked_user_certificate_from_device_id ::
  "certif_env \<Rightarrow> up_to \<Rightarrow> device_id \<Rightarrow> (anyhow, revoked_user_certificate option) store_op" where
  "get_revoked_user_certificate_from_device_id env up_to device_id =
     load_last_certificate env as_revoked_user
       (Filter1EqFilter2WhereFilter1 TRevokedUser TDevice (FBytes device_id)) up_to"

definition get_last_user_update_certificate_from_device_id ::
  "certif_env \<Rightarrow> up_to \<Rightarrow> device_id \<Rightarrow> (anyhow, user_update_certificate option) store_op" where
  "get_last_user_update_certificate_from_device_id env up_to device_id =
     load_last_certificate env as_user_update
       (Filter1EqFilter2WhereFilter1 TUserUpdate TDevice (FBytes device_id)) up_to"

datatype last_user_exist_and_revoked_info =
    UserUnknown
  | UserValid user_certificate
  | UserRevoked user_certificate revoked_user_certificate

definition get_last_user_exist_and_revoked_info ::
  "certif_env \<Rightarrow> up_to \<Rightarrow> user_id \<Rightarrow> (anyhow, last_user_exist_and_revoked_info) store_op" where
  "get_last_user_exist_and_revoked_info env up_to user_id =
     op_match (get_user_certificate env up_to user_id) (\<lambda>r.
     case r of
       Inl NonExisting \<Rightarrow> op_return UserUnknown
     | Inl (ExistButTooRecent _) \<Rightarrow> op_return UserUnknown
     | Inl GetInternal \<Rightarrow> op_throw Anyhow
     | Inr user_certificate \<Rightarrow>
         op_bind (get_revoked_user_certificate env up_to user_id) (\<lambda>revoked.
         op_return (case revoked of None \<Rightarrow> UserValid user_certificate
                    | Some revoked_certificate \<Rightarrow> UserRevoked user_certificate revoked_certificate)))"

definition get_last_user_realm_role ::
  "certif_env \<Rightarrow> up_to \<Rightarrow> user_id \<Rightarrow> vlob_id \<Rightarrow> (anyhow, realm_role_certificate option) store_op" where
  "get_last_user_realm_role env up_to user_id realm_id =
     load_last_certificate env as_realm_role (BothFilters TRealmRole (FBytes realm_id) (FBytes user_id)) up_to"

definition get_user_realms_roles ::
  "certif_env \<Rightarrow> up_to \<Rightarrow> user_id \<Rightarrow> (anyhow, realm_role_certificate list) store_op" where
  "get_user_realms_roles env up_to user_id =
     load_certificates env as_realm_role (Filter2 TRealmRole (FBytes user_id)) up_to None None"

definition get_self_user_realm_role ::
  "certif_env \<Rightarrow> vlob_id \<Rightarrow> (anyhow, realm_role option option) store_op" where
  "get_self_user_realm_role env realm_id =
     op_bind (read_cache (\<lambda>c. hm_get (vc_per_realm_self_role c) realm_id)) (\<lambda>cached.
     case cached of
       Some role \<Rightarrow> op_return (Some role)
     | None \<Rightarrow>
         op_bind (load_last_certificate env as_realm_role
           (BothFilters TRealmRole (FBytes realm_id) (FBytes (ce_user_id env))) UpToCurrent) (\<lambda>maybe.
         case maybe of
           None \<Rightarrow> op_return None
         | Some certif \<Rightarrow>
             op_bind (update_cache (\<lambda>c. c\<lparr>vc_per_realm_self_role :=
               hm_insert realm_id (rl_role certif) (vc_per_realm_self_role c)\<rparr>)) (\<lambda>_.
             op_return (Some (rl_role certif)))))"

text \<open>Whether a query has a certificate at all, as the bootstrap state needs it.\<close>

definition certificate_exists :: "get_certificate_query \<Rightarrow> (anyhow, bool) store_op" where
  "certificate_exists query =
     op_match (on_db (db_get_certificate_encrypted query UpToCurrent)) (\<lambda>outcome.
     case outcome of
       Inr _ \<Rightarrow> op_return True
     | Inl NonExisting \<Rightarrow> op_return False
     | Inl (ExistButTooRecent _) \<Rightarrow> op_return False
     | Inl GetInternal \<Rightarrow> op_throw Anyhow)"

definition get_realm_bootstrap_state :: "vlob_id \<Rightarrow> (anyhow, realm_bootstrap_state) store_op" where
  "get_realm_bootstrap_state realm_id =
     op_bind (read_cache (\<lambda>c. hm_get (vc_per_realm_bootstrap_state c) realm_id)) (\<lambda>cached.
     case cached of
       Some state \<Rightarrow> op_return state
     | None \<Rightarrow>
         op_bind
           (op_bind (certificate_exists (Filter1 TRealmName (FBytes realm_id))) (\<lambda>has_name.
            if has_name then op_return WorkspaceBootstrapped
            else op_bind (certificate_exists (Filter1 TRealmKeyRotation (FBytes realm_id))) (\<lambda>has_key.
            if has_key then op_return InitialKeyRotationDone
            else op_bind (certificate_exists (Filter1 TRealmRole (FBytes realm_id))) (\<lambda>has_role.
            if has_role then op_return CreatedInServer else op_return LocalOnly)))) (\<lambda>state.
         op_bind (update_cache (\<lambda>c. c\<lparr>vc_per_realm_bootstrap_state :=
           hm_insert realm_id state (vc_per_realm_bootstrap_state c)\<rparr>)) (\<lambda>_.
         op_return state)))"

definition get_realm_roles ::
  "certif_env \<Rightarrow> up_to \<Rightarrow> vlob_id \<Rightarrow> (anyhow, realm_role_certificate list) store_op" where
  "get_realm_roles env up_to realm_id =
     load_certificates env as_realm_role (Filter1 TRealmRole (FBytes realm_id)) up_to None None"

definition current_users_roles :: "realm_role_certificate list \<Rightarrow> (user_id, realm_role_certificate) hashmap" where
  "current_users_roles all_certifs =
     fold (\<lambda>certif per_user_role.
       (case rl_role certif of
          Some _ \<Rightarrow> hm_insert (rl_user_id certif) certif per_user_role
        | None \<Rightarrow> hm_remove (rl_user_id certif) per_user_role)) all_certifs []"

definition get_realm_current_users_roles ::
  "certif_env \<Rightarrow> up_to \<Rightarrow> vlob_id \<Rightarrow> (anyhow, (user_id, realm_role_certificate) hashmap) store_op" where
  "get_realm_current_users_roles env up_to realm_id =
     op_bind (get_realm_roles env up_to realm_id) (\<lambda>all_certifs. op_return (current_users_roles all_certifs))"

definition get_realm_last_name_certificate ::
  "certif_env \<Rightarrow> up_to \<Rightarrow> vlob_id \<Rightarrow> (anyhow, realm_name_certificate option) store_op" where
  "get_realm_last_name_certificate env up_to realm_id =
     load_last_certificate env as_realm_name (Filter1 TRealmName (FBytes realm_id)) up_to"

definition get_realm_name_certificates ::
  "certif_env \<Rightarrow> up_to \<Rightarrow> vlob_id \<Rightarrow> (anyhow, realm_name_certificate list) store_op" where
  "get_realm_name_certificates env up_to realm_id =
     load_certificates env as_realm_name (Filter1 TRealmName (FBytes realm_id)) up_to None None"

definition get_realm_last_key_rotation_certificate ::
  "certif_env \<Rightarrow> up_to \<Rightarrow> vlob_id \<Rightarrow> (anyhow, realm_key_rotation_certificate option) store_op" where
  "get_realm_last_key_rotation_certificate env up_to realm_id =
     load_last_certificate env as_realm_key_rotation (Filter1 TRealmKeyRotation (FBytes realm_id)) up_to"

text \<open>A query up to the current time is never too recent: the code has \<^verbatim>\<open>unreachable!\<close> there.\<close>

definition load_current_certificate ::
  "certif_env \<Rightarrow> (any_certificate \<Rightarrow> 'a option) \<Rightarrow> get_certificate_query \<Rightarrow> (anyhow, 'a option) store_op" where
  "load_current_certificate env as_name query =
     op_match (on_db (db_get_certificate_encrypted query UpToCurrent)) (\<lambda>outcome.
     case outcome of
       Inr (_, encrypted) \<Rightarrow>
         op_bind (op_lift (get_certificate_from_encrypted env as_name encrypted)) (\<lambda>certif. op_return (Some certif))
     | Inl NonExisting \<Rightarrow> op_return None
     | Inl GetInternal \<Rightarrow> op_throw Anyhow
     | Inl (ExistButTooRecent _) \<Rightarrow> op_bind (op_assert False) (\<lambda>_. op_return None))"

definition get_realm_key_rotation_certificate ::
  "certif_env \<Rightarrow> up_to \<Rightarrow> vlob_id \<Rightarrow> u64 \<Rightarrow> (anyhow, realm_key_rotation_certificate option) store_op" where
  "get_realm_key_rotation_certificate env up_to realm_id key_index =
     load_current_certificate env as_realm_key_rotation
       (BothFilters TRealmKeyRotation (FBytes realm_id) (FU64 key_index))"

definition get_realm_key_rotation_certificates ::
  "certif_env \<Rightarrow> up_to \<Rightarrow> vlob_id \<Rightarrow> (anyhow, realm_key_rotation_certificate list) store_op" where
  "get_realm_key_rotation_certificates env up_to realm_id =
     op_bind (load_certificates env as_realm_key_rotation (Filter1 TRealmKeyRotation (FBytes realm_id)) up_to None None)
       (\<lambda>certifs.
     op_bind (op_ensure (map kt_key_index certifs = [1 ..< Suc (length certifs)]) Anyhow) (\<lambda>_.
     op_return certifs))"

definition get_sequester_authority_certificate ::
  "certif_env \<Rightarrow> (anyhow, sequester_authority_certificate option) store_op" where
  "get_sequester_authority_certificate env =
     load_current_certificate env as_sequester_authority (NoFilter TSequesterAuthority)"

definition get_sequester_service_certificates ::
  "certif_env \<Rightarrow> up_to \<Rightarrow> (anyhow, sequester_service_certificate list) store_op" where
  "get_sequester_service_certificates env up_to =
     op_bind (get_sequester_authority_certificate env) (\<lambda>maybe_authority.
     case maybe_authority of
       None \<Rightarrow> op_return []
     | Some authority \<Rightarrow>
         op_bind (on_db (db_get_multiple_certificates_encrypted (NoFilter TSequesterService) up_to None None)) (\<lambda>items.
         op_lift (get_multiple_sequester_authority_signed_certificates_from_encrypted env
           (sa_verify_key_der authority) as_sequester_service items)))"

definition get_sequester_revoked_service_certificates ::
  "certif_env \<Rightarrow> up_to \<Rightarrow> (anyhow, sequester_revoked_service_certificate list) store_op" where
  "get_sequester_revoked_service_certificates env up_to =
     op_bind (get_sequester_authority_certificate env) (\<lambda>maybe_authority.
     case maybe_authority of
       None \<Rightarrow> op_return []
     | Some authority \<Rightarrow>
         op_bind (on_db (db_get_multiple_certificates_encrypted (NoFilter TSequesterRevokedService) up_to None None))
           (\<lambda>items.
         op_lift (get_multiple_sequester_authority_signed_certificates_from_encrypted env
           (sa_verify_key_der authority) as_sequester_revoked_service items)))"

definition get_sequester_revoked_service_certificate ::
  "certif_env \<Rightarrow> up_to \<Rightarrow> sequester_service_id \<Rightarrow> (anyhow, sequester_revoked_service_certificate option) store_op" where
  "get_sequester_revoked_service_certificate env up_to service_id =
     op_match (on_db (db_get_certificate_encrypted (Filter1 TSequesterRevokedService (FBytes service_id)) up_to))
       (\<lambda>outcome.
     case outcome of
       Inl NonExisting \<Rightarrow> op_return None
     | Inl (ExistButTooRecent _) \<Rightarrow> op_return None
     | Inl GetInternal \<Rightarrow> op_throw Anyhow
     | Inr (_, encrypted) \<Rightarrow>
         op_bind (get_sequester_authority_certificate env) (\<lambda>maybe_authority.
         case maybe_authority of
           None \<Rightarrow> op_return None
         | Some authority \<Rightarrow>
             op_bind (op_lift (get_sequester_authority_signed_certificate_from_encrypted env
               (sa_verify_key_der authority) as_sequester_revoked_service encrypted)) (\<lambda>certif.
             op_return (Some certif))))"

definition get_shamir_recovery_briefs ::
  "certif_env \<Rightarrow> up_to \<Rightarrow> (anyhow, shamir_recovery_brief_certificate list) store_op" where
  "get_shamir_recovery_briefs env up_to = load_certificates env as_shamir_brief (NoFilter TShamirBrief) up_to None None"

definition get_shamir_recovery_deletions ::
  "certif_env \<Rightarrow> up_to \<Rightarrow> (anyhow, shamir_recovery_deletion_certificate list) store_op" where
  "get_shamir_recovery_deletions env up_to =
     load_certificates env as_shamir_deletion (NoFilter TShamirDeletion) up_to None None"

definition get_last_shamir_recovery_brief_certificate ::
  "certif_env \<Rightarrow> up_to \<Rightarrow> (anyhow, shamir_recovery_brief_certificate option) store_op" where
  "get_last_shamir_recovery_brief_certificate env up_to =
     load_last_certificate env as_shamir_brief (NoFilter TShamirBrief) up_to"

definition get_last_shamir_recovery_brief_certificate_for_author ::
  "certif_env \<Rightarrow> up_to \<Rightarrow> user_id \<Rightarrow> (anyhow, shamir_recovery_brief_certificate option) store_op" where
  "get_last_shamir_recovery_brief_certificate_for_author env up_to author =
     load_last_certificate env as_shamir_brief (Filter1 TShamirBrief (FBytes author)) up_to"

definition get_last_shamir_recovery_share_certificate_for_recipient ::
  "certif_env \<Rightarrow> up_to \<Rightarrow> user_id \<Rightarrow> user_id \<Rightarrow> (anyhow, shamir_recovery_share_certificate option) store_op" where
  "get_last_shamir_recovery_share_certificate_for_recipient env up_to author recipient =
     load_last_certificate env as_shamir_share (BothFilters TShamirShare (FBytes author) (FBytes recipient)) up_to"

definition get_last_shamir_recovery_deletion_certificate_for_author ::
  "certif_env \<Rightarrow> up_to \<Rightarrow> user_id \<Rightarrow> (anyhow, shamir_recovery_deletion_certificate option) store_op" where
  "get_last_shamir_recovery_deletion_certificate_for_author env up_to author =
     load_last_certificate env as_shamir_deletion (Filter1 TShamirDeletion (FBytes author)) up_to"

datatype last_shamir_recovery =
    NeverSetup
  | ShamirValid shamir_recovery_brief_certificate
  | ShamirDeleted shamir_recovery_brief_certificate shamir_recovery_deletion_certificate

definition get_last_shamir_recovery_for_author ::
  "certif_env \<Rightarrow> up_to \<Rightarrow> user_id \<Rightarrow> (anyhow, last_shamir_recovery) store_op" where
  "get_last_shamir_recovery_for_author env up_to user_id =
     op_bind (get_last_shamir_recovery_brief_certificate_for_author env up_to user_id) (\<lambda>maybe_brief.
     case maybe_brief of
       None \<Rightarrow> op_return NeverSetup
     | Some last_brief_certif \<Rightarrow>
         op_bind (get_last_shamir_recovery_deletion_certificate_for_author env up_to user_id) (\<lambda>maybe_deletion.
         op_return (case maybe_deletion of
           None \<Rightarrow> ShamirValid last_brief_certif
         | Some last_deletion_certif \<Rightarrow>
             if sd_setup_to_delete_timestamp last_deletion_certif = sb_timestamp last_brief_certif
             then ShamirDeleted last_brief_certif last_deletion_certif
             else ShamirValid last_brief_certif)))"

definition get_realm_keys :: "vlob_id \<Rightarrow> ('e, realm_keys option) store_op" where
  "get_realm_keys realm_id = read_cache (\<lambda>c. hm_get (vc_per_realm_keys c) realm_id)"

definition update_cache_for_realm_keys :: "vlob_id \<Rightarrow> realm_keys \<Rightarrow> ('e, realm_keys) store_op" where
  "update_cache_for_realm_keys realm_id info =
     op_bind (read_cache (\<lambda>c. hm_get (vc_per_realm_keys c) realm_id)) (\<lambda>entry.
     case entry of
       Some known \<Rightarrow>
         if rk_key_index known < rk_key_index info
         then op_bind (update_cache (\<lambda>c. c\<lparr>vc_per_realm_keys := hm_insert realm_id info (vc_per_realm_keys c)\<rparr>))
                (\<lambda>_. op_return info)
         else op_return known
     | None \<Rightarrow>
         op_bind (update_cache (\<lambda>c. c\<lparr>vc_per_realm_keys := hm_insert realm_id info (vc_per_realm_keys c)\<rparr>))
           (\<lambda>_. op_return info))"

subsection \<open>Write methods\<close>

definition forget_all_certificates :: "(anyhow, unit) store_op" where
  "forget_all_certificates =
     op_bind (on_db db_forget_all_certificates) (\<lambda>_. update_cache (\<lambda>_. cache_clear))"

text \<open>The four methods insert the encrypted certificate and then update the cache.\<close>

definition insert_certificate :: "certif_env \<Rightarrow> any_certificate \<Rightarrow> byte list \<Rightarrow> (anyhow, unit) store_op" where
  "insert_certificate env certif signed =
     on_db (db_add_certificate certif (dk_encrypt (ce_local_symkey env) signed))"

definition cache_common_timestamp :: "date_time \<Rightarrow> current_view_cache \<Rightarrow> current_view_cache" where
  "cache_common_timestamp timestamp c = c\<lparr>vc_per_topic_last_timestamps := Present
     (case vc_per_topic_last_timestamps c of
        Present last_timestamps \<Rightarrow> last_timestamps\<lparr>pt_common := Some timestamp\<rparr>
      | Miss \<Rightarrow> \<lparr>pt_common = Some timestamp, pt_sequester = None, pt_realm = [], pt_shamir_recovery = None\<rparr>)\<rparr>"

definition cache_self_profile :: "certif_env \<Rightarrow> user_id \<Rightarrow> user_profile \<Rightarrow> current_view_cache \<Rightarrow> current_view_cache" where
  "cache_self_profile env user_id profile c =
     (let c = c\<lparr>vc_per_user_profile := hm_insert user_id profile (vc_per_user_profile c)\<rparr> in
      if user_id = ce_user_id env then c\<lparr>vc_self_profile := Present profile\<rparr> else c)"

fun cache_next_common :: "certif_env \<Rightarrow> any_certificate \<Rightarrow> current_view_cache \<Rightarrow> current_view_cache" where
  "cache_next_common env (CUser certif) c =
     cache_self_profile env (uc_user_id certif) (uc_profile certif) (cache_common_timestamp (uc_timestamp certif) c)"
| "cache_next_common env (CDevice certif) c =
     (let c = cache_common_timestamp (dc_timestamp certif) c in
      c\<lparr>vc_per_device_verify_key_and_user_id := hm_insert (dc_device_id certif)
          (dc_verify_key certif, dc_timestamp certif, dc_user_id certif) (vc_per_device_verify_key_and_user_id c)\<rparr>)"
| "cache_next_common env (CUserUpdate certif) c =
     cache_self_profile env (up_user_id certif) (up_new_profile certif) (cache_common_timestamp (up_timestamp certif) c)"
| "cache_next_common env (CRevokedUser certif) c = cache_common_timestamp (rv_timestamp certif) c"
| "cache_next_common env _ c = c"

definition add_next_common_certificate ::
  "certif_env \<Rightarrow> any_certificate \<Rightarrow> byte list \<Rightarrow> (anyhow, unit) store_op" where
  "add_next_common_certificate env certif signed =
     op_bind (insert_certificate env certif signed) (\<lambda>_. update_cache (cache_next_common env certif))"

definition cache_next_realm :: "vlob_id \<Rightarrow> date_time \<Rightarrow> bool \<Rightarrow> current_view_cache \<Rightarrow> current_view_cache" where
  "cache_next_realm realm_id timestamp new_keys_bundle c =
     (let c = c\<lparr>vc_per_topic_last_timestamps := Present
            (case vc_per_topic_last_timestamps c of
               Present last_timestamps \<Rightarrow>
                 last_timestamps\<lparr>pt_realm := hm_insert realm_id timestamp (pt_realm last_timestamps)\<rparr>
             | Miss \<Rightarrow> \<lparr>pt_common = None, pt_sequester = None, pt_realm = [(realm_id, timestamp)],
                        pt_shamir_recovery = None\<rparr>)\<rparr>;
          c = c\<lparr>vc_per_realm_self_role := hm_remove realm_id (vc_per_realm_self_role c),
                vc_per_realm_bootstrap_state := hm_remove realm_id (vc_per_realm_bootstrap_state c)\<rparr>
      in if new_keys_bundle then c\<lparr>vc_per_realm_keys := hm_remove realm_id (vc_per_realm_keys c)\<rparr> else c)"

fun realm_certificate_parts :: "any_certificate \<Rightarrow> vlob_id \<times> date_time \<times> bool" where
  "realm_certificate_parts (CRealmRole certif) = (rl_realm_id certif, rl_timestamp certif, False)"
| "realm_certificate_parts (CRealmName certif) = (rn_realm_id certif, rn_timestamp certif, False)"
| "realm_certificate_parts (CRealmKeyRotation certif) = (kt_realm_id certif, kt_timestamp certif, True)"
| "realm_certificate_parts (CRealmArchiving certif) = (ra_realm_id certif, ra_timestamp certif, False)"
| "realm_certificate_parts _ = (0, 0, False)"

definition add_next_realm_x_certificate ::
  "certif_env \<Rightarrow> any_certificate \<Rightarrow> byte list \<Rightarrow> (anyhow, unit) store_op" where
  "add_next_realm_x_certificate env certif signed =
     op_bind (insert_certificate env certif signed) (\<lambda>_.
     let (realm_id, timestamp, new_keys_bundle) = realm_certificate_parts certif in
     update_cache (cache_next_realm realm_id timestamp new_keys_bundle))"

definition cache_next_shamir :: "date_time \<Rightarrow> current_view_cache \<Rightarrow> current_view_cache" where
  "cache_next_shamir timestamp c = c\<lparr>vc_per_topic_last_timestamps := Present
     (case vc_per_topic_last_timestamps c of
        Present last_timestamps \<Rightarrow> last_timestamps\<lparr>pt_shamir_recovery := Some timestamp\<rparr>
      | Miss \<Rightarrow> \<lparr>pt_common = None, pt_sequester = None, pt_realm = [], pt_shamir_recovery = Some timestamp\<rparr>)\<rparr>"

definition add_next_shamir_recovery_certificate ::
  "certif_env \<Rightarrow> any_certificate \<Rightarrow> byte list \<Rightarrow> (anyhow, unit) store_op" where
  "add_next_shamir_recovery_certificate env certif signed =
     op_bind (insert_certificate env certif signed) (\<lambda>_.
     update_cache (cache_next_shamir (certif_timestamp certif)))"

definition cache_next_sequester :: "date_time \<Rightarrow> current_view_cache \<Rightarrow> current_view_cache" where
  "cache_next_sequester timestamp c = c\<lparr>vc_per_topic_last_timestamps := Present
     (case vc_per_topic_last_timestamps c of
        Present last_timestamps \<Rightarrow> last_timestamps\<lparr>pt_sequester := Some timestamp\<rparr>
      | Miss \<Rightarrow> \<lparr>pt_common = None, pt_sequester = Some timestamp, pt_realm = [], pt_shamir_recovery = None\<rparr>)\<rparr>"

definition add_next_sequester_certificate ::
  "certif_env \<Rightarrow> any_certificate \<Rightarrow> byte list \<Rightarrow> (anyhow, unit) store_op" where
  "add_next_sequester_certificate env certif signed =
     op_bind (insert_certificate env certif signed) (\<lambda>_.
     update_cache (cache_next_sequester (certif_timestamp certif)))"

subsection \<open>Guards\<close>

text \<open>The store itself: \<open>cs_storage\<close> is \<^const>\<open>None\<close> once stopped.\<close>

record certificates_store =
  cs_storage :: "certif_db option"
  cs_cache :: current_view_cache
  cs_events :: "certif_event list"

text \<open>
  Starting a store opens its storage with an empty cache; stopping takes the storage away before it closes
  the connection, so the store is stopped even when closing fails, and stopping again does nothing.
\<close>

definition store_start :: "certif_db \<Rightarrow> certificates_store" where
  "store_start db = \<lparr>cs_storage = Some db, cs_cache = cache_clear, cs_events = []\<rparr>"

definition store_stop :: "certificates_store \<Rightarrow> certificates_store \<times> (anyhow + unit)" where
  "store_stop cs = (cs\<lparr>cs_storage := None\<rparr>,
     case cs_storage cs of
       None \<Rightarrow> Inr ()
     | Some db \<Rightarrow> (case cb_faults db of True # _ \<Rightarrow> Inl Anyhow | _ \<Rightarrow> Inr ()))"

datatype certif_store_error = StoreHasStopped | StoreInternalError

definition db_statement :: "(anyhow, unit) store_op" where
  "db_statement = on_db (sql_statement Anyhow (\<lambda>_. ()))"

text \<open>
  \<^verbatim>\<open>for_update\<close> of the native storage: begin, run the callback, then commit or roll back according to
  its result. Each of the three statements may fail; what is not committed leaves no trace in the rows.
\<close>

definition storage_for_update :: "('e, 'a) store_op \<Rightarrow> (anyhow, 'e + 'a) store_op" where
  "storage_for_update cb s0 =
     op_bind db_statement (\<lambda>_.
     op_match cb (\<lambda>outcome.
     case outcome of
       Inr result \<Rightarrow>
         op_match db_statement (\<lambda>committed.
         case committed of
           Inr _ \<Rightarrow> op_return (Inr result)
         | Inl err \<Rightarrow> op_bind (op_modify (\<lambda>s. s\<lparr>sg_db := (sg_db s)\<lparr>cb_rows := cb_rows (sg_db s0)\<rparr>\<rparr>)) (\<lambda>_. op_throw err))
     | Inl err \<Rightarrow>
         op_bind (op_modify (\<lambda>s. s\<lparr>sg_db := (sg_db s)\<lparr>cb_rows := cb_rows (sg_db s0)\<rparr>\<rparr>)) (\<lambda>_.
         op_bind db_statement (\<lambda>_. op_return (Inl err))))) s0"

definition with_guard ::
  "certificates_store \<Rightarrow> (certif_store_error, 'a) store_op \<Rightarrow> (certificates_store \<times> (certif_store_error + 'a)) option" where
  "with_guard cs m =
     (case cs_storage cs of
        None \<Rightarrow> Some (cs, Inl StoreHasStopped)
      | Some db \<Rightarrow>
          (case m \<lparr>sg_db = db, sg_cache = cs_cache cs, sg_events = cs_events cs\<rparr> of
             None \<Rightarrow> None
           | Some (s, r) \<Rightarrow>
               Some (\<lparr>cs_storage = Some (sg_db s), cs_cache = sg_cache s, cs_events = sg_events s\<rparr>, r)))"

definition for_write ::
  "('e, 'a) store_op \<Rightarrow> certificates_store \<Rightarrow> (certificates_store \<times> (certif_store_error + ('e + 'a))) option" where
  "for_write cb cs = with_guard cs
     (op_match (storage_for_update cb) (\<lambda>outcome.
      case outcome of
        Inr (Inr res) \<Rightarrow> op_return (Inr res)
      | Inr (Inl err) \<Rightarrow> op_bind (update_cache (\<lambda>_. cache_clear)) (\<lambda>_. op_return (Inl err))
      | Inl err \<Rightarrow> op_bind (update_cache (\<lambda>_. cache_clear)) (\<lambda>_. op_throw StoreInternalError)))"

definition for_read ::
  "('e, 'a) store_op \<Rightarrow> certificates_store \<Rightarrow> (certificates_store \<times> (certif_store_error + ('e + 'a))) option" where
  "for_read cb cs = with_guard cs (op_match cb op_return)"

lemma stopped_store [simp]:
  "for_write cb (fst (store_stop cs)) = Some (fst (store_stop cs), Inl StoreHasStopped)"
  "for_read cb (fst (store_stop cs)) = Some (fst (store_stop cs), Inl StoreHasStopped)"
  "store_stop (fst (store_stop cs)) = (fst (store_stop cs), Inr ())"
  by (simp_all add: for_write_def for_read_def with_guard_def store_stop_def)

datatype ('p) for_read_requirements_error =
    ReqOffline | ReqStopped | ReqInvalidCertificate 'p | ReqInvalidRequirements | ReqInternal

text \<open>
  \<^verbatim>\<open>for_read_with_requirements\<close>: the poll of the server is a parameter that may change the store. Its
  errors are passed on as they are.
\<close>

datatype 'p poll_error = PollOffline | PollStopped | PollInvalidCertificate 'p | PollInternal

fun req_of_poll_error :: "'p poll_error \<Rightarrow> 'p for_read_requirements_error" where
  "req_of_poll_error PollOffline = ReqOffline"
| "req_of_poll_error PollStopped = ReqStopped"
| "req_of_poll_error (PollInvalidCertificate e) = ReqInvalidCertificate e"
| "req_of_poll_error PollInternal = ReqInternal"

fun req_of_store_error :: "certif_store_error \<Rightarrow> 'p for_read_requirements_error" where
  "req_of_store_error StoreHasStopped = ReqStopped"
| "req_of_store_error StoreInternalError = ReqInternal"

definition try_with_requirements ::
  "per_topic_last_timestamps \<Rightarrow> ('e, 'a) store_op \<Rightarrow> certificates_store \<Rightarrow>
   (certificates_store \<times> ('p for_read_requirements_error + ('e + 'a) option)) option" where
  "try_with_requirements needed_timestamps cb cs =
     (case for_read (op_bind (op_map_err (\<lambda>_. ReqInternal) get_last_timestamps) (\<lambda>last_stored_timestamps.
             if \<not> pt_is_up_to_date last_stored_timestamps needed_timestamps then op_return None
             else op_match cb (\<lambda>res. op_return (Some res)))) cs of
        None \<Rightarrow> None
      | Some (cs, Inl e) \<Rightarrow> Some (cs, Inl (req_of_store_error e))
      | Some (cs, Inr r) \<Rightarrow> Some (cs, r))"

definition for_read_with_requirements ::
  "(per_topic_last_timestamps \<Rightarrow> certificates_store \<Rightarrow> (certificates_store \<times> ('p poll_error + unit)) option) \<Rightarrow>
   per_topic_last_timestamps \<Rightarrow> ('e, 'a) store_op \<Rightarrow> certificates_store \<Rightarrow>
   (certificates_store \<times> ('p for_read_requirements_error + ('e + 'a))) option" where
  "for_read_with_requirements poll needed_timestamps cb cs =
     (case try_with_requirements needed_timestamps cb cs of
        None \<Rightarrow> None
      | Some (cs, Inl e) \<Rightarrow> Some (cs, Inl e)
      | Some (cs, Inr (Some res)) \<Rightarrow> Some (cs, Inr res)
      | Some (cs, Inr None) \<Rightarrow>
          (case poll needed_timestamps cs of
             None \<Rightarrow> None
           | Some (cs, Inl e) \<Rightarrow> Some (cs, Inl (req_of_poll_error e))
           | Some (cs, Inr _) \<Rightarrow>
               (case try_with_requirements needed_timestamps cb cs of
                  None \<Rightarrow> None
                | Some (cs, Inl e) \<Rightarrow> Some (cs, Inl e)
                | Some (cs, Inr (Some res)) \<Rightarrow> Some (cs, Inr res)
                | Some (cs, Inr None) \<Rightarrow> Some (cs, Inl ReqInvalidRequirements))))"

end
