(* ===== verification/Certificate_Add.thy ===== *)
theory Certificate_Add
  imports Certificate_Store
begin

text \<open>
  Adding certificates (\<^verbatim>\<open>client/src/certif/add.rs\<close>): signature, consistency with what is stored, and the
  batch that adds the certificates of one poll of the server in the order sequester, common, realms,
  shamir recovery.

  Every check is the whole method, with its steps in the order of the source. The hash maps of a batch
  and of a brief are lists in iteration order.
\<close>

datatype batch_error = InvalidCertificate invalid_certificate_error | BatchInternal

datatype maybe_redacted_switch = Switched | NoSwitch nat

type_synonym 'a add_op = "(batch_error, 'a) store_op"

definition internal :: "(anyhow, 'a) store_op \<Rightarrow> 'a add_op" where
  "internal m = op_map_err (\<lambda>_. BatchInternal) m"

definition invalid :: "invalid_certificate_error \<Rightarrow> 'a add_op" where
  "invalid what = op_throw (InvalidCertificate what)"

definition require :: "bool \<Rightarrow> invalid_certificate_error \<Rightarrow> unit add_op" where
  "require b what = op_ensure b (InvalidCertificate what)"

subsection \<open>Signatures\<close>

definition verify_by_device :: "certif_env \<Rightarrow> byte list \<Rightarrow> date_time \<Rightarrow> device_id \<Rightarrow> user_id add_op" where
  "verify_by_device env signed timestamp author =
     op_match (get_device_verify_key_and_user_id env (UpToTimestamp timestamp) author) (\<lambda>r.
     case r of
       Inr (author_verify_key, author_user_id) \<Rightarrow>
         (case verify_signature (ce_codec env) author_verify_key signed author_user_id of
            Inr author_user_id \<Rightarrow> op_return author_user_id
          | Inl err \<Rightarrow> invalid (Corrupted err))
     | Inl (ExistButTooRecent certificate_timestamp) \<Rightarrow> invalid (OlderThanAuthor certificate_timestamp)
     | Inl NonExisting \<Rightarrow> invalid NonExistingAuthor
     | Inl GetInternal \<Rightarrow> op_throw BatchInternal)"

definition verify_by_device_or_root ::
  "certif_env \<Rightarrow> byte list \<Rightarrow> date_time \<Rightarrow> certificate_signer \<Rightarrow> user_id option add_op" where
  "verify_by_device_or_root env signed timestamp author =
     (case author of
        SignedByRoot \<Rightarrow>
          (case verify_signature (ce_codec env) (ce_root_verify_key env) signed None of
             Inr author_user_id \<Rightarrow> op_return author_user_id
           | Inl err \<Rightarrow> invalid (Corrupted err))
      | SignedByUser author \<Rightarrow>
          op_bind (verify_by_device env signed timestamp author) (\<lambda>author_user_id. op_return (Some author_user_id)))"

subsection \<open>Users\<close>

definition check_user_exists :: "certif_env \<Rightarrow> date_time \<Rightarrow> user_id \<Rightarrow> user_certificate add_op" where
  "check_user_exists env up_to user_id =
     op_match (get_user_certificate env (UpToTimestamp up_to) user_id) (\<lambda>r.
     case r of
       Inr certif \<Rightarrow> op_return certif
     | Inl NonExisting \<Rightarrow> invalid NonExistingRelatedUser
     | Inl (ExistButTooRecent certificate_timestamp) \<Rightarrow> invalid (OlderThanRelatedUser certificate_timestamp)
     | Inl GetInternal \<Rightarrow> op_throw BatchInternal)"

definition check_user_not_revoked :: "certif_env \<Rightarrow> date_time \<Rightarrow> user_id \<Rightarrow> unit add_op" where
  "check_user_not_revoked env up_to user_id =
     op_bind (internal (get_revoked_user_certificate env (UpToTimestamp up_to) user_id)) (\<lambda>revoked.
     case revoked of
       None \<Rightarrow> op_return ()
     | Some revoked_certificate \<Rightarrow> invalid (RelatedUserAlreadyRevoked (rv_timestamp revoked_certificate)))"

definition get_user_profile ::
  "certif_env \<Rightarrow> date_time \<Rightarrow> user_id \<Rightarrow> user_certificate option \<Rightarrow> user_profile add_op" where
  "get_user_profile env up_to user_id already_fetched_user_certificate =
     op_bind (internal (get_last_user_update_certificate env (UpToTimestamp up_to) user_id)) (\<lambda>maybe_update.
     case maybe_update of
       Some last_update \<Rightarrow> op_return (up_new_profile last_update)
     | None \<Rightarrow>
         op_bind (case already_fetched_user_certificate of
                    Some user_certificate \<Rightarrow> op_return user_certificate
                  | None \<Rightarrow> check_user_exists env up_to user_id) (\<lambda>user_certificate.
         op_return (uc_profile user_certificate)))"

definition check_author_not_revoked_and_profile ::
  "certif_env \<Rightarrow> date_time \<Rightarrow> user_id \<Rightarrow> bool \<Rightarrow> unit add_op" where
  "check_author_not_revoked_and_profile env up_to author author_must_be_admin =
     op_bind (internal (get_revoked_user_certificate env (UpToTimestamp up_to) author)) (\<lambda>revoked.
     op_bind (case revoked of
                None \<Rightarrow> op_return ()
              | Some revoked_certificate \<Rightarrow> invalid (RevokedAuthor (rv_timestamp revoked_certificate))) (\<lambda>_.
     if author_must_be_admin
     then op_match (get_user_profile env up_to author None) (\<lambda>r.
          case r of
            Inr profile \<Rightarrow> require (profile = Admin) (AuthorNotAdmin profile)
          | Inl (InvalidCertificate _) \<Rightarrow> op_throw BatchInternal
          | Inl BatchInternal \<Rightarrow> op_throw BatchInternal)
     else op_return ()))"

subsection \<open>The common topic\<close>

text \<open>A new certificate must be younger than the last stored one of its topic, if any.\<close>

definition require_newest :: "date_time option \<Rightarrow> date_time \<Rightarrow> unit add_op" where
  "require_newest last_stored_timestamp timestamp =
     (case last_stored_timestamp of
        Some last_timestamp \<Rightarrow> require (\<not> timestamp \<le> last_timestamp) (InvalidTimestamp last_timestamp)
      | None \<Rightarrow> op_return ())"

definition check_user_certificate_consistency ::
  "certif_env \<Rightarrow> user_certificate \<Rightarrow> user_id option \<Rightarrow> unit add_op" where
  "check_user_certificate_consistency env cooked author_user_id =
     op_bind (internal get_last_timestamps) (\<lambda>last_timestamps.
     op_bind (require_newest (pt_common last_timestamps) (uc_timestamp cooked)) (\<lambda>_.
     op_bind (case author_user_id of
        Some author_user_id \<Rightarrow> check_author_not_revoked_and_profile env (uc_timestamp cooked) author_user_id True
      | None \<Rightarrow>
          op_bind (require (pt_common last_timestamps = None) RootSignatureOutOfBootstrap) (\<lambda>_.
          op_bind (internal (get_sequester_authority_certificate env)) (\<lambda>authority.
          case authority of
            Some sequester_authority_certif \<Rightarrow>
              require (sa_timestamp sequester_authority_certif = uc_timestamp cooked)
                (RootSignatureTimestampMismatch (sa_timestamp sequester_authority_certif))
          | None \<Rightarrow> op_return ()))) (\<lambda>_.
     op_match (get_user_certificate env (UpToTimestamp (uc_timestamp cooked)) (uc_user_id cooked)) (\<lambda>r.
     case r of
       Inl NonExisting \<Rightarrow> op_return ()
     | Inr _ \<Rightarrow> invalid ContentAlreadyExists
     | Inl (ExistButTooRecent _) \<Rightarrow> op_throw BatchInternal
     | Inl GetInternal \<Rightarrow> op_throw BatchInternal))))"

definition check_device_certificate_consistency ::
  "certif_env \<Rightarrow> device_certificate \<Rightarrow> user_id option \<Rightarrow> unit add_op" where
  "check_device_certificate_consistency env cooked author_user_id =
     (let user_id = dc_user_id cooked;
          is_first_user_device = (case author_user_id of
             Some author_user_id \<Rightarrow> author_user_id \<noteq> user_id | None \<Rightarrow> True)
      in
     op_bind (internal get_last_timestamps) (\<lambda>last_timestamps.
     op_bind (case pt_common last_timestamps of
                Some last_timestamp \<Rightarrow>
                  require (\<not> (dc_timestamp cooked < last_timestamp
                             \<or> dc_timestamp cooked = last_timestamp \<and> \<not> is_first_user_device))
                    (InvalidTimestamp last_timestamp)
              | None \<Rightarrow> op_return ()) (\<lambda>_.
     op_bind (case author_user_id of
                Some author_user_id \<Rightarrow>
                  if author_user_id = user_id
                  then check_author_not_revoked_and_profile env (dc_timestamp cooked) author_user_id False
                  else check_author_not_revoked_and_profile env (dc_timestamp cooked) author_user_id True
              | None \<Rightarrow> op_return ()) (\<lambda>_.
     op_bind (check_user_exists env (dc_timestamp cooked) user_id) (\<lambda>user_certif.
     op_bind (if is_first_user_device
              then op_bind (require (uc_author user_certif = dc_author cooked)
                     (UserFirstDeviceAuthorMismatch (uc_author user_certif))) (\<lambda>_.
                   require (uc_timestamp user_certif = dc_timestamp cooked)
                     (UserFirstDeviceTimestampMismatch (uc_timestamp user_certif)))
              else op_return ()) (\<lambda>_.
     op_bind (check_user_not_revoked env (dc_timestamp cooked) user_id) (\<lambda>_.
     op_match (get_device_certificate env (UpToTimestamp (dc_timestamp cooked)) (dc_device_id cooked)) (\<lambda>r.
     case r of
       Inl NonExisting \<Rightarrow> op_return ()
     | Inr _ \<Rightarrow> invalid ContentAlreadyExists
     | Inl (ExistButTooRecent _) \<Rightarrow> op_throw BatchInternal
     | Inl GetInternal \<Rightarrow> op_throw BatchInternal))))))))"

definition check_user_update_certificate_consistency ::
  "certif_env \<Rightarrow> user_update_certificate \<Rightarrow> user_id \<Rightarrow> unit add_op" where
  "check_user_update_certificate_consistency env cooked author_user_id =
     op_bind (internal get_last_timestamps) (\<lambda>last_timestamps.
     op_bind (require_newest (pt_common last_timestamps) (up_timestamp cooked)) (\<lambda>_.
     op_bind (require (author_user_id \<noteq> up_user_id cooked) SelfSigned) (\<lambda>_.
     op_bind (check_author_not_revoked_and_profile env (up_timestamp cooked) author_user_id True) (\<lambda>_.
     op_bind (check_user_exists env (up_timestamp cooked) (up_user_id cooked)) (\<lambda>user_certificate.
     op_bind (check_user_not_revoked env (up_timestamp cooked) (up_user_id cooked)) (\<lambda>_.
     op_bind (get_user_profile env (up_timestamp cooked) (up_user_id cooked) (Some user_certificate))
       (\<lambda>user_current_profile.
     require (user_current_profile \<noteq> up_new_profile cooked) ContentAlreadyExists)))))))"

definition check_revoked_user_certificate_consistency ::
  "certif_env \<Rightarrow> revoked_user_certificate \<Rightarrow> user_id \<Rightarrow> unit add_op" where
  "check_revoked_user_certificate_consistency env cooked author_user_id =
     op_bind (internal get_last_timestamps) (\<lambda>last_timestamps.
     op_bind (require_newest (pt_common last_timestamps) (rv_timestamp cooked)) (\<lambda>_.
     op_bind (require (author_user_id \<noteq> rv_user_id cooked) SelfSigned) (\<lambda>_.
     op_bind (check_author_not_revoked_and_profile env (rv_timestamp cooked) author_user_id True) (\<lambda>_.
     op_bind (check_user_exists env (rv_timestamp cooked) (rv_user_id cooked)) (\<lambda>_.
     check_user_not_revoked env (rv_timestamp cooked) (rv_user_id cooked))))))"

definition validate_common_certificate :: "certif_env \<Rightarrow> byte list \<Rightarrow> any_certificate add_op" where
  "validate_common_certificate env signed =
     (case common_unsecure_load (ce_codec env) signed of
        Inl err \<Rightarrow> invalid (Corrupted err)
      | Inr (CUser cooked) \<Rightarrow>
          op_bind (verify_by_device_or_root env signed (uc_timestamp cooked) (uc_author cooked)) (\<lambda>author_user_id.
          op_bind (check_user_certificate_consistency env cooked author_user_id) (\<lambda>_.
          op_return (CUser cooked)))
      | Inr (CDevice cooked) \<Rightarrow>
          op_bind (verify_by_device_or_root env signed (dc_timestamp cooked) (dc_author cooked)) (\<lambda>author_user_id.
          op_bind (check_device_certificate_consistency env cooked author_user_id) (\<lambda>_.
          op_return (CDevice cooked)))
      | Inr (CUserUpdate cooked) \<Rightarrow>
          op_bind (verify_by_device env signed (up_timestamp cooked) (up_author cooked)) (\<lambda>author_user_id.
          op_bind (check_user_update_certificate_consistency env cooked author_user_id) (\<lambda>_.
          op_return (CUserUpdate cooked)))
      | Inr (CRevokedUser cooked) \<Rightarrow>
          op_bind (verify_by_device env signed (rv_timestamp cooked) (rv_author cooked)) (\<lambda>author_user_id.
          op_bind (check_revoked_user_certificate_consistency env cooked author_user_id) (\<lambda>_.
          op_return (CRevokedUser cooked)))
      | Inr _ \<Rightarrow> op_throw BatchInternal)"

subsection \<open>The realm topics\<close>

definition last_role :: "user_id \<Rightarrow> realm_role_certificate list \<Rightarrow> realm_role option" where
  "last_role user_id realm_roles =
     Option.bind (find (\<lambda>role. rl_user_id role = user_id) (rev realm_roles)) rl_role"

definition check_role_change :: "realm_role \<Rightarrow> realm_role option \<Rightarrow> realm_role option \<Rightarrow> unit add_op" where
  "check_role_change author_current_role user_current_role user_new_role =
     (if user_current_role = None \<and> user_new_role = None then invalid ContentAlreadyExists
      else if user_current_role = user_new_role then invalid ContentAlreadyExists
      else if user_current_role = Some Owner \<or> user_current_role = Some Manager
              \<or> user_new_role = Some Owner \<or> user_new_role = Some Manager
      then require (author_current_role = Owner) (RealmAuthorNotOwner author_current_role)
      else require (author_current_role = Owner \<or> author_current_role = Manager)
             (RealmAuthorNotOwnerOrManager author_current_role))"

definition check_realm_role_certificate_consistency ::
  "certif_env \<Rightarrow> realm_role_certificate \<Rightarrow> user_id \<Rightarrow> unit add_op" where
  "check_realm_role_certificate_consistency env cooked author_user_id =
     op_bind (internal get_last_timestamps) (\<lambda>last_timestamps.
     op_bind (require_newest (hm_get (pt_realm last_timestamps) (rl_realm_id cooked)) (rl_timestamp cooked)) (\<lambda>_.
     op_bind (internal (get_realm_roles env (UpToTimestamp (rl_timestamp cooked)) (rl_realm_id cooked)))
       (\<lambda>realm_roles.
     op_bind (if realm_roles = []
              then op_bind (require (author_user_id = rl_user_id cooked) RealmFirstRoleMustBeSelfSigned) (\<lambda>_.
                   require (rl_role cooked = Some Owner) RealmFirstRoleMustBeOwner)
              else (case last_role author_user_id realm_roles of
                      None \<Rightarrow> invalid RealmAuthorHasNoRole
                    | Some author_current_role \<Rightarrow>
                        check_role_change author_current_role (last_role (rl_user_id cooked) realm_roles)
                          (rl_role cooked))) (\<lambda>_.
     op_bind (check_user_exists env (rl_timestamp cooked) (rl_user_id cooked)) (\<lambda>user_certificate.
     op_bind (if rl_role cooked \<noteq> None then check_user_not_revoked env (rl_timestamp cooked) (rl_user_id cooked)
              else op_return ()) (\<lambda>_.
     op_bind (get_user_profile env (rl_timestamp cooked) (rl_user_id cooked) (Some user_certificate)) (\<lambda>profile.
     require (\<not> (profile = Outsider \<and> (rl_role cooked = Some Manager \<or> rl_role cooked = Some Owner)))
       RealmOutsiderCannotBeOwnerOrManager)))))))"

text \<open>
  The checks of the name, key rotation and archiving certificates are the same steps on the realm, the
  timestamp and the author: the realm exists, the author is an owner of it, and is not revoked.
\<close>

definition check_realm_owner_certificate ::
  "certif_env \<Rightarrow> vlob_id \<Rightarrow> date_time \<Rightarrow> user_id \<Rightarrow> unit add_op" where
  "check_realm_owner_certificate env realm_id timestamp author_user_id =
     op_bind (internal get_last_timestamps) (\<lambda>last_timestamps.
     op_bind (require_newest (hm_get (pt_realm last_timestamps) realm_id) timestamp) (\<lambda>_.
     op_bind (internal (get_realm_roles env (UpToTimestamp timestamp) realm_id)) (\<lambda>realm_roles.
     op_bind (if realm_roles = [] then invalid RealmFirstCertificateMustBeRole
              else (case last_role author_user_id realm_roles of
                      None \<Rightarrow> invalid RealmAuthorHasNoRole
                    | Some author_current_role \<Rightarrow>
                        require (author_current_role = Owner) (RealmAuthorNotOwner author_current_role))) (\<lambda>_.
     check_author_not_revoked_and_profile env timestamp author_user_id False))))"

definition check_realm_name_certificate_consistency ::
  "certif_env \<Rightarrow> realm_name_certificate \<Rightarrow> user_id \<Rightarrow> unit add_op" where
  "check_realm_name_certificate_consistency env cooked =
     check_realm_owner_certificate env (rn_realm_id cooked) (rn_timestamp cooked)"

definition check_realm_key_rotation_certificate_consistency ::
  "certif_env \<Rightarrow> realm_key_rotation_certificate \<Rightarrow> user_id \<Rightarrow> unit add_op" where
  "check_realm_key_rotation_certificate_consistency env cooked =
     check_realm_owner_certificate env (kt_realm_id cooked) (kt_timestamp cooked)"

definition check_realm_archiving_certificate_consistency ::
  "certif_env \<Rightarrow> realm_archiving_certificate \<Rightarrow> user_id \<Rightarrow> unit add_op" where
  "check_realm_archiving_certificate_consistency env cooked =
     check_realm_owner_certificate env (ra_realm_id cooked) (ra_timestamp cooked)"

definition require_realm :: "vlob_id \<Rightarrow> vlob_id \<Rightarrow> unit add_op" where
  "require_realm expected got = require (got = expected) (Corrupted (UnexpectedRealmID expected got))"

definition validate_realm_certificate :: "certif_env \<Rightarrow> vlob_id \<Rightarrow> byte list \<Rightarrow> any_certificate add_op" where
  "validate_realm_certificate env realm_id signed =
     (case realm_unsecure_load (ce_codec env) signed of
        Inl err \<Rightarrow> invalid (Corrupted err)
      | Inr (CRealmRole cooked) \<Rightarrow>
          op_bind (verify_by_device env signed (rl_timestamp cooked) (rl_author cooked)) (\<lambda>author_user_id.
          op_bind (require_realm realm_id (rl_realm_id cooked)) (\<lambda>_.
          op_bind (check_realm_role_certificate_consistency env cooked author_user_id) (\<lambda>_.
          op_return (CRealmRole cooked))))
      | Inr (CRealmName cooked) \<Rightarrow>
          op_bind (verify_by_device env signed (rn_timestamp cooked) (rn_author cooked)) (\<lambda>author_user_id.
          op_bind (require_realm realm_id (rn_realm_id cooked)) (\<lambda>_.
          op_bind (check_realm_name_certificate_consistency env cooked author_user_id) (\<lambda>_.
          op_return (CRealmName cooked))))
      | Inr (CRealmKeyRotation cooked) \<Rightarrow>
          op_bind (verify_by_device env signed (kt_timestamp cooked) (kt_author cooked)) (\<lambda>author_user_id.
          op_bind (require_realm realm_id (kt_realm_id cooked)) (\<lambda>_.
          op_bind (check_realm_key_rotation_certificate_consistency env cooked author_user_id) (\<lambda>_.
          op_return (CRealmKeyRotation cooked))))
      | Inr (CRealmArchiving cooked) \<Rightarrow>
          op_bind (verify_by_device env signed (ra_timestamp cooked) (ra_author cooked)) (\<lambda>author_user_id.
          op_bind (require_realm realm_id (ra_realm_id cooked)) (\<lambda>_.
          op_bind (check_realm_archiving_certificate_consistency env cooked author_user_id) (\<lambda>_.
          op_return (CRealmArchiving cooked))))
      | Inr _ \<Rightarrow> op_throw BatchInternal)"

subsection \<open>The shamir recovery topic\<close>

definition check_shamir_recovery_brief_certificate_consistency ::
  "certif_env \<Rightarrow> shamir_recovery_brief_certificate \<Rightarrow> user_id \<Rightarrow> unit add_op" where
  "check_shamir_recovery_brief_certificate_consistency env cooked author_user_id =
     op_bind (internal get_last_timestamps) (\<lambda>last_timestamps.
     op_bind (require_newest (pt_shamir_recovery last_timestamps) (sb_timestamp cooked)) (\<lambda>_.
     op_bind (require (sb_user_id cooked = author_user_id)
       (ShamirRecoveryNotAboutSelf (sb_user_id cooked) author_user_id)) (\<lambda>_.
     op_bind (require (\<not> hm_contains_key (sb_per_recipient_shares cooked) author_user_id)
       ShamirRecoverySelfAmongRecipients) (\<lambda>_.
     op_bind (require (sb_user_id cooked = ce_user_id env
         \<or> hm_contains_key (sb_per_recipient_shares cooked) (ce_user_id env)) ShamirRecoveryUnrelatedToUs) (\<lambda>_.
     op_bind (internal (get_last_shamir_recovery_for_author env (UpToTimestamp (sb_timestamp cooked)) author_user_id))
       (\<lambda>last_shamir_recovery.
     op_bind (case last_shamir_recovery of ShamirValid _ \<Rightarrow> invalid ShamirRecoveryAlreadySetup | _ \<Rightarrow> op_return ()) (\<lambda>_.
     op_bind (check_author_not_revoked_and_profile env (sb_timestamp cooked) author_user_id False) (\<lambda>_.
     op_iter (\<lambda>recipient.
       op_bind (check_user_exists env (sb_timestamp cooked) recipient) (\<lambda>_.
       check_user_not_revoked env (sb_timestamp cooked) recipient))
       (map fst (sb_per_recipient_shares cooked))))))))))"

definition check_shamir_recovery_share_certificate_consistency ::
  "certif_env \<Rightarrow> shamir_recovery_share_certificate \<Rightarrow> user_id \<Rightarrow> unit add_op" where
  "check_shamir_recovery_share_certificate_consistency env cooked author_user_id =
     op_bind (internal get_last_timestamps) (\<lambda>last_timestamps.
     op_bind (case pt_shamir_recovery last_timestamps of
                Some last_timestamp \<Rightarrow> require (\<not> ss_timestamp cooked < last_timestamp) (InvalidTimestamp last_timestamp)
              | None \<Rightarrow> op_return ()) (\<lambda>_.
     op_bind (internal (get_last_shamir_recovery_brief_certificate env (UpToTimestamp (ss_timestamp cooked)))) (\<lambda>maybe_brief.
     op_bind (require (case maybe_brief of
                Some brief \<Rightarrow> sb_timestamp brief = ss_timestamp cooked \<and> sb_author brief = ss_author cooked
                   \<and> hm_contains_key (sb_per_recipient_shares brief) (ss_recipient cooked)
              | None \<Rightarrow> False) ShamirRecoveryMissingBriefCertificate) (\<lambda>_.
     op_bind (require (ss_recipient cooked = ce_user_id env) ShamirRecoveryUnrelatedToUs) (\<lambda>_.
     op_bind (internal (get_last_shamir_recovery_share_certificate_for_recipient env
       (UpToTimestamp (ss_timestamp cooked)) author_user_id (ss_recipient cooked))) (\<lambda>maybe_share.
     op_bind (require (case maybe_share of
                Some other_share \<Rightarrow> \<not> (ss_author other_share = ss_author cooked
                   \<and> ss_timestamp other_share = ss_timestamp cooked)
              | None \<Rightarrow> True) ContentAlreadyExists) (\<lambda>_.
     op_bind (require (ss_user_id cooked = author_user_id)
       (ShamirRecoveryNotAboutSelf (ss_user_id cooked) author_user_id)) (\<lambda>_.
     check_author_not_revoked_and_profile env (ss_timestamp cooked) author_user_id False))))))))"

definition check_shamir_recovery_deletion_certificate_consistency ::
  "certif_env \<Rightarrow> shamir_recovery_deletion_certificate \<Rightarrow> user_id \<Rightarrow> unit add_op" where
  "check_shamir_recovery_deletion_certificate_consistency env cooked author_user_id =
     op_bind (internal get_last_timestamps) (\<lambda>last_timestamps.
     op_bind (require_newest (pt_shamir_recovery last_timestamps) (sd_timestamp cooked)) (\<lambda>_.
     op_bind (require (sd_setup_to_delete_user_id cooked = author_user_id)
       (ShamirRecoveryNotAboutSelf (sd_setup_to_delete_user_id cooked) author_user_id)) (\<lambda>_.
     op_bind (internal (get_last_shamir_recovery_for_author env (UpToTimestamp (sd_timestamp cooked)) author_user_id))
       (\<lambda>last_shamir_recovery.
     op_bind (case last_shamir_recovery of
        ShamirValid last_certif \<Rightarrow>
          if sb_timestamp last_certif = sd_setup_to_delete_timestamp cooked
          then op_return (map fst (sb_per_recipient_shares last_certif))
          else invalid ShamirRecoveryDeletionMustReferenceLastSetup
      | ShamirDeleted last_certif removed_certif \<Rightarrow>
          if sb_timestamp last_certif = sd_setup_to_delete_timestamp cooked
          then invalid (ShamirRecoveryAlreadyDeleted (sd_timestamp removed_certif))
          else invalid ShamirRecoveryDeletionMustReferenceLastSetup
      | NeverSetup \<Rightarrow> invalid ShamirRecoveryDeletionMustReferenceLastSetup) (\<lambda>setup_recipients.
     op_bind (require (set (sd_share_recipients cooked) = set setup_recipients)
       (ShamirRecoveryDeletionRecipientsMismatch setup_recipients)) (\<lambda>_.
     op_bind (op_assert (sd_setup_to_delete_user_id cooked = ce_user_id env
       \<or> ce_user_id env \<in> set (sd_share_recipients cooked))) (\<lambda>_.
     check_author_not_revoked_and_profile env (sd_timestamp cooked) author_user_id False)))))))"

definition validate_shamir_recovery_certificate :: "certif_env \<Rightarrow> byte list \<Rightarrow> any_certificate add_op" where
  "validate_shamir_recovery_certificate env signed =
     (case shamir_unsecure_load (ce_codec env) signed of
        Inl err \<Rightarrow> invalid (Corrupted err)
      | Inr (CShamirBrief cooked) \<Rightarrow>
          op_bind (verify_by_device env signed (sb_timestamp cooked) (sb_author cooked)) (\<lambda>author_user_id.
          op_bind (check_shamir_recovery_brief_certificate_consistency env cooked author_user_id) (\<lambda>_.
          op_return (CShamirBrief cooked)))
      | Inr (CShamirShare cooked) \<Rightarrow>
          op_bind (verify_by_device env signed (ss_timestamp cooked) (ss_author cooked)) (\<lambda>author_user_id.
          op_bind (check_shamir_recovery_share_certificate_consistency env cooked author_user_id) (\<lambda>_.
          op_return (CShamirShare cooked)))
      | Inr (CShamirDeletion cooked) \<Rightarrow>
          op_bind (verify_by_device env signed (sd_timestamp cooked) (sd_author cooked)) (\<lambda>author_user_id.
          op_bind (check_shamir_recovery_deletion_certificate_consistency env cooked author_user_id) (\<lambda>_.
          op_return (CShamirDeletion cooked)))
      | Inr _ \<Rightarrow> op_throw BatchInternal)"

subsection \<open>The sequester topic\<close>

definition check_sequester_authority_certificate_consistency :: "unit add_op" where
  "check_sequester_authority_certificate_consistency =
     op_bind (internal get_last_timestamps) (\<lambda>stored_last_timestamps.
     require (pt_is_empty stored_last_timestamps) SequesterAuthorityMustBeFirst)"

definition validate_sequester_authority_certificate :: "certif_env \<Rightarrow> byte list \<Rightarrow> any_certificate add_op" where
  "validate_sequester_authority_certificate env signed =
     (case sequester_authority_unsecure_load (ce_codec env) signed of
        Inl err \<Rightarrow> invalid (Corrupted err)
      | Inr unsecure \<Rightarrow>
          (case verify_signature (ce_codec env) (ce_root_verify_key env) signed unsecure of
             Inl err \<Rightarrow> invalid (Corrupted err)
           | Inr cooked \<Rightarrow>
               op_bind check_sequester_authority_certificate_consistency (\<lambda>_.
               op_return (CSequesterAuthority cooked))))"

definition check_sequester_service_certificate_consistency ::
  "certif_env \<Rightarrow> date_time \<Rightarrow> sequester_service_certificate \<Rightarrow> unit add_op" where
  "check_sequester_service_certificate_consistency env last_stored_sequester_timestamp cooked =
     op_bind (require (\<not> sv_timestamp cooked \<le> last_stored_sequester_timestamp)
       (InvalidTimestamp last_stored_sequester_timestamp)) (\<lambda>_.
     op_bind (internal (get_sequester_service_certificates env (UpToTimestamp (sv_timestamp cooked))))
       (\<lambda>existing_services.
     op_iter (\<lambda>existing_service.
       require (sv_service_id existing_service \<noteq> sv_service_id cooked) ContentAlreadyExists) existing_services))"

definition check_sequester_revoked_service_certificate_consistency ::
  "certif_env \<Rightarrow> date_time \<Rightarrow> sequester_revoked_service_certificate \<Rightarrow> unit add_op" where
  "check_sequester_revoked_service_certificate_consistency env last_stored_sequester_timestamp cooked =
     op_bind (require (\<not> sr_timestamp cooked \<le> last_stored_sequester_timestamp)
       (InvalidTimestamp last_stored_sequester_timestamp)) (\<lambda>_.
     op_bind (internal (get_sequester_revoked_service_certificate env (UpToTimestamp (sr_timestamp cooked))
       (sr_service_id cooked))) (\<lambda>revoked.
     case revoked of
       None \<Rightarrow> op_return ()
     | Some revoked_certificate \<Rightarrow> invalid (RelatedSequesterServiceAlreadyRevoked (sr_timestamp revoked_certificate))))"

definition validate_sequester_non_authority_certificate ::
  "certif_env \<Rightarrow> date_time \<Rightarrow> byte list \<Rightarrow> any_certificate add_op" where
  "validate_sequester_non_authority_certificate env last_stored_sequester_timestamp signed =
     op_bind (internal (get_sequester_authority_certificate env)) (\<lambda>maybe_authority.
     case maybe_authority of
       None \<Rightarrow> invalid NotASequesteredOrganization
     | Some authority \<Rightarrow>
         (case sequester_verify_and_load (ce_codec env) as_sequester_service signed (sa_verify_key_der authority) of
            Inr cooked \<Rightarrow>
              op_bind (check_sequester_service_certificate_consistency env last_stored_sequester_timestamp cooked) (\<lambda>_.
              op_return (CSequesterService cooked))
          | Inl _ \<Rightarrow>
              (case sequester_verify_and_load (ce_codec env) as_sequester_revoked_service signed
                      (sa_verify_key_der authority) of
                 Inr cooked \<Rightarrow>
                   op_bind (check_sequester_revoked_service_certificate_consistency env
                     last_stored_sequester_timestamp cooked) (\<lambda>_.
                   op_return (CSequesterRevokedService cooked))
               | Inl err \<Rightarrow> invalid (Corrupted err))))"

definition validate_sequester_certificate :: "certif_env \<Rightarrow> byte list \<Rightarrow> any_certificate add_op" where
  "validate_sequester_certificate env signed =
     op_bind (internal get_last_timestamps) (\<lambda>last_timestamps.
     case pt_sequester last_timestamps of
       None \<Rightarrow> validate_sequester_authority_certificate env signed
     | Some last_sequester_timestamp \<Rightarrow>
         validate_sequester_non_authority_certificate env last_sequester_timestamp signed)"

subsection \<open>The batch\<close>

definition send_event_on_invalid_certificate :: "'a add_op \<Rightarrow> 'a add_op" where
  "send_event_on_invalid_certificate m =
     op_match m (\<lambda>r.
     case r of
       Inl (InvalidCertificate what) \<Rightarrow>
         op_bind (send_event (EventInvalidCertificate what)) (\<lambda>_. op_throw (InvalidCertificate what))
     | Inl BatchInternal \<Rightarrow> op_throw BatchInternal
     | Inr x \<Rightarrow> op_return x)"

fun add_certificates ::
  "(byte list \<Rightarrow> any_certificate add_op) \<Rightarrow> (any_certificate \<Rightarrow> byte list \<Rightarrow> (anyhow, unit) store_op) \<Rightarrow>
   byte list list \<Rightarrow> nat \<Rightarrow> nat add_op" where
  "add_certificates validate add_next [] new_certificates = op_return new_certificates"
| "add_certificates validate add_next (signed # rest) new_certificates =
     op_bind (send_event_on_invalid_certificate (validate signed)) (\<lambda>cooked.
     op_bind (internal (add_next cooked signed)) (\<lambda>_.
     add_certificates validate add_next rest (new_certificates + 1)))"

fun add_realms_certificates ::
  "certif_env \<Rightarrow> (vlob_id \<times> byte list list) list \<Rightarrow> nat \<Rightarrow> nat add_op" where
  "add_realms_certificates env [] new_certificates = op_return new_certificates"
| "add_realms_certificates env ((realm_id, certificates) # rest) new_certificates =
     op_bind (add_certificates (validate_realm_certificate env realm_id) (add_next_realm_x_certificate env)
       certificates new_certificates) (\<lambda>new_certificates.
     add_realms_certificates env rest new_certificates)"

text \<open>\<open>None\<close> expects anything, \<open>Some brief\<close> expects the share of that brief for our user.\<close>

definition next_shamir_expect ::
  "certif_env \<Rightarrow> shamir_recovery_brief_certificate option \<Rightarrow> any_certificate \<Rightarrow>
   shamir_recovery_brief_certificate option add_op" where
  "next_shamir_expect env expect_next_certif cooked =
     (case expect_next_certif of
        None \<Rightarrow>
          (case cooked of
             CShamirBrief brief \<Rightarrow>
               op_return (if hm_contains_key (sb_per_recipient_shares brief) (ce_user_id env) then Some brief else None)
           | _ \<Rightarrow> op_return None)
      | Some brief \<Rightarrow>
          (case cooked of
             CShamirShare share \<Rightarrow>
               op_bind (op_assert (ss_recipient share = ce_user_id env)) (\<lambda>_. op_return None)
           | _ \<Rightarrow> invalid (ShamirRecoveryMissingShare (ce_user_id env))))"

fun add_shamir_certificates ::
  "certif_env \<Rightarrow> shamir_recovery_brief_certificate option \<Rightarrow> byte list list \<Rightarrow> nat \<Rightarrow>
   (shamir_recovery_brief_certificate option \<times> nat) add_op" where
  "add_shamir_certificates env expect_next_certif [] new_certificates =
     op_return (expect_next_certif, new_certificates)"
| "add_shamir_certificates env expect_next_certif (signed # rest) new_certificates =
     op_bind (send_event_on_invalid_certificate (validate_shamir_recovery_certificate env signed)) (\<lambda>cooked.
     op_bind (next_shamir_expect env expect_next_certif cooked) (\<lambda>expect_next_certif.
     op_bind (internal (add_next_shamir_recovery_certificate env cooked signed)) (\<lambda>_.
     add_shamir_certificates env expect_next_certif rest (new_certificates + 1))))"

definition add_certificates_batch ::
  "certif_env \<Rightarrow> byte list list \<Rightarrow> byte list list \<Rightarrow> byte list list \<Rightarrow> (vlob_id \<times> byte list list) list \<Rightarrow>
   maybe_redacted_switch add_op" where
  "add_certificates_batch env common_certificates sequester_certificates shamir_recovery_certificates
     realm_certificates =
     (if common_certificates = [] \<and> sequester_certificates = [] \<and> shamir_recovery_certificates = []
         \<and> realm_certificates = []
      then op_return (NoSwitch 0)
      else
     op_bind (internal get_last_timestamps) (\<lambda>initial_stored_last_timestamps.
     let storage_initially_empty = pt_is_empty initial_stored_last_timestamps in
     op_bind (internal (get_current_self_profile env)) (\<lambda>initial_self_profile.
     op_bind (add_certificates (validate_sequester_certificate env) (add_next_sequester_certificate env)
       sequester_certificates 0) (\<lambda>new_certificates.
     op_bind (add_certificates (validate_common_certificate env) (add_next_common_certificate env)
       common_certificates new_certificates) (\<lambda>new_certificates.
     op_bind (add_realms_certificates env realm_certificates new_certificates) (\<lambda>new_certificates.
     op_bind (add_shamir_certificates env None shamir_recovery_certificates new_certificates)
       (\<lambda>(expect_next_certif, new_certificates).
     op_bind (require (expect_next_certif = None) (ShamirRecoveryMissingShare (ce_user_id env))) (\<lambda>_.
     op_bind (if \<not> storage_initially_empty
              then op_bind (internal (get_current_self_profile env)) (\<lambda>new_self_profile.
                   op_return ((initial_self_profile = Outsider) \<noteq> (new_self_profile = Outsider)))
              else op_return False) (\<lambda>redacted_switch.
     if redacted_switch
     then op_bind (internal forget_all_certificates) (\<lambda>_. op_return Switched)
     else
     op_bind (send_event (EventNewCertificates storage_initially_empty
       (if common_certificates = [] then None else pt_common initial_stored_last_timestamps)
       (if sequester_certificates = [] then None else pt_sequester initial_stored_last_timestamps)
       (if shamir_recovery_certificates = [] then None else pt_shamir_recovery initial_stored_last_timestamps)
       (List.map_filter (\<lambda>(realm_id, _). map_option (\<lambda>ts. (realm_id, ts))
          (hm_get (pt_realm initial_stored_last_timestamps) realm_id)) realm_certificates))) (\<lambda>_.
     op_return (NoSwitch new_certificates)))))))))))"

end
