(* ===== verification/Certificate_Log.thy ===== *)
theory Certificate_Log
  imports Certificate_Add
begin

text \<open>
  The contract of the certificate store. The database holds a log of certificates; a certificate may
  be appended when \<open>certif_ok\<close> holds of it and of the log, and \<open>log_ok\<close> are the logs built that way.

  \<open>certif_ok\<close> is the specification of the validation: it says, without storage, cache, queries or
  monad, which certificates the code accepts after which others.
\<close>

type_synonym certif_log = "any_certificate list"

subsection \<open>What a log says\<close>

definition latest :: "(any_certificate \<Rightarrow> bool) \<Rightarrow> up_to \<Rightarrow> certif_log \<Rightarrow> any_certificate option" where
  "latest P up_to l =
     (let cs = filter (\<lambda>c. P c \<and> up_to_allows up_to (certif_timestamp c)) l
      in if cs = [] then None else Some (last cs))"

fun is_user :: "user_id \<Rightarrow> any_certificate \<Rightarrow> bool" where
  "is_user u (CUser c) = (uc_user_id c = u)" | "is_user u _ = False"

fun is_device :: "device_id \<Rightarrow> any_certificate \<Rightarrow> bool" where
  "is_device d (CDevice c) = (dc_device_id c = d)" | "is_device d _ = False"

fun is_update :: "user_id \<Rightarrow> any_certificate \<Rightarrow> bool" where
  "is_update u (CUserUpdate c) = (up_user_id c = u)" | "is_update u _ = False"

fun is_revocation :: "user_id \<Rightarrow> any_certificate \<Rightarrow> bool" where
  "is_revocation u (CRevokedUser c) = (rv_user_id c = u)" | "is_revocation u _ = False"

fun is_role_in :: "vlob_id \<Rightarrow> any_certificate \<Rightarrow> bool" where
  "is_role_in r (CRealmRole c) = (rl_realm_id c = r)" | "is_role_in r _ = False"

fun is_brief :: "any_certificate \<Rightarrow> bool" where
  "is_brief (CShamirBrief _) = True" | "is_brief _ = False"

fun is_brief_of :: "user_id \<Rightarrow> any_certificate \<Rightarrow> bool" where
  "is_brief_of u (CShamirBrief c) = (sb_user_id c = u)" | "is_brief_of u _ = False"

fun is_share_of :: "user_id \<Rightarrow> user_id \<Rightarrow> any_certificate \<Rightarrow> bool" where
  "is_share_of u r (CShamirShare c) = (ss_user_id c = u \<and> ss_recipient c = r)" | "is_share_of u r _ = False"

fun is_deletion_of :: "user_id \<Rightarrow> any_certificate \<Rightarrow> bool" where
  "is_deletion_of u (CShamirDeletion c) = (sd_setup_to_delete_user_id c = u)" | "is_deletion_of u _ = False"

fun is_authority :: "any_certificate \<Rightarrow> bool" where
  "is_authority (CSequesterAuthority _) = True" | "is_authority _ = False"

fun is_service :: "any_certificate \<Rightarrow> bool" where
  "is_service (CSequesterService _) = True" | "is_service _ = False"

fun is_service_revocation :: "sequester_service_id \<Rightarrow> any_certificate \<Rightarrow> bool" where
  "is_service_revocation i (CSequesterRevokedService c) = (sr_service_id c = i)" | "is_service_revocation i _ = False"

abbreviation at :: "date_time \<Rightarrow> up_to" where
  "at t \<equiv> UpToTimestamp t"

definition device_at :: "certif_log \<Rightarrow> date_time \<Rightarrow> device_id \<Rightarrow> device_certificate option" where
  "device_at l t d = Option.bind (latest (is_device d) (at t) l) as_device"

definition user_at :: "certif_log \<Rightarrow> date_time \<Rightarrow> user_id \<Rightarrow> user_certificate option" where
  "user_at l t u = Option.bind (latest (is_user u) (at t) l) as_user"

definition revoked_at :: "certif_log \<Rightarrow> date_time \<Rightarrow> user_id \<Rightarrow> bool" where
  "revoked_at l t u \<longleftrightarrow> latest (is_revocation u) (at t) l \<noteq> None"

definition profile_at :: "certif_log \<Rightarrow> date_time \<Rightarrow> user_id \<Rightarrow> user_profile option" where
  "profile_at l t u =
     (case Option.bind (latest (is_update u) (at t) l) as_user_update of
        Some update \<Rightarrow> Some (up_new_profile update)
      | None \<Rightarrow> map_option uc_profile (user_at l t u))"

definition roles_at :: "certif_log \<Rightarrow> date_time \<Rightarrow> vlob_id \<Rightarrow> realm_role_certificate list" where
  "roles_at l t r = List.map_filter as_realm_role (filter (\<lambda>c. is_role_in r c \<and> certif_timestamp c \<le> t) l)"

definition shamir_at :: "certif_log \<Rightarrow> date_time \<Rightarrow> user_id \<Rightarrow> last_shamir_recovery" where
  "shamir_at l t u =
     (case Option.bind (latest (is_brief_of u) (at t) l) as_shamir_brief of
        None \<Rightarrow> NeverSetup
      | Some brief \<Rightarrow>
          (case Option.bind (latest (is_deletion_of u) (at t) l) as_shamir_deletion of
             None \<Rightarrow> ShamirValid brief
           | Some deletion \<Rightarrow>
               if sd_setup_to_delete_timestamp deletion = sb_timestamp brief then ShamirDeleted brief deletion
               else ShamirValid brief))"

definition authority_of :: "certif_log \<Rightarrow> sequester_authority_certificate option" where
  "authority_of l = Option.bind (latest is_authority UpToCurrent l) as_sequester_authority"

text \<open>Every stored certificate of the topic is strictly older.\<close>

definition newest :: "certif_log \<Rightarrow> any_certificate \<Rightarrow> bool" where
  "newest l c \<longleftrightarrow> list_all (\<lambda>c'. certif_topic c' = certif_topic c \<longrightarrow> certif_timestamp c' < certif_timestamp c) l"

definition not_older :: "certif_log \<Rightarrow> any_certificate \<Rightarrow> bool" where
  "not_older l c \<longleftrightarrow> list_all (\<lambda>c'. certif_topic c' = certif_topic c \<longrightarrow> certif_timestamp c' \<le> certif_timestamp c) l"

definition topic_empty :: "certif_log \<Rightarrow> topic \<Rightarrow> bool" where
  "topic_empty l t \<longleftrightarrow> list_all (\<lambda>c. certif_topic c \<noteq> t) l"

subsection \<open>Which certificates are accepted\<close>

definition active_admin :: "certif_log \<Rightarrow> date_time \<Rightarrow> user_id \<Rightarrow> bool" where
  "active_admin l t u \<longleftrightarrow> \<not> revoked_at l t u \<and> profile_at l t u = Some Admin"

fun user_ok :: "certif_log \<Rightarrow> user_certificate \<Rightarrow> user_id option \<Rightarrow> bool" where
  "user_ok l c author \<longleftrightarrow>
     newest l (CUser c) \<and>
     (case author of
        Some a \<Rightarrow> active_admin l (uc_timestamp c) a
      | None \<Rightarrow> topic_empty l CommonTopic \<and>
          (case authority_of l of Some authority \<Rightarrow> sa_timestamp authority = uc_timestamp c | None \<Rightarrow> True)) \<and>
     list_all (\<lambda>c'. \<not> is_user (uc_user_id c) c') l"

fun device_ok :: "certif_log \<Rightarrow> device_certificate \<Rightarrow> user_id option \<Rightarrow> bool" where
  "device_ok l c author \<longleftrightarrow>
     (if author = Some (dc_user_id c)
      then newest l (CDevice c) \<and> \<not> revoked_at l (dc_timestamp c) (dc_user_id c)
        \<and> user_at l (dc_timestamp c) (dc_user_id c) \<noteq> None
      else not_older l (CDevice c)
        \<and> (case author of Some a \<Rightarrow> active_admin l (dc_timestamp c) a | None \<Rightarrow> True)
        \<and> (case user_at l (dc_timestamp c) (dc_user_id c) of
             Some u \<Rightarrow> uc_author u = dc_author c \<and> uc_timestamp u = dc_timestamp c
           | None \<Rightarrow> False)) \<and>
     \<not> revoked_at l (dc_timestamp c) (dc_user_id c) \<and>
     list_all (\<lambda>c'. \<not> is_device (dc_device_id c) c') l"

fun user_update_ok :: "certif_log \<Rightarrow> user_update_certificate \<Rightarrow> user_id \<Rightarrow> bool" where
  "user_update_ok l c a \<longleftrightarrow>
     newest l (CUserUpdate c) \<and> a \<noteq> up_user_id c \<and> active_admin l (up_timestamp c) a \<and>
     user_at l (up_timestamp c) (up_user_id c) \<noteq> None \<and>
     \<not> revoked_at l (up_timestamp c) (up_user_id c) \<and>
     profile_at l (up_timestamp c) (up_user_id c) \<noteq> Some (up_new_profile c)"

fun revoked_user_ok :: "certif_log \<Rightarrow> revoked_user_certificate \<Rightarrow> user_id \<Rightarrow> bool" where
  "revoked_user_ok l c a \<longleftrightarrow>
     newest l (CRevokedUser c) \<and> a \<noteq> rv_user_id c \<and> active_admin l (rv_timestamp c) a \<and>
     user_at l (rv_timestamp c) (rv_user_id c) \<noteq> None \<and>
     \<not> revoked_at l (rv_timestamp c) (rv_user_id c)"

text \<open>Who may change which role: the table of \<open>check_role_change\<close>.\<close>

definition may_change_role :: "realm_role \<Rightarrow> realm_role option \<Rightarrow> realm_role option \<Rightarrow> bool" where
  "may_change_role author current new \<longleftrightarrow>
     current \<noteq> new \<and>
     (if {current, new} \<inter> {Some Owner, Some Manager} = {} then author \<in> {Owner, Manager} else author = Owner)"

fun realm_role_ok :: "certif_log \<Rightarrow> realm_role_certificate \<Rightarrow> user_id \<Rightarrow> bool" where
  "realm_role_ok l c a \<longleftrightarrow>
     newest l (CRealmRole c) \<and>
     (let roles = roles_at l (rl_timestamp c) (rl_realm_id c) in
      if roles = [] then a = rl_user_id c \<and> rl_role c = Some Owner
      else (case last_role a roles of
              None \<Rightarrow> False
            | Some author_role \<Rightarrow> may_change_role author_role (last_role (rl_user_id c) roles) (rl_role c))) \<and>
     user_at l (rl_timestamp c) (rl_user_id c) \<noteq> None \<and>
     (rl_role c \<noteq> None \<longrightarrow> \<not> revoked_at l (rl_timestamp c) (rl_user_id c)) \<and>
     \<not> (profile_at l (rl_timestamp c) (rl_user_id c) = Some Outsider \<and> rl_role c \<in> {Some Manager, Some Owner})"

definition realm_owner_ok :: "certif_log \<Rightarrow> any_certificate \<Rightarrow> vlob_id \<Rightarrow> user_id \<Rightarrow> bool" where
  "realm_owner_ok l c r a \<longleftrightarrow>
     newest l c \<and> last_role a (roles_at l (certif_timestamp c) r) = Some Owner \<and>
     \<not> revoked_at l (certif_timestamp c) a"

fun brief_ok :: "user_id \<Rightarrow> certif_log \<Rightarrow> shamir_recovery_brief_certificate \<Rightarrow> user_id \<Rightarrow> bool" where
  "brief_ok self l c a \<longleftrightarrow>
     newest l (CShamirBrief c) \<and> sb_user_id c = a \<and>
     a \<notin> fst ` set (sb_per_recipient_shares c) \<and>
     (sb_user_id c = self \<or> self \<in> fst ` set (sb_per_recipient_shares c)) \<and>
     (case shamir_at l (sb_timestamp c) a of ShamirValid _ \<Rightarrow> False | _ \<Rightarrow> True) \<and>
     \<not> revoked_at l (sb_timestamp c) a \<and>
     (\<forall>(recipient, n) \<in> set (sb_per_recipient_shares c).
        user_at l (sb_timestamp c) recipient \<noteq> None \<and> \<not> revoked_at l (sb_timestamp c) recipient)"

fun share_ok :: "user_id \<Rightarrow> certif_log \<Rightarrow> shamir_recovery_share_certificate \<Rightarrow> user_id \<Rightarrow> bool" where
  "share_ok self l c a \<longleftrightarrow>
     not_older l (CShamirShare c) \<and>
     (case Option.bind (latest is_brief (at (ss_timestamp c)) l) as_shamir_brief of
        Some brief \<Rightarrow> sb_timestamp brief = ss_timestamp c \<and> sb_author brief = ss_author c
          \<and> ss_recipient c \<in> fst ` set (sb_per_recipient_shares brief)
      | None \<Rightarrow> False) \<and>
     ss_recipient c = self \<and>
     (case Option.bind (latest (is_share_of a (ss_recipient c)) (at (ss_timestamp c)) l) as_shamir_share of
        Some other \<Rightarrow> \<not> (ss_author other = ss_author c \<and> ss_timestamp other = ss_timestamp c)
      | None \<Rightarrow> True) \<and>
     ss_user_id c = a \<and> \<not> revoked_at l (ss_timestamp c) a"

fun deletion_ok :: "certif_log \<Rightarrow> shamir_recovery_deletion_certificate \<Rightarrow> user_id \<Rightarrow> bool" where
  "deletion_ok l c a \<longleftrightarrow>
     newest l (CShamirDeletion c) \<and> sd_setup_to_delete_user_id c = a \<and>
     (case shamir_at l (sd_timestamp c) a of
        ShamirValid brief \<Rightarrow> sb_timestamp brief = sd_setup_to_delete_timestamp c
          \<and> set (sd_share_recipients c) = fst ` set (sb_per_recipient_shares brief)
      | _ \<Rightarrow> False) \<and>
     \<not> revoked_at l (sd_timestamp c) a"

definition author_user :: "certif_log \<Rightarrow> date_time \<Rightarrow> device_id \<Rightarrow> user_id option" where
  "author_user l t d = map_option dc_user_id (device_at l t d)"

fun certif_ok :: "user_id \<Rightarrow> certif_log \<Rightarrow> any_certificate \<Rightarrow> bool" where
  "certif_ok self l (CUser c) \<longleftrightarrow>
     (case uc_author c of
        SignedByRoot \<Rightarrow> user_ok l c None
      | SignedByUser d \<Rightarrow> (\<exists>a. author_user l (uc_timestamp c) d = Some a \<and> user_ok l c (Some a)))"
| "certif_ok self l (CDevice c) \<longleftrightarrow>
     (case dc_author c of
        SignedByRoot \<Rightarrow> device_ok l c None
      | SignedByUser d \<Rightarrow> (\<exists>a. author_user l (dc_timestamp c) d = Some a \<and> device_ok l c (Some a)))"
| "certif_ok self l (CUserUpdate c) \<longleftrightarrow>
     (\<exists>a. author_user l (up_timestamp c) (up_author c) = Some a \<and> user_update_ok l c a)"
| "certif_ok self l (CRevokedUser c) \<longleftrightarrow>
     (\<exists>a. author_user l (rv_timestamp c) (rv_author c) = Some a \<and> revoked_user_ok l c a)"
| "certif_ok self l (CRealmRole c) \<longleftrightarrow>
     (\<exists>a. author_user l (rl_timestamp c) (rl_author c) = Some a \<and> realm_role_ok l c a)"
| "certif_ok self l (CRealmName c) \<longleftrightarrow>
     (\<exists>a. author_user l (rn_timestamp c) (rn_author c) = Some a \<and> realm_owner_ok l (CRealmName c) (rn_realm_id c) a)"
| "certif_ok self l (CRealmKeyRotation c) \<longleftrightarrow>
     (\<exists>a. author_user l (kt_timestamp c) (kt_author c) = Some a
        \<and> realm_owner_ok l (CRealmKeyRotation c) (kt_realm_id c) a)"
| "certif_ok self l (CRealmArchiving c) \<longleftrightarrow>
     (\<exists>a. author_user l (ra_timestamp c) (ra_author c) = Some a
        \<and> realm_owner_ok l (CRealmArchiving c) (ra_realm_id c) a)"
| "certif_ok self l (CShamirBrief c) \<longleftrightarrow>
     (\<exists>a. author_user l (sb_timestamp c) (sb_author c) = Some a \<and> brief_ok self l c a)"
| "certif_ok self l (CShamirShare c) \<longleftrightarrow>
     (\<exists>a. author_user l (ss_timestamp c) (ss_author c) = Some a \<and> share_ok self l c a)"
| "certif_ok self l (CShamirDeletion c) \<longleftrightarrow>
     (\<exists>a. author_user l (sd_timestamp c) (sd_author c) = Some a \<and> deletion_ok l c a)"
| "certif_ok self l (CSequesterAuthority c) \<longleftrightarrow> l = []"
| "certif_ok self l (CSequesterService c) \<longleftrightarrow>
     authority_of l \<noteq> None \<and> newest l (CSequesterService c) \<and>
     list_all (\<lambda>c'. case c' of CSequesterService s \<Rightarrow> sv_service_id s \<noteq> sv_service_id c | _ \<Rightarrow> True) l"
| "certif_ok self l (CSequesterRevokedService c) \<longleftrightarrow>
     authority_of l \<noteq> None \<and> newest l (CSequesterRevokedService c) \<and>
     list_all (\<lambda>c'. \<not> is_service_revocation (sr_service_id c) c') l"

inductive log_ok :: "user_id \<Rightarrow> certif_log \<Rightarrow> bool" for self :: user_id where
  log_empty: "log_ok self []"
| log_append: "log_ok self l \<Longrightarrow> certif_ok self l c \<Longrightarrow> log_ok self (l @ [c])"

subsection \<open>Looking up the latest certificate\<close>

lemma latest_None: "latest P u l = None \<longleftrightarrow> (\<forall>c \<in> set l. P c \<longrightarrow> \<not> up_to_allows u (certif_timestamp c))"
  by (auto simp: latest_def Let_def filter_empty_conv)

lemma latest_SomeD:
  assumes "latest P u l = Some c"
  shows "c \<in> set l" "P c" "up_to_allows u (certif_timestamp c)"
proof -
  let ?cs = "filter (\<lambda>c. P c \<and> up_to_allows u (certif_timestamp c)) l"
  from assms have "?cs \<noteq> []" and c: "c = last ?cs" by (auto simp: latest_def Let_def split: if_split_asm)
  then have "c \<in> set ?cs" using last_in_set by blast
  then show "c \<in> set l" "P c" "up_to_allows u (certif_timestamp c)" by auto
qed

lemma latest_append: "latest P u (l @ [c]) =
   (if P c \<and> up_to_allows u (certif_timestamp c) then Some c else latest P u l)"
  by (simp add: latest_def)

text \<open>The certificates that satisfy \<open>P\<close> have growing timestamps.\<close>

definition strict_on :: "(any_certificate \<Rightarrow> bool) \<Rightarrow> certif_log \<Rightarrow> bool" where
  "strict_on P l \<longleftrightarrow> sorted_wrt (\<lambda>a b. certif_timestamp a < certif_timestamp b) (filter P l)"

lemma newest_iff: "newest l c \<longleftrightarrow>
   (\<forall>c' \<in> set l. certif_topic c' = certif_topic c \<longrightarrow> certif_timestamp c' < certif_timestamp c)"
  by (simp add: newest_def list_all_iff)

lemma not_older_iff: "not_older l c \<longleftrightarrow>
   (\<forall>c' \<in> set l. certif_topic c' = certif_topic c \<longrightarrow> certif_timestamp c' \<le> certif_timestamp c)"
  by (simp add: not_older_def list_all_iff)

lemma certif_ok_newest:
  assumes "certif_ok self l c" "as_device c = None" "as_shamir_share c = None" shows "newest l c"
  using assms by (cases c) (auto simp: realm_owner_ok_def newest_iff split: certificate_signer.split_asm)

lemma newest_not_older: "newest l c \<Longrightarrow> not_older l c"
  by (auto simp: newest_iff not_older_iff intro: less_imp_le)

lemma certif_ok_not_older:
  assumes "certif_ok self l c" shows "not_older l c"
proof (cases "as_device c = None \<and> as_shamir_share c = None")
  case True
  then show ?thesis using certif_ok_newest [OF assms] newest_not_older by blast
next
  case False
  then show ?thesis using assms
    by (cases c) (auto split: certificate_signer.split_asm if_split_asm dest: newest_not_older)
qed

lemma log_strict:
  assumes "log_ok self l"
    and new: "\<And>pre c c'. log_ok self pre \<Longrightarrow> certif_ok self pre c \<Longrightarrow> P c \<Longrightarrow> c' \<in> set pre \<Longrightarrow> P c' \<Longrightarrow>
      certif_timestamp c' < certif_timestamp c"
  shows "strict_on P l"
  using assms(1)
proof induction
  case log_empty
  then show ?case by (simp add: strict_on_def)
next
  case (log_append l c)
  then show ?case using new [OF log_append.hyps] by (auto simp: strict_on_def sorted_wrt_append)
qed

text \<open>A kind of certificate within one topic, other than devices and shares, is strictly ordered.\<close>

lemma log_strict_kind:
  assumes "log_ok self l" "\<And>c. P c \<Longrightarrow> certif_topic c = t"
    and "\<And>c. P c \<Longrightarrow> as_device c = None" "\<And>c. P c \<Longrightarrow> as_shamir_share c = None"
  shows "strict_on P l"
proof (rule log_strict [OF assms(1)])
  fix pre c c'
  assume a: "certif_ok self pre c" "P c" "c' \<in> set pre" "P c'"
  then have "newest pre c" using certif_ok_newest assms(3,4) by blast
  then show "certif_timestamp c' < certif_timestamp c" using a assms(2) by (auto simp: newest_iff)
qed

lemma log_strict_kinds:
  assumes "log_ok self l"
  shows "strict_on (is_user u) l" "strict_on (is_update u) l" "strict_on (is_revocation u) l"
    "strict_on (is_role_in r) l" "strict_on is_brief l" "strict_on (is_brief_of u) l"
    "strict_on (is_deletion_of u) l" "strict_on is_authority l" "strict_on is_service l"
    "strict_on (is_service_revocation i) l"
proof -
  have k: "strict_on P l" if "\<And>c. P c \<Longrightarrow> certif_topic c = t \<and> as_device c = None \<and> as_shamir_share c = None" for P t
    by (rule log_strict_kind [OF assms, where t = t]) (use that in blast)+
  have k1: "certif_topic c = CommonTopic \<and> as_device c = None \<and> as_shamir_share c = None"
    if "is_user u c \<or> is_update u c \<or> is_revocation u c" for c using that by (cases c) auto
  have k2: "certif_topic c = RealmTopic r \<and> as_device c = None \<and> as_shamir_share c = None"
    if "is_role_in r c" for c using that by (cases c) auto
  have k3: "certif_topic c = ShamirTopic \<and> as_device c = None \<and> as_shamir_share c = None"
    if "is_brief c \<or> is_brief_of u c \<or> is_deletion_of u c" for c using that by (cases c) auto
  have k4: "certif_topic c = SequesterTopic \<and> as_device c = None \<and> as_shamir_share c = None"
    if "is_authority c \<or> is_service c \<or> is_service_revocation i c" for c using that by (cases c) auto
  show "strict_on (is_user u) l" "strict_on (is_update u) l" "strict_on (is_revocation u) l"
    by (rule k [of _ CommonTopic], use k1 in blast)+
  show "strict_on (is_role_in r) l" by (rule k [of _ "RealmTopic r"], use k2 in blast)
  show "strict_on is_brief l" "strict_on (is_brief_of u) l" "strict_on (is_deletion_of u) l"
    by (rule k [of _ ShamirTopic], use k3 in blast)+
  show "strict_on is_authority l" "strict_on is_service l" "strict_on (is_service_revocation i) l"
    by (rule k [of _ SequesterTopic], use k4 in blast)+
qed

lemma log_strict_device:
  assumes "log_ok self l" shows "strict_on (is_device d) l"
proof (rule log_strict [OF assms])
  fix pre c c'
  assume a: "certif_ok self pre c" "is_device d c" "c' \<in> set pre" "is_device d c'"
  then obtain dc where "c = CDevice dc" "dc_device_id dc = d" by (cases c) auto
  with a have "list_all (\<lambda>c'. \<not> is_device d c') pre" by (auto split: certificate_signer.split_asm)
  with a show "certif_timestamp c' < certif_timestamp c" by (auto simp: list_all_iff)
qed

lemma strict_on_unique:
  assumes "strict_on P l" "a \<in> set l" "b \<in> set l" "P a" "P b" "certif_timestamp a = certif_timestamp b"
  shows "a = b"
proof -
  let ?xs = "filter P l"
  have "a \<in> set ?xs" "b \<in> set ?xs" using assms by auto
  then obtain i j where "i < length ?xs" "?xs ! i = a" "j < length ?xs" "?xs ! j = b"
    unfolding in_set_conv_nth by blast
  moreover note sorted_wrt_nth_less [OF assms(1) [unfolded strict_on_def]]
  ultimately show ?thesis using assms(6) by (metis less_irrefl nat_neq_iff)
qed

lemma log_sorted_topic:
  assumes "log_ok self l"
  shows "sorted_wrt (\<lambda>a b. certif_timestamp a \<le> certif_timestamp b) (filter (\<lambda>c. certif_topic c = t) l)"
  using assms
proof induction
  case (log_append l c)
  then have "not_older l c" using certif_ok_not_older by blast
  with log_append.IH show ?case by (auto simp: sorted_wrt_append not_older_iff)
qed simp

text \<open>The latest certificate of a kind within one topic is the one with the greatest timestamp.\<close>

lemma latest_greatest:
  assumes log: "log_ok self l" and topic: "\<And>c. P c \<Longrightarrow> certif_topic c = t"
    and "latest P u l = Some c" and c': "c' \<in> set l" "P c'" "up_to_allows u (certif_timestamp c')"
  shows "certif_timestamp c' \<le> certif_timestamp c"
proof -
  let ?Q = "\<lambda>c. P c \<and> up_to_allows u (certif_timestamp c)"
  have "filter ?Q l = filter ?Q (filter (\<lambda>c. certif_topic c = t) l)"
    using topic by (auto intro!: filter_cong)
  then have sorted: "sorted_wrt (\<lambda>a b. certif_timestamp a \<le> certif_timestamp b) (filter ?Q l)"
    using log_sorted_topic [OF log] sorted_wrt_filter by metis
  from assms(3) have ne: "filter ?Q l \<noteq> []" and c: "c = last (filter ?Q l)"
    by (auto simp: latest_def Let_def split: if_split_asm)
  obtain ys where ys: "filter ?Q l = ys @ [c]" using ne c append_butlast_last_id by metis
  have "c' \<in> set (ys @ [c])" using c' unfolding ys [symmetric] by simp
  moreover have "\<forall>y \<in> set ys. certif_timestamp y \<le> certif_timestamp c"
    using sorted unfolding ys by (simp add: sorted_wrt_append)
  ultimately show ?thesis by auto
qed

lemma log_invariant:
  assumes "log_ok self l" and "\<And>pre c. log_ok self pre \<Longrightarrow> certif_ok self pre c \<Longrightarrow> Q pre c"
    and "\<And>pre c d. Q pre c \<Longrightarrow> Q (pre @ [d]) c"
  shows "c \<in> set l \<Longrightarrow> Q l c"
  using assms(1)
proof (induction)
  case (log_append l d)
  show ?case
  proof (cases "c = d")
    case True
    then show ?thesis using assms(2,3) log_append.hyps by blast
  next
    case False
    then show ?thesis using assms(3) log_append by auto
  qed
qed simp

lemma share_has_brief:
  assumes "log_ok self l" "CShamirShare s \<in> set l"
  shows "ss_recipient s = self \<and> (\<exists>b. CShamirBrief b \<in> set l \<and> sb_timestamp b = ss_timestamp s
     \<and> sb_author b = ss_author s \<and> ss_recipient s \<in> fst ` set (sb_per_recipient_shares b))"
proof -
  let ?Q = "\<lambda>l c. \<forall>s. c = CShamirShare s \<longrightarrow> ss_recipient s = self \<and> (\<exists>b. CShamirBrief b \<in> set l
     \<and> sb_timestamp b = ss_timestamp s \<and> sb_author b = ss_author s
     \<and> ss_recipient s \<in> fst ` set (sb_per_recipient_shares b))"
  have "?Q l (CShamirShare s)"
  proof (rule log_invariant [OF assms(1) _ _ assms(2)])
    fix pre c assume ok: "certif_ok self pre c"
    show "?Q pre c"
    proof (intro allI impI)
      fix s assume c: "c = CShamirShare s"
      with ok obtain brief where "Option.bind (latest is_brief (at (ss_timestamp s)) pre) as_shamir_brief = Some brief"
        "sb_timestamp brief = ss_timestamp s" "sb_author brief = ss_author s"
        "ss_recipient s \<in> fst ` set (sb_per_recipient_shares brief)" and rs: "ss_recipient s = self"
        by (auto split: option.split_asm)
      moreover from this(1) obtain x where "latest is_brief (at (ss_timestamp s)) pre = Some x"
        "as_shamir_brief x = Some brief" by (auto simp: Option.bind_eq_Some_conv)
      moreover from this have "x = CShamirBrief brief" by (cases x) auto
      ultimately show "ss_recipient s = self \<and> (\<exists>b. CShamirBrief b \<in> set pre \<and> sb_timestamp b = ss_timestamp s
         \<and> sb_author b = ss_author s \<and> ss_recipient s \<in> fst ` set (sb_per_recipient_shares b))"
        using latest_SomeD(1) by blast
    qed
  next
    fix pre c d assume "?Q pre c"
    then show "?Q (pre @ [d]) c" unfolding set_append by blast
  qed
  then show ?thesis by blast
qed

lemma log_strict_share:
  assumes "log_ok self l" shows "strict_on (is_share_of u r) l"
proof (rule log_strict [OF assms])
  fix pre c c'
  assume log: "log_ok self pre" and ok: "certif_ok self pre c" and P: "is_share_of u r c" and c': "c' \<in> set pre" "is_share_of u r c'"
  from P obtain s where s: "c = CShamirShare s" "ss_user_id s = u" "ss_recipient s = r" by (cases c) auto
  have topic: "certif_topic c = ShamirTopic" if "is_share_of u r c" for c using that by (cases c) auto
  have le: "certif_timestamp c' \<le> ss_timestamp s"
    using certif_ok_not_older [OF ok] c' topic [OF c'(2)] s by (auto simp: not_older_iff)
  have "certif_timestamp c' \<noteq> ss_timestamp s"
  proof
    assume eq: "certif_timestamp c' = ss_timestamp s"
    then have "latest (is_share_of u r) (at (ss_timestamp s)) pre \<noteq> None"
      using c' by (auto simp: latest_None)
    then obtain x where x: "latest (is_share_of u r) (at (ss_timestamp s)) pre = Some x" by blast
    note xD = latest_SomeD [OF x]
    obtain o' where o: "x = CShamirShare o'" using xD(2) by (cases x) auto
    have "certif_timestamp x = ss_timestamp s"
      using latest_greatest [OF log topic x c'] xD(3) eq by simp
    then have "ss_timestamp o' = ss_timestamp s" using o by simp
    moreover from this have "ss_author o' \<noteq> ss_author s"
      using ok s x o by (auto split: option.split_asm)
    moreover obtain b1 where "CShamirBrief b1 \<in> set pre" "sb_timestamp b1 = ss_timestamp o'" "sb_author b1 = ss_author o'"
      using share_has_brief [OF log] xD(1) o by blast
    moreover obtain b2 where "CShamirBrief b2 \<in> set (pre @ [c])" "sb_timestamp b2 = ss_timestamp s" "sb_author b2 = ss_author s"
      using share_has_brief [OF log_append [OF log ok]] s by auto
    moreover from this have "CShamirBrief b2 \<in> set pre" using s by auto
    ultimately show False
      using strict_on_unique [OF log_strict_kinds(5) [OF log], of "CShamirBrief b1" "CShamirBrief b2"] by auto
  qed
  with le s show "certif_timestamp c' < certif_timestamp c" by simp
qed

lemmas log_strict_all = log_strict_kinds log_strict_device log_strict_share

end
