(* ===== verification/Certificate_Refinement.thy ===== *)
theory Certificate_Refinement
  imports Certificate_Log
begin

text \<open>
  The store implements the log: \<open>store_rel\<close> relates the rows and the cache of a guard to a log, and
  \<open>returns\<close> says that an operation reads a value of that log: it does not panic, keeps the rows, the
  events and the relation, and its result is the given one, or the given error after a database fault.
\<close>

subsection \<open>Sorting rows that are already in order\<close>

lemma insort_key_at_end:
  fixes f :: "'a \<Rightarrow> 'b::linorder"
  shows "(\<forall>y \<in> set ys. f y < f x) \<Longrightarrow> insort_key f x ys = ys @ [x]"
  by (induction ys) (auto dest: leD)

lemma sort_key_rev:
  fixes f :: "'a \<Rightarrow> 'b::linorder"
  shows "sorted_wrt (\<lambda>a b. f b < f a) xs \<Longrightarrow> sort_key f xs = rev xs"
  by (induction xs) (auto simp: insort_key_at_end)

lemma sort_key_sorted:
  fixes f :: "'a \<Rightarrow> 'b::linorder"
  shows "sorted_wrt (\<lambda>a b. f a < f b) xs \<Longrightarrow> sort_key f xs = xs"
  by (induction xs) (auto simp: insort_is_Cons less_imp_le)

lemma list_all2_filter:
  "list_all2 R xs ys \<Longrightarrow> (\<And>x y. R x y \<Longrightarrow> P x = Q y) \<Longrightarrow> list_all2 R (filter P xs) (filter Q ys)"
  by (induction rule: list_all2_induct) auto

lemma list_all2_sorted:
  "list_all2 R xs ys \<Longrightarrow> sorted_wrt S ys \<Longrightarrow> (\<And>x x' y y'. R x y \<Longrightarrow> R x' y' \<Longrightarrow> S y y' \<Longrightarrow> T x x') \<Longrightarrow>
     sorted_wrt T xs"
proof (induction rule: list_all2_induct)
  case (Cons x xs y ys)
  have "T x x'" if x': "x' \<in> set xs" for x'
  proof -
    from x' Cons.hyps(2) obtain y' where "y' \<in> set ys" "R x' y'"
      by (metis in_set_conv_nth list_all2_conv_all_nth)
    with Cons show ?thesis by auto
  qed
  with Cons show ?case by auto
qed simp

subsection \<open>Rows and certificates\<close>

fun loads :: "certif_env \<Rightarrow> certif_log \<Rightarrow> byte list \<Rightarrow> any_certificate \<Rightarrow> bool" where
  "loads env l signed (CSequesterService c) \<longleftrightarrow>
     (\<forall>a. authority_of l = Some a \<longrightarrow>
        sequester_verify_and_load (ce_codec env) as_sequester_service signed (sa_verify_key_der a) = Inr c)"
| "loads env l signed (CSequesterRevokedService c) \<longleftrightarrow>
     (\<forall>a. authority_of l = Some a \<longrightarrow>
        sequester_verify_and_load (ce_codec env) as_sequester_revoked_service signed (sa_verify_key_der a) = Inr c)"
| "loads env l signed c \<longleftrightarrow> base_unsecure_load (ce_codec env) Some signed = Inr c"

definition stores :: "certif_env \<Rightarrow> certif_log \<Rightarrow> byte list \<Rightarrow> any_certificate \<Rightarrow> bool" where
  "stores env l encrypted c \<longleftrightarrow>
     (\<exists>signed. dk_decrypt (ce_local_symkey env) encrypted = Some signed \<and> loads env l signed c)"

definition row_of :: "certif_env \<Rightarrow> certif_log \<Rightarrow> certif_row \<Rightarrow> any_certificate \<Rightarrow> bool" where
  "row_of env l r c \<longleftrightarrow>
     cr_timestamp r = certif_timestamp c \<and> cr_type r = certif_type c \<and>
     (cr_filter1 r, cr_filter2 r) = certif_filters c \<and> stores env l (cr_data r) c"

definition rows_ok :: "certif_env \<Rightarrow> certif_row list \<Rightarrow> certif_log \<Rightarrow> bool" where
  "rows_ok env rows l \<longleftrightarrow> list_all2 (row_of env l) rows l"

fun query_certif :: "get_certificate_query \<Rightarrow> any_certificate \<Rightarrow> bool" where
  "query_certif (NoFilter ty) c \<longleftrightarrow> certif_type c = ty"
| "query_certif (Filter1 ty f1) c \<longleftrightarrow> certif_type c = ty \<and> sql_eq (fst (certif_filters c)) f1"
| "query_certif (Filter2 ty f2) c \<longleftrightarrow> certif_type c = ty \<and> sql_eq (snd (certif_filters c)) f2"
| "query_certif (BothFilters ty f1 f2) c \<longleftrightarrow>
     certif_type c = ty \<and> sql_eq (fst (certif_filters c)) f1 \<and> sql_eq (snd (certif_filters c)) f2"
| "query_certif _ c \<longleftrightarrow> False"

fun simple_query :: "get_certificate_query \<Rightarrow> bool" where
  "simple_query (NoFilter _) = True"
| "simple_query (Filter1 _ _) = True"
| "simple_query (Filter2 _ _) = True"
| "simple_query (BothFilters _ _ _) = True"
| "simple_query _ = False"

lemma query_matches_row:
  "row_of env l r c \<Longrightarrow> simple_query q \<Longrightarrow> query_matches rows q r = query_certif q c"
  by (cases q; cases "certif_filters c") (auto simp: row_of_def)

lemma query_certif_kinds:
  "query_certif (Filter1 TUser (FBytes u)) = (\<lambda>c. is_user u c)"
  "query_certif (Filter1 TDevice (FBytes d)) = (\<lambda>c. is_device d c)"
  "query_certif (Filter1 TUserUpdate (FBytes u)) = (\<lambda>c. is_update u c)"
  "query_certif (Filter1 TRevokedUser (FBytes u)) = (\<lambda>c. is_revocation u c)"
  "query_certif (Filter1 TRealmRole (FBytes r)) = (\<lambda>c. is_role_in r c)"
  "query_certif (NoFilter TShamirBrief) = (\<lambda>c. is_brief c)"
  "query_certif (Filter1 TShamirBrief (FBytes u)) = (\<lambda>c. is_brief_of u c)"
  "query_certif (BothFilters TShamirShare (FBytes u) (FBytes v)) = (\<lambda>c. is_share_of u v c)"
  "query_certif (Filter1 TShamirDeletion (FBytes u)) = (\<lambda>c. is_deletion_of u c)"
  "query_certif (NoFilter TSequesterAuthority) = (\<lambda>c. is_authority c)"
  "query_certif (NoFilter TSequesterService) = (\<lambda>c. is_service c)"
  "query_certif (Filter1 TSequesterRevokedService (FBytes i)) = (\<lambda>c. is_service_revocation i c)"
  by (rule ext, case_tac c, auto simp: sql_eq_def)+

subsection \<open>Database queries\<close>

definition missing :: "(any_certificate \<Rightarrow> bool) \<Rightarrow> up_to \<Rightarrow> certif_log \<Rightarrow> get_certificate_error" where
  "missing P up_to l = (case up_to of
     UpToCurrent \<Rightarrow> NonExisting
   | UpToTimestamp _ \<Rightarrow>
       (case filter P l of [] \<Rightarrow> NonExisting | c # _ \<Rightarrow> ExistButTooRecent (certif_timestamp c)))"

lemma sql_statement_cases:
  obtains (fault) rest where "cb_faults db = True # rest" "sql_statement err f db = Some (db\<lparr>cb_faults := rest\<rparr>, Inl err)"
  | (fine) rest where "sql_statement err f db = Some (db\<lparr>cb_faults := rest\<rparr>, Inr (f (cb_rows db)))"
      "cb_faults db = [] \<Longrightarrow> rest = []"
proof (cases "cb_faults db")
  case Nil
  moreover have "db\<lparr>cb_faults := []\<rparr> = db" if "cb_faults db = []" using that by (cases db) simp
  ultimately show thesis using fine [of "[]"] by (simp add: sql_statement_def)
next
  case (Cons b rest)
  then show thesis using fault [of rest] fine [of rest] by (cases b) (simp_all add: sql_statement_def)
qed

lemma fetch_optional_rev: "fetch_optional (rev xs) = (if xs = [] then None else Some (last xs))"
  by (cases xs rule: rev_cases) (auto simp: fetch_optional_def)

lemma list_all2_last: "list_all2 R xs ys \<Longrightarrow> xs \<noteq> [] \<Longrightarrow> R (last xs) (last ys)"
  by (induction rule: list_all2_induct) auto

lemma fetch_latest_row:
  assumes rows: "rows_ok env rows l" and q: "simple_query q" and strict: "strict_on (query_certif q) l"
  shows "rel_option (row_of env l)
    (fetch_optional (order_by_timestamp_desc (build_get_certificate_query q u rows)))
    (latest (query_certif q) u l)"
proof -
  let ?P = "\<lambda>c. query_certif q c \<and> up_to_allows u (certif_timestamp c)"
  let ?rs = "build_get_certificate_query q u rows"
  have rel: "list_all2 (row_of env l) ?rs (filter ?P l)"
    unfolding build_get_certificate_query_def
    using rows [unfolded rows_ok_def]
    by (rule list_all2_filter) (simp add: query_matches_row [OF _ q], simp add: row_of_def)
  have "filter ?P l = filter (\<lambda>c. up_to_allows u (certif_timestamp c)) (filter (query_certif q) l)"
    by (simp add: conj_commute)
  then have "sorted_wrt (\<lambda>a b. certif_timestamp a < certif_timestamp b) (filter ?P l)"
    using strict [unfolded strict_on_def] sorted_wrt_filter by metis
  then have "sorted_wrt (\<lambda>a b. - cr_timestamp b < - cr_timestamp a) ?rs"
    by (rule list_all2_sorted [OF rel]) (simp add: row_of_def)
  then have "order_by_timestamp_desc ?rs = rev ?rs"
    unfolding order_by_timestamp_desc_def by (rule sort_key_rev)
  moreover have "?rs = [] \<longleftrightarrow> filter ?P l = []" using rel by (metis list_all2_Nil list_all2_Nil2)
  ultimately show ?thesis using list_all2_last [OF rel] by (simp add: fetch_optional_rev latest_def)
qed

lemma first_row:
  assumes rows: "rows_ok env rows l" and q: "simple_query q"
  shows "map_option cr_timestamp (fetch_optional (build_get_certificate_query q UpToCurrent rows)) =
    (case filter (query_certif q) l of [] \<Rightarrow> None | c # _ \<Rightarrow> Some (certif_timestamp c))"
proof -
  have rel: "list_all2 (row_of env l) (build_get_certificate_query q UpToCurrent rows) (filter (query_certif q) l)"
    unfolding build_get_certificate_query_def
    using rows [unfolded rows_ok_def] by (rule list_all2_filter) (simp add: query_matches_row [OF _ q])
  then show ?thesis
    by (cases "filter (query_certif q) l"; cases "build_get_certificate_query q UpToCurrent rows")
      (auto simp: fetch_optional_def row_of_def)
qed

lemma db_get_certificate_encrypted_spec:
  assumes rows: "rows_ok env (cb_rows db) l" and q: "simple_query q" and strict: "strict_on (query_certif q) l"
  obtains db' r where "db_get_certificate_encrypted q u db = Some (db', r)" "cb_rows db' = cb_rows db"
    "cb_faults db = [] \<Longrightarrow> cb_faults db' = []"
    "r = Inl GetInternal \<and> cb_faults db \<noteq> [] \<or>
     (case latest (query_certif q) u l of
        Some c \<Rightarrow> (\<exists>data. r = Inr (certif_timestamp c, data) \<and> stores env l data c)
      | None \<Rightarrow> r = Inl (missing (query_certif q) u l))"
proof -
  note row = fetch_latest_row [OF rows q strict, of u]
  note first = first_row [OF rows q]
  let ?f = "\<lambda>rows. fetch_optional (order_by_timestamp_desc (build_get_certificate_query q u rows))"
  show thesis
  proof (cases rule: sql_statement_cases [where db = db and f = ?f and err = GetInternal])
    case (fault rest)
    then show thesis
      using that [of "db\<lparr>cb_faults := rest\<rparr>" "Inl GetInternal"]
      by (simp add: db_get_certificate_encrypted_def op_bind_def op_match_def op_throw_def)
  next
    case (fine rest)
    let ?db = "db\<lparr>cb_faults := rest\<rparr>"
    show thesis
    proof (cases "latest (query_certif q) u l")
      case (Some c)
      with row obtain r where "?f (cb_rows db) = Some r" "row_of env l r c" by (auto simp: option_rel_Some2)
      then show thesis using that [of ?db "Inr (cr_timestamp r, cr_data r)"] fine Some
        by (simp add: db_get_certificate_encrypted_def op_bind_def op_match_def op_return_def row_of_def)
    next
      case None
      with row have f: "?f (cb_rows db) = None" by (auto simp: option_rel_Some2)
      show thesis
      proof (cases u)
        case UpToCurrent
        then show thesis using that [of ?db "Inl NonExisting"] fine None f
          by (simp add: db_get_certificate_encrypted_def op_bind_def op_match_def op_throw_def missing_def)
      next
        case (UpToTimestamp t)
        let ?g = "\<lambda>rows. fetch_optional (build_get_certificate_query q UpToCurrent rows)"
        show thesis
        proof (cases rule: sql_statement_cases [where db = ?db and f = ?g and err = GetInternal])
          case (fault rest')
          then show thesis using that [of "?db\<lparr>cb_faults := rest'\<rparr>" "Inl GetInternal"] fine f UpToTimestamp
            by (cases "cb_faults db = []")
              (simp_all add: db_get_certificate_encrypted_def op_bind_def op_match_def op_throw_def)
        next
          case fine': (fine rest')
          have late: "\<not> certif_timestamp c \<le> t" if "filter (query_certif q) l = c # cs" for c cs
            using None UpToTimestamp that by (auto simp: latest_None dest!: filter_eq_ConsD)
          show thesis
            using that [of "?db\<lparr>cb_faults := rest'\<rparr>" "Inl (missing (query_certif q) u l)"] fine fine' f UpToTimestamp None first late
            by (cases "filter (query_certif q) l")
              (auto simp: db_get_certificate_encrypted_def op_bind_def op_match_def op_throw_def missing_def)
        qed
      qed
    qed
  qed
qed

subsection \<open>Last timestamps\<close>

definition last_ts :: "topic \<Rightarrow> certif_log \<Rightarrow> date_time option" where
  "last_ts t l = (let cs = filter (\<lambda>c. certif_topic c = t) l
                  in if cs = [] then None else Some (certif_timestamp (last cs)))"

definition timestamps_of :: "per_topic_last_timestamps \<Rightarrow> certif_log \<Rightarrow> bool" where
  "timestamps_of ts l \<longleftrightarrow>
     pt_common ts = last_ts CommonTopic l \<and> pt_sequester ts = last_ts SequesterTopic l \<and>
     pt_shamir_recovery ts = last_ts ShamirTopic l \<and> (\<forall>r. hm_get (pt_realm ts) r = last_ts (RealmTopic r) l)"

lemma last_ts_append: "last_ts t (l @ [c]) = (if certif_topic c = t then Some (certif_timestamp c) else last_ts t l)"
  by (simp add: last_ts_def)

lemma last_ts_None: "last_ts t l = None \<longleftrightarrow> topic_empty l t"
  by (auto simp: last_ts_def Let_def topic_empty_def list_all_iff filter_empty_conv)

lemma last_ts_Some:
  assumes "log_ok self l" "last_ts t l = Some m"
  shows "\<And>c. c \<in> set l \<Longrightarrow> certif_topic c = t \<Longrightarrow> certif_timestamp c \<le> m"
    "\<exists>c \<in> set l. certif_topic c = t \<and> certif_timestamp c = m"
proof -
  let ?cs = "filter (\<lambda>c. certif_topic c = t) l"
  from assms have ne: "?cs \<noteq> []" and m: "m = certif_timestamp (last ?cs)"
    by (auto simp: last_ts_def Let_def split: if_split_asm)
  obtain ys where ys: "?cs = ys @ [last ?cs]" using ne append_butlast_last_id by metis
  have "last ?cs \<in> set ?cs" using ne last_in_set by blast
  then show "\<exists>c \<in> set l. certif_topic c = t \<and> certif_timestamp c = m" using m by auto
  fix c assume "c \<in> set l" "certif_topic c = t"
  then have "c \<in> set (ys @ [last ?cs])" unfolding ys [symmetric] by simp
  moreover have "\<forall>y \<in> set ys. certif_timestamp y \<le> certif_timestamp (last ?cs)"
    using log_sorted_topic [OF assms(1), of t] by (subst (asm) ys) (simp add: sorted_wrt_append)
  ultimately show "certif_timestamp c \<le> m" using m by auto
qed

lemma timestamps_emptyI:
  assumes "timestamps_of ts l" shows "pt_is_empty ts \<longleftrightarrow> l = []"
proof
  assume "pt_is_empty ts"
  with assms have "topic_empty l t" for t
    by (cases t) (auto simp: pt_is_empty_def timestamps_of_def last_ts_None [symmetric])
  then show "l = []" by (cases l) (auto simp: topic_empty_def)
next
  assume "l = []"
  with assms have "hm_get (pt_realm ts) r = None" for r by (simp add: timestamps_of_def last_ts_def)
  then have "map_of (pt_realm ts) = Map.empty" by (rule ext)
  then have "pt_realm ts = []" by (simp only: map_of_eq_empty_iff)
  with assms \<open>l = []\<close> show "pt_is_empty ts" by (auto simp: pt_is_empty_def timestamps_of_def last_ts_def)
qed

lemma find_sort_key:
  fixes f :: "'a \<Rightarrow> 'b::linorder"
  shows "(case find P (sort_key f xs) of
     None \<Rightarrow> \<forall>x \<in> set xs. \<not> P x
   | Some y \<Rightarrow> y \<in> set xs \<and> P y \<and> (\<forall>x \<in> set xs. P x \<longrightarrow> f y \<le> f x))"
proof (cases "find P (sort_key f xs)")
  case None
  then have "\<forall>x \<in> set xs. \<not> P x" by (auto simp: find_None_iff)
  with None show ?thesis by simp
next
  case (Some y)
  then obtain i where i: "i < length (sort_key f xs)" "P (sort_key f xs ! i)" "y = sort_key f xs ! i"
    "\<forall>j < i. \<not> P (sort_key f xs ! j)" unfolding find_Some_iff by blast
  have "f y \<le> f x" if "x \<in> set xs" "P x" for x
  proof -
    from that obtain j where j: "j < length (sort_key f xs)" "x = sort_key f xs ! j"
      by (metis in_set_conv_nth set_sort)
    with i that have "i \<le> j" by (meson not_less)
    moreover have "sorted (map f (sort_key f xs))" by simp
    ultimately show ?thesis using i j by (auto simp: sorted_iff_nth_mono)
  qed
  moreover have "y \<in> set xs" using i by (metis nth_mem set_sort)
  ultimately show ?thesis using Some i by simp
qed

lemma find_newest_row:
  assumes rows: "rows_ok env rows l" and log: "log_ok self l" and P: "\<And>r c. row_of env l r c \<Longrightarrow> P r \<longleftrightarrow> certif_topic c = t"
  shows "map_option cr_timestamp (find P (order_by_timestamp_desc rows)) = last_ts t l"
proof -
  have corr: "\<exists>c \<in> set l. row_of env l r c" if "r \<in> set rows" for r
    using rows that unfolding rows_ok_def by (metis in_set_conv_nth list_all2_conv_all_nth)
  have corr': "\<exists>r \<in> set rows. row_of env l r c" if "c \<in> set l" for c
    using rows that unfolding rows_ok_def by (metis in_set_conv_nth list_all2_conv_all_nth)
  note f = find_sort_key [where P = P and f = "\<lambda>r. - cr_timestamp r" and xs = rows, folded order_by_timestamp_desc_def]
  show ?thesis
  proof (cases "find P (order_by_timestamp_desc rows)")
    case None
    with f P corr' have "topic_empty l t" by (fastforce simp: topic_empty_def list_all_iff)
    then have "last_ts t l = None" by (simp add: last_ts_None)
    with None show ?thesis by simp
  next
    case (Some y)
    with f have y: "y \<in> set rows" "P y" "\<And>x. x \<in> set rows \<Longrightarrow> P x \<Longrightarrow> cr_timestamp x \<le> cr_timestamp y" by auto
    obtain c where c: "c \<in> set l" "row_of env l y c" using corr y(1) by blast
    then have t: "certif_topic c = t" using P y(2) by blast
    then have "last_ts t l \<noteq> None" using c by (auto simp: last_ts_None topic_empty_def list_all_iff)
    then obtain m where m: "last_ts t l = Some m" by blast
    obtain c' where c': "c' \<in> set l" "certif_topic c' = t" "certif_timestamp c' = m" using last_ts_Some(2) [OF log m] by blast
    obtain r' where r': "r' \<in> set rows" "row_of env l r' c'" using corr' c' by blast
    have "certif_timestamp c \<le> m" using last_ts_Some(1) [OF log m] c t by blast
    moreover have "cr_timestamp r' \<le> cr_timestamp y" using y(3) r' P c' by blast
    ultimately show ?thesis using Some m c r' c' by (simp add: row_of_def)
  qed
qed

lemma fetch_optional_filter: "fetch_optional (filter P rows) = find P rows"
  by (induction rows) (auto simp: fetch_optional_def)

lemma last_timestamp_of_types:
  assumes "rows_ok env rows l" "log_ok self l" "\<And>c. certif_type c \<in> set types \<longleftrightarrow> certif_topic c = t"
  shows "last_timestamp_of_types types rows = last_ts t l"
proof -
  have "order_by_timestamp_desc (filter P rows) = filter P (order_by_timestamp_desc rows)" for P
    by (simp add: order_by_timestamp_desc_def filter_sort)
  then have "last_timestamp_of_types types rows =
      map_option cr_timestamp (find (\<lambda>r. cr_type r \<in> set types) (order_by_timestamp_desc rows))"
    by (simp add: last_timestamp_of_types_def fetch_optional_filter)
  also have "\<dots> = last_ts t l"
    by (rule find_newest_row [OF assms(1,2)]) (simp add: row_of_def assms(3))
  finally show ?thesis .
qed

lemma topic_types:
  "certif_type c \<in> set topic_types_common \<longleftrightarrow> certif_topic c = CommonTopic"
  "certif_type c \<in> set topic_types_sequester \<longleftrightarrow> certif_topic c = SequesterTopic"
  "certif_type c \<in> set topic_types_shamir \<longleftrightarrow> certif_topic c = ShamirTopic"
  "certif_type c \<in> set topic_types_realm \<longleftrightarrow> (\<exists>r. certif_topic c = RealmTopic r)"
  "certif_type c \<in> set topic_types_realm \<Longrightarrow> \<exists>r. certif_topic c = RealmTopic r \<and> fst (certif_filters c) = FBytes r"
  by (cases c, auto simp: topic_types_common_def topic_types_sequester_def topic_types_shamir_def topic_types_realm_def)+

lemma find_group_by_filter1:
  "find (\<lambda>q. cr_filter1 q = k) (group_by_filter1 rows) = find (\<lambda>q. cr_filter1 q = k) rows"
proof (induction rows)
  case (Cons r rows)
  have skip: "find (\<lambda>q. cr_filter1 q = k) (filter (\<lambda>q. cr_filter1 q \<noteq> cr_filter1 r) xs) = find (\<lambda>q. cr_filter1 q = k) xs"
    if "cr_filter1 r \<noteq> k" for xs using that by (induction xs) auto
  show ?case using Cons.IH skip [of "group_by_filter1 rows"] by (cases "cr_filter1 r = k") simp_all
qed simp

lemma set_group_by_filter1: "set (group_by_filter1 rows) \<subseteq> set rows"
  by (induction rows) auto

lemma fold_realm_timestamps:
  assumes "\<forall>r \<in> set rows. \<exists>v. cr_filter1 r = FBytes v"
  shows "\<exists>m. fold (\<lambda>r acc. and_then acc (\<lambda>m. and_then (ok_or Anyhow (vlob_id_try_from (cr_filter1 r)))
             (\<lambda>realm_id. Inr (hm_insert realm_id (cr_timestamp r) m)))) (group_by_filter1 rows) (Inr m0) = Inr m \<and>
     (\<forall>v. hm_get m v = (case find (\<lambda>q. cr_filter1 q = FBytes v) rows of
        Some q \<Rightarrow> Some (cr_timestamp q) | None \<Rightarrow> hm_get m0 v))"
proof -
  let ?step = "\<lambda>r acc. and_then acc (\<lambda>m. and_then (ok_or Anyhow (vlob_id_try_from (cr_filter1 r)))
             (\<lambda>realm_id. Inr (hm_insert realm_id (cr_timestamp r) m)))"
  have dist: "distinct (map cr_filter1 (group_by_filter1 rows))" for rows
    by (induction rows) (auto simp: distinct_map_filter)
  have "\<exists>m. fold ?step G (Inr m0) = Inr m \<and>
     (\<forall>v. hm_get m v = (case find (\<lambda>q. cr_filter1 q = FBytes v) G of
        Some q \<Rightarrow> Some (cr_timestamp q) | None \<Rightarrow> hm_get m0 v))"
    if "distinct (map cr_filter1 G)" "\<forall>r \<in> set G. \<exists>v. cr_filter1 r = FBytes v" for G
    using that
  proof (induction G arbitrary: m0)
    case (Cons r G)
    then obtain v where v: "cr_filter1 r = FBytes v" by auto
    let ?m1 = "hm_insert v (cr_timestamp r) m0"
    have "distinct (map cr_filter1 G)" "\<forall>r \<in> set G. \<exists>v. cr_filter1 r = FBytes v" using Cons.prems by simp_all
    from Cons.IH [OF this, of ?m1] obtain m where m: "fold ?step G (Inr ?m1) = Inr m"
      "\<forall>w. hm_get m w = (case find (\<lambda>q. cr_filter1 q = FBytes w) G of
        Some q \<Rightarrow> Some (cr_timestamp q) | None \<Rightarrow> hm_get ?m1 w)" by blast
    moreover have "find (\<lambda>q. cr_filter1 q = FBytes v) G = None"
      using Cons.prems(1) v by (auto simp: find_None_iff image_iff)
    ultimately show ?case using v
      by (auto simp: ok_or_def hm_simps split: option.split simp del: map_of_eq_Some_iff)
  qed simp
  from this [OF dist, of rows] assms set_group_by_filter1 [of rows] show ?thesis
    by (auto simp: find_group_by_filter1 simp del: map_of_eq_Some_iff)
qed

lemma per_realm_last_timestamps_spec:
  assumes rows: "rows_ok env rows l" and log: "log_ok self l"
  obtains m where "per_realm_last_timestamps rows = Inr m" "\<And>r. hm_get m r = last_ts (RealmTopic r) l"
proof -
  let ?rows = "filter (\<lambda>r. cr_type r \<in> set topic_types_realm) (order_by_timestamp_desc rows)"
  have corr: "\<exists>c \<in> set l. row_of env l r c" if "r \<in> set rows" for r
    using rows that unfolding rows_ok_def by (metis in_set_conv_nth list_all2_conv_all_nth)
  have "\<exists>v. cr_filter1 r = FBytes v" if r: "r \<in> set ?rows" for r
  proof -
    from r have "r \<in> set rows" "cr_type r \<in> set topic_types_realm" by (auto simp: order_by_timestamp_desc_def)
    moreover from this corr obtain c where c: "row_of env l r c" by blast
    ultimately have "\<exists>v. fst (certif_filters c) = FBytes v" using topic_types(5) [of c] by (auto simp: row_of_def)
    moreover have "fst (certif_filters c) = cr_filter1 r" using c by (simp add: row_of_def eq_commute [of _ "certif_filters c"])
    ultimately show ?thesis by simp
  qed
  then obtain m where m: "per_realm_last_timestamps rows = Inr m"
    "\<And>v. hm_get m v = (case find (\<lambda>q. cr_filter1 q = FBytes v) ?rows of
        Some q \<Rightarrow> Some (cr_timestamp q) | None \<Rightarrow> hm_get [] v)"
    using fold_realm_timestamps [of ?rows "[]"] unfolding per_realm_last_timestamps_def by blast
  have "hm_get m r = last_ts (RealmTopic r) l" for r
  proof -
    let ?P = "\<lambda>q. cr_type q \<in> set topic_types_realm \<and> cr_filter1 q = FBytes r"
    have ff: "find (\<lambda>q. cr_filter1 q = FBytes r) (filter (\<lambda>r. cr_type r \<in> set topic_types_realm) xs) = find ?P xs" for xs
      by (induction xs) auto
    have "hm_get m r = map_option cr_timestamp (find ?P (order_by_timestamp_desc rows))"
      using m(2) [of r] unfolding ff by (simp split: option.split)
    also have "\<dots> = last_ts (RealmTopic r) l"
    proof (rule find_newest_row [OF rows log])
      fix q c assume "row_of env l q c"
      moreover have "certif_type c \<in> set topic_types_realm \<and> fst (certif_filters c) = FBytes r \<longleftrightarrow> certif_topic c = RealmTopic r"
        using topic_types(4,5) [of c] by auto
      ultimately show "?P q \<longleftrightarrow> certif_topic c = RealmTopic r" by (auto simp: row_of_def dest: arg_cong [where f = fst])
    qed
    finally show ?thesis .
  qed
  with m(1) that show thesis by blast
qed

subsection \<open>The cache\<close>

fun is_role_of :: "vlob_id \<Rightarrow> user_id \<Rightarrow> any_certificate \<Rightarrow> bool" where
  "is_role_of r u (CRealmRole c) \<longleftrightarrow> rl_realm_id c = r \<and> rl_user_id c = u" | "is_role_of r u _ \<longleftrightarrow> False"

definition bootstrap_of :: "certif_log \<Rightarrow> vlob_id \<Rightarrow> realm_bootstrap_state" where
  "bootstrap_of l r =
     (if \<exists>c \<in> set l. query_certif (Filter1 TRealmName (FBytes r)) c then WorkspaceBootstrapped
      else if \<exists>c \<in> set l. query_certif (Filter1 TRealmKeyRotation (FBytes r)) c then InitialKeyRotationDone
      else if \<exists>c \<in> set l. query_certif (Filter1 TRealmRole (FBytes r)) c then CreatedInServer
      else LocalOnly)"

text \<open>
  The profile of our own user: that of its last update; without update, the profile of the local
  device, or the one of the user certificate once the cache has seen it.
\<close>

definition self_profile_of :: "certif_env \<Rightarrow> certif_log \<Rightarrow> user_profile \<Rightarrow> bool" where
  "self_profile_of env l p \<longleftrightarrow>
     (case Option.bind (latest (is_update (ce_user_id env)) UpToCurrent l) as_user_update of
        Some update \<Rightarrow> p = up_new_profile update
      | None \<Rightarrow> p = ce_initial_profile env \<or> (\<exists>c. CUser c \<in> set l \<and> uc_user_id c = ce_user_id env \<and> p = uc_profile c))"

definition cache_ok :: "certif_env \<Rightarrow> certif_log \<Rightarrow> current_view_cache \<Rightarrow> bool" where
  "cache_ok env l c \<longleftrightarrow>
     (\<forall>ts. vc_per_topic_last_timestamps c = Present ts \<longrightarrow> timestamps_of ts l) \<and>
     (\<forall>p. vc_self_profile c = Present p \<longrightarrow> self_profile_of env l p) \<and>
     (\<forall>d k t u. hm_get (vc_per_device_verify_key_and_user_id c) d = Some (k, t, u) \<longrightarrow>
        (\<exists>dc. CDevice dc \<in> set l \<and> dc_device_id dc = d \<and> dc_verify_key dc = k \<and> dc_timestamp dc = t \<and> dc_user_id dc = u)) \<and>
     (\<forall>r p. hm_get (vc_per_realm_self_role c) r = Some p \<longrightarrow>
        (\<exists>rc. latest (is_role_of r (ce_user_id env)) UpToCurrent l = Some (CRealmRole rc) \<and> rl_role rc = p)) \<and>
     (\<forall>r st. hm_get (vc_per_realm_bootstrap_state c) r = Some st \<longrightarrow> st = bootstrap_of l r)"

definition store_rel :: "certif_env \<Rightarrow> store_guard \<Rightarrow> certif_log \<Rightarrow> bool" where
  "store_rel env s l \<longleftrightarrow>
     rows_ok env (cb_rows (sg_db s)) l \<and> cache_ok env l (sg_cache s) \<and> log_ok (ce_user_id env) l"

definition sg_present :: "store_guard \<Rightarrow> bool" where
  "sg_present s \<longleftrightarrow> vc_per_topic_last_timestamps (sg_cache s) \<noteq> Miss"

definition keeps :: "store_guard \<Rightarrow> store_guard \<Rightarrow> bool" where
  "keeps s s' \<longleftrightarrow> cb_rows (sg_db s') = cb_rows (sg_db s) \<and> sg_events s' = sg_events s \<and>
     (cb_faults (sg_db s) = [] \<longrightarrow> cb_faults (sg_db s') = []) \<and> (sg_present s \<longrightarrow> sg_present s')"

lemma keeps_refl [simp]: "keeps s s"
  by (simp add: keeps_def)

lemma keeps_trans: "keeps s s1 \<Longrightarrow> keeps s1 s2 \<Longrightarrow> keeps s s2"
  by (simp add: keeps_def)

subsection \<open>Reading operations\<close>

definition reads ::
  "certif_env \<Rightarrow> 'e \<Rightarrow> certif_log \<Rightarrow> ('e, 'a) store_op \<Rightarrow> ('e + 'a \<Rightarrow> bool) \<Rightarrow> bool" where
  "reads env err l m R \<longleftrightarrow>
     (\<forall>s. store_rel env s l \<longrightarrow>
        (\<exists>s' r. m s = Some (s', r) \<and> keeps s s' \<and> store_rel env s' l \<and>
           (R r \<or> r = Inl err \<and> cb_faults (sg_db s) \<noteq> [])))"

abbreviation returns :: "certif_env \<Rightarrow> 'e \<Rightarrow> certif_log \<Rightarrow> ('e, 'a) store_op \<Rightarrow> ('e + 'a) \<Rightarrow> bool" where
  "returns env err l m r \<equiv> reads env err l m (\<lambda>r'. r' = r)"

definition is_result :: "'a option \<Rightarrow> 'e + 'a \<Rightarrow> bool" where
  "is_result v r \<longleftrightarrow> (case v of Some x \<Rightarrow> r = Inr x | None \<Rightarrow> \<exists>e. r = Inl e)"

abbreviation yields :: "certif_env \<Rightarrow> certif_log \<Rightarrow> 'a add_op \<Rightarrow> 'a option \<Rightarrow> bool" where
  "yields env l m v \<equiv> reads env BatchInternal l m (is_result v)"

lemma readsI:
  assumes "\<And>s. store_rel env s l \<Longrightarrow> \<exists>s' r. m s = Some (s', r) \<and> keeps s s' \<and> store_rel env s' l \<and>
           (R r \<or> r = Inl err \<and> cb_faults (sg_db s) \<noteq> [])"
  shows "reads env err l m R"
  using assms by (simp add: reads_def)

lemma readsE:
  assumes "reads env err l m R" "store_rel env s l"
  obtains s' r where "m s = Some (s', r)" "keeps s s'" "store_rel env s' l" "R r \<or> r = Inl err \<and> cb_faults (sg_db s) \<noteq> []"
  using assms by (auto simp: reads_def)

lemma reads_mono: "reads env err l m R \<Longrightarrow> (\<And>r. R r \<Longrightarrow> S r) \<Longrightarrow> reads env err l m S"
  unfolding reads_def by blast

lemma reads_return: "reads env err l (op_return x) (\<lambda>r. r = Inr x)"
  by (auto simp: reads_def op_return_def)

lemma reads_throw: "reads env err l (op_throw e) (\<lambda>r. r = Inl e)"
  by (auto simp: reads_def op_throw_def)

lemma reads_lift: "reads env err l (op_lift r) (\<lambda>r'. r' = r)"
  by (auto simp: reads_def op_lift_def)

lemma reads_match:
  assumes m: "reads env e0 l m R" and f: "\<And>r. R r \<Longrightarrow> reads env e1 l (f r) S" and "f (Inl e0) = op_throw e1"
  shows "reads env e1 l (op_match m f) S"
proof (rule readsI)
  fix s assume s: "store_rel env s l"
  obtain s1 r1 where 1: "m s = Some (s1, r1)" "keeps s s1" "store_rel env s1 l"
    "R r1 \<or> r1 = Inl e0 \<and> cb_faults (sg_db s) \<noteq> []" using readsE [OF m s] .
  show "\<exists>s' r. op_match m f s = Some (s', r) \<and> keeps s s' \<and> store_rel env s' l \<and>
           (S r \<or> r = Inl e1 \<and> cb_faults (sg_db s) \<noteq> [])"
  proof (cases "R r1")
    case True
    obtain s2 r2 where 2: "f r1 s1 = Some (s2, r2)" "keeps s1 s2" "store_rel env s2 l"
      "S r2 \<or> r2 = Inl e1 \<and> cb_faults (sg_db s1) \<noteq> []" using readsE [OF f [OF True] 1(3)] .
    moreover have "cb_faults (sg_db s1) \<noteq> [] \<Longrightarrow> cb_faults (sg_db s) \<noteq> []" using 1(2) by (auto simp: keeps_def)
    ultimately show ?thesis using 1 keeps_trans [OF 1(2) 2(2)] by (auto simp: op_match_def)
  next
    case False
    then show ?thesis using 1 assms(3) by (auto simp: op_match_def op_throw_def)
  qed
qed

lemma reads_bind:
  assumes "reads env e0 l m R" "\<And>x. R (Inr x) \<Longrightarrow> reads env e0 l (f x) S" "\<And>e. R (Inl e) \<Longrightarrow> S (Inl e)"
  shows "reads env e0 l (op_bind m f) S"
  unfolding op_bind_def
proof (rule reads_match [OF assms(1)])
  fix r assume "R r"
  then show "reads env e0 l (case r of Inl e \<Rightarrow> op_throw e | Inr x \<Rightarrow> f x) S"
    using assms(2,3) by (cases r) (auto intro: reads_mono [OF reads_throw])
qed simp

lemma reads_map_err:
  assumes "reads env e0 l m R" "\<And>x. R (Inr x) \<Longrightarrow> S (Inr x)" "\<And>e. R (Inl e) \<Longrightarrow> S (Inl (g e))"
  shows "reads env (g e0) l (op_map_err g m) S"
  unfolding op_map_err_def
proof (rule reads_match [OF assms(1)])
  fix r assume "R r"
  then show "reads env (g e0) l (case r of Inl e \<Rightarrow> op_throw (g e) | Inr x \<Rightarrow> op_return x) S"
    using assms(2,3) by (cases r) (auto intro: reads_mono [OF reads_throw] reads_mono [OF reads_return])
qed simp

subsection \<open>Loading certificates\<close>

lemma store_rel_db:
  "cb_rows db = cb_rows (sg_db s) \<Longrightarrow> store_rel env (s\<lparr>sg_db := db\<rparr>) l = store_rel env s l"
  by (simp add: store_rel_def)

lemma reads_on_db:
  assumes "\<And>db. rows_ok env (cb_rows db) l \<Longrightarrow> log_ok (ce_user_id env) l \<Longrightarrow>
    \<exists>db' r. m db = Some (db', r) \<and> cb_rows db' = cb_rows db \<and> (cb_faults db = [] \<longrightarrow> cb_faults db' = []) \<and>
      (R r \<or> r = Inl e0 \<and> cb_faults db \<noteq> [])"
  shows "reads env e0 l (on_db m) R"
proof (rule readsI)
  fix s assume s: "store_rel env s l"
  then obtain db' r where "m (sg_db s) = Some (db', r)" "cb_rows db' = cb_rows (sg_db s)"
    "cb_faults (sg_db s) = [] \<longrightarrow> cb_faults db' = []" "R r \<or> r = Inl e0 \<and> cb_faults (sg_db s) \<noteq> []"
    using assms [of "sg_db s"] by (auto simp: store_rel_def)
  then show "\<exists>s' r. on_db m s = Some (s', r) \<and> keeps s s' \<and> store_rel env s' l \<and>
      (R r \<or> r = Inl e0 \<and> cb_faults (sg_db s) \<noteq> [])"
    using s by (intro exI [of _ "s\<lparr>sg_db := db'\<rparr>"] exI [of _ r])
      (auto simp: on_db_def keeps_def sg_present_def store_rel_db)
qed

lemma reads_log: "(log_ok (ce_user_id env) l \<Longrightarrow> reads env e l m R) \<Longrightarrow> reads env e l m R"
  by (auto simp: reads_def store_rel_def)

lemma reads_get_certificate_encrypted:
  assumes "simple_query q" "strict_on (query_certif q) l"
  shows "reads env GetInternal l (on_db (db_get_certificate_encrypted q u)) (\<lambda>r.
     case latest (query_certif q) u l of
        Some c \<Rightarrow> (\<exists>data. r = Inr (certif_timestamp c, data) \<and> stores env l data c)
      | None \<Rightarrow> r = Inl (missing (query_certif q) u l))"
proof (rule reads_on_db)
  fix db :: certif_db assume "rows_ok env (cb_rows db) l"
  then obtain db' r where "db_get_certificate_encrypted q u db = Some (db', r)" "cb_rows db' = cb_rows db"
    "cb_faults db = [] \<Longrightarrow> cb_faults db' = []"
    "r = Inl GetInternal \<and> cb_faults db \<noteq> [] \<or>
     (case latest (query_certif q) u l of
        Some c \<Rightarrow> (\<exists>data. r = Inr (certif_timestamp c, data) \<and> stores env l data c)
      | None \<Rightarrow> r = Inl (missing (query_certif q) u l))"
    using db_get_certificate_encrypted_spec [of env db l q u] assms by blast
  then show "\<exists>db' r. db_get_certificate_encrypted q u db = Some (db', r) \<and> cb_rows db' = cb_rows db \<and>
      (cb_faults db = [] \<longrightarrow> cb_faults db' = []) \<and>
      ((case latest (query_certif q) u l of
        Some c \<Rightarrow> (\<exists>data. r = Inr (certif_timestamp c, data) \<and> stores env l data c)
      | None \<Rightarrow> r = Inl (missing (query_certif q) u l)) \<or> r = Inl GetInternal \<and> cb_faults db \<noteq> [])" by blast
qed

text \<open>A certificate that is read without the key of the authority.\<close>

definition plain :: "any_certificate \<Rightarrow> bool" where
  "plain c \<longleftrightarrow> as_sequester_service c = None \<and> as_sequester_revoked_service c = None"

lemma get_certificate_from_encrypted_ok:
  assumes "stores env l data c" "plain c" "as_name c = Some x"
  shows "get_certificate_from_encrypted env as_name data = Inr x"
proof -
  from assms obtain signed where dec: "dk_decrypt (ce_local_symkey env) data = Some signed"
    and "base_unsecure_load (ce_codec env) Some signed = Inr c"
    by (cases c) (auto simp: stores_def plain_def)
  then have "base_unsecure_load (ce_codec env) as_name signed = Inr x"
    using assms(3) by (auto simp: base_unsecure_load_def and_then_Inr ok_or_def split: option.split_asm)
  with dec show ?thesis by (simp add: get_certificate_from_encrypted_def ok_or_def)
qed

lemma reads_load_certificate:
  assumes q: "simple_query q" "query_certif q = P" and strict: "strict_on P l"
    and P: "\<And>c. P c \<Longrightarrow> plain c \<and> as_name c \<noteq> None"
  shows "returns env GetInternal l (load_certificate env as_name q u)
    (case Option.bind (latest P u l) as_name of Some x \<Rightarrow> Inr x | None \<Rightarrow> Inl (missing P u l))"
  unfolding load_certificate_def
proof (rule reads_bind [OF reads_get_certificate_encrypted])
  show "simple_query q" "strict_on (query_certif q) l" using assms by simp_all
next
  fix x assume R: "case latest (query_certif q) u l of
        Some c \<Rightarrow> (\<exists>data. Inr x = Inr (certif_timestamp c, data) \<and> stores env l data c)
      | None \<Rightarrow> Inr x = Inl (missing (query_certif q) u l)"
  then obtain c data where c: "latest P u l = Some c" "x = (certif_timestamp c, data)" "stores env l data c"
    using q by (auto split: option.split_asm)
  obtain y where y: "as_name c = Some y" "plain c" using P latest_SomeD(2) [OF c(1)] by blast
  show "returns env GetInternal l (case x of (_, encrypted) \<Rightarrow>
      op_map_err (\<lambda>_. GetInternal) (op_lift (get_certificate_from_encrypted env as_name encrypted)))
    (case Option.bind (latest P u l) as_name of Some x \<Rightarrow> Inr x | None \<Rightarrow> Inl (missing P u l))"
    using c y get_certificate_from_encrypted_ok [where as_name = as_name and x = y, OF c(3) y(2,1)]
    by (simp add: op_map_err_def op_match_def op_lift_def op_return_def reads_def)
next
  fix e assume "case latest (query_certif q) u l of
        Some c \<Rightarrow> (\<exists>data. Inl e = Inr (certif_timestamp c, data) \<and> stores env l data c)
      | None \<Rightarrow> (Inl e :: get_certificate_error + date_time \<times> byte list) = Inl (missing (query_certif q) u l)"
  then show "Inl e = (case Option.bind (latest P u l) as_name of Some x \<Rightarrow> Inr x | None \<Rightarrow> Inl (missing P u l))"
    using q by (auto split: option.split_asm)
qed

lemma missing_cases: "missing P u l = NonExisting \<or> (\<exists>t. missing P u l = ExistButTooRecent t)"
  by (auto simp: missing_def split: up_to.split list.split)

lemma missing_current [simp]: "missing P UpToCurrent l = NonExisting"
  by (simp add: missing_def)

lemma reads_load_last:
  assumes q: "simple_query q" "query_certif q = P" and strict: "strict_on P l"
    and P: "\<And>c. P c \<Longrightarrow> plain c \<and> as_name c \<noteq> None"
  shows "returns env Anyhow l (load_last_certificate env as_name q u) (Inr (Option.bind (latest P u l) as_name))"
    "u = UpToCurrent \<Longrightarrow> returns env Anyhow l (load_current_certificate env as_name q) (Inr (Option.bind (latest P u l) as_name))"
proof -
  note get = reads_get_certificate_encrypted [of q l env u, unfolded q(2), OF q(1) strict]
  have dec: "get_certificate_from_encrypted env as_name data = Inr (the (as_name c)) \<and> as_name c \<noteq> None"
    if "latest P u l = Some c" "stores env l data c" for c data
    using get_certificate_from_encrypted_ok [OF that(2)] P latest_SomeD(2) [OF that(1)] by fastforce
  show "returns env Anyhow l (load_last_certificate env as_name q u) (Inr (Option.bind (latest P u l) as_name))"
    unfolding load_last_certificate_def
  proof (rule reads_match [OF get])
    fix r assume R: "case latest P u l of
        Some c \<Rightarrow> (\<exists>data. r = Inr (certif_timestamp c, data) \<and> stores env l data c)
      | None \<Rightarrow> r = Inl (missing P u l)"
    then show "returns env Anyhow l (case r of
       Inr (_, encrypted) \<Rightarrow>
         op_bind (op_lift (get_certificate_from_encrypted env as_name encrypted)) (\<lambda>certif. op_return (Some certif))
     | Inl NonExisting \<Rightarrow> op_return None
     | Inl (ExistButTooRecent _) \<Rightarrow> op_return None
     | Inl GetInternal \<Rightarrow> op_throw Anyhow) (Inr (Option.bind (latest P u l) as_name))"
      using missing_cases [of P u l] dec
      by (cases "latest P u l") (auto simp: op_bind_def op_match_def op_lift_def op_return_def reads_def)
  qed simp
  show "returns env Anyhow l (load_current_certificate env as_name q) (Inr (Option.bind (latest P u l) as_name))"
    if u: "u = UpToCurrent"
    unfolding load_current_certificate_def
  proof (rule reads_match [OF get [unfolded u]])
    fix r assume R: "case latest P UpToCurrent l of
        Some c \<Rightarrow> (\<exists>data. r = Inr (certif_timestamp c, data) \<and> stores env l data c)
      | None \<Rightarrow> r = Inl (missing P UpToCurrent l)"
    then show "returns env Anyhow l (case r of
       Inr (_, encrypted) \<Rightarrow>
         op_bind (op_lift (get_certificate_from_encrypted env as_name encrypted)) (\<lambda>certif. op_return (Some certif))
     | Inl NonExisting \<Rightarrow> op_return None
     | Inl GetInternal \<Rightarrow> op_throw Anyhow
     | Inl (ExistButTooRecent _) \<Rightarrow> op_bind (op_assert False) (\<lambda>_. op_return None)) (Inr (Option.bind (latest P u l) as_name))"
      using dec u
      by (cases "latest P UpToCurrent l") (auto simp: op_bind_def op_match_def op_lift_def op_return_def reads_def)
  qed simp
qed

lemma reads_get_multiple:
  assumes q: "simple_query q" "query_certif q = P" and strict: "strict_on P l"
  shows "reads env Anyhow l (on_db (db_get_multiple_certificates_encrypted q u None None)) (\<lambda>r.
     \<exists>items. r = Inr items \<and>
       list_all2 (\<lambda>(_, data) c. stores env l data c) items (filter (\<lambda>c. P c \<and> up_to_allows u (certif_timestamp c)) l))"
proof (rule reads_on_db)
  fix db :: certif_db assume rows: "rows_ok env (cb_rows db) l"
  let ?P = "\<lambda>c. P c \<and> up_to_allows u (certif_timestamp c)"
  let ?rs = "build_get_certificate_query q u (cb_rows db)"
  let ?f = "\<lambda>rows. map (\<lambda>r. (cr_timestamp r, cr_data r)) (order_by_timestamp_asc (build_get_certificate_query q u rows))"
  have rel: "list_all2 (row_of env l) ?rs (filter ?P l)"
    unfolding build_get_certificate_query_def
    using rows [unfolded rows_ok_def]
    by (rule list_all2_filter) (simp add: query_matches_row [OF _ q(1)] q(2), simp add: row_of_def)
  have "filter ?P l = filter (\<lambda>c. up_to_allows u (certif_timestamp c)) (filter P l)" by (simp add: conj_commute)
  then have "sorted_wrt (\<lambda>a b. certif_timestamp a < certif_timestamp b) (filter ?P l)"
    using strict [unfolded strict_on_def] sorted_wrt_filter by metis
  then have "sorted_wrt (\<lambda>a b. cr_timestamp a < cr_timestamp b) ?rs"
    by (rule list_all2_sorted [OF rel]) (simp add: row_of_def)
  then have "order_by_timestamp_asc ?rs = ?rs" unfolding order_by_timestamp_asc_def by (rule sort_key_sorted)
  then have items: "list_all2 (\<lambda>(_, data) c. stores env l data c) (?f (cb_rows db)) (filter ?P l)"
    using rel by (auto simp: list_all2_map1 row_of_def elim!: list_all2_mono)
  have op: "db_get_multiple_certificates_encrypted q u None None = sql_statement Anyhow ?f"
    by (simp add: db_get_multiple_certificates_encrypted_def)
  show "\<exists>db' r. db_get_multiple_certificates_encrypted q u None None db = Some (db', r) \<and> cb_rows db' = cb_rows db \<and>
      (cb_faults db = [] \<longrightarrow> cb_faults db' = []) \<and>
      ((\<exists>items. r = Inr items \<and> list_all2 (\<lambda>(_, data) c. stores env l data c) items (filter ?P l)) \<or>
       r = Inl Anyhow \<and> cb_faults db \<noteq> [])"
    unfolding op
    by (cases rule: sql_statement_cases [where db = db and f = ?f and err = Anyhow]) (use items in auto)
qed

lemma get_multiple_ok:
  assumes "list_all2 (\<lambda>(_, data) c. stores env l data c) items cs"
    and "\<forall>c \<in> set cs. plain c \<and> as_name c \<noteq> None"
  shows "get_multiple_certificates_from_encrypted env as_name items = Inr (List.map_filter as_name cs)"
  using assms
proof (induction rule: list_all2_induct)
  case (Cons item items c cs)
  obtain t data where item: "item = (t, data)" by (cases item)
  from Cons.prems obtain x where x: "as_name c = Some x" "plain c" by auto
  have "get_certificate_from_encrypted env as_name data = Inr x"
    using Cons.hyps(1) item x by (auto intro: get_certificate_from_encrypted_ok)
  with Cons x item show ?case by (simp add: List.map_filter_simps)
qed (simp add: List.map_filter_simps)

lemma reads_load_certificates:
  assumes q: "simple_query q" "query_certif q = P" and strict: "strict_on P l"
    and P: "\<And>c. P c \<Longrightarrow> plain c \<and> as_name c \<noteq> None"
  shows "returns env Anyhow l (load_certificates env as_name q u None None)
    (Inr (List.map_filter as_name (filter (\<lambda>c. P c \<and> up_to_allows u (certif_timestamp c)) l)))"
  unfolding load_certificates_def
proof (rule reads_bind [OF reads_get_multiple [OF q strict]])
  fix items :: "(date_time \<times> byte list) list"
  assume "\<exists>items'. (Inr items :: anyhow + _) = Inr items' \<and> list_all2 (\<lambda>(_, data) c. stores env l data c) items'
     (filter (\<lambda>c. P c \<and> up_to_allows u (certif_timestamp c)) l)"
  then have "get_multiple_certificates_from_encrypted env as_name items =
      Inr (List.map_filter as_name (filter (\<lambda>c. P c \<and> up_to_allows u (certif_timestamp c)) l))"
    by (intro get_multiple_ok) (auto simp: P)
  then show "returns env Anyhow l (op_lift (get_multiple_certificates_from_encrypted env as_name items))
      (Inr (List.map_filter as_name (filter (\<lambda>c. P c \<and> up_to_allows u (certif_timestamp c)) l)))"
    by (simp add: reads_lift)
qed auto

lemma reads_db_last_timestamps:
  "reads env Anyhow l (on_db db_get_last_timestamps) (\<lambda>r. \<exists>ts. r = Inr ts \<and> timestamps_of ts l)"
proof (rule reads_on_db)
  fix db :: certif_db assume rows: "rows_ok env (cb_rows db) l" and log: "log_ok (ce_user_id env) l"
  obtain m where m: "per_realm_last_timestamps (cb_rows db) = Inr m" "\<And>r. hm_get m r = last_ts (RealmTopic r) l"
    using per_realm_last_timestamps_spec [OF rows log] by blast
  note types = topic_types(1-3) [THEN last_timestamp_of_types [OF rows log]]
  let ?ok = "\<lambda>db' r. cb_rows db' = cb_rows db \<and> (cb_faults db = [] \<longrightarrow> cb_faults db' = []) \<and>
      ((\<exists>ts. r = Inr ts \<and> timestamps_of ts l) \<or> r = Inl Anyhow \<and> cb_faults db \<noteq> [])"
  obtain db1 r1 where 1: "sql_statement Anyhow (last_timestamp_of_types topic_types_common) db = Some (db1, r1)"
    "r1 = Inl Anyhow \<and> cb_faults db \<noteq> [] \<or> r1 = Inr (last_ts CommonTopic l)" "cb_rows db1 = cb_rows db"
    "cb_faults db = [] \<longrightarrow> cb_faults db1 = []"
    by (cases rule: sql_statement_cases [where db = db and f = "last_timestamp_of_types topic_types_common" and err = Anyhow])
      (auto simp: types)
  obtain db2 r2 where 2: "sql_statement Anyhow (last_timestamp_of_types topic_types_sequester) db1 = Some (db2, r2)"
    "r2 = Inl Anyhow \<and> cb_faults db1 \<noteq> [] \<or> r2 = Inr (last_ts SequesterTopic l)" "cb_rows db2 = cb_rows db"
    "cb_faults db1 = [] \<longrightarrow> cb_faults db2 = []"
    by (cases rule: sql_statement_cases [where db = db1 and f = "last_timestamp_of_types topic_types_sequester" and err = Anyhow])
      (auto simp: types 1)
  obtain db3 r3 where 3: "sql_statement Anyhow per_realm_last_timestamps db2 = Some (db3, r3)"
    "r3 = Inl Anyhow \<and> cb_faults db2 \<noteq> [] \<or> r3 = Inr (Inr m)" "cb_rows db3 = cb_rows db"
    "cb_faults db2 = [] \<longrightarrow> cb_faults db3 = []"
    by (cases rule: sql_statement_cases [where db = db2 and f = "per_realm_last_timestamps" and err = Anyhow])
      (auto simp: m(1) 2)
  obtain db4 r4 where 4: "sql_statement Anyhow (last_timestamp_of_types topic_types_shamir) db3 = Some (db4, r4)"
    "r4 = Inl Anyhow \<and> cb_faults db3 \<noteq> [] \<or> r4 = Inr (last_ts ShamirTopic l)" "cb_rows db4 = cb_rows db"
    "cb_faults db3 = [] \<longrightarrow> cb_faults db4 = []"
    by (cases rule: sql_statement_cases [where db = db3 and f = "last_timestamp_of_types topic_types_shamir" and err = Anyhow])
      (auto simp: types 3)
  show "\<exists>db' r. db_get_last_timestamps db = Some (db', r) \<and> ?ok db' r"
    using 1 2 3 4 m(2)
    by (auto simp: db_get_last_timestamps_def op_bind_def op_match_def op_throw_def op_lift_def op_return_def timestamps_of_def)
qed

lemma reads_read_cache: "reads env e l (read_cache f) (\<lambda>r. \<exists>c. r = Inr (f c) \<and> cache_ok env l c)"
  by (auto simp: reads_def read_cache_def store_rel_def)

lemma reads_update_cache:
  assumes "\<And>c. cache_ok env l c \<Longrightarrow> cache_ok env l (f c)"
    and "\<And>c. vc_per_topic_last_timestamps c \<noteq> Miss \<Longrightarrow> vc_per_topic_last_timestamps (f c) \<noteq> Miss"
  shows "reads env e l (update_cache f) (\<lambda>r. r = Inr ())"
  using assms by (auto simp: reads_def update_cache_def op_modify_def store_rel_def keeps_def sg_present_def)

lemma reads_last_timestamps:
  "reads env Anyhow l get_last_timestamps (\<lambda>r. \<exists>ts. r = Inr ts \<and> timestamps_of ts l)"
  unfolding get_last_timestamps_def
proof (rule reads_bind [OF reads_read_cache])
  fix x assume "\<exists>c. Inr x = Inr (vc_per_topic_last_timestamps c) \<and> cache_ok env l c"
  then obtain c where c: "x = vc_per_topic_last_timestamps c" "cache_ok env l c" by blast
  show "reads env Anyhow l (case x of
       Present last_timestamps \<Rightarrow> op_return last_timestamps
     | Miss \<Rightarrow>
         op_bind (on_db db_get_last_timestamps) (\<lambda>last_timestamps.
         op_bind (update_cache (\<lambda>c. c\<lparr>vc_per_topic_last_timestamps := Present last_timestamps\<rparr>)) (\<lambda>_.
         op_return last_timestamps))) (\<lambda>r. \<exists>ts. r = Inr ts \<and> timestamps_of ts l)"
  proof (cases x)
    case (Present ts)
    with c have "timestamps_of ts l" by (simp add: cache_ok_def)
    with Present show ?thesis by (auto intro: reads_mono [OF reads_return])
  next
    case Miss
    have "reads env Anyhow l (op_bind (update_cache (\<lambda>c. c\<lparr>vc_per_topic_last_timestamps := Present ts\<rparr>)) (\<lambda>_.
         op_return ts)) (\<lambda>r. \<exists>ts. r = Inr ts \<and> timestamps_of ts l)" if ts: "timestamps_of ts l" for ts
      by (rule reads_bind [OF reads_update_cache]) (auto simp: cache_ok_def ts intro: reads_mono [OF reads_return])
    then show ?thesis unfolding Miss by (auto intro!: reads_bind [OF reads_db_last_timestamps])
  qed
qed blast

subsection \<open>Getters\<close>

lemma kind_plain:
  "is_user u c \<Longrightarrow> plain c \<and> as_user c \<noteq> None"
  "is_device d c \<Longrightarrow> plain c \<and> as_device c \<noteq> None"
  "is_update u c \<Longrightarrow> plain c \<and> as_user_update c \<noteq> None"
  "is_revocation u c \<Longrightarrow> plain c \<and> as_revoked_user c \<noteq> None"
  "is_role_in r c \<Longrightarrow> plain c \<and> as_realm_role c \<noteq> None"
  "is_brief c \<Longrightarrow> plain c \<and> as_shamir_brief c \<noteq> None"
  "is_brief_of u c \<Longrightarrow> plain c \<and> as_shamir_brief c \<noteq> None"
  "is_share_of u v c \<Longrightarrow> plain c \<and> as_shamir_share c \<noteq> None"
  "is_deletion_of u c \<Longrightarrow> plain c \<and> as_shamir_deletion c \<noteq> None"
  "is_authority c \<Longrightarrow> plain c \<and> as_sequester_authority c \<noteq> None"
  by (cases c; simp add: plain_def)+

lemma reads_user_certificate:
  "returns env GetInternal l (get_user_certificate env (at t) u)
     (case user_at l t u of Some c \<Rightarrow> Inr c | None \<Rightarrow> Inl (missing (is_user u) (at t) l))"
  unfolding get_user_certificate_def user_at_def
  by (rule reads_log, rule reads_load_certificate) (simp_all add: query_certif_kinds log_strict_all kind_plain)

lemma reads_device_certificate:
  "returns env GetInternal l (get_device_certificate env (at t) d)
     (case device_at l t d of Some c \<Rightarrow> Inr c | None \<Rightarrow> Inl (missing (is_device d) (at t) l))"
  unfolding get_device_certificate_def device_at_def
  by (rule reads_log, rule reads_load_certificate) (simp_all add: query_certif_kinds log_strict_all kind_plain)

lemma reads_revoked_user:
  "returns env Anyhow l (get_revoked_user_certificate env u i)
     (Inr (Option.bind (latest (is_revocation i) u l) as_revoked_user))"
  unfolding get_revoked_user_certificate_def
  by (rule reads_log, rule reads_load_last(1)) (simp_all add: query_certif_kinds log_strict_all kind_plain)

lemma reads_user_update:
  "returns env Anyhow l (get_last_user_update_certificate env u i)
     (Inr (Option.bind (latest (is_update i) u l) as_user_update))"
  unfolding get_last_user_update_certificate_def
  by (rule reads_log, rule reads_load_last(1)) (simp_all add: query_certif_kinds log_strict_all kind_plain)

lemma reads_realm_roles:
  "returns env Anyhow l (get_realm_roles env (at t) r) (Inr (roles_at l t r))"
  unfolding get_realm_roles_def roles_at_def
  by (rule reads_log, rule reads_mono [OF reads_load_certificates [where P = "is_role_in r"]])
    (simp_all add: query_certif_kinds log_strict_all kind_plain)

lemma reads_authority:
  "returns env Anyhow l (get_sequester_authority_certificate env) (Inr (authority_of l))"
  unfolding get_sequester_authority_certificate_def authority_of_def
  by (rule reads_log, rule reads_load_last(2)) (simp_all add: query_certif_kinds log_strict_all kind_plain)

lemma reads_brief:
  "returns env Anyhow l (get_last_shamir_recovery_brief_certificate env u)
     (Inr (Option.bind (latest is_brief u l) as_shamir_brief))"
  unfolding get_last_shamir_recovery_brief_certificate_def
  by (rule reads_log, rule reads_load_last(1)) (simp_all add: query_certif_kinds log_strict_all kind_plain)

lemma reads_brief_for_author:
  "returns env Anyhow l (get_last_shamir_recovery_brief_certificate_for_author env u i)
     (Inr (Option.bind (latest (is_brief_of i) u l) as_shamir_brief))"
  unfolding get_last_shamir_recovery_brief_certificate_for_author_def
  by (rule reads_log, rule reads_load_last(1)) (simp_all add: query_certif_kinds log_strict_all kind_plain)

lemma reads_share_for_recipient:
  "returns env Anyhow l (get_last_shamir_recovery_share_certificate_for_recipient env u i r)
     (Inr (Option.bind (latest (is_share_of i r) u l) as_shamir_share))"
  unfolding get_last_shamir_recovery_share_certificate_for_recipient_def
  by (rule reads_log, rule reads_load_last(1)) (simp_all add: query_certif_kinds log_strict_all kind_plain)

lemma reads_deletion_for_author:
  "returns env Anyhow l (get_last_shamir_recovery_deletion_certificate_for_author env u i)
     (Inr (Option.bind (latest (is_deletion_of i) u l) as_shamir_deletion))"
  unfolding get_last_shamir_recovery_deletion_certificate_for_author_def
  by (rule reads_log, rule reads_load_last(1)) (simp_all add: query_certif_kinds log_strict_all kind_plain)

lemma returns_bind:
  assumes "returns env e l m (Inr x)" "reads env e l (f x) R" shows "reads env e l (op_bind m f) R"
  using assms by (auto intro: reads_bind)

lemma reads_shamir:
  "returns env Anyhow l (get_last_shamir_recovery_for_author env (at t) u) (Inr (shamir_at l t u))"
  unfolding get_last_shamir_recovery_for_author_def
proof (rule returns_bind [OF reads_brief_for_author])
  show "returns env Anyhow l (case Option.bind (latest (is_brief_of u) (at t) l) as_shamir_brief of
       None \<Rightarrow> op_return NeverSetup
     | Some last_brief_certif \<Rightarrow>
         op_bind (get_last_shamir_recovery_deletion_certificate_for_author env (at t) u) (\<lambda>maybe_deletion.
         op_return (case maybe_deletion of
           None \<Rightarrow> ShamirValid last_brief_certif
         | Some last_deletion_certif \<Rightarrow>
             if sd_setup_to_delete_timestamp last_deletion_certif = sb_timestamp last_brief_certif
             then ShamirDeleted last_brief_certif last_deletion_certif
             else ShamirValid last_brief_certif))) (Inr (shamir_at l t u))"
    by (cases "Option.bind (latest (is_brief_of u) (at t) l) as_shamir_brief")
      (auto simp: shamir_at_def intro!: reads_mono [OF reads_return] reads_mono [OF returns_bind [OF reads_deletion_for_author reads_return]])
qed

lemma missing_at: "missing P (at t) l = NonExisting \<longleftrightarrow> (\<forall>c \<in> set l. \<not> P c)"
  by (cases "filter P l") (auto simp: missing_def filter_empty_conv dest: filter_eq_ConsD)

lemma distinct_if_strict: "sorted_wrt (\<lambda>a b. certif_timestamp a < certif_timestamp b) xs \<Longrightarrow> distinct xs"
  by (induction xs) auto

lemma list_of_singleton: "distinct xs \<Longrightarrow> set xs = {x} \<Longrightarrow> xs = [x]"
proof (cases xs)
  case (Cons y ys)
  assume "distinct xs" "set xs = {x}"
  with Cons have "y = x" "set ys \<subseteq> {x}" "x \<notin> set ys" by auto
  then have "ys = []" by (cases ys) auto
  with Cons \<open>y = x\<close> show ?thesis by simp
qed simp

text \<open>A device found in the cache is the one the database has.\<close>

lemma device_at_unique:
  assumes log: "log_ok self l" and dc: "CDevice dc \<in> set l" "dc_device_id dc = d"
  shows "device_at l t d = (if dc_timestamp dc \<le> t then Some dc else None)"
    "\<not> dc_timestamp dc \<le> t \<Longrightarrow> missing (is_device d) (at t) l = ExistButTooRecent (dc_timestamp dc)"
proof -
  have uniq: "c = CDevice dc" if "c \<in> set l" "is_device d c" for c
    using log dc that
  proof (induction)
    case (log_append l' c')
    have no: "\<not> is_device d c''" if "is_device d c'" "c'' \<in> set l'" for c''
      using log_append.hyps(2) that by (cases c') (auto simp: list_all_iff split: certificate_signer.split_asm)
    show ?case
    proof (cases "is_device d c'")
      case True
      then have "CDevice dc \<notin> set l'" "c \<notin> set l'"
        using no [OF True, of "CDevice dc"] no [OF True, of c] log_append.prems by auto
      then show ?thesis using log_append.prems by simp
    next
      case False
      then have "CDevice dc \<in> set l'" "c \<in> set l'" using log_append.prems by auto
      then show ?thesis using log_append.IH log_append.prems by blast
    qed
  qed simp
  have only: "filter (is_device d) l = [CDevice dc]"
  proof -
    have "is_device d (CDevice dc)" using dc by simp
    then have "set (filter (is_device d) l) = {CDevice dc}" unfolding set_filter using uniq dc(1) by blast
    moreover have "distinct (filter (is_device d) l)"
      using log_strict_device [OF log, of d] unfolding strict_on_def by (rule distinct_if_strict)
    ultimately show ?thesis by (rule list_of_singleton [rotated])
  qed
  have "filter (\<lambda>c. is_device d c \<and> up_to_allows (at t) (certif_timestamp c)) l =
     filter (\<lambda>c. up_to_allows (at t) (certif_timestamp c)) (filter (is_device d) l)" by (simp add: conj_commute)
  then show "device_at l t d = (if dc_timestamp dc \<le> t then Some dc else None)"
    unfolding only by (simp add: device_at_def latest_def)
  show "missing (is_device d) (at t) l = ExistButTooRecent (dc_timestamp dc)"
    by (simp add: missing_def only)
qed

lemma device_at_SomeD:
  assumes "device_at l t d = Some dc" shows "CDevice dc \<in> set l" "dc_device_id dc = d" "dc_timestamp dc \<le> t"
proof -
  from assms obtain c where c: "latest (is_device d) (at t) l = Some c" "as_device c = Some dc"
    by (auto simp: device_at_def Option.bind_eq_Some_conv)
  then have "c = CDevice dc" by (cases c) auto
  with latest_SomeD [OF c(1)] show "CDevice dc \<in> set l" "dc_device_id dc = d" "dc_timestamp dc \<le> t" by auto
qed

lemma user_at_SomeD:
  assumes "user_at l t u = Some uc" shows "CUser uc \<in> set l" "uc_user_id uc = u" "uc_timestamp uc \<le> t"
proof -
  from assms obtain c where c: "latest (is_user u) (at t) l = Some c" "as_user c = Some uc"
    by (auto simp: user_at_def Option.bind_eq_Some_conv)
  then have "c = CUser uc" by (cases c) auto
  with latest_SomeD [OF c(1)] show "CUser uc \<in> set l" "uc_user_id uc = u" "uc_timestamp uc \<le> t" by auto
qed

lemma reads_device_verify_key:
  "returns env GetInternal l (get_device_verify_key_and_user_id env (at t) d)
     (case device_at l t d of Some dc \<Rightarrow> Inr (dc_verify_key dc, dc_user_id dc)
      | None \<Rightarrow> Inl (missing (is_device d) (at t) l))"
proof (rule reads_log)
  assume log: "log_ok (ce_user_id env) l"
  let ?r = "case device_at l t d of Some dc \<Rightarrow> Inr (dc_verify_key dc, dc_user_id dc)
      | None \<Rightarrow> Inl (missing (is_device d) (at t) l)"
  have load: "returns env GetInternal l (load_certificate env as_device (Filter1 TDevice (FBytes d)) (at t))
     (case device_at l t d of Some c \<Rightarrow> Inr c | None \<Rightarrow> Inl (missing (is_device d) (at t) l))"
    using reads_device_certificate [of env l t d] by (simp add: get_device_certificate_def)
  show "returns env GetInternal l (get_device_verify_key_and_user_id env (at t) d) ?r"
    unfolding get_device_verify_key_and_user_id_def
  proof (rule reads_bind [OF reads_read_cache])
    fix x assume "\<exists>c. (Inr x :: get_certificate_error + _) = Inr (hm_get (vc_per_device_verify_key_and_user_id c) d) \<and> cache_ok env l c"
    then obtain c where c: "x = hm_get (vc_per_device_verify_key_and_user_id c) d" "cache_ok env l c" by blast
    show "returns env GetInternal l (case x of
       Some (verify_key, timestamp, user_id) \<Rightarrow>
         (case at t of
            UpToTimestamp t \<Rightarrow>
              if timestamp > t then op_throw (ExistButTooRecent timestamp) else op_return (verify_key, user_id)
          | UpToCurrent \<Rightarrow> op_return (verify_key, user_id))
     | None \<Rightarrow>
         op_bind (load_certificate env as_device (Filter1 TDevice (FBytes d)) (at t)) (\<lambda>certif.
         op_bind (update_cache (\<lambda>c. c\<lparr>vc_per_device_verify_key_and_user_id :=
             hm_insert d (dc_verify_key certif, dc_timestamp certif, dc_user_id certif)
               (vc_per_device_verify_key_and_user_id c)\<rparr>)) (\<lambda>_.
         op_return (dc_verify_key certif, dc_user_id certif)))) ?r"
    proof (cases x)
      case (Some y)
      obtain k ts u where y: "y = (k, ts, u)" by (cases y)
      with Some c obtain dc where "CDevice dc \<in> set l" "dc_device_id dc = d" "dc_verify_key dc = k"
        "dc_timestamp dc = ts" "dc_user_id dc = u" unfolding cache_ok_def by metis
      with device_at_unique [OF log this(1,2), of t] Some y show ?thesis
        by (auto intro: reads_mono [OF reads_return] reads_mono [OF reads_throw])
    next
      case None
      have upd: "returns env GetInternal l (op_bind (update_cache (\<lambda>c. c\<lparr>vc_per_device_verify_key_and_user_id :=
             hm_insert d (dc_verify_key dc, dc_timestamp dc, dc_user_id dc)
               (vc_per_device_verify_key_and_user_id c)\<rparr>)) (\<lambda>_. op_return (dc_verify_key dc, dc_user_id dc)))
           (Inr (dc_verify_key dc, dc_user_id dc))" if "device_at l t d = Some dc" for dc
        using device_at_SomeD [OF that]
        by (intro reads_bind [OF reads_update_cache]) (auto simp: cache_ok_def hm_simps intro: reads_mono [OF reads_return])
      show ?thesis unfolding None
        by (simp, rule reads_bind [OF load]) (auto split: option.split_asm dest: upd)
    qed
  qed auto
qed

end
