(* ===== verification/Certificate_Validation.thy ===== *)
theory Certificate_Validation
  imports Certificate_Refinement
begin

text \<open>
  The validation of \<^verbatim>\<open>add.rs\<close> decides \<open>certif_ok\<close>: every check accepts exactly the certificates that the
  specification allows after the stored log, and never panics.
\<close>

subsection \<open>Validation\<close>

text \<open>What a check decides, without the error it reports.\<close>

abbreviation guarded :: "bool \<Rightarrow> unit option" where
  "guarded b \<equiv> if b then Some () else None"

lemma is_result_simps [simp]:
  "is_result (Some x) r \<longleftrightarrow> r = Inr x" "is_result None r \<longleftrightarrow> (\<exists>e. r = Inl e)"
  by (simp_all add: is_result_def)

lemma yields_return: "yields env l (op_return x) (Some x)"
  by (auto intro: reads_mono [OF reads_return])

lemma yields_throw: "yields env l (op_throw e) None" "yields env l (invalid what) None"
  by (auto simp: invalid_def intro: reads_mono [OF reads_throw])

lemma yields_require: "yields env l (require b what) (guarded b)"
  by (auto simp: require_def op_ensure_def intro: yields_return yields_throw)

lemma require_simps [simp]: "require True what = op_return ()" "require False what = invalid what"
  by (simp_all add: require_def op_ensure_def invalid_def)

lemma yields_bind:
  assumes "yields env l m v" "\<And>x. v = Some x \<Longrightarrow> yields env l (f x) w" "v = None \<Longrightarrow> w = None"
  shows "yields env l (op_bind m f) w"
  by (rule reads_bind [OF assms(1)]) (use assms(2,3) in \<open>cases v; auto\<close>)+

lemma yields_guard:
  assumes "yields env l m (guarded P)" "P \<Longrightarrow> yields env l f w" "\<not> P \<Longrightarrow> w = None"
  shows "yields env l (op_bind m (\<lambda>_. f)) w"
  by (rule yields_bind [OF assms(1)]) (use assms(2,3) in \<open>auto split: if_split_asm\<close>)

lemma yields_internal:
  assumes "returns env Anyhow l m (Inr x)" "yields env l (f x) w"
  shows "yields env l (op_bind (internal m) f) w"
proof -
  have "reads env BatchInternal l (internal m) (\<lambda>r. r = Inr x)"
    unfolding internal_def by (rule reads_map_err [OF assms(1)]) auto
  then show ?thesis using assms(2) by (rule returns_bind)
qed

lemma yields_timestamps:
  assumes "\<And>ts. timestamps_of ts l \<Longrightarrow> yields env l (f ts) w"
  shows "yields env l (op_bind (internal get_last_timestamps) f) w"
proof -
  have "reads env BatchInternal l (internal get_last_timestamps) (\<lambda>r. \<exists>ts. r = Inr ts \<and> timestamps_of ts l)"
    unfolding internal_def by (rule reads_map_err [OF reads_last_timestamps]) auto
  then show ?thesis by (rule reads_bind) (use assms in auto)
qed

lemma yields_log: "(log_ok (ce_user_id env) l \<Longrightarrow> yields env l m v) \<Longrightarrow> yields env l m v"
  by (rule reads_log)

lemma newest_iff_last_ts:
  assumes "log_ok self l"
  shows "newest l c \<longleftrightarrow> (case last_ts (certif_topic c) l of None \<Rightarrow> True | Some m \<Rightarrow> m < certif_timestamp c)"
    "not_older l c \<longleftrightarrow> (case last_ts (certif_topic c) l of None \<Rightarrow> True | Some m \<Rightarrow> m \<le> certif_timestamp c)"
proof -
  have none: "newest l c" "not_older l c" if "last_ts (certif_topic c) l = None"
    using that by (auto simp: last_ts_None topic_empty_def newest_def not_older_def list_all_iff)
  have "newest l c \<longleftrightarrow> m < certif_timestamp c" "not_older l c \<longleftrightarrow> m \<le> certif_timestamp c"
    if "last_ts (certif_topic c) l = Some m" for m
    using last_ts_Some [OF assms that] by (fastforce simp: newest_iff not_older_iff)+
  with none show "newest l c \<longleftrightarrow> (case last_ts (certif_topic c) l of None \<Rightarrow> True | Some m \<Rightarrow> m < certif_timestamp c)"
    "not_older l c \<longleftrightarrow> (case last_ts (certif_topic c) l of None \<Rightarrow> True | Some m \<Rightarrow> m \<le> certif_timestamp c)"
    by (cases "last_ts (certif_topic c) l"; simp)+
qed

lemma yields_require_newest:
  assumes "m0 = last_ts (certif_topic c) l" "t = certif_timestamp c"
  shows "yields env l (require_newest m0 t) (guarded (newest l c))"
proof (rule yields_log)
  assume log: "log_ok (ce_user_id env) l"
  show "yields env l (require_newest m0 t) (guarded (newest l c))"
  proof (cases m0)
    case None
    with newest_iff_last_ts(1) [OF log, of c] assms show ?thesis by (simp add: require_newest_def yields_return)
  next
    case (Some m)
    with assms have "last_ts (certif_topic c) l = Some m" by simp
    with newest_iff_last_ts(1) [OF log, of c] assms have "newest l c \<longleftrightarrow> \<not> t \<le> m" by auto
    with Some show ?thesis using yields_require [of env l "\<not> t \<le> m"] by (simp add: require_newest_def)
  qed
qed

lemma yields_match:
  assumes "returns env e0 l m r" "yields env l (f r) w" "f (Inl e0) = op_throw BatchInternal"
  shows "yields env l (op_match m f) w"
  by (rule reads_match [OF assms(1)]) (simp_all add: assms(2,3))

lemma yields_user_exists: "yields env l (check_user_exists env t u) (user_at l t u)"
  unfolding check_user_exists_def
proof (rule yields_match [OF reads_user_certificate])
  show "yields env l (case case user_at l t u of Some c \<Rightarrow> Inr c | None \<Rightarrow> Inl (missing (is_user u) (at t) l) of
       Inr certif \<Rightarrow> op_return certif
     | Inl NonExisting \<Rightarrow> invalid NonExistingRelatedUser
     | Inl (ExistButTooRecent certificate_timestamp) \<Rightarrow> invalid (OlderThanRelatedUser certificate_timestamp)
     | Inl GetInternal \<Rightarrow> op_throw BatchInternal) (user_at l t u)"
    using missing_cases [of "is_user u" "at t" l]
    by (cases "user_at l t u") (auto intro: yields_return yields_throw)
qed simp

lemma revoked_at_iff: "revoked_at l t u \<longleftrightarrow> Option.bind (latest (is_revocation u) (at t) l) as_revoked_user \<noteq> None"
  by (cases "latest (is_revocation u) (at t) l")
    (auto simp: revoked_at_def dest!: latest_SomeD(2) kind_plain(4))

lemma yields_not_revoked: "yields env l (check_user_not_revoked env t u) (guarded (\<not> revoked_at l t u))"
  unfolding check_user_not_revoked_def
  by (rule yields_internal [OF reads_revoked_user])
    (auto simp: revoked_at_iff intro: yields_return yields_throw split: option.split)

lemma yields_user_profile:
  assumes "c = None \<or> user_at l t u = c"
  shows "yields env l (get_user_profile env t u c) (profile_at l t u)"
  unfolding get_user_profile_def
proof (rule yields_internal [OF reads_user_update])
  have fetch: "yields env l (case c of Some user_certificate \<Rightarrow> op_return user_certificate
     | None \<Rightarrow> check_user_exists env t u) (user_at l t u)"
    using assms by (cases c) (auto intro: yields_return yields_user_exists)
  show "yields env l (case Option.bind (latest (is_update u) (at t) l) as_user_update of
       Some last_update \<Rightarrow> op_return (up_new_profile last_update)
     | None \<Rightarrow>
         op_bind (case c of
                    Some user_certificate \<Rightarrow> op_return user_certificate
                  | None \<Rightarrow> check_user_exists env t u) (\<lambda>user_certificate.
         op_return (uc_profile user_certificate))) (profile_at l t u)"
    by (cases "Option.bind (latest (is_update u) (at t) l) as_user_update")
      (auto simp: profile_at_def intro!: yields_bind [OF fetch] intro: yields_return)
qed

lemma yields_author:
  "yields env l (check_author_not_revoked_and_profile env t a admin)
     (guarded (\<not> revoked_at l t a \<and> (admin \<longrightarrow> profile_at l t a = Some Admin)))"
proof -
  have revoked: "yields env l (case Option.bind (latest (is_revocation a) (at t) l) as_revoked_user of
      None \<Rightarrow> op_return ()
    | Some revoked_certificate \<Rightarrow> invalid (RevokedAuthor (rv_timestamp revoked_certificate))) (guarded (\<not> revoked_at l t a))"
    by (auto simp: revoked_at_iff intro: yields_return yields_throw split: option.split)
  have profile: "yields env l (op_match (get_user_profile env t a None) (\<lambda>r.
          case r of
            Inr profile \<Rightarrow> require (profile = Admin) (AuthorNotAdmin profile)
          | Inl (InvalidCertificate _) \<Rightarrow> op_throw BatchInternal
          | Inl BatchInternal \<Rightarrow> op_throw BatchInternal)) (guarded (profile_at l t a = Some Admin))"
  proof (rule reads_match [OF yields_user_profile])
    fix r :: "batch_error + user_profile" assume r: "is_result (profile_at l t a) r"
    show "yields env l (case r of
            Inr profile \<Rightarrow> require (profile = Admin) (AuthorNotAdmin profile)
          | Inl (InvalidCertificate _) \<Rightarrow> op_throw BatchInternal
          | Inl BatchInternal \<Rightarrow> op_throw BatchInternal) (guarded (profile_at l t a = Some Admin))"
    proof (cases "profile_at l t a")
      case None
      with r obtain e where "r = Inl e" by auto
      with None show ?thesis by (auto intro: yields_throw split: batch_error.split)
    next
      case (Some p)
      with r yields_require [of env l "p = Admin" "AuthorNotAdmin p"] show ?thesis by simp
    qed
  qed simp_all
  show ?thesis
    unfolding check_author_not_revoked_and_profile_def
    by (rule yields_internal [OF reads_revoked_user], rule yields_guard [OF revoked])
      (use profile in \<open>auto intro: yields_return split: if_splits\<close>)
qed

definition signature_ok :: "certif_env \<Rightarrow> verify_key \<Rightarrow> byte list \<Rightarrow> bool" where
  "signature_ok env key signed \<longleftrightarrow> cc_verify (ce_codec env) key signed \<noteq> None"

lemma yields_verify_by_device:
  "yields env l (verify_by_device env signed t d)
     (case device_at l t d of
        Some dc \<Rightarrow> if signature_ok env (dc_verify_key dc) signed then Some (dc_user_id dc) else None
      | None \<Rightarrow> None)"
  unfolding verify_by_device_def
  using missing_cases [of "is_device d" "at t" l]
  by (intro yields_match [OF reads_device_verify_key])
    (auto simp: verify_signature_def signature_ok_def intro: yields_return yields_throw split: option.split)

lemma yields_admin: "yields env l (check_author_not_revoked_and_profile env t a True) (guarded (active_admin l t a))"
  using yields_author [of env l t a True] by (simp add: active_admin_def)

lemma yields_active: "yields env l (check_author_not_revoked_and_profile env t a False) (guarded (\<not> revoked_at l t a))"
  using yields_author [of env l t a False] by simp

text \<open>A lookup that must find nothing.\<close>

lemma yields_absent:
  assumes "returns env GetInternal l m (case v of Some c \<Rightarrow> Inr c | None \<Rightarrow> Inl (missing P (at t) l))"
    and "v = Option.bind (latest P (at t) l) as_name" "\<And>c. P c \<Longrightarrow> as_name c \<noteq> None"
  shows "yields env l (op_match m (\<lambda>r. case r of
       Inl NonExisting \<Rightarrow> op_return ()
     | Inr _ \<Rightarrow> invalid ContentAlreadyExists
     | Inl (ExistButTooRecent _) \<Rightarrow> op_throw BatchInternal
     | Inl GetInternal \<Rightarrow> op_throw BatchInternal)) (guarded (list_all (\<lambda>c. \<not> P c) l))"
proof (rule yields_match [OF assms(1)])
  show "yields env l (case case v of Some c \<Rightarrow> Inr c | None \<Rightarrow> Inl (missing P (at t) l) of
       Inl NonExisting \<Rightarrow> op_return ()
     | Inr _ \<Rightarrow> invalid ContentAlreadyExists
     | Inl (ExistButTooRecent _) \<Rightarrow> op_throw BatchInternal
     | Inl GetInternal \<Rightarrow> op_throw BatchInternal) (guarded (list_all (\<lambda>c. \<not> P c) l))"
  proof (cases v)
    case None
    consider "missing P (at t) l = NonExisting" "list_all (\<lambda>c. \<not> P c) l"
      | ts where "missing P (at t) l = ExistButTooRecent ts" "\<not> list_all (\<lambda>c. \<not> P c) l"
      using missing_cases [of P "at t" l] missing_at [of P t l] by (auto simp: list_all_iff)
    then show ?thesis using None by cases (simp_all add: yields_return yields_throw)
  next
    case (Some x)
    then have "Option.bind (latest P (at t) l) as_name = Some x" using assms(2) by simp
    then obtain c where "latest P (at t) l = Some c" by (auto simp: Option.bind_eq_Some_conv)
    from latest_SomeD(1,2) [OF this] have "\<not> list_all (\<lambda>c. \<not> P c) l" by (auto simp: list_all_iff)
    with Some show ?thesis by (simp add: yields_throw)
  qed
qed simp

lemma yields_user: "yields env l (check_user_certificate_consistency env c a) (guarded (user_ok l c a))"
  unfolding check_user_certificate_consistency_def
proof (rule yields_timestamps)
  fix ts assume ts: "timestamps_of ts l"
  let ?author = "case a of
        Some author_user_id \<Rightarrow> check_author_not_revoked_and_profile env (uc_timestamp c) author_user_id True
      | None \<Rightarrow>
          op_bind (require (pt_common ts = None) RootSignatureOutOfBootstrap) (\<lambda>_.
          op_bind (internal (get_sequester_authority_certificate env)) (\<lambda>authority.
          case authority of
            Some sequester_authority_certif \<Rightarrow>
              require (sa_timestamp sequester_authority_certif = uc_timestamp c)
                (RootSignatureTimestampMismatch (sa_timestamp sequester_authority_certif))
          | None \<Rightarrow> op_return ()))"
  let ?author_ok = "case a of
        Some a \<Rightarrow> active_admin l (uc_timestamp c) a
      | None \<Rightarrow> topic_empty l CommonTopic \<and>
          (case authority_of l of Some authority \<Rightarrow> sa_timestamp authority = uc_timestamp c | None \<Rightarrow> True)"
  have new: "yields env l (require_newest (pt_common ts) (uc_timestamp c)) (guarded (newest l (CUser c)))"
    using ts by (intro yields_require_newest) (simp_all add: timestamps_of_def)
  have empty: "pt_common ts = None \<longleftrightarrow> topic_empty l CommonTopic"
    using ts by (simp add: timestamps_of_def last_ts_None)
  have author: "yields env l ?author (guarded ?author_ok)"
  proof (cases a)
    case (Some a')
    then show ?thesis using yields_admin [of env l "uc_timestamp c" a'] by simp
  next
    case None
    show ?thesis unfolding None option.case empty
      by (rule yields_guard [OF yields_require], rule yields_internal [OF reads_authority])
        (auto intro: yields_return yields_throw split: option.split)
  qed
  show "yields env l (op_bind (require_newest (pt_common ts) (uc_timestamp c)) (\<lambda>_. op_bind ?author (\<lambda>_.
     op_match (get_user_certificate env (at (uc_timestamp c)) (uc_user_id c)) (\<lambda>r.
     case r of
       Inl NonExisting \<Rightarrow> op_return ()
     | Inr _ \<Rightarrow> invalid ContentAlreadyExists
     | Inl (ExistButTooRecent _) \<Rightarrow> op_throw BatchInternal
     | Inl GetInternal \<Rightarrow> op_throw BatchInternal)))) (guarded (user_ok l c a))"
    by (rule yields_guard [OF new], rule yields_guard [OF author])
      (auto simp: user_at_def dest: kind_plain intro: reads_mono [OF yields_absent [OF reads_user_certificate user_at_def]])
qed

lemma yields_device: "yields env l (check_device_certificate_consistency env c a) (guarded (device_ok l c a))"
proof (rule yields_log)
  assume log: "log_ok (ce_user_id env) l"
  define first where "first \<longleftrightarrow> a \<noteq> Some (dc_user_id c)"
  have first: "(case a of Some a \<Rightarrow> a \<noteq> dc_user_id c | None \<Rightarrow> True) = first"
    by (auto simp: first_def split: option.split)
  let ?t = "dc_timestamp c" and ?u = "dc_user_id c"
  let ?author_ok = "case a of Some a \<Rightarrow> if a = ?u then \<not> revoked_at l ?t a else active_admin l ?t a | None \<Rightarrow> True"
  let ?author = "case a of
                Some author_user_id \<Rightarrow>
                  if author_user_id = ?u
                  then check_author_not_revoked_and_profile env ?t author_user_id False
                  else check_author_not_revoked_and_profile env ?t author_user_id True
              | None \<Rightarrow> op_return ()"
  have author: "yields env l ?author (guarded ?author_ok)"
    by (cases a) (use yields_admin [of env l ?t] yields_active [of env l ?t] in \<open>auto intro: yields_return\<close>)
  let ?match = "\<lambda>uc. if first
              then op_bind (require (uc_author uc = dc_author c)
                     (UserFirstDeviceAuthorMismatch (uc_author uc))) (\<lambda>_.
                   require (uc_timestamp uc = ?t) (UserFirstDeviceTimestampMismatch (uc_timestamp uc)))
              else op_return ()"
  let ?match_ok = "\<lambda>uc. first \<longrightarrow> uc_author uc = dc_author c \<and> uc_timestamp uc = ?t"
  have match: "yields env l (?match uc) (guarded (?match_ok uc))" for uc
    by (cases first) (auto intro: yields_return yields_throw yields_bind [OF yields_return] yields_bind [OF yields_throw(2)]
      intro!: yields_guard [OF yields_require])
  show "yields env l (check_device_certificate_consistency env c a) (guarded (device_ok l c a))"
    unfolding check_device_certificate_consistency_def Let_def first
  proof (rule yields_timestamps)
    fix ts assume ts: "timestamps_of ts l"
    let ?new = "case pt_common ts of
                Some last_timestamp \<Rightarrow>
                  require (\<not> (?t < last_timestamp \<or> ?t = last_timestamp \<and> \<not> first)) (InvalidTimestamp last_timestamp)
              | None \<Rightarrow> op_return ()"
    let ?new_ok = "if first then not_older l (CDevice c) else newest l (CDevice c)"
    have new: "yields env l ?new (guarded ?new_ok)"
    proof (cases "pt_common ts")
      case None
      then show ?thesis using ts newest_iff_last_ts [OF log, of "CDevice c"]
        by (auto simp: timestamps_of_def intro: yields_return)
    next
      case (Some m)
      then have "last_ts CommonTopic l = Some m" using ts by (simp add: timestamps_of_def)
      then have "?new_ok \<longleftrightarrow> \<not> (?t < m \<or> ?t = m \<and> \<not> first)"
        using newest_iff_last_ts [OF log, of "CDevice c"] by auto
      then show ?thesis using Some yields_require by simp
    qed
    have ok: "device_ok l c a \<longleftrightarrow> ?new_ok \<and> ?author_ok \<and>
        (\<exists>uc. user_at l ?t ?u = Some uc \<and> ?match_ok uc) \<and> \<not> revoked_at l ?t ?u \<and>
        list_all (\<lambda>c'. \<not> is_device (dc_device_id c) c') l"
      by (cases a; cases "user_at l ?t ?u") (auto simp: first_def)
    show "yields env l (op_bind ?new (\<lambda>_. op_bind ?author (\<lambda>_.
       op_bind (check_user_exists env ?t ?u) (\<lambda>uc. op_bind (?match uc) (\<lambda>_.
       op_bind (check_user_not_revoked env ?t ?u) (\<lambda>_.
       op_match (get_device_certificate env (at ?t) (dc_device_id c)) (\<lambda>r.
     case r of
       Inl NonExisting \<Rightarrow> op_return ()
     | Inr _ \<Rightarrow> invalid ContentAlreadyExists
     | Inl (ExistButTooRecent _) \<Rightarrow> op_throw BatchInternal
     | Inl GetInternal \<Rightarrow> op_throw BatchInternal))))))) (guarded (device_ok l c a))"
      unfolding ok
      by (rule yields_guard [OF new], rule yields_guard [OF author], rule yields_bind [OF yields_user_exists],
          rule yields_guard [OF match], rule yields_guard [OF yields_not_revoked])
        (auto dest: kind_plain intro: reads_mono [OF yields_absent [OF reads_device_certificate device_at_def]])
  qed
qed

lemma yields_user_update:
  "yields env l (check_user_update_certificate_consistency env c a) (guarded (user_update_ok l c a))"
  unfolding check_user_update_certificate_consistency_def
proof (rule yields_timestamps)
  fix ts assume "timestamps_of ts l"
  then have new: "yields env l (require_newest (pt_common ts) (up_timestamp c)) (guarded (newest l (CUserUpdate c)))"
    by (intro yields_require_newest) (simp_all add: timestamps_of_def)
  show "yields env l (op_bind (require_newest (pt_common ts) (up_timestamp c)) (\<lambda>_.
     op_bind (require (a \<noteq> up_user_id c) SelfSigned) (\<lambda>_.
     op_bind (check_author_not_revoked_and_profile env (up_timestamp c) a True) (\<lambda>_.
     op_bind (check_user_exists env (up_timestamp c) (up_user_id c)) (\<lambda>user_certificate.
     op_bind (check_user_not_revoked env (up_timestamp c) (up_user_id c)) (\<lambda>_.
     op_bind (get_user_profile env (up_timestamp c) (up_user_id c) (Some user_certificate)) (\<lambda>user_current_profile.
     require (user_current_profile \<noteq> up_new_profile c) ContentAlreadyExists)))))))
     (guarded (user_update_ok l c a))"
  proof (rule yields_guard [OF new], rule yields_guard [OF yields_require], rule yields_guard [OF yields_admin],
      rule yields_bind [OF yields_user_exists], rule yields_guard [OF yields_not_revoked])
    fix uc assume a: "newest l (CUserUpdate c)" "a \<noteq> up_user_id c" "active_admin l (up_timestamp c) a"
      "user_at l (up_timestamp c) (up_user_id c) = Some uc" "\<not> revoked_at l (up_timestamp c) (up_user_id c)"
    then have "profile_at l (up_timestamp c) (up_user_id c) \<noteq> None"
      by (auto simp: profile_at_def split: option.split)
    then obtain p where p: "profile_at l (up_timestamp c) (up_user_id c) = Some p" by blast
    have "user_update_ok l c a \<longleftrightarrow> p \<noteq> up_new_profile c" using a p by auto
    with p show "yields env l (op_bind (get_user_profile env (up_timestamp c) (up_user_id c) (Some uc)) (\<lambda>user_current_profile.
       require (user_current_profile \<noteq> up_new_profile c) ContentAlreadyExists)) (guarded (user_update_ok l c a))"
      using a(4) yields_require [of env l "p \<noteq> up_new_profile c"]
      by (intro yields_bind [OF yields_user_profile]) auto
  qed auto
qed

lemma yields_revoked_user:
  "yields env l (check_revoked_user_certificate_consistency env c a) (guarded (revoked_user_ok l c a))"
  unfolding check_revoked_user_certificate_consistency_def
proof (rule yields_timestamps)
  fix ts assume "timestamps_of ts l"
  then have new: "yields env l (require_newest (pt_common ts) (rv_timestamp c)) (guarded (newest l (CRevokedUser c)))"
    by (intro yields_require_newest) (simp_all add: timestamps_of_def)
  show "yields env l (op_bind (require_newest (pt_common ts) (rv_timestamp c)) (\<lambda>_.
     op_bind (require (a \<noteq> rv_user_id c) SelfSigned) (\<lambda>_.
     op_bind (check_author_not_revoked_and_profile env (rv_timestamp c) a True) (\<lambda>_.
     op_bind (check_user_exists env (rv_timestamp c) (rv_user_id c)) (\<lambda>_.
     check_user_not_revoked env (rv_timestamp c) (rv_user_id c)))))) (guarded (revoked_user_ok l c a))"
    by (rule yields_guard [OF new], rule yields_guard [OF yields_require], rule yields_guard [OF yields_admin],
      rule yields_bind [OF yields_user_exists])
      (use yields_not_revoked [of env l "rv_timestamp c" "rv_user_id c"] in \<open>auto split: if_split_asm\<close>)
qed

lemma yields_role_change:
  "yields env l (check_role_change author current new) (guarded (may_change_role author current new))"
  unfolding check_role_change_def may_change_role_def
  by (auto intro: yields_throw yields_return)

lemma yields_realm_role:
  "yields env l (check_realm_role_certificate_consistency env c a) (guarded (realm_role_ok l c a))"
  unfolding check_realm_role_certificate_consistency_def
proof (rule yields_timestamps)
  fix ts assume "timestamps_of ts l"
  then have new: "yields env l (require_newest (hm_get (pt_realm ts) (rl_realm_id c)) (rl_timestamp c))
      (guarded (newest l (CRealmRole c)))"
    by (intro yields_require_newest) (simp_all add: timestamps_of_def)
  let ?t = "rl_timestamp c" and ?u = "rl_user_id c" and ?roles = "roles_at l (rl_timestamp c) (rl_realm_id c)"
  let ?author = "if ?roles = []
              then op_bind (require (a = ?u) RealmFirstRoleMustBeSelfSigned) (\<lambda>_.
                   require (rl_role c = Some Owner) RealmFirstRoleMustBeOwner)
              else (case last_role a ?roles of
                      None \<Rightarrow> invalid RealmAuthorHasNoRole
                    | Some author_current_role \<Rightarrow>
                        check_role_change author_current_role (last_role ?u ?roles) (rl_role c))"
  let ?author_ok = "if ?roles = [] then a = ?u \<and> rl_role c = Some Owner
      else (case last_role a ?roles of
              None \<Rightarrow> False
            | Some author_role \<Rightarrow> may_change_role author_role (last_role ?u ?roles) (rl_role c))"
  have author: "yields env l ?author (guarded ?author_ok)"
  proof (cases "?roles = []")
    case True
    show ?thesis unfolding if_P [OF True]
      by (rule yields_guard [OF yields_require]) (auto intro: yields_return yields_throw)
  next
    case False
    show ?thesis unfolding if_not_P [OF False]
      by (cases "last_role a ?roles") (simp_all add: yields_throw yields_role_change)
  qed
  have active: "yields env l (if rl_role c \<noteq> None then check_user_not_revoked env ?t ?u else op_return ())
      (guarded (rl_role c \<noteq> None \<longrightarrow> \<not> revoked_at l ?t ?u))"
    using yields_not_revoked [of env l ?t ?u] by (auto intro: yields_return)
  show "yields env l (op_bind (require_newest (hm_get (pt_realm ts) (rl_realm_id c)) ?t) (\<lambda>_.
     op_bind (internal (get_realm_roles env (at ?t) (rl_realm_id c))) (\<lambda>realm_roles.
     op_bind (if realm_roles = []
              then op_bind (require (a = ?u) RealmFirstRoleMustBeSelfSigned) (\<lambda>_.
                   require (rl_role c = Some Owner) RealmFirstRoleMustBeOwner)
              else (case last_role a realm_roles of
                      None \<Rightarrow> invalid RealmAuthorHasNoRole
                    | Some author_current_role \<Rightarrow>
                        check_role_change author_current_role (last_role ?u realm_roles) (rl_role c))) (\<lambda>_.
     op_bind (check_user_exists env ?t ?u) (\<lambda>user_certificate.
     op_bind (if rl_role c \<noteq> None then check_user_not_revoked env ?t ?u else op_return ()) (\<lambda>_.
     op_bind (get_user_profile env ?t ?u (Some user_certificate)) (\<lambda>profile.
     require (\<not> (profile = Outsider \<and> (rl_role c = Some Manager \<or> rl_role c = Some Owner)))
       RealmOutsiderCannotBeOwnerOrManager)))))))
     (guarded (realm_role_ok l c a))"
  proof (rule yields_guard [OF new], rule yields_internal [OF reads_realm_roles], rule yields_guard [OF author],
      rule yields_bind [OF yields_user_exists], rule yields_guard [OF active])
    fix uc assume h: "newest l (CRealmRole c)" ?author_ok "user_at l ?t ?u = Some uc"
      "rl_role c \<noteq> None \<longrightarrow> \<not> revoked_at l ?t ?u"
    then have "profile_at l ?t ?u \<noteq> None" by (auto simp: profile_at_def split: option.split)
    then obtain p where p: "profile_at l ?t ?u = Some p" by blast
    have ok: "realm_role_ok l c a \<longleftrightarrow> \<not> (p = Outsider \<and> (rl_role c = Some Manager \<or> rl_role c = Some Owner))"
      unfolding realm_role_ok.simps Let_def using h p by auto
    show "yields env l (op_bind (get_user_profile env ?t ?u (Some uc)) (\<lambda>profile.
       require (\<not> (profile = Outsider \<and> (rl_role c = Some Manager \<or> rl_role c = Some Owner)))
       RealmOutsiderCannotBeOwnerOrManager)) (guarded (realm_role_ok l c a))"
      unfolding ok using h(3) p by (intro yields_bind [OF yields_user_profile]) (auto intro: yields_return yields_throw)
  qed (unfold realm_role_ok.simps Let_def, auto)
qed

lemma yields_realm_owner:
  assumes "certif_topic c = RealmTopic r" "certif_timestamp c = t"
  shows "yields env l (check_realm_owner_certificate env r t a) (guarded (realm_owner_ok l c r a))"
  unfolding check_realm_owner_certificate_def
proof (rule yields_timestamps)
  fix ts assume "timestamps_of ts l"
  then have new: "yields env l (require_newest (hm_get (pt_realm ts) r) t) (guarded (newest l c))"
    using assms by (intro yields_require_newest) (simp_all add: timestamps_of_def)
  have owner: "yields env l (if roles_at l t r = [] then invalid RealmFirstCertificateMustBeRole
              else (case last_role a (roles_at l t r) of
                      None \<Rightarrow> invalid RealmAuthorHasNoRole
                    | Some role \<Rightarrow> require (role = Owner) (RealmAuthorNotOwner role)))
     (guarded (last_role a (roles_at l t r) = Some Owner))"
    by (auto simp: last_role_def intro: yields_return yields_throw split: option.split)
  show "yields env l (op_bind (require_newest (hm_get (pt_realm ts) r) t) (\<lambda>_.
     op_bind (internal (get_realm_roles env (at t) r)) (\<lambda>realm_roles.
     op_bind (if realm_roles = [] then invalid RealmFirstCertificateMustBeRole
              else (case last_role a realm_roles of
                      None \<Rightarrow> invalid RealmAuthorHasNoRole
                    | Some author_current_role \<Rightarrow>
                        require (author_current_role = Owner) (RealmAuthorNotOwner author_current_role))) (\<lambda>_.
     check_author_not_revoked_and_profile env t a False)))) (guarded (realm_owner_ok l c r a))"
    by (rule yields_guard [OF new], rule yields_internal [OF reads_realm_roles], rule yields_guard [OF owner])
      (use yields_active [of env l t a] assms(2) in \<open>auto simp: realm_owner_ok_def\<close>)
qed

lemma yields_iter:
  assumes "\<And>x. yields env l (f x) (guarded (P x))"
  shows "yields env l (op_iter f xs) (guarded (\<forall>x \<in> set xs. P x))"
proof (induction xs)
  case (Cons x xs)
  show ?case unfolding op_iter.simps
    by (rule yields_guard [OF assms [of x]]) (use Cons in \<open>auto split: if_split_asm\<close>)
qed (simp add: reads_return)

lemma contains_key_iff: "hm_contains_key m k \<longleftrightarrow> k \<in> fst ` set m"
  by (simp add: hm_contains_key_iff dom_map_of_conv_image_fst)

lemma yields_brief:
  "yields env l (check_shamir_recovery_brief_certificate_consistency env c a) (guarded (brief_ok (ce_user_id env) l c a))"
  unfolding check_shamir_recovery_brief_certificate_consistency_def
proof (rule yields_timestamps)
  fix ts assume "timestamps_of ts l"
  then have new: "yields env l (require_newest (pt_shamir_recovery ts) (sb_timestamp c)) (guarded (newest l (CShamirBrief c)))"
    by (intro yields_require_newest) (simp_all add: timestamps_of_def)
  let ?t = "sb_timestamp c" and ?shares = "sb_per_recipient_shares c" and ?self = "ce_user_id env"
  have never: "yields env l (case shamir_at l ?t a of ShamirValid _ \<Rightarrow> invalid ShamirRecoveryAlreadySetup | _ \<Rightarrow> op_return ())
      (guarded (case shamir_at l ?t a of ShamirValid _ \<Rightarrow> False | _ \<Rightarrow> True))"
    by (auto intro: yields_return yields_throw split: last_shamir_recovery.split)
  have "yields env l (op_bind (check_user_exists env ?t u) (\<lambda>_. check_user_not_revoked env ?t u))
      (guarded (user_at l ?t u \<noteq> None \<and> \<not> revoked_at l ?t u))" for u
    by (rule yields_bind [OF yields_user_exists]) (use yields_not_revoked [of env l ?t u] in auto)
  then have recipients: "yields env l (op_iter (\<lambda>recipient.
       op_bind (check_user_exists env ?t recipient) (\<lambda>_. check_user_not_revoked env ?t recipient)) (map fst ?shares))
     (guarded (\<forall>u \<in> set (map fst ?shares). user_at l ?t u \<noteq> None \<and> \<not> revoked_at l ?t u))"
    by (rule yields_iter)
  show "yields env l (op_bind (require_newest (pt_shamir_recovery ts) ?t) (\<lambda>_.
     op_bind (require (sb_user_id c = a) (ShamirRecoveryNotAboutSelf (sb_user_id c) a)) (\<lambda>_.
     op_bind (require (\<not> hm_contains_key ?shares a) ShamirRecoverySelfAmongRecipients) (\<lambda>_.
     op_bind (require (sb_user_id c = ?self \<or> hm_contains_key ?shares ?self) ShamirRecoveryUnrelatedToUs) (\<lambda>_.
     op_bind (internal (get_last_shamir_recovery_for_author env (at ?t) a)) (\<lambda>last_shamir_recovery.
     op_bind (case last_shamir_recovery of ShamirValid _ \<Rightarrow> invalid ShamirRecoveryAlreadySetup | _ \<Rightarrow> op_return ()) (\<lambda>_.
     op_bind (check_author_not_revoked_and_profile env ?t a False) (\<lambda>_.
     op_iter (\<lambda>recipient.
       op_bind (check_user_exists env ?t recipient) (\<lambda>_. check_user_not_revoked env ?t recipient))
       (map fst ?shares))))))))) (guarded (brief_ok ?self l c a))"
    by (rule yields_guard [OF new], rule yields_guard [OF yields_require], rule yields_guard [OF yields_require],
        rule yields_guard [OF yields_require], rule yields_internal [OF reads_shamir], rule yields_guard [OF never],
        rule yields_guard [OF yields_active])
      (use recipients in \<open>auto simp: case_prod_unfold contains_key_iff [symmetric]\<close>)
qed

lemma yields_share:
  "yields env l (check_shamir_recovery_share_certificate_consistency env c a) (guarded (share_ok (ce_user_id env) l c a))"
proof (rule yields_log)
  assume log: "log_ok (ce_user_id env) l"
  let ?t = "ss_timestamp c" and ?self = "ce_user_id env"
  show "yields env l (check_shamir_recovery_share_certificate_consistency env c a) (guarded (share_ok ?self l c a))"
    unfolding check_shamir_recovery_share_certificate_consistency_def
  proof (rule yields_timestamps)
    fix ts assume ts: "timestamps_of ts l"
    have new: "yields env l (case pt_shamir_recovery ts of
                Some m \<Rightarrow> require (\<not> ?t < m) (InvalidTimestamp m) | None \<Rightarrow> op_return ())
       (guarded (not_older l (CShamirShare c)))"
      using ts newest_iff_last_ts(2) [OF log, of "CShamirShare c"]
      by (auto simp: timestamps_of_def not_less intro: yields_return yields_throw split: option.split)
    show "yields env l (op_bind (case pt_shamir_recovery ts of
                Some last_timestamp \<Rightarrow> require (\<not> ?t < last_timestamp) (InvalidTimestamp last_timestamp)
              | None \<Rightarrow> op_return ()) (\<lambda>_.
     op_bind (internal (get_last_shamir_recovery_brief_certificate env (at ?t))) (\<lambda>maybe_brief.
     op_bind (require (case maybe_brief of
                Some brief \<Rightarrow> sb_timestamp brief = ?t \<and> sb_author brief = ss_author c
                   \<and> hm_contains_key (sb_per_recipient_shares brief) (ss_recipient c)
              | None \<Rightarrow> False) ShamirRecoveryMissingBriefCertificate) (\<lambda>_.
     op_bind (require (ss_recipient c = ?self) ShamirRecoveryUnrelatedToUs) (\<lambda>_.
     op_bind (internal (get_last_shamir_recovery_share_certificate_for_recipient env (at ?t) a (ss_recipient c))) (\<lambda>maybe_share.
     op_bind (require (case maybe_share of
                Some other_share \<Rightarrow> \<not> (ss_author other_share = ss_author c \<and> ss_timestamp other_share = ?t)
              | None \<Rightarrow> True) ContentAlreadyExists) (\<lambda>_.
     op_bind (require (ss_user_id c = a) (ShamirRecoveryNotAboutSelf (ss_user_id c) a)) (\<lambda>_.
     check_author_not_revoked_and_profile env ?t a False)))))))) (guarded (share_ok ?self l c a))"
      by (rule yields_guard [OF new], rule yields_internal [OF reads_brief], rule yields_guard [OF yields_require],
          rule yields_guard [OF yields_require], rule yields_internal [OF reads_share_for_recipient],
          rule yields_guard [OF yields_require], rule yields_guard [OF yields_require])
        (use yields_active [of env l ?t a] in \<open>auto simp: contains_key_iff [symmetric] split: option.splits\<close>)
  qed
qed

text \<open>Every stored brief concerns our user, so the assertion on deletions cannot fail.\<close>

lemma brief_related:
  assumes "log_ok self l" "CShamirBrief b \<in> set l"
  shows "sb_user_id b = self \<or> self \<in> fst ` set (sb_per_recipient_shares b)"
proof -
  let ?Q = "\<lambda>(_ :: certif_log) c. \<forall>b. c = CShamirBrief b \<longrightarrow>
    sb_user_id b = self \<or> self \<in> fst ` set (sb_per_recipient_shares b)"
  have "?Q l (CShamirBrief b)"
    by (rule log_invariant [OF assms(1) _ _ assms(2), where Q = ?Q]) auto
  then show ?thesis by blast
qed

lemma shamir_atD:
  assumes "shamir_at l t u = ShamirValid b" shows "CShamirBrief b \<in> set l" "sb_user_id b = u" "sb_timestamp b \<le> t"
proof -
  from assms have "Option.bind (latest (is_brief_of u) (at t) l) as_shamir_brief = Some b"
    by (auto simp: shamir_at_def split: option.split_asm if_split_asm)
  then obtain x where x: "latest (is_brief_of u) (at t) l = Some x" "as_shamir_brief x = Some b"
    by (auto simp: Option.bind_eq_Some_conv)
  then have "x = CShamirBrief b" by (cases x) auto
  with latest_SomeD [OF x(1)] show "CShamirBrief b \<in> set l" "sb_user_id b = u" "sb_timestamp b \<le> t" by auto
qed

lemma yields_deletion:
  "yields env l (check_shamir_recovery_deletion_certificate_consistency env c a) (guarded (deletion_ok l c a))"
proof (rule yields_log)
  assume log: "log_ok (ce_user_id env) l"
  let ?t = "sd_timestamp c" and ?self = "ce_user_id env"
  let ?outcome = "\<lambda>last. case last of
        ShamirValid last_certif \<Rightarrow>
          if sb_timestamp last_certif = sd_setup_to_delete_timestamp c
          then op_return (map fst (sb_per_recipient_shares last_certif))
          else invalid ShamirRecoveryDeletionMustReferenceLastSetup
      | ShamirDeleted last_certif removed_certif \<Rightarrow>
          if sb_timestamp last_certif = sd_setup_to_delete_timestamp c
          then invalid (ShamirRecoveryAlreadyDeleted (sd_timestamp removed_certif))
          else invalid ShamirRecoveryDeletionMustReferenceLastSetup
      | NeverSetup \<Rightarrow> invalid ShamirRecoveryDeletionMustReferenceLastSetup"
  let ?recipients = "case shamir_at l ?t a of
      ShamirValid b \<Rightarrow> if sb_timestamp b = sd_setup_to_delete_timestamp c
        then Some (map fst (sb_per_recipient_shares b)) else None
    | _ \<Rightarrow> None"
  have deleted: "yields env l (?outcome (shamir_at l ?t a)) ?recipients"
    by (auto intro: yields_return yields_throw split: last_shamir_recovery.split)
  show "yields env l (check_shamir_recovery_deletion_certificate_consistency env c a) (guarded (deletion_ok l c a))"
    unfolding check_shamir_recovery_deletion_certificate_consistency_def
  proof (rule yields_timestamps)
    fix ts assume "timestamps_of ts l"
    then have new: "yields env l (require_newest (pt_shamir_recovery ts) ?t) (guarded (newest l (CShamirDeletion c)))"
      by (intro yields_require_newest) (simp_all add: timestamps_of_def)
    show "yields env l (op_bind (require_newest (pt_shamir_recovery ts) ?t) (\<lambda>_.
     op_bind (require (sd_setup_to_delete_user_id c = a)
       (ShamirRecoveryNotAboutSelf (sd_setup_to_delete_user_id c) a)) (\<lambda>_.
     op_bind (internal (get_last_shamir_recovery_for_author env (at ?t) a)) (\<lambda>last_shamir_recovery.
     op_bind (?outcome last_shamir_recovery) (\<lambda>setup_recipients.
     op_bind (require (set (sd_share_recipients c) = set setup_recipients)
       (ShamirRecoveryDeletionRecipientsMismatch setup_recipients)) (\<lambda>_.
     op_bind (op_assert (sd_setup_to_delete_user_id c = ?self \<or> ?self \<in> set (sd_share_recipients c))) (\<lambda>_.
     check_author_not_revoked_and_profile env ?t a False))))))) (guarded (deletion_ok l c a))"
    proof (rule yields_guard [OF new], rule yields_guard [OF yields_require], rule yields_internal [OF reads_shamir],
        rule yields_bind [OF deleted], rule yields_guard [OF yields_require])
      fix rs assume h: "newest l (CShamirDeletion c)" "sd_setup_to_delete_user_id c = a" "?recipients = Some rs"
        "set (sd_share_recipients c) = set rs"
      then obtain b where b: "shamir_at l ?t a = ShamirValid b" "sb_timestamp b = sd_setup_to_delete_timestamp c"
        "rs = map fst (sb_per_recipient_shares b)"
        by (auto split: last_shamir_recovery.split_asm if_split_asm)
      have "sd_setup_to_delete_user_id c = ?self \<or> ?self \<in> set (sd_share_recipients c)"
        using brief_related [OF log shamir_atD(1) [OF b(1)]] shamir_atD(2) [OF b(1)] h b(3) by auto
      then have asserted: "op_assert (sd_setup_to_delete_user_id c = ?self \<or> ?self \<in> set (sd_share_recipients c)) = op_return ()"
        by simp
      have "deletion_ok l c a \<longleftrightarrow> \<not> revoked_at l ?t a" using h b by simp
      then show "yields env l (op_bind (op_assert (sd_setup_to_delete_user_id c = ?self \<or> ?self \<in> set (sd_share_recipients c))) (\<lambda>_.
         check_author_not_revoked_and_profile env ?t a False)) (guarded (deletion_ok l c a))"
        unfolding asserted using yields_active [of env l ?t a] by (auto intro: yields_bind [OF yields_return])
    qed (auto split: last_shamir_recovery.split_asm if_split_asm)
  qed
qed

subsection \<open>Who signed a certificate\<close>

fun certif_author :: "any_certificate \<Rightarrow> certificate_signer" where
  "certif_author (CUser c) = uc_author c"
| "certif_author (CDevice c) = dc_author c"
| "certif_author (CUserUpdate c) = SignedByUser (up_author c)"
| "certif_author (CRevokedUser c) = SignedByUser (rv_author c)"
| "certif_author (CRealmRole c) = SignedByUser (rl_author c)"
| "certif_author (CRealmName c) = SignedByUser (rn_author c)"
| "certif_author (CRealmKeyRotation c) = SignedByUser (kt_author c)"
| "certif_author (CRealmArchiving c) = SignedByUser (ra_author c)"
| "certif_author (CShamirBrief c) = SignedByUser (sb_author c)"
| "certif_author (CShamirShare c) = SignedByUser (ss_author c)"
| "certif_author (CShamirDeletion c) = SignedByUser (sd_author c)"
| "certif_author (CSequesterAuthority c) = SignedByRoot"
| "certif_author (CSequesterService c) = SignedByRoot"
| "certif_author (CSequesterRevokedService c) = SignedByRoot"

text \<open>The signature is that of the root key, of the device of the author, or of the sequester authority.\<close>

definition author_signed :: "certif_env \<Rightarrow> certif_log \<Rightarrow> byte list \<Rightarrow> any_certificate \<Rightarrow> bool" where
  "author_signed env l signed c \<longleftrightarrow>
     (case c of
        CSequesterService s \<Rightarrow>
          (\<exists>a. authority_of l = Some a \<and>
             sequester_verify_and_load (ce_codec env) as_sequester_service signed (sa_verify_key_der a) = Inr s)
      | CSequesterRevokedService s \<Rightarrow>
          (\<exists>a. authority_of l = Some a \<and>
             sequester_verify_and_load (ce_codec env) as_sequester_revoked_service signed (sa_verify_key_der a) = Inr s)
      | _ \<Rightarrow>
          base_unsecure_load (ce_codec env) Some signed = Inr c \<and>
          (case certif_author c of
             SignedByRoot \<Rightarrow> signature_ok env (ce_root_verify_key env) signed
           | SignedByUser d \<Rightarrow>
               (\<exists>dc. device_at l (certif_timestamp c) d = Some dc \<and> signature_ok env (dc_verify_key dc) signed)))"

definition accepted :: "certif_env \<Rightarrow> certif_log \<Rightarrow> byte list \<Rightarrow> any_certificate \<Rightarrow> bool" where
  "accepted env l signed c \<longleftrightarrow> author_signed env l signed c \<and> certif_ok (ce_user_id env) l c"

lemma unsecure_load_as:
  "base_unsecure_load codec as_name signed = Inr x \<longleftrightarrow>
     (\<exists>c. base_unsecure_load codec Some signed = Inr c \<and> as_name c = Some x)"
  by (auto simp: base_unsecure_load_def and_then_Inr ok_or_def split: option.split_asm)

lemma unsecure_load_topic:
  "base_unsecure_load codec (as_topic P) signed = Inr c \<longleftrightarrow>
     base_unsecure_load codec Some signed = Inr c \<and> P (certif_topic c)"
  by (auto simp: unsecure_load_as [of codec "as_topic P"] as_topic_def)

lemma yields_by_device:
  assumes "\<And>a. yields env l (check a) (guarded (ok a))"
  shows "yields env l (op_bind (verify_by_device env signed t d) (\<lambda>a. op_bind (check a) (\<lambda>_. op_return x)))
    (if (\<exists>dc. device_at l t d = Some dc \<and> signature_ok env (dc_verify_key dc) signed) \<and>
        (\<exists>a. author_user l t d = Some a \<and> ok a) then Some x else None)"
  using yields_guard [OF assms] yields_return
  by (intro yields_bind [OF yields_verify_by_device])
    (fastforce simp: author_user_def split: option.split_asm if_split_asm)+

lemma yields_by_device_or_root:
  assumes "\<And>a. yields env l (check a) (guarded (ok a))"
  shows "yields env l (op_bind (verify_by_device_or_root env signed t d) (\<lambda>a. op_bind (check a) (\<lambda>_. op_return x)))
    (if (case d of
           SignedByRoot \<Rightarrow> signature_ok env (ce_root_verify_key env) signed
         | SignedByUser d \<Rightarrow> \<exists>dc. device_at l t d = Some dc \<and> signature_ok env (dc_verify_key dc) signed) \<and>
        (case d of SignedByRoot \<Rightarrow> ok None | SignedByUser d \<Rightarrow> \<exists>a. author_user l t d = Some a \<and> ok (Some a))
     then Some x else None)"
proof (cases d)
  case SignedByRoot
  then show ?thesis
    by (auto simp: verify_by_device_or_root_def verify_signature_def signature_ok_def
      intro!: yields_guard [OF assms] yields_bind [OF yields_throw(2)] intro: yields_return split: option.split)
next
  case (SignedByUser d')
  then show ?thesis
    using yields_by_device [where check = "\<lambda>a. check (Some a)" and ok = "\<lambda>a. ok (Some a)" and signed = signed and t = t and d = d',
      OF assms, of x]
    by (simp add: verify_by_device_or_root_def del: split_paired_Ex if_split)
qed

text \<open>A validation accepts exactly the accepted certificates of its topic.\<close>

definition decides :: "certif_env \<Rightarrow> certif_log \<Rightarrow> (any_certificate \<Rightarrow> bool) \<Rightarrow> byte list \<Rightarrow> any_certificate add_op \<Rightarrow> bool" where
  "decides env l P signed m \<longleftrightarrow>
     (\<exists>v. yields env l m v \<and> (\<forall>c. v = Some c \<longleftrightarrow> P c \<and> accepted env l signed c))"

lemma decidesI:
  assumes "yields env l m v" "\<And>c. v = Some c \<longleftrightarrow> P c \<and> accepted env l signed c"
  shows "decides env l P signed m"
  using assms unfolding decides_def by blast

lemma accepted_plain: "accepted env l signed c \<Longrightarrow> plain c \<Longrightarrow> base_unsecure_load (ce_codec env) Some signed = Inr c"
  by (cases c) (simp_all add: accepted_def author_signed_def plain_def)

lemma decides_load:
  assumes P: "\<And>c. P c \<Longrightarrow> plain c \<and> Q (certif_topic c)"
    and Inl: "\<And>e. base_unsecure_load (ce_codec env) (as_topic Q) signed = Inl e \<Longrightarrow> yields env l m None"
    and Inr: "\<And>c. base_unsecure_load (ce_codec env) (as_topic Q) signed = Inr c \<Longrightarrow>
      base_unsecure_load (ce_codec env) Some signed = Inr c \<Longrightarrow> Q (certif_topic c) \<Longrightarrow>
      yields env l m (if P c \<and> accepted env l signed c then Some c else None)"
  shows "decides env l P signed m"
proof -
  have load: "base_unsecure_load (ce_codec env) (as_topic Q) signed = Inr c" if "P c" "accepted env l signed c" for c
    using P [OF that(1)] accepted_plain [OF that(2)] by (simp add: unsecure_load_topic)
  show ?thesis
  proof (cases "base_unsecure_load (ce_codec env) (as_topic Q) signed")
    case (Inl e)
    show ?thesis by (rule decidesI [OF assms(2) [OF Inl]]) (use load Inl in fastforce)
  next
    case (Inr c)
    then have "base_unsecure_load (ce_codec env) Some signed = Inr c" "Q (certif_topic c)"
      by (simp_all add: unsecure_load_topic)
    note yields = assms(3) [OF Inr this]
    have "(if P c \<and> accepted env l signed c then Some c else None) = Some c' \<longleftrightarrow> P c' \<and> accepted env l signed c'" for c'
      using load [of c'] Inr by auto
    with yields show ?thesis by (rule decidesI)
  qed
qed

lemma yields_cong: "yields env l m v \<Longrightarrow> v = w \<Longrightarrow> yields env l m w"
  by simp

lemma decides_common:
  "decides env l (\<lambda>c. certif_topic c = CommonTopic) signed (validate_common_certificate env signed)"
proof (rule decides_load [where Q = "\<lambda>t. t = CommonTopic"])
  fix c assume c: "base_unsecure_load (ce_codec env) (as_topic (\<lambda>t. t = CommonTopic)) signed = Inr c"
    "base_unsecure_load (ce_codec env) Some signed = Inr c" "certif_topic c = CommonTopic"
  note unf = validate_common_certificate_def common_unsecure_load_def c(1)
  from c(3) show "yields env l (validate_common_certificate env signed)
     (if certif_topic c = CommonTopic \<and> accepted env l signed c then Some c else None)"
  proof (cases c)
    case (CUser x)
    show ?thesis unfolding unf CUser sum.case any_certificate.case
      by (rule yields_cong [OF yields_by_device_or_root [where ok = "user_ok l x", OF yields_user]])
        (use c CUser in \<open>auto simp: accepted_def author_signed_def simp del: user_ok.simps split: certificate_signer.split\<close>)
  next
    case (CDevice x)
    show ?thesis unfolding unf CDevice sum.case any_certificate.case
      by (rule yields_cong [OF yields_by_device_or_root [where ok = "device_ok l x", OF yields_device]])
        (use c CDevice in \<open>auto simp: accepted_def author_signed_def simp del: device_ok.simps split: certificate_signer.split\<close>)
  next
    case (CUserUpdate x)
    show ?thesis unfolding unf CUserUpdate sum.case any_certificate.case
      by (rule yields_cong [OF yields_by_device [where ok = "user_update_ok l x", OF yields_user_update]])
        (use c CUserUpdate in \<open>simp add: accepted_def author_signed_def del: user_update_ok.simps\<close>)
  next
    case (CRevokedUser x)
    show ?thesis unfolding unf CRevokedUser sum.case any_certificate.case
      by (rule yields_cong [OF yields_by_device [where ok = "revoked_user_ok l x", OF yields_revoked_user]])
        (use c CRevokedUser in \<open>simp add: accepted_def author_signed_def del: revoked_user_ok.simps\<close>)
  qed simp_all
next
  show "plain c \<and> certif_topic c = CommonTopic" if "certif_topic c = CommonTopic" for c
    using that by (cases c) (simp_all add: plain_def)
qed (simp add: validate_common_certificate_def common_unsecure_load_def yields_throw)

lemma yields_in_realm:
  assumes "\<And>a. yields env l (check a) (guarded (ok a))"
  shows "yields env l (op_bind (verify_by_device env signed t d) (\<lambda>a.
      op_bind (require_realm r r') (\<lambda>_. op_bind (check a) (\<lambda>_. op_return x))))
    (if r' = r \<and> (\<exists>dc. device_at l t d = Some dc \<and> signature_ok env (dc_verify_key dc) signed) \<and>
        (\<exists>a. author_user l t d = Some a \<and> ok a) then Some x else None)"
proof -
  have "yields env l (op_bind (require_realm r r') (\<lambda>_. check a)) (guarded (r' = r \<and> ok a))" for a
    unfolding require_realm_def using assms by (intro yields_guard [OF yields_require]) auto
  from yields_by_device [where ok = "\<lambda>a. r' = r \<and> ok a", OF this, where signed = signed and t = t and d = d and x = x]
  show ?thesis by (auto elim: yields_cong)
qed

lemma decides_realm:
  "decides env l (\<lambda>c. certif_topic c = RealmTopic r) signed (validate_realm_certificate env r signed)"
proof (rule decides_load [where Q = is_RealmTopic])
  fix c assume c: "base_unsecure_load (ce_codec env) (as_topic is_RealmTopic) signed = Inr c"
    "base_unsecure_load (ce_codec env) Some signed = Inr c" "is_RealmTopic (certif_topic c)"
  note unf = validate_realm_certificate_def realm_unsecure_load_def c(1)
  note owner = check_realm_name_certificate_consistency_def check_realm_key_rotation_certificate_consistency_def
    check_realm_archiving_certificate_consistency_def
  from c(3) show "yields env l (validate_realm_certificate env r signed)
     (if certif_topic c = RealmTopic r \<and> accepted env l signed c then Some c else None)"
  proof (cases c)
    case (CRealmRole x)
    show ?thesis unfolding unf CRealmRole sum.case any_certificate.case
      by (rule yields_cong [OF yields_in_realm [where ok = "realm_role_ok l x", OF yields_realm_role]])
        (use c CRealmRole in \<open>auto simp: accepted_def author_signed_def simp del: realm_role_ok.simps\<close>)
  next
    case (CRealmName x)
    show ?thesis unfolding unf CRealmName sum.case any_certificate.case owner
      by (rule yields_cong [OF yields_in_realm [where ok = "realm_owner_ok l c (rn_realm_id x)", OF yields_realm_owner]])
        (use c CRealmName in \<open>auto simp: accepted_def author_signed_def\<close>)
  next
    case (CRealmKeyRotation x)
    show ?thesis unfolding unf CRealmKeyRotation sum.case any_certificate.case owner
      by (rule yields_cong [OF yields_in_realm [where ok = "realm_owner_ok l c (kt_realm_id x)", OF yields_realm_owner]])
        (use c CRealmKeyRotation in \<open>auto simp: accepted_def author_signed_def\<close>)
  next
    case (CRealmArchiving x)
    show ?thesis unfolding unf CRealmArchiving sum.case any_certificate.case owner
      by (rule yields_cong [OF yields_in_realm [where ok = "realm_owner_ok l c (ra_realm_id x)", OF yields_realm_owner]])
        (use c CRealmArchiving in \<open>auto simp: accepted_def author_signed_def\<close>)
  qed simp_all
next
  show "plain c \<and> is_RealmTopic (certif_topic c)" if "certif_topic c = RealmTopic r" for c
    using that by (cases c) (simp_all add: plain_def)
qed (simp add: validate_realm_certificate_def realm_unsecure_load_def yields_throw)

lemma decides_shamir:
  "decides env l (\<lambda>c. certif_topic c = ShamirTopic) signed (validate_shamir_recovery_certificate env signed)"
proof (rule decides_load [where Q = "\<lambda>t. t = ShamirTopic"])
  fix c assume c: "base_unsecure_load (ce_codec env) (as_topic (\<lambda>t. t = ShamirTopic)) signed = Inr c"
    "base_unsecure_load (ce_codec env) Some signed = Inr c" "certif_topic c = ShamirTopic"
  note unf = validate_shamir_recovery_certificate_def shamir_unsecure_load_def c(1)
  let ?self = "ce_user_id env"
  from c(3) show "yields env l (validate_shamir_recovery_certificate env signed)
     (if certif_topic c = ShamirTopic \<and> accepted env l signed c then Some c else None)"
  proof (cases c)
    case (CShamirBrief x)
    show ?thesis unfolding unf CShamirBrief sum.case any_certificate.case
      by (rule yields_cong [OF yields_by_device [where ok = "brief_ok ?self l x", OF yields_brief]])
        (use c CShamirBrief in \<open>simp add: accepted_def author_signed_def del: brief_ok.simps\<close>)
  next
    case (CShamirShare x)
    show ?thesis unfolding unf CShamirShare sum.case any_certificate.case
      by (rule yields_cong [OF yields_by_device [where ok = "share_ok ?self l x", OF yields_share]])
        (use c CShamirShare in \<open>simp add: accepted_def author_signed_def del: share_ok.simps\<close>)
  next
    case (CShamirDeletion x)
    show ?thesis unfolding unf CShamirDeletion sum.case any_certificate.case
      by (rule yields_cong [OF yields_by_device [where ok = "deletion_ok l x", OF yields_deletion]])
        (use c CShamirDeletion in \<open>simp add: accepted_def author_signed_def del: deletion_ok.simps\<close>)
  qed simp_all
next
  show "plain c \<and> certif_topic c = ShamirTopic" if "certif_topic c = ShamirTopic" for c
    using that by (cases c) (simp_all add: plain_def)
qed (simp add: validate_shamir_recovery_certificate_def shamir_unsecure_load_def yields_throw)

subsection \<open>The sequester topic\<close>

lemma authority_append:
  "authority_of (l @ [c]) = (case as_sequester_authority c of Some a \<Rightarrow> Some a | None \<Rightarrow> authority_of l)"
  by (cases c) (simp_all add: authority_of_def latest_append)

lemma sequester_has_authority:
  assumes "log_ok self l" "c \<in> set l" "certif_topic c = SequesterTopic" shows "authority_of l \<noteq> None"
  using assms
proof (induction)
  case (log_append l d)
  show ?case
  proof (cases "c \<in> set l")
    case True
    with log_append show ?thesis by (auto simp: authority_append split: option.split)
  next
    case False
    with log_append.prems have "certif_topic d = SequesterTopic" by auto
    with log_append.hyps(2) authority_append [of l d] show ?thesis by (cases d) auto
  qed
qed simp

lemma sequester_from_encrypted:
  assumes "stores env l data c" "authority_of l = Some a"
  shows "c = CSequesterService x \<Longrightarrow>
      get_sequester_authority_signed_certificate_from_encrypted env (sa_verify_key_der a) as_sequester_service data = Inr x"
    "c = CSequesterRevokedService y \<Longrightarrow>
      get_sequester_authority_signed_certificate_from_encrypted env (sa_verify_key_der a) as_sequester_revoked_service data = Inr y"
  using assms by (auto simp: stores_def get_sequester_authority_signed_certificate_from_encrypted_def ok_or_def)

definition services_at :: "certif_log \<Rightarrow> date_time \<Rightarrow> sequester_service_certificate list" where
  "services_at l t = List.map_filter as_sequester_service (filter (\<lambda>c. is_service c \<and> certif_timestamp c \<le> t) l)"

lemma services_at_iff: "x \<in> set (services_at l t) \<longleftrightarrow> CSequesterService x \<in> set l \<and> sv_timestamp x \<le> t"
proof (induction l)
  case (Cons c l)
  then show ?case by (cases c) (auto simp: services_at_def List.map_filter_simps)
qed (simp add: services_at_def List.map_filter_simps)

lemma get_multiple_services_ok:
  assumes "list_all2 (\<lambda>(_, data) c. stores env l data c) items cs" "authority_of l = Some a" "\<forall>c \<in> set cs. is_service c"
  shows "get_multiple_sequester_authority_signed_certificates_from_encrypted env (sa_verify_key_der a)
     as_sequester_service items = Inr (List.map_filter as_sequester_service cs)"
  using assms
proof (induction rule: list_all2_induct)
  case (Cons item items c cs)
  obtain t data where item: "item = (t, data)" by (cases item)
  from Cons.prems obtain x where x: "c = CSequesterService x" by (cases c) auto
  with Cons item sequester_from_encrypted(1) [OF _ Cons.prems(1) x] show ?case by (auto simp: List.map_filter_simps)
qed (simp add: List.map_filter_simps)

lemma reads_services:
  "returns env Anyhow l (get_sequester_service_certificates env (at t)) (Inr (if authority_of l = None then [] else services_at l t))"
proof (rule reads_log)
  assume log: "log_ok (ce_user_id env) l"
  have q: "simple_query (NoFilter TSequesterService)" "query_certif (NoFilter TSequesterService) = is_service"
    by (simp_all add: query_certif_kinds)
  show ?thesis unfolding get_sequester_service_certificates_def
  proof (rule returns_bind [OF reads_authority])
    show "returns env Anyhow l (case authority_of l of
       None \<Rightarrow> op_return []
     | Some authority \<Rightarrow>
         op_bind (on_db (db_get_multiple_certificates_encrypted (NoFilter TSequesterService) (at t) None None)) (\<lambda>items.
         op_lift (get_multiple_sequester_authority_signed_certificates_from_encrypted env
           (sa_verify_key_der authority) as_sequester_service items)))
      (Inr (if authority_of l = None then [] else services_at l t))"
    proof (cases "authority_of l")
      case None
      then show ?thesis by (simp add: reads_return)
    next
      case (Some a)
      show ?thesis unfolding Some option.case
      proof (rule reads_bind [OF reads_get_multiple [OF q log_strict_kinds(9) [OF log]]])
        fix items :: "(date_time \<times> byte list) list"
        assume "\<exists>items'. (Inr items :: anyhow + _) = Inr items' \<and> list_all2 (\<lambda>(_, data) c. stores env l data c) items'
           (filter (\<lambda>c. is_service c \<and> up_to_allows (at t) (certif_timestamp c)) l)"
        then have "get_multiple_sequester_authority_signed_certificates_from_encrypted env (sa_verify_key_der a)
             as_sequester_service items = Inr (services_at l t)"
          by (auto intro!: get_multiple_services_ok [OF _ Some] simp: services_at_def)
        then show "returns env Anyhow l (op_lift (get_multiple_sequester_authority_signed_certificates_from_encrypted env
           (sa_verify_key_der a) as_sequester_service items)) (Inr (if Some a = None then [] else services_at l t))"
          by (simp add: reads_lift)
      qed auto
    qed
  qed
qed

lemma reads_revoked_service:
  "returns env Anyhow l (get_sequester_revoked_service_certificate env u i)
     (Inr (if authority_of l = None then None
           else Option.bind (latest (is_service_revocation i) u l) as_sequester_revoked_service))"
proof (rule reads_log)
  assume log: "log_ok (ce_user_id env) l"
  let ?q = "Filter1 TSequesterRevokedService (FBytes i)" and ?P = "is_service_revocation i"
  let ?r = "if authority_of l = None then None else Option.bind (latest ?P u l) as_sequester_revoked_service"
  note get = reads_get_certificate_encrypted [of ?q l env u, unfolded query_certif_kinds, OF _ log_strict_kinds(10) [OF log]]
  show "returns env Anyhow l (get_sequester_revoked_service_certificate env u i) (Inr ?r)"
    unfolding get_sequester_revoked_service_certificate_def
  proof (rule reads_match [OF get])
    fix r assume R: "case latest ?P u l of
        Some c \<Rightarrow> (\<exists>data. r = Inr (certif_timestamp c, data) \<and> stores env l data c)
      | None \<Rightarrow> r = Inl (missing ?P u l)"
    let ?next = "\<lambda>r. case r of
       Inl NonExisting \<Rightarrow> op_return None
     | Inl (ExistButTooRecent _) \<Rightarrow> op_return None
     | Inl GetInternal \<Rightarrow> op_throw Anyhow
     | Inr (_, encrypted) \<Rightarrow>
         op_bind (get_sequester_authority_certificate env) (\<lambda>maybe_authority.
         case maybe_authority of
           None \<Rightarrow> op_return None
         | Some authority \<Rightarrow>
             op_bind (op_lift (get_sequester_authority_signed_certificate_from_encrypted env
               (sa_verify_key_der authority) as_sequester_revoked_service encrypted)) (\<lambda>certif.
             op_return (Some certif)))"
    show "returns env Anyhow l (?next r) (Inr ?r)"
    proof (cases "latest ?P u l")
      case None
      with R missing_cases [of ?P u l] show ?thesis by (auto intro: reads_mono [OF reads_return])
    next
      case (Some c)
      then obtain data where r: "r = Inr (certif_timestamp c, data)" "stores env l data c" using R by auto
      obtain y where y: "c = CSequesterRevokedService y" using latest_SomeD(2) [OF Some] by (cases c) auto
      show ?thesis unfolding r sum.case prod.case
      proof (rule returns_bind [OF reads_authority])
        show "returns env Anyhow l (case authority_of l of
           None \<Rightarrow> op_return None
         | Some authority \<Rightarrow>
             op_bind (op_lift (get_sequester_authority_signed_certificate_from_encrypted env
               (sa_verify_key_der authority) as_sequester_revoked_service data)) (\<lambda>certif.
             op_return (Some certif))) (Inr ?r)"
          using sequester_from_encrypted(2) [OF r(2) _ y] Some y
          by (cases "authority_of l") (auto intro: reads_mono [OF reads_return] reads_mono [OF returns_bind [OF reads_lift reads_return]])
      qed
    qed
  qed simp_all
qed

lemma no_authority: "topic_empty l SequesterTopic \<Longrightarrow> authority_of l = None"
proof -
  assume empty: "topic_empty l SequesterTopic"
  have "certif_topic c = SequesterTopic" if "is_authority c" for c using that by (cases c) auto
  with empty have "latest is_authority UpToCurrent l = None" by (auto simp: latest_None topic_empty_def list_all_iff)
  then show ?thesis by (simp add: authority_of_def)
qed

lemma yields_service:
  assumes "last_ts SequesterTopic l = Some m" "authority_of l \<noteq> None"
  shows "yields env l (check_sequester_service_certificate_consistency env m c)
    (guarded (certif_ok (ce_user_id env) l (CSequesterService c)))"
proof (rule yields_log)
  assume log: "log_ok (ce_user_id env) l"
  have newest: "newest l (CSequesterService c) \<longleftrightarrow> \<not> sv_timestamp c \<le> m"
    using newest_iff_last_ts(1) [OF log, of "CSequesterService c"] assms by auto
  have all: "(\<forall>x \<in> set (services_at l (sv_timestamp c)). sv_service_id x \<noteq> sv_service_id c) \<longleftrightarrow>
     list_all (\<lambda>c'. case c' of CSequesterService s \<Rightarrow> sv_service_id s \<noteq> sv_service_id c | _ \<Rightarrow> True) l"
    if new: "newest l (CSequesterService c)"
  proof -
    have "x \<in> set (services_at l (sv_timestamp c)) \<longleftrightarrow> CSequesterService x \<in> set l" for x
      using new by (auto simp: services_at_iff newest_iff)
    then show ?thesis by (auto simp: list_all_iff split: any_certificate.split)
  qed
  show "yields env l (check_sequester_service_certificate_consistency env m c)
    (guarded (certif_ok (ce_user_id env) l (CSequesterService c)))"
    unfolding check_sequester_service_certificate_consistency_def
  proof (rule yields_guard [OF yields_require], rule yields_internal [OF reads_services])
    assume "\<not> sv_timestamp c \<le> m"
    with newest have new: "newest l (CSequesterService c)" by simp
    have "yields env l (op_iter (\<lambda>existing_service.
         require (sv_service_id existing_service \<noteq> sv_service_id c) ContentAlreadyExists) (services_at l (sv_timestamp c)))
       (guarded (\<forall>x \<in> set (services_at l (sv_timestamp c)). sv_service_id x \<noteq> sv_service_id c))"
      by (rule yields_iter) (rule yields_require)
    then show "yields env l (op_iter (\<lambda>existing_service.
         require (sv_service_id existing_service \<noteq> sv_service_id c) ContentAlreadyExists)
           (if authority_of l = None then [] else services_at l (sv_timestamp c)))
       (guarded (certif_ok (ce_user_id env) l (CSequesterService c)))"
      unfolding all [OF new] using new assms(2) by (auto elim: yields_cong)
  qed (use newest in simp)
qed

lemma yields_revoked_service:
  assumes "last_ts SequesterTopic l = Some m" "authority_of l \<noteq> None"
  shows "yields env l (check_sequester_revoked_service_certificate_consistency env m c)
    (guarded (certif_ok (ce_user_id env) l (CSequesterRevokedService c)))"
proof (rule yields_log)
  assume log: "log_ok (ce_user_id env) l"
  let ?P = "is_service_revocation (sr_service_id c)"
  have newest: "newest l (CSequesterRevokedService c) \<longleftrightarrow> \<not> sr_timestamp c \<le> m"
    using newest_iff_last_ts(1) [OF log, of "CSequesterRevokedService c"] assms by auto
  have none: "Option.bind (latest ?P (at (sr_timestamp c)) l) as_sequester_revoked_service = None \<longleftrightarrow>
      list_all (\<lambda>c'. \<not> ?P c') l" if new: "newest l (CSequesterRevokedService c)"
  proof -
    have topic: "certif_topic d = SequesterTopic \<and> as_sequester_revoked_service d \<noteq> None" if "?P d" for d using that by (cases d) auto
    have "latest ?P (at (sr_timestamp c)) l = None \<longleftrightarrow> list_all (\<lambda>c'. \<not> ?P c') l"
      using new topic by (fastforce simp: latest_None list_all_iff newest_iff)
    moreover have "as_sequester_revoked_service d \<noteq> None" if "latest ?P (at (sr_timestamp c)) l = Some d" for d
      using topic latest_SomeD(2) [OF that] by blast
    ultimately show ?thesis by (cases "latest ?P (at (sr_timestamp c)) l") auto
  qed
  show "yields env l (check_sequester_revoked_service_certificate_consistency env m c)
    (guarded (certif_ok (ce_user_id env) l (CSequesterRevokedService c)))"
    unfolding check_sequester_revoked_service_certificate_consistency_def
    by (rule yields_guard [OF yields_require], rule yields_internal [OF reads_revoked_service])
      (use none newest assms(2) in \<open>auto intro: yields_return yields_throw split: option.split\<close>)
qed

lemma decides_authority:
  assumes empty: "topic_empty l SequesterTopic"
  shows "decides env l (\<lambda>c. certif_topic c = SequesterTopic) signed (validate_sequester_authority_certificate env signed)"
proof -
  let ?load = "base_unsecure_load (ce_codec env) as_sequester_authority signed"
  have only: "\<exists>a. c = CSequesterAuthority a \<and> ?load = Inr a \<and> l = [] \<and> signature_ok env (ce_root_verify_key env) signed"
    if "certif_topic c = SequesterTopic" "accepted env l signed c" for c
    using that no_authority [OF empty]
    by (cases c) (auto simp: accepted_def author_signed_def unsecure_load_as [of _ as_sequester_authority])
  have ok: "accepted env l signed (CSequesterAuthority a) \<longleftrightarrow> l = [] \<and> signature_ok env (ce_root_verify_key env) signed"
    if "?load = Inr a" for a
  proof -
    from that obtain c where "base_unsecure_load (ce_codec env) Some signed = Inr c" "as_sequester_authority c = Some a"
      by (auto simp: unsecure_load_as [of _ as_sequester_authority])
    then show ?thesis by (cases c) (auto simp: accepted_def author_signed_def)
  qed
  show ?thesis
  proof (cases ?load)
    case (Inl e)
    show ?thesis
      by (rule decidesI [where v = None])
        (use Inl only in \<open>auto simp: validate_sequester_authority_certificate_def sequester_authority_unsecure_load_def intro: yields_throw\<close>)
  next
    case (Inr a)
    have first: "yields env l check_sequester_authority_certificate_consistency (guarded (l = []))"
      unfolding check_sequester_authority_certificate_consistency_def
      by (rule yields_timestamps) (auto simp: timestamps_emptyI intro: yields_return yields_throw)
    have "yields env l (validate_sequester_authority_certificate env signed)
       (if accepted env l signed (CSequesterAuthority a) then Some (CSequesterAuthority a) else None)"
      using Inr yields_guard [OF first yields_return]
      by (auto simp: ok validate_sequester_authority_certificate_def sequester_authority_unsecure_load_def verify_signature_def
        signature_ok_def intro!: yields_guard [OF first] intro: yields_throw yields_return)
    moreover have "(if accepted env l signed (CSequesterAuthority a) then Some (CSequesterAuthority a) else None) = Some c \<longleftrightarrow>
       certif_topic c = SequesterTopic \<and> accepted env l signed c" for c
      using only [of c] Inr by auto
    ultimately show ?thesis by (rule decidesI)
  qed
qed

lemma sequester_load_unique:
  "sequester_verify_and_load codec as_sequester_service signed k = Inr x \<Longrightarrow>
   sequester_verify_and_load codec as_sequester_revoked_service signed k = Inr y \<Longrightarrow> False"
proof -
  assume "sequester_verify_and_load codec as_sequester_service signed k = Inr x"
    and revoked: "sequester_verify_and_load codec as_sequester_revoked_service signed k = Inr y"
  then obtain raw c where "cc_sequester_verify codec k signed = Some raw" "cc_parse codec raw = Some c"
    "as_sequester_service c = Some x"
    by (auto simp: sequester_verify_and_load_def and_then_Inr ok_or_def Option.bind_eq_Some_conv split: option.split_asm)
  with revoked show False by (cases c) (auto simp: sequester_verify_and_load_def ok_or_def)
qed

lemma decides_non_authority:
  assumes m: "last_ts SequesterTopic l = Some m" and log: "log_ok (ce_user_id env) l"
  shows "decides env l (\<lambda>c. certif_topic c = SequesterTopic) signed (validate_sequester_non_authority_certificate env m signed)"
proof -
  have "authority_of l \<noteq> None" using last_ts_Some(2) [OF log m] sequester_has_authority [OF log] by blast
  then obtain a where a: "authority_of l = Some a" by blast
  then have ne: "authority_of l \<noteq> None" "l \<noteq> []" by (auto simp: authority_of_def latest_def)
  let ?k = "sa_verify_key_der a"
  let ?service = "sequester_verify_and_load (ce_codec env) as_sequester_service signed ?k"
  let ?revoked = "sequester_verify_and_load (ce_codec env) as_sequester_revoked_service signed ?k"
  have acc: "certif_topic c = SequesterTopic \<and> accepted env l signed c \<longleftrightarrow>
     certif_ok (ce_user_id env) l c \<and>
       ((\<exists>x. c = CSequesterService x \<and> ?service = Inr x) \<or> (\<exists>x. c = CSequesterRevokedService x \<and> ?revoked = Inr x))" for c
    using a ne(2) by (cases c) (auto simp: accepted_def author_signed_def)
  let ?v = "case ?service of
      Inr x \<Rightarrow> if certif_ok (ce_user_id env) l (CSequesterService x) then Some (CSequesterService x) else None
    | Inl _ \<Rightarrow> (case ?revoked of
        Inr x \<Rightarrow> if certif_ok (ce_user_id env) l (CSequesterRevokedService x) then Some (CSequesterRevokedService x) else None
      | Inl _ \<Rightarrow> None)"
  have service: "yields env l (op_bind (check_sequester_service_certificate_consistency env m x) (\<lambda>_. op_return (CSequesterService x)))
     (if certif_ok (ce_user_id env) l (CSequesterService x) then Some (CSequesterService x) else None)" for x
    by (rule yields_guard [OF yields_service [OF m ne(1)]]) (simp_all add: yields_return del: certif_ok.simps is_result_simps)
  have revoked: "yields env l (op_bind (check_sequester_revoked_service_certificate_consistency env m x) (\<lambda>_. op_return (CSequesterRevokedService x)))
     (if certif_ok (ce_user_id env) l (CSequesterRevokedService x) then Some (CSequesterRevokedService x) else None)" for x
    by (rule yields_guard [OF yields_revoked_service [OF m ne(1)]]) (simp_all add: yields_return del: certif_ok.simps is_result_simps)
  have "yields env l (validate_sequester_non_authority_certificate env m signed) ?v"
    unfolding validate_sequester_non_authority_certificate_def
  proof (rule yields_internal [OF reads_authority])
    show "yields env l (case authority_of l of
       None \<Rightarrow> invalid NotASequesteredOrganization
     | Some authority \<Rightarrow>
         (case sequester_verify_and_load (ce_codec env) as_sequester_service signed (sa_verify_key_der authority) of
            Inr cooked \<Rightarrow>
              op_bind (check_sequester_service_certificate_consistency env m cooked) (\<lambda>_.
              op_return (CSequesterService cooked))
          | Inl _ \<Rightarrow>
              (case sequester_verify_and_load (ce_codec env) as_sequester_revoked_service signed
                      (sa_verify_key_der authority) of
                 Inr cooked \<Rightarrow>
                   op_bind (check_sequester_revoked_service_certificate_consistency env m cooked) (\<lambda>_.
                   op_return (CSequesterRevokedService cooked))
               | Inl err \<Rightarrow> invalid (Corrupted err)))) ?v"
      unfolding a option.case
      by (cases ?service; cases ?revoked) (simp_all add: service revoked yields_throw del: certif_ok.simps)
  qed
  moreover have "?v = Some c \<longleftrightarrow> certif_topic c = SequesterTopic \<and> accepted env l signed c" for c
    unfolding acc using sequester_load_unique [where codec = "ce_codec env" and signed = signed and k = ?k]
    by (cases ?service; cases ?revoked) (auto simp del: certif_ok.simps)
  ultimately show ?thesis by (rule decidesI)
qed

lemma decides_sequester:
  assumes log: "log_ok (ce_user_id env) l"
  shows "decides env l (\<lambda>c. certif_topic c = SequesterTopic) signed (validate_sequester_certificate env signed)"
proof -
  have "decides env l (\<lambda>c. certif_topic c = SequesterTopic) signed
     (case last_ts SequesterTopic l of
        None \<Rightarrow> validate_sequester_authority_certificate env signed
      | Some m \<Rightarrow> validate_sequester_non_authority_certificate env m signed)" (is "decides _ _ _ _ ?m")
    using decides_authority [of l, unfolded last_ts_None [symmetric]] decides_non_authority [OF _ log]
    by (cases "last_ts SequesterTopic l") simp_all
  then obtain v where v: "yields env l ?m v" "\<And>c. v = Some c \<longleftrightarrow> certif_topic c = SequesterTopic \<and> accepted env l signed c"
    unfolding decides_def by blast
  have "yields env l (validate_sequester_certificate env signed) v"
    unfolding validate_sequester_certificate_def
    by (rule yields_timestamps) (use v(1) in \<open>simp add: timestamps_of_def\<close>)
  then show ?thesis using v(2) by (rule decidesI)
qed

end
