(* ===== verification/Certificate_Batch.thy ===== *)
theory Certificate_Batch
  imports Certificate_Validation
begin

text \<open>
  Adding a batch implements appending to the log: each certificate is appended when it is accepted after
  the ones before it, and the batch fails exactly when one of them is not (or after a database fault).
\<close>

subsection \<open>Appending one certificate\<close>

lemma self_profile_append:
  "self_profile_of env l p \<Longrightarrow> \<not> is_update (ce_user_id env) c \<Longrightarrow> self_profile_of env (l @ [c]) p"
  by (auto simp: self_profile_of_def latest_append split: option.split)

lemma bootstrap_append:
  "certif_topic c \<noteq> RealmTopic r \<Longrightarrow> bootstrap_of (l @ [c]) r = bootstrap_of l r"
  by (cases c) (auto simp: bootstrap_of_def sql_eq_def)

lemma role_append:
  "certif_topic c \<noteq> RealmTopic r \<Longrightarrow> latest (is_role_of r u) v (l @ [c]) = latest (is_role_of r u) v l"
  by (cases c) (auto simp: latest_append)

lemma timestamps_append:
  "timestamps_of ts l \<Longrightarrow> certif_topic c = CommonTopic \<Longrightarrow>
     timestamps_of (ts\<lparr>pt_common := Some (certif_timestamp c)\<rparr>) (l @ [c])"
  "timestamps_of ts l \<Longrightarrow> certif_topic c = SequesterTopic \<Longrightarrow>
     timestamps_of (ts\<lparr>pt_sequester := Some (certif_timestamp c)\<rparr>) (l @ [c])"
  "timestamps_of ts l \<Longrightarrow> certif_topic c = ShamirTopic \<Longrightarrow>
     timestamps_of (ts\<lparr>pt_shamir_recovery := Some (certif_timestamp c)\<rparr>) (l @ [c])"
  "timestamps_of ts l \<Longrightarrow> certif_topic c = RealmTopic r \<Longrightarrow>
     timestamps_of (ts\<lparr>pt_realm := hm_insert r (certif_timestamp c) (pt_realm ts)\<rparr>) (l @ [c])"
  by (auto simp: timestamps_of_def last_ts_append hm_simps)

lemma cache_ok_append:
  assumes "cache_ok env l c0"
    and "\<And>ts. vc_per_topic_last_timestamps c1 = Present ts \<Longrightarrow> timestamps_of ts (l @ [c])"
    and "\<And>p. vc_self_profile c1 = Present p \<Longrightarrow>
      vc_self_profile c0 = Present p \<and> \<not> is_update (ce_user_id env) c \<or> self_profile_of env (l @ [c]) p"
    and "\<And>d k t u. hm_get (vc_per_device_verify_key_and_user_id c1) d = Some (k, t, u) \<Longrightarrow>
      hm_get (vc_per_device_verify_key_and_user_id c0) d = Some (k, t, u) \<or>
      (\<exists>dc. c = CDevice dc \<and> dc_device_id dc = d \<and> dc_verify_key dc = k \<and> dc_timestamp dc = t \<and> dc_user_id dc = u)"
    and "\<And>r p. hm_get (vc_per_realm_self_role c1) r = Some p \<Longrightarrow>
      hm_get (vc_per_realm_self_role c0) r = Some p \<and> certif_topic c \<noteq> RealmTopic r"
    and "\<And>r st. hm_get (vc_per_realm_bootstrap_state c1) r = Some st \<Longrightarrow>
      hm_get (vc_per_realm_bootstrap_state c0) r = Some st \<and> certif_topic c \<noteq> RealmTopic r"
  shows "cache_ok env (l @ [c]) c1"
proof -
  note old = assms(1) [unfolded cache_ok_def]
  have "self_profile_of env (l @ [c]) p" if "vc_self_profile c1 = Present p" for p
    using assms(3) [OF that] old self_profile_append by blast
  moreover have "\<exists>dc. CDevice dc \<in> set (l @ [c]) \<and> dc_device_id dc = d \<and> dc_verify_key dc = k \<and> dc_timestamp dc = t \<and> dc_user_id dc = u"
    if "hm_get (vc_per_device_verify_key_and_user_id c1) d = Some (k, t, u)" for d k t u
    using assms(4) [OF that] old by fastforce
  moreover have "\<exists>rc. latest (is_role_of r (ce_user_id env)) UpToCurrent (l @ [c]) = Some (CRealmRole rc) \<and> rl_role rc = p"
    if "hm_get (vc_per_realm_self_role c1) r = Some p" for r p
    using assms(5) [OF that] old role_append by fastforce
  moreover have "st = bootstrap_of (l @ [c]) r" if "hm_get (vc_per_realm_bootstrap_state c1) r = Some st" for r st
    using assms(6) [OF that] old bootstrap_append by fastforce
  ultimately show ?thesis unfolding cache_ok_def using assms(2) by blast
qed

lemma update_common: "is_update u c \<Longrightarrow> certif_topic c = CommonTopic"
  by (cases c) simp_all

lemma cache_next_sequester_ok:
  assumes "cache_ok env l c0" "vc_per_topic_last_timestamps c0 = Present ts" "certif_topic c = SequesterTopic"
  shows "cache_ok env (l @ [c]) (cache_next_sequester (certif_timestamp c) c0)"
  by (rule cache_ok_append [OF assms(1)])
    (use assms in \<open>auto simp: cache_next_sequester_def cache_ok_def intro: timestamps_append dest: update_common\<close>)

lemma cache_next_shamir_ok:
  assumes "cache_ok env l c0" "vc_per_topic_last_timestamps c0 = Present ts" "certif_topic c = ShamirTopic"
  shows "cache_ok env (l @ [c]) (cache_next_shamir (certif_timestamp c) c0)"
  by (rule cache_ok_append [OF assms(1)])
    (use assms in \<open>auto simp: cache_next_shamir_def cache_ok_def intro: timestamps_append dest: update_common\<close>)

lemma cache_next_realm_ok:
  assumes "cache_ok env l c0" "vc_per_topic_last_timestamps c0 = Present ts" "certif_topic c = RealmTopic r"
  shows "cache_ok env (l @ [c]) (cache_next_realm r (certif_timestamp c) b c0)"
  by (rule cache_ok_append [OF assms(1)])
    (use assms in \<open>auto simp: cache_next_realm_def Let_def cache_ok_def hm_simps intro: timestamps_append
      dest: update_common split: if_split_asm\<close>)

lemma cache_common_timestamp_parts [simp]:
  "vc_self_profile (cache_common_timestamp t c) = vc_self_profile c"
  "vc_per_device_verify_key_and_user_id (cache_common_timestamp t c) = vc_per_device_verify_key_and_user_id c"
  "vc_per_realm_self_role (cache_common_timestamp t c) = vc_per_realm_self_role c"
  "vc_per_realm_bootstrap_state (cache_common_timestamp t c) = vc_per_realm_bootstrap_state c"
  "vc_per_topic_last_timestamps c = Present ts \<Longrightarrow>
     vc_per_topic_last_timestamps (cache_common_timestamp t c) = Present (ts\<lparr>pt_common := Some t\<rparr>)"
  by (simp_all add: cache_common_timestamp_def)

lemma cache_self_profile_parts [simp]:
  "vc_self_profile (cache_self_profile env u p c) = (if u = ce_user_id env then Present p else vc_self_profile c)"
  "vc_per_device_verify_key_and_user_id (cache_self_profile env u p c) = vc_per_device_verify_key_and_user_id c"
  "vc_per_realm_self_role (cache_self_profile env u p c) = vc_per_realm_self_role c"
  "vc_per_realm_bootstrap_state (cache_self_profile env u p c) = vc_per_realm_bootstrap_state c"
  "vc_per_topic_last_timestamps (cache_self_profile env u p c) = vc_per_topic_last_timestamps c"
  by (simp_all add: cache_self_profile_def Let_def)

lemma update_has_user:
  assumes "log_ok self l" "CUserUpdate x \<in> set l"
  shows "\<exists>c \<in> set l. is_user (up_user_id x) c"
proof -
  let ?Q = "\<lambda>l c. \<forall>x. c = CUserUpdate x \<longrightarrow> (\<exists>c \<in> set l. is_user (up_user_id x) c)"
  have "?Q l (CUserUpdate x)"
  proof (rule log_invariant [OF assms(1) _ _ assms(2), where Q = ?Q])
    fix pre c assume ok: "certif_ok self pre c"
    show "?Q pre c"
    proof (intro allI impI)
      fix x assume "c = CUserUpdate x"
      with ok obtain uc where "user_at pre (up_timestamp x) (up_user_id x) = Some uc" by auto
      from user_at_SomeD(1,2) [OF this] show "\<exists>c \<in> set pre. is_user (up_user_id x) c"
        by (intro bexI [of _ "CUser uc"]) simp_all
    qed
  qed auto
  then show ?thesis by blast
qed

lemma cache_next_common_ok:
  assumes cache: "cache_ok env l c0" and ts: "vc_per_topic_last_timestamps c0 = Present ts"
    and topic: "certif_topic c = CommonTopic" and log: "log_ok (ce_user_id env) l" and ok: "certif_ok (ce_user_id env) l c"
  shows "cache_ok env (l @ [c]) (cache_next_common env c c0)"
proof (rule cache_ok_append [OF cache])
  fix ts' assume "vc_per_topic_last_timestamps (cache_next_common env c c0) = Present ts'"
  then have "ts' = ts\<lparr>pt_common := Some (certif_timestamp c)\<rparr>" using topic ts by (cases c) simp_all
  then show "timestamps_of ts' (l @ [c])" using cache ts topic by (auto simp: cache_ok_def intro: timestamps_append)
next
  have new: "self_profile_of env (l @ [c]) (uc_profile u)" if c: "c = CUser u" and u: "uc_user_id u = ce_user_id env" for u
  proof -
    have "list_all (\<lambda>c'. \<not> is_user (ce_user_id env) c') l" using ok c u by (auto split: certificate_signer.split_asm)
    then have "\<not> is_update (ce_user_id env) d" if "d \<in> set l" for d
      using update_has_user [OF log] that by (cases d) (fastforce simp: list_all_iff)+
    then have "latest (is_update (ce_user_id env)) UpToCurrent (l @ [c]) = None" using c by (auto simp: latest_None)
    then show ?thesis using c u by (auto simp: self_profile_of_def)
  qed
  have upd: "self_profile_of env (l @ [c]) (up_new_profile u)" if "c = CUserUpdate u" "up_user_id u = ce_user_id env" for u
    using that by (simp add: self_profile_of_def latest_append)
  fix p assume p: "vc_self_profile (cache_next_common env c c0) = Present p"
  show "vc_self_profile c0 = Present p \<and> \<not> is_update (ce_user_id env) c \<or> self_profile_of env (l @ [c]) p"
    using p topic new upd by (cases c) (auto split: if_split_asm)
next
  fix d k t u assume "hm_get (vc_per_device_verify_key_and_user_id (cache_next_common env c c0)) d = Some (k, t, u)"
  then show "hm_get (vc_per_device_verify_key_and_user_id c0) d = Some (k, t, u) \<or>
      (\<exists>dc. c = CDevice dc \<and> dc_device_id dc = d \<and> dc_verify_key dc = k \<and> dc_timestamp dc = t \<and> dc_user_id dc = u)"
    using topic by (cases c) (auto simp: Let_def hm_simps split: if_split_asm)
next
  fix r p assume "hm_get (vc_per_realm_self_role (cache_next_common env c c0)) r = Some p"
  then show "hm_get (vc_per_realm_self_role c0) r = Some p \<and> certif_topic c \<noteq> RealmTopic r"
    using topic by (cases c) (simp_all add: Let_def)
next
  fix r st assume "hm_get (vc_per_realm_bootstrap_state (cache_next_common env c c0)) r = Some st"
  then show "hm_get (vc_per_realm_bootstrap_state c0) r = Some st \<and> certif_topic c \<noteq> RealmTopic r"
    using topic by (cases c) (simp_all add: Let_def)
qed

lemma loads_append:
  assumes "certif_ok self l c" "d \<in> set l"
  shows "loads env (l @ [c]) signed d = loads env l signed d"
proof -
  have "authority_of (l @ [c]) = authority_of l"
    using assms by (cases c) (auto simp: authority_append)
  then show ?thesis by (cases d) simp_all
qed

lemma loads_accepted:
  assumes "accepted env l signed c" shows "loads env (l @ [c]) signed c"
  using assms by (cases c) (auto simp: accepted_def author_signed_def authority_append)

lemma list_all2_cong_set: "list_all2 R xs ys \<Longrightarrow> (\<And>x y. y \<in> set ys \<Longrightarrow> R x y \<Longrightarrow> S x y) \<Longrightarrow> list_all2 S xs ys"
  by (induction rule: list_all2_induct) auto

definition row_for :: "certif_env \<Rightarrow> any_certificate \<Rightarrow> byte list \<Rightarrow> certif_row" where
  "row_for env c signed = \<lparr>cr_timestamp = certif_timestamp c, cr_data = dk_encrypt (ce_local_symkey env) signed,
     cr_type = certif_type c, cr_filter1 = fst (certif_filters c), cr_filter2 = snd (certif_filters c)\<rparr>"

lemma rows_append:
  assumes rows: "rows_ok env rows l" and acc: "accepted env l signed c" and key: "key_ok (ce_local_symkey env)"
  shows "rows_ok env (rows @ [row_for env c signed]) (l @ [c])"
proof -
  have ok: "certif_ok (ce_user_id env) l c" using acc by (simp add: accepted_def)
  have "list_all2 (row_of env (l @ [c])) rows l"
    using rows [unfolded rows_ok_def]
    by (rule list_all2_cong_set) (auto simp: row_of_def stores_def loads_append [OF ok])
  moreover have "row_of env (l @ [c]) (row_for env c signed) c"
    using loads_accepted [OF acc] key by (simp add: row_of_def row_for_def stores_def key_ok_def)
  ultimately show ?thesis by (simp add: rows_ok_def list_all2_appendI)
qed

lemma insert_certificate_spec:
  obtains (fault) rest where "cb_faults (sg_db s) = True # rest"
      "insert_certificate env c signed s = Some (s\<lparr>sg_db := (sg_db s)\<lparr>cb_faults := rest\<rparr>\<rparr>, Inl Anyhow)"
  | (fine) rest where "insert_certificate env c signed s =
        Some (s\<lparr>sg_db := \<lparr>cb_rows = cb_rows (sg_db s) @ [row_for env c signed], cb_faults = rest\<rparr>\<rparr>, Inr ())"
      "cb_faults (sg_db s) = [] \<Longrightarrow> rest = []"
proof (cases rule: sql_statement_cases [where db = "sg_db s" and err = Anyhow and f = "\<lambda>rows. rows @ [row_for env c signed]"])
  case (fault rest)
  then show thesis using that(1)
    by (simp add: insert_certificate_def on_db_def db_add_certificate_def sql_execute_def row_for_def op_run)
next
  case (fine rest)
  then show thesis using that(2) [of rest]
    by (cases "sg_db s") (simp add: insert_certificate_def on_db_def db_add_certificate_def sql_execute_def row_for_def op_run)
qed

subsection \<open>Operations that extend the log\<close>

text \<open>
  \<open>performs env l m Q\<close>: from a store with log \<open>l\<close>, \<open>m\<close> does not panic; if some result and log satisfy \<open>Q\<close>
  it returns them, and it fails if none does. After a database fault it may fail in either case.
\<close>

definition runs :: "certif_env \<Rightarrow> certif_log \<Rightarrow> ('e, 'a) store_op \<Rightarrow> ('a \<times> certif_log) option \<Rightarrow> bool" where
  "runs env l m v \<longleftrightarrow>
     (\<forall>s. store_rel env s l \<longrightarrow> sg_present s \<longrightarrow>
        (\<exists>s' r. m s = Some (s', r) \<and> (cb_faults (sg_db s) = [] \<longrightarrow> cb_faults (sg_db s') = []) \<and>
           (case r of
              Inr x \<Rightarrow> \<exists>l'. v = Some (x, l') \<and> store_rel env s' l' \<and> sg_present s'
            | Inl _ \<Rightarrow> v = None \<or> cb_faults (sg_db s) \<noteq> [])))"

definition performs :: "certif_env \<Rightarrow> certif_log \<Rightarrow> ('e, 'a) store_op \<Rightarrow> ('a \<Rightarrow> certif_log \<Rightarrow> bool) \<Rightarrow> bool" where
  "performs env l m Q \<longleftrightarrow> (\<exists>v. runs env l m v \<and> (\<forall>x l'. v = Some (x, l') \<longleftrightarrow> Q x l'))"

lemma performsI: "runs env l m v \<Longrightarrow> (\<And>x l'. v = Some (x, l') \<longleftrightarrow> Q x l') \<Longrightarrow> performs env l m Q"
  unfolding performs_def by blast

lemma performs_cong: "performs env l m Q \<Longrightarrow> (\<And>x l'. Q x l' \<longleftrightarrow> R x l') \<Longrightarrow> performs env l m R"
  by (simp add: performs_def)

lemma runs_None: "runs env l m None \<Longrightarrow> runs env l (op_bind m f) None"
  unfolding runs_def op_run by (fastforce split: sum.split_asm)

lemma runs_bind:
  assumes "runs env l m (Some (x, l1))" "runs env l1 (f x) w" shows "runs env l (op_bind m f) w"
  unfolding runs_def
proof (intro allI impI)
  fix s assume s: "store_rel env s l" "sg_present s"
  obtain s1 r where 1: "m s = Some (s1, r)" "cb_faults (sg_db s) = [] \<longrightarrow> cb_faults (sg_db s1) = []"
    "case r of Inr y \<Rightarrow> \<exists>l'. Some (x, l1) = Some (y, l') \<and> store_rel env s1 l' \<and> sg_present s1
      | Inl _ \<Rightarrow> Some (x, l1) = None \<or> cb_faults (sg_db s) \<noteq> []"
    using assms(1) s unfolding runs_def by blast
  show "\<exists>s' r. op_bind m f s = Some (s', r) \<and> (cb_faults (sg_db s) = [] \<longrightarrow> cb_faults (sg_db s') = []) \<and>
           (case r of Inr x \<Rightarrow> \<exists>l'. w = Some (x, l') \<and> store_rel env s' l' \<and> sg_present s'
            | Inl _ \<Rightarrow> w = None \<or> cb_faults (sg_db s) \<noteq> [])"
  proof (cases r)
    case (Inl e)
    with 1 show ?thesis by (simp add: op_run)
  next
    case (Inr y)
    with 1 have y: "y = x" "store_rel env s1 l1" "sg_present s1" by auto
    obtain s2 q where 2: "f x s1 = Some (s2, q)" "cb_faults (sg_db s1) = [] \<longrightarrow> cb_faults (sg_db s2) = []"
      "case q of Inr x \<Rightarrow> \<exists>l'. w = Some (x, l') \<and> store_rel env s2 l' \<and> sg_present s2
        | Inl _ \<Rightarrow> w = None \<or> cb_faults (sg_db s1) \<noteq> []"
      using assms(2) y unfolding runs_def by blast
    then show ?thesis using 1 Inr y by (auto simp: op_run split: sum.splits)
  qed
qed

lemma performs_bind:
  assumes "performs env l m Q" "\<And>x l1. Q x l1 \<Longrightarrow> performs env l1 (f x) (R x l1)"
  shows "performs env l (op_bind m f) (\<lambda>y l'. \<exists>x l1. Q x l1 \<and> R x l1 y l')"
proof -
  obtain v where v: "runs env l m v" "\<And>x l'. v = Some (x, l') \<longleftrightarrow> Q x l'" using assms(1) unfolding performs_def by blast
  show ?thesis
  proof (cases v)
    case None
    then show ?thesis using v runs_None by (intro performsI [where v = None]) auto
  next
    case (Some z)
    obtain x l1 where z: "z = (x, l1)" by (cases z)
    have Q: "Q x' l1' \<longleftrightarrow> x' = x \<and> l1' = l1" for x' l1' using v(2) [of x' l1'] Some z by auto
    then obtain w where w: "runs env l1 (f x) w" "\<And>y l'. w = Some (y, l') \<longleftrightarrow> R x l1 y l'"
      using assms(2) unfolding performs_def by blast
    have "runs env l (op_bind m f) w" using runs_bind [where f = f, OF _ w(1)] v(1) Some z by simp
    then show ?thesis by (rule performsI) (simp add: w(2) Q)
  qed
qed

lemma performs_return: "performs env l (op_return x) (\<lambda>y l'. y = x \<and> l' = l)"
  by (rule performsI [where v = "Some (x, l)"]) (auto simp: runs_def op_return_def)

lemma performs_throw: "performs env l (op_throw e) (\<lambda>y l'. False)"
  by (rule performsI [where v = None]) (auto simp: runs_def op_throw_def)

lemma performs_yields:
  assumes "yields env l m v" "\<And>x. v = Some x \<longleftrightarrow> Q x"
  shows "performs env l m (\<lambda>x l'. Q x \<and> l' = l)"
proof (rule performsI [where v = "map_option (\<lambda>x. (x, l)) v"])
  show "runs env l m (map_option (\<lambda>x. (x, l)) v)"
    unfolding runs_def
  proof (intro allI impI)
    fix s assume s: "store_rel env s l" "sg_present s"
    obtain s' r where "m s = Some (s', r)" "keeps s s'" "store_rel env s' l"
      "is_result v r \<or> r = Inl BatchInternal \<and> cb_faults (sg_db s) \<noteq> []" using readsE [OF assms(1) s(1)] .
    then show "\<exists>s' r. m s = Some (s', r) \<and> (cb_faults (sg_db s) = [] \<longrightarrow> cb_faults (sg_db s') = []) \<and>
           (case r of Inr x \<Rightarrow> \<exists>l'. map_option (\<lambda>x. (x, l)) v = Some (x, l') \<and> store_rel env s' l' \<and> sg_present s'
            | Inl _ \<Rightarrow> map_option (\<lambda>x. (x, l)) v = None \<or> cb_faults (sg_db s) \<noteq> [])"
      using s(2) by (cases v) (auto simp: keeps_def)
  qed
qed (use assms(2) in auto)

lemma performs_decides:
  assumes "decides env l P signed m"
  shows "performs env l m (\<lambda>c l'. (P c \<and> accepted env l signed c) \<and> l' = l)"
  using assms performs_yields [where Q = "\<lambda>c. P c \<and> accepted env l signed c"] unfolding decides_def by blast

lemma events_irrelevant [simp]:
  "store_rel env (s\<lparr>sg_events := ev\<rparr>) l = store_rel env s l" "sg_present (s\<lparr>sg_events := ev\<rparr>) = sg_present s"
  by (simp_all add: store_rel_def sg_present_def)

lemma send_event_on_invalid_run:
  assumes "m s = Some (s1, r)"
  obtains ev where "send_event_on_invalid_certificate m s = Some (s1\<lparr>sg_events := ev\<rparr>, r)"
proof (cases r)
  case (Inl e)
  then show thesis using that [of "sg_events s1"] that [of "sg_events s1 @ [EventInvalidCertificate w]" for w] assms
    by (cases e) (auto simp: send_event_on_invalid_certificate_def send_event_def op_run)
next
  case (Inr x)
  then show thesis using that [of "sg_events s1"] assms
    by (simp add: send_event_on_invalid_certificate_def op_run)
qed

lemma performs_match_event:
  assumes "performs env l m Q" shows "performs env l (send_event_on_invalid_certificate m) Q"
proof -
  obtain v where v: "runs env l m v" "\<And>x l'. v = Some (x, l') \<longleftrightarrow> Q x l'" using assms unfolding performs_def by blast
  have "runs env l (send_event_on_invalid_certificate m) v"
    unfolding runs_def
  proof (intro allI impI)
    fix s assume s: "store_rel env s l" "sg_present s"
    obtain s1 r where 1: "m s = Some (s1, r)" "cb_faults (sg_db s) = [] \<longrightarrow> cb_faults (sg_db s1) = []"
      "case r of Inr y \<Rightarrow> \<exists>l'. v = Some (y, l') \<and> store_rel env s1 l' \<and> sg_present s1
        | Inl _ \<Rightarrow> v = None \<or> cb_faults (sg_db s) \<noteq> []"
      using v(1) s unfolding runs_def by blast
    obtain ev where "send_event_on_invalid_certificate m s = Some (s1\<lparr>sg_events := ev\<rparr>, r)"
      using send_event_on_invalid_run [of m s, OF 1(1)] by blast
    with 1 show "\<exists>s' r. send_event_on_invalid_certificate m s = Some (s', r) \<and>
        (cb_faults (sg_db s) = [] \<longrightarrow> cb_faults (sg_db s') = []) \<and>
        (case r of Inr y \<Rightarrow> \<exists>l'. v = Some (y, l') \<and> store_rel env s' l' \<and> sg_present s'
         | Inl _ \<Rightarrow> v = None \<or> cb_faults (sg_db s) \<noteq> [])"
      by (auto split: sum.split_asm)
  qed
  then show ?thesis using v(2) by (rule performsI)
qed

text \<open>The four ways to insert a certificate and update the cache.\<close>

lemma performs_insert:
  assumes acc: "accepted env l signed c" and key: "key_ok (ce_local_symkey env)"
    and cache: "\<And>c0 ts. cache_ok env l c0 \<Longrightarrow> log_ok (ce_user_id env) l \<Longrightarrow>
      vc_per_topic_last_timestamps c0 = Present ts \<Longrightarrow> cache_ok env (l @ [c]) (f c0)"
    and present: "\<And>c0 ts. vc_per_topic_last_timestamps c0 = Present ts \<Longrightarrow> vc_per_topic_last_timestamps (f c0) \<noteq> Miss"
  shows "performs env l (internal (op_bind (insert_certificate env c signed) (\<lambda>_. update_cache f))) (\<lambda>_ l'. l' = l @ [c])"
proof (rule performsI [where v = "Some ((), l @ [c])"])
  have ok: "certif_ok (ce_user_id env) l c" using acc by (simp add: accepted_def)
  show "runs env l (internal (op_bind (insert_certificate env c signed) (\<lambda>_. update_cache f))) (Some ((), l @ [c]))"
    unfolding runs_def
  proof (intro allI impI)
    fix s assume s: "store_rel env s l" "sg_present s"
    then obtain ts where ts: "vc_per_topic_last_timestamps (sg_cache s) = Present ts"
      by (cases "vc_per_topic_last_timestamps (sg_cache s)") (auto simp: sg_present_def)
    let ?goal = "\<exists>s' r. internal (op_bind (insert_certificate env c signed) (\<lambda>_. update_cache f)) s = Some (s', r) \<and>
        (cb_faults (sg_db s) = [] \<longrightarrow> cb_faults (sg_db s') = []) \<and>
        (case r of Inr x \<Rightarrow> \<exists>l'. Some ((), l @ [c]) = Some (x, l') \<and> store_rel env s' l' \<and> sg_present s'
         | Inl _ \<Rightarrow> Some ((), l @ [c]) = None \<or> cb_faults (sg_db s) \<noteq> [])"
    show ?goal
    proof (cases rule: insert_certificate_spec [where s = s and env = env and c = c and signed = signed])
      case (fault rest)
      then show ?thesis by (simp add: internal_def op_run)
    next
      case (fine rest)
      let ?s' = "\<lparr>sg_db = \<lparr>cb_rows = cb_rows (sg_db s) @ [row_for env c signed], cb_faults = rest\<rparr>,
        sg_cache = f (sg_cache s), sg_events = sg_events s\<rparr>"
      have "store_rel env ?s' (l @ [c])"
        using s(1) rows_append [OF _ acc key] cache [OF _ _ ts] log_append [OF _ ok] by (auto simp: store_rel_def)
      moreover have "sg_present ?s'" using present [OF ts] by (simp add: sg_present_def)
      moreover have "internal (op_bind (insert_certificate env c signed) (\<lambda>_. update_cache f)) s = Some (?s', Inr ())"
        using fine(1) by (cases s) (simp add: internal_def update_cache_def op_run)
      ultimately show ?thesis using fine(2) by auto
    qed
  qed
qed auto

lemma performs_add_next:
  assumes acc: "accepted env l signed c" and key: "key_ok (ce_local_symkey env)"
  shows "certif_topic c = CommonTopic \<Longrightarrow>
      performs env l (internal (add_next_common_certificate env c signed)) (\<lambda>_ l'. l' = l @ [c])"
    "certif_topic c = RealmTopic r \<Longrightarrow>
      performs env l (internal (add_next_realm_x_certificate env c signed)) (\<lambda>_ l'. l' = l @ [c])"
    "certif_topic c = ShamirTopic \<Longrightarrow>
      performs env l (internal (add_next_shamir_recovery_certificate env c signed)) (\<lambda>_ l'. l' = l @ [c])"
    "certif_topic c = SequesterTopic \<Longrightarrow>
      performs env l (internal (add_next_sequester_certificate env c signed)) (\<lambda>_ l'. l' = l @ [c])"
proof -
  have ok: "certif_ok (ce_user_id env) l c" using acc by (simp add: accepted_def)
  show "performs env l (internal (add_next_common_certificate env c signed)) (\<lambda>_ l'. l' = l @ [c])"
    if t: "certif_topic c = CommonTopic"
    unfolding add_next_common_certificate_def
  proof (rule performs_insert [OF acc key cache_next_common_ok [OF _ _ t _ ok]])
    show "vc_per_topic_last_timestamps (cache_next_common env c c0) \<noteq> Miss"
      if "vc_per_topic_last_timestamps c0 = Present ts" for c0 ts
      using that t by (cases c) (simp_all add: Let_def)
  qed
  show "performs env l (internal (add_next_realm_x_certificate env c signed)) (\<lambda>_ l'. l' = l @ [c])"
    if t: "certif_topic c = RealmTopic r"
  proof -
    obtain b where b: "realm_certificate_parts c = (r, certif_timestamp c, b)" using t by (cases c) auto
    show ?thesis unfolding add_next_realm_x_certificate_def b Let_def prod.case
      by (rule performs_insert [OF acc key cache_next_realm_ok [OF _ _ t]]) (simp_all add: cache_next_realm_def Let_def)
  qed
  show "performs env l (internal (add_next_shamir_recovery_certificate env c signed)) (\<lambda>_ l'. l' = l @ [c])"
    if t: "certif_topic c = ShamirTopic"
    unfolding add_next_shamir_recovery_certificate_def
    by (rule performs_insert [OF acc key cache_next_shamir_ok [OF _ _ t]]) (simp_all add: cache_next_shamir_def)
  show "performs env l (internal (add_next_sequester_certificate env c signed)) (\<lambda>_ l'. l' = l @ [c])"
    if t: "certif_topic c = SequesterTopic"
    unfolding add_next_sequester_certificate_def
    by (rule performs_insert [OF acc key cache_next_sequester_ok [OF _ _ t]]) (simp_all add: cache_next_sequester_def)
qed

subsection \<open>The batch\<close>

text \<open>The log that a list of signed certificates of one kind leads to.\<close>

fun extends :: "certif_env \<Rightarrow> (any_certificate \<Rightarrow> bool) \<Rightarrow> certif_log \<Rightarrow> byte list list \<Rightarrow> certif_log \<Rightarrow> bool" where
  "extends env P l [] l' \<longleftrightarrow> l' = l"
| "extends env P l (signed # rest) l' \<longleftrightarrow> (\<exists>c. P c \<and> accepted env l signed c \<and> extends env P (l @ [c]) rest l')"

text \<open>
  What the batch relies on for each topic: the validation decides whether a certificate of the topic is
  accepted, and the insertion of an accepted one extends the log.
\<close>

locale topic_writer =
  fixes P :: "any_certificate \<Rightarrow> bool"
    and validate :: "certif_env \<Rightarrow> byte list \<Rightarrow> any_certificate add_op"
    and add_next :: "certif_env \<Rightarrow> any_certificate \<Rightarrow> byte list \<Rightarrow> (anyhow, unit) store_op"
  assumes validates: "log_ok (ce_user_id env) l \<Longrightarrow> decides env l P signed (validate env signed)"
    and adds: "accepted env l signed c \<Longrightarrow> key_ok (ce_local_symkey env) \<Longrightarrow> P c \<Longrightarrow>
      performs env l (internal (add_next env c signed)) (\<lambda>_ l'. l' = l @ [c])"
begin

lemma performs_validate:
  "log_ok (ce_user_id env) l \<Longrightarrow> performs env l (send_event_on_invalid_certificate (validate env signed))
     (\<lambda>c l'. (P c \<and> accepted env l signed c) \<and> l' = l)"
  by (rule performs_match_event [OF performs_decides [OF validates]])

lemma performs_all:
  assumes key: "key_ok (ce_local_symkey env)" and log: "log_ok (ce_user_id env) l"
  shows "performs env l (add_certificates (validate env) (add_next env) signeds n)
     (\<lambda>m l'. extends env P l signeds l' \<and> m = n + length signeds)"
  using log
proof (induction signeds arbitrary: l n)
  case Nil
  show ?case by (auto intro: performs_cong [OF performs_return])
next
  case (Cons signed rest)
  have tail: "performs env l (op_bind (internal (add_next env c signed)) (\<lambda>_. add_certificates (validate env) (add_next env) rest (n + 1)))
      (\<lambda>m l'. extends env P (l @ [c]) rest l' \<and> m = n + length (signed # rest))"
    if c: "P c" "accepted env l signed c" for c
  proof -
    have "log_ok (ce_user_id env) (l @ [c])" using Cons.prems c by (auto simp: accepted_def intro: log_append)
    from performs_bind [OF adds [OF c(2) key c(1)], where R = "\<lambda>_ _. \<lambda>m l'. extends env P (l @ [c]) rest l' \<and> m = n + 1 + length rest"]
      Cons.IH [OF this, of "n + 1"]
    show ?thesis by (auto elim!: performs_cong)
  qed
  show ?case unfolding add_certificates.simps
    by (rule performs_cong [OF performs_bind [OF performs_validate [OF Cons.prems], where R = "\<lambda>c _ m l'.
        extends env P (l @ [c]) rest l' \<and> m = n + length (signed # rest)"]]) (use tail in auto)
qed

end

interpretation common_topic: topic_writer "\<lambda>c. certif_topic c = CommonTopic" validate_common_certificate add_next_common_certificate
  by unfold_locales (rule decides_common, rule performs_add_next(1))

interpretation sequester_topic: topic_writer "\<lambda>c. certif_topic c = SequesterTopic" validate_sequester_certificate add_next_sequester_certificate
  by unfold_locales (rule decides_sequester, assumption, rule performs_add_next(4))

interpretation shamir_topic: topic_writer "\<lambda>c. certif_topic c = ShamirTopic" validate_shamir_recovery_certificate
    add_next_shamir_recovery_certificate
  by unfold_locales (rule decides_shamir, rule performs_add_next(3))

interpretation realm_topic: topic_writer "\<lambda>c. certif_topic c = RealmTopic r" "\<lambda>env. validate_realm_certificate env r"
    add_next_realm_x_certificate for r
  by unfold_locales (rule decides_realm, rule performs_add_next(2))

text \<open>The realms of a batch, one after the other.\<close>

fun realms_extend :: "certif_env \<Rightarrow> certif_log \<Rightarrow> (vlob_id \<times> byte list list) list \<Rightarrow> certif_log \<Rightarrow> bool" where
  "realms_extend env l [] l' \<longleftrightarrow> l' = l"
| "realms_extend env l ((r, signeds) # rest) l' \<longleftrightarrow>
     (\<exists>l1. extends env (\<lambda>c. certif_topic c = RealmTopic r) l signeds l1 \<and> realms_extend env l1 rest l')"

text \<open>
  The shamir recovery certificates: a brief whose recipients include our user must be followed by the
  share of our user. \<open>e\<close> and \<open>e'\<close> are the briefs whose share is awaited before and after.
\<close>

fun awaits :: "user_id \<Rightarrow> shamir_recovery_brief_certificate option \<Rightarrow> any_certificate \<Rightarrow>
   shamir_recovery_brief_certificate option option" where
  "awaits self None (CShamirBrief b) = Some (if self \<in> fst ` set (sb_per_recipient_shares b) then Some b else None)"
| "awaits self None c = Some None"
| "awaits self (Some b) (CShamirShare s) = Some None"
| "awaits self (Some b) c = None"

fun shamir_extends :: "certif_env \<Rightarrow> shamir_recovery_brief_certificate option \<Rightarrow> certif_log \<Rightarrow> byte list list \<Rightarrow>
   shamir_recovery_brief_certificate option \<Rightarrow> certif_log \<Rightarrow> bool" where
  "shamir_extends env e l [] e' l' \<longleftrightarrow> e' = e \<and> l' = l"
| "shamir_extends env e l (signed # rest) e' l' \<longleftrightarrow>
     (\<exists>c e1. certif_topic c = ShamirTopic \<and> accepted env l signed c \<and> awaits (ce_user_id env) e c = Some e1
        \<and> shamir_extends env e1 (l @ [c]) rest e' l')"

lemma extends_log_ok: "extends env P l signeds l' \<Longrightarrow> log_ok (ce_user_id env) l \<Longrightarrow> log_ok (ce_user_id env) l'"
  by (induction signeds arbitrary: l) (auto simp: accepted_def intro: log_append)

lemma performs_realms:
  assumes key: "key_ok (ce_local_symkey env)" and log: "log_ok (ce_user_id env) l"
  shows "performs env l (add_realms_certificates env realms n)
    (\<lambda>m l'. realms_extend env l realms l' \<and> m = n + sum_list (map (\<lambda>(r, signeds). length signeds) realms))"
  using log
proof (induction realms arbitrary: l n)
  case Nil
  show ?case by (auto intro: performs_cong [OF performs_return])
next
  case (Cons realm rest)
  obtain r signeds where realm: "realm = (r, signeds)" by (cases realm)
  let ?P = "\<lambda>c. certif_topic c = RealmTopic r"
  have first: "performs env l (add_certificates (validate_realm_certificate env r) (add_next_realm_x_certificate env) signeds n)
      (\<lambda>m l'. extends env ?P l signeds l' \<and> m = n + length signeds)"
    by (rule realm_topic.performs_all [OF key Cons.prems])
  have "performs env l (add_realms_certificates env (realm # rest) n) (\<lambda>m l'. \<exists>n1 l1. (extends env ?P l signeds l1 \<and> n1 = n + length signeds) \<and>
      realms_extend env l1 rest l' \<and> m = n1 + sum_list (map (\<lambda>(r, signeds). length signeds) rest))"
    unfolding realm add_realms_certificates.simps
    by (rule performs_bind [OF first]) (use Cons.IH extends_log_ok [OF _ Cons.prems] in blast)
  then show ?case unfolding realm by (rule performs_cong) auto
qed

lemma performs_next_expect:
  assumes "accepted env l signed c" "certif_topic c = ShamirTopic"
  shows "performs env l (next_shamir_expect env e c) (\<lambda>e' l'. awaits (ce_user_id env) e c = Some e' \<and> l' = l)"
proof (cases "awaits (ce_user_id env) e c")
  case None
  then have "next_shamir_expect env e c = op_throw (InvalidCertificate (ShamirRecoveryMissingShare (ce_user_id env)))"
    using assms(2) by (cases e; cases c) (simp_all add: next_shamir_expect_def invalid_def)
  then show ?thesis using None performs_throw by simp
next
  case (Some e1)
  have "ss_recipient x = ce_user_id env" if "c = CShamirShare x" for x
    using assms(1) that by (auto simp: accepted_def)
  then have "next_shamir_expect env e c = op_return e1"
    using assms(2) Some by (cases e; cases c) (auto simp: next_shamir_expect_def contains_key_iff)
  then show ?thesis using Some by (auto intro: performs_cong [OF performs_return])
qed

lemma performs_shamir:
  assumes key: "key_ok (ce_local_symkey env)" and log: "log_ok (ce_user_id env) l"
  shows "performs env l (add_shamir_certificates env e signeds n)
    (\<lambda>(e', m) l'. shamir_extends env e l signeds e' l' \<and> m = n + length signeds)"
  using log
proof (induction signeds arbitrary: l e n)
  case Nil
  show ?case by (auto intro: performs_cong [OF performs_return])
next
  case (Cons signed rest)
  have tail: "performs env l (op_bind (next_shamir_expect env e c) (\<lambda>expect_next_certif.
     op_bind (internal (add_next_shamir_recovery_certificate env c signed)) (\<lambda>_.
     add_shamir_certificates env expect_next_certif rest (n + 1))))
     (\<lambda>(e', m) l'. \<exists>e1. awaits (ce_user_id env) e c = Some e1 \<and> shamir_extends env e1 (l @ [c]) rest e' l'
        \<and> m = n + length (signed # rest))"
    if c: "certif_topic c = ShamirTopic" "accepted env l signed c" for c
  proof -
    have "log_ok (ce_user_id env) (l @ [c])" using Cons.prems c by (auto simp: accepted_def intro: log_append)
    note IH = Cons.IH [OF this]
    have "performs env l (op_bind (internal (add_next_shamir_recovery_certificate env c signed)) (\<lambda>_.
        add_shamir_certificates env e1 rest (n + 1)))
       (\<lambda>(e', m) l'. shamir_extends env e1 (l @ [c]) rest e' l' \<and> m = n + length (signed # rest))" for e1
      by (rule performs_cong [OF performs_bind [OF shamir_topic.adds [OF c(2) key c(1)], where R = "\<lambda>_ _. \<lambda>(e', m) l'.
          shamir_extends env e1 (l @ [c]) rest e' l' \<and> m = n + 1 + length rest"]]) (use IH [of e1 "n + 1"] in auto)
    then show ?thesis
      by (intro performs_cong [OF performs_bind [OF performs_next_expect [OF c(2,1)], where R = "\<lambda>e1 _. \<lambda>(e', m) l'.
          shamir_extends env e1 (l @ [c]) rest e' l' \<and> m = n + length (signed # rest)"]]) auto
  qed
  show ?case unfolding add_shamir_certificates.simps
    by (rule performs_cong [OF performs_bind [OF shamir_topic.performs_validate [OF Cons.prems], where R = "\<lambda>c _. \<lambda>(e', m) l'.
        \<exists>e1. awaits (ce_user_id env) e c = Some e1 \<and> shamir_extends env e1 (l @ [c]) rest e' l'
          \<and> m = n + length (signed # rest)"]]) (use tail in auto)
qed

text \<open>The log that a whole batch leads to.\<close>

definition batch_extends ::
  "certif_env \<Rightarrow> certif_log \<Rightarrow> byte list list \<Rightarrow> byte list list \<Rightarrow> byte list list \<Rightarrow> (vlob_id \<times> byte list list) list \<Rightarrow>
   certif_log \<Rightarrow> bool" where
  "batch_extends env l common sequester shamir realms l' \<longleftrightarrow>
     (\<exists>l1 l2 l3. extends env (\<lambda>c. certif_topic c = SequesterTopic) l sequester l1 \<and>
        extends env (\<lambda>c. certif_topic c = CommonTopic) l1 common l2 \<and>
        realms_extend env l2 realms l3 \<and> shamir_extends env None l3 shamir None l')"

definition batch_size :: "byte list list \<Rightarrow> byte list list \<Rightarrow> byte list list \<Rightarrow> (vlob_id \<times> byte list list) list \<Rightarrow> nat" where
  "batch_size common sequester shamir realms =
     length sequester + length common + sum_list (map (\<lambda>(r, signeds). length signeds) realms) + length shamir"

definition add_all ::
  "certif_env \<Rightarrow> byte list list \<Rightarrow> byte list list \<Rightarrow> byte list list \<Rightarrow> (vlob_id \<times> byte list list) list \<Rightarrow> nat add_op" where
  "add_all env common sequester shamir realms =
     op_bind (add_certificates (validate_sequester_certificate env) (add_next_sequester_certificate env) sequester 0) (\<lambda>n.
     op_bind (add_certificates (validate_common_certificate env) (add_next_common_certificate env) common n) (\<lambda>n.
     op_bind (add_realms_certificates env realms n) (\<lambda>n.
     op_bind (add_shamir_certificates env None shamir n) (\<lambda>(e, n).
     op_bind (require (e = None) (ShamirRecoveryMissingShare (ce_user_id env))) (\<lambda>_. op_return n)))))"

lemma realms_extend_log_ok:
  "realms_extend env l realms l' \<Longrightarrow> log_ok (ce_user_id env) l \<Longrightarrow> log_ok (ce_user_id env) l'"
  by (induction env l realms l' rule: realms_extend.induct) (auto dest: extends_log_ok)

lemma performs_require: "performs env l (require b what) (\<lambda>_ l'. b \<and> l' = l)"
  by (cases b) (auto simp: invalid_def intro: performs_cong [OF performs_return] performs_cong [OF performs_throw])

lemma performs_add_all:
  assumes key: "key_ok (ce_local_symkey env)" and log: "log_ok (ce_user_id env) l"
  shows "performs env l (add_all env common sequester shamir realms)
    (\<lambda>n l'. batch_extends env l common sequester shamir realms l' \<and> n = batch_size common sequester shamir realms)"
proof -
  let ?S = "\<lambda>c. certif_topic c = SequesterTopic" and ?C = "\<lambda>c. certif_topic c = CommonTopic"
  let ?realms = "sum_list (map (\<lambda>(r, signeds). length signeds) realms)"
  have finish: "performs env l3 (op_bind (add_shamir_certificates env None shamir n) (\<lambda>(e, n).
      op_bind (require (e = None) (ShamirRecoveryMissingShare (ce_user_id env))) (\<lambda>_. op_return n)))
     (\<lambda>m l'. shamir_extends env None l3 shamir None l' \<and> m = n + length shamir)" if log3: "log_ok (ce_user_id env) l3" for l3 n
    by (rule performs_cong [OF performs_bind [OF performs_shamir [OF key log3], where R = "\<lambda>(e, n) l1 m l'. e = None \<and> m = n \<and> l' = l1"]])
      (auto intro!: performs_cong [OF performs_bind [OF performs_require performs_return]])
  have third: "performs env l2 (op_bind (add_realms_certificates env realms n) (\<lambda>n.
      op_bind (add_shamir_certificates env None shamir n) (\<lambda>(e, n).
      op_bind (require (e = None) (ShamirRecoveryMissingShare (ce_user_id env))) (\<lambda>_. op_return n))))
     (\<lambda>m l'. \<exists>l3. realms_extend env l2 realms l3 \<and> shamir_extends env None l3 shamir None l' \<and> m = n + ?realms + length shamir)"
    if "log_ok (ce_user_id env) l2" for l2 n
    by (rule performs_cong [OF performs_bind [OF performs_realms [OF key that], where R = "\<lambda>n l3 m l'.
        shamir_extends env None l3 shamir None l' \<and> m = n + length shamir"]])
      (use finish realms_extend_log_ok [OF _ that] in auto)
  have second: "performs env l1 (op_bind (add_certificates (validate_common_certificate env) (add_next_common_certificate env) common n) (\<lambda>n.
      op_bind (add_realms_certificates env realms n) (\<lambda>n.
      op_bind (add_shamir_certificates env None shamir n) (\<lambda>(e, n).
      op_bind (require (e = None) (ShamirRecoveryMissingShare (ce_user_id env))) (\<lambda>_. op_return n)))))
     (\<lambda>m l'. \<exists>l2 l3. extends env ?C l1 common l2 \<and> realms_extend env l2 realms l3 \<and> shamir_extends env None l3 shamir None l'
        \<and> m = n + length common + ?realms + length shamir)"
    if log1: "log_ok (ce_user_id env) l1" for l1 n
  proof -
    note common = common_topic.performs_all [OF key log1, where signeds = common and n = n]
    show ?thesis
      by (rule performs_cong [OF performs_bind [OF common, where R = "\<lambda>n1 l2 m l'. \<exists>l3. realms_extend env l2 realms l3 \<and>
          shamir_extends env None l3 shamir None l' \<and> m = n1 + ?realms + length shamir"]])
        (use third extends_log_ok [OF _ log1] in auto)
  qed
  note sequester = sequester_topic.performs_all [OF key log, where signeds = sequester and n = 0]
  show ?thesis unfolding add_all_def
    by (rule performs_cong [OF performs_bind [OF sequester, where R = "\<lambda>n l1 m l'. \<exists>l2 l3. extends env ?C l1 common l2 \<and>
        realms_extend env l2 realms l3 \<and> shamir_extends env None l3 shamir None l' \<and> m = n + length common + ?realms + length shamir"]])
      (use second extends_log_ok [OF _ log] in \<open>auto simp: batch_extends_def batch_size_def\<close>)
qed

lemma reads_self_profile:
  "reads env Anyhow l (get_current_self_profile env) (\<lambda>r. \<exists>p. r = Inr p \<and> self_profile_of env l p)"
  unfolding get_current_self_profile_def
proof (rule reads_bind [OF reads_read_cache])
  fix x assume "\<exists>c. (Inr x :: anyhow + _) = Inr (vc_self_profile c) \<and> cache_ok env l c"
  then obtain c where c: "x = vc_self_profile c" "cache_ok env l c" by blast
  let ?p = "case Option.bind (latest (is_update (ce_user_id env)) UpToCurrent l) as_user_update of
      Some update \<Rightarrow> up_new_profile update | None \<Rightarrow> ce_initial_profile env"
  have p: "self_profile_of env l ?p" by (auto simp: self_profile_of_def split: option.split)
  show "reads env Anyhow l (case x of
       Present self_profile \<Rightarrow> op_return self_profile
     | Miss \<Rightarrow>
         op_bind (get_last_user_update_certificate env UpToCurrent (ce_user_id env)) (\<lambda>maybe_update.
         let self_profile = (case maybe_update of Some update \<Rightarrow> up_new_profile update
                             | None \<Rightarrow> ce_initial_profile env)
         in op_bind (update_cache (\<lambda>c. c\<lparr>vc_self_profile := Present self_profile\<rparr>)) (\<lambda>_.
            op_return self_profile))) (\<lambda>r. \<exists>p. r = Inr p \<and> self_profile_of env l p)"
  proof (cases x)
    case (Present q)
    with c have "self_profile_of env l q" by (simp add: cache_ok_def)
    with Present show ?thesis by (auto intro: reads_mono [OF reads_return])
  next
    case Miss
    have upd: "reads env Anyhow l (op_bind (update_cache (\<lambda>c. c\<lparr>vc_self_profile := Present ?p\<rparr>)) (\<lambda>_. op_return ?p))
        (\<lambda>r. \<exists>p. r = Inr p \<and> self_profile_of env l p)"
      by (rule reads_bind [OF reads_update_cache]) (use p in \<open>auto simp: cache_ok_def intro: reads_mono [OF reads_return]\<close>)
    show ?thesis unfolding Miss scalar_cache.case
      by (rule returns_bind [OF reads_user_update]) (use upd in \<open>simp add: Let_def\<close>)
  qed
qed blast

lemma last_timestamps_present:
  assumes "get_last_timestamps s = Some (s', Inr ts)" shows "sg_present s'"
  using assms
  by (auto simp: get_last_timestamps_def read_cache_def update_cache_def sg_present_def op_run
    split: scalar_cache.split_asm option.split_asm prod.split_asm sum.split_asm)

text \<open>After the certificates: switch the view, or announce the new certificates.\<close>

definition switch_or_announce ::
  "certif_env \<Rightarrow> bool \<Rightarrow> user_profile \<Rightarrow> certif_event \<Rightarrow> nat \<Rightarrow> maybe_redacted_switch add_op" where
  "switch_or_announce env initially_empty initial_profile event n =
     op_bind (if \<not> initially_empty
              then op_bind (internal (get_current_self_profile env)) (\<lambda>new_self_profile.
                   op_return ((initial_profile = Outsider) \<noteq> (new_self_profile = Outsider)))
              else op_return False) (\<lambda>redacted_switch.
     if redacted_switch
     then op_bind (internal forget_all_certificates) (\<lambda>_. op_return Switched)
     else op_bind (send_event event) (\<lambda>_. op_return (NoSwitch n)))"

lemma internal_run:
  "m s = Some (s', r) \<Longrightarrow> internal m s = Some (s', case r of Inl _ \<Rightarrow> Inl BatchInternal | Inr x \<Rightarrow> Inr x)"
  by (auto simp: internal_def op_run split: sum.split)

lemma forget_spec:
  obtains (fault) rest where "cb_faults (sg_db s) = True # rest"
      "forget_all_certificates s = Some (s\<lparr>sg_db := (sg_db s)\<lparr>cb_faults := rest\<rparr>\<rparr>, Inl Anyhow)"
  | (fine) rest where "forget_all_certificates s =
        Some (s\<lparr>sg_db := \<lparr>cb_rows = [], cb_faults = rest\<rparr>, sg_cache := cache_clear\<rparr>, Inr ())"
      "cb_faults (sg_db s) = [] \<Longrightarrow> rest = []"
proof (cases rule: sql_statement_cases [where db = "sg_db s" and err = Anyhow and f = "\<lambda>_. [] :: certif_row list"])
  case (fault rest)
  then show thesis using that(1)
    by (simp add: forget_all_certificates_def on_db_def db_forget_all_certificates_def sql_execute_def op_run)
next
  case (fine rest)
  then show thesis using that(2) [of rest]
    by (cases "sg_db s")
      (simp add: forget_all_certificates_def on_db_def db_forget_all_certificates_def sql_execute_def update_cache_def op_run)
qed

lemma store_rel_empty: "cb_rows (sg_db s) = [] \<Longrightarrow> sg_cache s = cache_clear \<Longrightarrow> store_rel env s []"
  by (simp add: store_rel_def rows_ok_def cache_ok_def cache_clear_def log_empty)

lemma switch_spec:
  assumes "store_rel env s l"
  obtains s' r where "switch_or_announce env initially_empty p0 event n s = Some (s', r)"
    "cb_faults (sg_db s) = [] \<longrightarrow> cb_faults (sg_db s') = []"
    "r = Inr (NoSwitch n) \<and> store_rel env s' l \<and>
       (initially_empty \<or> (\<exists>p. self_profile_of env l p \<and> (p0 = Outsider) = (p = Outsider))) \<or>
     r = Inr Switched \<and> store_rel env s' [] \<and> \<not> initially_empty \<and>
       (\<exists>p. self_profile_of env l p \<and> (p0 = Outsider) \<noteq> (p = Outsider)) \<or>
     (\<exists>e. r = Inl e) \<and> cb_faults (sg_db s) \<noteq> []"
proof (cases initially_empty)
  case True
  then show thesis using that assms
    by (simp add: switch_or_announce_def send_event_def op_run)
next
  case False
  obtain s1 r1 where 1: "get_current_self_profile env s = Some (s1, r1)" "keeps s s1" "store_rel env s1 l"
    "(\<exists>p. r1 = Inr p \<and> self_profile_of env l p) \<or> r1 = Inl Anyhow \<and> cb_faults (sg_db s) \<noteq> []"
    using readsE [OF reads_self_profile assms] .
  note run1 = internal_run [where m = "get_current_self_profile env", OF 1(1)]
  show thesis
  proof (cases r1)
    case (Inl e)
    then show thesis using that [of s1 "Inl BatchInternal"] run1 1(2,4) False by (simp add: switch_or_announce_def op_run keeps_def)
  next
    case (Inr p)
    then have p: "self_profile_of env l p" using 1(4) by simp
    show thesis
    proof (cases "(p0 = Outsider) = (p = Outsider)")
      case True
      then show thesis using that [of "s1\<lparr>sg_events := sg_events s1 @ [event]\<rparr>" "Inr (NoSwitch n)"] run1 Inr 1(2,3) p False
        by (auto simp: switch_or_announce_def send_event_def op_run keeps_def)
    next
      case switch: False
      show thesis
      proof (cases rule: forget_spec [of s1])
        case (fault rest)
        then have "cb_faults (sg_db s) \<noteq> []" using 1(2) by (auto simp: keeps_def)
        then show thesis using that [of "s1\<lparr>sg_db := (sg_db s1)\<lparr>cb_faults := rest\<rparr>\<rparr>" "Inl BatchInternal"]
            run1 Inr internal_run [where m = forget_all_certificates, OF fault(2)] False switch
          by (simp add: switch_or_announce_def op_run)
      next
        case (fine rest)
        let ?s' = "s1\<lparr>sg_db := \<lparr>cb_rows = [], cb_faults = rest\<rparr>, sg_cache := cache_clear\<rparr>"
        have "store_rel env ?s' []" by (rule store_rel_empty) simp_all
        moreover have "cb_faults (sg_db s) = [] \<longrightarrow> rest = []" using fine(2) 1(2) by (auto simp: keeps_def)
        ultimately show thesis using that [of ?s' "Inr Switched"] run1 Inr internal_run [where m = forget_all_certificates, OF fine(1)] False switch p
          by (auto simp: switch_or_announce_def op_run)
      qed
    qed
  qed
qed

lemma batch_decompose:
  "add_certificates_batch env common sequester shamir realms =
     (if common = [] \<and> sequester = [] \<and> shamir = [] \<and> realms = [] then op_return (NoSwitch 0)
      else op_bind (internal get_last_timestamps) (\<lambda>ts.
           op_bind (internal (get_current_self_profile env)) (\<lambda>p0.
           op_bind (add_all env common sequester shamir realms) (\<lambda>n.
           switch_or_announce env (pt_is_empty ts) p0 (EventNewCertificates (pt_is_empty ts)
             (if common = [] then None else pt_common ts)
             (if sequester = [] then None else pt_sequester ts)
             (if shamir = [] then None else pt_shamir_recovery ts)
             (List.map_filter (\<lambda>(realm_id, _). map_option (\<lambda>t. (realm_id, t)) (hm_get (pt_realm ts) realm_id)) realms)) n))))"
  unfolding add_certificates_batch_def add_all_def switch_or_announce_def Let_def
  by (simp add: case_prod_unfold)

text \<open>What a batch does to a store with log \<open>l\<close>.\<close>

definition batch_outcome ::
  "certif_env \<Rightarrow> certif_log \<Rightarrow> byte list list \<Rightarrow> byte list list \<Rightarrow> byte list list \<Rightarrow> (vlob_id \<times> byte list list) list \<Rightarrow>
   store_guard \<Rightarrow> batch_error + maybe_redacted_switch \<Rightarrow> bool" where
  "batch_outcome env l common sequester shamir realms s' r \<longleftrightarrow>
     (case r of
        Inr (NoSwitch n) \<Rightarrow>
          (\<exists>l'. batch_extends env l common sequester shamir realms l' \<and> store_rel env s' l'
             \<and> n = batch_size common sequester shamir realms)
      | Inr Switched \<Rightarrow>
          (\<exists>l' p p'. batch_extends env l common sequester shamir realms l' \<and> l \<noteq> [] \<and> store_rel env s' []
             \<and> self_profile_of env l p \<and> self_profile_of env l' p' \<and> (p = Outsider) \<noteq> (p' = Outsider))
      | Inl _ \<Rightarrow> \<not> (\<exists>l'. batch_extends env l common sequester shamir realms l'))"

lemma batch_spec:
  assumes s: "store_rel env s l" and key: "key_ok (ce_local_symkey env)"
  shows "\<exists>s' r. add_certificates_batch env common sequester shamir realms s = Some (s', r) \<and>
    (cb_faults (sg_db s) = [] \<longrightarrow> cb_faults (sg_db s') = []) \<and>
    (batch_outcome env l common sequester shamir realms s' r \<or> (\<exists>e. r = Inl e) \<and> cb_faults (sg_db s) \<noteq> [])"
proof (cases "common = [] \<and> sequester = [] \<and> shamir = [] \<and> realms = []")
  case True
  then have "batch_extends env l common sequester shamir realms l"
    by (simp add: batch_extends_def)
  with True s show ?thesis
    by (auto simp: add_certificates_batch_def batch_outcome_def batch_size_def op_return_def)
next
  case False
  have log: "log_ok (ce_user_id env) l" using s by (simp add: store_rel_def)
  let ?event = "\<lambda>ts. EventNewCertificates (pt_is_empty ts)
             (if common = [] then None else pt_common ts)
             (if sequester = [] then None else pt_sequester ts)
             (if shamir = [] then None else pt_shamir_recovery ts)
             (List.map_filter (\<lambda>(realm_id, _). map_option (\<lambda>t. (realm_id, t)) (hm_get (pt_realm ts) realm_id)) realms)"
  obtain s1 r1 where 1: "get_last_timestamps s = Some (s1, r1)" "keeps s s1" "store_rel env s1 l"
    "(\<exists>ts. r1 = Inr ts \<and> timestamps_of ts l) \<or> r1 = Inl Anyhow \<and> cb_faults (sg_db s) \<noteq> []"
    using readsE [OF reads_last_timestamps s] .
  note run1 = internal_run [where m = get_last_timestamps, OF 1(1)]
  show ?thesis
  proof (cases r1)
    case (Inl e)
    then show ?thesis unfolding batch_decompose if_not_P [OF False] using run1 1(2,4) by (simp add: op_run keeps_def)
  next
    case (Inr ts)
    then have ts: "timestamps_of ts l" "sg_present s1" using 1 last_timestamps_present by auto
    obtain s2 r2 where 2: "get_current_self_profile env s1 = Some (s2, r2)" "keeps s1 s2" "store_rel env s2 l"
      "(\<exists>p. r2 = Inr p \<and> self_profile_of env l p) \<or> r2 = Inl Anyhow \<and> cb_faults (sg_db s1) \<noteq> []"
      using readsE [OF reads_self_profile 1(3)] .
    note run2 = internal_run [where m = "get_current_self_profile env", OF 2(1)]
    have k: "cb_faults (sg_db s) = [] \<Longrightarrow> cb_faults (sg_db s2) = []" "sg_present s2"
      using 1(2) 2(2) ts(2) by (auto simp: keeps_def)
    show ?thesis
    proof (cases r2)
      case (Inl e)
      moreover have "cb_faults (sg_db s) \<noteq> []" using 2(4) Inl 1(2) by (auto simp: keeps_def)
      ultimately show ?thesis unfolding batch_decompose if_not_P [OF False] using run1 run2 \<open>r1 = Inr ts\<close> by (simp add: op_run)
    next
      case (Inr p0)
      then have p0: "self_profile_of env l p0" using 2(4) by simp
      obtain v where v: "runs env l (add_all env common sequester shamir realms) v"
        "\<And>n l'. v = Some (n, l') \<longleftrightarrow> batch_extends env l common sequester shamir realms l' \<and> n = batch_size common sequester shamir realms"
        using performs_add_all [OF key log] unfolding performs_def by blast
      obtain s3 r3 where 3: "add_all env common sequester shamir realms s2 = Some (s3, r3)"
        "cb_faults (sg_db s2) = [] \<longrightarrow> cb_faults (sg_db s3) = []"
        "case r3 of Inr x \<Rightarrow> \<exists>l'. v = Some (x, l') \<and> store_rel env s3 l' \<and> sg_present s3
         | Inl _ \<Rightarrow> v = None \<or> cb_faults (sg_db s2) \<noteq> []"
        using v(1) 2(3) k(2) unfolding runs_def by blast
      show ?thesis
      proof (cases r3)
        case (Inl e)
        then have "v = None \<or> cb_faults (sg_db s) \<noteq> []" using 3(3) k(1) by auto
        then have "batch_outcome env l common sequester shamir realms s3 (Inl e) \<or> cb_faults (sg_db s) \<noteq> []"
          using v(2) by (auto simp: batch_outcome_def)
        then show ?thesis unfolding batch_decompose if_not_P [OF False]
          using run1 run2 3(1,2) k(1) \<open>r1 = Inr ts\<close> \<open>r2 = Inr p0\<close> Inl by (auto simp: op_run)
      next
        case (Inr n)
        then obtain l' where l': "batch_extends env l common sequester shamir realms l'" "n = batch_size common sequester shamir realms"
          "store_rel env s3 l'" using 3(3) v(2) by auto
        obtain s4 r4 where 4: "switch_or_announce env (pt_is_empty ts) p0 (?event ts) n s3 = Some (s4, r4)"
          "cb_faults (sg_db s3) = [] \<longrightarrow> cb_faults (sg_db s4) = []"
          "r4 = Inr (NoSwitch n) \<and> store_rel env s4 l' \<and>
             (pt_is_empty ts \<or> (\<exists>p. self_profile_of env l' p \<and> (p0 = Outsider) = (p = Outsider))) \<or>
           r4 = Inr Switched \<and> store_rel env s4 [] \<and> \<not> pt_is_empty ts \<and>
             (\<exists>p. self_profile_of env l' p \<and> (p0 = Outsider) \<noteq> (p = Outsider)) \<or>
           (\<exists>e. r4 = Inl e) \<and> cb_faults (sg_db s3) \<noteq> []"
          by (rule switch_spec [OF l'(3), of "pt_is_empty ts" p0 "?event ts" n])
        consider (no) "r4 = Inr (NoSwitch n)" "store_rel env s4 l'"
          | (yes) p where "r4 = Inr Switched" "store_rel env s4 []" "\<not> pt_is_empty ts" "self_profile_of env l' p"
            "(p0 = Outsider) \<noteq> (p = Outsider)"
          | (err) e where "r4 = Inl e" "cb_faults (sg_db s3) \<noteq> []" using 4(3) by blast
        then have "batch_outcome env l common sequester shamir realms s4 r4 \<or> (\<exists>e. r4 = Inl e) \<and> cb_faults (sg_db s) \<noteq> []"
        proof cases
          case no
          then have "batch_outcome env l common sequester shamir realms s4 r4" using l' by (auto simp: batch_outcome_def)
          then show ?thesis ..
        next
          case yes
          then have "l \<noteq> []" using timestamps_emptyI [OF ts(1)] by simp
          with yes l'(1) p0 have "batch_outcome env l common sequester shamir realms s4 r4"
            unfolding batch_outcome_def yes(1) sum.case maybe_redacted_switch.case by blast
          then show ?thesis ..
        next
          case err
          then have "cb_faults (sg_db s) \<noteq> []" using k(1) 3(2) by auto
          with err(1) show ?thesis by blast
        qed
        moreover have "add_certificates_batch env common sequester shamir realms s = Some (s4, r4)"
          unfolding batch_decompose if_not_P [OF False]
          using run1 run2 3(1) 4(1) \<open>r1 = Inr ts\<close> \<open>r2 = Inr p0\<close> Inr by (simp add: op_run)
        moreover have "cb_faults (sg_db s) = [] \<longrightarrow> cb_faults (sg_db s4) = []" using k(1) 3(2) 4(2) by blast
        ultimately show ?thesis by blast
      qed
    qed
  qed
qed

subsection \<open>Writing through the store\<close>

definition guard_of :: "certificates_store \<Rightarrow> certif_db \<Rightarrow> store_guard" where
  "guard_of cs db = \<lparr>sg_db = db, sg_cache = cs_cache cs, sg_events = cs_events cs\<rparr>"

definition holds :: "certif_env \<Rightarrow> certificates_store \<Rightarrow> certif_log \<Rightarrow> bool" where
  "holds env cs l \<longleftrightarrow> (\<exists>db. cs_storage cs = Some db \<and> store_rel env (guard_of cs db) l)"

lemma guard_of_sel [simp]:
  "sg_db (guard_of cs db) = db" "sg_cache (guard_of cs db) = cs_cache cs" "sg_events (guard_of cs db) = cs_events cs"
  by (simp_all add: guard_of_def)

lemma db_statement_cases:
  obtains (fault) rest where "cb_faults (sg_db s) = True # rest"
      "db_statement s = Some (s\<lparr>sg_db := (sg_db s)\<lparr>cb_faults := rest\<rparr>\<rparr>, Inl Anyhow)"
  | (fine) rest where "db_statement s = Some (s\<lparr>sg_db := (sg_db s)\<lparr>cb_faults := rest\<rparr>\<rparr>, Inr ())"
      "cb_faults (sg_db s) = [] \<Longrightarrow> rest = []"
proof (cases rule: sql_statement_cases [where db = "sg_db s" and err = Anyhow and f = "\<lambda>_. ()"])
  case (fault rest)
  then show thesis using that(1) by (simp add: db_statement_def on_db_def)
next
  case (fine rest)
  then show thesis using that(2) [of rest] by (simp add: db_statement_def on_db_def)
qed

lemma store_rel_faults [simp]:
  "store_rel env (s\<lparr>sg_db := (sg_db s)\<lparr>cb_faults := f\<rparr>\<rparr>) l = store_rel env s l"
  by (simp add: store_rel_def)

lemma store_rel_rollback:
  assumes "store_rel env s l"
  shows "store_rel env \<lparr>sg_db = \<lparr>cb_rows = cb_rows (sg_db s), cb_faults = f\<rparr>, sg_cache = cache_clear, sg_events = ev\<rparr> l"
  using assms by (simp add: store_rel_def cache_ok_def cache_clear_def)

text \<open>
  The transaction around a callback: what the callback leaves is kept when it succeeds and the commit
  does, and otherwise the log is as before.
\<close>

lemma for_write_cases:
  assumes cs: "cs_storage cs = Some db" and rel: "store_rel env (guard_of cs db) l"
    and cb: "\<And>s. store_rel env s l \<Longrightarrow> \<exists>s' r. cb s = Some (s', r) \<and>
      (cb_faults (sg_db s) = [] \<longrightarrow> cb_faults (sg_db s') = []) \<and> (Q s' r \<or> (\<exists>e. r = Inl e) \<and> cb_faults (sg_db s) \<noteq> [])"
  obtains (stored) cs' s' x rest where "for_write cb cs = Some (cs', Inr (Inr x))" "Q s' (Inr x)"
      "cs' = \<lparr>cs_storage = Some ((sg_db s')\<lparr>cb_faults := rest\<rparr>), cs_cache = sg_cache s', cs_events = sg_events s'\<rparr>"
  | (refused) cs' e where "for_write cb cs = Some (cs', Inr (Inl e))" "holds env cs' l"
      "(\<exists>s'. Q s' (Inl e)) \<or> cb_faults db \<noteq> []"
  | (failed) cs' where "for_write cb cs = Some (cs', Inl StoreInternalError)" "holds env cs' l" "cb_faults db \<noteq> []"
proof -
  let ?s = "guard_of cs db"
  have sg: "sg_db ?s = db" by simp
  note def = for_write_def with_guard_def cs option.case guard_of_def [symmetric] storage_for_update_def
  show thesis
  proof (cases rule: db_statement_cases [of ?s])
    case (fault rest)
    have "holds env \<lparr>cs_storage = Some \<lparr>cb_rows = cb_rows db, cb_faults = rest\<rparr>, cs_cache = cache_clear, cs_events = cs_events cs\<rparr> l"
      using store_rel_rollback [OF rel, of rest "cs_events cs"] by (simp add: holds_def guard_of_def)
    then show thesis
      by (rule failed [rotated]) (use fault in \<open>cases db; simp add: def op_run update_cache_def\<close>)+
  next
    case (fine rest)
    let ?s1 = "?s\<lparr>sg_db := (sg_db ?s)\<lparr>cb_faults := rest\<rparr>\<rparr>"
    have rel1: "store_rel env ?s1 l" unfolding store_rel_faults by (rule rel)
    obtain s2 r where 2: "cb ?s1 = Some (s2, r)" "cb_faults (sg_db ?s1) = [] \<longrightarrow> cb_faults (sg_db s2) = []"
      "Q s2 r \<or> (\<exists>e. r = Inl e) \<and> cb_faults (sg_db ?s1) \<noteq> []"
      using cb [OF rel1] by blast
    have faults: "cb_faults db \<noteq> []" if "cb_faults (sg_db s2) \<noteq> []" using that 2(2) fine(2) sg by auto
    have undone: "holds env \<lparr>cs_storage = Some \<lparr>cb_rows = cb_rows db, cb_faults = f\<rparr>, cs_cache = cache_clear, cs_events = ev\<rparr> l" for ev f
      using store_rel_rollback [OF rel, of f ev] by (simp add: holds_def guard_of_def)
    show thesis
    proof (cases r)
      case (Inr x)
      then have Q: "Q s2 (Inr x)" using 2(3) by simp
      show thesis
      proof (cases rule: db_statement_cases [of s2])
        case (fault rest')
        show thesis
          by (rule failed [OF _ undone [where ev = "sg_events s2" and f = rest']])
            (use fine 2(1) Inr fault faults in \<open>simp add: def op_run update_cache_def sg\<close>)+
      next
        case fine': (fine rest')
        show thesis
          by (rule stored [OF _ Q refl, where rest = rest'])
            (use fine 2(1) Inr fine' in \<open>simp add: def op_run\<close>)
      qed
    next
      case (Inl e)
      let ?s3 = "s2\<lparr>sg_db := (sg_db s2)\<lparr>cb_rows := cb_rows db\<rparr>\<rparr>"
      have why: "(\<exists>s'. Q s' (Inl e)) \<or> cb_faults db \<noteq> []" using 2(3) Inl fine(2) sg by auto
      show thesis
      proof (cases rule: db_statement_cases [of ?s3])
        case (fault rest')
        show thesis
          by (rule failed [OF _ undone [where ev = "sg_events s2" and f = rest']])
            (use fine 2(1) Inl fault faults in \<open>simp add: def op_run update_cache_def sg\<close>)+
      next
        case fine': (fine rest')
        show thesis
          by (rule refused [OF _ undone [where ev = "sg_events s2" and f = rest'] why])
            (use fine 2(1) Inl fine' in \<open>simp add: def op_run update_cache_def sg\<close>)
      qed
    qed
  qed
qed

end
