(* ===== verification/Certificate_System.thy ===== *)
theory Certificate_System
  imports Certificate_Batch
begin

text \<open>
  The certificate store as a transition system: it is started on an empty database, then batches of
  certificates are added, certificates are read and the store is stopped, in any order and with any
  database faults. Every state of a running store holds an accepted log.
\<close>

subsection \<open>Reads\<close>

datatype read_request =
    ReadUser date_time user_id
  | ReadDevice date_time device_id
  | ReadVerifyKey date_time device_id
  | ReadRevocation up_to user_id
  | ReadUpdate up_to user_id
  | ReadRealmRoles date_time vlob_id
  | ReadShamirRecovery date_time user_id
  | ReadSequesterAuthority
  | ReadSequesterServices date_time
  | ReadSelfProfile
  | ReadLastTimestamps

definition ignore_result :: "('e, 'a) store_op \<Rightarrow> (unit, unit) store_op" where
  "ignore_result m = op_match m (\<lambda>_. op_return ())"

fun perform_read :: "certif_env \<Rightarrow> read_request \<Rightarrow> (unit, unit) store_op" where
  "perform_read env (ReadUser t u) = ignore_result (get_user_certificate env (UpToTimestamp t) u)"
| "perform_read env (ReadDevice t d) = ignore_result (get_device_certificate env (UpToTimestamp t) d)"
| "perform_read env (ReadVerifyKey t d) = ignore_result (get_device_verify_key_and_user_id env (UpToTimestamp t) d)"
| "perform_read env (ReadRevocation up_to u) = ignore_result (get_revoked_user_certificate env up_to u)"
| "perform_read env (ReadUpdate up_to u) = ignore_result (get_last_user_update_certificate env up_to u)"
| "perform_read env (ReadRealmRoles t r) = ignore_result (get_realm_roles env (UpToTimestamp t) r)"
| "perform_read env (ReadShamirRecovery t u) = ignore_result (get_last_shamir_recovery_for_author env (UpToTimestamp t) u)"
| "perform_read env ReadSequesterAuthority = ignore_result (get_sequester_authority_certificate env)"
| "perform_read env (ReadSequesterServices t) = ignore_result (get_sequester_service_certificates env (UpToTimestamp t))"
| "perform_read env ReadSelfProfile = ignore_result (get_current_self_profile env)"
| "perform_read env ReadLastTimestamps = ignore_result get_last_timestamps"

lemma reads_ignore_result:
  assumes "reads env e l m R" shows "reads env () l (ignore_result m) (\<lambda>_. True)"
proof (rule readsI)
  fix s assume "store_rel env s l"
  from readsE [OF assms this] obtain s' r where "m s = Some (s', r)" "keeps s s'" "store_rel env s' l" by metis
  then show "\<exists>s' r. ignore_result m s = Some (s', r) \<and> keeps s s' \<and> store_rel env s' l \<and>
      (True \<or> r = Inl () \<and> cb_faults (sg_db s) \<noteq> [])"
    by (simp add: ignore_result_def op_run)
qed

lemma perform_read_reads: "reads env () l (perform_read env q) (\<lambda>_. True)"
  by (cases q) (simp_all add: reads_ignore_result [OF reads_user_certificate] reads_ignore_result [OF reads_device_certificate]
    reads_ignore_result [OF reads_device_verify_key] reads_ignore_result [OF reads_revoked_user]
    reads_ignore_result [OF reads_user_update] reads_ignore_result [OF reads_realm_roles]
    reads_ignore_result [OF reads_shamir] reads_ignore_result [OF reads_authority]
    reads_ignore_result [OF reads_services] reads_ignore_result [OF reads_self_profile]
    reads_ignore_result [OF reads_last_timestamps])

lemma read_keeps_holding:
  assumes "holds env cs l" "for_read (perform_read env q) cs = Some (cs', r)"
  shows "holds env cs' l"
proof -
  obtain db where db: "cs_storage cs = Some db" "store_rel env (guard_of cs db) l"
    using assms(1) by (auto simp: holds_def)
  from readsE [OF perform_read_reads db(2)] obtain s' x where
    "perform_read env q (guard_of cs db) = Some (s', x)" "store_rel env s' l" by metis
  with assms(2) db(1) show ?thesis
    by (auto simp: for_read_def with_guard_def guard_of_def [symmetric] op_run holds_def store_rel_def)
qed

subsection \<open>Batches\<close>

lemma stored_holds:
  "store_rel env s l \<Longrightarrow>
     holds env \<lparr>cs_storage = Some ((sg_db s)\<lparr>cb_faults := rest\<rparr>), cs_cache = sg_cache s, cs_events = sg_events s\<rparr> l"
  by (simp add: holds_def store_rel_def)

lemma batch_keeps_holding:
  assumes "holds env cs l" "key_ok (ce_local_symkey env)"
    and run: "for_write (add_certificates_batch env common sequester shamir realms) cs = Some (cs', r)"
  shows "\<exists>l'. holds env cs' l'"
proof -
  obtain db where db: "cs_storage cs = Some db" "store_rel env (guard_of cs db) l"
    using assms(1) by (auto simp: holds_def)
  show ?thesis
  proof (rule for_write_cases [where Q = "batch_outcome env l common sequester shamir realms", OF db batch_spec [OF _ assms(2)]])
    fix cs1 s' x rest
    assume "for_write (add_certificates_batch env common sequester shamir realms) cs = Some (cs1, Inr (Inr x))"
      "batch_outcome env l common sequester shamir realms s' (Inr x)"
      "cs1 = \<lparr>cs_storage = Some ((sg_db s')\<lparr>cb_faults := rest\<rparr>), cs_cache = sg_cache s', cs_events = sg_events s'\<rparr>"
    then show ?thesis using run stored_holds [of env s' _ rest] by (cases x) (auto simp: batch_outcome_def)
  qed (use run in auto)
qed

subsection \<open>Reachable stores\<close>

inductive store_reachable :: "certif_env \<Rightarrow> certificates_store \<Rightarrow> bool" for env :: certif_env where
  started: "cb_rows db = [] \<Longrightarrow> store_reachable env (store_start db)"
| added: "store_reachable env cs \<Longrightarrow>
    for_write (add_certificates_batch env common sequester shamir realms) cs = Some (cs', outcome) \<Longrightarrow>
    store_reachable env cs'"
| read: "store_reachable env cs \<Longrightarrow> for_read (perform_read env q) cs = Some (cs', result) \<Longrightarrow> store_reachable env cs'"
| stopped: "store_reachable env cs \<Longrightarrow> store_stop cs = (cs', result) \<Longrightarrow> store_reachable env cs'"

lemma stopped_stays:
  "cs_storage cs = None \<Longrightarrow> for_write cb cs = Some (cs', r) \<Longrightarrow> cs_storage cs' = None"
  "cs_storage cs = None \<Longrightarrow> for_read m cs = Some (cs', r') \<Longrightarrow> cs_storage cs' = None"
  by (auto simp: for_write_def for_read_def with_guard_def)

lemma reachable_holds:
  assumes "store_reachable env cs" "key_ok (ce_local_symkey env)"
  shows "cs_storage cs = None \<or> (\<exists>l. holds env cs l)"
  using assms(1)
proof induction
  case (started db)
  have "store_rel env (guard_of (store_start db) db) []"
    by (rule store_rel_empty) (simp_all add: store_start_def started guard_of_def)
  then show ?case by (auto simp: holds_def store_start_def)
next
  case (added cs common sequester shamir realms cs' outcome)
  then show ?case using stopped_stays(1) batch_keeps_holding [OF _ assms(2)] by metis
next
  case (read cs q cs' result)
  then show ?case using stopped_stays(2) read_keeps_holding by metis
next
  case (stopped cs cs' result)
  then show ?case by (auto simp: store_stop_def)
qed

text \<open>What every accepted log guarantees, a running store guarantees of the certificates in its rows.\<close>

lemma reachable_log:
  assumes "store_reachable env cs" "key_ok (ce_local_symkey env)" "cs_storage cs = Some db"
    and "\<And>l. log_ok (ce_user_id env) l \<Longrightarrow> P l"
  shows "\<exists>l. rows_ok env (cb_rows db) l \<and> P l"
  using reachable_holds [OF assms(1,2)] assms(3,4) by (auto simp: holds_def store_rel_def)

end
