(* ===== verification/Certificate_Properties.thy ===== *)
theory Certificate_Properties
  imports Certificate_System
begin

text \<open>
  The properties of the certificate components, with their witnesses.
\<close>

subsection \<open>A small organization\<close>

text \<open>
  The first byte of a signed certificate is its signing key and the second one its place in
  \<open>demo_certifs\<close>. Alice (user 1, device 11, key 101) bootstraps the organization with the root key 100;
  Bob (user 2, device 21, key 102) is enrolled by her, shares the realm 7 with her and is revoked.
\<close>

definition demo_user :: "certificate_signer \<Rightarrow> date_time \<Rightarrow> user_id \<Rightarrow> any_certificate" where
  "demo_user author t u = CUser \<lparr>uc_author = author, uc_timestamp = t, uc_user_id = u,
     uc_human_handle = Real \<lparr>hh_email = ''user'', hh_label = ''User''\<rparr>, uc_public_key = 1, uc_profile = Admin\<rparr>"

definition demo_device :: "certificate_signer \<Rightarrow> date_time \<Rightarrow> user_id \<Rightarrow> device_id \<Rightarrow> verify_key \<Rightarrow> any_certificate" where
  "demo_device author t u d k = CDevice \<lparr>dc_author = author, dc_timestamp = t, dc_purpose = PurposeStandard, dc_user_id = u,
     dc_device_id = d, dc_device_label = Real ''device'', dc_verify_key = k\<rparr>"

definition demo_role :: "device_id \<Rightarrow> date_time \<Rightarrow> user_id \<Rightarrow> realm_role option \<Rightarrow> any_certificate" where
  "demo_role author t u role = CRealmRole \<lparr>rl_author = author, rl_timestamp = t, rl_realm_id = 7, rl_user_id = u, rl_role = role\<rparr>"

definition demo_rotation :: "date_time \<Rightarrow> u64 \<Rightarrow> any_certificate" where
  "demo_rotation t i = CRealmKeyRotation \<lparr>kt_author = 11, kt_timestamp = t, kt_realm_id = 7, kt_key_index = i, kt_key_canary = []\<rparr>"

definition demo_certifs :: "any_certificate list" where
  "demo_certifs =
     [demo_user SignedByRoot 1 1, demo_device SignedByRoot 1 1 11 101,
      demo_user (SignedByUser 11) 2 2, demo_device (SignedByUser 11) 2 2 21 102,
      demo_device (SignedByUser 21) 4 2 22 103,
      CRevokedUser \<lparr>rv_author = 11, rv_timestamp = 5, rv_user_id = 2\<rparr>,
      demo_role 11 3 1 (Some Owner), demo_role 11 4 2 (Some Owner), demo_rotation 6 1]"

definition demo_codec :: certif_codec where
  "demo_codec = \<lparr>
     cc_verify = (\<lambda>key signed. case signed of [] \<Rightarrow> None | k # payload \<Rightarrow> if k = key then Some payload else None),
     cc_unwrap = (\<lambda>signed. case signed of [] \<Rightarrow> None | _ # payload \<Rightarrow> Some payload),
     cc_sequester_verify = (\<lambda>key signed. case signed of [] \<Rightarrow> None | k # payload \<Rightarrow> if k = key then Some payload else None),
     cc_parse = (\<lambda>payload. case payload of [] \<Rightarrow> None | i # _ \<Rightarrow> if i < length demo_certifs then Some (demo_certifs ! i)
          else if i = length demo_certifs then Some (demo_role 21 7 1 None) else None)\<rparr>"

definition demo_env :: certif_env where
  "demo_env = \<lparr>ce_codec = demo_codec, ce_local_symkey = \<lparr>dk_encrypt = (\<lambda>x. 0 # x), dk_decrypt = (\<lambda>x. Some (tl x))\<rparr>,
     ce_user_id = 1, ce_initial_profile = Admin, ce_root_verify_key = 100\<rparr>"

definition demo_store :: certificates_store where
  "demo_store = \<lparr>cs_storage = Some \<lparr>cb_rows = [], cb_faults = []\<rparr>, cs_cache = cache_clear, cs_events = []\<rparr>"

lemma demo_key: "key_ok (ce_local_symkey demo_env)"
  by (simp add: demo_env_def key_ok_def)

lemma demo_holds: "holds demo_env demo_store []"
  by (auto simp: holds_def demo_store_def guard_of_def intro: store_rel_empty)

lemma ex_Some_case: "(\<exists>x. v = Some x \<and> P x) \<longleftrightarrow> (case v of Some x \<Rightarrow> P x | None \<Rightarrow> False)"
  by (cases v) simp_all

lemmas certif_ok_code [code] = certif_ok.simps [unfolded ex_Some_case]

lemmas author_signed_code [code] = author_signed_def [unfolded ex_Some_case]

subsection \<open>Batches\<close>

text \<open>
  C17. Adding the certificates of one poll implements appending to the log, atomically: from a store that
  holds the log \<open>l\<close>, the write transaction does not panic; if it succeeds, every certificate of the batch was
  accepted after the ones before it (sequester, common, realms, shamir recovery) and the store holds the
  extended log, or nothing when our profile switched to or from Outsider. Otherwise the store still holds
  \<open>l\<close>, and without a database fault this happens only when no extension by the batch exists.
\<close>

theorem batch_refines_log:
  assumes "holds env cs l" "key_ok (ce_local_symkey env)"
  shows "\<exists>cs' r. for_write (add_certificates_batch env common sequester shamir realms) cs = Some (cs', r) \<and>
    (case r of
       Inr (Inr (NoSwitch n)) \<Rightarrow>
         (\<exists>l'. batch_extends env l common sequester shamir realms l' \<and> holds env cs' l')
         \<and> n = batch_size common sequester shamir realms
     | Inr (Inr Switched) \<Rightarrow>
         (\<exists>l' p p'. batch_extends env l common sequester shamir realms l' \<and> l \<noteq> [] \<and>
            self_profile_of env l p \<and> self_profile_of env l' p' \<and> (p = Outsider) \<noteq> (p' = Outsider))
         \<and> holds env cs' []
     | Inr (Inl _) \<Rightarrow> holds env cs' l \<and>
         ((\<exists>db. cs_storage cs = Some db \<and> cb_faults db \<noteq> []) \<or>
          \<not> (\<exists>l'. batch_extends env l common sequester shamir realms l'))
     | Inl _ \<Rightarrow> holds env cs' l \<and> (\<exists>db. cs_storage cs = Some db \<and> cb_faults db \<noteq> []))"
proof -
  obtain db where db: "cs_storage cs = Some db" "store_rel env (guard_of cs db) l"
    using assms(1) by (auto simp: holds_def)
  let ?batch = "add_certificates_batch env common sequester shamir realms"
  have faults: "(\<exists>db'. cs_storage cs = Some db' \<and> cb_faults db' \<noteq> []) \<longleftrightarrow> cb_faults db \<noteq> []" using db by simp
  show ?thesis
  proof (rule for_write_cases [where cb = ?batch and Q = "batch_outcome env l common sequester shamir realms", OF db batch_spec [OF _ assms(2)]])
    fix cs' s' x rest
    assume stored: "for_write ?batch cs = Some (cs', Inr (Inr x))" "batch_outcome env l common sequester shamir realms s' (Inr x)"
      "cs' = \<lparr>cs_storage = Some ((sg_db s')\<lparr>cb_faults := rest\<rparr>), cs_cache = sg_cache s', cs_events = sg_events s'\<rparr>"
    have "holds env cs' l'" if "store_rel env s' l'" for l'
      unfolding stored(3) using that by (simp add: holds_def store_rel_def)
    with stored(1,2) show ?thesis unfolding faults by (cases x) (auto simp: batch_outcome_def)
  next
    fix cs' e assume "for_write ?batch cs = Some (cs', Inr (Inl e))" "holds env cs' l"
      "(\<exists>s'. batch_outcome env l common sequester shamir realms s' (Inl e)) \<or> cb_faults db \<noteq> []"
    then show ?thesis unfolding faults by (auto simp: batch_outcome_def)
  next
    fix cs' assume "for_write ?batch cs = Some (cs', Inl StoreInternalError)" "holds env cs' l" "cb_faults db \<noteq> []"
    then show ?thesis unfolding faults by simp
  qed
qed

definition demo_common :: "byte list list" where
  "demo_common = [[100, 0], [100, 1], [101, 2], [101, 3], [102, 4], [101, 5]]"

definition demo_realms :: "(vlob_id \<times> byte list list) list" where
  "demo_realms = [(7, [[101, 6], [101, 7], [101, 8]])]"

lemma demo_batch_run:
  "map_option snd (for_write (add_certificates_batch demo_env demo_common [] [] demo_realms) demo_store) =
     Some (Inr (Inr (NoSwitch 9)))"
  by code_simp

theorem batch_refines_log_witness:
  "holds demo_env demo_store [] \<and> key_ok (ce_local_symkey demo_env) \<and>
   (\<exists>cs' l'. for_write (add_certificates_batch demo_env demo_common [] [] demo_realms) demo_store =
        Some (cs', Inr (Inr (NoSwitch 9))) \<and>
      batch_extends demo_env [] demo_common [] [] demo_realms l' \<and> holds demo_env cs' l')"
  using batch_refines_log [OF demo_holds demo_key, of demo_common "[]" "[]" demo_realms] demo_batch_run demo_holds demo_key
  by auto

subsection \<open>Validation\<close>

text \<open>
  C18. The validation of each topic decides acceptance: without database faults, it returns a certificate
  exactly when that certificate belongs to the topic, is what the signed bytes hold under the signature of its
  author, and satisfies the consistency rules against the stored log. It neither panics nor changes the rows.
\<close>

theorem validation_decides:
  assumes s: "store_rel env s l" and faults: "cb_faults (sg_db s) = []"
    and topic: "(m, P) \<in> {(validate_common_certificate env signed, \<lambda>c. certif_topic c = CommonTopic),
      (validate_sequester_certificate env signed, \<lambda>c. certif_topic c = SequesterTopic),
      (validate_shamir_recovery_certificate env signed, \<lambda>c. certif_topic c = ShamirTopic),
      (validate_realm_certificate env r signed, \<lambda>c. certif_topic c = RealmTopic r)}"
  shows "\<exists>s' res. m s = Some (s', res) \<and> cb_rows (sg_db s') = cb_rows (sg_db s) \<and> store_rel env s' l \<and>
    (\<forall>c. res = Inr c \<longleftrightarrow> P c \<and> author_signed env l signed c \<and> certif_ok (ce_user_id env) l c)"
proof -
  have "log_ok (ce_user_id env) l" using s by (simp add: store_rel_def)
  then have "decides env l P signed m"
    using topic decides_common decides_sequester decides_shamir decides_realm by auto
  then obtain v where v: "yields env l m v" "\<And>c. v = Some c \<longleftrightarrow> P c \<and> accepted env l signed c" unfolding decides_def by blast
  obtain s' res where "m s = Some (s', res)" "keeps s s'" "store_rel env s' l" "is_result v res"
    using readsE [OF v(1) s] faults by metis
  moreover from this(4) have "res = Inr c \<longleftrightarrow> v = Some c" for c by (cases v) auto
  ultimately show ?thesis using v(2) by (auto simp: keeps_def accepted_def)
qed

definition demo_guard :: store_guard where
  "demo_guard = \<lparr>sg_db = \<lparr>cb_rows = [], cb_faults = []\<rparr>, sg_cache = cache_clear, sg_events = []\<rparr>"

theorem validation_decides_witness:
  "store_rel demo_env demo_guard [] \<and> cb_faults (sg_db demo_guard) = [] \<and>
   (\<exists>s'. validate_common_certificate demo_env [100, 0] demo_guard = Some (s', Inr (demo_user SignedByRoot 1 1))) \<and>
   \<not> (\<exists>s'. validate_common_certificate demo_env [101, 0] demo_guard = Some (s', Inr (demo_user SignedByRoot 1 1)))"
proof -
  have rel: "store_rel demo_env demo_guard []" by (rule store_rel_empty) (simp_all add: demo_guard_def)
  have none: "cb_faults (sg_db demo_guard) = []" by (simp add: demo_guard_def)
  let ?c = "demo_user SignedByRoot 1 1"
  have yes: "certif_topic ?c = CommonTopic \<and> author_signed demo_env [] [100, 0] ?c \<and> certif_ok (ce_user_id demo_env) [] ?c"
    by code_simp
  have no: "\<not> author_signed demo_env [] [101, 0] ?c" by code_simp
  note decide = validation_decides [OF rel none, where P = "\<lambda>c. certif_topic c = CommonTopic" and r = 0]
  obtain s1 r1 where 1: "validate_common_certificate demo_env [100, 0] demo_guard = Some (s1, r1)"
    "\<And>c. r1 = Inr c \<longleftrightarrow> certif_topic c = CommonTopic \<and> author_signed demo_env [] [100, 0] c \<and> certif_ok (ce_user_id demo_env) [] c"
    using decide [where m = "validate_common_certificate demo_env [100, 0]" and signed = "[100, 0]", OF insertI1] by blast
  have "r1 = Inr ?c" unfolding 1(2) by (rule yes)
  then have "\<exists>s'. validate_common_certificate demo_env [100, 0] demo_guard = Some (s', Inr ?c)" using 1(1) by simp
  moreover obtain s2 r2 where 2: "validate_common_certificate demo_env [101, 0] demo_guard = Some (s2, r2)"
    "\<And>c. r2 = Inr c \<longleftrightarrow> certif_topic c = CommonTopic \<and> author_signed demo_env [] [101, 0] c \<and> certif_ok (ce_user_id demo_env) [] c"
    using decide [where m = "validate_common_certificate demo_env [101, 0]" and signed = "[101, 0]", OF insertI1] by blast
  have "r2 \<noteq> Inr ?c" unfolding 2(2) using no by (simp only: simp_thms)
  then have "\<not> (\<exists>s'. validate_common_certificate demo_env [101, 0] demo_guard = Some (s', Inr ?c))" using 2(1) by simp
  ultimately show ?thesis using rel none by blast
qed

subsection \<open>Accepted logs\<close>

inductive_cases log_ok_snocE: "log_ok self (l @ [c])"

lemma log_at:
  assumes "log_ok self (pre @ c # post)" shows "log_ok self pre" "certif_ok self pre c"
proof -
  have "log_ok self (pre @ c # post) \<longrightarrow> log_ok self pre \<and> certif_ok self pre c"
  proof (induction post rule: rev_induct)
    case Nil
    show ?case by (auto elim: log_ok_snocE)
  next
    case (snoc d post)
    have "log_ok self ((pre @ c # post) @ [d]) \<Longrightarrow> log_ok self (pre @ c # post)" by (erule log_ok_snocE)
    with snoc show ?case by simp
  qed
  with assms show "log_ok self pre" "certif_ok self pre c" by blast+
qed

lemma log_unique:
  assumes log: "log_ok self l" and ab: "a \<in> set l" "b \<in> set l" "P a" "P b"
    and P: "\<And>pre c. log_ok self pre \<Longrightarrow> certif_ok self pre c \<Longrightarrow> P c \<Longrightarrow> list_all (\<lambda>c'. \<not> P c') pre"
  shows "a = b"
proof (rule ccontr)
  assume ne: "a \<noteq> b"
  obtain pre post where l: "l = pre @ a # post" using ab(1) by (meson split_list)
  have "b \<notin> set pre" using log_at [OF log [unfolded l]] P ab by (auto simp: list_all_iff)
  with ab ne l have "b \<in> set post" by auto
  then obtain mid rest where "post = mid @ b # rest" by (meson split_list)
  then have "log_ok self ((pre @ a # mid) @ b # rest)" using log l by simp
  from log_at [OF this] P ab show False by (auto simp: list_all_iff)
qed

lemma user_unique:
  assumes "log_ok self l" "CUser a \<in> set l" "CUser b \<in> set l" "uc_user_id a = uc_user_id b" shows "a = b"
proof -
  have "CUser a = CUser b"
    by (rule log_unique [OF assms(1-3), where P = "is_user (uc_user_id b)"])
      (use assms(4) in \<open>auto elim!: is_user.elims split: certificate_signer.split_asm\<close>)
  then show ?thesis by simp
qed

lemma device_unique:
  assumes "log_ok self l" "CDevice a \<in> set l" "CDevice b \<in> set l" "dc_device_id a = dc_device_id b" shows "a = b"
proof -
  have "CDevice a = CDevice b"
    by (rule log_unique [OF assms(1-3), where P = "is_device (dc_device_id b)"])
      (use assms(4) in \<open>auto elim!: is_device.elims split: certificate_signer.split_asm\<close>)
  then show ?thesis by simp
qed

lemma revocation_unique:
  assumes "log_ok self l" "CRevokedUser a \<in> set l" "CRevokedUser b \<in> set l" "rv_user_id a = rv_user_id b" shows "a = b"
proof -
  have none: "list_all (\<lambda>c'. \<not> is_revocation (rv_user_id b) c') pre"
    if ok: "certif_ok self pre c" and c: "is_revocation (rv_user_id b) c" for pre c
  proof -
    obtain r where r: "c = CRevokedUser r" "rv_user_id r = rv_user_id b" using c by (cases c) auto
    with ok have "\<not> revoked_at pre (rv_timestamp r) (rv_user_id b)" "newest pre c" by auto
    moreover have "certif_topic d = CommonTopic" if "is_revocation u d" for u d using that by (cases d) auto
    ultimately show ?thesis using r by (fastforce simp: revoked_at_def latest_None list_all_iff newest_iff)
  qed
  have "CRevokedUser a = CRevokedUser b"
    by (rule log_unique [OF assms(1-3), where P = "is_revocation (rv_user_id b)"]) (use assms(4) none in auto)
  then show ?thesis by simp
qed

lemma device_has_user:
  assumes "log_ok self l" "CDevice d \<in> set l"
  shows "\<exists>u. CUser u \<in> set l \<and> uc_user_id u = dc_user_id d \<and> uc_timestamp u \<le> dc_timestamp d"
proof -
  obtain pre post where l: "l = pre @ CDevice d # post" using assms(2) by (meson split_list)
  have "user_at pre (dc_timestamp d) (dc_user_id d) \<noteq> None"
    using log_at(2) [OF assms(1) [unfolded l]] by (auto split: certificate_signer.split_asm if_split_asm option.split_asm)
  then obtain u where "user_at pre (dc_timestamp d) (dc_user_id d) = Some u" by blast
  from user_at_SomeD [OF this] l show ?thesis by auto
qed

lemma revoked_has_user:
  assumes "log_ok self l" "CRevokedUser r \<in> set l"
  shows "\<exists>u. CUser u \<in> set l \<and> uc_user_id u = rv_user_id r \<and> uc_timestamp u < rv_timestamp r"
proof -
  obtain pre post where l: "l = pre @ CRevokedUser r # post" using assms(2) by (meson split_list)
  have "user_at pre (rv_timestamp r) (rv_user_id r) \<noteq> None" and new: "newest pre (CRevokedUser r)"
    using log_at(2) [OF assms(1) [unfolded l]] by auto
  then obtain u where "user_at pre (rv_timestamp r) (rv_user_id r) = Some u" by blast
  from user_at_SomeD [OF this] l new show ?thesis
    by (intro exI [of _ u]) (auto simp: newest_iff)
qed

text \<open>A user, a device and the revocation of a user have one certificate each, and follow their user.\<close>

definition identities_unique :: "certif_log \<Rightarrow> bool" where
  "identities_unique l \<longleftrightarrow>
     (\<forall>a b. CUser a \<in> set l \<and> CUser b \<in> set l \<and> uc_user_id a = uc_user_id b \<longrightarrow> a = b) \<and>
     (\<forall>a b. CDevice a \<in> set l \<and> CDevice b \<in> set l \<and> dc_device_id a = dc_device_id b \<longrightarrow> a = b) \<and>
     (\<forall>a b. CRevokedUser a \<in> set l \<and> CRevokedUser b \<in> set l \<and> rv_user_id a = rv_user_id b \<longrightarrow> a = b) \<and>
     (\<forall>d. CDevice d \<in> set l \<longrightarrow>
        (\<exists>u. CUser u \<in> set l \<and> uc_user_id u = dc_user_id d \<and> uc_timestamp u \<le> dc_timestamp d)) \<and>
     (\<forall>r. CRevokedUser r \<in> set l \<longrightarrow>
        (\<exists>u. CUser u \<in> set l \<and> uc_user_id u = rv_user_id r \<and> uc_timestamp u < rv_timestamp r))"

lemma log_identities_unique:
  assumes log: "log_ok self l" shows "identities_unique l"
  unfolding identities_unique_def using user_unique [OF log] device_unique [OF log] revocation_unique [OF log]
    device_has_user [OF log] revoked_has_user [OF log] by blast

text \<open>Within a topic, the certificates are stored by increasing time.\<close>

definition topics_ordered :: "certif_log \<Rightarrow> bool" where
  "topics_ordered l \<longleftrightarrow> (\<forall>t. sorted (map certif_timestamp (filter (\<lambda>c. certif_topic c = t) l)))"

lemma log_topics_ordered: "log_ok self l \<Longrightarrow> topics_ordered l"
  unfolding topics_ordered_def sorted_map by (blast intro: log_sorted_topic)

text \<open>
  C20. Identity and order in a running store: whatever was added and read, a user, a device and the revocation of a
  user have at most one certificate each among the stored ones, a device belongs to a user enrolled no later than it,
  a user is revoked only after its enrolment, and the times of the certificates of a topic do not decrease.
\<close>

theorem log_identities:
  assumes "store_reachable env cs" "key_ok (ce_local_symkey env)" "cs_storage cs = Some db"
  shows "\<exists>l. rows_ok env (cb_rows db) l \<and> identities_unique l \<and> topics_ordered l"
  by (rule reachable_log [OF assms]) (simp add: log_identities_unique log_topics_ordered)

lemma log_revocation_final:
  assumes log: "log_ok self l" and rv: "CRevokedUser rv \<in> set l"
    and c: "c \<in> set l" "certif_topic c = CommonTopic" "certif_author c = SignedByUser d"
    and dc: "CDevice dc \<in> set l" "dc_device_id dc = d" "dc_user_id dc = rv_user_id rv"
  shows "certif_timestamp c < rv_timestamp rv"
proof -
  have author: "a = rv_user_id rv" if "l = pre @ post" "author_user pre t d = Some a" for pre post t a
  proof -
    from that(2) obtain x where x: "device_at pre t d = Some x" "a = dc_user_id x" by (auto simp: author_user_def)
    from device_at_SomeD [OF x(1)] that(1) have "CDevice x \<in> set l" "dc_device_id x = dc_device_id dc" using dc(2) by auto
    then have "x = dc" using device_unique [OF log _ dc(1)] by blast
    with x dc(3) show ?thesis by simp
  qed
  obtain pre post where l: "l = pre @ CRevokedUser rv # post" using rv by (meson split_list)
  note at = log_at [OF log [unfolded l]]
  have new: "newest pre (CRevokedUser rv)" using at(2) by auto
  consider "c \<in> set pre" | "c = CRevokedUser rv" | "c \<in> set post" using c(1) l by auto
  then show ?thesis
  proof cases
    case 1
    with new c(2) show ?thesis by (auto simp: newest_iff)
  next
    case 2
    with at(2) c(3) obtain a where "author_user pre (rv_timestamp rv) d = Some a" "a \<noteq> rv_user_id rv" by auto
    with author [OF l] show ?thesis by blast
  next
    case 3
    then obtain mid rest where post: "post = mid @ c # rest" by (meson split_list)
    let ?pre = "pre @ CRevokedUser rv # mid"
    have l': "l = ?pre @ c # rest" using l post by simp
    have ok: "certif_ok self ?pre c" using log_at(2) log l' by metis
    then obtain a where a: "author_user ?pre (certif_timestamp c) d = Some a" and "\<not> revoked_at ?pre (certif_timestamp c) a"
      using c(2,3) by (cases c) (auto simp: active_admin_def split: if_split_asm)
    then have "\<not> revoked_at ?pre (certif_timestamp c) (rv_user_id rv)" using author [OF l'] by blast
    moreover have "rv_timestamp rv \<le> certif_timestamp c"
      using certif_ok_not_older [OF ok] c(2) by (auto simp: not_older_iff)
    ultimately show ?thesis by (auto simp: revoked_at_def latest_None)
  qed
qed

definition revocations_final :: "certif_log \<Rightarrow> bool" where
  "revocations_final l \<longleftrightarrow>
     (\<forall>rv dc c. CRevokedUser rv \<in> set l \<and> CDevice dc \<in> set l \<and> dc_user_id dc = rv_user_id rv \<and>
        c \<in> set l \<and> certif_topic c = CommonTopic \<and> certif_author c = SignedByUser (dc_device_id dc) \<longrightarrow>
        certif_timestamp c < rv_timestamp rv)"

text \<open>
  C19. A revocation is final in the common topic of a running store: every stored certificate of that topic
  that a device of a revoked user authored is older than the revocation.
\<close>

theorem revocation_is_final:
  assumes "store_reachable env cs" "key_ok (ce_local_symkey env)" "cs_storage cs = Some db"
  shows "\<exists>l. rows_ok env (cb_rows db) l \<and> revocations_final l"
  by (rule reachable_log [OF assms]) (auto simp: revocations_final_def intro: log_revocation_final)

text \<open>The store of the small organization after its first batch.\<close>

lemma demo_reachable:
  "\<exists>cs db. for_write (add_certificates_batch demo_env demo_common [] [] demo_realms) demo_store = Some (cs, Inr (Inr (NoSwitch 9))) \<and>
     store_reachable demo_env cs \<and> cs_storage cs = Some db \<and> length (cb_rows db) = 9"
proof -
  let ?run = "for_write (add_certificates_batch demo_env demo_common [] [] demo_realms) demo_store"
  have "(case ?run of Some (cs, Inr (Inr (NoSwitch n))) \<Rightarrow>
      n = 9 \<and> map_option (\<lambda>db. length (cb_rows db)) (cs_storage cs) = Some 9 | _ \<Rightarrow> False)" by code_simp
  then obtain cs db where run: "?run = Some (cs, Inr (Inr (NoSwitch 9)))" "cs_storage cs = Some db" "length (cb_rows db) = 9"
    by (auto split: option.split_asm prod.split_asm sum.split_asm maybe_redacted_switch.split_asm)
  have "store_reachable demo_env (store_start \<lparr>cb_rows = [], cb_faults = []\<rparr>)" by (rule started) simp
  then have "store_reachable demo_env demo_store" by (simp add: store_start_def demo_store_def)
  from added [OF this run(1)] run show ?thesis by blast
qed

text \<open>The rows of a store determine the log it holds, as far as they are not signed by the sequester authority.\<close>

lemma rows_determine_log:
  assumes "rows_ok env rows l"
    and "\<forall>r \<in> set rows. cr_type r \<noteq> TSequesterService \<and> cr_type r \<noteq> TSequesterRevokedService"
  shows "map Inr l = map (\<lambda>r. base_unsecure_load (ce_codec env) Some (the (dk_decrypt (ce_local_symkey env) (cr_data r)))) rows"
proof -
  have "Inr c = base_unsecure_load (ce_codec env) Some (the (dk_decrypt (ce_local_symkey env) (cr_data r)))"
    if "row_of env l r c" "cr_type r \<noteq> TSequesterService" "cr_type r \<noteq> TSequesterRevokedService" for r c
    using that by (cases c) (auto simp: row_of_def stores_def)
  moreover from assms have "list_all2 (\<lambda>r c. row_of env l r c \<and> r \<in> set rows) rows l"
    by (simp add: rows_ok_def list_all2_conv_all_nth)
  ultimately show ?thesis
    using assms(2) by (intro nth_equalityI) (auto simp: list_all2_conv_all_nth)
qed

lemma demo_log: "\<exists>s. store_rel demo_env s demo_certifs \<and> cb_faults (sg_db s) = []"
proof -
  let ?run = "for_write (add_certificates_batch demo_env demo_common [] [] demo_realms) demo_store"
  let ?load = "\<lambda>r. base_unsecure_load (ce_codec demo_env) Some (the (dk_decrypt (ce_local_symkey demo_env) (cr_data r)))"
  have "(case ?run of None \<Rightarrow> False | Some (cs, _) \<Rightarrow> (case cs_storage cs of None \<Rightarrow> False | Some db \<Rightarrow>
      cb_faults db = [] \<and> map ?load (cb_rows db) = map Inr demo_certifs \<and>
      list_all (\<lambda>r. cr_type r \<noteq> TSequesterService \<and> cr_type r \<noteq> TSequesterRevokedService) (cb_rows db)))" by code_simp
  then obtain cs outcome db where run: "?run = Some (cs, outcome)" "cs_storage cs = Some db" "cb_faults db = []"
    "map ?load (cb_rows db) = map Inr demo_certifs"
    "list_all (\<lambda>r. cr_type r \<noteq> TSequesterService \<and> cr_type r \<noteq> TSequesterRevokedService) (cb_rows db)"
    by (auto split: option.split_asm prod.split_asm)
  obtain l where "holds demo_env cs l" using batch_keeps_holding [OF demo_holds demo_key run(1)] by blast
  with run(2) have l: "store_rel demo_env (guard_of cs db) l" by (simp add: holds_def)
  then have "rows_ok demo_env (cb_rows db) l" by (simp add: store_rel_def guard_of_def)
  from rows_determine_log [OF this] run(4,5) have "map Inr l = (map Inr demo_certifs :: (data_error + any_certificate) list)"
    by (simp add: list_all_iff)
  then have "l = demo_certifs" by (simp add: inj_map_eq_map)
  with l run(3) show ?thesis by (intro exI [of _ "guard_of cs db"]) (simp add: guard_of_def)
qed

theorem log_identities_witness:
  "\<exists>cs db l. store_reachable demo_env cs \<and> key_ok (ce_local_symkey demo_env) \<and> cs_storage cs = Some db \<and>
     length (cb_rows db) = 9 \<and> rows_ok demo_env (cb_rows db) l \<and> identities_unique l \<and> topics_ordered l"
  using demo_reachable log_identities [OF _ demo_key] demo_key by metis

theorem revocation_is_final_witness:
  "\<exists>cs db l. store_reachable demo_env cs \<and> key_ok (ce_local_symkey demo_env) \<and> cs_storage cs = Some db \<and>
     length (cb_rows db) = 9 \<and> rows_ok demo_env (cb_rows db) l \<and> revocations_final l"
  using demo_reachable revocation_is_final [OF _ demo_key] demo_key by metis

lemma log_starts_with_owner:
  assumes log: "log_ok self l" and c: "c \<in> set l" "certif_topic c = RealmTopic r"
  shows "\<exists>pre role post. l = pre @ CRealmRole role # post \<and> topic_empty pre (RealmTopic r) \<and> rl_realm_id role = r \<and>
    rl_role role = Some Owner \<and> author_user pre (rl_timestamp role) (rl_author role) = Some (rl_user_id role)"
proof -
  obtain pre x post where l: "l = pre @ x # post" and x: "certif_topic x = RealmTopic r" "topic_empty pre (RealmTopic r)"
    using split_list_first_prop [of l "\<lambda>x. certif_topic x = RealmTopic r"] c by (auto simp: topic_empty_def list_all_iff)
  have ok: "certif_ok self pre x" using log_at(2) [OF log [unfolded l]] .
  have "filter (\<lambda>c. is_role_in r c \<and> certif_timestamp c \<le> t) pre = []" for t
  proof -
    have "certif_topic c = RealmTopic r" if "is_role_in r c" for c using that by (cases c) auto
    with x(2) show ?thesis by (auto simp: filter_empty_conv topic_empty_def list_all_iff)
  qed
  then have none: "roles_at pre t r = []" for t by (simp add: roles_at_def List.map_filter_simps)
  obtain role where "x = CRealmRole role"
    using x(1) ok none by (cases x) (auto simp: realm_owner_ok_def last_role_def)
  with x ok none l show ?thesis by (intro exI [of _ pre] exI [of _ role] exI [of _ post]) auto
qed

definition realms_start_with_owner :: "certif_log \<Rightarrow> bool" where
  "realms_start_with_owner l \<longleftrightarrow>
     (\<forall>c r. c \<in> set l \<and> certif_topic c = RealmTopic r \<longrightarrow>
        (\<exists>pre role post. l = pre @ CRealmRole role # post \<and> topic_empty pre (RealmTopic r) \<and> rl_realm_id role = r \<and>
           rl_role role = Some Owner \<and> author_user pre (rl_timestamp role) (rl_author role) = Some (rl_user_id role)))"

text \<open>
  C21. A realm starts with its owner: in a running store, the first certificate of a realm is a role
  certificate that its own author signed and that gives that author the role of owner.
\<close>

theorem realm_starts_with_owner:
  assumes "store_reachable env cs" "key_ok (ce_local_symkey env)" "cs_storage cs = Some db"
  shows "\<exists>l. rows_ok env (cb_rows db) l \<and> realms_start_with_owner l"
proof (rule reachable_log [OF assms])
  fix l assume "log_ok (ce_user_id env) l"
  from log_starts_with_owner [OF this] show "realms_start_with_owner l" unfolding realms_start_with_owner_def by blast
qed

theorem realm_starts_with_owner_witness:
  "\<exists>cs db l. store_reachable demo_env cs \<and> key_ok (ce_local_symkey demo_env) \<and> cs_storage cs = Some db \<and>
     length (cb_rows db) = 9 \<and> rows_ok demo_env (cb_rows db) l \<and> realms_start_with_owner l"
  using demo_reachable realm_starts_with_owner [OF _ demo_key] demo_key by metis

subsection \<open>Reading\<close>

text \<open>
  A method answers \<open>r\<close> on a store that holds the log \<open>l\<close>: it does not panic, leaves the rows as they were and
  the cache coherent with the log.
\<close>

definition answers :: "certif_env \<Rightarrow> store_guard \<Rightarrow> certif_log \<Rightarrow> ('e, 'a) store_op \<Rightarrow> ('e + 'a) \<Rightarrow> bool" where
  "answers env s l m r \<longleftrightarrow>
     (\<exists>s'. m s = Some (s', r) \<and> cb_rows (sg_db s') = cb_rows (sg_db s) \<and> cache_ok env l (sg_cache s'))"

lemma reads_answers:
  assumes "reads env err l m R" "store_rel env s l" "cb_faults (sg_db s) = []"
  obtains r where "answers env s l m r" "R r"
  using readsE [OF assms(1,2)] assms(3) unfolding answers_def store_rel_def by (metis keeps_def)

lemma returns_answers:
  "returns env err l m r \<Longrightarrow> store_rel env s l \<Longrightarrow> cb_faults (sg_db s) = [] \<Longrightarrow> answers env s l m r"
  by (erule (2) reads_answers) simp

text \<open>
  C22. The read methods implement the lookups of the log: without database faults, and whatever the cache holds as
  long as it is coherent with the log, they return what the log says at the given time, leave the rows as they were
  and keep the cache coherent with the log.
\<close>

theorem getters_read_log:
  assumes "store_rel env s l" "cb_faults (sg_db s) = []"
  shows "answers env s l (get_user_certificate env (at t) u)
      (case user_at l t u of Some c \<Rightarrow> Inr c | None \<Rightarrow> Inl (missing (is_user u) (at t) l)) \<and>
    answers env s l (get_device_certificate env (at t) d)
      (case device_at l t d of Some c \<Rightarrow> Inr c | None \<Rightarrow> Inl (missing (is_device d) (at t) l)) \<and>
    answers env s l (get_device_verify_key_and_user_id env (at t) d)
      (case device_at l t d of Some dc \<Rightarrow> Inr (dc_verify_key dc, dc_user_id dc)
       | None \<Rightarrow> Inl (missing (is_device d) (at t) l)) \<and>
    answers env s l (get_revoked_user_certificate env up_to u)
      (Inr (Option.bind (latest (is_revocation u) up_to l) as_revoked_user)) \<and>
    answers env s l (get_last_user_update_certificate env up_to u)
      (Inr (Option.bind (latest (is_update u) up_to l) as_user_update)) \<and>
    answers env s l (get_realm_roles env (at t) r) (Inr (roles_at l t r)) \<and>
    answers env s l (get_last_shamir_recovery_for_author env (at t) u) (Inr (shamir_at l t u)) \<and>
    answers env s l (get_sequester_authority_certificate env) (Inr (authority_of l)) \<and>
    (\<exists>p. answers env s l (get_current_self_profile env) (Inr p) \<and> self_profile_of env l p) \<and>
    (\<exists>ts. answers env s l get_last_timestamps (Inr ts) \<and> timestamps_of ts l)"
proof -
  have "\<exists>p. answers env s l (get_current_self_profile env) (Inr p) \<and> self_profile_of env l p"
    by (rule reads_answers [OF reads_self_profile assms]) blast
  moreover have "\<exists>ts. answers env s l get_last_timestamps (Inr ts) \<and> timestamps_of ts l"
    by (rule reads_answers [OF reads_last_timestamps assms]) blast
  ultimately show ?thesis
    by (intro conjI) (assumption | rule returns_answers [OF reads_user_certificate assms]
      returns_answers [OF reads_device_certificate assms] returns_answers [OF reads_device_verify_key assms]
      returns_answers [OF reads_revoked_user assms] returns_answers [OF reads_user_update assms]
      returns_answers [OF reads_realm_roles assms] returns_answers [OF reads_shamir assms]
      returns_answers [OF reads_authority assms])+
qed

theorem getters_read_log_witness:
  "\<exists>s. store_rel demo_env s demo_certifs \<and> cb_faults (sg_db s) = [] \<and>
     answers demo_env s demo_certifs (get_user_certificate demo_env (at 1) 2) (Inl (ExistButTooRecent 2)) \<and>
     answers demo_env s demo_certifs (get_device_verify_key_and_user_id demo_env (at 9) 22) (Inr (103, 2)) \<and>
     answers demo_env s demo_certifs (get_realm_roles demo_env (at 3) 7)
       (Inr [\<lparr>rl_author = 11, rl_timestamp = 3, rl_realm_id = 7, rl_user_id = 1, rl_role = Some Owner\<rparr>])"
proof -
  obtain s where s: "store_rel demo_env s demo_certifs" "cb_faults (sg_db s) = []" using demo_log by blast
  have user: "user_at demo_certifs 1 2 = None" "missing (is_user 2) (at 1) demo_certifs = ExistButTooRecent 2" by code_simp+
  have device: "map_option (\<lambda>dc. (dc_verify_key dc, dc_user_id dc)) (device_at demo_certifs 9 22) = Some (103, 2)" by code_simp
  have roles: "roles_at demo_certifs 3 7 =
    [\<lparr>rl_author = 11, rl_timestamp = 3, rl_realm_id = 7, rl_user_id = 1, rl_role = Some Owner\<rparr>]" by code_simp
  note reads = getters_read_log [OF s]
  from reads [of 1 2] user have "answers demo_env s demo_certifs (get_user_certificate demo_env (at 1) 2) (Inl (ExistButTooRecent 2))"
    by simp
  moreover from reads [of 9 0 22] device
  have "answers demo_env s demo_certifs (get_device_verify_key_and_user_id demo_env (at 9) 22) (Inr (103, 2))"
    by (cases "device_at demo_certifs 9 22") simp_all
  moreover from reads [of 3 0 0 _ 7] roles
  have "answers demo_env s demo_certifs (get_realm_roles demo_env (at 3) 7)
     (Inr [\<lparr>rl_author = 11, rl_timestamp = 3, rl_realm_id = 7, rl_user_id = 1, rl_role = Some Owner\<rparr>])" by simp
  ultimately show ?thesis using s by blast
qed

fun topic_timestamp :: "per_topic_last_timestamps \<Rightarrow> topic \<Rightarrow> date_time option" where
  "topic_timestamp ts CommonTopic = pt_common ts"
| "topic_timestamp ts SequesterTopic = pt_sequester ts"
| "topic_timestamp ts ShamirTopic = pt_shamir_recovery ts"
| "topic_timestamp ts (RealmTopic r) = hm_get (pt_realm ts) r"

lemma up_to_date_topic:
  assumes "pt_is_up_to_date ts needed" "topic_timestamp needed t = Some m"
  shows "\<exists>m'. topic_timestamp ts t = Some m' \<and> m \<le> m'"
proof (cases t)
  case (RealmTopic r)
  with assms(2) have "(r, m) \<in> set (pt_realm needed)" by (auto dest: map_of_SomeD)
  with assms(1) RealmTopic show ?thesis
    by (auto simp: pt_is_up_to_date_def list_all_iff split: if_split_asm option.split_asm)
qed (use assms in \<open>cases "topic_timestamp ts t"; auto simp: pt_is_up_to_date_def split: if_split_asm\<close>)+

lemma timestamps_of_topic: "timestamps_of ts l \<Longrightarrow> topic_timestamp ts t = last_ts t l"
  by (cases t) (simp_all add: timestamps_of_def)

definition recent_enough :: "certif_log \<Rightarrow> per_topic_last_timestamps \<Rightarrow> bool" where
  "recent_enough l needed \<longleftrightarrow>
     (\<forall>t m. topic_timestamp needed t = Some m \<longrightarrow> (\<exists>c \<in> set l. certif_topic c = t \<and> m \<le> certif_timestamp c))"

lemma recent_enoughI:
  assumes "log_ok self l" "timestamps_of ts l" "pt_is_up_to_date ts needed" shows "recent_enough l needed"
  unfolding recent_enough_def
proof (intro allI impI)
  fix t m assume "topic_timestamp needed t = Some m"
  then obtain m' where m': "last_ts t l = Some m'" "m \<le> m'"
    using up_to_date_topic [OF assms(3)] timestamps_of_topic [OF assms(2)] by fastforce
  from last_ts_Some(2) [OF assms(1) m'(1)] m'(2)
  show "\<exists>c \<in> set l. certif_topic c = t \<and> m \<le> certif_timestamp c" by auto
qed

lemma try_with_requirements_spec:
  assumes cs: "holds env cs l" and "try_with_requirements needed cb cs = Some (cs', Inr v)"
  shows "case v of
      Some res \<Rightarrow> \<exists>s s'. cb s = Some (s', res) \<and> store_rel env s l \<and> recent_enough l needed
    | None \<Rightarrow> holds env cs' l"
proof -
  obtain db where db: "cs_storage cs = Some db" "store_rel env (guard_of cs db) l" using cs by (auto simp: holds_def)
  then have log: "log_ok (ce_user_id env) l" by (simp add: store_rel_def)
  obtain s1 r1 where 1: "get_last_timestamps (guard_of cs db) = Some (s1, r1)" "store_rel env s1 l"
    "(\<exists>ts. r1 = Inr ts \<and> timestamps_of ts l) \<or> r1 = Inl Anyhow"
    using readsE [OF reads_last_timestamps db(2)] by metis
  show ?thesis
  proof (cases r1)
    case (Inl e)
    with assms(2) 1(1) db(1) show ?thesis
      by (simp add: try_with_requirements_def for_read_def with_guard_def guard_of_def [symmetric] op_run)
  next
    case (Inr ts)
    then have ts: "timestamps_of ts l" using 1(3) by simp
    show ?thesis
    proof (cases "pt_is_up_to_date ts needed")
      case True
      from recent_enoughI [OF log ts True] have "recent_enough l needed" .
      with assms(2) 1(1,2) db(1) Inr True show ?thesis
        by (auto simp: try_with_requirements_def for_read_def with_guard_def guard_of_def [symmetric] op_run
          split: option.split_asm; blast)
    next
      case False
      have "holds env \<lparr>cs_storage = Some (sg_db s1), cs_cache = sg_cache s1, cs_events = sg_events s1\<rparr> l"
        using 1(2) by (simp add: holds_def store_rel_def)
      with assms(2) 1(1) db(1) Inr False show ?thesis
        by (auto simp: try_with_requirements_def for_read_def with_guard_def guard_of_def [symmetric] op_run)
    qed
  qed
qed

text \<open>
  C23. A read with requirements only runs its callback on a store that is recent enough: for every topic with
  a required timestamp, the log that the callback reads has a certificate of that topic at least as recent.
  The poll of the server is a parameter, of which it is enough that it leaves a store that holds some log.
\<close>

theorem requirements_met:
  fixes poll :: "per_topic_last_timestamps \<Rightarrow> certificates_store \<Rightarrow> (certificates_store \<times> ('p poll_error + unit)) option"
  assumes cs: "holds env cs l"
    and poll: "\<And>cs cs' r l. holds env cs l \<Longrightarrow> poll needed cs = Some (cs', r) \<Longrightarrow> \<exists>l'. holds env cs' l'"
    and run: "for_read_with_requirements poll needed cb cs = Some (cs', Inr res)"
  shows "\<exists>s s' l'. cb s = Some (s', res) \<and> store_rel env s l' \<and> recent_enough l' needed"
proof -
  let ?attempt = "\<lambda>cs. try_with_requirements needed cb cs :: (certificates_store \<times> ('p for_read_requirements_error + _)) option"
  obtain cs1 v1 where 1: "?attempt cs = Some (cs1, Inr v1)"
    using run by (auto simp: for_read_with_requirements_def split: option.split_asm sum.split_asm)
  note first = try_with_requirements_spec [OF cs 1]
  show ?thesis
  proof (cases v1)
    case (Some res1)
    with run 1 first show ?thesis by (auto simp: for_read_with_requirements_def)
  next
    case None
    then have held: "holds env cs1 l" using first by simp
    obtain cs2 r2 where 2: "poll needed cs1 = Some (cs2, Inr r2)"
      using run 1 None by (auto simp: for_read_with_requirements_def split: option.split_asm sum.split_asm)
    obtain l2 where l2: "holds env cs2 l2" using poll [OF held 2] by blast
    obtain cs3 v3 where 3: "?attempt cs2 = Some (cs3, Inr v3)"
      using run 1 None 2 by (auto simp: for_read_with_requirements_def split: option.split_asm sum.split_asm)
    note second = try_with_requirements_spec [OF l2 3]
    show ?thesis using run 1 None 2 3 second
      by (cases v3) (auto simp: for_read_with_requirements_def)
  qed
qed

definition demo_poll :: "per_topic_last_timestamps \<Rightarrow> certificates_store \<Rightarrow> (certificates_store \<times> (unit poll_error + unit)) option" where
  "demo_poll needed cs =
     (case for_write (add_certificates_batch demo_env (take 2 demo_common) [] [] []) cs of
        None \<Rightarrow> None
      | Some (cs', Inr (Inr _)) \<Rightarrow> Some (cs', Inr ())
      | Some (cs', _) \<Rightarrow> Some (cs', Inl PollInternal))"

lemma demo_poll_holds:
  assumes "holds demo_env cs l" "demo_poll needed cs = Some (cs', r)" shows "\<exists>l'. holds demo_env cs' l'"
proof -
  from assms(2) obtain r' where "for_write (add_certificates_batch demo_env (take 2 demo_common) [] [] []) cs = Some (cs', r')"
    by (auto simp: demo_poll_def split: option.split_asm prod.split_asm sum.split_asm)
  from batch_keeps_holding [OF assms(1) demo_key this] show ?thesis .
qed

theorem requirements_met_witness:
  "\<exists>cs' s s' ts l'. for_read_with_requirements demo_poll (pt_new_for_common 1) get_last_timestamps demo_store = Some (cs', Inr (Inr ts)) \<and>
     get_last_timestamps s = Some (s', Inr ts) \<and> store_rel demo_env s l' \<and> recent_enough l' (pt_new_for_common 1)"
proof -
  have "(case for_read_with_requirements demo_poll (pt_new_for_common 1) get_last_timestamps demo_store of
      Some (_, Inr (Inr ts)) \<Rightarrow> True | _ \<Rightarrow> False)" by code_simp
  then obtain cs' ts where run: "for_read_with_requirements demo_poll (pt_new_for_common 1) get_last_timestamps demo_store =
      Some (cs', Inr (Inr ts))" by (auto split: option.split_asm prod.split_asm sum.split_asm)
  have "\<exists>s s' l'. get_last_timestamps s = Some (s', Inr ts) \<and> store_rel demo_env s l' \<and> recent_enough l' (pt_new_for_common 1)"
    by (rule requirements_met [OF demo_holds _ run]) (rule demo_poll_holds)
  with run show ?thesis by blast
qed

subsection \<open>What the checks let through\<close>

fun topic_validation :: "certif_env \<Rightarrow> topic \<Rightarrow> byte list \<Rightarrow> any_certificate add_op" where
  "topic_validation env CommonTopic signed = validate_common_certificate env signed"
| "topic_validation env SequesterTopic signed = validate_sequester_certificate env signed"
| "topic_validation env ShamirTopic signed = validate_shamir_recovery_certificate env signed"
| "topic_validation env (RealmTopic r) signed = validate_realm_certificate env r signed"

lemma topic_validation_answers:
  assumes s: "store_rel env s l" "cb_faults (sg_db s) = []"
  shows "answers env s l (topic_validation env t signed) (Inr c) \<longleftrightarrow> certif_topic c = t \<and> accepted env l signed c"
proof -
  have log: "log_ok (ce_user_id env) l" using s by (simp add: store_rel_def)
  have "decides env l (\<lambda>c. certif_topic c = t) signed (topic_validation env t signed)"
    using decides_common decides_sequester decides_shamir decides_realm log by (cases t) simp_all
  then obtain v where v: "yields env l (topic_validation env t signed) v"
    "\<And>c. v = Some c \<longleftrightarrow> certif_topic c = t \<and> accepted env l signed c" unfolding decides_def by blast
  obtain res where res: "answers env s l (topic_validation env t signed) res" "is_result v res"
    using reads_answers [OF v(1) s] .
  from res(1) have "answers env s l (topic_validation env t signed) (Inr c) \<longleftrightarrow> res = Inr c"
    by (auto simp: answers_def)
  also have "\<dots> \<longleftrightarrow> v = Some c" using res(2) by (cases v) (auto simp: is_result_def)
  finally show ?thesis by (simp add: v(2))
qed

text \<open>The members of a realm are known users, so that an owner may remove any of them.\<close>

lemma member_known:
  assumes log: "log_ok self l" and member: "last_role v (roles_at l t r) \<noteq> None"
  shows "user_at l t v \<noteq> None"
proof -
  obtain role where "role \<in> set (roles_at l t r)" "rl_user_id role = v"
    using member by (auto simp: last_role_def find_Some_iff in_set_conv_nth rev_nth Option.bind_eq_Some_conv)
       (metis diff_less length_greater_0_conv list.size(3) not_less0 zero_less_Suc)
  then have role: "CRealmRole role \<in> set l" "rl_timestamp role \<le> t" "rl_user_id role = v"
    by (auto simp: roles_at_def List.map_filter_def elim: is_role_in.elims)
  obtain pre post where l: "l = pre @ CRealmRole role # post" using role(1) by (meson split_list)
  then obtain u where "user_at pre (rl_timestamp role) v = Some u"
    using log_at(2) [OF log [unfolded l]] role(3) by auto
  from user_at_SomeD [OF this] l role(2) have "CUser u \<in> set l" "uc_user_id u = v" "uc_timestamp u \<le> t" by auto
  then have "latest (is_user v) (at t) l \<noteq> None" by (auto simp: latest_None intro: bexI [of _ "CUser u"])
  then obtain c where c: "latest (is_user v) (at t) l = Some c" by blast
  with latest_SomeD(2) [OF c] show ?thesis by (cases c) (auto simp: user_at_def)
qed

lemma owner_removes_member:
  assumes log: "log_ok self l" and new: "newest l (CRealmRole c)" "rl_role c = None"
    and author: "author_user l (rl_timestamp c) (rl_author c) = Some a"
      "last_role a (roles_at l (rl_timestamp c) (rl_realm_id c)) = Some Owner"
    and member: "last_role (rl_user_id c) (roles_at l (rl_timestamp c) (rl_realm_id c)) \<noteq> None"
  shows "certif_ok self l (CRealmRole c)"
proof -
  have "roles_at l (rl_timestamp c) (rl_realm_id c) \<noteq> []" using member by (auto simp: last_role_def)
  moreover have "may_change_role Owner (last_role (rl_user_id c) (roles_at l (rl_timestamp c) (rl_realm_id c))) None"
    using member by (simp add: may_change_role_def)
  ultimately show ?thesis using assms member_known [OF log member] by (simp add: Let_def)
qed

lemma revoked_author_refused:
  assumes "certif_ok self l c" "as_realm_role c = None" "certif_author c = SignedByUser d"
    "author_user l (certif_timestamp c) d = Some a"
  shows "\<not> revoked_at l (certif_timestamp c) a"
  using assms by (cases c) (auto simp: active_admin_def realm_owner_ok_def split: if_split_asm)

text \<open>A user is not revoked at the time it was enrolled.\<close>

lemma enrolled_not_revoked:
  assumes log: "log_ok self l" and u: "user_at l t v = Some u" "uc_timestamp u = t"
  shows "\<not> revoked_at l t v"
proof
  assume "revoked_at l t v"
  then obtain c where c: "latest (is_revocation v) (at t) l = Some c" by (auto simp: revoked_at_def)
  from latest_SomeD(2) [OF c] obtain r where r: "c = CRevokedUser r" "rv_user_id r = v" by (cases c) auto
  with latest_SomeD [OF c] have "CRevokedUser r \<in> set l" "rv_timestamp r \<le> t" by auto
  with revoked_has_user [OF log] r(2) obtain u' where "CUser u' \<in> set l" "uc_user_id u' = v" "uc_timestamp u' < t"
    by fastforce
  with user_unique [OF log] user_at_SomeD [OF u(1)] u(2) show False by fastforce
qed

lemma second_device_ok:
  assumes log: "log_ok self l" and old: "not_older l (CDevice c)"
    and user: "user_at l (dc_timestamp c) (dc_user_id c) = Some u" "uc_author u = dc_author c" "uc_timestamp u = dc_timestamp c"
    and author: "dc_author c = SignedByUser d" "author_user l (dc_timestamp c) d = Some a" "a \<noteq> dc_user_id c"
      "active_admin l (dc_timestamp c) a"
    and id: "\<forall>dc. CDevice dc \<in> set l \<longrightarrow> dc_device_id dc \<noteq> dc_device_id c"
  shows "certif_ok self l (CDevice c)"
proof -
  have "list_all (\<lambda>c'. \<not> is_device (dc_device_id c) c') l"
    using id by (auto simp: list_all_iff elim: is_device.elims)
  moreover have "\<not> revoked_at l (dc_timestamp c) (dc_user_id c)"
    using enrolled_not_revoked [OF log user(1)] user(3) by simp
  ultimately show ?thesis using assms by simp
qed

subsubsection \<open>Reading the key rotations\<close>

fun is_rotation_in :: "vlob_id \<Rightarrow> any_certificate \<Rightarrow> bool" where
  "is_rotation_in r (CRealmKeyRotation c) = (kt_realm_id c = r)" | "is_rotation_in r _ = False"

definition rotations_at :: "certif_log \<Rightarrow> up_to \<Rightarrow> vlob_id \<Rightarrow> realm_key_rotation_certificate list" where
  "rotations_at l u r =
     List.map_filter as_realm_key_rotation (filter (\<lambda>c. is_rotation_in r c \<and> up_to_allows u (certif_timestamp c)) l)"

fun is_rotation :: "vlob_id \<Rightarrow> u64 \<Rightarrow> any_certificate \<Rightarrow> bool" where
  "is_rotation r i (CRealmKeyRotation c) = (kt_realm_id c = r \<and> kt_key_index c = i)" | "is_rotation r i _ = False"

lemma query_rotations:
  "query_certif (Filter1 TRealmKeyRotation (FBytes r)) = (\<lambda>c. is_rotation_in r c)"
  "query_certif (BothFilters TRealmKeyRotation (FBytes r) (FU64 i)) = (\<lambda>c. is_rotation r i c)"
  by (rule ext, case_tac c, auto simp: sql_eq_def)+

lemma rotation_kind:
  "is_rotation_in r c \<Longrightarrow> plain c \<and> as_realm_key_rotation c \<noteq> None"
  "is_rotation r i c \<Longrightarrow> plain c \<and> as_realm_key_rotation c \<noteq> None"
  by (cases c; simp add: plain_def)+

lemma strict_rotations:
  assumes "log_ok self l" shows "strict_on (is_rotation_in r) l" "strict_on (is_rotation r i) l"
proof -
  have "certif_topic c = RealmTopic r \<and> as_device c = None \<and> as_shamir_share c = None"
    if "is_rotation_in r c \<or> is_rotation r i c" for c using that by (cases c) auto
  then show "strict_on (is_rotation_in r) l" "strict_on (is_rotation r i) l"
    by (auto intro!: log_strict_kind [OF assms, where t = "RealmTopic r"])
qed

lemma reads_rotation:
  "returns env Anyhow l (get_realm_key_rotation_certificate env u r i)
     (Inr (Option.bind (latest (is_rotation r i) UpToCurrent l) as_realm_key_rotation))"
  unfolding get_realm_key_rotation_certificate_def
  by (rule reads_log, rule reads_load_last(2)) (simp_all add: query_rotations strict_rotations rotation_kind)

lemma reads_rotations:
  "returns env Anyhow l (get_realm_key_rotation_certificates env u r)
     (if map kt_key_index (rotations_at l u r) = [1 ..< Suc (length (rotations_at l u r))]
      then Inr (rotations_at l u r) else Inl Anyhow)"
  unfolding get_realm_key_rotation_certificates_def
proof (rule reads_log, rule reads_bind)
  assume "log_ok (ce_user_id env) l"
  then show "returns env Anyhow l
      (load_certificates env as_realm_key_rotation (Filter1 TRealmKeyRotation (FBytes r)) u None None) (Inr (rotations_at l u r))"
    unfolding rotations_at_def
    by (intro reads_load_certificates) (simp_all add: query_rotations strict_rotations rotation_kind)
qed (auto simp: op_ensure_def reads_def op_return_def op_throw_def op_bind_def op_match_def)

text \<open>
  C39. Five flaws of the checks on certificates, for every store that holds an accepted log, without database faults.
  An owner of a realm removes any of its members by a role certificate that passes the validation, whether or not the
  owner is revoked and whether or not the member is the owner itself, although the comments say that a revoked user
  cannot author anything and that such a certificate cannot be self-signed; any other certificate of a revoked author
  is refused. A user gets a further device from the administrator that enrolled it: the certificate passes, with the
  timestamp of the enrolment, even if the user already has a device. The read of one key rotation ignores the time it
  is asked for, and answers with what the whole log says. The index of a rotation is not checked: a rotation of an
  owner passes with any index, and when the indexes of the stored rotations are not 1, 2, and so on, the read of the
  rotations reports a corrupted storage.
\<close>

theorem certificate_flaws:
  assumes "store_rel env s l" "cb_faults (sg_db s) = []"
  shows "(\<forall>signed c a. author_signed env l signed (CRealmRole c) \<and> newest l (CRealmRole c) \<and> rl_role c = None \<and>
      author_user l (rl_timestamp c) (rl_author c) = Some a \<and>
      last_role a (roles_at l (rl_timestamp c) (rl_realm_id c)) = Some Owner \<and>
      last_role (rl_user_id c) (roles_at l (rl_timestamp c) (rl_realm_id c)) \<noteq> None \<longrightarrow>
      answers env s l (validate_realm_certificate env (rl_realm_id c) signed) (Inr (CRealmRole c))) \<and>
    (\<forall>signed c d a t. as_realm_role c = None \<and> certif_author c = SignedByUser d \<and>
      author_user l (certif_timestamp c) d = Some a \<and> revoked_at l (certif_timestamp c) a \<longrightarrow>
      \<not> answers env s l (topic_validation env t signed) (Inr c)) \<and>
    (\<forall>signed c u d a first. author_signed env l signed (CDevice c) \<and> not_older l (CDevice c) \<and>
      CDevice first \<in> set l \<and> dc_user_id first = dc_user_id c \<and>
      user_at l (dc_timestamp c) (dc_user_id c) = Some u \<and> uc_author u = dc_author c \<and> uc_timestamp u = dc_timestamp c \<and>
      dc_author c = SignedByUser d \<and> author_user l (dc_timestamp c) d = Some a \<and> a \<noteq> dc_user_id c \<and>
      active_admin l (dc_timestamp c) a \<and> (\<forall>dc. CDevice dc \<in> set l \<longrightarrow> dc_device_id dc \<noteq> dc_device_id c) \<longrightarrow>
      answers env s l (validate_common_certificate env signed) (Inr (CDevice c))) \<and>
    (\<forall>u r i. answers env s l (get_realm_key_rotation_certificate env u r i)
      (Inr (Option.bind (latest (is_rotation r i) UpToCurrent l) as_realm_key_rotation))) \<and>
    (\<forall>signed c a i. author_signed env l signed (CRealmKeyRotation (c\<lparr>kt_key_index := i\<rparr>)) \<and>
      author_user l (kt_timestamp c) (kt_author c) = Some a \<and>
      realm_owner_ok l (CRealmKeyRotation c) (kt_realm_id c) a \<longrightarrow>
      answers env s l (validate_realm_certificate env (kt_realm_id c) signed) (Inr (CRealmKeyRotation (c\<lparr>kt_key_index := i\<rparr>)))) \<and>
    (\<forall>u r. map kt_key_index (rotations_at l u r) \<noteq> [1 ..< Suc (length (rotations_at l u r))] \<longrightarrow>
      answers env s l (get_realm_key_rotation_certificates env u r) (Inl Anyhow))"
  (is "?role \<and> ?other \<and> ?device \<and> ?read \<and> ?index \<and> ?corrupted")
proof -
  have log: "log_ok (ce_user_id env) l" using assms(1) by (simp add: store_rel_def)
  note valid = topic_validation_answers [OF assms]
  have realm: "answers env s l (validate_realm_certificate env r signed) (Inr c) \<longleftrightarrow>
      certif_topic c = RealmTopic r \<and> accepted env l signed c" for r signed c
    using valid [of "RealmTopic r"] by simp
  have common: "answers env s l (validate_common_certificate env signed) (Inr c) \<longleftrightarrow>
      certif_topic c = CommonTopic \<and> accepted env l signed c" for signed c
    using valid [of CommonTopic] by simp
  have ?role using owner_removes_member [OF log] unfolding realm accepted_def by fastforce
  moreover have ?other using revoked_author_refused unfolding valid accepted_def by blast
  moreover have ?device using second_device_ok [OF log] unfolding common accepted_def by fastforce
  moreover have ?read using returns_answers [OF reads_rotation assms] by blast
  moreover have ?index unfolding realm accepted_def
    by (auto simp: realm_owner_ok_def newest_def)
  moreover have ?corrupted
  proof (intro allI impI)
    fix u r assume "map kt_key_index (rotations_at l u r) \<noteq> [1 ..< Suc (length (rotations_at l u r))]"
    with returns_answers [OF reads_rotations [of env l u r] assms]
    show "answers env s l (get_realm_key_rotation_certificates env u r) (Inl Anyhow)" by (simp only: if_False)
  qed
  ultimately show ?thesis by (intro conjI)
qed

theorem certificate_flaws_witness:
  "\<exists>s. store_rel demo_env s demo_certifs \<and> cb_faults (sg_db s) = [] \<and> revoked_at demo_certifs 7 2 \<and>
     answers demo_env s demo_certifs (validate_realm_certificate demo_env 7 [102, 9]) (Inr (demo_role 21 7 1 None)) \<and>
     (\<exists>c. answers demo_env s demo_certifs (get_realm_key_rotation_certificate demo_env (at 5) 7 1) (Inr (Some c)) \<and>
        kt_timestamp c = 6)"
proof -
  obtain s where s: "store_rel demo_env s demo_certifs" "cb_faults (sg_db s) = []" using demo_log by blast
  let ?c = "\<lparr>rl_author = 21, rl_timestamp = 7, rl_realm_id = 7, rl_user_id = 1, rl_role = None\<rparr>"
  have "revoked_at demo_certifs 7 2" by code_simp
  moreover have "author_signed demo_env demo_certifs [102, 9] (CRealmRole ?c)" "newest demo_certifs (CRealmRole ?c)"
    "author_user demo_certifs 7 21 = Some 2" "last_role 2 (roles_at demo_certifs 7 7) = Some Owner"
    "last_role 1 (roles_at demo_certifs 7 7) = Some Owner" by code_simp+
  then have "answers demo_env s demo_certifs (validate_realm_certificate demo_env 7 [102, 9]) (Inr (demo_role 21 7 1 None))"
    using certificate_flaws [OF s, THEN conjunct1, rule_format, of "[102, 9]" ?c 2] by (simp add: demo_role_def)
  moreover have "map_option kt_timestamp
      (Option.bind (latest (is_rotation 7 1) UpToCurrent demo_certifs) as_realm_key_rotation) = Some 6" by code_simp
  then obtain c where "Option.bind (latest (is_rotation 7 1) UpToCurrent demo_certifs) as_realm_key_rotation = Some c"
    "kt_timestamp c = 6" by blast
  with certificate_flaws [OF s, THEN conjunct2, THEN conjunct2, THEN conjunct2, THEN conjunct1, rule_format, of "at 5" 7 1]
  have "\<exists>c. answers demo_env s demo_certifs (get_realm_key_rotation_certificate demo_env (at 5) 7 1) (Inr (Some c)) \<and>
      kt_timestamp c = 6" by auto
  ultimately show ?thesis using s by blast
qed

end
