(* ===== verification/Spec2Isabelle.thy ===== *)
theory Spec2Isabelle
  imports File_Properties Manifest_Roundtrip Folder_Properties Tree_Properties Tree_Flaws Certificate_Properties
begin

text \<open>
  \<^bold>\<open>The core of the Parsec client.\<close>

  Parsec is an end-to-end encrypted file sharing service. The server stores opaque blocks, signed manifests
  and signed certificates; everything that makes the service trustworthy is done by the client library
  \<^verbatim>\<open>libparsec\<close> (Rust, \<^verbatim>\<open>src/libparsec/crates\<close>). This development models four of its subsystems, as they are
  written, and proves what they promise to the rest of the client:

  \<^item> \<^emph>\<open>files\<close>: the description of a file as chunk views, the operations on opened files, their storage, and
    the locks that keep one writer per manifest;
  \<^item> \<^emph>\<open>folders and merges\<close>: entry names and paths, folder manifests with the entries that stay on the device, and
    the merge of local manifests with newer remote ones;
  \<^item> \<^emph>\<open>the workspace tree\<close>: the manifests of a workspace in cache, storage and server, the resolution of paths over
    them, and the creation, removal and moves of entries;
  \<^item> \<^emph>\<open>certificates\<close>: the validation and the storage of the signed statements (users, devices, roles, keys,
    sequester services, shamir recoveries) that say who may do what in an organization.

  Paths below are relative to \<^verbatim>\<open>src/libparsec/crates\<close>.

  \<^bold>\<open>Conventions.\<close> A panic (\<^verbatim>\<open>expect\<close>, \<^verbatim>\<open>assert!\<close>, an index out of range) is the value \<^const>\<open>None\<close> of an
  option, so that a theorem that an operation returns \<^const>\<open>Some\<close> says that it does not panic. A
  \<^verbatim>\<open>Result\<close> is a sum, \<^const>\<open>Inl\<close> the error. Unsigned integers are natural numbers with the wrap-around of
  release builds written out (\<open>u64_add\<close>, \<open>u64_sub\<close>, \<open>u32_add\<close>); identifiers are natural numbers; times are
  integers. Random identifiers, the clock, the server, serialisation and cryptography are arguments, with what
  the code relies on as named hypotheses (\<open>key_ok\<close>: what is encrypted with the local key is decrypted again;
  \<open>fetch_ok\<close>: the server returns the data of a block, or fails). A failing database is a list of outcomes that the statements consume, so a
  theorem holds for every pattern of failures. Hash maps are association lists with the operations \<open>hm_get\<close>,
  \<open>hm_insert\<close> and \<open>hm_remove\<close>. An async method that holds its mutex from its first lookup to its end is one
  step of the model; so are opening a file by its id and closing a descriptor, whose interleavings between two
  awaits are not modelled. The counter of the search of a free name, an i32, is a natural number: it stays below the number of
  reserved names. The server is a function of the id asked for: its answer does not change within an operation. The order in which a hash map is visited is a parameter where
  the result may depend on it (\<open>hash_iter\<close>). Every loop of the modelled code is a structural recursion or a recursion
  with a measure, except the search of a free name (\<open>conflict_loop\<close>) and the loops that populate the cache or wait for a
  lock (resolving a path, a move, an id): these are partial functions in which not to return is \<^const>\<open>None\<close>, and they are shown
  to return. No fuel is used. Strings are lists of UTF-8 bytes; the normalisation of names is an argument.

  \<^bold>\<open>Shared theories.\<close> \<^verbatim>\<open>Prelude\<close> has the integers, hash maps, results, the generic binary search
  of \<^verbatim>\<open>slice::binary_search_by_key\<close> and the shared lemmas; \<^verbatim>\<open>Fallible_State\<close> the operations of async methods (state, panic and
  result); \<^verbatim>\<open>Sql_Table\<close> tables with a primary key.

  \<^bold>\<open>Files.\<close>
  \<^item> \<^verbatim>\<open>Manifest_Types\<close> (\<^verbatim>\<open>types/src/manifest.rs\<close>): remote manifests, roles, integrity checks, \<^verbatim>\<open>verify\<close>.
  \<^item> \<^verbatim>\<open>Local_File_Manifest\<close> (\<^verbatim>\<open>types/src/local_manifest/file.rs\<close>): chunk views and the local file manifest. The
    integrity check decides rules on the addresses that the views cover (\<open>local_geometry\<close>), and \<open>byte_source\<close> is the abstraction of a manifest to the
    raw byte behind each address. \<^verbatim>\<open>Manifest_Roundtrip\<close> goes to the remote manifest and back.
  \<^item> \<^verbatim>\<open>File_Operations\<close> (\<^verbatim>\<open>client/src/workspace/transactions/file_operations.rs\<close>), with \<^verbatim>\<open>File_Write\<close> and
    \<^verbatim>\<open>File_Resize\<close>: reading, writing, resizing, reshaping. The bisections are equal to whole-list clipping, and
    each operation is characterised on \<open>byte_source\<close>.
  \<^item> \<^verbatim>\<open>Workspace_Storage\<close> (\<^verbatim>\<open>platform_storage/src/native/workspace.rs\<close>): the SQL tables and transactions of a
    workspace. \<^verbatim>\<open>Round_Robin_Cache\<close> (\<^verbatim>\<open>types/src/round_robin_cache.rs\<close>) and \<^verbatim>\<open>Chunk_Store\<close>
    (\<^verbatim>\<open>client/src/workspace/store/mod.rs\<close>): the data of a chunk through cache, storage and server.
  \<^item> \<^verbatim>\<open>Update_Lock\<close> (\<^verbatim>\<open>client/src/workspace/store/per_manifest_update_lock.rs\<close>): the lock of each manifest, as
    operations and as a transition system of tasks; mutual exclusion and no lost wake-up.
  \<^item> \<^verbatim>\<open>Opened_File\<close> and \<^verbatim>\<open>File_Descriptors\<close> (\<^verbatim>\<open>client/src/workspace/mod.rs\<close>, \<^verbatim>\<open>transactions/fd_*.rs\<close>,
    \<^verbatim>\<open>open_file.rs\<close>, \<^verbatim>\<open>store/file_updater.rs\<close>): the operations on opened files and descriptors.
    \<^verbatim>\<open>File_Content\<close>, \<^verbatim>\<open>File_Flush\<close> and \<^verbatim>\<open>File_Spec\<close> show that an opened file implements a file of bytes (the
    locale \<open>byte_file\<close> is that contract, interpreted on the opened files); \<^verbatim>\<open>File_Table\<close> is the transition system of
    all descriptors with its invariant, and \<^verbatim>\<open>File_Properties\<close> states the results with their witnesses.

  \<^bold>\<open>Folders and merges.\<close>
  \<^item> \<^verbatim>\<open>Entry_Name\<close> (\<^verbatim>\<open>types/src/fs_path.rs\<close>): entry names and paths, parsing and printing. \<^verbatim>\<open>Conflict_Name\<close>: the
    search of a free name of \<^verbatim>\<open>client/src/workspace/merge.rs\<close>. The suffix, the counter and the cuts leave room for
    \<open>10 ^ 8\<close> reserved names, more than a folder holds.
  \<^item> \<^verbatim>\<open>Local_Folder_Manifest\<close> (\<^verbatim>\<open>types/src/local_manifest/folder.rs\<close>, \<^verbatim>\<open>mod.rs\<close>, \<^verbatim>\<open>user.rs\<close>,
    \<^verbatim>\<open>types/src/prevent_sync_pattern.rs\<close>): folder manifests and confinement. \<^verbatim>\<open>Folder_Confinement\<close> characterises every
    operation on the map from names to ids, and has the invariant \<open>folder_ok\<close>.
  \<^item> \<^verbatim>\<open>Manifest_Merge\<close> (\<^verbatim>\<open>client/src/workspace/merge.rs\<close>, \<^verbatim>\<open>client/src/user/merge.rs\<close>): the three merges.
    \<^verbatim>\<open>Folder_Merge\<close> shows what the three-way merge of children keeps, \<^verbatim>\<open>File_Merge\<close> what the merge of a file
    decides, in terms of the bytes that the local file and its base show.
  \<^item> \<^verbatim>\<open>Folder_System\<close> is the transition system of one folder manifest (created, fetched, changed, merged, with another
    pattern) and \<^verbatim>\<open>Folder_Properties\<close> states the results, and concrete merges that lose a change.

  \<^bold>\<open>The workspace tree.\<close>
  \<^item> \<^verbatim>\<open>Workspace_Tree\<close> (\<^verbatim>\<open>client/src/workspace/store/cache.rs\<close>, \<^verbatim>\<open>manifest_access.rs\<close>): the cache of manifests and how it
    is populated from the storage or the server. \<^verbatim>\<open>Path_Resolution\<close> (\<^verbatim>\<open>store/resolve_path.rs\<close>): from a path to its
    manifest, the source and destination of a move with their locks, from an id to its path. \<^verbatim>\<open>Entry_Operations\<close>
    (\<^verbatim>\<open>store/folder_updater.rs\<close>, \<^verbatim>\<open>reparent_updater.rs\<close>, \<^verbatim>\<open>transactions/create_file.rs\<close>, \<^verbatim>\<open>create_folder.rs\<close>,
    \<^verbatim>\<open>remove_entry.rs\<close>, \<^verbatim>\<open>move_entry.rs\<close>): the operations on entries. \<^verbatim>\<open>Entry_Reading\<close> (\<^verbatim>\<open>transactions/stat_entry.rs\<close>,
    \<^verbatim>\<open>read_folder.rs\<close>): the description of an entry and the listing of a folder, with the table of opened files.
  \<^item> The state is abstracted twice. \<^verbatim>\<open>Tree_View\<close>: \<open>tree_known\<close> is the manifest of an id whatever the layer that has it,
    and populating does not change it. \<^verbatim>\<open>Tree_Links\<close> and \<^verbatim>\<open>Tree_Shape\<close>: \<open>tree_paths\<close> is the relation between paths and
    entries, over links that the folder and the entry agree on; what cutting, adding and moving a link does to it.
  \<^item> \<^verbatim>\<open>Tree_Paths\<close> and \<^verbatim>\<open>Tree_Retrieval\<close> show that the resolutions compute that relation; \<^verbatim>\<open>Tree_Writes\<close>,
    \<^verbatim>\<open>Tree_Create\<close>, \<^verbatim>\<open>Tree_Remove\<close>, \<^verbatim>\<open>Tree_Reparent\<close>, \<^verbatim>\<open>Tree_Move\<close>, \<^verbatim>\<open>Tree_Move_Across\<close>, \<^verbatim>\<open>Tree_Move_Entry\<close> and \<^verbatim>\<open>Tree_Move_Far\<close>
    that the operations change it as they promise, on every branch; \<^verbatim>\<open>Tree_Reading\<close> that a listing reads it.
  \<^item> \<^verbatim>\<open>Tree_System\<close> has the contract of the operations (the locale \<open>tree_operation\<close>, interpreted on each) and the
    transition system of all of them; \<^verbatim>\<open>Tree_Properties\<close> states the results, applied to the workspace of
    \<^verbatim>\<open>Tree_Sample\<close>, and \<^verbatim>\<open>Tree_Flaws\<close> concrete workspaces on which the operations fail.
  \<^item> One task runs at a time: a lock that another task holds is waited for through \<open>te_wait\<close>, and the theorems are about
    entries that nobody else has locked.

  \<^bold>\<open>Certificates.\<close>
  \<^item> \<^verbatim>\<open>Certificate_Types\<close> (\<^verbatim>\<open>types/src/certif.rs\<close>): the fourteen certificates, the four topics, loading.
  \<^item> \<^verbatim>\<open>Certificate_Storage\<close> (\<^verbatim>\<open>platform_storage/src/certificates.rs\<close>, \<^verbatim>\<open>native/certificates.rs\<close>): rows, queries,
    last timestamps, transactions.
  \<^item> \<^verbatim>\<open>Certificate_Store\<close> (\<^verbatim>\<open>client/src/certif/store.rs\<close>): the cache, all the read and insertion methods, and the
    guards.
  \<^item> \<^verbatim>\<open>Certificate_Add\<close> (\<^verbatim>\<open>client/src/certif/add.rs\<close>): the whole validation and the batch.
  \<^item> \<^verbatim>\<open>Certificate_Log\<close> is the specification: an organization is a log, \<open>certif_ok\<close> says which certificate may
    be appended to it. \<^verbatim>\<open>Certificate_Refinement\<close> shows that rows and cache implement the log,
    \<^verbatim>\<open>Certificate_Validation\<close> that the validation decides \<open>certif_ok\<close>, \<^verbatim>\<open>Certificate_Batch\<close> that a batch appends
    atomically (the locale \<open>topic_writer\<close> is the contract between a validation and its insertion, interpreted on the
    four topics). \<^verbatim>\<open>Certificate_System\<close> is the transition system of a store that is started, written, read and
    stopped: each of its states holds an accepted log. \<^verbatim>\<open>Certificate_Properties\<close> states the results, what an accepted log guarantees, and
    which certificates the code accepts, on every store, although it means to refuse them.

  \<^bold>\<open>Not modelled.\<close> The synchronisation of a workspace (fetching and uploading manifests), the ignore file of the
  prevent sync pattern, the operations that send requests to the server, the invitation and enrollment protocols, the history of a
  workspace: each is mostly an exchange of messages with the server, whose replies the sources do not define. Input and output only, so without a model: the protocol messages and the HTTP
  connection, cryptographic primitives, mount points, key files, platform services, bindings, the command line
  and the test data.
\<close>

end
